(* ===== verification/Prelude.thy ===== *)
theory Prelude
  imports Main "HOL-Library.AList"
begin

text \<open>
  Shared vocabulary of the development.

  \<^item> \<open>json\<close>: the strict JSON values that the recorded payloads hold
    (\<open>loushang.foundation.json\<close>). A finite float is kept as the text Python prints for it.
  \<^item> Python dictionaries keep insertion order; they are association lists with distinct keys,
    read by \<open>map_of\<close> and written by \<open>AList.update\<close>, which keeps the place of a key it
    overwrites and puts a new key last, as a Python assignment does.
  \<^item> A function that may raise returns \<open>'e + 'a\<close>: \<open>Inl\<close> is the exception, \<open>Inr\<close> the
    returned value. \<open>rbind\<close> sequences two such computations and \<open>rfold\<close> runs a Python
    \<open>for\<close> loop whose body may raise.
  \<^item> The locale \<open>checked_machine\<close> is the interface between a step function that may refuse
    an entry and the invariant it keeps; every replay loop of the program interprets it.
\<close>

section \<open>Strict JSON values\<close>

datatype json =
    JNull
  | JBool bool
  | JInt int
  | JFloat string
  | JStr string
  | JList "json list"
  | JObj "(string \<times> json) list"

type_synonym payload = "(string \<times> json) list"

text \<open>\<open>isinstance(value, Mapping)\<close> with the empty mapping for anything else.\<close>

fun nested_mapping :: "json option \<Rightarrow> payload" where
  "nested_mapping (Some (JObj kvs)) = kvs"
| "nested_mapping _ = []"

text \<open>\<open>value if isinstance(value, str) and value else None\<close>.\<close>

fun optional_string :: "json option \<Rightarrow> string option" where
  "optional_string (Some (JStr s)) = (if s = [] then None else Some s)"
| "optional_string _ = None"

lemma optional_string_Some_iff:
  "optional_string v = Some s \<longleftrightarrow> v = Some (JStr s) \<and> s \<noteq> []"
  by (cases v rule: optional_string.cases) auto

text \<open>Python's \<open>a or b\<close> on optional strings that are never empty.\<close>

definition or_else :: "'a option \<Rightarrow> 'a option \<Rightarrow> 'a option" where
  "or_else a b = (case a of None \<Rightarrow> b | Some x \<Rightarrow> Some x)"

lemma or_else_simps [simp]:
  "or_else None b = b" "or_else (Some x) b = Some x" "or_else a None = a"
  by (simp_all add: or_else_def split: option.split)

section \<open>Results\<close>

definition rbind :: "'e + 'a \<Rightarrow> ('a \<Rightarrow> 'e + 'b) \<Rightarrow> 'e + 'b" where
  "rbind m f = (case m of Inl e \<Rightarrow> Inl e | Inr x \<Rightarrow> f x)"

definition require :: "bool \<Rightarrow> 'e \<Rightarrow> 'e + unit" where
  "require b e = (if b then Inr () else Inl e)"

definition succeeds :: "'e + 'a \<Rightarrow> bool" where
  "succeeds m = (case m of Inl _ \<Rightarrow> False | Inr _ \<Rightarrow> True)"

lemma rbind_simps [simp]:
  "rbind (Inl e) f = Inl e" "rbind (Inr x) f = f x"
  by (simp_all add: rbind_def)

lemma rbind_Inr_right: "rbind m Inr = m"
  by (cases m) simp_all

lemma rbind_Inr_iff: "rbind m f = Inr y \<longleftrightarrow> (\<exists>x. m = Inr x \<and> f x = Inr y)"
  by (cases m) auto

lemma rbind_Inl_iff: "rbind m f = Inl e \<longleftrightarrow> m = Inl e \<or> (\<exists>x. m = Inr x \<and> f x = Inl e)"
  by (cases m) auto

lemma require_simps [simp]:
  "require True e = Inr ()" "require False e = Inl e"
  "require b e = Inr u \<longleftrightarrow> b" "require b e = Inl e' \<longleftrightarrow> \<not> b \<and> e' = e"
  by (auto simp: require_def)

lemma succeeds_simps [simp]:
  "succeeds (Inl e) = False" "succeeds (Inr x) = True"
  by (simp_all add: succeeds_def)

lemma succeeds_iff: "succeeds m \<longleftrightarrow> (\<exists>x. m = Inr x)"
  by (cases m) auto

named_theorems result_iffs "inversion of the result combinators"
declare rbind_Inr_iff [result_iffs]

fun rfold :: "('s \<Rightarrow> 'a \<Rightarrow> 'e + 's) \<Rightarrow> 's \<Rightarrow> 'a list \<Rightarrow> 'e + 's" where
  "rfold f s [] = Inr s"
| "rfold f s (x # xs) = rbind (f s x) (\<lambda>s'. rfold f s' xs)"

fun rmap :: "('a \<Rightarrow> 'e + 'b) \<Rightarrow> 'a list \<Rightarrow> 'e + 'b list" where
  "rmap f [] = Inr []"
| "rmap f (x # xs) = rbind (f x) (\<lambda>y. rbind (rmap f xs) (\<lambda>ys. Inr (y # ys)))"

lemma rfold_append: "rfold f s (xs @ ys) = rbind (rfold f s xs) (\<lambda>s'. rfold f s' ys)"
proof (induction xs arbitrary: s)
  case Nil
  then show ?case by simp
next
  case (Cons x xs)
  then show ?case by (cases "f s x") simp_all
qed

lemma rfold_snoc: "rfold f s (xs @ [x]) = rbind (rfold f s xs) (\<lambda>s'. f s' x)"
  by (cases "rfold f s xs") (auto simp: rfold_append rbind_def split: sum.split)

lemma rmap_Inr_length: "rmap f xs = Inr ys \<Longrightarrow> length ys = length xs"
  by (induction xs arbitrary: ys) (auto simp: rbind_Inr_iff)

lemma rmap_Inr_iff: "rmap f xs = Inr ys \<longleftrightarrow> list_all2 (\<lambda>x y. f x = Inr y) xs ys"
proof (induction xs arbitrary: ys)
  case Nil
  then show ?case by auto
next
  case (Cons x xs)
  then show ?case by (cases ys) (auto simp: rbind_Inr_iff)
qed

section \<open>Checked machines\<close>

text \<open>
  The contract of a replay loop: a step that may refuse an entry, and an invariant that every
  accepted step keeps. What the client of such a loop needs is proved once here.
\<close>

locale checked_machine =
  fixes step :: "'s \<Rightarrow> 'a \<Rightarrow> 'e + 's"
    and inv :: "'s \<Rightarrow> bool"
  assumes step_inv: "inv s \<Longrightarrow> step s x = Inr s' \<Longrightarrow> inv s'"
begin

lemma run_inv: "inv s \<Longrightarrow> rfold step s xs = Inr s' \<Longrightarrow> inv s'"
proof (induction xs arbitrary: s)
  case Nil
  then show ?case by simp
next
  case (Cons x xs)
  then show ?case by (auto simp: rbind_Inr_iff intro: step_inv)
qed

lemma run_prefix: "rfold step s (xs @ ys) = Inr s' \<Longrightarrow> \<exists>t. rfold step s xs = Inr t"
  by (auto simp: rfold_append rbind_Inr_iff)

lemma run_prefix_inv:
  assumes "inv s" and "rfold step s (xs @ ys) = Inr s'"
  obtains t where "rfold step s xs = Inr t" and "inv t"
  using assms run_inv by (auto simp: rfold_append rbind_Inr_iff)

end

text \<open>A machine that moreover only moves forward along a preorder.\<close>

locale forward_machine = checked_machine step inv
  for step :: "'s \<Rightarrow> 'a \<Rightarrow> 'e + 's" and inv :: "'s \<Rightarrow> bool" +
  fixes before :: "'s \<Rightarrow> 's \<Rightarrow> bool"
  assumes before_refl: "before s s"
    and before_trans: "before s t \<Longrightarrow> before t u \<Longrightarrow> before s u"
    and step_before: "inv s \<Longrightarrow> step s x = Inr s' \<Longrightarrow> before s s'"
begin

lemma run_before: "inv s \<Longrightarrow> rfold step s xs = Inr s' \<Longrightarrow> before s s'"
proof (induction xs arbitrary: s)
  case Nil
  then show ?case by (simp add: before_refl)
next
  case (Cons x xs)
  then show ?case by (auto simp: rbind_Inr_iff intro: step_inv step_before before_trans)
qed

text \<open>The run of a longer input passes through the state of the shorter one.\<close>

lemma run_prefix_before:
  assumes "inv s" and "rfold step s xs = Inr t" and "rfold step s (xs @ ys) = Inr u"
  shows "inv t" and "before t u"
proof -
  show "inv t" by (rule run_inv [OF assms(1,2)])
  moreover have "rfold step t ys = Inr u" using assms(2,3) by (simp add: rfold_append)
  ultimately show "before t u" by (rule run_before)
qed

end

section \<open>Dictionaries\<close>

abbreviation keys :: "('k \<times> 'v) list \<Rightarrow> 'k list" where
  "keys d \<equiv> map fst d"

lemma map_of_update [simp]: "map_of (AList.update k v d) = (map_of d)(k \<mapsto> v)"
  by (rule update_conv')

lemma keys_update: "keys (AList.update k v d) = (if k \<in> set (keys d) then keys d else keys d @ [k])"
  by (rule update_keys)

lemma distinct_keys_update: "distinct (keys d) \<Longrightarrow> distinct (keys (AList.update k v d))"
  by (simp add: keys_update)

lemma set_update_subset: "set (AList.update k v d) \<subseteq> insert (k, v) (set d)"
  by (induction d) auto

lemma distinct_map_filterI: "distinct (map f xs) \<Longrightarrow> distinct (map f (filter P xs))"
  by (induction xs) auto

lemma map_of_values: "distinct (keys d) \<Longrightarrow> map (\<lambda>k. the (map_of d k)) (keys d) = map snd d"
  by (induction d) (auto simp: rev_image_eqI intro!: map_cong)

lemma mem_values_iff:
  "distinct (keys d) \<Longrightarrow> v \<in> set (map snd d) \<longleftrightarrow> (\<exists>k. map_of d k = Some v)"
  by (auto intro: map_of_is_SomeI rev_image_eqI)

lemma map_of_None_keys: "map_of d k = None \<longleftrightarrow> k \<notin> set (keys d)"
  by (simp add: map_of_eq_None_iff)

lemma map_of_Some_keys: "map_of d k = Some v \<Longrightarrow> k \<in> set (keys d)"
  by (metis map_of_None_keys option.distinct(1))

text \<open>\<open>d.update(e)\<close> and \<open>{**d, **e}\<close>.\<close>

definition dict_merge :: "('k \<times> 'v) list \<Rightarrow> ('k \<times> 'v) list \<Rightarrow> ('k \<times> 'v) list" where
  "dict_merge d e = foldl (\<lambda>d (k, v). AList.update k v d) d e"

lemma map_of_dict_merge: "map_of (dict_merge d e) = map_of d ++ map_of (rev e)"
proof (induction e arbitrary: d)
  case Nil
  then show ?case by (simp add: dict_merge_def)
next
  case (Cons x e)
  have "dict_merge d (x # e) = dict_merge (AList.update (fst x) (snd x) d) e"
    by (simp add: dict_merge_def case_prod_unfold)
  with Cons show ?case by (simp add: map_add_def fun_eq_iff split: option.split)
qed

lemma dict_merge_fresh:
  assumes "distinct (keys e)" and "set (keys d) \<inter> set (keys e) = {}"
  shows "dict_merge d e = d @ e"
  using assms
proof (induction e arbitrary: d)
  case Nil
  then show ?case by (simp add: dict_merge_def)
next
  case (Cons x e)
  obtain k v where x: "x = (k, v)" by fastforce
  have new: "AList.update k v d = d @ [(k, v)]" if "k \<notin> set (keys d)"
    using that by (induction d) auto
  have "dict_merge d (x # e) = dict_merge (AList.update k v d) e"
    by (simp add: dict_merge_def x)
  also have "\<dots> = dict_merge (d @ [(k, v)]) e" using Cons.prems x new by simp
  also have "\<dots> = (d @ [(k, v)]) @ e" using Cons.prems x by (intro Cons.IH) auto
  finally show ?case by (simp add: x)
qed

lemma dict_of_distinct: "distinct (keys e) \<Longrightarrow> dict_merge [] e = e"
  by (simp add: dict_merge_fresh)

lemma distinct_keys_dict_merge: "distinct (keys d) \<Longrightarrow> distinct (keys (dict_merge d e))"
proof (induction e arbitrary: d)
  case Nil
  then show ?case by (simp add: dict_merge_def)
next
  case (Cons x e)
  have "dict_merge d (x # e) = dict_merge (AList.update (fst x) (snd x) d) e"
    by (simp add: dict_merge_def case_prod_unfold)
  with Cons distinct_keys_update [OF Cons.prems] show ?case by simp
qed

section \<open>Numerals\<close>

text \<open>Decimal numerals, for the identifiers built by f-strings.\<close>

fun decimal :: "nat \<Rightarrow> string" where
  "decimal n = (if n < 10 then [char_of (48 + n)] else decimal (n div 10) @ [char_of (48 + n mod 10)])"

declare decimal.simps [simp del]

definition is_digit :: "char \<Rightarrow> bool" where
  "is_digit c \<longleftrightarrow> 48 \<le> (of_char c :: nat) \<and> (of_char c :: nat) \<le> 57"

definition digit_value :: "char \<Rightarrow> nat" where
  "digit_value c = of_char c - 48"

definition nat_of_digits :: "string \<Rightarrow> nat" where
  "nat_of_digits ds = foldl (\<lambda>n c. 10 * n + digit_value c) 0 ds"

lemma digit_char: "d < 10 \<Longrightarrow> is_digit (char_of (48 + d)) \<and> digit_value (char_of (48 + d)) = d"
  by (simp add: is_digit_def digit_value_def)

lemma decimal_snoc: "decimal n = (if n < 10 then [] else decimal (n div 10)) @ [char_of (48 + n mod 10)]"
  by (subst decimal.simps) simp

lemma decimal_digits: "list_all is_digit (decimal n)"
proof (induction n rule: decimal.induct)
  case (1 n)
  have "is_digit (char_of (48 + n mod 10))" using digit_char [of "n mod 10"] by simp
  with 1 show ?case by (subst decimal_snoc) (auto simp: list_all_iff)
qed

lemma nat_of_decimal: "nat_of_digits (decimal n) = n"
proof (induction n rule: decimal.induct)
  case (1 n)
  have "digit_value (char_of (48 + n mod 10)) = n mod 10" using digit_char [of "n mod 10"] by simp
  with 1 show ?case by (subst decimal_snoc) (auto simp: nat_of_digits_def)
qed

lemma decimal_not_Nil [simp]: "decimal n \<noteq> []"
  by (subst decimal_snoc) simp

lemma hd_decimal: "n \<noteq> 0 \<Longrightarrow> digit_value (hd (decimal n)) \<noteq> 0"
proof (induction n rule: decimal.induct)
  case (1 n)
  have "digit_value (char_of (48 + n mod 10)) = n mod 10" using digit_char [of "n mod 10"] by simp
  with 1 show ?case by (subst decimal_snoc) auto
qed

lemma decimal_inject: "decimal m = decimal n \<longleftrightarrow> m = n"
  by (metis nat_of_decimal)

end
