(* ===== verification/Actions.thy ===== *)
theory Actions
  imports Prelude
begin

text \<open>
  Methods of a mutable object that may raise. An action takes the object's state and returns the
  exception or the value together with the state it leaves behind: the assignments made before an
  exception stay. The contracts of actions are triples: a precondition, a postcondition for a
  normal return and one for an exception.

  The locale \<open>state_preorder\<close> is the interface of a relation between earlier and later states
  (a log only grows, an invariant stays true); what is built from actions that obey it
  obeys it.
\<close>

section \<open>Actions\<close>

type_synonym ('s, 'e, 'a) action = "'s \<Rightarrow> ('e + 'a) \<times> 's"

definition give :: "'a \<Rightarrow> ('s, 'e, 'a) action" where
  "give x s = (Inr x, s)"

definition throw :: "'e \<Rightarrow> ('s, 'e, 'a) action" where
  "throw e s = (Inl e, s)"

definition chain :: "('s, 'e, 'a) action \<Rightarrow> ('a \<Rightarrow> ('s, 'e, 'b) action) \<Rightarrow> ('s, 'e, 'b) action" where
  "chain m f s = (case m s of (Inl e, s') \<Rightarrow> (Inl e, s') | (Inr x, s') \<Rightarrow> f x s')"

text \<open>\<open>try: m except: h\<close>; the handler may look at the exception.\<close>

definition handle :: "('s, 'e, 'a) action \<Rightarrow> ('e \<Rightarrow> ('s, 'e, 'a) action) \<Rightarrow> ('s, 'e, 'a) action" where
  "handle m h s = (case m s of (Inl e, s') \<Rightarrow> h e s' | (Inr x, s') \<Rightarrow> (Inr x, s'))"

text \<open>\<open>try: m except: h else: f\<close>; what \<open>f\<close> raises is not handled.\<close>

definition try_else ::
  "('s, 'e, 'a) action \<Rightarrow> ('e \<Rightarrow> ('s, 'e, 'b) action) \<Rightarrow> ('a \<Rightarrow> ('s, 'e, 'b) action) \<Rightarrow>
     ('s, 'e, 'b) action" where
  "try_else m h f s = (case m s of (Inl e, s') \<Rightarrow> h e s' | (Inr x, s') \<Rightarrow> f x s')"

definition reading :: "('s \<Rightarrow> ('s, 'e, 'a) action) \<Rightarrow> ('s, 'e, 'a) action" where
  "reading f s = f s s"

definition change :: "('s \<Rightarrow> 's) \<Rightarrow> ('s, 'e, unit) action" where
  "change f s = (Inr (), f s)"

definition pass :: "('s, 'e, unit) action" where
  "pass s = (Inr (), s)"

definition whenever :: "('s \<Rightarrow> bool) \<Rightarrow> ('s, 'e, unit) action \<Rightarrow> ('s, 'e, unit) action" where
  "whenever c m s = (if c s then m s else (Inr (), s))"

definition unless_raise :: "('s \<Rightarrow> bool) \<Rightarrow> 'e \<Rightarrow> ('s, 'e, unit) action" where
  "unless_raise c e s = (if c s then (Inr (), s) else (Inl e, s))"

definition discard :: "('s, 'e, 'a) action \<Rightarrow> ('s, 'e, unit) action" where
  "discard m = chain m (\<lambda>_. pass)"

primrec block :: "('s, 'e, unit) action list \<Rightarrow> ('s, 'e, unit) action" where
  "block [] = pass"
| "block (m # ms) = chain m (\<lambda>_. block ms)"

lemmas action_defs = give_def throw_def chain_def handle_def reading_def change_def pass_def
  whenever_def unless_raise_def discard_def

section \<open>Contracts\<close>

definition contract ::
  "('s \<Rightarrow> bool) \<Rightarrow> ('s, 'e, 'a) action \<Rightarrow> ('a \<Rightarrow> 's \<Rightarrow> bool) \<Rightarrow> ('e \<Rightarrow> 's \<Rightarrow> bool) \<Rightarrow> bool" where
  "contract P m Q R \<longleftrightarrow>
     (\<forall>s. P s \<longrightarrow> (case m s of (Inl e, s') \<Rightarrow> R e s' | (Inr x, s') \<Rightarrow> Q x s'))"

lemma contractI:
  "(\<And>s. P s \<Longrightarrow> case m s of (Inl e, s') \<Rightarrow> R e s' | (Inr x, s') \<Rightarrow> Q x s') \<Longrightarrow> contract P m Q R"
  by (simp add: contract_def)

lemma contractD:
  assumes "contract P m Q R" and "P s"
  shows "m s = (Inr x, s') \<Longrightarrow> Q x s'" and "m s = (Inl e, s') \<Longrightarrow> R e s'"
  using assms by (fastforce simp: contract_def)+

lemma contract_conseq:
  assumes "contract P' m Q' R'" and "\<And>s. P s \<Longrightarrow> P' s"
    and "\<And>x s. Q' x s \<Longrightarrow> Q x s" and "\<And>e s. R' e s \<Longrightarrow> R e s"
  shows "contract P m Q R"
  using assms unfolding contract_def by (fastforce split: prod.splits sum.splits)

lemma contract_iff: "contract P m Q R \<longleftrightarrow>
    (\<forall>s. P s \<longrightarrow> (\<forall>e s'. m s = (Inl e, s') \<longrightarrow> R e s') \<and> (\<forall>x s'. m s = (Inr x, s') \<longrightarrow> Q x s'))"
  by (auto simp: contract_def split: prod.splits sum.splits)

lemma chain_cases:
  "chain m f s = (Inl e, s') \<longleftrightarrow>
     m s = (Inl e, s') \<or> (\<exists>x t. m s = (Inr x, t) \<and> f x t = (Inl e, s'))"
  "chain m f s = (Inr y, s') \<longleftrightarrow> (\<exists>x t. m s = (Inr x, t) \<and> f x t = (Inr y, s'))"
  by (auto simp: chain_def split: prod.splits sum.splits)

lemma handle_cases:
  "handle m h s = (Inl e, s') \<longleftrightarrow> (\<exists>d t. m s = (Inl d, t) \<and> h d t = (Inl e, s'))"
  "handle m h s = (Inr x, s') \<longleftrightarrow>
     m s = (Inr x, s') \<or> (\<exists>d t. m s = (Inl d, t) \<and> h d t = (Inr x, s'))"
  by (auto simp: handle_def split: prod.splits sum.splits)

lemma contract_chain:
  assumes "contract P m Q R" and "\<And>x. contract (Q x) (f x) Q' R"
  shows "contract P (chain m f) Q' R"
  using assms unfolding contract_iff chain_cases by blast

lemma contract_handle:
  assumes "contract P m Q R'" and "\<And>e. contract (R' e) (h e) Q R"
  shows "contract P (handle m h) Q R"
  using assms unfolding contract_iff handle_cases by blast

lemma try_else_cases:
  "try_else m h f s = (r, s') \<longleftrightarrow>
     (\<exists>d t. m s = (Inl d, t) \<and> h d t = (r, s')) \<or> (\<exists>x t. m s = (Inr x, t) \<and> f x t = (r, s'))"
  by (auto simp: try_else_def split: prod.splits sum.splits)

lemma contract_try_else:
  assumes "contract P m Q' R'" and "\<And>e. contract (R' e) (h e) Q R" and "\<And>x. contract (Q' x) (f x) Q R"
  shows "contract P (try_else m h f) Q R"
  using assms unfolding contract_iff try_else_cases by blast

lemma contract_reading:
  "(\<And>s0. P s0 \<Longrightarrow> contract (\<lambda>s. s = s0) (f s0) Q R) \<Longrightarrow> contract P (reading f) Q R"
  by (simp add: contract_def reading_def)

lemma contract_reading_keep:
  "(\<And>s0. P s0 \<Longrightarrow> contract P (f s0) Q R) \<Longrightarrow> contract P (reading f) Q R"
  by (simp add: contract_def reading_def)

lemma contract_False: "contract (\<lambda>_. False) m Q R"
  by (simp add: contract_def)

lemma contract_change: "(\<And>s. P s \<Longrightarrow> Q () (f s)) \<Longrightarrow> contract P (change f) Q R"
  by (simp add: contract_def change_def)

lemma contract_give: "(\<And>s. P s \<Longrightarrow> Q x s) \<Longrightarrow> contract P (give x) Q R"
  by (simp add: contract_def give_def)

lemma contract_throw: "(\<And>s. P s \<Longrightarrow> R e s) \<Longrightarrow> contract P (throw e) Q R"
  by (simp add: contract_def throw_def)

lemma contract_pass: "(\<And>s. P s \<Longrightarrow> Q () s) \<Longrightarrow> contract P pass Q R"
  by (simp add: contract_def pass_def)

lemma contract_whenever:
  assumes "contract (\<lambda>s. P s \<and> c s) m Q R" and "\<And>s. P s \<Longrightarrow> \<not> c s \<Longrightarrow> Q () s"
  shows "contract P (whenever c m) Q R"
  using assms by (auto simp: contract_def whenever_def)

lemma contract_unless_raise:
  assumes "\<And>s. P s \<Longrightarrow> c s \<Longrightarrow> Q () s" and "\<And>s. P s \<Longrightarrow> \<not> c s \<Longrightarrow> R e s"
  shows "contract P (unless_raise c e) Q R"
  using assms by (auto simp: contract_def unless_raise_def)

lemma contract_guarded:
  assumes "b \<Longrightarrow> contract P m Q R" and "\<And>s. \<not> b \<Longrightarrow> P s \<Longrightarrow> R e s"
  shows "contract P (chain (unless_raise (\<lambda>_. b) e) (\<lambda>_. m)) Q R"
proof (cases b)
  case True
  then have "chain (unless_raise (\<lambda>_. b) e) (\<lambda>_. m) = m"
    by (simp add: fun_eq_iff chain_def unless_raise_def)
  with assms(1) True show ?thesis by simp
next
  case False
  with assms(2) show ?thesis by (simp add: contract_def chain_def unless_raise_def)
qed

lemma contract_result:
  assumes "contract P m (\<lambda>_. I) (\<lambda>_. I)" and "P s" and "m s = (r, s')"
  shows "I s'"
  using assms(3) contractD(1) [OF assms(1,2)] contractD(2) [OF assms(1,2)] by (cases r) blast+

lemma contract_discard: "contract P m (\<lambda>_. Q ()) R \<Longrightarrow> contract P (discard m) Q R"
  unfolding discard_def by (rule contract_chain, assumption) (rule contract_pass)

lemma contract_block_Cons:
  assumes "contract P m (\<lambda>_. P') R" and "contract P' (block ms) Q R"
  shows "contract P (block (m # ms)) Q R"
  unfolding block.simps by (rule contract_chain [OF assms(1)]) (rule assms(2))

lemma contract_block_Nil: "(\<And>s. P s \<Longrightarrow> Q () s) \<Longrightarrow> contract P (block []) Q R"
  unfolding block.simps by (rule contract_pass)

lemma contract_if:
  "(b \<Longrightarrow> contract P m Q R) \<Longrightarrow> (\<not> b \<Longrightarrow> contract P m' Q R) \<Longrightarrow> contract P (if b then m else m') Q R"
  by simp

section \<open>Relations between earlier and later states\<close>

definition obeys :: "('s \<Rightarrow> 's \<Rightarrow> bool) \<Rightarrow> ('s, 'e, 'a) action \<Rightarrow> bool" where
  "obeys rel m \<longleftrightarrow> (\<forall>s. rel s (snd (m s)))"

lemma obeysD: "obeys rel m \<Longrightarrow> m s = (r, s') \<Longrightarrow> rel s s'"
  unfolding obeys_def by (metis snd_conv)

lemma obeys_cases:
  "(b \<Longrightarrow> obeys rel m) \<Longrightarrow> (\<not> b \<Longrightarrow> obeys rel m') \<Longrightarrow> obeys rel (if b then m else m')"
  "obeys rel m1 \<Longrightarrow> (\<And>x. obeys rel (f1 x)) \<Longrightarrow> obeys rel (case_option m1 f1 v)"
  "(\<And>x y. obeys rel (f2 x y)) \<Longrightarrow> obeys rel (case_prod f2 p)"
  "(\<And>x. obeys rel (f3 x)) \<Longrightarrow> (\<And>y. obeys rel (g3 y)) \<Longrightarrow> obeys rel (case_sum f3 g3 w)"
  by (simp_all split: option.split prod.split sum.split)

lemma obeys_mono: "obeys rel m \<Longrightarrow> (\<And>s t. rel s t \<Longrightarrow> rel' s t) \<Longrightarrow> obeys rel' m"
  by (simp add: obeys_def)

locale state_preorder =
  fixes rel :: "'s \<Rightarrow> 's \<Rightarrow> bool"
  assumes rel_refl: "rel s s"
    and rel_trans: "rel s t \<Longrightarrow> rel t u \<Longrightarrow> rel s u"
begin

lemma obeys_give: "obeys rel (give x)"
  by (simp add: obeys_def give_def rel_refl)

lemma obeys_throw: "obeys rel (throw e)"
  by (simp add: obeys_def throw_def rel_refl)

lemma obeys_pass: "obeys rel pass"
  by (simp add: obeys_def pass_def rel_refl)

lemma obeys_unless_raise: "obeys rel (unless_raise c e)"
  by (simp add: obeys_def unless_raise_def rel_refl)

lemma obeys_chain:
  assumes "obeys rel m" and "\<And>x. obeys rel (f x)"
  shows "obeys rel (chain m f)"
  unfolding obeys_def
proof
  fix s
  obtain r s' where m: "m s = (r, s')" by fastforce
  have "rel s s'" using assms(1) m by (rule obeysD)
  then show "rel s (snd (chain m f s))"
    using assms(2) rel_trans unfolding obeys_def by (cases r) (auto simp: chain_def m)
qed

lemma obeys_handle:
  assumes "obeys rel m" and "\<And>e. obeys rel (h e)"
  shows "obeys rel (handle m h)"
  unfolding obeys_def
proof
  fix s
  obtain r s' where m: "m s = (r, s')" by fastforce
  have "rel s s'" using assms(1) m by (rule obeysD)
  then show "rel s (snd (handle m h s))"
    using assms(2) rel_trans unfolding obeys_def by (cases r) (auto simp: handle_def m)
qed

lemma obeys_try_else:
  assumes "obeys rel m" and "\<And>e. obeys rel (h e)" and "\<And>x. obeys rel (f x)"
  shows "obeys rel (try_else m h f)"
  unfolding obeys_def
proof
  fix s
  obtain r s' where m: "m s = (r, s')" by fastforce
  have "rel s s'" using assms(1) m by (rule obeysD)
  then show "rel s (snd (try_else m h f s))"
    using assms(2,3) rel_trans unfolding obeys_def by (cases r) (auto simp: try_else_def m)
qed

lemma obeys_reading: "(\<And>s. obeys rel (f s)) \<Longrightarrow> obeys rel (reading f)"
  by (simp add: obeys_def reading_def)

lemma obeys_change: "(\<And>s. rel s (f s)) \<Longrightarrow> obeys rel (change f)"
  by (simp add: obeys_def change_def)

lemma obeys_whenever: "obeys rel m \<Longrightarrow> obeys rel (whenever c m)"
  by (simp add: obeys_def whenever_def rel_refl)

lemma obeys_discard: "obeys rel m \<Longrightarrow> obeys rel (discard m)"
  unfolding discard_def by (intro obeys_chain obeys_pass)

lemma obeys_block: "(\<And>m. m \<in> set ms \<Longrightarrow> obeys rel m) \<Longrightarrow> obeys rel (block ms)"
  by (induction ms) (auto intro!: obeys_pass obeys_chain)

lemmas obeys_rules = obeys_give obeys_throw obeys_pass obeys_unless_raise
  obeys_chain obeys_handle obeys_try_else obeys_reading obeys_whenever obeys_discard obeys_cases

end

end
