(* ===== verification/Event_Log.thy ===== *)
theory Event_Log
  imports Prelude
begin

text \<open>
  The Work event log (\<open>harnesswork/event_log.py\<close>): the append-only list of entries, its three
  secondary indexes (by operation, run and session), the indexed query and the live subscriptions.

  The entry record carries the field types that \<open>_normalize_entry\<close> enforces, so normalising a
  well-typed entry is the identity here. A creation time is an opaque number: the log only copies
  it. The asynchronous generator of \<open>subscribe\<close> is cut at its \<open>yield\<close>s: starting it registers
  the subscriber and runs the query with no suspension in between, and each later step hands out
  one entry of that result, then of the queue.
\<close>

section \<open>Entries\<close>

datatype entry_type = Operation | Event

fun entry_type_text :: "entry_type \<Rightarrow> string" where
  "entry_type_text Operation = ''operation''"
| "entry_type_text Event = ''event''"

record event_entry =
  e_entry_id :: string
  e_entry_type :: entry_type
  e_operation_id :: string
  e_event_id :: "string option"
  e_run_id :: string
  e_session_id :: string
  e_sequence :: int
  e_payload :: payload
  e_created_at :: nat

type_synonym positioned = "nat \<times> event_entry"

record selector =
  f_operation_id :: "string option"
  f_run_id :: "string option"
  f_session_id :: "string option"

definition any_entry :: selector where
  "any_entry = \<lparr>f_operation_id = None, f_run_id = None, f_session_id = None\<rparr>"

definition matches :: "event_entry \<Rightarrow> selector \<Rightarrow> bool" where
  "matches e sel =
     (if f_operation_id sel \<noteq> None \<and> f_operation_id sel \<noteq> Some (e_operation_id e) then False
      else if f_run_id sel \<noteq> None \<and> f_run_id sel \<noteq> Some (e_run_id e) then False
      else if f_session_id sel \<noteq> None \<and> f_session_id sel \<noteq> Some (e_session_id e) then False
      else True)"

lemma matches_any [simp]: "matches e any_entry"
  by (simp add: matches_def any_entry_def)

section \<open>State\<close>

text \<open>
  A subscription is the \<open>_Subscriber\<close> with the rest of its generator's frame: the entries of the
  initial query not yet yielded. \<open>s_from\<close> (the number of entries when it started) and
  \<open>s_delivered\<close> are history variables, read by no operation.
\<close>

record subscription =
  s_selector :: selector
  s_after :: "nat option"
  s_from :: nat
  s_backlog :: "event_entry list"
  s_queue :: "event_entry list"
  s_delivered :: "event_entry list"

record event_log =
  l_entries :: "positioned list"
  l_by_operation :: "(string \<times> positioned list) list"
  l_by_run :: "(string \<times> positioned list) list"
  l_by_session :: "(string \<times> positioned list) list"
  l_subscribers :: "(nat \<times> subscription) list"
  l_fresh :: nat

definition empty_log :: event_log where
  "empty_log = \<lparr>l_entries = [], l_by_operation = [], l_by_run = [], l_by_session = [],
     l_subscribers = [], l_fresh = 0\<rparr>"

section \<open>Operations\<close>

text \<open>\<open>index.setdefault(key, []).append(positioned)\<close>.\<close>

definition bucket :: "('k \<times> 'a list) list \<Rightarrow> 'k \<Rightarrow> 'a list" where
  "bucket d k = (case map_of d k of None \<Rightarrow> [] | Some xs \<Rightarrow> xs)"

definition append_under :: "'k \<Rightarrow> 'a \<Rightarrow> ('k \<times> 'a list) list \<Rightarrow> ('k \<times> 'a list) list" where
  "append_under k x d = AList.update k (bucket d k @ [x]) d"

definition index_entry :: "nat \<Rightarrow> event_entry \<Rightarrow> event_log \<Rightarrow> event_log" where
  "index_entry position e l =
     l\<lparr>l_entries := l_entries l @ [(position, e)],
       l_by_operation := append_under (e_operation_id e) (position, e) (l_by_operation l),
       l_by_run := append_under (e_run_id e) (position, e) (l_by_run l),
       l_by_session := append_under (e_session_id e) (position, e) (l_by_session l)\<rparr>"

definition notify :: "event_entry \<Rightarrow> subscription \<Rightarrow> subscription" where
  "notify e s = (if matches e (s_selector s) then s\<lparr>s_queue := s_queue s @ [e]\<rparr> else s)"

definition append_stored :: "event_log \<Rightarrow> event_entry \<Rightarrow> nat \<times> event_log" where
  "append_stored l e =
     (let position = length (l_entries l) + 1;
          l' = index_entry position e l
      in (position, l'\<lparr>l_subscribers := map (\<lambda>(t, s). (t, notify e s)) (l_subscribers l')\<rparr>))"

definition append_loaded :: "event_log \<Rightarrow> event_entry \<Rightarrow> nat \<times> event_log" where
  "append_loaded l e =
     (let position = length (l_entries l) + 1 in (position, index_entry position e l))"

definition checkpoint :: "event_log \<Rightarrow> nat" where
  "checkpoint l = length (l_entries l)"

text \<open>\<open>min(candidates, key=len)\<close>: the first of the shortest lists.\<close>

fun shortest :: "'a list \<Rightarrow> 'a list list \<Rightarrow> 'a list" where
  "shortest best [] = best"
| "shortest best (c # cs) = shortest (if length c < length best then c else best) cs"

definition candidate_entries :: "event_log \<Rightarrow> selector \<Rightarrow> positioned list" where
  "candidate_entries l sel =
     (let candidates =
        (case f_operation_id sel of None \<Rightarrow> [] | Some k \<Rightarrow> [bucket (l_by_operation l) k]) @
        (case f_run_id sel of None \<Rightarrow> [] | Some k \<Rightarrow> [bucket (l_by_run l) k]) @
        (case f_session_id sel of None \<Rightarrow> [] | Some k \<Rightarrow> [bucket (l_by_session l) k])
      in case candidates of [] \<Rightarrow> l_entries l | c # cs \<Rightarrow> shortest c cs)"

fun select_entries ::
  "selector \<Rightarrow> nat option \<Rightarrow> int option \<Rightarrow> event_entry list \<Rightarrow> positioned list \<Rightarrow> event_entry list"
where
  "select_entries sel after limit selected [] = selected"
| "select_entries sel after limit selected ((position, e) # rest) =
     (if after \<noteq> None \<and> position \<le> the after then select_entries sel after limit selected rest
      else if \<not> matches e sel then select_entries sel after limit selected rest
      else
        (let selected' = selected @ [e]
         in if limit \<noteq> None \<and> int (length selected') \<ge> the limit then selected'
            else select_entries sel after limit selected' rest))"

definition query :: "event_log \<Rightarrow> selector \<Rightarrow> nat option \<Rightarrow> int option \<Rightarrow> event_entry list" where
  "query l sel after limit = select_entries sel after limit [] (candidate_entries l sel)"

text \<open>
  \<open>subscribe\<close>: the first step of the generator registers the subscriber and evaluates the query;
  every step yields the next entry or waits; closing it runs the \<open>finally\<close> clause.
\<close>

definition subscribe_start :: "event_log \<Rightarrow> selector \<Rightarrow> nat option \<Rightarrow> nat \<times> event_log" where
  "subscribe_start l sel after =
     (l_fresh l,
      l\<lparr>l_subscribers := l_subscribers l @
          [(l_fresh l, \<lparr>s_selector = sel, s_after = after, s_from = length (l_entries l),
             s_backlog = query l sel after None, s_queue = [], s_delivered = []\<rparr>)],
        l_fresh := l_fresh l + 1\<rparr>)"

definition take_next :: "subscription \<Rightarrow> (event_entry \<times> subscription) option" where
  "take_next s =
     (case s_backlog s of
        e # rest \<Rightarrow> Some (e, s\<lparr>s_backlog := rest, s_delivered := s_delivered s @ [e]\<rparr>)
      | [] \<Rightarrow>
          (case s_queue s of
             e # rest \<Rightarrow> Some (e, s\<lparr>s_queue := rest, s_delivered := s_delivered s @ [e]\<rparr>)
           | [] \<Rightarrow> None))"

definition subscribe_next :: "event_log \<Rightarrow> nat \<Rightarrow> (event_entry \<times> event_log) option" where
  "subscribe_next l t =
     (case map_of (l_subscribers l) t of
        None \<Rightarrow> None
      | Some s \<Rightarrow>
          (case take_next s of
             None \<Rightarrow> None
           | Some (e, s') \<Rightarrow> Some (e, l\<lparr>l_subscribers := AList.update t s' (l_subscribers l)\<rparr>)))"

definition subscribe_close :: "event_log \<Rightarrow> nat \<Rightarrow> event_log" where
  "subscribe_close l t = l\<lparr>l_subscribers := AList.delete t (l_subscribers l)\<rparr>"

text \<open>\<open>JsonlEventLogBackend._load\<close>: replaying the stored records into an empty state.\<close>

definition load_log :: "event_entry list \<Rightarrow> event_log" where
  "load_log es = fold (\<lambda>e l. snd (append_loaded l e)) es empty_log"

section \<open>Well-formed logs\<close>

definition contents :: "event_log \<Rightarrow> event_entry list" where
  "contents l = map snd (l_entries l)"

definition indexes_ok :: "event_log \<Rightarrow> bool" where
  "indexes_ok l \<longleftrightarrow>
     (\<forall>k. bucket (l_by_operation l) k = filter (\<lambda>(p, e). e_operation_id e = k) (l_entries l)) \<and>
     (\<forall>k. bucket (l_by_run l) k = filter (\<lambda>(p, e). e_run_id e = k) (l_entries l)) \<and>
     (\<forall>k. bucket (l_by_session l) k = filter (\<lambda>(p, e). e_session_id e = k) (l_entries l))"

definition log_ok :: "event_log \<Rightarrow> bool" where
  "log_ok l \<longleftrightarrow> map fst (l_entries l) = [1..<length (l_entries l) + 1] \<and> indexes_ok l"

lemma bucket_append_under [simp]:
  "bucket (append_under k x d) k' = (if k' = k then bucket d k @ [x] else bucket d k')"
  by (simp add: bucket_def append_under_def)

lemma entries_index_entry [simp]: "l_entries (index_entry p e l) = l_entries l @ [(p, e)]"
  by (simp add: index_entry_def)

lemma indexes_ok_index_entry: "indexes_ok l \<Longrightarrow> indexes_ok (index_entry p e l)"
  by (auto simp: indexes_ok_def index_entry_def)

lemma log_ok_empty [simp]: "log_ok empty_log"
  by (simp add: log_ok_def indexes_ok_def empty_log_def bucket_def)

lemma log_ok_index_entry: "log_ok l \<Longrightarrow> log_ok (index_entry (length (l_entries l) + 1) e l)"
  by (auto simp: log_ok_def indexes_ok_index_entry)

lemma log_ok_subscribers [simp]: "log_ok (l\<lparr>l_subscribers := ss\<rparr>) = log_ok l"
  by (simp add: log_ok_def indexes_ok_def)

lemma log_ok_fresh [simp]: "log_ok (l\<lparr>l_fresh := n\<rparr>) = log_ok l"
  by (simp add: log_ok_def indexes_ok_def)

lemma log_ok_append_stored: "log_ok l \<Longrightarrow> log_ok (snd (append_stored l e))"
  using log_ok_index_entry by (simp add: append_stored_def Let_def)

lemma log_ok_append_loaded: "log_ok l \<Longrightarrow> log_ok (snd (append_loaded l e))"
  using log_ok_index_entry by (simp add: append_loaded_def Let_def)

lemma contents_append_stored [simp]: "contents (snd (append_stored l e)) = contents l @ [e]"
  by (simp add: contents_def append_stored_def Let_def)

lemma contents_append_loaded [simp]: "contents (snd (append_loaded l e)) = contents l @ [e]"
  by (simp add: contents_def append_loaded_def Let_def)

section \<open>The indexed query is a linear scan\<close>

definition selected :: "selector \<Rightarrow> nat option \<Rightarrow> positioned \<Rightarrow> bool" where
  "selected sel after pe \<longleftrightarrow>
     (case after of None \<Rightarrow> True | Some a \<Rightarrow> a < fst pe) \<and> matches (snd pe) sel"

definition limited :: "int option \<Rightarrow> 'a list \<Rightarrow> 'a list" where
  "limited limit xs = (case limit of None \<Rightarrow> xs | Some n \<Rightarrow> take (nat (max 1 n)) xs)"

lemma take_nat_Cons: "1 \<le> m \<Longrightarrow> take (nat m) (x # xs) = x # take (nat (m - 1)) xs"
  by (cases "nat m") (auto simp: nat_diff_distrib)

lemma select_entries_filter:
  "select_entries sel after limit acc ps =
     acc @ (case limit of None \<Rightarrow> map snd (filter (selected sel after) ps)
            | Some n \<Rightarrow> take (nat (max 1 (n - int (length acc))))
                           (map snd (filter (selected sel after) ps)))"
proof (induction sel after limit acc ps rule: select_entries.induct)
  case (1 sel after limit acc)
  then show ?case by (simp split: option.split)
next
  case (2 sel after limit acc p e rest)
  let ?skip = "after \<noteq> None \<and> p \<le> the after"
  have sel: "selected sel after (p, e) \<longleftrightarrow> \<not> ?skip \<and> matches e sel"
    by (auto simp: selected_def split: option.splits)
  consider "?skip" | "\<not> ?skip" "\<not> matches e sel" | "\<not> ?skip" "matches e sel" by blast
  then show ?case
  proof cases
    case 1
    with "2.IH"(1) sel show ?thesis by (simp split: option.split)
  next
    case 2
    with "2.IH"(2) sel show ?thesis by (simp split: option.split)
  next
    case 3
    show ?thesis
    proof (cases limit)
      case None
      with 3 sel "2.IH"(3) show ?thesis by auto
    next
      case (Some n)
      show ?thesis
      proof (cases "int (length (acc @ [e])) \<ge> n")
        case True
        with 3 sel Some show ?thesis by (auto simp: take_nat_Cons)
      next
        case False
        with 3 sel Some "2.IH"(3) show ?thesis
          by (auto simp: take_nat_Cons max_def algebra_simps)
      qed
    qed
  qed
qed

lemma shortest_mem: "shortest c cs \<in> set (c # cs)"
proof (induction cs arbitrary: c)
  case Nil
  then show ?case by simp
next
  case (Cons d ds)
  from Cons [of "if length d < length c then d else c"] show ?case by (auto split: if_splits)
qed

lemma shortest_or_default:
  "(case xs of [] \<Rightarrow> d | c # cs \<Rightarrow> shortest c cs) = d \<or>
   (case xs of [] \<Rightarrow> d | c # cs \<Rightarrow> shortest c cs) \<in> set xs"
  using shortest_mem by (cases xs) auto

lemma shortest_least: "x \<in> set (c # cs) \<Longrightarrow> length (shortest c cs) \<le> length x"
proof (induction cs arbitrary: c x)
  case Nil
  then show ?case by simp
next
  case (Cons d ds)
  let ?b = "if length d < length c then d else c"
  have "length (shortest ?b ds) \<le> length ?b" using Cons.IH [of ?b ?b] by simp
  with Cons.prems Cons.IH [of x ?b] show ?case by (auto split: if_splits)
qed

lemma candidate_entries_cases:
  obtains "candidate_entries l sel = l_entries l"
  | k where "f_operation_id sel = Some k" "candidate_entries l sel = bucket (l_by_operation l) k"
  | k where "f_run_id sel = Some k" "candidate_entries l sel = bucket (l_by_run l) k"
  | k where "f_session_id sel = Some k" "candidate_entries l sel = bucket (l_by_session l) k"
proof -
  let ?cs = "(case f_operation_id sel of None \<Rightarrow> [] | Some k \<Rightarrow> [bucket (l_by_operation l) k]) @
        (case f_run_id sel of None \<Rightarrow> [] | Some k \<Rightarrow> [bucket (l_by_run l) k]) @
        (case f_session_id sel of None \<Rightarrow> [] | Some k \<Rightarrow> [bucket (l_by_session l) k])"
  have "candidate_entries l sel = l_entries l \<or> candidate_entries l sel \<in> set ?cs"
    unfolding candidate_entries_def Let_def by (rule shortest_or_default)
  then show thesis
    using that
    by (cases "f_operation_id sel"; cases "f_run_id sel"; cases "f_session_id sel") auto
qed

lemma matches_fields:
  assumes "matches e sel"
  shows "f_operation_id sel = Some k \<Longrightarrow> e_operation_id e = k"
    and "f_run_id sel = Some k \<Longrightarrow> e_run_id e = k"
    and "f_session_id sel = Some k \<Longrightarrow> e_session_id e = k"
  using assms by (auto simp: matches_def split: if_splits)

lemma filter_candidates:
  assumes "indexes_ok l"
  shows "filter (selected sel after) (candidate_entries l sel) =
    filter (selected sel after) (l_entries l)"
  by (rule candidate_entries_cases [of l sel])
    (use assms in \<open>auto simp: indexes_ok_def selected_def dest: matches_fields
       intro!: filter_cong\<close>)

definition scan :: "event_log \<Rightarrow> selector \<Rightarrow> nat option \<Rightarrow> event_entry list" where
  "scan l sel after = map snd (filter (selected sel after) (l_entries l))"

lemma query_scan: "indexes_ok l \<Longrightarrow> query l sel after limit = limited limit (scan l sel after)"
  by (simp add: query_def select_entries_filter filter_candidates limited_def scan_def
      split: option.split)

section \<open>The backend interface\<close>

text \<open>
  The protocol \<open>EventLogBackend\<close>, as the readers of the log use it: what a query returns is
  determined by the sequence of appended entries alone.
\<close>

locale event_log_backend =
  fixes put :: "'b \<Rightarrow> event_entry \<Rightarrow> nat \<times> 'b"
    and check :: "'b \<Rightarrow> nat"
    and ask :: "'b \<Rightarrow> selector \<Rightarrow> nat option \<Rightarrow> int option \<Rightarrow> event_entry list"
    and view :: "'b \<Rightarrow> event_entry list"
    and ok :: "'b \<Rightarrow> bool"
  assumes ok_put: "ok b \<Longrightarrow> ok (snd (put b e))"
    and view_put: "ok b \<Longrightarrow> view (snd (put b e)) = view b @ [e]"
    and position_put: "ok b \<Longrightarrow> fst (put b e) = length (view b) + 1"
    and check_view: "ok b \<Longrightarrow> check b = length (view b)"
    and ask_view: "ok b \<Longrightarrow> ask b sel after None =
      filter (\<lambda>e. matches e sel) (drop (case after of None \<Rightarrow> 0 | Some a \<Rightarrow> a) (view b))"
    and ask_limit: "ok b \<Longrightarrow> ask b sel after (Some n) = take (nat (max 1 n)) (ask b sel after None)"
begin

definition put_all :: "'b \<Rightarrow> event_entry list \<Rightarrow> 'b" where
  "put_all b es = fold (\<lambda>e b. snd (put b e)) es b"

lemma put_all: "ok b \<Longrightarrow> ok (put_all b es) \<and> view (put_all b es) = view b @ es"
  unfolding put_all_def by (induction es arbitrary: b) (simp_all add: ok_put view_put)

lemma ask_since_checkpoint:
  "ok b \<Longrightarrow> ask (put_all b es) sel (Some (check b)) None = filter (\<lambda>e. matches e sel) es"
  by (simp add: ask_view put_all check_view)

lemma ask_resumes:
  "ok b \<Longrightarrow> ask (put_all b es) sel None None =
     ask b sel None None @ ask (put_all b es) sel (Some (check b)) None"
  by (simp add: ask_since_checkpoint) (simp add: ask_view put_all)

lemma position_identifies:
  "ok b \<Longrightarrow> view (put_all (snd (put b e)) es) ! (fst (put b e) - 1) = e"
  by (simp add: put_all ok_put view_put position_put nth_append)

end

lemma filter_positions:
  "map fst ps = [m..<m + length ps] \<Longrightarrow>
     map snd (filter (\<lambda>(p, e). a < p \<and> P e) ps) = filter P (drop (Suc a - m) (map snd ps))"
proof (induction ps arbitrary: m)
  case Nil
  then show ?case by simp
next
  case (Cons pe ps)
  obtain p e where pe: "pe = (p, e)" by (cases pe)
  from Cons.prems have p: "p = m" and rest: "map fst ps = [Suc m..<Suc m + length ps]"
    by (auto simp: pe upt_conv_Cons simp del: upt_Suc)
  show ?case
  proof (cases "a < m")
    case True
    with Cons.IH [OF rest] show ?thesis by (simp add: pe p)
  next
    case False
    then have "Suc a - m = Suc (Suc a - Suc m)" by simp
    with Cons.IH [OF rest] False show ?thesis by (simp add: pe p)
  qed
qed

lemma scan_contents:
  assumes "log_ok l"
  shows "scan l sel after =
    filter (\<lambda>e. matches e sel) (drop (case after of None \<Rightarrow> 0 | Some a \<Rightarrow> a) (contents l))"
proof -
  let ?a = "case after of None \<Rightarrow> 0 | Some a \<Rightarrow> a"
  have positions: "map fst (l_entries l) = [1..<1 + length (l_entries l)]"
    using assms by (simp add: log_ok_def)
  have "p \<in> set [1..<1 + length (l_entries l)]" if "(p, e) \<in> set (l_entries l)" for p e
    using that unfolding positions [symmetric] by force
  then have "scan l sel after = map snd (filter (\<lambda>(p, e). ?a < p \<and> matches e sel) (l_entries l))"
    unfolding scan_def selected_def
    by (intro arg_cong [where f = "map snd"] filter_cong refl) (force split: option.split)
  also have "\<dots> = filter (\<lambda>e. matches e sel) (drop ?a (contents l))"
    using filter_positions [OF positions, of ?a "\<lambda>e. matches e sel"] by (simp add: contents_def)
  finally show ?thesis .
qed

interpretation mem: event_log_backend append_stored checkpoint query contents log_ok
proof (unfold_locales, goal_cases)
  case (1 l e)
  then show ?case by (rule log_ok_append_stored)
next
  case (5 l sel after)
  then show ?case by (simp add: query_scan log_ok_def limited_def flip: scan_contents)
next
  case (6 l sel after n)
  then show ?case by (simp add: query_scan log_ok_def limited_def)
qed (simp_all add: append_stored_def checkpoint_def contents_def Let_def)

section \<open>Subscriptions\<close>

text \<open>
  The steps of a live log, in any interleaving of its writer and its readers. It starts from the
  stored records of an earlier process.
\<close>

inductive log_step :: "event_log \<Rightarrow> event_log \<Rightarrow> bool" where
  append: "log_step l (snd (append_stored l e))"
| start: "log_step l (snd (subscribe_start l sel after))"
| yield: "subscribe_next l t = Some (e, l') \<Longrightarrow> log_step l l'"
| close: "log_step l (subscribe_close l t)"

inductive log_reachable :: "event_log \<Rightarrow> bool" where
  loaded: "log_reachable (load_log es)"
| step: "log_reachable l \<Longrightarrow> log_step l l' \<Longrightarrow> log_reachable l'"

text \<open>
  What a subscriber is owed: the matching entries after its requested position, or appended
  since it started.
\<close>

definition owed :: "event_log \<Rightarrow> subscription \<Rightarrow> event_entry list" where
  "owed l s = map snd (filter (\<lambda>(p, e). matches e (s_selector s) \<and>
     (s_from s < p \<or> (case s_after s of None \<Rightarrow> True | Some a \<Rightarrow> a < p))) (l_entries l))"

definition subscription_ok :: "event_log \<Rightarrow> subscription \<Rightarrow> bool" where
  "subscription_ok l s \<longleftrightarrow> s_from s \<le> length (l_entries l) \<and>
     s_delivered s @ s_backlog s @ s_queue s = owed l s"

definition subscribers_ok :: "event_log \<Rightarrow> bool" where
  "subscribers_ok l \<longleftrightarrow> distinct (keys (l_subscribers l)) \<and>
     (\<forall>(t, s) \<in> set (l_subscribers l). t < l_fresh l \<and> subscription_ok l s)"

lemma owed_cong [simp]:
  "owed (l\<lparr>l_subscribers := ss\<rparr>) s = owed l s" "owed (l\<lparr>l_fresh := n\<rparr>) s = owed l s"
  "owed l (s\<lparr>s_queue := q\<rparr>) = owed l s" "owed l (s\<lparr>s_backlog := b\<rparr>) = owed l s"
  "owed l (s\<lparr>s_delivered := d\<rparr>) = owed l s"
  by (simp_all add: owed_def)

lemma subscription_ok_cong [simp]:
  "subscription_ok (l\<lparr>l_subscribers := ss\<rparr>) s = subscription_ok l s"
  "subscription_ok (l\<lparr>l_fresh := n\<rparr>) s = subscription_ok l s"
  by (simp_all add: subscription_ok_def)

lemma subscription_ok_append:
  assumes "subscription_ok l s"
  shows "subscription_ok (snd (append_stored l e)) (notify e s)"
  using assms by (auto simp: subscription_ok_def owed_def append_stored_def Let_def notify_def)

lemma subscribers_ok_append:
  "subscribers_ok l \<Longrightarrow> subscribers_ok (snd (append_stored l e))"
  using subscription_ok_append [of l _ e]
  by (force simp: subscribers_ok_def append_stored_def Let_def index_entry_def split_def comp_def)

lemma owed_started:
  assumes "log_ok l"
  shows "owed l \<lparr>s_selector = sel, s_after = after, s_from = length (l_entries l),
     s_backlog = b, s_queue = q, s_delivered = d\<rparr> = scan l sel after"
proof -
  have "p \<le> length (l_entries l)" if "(p, e) \<in> set (l_entries l)" for p e
  proof -
    have "p \<in> set (map fst (l_entries l))" using that by force
    with assms show ?thesis by (auto simp: log_ok_def)
  qed
  then have "(\<lambda>(p, e). matches e sel \<and> (length (l_entries l) < p \<or>
      (case after of None \<Rightarrow> True | Some a \<Rightarrow> a < p))) pe = selected sel after pe"
    if "pe \<in> set (l_entries l)" for pe
    using that by (cases pe) (auto simp: selected_def not_less [symmetric] split: option.splits)
  then show ?thesis
    unfolding owed_def scan_def by (simp cong: filter_cong)
qed

lemma subscribers_ok_start:
  "log_ok l \<Longrightarrow> subscribers_ok l \<Longrightarrow> subscribers_ok (snd (subscribe_start l sel after))"
  by (force simp: subscribers_ok_def subscribe_start_def subscription_ok_def owed_started
      query_scan log_ok_def limited_def)

lemma take_next_ok:
  assumes "take_next s = Some (e, s')" and "subscription_ok l s"
  shows "subscription_ok l s'"
proof -
  have "s_from s' = s_from s" "owed l s' = owed l s"
    "s_delivered s' @ s_backlog s' @ s_queue s' = s_delivered s @ s_backlog s @ s_queue s"
    using assms(1) by (auto simp: take_next_def split: list.splits)
  with assms(2) show ?thesis by (simp add: subscription_ok_def)
qed

lemma subscribers_ok_next:
  assumes "subscribers_ok l" and "subscribe_next l t = Some (e, l')"
  shows "subscribers_ok l'"
proof -
  from assms(2) obtain s s' where s: "map_of (l_subscribers l) t = Some s"
    and next': "take_next s = Some (e, s')"
    and l': "l' = l\<lparr>l_subscribers := AList.update t s' (l_subscribers l)\<rparr>"
    by (auto simp: subscribe_next_def split: option.splits)
  from s have mem: "(t, s) \<in> set (l_subscribers l)" by (rule map_of_SomeD)
  with assms(1) next' have "subscription_ok l s'" "t < l_fresh l"
    by (auto simp: subscribers_ok_def intro: take_next_ok)
  then show ?thesis
    using assms(1) set_update_subset [of t s' "l_subscribers l"]
    by (force simp: subscribers_ok_def l' distinct_keys_update)
qed

lemma subscribers_ok_close: "subscribers_ok l \<Longrightarrow> subscribers_ok (subscribe_close l t)"
  by (auto simp: subscribers_ok_def subscribe_close_def AList.delete_eq distinct_map_filterI)

lemma log_ok_next: "subscribe_next l t = Some (e, l') \<Longrightarrow> log_ok l \<Longrightarrow> log_ok l'"
  by (auto simp: subscribe_next_def split: option.splits)

lemma log_step_ok: "log_step l l' \<Longrightarrow> log_ok l \<and> subscribers_ok l \<Longrightarrow> log_ok l' \<and> subscribers_ok l'"
proof (induction rule: log_step.induct)
  case (append l e)
  then show ?case by (simp add: log_ok_append_stored subscribers_ok_append)
next
  case (start l sel after)
  then show ?case using subscribers_ok_start by (simp add: subscribe_start_def)
next
  case (yield l t e l')
  then show ?case by (blast intro: log_ok_next subscribers_ok_next)
next
  case (close l t)
  then show ?case by (simp add: subscribers_ok_close) (simp add: subscribe_close_def)
qed

lemma load_log_snoc: "load_log (es @ [e]) = snd (append_loaded (load_log es) e)"
  by (simp add: load_log_def)

lemma load_log_ok: "log_ok (load_log es) \<and> contents (load_log es) = es \<and> l_subscribers (load_log es) = []"
proof (induction es rule: rev_induct)
  case Nil
  then show ?case by (simp add: load_log_def contents_def) (simp add: empty_log_def)
next
  case (snoc e es)
  then show ?case
    by (simp add: load_log_snoc log_ok_append_loaded)
      (simp add: append_loaded_def index_entry_def Let_def)
qed

lemma log_reachable_ok: "log_reachable l \<Longrightarrow> log_ok l \<and> subscribers_ok l"
proof (induction rule: log_reachable.induct)
  case (loaded es)
  then show ?case by (simp add: load_log_ok subscribers_ok_def)
next
  case (step l l')
  then show ?case using log_step_ok by blast
qed

lemma append_all_mem: "mem.put_all l es = fold (\<lambda>e l. snd (append_stored l e)) es l"
  by (rule mem.put_all_def)

section \<open>Properties\<close>

text \<open>
  Property C1. In every reachable log the indexed query (the shortest candidate index, then the
  filter, then the limit) returns exactly what a linear scan of the appended entries returns: the
  matching entries after the position, in append order, cut to the limit. A limit below one
  returns one entry, as the code tests the limit only after it has added an entry.
\<close>

theorem query_is_linear_scan:
  assumes "log_reachable l"
  shows "query l sel after limit = limited limit
    (filter (\<lambda>e. matches e sel) (drop (case after of None \<Rightarrow> 0 | Some a \<Rightarrow> a) (contents l)))"
  using log_reachable_ok [OF assms] by (simp add: query_scan scan_contents log_ok_def)

definition sample_entry :: "string \<Rightarrow> string \<Rightarrow> int \<Rightarrow> event_entry" where
  "sample_entry op run n = \<lparr>e_entry_id = ''id'', e_entry_type = Event, e_operation_id = op,
     e_event_id = None, e_run_id = run, e_session_id = ''s'', e_sequence = n, e_payload = [],
     e_created_at = 0\<rparr>"

theorem query_is_linear_scan_witness:
  "query (load_log [sample_entry ''a'' ''r'' 0, sample_entry ''b'' ''q'' 0, sample_entry ''a'' ''r'' 1])
     (any_entry\<lparr>f_operation_id := Some ''a''\<rparr>) (Some 1) (Some 0) = [sample_entry ''a'' ''r'' 1]"
  unfolding query_is_linear_scan [OF log_reachable.loaded]
  by (simp add: limited_def load_log_ok matches_def any_entry_def sample_entry_def)

text \<open>
  Property C2. Exactly-once, in-order delivery: whatever the interleaving of appends and of the
  steps of all subscribers, what a subscriber has received followed by what is pending for it is
  exactly the sequence it is owed, and its next step blocks only when it has received all of it.
\<close>

theorem subscription_exactly_once:
  assumes "log_reachable l" and "map_of (l_subscribers l) t = Some s"
  shows "s_delivered s @ s_backlog s @ s_queue s = owed l s \<and>
    (subscribe_next l t = None \<longleftrightarrow> s_delivered s = owed l s)"
proof -
  have "(t, s) \<in> set (l_subscribers l)" using assms(2) by (rule map_of_SomeD)
  then have owed: "s_delivered s @ s_backlog s @ s_queue s = owed l s"
    using log_reachable_ok [OF assms(1)] by (auto simp: subscribers_ok_def subscription_ok_def)
  then show ?thesis
    using assms(2)
    by (auto simp: subscribe_next_def take_next_def split: list.splits simp flip: owed)
qed

theorem subscription_exactly_once_witness:
  "\<exists>l s. map_of (l_subscribers l) 0 = Some s \<and> s_queue s = [sample_entry ''a'' ''r'' 1] \<and>
     s_delivered s @ s_backlog s @ s_queue s = owed l s"
proof -
  let ?l0 = "load_log [sample_entry ''a'' ''r'' 0]"
  let ?l1 = "snd (subscribe_start ?l0 any_entry None)"
  let ?l2 = "snd (append_stored ?l1 (sample_entry ''a'' ''r'' 1))"
  let ?s = "\<lparr>s_selector = any_entry, s_after = None, s_from = 1,
    s_backlog = [sample_entry ''a'' ''r'' 0], s_queue = [sample_entry ''a'' ''r'' 1], s_delivered = []\<rparr>"
  have reach: "log_reachable ?l2"
    by (rule log_reachable.step [OF log_reachable.step [OF log_reachable.loaded log_step.start]
          log_step.append])
  have sub: "map_of (l_subscribers ?l2) 0 = Some ?s"
    by (simp add: load_log_def empty_log_def append_loaded_def index_entry_def append_stored_def
        subscribe_start_def notify_def query_def candidate_entries_def any_entry_def Let_def
        matches_def append_under_def bucket_def)
  have "s_delivered ?s @ s_backlog ?s @ s_queue ?s = owed ?l2 ?s"
    using subscription_exactly_once [OF reach sub] by (rule conjunct1)
  with sub show ?thesis by (intro exI [of _ ?l2] exI [of _ ?s] conjI) simp_all
qed

text \<open>
  A reader that remembers a checkpoint misses nothing and repeats nothing: after any
  further appends, the query from the checkpoint returns the new matching entries, and the whole
  history is the old answer followed by the new one.
\<close>

theorem checkpoint_resumes:
  assumes "log_reachable l"
  shows "let l' = fold (\<lambda>e l. snd (append_stored l e)) es l in
    query l' sel (Some (checkpoint l)) None = filter (\<lambda>e. matches e sel) es \<and>
    query l' sel None None = query l sel None None @ query l' sel (Some (checkpoint l)) None"
  using log_reachable_ok [OF assms] mem.ask_since_checkpoint [of l es sel] mem.ask_resumes [of l es sel]
  by (simp add: append_all_mem Let_def)

theorem checkpoint_resumes_witness:
  "let l = load_log [sample_entry ''a'' ''r'' 0];
       l' = fold (\<lambda>e l. snd (append_stored l e)) [sample_entry ''b'' ''q'' 0] l in
    query l' any_entry (Some (checkpoint l)) None = [sample_entry ''b'' ''q'' 0]"
  using checkpoint_resumes [OF log_reachable.loaded [of "[sample_entry ''a'' ''r'' 0]"],
      of "[sample_entry ''b'' ''q'' 0]" any_entry]
  by (simp add: Let_def)

end
