(* ===== verification/Run_Projection.thy ===== *)
theory Run_Projection
  imports Event_Log
begin

text \<open>
  Rebuilding Work runs from the event log (\<open>harnesswork/run_projection.py\<close>): the incremental
  reducer \<open>_RunProjector\<close>, the replay \<open>project_work_runs\<close> and the lifecycle they enforce.

  The reducer raises after it has already changed some of its fields, and one of its callers (the
  recording observer) catches the exception and goes on with it, so the model of \<open>apply\<close> returns
  the reducer's state on both outcomes.
\<close>

section \<open>Runs\<close>

datatype run_status =
  Accepted | Running | Cancelling | Completed | Failed | Cancelled | Orphaned

record work_run =
  r_run_id :: string
  r_operation_id :: string
  r_session_id :: string
  r_domain :: string
  r_status :: run_status
  r_method_id :: "string option"
  r_plan_id :: "string option"
  r_current_step_id :: "string option"

datatype replay_error =
    NoOperationEntry string
  | OperationSequenceNotZero string
  | OperationOfTwoRuns string
  | NoDomain string
  | DuplicateOperationEntry string
  | ChangesOperationId string
  | ChangesSessionId string
  | SequenceNotIncreasing string
  | EventAfterTerminal string
  | EventHasNoKind string
  | CannotApply string string run_status
  | BeforeStarted string string

text \<open>\<open>_TERMINAL_KINDS\<close>.\<close>

definition terminal_kinds :: "(string \<times> run_status) list" where
  "terminal_kinds =
     [(''WorkRunCompleted'', Completed), (''WorkRunFailed'', Failed),
      (''WorkRunCancelled'', Cancelled)]"

record replay_state =
  p_run :: work_run
  p_last_sequence :: int
  p_terminal :: bool

record run_projector =
  states :: "(string \<times> replay_state) list"
  operation_ids :: "(string \<times> string) list"

definition empty_projector :: run_projector where
  "empty_projector = \<lparr>states = [], operation_ids = []\<rparr>"

section \<open>The reducer\<close>

definition run_from_operation :: "event_entry \<Rightarrow> replay_error + work_run" where
  "run_from_operation entry =
     (case map_of (e_payload entry) ''domain'' of
        Some (JStr domain) \<Rightarrow>
          if domain = [] then Inl (NoDomain (e_run_id entry))
          else
            (let nested = nested_mapping (map_of (e_payload entry) ''payload'')
             in Inr \<lparr>r_run_id = e_run_id entry, r_operation_id = e_operation_id entry,
                  r_session_id = e_session_id entry, r_domain = domain, r_status = Accepted,
                  r_method_id = optional_string (map_of nested ''method_id''),
                  r_plan_id = optional_string (map_of nested ''plan_id''),
                  r_current_step_id = optional_string (map_of nested ''step_id'')\<rparr>)
      | _ \<Rightarrow> Inl (NoDomain (e_run_id entry)))"

definition require_status ::
  "event_entry \<Rightarrow> string \<Rightarrow> run_status \<Rightarrow> run_status list \<Rightarrow> replay_error + unit" where
  "require_status entry kind status allowed =
     require (status \<in> set allowed) (CannotApply (e_run_id entry) kind status)"

text \<open>The chain of conditions on the event kind: the next status and whether it is terminal.\<close>

definition next_status ::
  "event_entry \<Rightarrow> string \<Rightarrow> run_status \<Rightarrow> replay_error + run_status \<times> bool" where
  "next_status entry kind status =
     (if kind = ''WorkRunStarted'' then
        rbind (require_status entry kind status [Accepted]) (\<lambda>_. Inr (Running, False))
      else if kind = ''WorkRunCancelling'' then
        rbind (require_status entry kind status [Running]) (\<lambda>_. Inr (Cancelling, False))
      else
        (case map_of terminal_kinds kind of
           Some final \<Rightarrow>
             rbind (require_status entry kind status
                      (if kind = ''WorkRunCancelled'' then [Cancelling] else [Running, Cancelling]))
               (\<lambda>_. Inr (final, True))
         | None \<Rightarrow>
             if status = Accepted then Inl (BeforeStarted (e_run_id entry) kind)
             else Inr (status, False)))"

definition apply_event :: "replay_state \<Rightarrow> event_entry \<Rightarrow> replay_error + replay_state" where
  "apply_event state entry =
     (case map_of (e_payload entry) ''kind'' of
        Some (JStr kind) \<Rightarrow>
          if kind = [] then Inl (EventHasNoKind (e_run_id entry))
          else
            (let nested = nested_mapping (map_of (e_payload entry) ''payload'');
                 run = p_run state
             in rbind (next_status entry kind (r_status run)) (\<lambda>(status, final).
                  Inr (state\<lparr>p_terminal := p_terminal state \<or> final,
                    p_run := \<lparr>r_run_id = r_run_id run, r_operation_id = r_operation_id run,
                      r_session_id = r_session_id run, r_domain = r_domain run,
                      r_status = status,
                      r_method_id =
                        or_else (optional_string (map_of nested ''method_id'')) (r_method_id run),
                      r_plan_id =
                        or_else (optional_string (map_of nested ''plan_id'')) (r_plan_id run),
                      r_current_step_id =
                        or_else (optional_string (map_of nested ''step_id''))
                          (r_current_step_id run)\<rparr>\<rparr>)))
      | _ \<Rightarrow> Inl (EventHasNoKind (e_run_id entry)))"

text \<open>\<open>apply\<close> returns the exception, if any, and the reducer as it stands afterwards.\<close>

definition apply_first ::
  "run_projector \<Rightarrow> event_entry \<Rightarrow> replay_error option \<times> run_projector" where
  "apply_first p entry =
     (let rid = e_run_id entry in
      if e_entry_type entry \<noteq> Operation then (Some (NoOperationEntry rid), p)
      else if e_sequence entry \<noteq> 0 then (Some (OperationSequenceNotZero rid), p)
      else if map_of (operation_ids p) (e_operation_id entry) \<noteq> None then
        (Some (OperationOfTwoRuns (e_operation_id entry)), p)
      else
        (let p' = p\<lparr>operation_ids := AList.update (e_operation_id entry) rid (operation_ids p)\<rparr> in
         case run_from_operation entry of
           Inl err \<Rightarrow> (Some err, p')
         | Inr run \<Rightarrow>
             (None, p'\<lparr>states := AList.update rid
                \<lparr>p_run = run, p_last_sequence = 0, p_terminal = False\<rparr> (states p')\<rparr>)))"

definition apply_next ::
  "run_projector \<Rightarrow> replay_state \<Rightarrow> event_entry \<Rightarrow> replay_error option \<times> run_projector" where
  "apply_next p state entry =
     (let rid = e_run_id entry in
      if e_entry_type entry = Operation then (Some (DuplicateOperationEntry rid), p)
      else if e_operation_id entry \<noteq> r_operation_id (p_run state) then
        (Some (ChangesOperationId rid), p)
      else if e_session_id entry \<noteq> r_session_id (p_run state) then
        (Some (ChangesSessionId rid), p)
      else if e_sequence entry \<le> p_last_sequence state then
        (Some (SequenceNotIncreasing rid), p)
      else if p_terminal state then (Some (EventAfterTerminal rid), p)
      else
        (let state' = state\<lparr>p_last_sequence := e_sequence entry\<rparr> in
         case apply_event state' entry of
           Inl err \<Rightarrow> (Some err, p\<lparr>states := AList.update rid state' (states p)\<rparr>)
         | Inr state'' \<Rightarrow> (None, p\<lparr>states := AList.update rid state'' (states p)\<rparr>)))"

definition projector_apply ::
  "run_projector \<Rightarrow> event_entry \<Rightarrow> replay_error option \<times> run_projector" where
  "projector_apply p entry =
     (case map_of (states p) (e_run_id entry) of
        None \<Rightarrow> apply_first p entry
      | Some state \<Rightarrow> apply_next p state entry)"

text \<open>An exception that nothing catches ends the replay.\<close>

definition projector_step :: "run_projector \<Rightarrow> event_entry \<Rightarrow> replay_error + run_projector" where
  "projector_step p entry =
     (case projector_apply p entry of (None, p') \<Rightarrow> Inr p' | (Some err, _) \<Rightarrow> Inl err)"

definition incomplete :: "run_status \<Rightarrow> bool" where
  "incomplete st \<longleftrightarrow> st \<in> {Accepted, Running, Cancelling}"

definition mark_orphaned :: "work_run \<Rightarrow> work_run" where
  "mark_orphaned run = (if incomplete (r_status run) then run\<lparr>r_status := Orphaned\<rparr> else run)"

definition project_work_runs :: "event_entry list \<Rightarrow> bool \<Rightarrow> replay_error + work_run list" where
  "project_work_runs entries mark_incomplete_orphaned =
     rbind (rfold projector_step empty_projector entries) (\<lambda>p.
       let runs = map (p_run \<circ> snd) (states p)
       in Inr (if mark_incomplete_orphaned then map mark_orphaned runs else runs))"

section \<open>The lifecycle a history must follow\<close>

definition final_status :: "run_status \<Rightarrow> bool" where
  "final_status st \<longleftrightarrow> st \<in> {Completed, Failed, Cancelled}"

definition lifecycle_kinds :: "string list" where
  "lifecycle_kinds = [''WorkRunStarted'', ''WorkRunCancelling'', ''WorkRunCompleted'',
     ''WorkRunFailed'', ''WorkRunCancelled'']"

inductive lifecycle_step :: "run_status \<Rightarrow> string \<Rightarrow> run_status \<Rightarrow> bool" where
  started: "lifecycle_step Accepted ''WorkRunStarted'' Running"
| cancelling: "lifecycle_step Running ''WorkRunCancelling'' Cancelling"
| completed: "st \<in> {Running, Cancelling} \<Longrightarrow> lifecycle_step st ''WorkRunCompleted'' Completed"
| failed: "st \<in> {Running, Cancelling} \<Longrightarrow> lifecycle_step st ''WorkRunFailed'' Failed"
| cancelled: "lifecycle_step Cancelling ''WorkRunCancelled'' Cancelled"
| progress: "st \<in> {Running, Cancelling} \<Longrightarrow> kind \<notin> set lifecycle_kinds \<Longrightarrow>
    lifecycle_step st kind st"

inductive lifecycle_path :: "run_status \<Rightarrow> string list \<Rightarrow> run_status \<Rightarrow> bool" where
  path_nil: "lifecycle_path st [] st"
| path_snoc: "lifecycle_path st ks st' \<Longrightarrow> lifecycle_step st' k st'' \<Longrightarrow>
    lifecycle_path st (ks @ [k]) st''"

inductive_cases lifecycle_path_snocE: "lifecycle_path st (ks @ [k]) st''"

lemma lifecycle_path_nil_iff [simp]: "lifecycle_path st [] st' \<longleftrightarrow> st' = st"
  by (auto elim: lifecycle_path.cases intro: path_nil)

lemma lifecycle_path_snoc_iff [simp]:
  "lifecycle_path st (ks @ [k]) st'' \<longleftrightarrow> (\<exists>st'. lifecycle_path st ks st' \<and> lifecycle_step st' k st'')"
  by (auto elim: lifecycle_path_snocE intro: path_snoc)

lemma next_status_iff:
  "next_status entry kind st = Inr (st', fin) \<and> \<not> final_status st \<and> st \<noteq> Orphaned \<longleftrightarrow>
   lifecycle_step st kind st' \<and> fin = final_status st'"
  by (cases st; cases st')
    (auto simp: next_status_def require_status_def terminal_kinds_def final_status_def
      lifecycle_kinds_def lifecycle_step.simps rbind_Inr_iff split: if_splits)

lemma lifecycle_step_source: "lifecycle_step st kind st' \<Longrightarrow> \<not> final_status st \<and> st \<noteq> Orphaned"
  by (auto simp: lifecycle_step.simps final_status_def)

lemma lifecycle_step_target: "lifecycle_step st kind st' \<Longrightarrow> st' \<noteq> Orphaned \<and> st' \<noteq> Accepted"
  by (auto simp: lifecycle_step.simps)

definition entry_kind :: "event_entry \<Rightarrow> string option" where
  "entry_kind e = optional_string (map_of (e_payload e) ''kind'')"

definition operation_ok :: "event_entry \<Rightarrow> bool" where
  "operation_ok e \<longleftrightarrow> e_entry_type e = Operation \<and> e_sequence e = 0 \<and>
     optional_string (map_of (e_payload e) ''domain'') \<noteq> None"

definition event_of :: "event_entry \<Rightarrow> event_entry \<Rightarrow> bool" where
  "event_of op e \<longleftrightarrow> e_entry_type e = Event \<and> e_operation_id e = e_operation_id op \<and>
     e_session_id e = e_session_id op \<and> entry_kind e \<noteq> None"

text \<open>
  The declarative contract of one run's own entries: an operation first, then events of the same
  operation and session, strictly increasing sequence numbers, and kinds along the lifecycle.
\<close>

definition valid_history :: "event_entry list \<Rightarrow> run_status \<Rightarrow> bool" where
  "valid_history es st \<longleftrightarrow>
     (\<exists>op evs. es = op # evs \<and> operation_ok op \<and> (\<forall>e \<in> set evs. event_of op e) \<and>
        sorted_wrt (<) (map e_sequence es) \<and>
        lifecycle_path Accepted (map (the \<circ> entry_kind) evs) st)"

lemma valid_history_single: "valid_history [e] st \<longleftrightarrow> operation_ok e \<and> st = Accepted"
  by (simp add: valid_history_def)

lemma sorted_wrt_snoc_last:
  "sorted_wrt (<) (xs @ [x, y]) \<longleftrightarrow> sorted_wrt (<) (xs @ [x]) \<and> x < (y :: int)"
  by (fastforce simp: sorted_wrt_append)

lemma valid_history_snoc:
  assumes "es \<noteq> []"
  shows "valid_history (es @ [e]) st' \<longleftrightarrow>
    (\<exists>st. valid_history es st \<and> event_of (hd es) e \<and> e_sequence (last es) < e_sequence e \<and>
       lifecycle_step st (the (entry_kind e)) st')"
proof -
  obtain op evs where es: "es = op # evs" using assms by (cases es) auto
  have "sorted_wrt (<) (map e_sequence (es @ [e])) \<longleftrightarrow>
      sorted_wrt (<) (map e_sequence es) \<and> e_sequence (last es) < e_sequence e"
    using sorted_wrt_snoc_last [of "map e_sequence (butlast es)" "e_sequence (last es)" "e_sequence e"]
      append_butlast_last_id [OF assms] by (metis append.assoc append_Cons append_Nil list.map(1,2) map_append)
  then show ?thesis by (auto simp: valid_history_def es)
qed

lemma lifecycle_step_next_status:
  "lifecycle_step st k st' \<Longrightarrow> next_status e k st = Inr (st', final_status st')"
  using next_status_iff by blast

lemma lifecycle_step_deterministic:
  "lifecycle_step st k st' \<Longrightarrow> lifecycle_step st k st'' \<Longrightarrow> st' = st''"
  using lifecycle_step_next_status [of st k st' undefined]
    lifecycle_step_next_status [of st k st'' undefined] by simp

lemma lifecycle_path_deterministic:
  "lifecycle_path st ks st' \<Longrightarrow> lifecycle_path st ks st'' \<Longrightarrow> st' = st''"
proof (induction ks arbitrary: st' st'' rule: rev_induct)
  case Nil
  then show ?case by simp
next
  case (snoc k ks)
  then show ?case using lifecycle_step_deterministic by (metis lifecycle_path_snoc_iff)
qed

lemma valid_history_unique: "valid_history es st \<Longrightarrow> valid_history es st' \<Longrightarrow> st = st'"
  by (auto simp: valid_history_def intro: lifecycle_path_deterministic)

lemma lifecycle_path_target:
  "lifecycle_path st ks st' \<Longrightarrow> st \<noteq> Orphaned \<Longrightarrow> st' \<noteq> Orphaned"
  by (induction ks arbitrary: st' rule: rev_induct) (auto dest: lifecycle_step_target)

lemma valid_history_not_orphaned: "valid_history es st \<Longrightarrow> st \<noteq> Orphaned"
  using lifecycle_path_target by (fastforce simp: valid_history_def)

section \<open>One run replayed alone\<close>

definition run_start :: "event_entry \<Rightarrow> replay_state option" where
  "run_start e =
     (if e_entry_type e = Operation \<and> e_sequence e = 0 then
        (case run_from_operation e of
           Inl _ \<Rightarrow> None
         | Inr run \<Rightarrow> Some \<lparr>p_run = run, p_last_sequence = 0, p_terminal = False\<rparr>)
      else None)"

definition run_continue :: "replay_state \<Rightarrow> event_entry \<Rightarrow> replay_state option" where
  "run_continue s e =
     (if e_entry_type e = Event \<and> e_operation_id e = r_operation_id (p_run s) \<and>
         e_session_id e = r_session_id (p_run s) \<and> p_last_sequence s < e_sequence e \<and>
         \<not> p_terminal s
      then (case apply_event (s\<lparr>p_last_sequence := e_sequence e\<rparr>) e of
              Inl _ \<Rightarrow> None | Inr s' \<Rightarrow> Some s')
      else None)"

definition run_entry :: "replay_state option \<Rightarrow> event_entry \<Rightarrow> replay_state option" where
  "run_entry so e = (case so of None \<Rightarrow> run_start e | Some s \<Rightarrow> run_continue s e)"

lemma projector_step_Inr_iff:
  "projector_step p e = Inr p' \<longleftrightarrow>
     (\<exists>s'. run_entry (map_of (states p) (e_run_id e)) e = Some s' \<and>
        p' = \<lparr>states = AList.update (e_run_id e) s' (states p),
              operation_ids = (if map_of (states p) (e_run_id e) = None
                then AList.update (e_operation_id e) (e_run_id e) (operation_ids p)
                else operation_ids p)\<rparr> \<and>
        (map_of (states p) (e_run_id e) = None \<longrightarrow>
           map_of (operation_ids p) (e_operation_id e) = None))"
  by (cases "map_of (states p) (e_run_id e)"; cases "e_entry_type e")
    (auto simp: projector_step_def projector_apply_def apply_first_def apply_next_def Let_def
      run_entry_def run_start_def run_continue_def not_less split: sum.splits if_splits)

text \<open>What the state of a run says of its own entries.\<close>

definition describes :: "event_entry list \<Rightarrow> replay_state \<Rightarrow> bool" where
  "describes es s \<longleftrightarrow> es \<noteq> [] \<and> valid_history es (r_status (p_run s)) \<and>
     r_run_id (p_run s) = e_run_id (hd es) \<and> r_operation_id (p_run s) = e_operation_id (hd es) \<and>
     r_session_id (p_run s) = e_session_id (hd es) \<and>
     p_last_sequence s = e_sequence (last es) \<and> p_terminal s = final_status (r_status (p_run s))"

lemma run_from_operation_iff:
  "run_from_operation e = Inr run \<longleftrightarrow>
     (\<exists>domain. optional_string (map_of (e_payload e) ''domain'') = Some domain \<and>
        run = \<lparr>r_run_id = e_run_id e, r_operation_id = e_operation_id e,
          r_session_id = e_session_id e, r_domain = domain, r_status = Accepted,
          r_method_id = optional_string (map_of (nested_mapping (map_of (e_payload e) ''payload'')) ''method_id''),
          r_plan_id = optional_string (map_of (nested_mapping (map_of (e_payload e) ''payload'')) ''plan_id''),
          r_current_step_id = optional_string (map_of (nested_mapping (map_of (e_payload e) ''payload'')) ''step_id'')\<rparr>)"
  by (auto simp: run_from_operation_def Let_def split: option.splits json.splits)

lemma run_start_describes: "run_start e = Some s \<Longrightarrow> describes [e] s"
  by (auto simp: run_start_def describes_def valid_history_single operation_ok_def
      run_from_operation_iff final_status_def split: if_splits sum.splits)

lemma run_start_defined: "operation_ok e \<Longrightarrow> \<exists>s. run_start e = Some s"
  by (cases "run_from_operation e")
    (auto simp: run_start_def operation_ok_def run_from_operation_def Let_def
      split: option.splits json.splits if_splits)

lemma apply_event_iff:
  assumes "\<not> p_terminal s" "p_terminal s = final_status (r_status (p_run s))" "r_status (p_run s) \<noteq> Orphaned"
  shows "(\<exists>s'. apply_event s e = Inr s' \<and> r_status (p_run s') = st') \<longleftrightarrow>
    entry_kind e \<noteq> None \<and> lifecycle_step (r_status (p_run s)) (the (entry_kind e)) st'"
proof (cases "entry_kind e")
  case None
  then show ?thesis
    by (auto simp: entry_kind_def apply_event_def split: option.splits json.splits if_splits)
next
  case (Some kind)
  then have kind: "map_of (e_payload e) ''kind'' = Some (JStr kind)" "kind \<noteq> []"
    by (auto simp: entry_kind_def optional_string_Some_iff)
  have "(\<exists>s'. apply_event s e = Inr s' \<and> r_status (p_run s') = st') \<longleftrightarrow>
      (\<exists>fin. next_status e kind (r_status (p_run s)) = Inr (st', fin))"
    by (auto simp: apply_event_def kind Let_def rbind_Inr_iff split: prod.splits)
  also have "\<dots> \<longleftrightarrow> lifecycle_step (r_status (p_run s)) kind st'"
    using assms next_status_iff [of e kind "r_status (p_run s)" st'] by metis
  finally show ?thesis using Some by simp
qed

lemma next_status_final:
  "next_status e kind st = Inr (st', fin) \<Longrightarrow> \<not> final_status st \<Longrightarrow> fin = final_status st'"
  by (auto simp: next_status_def require_status_def terminal_kinds_def final_status_def
      rbind_Inr_iff split: if_splits)

lemma apply_event_fields:
  "apply_event s e = Inr s' \<Longrightarrow> p_last_sequence s' = p_last_sequence s \<and>
     r_run_id (p_run s') = r_run_id (p_run s) \<and>
     r_operation_id (p_run s') = r_operation_id (p_run s) \<and>
     r_session_id (p_run s') = r_session_id (p_run s) \<and>
     (\<not> p_terminal s \<and> \<not> final_status (r_status (p_run s)) \<longrightarrow>
        p_terminal s' = final_status (r_status (p_run s')))"
  using next_status_final
  by (fastforce simp: apply_event_def Let_def rbind_Inr_iff split: option.splits json.splits if_splits)

lemma run_continue_iff:
  assumes "describes es s"
  shows "(\<exists>s'. run_continue s e = Some s' \<and> r_status (p_run s') = st') \<longleftrightarrow> valid_history (es @ [e]) st'"
proof -
  let ?s = "s\<lparr>p_last_sequence := e_sequence e\<rparr>"
  let ?guard = "e_entry_type e = Event \<and> e_operation_id e = e_operation_id (hd es) \<and>
    e_session_id e = e_session_id (hd es) \<and> e_sequence (last es) < e_sequence e"
  have valid: "valid_history es (r_status (p_run s))" and ne: "es \<noteq> []"
    using assms by (auto simp: describes_def)
  have unique: "valid_history es st \<longleftrightarrow> st = r_status (p_run s)" for st
    using valid valid_history_unique by blast
  have "(\<exists>s'. run_continue s e = Some s' \<and> r_status (p_run s') = st') \<longleftrightarrow>
      ?guard \<and> \<not> p_terminal s \<and> (\<exists>s'. apply_event ?s e = Inr s' \<and> r_status (p_run s') = st')"
    using assms by (auto simp: run_continue_def describes_def split: sum.splits)
  also have "\<dots> \<longleftrightarrow> ?guard \<and> entry_kind e \<noteq> None \<and>
      lifecycle_step (r_status (p_run s)) (the (entry_kind e)) st'"
  proof (cases "\<not> p_terminal s \<and> r_status (p_run s) \<noteq> Orphaned")
    case True
    then show ?thesis using assms apply_event_iff [of ?s e st'] by (auto simp: describes_def)
  next
    case False
    moreover have "r_status (p_run s) \<noteq> Orphaned" using valid valid_history_not_orphaned by blast
    ultimately show ?thesis
      using assms lifecycle_step_source by (auto simp: describes_def)
  qed
  also have "\<dots> \<longleftrightarrow> valid_history (es @ [e]) st'"
    by (auto simp: valid_history_snoc [OF ne] unique event_of_def)
  finally show ?thesis .
qed

lemma run_continue_describes:
  assumes "describes es s" and "run_continue s e = Some s'" and "e_run_id e = e_run_id (hd es)"
  shows "describes (es @ [e]) s'"
proof -
  have "valid_history (es @ [e]) (r_status (p_run s'))"
    using run_continue_iff [OF assms(1)] assms(2) by blast
  moreover have "r_status (p_run s) \<noteq> Orphaned \<and> (p_terminal s \<longleftrightarrow> final_status (r_status (p_run s)))"
    using assms(1) valid_history_not_orphaned by (auto simp: describes_def)
  moreover have "apply_event (s\<lparr>p_last_sequence := e_sequence e\<rparr>) e = Inr s'" "\<not> p_terminal s"
    using assms(2) by (auto simp: run_continue_def split: if_splits sum.splits)
  ultimately show ?thesis
    using assms(1) apply_event_fields [of "s\<lparr>p_last_sequence := e_sequence e\<rparr>" e s']
    by (simp add: describes_def)
qed

section \<open>The whole log\<close>

definition own :: "string \<Rightarrow> event_entry list \<Rightarrow> event_entry list" where
  "own r es = filter (\<lambda>e. e_run_id e = r) es"

lemma own_simps [simp]:
  "own r [] = []" "own r (xs @ ys) = own r xs @ own r ys"
  "own r [e] = (if e_run_id e = r then [e] else [])"
  by (simp_all add: own_def)

lemma own_Nil_iff: "own r es = [] \<longleftrightarrow> r \<notin> e_run_id ` set es"
  by (auto simp: own_def filter_empty_conv)

lemma hd_own: "own r es \<noteq> [] \<Longrightarrow> e_run_id (hd (own r es)) = r"
  using hd_in_set [of "own r es"] by (simp add: own_def)

definition first_runs :: "event_entry list \<Rightarrow> string list" where
  "first_runs es = rev (remdups (rev (map e_run_id es)))"

lemma first_runs_snoc:
  "first_runs (es @ [e]) =
     (if e_run_id e \<in> set (first_runs es) then first_runs es else first_runs es @ [e_run_id e])"
  by (simp add: first_runs_def)

lemma set_first_runs [simp]: "set (first_runs es) = e_run_id ` set es"
  by (simp add: first_runs_def)

lemma distinct_first_runs [simp]: "distinct (first_runs es)"
  by (simp add: first_runs_def)

text \<open>An operation identifier belongs to one run.\<close>

definition operations_unique :: "event_entry list \<Rightarrow> bool" where
  "operations_unique es \<longleftrightarrow>
     (\<forall>e \<in> set es. \<forall>e' \<in> set es. e_entry_type e = Operation \<and> e_entry_type e' = Operation \<and>
        e_operation_id e = e_operation_id e' \<longrightarrow> e_run_id e = e_run_id e')"

lemma operations_uniqueD:
  "operations_unique es \<Longrightarrow> e_operation_id e = e_operation_id e' \<Longrightarrow> e \<in> set es \<Longrightarrow> e' \<in> set es \<Longrightarrow>
     e_entry_type e = Operation \<Longrightarrow> e_entry_type e' = Operation \<Longrightarrow> e_run_id e = e_run_id e'"
  unfolding operations_unique_def by blast

lemma operations_uniqueI:
  "(\<And>e e'. e \<in> set es \<Longrightarrow> e' \<in> set es \<Longrightarrow> e_entry_type e = Operation \<Longrightarrow>
      e_entry_type e' = Operation \<Longrightarrow> e_operation_id e = e_operation_id e' \<Longrightarrow>
      e_run_id e = e_run_id e') \<Longrightarrow> operations_unique es"
  unfolding operations_unique_def by blast

definition replayable :: "event_entry list \<Rightarrow> bool" where
  "replayable es \<longleftrightarrow>
     (\<forall>r \<in> e_run_id ` set es. \<exists>st. valid_history (own r es) st) \<and> operations_unique es"

text \<open>The reducer after a successful replay.\<close>

definition tracks :: "event_entry list \<Rightarrow> run_projector \<Rightarrow> bool" where
  "tracks es p \<longleftrightarrow> keys (states p) = first_runs es \<and>
     (\<forall>r. map_of (states p) r = foldl run_entry None (own r es)) \<and>
     (\<forall>r s. map_of (states p) r = Some s \<longrightarrow> describes (own r es) s) \<and>
     (\<forall>oid r. map_of (operation_ids p) oid = Some r \<longleftrightarrow>
        (\<exists>e \<in> set es. e_entry_type e = Operation \<and> e_operation_id e = oid \<and> e_run_id e = r))"

lemma tracks_empty: "tracks [] empty_projector"
  by (simp add: tracks_def empty_projector_def first_runs_def)

lemma tracks_describes: "tracks es p \<Longrightarrow> map_of (states p) r = Some s \<Longrightarrow> describes (own r es) s"
  unfolding tracks_def by blast

lemma tracks_operation:
  "tracks es p \<Longrightarrow> map_of (operation_ids p) oid = Some r \<longleftrightarrow>
     (\<exists>e \<in> set es. e_entry_type e = Operation \<and> e_operation_id e = oid \<and> e_run_id e = r)"
  unfolding tracks_def by blast

lemma describes_valid: "describes es s \<Longrightarrow> valid_history es (r_status (p_run s))"
  unfolding describes_def by blast

lemma tracks_known: "tracks es p \<Longrightarrow> map_of (states p) r = None \<longleftrightarrow> own r es = []"
  using map_of_None_keys [of "states p" r] unfolding tracks_def by (simp add: own_Nil_iff)

lemma run_entry_describes:
  assumes "tracks es p" and "run_entry (map_of (states p) (e_run_id e)) e = Some s'"
  shows "describes (own (e_run_id e) (es @ [e])) s'"
proof (cases "map_of (states p) (e_run_id e)")
  case None
  with assms show ?thesis
    using tracks_known [OF assms(1), of "e_run_id e"] run_start_describes by (simp add: run_entry_def)
next
  case (Some s)
  with assms(1) have "describes (own (e_run_id e) es) s" by (simp add: tracks_def)
  moreover have "own (e_run_id e) es \<noteq> []" using Some tracks_known [OF assms(1)] by force
  ultimately show ?thesis
    using assms(2) Some run_continue_describes hd_own by (simp add: run_entry_def)
qed

lemma continued_not_operation:
  "run_entry (Some s) e = Some s' \<Longrightarrow> e_entry_type e = Event"
  by (auto simp: run_entry_def run_continue_def split: if_splits)

lemma started_operation: "run_entry None e = Some s' \<Longrightarrow> e_entry_type e = Operation"
  by (auto simp: run_entry_def run_start_def split: if_splits)

lemma tracks_step:
  assumes "tracks es p" and "projector_step p e = Inr p'"
  shows "tracks (es @ [e]) p'"
proof -
  let ?r = "e_run_id e" and ?old = "map_of (states p) (e_run_id e)"
  from assms(2) obtain s' where s': "run_entry ?old e = Some s'"
    and p': "p' = \<lparr>states = AList.update ?r s' (states p),
       operation_ids = (if ?old = None
         then AList.update (e_operation_id e) ?r (operation_ids p) else operation_ids p)\<rparr>"
    and fresh: "?old = None \<longrightarrow> map_of (operation_ids p) (e_operation_id e) = None"
    by (auto simp: projector_step_Inr_iff)
  have keys: "keys (states p') = first_runs (es @ [e])"
    using assms(1) by (simp add: p' keys_update tracks_def first_runs_snoc)
  have states: "map_of (states p') r = foldl run_entry None (own r (es @ [e]))" for r
    using assms(1) s' by (simp add: p' tracks_def)
  have described: "describes (own r (es @ [e])) s" if "map_of (states p') r = Some s" for r s
    using that assms(1) run_entry_describes [OF assms(1) s']
    by (auto simp: p' tracks_def split: if_splits)
  have ops: "map_of (operation_ids p') oid = Some r \<longleftrightarrow>
      (\<exists>e \<in> set (es @ [e]). e_entry_type e = Operation \<and> e_operation_id e = oid \<and> e_run_id e = r)" for oid r
  proof (cases ?old)
    case None
    then have "e_entry_type e = Operation" using s' started_operation by simp
    moreover have "e_operation_id e' \<noteq> e_operation_id e"
      if "e' \<in> set es" "e_entry_type e' = Operation" for e'
      using that fresh None assms(1) unfolding tracks_def by (metis option.distinct(1))
    ultimately show ?thesis using None assms(1) by (auto simp: p' tracks_def)
  next
    case (Some s)
    then have "e_entry_type e = Event" using s' continued_not_operation by simp
    with Some assms(1) show ?thesis by (auto simp: p' tracks_def)
  qed
  from keys states described ops show ?thesis unfolding tracks_def by blast
qed

interpretation projector: checked_machine projector_step "\<lambda>p. \<exists>es. tracks es p"
  by unfold_locales (blast intro: tracks_step)

lemma replay_tracks: "rfold projector_step empty_projector es = Inr p \<Longrightarrow> tracks es p"
proof (induction es arbitrary: p rule: rev_induct)
  case Nil
  then show ?case by (simp add: tracks_empty)
next
  case (snoc e es)
  then show ?case by (auto simp: rfold_snoc rbind_Inr_iff intro: tracks_step)
qed

lemma tracks_replayable:
  assumes "tracks es p"
  shows "replayable es"
proof -
  have "\<exists>st. valid_history (own r es) st" if "r \<in> e_run_id ` set es" for r
  proof -
    from that have "map_of (states p) r \<noteq> None"
      using tracks_known [OF assms] by (simp add: own_Nil_iff)
    then show ?thesis using tracks_describes [OF assms] describes_valid by blast
  qed
  moreover have "operations_unique es"
  proof (rule operations_uniqueI)
    fix e e' assume *: "e \<in> set es" "e' \<in> set es" "e_entry_type e = Operation"
      "e_entry_type e' = Operation" "e_operation_id e = e_operation_id e'"
    then have "map_of (operation_ids p) (e_operation_id e) = Some (e_run_id e)"
      and "map_of (operation_ids p) (e_operation_id e) = Some (e_run_id e')"
      using tracks_operation [OF assms] by auto
    then show "e_run_id e = e_run_id e'" by simp
  qed
  ultimately show ?thesis by (simp add: replayable_def)
qed

lemma valid_history_prefix:
  "valid_history (es @ [e]) st \<Longrightarrow> es \<noteq> [] \<Longrightarrow> \<exists>st. valid_history es st"
  using valid_history_snoc by blast

lemma operations_unique_prefix: "operations_unique (es @ [e]) \<Longrightarrow> operations_unique es"
  by (rule operations_uniqueI) (auto dest: operations_uniqueD)

lemma replayable_prefix:
  assumes "replayable (es @ [e])"
  shows "replayable es"
proof -
  have "\<exists>st. valid_history (own r es) st" if "r \<in> e_run_id ` set es" for r
  proof -
    from that have "r \<in> e_run_id ` set (es @ [e])" by auto
    with assms obtain st where "valid_history (own r (es @ [e])) st"
      unfolding replayable_def by blast
    moreover have "own r es \<noteq> []" using that by (simp add: own_Nil_iff)
    ultimately show ?thesis using valid_history_prefix by (cases "e_run_id e = r") auto
  qed
  moreover have "operations_unique es"
    using assms unfolding replayable_def by (elim conjE) (rule operations_unique_prefix)
  ultimately show ?thesis by (simp add: replayable_def)
qed

lemma replayable_step:
  assumes "replayable (es @ [e])" and "tracks es p"
  shows "\<exists>p'. projector_step p e = Inr p'"
proof -
  let ?r = "e_run_id e" and ?old = "map_of (states p) (e_run_id e)"
  obtain st where st: "valid_history (own ?r es @ [e]) st"
    using assms(1) by (auto simp: replayable_def)
  show ?thesis
  proof (cases ?old)
    case None
    then have "own ?r es = []" using tracks_known [OF assms(2)] by simp
    with st have ok: "operation_ok e" by (simp add: valid_history_single)
    have "e_operation_id e' \<noteq> e_operation_id e"
      if "e' \<in> set es" "e_entry_type e' = Operation" for e'
    proof -
      have "e_run_id e' \<noteq> ?r" using \<open>own ?r es = []\<close> that(1) by (metis own_Nil_iff image_eqI)
      moreover have "operations_unique (es @ [e])" "e_entry_type e = Operation"
        using assms(1) ok by (simp_all add: replayable_def operation_ok_def)
      ultimately show ?thesis using that by (auto dest: operations_uniqueD)
    qed
    then have "map_of (operation_ids p) (e_operation_id e) = None"
      using tracks_operation [OF assms(2)] by (metis not_None_eq)
    with None run_start_defined [OF ok] show ?thesis
      by (auto simp: projector_step_Inr_iff run_entry_def)
  next
    case (Some s)
    with st obtain s' where "run_continue s e = Some s'"
      using run_continue_iff [OF tracks_describes [OF assms(2) Some]] by blast
    with Some show ?thesis by (simp add: projector_step_Inr_iff run_entry_def)
  qed
qed

lemma replay_succeeds: "replayable es \<Longrightarrow> \<exists>p. rfold projector_step empty_projector es = Inr p"
proof (induction es rule: rev_induct)
  case Nil
  then show ?case by simp
next
  case (snoc e es)
  then obtain p where p: "rfold projector_step empty_projector es = Inr p"
    using replayable_prefix by blast
  with snoc.prems replayable_step replay_tracks show ?case by (fastforce simp: rfold_snoc)
qed

lemma replay_iff: "(\<exists>p. rfold projector_step empty_projector es = Inr p) \<longleftrightarrow> replayable es"
  using replay_succeeds replay_tracks tracks_replayable by blast

lemma project_work_runs_Inr:
  "project_work_runs es orphaned = Inr runs \<longleftrightarrow>
     (\<exists>p. rfold projector_step empty_projector es = Inr p \<and>
        runs = (if orphaned then map (mark_orphaned \<circ> p_run \<circ> snd) (states p)
                else map (p_run \<circ> snd) (states p)))"
  by (cases orphaned) (auto simp: project_work_runs_def rbind_Inr_iff Let_def comp_assoc)

lemma tracks_mem_states:
  assumes "tracks es p" and "(r, s) \<in> set (states p)"
  shows "describes (own r es) s" and "r_run_id (p_run s) = r"
    and "map_of (states p) r = Some s"
proof -
  have "distinct (keys (states p))" using assms(1) by (simp add: tracks_def)
  with assms(2) show look: "map_of (states p) r = Some s" by (simp add: map_of_is_SomeI)
  show *: "describes (own r es) s" by (rule tracks_describes [OF assms(1) look])
  then show "r_run_id (p_run s) = r" using hd_own by (simp add: describes_def)
qed

lemma run_ids_of_states:
  assumes "tracks es p"
  shows "map (r_run_id \<circ> p_run \<circ> snd) (states p) = first_runs es"
proof -
  have "map (r_run_id \<circ> p_run \<circ> snd) (states p) = keys (states p)"
    using tracks_mem_states(2) [OF assms] by (auto intro!: map_cong)
  with assms show ?thesis by (simp add: tracks_def)
qed

lemma own_mem: "e \<in> set es \<longleftrightarrow> e \<in> set (own (e_run_id e) es)"
  by (simp add: own_def)

lemma replayable_own_cong:
  assumes "\<And>r. own r es' = own r es"
  shows "replayable es' \<longleftrightarrow> replayable es"
proof -
  have "set es' = set es" using own_mem assms by (metis subsetI subset_antisym)
  then show ?thesis by (simp only: replayable_def operations_unique_def assms)
qed

lemma states_image:
  assumes "tracks es p"
  shows "(p_run \<circ> snd) ` set (states p) = {p_run s | r s. foldl run_entry None (own r es) = Some s}"
proof -
  have "map_of (states p) r = foldl run_entry None (own r es)" for r
    using assms unfolding tracks_def by blast
  then have "{p_run s | r s. foldl run_entry None (own r es) = Some s} =
      {p_run s | r s. (r, s) \<in> set (states p)}"
    using tracks_mem_states(3) [OF assms] map_of_SomeD by metis
  then show ?thesis by force
qed

section \<open>Properties\<close>

definition sample_operation :: "string \<Rightarrow> string \<Rightarrow> event_entry" where
  "sample_operation op run = (sample_entry op run 0)\<lparr>e_entry_type := Operation,
     e_payload := [(''domain'', JStr ''coding'')]\<rparr>"

definition sample_event :: "string \<Rightarrow> string \<Rightarrow> int \<Rightarrow> string \<Rightarrow> event_entry" where
  "sample_event op run n kind = (sample_entry op run n)\<lparr>e_payload := [(''kind'', JStr kind)]\<rparr>"

lemmas sample_defs = sample_operation_def sample_event_def sample_entry_def

text \<open>
  Property C3. The replay accepts a log exactly when every run's own entries form a valid history
  (an operation with sequence 0 and a domain first, then events of the same operation and session,
  strictly increasing sequence numbers, kinds along the lifecycle, nothing after a terminal kind)
  and no operation identifier serves two runs: it rejects every other log and no valid one.
\<close>

theorem replay_accepts_exactly_valid_logs:
  "succeeds (project_work_runs es mark_incomplete_orphaned) \<longleftrightarrow> replayable es"
  using replay_iff [of es] by (auto simp: succeeds_iff project_work_runs_Inr)

text \<open>
  On success there is one run per run identifier, in order of first appearance, and
  each run's status is the one its own history reaches along the lifecycle; its operation and
  session are those of its first entry.
\<close>

theorem replayed_runs_follow_history:
  assumes "project_work_runs es False = Inr runs"
  shows "map r_run_id runs = first_runs es \<and>
    (\<forall>run \<in> set runs. valid_history (own (r_run_id run) es) (r_status run) \<and>
       r_operation_id run = e_operation_id (hd (own (r_run_id run) es)) \<and>
       r_session_id run = e_session_id (hd (own (r_run_id run) es)))"
proof -
  from assms obtain p where p: "rfold projector_step empty_projector es = Inr p"
    and runs: "runs = map (p_run \<circ> snd) (states p)"
    by (auto simp: project_work_runs_Inr)
  have tracks: "tracks es p" using p by (rule replay_tracks)
  have "map r_run_id runs = first_runs es"
    using run_ids_of_states [OF tracks] by (simp add: runs comp_assoc)
  then show ?thesis
    using tracks_mem_states(1,2) [OF tracks] by (auto simp: runs describes_def)
qed

theorem replayed_runs_follow_history_witness:
  "\<exists>run. project_work_runs [sample_operation ''o'' ''r'', sample_event ''o'' ''r'' 1 ''WorkRunStarted''] False
     = Inr [run] \<and> valid_history (own ''r'' [sample_operation ''o'' ''r'', sample_event ''o'' ''r'' 1 ''WorkRunStarted'']) Running"
proof -
  let ?es = "[sample_operation ''o'' ''r'', sample_event ''o'' ''r'' 1 ''WorkRunStarted'']"
  let ?run = "\<lparr>r_run_id = ''r'', r_operation_id = ''o'', r_session_id = ''s'', r_domain = ''coding'',
    r_status = Running, r_method_id = None, r_plan_id = None, r_current_step_id = None\<rparr>"
  have runs: "project_work_runs ?es False = Inr [?run]"
    by (simp add: project_work_runs_def sample_defs projector_step_def projector_apply_def
        apply_first_def apply_next_def run_from_operation_def apply_event_def next_status_def
        require_status_def empty_projector_def Let_def)
  from replayed_runs_follow_history [OF runs] runs show ?thesis by simp
qed

text \<open>
  Replaying a finished process's log with the orphan mark leaves no incomplete run:
  every run is in a terminal status or orphaned, and it is orphaned exactly when its recorded
  history stops short of a terminal status.
\<close>

theorem orphan_marking_closes_every_run:
  assumes "project_work_runs es True = Inr runs" and "run \<in> set runs"
  shows "(final_status (r_status run) \<or> r_status run = Orphaned) \<and>
    (r_status run = Orphaned \<longleftrightarrow>
       (\<exists>st. valid_history (own (r_run_id run) es) st \<and> incomplete st))"
proof -
  from assms(1) obtain p where p: "rfold projector_step empty_projector es = Inr p"
    and runs: "runs = map (mark_orphaned \<circ> p_run \<circ> snd) (states p)"
    by (auto simp: project_work_runs_Inr)
  from assms(2) runs obtain r s where s: "(r, s) \<in> set (states p)"
    and run: "run = mark_orphaned (p_run s)" by auto
  have valid: "valid_history (own r es) (r_status (p_run s))" and id: "r_run_id (p_run s) = r"
    using tracks_mem_states [OF replay_tracks [OF p] s] by (auto simp: describes_def)
  from id have rid: "r_run_id run = r" by (simp add: run mark_orphaned_def)
  have "r_status (p_run s) \<noteq> Orphaned" using valid by (rule valid_history_not_orphaned)
  then have closed: "final_status (r_status run) \<or> r_status run = Orphaned"
    by (cases "r_status (p_run s)") (auto simp: run mark_orphaned_def incomplete_def final_status_def)
  have "r_status run = Orphaned \<longleftrightarrow> incomplete (r_status (p_run s))"
    using \<open>r_status (p_run s) \<noteq> Orphaned\<close> by (simp add: run mark_orphaned_def)
  then have "r_status run = Orphaned \<longleftrightarrow>
      (\<exists>st. valid_history (own (r_run_id run) es) st \<and> incomplete st)"
    using valid valid_history_unique unfolding rid by blast
  with closed show ?thesis by simp
qed

theorem orphan_marking_closes_every_run_witness:
  "\<exists>run. project_work_runs [sample_operation ''o'' ''r''] True = Inr [run] \<and>
     (final_status (r_status run) \<or> r_status run = Orphaned)"
proof -
  let ?run = "\<lparr>r_run_id = ''r'', r_operation_id = ''o'', r_session_id = ''s'', r_domain = ''coding'',
    r_status = Orphaned, r_method_id = None, r_plan_id = None, r_current_step_id = None\<rparr>"
  have runs: "project_work_runs [sample_operation ''o'' ''r''] True = Inr [?run]"
    by (simp add: project_work_runs_def sample_defs projector_step_def projector_apply_def
        apply_first_def run_from_operation_def empty_projector_def Let_def mark_orphaned_def
        incomplete_def)
  from orphan_marking_closes_every_run [OF runs, of ?run] runs show ?thesis by simp
qed

text \<open>
  Concurrent runs do not disturb each other: a log that holds the same entries per
  run, however interleaved, is accepted when the other one is, and rebuilds the same set of runs.
\<close>

theorem replay_ignores_interleaving:
  assumes "\<And>r. own r es' = own r es" and "project_work_runs es b = Inr runs"
  shows "\<exists>runs'. project_work_runs es' b = Inr runs' \<and> set runs' = set runs"
proof -
  from assms(2) obtain p where p: "rfold projector_step empty_projector es = Inr p"
    by (auto simp: project_work_runs_Inr)
  then have "replayable es" using replay_iff by blast
  then have "replayable es'" using replayable_own_cong [OF assms(1)] by simp
  then obtain p' where p': "rfold projector_step empty_projector es' = Inr p'"
    using replay_succeeds by blast
  have states: "(p_run \<circ> snd) ` set (states p') = (p_run \<circ> snd) ` set (states p)"
    using states_image [OF replay_tracks [OF p]] states_image [OF replay_tracks [OF p']] assms(1)
    by simp
  then have "(mark_orphaned \<circ> p_run \<circ> snd) ` set (states p') =
      (mark_orphaned \<circ> p_run \<circ> snd) ` set (states p)"
    by (simp only: comp_assoc image_comp [symmetric])
  with p p' assms(2) states show ?thesis by (cases b) (auto simp: project_work_runs_Inr)
qed

theorem replay_ignores_interleaving_witness:
  "\<exists>runs. project_work_runs [sample_operation ''o'' ''r'', sample_operation ''p'' ''q'',
       sample_event ''o'' ''r'' 1 ''WorkRunStarted''] True = Inr runs \<and>
     (\<exists>runs'. project_work_runs [sample_operation ''o'' ''r'', sample_event ''o'' ''r'' 1 ''WorkRunStarted'',
       sample_operation ''p'' ''q''] True = Inr runs' \<and> set runs' = set runs)"
proof -
  let ?es = "[sample_operation ''o'' ''r'', sample_operation ''p'' ''q'',
       sample_event ''o'' ''r'' 1 ''WorkRunStarted'']"
  let ?es' = "[sample_operation ''o'' ''r'', sample_event ''o'' ''r'' 1 ''WorkRunStarted'',
       sample_operation ''p'' ''q'']"
  have own: "own r ?es' = own r ?es" for r by (auto simp: own_def sample_defs)
  have "succeeds (project_work_runs ?es True)"
    by (simp add: project_work_runs_def sample_defs projector_step_def projector_apply_def
        apply_first_def apply_next_def run_from_operation_def apply_event_def next_status_def
        require_status_def empty_projector_def Let_def)
  then obtain runs where runs: "project_work_runs ?es True = Inr runs" by (auto simp: succeeds_iff)
  from replay_ignores_interleaving [OF own runs] runs show ?thesis by blast
qed

end
