(* ===== verification/Recording.thy ===== *)
theory Recording
  imports Run_Projection
begin

text \<open>
  Recording contracts and the append-confirmed read model (\<open>harnesswork/recording.py\<close>): the
  contract frozen when a run is accepted, its encoding in the operation entry, and the observer
  that follows every entry and keeps one small record per run, isolating the runs whose entries
  cannot be read.
\<close>

section \<open>Contracts\<close>

datatype retention = MemoryRetention | PersistentRetention | UnknownRetention

record recording_contract =
  c_retention :: retention
  c_require_persistence :: bool

datatype policy_error = CannotWeaken | InvalidRetention | RequiresPersistentBackend

definition retention_name :: "retention \<Rightarrow> string" where
  "retention_name r = (case r of MemoryRetention \<Rightarrow> ''memory''
     | PersistentRetention \<Rightarrow> ''persistent'' | UnknownRetention \<Rightarrow> ''unknown'')"

definition retention_of_name :: "string \<Rightarrow> retention option" where
  "retention_of_name s =
     (if s = ''memory'' then Some MemoryRetention
      else if s = ''persistent'' then Some PersistentRetention
      else if s = ''unknown'' then Some UnknownRetention else None)"

lemma retention_of_name_name [simp]: "retention_of_name (retention_name r) = Some r"
  by (cases r) (simp_all add: retention_of_name_def retention_name_def)

text \<open>
  The first argument is the backend's \<open>recording_retention\<close> attribute, absent as \<open>None\<close>; a
  policy is its \<open>require_persistence\<close> flag.
\<close>

definition freeze_contract ::
  "string option \<Rightarrow> bool \<Rightarrow> bool option \<Rightarrow> policy_error + recording_contract" where
  "freeze_contract declared policy override =
     (if override \<noteq> None \<and> policy \<and> \<not> the override then Inl CannotWeaken
      else
        (let effective = (case override of None \<Rightarrow> policy | Some p \<Rightarrow> p);
             name = (case declared of None \<Rightarrow> ''unknown'' | Some n \<Rightarrow> n)
         in case retention_of_name name of
              None \<Rightarrow> Inl InvalidRetention
            | Some r \<Rightarrow>
                if effective \<and> r \<noteq> PersistentRetention then Inl RequiresPersistentBackend
                else Inr \<lparr>c_retention = r, c_require_persistence = effective\<rparr>))"

definition encode_contract :: "recording_contract \<Rightarrow> payload" where
  "encode_contract c =
     [(''version'', JInt 1), (''capture'', JStr ''published_facts''),
      (''retention'', JStr (retention_name (c_retention c))),
      (''require_persistence'', JBool (c_require_persistence c))]"

datatype recording_error =
    ReplayFailed replay_error
  | FormatError string
  | VersionError
  | MissingRecord string
  | Unavailable

definition require_version :: "json option \<Rightarrow> recording_error + unit" where
  "require_version version = require (version = Some (JInt 1)) VersionError"

definition contract_of_fields :: "payload \<Rightarrow> recording_contract option" where
  "contract_of_fields raw =
     (if set (keys raw) \<noteq> set [''version'', ''capture'', ''retention'', ''require_persistence''] then None
      else if map_of raw ''capture'' \<noteq> Some (JStr ''published_facts'') then None
      else
        (case (map_of raw ''retention'', map_of raw ''require_persistence'') of
           (Some (JStr name), Some (JBool need)) \<Rightarrow>
             (case retention_of_name name of
                None \<Rightarrow> None
              | Some r \<Rightarrow>
                  if need \<and> r \<noteq> PersistentRetention then None
                  else Some \<lparr>c_retention = r, c_require_persistence = need\<rparr>)
         | _ \<Rightarrow> None))"

definition decode_contract :: "event_entry \<Rightarrow> recording_error + recording_contract option" where
  "decode_contract entry =
     (case (case map_of (e_payload entry) ''_harnesswork'' of None \<Rightarrow> JObj [] | Some v \<Rightarrow> v) of
        JObj metadata \<Rightarrow>
          (case map_of metadata ''recording'' of
             None \<Rightarrow> Inr None
           | Some (JObj raw) \<Rightarrow>
               rbind (require_version (map_of raw ''version'')) (\<lambda>_.
                 case contract_of_fields raw of
                   None \<Rightarrow> Inl (FormatError ''invalid version 1 Work recording contract'')
                 | Some c \<Rightarrow> Inr (Some c))
           | Some _ \<Rightarrow> Inl (FormatError ''invalid Work recording contract''))
      | _ \<Rightarrow> Inl (FormatError ''invalid Work recording metadata''))"

section \<open>The observer\<close>

datatype basis = Acknowledged | Loaded

record work_recording =
  w_run :: work_run
  w_contract :: "recording_contract option"
  w_basis :: basis
  w_observed_sequence :: int
  w_source_event_id :: "string option"

record recording_observer =
  o_projector :: run_projector
  o_records :: "(string \<times> work_recording) list"
  o_errors :: "(string \<times> recording_error) list"
  o_unavailable :: bool

definition empty_observer :: recording_observer where
  "empty_observer = \<lparr>o_projector = empty_projector, o_records = [], o_errors = [],
     o_unavailable = False\<rparr>"

definition invalidate :: "recording_observer \<Rightarrow> recording_observer" where
  "invalidate ob = ob\<lparr>o_unavailable := True\<rparr>"

text \<open>
  The \<open>try\<close> block: the reducer's exception, then the contract. A missing record for an event
  entry would be a \<open>KeyError\<close>, which is not among the exceptions caught.
\<close>

definition observed_contract ::
  "recording_observer \<Rightarrow> event_entry \<Rightarrow> recording_error + recording_contract option" where
  "observed_contract ob entry =
     (if e_entry_type entry = Operation then decode_contract entry
      else
        (case map_of (o_records ob) (e_run_id entry) of
           None \<Rightarrow> Inl (MissingRecord (e_run_id entry))
         | Some rec \<Rightarrow> Inr (w_contract rec)))"

definition record_error ::
  "recording_observer \<Rightarrow> string \<Rightarrow> recording_error \<Rightarrow> recording_observer" where
  "record_error ob rid err = ob\<lparr>o_errors := AList.update rid err (o_errors ob)\<rparr>"

definition observe ::
  "basis \<Rightarrow> recording_observer \<Rightarrow> event_entry \<Rightarrow> recording_error + recording_observer" where
  "observe how ob entry =
     (let rid = e_run_id entry in
      if o_unavailable ob \<or> map_of (o_errors ob) rid \<noteq> None then Inr ob
      else
        (case projector_apply (o_projector ob) entry of
           (Some err, p) \<Rightarrow> Inr (record_error (ob\<lparr>o_projector := p\<rparr>) rid (ReplayFailed err))
         | (None, p) \<Rightarrow>
             (let ob' = ob\<lparr>o_projector := p\<rparr> in
              case observed_contract ob' entry of
                Inl (MissingRecord r) \<Rightarrow> Inl (MissingRecord r)
              | Inl err \<Rightarrow> Inr (record_error ob' rid err)
              | Inr c \<Rightarrow>
                  (case map_of (states p) rid of
                     None \<Rightarrow> Inl (MissingRecord rid)
                   | Some s \<Rightarrow>
                       Inr (ob'\<lparr>o_records := AList.update rid
                          \<lparr>w_run = p_run s, w_contract = c, w_basis = how,
                           w_observed_sequence = e_sequence entry,
                           w_source_event_id = e_event_id entry\<rparr> (o_records ob')\<rparr>)))))"

definition get_recording ::
  "recording_observer \<Rightarrow> string \<Rightarrow> recording_error + work_recording option" where
  "get_recording ob rid =
     (if o_unavailable ob then Inl Unavailable
      else
        (case map_of (o_errors ob) rid of
           Some err \<Rightarrow> Inl err
         | None \<Rightarrow>
             (case map_of (o_records ob) rid of
                None \<Rightarrow> Inr None
              | Some rec \<Rightarrow>
                  if w_basis rec = Loaded \<and> incomplete (r_status (w_run rec))
                  then Inr (Some (rec\<lparr>w_run := (w_run rec)\<lparr>r_status := Orphaned\<rparr>\<rparr>))
                  else Inr (Some rec))))"

definition observe_loaded :: "event_entry list \<Rightarrow> recording_error + recording_observer" where
  "observe_loaded entries = rfold (observe Loaded) empty_observer entries"

definition project_work_recording ::
  "event_entry list \<Rightarrow> string \<Rightarrow> recording_error + work_recording option" where
  "project_work_recording entries rid =
     rbind (observe_loaded entries) (\<lambda>ob. get_recording ob rid)"

section \<open>What an entry of another run leaves alone\<close>

lemma projector_apply_other:
  assumes "projector_apply p e = (err, p')" and "e_run_id e \<noteq> r"
  shows "map_of (states p') r = map_of (states p) r"
  using assms
  by (auto simp: projector_apply_def apply_first_def apply_next_def Let_def
      split: option.splits if_splits sum.splits)

lemma projector_apply_operation_ids:
  assumes "projector_apply p e = (err, p')"
    and "e_entry_type e \<noteq> Operation \<or> e_operation_id e \<noteq> oid"
  shows "map_of (operation_ids p') oid = map_of (operation_ids p) oid"
  using assms
  by (auto simp: projector_apply_def apply_first_def apply_next_def Let_def
      split: option.splits if_splits sum.splits)

lemma projector_apply_step:
  "projector_apply p e = (None, p') \<longleftrightarrow> projector_step p e = Inr p'"
  by (auto simp: projector_step_def split: prod.splits option.splits)

lemma projector_step_state:
  "projector_step p e = Inr p' \<Longrightarrow> \<exists>s. map_of (states p') (e_run_id e) = Some s"
  by (auto simp: projector_step_Inr_iff)

lemma observe_other:
  assumes "observe how ob e = Inr ob'" and "e_run_id e \<noteq> r"
  shows "map_of (states (o_projector ob')) r = map_of (states (o_projector ob)) r"
    and "map_of (o_errors ob') r = map_of (o_errors ob) r"
    and "map_of (o_records ob') r = map_of (o_records ob) r"
  using assms projector_apply_other
  by (auto simp: observe_def record_error_def Let_def
      split: if_splits prod.splits option.splits sum.splits recording_error.splits)

lemma observe_operation_ids:
  assumes "observe how ob e = Inr ob'"
    and "e_entry_type e \<noteq> Operation \<or> e_operation_id e \<noteq> oid"
  shows "map_of (operation_ids (o_projector ob')) oid = map_of (operation_ids (o_projector ob)) oid"
  using assms projector_apply_operation_ids
  by (auto simp: observe_def record_error_def Let_def
      split: if_splits prod.splits option.splits sum.splits recording_error.splits)

lemma observe_available: "observe how ob e = Inr ob' \<Longrightarrow> o_unavailable ob' = o_unavailable ob"
  by (auto simp: observe_def record_error_def Let_def
      split: if_splits prod.splits option.splits sum.splits recording_error.splits)

section \<open>The observer never fails\<close>

definition observer_ok :: "recording_observer \<Rightarrow> bool" where
  "observer_ok ob \<longleftrightarrow> (\<forall>r s. map_of (states (o_projector ob)) r = Some s \<longrightarrow>
     map_of (o_errors ob) r \<noteq> None \<or> map_of (o_records ob) r \<noteq> None)"

lemma observer_ok_empty: "observer_ok empty_observer"
  by (simp add: observer_ok_def empty_observer_def empty_projector_def)

lemma event_entry_known:
  "projector_step p e = Inr p' \<Longrightarrow> e_entry_type e \<noteq> Operation \<Longrightarrow>
     \<exists>s. map_of (states p) (e_run_id e) = Some s"
  by (cases "map_of (states p) (e_run_id e)")
    (auto simp: projector_step_Inr_iff dest: started_operation)

lemma decode_contract_not_missing: "decode_contract e \<noteq> Inl (MissingRecord r)"
  by (auto simp: decode_contract_def require_version_def require_def rbind_def
      split: option.splits json.splits sum.splits if_splits)

lemma observe_defined:
  assumes "observer_ok ob"
  shows "\<exists>ob'. observe how ob e = Inr ob'"
proof (cases "o_unavailable ob \<or> map_of (o_errors ob) (e_run_id e) \<noteq> None")
  case True
  then show ?thesis by (simp add: observe_def Let_def)
next
  case False
  obtain err p where ap: "projector_apply (o_projector ob) e = (err, p)" by fastforce
  show ?thesis
  proof (cases err)
    case (Some x)
    with False ap show ?thesis by (simp add: observe_def Let_def)
  next
    case None
    then have step: "projector_step (o_projector ob) e = Inr p" using ap projector_apply_step by simp
    obtain s where s: "map_of (states p) (e_run_id e) = Some s"
      using projector_step_state [OF step] by blast
    have "observed_contract (ob\<lparr>o_projector := p\<rparr>) e \<noteq> Inl (MissingRecord r)" for r
    proof (cases "e_entry_type e = Operation")
      case True
      then show ?thesis by (simp add: observed_contract_def decode_contract_not_missing)
    next
      case not_operation: False
      with False assms event_entry_known [OF step] obtain rec
        where "map_of (o_records ob) (e_run_id e) = Some rec"
        unfolding observer_ok_def by blast
      with not_operation show ?thesis by (simp add: observed_contract_def)
    qed
    with False ap None s show ?thesis
      by (auto simp: observe_def Let_def split: sum.split recording_error.split)
  qed
qed

lemma observe_ok:
  assumes "observer_ok ob" and "observe how ob e = Inr ob'"
  shows "observer_ok ob'"
  unfolding observer_ok_def
proof (intro allI impI)
  fix r s assume s: "map_of (states (o_projector ob')) r = Some s"
  show "map_of (o_errors ob') r \<noteq> None \<or> map_of (o_records ob') r \<noteq> None"
  proof (cases "e_run_id e = r")
    case False
    then show ?thesis using s assms(1) observe_other [OF assms(2)] by (simp add: observer_ok_def)
  next
    case True
    with assms s show ?thesis
      by (auto simp: observe_def record_error_def Let_def observer_ok_def
          split: if_splits prod.splits option.splits sum.splits recording_error.splits)
  qed
qed

interpretation observer: checked_machine "observe how" observer_ok for how
  by unfold_locales (rule observe_ok)

lemma observe_all_defined: "observer_ok ob \<Longrightarrow> \<exists>ob'. rfold (observe how) ob es = Inr ob'"
proof (induction es arbitrary: ob)
  case Nil
  then show ?case by simp
next
  case (Cons e es)
  then show ?case using observe_defined [of ob how e] observe_ok by fastforce
qed

section \<open>A readable run survives the others\<close>

text \<open>The run \<open>r\<close> has a valid history of its own, whose contract decodes to \<open>c\<close>, and no other
  run claims its operation.\<close>

definition healthy ::
  "string \<Rightarrow> string \<Rightarrow> recording_contract option \<Rightarrow> event_entry list \<Rightarrow> bool" where
  "healthy r oid c es \<longleftrightarrow>
     (own r es \<noteq> [] \<longrightarrow> (\<exists>st. valid_history (own r es) st) \<and>
        e_operation_id (hd (own r es)) = oid \<and> decode_contract (hd (own r es)) = Inr c) \<and>
     (\<forall>e \<in> set es. e_run_id e \<noteq> r \<and> e_entry_type e = Operation \<longrightarrow> e_operation_id e \<noteq> oid)"

lemma healthy_prefix:
  assumes "healthy r oid c (es @ [e])"
  shows "healthy r oid c es"
proof (cases "own r es = [] \<or> e_run_id e \<noteq> r")
  case True
  then show ?thesis using assms by (auto simp: healthy_def)
next
  case False
  then show ?thesis using assms valid_history_prefix by (fastforce simp: healthy_def)
qed

text \<open>What the observer knows of \<open>r\<close> after reading \<open>es\<close>.\<close>

definition record_of :: "event_entry list \<Rightarrow> recording_contract option \<Rightarrow> replay_state \<Rightarrow> work_recording" where
  "record_of own_entries c s =
     \<lparr>w_run = p_run s, w_contract = c, w_basis = Loaded,
      w_observed_sequence = e_sequence (last own_entries),
      w_source_event_id = e_event_id (last own_entries)\<rparr>"

definition follows ::
  "string \<Rightarrow> string \<Rightarrow> recording_contract option \<Rightarrow> event_entry list \<Rightarrow> recording_observer \<Rightarrow> bool" where
  "follows r oid c es ob \<longleftrightarrow> \<not> o_unavailable ob \<and> map_of (o_errors ob) r = None \<and>
     (if own r es = [] then map_of (states (o_projector ob)) r = None \<and>
        map_of (operation_ids (o_projector ob)) oid = None \<and> map_of (o_records ob) r = None
      else (\<exists>s. map_of (states (o_projector ob)) r = Some s \<and> describes (own r es) s \<and>
        map_of (o_records ob) r = Some (record_of (own r es) c s)))"

lemma follows_other:
  assumes "follows r oid c es ob" and "observe Loaded ob e = Inr ob'" and "e_run_id e \<noteq> r"
    and "e_entry_type e \<noteq> Operation \<or> e_operation_id e \<noteq> oid"
  shows "follows r oid c (es @ [e]) ob'"
  using assms(1,3) observe_other [OF assms(2,3)] observe_operation_ids [OF assms(2,4)]
    observe_available [OF assms(2)]
  by (simp add: follows_def)

lemma observe_accepted:
  assumes "\<not> o_unavailable ob" "map_of (o_errors ob) (e_run_id e) = None"
    and "projector_step (o_projector ob) e = Inr p"
    and "observed_contract (ob\<lparr>o_projector := p\<rparr>) e = Inr c"
    and "map_of (states p) (e_run_id e) = Some s"
  shows "observe how ob e = Inr (ob\<lparr>o_projector := p,
    o_records := AList.update (e_run_id e) \<lparr>w_run = p_run s, w_contract = c, w_basis = how,
      w_observed_sequence = e_sequence e, w_source_event_id = e_event_id e\<rparr> (o_records ob)\<rparr>)"
proof -
  have "projector_apply (o_projector ob) e = (None, p)" using assms(3) projector_apply_step by blast
  with assms show ?thesis by (simp add: observe_def Let_def)
qed

lemma follows_start:
  assumes "follows r oid c es ob" and "observe Loaded ob e = Inr ob'" and "e_run_id e = r"
    and "own r es = []" and "operation_ok e" "e_operation_id e = oid" "decode_contract e = Inr c"
  shows "follows r oid c (es @ [e]) ob'"
proof -
  obtain s where s: "run_start e = Some s" using run_start_defined assms(5) by blast
  define p where "p = \<lparr>states = AList.update r s (states (o_projector ob)),
    operation_ids = AList.update oid r (operation_ids (o_projector ob))\<rparr>"
  have "projector_step (o_projector ob) e = Inr p"
    using assms s by (simp add: projector_step_Inr_iff run_entry_def follows_def p_def)
  moreover have "observed_contract (ob\<lparr>o_projector := p\<rparr>) e = Inr c"
    using assms by (simp add: observed_contract_def operation_ok_def)
  ultimately show ?thesis
    using assms observe_accepted [of ob e p c s Loaded] run_start_describes [OF s]
    by (auto simp: follows_def p_def record_of_def)
qed

lemma follows_continue:
  assumes "follows r oid c es ob" and "observe Loaded ob e = Inr ob'" and "e_run_id e = r"
    and "own r es \<noteq> []" and "valid_history (own r es @ [e]) st"
  shows "follows r oid c (es @ [e]) ob'"
proof -
  obtain s where s: "map_of (states (o_projector ob)) r = Some s" "describes (own r es) s"
    and rec: "map_of (o_records ob) r = Some (record_of (own r es) c s)"
    using assms(1,4) by (auto simp: follows_def)
  obtain s' where s': "run_continue s e = Some s'"
    using run_continue_iff [OF s(2)] assms(5) by blast
  define p where "p = o_projector ob\<lparr>states := AList.update r s' (states (o_projector ob))\<rparr>"
  have step: "projector_step (o_projector ob) e = Inr p"
    using assms(3) s s' by (simp add: projector_step_Inr_iff run_entry_def p_def)
  have "e_entry_type e = Event" using s' continued_not_operation [of s e s'] by (simp add: run_entry_def)
  then have "observed_contract (ob\<lparr>o_projector := p\<rparr>) e = Inr c"
    using assms(3) rec by (simp add: observed_contract_def record_of_def)
  moreover have "describes (own r es @ [e]) s'"
    using run_continue_describes [OF s(2) s'] hd_own [OF assms(4)] assms(3) by simp
  ultimately show ?thesis
    using assms observe_accepted [of ob e p c s' Loaded] step
    by (auto simp: follows_def p_def record_of_def)
qed

lemma observe_loaded_follows:
  "healthy r oid c es \<Longrightarrow> observe_loaded es = Inr ob \<Longrightarrow> follows r oid c es ob"
proof (induction es arbitrary: ob rule: rev_induct)
  case Nil
  then show ?case
    by (auto simp: observe_loaded_def follows_def empty_observer_def empty_projector_def)
next
  case (snoc e es)
  then obtain ob0 where ob0: "observe_loaded es = Inr ob0" "observe Loaded ob0 e = Inr ob"
    by (auto simp: observe_loaded_def rfold_snoc rbind_Inr_iff)
  have f: "follows r oid c es ob0" using snoc.IH healthy_prefix snoc.prems(1) ob0(1) by blast
  consider "e_run_id e \<noteq> r" | "e_run_id e = r" "own r es = []" | "e_run_id e = r" "own r es \<noteq> []"
    by blast
  then show ?case
  proof cases
    case 1
    with f ob0(2) show ?thesis by (rule follows_other) (use 1 snoc.prems(1) in \<open>auto simp: healthy_def\<close>)
  next
    case 2
    with f ob0(2) show ?thesis
      by (rule follows_start) (use 2 snoc.prems(1) in \<open>auto simp: healthy_def valid_history_single\<close>)
  next
    case 3
    with snoc.prems(1) obtain st where "valid_history (own r es @ [e]) st" by (auto simp: healthy_def)
    with f ob0(2) 3 show ?thesis by (rule follows_continue)
  qed
qed

section \<open>Properties\<close>

text \<open>
  A frozen contract survives its own encoding: whatever the backend declares and
  whatever policies apply, the contract stored in the operation entry decodes to itself; and a
  contract that requires persistence is only ever frozen over a persistent backend.
\<close>

theorem frozen_contract_roundtrip:
  assumes "freeze_contract declared policy override = Inr c"
    and "map_of (e_payload e) ''_harnesswork'' = Some (JObj m)"
    and "map_of m ''recording'' = Some (JObj (encode_contract c))"
  shows "decode_contract e = Inr (Some c) \<and>
    (c_require_persistence c \<longrightarrow> c_retention c = PersistentRetention)"
proof -
  have wf: "c_require_persistence c \<longrightarrow> c_retention c = PersistentRetention"
    using assms(1) by (auto simp: freeze_contract_def Let_def split: if_splits option.splits)
  have "contract_of_fields (encode_contract c) = Some c"
    using wf by (auto simp: contract_of_fields_def encode_contract_def)
  moreover have "map_of (encode_contract c) ''version'' = Some (JInt 1)"
    by (simp add: encode_contract_def)
  ultimately show ?thesis using assms(2,3) wf
    by (simp add: decode_contract_def require_version_def)
qed

theorem frozen_contract_roundtrip_witness:
  "let c = \<lparr>c_retention = PersistentRetention, c_require_persistence = True\<rparr> in
   decode_contract ((sample_operation ''o'' ''r'')\<lparr>e_payload :=
     [(''_harnesswork'', JObj [(''recording'', JObj (encode_contract c))])]\<rparr>) = Inr (Some c)"
proof -
  let ?c = "\<lparr>c_retention = PersistentRetention, c_require_persistence = True\<rparr>"
  let ?e = "(sample_operation ''o'' ''r'')\<lparr>e_payload :=
     [(''_harnesswork'', JObj [(''recording'', JObj (encode_contract ?c))])]\<rparr>"
  have "freeze_contract (Some ''persistent'') False (Some True) = Inr ?c"
    by (simp add: freeze_contract_def retention_of_name_def)
  from frozen_contract_roundtrip [OF this, of ?e] show ?thesis by simp
qed

text \<open>
  The observer is total: no sequence of entries, readable or not, makes it raise; in
  particular the lookup of the record of an event's run never fails.
\<close>

theorem observer_never_raises: "\<exists>ob. rfold (observe how) empty_observer es = Inr ob"
  using observer_ok_empty by (rule observe_all_defined)

text \<open>
  Property C4. Fault containment: a run with a valid history and a readable contract is reported
  with exactly its own final state, contract and last sequence (orphaned when incomplete), however
  malformed the entries of the other runs are, as long as none of them claims its operation.
\<close>

theorem recording_survives_other_runs:
  assumes "valid_history (own r es) st" and "decode_contract (hd (own r es)) = Inr c"
    and "\<And>e. e \<in> set es \<Longrightarrow> e_run_id e \<noteq> r \<Longrightarrow> e_entry_type e = Operation \<Longrightarrow>
      e_operation_id e \<noteq> e_operation_id (hd (own r es))"
  shows "\<exists>rec. project_work_recording es r = Inr (Some rec) \<and>
    r_run_id (w_run rec) = r \<and> w_contract rec = c \<and>
    r_status (w_run rec) = (if incomplete st then Orphaned else st) \<and>
    w_observed_sequence rec = e_sequence (last (own r es))"
proof -
  let ?own = "own r es"
  have ne: "?own \<noteq> []" using assms(1) by (auto simp: valid_history_def)
  obtain ob where ob: "observe_loaded es = Inr ob"
    using observer_never_raises unfolding observe_loaded_def by blast
  have "healthy r (e_operation_id (hd ?own)) c es" using assms by (auto simp: healthy_def)
  then have "follows r (e_operation_id (hd ?own)) c es ob" using ob by (rule observe_loaded_follows)
  with ne obtain s where d: "describes ?own s"
    and rec: "map_of (o_records ob) r = Some (record_of ?own c s)"
    and free: "\<not> o_unavailable ob" "map_of (o_errors ob) r = None"
    by (auto simp: follows_def)
  have "r_status (p_run s) = st" using d assms(1) valid_history_unique by (auto simp: describes_def)
  moreover have "r_run_id (p_run s) = r" using d hd_own [OF ne] by (simp add: describes_def)
  ultimately show ?thesis
    using ob rec free by (simp add: project_work_recording_def get_recording_def record_of_def)
qed

theorem recording_survives_other_runs_witness:
  "\<exists>rec. project_work_recording [sample_event ''x'' ''broken'' 7 ''k'', sample_operation ''o'' ''r'']
     ''r'' = Inr (Some rec) \<and> r_status (w_run rec) = Orphaned"
proof -
  let ?es = "[sample_event ''x'' ''broken'' 7 ''k'', sample_operation ''o'' ''r'']"
  have own: "own ''r'' ?es = [sample_operation ''o'' ''r'']" by (simp add: own_def sample_defs)
  have "valid_history (own ''r'' ?es) Accepted"
    unfolding own by (simp add: valid_history_single operation_ok_def sample_defs)
  moreover have "decode_contract (hd (own ''r'' ?es)) = Inr None"
    unfolding own by (simp add: decode_contract_def sample_defs)
  moreover have "e_operation_id e \<noteq> e_operation_id (hd (own ''r'' ?es))"
    if "e \<in> set ?es" "e_run_id e \<noteq> ''r''" for e
    using that unfolding own by (auto simp: sample_defs)
  ultimately show ?thesis
    using recording_survives_other_runs [of "''r''" ?es Accepted None]
    by (auto simp: incomplete_def)
qed

end
