(* ===== verification/Cancellation_Projection.thy ===== *)
theory Cancellation_Projection
  imports Run_Projection
begin

text \<open>
  Cancellation observations (\<open>harnesswork/cancellation_projection.py\<close>): reading, from a replayed
  history, what each run's terminal entry says about its cancellation, and refusing an
  observation that contradicts the run's lifecycle.
\<close>

section \<open>Records\<close>

record cancellation_record =
  k_operation_id :: string
  k_run_id :: string
  k_session_id :: string
  k_status :: string
  k_reason_code :: string
  k_reported_status :: "string option"
  k_basis :: string
  k_observed_sequence :: int
  k_source_event_id :: "string option"

datatype cancellation_error =
    LifecycleError replay_error
  | OwnerNotAnObject
  | InvalidObservationVersion
  | TerminalNotAnObject
  | TerminalVersion
  | FieldsMissing
  | InvalidFieldTypes
  | ContradictsLifecycle

definition terminal_kind_names :: "string list" where
  "terminal_kind_names = [''WorkRunCompleted'', ''WorkRunFailed'', ''WorkRunCancelled'']"

definition unknown_cancellation :: "event_entry \<Rightarrow> string \<Rightarrow> cancellation_record" where
  "unknown_cancellation entry reason =
     \<lparr>k_operation_id = e_operation_id entry, k_run_id = e_run_id entry,
      k_session_id = e_session_id entry, k_status = ''unknown'', k_reason_code = reason,
      k_reported_status = None, k_basis = ''journal'', k_observed_sequence = e_sequence entry,
      k_source_event_id = e_event_id entry\<rparr>"

text \<open>\<open>payload.get(key) == text\<close>.\<close>

definition kind_is :: "event_entry \<Rightarrow> string \<Rightarrow> bool" where
  "kind_is entry kind \<longleftrightarrow> map_of (e_payload entry) ''kind'' = Some (JStr kind)"

definition kind_in :: "event_entry \<Rightarrow> string list \<Rightarrow> bool" where
  "kind_in entry kinds \<longleftrightarrow> list_ex (kind_is entry) kinds"

section \<open>The decision table\<close>

definition consistent_observation ::
  "event_entry \<Rightarrow> bool \<Rightarrow> string \<Rightarrow> string \<Rightarrow> string option \<Rightarrow> bool" where
  "consistent_observation entry started status reason report =
     (if \<not> started then
        (status, reason, report) = (''not_requested'', ''none'', None) \<and>
        kind_in entry [''WorkRunCompleted'', ''WorkRunFailed'']
      else if kind_is entry ''WorkRunCancelled'' then
        (status, reason, report) \<in> set
          [(''settled'', ''domain_reported'', Some ''settled''),
           (''unsupported'', ''domain_reported'', Some ''unsupported''),
           (''unsupported'', ''no_capability'', None),
           (''unknown'', ''executor_interrupted'', None),
           (''unknown'', ''cancellation_not_driven'', None)]
      else if kind_is entry ''WorkRunFailed'' \<and> status = ''failed'' then
        (reason = ''domain_failure'' \<and> report = Some ''failed'') \<or>
        (reason \<in> set [''domain_exception'', ''invalid_return''] \<and> report = None) \<or>
        (reason \<in> set [''domain_timeout'', ''execution_timeout''] \<and>
         report \<in> set [None, Some ''settled'', Some ''unsupported'', Some ''failed''])
      else False)"

text \<open>\<open>None\<close>, a string, or something else.\<close>

fun report_field :: "json \<Rightarrow> string option option" where
  "report_field JNull = Some None"
| "report_field (JStr s) = Some (Some s)"
| "report_field _ = None"

definition decode_terminal ::
  "event_entry \<Rightarrow> bool \<Rightarrow> cancellation_error + cancellation_record" where
  "decode_terminal entry started =
     (case map_of (nested_mapping (map_of (e_payload entry) ''_harnesswork'')) ''cancellation'' of
        Some (JObj v) \<Rightarrow>
          if map_of v ''version'' \<noteq> Some (JInt 1) then Inl TerminalVersion
          else
            (case (map_of v ''status'', map_of v ''reason_code'', map_of v ''reported_status'') of
               (Some status, Some reason, Some report) \<Rightarrow>
                 (case (status, reason, report_field report) of
                    (JStr status, JStr reason, Some report) \<Rightarrow>
                      if consistent_observation entry started status reason report then
                        Inr \<lparr>k_operation_id = e_operation_id entry, k_run_id = e_run_id entry,
                          k_session_id = e_session_id entry, k_status = status,
                          k_reason_code = reason, k_reported_status = report,
                          k_basis = ''journal'', k_observed_sequence = e_sequence entry,
                          k_source_event_id = e_event_id entry\<rparr>
                      else Inl ContradictsLifecycle
                  | _ \<Rightarrow> Inl InvalidFieldTypes)
             | _ \<Rightarrow> Inl FieldsMissing)
      | _ \<Rightarrow> Inl TerminalNotAnObject)"

text \<open>\<open>entries[0]\<close>, \<open>entries[-1]\<close> and \<open>entries[1:]\<close> of a group, which is never empty.\<close>

definition project_run :: "event_entry list \<Rightarrow> cancellation_error + cancellation_record" where
  "project_run entries =
     (let operation = hd entries; final = last entries in
      case map_of (e_payload operation) ''_harnesswork'' of
        None \<Rightarrow> Inr (unknown_cancellation final ''legacy_unrecorded'')
      | Some (JObj owner) \<Rightarrow>
          (case map_of owner ''cancellation_observation_version'' of
             None \<Rightarrow> Inr (unknown_cancellation final ''legacy_unrecorded'')
           | Some (JInt version) \<Rightarrow>
               if version < 1 then Inl InvalidObservationVersion
               else if version > 1 then Inr (unknown_cancellation final ''unsupported_version'')
               else if e_entry_type final \<noteq> Event \<or> \<not> kind_in final terminal_kind_names then
                 Inr (unknown_cancellation final ''incomplete_history'')
               else decode_terminal final
                 (list_ex (\<lambda>e. kind_is e ''WorkRunCancelling'') (tl entries))
           | Some _ \<Rightarrow> Inl InvalidObservationVersion)
      | Some _ \<Rightarrow> Inl OwnerNotAnObject)"

definition group_by_run :: "event_entry list \<Rightarrow> (string \<times> event_entry list) list" where
  "group_by_run history = fold (\<lambda>e d. append_under (e_run_id e) e d) history []"

definition project_work_cancellations ::
  "event_entry list \<Rightarrow> cancellation_error + cancellation_record list" where
  "project_work_cancellations entries =
     (case project_work_runs entries False of
        Inl err \<Rightarrow> Inl (LifecycleError err)
      | Inr _ \<Rightarrow> rmap project_run (map snd (group_by_run entries)))"

section \<open>Grouping\<close>

lemma group_by_run_snoc:
  "group_by_run (es @ [e]) = append_under (e_run_id e) e (group_by_run es)"
  by (simp add: group_by_run_def)

lemma keys_group_by_run: "keys (group_by_run es) = first_runs es"
proof (induction es rule: rev_induct)
  case Nil
  then show ?case by (simp add: group_by_run_def first_runs_def)
next
  case (snoc e es)
  then show ?case by (simp add: group_by_run_snoc append_under_def keys_update first_runs_snoc)
qed

lemma bucket_group_by_run: "bucket (group_by_run es) r = own r es"
proof (induction es rule: rev_induct)
  case Nil
  then show ?case by (simp add: group_by_run_def bucket_def)
next
  case (snoc e es)
  then show ?case by (auto simp: group_by_run_snoc)
qed

lemma groups_are_own: "map snd (group_by_run es) = map (\<lambda>r. own r es) (first_runs es)"
proof -
  have "map snd (group_by_run es) =
      map (\<lambda>k. the (map_of (group_by_run es) k)) (keys (group_by_run es))"
    by (rule map_of_values [symmetric]) (simp add: keys_group_by_run)
  also have "\<dots> = map (\<lambda>r. own r es) (keys (group_by_run es))"
  proof (rule map_cong [OF refl])
    fix k assume "k \<in> set (keys (group_by_run es))"
    then obtain xs where "map_of (group_by_run es) k = Some xs"
      using map_of_None_keys [of "group_by_run es" k] by (cases "map_of (group_by_run es) k") simp_all
    then show "the (map_of (group_by_run es) k) = own k es"
      using bucket_group_by_run [of es k] by (simp add: bucket_def)
  qed
  finally show ?thesis by (simp add: keys_group_by_run)
qed

section \<open>What the last kind says of the status\<close>

lemma kind_is_entry_kind: "kind \<noteq> [] \<Longrightarrow> kind_is e kind \<longleftrightarrow> entry_kind e = Some kind"
  by (auto simp: kind_is_def entry_kind_def optional_string_Some_iff)

lemma lifecycle_terminal_kind:
  "lifecycle_step st k st' \<Longrightarrow>
     (k = ''WorkRunCompleted'' \<longleftrightarrow> st' = Completed) \<and> (k = ''WorkRunFailed'' \<longleftrightarrow> st' = Failed) \<and>
     (k = ''WorkRunCancelled'' \<longleftrightarrow> st' = Cancelled)"
  by (auto simp: lifecycle_step.simps lifecycle_kinds_def)

lemma lifecycle_path_cancelling:
  "lifecycle_path Accepted ks st \<Longrightarrow>
     (st = Cancelled \<or> st = Cancelling \<longrightarrow> ''WorkRunCancelling'' \<in> set ks)"
  by (induction ks arbitrary: st rule: rev_induct) (auto simp: lifecycle_step.simps)

lemma valid_history_last:
  assumes "valid_history es st" and "e_entry_type (last es) = Event"
  shows "(kind_is (last es) ''WorkRunCompleted'' \<longleftrightarrow> st = Completed) \<and>
    (kind_is (last es) ''WorkRunFailed'' \<longleftrightarrow> st = Failed) \<and>
    (kind_is (last es) ''WorkRunCancelled'' \<longleftrightarrow> st = Cancelled)"
proof -
  obtain op evs where es: "es = op # evs" "operation_ok op" using assms(1) by (auto simp: valid_history_def)
  with assms(2) have "evs \<noteq> []" by (auto simp: operation_ok_def)
  then obtain evs' e where evs: "evs = evs' @ [e]" by (metis rev_exhaust)
  from assms(1) es evs obtain st0 where step: "lifecycle_step st0 (the (entry_kind e)) st"
    and "event_of op e"
    using valid_history_snoc [of "op # evs'" e st] by auto
  then have "entry_kind e \<noteq> None" by (simp add: event_of_def)
  then show ?thesis
    using lifecycle_terminal_kind [OF step] es evs by (auto simp: kind_is_entry_kind)
qed

lemma valid_history_cancelling:
  assumes "valid_history es Cancelled"
  shows "list_ex (\<lambda>e. kind_is e ''WorkRunCancelling'') (tl es)"
proof -
  obtain op evs where es: "es = op # evs" and events: "\<forall>e \<in> set evs. event_of op e"
    and path: "lifecycle_path Accepted (map (the \<circ> entry_kind) evs) Cancelled"
    using assms by (auto simp: valid_history_def)
  from lifecycle_path_cancelling [OF path] obtain e
    where "e \<in> set evs" "the (entry_kind e) = ''WorkRunCancelling''" by auto
  then show ?thesis
    using events by (force simp: es list_ex_iff kind_is_entry_kind event_of_def)
qed

lemma incomplete_last_kind:
  assumes "valid_history es st" and "e_entry_type (last es) = Event"
  shows "kind_in (last es) terminal_kind_names \<longleftrightarrow> final_status st"
  using valid_history_last [OF assms] by (auto simp: kind_in_def terminal_kind_names_def final_status_def)

section \<open>Properties\<close>

text \<open>What an accepted record says about the run's lifecycle.\<close>

definition truthful :: "event_entry list \<Rightarrow> cancellation_record \<Rightarrow> run_status \<Rightarrow> bool" where
  "truthful es rec st \<longleftrightarrow>
     (k_status rec = ''settled'' \<longrightarrow> st = Cancelled \<and> k_reported_status rec = Some ''settled'') \<and>
     (k_status rec = ''unsupported'' \<longrightarrow> st = Cancelled) \<and>
     (k_status rec = ''failed'' \<longrightarrow> st = Failed \<and>
        list_ex (\<lambda>e. kind_is e ''WorkRunCancelling'') (tl es)) \<and>
     (k_status rec = ''not_requested'' \<longrightarrow> st \<in> {Completed, Failed} \<and>
        \<not> list_ex (\<lambda>e. kind_is e ''WorkRunCancelling'') (tl es)) \<and>
     (incomplete st \<longrightarrow> k_status rec = ''unknown'')"

lemma truthful_unknown: "truthful es (unknown_cancellation e reason) st"
  by (simp add: truthful_def unknown_cancellation_def)

lemma decode_terminal_Inr:
  assumes "decode_terminal entry started = Inr rec"
  shows "consistent_observation entry started (k_status rec) (k_reason_code rec) (k_reported_status rec) \<and>
    k_run_id rec = e_run_id entry \<and> k_observed_sequence rec = e_sequence entry"
  using assms by (auto simp: decode_terminal_def split: option.splits json.splits if_splits)

lemma decode_terminal_truthful:
  assumes dec: "decode_terminal (last es) (list_ex (\<lambda>e. kind_is e ''WorkRunCancelling'') (tl es)) = Inr rec"
    and valid: "valid_history es st" and event: "e_entry_type (last es) = Event"
  shows "truthful es rec st"
proof -
  let ?started = "list_ex (\<lambda>e. kind_is e ''WorkRunCancelling'') (tl es)"
  have con: "consistent_observation (last es) ?started (k_status rec) (k_reason_code rec)
      (k_reported_status rec)"
    using decode_terminal_Inr [OF dec] by blast
  have kinds: "kind_is (last es) ''WorkRunCompleted'' \<longleftrightarrow> st = Completed"
    "kind_is (last es) ''WorkRunFailed'' \<longleftrightarrow> st = Failed"
    "kind_is (last es) ''WorkRunCancelled'' \<longleftrightarrow> st = Cancelled"
    using valid_history_last [OF valid event] by blast+
  show ?thesis
  proof (cases ?started)
    case False
    with con kinds show ?thesis
      by (auto simp: consistent_observation_def truthful_def kind_in_def incomplete_def)
  next
    case True
    with con kinds show ?thesis
      by (auto simp: consistent_observation_def truthful_def incomplete_def split: if_splits)
  qed
qed

lemma project_run_truthful:
  assumes "project_run es = Inr rec" and "valid_history es st"
  shows "truthful es rec st \<and> k_run_id rec = e_run_id (last es) \<and>
    k_observed_sequence rec = e_sequence (last es)"
proof -
  consider reason where "rec = unknown_cancellation (last es) reason"
    | "e_entry_type (last es) = Event"
      "decode_terminal (last es) (list_ex (\<lambda>e. kind_is e ''WorkRunCancelling'') (tl es)) = Inr rec"
    using assms(1)
    by (auto simp: project_run_def Let_def split: option.splits json.splits if_splits)
  then show ?thesis
  proof cases
    case 1
    then show ?thesis using truthful_unknown by (simp add: unknown_cancellation_def)
  next
    case 2
    then show ?thesis
      using decode_terminal_truthful [OF 2(2) assms(2) 2(1)] decode_terminal_Inr by blast
  qed
qed

text \<open>
  Property C5. The projection never guesses a cancellation: there is one record per run in order of
  first appearance; \<open>settled\<close> and \<open>unsupported\<close> are reported only for a run whose history ends
  cancelled (and \<open>settled\<close> only when the domain reported it), \<open>failed\<close> only for a failed run that
  was cancelling, \<open>not_requested\<close> only for a completed or failed run that never was, and an
  incomplete run is always \<open>unknown\<close>.
\<close>

theorem cancellations_agree_with_lifecycle:
  assumes "project_work_cancellations es = Inr recs"
  shows "map k_run_id recs = first_runs es \<and>
    (\<forall>rec \<in> set recs. \<exists>st. valid_history (own (k_run_id rec) es) st \<and>
       truthful (own (k_run_id rec) es) rec st \<and>
       k_observed_sequence rec = e_sequence (last (own (k_run_id rec) es)))"
proof -
  have ok: "replayable es" and recs: "list_all2 (\<lambda>g rec. project_run g = Inr rec)
      (map (\<lambda>r. own r es) (first_runs es)) recs"
    using assms replay_iff [of es]
    by (auto simp: project_work_cancellations_def rmap_Inr_iff groups_are_own project_work_runs_Inr
        split: sum.splits)
  have each: "\<exists>st. valid_history (own r es) st \<and> truthful (own r es) rec st \<and> k_run_id rec = r \<and>
      k_observed_sequence rec = e_sequence (last (own r es))"
    if "r \<in> set (first_runs es)" "project_run (own r es) = Inr rec" for r rec
  proof -
    have "r \<in> e_run_id ` set es" using that(1) by simp
    with ok obtain st where st: "valid_history (own r es) st" unfolding replayable_def by blast
    then have "own r es \<noteq> []" by (auto simp: valid_history_def)
    then have "e_run_id (last (own r es)) = r" using last_in_set [of "own r es"] by (simp add: own_def)
    with st project_run_truthful [OF that(2) st] show ?thesis by auto
  qed
  have "list_all2 (\<lambda>r rec. r \<in> set (first_runs es) \<and> project_run (own r es) = Inr rec) (first_runs es) recs"
    using recs nth_mem [of _ "first_runs es"] by (simp add: list_all2_conv_all_nth)
  then have all: "list_all2 (\<lambda>r rec. k_run_id rec = r \<and> (\<exists>st. valid_history (own r es) st \<and>
      truthful (own r es) rec st \<and> k_observed_sequence rec = e_sequence (last (own r es)))) (first_runs es) recs"
    by (rule list_all2_mono) (use each in blast)
  then have "map k_run_id recs = first_runs es"
    by (auto simp: list_all2_conv_all_nth intro!: nth_equalityI)
  with all show ?thesis by (fastforce simp: list_all2_conv_all_nth in_set_conv_nth)
qed

theorem cancellations_agree_with_lifecycle_witness:
  "\<exists>rec. project_work_cancellations [sample_operation ''o'' ''r''] = Inr [rec] \<and>
     map k_run_id [rec] = [''r''] \<and> k_status rec = ''unknown''"
proof -
  let ?rec = "unknown_cancellation (sample_operation ''o'' ''r'') ''legacy_unrecorded''"
  have recs: "project_work_cancellations [sample_operation ''o'' ''r''] = Inr [?rec]"
    by (simp add: project_work_cancellations_def project_work_runs_def sample_defs projector_step_def
        projector_apply_def apply_first_def run_from_operation_def empty_projector_def Let_def
        group_by_run_def append_under_def bucket_def project_run_def)
  show ?thesis
    using cancellations_agree_with_lifecycle [OF recs] recs
    by (simp add: unknown_cancellation_def first_runs_def sample_defs)
qed

end
