(* ===== verification/Plan_Projection.thy ===== *)
theory Plan_Projection
  imports Run_Projection
begin

text \<open>
  Plan runs (\<open>harnesswork/plan_projection.py\<close>): rebuilding, from the event log, every attempt at
  every plan with its steps.

  The Python state is a list of mutable plan states and a dictionary from plan identifier to the
  state of its current attempt; here the dictionary holds the position of that state in the list.
  Statuses are constructors, and the \<open>metadata\<close> dictionaries are payloads: a tuple of strings
  becomes a list of JSON strings, an integer a JSON integer.
\<close>

section \<open>Reading an entry\<close>

text \<open>\<open>mapping.get(key)\<close>, with \<open>None\<close> as JSON null.\<close>

definition get_value :: "payload \<Rightarrow> string \<Rightarrow> json" where
  "get_value d key = (case map_of d key of None \<Rightarrow> JNull | Some v \<Rightarrow> v)"

definition entry_payload_value :: "event_entry \<Rightarrow> string \<Rightarrow> json" where
  "entry_payload_value entry key =
     (if get_value (e_payload entry) key \<noteq> JNull then get_value (e_payload entry) key
      else (case get_value (e_payload entry) ''payload'' of
              JObj nested \<Rightarrow> get_value nested key
            | _ \<Rightarrow> JNull))"

fun string_or_empty :: "json \<Rightarrow> string" where
  "string_or_empty (JStr s) = s"
| "string_or_empty _ = []"

definition mapping_string_value :: "payload \<Rightarrow> string \<Rightarrow> string" where
  "mapping_string_value d key = string_or_empty (get_value d key)"

definition entry_string_payload_value :: "event_entry \<Rightarrow> string \<Rightarrow> string" where
  "entry_string_payload_value entry key = string_or_empty (entry_payload_value entry key)"

definition entry_mapping_payload_value :: "event_entry \<Rightarrow> string \<Rightarrow> payload option" where
  "entry_mapping_payload_value entry key =
     (case entry_payload_value entry key of JObj d \<Rightarrow> Some d | _ \<Rightarrow> None)"

definition entry_step_index :: "event_entry \<Rightarrow> int option" where
  "entry_step_index entry =
     (case entry_payload_value entry ''step_index'' of JInt n \<Rightarrow> Some n | _ \<Rightarrow> None)"

definition plan_entry_kind :: "event_entry \<Rightarrow> string" where
  "plan_entry_kind entry =
     (case get_value (e_payload entry) ''kind'' of
        JStr kind \<Rightarrow> if kind \<noteq> [] then kind else entry_type_text (e_entry_type entry)
      | _ \<Rightarrow> entry_type_text (e_entry_type entry))"

text \<open>\<open>text or None\<close> on a string, and \<open>a or b\<close> on optional strings.\<close>

definition text_or_none :: "string \<Rightarrow> string option" where
  "text_or_none s = (if s = [] then None else Some s)"

definition truthy :: "string option \<Rightarrow> bool" where
  "truthy s \<longleftrightarrow> s \<noteq> None \<and> s \<noteq> Some []"

definition string_or :: "string option \<Rightarrow> string option \<Rightarrow> string option" where
  "string_or a b = (if truthy a then a else b)"

section \<open>Step deviations\<close>

record step_deviation =
  dv_step_id :: string
  dv_deviation_type :: string
  dv_reason :: string
  dv_policy_level :: "string option"
  dv_evidence_refs :: "string list"
  dv_approval_ref :: "string option"
  dv_risk :: "string option"
  dv_outcome :: "string option"
  dv_metadata :: payload

fun nonempty_strings :: "json list \<Rightarrow> string list" where
  "nonempty_strings [] = []"
| "nonempty_strings (JStr s # rest) = (if s \<noteq> [] then s # nonempty_strings rest else nonempty_strings rest)"
| "nonempty_strings (_ # rest) = nonempty_strings rest"

fun mapping_string_tuple :: "json \<Rightarrow> string list" where
  "mapping_string_tuple (JStr s) = (if s \<noteq> [] then [s] else [])"
| "mapping_string_tuple (JList items) = nonempty_strings items"
| "mapping_string_tuple _ = []"

definition entry_step_deviation :: "event_entry \<Rightarrow> string \<Rightarrow> step_deviation option" where
  "entry_step_deviation entry step_id =
     (case entry_payload_value entry ''deviation'' of
        JObj value \<Rightarrow>
          (let deviation_type =
             (if mapping_string_value value ''deviation_type'' \<noteq> []
              then mapping_string_value value ''deviation_type''
              else mapping_string_value value ''type'')
           in if deviation_type = [] then None
              else Some
                \<lparr>dv_step_id = (if mapping_string_value value ''step_id'' \<noteq> []
                               then mapping_string_value value ''step_id'' else step_id),
                 dv_deviation_type = deviation_type,
                 dv_reason = mapping_string_value value ''reason'',
                 dv_policy_level = text_or_none (mapping_string_value value ''policy_level''),
                 dv_evidence_refs = mapping_string_tuple (get_value value ''evidence_refs''),
                 dv_approval_ref = text_or_none (mapping_string_value value ''approval_ref''),
                 dv_risk = text_or_none (mapping_string_value value ''risk''),
                 dv_outcome = text_or_none (mapping_string_value value ''outcome''),
                 dv_metadata = (case get_value value ''metadata'' of JObj d \<Rightarrow> d | _ \<Rightarrow> [])\<rparr>)
      | _ \<Rightarrow> None)"

section \<open>Step states\<close>

datatype step_status =
  Step_Pending | Step_Running | Step_Completed | Step_Failed | Step_Skipped | Step_Cancelled

record step_state =
  t_step_id :: string
  t_status :: step_status
  t_run_id :: "string option"
  t_plan_id :: "string option"
  t_method_id :: "string option"
  t_operation_id :: "string option"
  t_title :: "string option"
  t_step_index :: "int option"
  t_first_sequence :: "int option"
  t_started_sequence :: "int option"
  t_completed_sequence :: "int option"
  t_failed_sequence :: "int option"
  t_cancelled_sequence :: "int option"
  t_error :: "string option"
  t_deviation :: "step_deviation option"
  t_planned_constraint :: "payload option"
  t_audit_policy :: "payload option"
  t_step_facts :: "payload option"

definition new_step :: "string \<Rightarrow> step_state" where
  "new_step step_id =
     \<lparr>t_step_id = step_id, t_status = Step_Pending, t_run_id = None, t_plan_id = None,
      t_method_id = None, t_operation_id = None, t_title = None, t_step_index = None,
      t_first_sequence = None, t_started_sequence = None, t_completed_sequence = None,
      t_failed_sequence = None, t_cancelled_sequence = None, t_error = None,
      t_deviation = None, t_planned_constraint = None, t_audit_policy = None,
      t_step_facts = None\<rparr>"

text \<open>The assignments before the branch on the kind, then that branch.\<close>

definition step_facts_from_entry ::
  "event_entry \<Rightarrow> string option \<Rightarrow> string \<Rightarrow> step_state \<Rightarrow> step_state" where
  "step_facts_from_entry entry method_id plan_id s =
     s\<lparr>t_run_id := string_or (t_run_id s) (Some (e_run_id entry)),
       t_operation_id := string_or (t_operation_id s) (Some (e_operation_id entry)),
       t_method_id := string_or method_id (t_method_id s),
       t_plan_id := Some plan_id,
       t_first_sequence := or_else (t_first_sequence s) (Some (e_sequence entry)),
       t_title := or_else (text_or_none (entry_string_payload_value entry ''step_title'')) (t_title s),
       t_step_index := or_else (entry_step_index entry) (t_step_index s),
       t_deviation := or_else (entry_step_deviation entry (t_step_id s)) (t_deviation s),
       t_planned_constraint :=
         or_else (entry_mapping_payload_value entry ''planned_constraint'') (t_planned_constraint s),
       t_audit_policy := or_else (entry_mapping_payload_value entry ''audit_policy'') (t_audit_policy s),
       t_step_facts := or_else (entry_mapping_payload_value entry ''step_facts'') (t_step_facts s)\<rparr>"

definition step_status_from_entry :: "event_entry \<Rightarrow> string \<Rightarrow> step_state \<Rightarrow> step_state" where
  "step_status_from_entry entry kind s =
     (if kind = ''WorkStepStarted'' then
        s\<lparr>t_status := Step_Running, t_started_sequence := Some (e_sequence entry)\<rparr>
      else if kind = ''WorkStepCompleted'' then
        s\<lparr>t_status := Step_Completed, t_completed_sequence := Some (e_sequence entry)\<rparr>
      else if kind = ''WorkStepFailed'' then
        s\<lparr>t_status := Step_Failed, t_failed_sequence := Some (e_sequence entry),
          t_error := or_else (text_or_none (entry_string_payload_value entry ''error'')) (t_error s)\<rparr>
      else if kind = ''WorkStepCancelled'' then
        s\<lparr>t_status := Step_Cancelled, t_cancelled_sequence := Some (e_sequence entry)\<rparr>
      else s)"

definition step_update ::
  "event_entry \<Rightarrow> string \<Rightarrow> string option \<Rightarrow> string \<Rightarrow> step_state \<Rightarrow> step_state" where
  "step_update entry kind method_id plan_id s =
     step_status_from_entry entry kind (step_facts_from_entry entry method_id plan_id s)"

record work_step_run =
  ws_run_id :: string
  ws_plan_id :: string
  ws_step_id :: string
  ws_sequence :: int
  ws_status :: step_status
  ws_method_id :: "string option"
  ws_title :: "string option"
  ws_deviation :: "step_deviation option"
  ws_metadata :: payload

text \<open>\<open>_without_none\<close> and \<open>dataclasses.asdict\<close>.\<close>

fun without_none :: "(string \<times> json option) list \<Rightarrow> payload" where
  "without_none [] = []"
| "without_none ((k, None) # rest) = without_none rest"
| "without_none ((k, Some v) # rest) = (k, v) # without_none rest"

definition json_or_null :: "string option \<Rightarrow> json" where
  "json_or_null s = (case s of None \<Rightarrow> JNull | Some t \<Rightarrow> JStr t)"

definition deviation_dict :: "step_deviation \<Rightarrow> json" where
  "deviation_dict d = JObj
     [(''step_id'', JStr (dv_step_id d)), (''deviation_type'', JStr (dv_deviation_type d)),
      (''reason'', JStr (dv_reason d)), (''policy_level'', json_or_null (dv_policy_level d)),
      (''evidence_refs'', JList (map JStr (dv_evidence_refs d))),
      (''approval_ref'', json_or_null (dv_approval_ref d)), (''risk'', json_or_null (dv_risk d)),
      (''outcome'', json_or_null (dv_outcome d)), (''metadata'', JObj (dv_metadata d))]"

definition to_step_run :: "step_state \<Rightarrow> work_step_run" where
  "to_step_run s =
     \<lparr>ws_run_id = (case t_run_id s of None \<Rightarrow> [] | Some r \<Rightarrow> r),
      ws_plan_id = (case t_plan_id s of None \<Rightarrow> [] | Some p \<Rightarrow> p),
      ws_step_id = t_step_id s,
      ws_sequence = (case t_started_sequence s of
          Some n \<Rightarrow> n
        | None \<Rightarrow> (case t_first_sequence s of None \<Rightarrow> 0 | Some n \<Rightarrow> n)),
      ws_status = t_status s,
      ws_method_id = t_method_id s,
      ws_title = t_title s,
      ws_deviation = t_deviation s,
      ws_metadata = without_none
        [(''step_index'', map_option JInt (t_step_index s)),
         (''operation_id'', map_option JStr (t_operation_id s)),
         (''started_sequence'', map_option JInt (t_started_sequence s)),
         (''completed_sequence'', map_option JInt (t_completed_sequence s)),
         (''failed_sequence'', map_option JInt (t_failed_sequence s)),
         (''cancelled_sequence'', map_option JInt (t_cancelled_sequence s)),
         (''error'', map_option JStr (t_error s)),
         (''deviation'', map_option deviation_dict (t_deviation s)),
         (''planned_constraint'', map_option JObj (t_planned_constraint s)),
         (''audit_policy'', map_option JObj (t_audit_policy s)),
         (''step_facts'', map_option JObj (t_step_facts s))]\<rparr>"

section \<open>Plan states\<close>

record plan_state =
  pl_plan_id :: string
  pl_status :: run_status
  pl_method_id :: "string option"
  pl_current_step_id :: "string option"
  pl_error :: "string option"
  pl_plan_facts :: "payload option"
  pl_operation_ids :: "string list"
  pl_steps :: "(string \<times> step_state) list"
  pl_step_order :: "string list"

definition new_plan :: "string \<Rightarrow> string option \<Rightarrow> plan_state" where
  "new_plan plan_id method_id =
     \<lparr>pl_plan_id = plan_id, pl_status = Accepted, pl_method_id = method_id,
      pl_current_step_id = None, pl_error = None, pl_plan_facts = None,
      pl_operation_ids = [], pl_steps = [], pl_step_order = []\<rparr>"

definition plan_facts_from_entry :: "event_entry \<Rightarrow> plan_state \<Rightarrow> plan_state" where
  "plan_facts_from_entry entry p =
     (let method_id = entry_string_payload_value entry ''method_id'';
          oid = e_operation_id entry
      in p\<lparr>pl_method_id := (if method_id \<noteq> [] then Some method_id else pl_method_id p),
           pl_operation_ids :=
             (if oid \<noteq> [] \<and> oid \<notin> set (pl_operation_ids p) then pl_operation_ids p @ [oid]
              else pl_operation_ids p),
           pl_plan_facts := or_else (entry_mapping_payload_value entry ''plan_facts'') (pl_plan_facts p)\<rparr>)"

definition plan_status_from_entry :: "event_entry \<Rightarrow> string \<Rightarrow> plan_state \<Rightarrow> plan_state" where
  "plan_status_from_entry entry kind p =
     (if kind = ''WorkPlanStarted'' then p\<lparr>pl_status := Running\<rparr>
      else if kind = ''WorkPlanCompleted'' then p\<lparr>pl_status := Completed\<rparr>
      else if kind = ''WorkPlanFailed'' then
        p\<lparr>pl_status := Failed,
          pl_error := or_else (text_or_none (entry_string_payload_value entry ''error'')) (pl_error p)\<rparr>
      else if kind = ''WorkPlanCancelled'' then p\<lparr>pl_status := Cancelled\<rparr>
      else if pl_status p = Accepted \<and> e_entry_type entry \<noteq> Operation then p\<lparr>pl_status := Running\<rparr>
      else p)"

definition plan_step_state :: "plan_state \<Rightarrow> string \<Rightarrow> step_state \<times> plan_state" where
  "plan_step_state p step_id =
     (case map_of (pl_steps p) step_id of
        Some s \<Rightarrow> (s, p)
      | None \<Rightarrow> (new_step step_id,
          p\<lparr>pl_steps := AList.update step_id (new_step step_id) (pl_steps p),
            pl_step_order := pl_step_order p @ [step_id]\<rparr>))"

definition plan_update :: "event_entry \<Rightarrow> string \<Rightarrow> plan_state \<Rightarrow> plan_state" where
  "plan_update entry kind p =
     (let p1 = plan_status_from_entry entry kind (plan_facts_from_entry entry p);
          step_id = entry_string_payload_value entry ''step_id''
      in if step_id = [] then p1
         else
           (let (s, p2) = plan_step_state (p1\<lparr>pl_current_step_id := Some step_id\<rparr>) step_id
            in p2\<lparr>pl_steps := AList.update step_id
                   (step_update entry kind (pl_method_id p2) (pl_plan_id p2) s) (pl_steps p2)\<rparr>))"

text \<open>
  The sort key of a step, a Python tuple: whether its index is missing, the index or else the
  order of arrival, the order of arrival. Tuples compare lexicographically.
\<close>

datatype step_key = Step_Key (key_unindexed: bool) (key_index: int) (key_arrival: nat)

instantiation step_key :: linorder
begin

definition less_eq_step_key :: "step_key \<Rightarrow> step_key \<Rightarrow> bool" where
  "less_eq_step_key a b \<longleftrightarrow>
     key_unindexed a < key_unindexed b \<or> key_unindexed a = key_unindexed b \<and>
       (key_index a < key_index b \<or> key_index a = key_index b \<and> key_arrival a \<le> key_arrival b)"

definition less_step_key :: "step_key \<Rightarrow> step_key \<Rightarrow> bool" where
  "less_step_key a b \<longleftrightarrow> a \<le> b \<and> \<not> b \<le> (a :: step_key)"

instance
proof
  fix x y z :: step_key
  show "x < y \<longleftrightarrow> x \<le> y \<and> \<not> y \<le> x" by (simp add: less_step_key_def)
  show "x \<le> x" by (simp add: less_eq_step_key_def)
  show "x \<le> y \<Longrightarrow> y \<le> z \<Longrightarrow> x \<le> z" by (auto simp: less_eq_step_key_def)
  show "x \<le> y \<Longrightarrow> y \<le> x \<Longrightarrow> x = y" by (cases x; cases y) (auto simp: less_eq_step_key_def)
  show "x \<le> y \<or> y \<le> x" by (auto simp: less_eq_step_key_def)
qed

end

text \<open>\<open>order_index[step_id]\<close>: the position in \<open>step_order\<close>.\<close>

fun position_of :: "'a \<Rightarrow> 'a list \<Rightarrow> nat" where
  "position_of x [] = 0"
| "position_of x (y # ys) = (if x = y then 0 else Suc (position_of x ys))"

definition step_sort_key :: "plan_state \<Rightarrow> string \<Rightarrow> step_key" where
  "step_sort_key p step_id =
     (let index = t_step_index (the (map_of (pl_steps p) step_id));
          arrival = position_of step_id (pl_step_order p)
      in Step_Key (index = None) (case index of None \<Rightarrow> int arrival | Some i \<Rightarrow> i) arrival)"

definition ordered_step_ids :: "plan_state \<Rightarrow> string list" where
  "ordered_step_ids p = sort_key (step_sort_key p) (pl_step_order p)"

record work_plan_run =
  wp_plan_id :: string
  wp_status :: run_status
  wp_steps :: "work_step_run list"
  wp_method_id :: "string option"
  wp_current_step_id :: "string option"
  wp_step_count :: nat
  wp_completed_step_count :: nat
  wp_failed_step_count :: nat
  wp_metadata :: payload

definition to_plan_run :: "plan_state \<Rightarrow> work_plan_run" where
  "to_plan_run p =
     (let steps = map (\<lambda>step_id. to_step_run (the (map_of (pl_steps p) step_id))) (ordered_step_ids p)
      in \<lparr>wp_plan_id = pl_plan_id p, wp_status = pl_status p, wp_steps = steps,
          wp_method_id = pl_method_id p, wp_current_step_id = pl_current_step_id p,
          wp_step_count = length steps,
          wp_completed_step_count = length (filter (\<lambda>s. ws_status s = Step_Completed) steps),
          wp_failed_step_count = length (filter (\<lambda>s. ws_status s = Step_Failed) steps),
          wp_metadata = (''operation_ids'', JList (map JStr (pl_operation_ids p))) #
            without_none [(''error'', map_option JStr (pl_error p)),
                          (''plan_facts'', map_option JObj (pl_plan_facts p))]\<rparr>)"

section \<open>The projection\<close>

definition starts_new_plan_attempt :: "event_entry \<Rightarrow> string \<Rightarrow> plan_state \<Rightarrow> bool" where
  "starts_new_plan_attempt entry kind p \<longleftrightarrow>
     pl_status p \<in> {Completed, Failed, Cancelled} \<and>
     (e_entry_type entry = Operation \<or> kind = ''WorkPlanStarted'')"

record plan_projector =
  plan_states :: "plan_state list"
  active_by_plan_id :: "(string \<times> nat) list"

definition empty_plan_projector :: plan_projector where
  "empty_plan_projector = \<lparr>plan_states = [], active_by_plan_id = []\<rparr>"

definition entry_plan_id :: "event_entry \<Rightarrow> string" where
  "entry_plan_id entry = entry_string_payload_value entry ''plan_id''"

definition entry_new_plan :: "event_entry \<Rightarrow> plan_state" where
  "entry_new_plan entry =
     new_plan (entry_plan_id entry) (text_or_none (entry_string_payload_value entry ''method_id''))"

text \<open>One pass of the loop body: find or open the attempt, then update it in place.\<close>

definition plan_projector_step :: "plan_projector \<Rightarrow> event_entry \<Rightarrow> plan_projector" where
  "plan_projector_step q entry =
     (let plan_id = entry_plan_id entry; kind = plan_entry_kind entry in
      if plan_id = [] then q
      else
        (case map_of (active_by_plan_id q) plan_id of
           Some i \<Rightarrow>
             if starts_new_plan_attempt entry kind (plan_states q ! i) then
               \<lparr>plan_states = plan_states q @ [plan_update entry kind (entry_new_plan entry)],
                active_by_plan_id =
                  AList.update plan_id (length (plan_states q)) (active_by_plan_id q)\<rparr>
             else q\<lparr>plan_states := (plan_states q)[i := plan_update entry kind (plan_states q ! i)]\<rparr>
         | None \<Rightarrow>
             \<lparr>plan_states = plan_states q @ [plan_update entry kind (entry_new_plan entry)],
              active_by_plan_id =
                AList.update plan_id (length (plan_states q)) (active_by_plan_id q)\<rparr>))"

definition project_work_plan_runs :: "event_entry list \<Rightarrow> work_plan_run list" where
  "project_work_plan_runs entries =
     map to_plan_run (plan_states (foldl plan_projector_step empty_plan_projector entries))"

section \<open>What one update does\<close>

definition step_id_of :: "event_entry \<Rightarrow> string" where
  "step_id_of e = entry_string_payload_value e ''step_id''"

lemma plan_facts_fields [simp]:
  "pl_plan_id (plan_facts_from_entry e p) = pl_plan_id p"
  "pl_status (plan_facts_from_entry e p) = pl_status p"
  "pl_steps (plan_facts_from_entry e p) = pl_steps p"
  "pl_step_order (plan_facts_from_entry e p) = pl_step_order p"
  by (simp_all add: plan_facts_from_entry_def Let_def)

lemma plan_status_fields [simp]:
  "pl_plan_id (plan_status_from_entry e k p) = pl_plan_id p"
  "pl_steps (plan_status_from_entry e k p) = pl_steps p"
  "pl_step_order (plan_status_from_entry e k p) = pl_step_order p"
  by (simp_all add: plan_status_from_entry_def)

lemma plan_status_cong:
  "pl_status p = pl_status q \<Longrightarrow>
     pl_status (plan_status_from_entry e k p) = pl_status (plan_status_from_entry e k q)"
  by (simp add: plan_status_from_entry_def)

lemma plan_step_state_fields:
  assumes "plan_step_state p sid = (s, p')"
  shows "pl_plan_id p' = pl_plan_id p" and "pl_status p' = pl_status p"
    and "s = (case map_of (pl_steps p) sid of None \<Rightarrow> new_step sid | Some s \<Rightarrow> s)"
    and "AList.update sid v (pl_steps p') = AList.update sid v (pl_steps p)"
    and "pl_step_order p' =
      (if map_of (pl_steps p) sid = None then pl_step_order p @ [sid] else pl_step_order p)"
  using assms by (auto simp: plan_step_state_def split: option.splits)

lemma plan_update_fields:
  "pl_plan_id (plan_update e k p) = pl_plan_id p"
  "pl_status (plan_update e k p) = pl_status (plan_status_from_entry e k p)"
  "pl_step_order (plan_update e k p) =
     (if step_id_of e \<noteq> [] \<and> map_of (pl_steps p) (step_id_of e) = None
      then pl_step_order p @ [step_id_of e] else pl_step_order p)"
  by (auto simp: plan_update_def Let_def step_id_of_def plan_step_state_fields
      split: prod.splits intro: plan_status_cong)

lemma plan_update_steps:
  "\<exists>m. pl_steps (plan_update e k p) =
     (if step_id_of e = [] then pl_steps p
      else AList.update (step_id_of e)
        (step_update e k m (pl_plan_id p)
          (case map_of (pl_steps p) (step_id_of e) of None \<Rightarrow> new_step (step_id_of e) | Some s \<Rightarrow> s))
        (pl_steps p))"
proof -
  let ?p1 = "plan_status_from_entry e k (plan_facts_from_entry e p)" and ?sid = "step_id_of e"
  obtain s p2 where s: "plan_step_state (?p1\<lparr>pl_current_step_id := Some ?sid\<rparr>) ?sid = (s, p2)"
    by (cases "plan_step_state (?p1\<lparr>pl_current_step_id := Some ?sid\<rparr>) ?sid")
  have "pl_steps (plan_update e k p) = (if ?sid = [] then pl_steps p
      else AList.update ?sid (step_update e k (pl_method_id p2) (pl_plan_id p) s) (pl_steps p))"
    using s plan_step_state_fields(1,4) [OF s] by (simp add: plan_update_def Let_def step_id_of_def)
  moreover have "s = (case map_of (pl_steps p) ?sid of None \<Rightarrow> new_step ?sid | Some s \<Rightarrow> s)"
    using plan_step_state_fields(3) [OF s] by simp
  ultimately show ?thesis by blast
qed

lemma step_update_fields [simp]:
  "t_step_id (step_update e k m pid s) = t_step_id s"
  "t_plan_id (step_update e k m pid s) = Some pid"
  "t_step_index (step_update e k m pid s) = or_else (entry_step_index e) (t_step_index s)"
  by (simp_all add: step_update_def step_status_from_entry_def step_facts_from_entry_def)

text \<open>The kinds that set a status.\<close>

definition plan_kind_status :: "string \<Rightarrow> run_status option" where
  "plan_kind_status kind = map_of
     [(''WorkPlanStarted'', Running), (''WorkPlanCompleted'', Completed),
      (''WorkPlanFailed'', Failed), (''WorkPlanCancelled'', Cancelled)] kind"

definition step_kind_status :: "string \<Rightarrow> step_status option" where
  "step_kind_status kind = map_of
     [(''WorkStepStarted'', Step_Running), (''WorkStepCompleted'', Step_Completed),
      (''WorkStepFailed'', Step_Failed), (''WorkStepCancelled'', Step_Cancelled)] kind"

lemma plan_kind_status_not_accepted: "plan_kind_status k = Some st \<Longrightarrow> st \<noteq> Accepted"
  by (auto simp: plan_kind_status_def split: if_splits)

lemma plan_status_kind:
  "pl_status (plan_status_from_entry e k p) =
     (case plan_kind_status k of
        Some st \<Rightarrow> st
      | None \<Rightarrow> if pl_status p = Accepted \<and> e_entry_type e \<noteq> Operation then Running else pl_status p)"
  by (simp add: plan_status_from_entry_def plan_kind_status_def)

lemma step_update_status:
  "t_status (step_update e k m pid s) =
     (case step_kind_status k of Some st \<Rightarrow> st | None \<Rightarrow> t_status s)"
  by (simp add: step_update_def step_status_from_entry_def step_facts_from_entry_def
      step_kind_status_def)

section \<open>One attempt: the specification\<close>

text \<open>
  What an attempt is, said over its entries alone: the status is that of the last entry whose kind
  sets one; before any such entry the attempt runs once an event has been recorded. A step's
  status is that of its last entry with a step kind, its index the last one given.
\<close>

fun last_some :: "'a option list \<Rightarrow> 'a option" where
  "last_some [] = None"
| "last_some (x # xs) = or_else (last_some xs) x"

lemma last_some_snoc [simp]: "last_some (xs @ [x]) = or_else x (last_some xs)"
  by (induction xs) (auto simp: or_else_def split: option.split)

definition attempt_status :: "event_entry list \<Rightarrow> run_status" where
  "attempt_status seg =
     (case last_some (map (plan_kind_status \<circ> plan_entry_kind) seg) of
        Some st \<Rightarrow> st
      | None \<Rightarrow> if list_ex (\<lambda>e. e_entry_type e = Event) seg then Running else Accepted)"

definition of_step :: "string \<Rightarrow> event_entry list \<Rightarrow> event_entry list" where
  "of_step sid seg = filter (\<lambda>e. step_id_of e = sid) seg"

definition attempt_step_status :: "event_entry list \<Rightarrow> string \<Rightarrow> step_status" where
  "attempt_step_status seg sid =
     (case last_some (map (step_kind_status \<circ> plan_entry_kind) (of_step sid seg)) of
        Some st \<Rightarrow> st | None \<Rightarrow> Step_Pending)"

definition attempt_step_index :: "event_entry list \<Rightarrow> string \<Rightarrow> int option" where
  "attempt_step_index seg sid = last_some (map entry_step_index (of_step sid seg))"

text \<open>The code's state after the entries of an attempt.\<close>

definition plan_entry :: "plan_state \<Rightarrow> event_entry \<Rightarrow> plan_state" where
  "plan_entry p e = plan_update e (plan_entry_kind e) p"

definition plan_of_attempt :: "event_entry list \<Rightarrow> plan_state" where
  "plan_of_attempt seg = foldl plan_entry (entry_new_plan (hd seg)) seg"

lemma plan_of_attempt_single: "plan_of_attempt [e] = plan_entry (entry_new_plan e) e"
  by (simp add: plan_of_attempt_def)

lemma plan_of_attempt_snoc:
  "seg \<noteq> [] \<Longrightarrow> plan_of_attempt (seg @ [e]) = plan_entry (plan_of_attempt seg) e"
  by (simp add: plan_of_attempt_def)

lemma entry_new_plan_fields [simp]:
  "pl_plan_id (entry_new_plan e) = entry_plan_id e" "pl_status (entry_new_plan e) = Accepted"
  "pl_steps (entry_new_plan e) = []" "pl_step_order (entry_new_plan e) = []"
  by (simp_all add: entry_new_plan_def new_plan_def)

lemma plan_entry_id [simp]: "pl_plan_id (plan_entry p e) = pl_plan_id p"
  by (simp add: plan_entry_def plan_update_fields)

lemma plan_entry_status: "pl_status (plan_entry p e) =
    (case plan_kind_status (plan_entry_kind e) of
       Some st \<Rightarrow> st
     | None \<Rightarrow> if pl_status p = Accepted \<and> e_entry_type e \<noteq> Operation then Running else pl_status p)"
  by (simp add: plan_entry_def plan_update_fields plan_status_kind)

lemma foldl_plan_entry_id [simp]: "pl_plan_id (foldl plan_entry p es) = pl_plan_id p"
  by (induction es arbitrary: p) simp_all

lemma attempt_status_snoc:
  "attempt_status (seg @ [e]) =
     (case plan_kind_status (plan_entry_kind e) of
        Some st \<Rightarrow> st
      | None \<Rightarrow> if attempt_status seg = Accepted \<and> e_entry_type e \<noteq> Operation then Running
               else attempt_status seg)"
proof -
  have "last_some (map (plan_kind_status \<circ> plan_entry_kind) seg) \<noteq> Some Accepted"
    by (induction seg) (auto simp: or_else_def split: option.splits dest: plan_kind_status_not_accepted)
  then show ?thesis
    by (cases "e_entry_type e") (auto simp: attempt_status_def split: option.split)
qed

lemma fold_status: "pl_status p = Accepted \<Longrightarrow> pl_status (foldl plan_entry p seg) = attempt_status seg"
proof (induction seg rule: rev_induct)
  case Nil
  then show ?case by (simp add: attempt_status_def)
next
  case (snoc e seg)
  then show ?case
    by (auto simp: attempt_status_snoc plan_entry_status split: option.split)
qed

lemma plan_of_attempt_status: "pl_status (plan_of_attempt seg) = attempt_status seg"
  by (simp add: plan_of_attempt_def fold_status)

text \<open>The step table after the entries of an attempt.\<close>

definition step_ids_of :: "event_entry list \<Rightarrow> string list" where
  "step_ids_of seg = foldl (\<lambda>ids e. if step_id_of e = [] \<or> step_id_of e \<in> set ids then ids
     else ids @ [step_id_of e]) [] seg"

definition step_table_ok :: "event_entry list \<Rightarrow> plan_state \<Rightarrow> bool" where
  "step_table_ok seg p \<longleftrightarrow>
     keys (pl_steps p) = pl_step_order p \<and> pl_step_order p = step_ids_of seg \<and>
     distinct (pl_step_order p) \<and>
     (\<forall>sid s. map_of (pl_steps p) sid = Some s \<longrightarrow>
        t_step_id s = sid \<and> t_status s = attempt_step_status seg sid \<and>
        t_step_index s = attempt_step_index seg sid)"

lemma step_ids_of_snoc: "step_ids_of (seg @ [e]) =
    (if step_id_of e = [] \<or> step_id_of e \<in> set (step_ids_of seg) then step_ids_of seg
     else step_ids_of seg @ [step_id_of e])"
  by (simp add: step_ids_of_def)

lemma distinct_step_ids [simp]: "distinct (step_ids_of seg)"
  by (induction seg rule: rev_induct) (auto simp: step_ids_of_snoc, simp add: step_ids_of_def)

lemma set_step_ids: "set (step_ids_of seg) = step_id_of ` set seg - {[]}"
  by (induction seg rule: rev_induct) (auto simp: step_ids_of_snoc, simp_all add: step_ids_of_def)

lemma of_step_snoc: "of_step sid (seg @ [e]) =
    of_step sid seg @ (if step_id_of e = sid then [e] else [])"
  by (simp add: of_step_def)

lemma of_step_unknown: "sid \<noteq> [] \<Longrightarrow> sid \<notin> set (step_ids_of seg) \<Longrightarrow> of_step sid seg = []"
  by (auto simp: set_step_ids of_step_def filter_empty_conv)

lemma attempt_step_status_snoc: "attempt_step_status (seg @ [e]) sid =
    (if step_id_of e = sid then
       (case step_kind_status (plan_entry_kind e) of Some st \<Rightarrow> st | None \<Rightarrow> attempt_step_status seg sid)
     else attempt_step_status seg sid)"
  by (simp add: attempt_step_status_def of_step_snoc split: option.split)

lemma attempt_step_index_snoc: "attempt_step_index (seg @ [e]) sid =
    (if step_id_of e = sid then or_else (entry_step_index e) (attempt_step_index seg sid)
     else attempt_step_index seg sid)"
  by (simp add: attempt_step_index_def of_step_snoc)

lemma new_step_fields [simp]:
  "t_step_id (new_step sid) = sid" "t_status (new_step sid) = Step_Pending"
  "t_step_index (new_step sid) = None"
  by (simp_all add: new_step_def)

lemma step_table_ok_entry:
  assumes ok: "step_table_ok seg p"
  shows "step_table_ok (seg @ [e]) (plan_entry p e)"
proof -
  let ?sid = "step_id_of e" and ?k = "plan_entry_kind e"
  define old where "old = (case map_of (pl_steps p) ?sid of None \<Rightarrow> new_step ?sid | Some s \<Rightarrow> s)"
  obtain m where steps: "pl_steps (plan_entry p e) = (if ?sid = [] then pl_steps p
      else AList.update ?sid (step_update e ?k m (pl_plan_id p) old) (pl_steps p))"
    using plan_update_steps [of e ?k p] unfolding plan_entry_def old_def by blast
  have ids: "keys (pl_steps p) = pl_step_order p" "pl_step_order p = step_ids_of seg"
    and entry: "\<And>sid s. map_of (pl_steps p) sid = Some s \<Longrightarrow> t_step_id s = sid \<and>
      t_status s = attempt_step_status seg sid \<and> t_step_index s = attempt_step_index seg sid"
    using ok by (auto simp: step_table_ok_def)
  have known: "map_of (pl_steps p) sid = None \<longleftrightarrow> sid \<notin> set (step_ids_of seg)" for sid
    using ids by (simp only: map_of_None_keys)
  have order: "pl_step_order (plan_entry p e) = step_ids_of (seg @ [e])"
    using ids by (auto simp: plan_entry_def plan_update_fields step_ids_of_snoc known)
  have old: "t_step_id old = ?sid \<and> t_status old = attempt_step_status seg ?sid \<and>
      t_step_index old = attempt_step_index seg ?sid" if "?sid \<noteq> []"
  proof (cases "map_of (pl_steps p) ?sid")
    case None
    then have "of_step ?sid seg = []" using that of_step_unknown known by blast
    with None show ?thesis
      by (simp add: old_def attempt_step_status_def attempt_step_index_def)
  next
    case (Some s)
    with entry [OF Some] show ?thesis by (simp add: old_def)
  qed
  show ?thesis
    unfolding step_table_ok_def
  proof (intro conjI allI impI)
    show "pl_step_order (plan_entry p e) = step_ids_of (seg @ [e])" by (rule order)
    show "distinct (pl_step_order (plan_entry p e))" by (simp add: order)
    show "keys (pl_steps (plan_entry p e)) = pl_step_order (plan_entry p e)"
      by (auto simp: order steps step_ids_of_snoc keys_update ids)
  next
    fix sid s assume s: "map_of (pl_steps (plan_entry p e)) sid = Some s"
    have "t_step_id s = sid \<and> t_status s = attempt_step_status (seg @ [e]) sid \<and>
        t_step_index s = attempt_step_index (seg @ [e]) sid"
    proof (cases "?sid \<noteq> [] \<and> sid = ?sid")
      case True
      then have "s = step_update e ?k m (pl_plan_id p) old" using s steps by simp
      with True old show ?thesis
        by (simp add: step_update_status attempt_step_status_snoc attempt_step_index_snoc
            split: option.split)
    next
      case False
      then have look: "map_of (pl_steps p) sid = Some s" using s steps by (auto split: if_splits)
      then have "sid \<noteq> []" using known [of sid] by (auto simp: set_step_ids)
      with False entry [OF look] show ?thesis
        by (auto simp: attempt_step_status_snoc attempt_step_index_snoc)
    qed
    then show "t_step_id s = sid" "t_status s = attempt_step_status (seg @ [e]) sid"
      "t_step_index s = attempt_step_index (seg @ [e]) sid" by simp_all
  qed
qed

lemma step_table_of_attempt: "step_table_ok seg (plan_of_attempt seg)"
proof -
  have "step_table_ok seg (foldl plan_entry p seg)" if "pl_steps p = []" "pl_step_order p = []" for p
  proof (induction seg rule: rev_induct)
    case Nil
    with that show ?case by (simp add: step_table_ok_def step_ids_of_def)
  next
    case (snoc e seg)
    then show ?case by (simp add: step_table_ok_entry)
  qed
  then show ?thesis by (simp add: plan_of_attempt_def)
qed

section \<open>Splitting a plan's entries into attempts\<close>

definition opens_attempt :: "run_status \<Rightarrow> event_entry \<Rightarrow> bool" where
  "opens_attempt st e \<longleftrightarrow> st \<in> {Completed, Failed, Cancelled} \<and>
     (e_entry_type e = Operation \<or> plan_entry_kind e = ''WorkPlanStarted'')"

definition add_to_attempts :: "event_entry list list \<Rightarrow> event_entry \<Rightarrow> event_entry list list" where
  "add_to_attempts segs e =
     (if segs = [] \<or> opens_attempt (attempt_status (last segs)) e then segs @ [[e]]
      else butlast segs @ [last segs @ [e]])"

definition attempts :: "event_entry list \<Rightarrow> event_entry list list" where
  "attempts es = foldl add_to_attempts [] es"

definition of_plan :: "string \<Rightarrow> event_entry list \<Rightarrow> event_entry list" where
  "of_plan pid es = filter (\<lambda>e. entry_plan_id e = pid) es"

lemma attempts_snoc: "attempts (es @ [e]) = add_to_attempts (attempts es) e"
  by (simp add: attempts_def)

lemma concat_attempts: "concat (attempts es) = es"
proof (induction es rule: rev_induct)
  case Nil
  then show ?case by (simp add: attempts_def)
next
  case (snoc e es)
  show ?case
  proof (cases "attempts es = []")
    case True
    with snoc have "es = []" by simp
    then show ?thesis by (simp add: attempts_def add_to_attempts_def)
  next
    case False
    have "concat (butlast (attempts es) @ [last (attempts es) @ [e]]) =
        concat (butlast (attempts es) @ [last (attempts es)]) @ [e]" by simp
    then show ?thesis using snoc False by (simp add: attempts_snoc add_to_attempts_def)
  qed
qed

lemma attempts_nonempty: "[] \<notin> set (attempts es)"
proof (induction es rule: rev_induct)
  case Nil
  then show ?case by (simp add: attempts_def)
next
  case (snoc e es)
  then show ?case
    by (auto simp: attempts_snoc add_to_attempts_def dest: in_set_butlastD)
qed

lemma closed_before_last:
  "\<forall>seg \<in> set (butlast (attempts es)). attempt_status seg \<in> {Completed, Failed, Cancelled}"
proof (induction es rule: rev_induct)
  case Nil
  then show ?case by (simp add: attempts_def)
next
  case (snoc e es)
  show ?case
  proof (cases "attempts es = []")
    case True
    then show ?thesis by (simp add: attempts_snoc add_to_attempts_def)
  next
    case False
    have "set (attempts es) = insert (last (attempts es)) (set (butlast (attempts es)))"
      using False by (metis append_butlast_last_id list.simps(15) rotate1.simps(2) set_rotate1)
    with snoc False show ?thesis
      by (auto simp: attempts_snoc add_to_attempts_def opens_attempt_def)
  qed
qed

section \<open>The loop refines the splitting\<close>

definition states_of_plan :: "string \<Rightarrow> plan_state list \<Rightarrow> plan_state list" where
  "states_of_plan pid ps = filter (\<lambda>p. pl_plan_id p = pid) ps"

text \<open>Where the current attempt of a plan is, among the plan identifiers of the state list.\<close>

definition active_position :: "string list \<Rightarrow> string \<Rightarrow> nat option \<Rightarrow> bool" where
  "active_position ids pid a =
     (case a of
        None \<Rightarrow> pid \<notin> set ids
      | Some i \<Rightarrow> i < length ids \<and> ids ! i = pid \<and> pid \<notin> set (drop (Suc i) ids))"

lemma active_position_new: "active_position (ids @ [pid]) pid (Some (length ids))"
  by (simp add: active_position_def)

lemma active_position_other:
  "active_position ids pid a \<Longrightarrow> pid' \<noteq> pid \<Longrightarrow> active_position (ids @ [pid']) pid a"
  by (auto simp: active_position_def nth_append split: option.splits)

definition plan_projector_ok :: "event_entry list \<Rightarrow> plan_projector \<Rightarrow> bool" where
  "plan_projector_ok es q \<longleftrightarrow>
     (\<forall>pid. pid \<noteq> [] \<longrightarrow>
        states_of_plan pid (plan_states q) = map plan_of_attempt (attempts (of_plan pid es)) \<and>
        active_position (map pl_plan_id (plan_states q)) pid (map_of (active_by_plan_id q) pid))"

lemma states_of_plan_Nil: "states_of_plan pid ps = [] \<longleftrightarrow> pid \<notin> set (map pl_plan_id ps)"
  by (auto simp: states_of_plan_def filter_empty_conv)

lemma states_of_plan_simps [simp]:
  "states_of_plan pid [] = []"
  "states_of_plan pid (p # ps) =
     (if pl_plan_id p = pid then p # states_of_plan pid ps else states_of_plan pid ps)"
  "states_of_plan pid (ps @ ps') = states_of_plan pid ps @ states_of_plan pid ps'"
  by (simp_all add: states_of_plan_def)

lemma states_of_plan_at:
  assumes "i < length ps" and "pl_plan_id (ps ! i) = pid"
    and "states_of_plan pid (drop (Suc i) ps) = []"
  shows "states_of_plan pid ps = states_of_plan pid (take i ps) @ [ps ! i]"
proof -
  have "states_of_plan pid ps =
      states_of_plan pid (take i ps @ ps ! i # drop (Suc i) ps)"
    using assms(1) by (simp add: id_take_nth_drop [symmetric])
  with assms show ?thesis by simp
qed

lemma states_of_plan_update:
  assumes "i < length ps" and "pl_plan_id p' = pl_plan_id (ps ! i)"
  shows "states_of_plan pid (ps[i := p']) =
    (if pl_plan_id p' = pid then
       states_of_plan pid (take i ps) @ p' # states_of_plan pid (drop (Suc i) ps)
     else states_of_plan pid ps)"
proof -
  have "ps[i := p'] = take i ps @ p' # drop (Suc i) ps" using assms(1) by (rule upd_conv_take_nth_drop)
  moreover have "states_of_plan pid ps =
      states_of_plan pid (take i ps @ ps ! i # drop (Suc i) ps)"
    using assms(1) by (simp add: id_take_nth_drop [symmetric])
  ultimately show ?thesis using assms(2) by simp
qed

lemma of_plan_snoc: "of_plan pid (es @ [e]) = of_plan pid es @ (if entry_plan_id e = pid then [e] else [])"
  by (simp add: of_plan_def)

lemma starts_new_iff: "starts_new_plan_attempt e (plan_entry_kind e) p \<longleftrightarrow> opens_attempt (pl_status p) e"
  by (simp add: starts_new_plan_attempt_def opens_attempt_def)

lemma plan_update_new: "plan_update e (plan_entry_kind e) (entry_new_plan e) = plan_of_attempt [e]"
  by (simp add: plan_of_attempt_single plan_entry_def)

lemma plan_projector_ok_states:
  "plan_projector_ok es q \<Longrightarrow> pid \<noteq> [] \<Longrightarrow>
     states_of_plan pid (plan_states q) = map plan_of_attempt (attempts (of_plan pid es))"
  by (simp add: plan_projector_ok_def)

lemma plan_projector_ok_empty: "plan_projector_ok [] empty_plan_projector"
  by (simp add: plan_projector_ok_def empty_plan_projector_def attempts_def of_plan_def
      active_position_def)

lemma plan_of_attempt_id: "seg \<noteq> [] \<Longrightarrow> pl_plan_id (plan_of_attempt seg) = entry_plan_id (hd seg)"
  by (simp add: plan_of_attempt_def)

lemma plan_projector_ok_open:
  assumes ok: "plan_projector_ok es q" and pid: "entry_plan_id e \<noteq> []"
    and opens: "attempts (of_plan (entry_plan_id e) es) = [] \<or>
      opens_attempt (attempt_status (last (attempts (of_plan (entry_plan_id e) es)))) e"
  shows "plan_projector_ok (es @ [e])
    \<lparr>plan_states = plan_states q @ [plan_of_attempt [e]],
     active_by_plan_id = AList.update (entry_plan_id e) (length (plan_states q)) (active_by_plan_id q)\<rparr>"
proof -
  have id: "pl_plan_id (plan_of_attempt [e]) = entry_plan_id e" by (simp add: plan_of_attempt_id)
  have added: "attempts (of_plan (entry_plan_id e) es @ [e]) =
      attempts (of_plan (entry_plan_id e) es) @ [[e]]"
    using opens by (simp add: attempts_snoc add_to_attempts_def)
  show ?thesis
    unfolding plan_projector_ok_def
  proof (intro allI impI conjI)
    fix pid :: string assume "pid \<noteq> []"
    with ok show "states_of_plan pid (plan_states
        \<lparr>plan_states = plan_states q @ [plan_of_attempt [e]],
         active_by_plan_id = AList.update (entry_plan_id e) (length (plan_states q)) (active_by_plan_id q)\<rparr>) =
       map plan_of_attempt (attempts (of_plan pid (es @ [e])))"
      by (auto simp: plan_projector_ok_states of_plan_snoc added id)
    show "active_position (map pl_plan_id (plan_states
        \<lparr>plan_states = plan_states q @ [plan_of_attempt [e]],
         active_by_plan_id = AList.update (entry_plan_id e) (length (plan_states q)) (active_by_plan_id q)\<rparr>))
      pid (map_of (active_by_plan_id
        \<lparr>plan_states = plan_states q @ [plan_of_attempt [e]],
         active_by_plan_id = AList.update (entry_plan_id e) (length (plan_states q)) (active_by_plan_id q)\<rparr>) pid)"
      using ok \<open>pid \<noteq> []\<close> active_position_new [of "map pl_plan_id (plan_states q)"]
      by (auto simp: plan_projector_ok_def id intro: active_position_other)
  qed
qed

lemma plan_projector_ok_update:
  assumes ok: "plan_projector_ok es q" and pid: "entry_plan_id e \<noteq> []"
    and active: "map_of (active_by_plan_id q) (entry_plan_id e) = Some i"
    and same: "\<not> opens_attempt (pl_status (plan_states q ! i)) e"
  shows "plan_projector_ok (es @ [e])
    (q\<lparr>plan_states := (plan_states q)[i := plan_entry (plan_states q ! i) e]\<rparr>)"
proof -
  let ?ps = "plan_states q" and ?p = "entry_plan_id e"
  let ?segs = "attempts (of_plan ?p es)"
  have "active_position (map pl_plan_id ?ps) ?p (Some i)"
    using ok pid active by (auto simp: plan_projector_ok_def)
  then have i: "i < length ?ps" "pl_plan_id (?ps ! i) = ?p" "states_of_plan ?p (drop (Suc i) ?ps) = []"
    by (auto simp: active_position_def states_of_plan_Nil drop_map)
  have own: "states_of_plan ?p (take i ?ps) @ [?ps ! i] = map plan_of_attempt ?segs"
    using plan_projector_ok_states [OF ok pid] states_of_plan_at [OF i] by simp
  then have nonempty: "?segs \<noteq> []" by auto
  then have last: "?ps ! i = plan_of_attempt (last ?segs)"
    and front: "states_of_plan ?p (take i ?ps) = map plan_of_attempt (butlast ?segs)"
    using own by (metis last_map last_snoc, metis butlast_snoc map_butlast own)
  have "last ?segs \<noteq> []" using attempts_nonempty nonempty by (metis last_in_set)
  then have step: "plan_of_attempt (last ?segs @ [e]) = plan_entry (?ps ! i) e"
    by (simp add: plan_of_attempt_snoc last)
  have "attempts (of_plan ?p es @ [e]) = butlast ?segs @ [last ?segs @ [e]]"
    using same nonempty by (simp add: attempts_snoc add_to_attempts_def last plan_of_attempt_status)
  then have own': "states_of_plan ?p (?ps[i := plan_entry (?ps ! i) e]) =
      map plan_of_attempt (attempts (of_plan ?p (es @ [e])))"
    using i front step by (simp add: of_plan_snoc states_of_plan_update)
  have ids: "map pl_plan_id (?ps[i := plan_entry (?ps ! i) e]) = map pl_plan_id ?ps"
    using i(1) by (simp add: map_update list_update_same_conv)
  show ?thesis
    unfolding plan_projector_ok_def
  proof (intro allI impI conjI)
    fix pid :: string assume "pid \<noteq> []"
    with ok own' i show "states_of_plan pid (plan_states (q\<lparr>plan_states := ?ps[i := plan_entry (?ps ! i) e]\<rparr>)) =
        map plan_of_attempt (attempts (of_plan pid (es @ [e])))"
      by (cases "pid = ?p") (auto simp: of_plan_snoc states_of_plan_update plan_projector_ok_states)
    show "active_position (map pl_plan_id
        (plan_states (q\<lparr>plan_states := ?ps[i := plan_entry (?ps ! i) e]\<rparr>))) pid
        (map_of (active_by_plan_id (q\<lparr>plan_states := ?ps[i := plan_entry (?ps ! i) e]\<rparr>)) pid)"
      using ok \<open>pid \<noteq> []\<close> by (simp add: ids plan_projector_ok_def)
  qed
qed

lemma plan_projector_ok_step:
  assumes ok: "plan_projector_ok es q"
  shows "plan_projector_ok (es @ [e]) (plan_projector_step q e)"
proof (cases "entry_plan_id e = []")
  case True
  with ok show ?thesis
    by (auto simp: plan_projector_step_def plan_projector_ok_def of_plan_snoc)
next
  case False
  let ?segs = "attempts (of_plan (entry_plan_id e) es)"
  have states: "states_of_plan (entry_plan_id e) (plan_states q) = map plan_of_attempt ?segs"
    and pos: "active_position (map pl_plan_id (plan_states q)) (entry_plan_id e)
      (map_of (active_by_plan_id q) (entry_plan_id e))"
    using ok False by (auto simp: plan_projector_ok_def)
  show ?thesis
  proof (cases "map_of (active_by_plan_id q) (entry_plan_id e)")
    case None
    then have "states_of_plan (entry_plan_id e) (plan_states q) = []"
      using pos unfolding states_of_plan_Nil by (simp add: active_position_def)
    then have "?segs = []" using states by simp
    with plan_projector_ok_open [OF ok False] None False show ?thesis
      by (simp add: plan_projector_step_def Let_def plan_update_new)
  next
    case (Some i)
    then have i: "i < length (plan_states q)" "pl_plan_id (plan_states q ! i) = entry_plan_id e"
      "states_of_plan (entry_plan_id e) (drop (Suc i) (plan_states q)) = []"
      using pos by (auto simp: active_position_def states_of_plan_Nil drop_map)
    then have own: "map plan_of_attempt ?segs =
        states_of_plan (entry_plan_id e) (take i (plan_states q)) @ [plan_states q ! i]"
      using states states_of_plan_at [OF i] by simp
    then have "?segs \<noteq> []" by auto
    moreover have "last (map plan_of_attempt ?segs) = plan_states q ! i" unfolding own by simp
    ultimately have last: "plan_of_attempt (last ?segs) = plan_states q ! i" by (simp add: last_map)
    then have status: "pl_status (plan_states q ! i) = attempt_status (last ?segs)"
      by (simp flip: plan_of_attempt_status)
    show ?thesis
    proof (cases "opens_attempt (attempt_status (last ?segs)) e")
      case True
      with plan_projector_ok_open [OF ok False] Some False status show ?thesis
        by (simp add: plan_projector_step_def Let_def plan_update_new starts_new_iff)
    next
      case False
      with plan_projector_ok_update [OF ok \<open>entry_plan_id e \<noteq> []\<close> Some] Some status
        \<open>entry_plan_id e \<noteq> []\<close> show ?thesis
        by (simp add: plan_projector_step_def Let_def starts_new_iff plan_entry_def)
    qed
  qed
qed

lemma plan_projector_run:
  "plan_projector_ok es (foldl plan_projector_step empty_plan_projector es)"
proof (induction es rule: rev_induct)
  case Nil
  then show ?case by (simp add: plan_projector_ok_empty)
next
  case (snoc e es)
  then show ?case by (simp add: plan_projector_ok_step)
qed

section \<open>Properties\<close>

lemma to_plan_run_fields [simp]:
  "wp_plan_id (to_plan_run p) = pl_plan_id p" "wp_status (to_plan_run p) = pl_status p"
  by (simp_all add: to_plan_run_def Let_def)

lemma plan_runs_by_plan:
  "pid \<noteq> [] \<Longrightarrow> filter (\<lambda>r. wp_plan_id r = pid) (project_work_plan_runs es) =
     map (to_plan_run \<circ> plan_of_attempt) (attempts (of_plan pid es))"
  using plan_projector_ok_states [OF plan_projector_run, of pid es]
  by (simp add: project_work_plan_runs_def filter_map comp_def states_of_plan_def)

definition plan_event :: "string \<Rightarrow> string \<Rightarrow> int \<Rightarrow> string \<Rightarrow> event_entry" where
  "plan_event pid sid n kind = (sample_entry ''o'' ''r'' n)\<lparr>e_payload :=
     [(''kind'', JStr kind), (''plan_id'', JStr pid), (''step_id'', JStr sid)]\<rparr>"

text \<open>
  Property C6. The runs reported for a plan are exactly the attempts its own entries split into,
  in order: each is the state built from that attempt's entries alone, whatever other plans were
  recorded in between, and the attempts together hold every entry of the plan once, in order.
\<close>

theorem plan_runs_are_attempts:
  assumes "pid \<noteq> []"
  shows "filter (\<lambda>r. wp_plan_id r = pid) (project_work_plan_runs es) =
      map (to_plan_run \<circ> plan_of_attempt) (attempts (of_plan pid es)) \<and>
    concat (attempts (of_plan pid es)) = of_plan pid es"
  using plan_runs_by_plan [OF assms] concat_attempts by simp

theorem plan_runs_are_attempts_witness:
  "map (to_plan_run \<circ> plan_of_attempt) (attempts (of_plan ''p''
      [plan_event ''p'' ''s1'' 1 ''WorkStepStarted'', plan_event ''q'' ''s1'' 2 ''WorkPlanCompleted'']))
    = filter (\<lambda>r. wp_plan_id r = ''p'') (project_work_plan_runs
      [plan_event ''p'' ''s1'' 1 ''WorkStepStarted'', plan_event ''q'' ''s1'' 2 ''WorkPlanCompleted''])"
  using plan_runs_are_attempts [of "''p''"] by simp

text \<open>
  An attempt's status is that of its last entry whose kind sets one, or running
  once an event was recorded, or accepted; a new attempt at a plan opens only after the previous
  one has ended, so of all runs reported for a plan only the last can be unfinished.
\<close>

theorem only_last_attempt_unfinished:
  assumes "pid \<noteq> []"
  shows "map wp_status (filter (\<lambda>r. wp_plan_id r = pid) (project_work_plan_runs es)) =
      map attempt_status (attempts (of_plan pid es)) \<and>
    list_all (\<lambda>r. final_status (wp_status r))
      (butlast (filter (\<lambda>r. wp_plan_id r = pid) (project_work_plan_runs es)))"
proof -
  let ?segs = "attempts (of_plan pid es)"
  have "list_all (\<lambda>seg. final_status (attempt_status seg)) (butlast ?segs)"
    using closed_before_last [of "of_plan pid es"] by (simp add: list_all_iff final_status_def)
  then show ?thesis
    unfolding plan_runs_by_plan [OF assms] map_butlast [symmetric]
    by (simp add: list.pred_map comp_def plan_of_attempt_status)
qed

theorem only_last_attempt_unfinished_witness:
  "list_all (\<lambda>r. final_status (wp_status r)) (butlast (filter (\<lambda>r. wp_plan_id r = ''p'')
     (project_work_plan_runs [plan_event ''p'' [] 1 ''WorkPlanCompleted'',
        plan_event ''p'' [] 2 ''WorkPlanStarted''])))"
  using only_last_attempt_unfinished [of "''p''"] by simp

text \<open>The order of the steps of an attempt.\<close>

definition step_before :: "event_entry list \<Rightarrow> string \<Rightarrow> string \<Rightarrow> bool" where
  "step_before seg a b \<longleftrightarrow>
     (case (attempt_step_index seg a, attempt_step_index seg b) of
        (Some i, Some j) \<Rightarrow> i < j \<or> i = j \<and> position_of a (step_ids_of seg) \<le> position_of b (step_ids_of seg)
      | (Some _, None) \<Rightarrow> True
      | (None, Some _) \<Rightarrow> False
      | (None, None) \<Rightarrow> position_of a (step_ids_of seg) \<le> position_of b (step_ids_of seg))"

lemma step_state_of_attempt:
  assumes "sid \<in> set (step_ids_of seg)"
  shows "\<exists>s. map_of (pl_steps (plan_of_attempt seg)) sid = Some s \<and> t_step_id s = sid \<and>
    t_status s = attempt_step_status seg sid \<and> t_step_index s = attempt_step_index seg sid"
proof -
  have ok: "step_table_ok seg (plan_of_attempt seg)" by (rule step_table_of_attempt)
  then have "sid \<in> set (keys (pl_steps (plan_of_attempt seg)))"
    using assms by (auto simp: step_table_ok_def)
  then obtain s where s: "map_of (pl_steps (plan_of_attempt seg)) sid = Some s"
    by (metis map_of_None_keys not_None_eq)
  with ok show ?thesis by (auto simp: step_table_ok_def)
qed

lemma step_order_of_attempt: "pl_step_order (plan_of_attempt seg) = step_ids_of seg"
  using step_table_of_attempt [of seg] by (simp add: step_table_ok_def)

lemma step_sort_key_le:
  assumes "a \<in> set (step_ids_of seg)" and "b \<in> set (step_ids_of seg)"
  shows "step_sort_key (plan_of_attempt seg) a \<le> step_sort_key (plan_of_attempt seg) b \<longleftrightarrow>
    step_before seg a b"
  using step_state_of_attempt [OF assms(1)] step_state_of_attempt [OF assms(2)]
  by (auto simp: step_sort_key_def step_before_def less_eq_step_key_def Let_def step_order_of_attempt
      split: option.split)

lemma set_ordered_step_ids [simp]: "set (ordered_step_ids p) = set (pl_step_order p)"
  by (simp add: ordered_step_ids_def)

lemma steps_of_attempt:
  "map ws_step_id (wp_steps (to_plan_run (plan_of_attempt seg))) = ordered_step_ids (plan_of_attempt seg)"
  "map ws_status (wp_steps (to_plan_run (plan_of_attempt seg))) =
     map (attempt_step_status seg) (ordered_step_ids (plan_of_attempt seg))"
  by (auto simp: to_plan_run_def Let_def to_step_run_def step_order_of_attempt
      dest!: step_state_of_attempt intro!: map_idI)

lemma length_filter_status:
  "map ws_status steps = map st ids \<Longrightarrow> distinct ids \<Longrightarrow>
     length (filter (\<lambda>s. ws_status s = x) steps) = card {sid \<in> set ids. st sid = x}"
proof -
  assume "map ws_status steps = map st ids" and distinct: "distinct ids"
  then have "length (filter (\<lambda>y. y = x) (map ws_status steps)) =
      length (filter (\<lambda>y. y = x) (map st ids))" by simp
  then have "length (filter (\<lambda>s. ws_status s = x) steps) = length (filter (\<lambda>sid. st sid = x) ids)"
    by (simp add: filter_map comp_def)
  also have "\<dots> = card (set (filter (\<lambda>sid. st sid = x) ids))"
    using distinct by (simp only: distinct_card distinct_filter)
  finally show ?thesis by simp
qed

text \<open>
  A plan run lists each step its attempt's entries name once, the indexed steps
  first in index order, the others after them in order of appearance; each step has the status
  its own entries reach, and the counts are the numbers of all, completed and failed steps.
\<close>

theorem plan_run_steps:
  "let run = to_plan_run (plan_of_attempt seg); ids = map ws_step_id (wp_steps run) in
     distinct ids \<and> set ids = step_id_of ` set seg - {[]} \<and> sorted_wrt (step_before seg) ids \<and>
     map ws_status (wp_steps run) = map (attempt_step_status seg) ids \<and>
     wp_step_count run = card (step_id_of ` set seg - {[]}) \<and>
     wp_completed_step_count run = card {sid \<in> set ids. attempt_step_status seg sid = Step_Completed} \<and>
     wp_failed_step_count run = card {sid \<in> set ids. attempt_step_status seg sid = Step_Failed}"
proof -
  let ?p = "plan_of_attempt seg" and ?ids = "ordered_step_ids (plan_of_attempt seg)"
  have distinct: "distinct ?ids" by (simp add: ordered_step_ids_def step_order_of_attempt)
  have set: "set ?ids = step_id_of ` set seg - {[]}" by (simp add: step_order_of_attempt set_step_ids)
  have "sorted_wrt (\<lambda>a b. step_sort_key ?p a \<le> step_sort_key ?p b) ?ids"
    using sorted_sort_key [of "step_sort_key ?p" "pl_step_order ?p"]
    unfolding ordered_step_ids_def by (simp add: sorted_map)
  then have sorted: "sorted_wrt (step_before seg) ?ids"
    by (rule sorted_wrt_mono_rel [rotated]) (simp add: step_sort_key_le step_order_of_attempt)
  have "wp_step_count (to_plan_run ?p) = length ?ids"
    by (simp add: to_plan_run_def Let_def)
  then have count: "wp_step_count (to_plan_run ?p) = card (step_id_of ` set seg - {[]})"
    using distinct_card [OF distinct] set by simp
  have counts: "wp_completed_step_count (to_plan_run ?p) =
      length (filter (\<lambda>s. ws_status s = Step_Completed) (wp_steps (to_plan_run ?p)))"
    "wp_failed_step_count (to_plan_run ?p) =
      length (filter (\<lambda>s. ws_status s = Step_Failed) (wp_steps (to_plan_run ?p)))"
    by (simp_all add: to_plan_run_def Let_def)
  show ?thesis
    unfolding Let_def steps_of_attempt counts length_filter_status [OF steps_of_attempt(2) distinct]
    using distinct set sorted count by blast
qed

end
