(* ===== verification/Work_Run.thy ===== *)
theory Work_Run
  imports Actions Recording Cancellation_Projection Plan_Projection
begin

text \<open>
  One run of the Work runtime (\<open>harnesswork/runtime.py\<close>): the run state, the methods that write
  its lifecycle to the event log, and the sections of \<open>_execute\<close>, \<open>cancel\<close> and
  \<open>_drive_domain_cancellation\<close> between their suspensions.

  A method works on the part of the runtime it shares with the other runs (\<open>shared\<close>) and on the
  run state. The event log is the in-memory state of \<open>Event_Log\<close>; \<open>sh_faults\<close> says which of the
  next appends raise before they store the entry. Listeners are represented by the events they
  are handed; their exceptions are suppressed by the code. A cancellation outcome is a Python
  object that the code recognises by identity, so it carries one.
\<close>

section \<open>Data\<close>

record step_spec =
  ss_step_id :: string
  ss_payload :: payload

record run_spec =
  sp_run_id :: "string option"
  sp_method_id :: "string option"
  sp_plan_id :: "string option"
  sp_step_id :: "string option"
  sp_run_event_payload :: payload
  sp_scope_event_payload :: payload
  sp_steps :: "step_spec list"
  sp_recording_policy :: "bool option"

record work_operation =
  wo_operation_id :: string
  wo_kind :: string
  wo_session_id :: "string option"
  wo_domain :: string
  wo_payload :: payload
  wo_source :: payload

record event_fact =
  ft_kind :: string
  ft_payload :: payload
  ft_delivery_hint :: string
  ft_source_event_ref :: "string option"

record work_event =
  v_event_id :: string
  v_kind :: string
  v_run_id :: string
  v_session_id :: string
  v_domain :: string
  v_operation_id :: string
  v_sequence :: int
  v_created_at :: nat
  v_delivery_hint :: string
  v_payload :: payload
  v_source_event_ref :: "string option"

datatype runtime_error =
    DuplicateOperation string
  | DuplicateRun string
  | UnknownRun string
  | RunTerminal string
  | LifecycleOwnership string
  | StepNotEnded
  | CancellationFailed string
  | CancellationTimeout string
  | ObservationUnavailable
  | ContradictoryTerminal cancellation_error
  | AppendFailed string
  | DomainError string
  | ExecutionCancelled
  | InvalidSpec string
  | PolicyRefused policy_error
  | ReplayRefused replay_error
  | UnreadableCancellation cancellation_error
  | UnreadableRecording recording_error
  | UnknownOutcome nat

text \<open>
  The error of a failed outcome: an \<open>Exception\<close>, or another \<open>BaseException\<close> with its type name.
\<close>

datatype raised = Ordinary runtime_error | Interrupt string string

record outcome =
  oc_identity :: nat
  oc_status :: string
  oc_error :: "raised option"

text \<open>
  Where a task is. \<open>Executing k\<close> awaits \<open>executor.execute\<close> for step \<open>k\<close> (0 without steps),
  \<open>Settling c\<close> awaits the cancellation task, in the handler of a cancellation when \<open>c\<close>.
\<close>

datatype exec_task = Created | Executing nat | Settling bool | Finished

datatype cancel_task = Driving | Driven outcome

record run_state =
  rs_operation :: work_operation
  rs_spec :: run_spec
  rs_run :: work_run
  rs_has_cancellation :: bool
  rs_recording_contract :: "recording_contract option"
  rs_sequence :: nat
  rs_task :: exec_task
  rs_cancellation_task :: "cancel_task option"
  rs_cancellation_outcome :: "outcome option"
  rs_cancellation_requested :: bool
  rs_cancellation_report :: "string option"
  rs_cancellation_sources :: "(nat \<times> outcome \<times> string) list"
  rs_cancellation_resolution :: "(string \<times> string) option"
  rs_cancellation_record :: "cancellation_record option"
  rs_confirmed_sequence :: nat
  rs_confirmed_event_id :: "string option"
  rs_error :: "runtime_error option"
  rs_terminal :: bool
  rs_current_step :: "step_spec option"
  rs_current_step_index :: "nat option"
  rs_step_active :: bool
  rs_next_outcome :: nat

record shared =
  sh_log :: event_log
  sh_recording :: "recording_observer option"
  sh_unavailable :: bool
  sh_clock :: nat
  sh_faults :: "bool list"
  sh_published :: "work_event list"

type_synonym 'a run_action = "(shared \<times> run_state, runtime_error, 'a) action"

abbreviation on_run :: "(run_state \<Rightarrow> run_state) \<Rightarrow> unit run_action" where
  "on_run f \<equiv> change (\<lambda>(sh, st). (sh, f st))"

abbreviation run_status_of :: "shared \<times> run_state \<Rightarrow> run_status" where
  "run_status_of s \<equiv> r_status (rs_run (snd s))"

definition set_status :: "run_status \<Rightarrow> run_state \<Rightarrow> run_state" where
  "set_status status st = st\<lparr>rs_run := (rs_run st)\<lparr>r_status := status\<rparr>\<rparr>"

section \<open>Texts\<close>

fun cancellation_error_text :: "cancellation_error \<Rightarrow> string" where
  "cancellation_error_text OwnerNotAnObject = ''operation owner metadata must be an object''"
| "cancellation_error_text InvalidObservationVersion = ''invalid cancellation observation version''"
| "cancellation_error_text TerminalNotAnObject = ''terminal cancellation must be an object''"
| "cancellation_error_text TerminalVersion = ''terminal cancellation version must be 1''"
| "cancellation_error_text FieldsMissing = ''terminal cancellation fields are missing''"
| "cancellation_error_text InvalidFieldTypes = ''invalid cancellation field types''"
| "cancellation_error_text _ = ''cancellation contradicts terminal lifecycle''"

text \<open>\<open>str(error)\<close> for the exceptions an execution can end with.\<close>

fun error_text :: "runtime_error \<Rightarrow> string" where
  "error_text (RunTerminal m) = m"
| "error_text (LifecycleOwnership kind) =
     ''domain executor cannot publish Work lifecycle event: '' @ kind"
| "error_text StepNotEnded = ''cannot start a Work step before the prior step ends''"
| "error_text (CancellationFailed m) = m"
| "error_text (CancellationTimeout m) = m"
| "error_text (ContradictoryTerminal e) = cancellation_error_text e"
| "error_text (AppendFailed m) = m"
| "error_text (DomainError m) = m"
| "error_text _ = []"

definition cancellation_failure :: "outcome \<Rightarrow> runtime_error" where
  "cancellation_failure oc =
     (case oc_error oc of
        Some (Ordinary e) \<Rightarrow> e
      | Some (Interrupt name m) \<Rightarrow>
          CancellationFailed (''domain cancellation failed: '' @ name @ '': '' @ m)
      | None \<Rightarrow> CancellationFailed ''domain cancellation failed'')"

section \<open>Payloads\<close>

text \<open>\<open>if v is not None: d[k] = v\<close>.\<close>

definition put :: "string \<Rightarrow> json option \<Rightarrow> payload \<Rightarrow> payload" where
  "put k v d = (case v of None \<Rightarrow> d | Some x \<Rightarrow> AList.update k x d)"

definition lifecycle_payload :: "run_state \<Rightarrow> payload \<Rightarrow> payload" where
  "lifecycle_payload st d =
     put ''step_id'' (map_option JStr (r_current_step_id (rs_run st)))
       (put ''plan_id'' (map_option JStr (r_plan_id (rs_run st)))
         (put ''method_id'' (map_option JStr (r_method_id (rs_run st))) d))"

definition step_payload :: "run_state \<Rightarrow> step_spec \<Rightarrow> payload" where
  "step_payload st step =
     (let result = dict_merge (sp_scope_event_payload (rs_spec st)) (ss_payload step)
      in case rs_current_step_index st of
           None \<Rightarrow> result
         | Some i \<Rightarrow> if map_of result ''step_index'' = None
                    then AList.update ''step_index'' (JInt (int i)) result else result)"

definition current_scope_payload :: "run_state \<Rightarrow> payload" where
  "current_scope_payload st =
     (case rs_current_step st of
        Some step \<Rightarrow> step_payload st step
      | None \<Rightarrow> sp_scope_event_payload (rs_spec st))"

definition spec_steps :: "run_spec \<Rightarrow> step_spec list" where
  "spec_steps spec =
     (if sp_steps spec \<noteq> [] then sp_steps spec
      else (case sp_step_id spec of
              None \<Rightarrow> []
            | Some sid \<Rightarrow> [\<lparr>ss_step_id = sid, ss_payload = sp_scope_event_payload spec\<rparr>]))"

section \<open>Appending\<close>

definition optional_json :: "string option \<Rightarrow> json" where
  "optional_json s = (case s of None \<Rightarrow> JNull | Some t \<Rightarrow> JStr t)"

definition new_event ::
  "run_state \<Rightarrow> nat \<Rightarrow> string \<Rightarrow> payload \<Rightarrow> string \<Rightarrow> string option \<Rightarrow> work_event" where
  "new_event st now kind d hint ref =
     (let run = rs_run st in
      \<lparr>v_event_id = r_run_id run @ ''-event-'' @ decimal (rs_sequence st), v_kind = kind,
       v_run_id = r_run_id run, v_session_id = r_session_id run, v_domain = r_domain run,
       v_operation_id = r_operation_id run, v_sequence = int (rs_sequence st),
       v_created_at = now, v_delivery_hint = hint, v_payload = d, v_source_event_ref = ref\<rparr>)"

definition event_log_entry :: "work_event \<Rightarrow> event_entry" where
  "event_log_entry v =
     \<lparr>e_entry_id = v_run_id v @ ''-entry-'' @ decimal (nat (v_sequence v)), e_entry_type = Event,
      e_operation_id = v_operation_id v, e_event_id = Some (v_event_id v), e_run_id = v_run_id v,
      e_session_id = v_session_id v, e_sequence = v_sequence v,
      e_payload =
        [(''kind'', JStr (v_kind v)), (''delivery_hint'', JStr (v_delivery_hint v)),
         (''payload'', JObj (v_payload v)),
         (''source_event_ref'', optional_json (v_source_event_ref v))],
      e_created_at = v_created_at v\<rparr>"

definition terminal_entry :: "run_state \<Rightarrow> event_entry \<Rightarrow> event_entry" where
  "terminal_entry st entry =
     (let (status, reason) =
        (case rs_cancellation_resolution st of None \<Rightarrow> (''not_requested'', ''none'') | Some r \<Rightarrow> r);
          shown = (if reason \<in> {''executor_interrupted'', ''cancellation_not_driven''}
                     then ''unknown'' else status)
      in entry\<lparr>e_payload := AList.update ''_harnesswork''
           (JObj [(''cancellation'', JObj
              [(''version'', JInt 1), (''status'', JStr shown), (''reason_code'', JStr reason),
               (''reported_status'', optional_json (rs_cancellation_report st))])])
           (e_payload entry)\<rparr>)"

definition append_entry :: "event_entry \<Rightarrow> (shared, runtime_error, unit) action" where
  "append_entry entry sh =
     (let sh' = sh\<lparr>sh_faults := drop 1 (sh_faults sh)\<rparr> in
      if sh_faults sh \<noteq> [] \<and> hd (sh_faults sh) then
        (Inl (AppendFailed ''append failed''),
         sh'\<lparr>sh_unavailable := True, sh_recording := map_option invalidate (sh_recording sh)\<rparr>)
      else
        (Inr (),
         sh'\<lparr>sh_log := snd (append_stored (sh_log sh) entry),
             sh_recording := map_option (\<lambda>ob.
               case observe Acknowledged ob entry of Inl _ \<Rightarrow> invalidate ob | Inr ob' \<Rightarrow> ob')
               (sh_recording sh)\<rparr>))"

definition operation_entry :: "run_state \<Rightarrow> nat \<Rightarrow> event_entry" where
  "operation_entry st now =
     (let op = rs_operation st;
          metadata = (''cancellation_observation_version'', JInt 1) #
            (case rs_recording_contract st of
               None \<Rightarrow> [] | Some c \<Rightarrow> [(''recording'', JObj (encode_contract c))])
      in \<lparr>e_entry_id = r_run_id (rs_run st) @ ''-operation-0'', e_entry_type = Operation,
          e_operation_id = wo_operation_id op, e_event_id = None,
          e_run_id = r_run_id (rs_run st),
          e_session_id = (case wo_session_id op of None \<Rightarrow> [] | Some s \<Rightarrow> s), e_sequence = 0,
          e_payload =
            [(''kind'', JStr (wo_kind op)), (''domain'', JStr (wo_domain op)),
             (''payload'', JObj (wo_payload op)), (''_harnesswork'', JObj metadata)],
          e_created_at = now\<rparr>)"

definition append_operation :: "unit run_action" where
  "append_operation s =
     (case s of (sh, st) \<Rightarrow>
        (case append_entry (operation_entry st (sh_clock sh)) (sh\<lparr>sh_clock := sh_clock sh + 1\<rparr>) of
           (r, sh') \<Rightarrow> (r, (sh', st))))"

text \<open>What the code records once the append has returned.\<close>

definition confirm_event ::
  "bool \<Rightarrow> work_event \<Rightarrow> cancellation_record option \<Rightarrow> run_state \<Rightarrow> run_state" where
  "confirm_event terminal event rec st =
     (let st' = st\<lparr>rs_confirmed_sequence := rs_sequence st,
                   rs_confirmed_event_id := Some (v_event_id event)\<rparr>
      in if terminal
         then st'\<lparr>rs_terminal := True, rs_cancellation_record := rec, rs_cancellation_sources := []\<rparr>
         else st')"

definition terminal_record ::
  "bool \<Rightarrow> run_state \<Rightarrow> event_entry \<Rightarrow> cancellation_error + cancellation_record option" where
  "terminal_record terminal st entry =
     (if terminal then
        (case decode_terminal entry (rs_cancellation_resolution st \<noteq> None) of
           Inl err \<Rightarrow> Inl err | Inr rec \<Rightarrow> Inr (Some rec))
      else Inr None)"

definition append_event ::
  "string \<Rightarrow> payload \<Rightarrow> string \<Rightarrow> string option \<Rightarrow> bool \<Rightarrow> work_event run_action" where
  "append_event kind d hint ref terminal s =
     (case s of (sh0, st0) \<Rightarrow>
        (let st = st0\<lparr>rs_sequence := rs_sequence st0 + 1\<rparr>;
             sh = sh0\<lparr>sh_clock := sh_clock sh0 + 1\<rparr>;
             event = new_event st (sh_clock sh0) kind d hint ref;
             entry = (if terminal then terminal_entry st (event_log_entry event)
                      else event_log_entry event)
         in case terminal_record terminal st entry of
              Inl err \<Rightarrow> (Inl (ContradictoryTerminal err), (sh, st))
            | Inr rec \<Rightarrow>
                (case append_entry entry sh of
                   (Inl e, sh') \<Rightarrow> (Inl e, (sh', st))
                 | (Inr _, sh') \<Rightarrow>
                     (Inr event, (sh'\<lparr>sh_published := sh_published sh' @ [event]\<rparr>,
                        confirm_event terminal event rec st)))))"

definition lifecycle_event_kinds :: "string list" where
  "lifecycle_event_kinds =
     [''WorkRunStarted'', ''WorkRunCancelling'', ''WorkRunCompleted'', ''WorkRunFailed'',
      ''WorkRunCancelled'', ''WorkPlanStarted'', ''WorkPlanCompleted'', ''WorkPlanFailed'',
      ''WorkPlanCancelled'', ''WorkStepStarted'', ''WorkStepCompleted'', ''WorkStepFailed'',
      ''WorkStepCancelled'']"

definition refuse_terminal :: "string \<Rightarrow> unit run_action" where
  "refuse_terminal message s =
     (if rs_terminal (snd s) then (Inl (RunTerminal (message @ '': '' @ r_run_id (rs_run (snd s)))), s)
      else (Inr (), s))"

definition publish_domain_fact :: "event_fact \<Rightarrow> work_event run_action" where
  "publish_domain_fact ft =
     chain (unless_raise (\<lambda>_. ft_kind ft \<notin> set lifecycle_event_kinds) (LifecycleOwnership (ft_kind ft)))
       (\<lambda>_. chain (refuse_terminal ''cannot publish event after terminal run'')
         (\<lambda>_. append_event (ft_kind ft) (ft_payload ft) (ft_delivery_hint ft)
            (ft_source_event_ref ft) False))"

definition publish_lifecycle :: "string \<Rightarrow> (run_state \<Rightarrow> payload) \<Rightarrow> string \<Rightarrow> unit run_action" where
  "publish_lifecycle kind d hint =
     chain (refuse_terminal ''cannot publish lifecycle after terminal run'')
       (\<lambda>_. reading (\<lambda>(sh, st).
         discard (append_event kind (lifecycle_payload st (d st)) hint None False)))"

definition publish_terminal :: "string \<Rightarrow> unit run_action" where
  "publish_terminal kind =
     chain (refuse_terminal ''terminal event already published'')
       (\<lambda>_. reading (\<lambda>(sh, st). discard (append_event kind
          (lifecycle_payload st (sp_run_event_payload (rs_spec st))) ''immediate'' None True)))"

section \<open>Lifecycle methods\<close>

definition has_plan :: "shared \<times> run_state \<Rightarrow> bool" where
  "has_plan s \<longleftrightarrow> sp_plan_id (rs_spec (snd s)) \<noteq> None"

definition run_payload :: "run_state \<Rightarrow> payload" where
  "run_payload st = sp_run_event_payload (rs_spec st)"

definition scope_payload :: "run_state \<Rightarrow> payload" where
  "scope_payload st = sp_scope_event_payload (rs_spec st)"

definition start :: "unit run_action" where
  "start = whenever (\<lambda>s. run_status_of s = Accepted) (block
     [on_run (set_status Running),
      publish_lifecycle ''WorkRunStarted'' run_payload ''immediate'',
      whenever has_plan (publish_lifecycle ''WorkPlanStarted'' scope_payload ''coalesce'')])"

definition start_step :: "step_spec \<Rightarrow> nat \<Rightarrow> unit run_action" where
  "start_step step index = reading (\<lambda>(sh, st).
     if rs_step_active st then
       (if rs_current_step st = Some step \<and> rs_current_step_index st = Some index then pass
        else throw StepNotEnded)
     else block
       [on_run (\<lambda>st. st\<lparr>rs_current_step := Some step, rs_current_step_index := Some index,
          rs_step_active := True,
          rs_run := (rs_run st)\<lparr>r_current_step_id := Some (ss_step_id step)\<rparr>\<rparr>),
        publish_lifecycle ''WorkStepStarted'' (\<lambda>st. step_payload st step) ''coalesce''])"

definition activate_first_step :: "unit run_action" where
  "activate_first_step = reading (\<lambda>(sh, st).
     case spec_steps (rs_spec st) of
       [] \<Rightarrow> pass
     | step # _ \<Rightarrow> if rs_step_active st then pass else start_step step 0)"

definition complete_step :: "unit run_action" where
  "complete_step = reading (\<lambda>(sh, st).
     case rs_current_step st of
       None \<Rightarrow> pass
     | Some step \<Rightarrow>
         if \<not> rs_step_active st then pass
         else block
           [publish_lifecycle ''WorkStepCompleted'' (\<lambda>st. step_payload st step) ''coalesce'',
            on_run (\<lambda>st. st\<lparr>rs_step_active := False\<rparr>)])"

definition begin_cancelling :: "unit run_action" where
  "begin_cancelling = whenever (\<lambda>s. run_status_of s = Running) (block
     [on_run (set_status Cancelling),
      publish_lifecycle ''WorkRunCancelling'' run_payload ''immediate''])"

definition finish_completed :: "unit run_action" where
  "finish_completed = block
     [whenever has_plan (publish_lifecycle ''WorkPlanCompleted'' scope_payload ''final_only''),
      on_run (set_status Completed),
      publish_terminal ''WorkRunCompleted'']"

text \<open>\<open>state.run = terminal_run\<close>: the run as it was when the method began, with its final status.\<close>

definition finish_failed :: "runtime_error \<Rightarrow> unit run_action" where
  "finish_failed error = reading (\<lambda>(sh, st0).
     let failure = dict_merge (current_scope_payload st0) [(''error'', JStr (error_text error))] in
     block
       [on_run (\<lambda>st. st\<lparr>rs_error := Some error\<rparr>),
        whenever (\<lambda>s. rs_step_active (snd s)) (block
          [publish_lifecycle ''WorkStepFailed'' (\<lambda>_. failure) ''immediate'',
           on_run (\<lambda>st. st\<lparr>rs_step_active := False\<rparr>)]),
        whenever has_plan (publish_lifecycle ''WorkPlanFailed'' (\<lambda>_. failure) ''immediate''),
        on_run (set_status Failed),
        publish_terminal ''WorkRunFailed''])"

definition finish_cancelled :: "unit run_action" where
  "finish_cancelled = whenever (\<lambda>s. \<not> rs_terminal (snd s)) (block
     [on_run (\<lambda>st. st\<lparr>rs_error := Some ExecutionCancelled\<rparr>),
      whenever (\<lambda>s. rs_step_active (snd s)) (block
        [publish_lifecycle ''WorkStepCancelled'' current_scope_payload ''immediate'',
         on_run (\<lambda>st. st\<lparr>rs_step_active := False\<rparr>)]),
      whenever has_plan (publish_lifecycle ''WorkPlanCancelled'' current_scope_payload ''immediate''),
      on_run (set_status Cancelled),
      publish_terminal ''WorkRunCancelled''])"

section \<open>Cancellation outcomes\<close>

definition new_outcome ::
  "string \<Rightarrow> raised option \<Rightarrow> run_state \<Rightarrow> outcome \<times> run_state" where
  "new_outcome status error st =
     (\<lparr>oc_identity = rs_next_outcome st, oc_status = status, oc_error = error\<rparr>,
      st\<lparr>rs_next_outcome := rs_next_outcome st + 1\<rparr>)"

definition observe_outcome :: "outcome \<Rightarrow> string \<Rightarrow> run_state \<Rightarrow> run_state" where
  "observe_outcome oc reason st =
     (if rs_terminal st then st
      else st\<lparr>rs_cancellation_sources :=
        AList.update (oc_identity oc) (oc, reason) (rs_cancellation_sources st)\<rparr>)"

definition set_outcome :: "outcome \<Rightarrow> run_state \<Rightarrow> run_state" where
  "set_outcome oc st = st\<lparr>rs_cancellation_outcome := Some oc\<rparr>"

definition finish_cancellation_outcome :: "outcome \<Rightarrow> unit run_action" where
  "finish_cancellation_outcome oc = whenever (\<lambda>s. \<not> rs_terminal (snd s)) (reading (\<lambda>(sh, st).
     case map_of (rs_cancellation_sources st) (oc_identity oc) of
       None \<Rightarrow> throw (UnknownOutcome (oc_identity oc))
     | Some (_, reason) \<Rightarrow> block
         [on_run (\<lambda>st. st\<lparr>rs_cancellation_resolution := Some (oc_status oc, reason)\<rparr>),
          if oc_status oc = ''failed'' then finish_failed (cancellation_failure oc)
          else finish_cancelled]))"

text \<open>
  \<open>_settled_cancellation_outcome\<close> and \<open>_await_cancellation_outcome\<close> from the handlers of
  \<open>_execute\<close>: an outcome that is there is used at once; without a cancellation task the run is
  settled at once as unsupported; with a running one the execution task waits.
\<close>

definition undriven_reason :: "run_state \<Rightarrow> string" where
  "undriven_reason st =
     (if rs_cancellation_requested st then
        (if \<not> rs_has_cancellation st then ''no_capability'' else ''cancellation_not_driven'')
      else ''executor_interrupted'')"

definition undriven :: "run_state \<Rightarrow> outcome \<times> run_state" where
  "undriven st =
     (let (oc, st') = new_outcome ''unsupported'' None st
      in (oc, set_outcome oc (observe_outcome oc (undriven_reason st) st')))"

definition settle :: "bool \<Rightarrow> unit run_action" where
  "settle cancelled = reading (\<lambda>(sh, st).
     case rs_cancellation_outcome st of
       Some oc \<Rightarrow> block [finish_cancellation_outcome oc, on_run (\<lambda>st. st\<lparr>rs_task := Finished\<rparr>)]
     | None \<Rightarrow>
         (case rs_cancellation_task st of
            None \<Rightarrow>
              block
                [on_run (\<lambda>st. snd (undriven st)), finish_cancellation_outcome (fst (undriven st)),
                 on_run (\<lambda>st. st\<lparr>rs_task := Finished\<rparr>)]
          | Some (Driven oc) \<Rightarrow> block
              [on_run (set_outcome oc), finish_cancellation_outcome oc,
               on_run (\<lambda>st. st\<lparr>rs_task := Finished\<rparr>)]
          | Some Driving \<Rightarrow> on_run (\<lambda>st. st\<lparr>rs_task := Settling cancelled\<rparr>)))"

section \<open>Sections of the execution task\<close>

definition handle_cancelled :: "unit run_action" where
  "handle_cancelled = reading (\<lambda>(sh, st).
     if rs_terminal st then on_run (\<lambda>st. st\<lparr>rs_task := Finished\<rparr>)
     else block
       [whenever (\<lambda>s. run_status_of s = Accepted) (block [start, activate_first_step]),
        begin_cancelling,
        settle True])"

definition handle_exception :: "runtime_error \<Rightarrow> unit run_action" where
  "handle_exception error = reading (\<lambda>(sh, st).
     if rs_terminal st then on_run (\<lambda>st. st\<lparr>rs_task := Finished\<rparr>)
     else if r_status (rs_run st) = Cancelling then settle False
     else block [finish_failed error, on_run (\<lambda>st. st\<lparr>rs_task := Finished\<rparr>)])"

definition handle_raised :: "runtime_error \<Rightarrow> unit run_action" where
  "handle_raised error = (if error = ExecutionCancelled then handle_cancelled else handle_exception error)"

definition execution_returned :: "unit run_action" where
  "execution_returned = reading (\<lambda>(sh, st).
     if rs_terminal st then on_run (\<lambda>st. st\<lparr>rs_task := Finished\<rparr>)
     else if r_status (rs_run st) = Cancelling then settle False
     else block [finish_completed, on_run (\<lambda>st. st\<lparr>rs_task := Finished\<rparr>)])"

text \<open>
  An exception that leaves a section ends the task: a handler's or the \<open>else\<close> clause's own
  exception is not caught again.
\<close>

definition ends_task :: "unit run_action \<Rightarrow> unit run_action" where
  "ends_task m = handle m (\<lambda>e. chain (on_run (\<lambda>st. st\<lparr>rs_task := Finished\<rparr>)) (\<lambda>_. throw e))"

text \<open>The loop body from the head of iteration \<open>k\<close> to its suspension.\<close>

definition enter_step :: "nat \<Rightarrow> unit run_action" where
  "enter_step k = reading (\<lambda>(sh, st).
     if r_status (rs_run st) = Cancelling then throw ExecutionCancelled
     else block [start_step (spec_steps (rs_spec st) ! k) k, on_run (\<lambda>st. st\<lparr>rs_task := Executing k\<rparr>)])"

definition execute_begin :: "unit run_action" where
  "execute_begin = ends_task (handle
     (block
       [start,
        reading (\<lambda>(sh, st).
          if spec_steps (rs_spec st) = [] then on_run (\<lambda>st. st\<lparr>rs_task := Executing 0\<rparr>)
          else enter_step 0)])
     handle_raised)"

definition execute_returned :: "nat \<Rightarrow> unit run_action" where
  "execute_returned k = ends_task (reading (\<lambda>(sh, st).
     let steps = spec_steps (rs_spec st) in
     if steps = [] then execution_returned
     else if Suc k < length steps then
       handle (block [complete_step, enter_step (Suc k)]) handle_raised
     else
       try_else complete_step handle_raised (\<lambda>_. execution_returned)))"

definition execute_raised :: "runtime_error \<Rightarrow> unit run_action" where
  "execute_raised error = ends_task (handle_raised error)"

text \<open>The waiting task resumes: with the driven outcome, or because its own wait timed out.\<close>

definition settle_resumed :: "outcome \<Rightarrow> unit run_action" where
  "settle_resumed oc = ends_task (block
     [on_run (set_outcome oc), finish_cancellation_outcome oc,
      on_run (\<lambda>st. st\<lparr>rs_task := Finished\<rparr>)])"

definition domain_timeout :: "run_state \<Rightarrow> outcome \<times> run_state" where
  "domain_timeout st =
     (let (oc, st') = new_outcome ''failed'' (Some (Ordinary (CancellationTimeout
        (''domain cancellation timed out for run '' @ r_run_id (rs_run st))))) st
      in (oc, set_outcome oc (observe_outcome oc ''domain_timeout'' st')))"

definition settle_timed_out :: "unit run_action" where
  "settle_timed_out = ends_task (reading (\<lambda>(sh, st).
     block
       [on_run (\<lambda>st. snd (domain_timeout st)), finish_cancellation_outcome (fst (domain_timeout st)),
        on_run (\<lambda>st. st\<lparr>rs_task := Finished\<rparr>)]))"

section \<open>Sections of the cancellation task and of \<open>cancel\<close>\<close>

datatype drive_result = Reported string "raised option" | Raised raised | Invalid_Return

definition drive_reason :: "drive_result \<Rightarrow> string" where
  "drive_reason result =
     (case result of
        Reported status error \<Rightarrow> if status = ''failed'' then ''domain_failure'' else ''domain_reported''
      | Raised error \<Rightarrow> ''domain_exception''
      | Invalid_Return \<Rightarrow> ''invalid_return'')"

definition drive_outcome :: "drive_result \<Rightarrow> run_state \<Rightarrow> outcome \<times> run_state" where
  "drive_outcome result st =
     (case result of
        Reported status error \<Rightarrow> new_outcome status error st
      | Raised error \<Rightarrow> new_outcome ''failed'' (Some error) st
      | Invalid_Return \<Rightarrow> new_outcome ''failed'' (Some (Ordinary (CancellationFailed
            ''domain cancellation must return WorkCancellationOutcome''))) st)"

definition drive_done :: "drive_result \<Rightarrow> run_state \<Rightarrow> run_state" where
  "drive_done result st =
     (let (oc, st1) = drive_outcome result st;
          st2 = (case result of Reported status _ \<Rightarrow> st1\<lparr>rs_cancellation_report := Some status\<rparr> | _ \<Rightarrow> st1)
      in (set_outcome oc (observe_outcome oc (drive_reason result) st2))
           \<lparr>rs_cancellation_task := Some (Driven oc)\<rparr>)"

definition no_capability :: "run_state \<Rightarrow> outcome \<times> run_state" where
  "no_capability st =
     (let (oc, st') = new_outcome ''unsupported'' None st
      in (oc, set_outcome oc (observe_outcome oc ''no_capability'' st')))"

definition cancel_admit :: "unit run_action" where
  "cancel_admit = whenever (\<lambda>s. \<not> rs_terminal (snd s)) (block
     [on_run (\<lambda>st. st\<lparr>rs_cancellation_requested := True\<rparr>),
      whenever (\<lambda>s. run_status_of s = Accepted) (block [start, activate_first_step]),
      begin_cancelling,
      on_run (\<lambda>st.
        if rs_has_cancellation st then
          (if rs_cancellation_task st = None then st\<lparr>rs_cancellation_task := Some Driving\<rparr> else st)
        else
          snd (no_capability st))])"

definition execution_timeout :: "run_state \<Rightarrow> outcome \<times> run_state" where
  "execution_timeout st =
     (let (oc, st') = new_outcome ''failed'' (Some (Ordinary (CancellationTimeout
        (''run '' @ r_run_id (rs_run st) @ '' did not settle after cancellation'')))) st
      in (oc, set_outcome oc (observe_outcome oc ''execution_timeout'' st')))"

end
