(* ===== verification/Run_Invariant.thy ===== *)
theory Run_Invariant
  imports Work_Run
begin

text \<open>
  What the sections of one run keep while no append fails: the run's own entries form a valid
  history that ends in the status the run shows, and a terminal run has the cancellation record
  that the projection reads from its entries.
\<close>

section \<open>The history of a run\<close>

definition no_faults :: "shared \<Rightarrow> bool" where
  "no_faults sh \<longleftrightarrow> True \<notin> set (sh_faults sh)"

definition own_entries :: "shared \<Rightarrow> run_state \<Rightarrow> event_entry list" where
  "own_entries sh st = own (r_run_id (rs_run st)) (contents (sh_log sh))"

text \<open>The operation entry declares version 1 of the cancellation observation.\<close>

definition observed_operation :: "event_entry \<Rightarrow> bool" where
  "observed_operation op \<longleftrightarrow>
     (\<exists>m. map_of (e_payload op) ''_harnesswork'' = Some (JObj m) \<and>
        map_of m ''cancellation_observation_version'' = Some (JInt 1))"

definition hist_ok :: "shared \<Rightarrow> run_state \<Rightarrow> run_status \<Rightarrow> bool" where
  "hist_ok sh st s \<longleftrightarrow>
     (let es = own_entries sh st in
      valid_history es s \<and> observed_operation (hd es) \<and>
      e_operation_id (hd es) = r_operation_id (rs_run st) \<and>
      e_session_id (hd es) = r_session_id (rs_run st) \<and>
      e_sequence (last es) = int (rs_sequence st))"

lemma append_entry_ok:
  assumes "no_faults sh" and "append_entry e sh = (r, sh')"
  shows "r = Inr () \<and> no_faults sh' \<and> contents (sh_log sh') = contents (sh_log sh) @ [e]"
  using assms
  by (cases "sh_faults sh") (auto simp: append_entry_def Let_def no_faults_def)

lemma no_faults_simps [simp]:
  "no_faults (sh\<lparr>sh_clock := n\<rparr>) = no_faults sh"
  "no_faults (sh\<lparr>sh_published := vs\<rparr>) = no_faults sh"
  by (simp_all add: no_faults_def)

lemma event_log_entry_fields [simp]:
  "e_entry_type (event_log_entry v) = Event" "e_operation_id (event_log_entry v) = v_operation_id v"
  "e_run_id (event_log_entry v) = v_run_id v" "e_session_id (event_log_entry v) = v_session_id v"
  "e_sequence (event_log_entry v) = v_sequence v"
  "map_of (e_payload (event_log_entry v)) ''kind'' = Some (JStr (v_kind v))"
  by (simp_all add: event_log_entry_def)

lemma terminal_entry_fields [simp]:
  "e_entry_type (terminal_entry st e) = e_entry_type e"
  "e_operation_id (terminal_entry st e) = e_operation_id e"
  "e_run_id (terminal_entry st e) = e_run_id e" "e_session_id (terminal_entry st e) = e_session_id e"
  "e_sequence (terminal_entry st e) = e_sequence e"
  "map_of (e_payload (terminal_entry st e)) ''kind'' = map_of (e_payload e) ''kind''"
  by (simp_all add: terminal_entry_def split: prod.split)

lemma new_event_fields [simp]:
  "v_kind (new_event st now k d h f) = k"
  "v_run_id (new_event st now k d h f) = r_run_id (rs_run st)"
  "v_session_id (new_event st now k d h f) = r_session_id (rs_run st)"
  "v_operation_id (new_event st now k d h f) = r_operation_id (rs_run st)"
  "v_sequence (new_event st now k d h f) = int (rs_sequence st)"
  by (simp_all add: new_event_def Let_def)

text \<open>An entry that continues a run's history.\<close>

definition continues :: "run_state \<Rightarrow> string \<Rightarrow> event_entry \<Rightarrow> bool" where
  "continues st kind e \<longleftrightarrow> e_entry_type e = Event \<and> e_run_id e = r_run_id (rs_run st) \<and>
     e_operation_id e = r_operation_id (rs_run st) \<and> e_session_id e = r_session_id (rs_run st) \<and>
     e_sequence e = int (rs_sequence st + 1) \<and> map_of (e_payload e) ''kind'' = Some (JStr kind)"

lemma continues_kind: "continues st kind e \<Longrightarrow> kind \<noteq> [] \<Longrightarrow> entry_kind e = Some kind"
  by (simp add: continues_def entry_kind_def)

lemma valid_history_extend:
  assumes "hist_ok sh st s" and "continues st kind e" and "kind \<noteq> []" and "lifecycle_step s kind s'"
  shows "valid_history (own_entries sh st @ [e]) s'" and "own_entries sh st \<noteq> []"
proof -
  show ne: "own_entries sh st \<noteq> []" using assms(1) by (auto simp: hist_ok_def Let_def valid_history_def)
  have "event_of (hd (own_entries sh st)) e" and "entry_kind e = Some kind"
    using assms(1,2) continues_kind [OF assms(2,3)]
    by (auto simp: hist_ok_def Let_def continues_def event_of_def)
  then show "valid_history (own_entries sh st @ [e]) s'"
    using assms(1,2,4) by (auto simp: valid_history_snoc [OF ne] hist_ok_def Let_def continues_def)
qed

lemma hist_ok_extend:
  assumes "hist_ok sh st s" and "continues st kind e" and "kind \<noteq> []" and "lifecycle_step s kind s'"
    and "contents (sh_log sh') = contents (sh_log sh) @ [e]"
    and "rs_run st' = rs_run st" and "rs_sequence st' = rs_sequence st + 1"
  shows "hist_ok sh' st' s'"
proof -
  have own: "own_entries sh' st' = own_entries sh st @ [e]"
    using assms(2,5,6) by (simp add: own_entries_def continues_def)
  show ?thesis
    using assms(1,2,6,7) valid_history_extend [OF assms(1-4)]
    by (simp add: hist_ok_def Let_def own continues_def)
qed

section \<open>Publishing\<close>

text \<open>
  The part of a run state that steps and non-terminal events leave alone: what is erased here are
  the sequence, the position among the steps and the recorded exception.
\<close>

definition core :: "run_state \<Rightarrow> run_state" where
  "core st = st\<lparr>rs_sequence := 0, rs_confirmed_sequence := 0, rs_confirmed_event_id := None,
     rs_current_step := None, rs_current_step_index := None, rs_step_active := False,
     rs_error := None, rs_run := (rs_run st)\<lparr>r_current_step_id := None\<rparr>\<rparr>"

lemma core_fields [simp]:
  "rs_spec (core st) = rs_spec st" "rs_has_cancellation (core st) = rs_has_cancellation st"
  "rs_task (core st) = rs_task st" "rs_cancellation_task (core st) = rs_cancellation_task st"
  "rs_cancellation_outcome (core st) = rs_cancellation_outcome st"
  "rs_cancellation_requested (core st) = rs_cancellation_requested st"
  "rs_cancellation_report (core st) = rs_cancellation_report st"
  "rs_cancellation_sources (core st) = rs_cancellation_sources st"
  "rs_cancellation_resolution (core st) = rs_cancellation_resolution st"
  "rs_cancellation_record (core st) = rs_cancellation_record st"
  "rs_terminal (core st) = rs_terminal st" "rs_next_outcome (core st) = rs_next_outcome st"
  "r_status (rs_run (core st)) = r_status (rs_run st)"
  by (simp_all add: core_def)

text \<open>\<open>wr s c\<close>: no append fails, the recorded history is at \<open>s\<close>, the rest of the state is \<open>c\<close>.\<close>

definition wr :: "run_status \<Rightarrow> run_state \<Rightarrow> shared \<times> run_state \<Rightarrow> bool" where
  "wr s c p \<longleftrightarrow> (case p of (sh, st) \<Rightarrow>
     no_faults sh \<and> hist_ok sh st s \<and> \<not> rs_terminal st \<and> core st = c)"

lemma append_event_keeps:
  assumes "lifecycle_step s kind s'" and "kind \<noteq> []"
  shows "contract (wr s c) (append_event kind d hint ref False) (\<lambda>_. wr s' c) R"
proof (rule contractI)
  fix p assume "wr s c p"
  then obtain sh st where p: "p = (sh, st)" and nf: "no_faults sh" and h: "hist_ok sh st s"
    and open_run: "\<not> rs_terminal st" "core st = c"
    by (auto simp: wr_def split: prod.splits)
  let ?st = "st\<lparr>rs_sequence := Suc (rs_sequence st)\<rparr>" and ?sh = "sh\<lparr>sh_clock := Suc (sh_clock sh)\<rparr>"
  let ?v = "new_event ?st (sh_clock sh) kind d hint ref"
  obtain r sh' where ap: "append_entry (event_log_entry ?v) ?sh = (r, sh')" by fastforce
  then have ok: "r = Inr ()" "no_faults sh'" "contents (sh_log sh') = contents (sh_log sh) @ [event_log_entry ?v]"
    using append_entry_ok [of ?sh "event_log_entry ?v" r sh'] nf by simp_all
  have "continues st kind (event_log_entry ?v)" by (simp add: continues_def)
  then have "hist_ok (sh'\<lparr>sh_published := x\<rparr>) (confirm_event False ?v None ?st) s'" for x
    using hist_ok_extend [OF h _ assms(2,1)] ok(3) by (simp add: confirm_event_def Let_def)
  then show "case append_event kind d hint ref False p of (Inl e, s') \<Rightarrow> R e s' | (Inr x, p') \<Rightarrow> wr s' c p'"
    using ok open_run
    by (simp add: p append_event_def terminal_record_def ap wr_def confirm_event_def core_def Let_def)
qed

lemma refuse_terminal_open: "contract (wr s c) (refuse_terminal m) (\<lambda>_. wr s c) R"
  by (rule contractI) (auto simp: wr_def refuse_terminal_def split: prod.splits)

lemma publish_lifecycle_keeps:
  assumes "lifecycle_step s kind s'" and "kind \<noteq> []"
  shows "contract (wr s c) (publish_lifecycle kind d hint) (\<lambda>_. wr s' c) R"
  unfolding publish_lifecycle_def
  by (rule contract_chain [OF refuse_terminal_open], rule contract_reading_keep)
    (auto intro!: contract_discard append_event_keeps [OF assms])

section \<open>The terminal event\<close>

text \<open>The status and reason that the terminal entry carries.\<close>

definition shown_resolution :: "run_state \<Rightarrow> string \<times> string" where
  "shown_resolution c =
     (let (status, reason) =
        (case rs_cancellation_resolution c of None \<Rightarrow> (''not_requested'', ''none'') | Some r \<Rightarrow> r)
      in (if reason \<in> {''executor_interrupted'', ''cancellation_not_driven''} then ''unknown'' else status,
          reason))"

lemma shown_resolution_core [simp]: "shown_resolution (core st) = shown_resolution st"
  by (simp add: shown_resolution_def)

lemma terminal_entry_owner:
  "map_of (e_payload (terminal_entry st e)) ''_harnesswork'' =
     Some (JObj [(''cancellation'', JObj
       [(''version'', JInt 1), (''status'', JStr (fst (shown_resolution st))),
        (''reason_code'', JStr (snd (shown_resolution st))),
        (''reported_status'', optional_json (rs_cancellation_report st))])])"
  by (simp add: terminal_entry_def shown_resolution_def split: prod.split)

lemma report_field_optional: "report_field (optional_json r) = Some r"
  by (cases r) (simp_all add: optional_json_def)

lemma decode_terminal_entry:
  assumes "consistent_observation (terminal_entry st e) started (fst (shown_resolution st))
    (snd (shown_resolution st)) (rs_cancellation_report st)"
  shows "\<exists>rec. decode_terminal (terminal_entry st e) started = Inr rec"
  using assms by (simp add: decode_terminal_def terminal_entry_owner report_field_optional)

lemma lifecycle_path_not_cancelling:
  "lifecycle_path Accepted ks st \<Longrightarrow> st = Accepted \<or> st = Running \<Longrightarrow> ''WorkRunCancelling'' \<notin> set ks"
proof (induction ks arbitrary: st rule: rev_induct)
  case Nil
  then show ?case by simp
next
  case (snoc k ks)
  then obtain st' where "lifecycle_path Accepted ks st'" "lifecycle_step st' k st" by auto
  moreover have "st' = Accepted \<or> st' = Running" "k \<noteq> ''WorkRunCancelling''"
    using \<open>lifecycle_step st' k st\<close> snoc.prems(2)
    by (auto simp: lifecycle_step.simps lifecycle_kinds_def)
  ultimately show ?case using snoc.IH by simp
qed

lemma cancelling_in_history:
  assumes "valid_history es st" and "st \<in> {Accepted, Running, Cancelling}"
  shows "list_ex (\<lambda>e. kind_is e ''WorkRunCancelling'') (tl es) \<longleftrightarrow> st = Cancelling"
proof -
  obtain op evs where es: "es = op # evs" and events: "\<forall>e \<in> set evs. event_of op e"
    and path: "lifecycle_path Accepted (map (the \<circ> entry_kind) evs) st"
    using assms(1) by (auto simp: valid_history_def)
  have "list_ex (\<lambda>e. kind_is e ''WorkRunCancelling'') evs \<longleftrightarrow>
      ''WorkRunCancelling'' \<in> set (map (the \<circ> entry_kind) evs)"
    using events by (force simp: list_ex_iff kind_is_entry_kind event_of_def)
  then show ?thesis
    using lifecycle_path_not_cancelling [OF path] lifecycle_path_cancelling [OF path] assms(2)
    by (auto simp: es)
qed

lemma project_run_terminal:
  assumes valid: "valid_history es s" and ne: "es \<noteq> []" and op: "observed_operation (hd es)"
    and s: "s \<in> {Running, Cancelling}" and event: "e_entry_type e = Event"
    and kind: "map_of (e_payload e) ''kind'' = Some (JStr kind)" "kind \<in> set terminal_kind_names"
  shows "project_run (es @ [e]) = decode_terminal e (s = Cancelling)"
proof -
  have "\<not> kind_is e ''WorkRunCancelling''" "kind_in e terminal_kind_names"
    using kind by (auto simp: kind_is_def kind_in_def terminal_kind_names_def)
  moreover have "list_ex (\<lambda>e. kind_is e ''WorkRunCancelling'') (tl es) \<longleftrightarrow> s = Cancelling"
    using cancelling_in_history [OF valid] s by blast
  ultimately show ?thesis
    using op ne event by (auto simp: project_run_def observed_operation_def hd_append tl_append split: list.split)
qed

text \<open>After the terminal event: the history ends in \<open>s\<close> and the record is the projected one.\<close>

definition closed :: "run_status \<Rightarrow> run_state \<Rightarrow> shared \<times> run_state \<Rightarrow> bool" where
  "closed s c p \<longleftrightarrow> (case p of (sh, st) \<Rightarrow>
     no_faults sh \<and> hist_ok sh st s \<and> final_status s \<and> r_status (rs_run c) = s \<and>
     (\<exists>rec. core st = c\<lparr>rs_terminal := True, rs_cancellation_record := Some rec,
                       rs_cancellation_sources := []\<rparr> \<and>
        project_run (own_entries sh st) = Inr rec))"

text \<open>The resolution fits the lifecycle: what \<open>_decode_terminal\<close> demands of the terminal entry.\<close>

definition fits :: "run_status \<Rightarrow> string \<Rightarrow> run_state \<Rightarrow> bool" where
  "fits s kind c \<longleftrightarrow> (rs_cancellation_resolution c \<noteq> None \<longleftrightarrow> s = Cancelling) \<and>
     (\<forall>e. map_of (e_payload e) ''kind'' = Some (JStr kind) \<longrightarrow>
        consistent_observation e (s = Cancelling) (fst (shown_resolution c)) (snd (shown_resolution c))
          (rs_cancellation_report c))"

lemma append_terminal_closes:
  assumes "lifecycle_step s kind s'" and "kind \<in> set terminal_kind_names" and "fits s kind c"
    and s: "s \<in> {Running, Cancelling}" and status: "r_status (rs_run c) = s'"
  shows "contract (wr s c) (append_event kind d hint ref True) (\<lambda>_. closed s' c) R"
proof (rule contractI)
  fix p assume "wr s c p"
  then obtain sh st where p: "p = (sh, st)" and nf: "no_faults sh" and h: "hist_ok sh st s"
    and open_run: "\<not> rs_terminal st" "core st = c"
    by (auto simp: wr_def split: prod.splits)
  let ?st = "st\<lparr>rs_sequence := Suc (rs_sequence st)\<rparr>" and ?sh = "sh\<lparr>sh_clock := Suc (sh_clock sh)\<rparr>"
  let ?v = "new_event ?st (sh_clock sh) kind d hint ref"
  let ?e = "terminal_entry ?st (event_log_entry ?v)"
  have started: "rs_cancellation_resolution st \<noteq> None \<longleftrightarrow> s = Cancelling"
    using assms(3) open_run(2) by (auto simp: fits_def)
  have shown: "shown_resolution ?st = shown_resolution c" "rs_cancellation_report st = rs_cancellation_report c"
    using open_run(2) by (auto simp: shown_resolution_def)
  obtain rec where rec: "decode_terminal ?e (s = Cancelling) = Inr rec"
    using decode_terminal_entry [of ?st "event_log_entry ?v" "s = Cancelling"] assms(3) shown
    by (auto simp: fits_def)
  obtain r sh' where ap: "append_entry ?e ?sh = (r, sh')" by fastforce
  then have ok: "r = Inr ()" "no_faults sh'" "contents (sh_log sh') = contents (sh_log sh) @ [?e]"
    using append_entry_ok [of ?sh ?e r sh'] nf by simp_all
  have cont: "continues st kind ?e" by (simp add: continues_def)
  have kind: "kind \<noteq> []" using assms(2) by (auto simp: terminal_kind_names_def)
  let ?done = "confirm_event True ?v (Some rec) ?st"
  have hist: "hist_ok (sh'\<lparr>sh_published := x\<rparr>) ?done s'" for x
    using hist_ok_extend [OF h cont kind assms(1)] ok(3) by (simp add: confirm_event_def Let_def)
  have ne: "own_entries sh st \<noteq> []"
    using h by (auto simp: hist_ok_def Let_def valid_history_def)
  have own: "own_entries (sh'\<lparr>sh_published := x\<rparr>) ?done = own_entries sh st @ [?e]" for x
    using ok(3) by (simp add: own_entries_def confirm_event_def Let_def)
  have proj: "project_run (own_entries sh st @ [?e]) = Inr rec"
    using project_run_terminal [of "own_entries sh st" s ?e kind] h ne s rec assms(2)
    by (simp add: hist_ok_def Let_def)
  have core: "core ?done = c\<lparr>rs_terminal := True, rs_cancellation_record := Some rec,
      rs_cancellation_sources := []\<rparr>"
    using open_run(2) by (auto simp: confirm_event_def core_def Let_def)
  have fin: "final_status s'"
    using assms(1,2) by (auto simp: lifecycle_step.simps final_status_def terminal_kind_names_def lifecycle_kinds_def)
  have "append_event kind d hint ref True p =
      (Inr ?v, (sh'\<lparr>sh_published := sh_published sh' @ [?v]\<rparr>, ?done))"
    using ok(1) started rec by (simp add: p append_event_def terminal_record_def ap Let_def)
  then show "case append_event kind d hint ref True p of (Inl e, s') \<Rightarrow> R e s' | (Inr x, p') \<Rightarrow> closed s' c p'"
    using ok(2) hist own proj core fin status by (simp add: closed_def)
qed

lemma publish_terminal_closes:
  assumes "lifecycle_step s kind s'" and "kind \<in> set terminal_kind_names" and "fits s kind c"
    and "s \<in> {Running, Cancelling}" and "r_status (rs_run c) = s'"
  shows "contract (wr s c) (publish_terminal kind) (\<lambda>_. closed s' c) R"
  unfolding publish_terminal_def
  by (rule contract_chain [OF refuse_terminal_open], rule contract_reading_keep)
    (auto intro!: contract_discard append_terminal_closes [OF assms])

section \<open>Contracts of the lifecycle methods\<close>

text \<open>An assignment to the run state that leaves its place in the history alone.\<close>

definition local_change :: "(run_state \<Rightarrow> run_state) \<Rightarrow> (run_state \<Rightarrow> run_state) \<Rightarrow> bool" where
  "local_change f g \<longleftrightarrow> (\<forall>st. core (f st) = g (core st) \<and> rs_sequence (f st) = rs_sequence st \<and>
     rs_terminal (f st) = rs_terminal st \<and> r_run_id (rs_run (f st)) = r_run_id (rs_run st) \<and>
     r_operation_id (rs_run (f st)) = r_operation_id (rs_run st) \<and>
     r_session_id (rs_run (f st)) = r_session_id (rs_run st))"

lemma on_run_keeps: "local_change f g \<Longrightarrow> contract (wr s c) (on_run f) (\<lambda>_. wr s (g c)) R"
  by (rule contract_change)
    (auto simp: local_change_def wr_def hist_ok_def own_entries_def Let_def split: prod.splits)

lemma on_run_closed:
  "local_change f g \<Longrightarrow> (\<And>c. r_status (rs_run (g c)) = r_status (rs_run c)) \<Longrightarrow>
   (\<And>c rec. g (c\<lparr>rs_terminal := True, rs_cancellation_record := Some rec, rs_cancellation_sources := []\<rparr>) =
      (g c)\<lparr>rs_terminal := True, rs_cancellation_record := Some rec, rs_cancellation_sources := []\<rparr>) \<Longrightarrow>
   contract (closed s c) (on_run f) (\<lambda>_. closed s (g c)) R"
  by (rule contract_change)
    (auto simp: local_change_def closed_def hist_ok_def own_entries_def Let_def split: prod.splits)

lemma local_changes:
  "local_change (set_status x) (set_status x)"
  "local_change (\<lambda>st. st\<lparr>rs_task := t\<rparr>) (\<lambda>st. st\<lparr>rs_task := t\<rparr>)"
  "local_change (\<lambda>st. st\<lparr>rs_error := e\<rparr>) id"
  "local_change (\<lambda>st. st\<lparr>rs_step_active := a\<rparr>) id"
  "local_change (\<lambda>st. st\<lparr>rs_cancellation_resolution := r\<rparr>) (\<lambda>st. st\<lparr>rs_cancellation_resolution := r\<rparr>)"
  "local_change (\<lambda>st. st\<lparr>rs_cancellation_requested := q\<rparr>) (\<lambda>st. st\<lparr>rs_cancellation_requested := q\<rparr>)"
  "local_change (\<lambda>st. st\<lparr>rs_current_step := x1, rs_current_step_index := x2, rs_step_active := x3,
     rs_run := (rs_run st)\<lparr>r_current_step_id := x4\<rparr>\<rparr>) id"
  by (simp_all add: local_change_def set_status_def core_def)

lemma wr_changes:
  "contract (wr s c) (on_run (set_status x)) (\<lambda>_. wr s (set_status x c)) R"
  "contract (wr s c) (on_run (\<lambda>st. st\<lparr>rs_task := t\<rparr>)) (\<lambda>_. wr s (c\<lparr>rs_task := t\<rparr>)) R"
  "contract (wr s c) (on_run (\<lambda>st. st\<lparr>rs_error := e\<rparr>)) (\<lambda>_. wr s c) R"
  "contract (wr s c) (on_run (\<lambda>st. st\<lparr>rs_step_active := a\<rparr>)) (\<lambda>_. wr s c) R"
  "contract (wr s c) (on_run (\<lambda>st. st\<lparr>rs_cancellation_resolution := r\<rparr>))
     (\<lambda>_. wr s (c\<lparr>rs_cancellation_resolution := r\<rparr>)) R"
  "contract (wr s c) (on_run (\<lambda>st. st\<lparr>rs_cancellation_requested := q\<rparr>))
     (\<lambda>_. wr s (c\<lparr>rs_cancellation_requested := q\<rparr>)) R"
  "contract (wr s c) (on_run (\<lambda>st. st\<lparr>rs_current_step := x1, rs_current_step_index := x2,
     rs_step_active := x3, rs_run := (rs_run st)\<lparr>r_current_step_id := x4\<rparr>\<rparr>)) (\<lambda>_. wr s c) R"
  using local_changes [THEN on_run_keeps] by simp_all

text \<open>Events that record progress.\<close>

definition progress_kind :: "string \<Rightarrow> bool" where
  "progress_kind k \<longleftrightarrow> k \<noteq> [] \<and> k \<notin> set lifecycle_kinds"

lemma progress_keeps:
  assumes "s \<in> {Running, Cancelling}" and "progress_kind k"
  shows "contract (wr s c) (publish_lifecycle k d h) (\<lambda>_. wr s c) R"
  using assms by (intro publish_lifecycle_keeps) (auto simp: progress_kind_def intro: lifecycle_step.progress)

lemma progress_kinds:
  "progress_kind ''WorkPlanStarted''" "progress_kind ''WorkPlanCompleted''"
  "progress_kind ''WorkPlanFailed''" "progress_kind ''WorkPlanCancelled''"
  "progress_kind ''WorkStepStarted''" "progress_kind ''WorkStepCompleted''"
  "progress_kind ''WorkStepFailed''" "progress_kind ''WorkStepCancelled''"
  by (simp_all add: progress_kind_def lifecycle_kinds_def)

lemma whenever_keeps:
  "contract (wr s c) m (\<lambda>_. wr s c) R \<Longrightarrow> contract (wr s c) (whenever b m) (\<lambda>_. wr s c) R"
  by (rule contract_whenever) (auto intro: contract_conseq)

lemmas progress_rules = progress_keeps progress_kinds whenever_keeps wr_changes

lemma start_keeps:
  assumes "r_status (rs_run c) = Accepted"
  shows "contract (wr Accepted c) start (\<lambda>_. wr Running (set_status Running c)) R"
  unfolding start_def
proof (rule contract_whenever)
  have "contract (wr Accepted c) (block
     [on_run (set_status Running), publish_lifecycle ''WorkRunStarted'' run_payload ''immediate'',
      whenever has_plan (publish_lifecycle ''WorkPlanStarted'' scope_payload ''coalesce'')])
    (\<lambda>_. wr Running (set_status Running c)) R"
    by (rule contract_block_Cons, rule wr_changes, rule contract_block_Cons,
        rule publish_lifecycle_keeps [OF lifecycle_step.started], simp, rule contract_block_Cons,
        rule whenever_keeps, rule progress_keeps, simp, rule progress_kinds, rule contract_block_Nil)
  then show "contract (\<lambda>p. wr Accepted c p \<and> run_status_of p = Accepted) (block
     [on_run (set_status Running), publish_lifecycle ''WorkRunStarted'' run_payload ''immediate'',
      whenever has_plan (publish_lifecycle ''WorkPlanStarted'' scope_payload ''coalesce'')])
    (\<lambda>_. wr Running (set_status Running c)) R"
    by (rule contract_conseq) auto
next
  fix p assume "wr Accepted c p" "run_status_of p \<noteq> Accepted"
  with assms show "wr Running (set_status Running c) p" by (auto simp: wr_def)
qed

lemma start_other:
  "r_status (rs_run c) \<noteq> Accepted \<Longrightarrow> contract (wr s c) start (\<lambda>_. wr s c) R"
  by (rule contractI) (auto simp: wr_def start_def whenever_def split: prod.splits)

lemma block_progress:
  assumes "\<And>m. m \<in> set ms \<Longrightarrow> contract (wr s c) m (\<lambda>_. wr s c) R"
  shows "contract (wr s c) (block ms) (\<lambda>_. wr s c) R"
  using assms
proof (induction ms)
  case Nil
  show ?case by (rule contract_block_Nil)
next
  case (Cons m ms)
  then show ?case by (intro contract_block_Cons [of _ m "wr s c"]) simp_all
qed

text \<open>The exception a step may raise leaves the run as it was.\<close>

definition step_refused :: "run_status \<Rightarrow> run_state \<Rightarrow> runtime_error \<Rightarrow> shared \<times> run_state \<Rightarrow> bool" where
  "step_refused s c e p \<longleftrightarrow> e = StepNotEnded \<and> wr s c p"

lemma pass_keeps: "contract P pass (\<lambda>_. P) R"
  by (rule contract_pass)

lemma throw_refused: "contract (wr s c) (throw StepNotEnded) Q (step_refused s c)"
  by (rule contract_throw) (simp add: step_refused_def)

lemma start_step_keeps:
  assumes "s \<in> {Running, Cancelling}"
  shows "contract (wr s c) (start_step step i) (\<lambda>_. wr s c) (step_refused s c)"
proof -
  have "contract (wr s c) (block
       [on_run (\<lambda>st. st\<lparr>rs_current_step := Some step, rs_current_step_index := Some i,
          rs_step_active := True,
          rs_run := (rs_run st)\<lparr>r_current_step_id := Some (ss_step_id step)\<rparr>\<rparr>),
        publish_lifecycle ''WorkStepStarted'' (\<lambda>st. step_payload st step) ''coalesce''])
     (\<lambda>_. wr s c) (step_refused s c)"
    by (rule contract_block_Cons, rule wr_changes, rule contract_block_Cons, rule progress_keeps,
        rule assms, rule progress_kinds, rule contract_block_Nil)
  then show ?thesis
    unfolding start_step_def
    by (intro contract_reading_keep)
      (auto intro!: pass_keeps throw_refused simp del: block.simps)
qed

lemma activate_first_step_keeps:
  assumes "s \<in> {Running, Cancelling}"
  shows "contract (wr s c) activate_first_step (\<lambda>_. wr s c) (step_refused s c)"
  unfolding activate_first_step_def
  by (rule contract_reading_keep)
    (auto split: list.split intro!: pass_keeps start_step_keeps [OF assms])

lemma complete_step_keeps:
  assumes "s \<in> {Running, Cancelling}"
  shows "contract (wr s c) complete_step (\<lambda>_. wr s c) R"
proof -
  have "contract (wr s c) (block
       [publish_lifecycle ''WorkStepCompleted'' (\<lambda>st. step_payload st step) ''coalesce'',
        on_run (\<lambda>st. st\<lparr>rs_step_active := False\<rparr>)]) (\<lambda>_. wr s c) R" for step
    by (rule contract_block_Cons, rule progress_keeps, rule assms, rule progress_kinds,
        rule contract_block_Cons, rule wr_changes, rule contract_block_Nil)
  then show ?thesis
    unfolding complete_step_def
    by (intro contract_reading_keep)
      (auto intro!: pass_keeps split: option.split simp del: block.simps)
qed

lemma begin_cancelling_keeps:
  assumes "r_status (rs_run c) = Running"
  shows "contract (wr Running c) begin_cancelling (\<lambda>_. wr Cancelling (set_status Cancelling c)) R"
  unfolding begin_cancelling_def
proof (rule contract_whenever)
  have "contract (wr Running c) (block
     [on_run (set_status Cancelling), publish_lifecycle ''WorkRunCancelling'' run_payload ''immediate''])
    (\<lambda>_. wr Cancelling (set_status Cancelling c)) R"
    by (rule contract_block_Cons, rule wr_changes, rule contract_block_Cons,
        rule publish_lifecycle_keeps [OF lifecycle_step.cancelling], simp, rule contract_block_Nil)
  then show "contract (\<lambda>p. wr Running c p \<and> run_status_of p = Running) (block
     [on_run (set_status Cancelling), publish_lifecycle ''WorkRunCancelling'' run_payload ''immediate''])
    (\<lambda>_. wr Cancelling (set_status Cancelling c)) R"
    by (rule contract_conseq) auto
next
  fix p assume "wr Running c p" "run_status_of p \<noteq> Running"
  with assms show "wr Cancelling (set_status Cancelling c) p" by (auto simp: wr_def)
qed

lemma begin_cancelling_other:
  "r_status (rs_run c) \<noteq> Running \<Longrightarrow> contract (wr s c) begin_cancelling (\<lambda>_. wr s c) R"
  by (rule contractI) (auto simp: wr_def begin_cancelling_def whenever_def split: prod.splits)

lemma fits_set_status [simp]: "fits s k (set_status x c) = fits s k c"
  by (simp add: fits_def set_status_def shown_resolution_def)

lemma set_status_fields [simp]:
  "r_status (rs_run (set_status x c)) = x" "rs_task (set_status x c) = rs_task c"
  by (simp_all add: set_status_def)

lemma finish_completed_closes:
  assumes "fits Running ''WorkRunCompleted'' c"
  shows "contract (wr Running c) finish_completed (\<lambda>_. closed Completed (set_status Completed c)) R"
  unfolding finish_completed_def
  by (rule contract_block_Cons, rule whenever_keeps, rule progress_keeps, simp, rule progress_kinds,
      rule contract_block_Cons, rule wr_changes, rule contract_block_Cons,
      rule publish_terminal_closes, rule lifecycle_step.completed, simp, simp add: terminal_kind_names_def,
      simp add: assms, simp, simp, rule contract_block_Nil)

lemma finish_failed_closes:
  assumes "fits s ''WorkRunFailed'' c" and "s \<in> {Running, Cancelling}"
  shows "contract (wr s c) (finish_failed err) (\<lambda>_. closed Failed (set_status Failed c)) R"
  unfolding finish_failed_def Let_def
proof (rule contract_reading_keep, clarify)
  fix sh st
  let ?d = "dict_merge (current_scope_payload st) [(''error'', JStr (error_text err))]"
  have step: "contract (wr s c) (block
          [publish_lifecycle ''WorkStepFailed'' (\<lambda>_. ?d) ''immediate'',
           on_run (\<lambda>st. st\<lparr>rs_step_active := False\<rparr>)]) (\<lambda>_. wr s c) R"
    by (rule contract_block_Cons, rule progress_keeps, rule assms, rule progress_kinds,
        rule contract_block_Cons, rule wr_changes, rule contract_block_Nil)
  show "contract (wr s c) (block
       [on_run (\<lambda>st. st\<lparr>rs_error := Some err\<rparr>),
        whenever (\<lambda>s. rs_step_active (snd s)) (block
          [publish_lifecycle ''WorkStepFailed'' (\<lambda>_. ?d) ''immediate'',
           on_run (\<lambda>st. st\<lparr>rs_step_active := False\<rparr>)]),
        whenever has_plan (publish_lifecycle ''WorkPlanFailed'' (\<lambda>_. ?d) ''immediate''),
        on_run (set_status Failed),
        publish_terminal ''WorkRunFailed'']) (\<lambda>_. closed Failed (set_status Failed c)) R"
    by (rule contract_block_Cons, rule wr_changes, rule contract_block_Cons, rule whenever_keeps,
        rule step, rule contract_block_Cons, rule whenever_keeps, rule progress_keeps, rule assms,
        rule progress_kinds, rule contract_block_Cons, rule wr_changes, rule contract_block_Cons,
        rule publish_terminal_closes, rule lifecycle_step.failed, rule assms,
        simp add: terminal_kind_names_def, simp add: assms, rule assms, simp, rule contract_block_Nil)
qed

lemma finish_cancelled_closes:
  assumes "fits Cancelling ''WorkRunCancelled'' c"
  shows "contract (wr Cancelling c) finish_cancelled (\<lambda>_. closed Cancelled (set_status Cancelled c)) R"
  unfolding finish_cancelled_def
proof (rule contract_whenever)
  have step: "contract (wr Cancelling c) (block
        [publish_lifecycle ''WorkStepCancelled'' current_scope_payload ''immediate'',
         on_run (\<lambda>st. st\<lparr>rs_step_active := False\<rparr>)]) (\<lambda>_. wr Cancelling c) R"
    by (rule contract_block_Cons, rule progress_keeps, simp, rule progress_kinds,
        rule contract_block_Cons, rule wr_changes, rule contract_block_Nil)
  have "contract (wr Cancelling c) (block
     [on_run (\<lambda>st. st\<lparr>rs_error := Some ExecutionCancelled\<rparr>),
      whenever (\<lambda>s. rs_step_active (snd s)) (block
        [publish_lifecycle ''WorkStepCancelled'' current_scope_payload ''immediate'',
         on_run (\<lambda>st. st\<lparr>rs_step_active := False\<rparr>)]),
      whenever has_plan (publish_lifecycle ''WorkPlanCancelled'' current_scope_payload ''immediate''),
      on_run (set_status Cancelled),
      publish_terminal ''WorkRunCancelled'']) (\<lambda>_. closed Cancelled (set_status Cancelled c)) R"
    by (rule contract_block_Cons, rule wr_changes, rule contract_block_Cons, rule whenever_keeps,
        rule step, rule contract_block_Cons, rule whenever_keeps, rule progress_keeps, simp,
        rule progress_kinds, rule contract_block_Cons, rule wr_changes, rule contract_block_Cons,
        rule publish_terminal_closes, rule lifecycle_step.cancelled,
        simp add: terminal_kind_names_def, simp add: assms, simp, simp, rule contract_block_Nil)
  then show "contract (\<lambda>p. wr Cancelling c p \<and> \<not> rs_terminal (snd p)) (block
     [on_run (\<lambda>st. st\<lparr>rs_error := Some ExecutionCancelled\<rparr>),
      whenever (\<lambda>s. rs_step_active (snd s)) (block
        [publish_lifecycle ''WorkStepCancelled'' current_scope_payload ''immediate'',
         on_run (\<lambda>st. st\<lparr>rs_step_active := False\<rparr>)]),
      whenever has_plan (publish_lifecycle ''WorkPlanCancelled'' current_scope_payload ''immediate''),
      on_run (set_status Cancelled),
      publish_terminal ''WorkRunCancelled'']) (\<lambda>_. closed Cancelled (set_status Cancelled c)) R"
    by (rule contract_conseq) auto
qed (auto simp: wr_def)

section \<open>Outcomes that fit\<close>

text \<open>
  Which outcome, reason and report can occur together; \<open>undriven_reasons\<close> are only ever observed
  right before the run is finished with them.
\<close>

definition undriven_reasons :: "string list" where
  "undriven_reasons = [''no_capability'', ''executor_interrupted'', ''cancellation_not_driven'']"

definition known_report :: "string option \<Rightarrow> bool" where
  "known_report report \<longleftrightarrow> report \<in> set [None, Some ''settled'', Some ''unsupported'', Some ''failed'']"

lemma known_report_None [simp]: "known_report None"
  by (simp add: known_report_def)

definition outcome_fits :: "string \<Rightarrow> string \<Rightarrow> string option \<Rightarrow> bool" where
  "outcome_fits status reason report \<longleftrightarrow>
     (status = ''settled'' \<and> reason = ''domain_reported'' \<and> report = Some ''settled'') \<or>
     (status = ''unsupported'' \<and> reason = ''domain_reported'' \<and> report = Some ''unsupported'') \<or>
     (status = ''unsupported'' \<and> reason \<in> set undriven_reasons \<and> report = None) \<or>
     (status = ''failed'' \<and> reason = ''domain_failure'' \<and> report = Some ''failed'') \<or>
     (status = ''failed'' \<and> reason \<in> {''domain_exception'', ''invalid_return''} \<and> report = None) \<or>
     (status = ''failed'' \<and> reason \<in> {''domain_timeout'', ''execution_timeout''} \<and>
        known_report report)"

lemma kind_is_iff: "map_of (e_payload e) ''kind'' = Some (JStr k) \<Longrightarrow> kind_is e k' \<longleftrightarrow> k' = k"
  by (auto simp: kind_is_def)

lemma outcome_fits_failed:
  assumes "outcome_fits ''failed'' reason (rs_cancellation_report c)"
  shows "fits Cancelling ''WorkRunFailed''
    (c\<lparr>rs_cancellation_resolution := Some (''failed'', reason)\<rparr>)"
  using assms
  by (auto simp: fits_def shown_resolution_def consistent_observation_def outcome_fits_def kind_is_iff
      known_report_def)

lemma outcome_fits_cancelled:
  assumes "outcome_fits status reason (rs_cancellation_report c)" and "status \<noteq> ''failed''"
  shows "fits Cancelling ''WorkRunCancelled''
    (c\<lparr>rs_cancellation_resolution := Some (status, reason)\<rparr>)"
  using assms
  by (auto simp: fits_def shown_resolution_def consistent_observation_def outcome_fits_def kind_is_iff
      undriven_reasons_def)

lemma unresolved_fits:
  assumes "rs_cancellation_resolution c = None" and "rs_cancellation_report c = None"
  shows "fits Running ''WorkRunCompleted'' c" and "fits Running ''WorkRunFailed'' c"
  using assms by (auto simp: fits_def shown_resolution_def consistent_observation_def kind_in_def kind_is_iff)

text \<open>The run ended, in whatever status.\<close>

definition ended :: "exec_task \<Rightarrow> shared \<times> run_state \<Rightarrow> bool" where
  "ended t p \<longleftrightarrow> (\<exists>s c. closed s c p \<and> rs_task c = t)"

lemma contract_ended:
  "contract P m (\<lambda>_. closed s c) R \<Longrightarrow> rs_task c = t \<Longrightarrow> contract P m (\<lambda>_. ended t) R"
  by (erule contract_conseq) (auto simp: ended_def)

lemma finish_cancellation_outcome_ends:
  assumes "map_of (rs_cancellation_sources c) (oc_identity oc) = Some (x, reason)"
    and "outcome_fits (oc_status oc) reason (rs_cancellation_report c)"
  shows "contract (wr Cancelling c) (finish_cancellation_outcome oc) (\<lambda>_. ended (rs_task c)) R"
proof -
  have finish: "contract (wr Cancelling (c\<lparr>rs_cancellation_resolution := Some (oc_status oc, reason)\<rparr>))
      (if oc_status oc = ''failed'' then finish_failed (cancellation_failure oc) else finish_cancelled)
      (\<lambda>_. ended (rs_task c)) R"
    using outcome_fits_failed [of reason c] outcome_fits_cancelled [OF assms(2)] assms(2)
    by (auto intro!: contract_if contract_ended finish_failed_closes finish_cancelled_closes)
  have body: "contract (wr Cancelling c) (block
     [on_run (\<lambda>st. st\<lparr>rs_cancellation_resolution := Some (oc_status oc, reason)\<rparr>),
      if oc_status oc = ''failed'' then finish_failed (cancellation_failure oc)
      else finish_cancelled]) (\<lambda>_. ended (rs_task c)) R"
    by (rule contract_block_Cons, rule wr_changes, rule contract_block_Cons, rule finish,
        rule contract_block_Nil)
  show ?thesis
    unfolding finish_cancellation_outcome_def
  proof (rule contract_whenever)
    have "contract (wr Cancelling c) (reading (\<lambda>(sh, st).
       case map_of (rs_cancellation_sources st) (oc_identity oc) of
         None \<Rightarrow> throw (UnknownOutcome (oc_identity oc))
       | Some (_, reason) \<Rightarrow> block
           [on_run (\<lambda>st. st\<lparr>rs_cancellation_resolution := Some (oc_status oc, reason)\<rparr>),
            if oc_status oc = ''failed'' then finish_failed (cancellation_failure oc)
            else finish_cancelled])) (\<lambda>_. ended (rs_task c)) R"
    proof (rule contract_reading_keep)
      fix p assume "wr Cancelling c p"
      then have "map_of (rs_cancellation_sources (snd p)) (oc_identity oc) = Some (x, reason)"
        using assms(1) by (auto simp: wr_def split: prod.splits)
      with body show "contract (wr Cancelling c) (case p of (sh, st) \<Rightarrow>
        (case map_of (rs_cancellation_sources st) (oc_identity oc) of
           None \<Rightarrow> throw (UnknownOutcome (oc_identity oc))
         | Some (_, reason) \<Rightarrow> block
             [on_run (\<lambda>st. st\<lparr>rs_cancellation_resolution := Some (oc_status oc, reason)\<rparr>),
              if oc_status oc = ''failed'' then finish_failed (cancellation_failure oc)
              else finish_cancelled])) (\<lambda>_. ended (rs_task c)) R"
        by (cases p) (simp del: block.simps)
    qed
    then show "contract (\<lambda>p. wr Cancelling c p \<and> \<not> rs_terminal (snd p)) (reading (\<lambda>(sh, st).
       case map_of (rs_cancellation_sources st) (oc_identity oc) of
         None \<Rightarrow> throw (UnknownOutcome (oc_identity oc))
       | Some (_, reason) \<Rightarrow> block
           [on_run (\<lambda>st. st\<lparr>rs_cancellation_resolution := Some (oc_status oc, reason)\<rparr>),
            if oc_status oc = ''failed'' then finish_failed (cancellation_failure oc)
            else finish_cancelled])) (\<lambda>_. ended (rs_task c)) R"
      by (rule contract_conseq) auto
  qed (auto simp: wr_def)
qed

lemma ended_task: "contract (ended t') (on_run (\<lambda>st. st\<lparr>rs_task := t\<rparr>)) (\<lambda>_. ended t) R"
proof (rule contractI)
  fix p assume "ended t' p"
  then obtain s c where c: "closed s c p" by (auto simp: ended_def)
  have "contract (closed s c) (on_run (\<lambda>st. st\<lparr>rs_task := t\<rparr>))
      (\<lambda>_. closed s (c\<lparr>rs_task := t\<rparr>)) R"
    by (rule on_run_closed [OF local_changes(2)]) simp_all
  from contractD(1) [OF this c] show "case on_run (\<lambda>st. st\<lparr>rs_task := t\<rparr>) p of
      (Inl e, s') \<Rightarrow> R e s' | (Inr x, s') \<Rightarrow> ended t s'"
    by (fastforce simp: change_def ended_def)
qed

section \<open>The invariant between sections\<close>

definition source_of :: "run_state \<Rightarrow> outcome \<Rightarrow> string \<Rightarrow> bool" where
  "source_of c oc reason \<longleftrightarrow> map_of (rs_cancellation_sources c) (oc_identity oc) = Some (oc, reason)"

text \<open>An observed outcome agrees with the report, whatever is reported later.\<close>

definition agreeing :: "run_state \<Rightarrow> outcome \<Rightarrow> string \<Rightarrow> bool" where
  "agreeing c oc reason \<longleftrightarrow> outcome_fits (oc_status oc) reason (rs_cancellation_report c) \<and>
     reason \<notin> {''executor_interrupted'', ''cancellation_not_driven''} \<and>
     (reason = ''no_capability'' \<longrightarrow> \<not> rs_has_cancellation c) \<and>
     (reason \<in> {''domain_exception'', ''invalid_return''} \<longrightarrow>
        (\<exists>oc. rs_cancellation_task c = Some (Driven oc)))"

definition calm :: "run_state \<Rightarrow> bool" where
  "calm c \<longleftrightarrow> rs_cancellation_resolution c = None \<and>
     r_status (rs_run c) \<in> {Accepted, Running, Cancelling} \<and>
     known_report (rs_cancellation_report c) \<and>
     (\<not> rs_has_cancellation c \<longrightarrow> rs_cancellation_task c = None) \<and>
     (rs_cancellation_task c \<in> {None, Some Driving} \<longrightarrow> rs_cancellation_report c = None) \<and>
     (r_status (rs_run c) \<noteq> Cancelling \<longrightarrow> rs_cancellation_task c = None \<and>
        rs_cancellation_outcome c = None \<and> rs_cancellation_sources c = []) \<and>
     (\<forall>i oc reason. map_of (rs_cancellation_sources c) i = Some (oc, reason) \<longrightarrow>
        oc_identity oc = i \<and> i < rs_next_outcome c \<and> agreeing c oc reason) \<and>
     (\<forall>oc. rs_cancellation_outcome c = Some oc \<longrightarrow> (\<exists>reason. source_of c oc reason)) \<and>
     (\<forall>oc. rs_cancellation_task c = Some (Driven oc) \<longrightarrow> (\<exists>reason. source_of c oc reason)) \<and>
     ((\<exists>k. rs_task c = Executing k) \<longrightarrow> r_status (rs_run c) \<noteq> Accepted) \<and>
     ((\<exists>b. rs_task c = Settling b) \<longrightarrow> r_status (rs_run c) = Cancelling)"

lemma calm_parts:
  assumes "calm c"
  shows "rs_cancellation_resolution c = None" and "known_report (rs_cancellation_report c)"
    and "\<not> rs_has_cancellation c \<Longrightarrow> rs_cancellation_task c = None"
    and "rs_cancellation_task c = None \<Longrightarrow> rs_cancellation_report c = None"
    and "rs_cancellation_task c = Some Driving \<Longrightarrow> rs_cancellation_report c = None"
    and "map_of (rs_cancellation_sources c) i = Some (oc, reason) \<Longrightarrow>
      oc_identity oc = i \<and> i < rs_next_outcome c \<and> agreeing c oc reason"
    and "rs_cancellation_outcome c = Some oc \<Longrightarrow> \<exists>reason. source_of c oc reason"
    and "rs_cancellation_task c = Some (Driven oc) \<Longrightarrow> \<exists>reason. source_of c oc reason"
    and "rs_task c = Executing k \<Longrightarrow> r_status (rs_run c) \<noteq> Accepted"
    and "rs_task c = Settling b \<Longrightarrow> r_status (rs_run c) = Cancelling"
  using assms unfolding calm_def by blast+

lemma calm_before_cancelling:
  assumes "calm c" and "r_status (rs_run c) \<noteq> Cancelling"
  shows "rs_cancellation_task c = None" and "rs_cancellation_outcome c = None"
    and "rs_cancellation_sources c = []"
  using assms unfolding calm_def by blast+

lemma calmI:
  assumes "rs_cancellation_resolution c = None" and "r_status (rs_run c) = Cancelling"
    and "known_report (rs_cancellation_report c)"
    and "\<not> rs_has_cancellation c \<Longrightarrow> rs_cancellation_task c = None"
    and "rs_cancellation_task c = None \<Longrightarrow> rs_cancellation_report c = None"
    and "rs_cancellation_task c = Some Driving \<Longrightarrow> rs_cancellation_report c = None"
    and "\<And>i oc reason. map_of (rs_cancellation_sources c) i = Some (oc, reason) \<Longrightarrow>
      oc_identity oc = i \<and> i < rs_next_outcome c \<and> agreeing c oc reason"
    and "\<And>oc. rs_cancellation_outcome c = Some oc \<Longrightarrow> \<exists>reason. source_of c oc reason"
    and "\<And>oc. rs_cancellation_task c = Some (Driven oc) \<Longrightarrow> \<exists>reason. source_of c oc reason"
  shows "calm c"
  unfolding calm_def using assms by simp

text \<open>Between sections a run is live, or ended with its execution task done.\<close>

definition live :: "shared \<times> run_state \<Rightarrow> bool" where
  "live p \<longleftrightarrow> (\<exists>c. calm c \<and> wr (r_status (rs_run c)) c p)"

definition active :: "shared \<times> run_state \<Rightarrow> bool" where
  "active p \<longleftrightarrow> (\<exists>c. calm c \<and> r_status (rs_run c) \<noteq> Accepted \<and> wr (r_status (rs_run c)) c p)"

definition run_ok :: "shared \<times> run_state \<Rightarrow> bool" where
  "run_ok p \<longleftrightarrow> live p \<or> ended Finished p"

lemma calm_source:
  assumes "calm c" and "source_of c oc reason"
  shows "outcome_fits (oc_status oc) reason (rs_cancellation_report c)"
    and "r_status (rs_run c) = Cancelling"
  using assms by (fastforce simp: calm_def source_of_def agreeing_def)+

lemma finish_known_outcome:
  assumes "calm c" and "source_of c oc reason"
  shows "contract (wr Cancelling c) (finish_cancellation_outcome oc) (\<lambda>_. ended (rs_task c)) R"
  using calm_source [OF assms] assms(2)
  by (intro finish_cancellation_outcome_ends) (auto simp: source_of_def)

lemma calm_status:
  "calm c \<Longrightarrow> r_status (rs_run c) = Accepted \<or> r_status (rs_run c) = Running \<or>
     r_status (rs_run c) = Cancelling"
  by (simp add: calm_def)

lemma contract_live:
  "(\<And>c. calm c \<Longrightarrow> contract (wr (r_status (rs_run c)) c) m Q R) \<Longrightarrow> contract live m Q R"
  unfolding contract_iff live_def by metis

lemma contract_active:
  "(\<And>c. calm c \<Longrightarrow> r_status (rs_run c) = Running \<Longrightarrow> contract (wr Running c) m Q R) \<Longrightarrow>
   (\<And>c. calm c \<Longrightarrow> r_status (rs_run c) = Cancelling \<Longrightarrow> contract (wr Cancelling c) m Q R) \<Longrightarrow>
   contract active m Q R"
  unfolding contract_iff active_def using calm_status by metis

lemma to_active:
  "contract P m (\<lambda>_. wr s c) R \<Longrightarrow> calm c \<Longrightarrow> r_status (rs_run c) = s \<Longrightarrow> s \<noteq> Accepted \<Longrightarrow>
   contract P m (\<lambda>_. active) R"
  by (erule contract_conseq) (auto simp: active_def)

lemma to_live:
  "contract P m (\<lambda>_. wr s c) R \<Longrightarrow> calm c \<Longrightarrow> r_status (rs_run c) = s \<Longrightarrow>
   contract P m (\<lambda>_. live) R"
  by (erule contract_conseq) (auto simp: live_def)

lemma active_live: "active p \<Longrightarrow> live p"
  by (auto simp: active_def live_def)

lemma calm_running: "calm c \<Longrightarrow> r_status (rs_run c) = Accepted \<Longrightarrow> calm (set_status Running c)"
  by (auto simp: calm_def set_status_def source_of_def agreeing_def)

lemma calm_cancelling: "calm c \<Longrightarrow> r_status (rs_run c) = Running \<Longrightarrow> calm (set_status Cancelling c)"
  by (auto simp: calm_def set_status_def source_of_def agreeing_def)

lemma calm_task:
  assumes "calm c" and "\<And>k. t = Executing k \<Longrightarrow> r_status (rs_run c) \<noteq> Accepted"
    and "\<And>b. t = Settling b \<Longrightarrow> r_status (rs_run c) = Cancelling"
  shows "calm (c\<lparr>rs_task := t\<rparr>)"
  using assms by (auto simp: calm_def source_of_def agreeing_def)

lemma finished_task:
  "contract live (on_run (\<lambda>st. st\<lparr>rs_task := Finished\<rparr>)) (\<lambda>_. live) R"
  by (rule contract_live, rule to_live, rule wr_changes) (auto intro: calm_task)

section \<open>Settling\<close>

lemma undriven_change:
  "local_change (\<lambda>st. snd (undriven st)) (\<lambda>st. snd (undriven st))"
  "fst (undriven (core st)) = fst (undriven st)"
  by (simp_all add: local_change_def undriven_def new_outcome_def set_outcome_def observe_outcome_def
      undriven_reason_def core_def)

lemma set_outcome_change: "local_change (set_outcome oc) (set_outcome oc)"
  by (simp add: local_change_def set_outcome_def core_def)

lemma undriven_fields:
  "rs_task (snd (undriven c)) = rs_task c"
  "rs_cancellation_report (snd (undriven c)) = rs_cancellation_report c"
  "oc_status (fst (undriven c)) = ''unsupported''"
  "\<not> rs_terminal c \<Longrightarrow> map_of (rs_cancellation_sources (snd (undriven c))) (oc_identity (fst (undriven c))) =
     Some (fst (undriven c), undriven_reason c)"
  by (simp_all add: undriven_def new_outcome_def set_outcome_def observe_outcome_def undriven_reason_def)

lemma undriven_reason_listed: "undriven_reason c \<in> set undriven_reasons"
  by (simp add: undriven_reason_def undriven_reasons_def)

lemma calm_open: "wr s c p \<Longrightarrow> \<not> rs_terminal c"
  by (auto simp: wr_def)

lemma finish_and_end:
  assumes "contract P (finish_cancellation_outcome oc) (\<lambda>_. ended t) R"
  shows "contract P (block [finish_cancellation_outcome oc, on_run (\<lambda>st. st\<lparr>rs_task := Finished\<rparr>)])
    (\<lambda>_. run_ok) R"
  by (rule contract_block_Cons, rule assms, rule contract_block_Cons, rule ended_task,
      rule contract_block_Nil) (simp add: run_ok_def)

lemma settle_ok:
  assumes calm: "calm c" and status: "r_status (rs_run c) = Cancelling"
  shows "contract (wr Cancelling c) (settle b) (\<lambda>_. run_ok) R"
  unfolding settle_def
proof (rule contract_reading_keep, clarify)
  fix sh st assume w: "wr Cancelling c (sh, st)"
  then have c: "core st = c" "\<not> rs_terminal c" by (auto simp: wr_def)
  have outcome: "rs_cancellation_outcome st = rs_cancellation_outcome c"
    and task: "rs_cancellation_task st = rs_cancellation_task c"
    and undr: "fst (undriven st) = fst (undriven c)"
    using c(1) undriven_change(2) by auto
  show "contract (wr Cancelling c)
    (case rs_cancellation_outcome st of
       Some oc \<Rightarrow> block [finish_cancellation_outcome oc, on_run (\<lambda>st. st\<lparr>rs_task := Finished\<rparr>)]
     | None \<Rightarrow>
         (case rs_cancellation_task st of
            None \<Rightarrow> block
                [on_run (\<lambda>st. snd (undriven st)), finish_cancellation_outcome (fst (undriven st)),
                 on_run (\<lambda>st. st\<lparr>rs_task := Finished\<rparr>)]
          | Some (Driven oc) \<Rightarrow> block
              [on_run (set_outcome oc), finish_cancellation_outcome oc,
               on_run (\<lambda>st. st\<lparr>rs_task := Finished\<rparr>)]
          | Some Driving \<Rightarrow> on_run (\<lambda>st. st\<lparr>rs_task := Settling b\<rparr>))) (\<lambda>_. run_ok) R"
  proof (cases "rs_cancellation_outcome c")
    case (Some oc)
    with calm obtain reason where "source_of c oc reason" by (auto simp: calm_def)
    with Some outcome show ?thesis
      by (simp del: block.simps) (rule finish_and_end, rule finish_known_outcome [OF calm])
  next
    case no_outcome: None
    show ?thesis
    proof (cases "rs_cancellation_task c")
      case None
      then have "rs_cancellation_report c = None" using calm by (auto simp: calm_def)
      then have fit: "outcome_fits ''unsupported'' (undriven_reason c) (rs_cancellation_report c)"
        using undriven_reason_listed by (simp add: outcome_fits_def)
      have "contract (wr Cancelling c) (block
          [on_run (\<lambda>st. snd (undriven st)), finish_cancellation_outcome (fst (undriven c)),
           on_run (\<lambda>st. st\<lparr>rs_task := Finished\<rparr>)]) (\<lambda>_. run_ok) R"
        by (rule contract_block_Cons, rule on_run_keeps [OF undriven_change(1)], rule finish_and_end,
            rule finish_cancellation_outcome_ends)
          (use fit c in \<open>simp_all add: undriven_fields\<close>)
      then show ?thesis
        by (simp add: outcome no_outcome task None undr del: block.simps)
    next
      case (Some t)
      show ?thesis
      proof (cases t)
        case Driving
        have "contract (wr Cancelling c) (on_run (\<lambda>st. st\<lparr>rs_task := Settling b\<rparr>)) (\<lambda>_. live) R"
          by (rule to_live, rule wr_changes) (auto intro: calm_task simp: calm status)
        then have "contract (wr Cancelling c) (on_run (\<lambda>st. st\<lparr>rs_task := Settling b\<rparr>)) (\<lambda>_. run_ok) R"
          by (rule contract_conseq) (auto simp: run_ok_def)
        then show ?thesis by (simp add: outcome no_outcome task Some Driving)
      next
        case (Driven oc)
        with Some calm obtain reason where src: "source_of c oc reason" by (auto simp: calm_def)
        have fit: "outcome_fits (oc_status oc) reason (rs_cancellation_report c)"
          using calm_source [OF calm src] by blast
        have "contract (wr Cancelling c) (block
            [on_run (set_outcome oc), finish_cancellation_outcome oc,
             on_run (\<lambda>st. st\<lparr>rs_task := Finished\<rparr>)]) (\<lambda>_. run_ok) R"
          by (rule contract_block_Cons, rule on_run_keeps [OF set_outcome_change], rule finish_and_end,
              rule finish_cancellation_outcome_ends)
            (use src fit in \<open>simp_all add: set_outcome_def source_of_def\<close>)
        then show ?thesis
          by (simp add: outcome no_outcome task Some Driven del: block.simps)
      qed
    qed
  qed
qed

end
