(* ===== verification/Run_Sections.thy ===== *)
theory Run_Sections
  imports Run_Invariant
begin

text \<open>
  Every section of \<open>_execute\<close>, \<open>_drive_domain_cancellation\<close> and \<open>cancel\<close> keeps the invariant of a
  run, and the step relation of a run: in which order its tasks and its callers can take their
  sections. The relation allows every caller's section whenever its own guard holds, which covers
  all schedules of any number of concurrent callers.
\<close>

section \<open>Sections of the execution task\<close>

definition unsettled :: "shared \<times> run_state \<Rightarrow> bool" where
  "unsettled p \<longleftrightarrow> live p \<or> (\<exists>t. ended t p)"

lemma weaken_error: "contract P m Q R \<Longrightarrow> (\<And>e s. R e s \<Longrightarrow> R' e s) \<Longrightarrow> contract P m Q R'"
  by (erule contract_conseq) auto

lemma weaken_result: "contract P m Q R \<Longrightarrow> (\<And>x s. Q x s \<Longrightarrow> Q' x s) \<Longrightarrow> contract P m Q' R"
  by (erule contract_conseq) auto

lemma step_refused_active:
  "calm c \<Longrightarrow> r_status (rs_run c) = s \<Longrightarrow> s \<noteq> Accepted \<Longrightarrow> step_refused s c e p \<Longrightarrow> active p"
  by (auto simp: step_refused_def active_def)

lemma start_active: "contract live start (\<lambda>_. active) R"
proof (rule contract_live)
  fix c assume calm: "calm c"
  show "contract (wr (r_status (rs_run c)) c) start (\<lambda>_. active) R"
  proof (cases "r_status (rs_run c) = Accepted")
    case True
    then show ?thesis
      using to_active [OF start_keeps [OF True] calm_running [OF calm True]] by simp
  next
    case False
    then show ?thesis using start_other [OF False] calm by (auto intro: to_active)
  qed
qed

lemma start_step_active: "contract active (start_step step k) (\<lambda>_. active) (\<lambda>_. active)"
  by (rule contract_active; rule weaken_error, rule to_active, rule start_step_keeps)
    (auto intro: step_refused_active)

lemma complete_step_active: "contract active complete_step (\<lambda>_. active) R"
  by (rule contract_active; rule to_active, rule complete_step_keeps) auto

lemma task_active: "contract active (on_run (\<lambda>st. st\<lparr>rs_task := Executing k\<rparr>)) (\<lambda>_. active) R"
  by (rule contract_active; rule to_active, rule wr_changes) (auto intro: calm_task)

lemma active_run_ok: "active p \<Longrightarrow> run_ok p"
  by (simp add: run_ok_def active_live)

lemma enter_step_ok: "contract active (enter_step k) (\<lambda>_. run_ok) (\<lambda>_. active)"
proof -
  have "contract active (block [start_step step k, on_run (\<lambda>st. st\<lparr>rs_task := Executing k\<rparr>)])
      (\<lambda>_. run_ok) (\<lambda>_. active)" for step
    by (rule contract_block_Cons, rule start_step_active, rule contract_block_Cons, rule task_active,
        rule contract_block_Nil) (rule active_run_ok)
  then show ?thesis
    unfolding enter_step_def
    by (intro contract_reading_keep)
      (auto intro!: contract_throw simp del: block.simps)
qed

lemma begin_cancelling_active:
  "contract active begin_cancelling (\<lambda>_ p. \<exists>c. calm c \<and> r_status (rs_run c) = Cancelling \<and> wr Cancelling c p) R"
proof (rule contract_active)
  fix c assume "calm c" "r_status (rs_run c) = Running"
  then show "contract (wr Running c) begin_cancelling
      (\<lambda>_ p. \<exists>c. calm c \<and> r_status (rs_run c) = Cancelling \<and> wr Cancelling c p) R"
    using calm_cancelling set_status_fields(1) by (intro weaken_result [OF begin_cancelling_keeps]) blast+
next
  fix c assume "calm c" "r_status (rs_run c) = Cancelling"
  then show "contract (wr Cancelling c) begin_cancelling
      (\<lambda>_ p. \<exists>c. calm c \<and> r_status (rs_run c) = Cancelling \<and> wr Cancelling c p) R"
    by (intro weaken_result [OF begin_cancelling_other]) auto
qed

lemma settle_cancelling:
  "contract (\<lambda>p. \<exists>c. calm c \<and> r_status (rs_run c) = Cancelling \<and> wr Cancelling c p) (settle b) (\<lambda>_. run_ok) R"
  using settle_ok unfolding contract_iff by blast

lemma wr_facts:
  assumes "wr s c p"
  shows "core (snd p) = c" and "\<not> rs_terminal c" and "\<not> rs_terminal (snd p)"
  using assms by (cases p, auto simp: wr_def)+

lemma ended_terminal: "ended t p \<Longrightarrow> rs_terminal (snd p)"
proof -
  assume "ended t p"
  then obtain c rec where "core (snd p) = c\<lparr>rs_terminal := True, rs_cancellation_record := Some rec,
      rs_cancellation_sources := []\<rparr>"
    by (cases p) (auto simp: ended_def closed_def)
  then have "rs_terminal (core (snd p)) = True" by simp
  then show ?thesis by simp
qed

lemma run_ok_open: "run_ok p \<Longrightarrow> \<not> rs_terminal (snd p) \<Longrightarrow> live p"
  unfolding run_ok_def using ended_terminal by blast

lemma local_history:
  assumes "local_change f g"
  shows "hist_ok sh (f st) s = hist_ok sh st s" and "own_entries sh (f st) = own_entries sh st"
  using assms by (simp_all add: local_change_def hist_ok_def own_entries_def)

lemma live_open: "live p \<Longrightarrow> \<not> rs_terminal (snd p)"
  by (cases p) (auto simp: live_def wr_def)

lemma active_status: "active p \<Longrightarrow> run_status_of p = Running \<or> run_status_of p = Cancelling"
  by (cases p) (auto simp: active_def wr_def dest: calm_status)

lemma handle_cancelled_ok: "contract active handle_cancelled (\<lambda>_. run_ok) (\<lambda>_. active)"
proof -
  have skip: "contract active (whenever (\<lambda>s. run_status_of s = Accepted) (block [start, activate_first_step]))
      (\<lambda>_. active) (\<lambda>_. active)"
    by (rule contractI) (auto simp: whenever_def dest: active_status)
  have "contract active (block
       [whenever (\<lambda>s. run_status_of s = Accepted) (block [start, activate_first_step]),
        begin_cancelling, settle True]) (\<lambda>_. run_ok) (\<lambda>_. active)"
    by (rule contract_block_Cons, rule skip, rule contract_block_Cons, rule begin_cancelling_active,
        rule contract_block_Cons, rule settle_cancelling, rule contract_block_Nil)
  then show ?thesis
    unfolding handle_cancelled_def
    using active_live live_open by (intro contract_reading_keep) (fastforce simp del: block.simps)
qed

lemma calm_running_fits:
  assumes "calm c" and "r_status (rs_run c) = Running"
  shows "fits Running ''WorkRunCompleted'' c" and "fits Running ''WorkRunFailed'' c"
proof -
  have "rs_cancellation_resolution c = None" "rs_cancellation_report c = None"
    using assms by (auto simp: calm_def)
  then show "fits Running ''WorkRunCompleted'' c" and "fits Running ''WorkRunFailed'' c"
    by (rule unresolved_fits)+
qed

lemma finish_running:
  assumes "\<And>c. calm c \<Longrightarrow> r_status (rs_run c) = Running \<Longrightarrow>
    contract (wr Running c) m (\<lambda>_. ended (rs_task c)) (\<lambda>_. active)"
  shows "contract active (reading (\<lambda>(sh, st).
     if rs_terminal st then on_run (\<lambda>st. st\<lparr>rs_task := Finished\<rparr>)
     else if r_status (rs_run st) = Cancelling then settle False
     else block [m, on_run (\<lambda>st. st\<lparr>rs_task := Finished\<rparr>)])) (\<lambda>_. run_ok) (\<lambda>_. active)"
proof (rule contract_active)
  fix c assume c: "calm c" "r_status (rs_run c) = Running"
  have "contract (wr Running c) (block [m, on_run (\<lambda>st. st\<lparr>rs_task := Finished\<rparr>)]) (\<lambda>_. run_ok) (\<lambda>_. active)"
    by (rule contract_block_Cons, rule assms [OF c], rule contract_block_Cons, rule ended_task,
        rule contract_block_Nil) (simp add: run_ok_def)
  with c show "contract (wr Running c) (reading (\<lambda>(sh, st).
     if rs_terminal st then on_run (\<lambda>st. st\<lparr>rs_task := Finished\<rparr>)
     else if r_status (rs_run st) = Cancelling then settle False
     else block [m, on_run (\<lambda>st. st\<lparr>rs_task := Finished\<rparr>)])) (\<lambda>_. run_ok) (\<lambda>_. active)"
    by (intro contract_reading_keep) (auto simp: wr_def simp del: block.simps)
next
  fix c assume c: "calm c" "r_status (rs_run c) = Cancelling"
  then show "contract (wr Cancelling c) (reading (\<lambda>(sh, st).
     if rs_terminal st then on_run (\<lambda>st. st\<lparr>rs_task := Finished\<rparr>)
     else if r_status (rs_run st) = Cancelling then settle False
     else block [m, on_run (\<lambda>st. st\<lparr>rs_task := Finished\<rparr>)])) (\<lambda>_. run_ok) (\<lambda>_. active)"
    using settle_ok [OF c]
    by (intro contract_reading_keep) (auto simp: wr_def simp del: block.simps)
qed

lemma handle_exception_ok: "contract active (handle_exception e) (\<lambda>_. run_ok) (\<lambda>_. active)"
  unfolding handle_exception_def
  by (rule finish_running, rule contract_ended [OF finish_failed_closes])
    (auto intro: calm_running_fits)

lemma execution_returned_ok: "contract active execution_returned (\<lambda>_. run_ok) (\<lambda>_. active)"
  unfolding execution_returned_def
  by (rule finish_running, rule contract_ended [OF finish_completed_closes])
    (auto intro: calm_running_fits)

lemma handle_raised_ok: "contract active (handle_raised e) (\<lambda>_. run_ok) (\<lambda>_. active)"
  unfolding handle_raised_def
  by (auto intro: handle_cancelled_ok handle_exception_ok)

lemma ends_task_ok:
  assumes "contract P m (\<lambda>_. run_ok) (\<lambda>_. live)"
  shows "contract P (ends_task m) (\<lambda>_. run_ok) (\<lambda>_. run_ok)"
  unfolding ends_task_def
  by (rule contract_handle [OF assms], rule contract_chain, rule finished_task, rule contract_throw)
    (simp add: run_ok_def)

lemma execute_begin_ok: "contract live execute_begin (\<lambda>_. run_ok) (\<lambda>_. run_ok)"
proof -
  have task: "contract active (on_run (\<lambda>st. st\<lparr>rs_task := Executing 0\<rparr>)) (\<lambda>_. run_ok) (\<lambda>_. active)"
    by (rule weaken_result, rule task_active) (rule active_run_ok)
  have enter: "contract active (reading (\<lambda>(sh, st).
        if spec_steps (rs_spec st) = [] then on_run (\<lambda>st. st\<lparr>rs_task := Executing 0\<rparr>)
        else enter_step 0)) (\<lambda>_. run_ok) (\<lambda>_. active)"
    by (rule contract_reading_keep) (auto intro: task enter_step_ok)
  have body: "contract live (block [start, reading (\<lambda>(sh, st).
        if spec_steps (rs_spec st) = [] then on_run (\<lambda>st. st\<lparr>rs_task := Executing 0\<rparr>)
        else enter_step 0)]) (\<lambda>_. run_ok) (\<lambda>_. active)"
    by (rule contract_block_Cons, rule start_active, rule contract_block_Cons, rule enter,
        rule contract_block_Nil)
  show ?thesis
    unfolding execute_begin_def
    by (rule ends_task_ok, rule contract_handle, rule body, rule weaken_error, rule handle_raised_ok)
      (rule active_live)
qed

lemma execute_returned_ok: "contract active (execute_returned k) (\<lambda>_. run_ok) (\<lambda>_. run_ok)"
proof -
  have next_step: "contract active (handle (block [complete_step, enter_step (Suc k)]) handle_raised)
      (\<lambda>_. run_ok) (\<lambda>_. active)"
    by (rule contract_handle, rule contract_block_Cons, rule complete_step_active,
        rule contract_block_Cons, rule enter_step_ok, rule contract_block_Nil)
      (auto intro: handle_raised_ok)
  have last_step: "contract active (try_else complete_step handle_raised (\<lambda>_. execution_returned))
      (\<lambda>_. run_ok) (\<lambda>_. active)"
    by (rule contract_try_else, rule complete_step_active, rule handle_raised_ok,
        rule execution_returned_ok)
  show ?thesis
    unfolding execute_returned_def Let_def
    by (rule ends_task_ok, rule weaken_error [where R = "\<lambda>_. active"], rule contract_reading_keep)
      (auto intro: execution_returned_ok next_step last_step active_live simp del: block.simps)
qed

lemma execute_raised_ok: "contract active (execute_raised e) (\<lambda>_. run_ok) (\<lambda>_. run_ok)"
  unfolding execute_raised_def
  by (rule ends_task_ok, rule weaken_error, rule handle_raised_ok) (rule active_live)

section \<open>Cancellation\<close>

lemma activate_running: "contract active activate_first_step (\<lambda>_. active) (\<lambda>_. active)"
  by (rule contract_active; rule weaken_error, rule to_active, rule activate_first_step_keeps)
    (auto intro: step_refused_active)

lemma requested_live:
  "contract live (on_run (\<lambda>st. st\<lparr>rs_cancellation_requested := q\<rparr>)) (\<lambda>_. live) R"
  by (rule contract_live, rule to_live, rule wr_changes) (auto simp: calm_def source_of_def agreeing_def)

definition admit_driving :: "run_state \<Rightarrow> run_state" where
  "admit_driving st =
     (if rs_has_cancellation st then
        (if rs_cancellation_task st = None then st\<lparr>rs_cancellation_task := Some Driving\<rparr> else st)
      else snd (no_capability st))"

lemma observing_change:
  "local_change admit_driving admit_driving"
  "local_change (drive_done r) (drive_done r)"
  "local_change (\<lambda>st. snd (domain_timeout st)) (\<lambda>st. snd (domain_timeout st))"
  "local_change (\<lambda>st. snd (execution_timeout st)) (\<lambda>st. snd (execution_timeout st))"
proof -
  show "local_change admit_driving admit_driving"
    by (simp add: local_change_def admit_driving_def no_capability_def new_outcome_def set_outcome_def
        observe_outcome_def core_def)
  show "local_change (drive_done r) (drive_done r)"
    by (cases r) (simp_all add: local_change_def drive_done_def drive_outcome_def new_outcome_def
        set_outcome_def observe_outcome_def core_def Let_def)
  show "local_change (\<lambda>st. snd (domain_timeout st)) (\<lambda>st. snd (domain_timeout st))"
    by (simp add: local_change_def domain_timeout_def new_outcome_def set_outcome_def
        observe_outcome_def core_def)
  show "local_change (\<lambda>st. snd (execution_timeout st)) (\<lambda>st. snd (execution_timeout st))"
    by (simp add: local_change_def execution_timeout_def new_outcome_def set_outcome_def
        observe_outcome_def core_def)
qed

text \<open>A new outcome, observed and made the current one, keeps an open run calm.\<close>

lemma calm_observe:
  assumes calm: "calm c" and status: "r_status (rs_run c) = Cancelling" and open_run: "\<not> rs_terminal c"
    and report: "rs_cancellation_report c' = rs_cancellation_report c \<or>
      rs_cancellation_task c = Some Driving \<and>
      known_report (rs_cancellation_report c')"
    and task: "rs_cancellation_task c' = rs_cancellation_task c \<or>
      rs_cancellation_task c = Some Driving \<and> rs_cancellation_task c' = Some (Driven oc)"
    and driving: "rs_cancellation_task c' = Some Driving \<Longrightarrow> rs_cancellation_report c' = None"
    and oc: "oc_identity oc = rs_next_outcome c" "rs_next_outcome c' = Suc (rs_next_outcome c)"
    and sources: "rs_cancellation_sources c' =
      AList.update (rs_next_outcome c) (oc, reason) (rs_cancellation_sources c)"
    and outcome: "rs_cancellation_outcome c' = Some oc"
    and same: "rs_run c' = rs_run c" "rs_has_cancellation c' = rs_has_cancellation c"
      "rs_cancellation_resolution c' = rs_cancellation_resolution c" "rs_task c' = rs_task c"
    and agree: "agreeing c' oc reason"
  shows "calm c'"
proof -
  have old: "oc_identity oc' = i \<and> i < rs_next_outcome c \<and> agreeing c oc' r"
    if "map_of (rs_cancellation_sources c) i = Some (oc', r)" for i oc' r
    using calm_parts(6) [OF calm that] .
  have agree_old: "agreeing c' oc' r" if "map_of (rs_cancellation_sources c) i = Some (oc', r)" for i oc' r
  proof -
    have a: "agreeing c oc' r" using old [OF that] by blast
    show ?thesis
    proof (cases "rs_cancellation_task c = Some Driving")
      case False
      with a report task same show ?thesis by (simp add: agreeing_def)
    next
      case True
      then have none: "rs_cancellation_report c = None" "rs_has_cancellation c"
        using calm_parts(3,5) [OF calm] by auto
      with a True have "oc_status oc' = ''failed''" "r \<in> {''domain_timeout'', ''execution_timeout''}"
        by (auto simp: agreeing_def outcome_fits_def undriven_reasons_def)
      moreover have "known_report (rs_cancellation_report c')" using report none by auto
      ultimately show ?thesis by (auto simp: agreeing_def outcome_fits_def)
    qed
  qed
  have entries: "oc_identity oc' = i \<and> i < rs_next_outcome c' \<and> agreeing c' oc' r"
    if "map_of (rs_cancellation_sources c') i = Some (oc', r)" for i oc' r
    using that old [of i oc' r] agree_old [of i oc' r] agree oc
    by (auto simp: sources split: if_splits)
  have kept: "source_of c' oc' r" if "source_of c oc' r" for oc' r
    using that old [of "oc_identity oc'" oc' r] by (auto simp: source_of_def sources)
  have new: "source_of c' oc reason" by (simp add: source_of_def sources oc)
  have driven: "\<exists>r. source_of c' oc' r" if t: "rs_cancellation_task c' = Some (Driven oc')" for oc'
  proof (cases "rs_cancellation_task c' = rs_cancellation_task c")
    case True
    then have "rs_cancellation_task c = Some (Driven oc')" using t by simp
    then obtain r where "source_of c oc' r" using calm_parts(8) [OF calm] by blast
    then show ?thesis using kept by blast
  next
    case False
    then have "oc' = oc" using task t by simp
    then show ?thesis using new by blast
  qed
  show ?thesis
  proof (rule calmI)
    show "rs_cancellation_resolution c' = None" using calm_parts(1) [OF calm] same by simp
    show "r_status (rs_run c') = Cancelling" using status same by simp
    show "known_report (rs_cancellation_report c')" using report calm_parts(2) [OF calm] by auto
    show "\<not> rs_has_cancellation c' \<Longrightarrow> rs_cancellation_task c' = None"
      using calm_parts(3) [OF calm] task same by auto
    show "rs_cancellation_task c' = None \<Longrightarrow> rs_cancellation_report c' = None"
      using calm_parts(4) [OF calm] task report by auto
    show "\<exists>r. source_of c' oc' r" if "rs_cancellation_outcome c' = Some oc'" for oc'
      using that outcome new by auto
  qed (use driving entries driven in auto)
qed

lemma calm_driving:
  assumes calm: "calm c" and "r_status (rs_run c) = Cancelling" and cap: "rs_has_cancellation c"
    and none: "rs_cancellation_task c = None"
  shows "calm (c\<lparr>rs_cancellation_task := Some Driving\<rparr>)"
proof (rule calmI)
  have agree: "agreeing (c\<lparr>rs_cancellation_task := Some Driving\<rparr>) oc r" if "agreeing c oc r" for oc r
    using that none by (simp add: agreeing_def)
  fix i oc reason
  assume "map_of (rs_cancellation_sources (c\<lparr>rs_cancellation_task := Some Driving\<rparr>)) i = Some (oc, reason)"
  then show "oc_identity oc = i \<and> i < rs_next_outcome (c\<lparr>rs_cancellation_task := Some Driving\<rparr>) \<and>
      agreeing (c\<lparr>rs_cancellation_task := Some Driving\<rparr>) oc reason"
    using calm_parts(6) [OF calm, of i oc reason] agree by simp
next
  fix oc assume "rs_cancellation_outcome (c\<lparr>rs_cancellation_task := Some Driving\<rparr>) = Some oc"
  then show "\<exists>reason. source_of (c\<lparr>rs_cancellation_task := Some Driving\<rparr>) oc reason"
    using calm_parts(7) [OF calm] by (simp add: source_of_def)
qed (use assms calm_parts(1,2,4) [OF calm] in simp_all)

lemma admit_driving_calm:
  assumes "calm c" and "r_status (rs_run c) = Cancelling" and "\<not> rs_terminal c"
  shows "calm (admit_driving c)"
proof (cases "rs_has_cancellation c")
  case True
  with assms calm_driving [OF assms(1,2)] show ?thesis by (simp add: admit_driving_def)
next
  case False
  then have "rs_cancellation_task c = None" "rs_cancellation_report c = None"
    using calm_parts(3,4) [OF assms(1)] by auto
  with False assms show ?thesis
    unfolding admit_driving_def
    by (intro calm_observe [OF assms, where oc = "fst (no_capability c)" and reason = "''no_capability''"])
      (simp_all add: no_capability_def new_outcome_def set_outcome_def observe_outcome_def agreeing_def
        outcome_fits_def undriven_reasons_def)
qed

lemma domain_timeout_calm:
  assumes "calm c" and "r_status (rs_run c) = Cancelling" and "\<not> rs_terminal c"
  shows "calm (snd (domain_timeout c))"
proof -
  have "known_report (rs_cancellation_report c)"
    "rs_cancellation_task c = Some Driving \<Longrightarrow> rs_cancellation_report c = None"
    using calm_parts(2,5) [OF assms(1)] by auto
  with assms show ?thesis
    by (intro calm_observe [OF assms, where oc = "fst (domain_timeout c)" and reason = "''domain_timeout''"])
      (simp_all add: domain_timeout_def new_outcome_def set_outcome_def observe_outcome_def agreeing_def
        outcome_fits_def)
qed

lemma execution_timeout_calm:
  assumes "calm c" and "r_status (rs_run c) = Cancelling" and "\<not> rs_terminal c"
  shows "calm (snd (execution_timeout c))"
proof -
  have "known_report (rs_cancellation_report c)"
    "rs_cancellation_task c = Some Driving \<Longrightarrow> rs_cancellation_report c = None"
    using calm_parts(2,5) [OF assms(1)] by auto
  with assms show ?thesis
    by (intro calm_observe [OF assms, where oc = "fst (execution_timeout c)" and reason = "''execution_timeout''"])
      (simp_all add: execution_timeout_def new_outcome_def set_outcome_def observe_outcome_def agreeing_def
        outcome_fits_def)
qed

text \<open>\<open>WorkCancellationOutcome.__post_init__\<close>.\<close>

definition outcome_valid :: "string \<Rightarrow> raised option \<Rightarrow> bool" where
  "outcome_valid status error \<longleftrightarrow>
     status \<in> {''settled'', ''unsupported'', ''failed''} \<and>
     (status = ''failed'' \<longrightarrow> error \<noteq> None) \<and> (status \<noteq> ''failed'' \<longrightarrow> error = None)"

definition result_valid :: "drive_result \<Rightarrow> bool" where
  "result_valid r = (case r of Reported status error \<Rightarrow> outcome_valid status error | _ \<Rightarrow> True)"

lemma drive_done_fields:
  "rs_cancellation_report (drive_done r c) =
     (case r of Reported status _ \<Rightarrow> Some status | _ \<Rightarrow> rs_cancellation_report c)"
  "rs_cancellation_task (drive_done r c) = Some (Driven (fst (drive_outcome r c)))"
  "oc_status (fst (drive_outcome r c)) = (case r of Reported status _ \<Rightarrow> status | _ \<Rightarrow> ''failed'')"
  "rs_has_cancellation (drive_done r c) = rs_has_cancellation c"
  by (simp_all add: drive_done_def drive_outcome_def new_outcome_def set_outcome_def
      observe_outcome_def Let_def split: drive_result.split)

lemma drive_done_calm:
  assumes "calm c" and "r_status (rs_run c) = Cancelling" and "\<not> rs_terminal c"
    and "rs_cancellation_task c = Some Driving" and "result_valid r"
  shows "calm (drive_done r c)"
proof -
  have report: "rs_cancellation_report c = None" using calm_parts(5) [OF assms(1,4)] .
  have agree: "agreeing (drive_done r c) (fst (drive_outcome r c)) (drive_reason r)"
  proof (cases r)
    case (Reported status error)
    with assms(5) consider "status = ''settled''" | "status = ''unsupported''" | "status = ''failed''"
      by (auto simp: result_valid_def outcome_valid_def)
    then show ?thesis
      by cases (simp_all add: Reported agreeing_def drive_done_fields outcome_fits_def drive_reason_def)
  qed (simp_all add: agreeing_def drive_done_fields outcome_fits_def drive_reason_def report)
  have known: "known_report (rs_cancellation_report (drive_done r c))"
    using assms(5) report
    by (cases r) (auto simp: drive_done_fields result_valid_def outcome_valid_def known_report_def)
  show ?thesis
    using assms(3,4) agree known
    by (intro calm_observe [OF assms(1-3), where oc = "fst (drive_outcome r c)" and reason = "drive_reason r"])
      (auto simp: drive_done_def drive_outcome_def new_outcome_def set_outcome_def observe_outcome_def
        split: drive_result.split)
qed

lemma cancel_admit_ok: "contract run_ok cancel_admit (\<lambda>_. run_ok) (\<lambda>_. run_ok)"
proof -
  have accepted: "contract live (whenever (\<lambda>s. run_status_of s = Accepted) (block [start, activate_first_step]))
      (\<lambda>_. active) (\<lambda>_. active)"
  proof (rule contract_whenever)
    have "contract live (block [start, activate_first_step]) (\<lambda>_. active) (\<lambda>_. active)"
      by (rule contract_block_Cons, rule start_active, rule contract_block_Cons, rule activate_running,
          rule contract_block_Nil)
    then show "contract (\<lambda>s. live s \<and> run_status_of s = Accepted) (block [start, activate_first_step])
        (\<lambda>_. active) (\<lambda>_. active)"
      by (rule contract_conseq) auto
    fix p assume "live p" "run_status_of p \<noteq> Accepted"
    then show "active p" by (cases p) (auto simp: live_def active_def wr_def)
  qed
  have admit: "contract (\<lambda>p. \<exists>c. calm c \<and> r_status (rs_run c) = Cancelling \<and> wr Cancelling c p)
      (on_run admit_driving) (\<lambda>_. run_ok) (\<lambda>_. active)"
  proof (rule contractI)
    fix p assume "\<exists>c. calm c \<and> r_status (rs_run c) = Cancelling \<and> wr Cancelling c p"
    then obtain c where c: "calm c" "r_status (rs_run c) = Cancelling" "wr Cancelling c p" by blast
    have "contract (wr Cancelling c) (on_run admit_driving) (\<lambda>_. live) (\<lambda>_ _. False)"
      by (rule to_live, rule on_run_keeps [OF observing_change(1)], rule admit_driving_calm)
        (use c calm_open in \<open>auto simp: admit_driving_def no_capability_def new_outcome_def
           set_outcome_def observe_outcome_def\<close>)
    from contractD(1) [OF this c(3)] show "case on_run admit_driving p of
        (Inl e, s') \<Rightarrow> active s' | (Inr x, s') \<Rightarrow> run_ok s'"
      by (auto simp: change_def run_ok_def)
  qed
  have body: "contract live (block
     [on_run (\<lambda>st. st\<lparr>rs_cancellation_requested := True\<rparr>),
      whenever (\<lambda>s. run_status_of s = Accepted) (block [start, activate_first_step]),
      begin_cancelling, on_run admit_driving]) (\<lambda>_. run_ok) (\<lambda>_. active)"
    by (rule contract_block_Cons, rule requested_live, rule contract_block_Cons, rule accepted,
        rule contract_block_Cons, rule begin_cancelling_active, rule contract_block_Cons, rule admit,
        rule contract_block_Nil)
  show ?thesis
    unfolding cancel_admit_def admit_driving_def [symmetric]
    by (rule contract_whenever, rule contract_conseq [OF body])
      (auto simp: run_ok_open active_run_ok simp del: block.simps)
qed

section \<open>The step relation of a run\<close>

text \<open>
  One section of one task or caller. Any schedule of the event loop is a sequence of such steps.
  A context to publish with is handed out after the run has started; the executor may publish any
  fact at any time, return or raise anything;
  the domain may report any outcome the constructor of outcomes admits. A caller of \<open>cancel\<close> that is itself
  cancelled while it waits for the execution task is left out.
\<close>

inductive run_step :: "shared \<times> run_state \<Rightarrow> shared \<times> run_state \<Rightarrow> bool" where
  step_begin: "rs_task (snd p) = Created \<Longrightarrow> execute_begin p = (r, p') \<Longrightarrow> run_step p p'"
| step_returned: "rs_task (snd p) = Executing k \<Longrightarrow> execute_returned k p = (r, p') \<Longrightarrow> run_step p p'"
| step_raised: "rs_task (snd p) = Executing k \<Longrightarrow> execute_raised e p = (r, p') \<Longrightarrow> run_step p p'"
| step_publish: "run_status_of p \<noteq> Accepted \<Longrightarrow> publish_domain_fact ft p = (r, p') \<Longrightarrow> run_step p p'"
| step_settled: "rs_task (snd p) = Settling b \<Longrightarrow> rs_cancellation_task (snd p) = Some (Driven oc) \<Longrightarrow>
    settle_resumed oc p = (r, p') \<Longrightarrow> run_step p p'"
| step_settle_timeout: "rs_task (snd p) = Settling b \<Longrightarrow> settle_timed_out p = (r, p') \<Longrightarrow> run_step p p'"
| step_interrupted: "rs_task (snd p) = Created \<or> rs_task (snd p) = Settling b \<Longrightarrow>
    run_step p (fst p, (snd p)\<lparr>rs_task := Finished\<rparr>)"
| step_cancel: "cancel_admit p = (r, p') \<Longrightarrow> run_step p p'"
| step_driven: "rs_cancellation_task (snd p) = Some Driving \<Longrightarrow> result_valid res \<Longrightarrow>
    run_step p (fst p, drive_done res (snd p))"
| step_received: "rs_cancellation_task (snd p) = Some (Driven oc) \<Longrightarrow>
    run_step p (fst p, set_outcome oc (snd p))"
| step_domain_timeout: "rs_cancellation_task (snd p) \<noteq> None \<Longrightarrow>
    run_step p (fst p, snd (domain_timeout (snd p)))"
| step_execution_timeout: "rs_cancellation_outcome (snd p) \<noteq> None \<Longrightarrow>
    run_step p (fst p, snd (execution_timeout (snd p)))"
| step_cancel_finish: "rs_task (snd p) = Finished \<Longrightarrow> source_of (snd p) oc reason \<Longrightarrow>
    finish_cancellation_outcome oc p = (r, p') \<Longrightarrow> run_step p p'"

text \<open>
  Neither \<open>accept\<close> nor \<open>publish\<close> asks for a name: an operation may have an empty domain and a fact an
  empty kind, and the replay refuses both. A log whose entries are named has neither.
\<close>

definition entry_named :: "event_entry \<Rightarrow> bool" where
  "entry_named e \<longleftrightarrow>
     (case e_entry_type e of
        Operation \<Rightarrow> map_of (e_payload e) ''domain'' \<noteq> Some (JStr [])
      | Event \<Rightarrow> map_of (e_payload e) ''kind'' \<noteq> Some (JStr []))"

abbreviation named :: "shared \<Rightarrow> bool" where
  "named sh \<equiv> list_all entry_named (contents (sh_log sh))"

text \<open>A change of a run that has ended which the record does not show.\<close>

lemma closed_change:
  assumes "local_change f g" and "closed s c p"
    and "\<And>st. rs_terminal st \<Longrightarrow> rs_run (g st) = rs_run st \<and> rs_task (g st) = rs_task st \<and>
      rs_terminal (g st) = rs_terminal st \<and> rs_cancellation_record (g st) = rs_cancellation_record st \<and>
      rs_cancellation_sources (g st) = rs_cancellation_sources st"
  shows "\<exists>c'. closed s c' (fst p, f (snd p)) \<and> rs_task c' = rs_task c"
proof -
  obtain sh st where p: "p = (sh, st)" by fastforce
  obtain rec where core: "core st = c\<lparr>rs_terminal := True, rs_cancellation_record := Some rec,
      rs_cancellation_sources := []\<rparr>" and rec: "project_run (own_entries sh st) = Inr rec"
    and h: "no_faults sh" "hist_ok sh st s" "final_status s" "r_status (rs_run c) = s"
    using assms(2) by (auto simp: p closed_def)
  let ?c = "g (core st)"
  have fields: "rs_run ?c = rs_run c" "rs_task ?c = rs_task c" "rs_terminal ?c"
    "rs_cancellation_record ?c = Some rec" "rs_cancellation_sources ?c = []"
    using assms(3) [of "core st"] by (simp_all add: core)
  then have "?c = ?c\<lparr>rs_terminal := True, rs_cancellation_record := Some rec,
      rs_cancellation_sources := []\<rparr>" by simp
  moreover have "core (f st) = ?c" using assms(1) by (simp add: local_change_def)
  ultimately have "closed s ?c (sh, f st)"
    unfolding closed_def prod.case local_history [OF assms(1)] using h rec fields(1) by auto
  with fields show ?thesis by (auto simp: p)
qed

lemma ended_change:
  assumes "local_change f g" and "ended t p"
    and "\<And>st. rs_terminal st \<Longrightarrow> rs_run (g st) = rs_run st \<and> rs_task (g st) = rs_task st \<and>
      rs_terminal (g st) = rs_terminal st \<and> rs_cancellation_record (g st) = rs_cancellation_record st \<and>
      rs_cancellation_sources (g st) = rs_cancellation_sources st"
  shows "ended t (fst p, f (snd p))"
  using assms(2) closed_change [OF assms(1) _ assms(3)] unfolding ended_def by metis

lemma live_change:
  assumes "local_change f g" and "live p"
    and "\<And>c. calm c \<Longrightarrow> \<not> rs_terminal c \<Longrightarrow> core (snd p) = c \<Longrightarrow> calm (g c) \<and> rs_run (g c) = rs_run c"
  shows "live (fst p, f (snd p))"
proof -
  obtain c where c: "calm c" "wr (r_status (rs_run c)) c p" using assms(2) by (auto simp: live_def)
  have "core (snd p) = c" "\<not> rs_terminal c" using wr_facts [OF c(2)] by blast+
  then have g: "calm (g c)" "rs_run (g c) = rs_run c" using assms(3) c(1) by auto
  have "contract (wr (r_status (rs_run c)) c) (on_run f) (\<lambda>_. wr (r_status (rs_run c)) (g c)) (\<lambda>_ _. False)"
    by (rule on_run_keeps [OF assms(1)])
  from contractD(1) [OF this c(2)] have "wr (r_status (rs_run (g c))) (g c) (fst p, f (snd p))"
    by (simp add: change_def g case_prod_unfold)
  then show ?thesis using g by (auto simp: live_def)
qed

lemma run_ok_task: "run_ok p \<Longrightarrow> rs_task (snd p) \<noteq> Finished \<Longrightarrow> live p"
proof -
  assume ok: "run_ok p" and task: "rs_task (snd p) \<noteq> Finished"
  have "\<not> ended Finished p"
  proof
    assume "ended Finished p"
    then obtain c rec where "core (snd p) = c\<lparr>rs_terminal := True, rs_cancellation_record := Some rec,
        rs_cancellation_sources := []\<rparr>" "rs_task c = Finished"
      by (cases p) (auto simp: ended_def closed_def)
    then have "rs_task (core (snd p)) = Finished" by simp
    with task show False by simp
  qed
  with ok show "live p" by (simp add: run_ok_def)
qed

lemma live_calm:
  assumes "live p"
  obtains "calm (core (snd p))" and "\<not> rs_terminal (snd p)" and "wr (run_status_of p) (core (snd p)) p"
proof -
  obtain c where c: "calm c" "wr (r_status (rs_run c)) c p" using assms by (auto simp: live_def)
  have "core (snd p) = c" "\<not> rs_terminal (snd p)" using wr_facts [OF c(2)] by blast+
  moreover have "run_status_of p = r_status (rs_run c)"
    using \<open>core (snd p) = c\<close> by (metis core_fields(13))
  ultimately show thesis using c that by simp
qed

lemma live_active: "live p \<Longrightarrow> run_status_of p \<noteq> Accepted \<Longrightarrow> active p"
proof -
  assume "live p" and "run_status_of p \<noteq> Accepted"
  then show "active p"
    by (elim live_calm) (auto simp: active_def intro!: exI [of _ "core (snd p)"])
qed

lemma executing_active: "run_ok p \<Longrightarrow> rs_task (snd p) = Executing k \<Longrightarrow> active p"
proof -
  assume ok: "run_ok p" and task: "rs_task (snd p) = Executing k"
  then have live: "live p" using run_ok_task by simp
  then show "active p"
  proof (rule live_calm)
    assume "calm (core (snd p))"
    then have "run_status_of p \<noteq> Accepted" using calm_parts(9) task by fastforce
    with live show "active p" by (rule live_active)
  qed
qed

lemma cancelling_calm:
  assumes "live p" and "run_status_of p = Cancelling"
  obtains c where "calm c" and "r_status (rs_run c) = Cancelling" and "wr Cancelling c p"
    and "core (snd p) = c"
  using assms(1)
proof (rule live_calm)
  assume "calm (core (snd p))" "wr (run_status_of p) (core (snd p)) p"
  then show thesis using that assms(2) by simp
qed

lemma publish_ok: "contract active (publish_domain_fact ft) (\<lambda>_. active) (\<lambda>_. active)" if "ft_kind ft \<noteq> []"
proof -
  have progress: "ft_kind ft \<notin> set lifecycle_event_kinds \<Longrightarrow> progress_kind (ft_kind ft)"
    using that by (auto simp: progress_kind_def lifecycle_kinds_def lifecycle_event_kinds_def)
  have append: "contract active (chain (refuse_terminal ''cannot publish event after terminal run'')
      (\<lambda>_. append_event (ft_kind ft) (ft_payload ft) (ft_delivery_hint ft) (ft_source_event_ref ft) False))
      (\<lambda>_. active) (\<lambda>_. active)" if new: "progress_kind (ft_kind ft)"
  proof -
    have step: "contract (wr s c) (append_event (ft_kind ft) (ft_payload ft) (ft_delivery_hint ft)
        (ft_source_event_ref ft) False) (\<lambda>_. wr s c) (\<lambda>_. active)" if "s \<in> {Running, Cancelling}" for s c
      using new that by (intro append_event_keeps) (auto simp: progress_kind_def intro: lifecycle_step.progress)
    have both: "contract (wr s c) (chain (refuse_terminal ''cannot publish event after terminal run'')
      (\<lambda>_. append_event (ft_kind ft) (ft_payload ft) (ft_delivery_hint ft) (ft_source_event_ref ft) False))
      (\<lambda>_. active) (\<lambda>_. active)" if "s \<in> {Running, Cancelling}" "calm c" "r_status (rs_run c) = s" for s c
      by (rule to_active [OF contract_chain [OF refuse_terminal_open step [OF that(1)]] that(2,3)])
        (use that(1) in auto)
    show ?thesis by (rule contract_active; rule both) simp_all
  qed
  show ?thesis
    unfolding publish_domain_fact_def
    by (rule contract_guarded, rule append, rule progress)
qed

text \<open>A fact without a kind is stored, if anything is.\<close>

lemma publish_unnamed:
  assumes "ft_kind ft = []" and "publish_domain_fact ft p = (r, p')" and "no_faults (fst p)" and "\<not> rs_terminal (snd p)"
  shows "\<not> named (fst p')"
proof -
  obtain sh st where p: "p = (sh, st)" by fastforce
  let ?st = "st\<lparr>rs_sequence := rs_sequence st + 1\<rparr>" and ?sh = "sh\<lparr>sh_clock := sh_clock sh + 1\<rparr>"
  let ?e = "event_log_entry (new_event ?st (sh_clock sh) [] (ft_payload ft) (ft_delivery_hint ft) (ft_source_event_ref ft))"
  obtain x sh' where ap: "append_entry ?e ?sh = (x, sh')" by fastforce
  have "no_faults ?sh" using assms(3) p by simp
  from append_entry_ok [OF this ap] have stored: "x = Inr ()" "contents (sh_log sh') = contents (sh_log sh) @ [?e]" by simp_all
  have "[] \<notin> set lifecycle_event_kinds" by (simp add: lifecycle_event_kinds_def)
  then have "contents (sh_log (fst p')) = contents (sh_log sh) @ [?e]"
    using assms(1,2,4) ap stored
    by (auto simp: p publish_domain_fact_def chain_def unless_raise_def refuse_terminal_def append_event_def
        terminal_record_def Let_def)
  moreover have "\<not> entry_named ?e" by (simp add: entry_named_def event_log_entry_def new_event_def Let_def)
  ultimately show ?thesis by simp
qed

lemma publish_run_ok:
  assumes "named (fst p')" and "run_ok p" and "publish_domain_fact ft p = (r, p')"
    and "run_status_of p \<noteq> Accepted"
  shows "run_ok p'"
proof (cases "rs_terminal (snd p)")
  case True
  then have "p' = p"
    using assms(3) by (auto simp: publish_domain_fact_def chain_def unless_raise_def refuse_terminal_def
        split: prod.splits sum.splits if_splits)
  with assms(2) show ?thesis by simp
next
  case False
  then have live: "live p" using run_ok_open assms(2) by blast
  then have "no_faults (fst p)" by (auto simp: live_def wr_def)
  then have kind: "ft_kind ft \<noteq> []" using publish_unnamed [OF _ assms(3)] assms(1) False by blast
  have "active p" using live live_active assms(4) by blast
  with assms(3) have "active p'" by (rule contract_result [OF publish_ok [OF kind], rotated])
  then show ?thesis by (rule active_run_ok)
qed

lemma set_outcome_live:
  assumes "live p" and "rs_cancellation_task (snd p) = Some (Driven oc)"
  shows "live (fst p, set_outcome oc (snd p))"
proof (rule live_change [OF set_outcome_change assms(1)])
  fix c assume calm: "calm c" and c: "core (snd p) = c"
  have driven: "rs_cancellation_task c = Some (Driven oc)" using c assms(2) by auto
  have status: "r_status (rs_run c) = Cancelling"
    using calm_before_cancelling(1) [OF calm] driven by auto
  have "calm (set_outcome oc c)"
  proof (rule calmI)
    fix i oc' reason assume "map_of (rs_cancellation_sources (set_outcome oc c)) i = Some (oc', reason)"
    then show "oc_identity oc' = i \<and> i < rs_next_outcome (set_outcome oc c) \<and>
        agreeing (set_outcome oc c) oc' reason"
      using calm_parts(6) [OF calm, of i oc' reason] by (simp add: set_outcome_def agreeing_def)
  next
    fix oc' assume "rs_cancellation_outcome (set_outcome oc c) = Some oc'"
    then show "\<exists>reason. source_of (set_outcome oc c) oc' reason"
      using calm_parts(8) [OF calm driven] by (simp add: set_outcome_def source_of_def)
  next
    fix oc' assume "rs_cancellation_task (set_outcome oc c) = Some (Driven oc')"
    then show "\<exists>reason. source_of (set_outcome oc c) oc' reason"
      using calm_parts(8) [OF calm, of oc'] by (simp add: set_outcome_def source_of_def)
  qed (use status driven calm_parts(1-3) [OF calm] in \<open>simp_all add: set_outcome_def\<close>)
  then show "calm (set_outcome oc c) \<and> rs_run (set_outcome oc c) = rs_run c"
    by (simp add: set_outcome_def)
qed

lemma timeout_live:
  assumes "live p" and "rs_cancellation_task (snd p) \<noteq> None \<or> rs_cancellation_outcome (snd p) \<noteq> None"
  shows "live (fst p, snd (domain_timeout (snd p)))" and "live (fst p, snd (execution_timeout (snd p)))"
proof -
  have facts: "calm (snd (domain_timeout c)) \<and> rs_run (snd (domain_timeout c)) = rs_run c \<and>
      calm (snd (execution_timeout c)) \<and> rs_run (snd (execution_timeout c)) = rs_run c"
    if c: "calm c" "\<not> rs_terminal c" "core (snd p) = c" for c
  proof -
    have "rs_cancellation_task c \<noteq> None \<or> rs_cancellation_outcome c \<noteq> None" using assms(2) c(3) by auto
    then have "r_status (rs_run c) = Cancelling" using calm_before_cancelling(1,2) [OF c(1)] by metis
    then show ?thesis
      using domain_timeout_calm [OF c(1) _ c(2)] execution_timeout_calm [OF c(1) _ c(2)]
      by (simp add: domain_timeout_def execution_timeout_def new_outcome_def set_outcome_def
          observe_outcome_def)
  qed
  show "live (fst p, snd (domain_timeout (snd p)))"
    by (rule live_change [OF observing_change(3) assms(1)]) (use facts in blast)
  show "live (fst p, snd (execution_timeout (snd p)))"
    by (rule live_change [OF observing_change(4) assms(1)]) (use facts in blast)
qed

lemma drive_live:
  assumes "live p" and "rs_cancellation_task (snd p) = Some Driving" and "result_valid res"
  shows "live (fst p, drive_done res (snd p))"
proof (rule live_change [OF observing_change(2) assms(1)])
  fix c assume c: "calm c" "\<not> rs_terminal c" "core (snd p) = c"
  have task: "rs_cancellation_task c = Some Driving" using assms(2) c(3) by auto
  then have "r_status (rs_run c) = Cancelling" using calm_before_cancelling(1) [OF c(1)] by auto
  then have "calm (drive_done res c)" using drive_done_calm [OF c(1) _ c(2) task assms(3)] by blast
  moreover have "rs_run (drive_done res c) = rs_run c"
    by (simp add: drive_done_def drive_outcome_def new_outcome_def set_outcome_def observe_outcome_def
        Let_def split: drive_result.split)
  ultimately show "calm (drive_done res c) \<and> rs_run (drive_done res c) = rs_run c" by blast
qed

lemma ended_changes:
  assumes "ended t p"
  shows "ended t (fst p, set_outcome oc (snd p))" and "ended t (fst p, drive_done res (snd p))"
    and "ended t (fst p, snd (domain_timeout (snd p)))"
    and "ended t (fst p, snd (execution_timeout (snd p)))"
  by (rule ended_change [OF set_outcome_change assms];
      simp add: set_outcome_def)
    (rule ended_change [OF observing_change(2) assms] ended_change [OF observing_change(3) assms]
      ended_change [OF observing_change(4) assms];
      simp add: drive_done_def drive_outcome_def domain_timeout_def execution_timeout_def
        new_outcome_def set_outcome_def observe_outcome_def Let_def split: drive_result.split)+

lemma settle_resumed_ok:
  assumes "live p" and "rs_task (snd p) = Settling b" and "rs_cancellation_task (snd p) = Some (Driven oc)"
    and "settle_resumed oc p = (r, p')"
  shows "run_ok p'"
proof -
  have "run_status_of p = Cancelling"
    using assms(1,2) calm_parts(10) by (elim live_calm) fastforce
  then obtain c where c: "calm c" "r_status (rs_run c) = Cancelling" "wr Cancelling c p" "core (snd p) = c"
    using cancelling_calm assms(1) by blast
  have "rs_cancellation_task c = Some (Driven oc)" using assms(3) c(4) by auto
  then obtain reason where src: "source_of c oc reason" using calm_parts(8) [OF c(1)] by blast
  have fit: "outcome_fits (oc_status oc) reason (rs_cancellation_report c)"
    using calm_source [OF c(1) src] by blast
  have "contract (wr Cancelling c) (block
      [on_run (set_outcome oc), finish_cancellation_outcome oc, on_run (\<lambda>st. st\<lparr>rs_task := Finished\<rparr>)])
      (\<lambda>_. run_ok) (\<lambda>_. live)"
    by (rule contract_block_Cons, rule on_run_keeps [OF set_outcome_change], rule finish_and_end,
        rule finish_cancellation_outcome_ends)
      (use src fit in \<open>simp_all add: set_outcome_def source_of_def\<close>)
  from contract_result [OF ends_task_ok [OF this] c(3)] show ?thesis
    using assms(4) by (simp add: settle_resumed_def)
qed

lemma settle_timed_out_ok:
  assumes "live p" and "rs_task (snd p) = Settling b" and "settle_timed_out p = (r, p')"
  shows "run_ok p'"
proof -
  have "run_status_of p = Cancelling"
    using assms(1,2) calm_parts(10) by (elim live_calm) fastforce
  then obtain c where c: "calm c" "r_status (rs_run c) = Cancelling" "wr Cancelling c p" "core (snd p) = c"
    using cancelling_calm assms(1) by blast
  have same: "fst (domain_timeout st) = fst (domain_timeout c)" if "core st = c" for st
    by (simp add: domain_timeout_def new_outcome_def core_def flip: that)
  have fit: "outcome_fits ''failed'' ''domain_timeout'' (rs_cancellation_report c)"
    using calm_parts(2) [OF c(1)] by (simp add: outcome_fits_def)
  have "contract (wr Cancelling c) (block
      [on_run (\<lambda>st. snd (domain_timeout st)), finish_cancellation_outcome (fst (domain_timeout c)),
       on_run (\<lambda>st. st\<lparr>rs_task := Finished\<rparr>)]) (\<lambda>_. run_ok) (\<lambda>_. live)"
    by (rule contract_block_Cons, rule on_run_keeps [OF observing_change(3)], rule finish_and_end,
        rule finish_cancellation_outcome_ends)
      (use wr_facts(2) [OF c(3)] fit in \<open>simp_all add: domain_timeout_def new_outcome_def set_outcome_def
        observe_outcome_def\<close>)
  then have "contract (wr Cancelling c) (reading (\<lambda>(sh, st). block
      [on_run (\<lambda>st. snd (domain_timeout st)), finish_cancellation_outcome (fst (domain_timeout st)),
       on_run (\<lambda>st. st\<lparr>rs_task := Finished\<rparr>)])) (\<lambda>_. run_ok) (\<lambda>_. live)"
    using same wr_facts(1) by (intro contract_reading_keep) (fastforce simp del: block.simps)
  from contract_result [OF ends_task_ok [OF this] c(3)] show ?thesis
    using assms(3) by (simp add: settle_timed_out_def)
qed

lemma cancel_finish_ok:
  assumes "run_ok p" and "rs_task (snd p) = Finished" and "source_of (snd p) oc reason"
    and "finish_cancellation_outcome oc p = (r, p')"
  shows "run_ok p'"
proof (cases "rs_terminal (snd p)")
  case True
  then have "p' = p" using assms(4) by (simp add: finish_cancellation_outcome_def whenever_def)
  with assms(1) show ?thesis by simp
next
  case False
  then have live: "live p" using assms(1) run_ok_open by blast
  then show ?thesis
  proof (rule live_calm)
    assume calm: "calm (core (snd p))" and w: "wr (run_status_of p) (core (snd p)) p"
    have src: "source_of (core (snd p)) oc reason" using assms(3) by (simp add: source_of_def)
    have "run_status_of p = Cancelling" using calm_source(2) [OF calm src] by simp
    then have "contract (wr (run_status_of p) (core (snd p))) (finish_cancellation_outcome oc)
        (\<lambda>_. ended Finished) (\<lambda>_ _. False)"
      using finish_known_outcome [OF calm src, of "\<lambda>_ _. False"] assms(2) by simp
    then have "contract (wr (run_status_of p) (core (snd p))) (finish_cancellation_outcome oc)
        (\<lambda>_. run_ok) (\<lambda>_. run_ok)"
      by (rule contract_conseq) (auto simp: run_ok_def)
    from contract_result [OF this w assms(4)] show ?thesis .
  qed
qed

lemma interrupted_ok: "live p \<Longrightarrow> run_ok (fst p, (snd p)\<lparr>rs_task := Finished\<rparr>)"
  using contractD(1) [OF finished_task] by (fastforce simp: change_def run_ok_def case_prod_unfold)

lemma run_step_ok: "run_step p p' \<Longrightarrow> run_ok p \<Longrightarrow> named (fst p') \<Longrightarrow> run_ok p'"
proof (induction rule: run_step.induct)
  case (step_begin p r p')
  then have "live p" using run_ok_task by simp
  then show ?case using step_begin(2) by (rule contract_result [OF execute_begin_ok])
next
  case (step_returned p k r p')
  then show ?case using contract_result [OF execute_returned_ok] executing_active by blast
next
  case (step_raised p k e r p')
  then show ?case using contract_result [OF execute_raised_ok] executing_active by blast
next
  case (step_publish p ft r p')
  then show ?case using publish_run_ok by blast
next
  case (step_settled p b oc r p')
  then have "live p" using run_ok_task by simp
  then show ?case using settle_resumed_ok step_settled by blast
next
  case (step_settle_timeout p b r p')
  then have "live p" using run_ok_task by simp
  then show ?case using settle_timed_out_ok step_settle_timeout by blast
next
  case (step_interrupted p b)
  then have "rs_task (snd p) \<noteq> Finished" by auto
  then have "live p" using run_ok_task step_interrupted by blast
  then show ?case by (rule interrupted_ok)
next
  case (step_cancel p r p')
  then show ?case using contract_result [OF cancel_admit_ok] by blast
next
  case (step_driven p res)
  then show ?case using drive_live ended_changes(2) unfolding run_ok_def by blast
next
  case (step_received p oc)
  then show ?case using set_outcome_live ended_changes(1) unfolding run_ok_def by blast
next
  case (step_domain_timeout p)
  then show ?case using timeout_live(1) ended_changes(3) unfolding run_ok_def by blast
next
  case (step_execution_timeout p)
  then show ?case using timeout_live(2) ended_changes(4) unfolding run_ok_def by blast
next
  case (step_cancel_finish p oc reason r p')
  then show ?case using cancel_finish_ok by blast
qed

end
