(* ===== verification/Run_Frame.thy ===== *)
theory Run_Frame
  imports Run_Sections
begin

text \<open>
  What a section of a run keeps whatever fails: it appends events of that run only, in increasing
  sequence, and nothing after a terminal event.
\<close>

section \<open>What a section leaves alone\<close>

text \<open>
  Whatever fails, a section of a run only appends events of that run, and keeps the run's
  identity. The frame is a \<open>state_preorder\<close>: what is built from actions that obey it obeys it.
\<close>

definition same_run :: "run_state \<Rightarrow> run_state \<Rightarrow> bool" where
  "same_run st st' \<longleftrightarrow> r_run_id (rs_run st') = r_run_id (rs_run st) \<and>
     r_operation_id (rs_run st') = r_operation_id (rs_run st) \<and>
     r_session_id (rs_run st') = r_session_id (rs_run st) \<and> rs_operation st' = rs_operation st"

definition same_place :: "run_state \<Rightarrow> run_state \<Rightarrow> bool" where
  "same_place st st' \<longleftrightarrow> same_run st st' \<and> rs_sequence st' = rs_sequence st \<and>
     rs_terminal st' = rs_terminal st"

definition terminal_event :: "event_entry \<Rightarrow> bool" where
  "terminal_event e \<longleftrightarrow> e_entry_type e = Event \<and> kind_in e terminal_kind_names"

text \<open>A run's entries in increasing sequence, with at most one terminal event, which is the last.\<close>

definition orderly :: "shared \<times> run_state \<Rightarrow> bool" where
  "orderly p \<longleftrightarrow>
     (let es = own_entries (fst p) (snd p) in
      es \<noteq> [] \<and> sorted_wrt (<) (map e_sequence es) \<and>
      e_sequence (last es) \<le> int (rs_sequence (snd p)) \<and>
      list_all (\<lambda>e. \<not> terminal_event e) (butlast es) \<and>
      (terminal_event (last es) \<longleftrightarrow> rs_terminal (snd p)))"

definition own_growth :: "shared \<times> run_state \<Rightarrow> shared \<times> run_state \<Rightarrow> bool" where
  "own_growth p p' \<longleftrightarrow> same_run (snd p) (snd p') \<and>
     set (sh_faults (fst p')) \<subseteq> set (sh_faults (fst p)) \<and>
     (sh_unavailable (fst p') \<longrightarrow> sh_unavailable (fst p) \<or> \<not> no_faults (fst p)) \<and>
     (log_ok (sh_log (fst p)) \<longrightarrow> log_ok (sh_log (fst p'))) \<and>
     (\<exists>es. contents (sh_log (fst p')) = contents (sh_log (fst p)) @ es \<and>
        (\<forall>e \<in> set es. e_entry_type e = Event \<and> e_run_id e = r_run_id (rs_run (snd p)))) \<and>
     (orderly p \<longrightarrow> orderly p')"

interpretation frame: state_preorder own_growth
proof
  fix s show "own_growth s s" by (auto simp: own_growth_def same_run_def)
next
  fix s t u assume "own_growth s t" "own_growth t u"
  moreover from this have "no_faults (fst s) \<Longrightarrow> no_faults (fst t)"
    by (auto simp: own_growth_def no_faults_def)
  ultimately show "own_growth s u" by (fastforce simp: own_growth_def same_run_def)
qed

lemma same_place_growth: "same_place st st' \<Longrightarrow> own_growth (sh, st) (sh, st')"
  by (auto simp: own_growth_def same_place_def orderly_def own_entries_def same_run_def Let_def)

lemma same_place_step: "same_place (snd p) st' \<Longrightarrow> own_growth p (fst p, st')"
  using same_place_growth [of "snd p" st' "fst p"] by simp

lemma frame_local: "(\<And>st. same_place st (f st)) \<Longrightarrow> obeys own_growth (on_run f)"
  by (auto simp: obeys_def change_def same_place_growth)

lemma append_entry_frame:
  assumes "append_entry e sh = (r, sh')"
  shows "set (sh_faults sh') \<subseteq> set (sh_faults sh)"
    and "log_ok (sh_log sh) \<Longrightarrow> log_ok (sh_log sh')"
    and "contents (sh_log sh') = contents (sh_log sh) \<or>
      contents (sh_log sh') = contents (sh_log sh) @ [e]"
    and "no_faults sh \<Longrightarrow> sh_unavailable sh' = sh_unavailable sh"
  using assms
  by (auto simp: append_entry_def Let_def log_ok_append_stored no_faults_def neq_Nil_conv dest: in_set_dropD split: if_splits)

lemma orderly_open:
  assumes "orderly (sh, st)" and "\<not> rs_terminal st"
  shows "list_all (\<lambda>e. \<not> terminal_event e) (own_entries sh st)"
proof -
  let ?es = "own_entries sh st"
  have "?es \<noteq> []" "list_all (\<lambda>e. \<not> terminal_event e) (butlast ?es)" "\<not> terminal_event (last ?es)"
    using assms by (simp_all add: orderly_def Let_def)
  then have "list_all (\<lambda>e. \<not> terminal_event e) (butlast ?es @ [last ?es])"
    by (simp del: append_butlast_last_id)
  then show ?thesis unfolding append_butlast_last_id [OF \<open>?es \<noteq> []\<close>] .
qed

text \<open>The runs that \<open>append_event\<close> leaves: the append failed, or it stored the entry.\<close>

lemma append_event_shape:
  assumes "append_event kind d hint ref terminal (sh, st) = (r, (sh', st'))"
  obtains (failed) "contents (sh_log sh') = contents (sh_log sh)"
      "st' = st\<lparr>rs_sequence := Suc (rs_sequence st)\<rparr>" "set (sh_faults sh') \<subseteq> set (sh_faults sh)"
      "log_ok (sh_log sh) \<Longrightarrow> log_ok (sh_log sh')"
      "no_faults sh \<Longrightarrow> sh_unavailable sh' = sh_unavailable sh"
  | (stored) e where "contents (sh_log sh') = contents (sh_log sh) @ [e]"
      "continues st kind e" "same_run st st'" "rs_sequence st' = Suc (rs_sequence st)"
      "rs_terminal st' \<longleftrightarrow> rs_terminal st \<or> terminal" "set (sh_faults sh') \<subseteq> set (sh_faults sh)"
      "log_ok (sh_log sh) \<Longrightarrow> log_ok (sh_log sh')"
      "no_faults sh \<Longrightarrow> sh_unavailable sh' = sh_unavailable sh"
proof -
  let ?st = "st\<lparr>rs_sequence := Suc (rs_sequence st)\<rparr>" and ?sh = "sh\<lparr>sh_clock := Suc (sh_clock sh)\<rparr>"
  let ?v = "new_event ?st (sh_clock sh) kind d hint ref"
  let ?e = "if terminal then terminal_entry ?st (event_log_entry ?v) else event_log_entry ?v"
  obtain r0 sh0 where ap: "append_entry ?e ?sh = (r0, sh0)" by fastforce
  have clock: "no_faults ?sh = no_faults sh" by (simp add: no_faults_def)
  show thesis
  proof (cases "terminal_record terminal ?st ?e")
    case (Inl err)
    with assms show thesis by (intro failed) (auto simp: append_event_def Let_def)
  next
    case (Inr rec)
    have e: "continues st kind ?e" by (simp add: continues_def)
    have "append_event kind d hint ref terminal (sh, st) = (case (r0, sh0) of
          (Inl e, sh') \<Rightarrow> (Inl e, (sh', ?st))
        | (Inr _, sh') \<Rightarrow> (Inr ?v, (sh'\<lparr>sh_published := sh_published sh' @ [?v]\<rparr>,
             confirm_event terminal ?v rec ?st)))"
      using ap Inr by (simp add: append_event_def Let_def)
    then consider x where "r0 = Inl x" "sh' = sh0" "st' = ?st"
      | "r0 = Inr ()" "sh' = sh0\<lparr>sh_published := sh_published sh0 @ [?v]\<rparr>"
        "st' = confirm_event terminal ?v rec ?st"
      using assms by (cases r0) auto
    then show thesis
    proof cases
      case 1
      have "contents (sh_log sh0) = contents (sh_log ?sh)"
        using ap 1(1) by (auto simp: append_entry_def Let_def split: if_splits)
      with 1 append_entry_frame(1,2,4) [OF ap] show thesis by (intro failed) (auto simp: clock)
    next
      case 2
      have "contents (sh_log sh0) = contents (sh_log ?sh) @ [?e]"
        using ap 2(1) by (auto simp: append_entry_def Let_def split: if_splits)
      with 2 e append_entry_frame(1,2,4) [OF ap] show thesis
        by (intro stored [of ?e]) (auto simp: confirm_event_def same_run_def clock Let_def)
    qed
  qed
qed

lemma orderly_failed:
  assumes "orderly (sh, st)" and "contents (sh_log sh') = contents (sh_log sh)"
  shows "orderly (sh', st\<lparr>rs_sequence := Suc (rs_sequence st)\<rparr>)"
  using assms by (simp add: orderly_def own_entries_def Let_def)

lemma orderly_stored:
  assumes "orderly (sh, st)" and "\<not> rs_terminal st" and "contents (sh_log sh') = contents (sh_log sh) @ [e]"
    and "continues st kind e" and "same_run st st'" and "rs_sequence st' = Suc (rs_sequence st)"
    and "rs_terminal st' \<longleftrightarrow> kind \<in> set terminal_kind_names"
  shows "orderly (sh', st')"
proof -
  have own: "own_entries sh' st' = own_entries sh st @ [e]"
    using assms(3-5) by (simp add: own_entries_def continues_def same_run_def)
  let ?es = "own_entries sh st"
  have ne: "?es \<noteq> []" and sorted: "sorted_wrt (<) (map e_sequence ?es)"
    and le: "e_sequence (last ?es) \<le> int (rs_sequence st)"
    using assms(1) by (simp_all add: orderly_def Let_def)
  have seq: "e_sequence e = int (Suc (rs_sequence st))" using assms(4) by (simp add: continues_def)
  obtain es0 l where es: "?es = es0 @ [l]" using ne by (metis rev_exhaust)
  have "sorted_wrt (<) (map e_sequence (?es @ [e]))"
    using sorted le seq sorted_wrt_snoc_last [of "map e_sequence es0" "e_sequence l" "e_sequence e"]
    by (simp add: es)
  moreover have "terminal_event e \<longleftrightarrow> kind \<in> set terminal_kind_names"
    using assms(4)
    by (auto simp: terminal_event_def continues_def kind_in_def kind_is_iff terminal_kind_names_def)
  ultimately show ?thesis
    using orderly_open [OF assms(1,2)] seq assms(6,7)
    by (simp add: orderly_def own Let_def)
qed

lemma append_event_frame:
  assumes "terminal \<longleftrightarrow> kind \<in> set terminal_kind_names"
  shows "obeys own_growth (chain (refuse_terminal m) (\<lambda>_. append_event kind d hint ref terminal))"
  unfolding obeys_def
proof
  fix p :: "shared \<times> run_state"
  obtain sh st where p: "p = (sh, st)" by fastforce
  show "own_growth p (snd (chain (refuse_terminal m) (\<lambda>_. append_event kind d hint ref terminal) p))"
  proof (cases "rs_terminal st")
    case True
    then show ?thesis by (simp add: p chain_def refuse_terminal_def frame.rel_refl)
  next
    case False
    obtain r sh' st' where ap: "append_event kind d hint ref terminal (sh, st) = (r, (sh', st'))"
      by (metis prod.exhaust)
    from ap have "own_growth (sh, st) (sh', st')"
    proof (cases rule: append_event_shape)
      case failed
      then show ?thesis
        using orderly_failed [of sh st sh'] by (auto simp: own_growth_def same_run_def)
    next
      case (stored e)
      then show ?thesis
        using orderly_stored [of sh st sh' e kind st'] False assms
        by (auto simp: own_growth_def continues_def)
    qed
    with False ap show ?thesis by (simp add: p chain_def refuse_terminal_def)
  qed
qed

lemma frame_publish_domain: "obeys own_growth (publish_domain_fact ft)"
proof (cases "ft_kind ft \<in> set lifecycle_event_kinds")
  case True
  then show ?thesis
    by (simp add: publish_domain_fact_def obeys_def chain_def unless_raise_def frame.rel_refl)
next
  case False
  then have "obeys own_growth (chain (refuse_terminal ''cannot publish event after terminal run'')
      (\<lambda>_. append_event (ft_kind ft) (ft_payload ft) (ft_delivery_hint ft) (ft_source_event_ref ft) False))"
    by (intro append_event_frame) (auto simp: lifecycle_event_kinds_def terminal_kind_names_def)
  with False show ?thesis
    by (simp add: publish_domain_fact_def obeys_def chain_def unless_raise_def)
qed

lemma frame_reading_after:
  assumes "\<And>st. obeys own_growth (chain (refuse_terminal m) (\<lambda>_. f st))"
  shows "obeys own_growth (chain (refuse_terminal m) (\<lambda>_. reading (\<lambda>(sh, st). discard (f st))))"
  unfolding obeys_def
proof
  fix p :: "shared \<times> run_state"
  have "own_growth p (snd (chain (refuse_terminal m) (\<lambda>_. f (snd p)) p))"
    using assms unfolding obeys_def by blast
  then show "own_growth p (snd (chain (refuse_terminal m) (\<lambda>_. reading (\<lambda>(sh, st). discard (f st))) p))"
    by (auto simp: chain_def refuse_terminal_def reading_def discard_def pass_def
        split: prod.splits sum.splits)
qed

lemma frame_publish_lifecycle:
  "k \<notin> set terminal_kind_names \<Longrightarrow> obeys own_growth (publish_lifecycle k d h)"
  unfolding publish_lifecycle_def
  by (rule frame_reading_after) (simp add: append_event_frame)

lemma frame_publish_terminal:
  "k \<in> set terminal_kind_names \<Longrightarrow> obeys own_growth (publish_terminal k)"
  unfolding publish_terminal_def
  by (rule frame_reading_after) (simp add: append_event_frame)

lemma frame_publish:
  "obeys own_growth (publish_lifecycle ''WorkRunStarted'' d h)"
  "obeys own_growth (publish_lifecycle ''WorkRunCancelling'' d h)"
  "obeys own_growth (publish_lifecycle ''WorkPlanStarted'' d h)"
  "obeys own_growth (publish_lifecycle ''WorkPlanCompleted'' d h)"
  "obeys own_growth (publish_lifecycle ''WorkPlanFailed'' d h)"
  "obeys own_growth (publish_lifecycle ''WorkPlanCancelled'' d h)"
  "obeys own_growth (publish_lifecycle ''WorkStepStarted'' d h)"
  "obeys own_growth (publish_lifecycle ''WorkStepCompleted'' d h)"
  "obeys own_growth (publish_lifecycle ''WorkStepFailed'' d h)"
  "obeys own_growth (publish_lifecycle ''WorkStepCancelled'' d h)"
  "obeys own_growth (publish_terminal ''WorkRunCompleted'')"
  "obeys own_growth (publish_terminal ''WorkRunFailed'')"
  "obeys own_growth (publish_terminal ''WorkRunCancelled'')"
  by (intro frame_publish_lifecycle frame_publish_terminal; simp add: terminal_kind_names_def)+

lemma same_place_updates [simp]:
  "same_place st (set_status x st)" "same_place st (st\<lparr>rs_task := t\<rparr>)" "same_place st (st\<lparr>rs_error := e\<rparr>)"
  "same_place st (st\<lparr>rs_step_active := a\<rparr>)" "same_place st (st\<lparr>rs_cancellation_resolution := r\<rparr>)"
  "same_place st (st\<lparr>rs_cancellation_requested := q\<rparr>)" "same_place st (set_outcome oc st)"
  "same_place st (st\<lparr>rs_current_step := x1, rs_current_step_index := x2,
     rs_step_active := x3, rs_run := (rs_run st)\<lparr>r_current_step_id := x4\<rparr>\<rparr>)"
  "same_place st (snd (undriven st))" "same_place st (snd (domain_timeout st))"
  "same_place st (snd (execution_timeout st))" "same_place st (admit_driving st)"
  "same_place st (drive_done res st)"
  by (simp_all add: same_place_def same_run_def set_status_def set_outcome_def undriven_def
      domain_timeout_def execution_timeout_def admit_driving_def no_capability_def drive_done_def
      drive_outcome_def new_outcome_def observe_outcome_def Let_def split: drive_result.split)

lemma frame_block: "list_all (obeys own_growth) ms \<Longrightarrow> obeys own_growth (block ms)"
  by (rule frame.obeys_block) (simp add: list_all_iff)

lemma frame_start: "obeys own_growth start" "obeys own_growth begin_cancelling"
  unfolding start_def begin_cancelling_def
  by (intro frame.obeys_whenever frame_block; simp add: frame_local frame_publish frame.obeys_whenever del: block.simps)+

lemma frame_steps: "obeys own_growth (start_step step k)" "obeys own_growth complete_step"
  "obeys own_growth activate_first_step"
proof -
  show step: "obeys own_growth (start_step step k)" for step k
    unfolding start_step_def
    by (auto intro!: frame.obeys_reading frame.obeys_pass frame.obeys_throw frame_block
        simp: frame_local frame_publish simp del: block.simps)
  show "obeys own_growth complete_step"
    unfolding complete_step_def
    by (auto intro!: frame.obeys_reading frame.obeys_pass frame_block
        simp: frame_local frame_publish simp del: block.simps split: option.split)
  show "obeys own_growth activate_first_step"
    unfolding activate_first_step_def
    by (auto intro!: frame.obeys_reading frame.obeys_pass step split: list.split)
qed

lemma frame_finish: "obeys own_growth finish_completed" "obeys own_growth (finish_failed e)"
  "obeys own_growth finish_cancelled"
  unfolding finish_completed_def finish_failed_def finish_cancelled_def Let_def
  by (auto intro!: frame.obeys_reading frame.obeys_whenever frame_block
      simp: frame_local frame_publish simp del: block.simps)

lemma frame_outcome: "obeys own_growth (finish_cancellation_outcome oc)"
  unfolding finish_cancellation_outcome_def
  by (auto intro!: frame.obeys_reading frame.obeys_whenever frame.obeys_throw frame_block
      simp: frame_local frame_finish simp del: block.simps split: option.split)

lemma frame_settle: "obeys own_growth (settle b)"
  unfolding settle_def
  by (auto intro!: frame.obeys_reading frame_block simp: frame_local frame_outcome
      simp del: block.simps split: option.split cancel_task.split)

lemma frame_handlers: "obeys own_growth (handle_raised e)" "obeys own_growth execution_returned"
  unfolding handle_raised_def handle_cancelled_def handle_exception_def execution_returned_def
  by (auto intro!: frame.obeys_reading frame.obeys_whenever frame_block
      simp: frame_local frame_settle frame_start frame_steps frame_finish simp del: block.simps)

lemma frame_ends: "obeys own_growth m \<Longrightarrow> obeys own_growth (ends_task m)"
  unfolding ends_task_def by (intro frame.obeys_rules frame_local) simp_all

lemma frame_enter: "obeys own_growth (enter_step k)"
  unfolding enter_step_def
  by (auto intro!: frame.obeys_reading frame.obeys_throw frame_block
      simp: frame_local frame_steps simp del: block.simps)

lemma frame_execute: "obeys own_growth execute_begin" "obeys own_growth (execute_returned k)"
  "obeys own_growth (execute_raised e)" "obeys own_growth (settle_resumed oc)"
  "obeys own_growth settle_timed_out"
  unfolding execute_begin_def execute_returned_def execute_raised_def settle_resumed_def
    settle_timed_out_def Let_def
  by (auto intro!: frame_ends frame.obeys_handle frame.obeys_try_else frame.obeys_reading frame_block
      simp: frame_local frame_start frame_steps frame_handlers frame_outcome frame_enter
      simp del: block.simps)

lemma frame_cancel: "obeys own_growth cancel_admit"
  unfolding cancel_admit_def admit_driving_def [symmetric]
  by (intro frame.obeys_whenever frame_block)
    (auto intro!: frame.obeys_whenever frame_block simp: frame_local frame_start frame_steps
      simp del: block.simps)

lemma run_step_frame: "run_step p p' \<Longrightarrow> own_growth p p'"
proof (induction rule: run_step.induct)
  case step_begin
  show ?case using step_begin(2) by (rule obeysD [OF frame_execute(1)])
next
  case step_returned
  show ?case using step_returned(2) by (rule obeysD [OF frame_execute(2)])
next
  case step_raised
  show ?case using step_raised(2) by (rule obeysD [OF frame_execute(3)])
next
  case step_publish
  show ?case using step_publish(2) by (rule obeysD [OF frame_publish_domain])
next
  case step_settled
  show ?case using step_settled(3) by (rule obeysD [OF frame_execute(4)])
next
  case step_settle_timeout
  show ?case using step_settle_timeout(2) by (rule obeysD [OF frame_execute(5)])
next
  case step_cancel
  show ?case using step_cancel(1) by (rule obeysD [OF frame_cancel])
next
  case step_cancel_finish
  show ?case using step_cancel_finish(3) by (rule obeysD [OF frame_outcome])
qed (simp_all add: same_place_step)

end
