(* ===== verification/Work_Runtime.thy ===== *)
theory Work_Runtime
  imports Run_Frame
begin

text \<open>
  The Work runtime (\<open>harnesswork/runtime.py\<close>, class \<open>WorkRuntime\<close>): opening it on a log, accepting
  operations, the views it offers, and its steps: accepting, or one section of one run. The world
  is the shared part (log, recording observer, clock) and the run states.

  The execution resolver is the program's client; it is an argument that returns whether the run
  has a cancellation capability, or raises. The identifier that \<open>uuid4\<close> would give is an argument.
\<close>

section \<open>State\<close>

record runtime =
  rt_shared :: shared
  rt_states :: "(string \<times> run_state) list"
  rt_operation_runs :: "(string \<times> string) list"
  rt_historical_runs :: "(string \<times> work_run) list"
  rt_historical_operation_runs :: "(string \<times> string) list"
  rt_recording_policy :: bool
  rt_retention :: "string option"
  rt_replay_checkpoint :: nat

text \<open>The arguments of the constructor that it checks.\<close>

record runtime_config =
  cf_has_executor :: bool
  cf_has_resolver :: bool
  cf_has_cancellation :: bool
  cf_cancellation_timeout :: "int option"
  cf_recording_version :: "int option"
  cf_recording_policy :: "bool option"
  cf_retention :: "string option"

definition check_config :: "runtime_config \<Rightarrow> runtime_error + unit" where
  "check_config cf =
     (if cf_has_executor cf = cf_has_resolver cf then
        Inl (InvalidSpec ''provide exactly one of executor or resolver'')
      else if cf_has_resolver cf \<and> cf_has_cancellation cf then
        Inl (InvalidSpec ''resolver owns the per-operation cancellation capability'')
      else if (\<exists>t. cf_cancellation_timeout cf = Some t \<and> t \<le> 0) then
        Inl (InvalidSpec ''cancellation_timeout must be positive'')
      else
        (case cf_recording_version cf of
           Some v \<Rightarrow> if v = 1 then Inr () else Inl (UnreadableRecording VersionError)
         | None \<Rightarrow> if cf_recording_policy cf \<noteq> None then
                    Inl (InvalidSpec ''recording_policy requires recording_version=1'')
                  else Inr ()))"

definition open_runtime ::
  "runtime_config \<Rightarrow> event_log \<Rightarrow> nat \<Rightarrow> bool list \<Rightarrow> runtime_error + runtime" where
  "open_runtime cf log now faults =
     rbind (check_config cf) (\<lambda>_.
       let history = query log any_entry None None in
       case project_work_runs history True of
         Inl err \<Rightarrow> Inl (ReplayRefused err)
       | Inr runs \<Rightarrow>
           (case (if cf_recording_version cf \<noteq> None
                  then map_sum id Some (observe_loaded history) else Inr None) of
              Inl err \<Rightarrow> Inl (UnreadableRecording err)
            | Inr recording \<Rightarrow>
                Inr \<lparr>rt_shared = \<lparr>sh_log = log, sh_recording = recording, sh_unavailable = False,
                       sh_clock = now, sh_faults = faults, sh_published = []\<rparr>,
                     rt_states = [], rt_operation_runs = [],
                     rt_historical_runs = foldl (\<lambda>d run. AList.update (r_run_id run) run d) [] runs,
                     rt_historical_operation_runs =
                       foldl (\<lambda>d run. AList.update (r_operation_id run) (r_run_id run) d) [] runs,
                     rt_recording_policy = (case cf_recording_policy cf of None \<Rightarrow> False | Some p \<Rightarrow> p),
                     rt_retention = cf_retention cf,
                     rt_replay_checkpoint = checkpoint log\<rparr>))"

section \<open>Views\<close>

definition find_run :: "runtime \<Rightarrow> string \<Rightarrow> work_run option" where
  "find_run rt rid =
     (case map_of (rt_states rt) rid of
        Some st \<Rightarrow> Some (rs_run st)
      | None \<Rightarrow> map_of (rt_historical_runs rt) rid)"

definition get_run :: "runtime \<Rightarrow> string \<Rightarrow> runtime_error + work_run" where
  "get_run rt rid =
     (case find_run rt rid of None \<Rightarrow> Inl (UnknownRun rid) | Some run \<Rightarrow> Inr run)"

definition by_operation :: "string \<Rightarrow> selector" where
  "by_operation oid = \<lparr>f_operation_id = Some oid, f_run_id = None, f_session_id = None\<rparr>"

definition by_run :: "string \<Rightarrow> selector" where
  "by_run rid = \<lparr>f_operation_id = None, f_run_id = Some rid, f_session_id = None\<rparr>"

text \<open>An operation found only in the log is remembered as historical.\<close>

definition get_run_for_operation ::
  "runtime \<Rightarrow> string \<Rightarrow> (runtime_error + work_run option) \<times> runtime" where
  "get_run_for_operation rt oid =
     (case map_of (rt_operation_runs rt) oid of
        Some rid \<Rightarrow> (Inr (map_option rs_run (map_of (rt_states rt) rid)), rt)
      | None \<Rightarrow>
          (case map_of (rt_historical_operation_runs rt) oid of
             Some rid \<Rightarrow> (Inr (map_of (rt_historical_runs rt) rid), rt)
           | None \<Rightarrow>
               (case project_work_runs (query (sh_log (rt_shared rt)) (by_operation oid) None None) True of
                  Inl err \<Rightarrow> (Inl (ReplayRefused err), rt)
                | Inr [] \<Rightarrow> (Inr None, rt)
                | Inr (run # _) \<Rightarrow>
                    (Inr (Some run), rt
                       \<lparr>rt_historical_runs := AList.update (r_run_id run) run (rt_historical_runs rt),
                        rt_historical_operation_runs :=
                          AList.update (r_operation_id run) (r_run_id run)
                            (rt_historical_operation_runs rt)\<rparr>))))"

definition active_runs :: "runtime \<Rightarrow> string option \<Rightarrow> work_run list" where
  "active_runs rt session =
     map rs_run (filter (\<lambda>st. \<not> rs_terminal st \<and>
       (session = None \<or> Some (r_session_id (rs_run st)) = session)) (map snd (rt_states rt)))"

definition query_runs ::
  "runtime \<Rightarrow> string option \<Rightarrow> string option \<Rightarrow> runtime_error + work_run list" where
  "query_runs rt rid session =
     (case project_work_runs (query (sh_log (rt_shared rt))
        \<lparr>f_operation_id = None, f_run_id = rid, f_session_id = session\<rparr> None None) False of
        Inl err \<Rightarrow> Inl (ReplayRefused err)
      | Inr runs \<Rightarrow> Inr (map (\<lambda>run.
          case map_of (rt_states rt) (r_run_id run) of
            Some st \<Rightarrow> rs_run st
          | None \<Rightarrow> (case map_of (rt_historical_runs rt) (r_run_id run) of
                       Some old \<Rightarrow> old | None \<Rightarrow> run)) runs))"

definition live_cancellation :: "run_state \<Rightarrow> cancellation_record" where
  "live_cancellation st =
     (let pending = rs_cancellation_requested st \<or> r_status (rs_run st) = Cancelling in
      \<lparr>k_operation_id = r_operation_id (rs_run st), k_run_id = r_run_id (rs_run st),
       k_session_id = r_session_id (rs_run st),
       k_status = (if pending then ''pending'' else ''not_requested''),
       k_reason_code = (if pending then ''in_progress'' else ''none''),
       k_reported_status = None, k_basis = ''live'', k_observed_sequence = int (rs_confirmed_sequence st),
       k_source_event_id = rs_confirmed_event_id st\<rparr>)"

definition get_cancellation :: "runtime \<Rightarrow> string \<Rightarrow> runtime_error + cancellation_record" where
  "get_cancellation rt rid =
     (if sh_unavailable (rt_shared rt) then Inl ObservationUnavailable
      else
        (case map_of (rt_states rt) rid of
           Some st \<Rightarrow>
             (case rs_cancellation_record st of
                Some rec \<Rightarrow> Inr rec
              | None \<Rightarrow> Inr (live_cancellation st))
         | None \<Rightarrow>
             (case project_work_cancellations (query (sh_log (rt_shared rt)) (by_run rid) None None) of
                Inl err \<Rightarrow> Inl (UnreadableCancellation err)
              | Inr [] \<Rightarrow> Inl (UnknownRun rid)
              | Inr (rec # _) \<Rightarrow> Inr rec)))"

definition get_recording_view :: "runtime \<Rightarrow> string \<Rightarrow> runtime_error + work_recording" where
  "get_recording_view rt rid =
     (case sh_recording (rt_shared rt) of
        None \<Rightarrow> Inl (InvalidSpec ''get_recording requires recording_version=1'')
      | Some ob \<Rightarrow>
          (case get_recording ob rid of
             Inl err \<Rightarrow> Inl (UnreadableRecording err)
           | Inr None \<Rightarrow> Inl (UnknownRun rid)
           | Inr (Some rec) \<Rightarrow> Inr rec))"

text \<open>What \<open>wait\<close> and \<open>cancel\<close> return once the execution task has ended.\<close>

definition wait_result :: "run_state \<Rightarrow> runtime_error + work_run" where
  "wait_result st = (case rs_error st of None \<Rightarrow> Inr (rs_run st) | Some e \<Rightarrow> Inl e)"

definition cancel_result :: "outcome \<Rightarrow> run_state \<Rightarrow> runtime_error + work_run" where
  "cancel_result oc st =
     (if oc_status oc = ''failed'' then Inl (cancellation_failure oc) else Inr (rs_run st))"

section \<open>Accepting\<close>

definition validate_spec :: "run_spec \<Rightarrow> runtime_error + unit" where
  "validate_spec spec =
     (let step_ids = map ss_step_id (sp_steps spec) in
      if list_ex (\<lambda>sid. sid = []) step_ids then Inl (InvalidSpec ''Work step_id must be non-empty'')
      else if \<not> distinct step_ids then
        Inl (InvalidSpec ''Work step_id values must be unique within a run'')
      else if sp_steps spec \<noteq> [] \<and> sp_plan_id spec = None then
        Inl (InvalidSpec ''multi-step Work runs require plan_id'')
      else Inr ())"

definition new_run_state ::
  "work_operation \<Rightarrow> run_spec \<Rightarrow> string \<Rightarrow> bool \<Rightarrow> recording_contract option \<Rightarrow> run_state" where
  "new_run_state op spec rid capable rc =
     \<lparr>rs_operation = op, rs_spec = spec,
      rs_run = \<lparr>r_run_id = rid, r_operation_id = wo_operation_id op,
        r_session_id = (case wo_session_id op of None \<Rightarrow> [] | Some s \<Rightarrow> s),
        r_domain = wo_domain op, r_status = Accepted, r_method_id = sp_method_id spec,
        r_plan_id = sp_plan_id spec,
        r_current_step_id = (case spec_steps spec of [] \<Rightarrow> None | step # _ \<Rightarrow> Some (ss_step_id step))\<rparr>,
      rs_has_cancellation = capable, rs_recording_contract = rc, rs_sequence = 0,
      rs_task = Created, rs_cancellation_task = None, rs_cancellation_outcome = None,
      rs_cancellation_requested = False, rs_cancellation_report = None,
      rs_cancellation_sources = [], rs_cancellation_resolution = None,
      rs_cancellation_record = None, rs_confirmed_sequence = 0, rs_confirmed_event_id = None,
      rs_error = None, rs_terminal = False, rs_current_step = None,
      rs_current_step_index = None, rs_step_active = False, rs_next_outcome = 0\<rparr>"

definition accept_contract ::
  "runtime \<Rightarrow> run_spec \<Rightarrow> runtime_error + recording_contract option" where
  "accept_contract rt spec =
     (if sh_recording (rt_shared rt) = None then
        (if sp_recording_policy spec \<noteq> None then
           Inl (InvalidSpec ''recording_policy requires recording_version=1'')
         else Inr None)
      else
        (case freeze_contract (rt_retention rt) (rt_recording_policy rt) (sp_recording_policy spec) of
           Inl err \<Rightarrow> Inl (PolicyRefused err)
         | Inr c \<Rightarrow> Inr (Some c)))"

definition chosen_run_id :: "string \<Rightarrow> run_spec \<Rightarrow> string" where
  "chosen_run_id fresh spec = (if truthy (sp_run_id spec) then the (sp_run_id spec) else fresh)"

definition accept ::
  "(work_operation \<Rightarrow> run_spec \<Rightarrow> runtime_error + bool) \<Rightarrow> string \<Rightarrow> work_operation \<Rightarrow> run_spec \<Rightarrow>
     runtime \<Rightarrow> (runtime_error + work_run) \<times> runtime" where
  "accept resolve fresh op spec rt0 =
     (case get_run_for_operation rt0 (wo_operation_id op) of
        (Inl err, rt) \<Rightarrow> (Inl err, rt)
      | (Inr (Some _), rt) \<Rightarrow> (Inl (DuplicateOperation (wo_operation_id op)), rt)
      | (Inr None, rt) \<Rightarrow>
          (case rbind (validate_spec spec) (\<lambda>_. rbind (accept_contract rt spec) (\<lambda>rc.
                  rbind (resolve op spec) (\<lambda>capable. Inr (rc, capable)))) of
             Inl err \<Rightarrow> (Inl err, rt)
           | Inr (rc, capable) \<Rightarrow>
               (let rid = chosen_run_id fresh spec in
                if find_run rt rid \<noteq> None then (Inl (DuplicateRun rid), rt)
                else
                  (let st = new_run_state op spec rid capable rc in
                   case append_operation (rt_shared rt, st) of
                     (Inl err, (sh, _)) \<Rightarrow> (Inl err, rt\<lparr>rt_shared := sh\<rparr>)
                   | (Inr _, (sh, _)) \<Rightarrow>
                       (Inr (rs_run st), rt\<lparr>rt_shared := sh,
                          rt_states := AList.update rid st (rt_states rt),
                          rt_operation_runs :=
                            AList.update (wo_operation_id op) rid (rt_operation_runs rt)\<rparr>)))))"

section \<open>Cancelling, as its caller runs it\<close>

text \<open>
  \<open>cancel\<close> from its call to its first suspension, and from one suspension to the next: it waits for the
  outcome of the domain, then for the execution task, and, when that is late, for its end. A wait for
  what is already there does not suspend. The caller's own code goes on in the section that returns.
\<close>

datatype cancel_wait = Cancel_Returned | Awaits_Outcome | Awaits_Execution outcome | Awaits_End outcome

datatype cancel_event =
  Outcome_Given | Outcome_Late | Execution_Ended "runtime_error option" | Execution_Late | Caller_Cancelled

definition cancel_finish :: "outcome \<Rightarrow> cancel_wait run_action" where
  "cancel_finish oc =
     chain (finish_cancellation_outcome oc) (\<lambda>_.
     if oc_status oc = ''failed'' then throw (cancellation_failure oc) else give Cancel_Returned)"

definition await_execution :: "outcome \<Rightarrow> cancel_wait run_action" where
  "await_execution oc = reading (\<lambda>(sh, st).
     if rs_task st = Finished then cancel_finish oc else give (Awaits_Execution oc))"

definition given_outcome :: "run_state \<Rightarrow> outcome option" where
  "given_outcome st =
     (if rs_has_cancellation st then
        (case rs_cancellation_task st of Some (Driven oc) \<Rightarrow> Some oc | _ \<Rightarrow> None)
      else rs_cancellation_outcome st)"

definition await_outcome :: "cancel_wait run_action" where
  "await_outcome = reading (\<lambda>(sh, st).
     case given_outcome st of
       None \<Rightarrow> give Awaits_Outcome
     | Some oc \<Rightarrow> chain (on_run (set_outcome oc)) (\<lambda>_. await_execution oc))"

definition cancel_begin :: "cancel_wait run_action" where
  "cancel_begin = reading (\<lambda>(sh, st).
     if rs_terminal st then give Cancel_Returned else chain cancel_admit (\<lambda>_. await_outcome))"

text \<open>The execution task has ended; a cancellation it raises is suppressed, another exception is not.\<close>

definition execution_ended :: "outcome \<Rightarrow> runtime_error option \<Rightarrow> cancel_wait run_action" where
  "execution_ended oc raised =
     (case raised of
        None \<Rightarrow> cancel_finish oc
      | Some e \<Rightarrow> if e = ExecutionCancelled then cancel_finish oc else throw e)"

fun cancel_resumed :: "cancel_wait \<Rightarrow> cancel_event \<Rightarrow> cancel_wait run_action" where
  "cancel_resumed Awaits_Outcome Outcome_Given = await_outcome"
| "cancel_resumed Awaits_Outcome Outcome_Late = reading (\<lambda>(sh, st).
     chain (on_run (\<lambda>st. snd (domain_timeout st))) (\<lambda>_. await_execution (fst (domain_timeout st))))"
| "cancel_resumed Awaits_Outcome Caller_Cancelled = throw ExecutionCancelled"
| "cancel_resumed (Awaits_Execution oc) (Execution_Ended raised) = execution_ended oc raised"
| "cancel_resumed (Awaits_Execution oc) Execution_Late = reading (\<lambda>(sh, st).
     chain (on_run (\<lambda>st. snd (execution_timeout st))) (\<lambda>_.
     if rs_task st = Finished then cancel_finish (fst (execution_timeout st))
     else give (Awaits_End (fst (execution_timeout st)))))"
| "cancel_resumed (Awaits_Execution oc) Caller_Cancelled = cancel_finish oc"
| "cancel_resumed (Awaits_End oc) (Execution_Ended raised) = execution_ended oc raised"
| "cancel_resumed (Awaits_End oc) Caller_Cancelled = cancel_finish oc"
| "cancel_resumed w event = give w"

section \<open>Steps\<close>

inductive runtime_step :: "runtime \<Rightarrow> runtime \<Rightarrow> bool" where
  accepting: "accept resolve fresh op spec rt = (r, rt') \<Longrightarrow> runtime_step rt rt'"
| running: "map_of (rt_states rt) rid = Some st \<Longrightarrow> run_step (rt_shared rt, st) (sh', st') \<Longrightarrow>
    runtime_step rt (rt\<lparr>rt_shared := sh', rt_states := AList.update rid st' (rt_states rt)\<rparr>)"

inductive reachable :: "runtime \<Rightarrow> runtime \<Rightarrow> bool" where
  at_start: "reachable rt rt"
| stepped: "reachable rt rt' \<Longrightarrow> runtime_step rt' rt'' \<Longrightarrow> reachable rt rt''"

end
