(* ===== verification/Runtime_Correct.thy ===== *)
theory Runtime_Correct
  imports Work_Runtime
begin

text \<open>
  The runtime keeps its log replayable: the invariant of the whole runtime, its preservation by
  every step under every schedule, and the properties that rest on it.
\<close>

section \<open>Facts of one run\<close>

lemma hist_ok_shared: "own_entries sh' st = own_entries sh st \<Longrightarrow> hist_ok sh' st s = hist_ok sh st s"
  by (simp add: hist_ok_def)

lemma run_ok_shared:
  assumes "run_ok (sh, st)" and faults: "no_faults sh'" and own: "own_entries sh' st = own_entries sh st"
  shows "run_ok (sh', st)"
proof -
  have "wr s c (sh, st) \<Longrightarrow> wr s c (sh', st)" for s c
    using faults hist_ok_shared [OF own] by (simp add: wr_def)
  moreover have "closed s c (sh, st) \<Longrightarrow> closed s c (sh', st)" for s c
    using faults hist_ok_shared [OF own] own unfolding closed_def by simp
  ultimately show ?thesis using assms(1) unfolding run_ok_def live_def ended_def by blast
qed

lemma ended_facts:
  assumes "ended t (sh, st)"
  shows "hist_ok sh st (r_status (rs_run st))"
    and "\<exists>rec. rs_cancellation_record st = Some rec \<and> project_run (own_entries sh st) = Inr rec"
proof -
  obtain s c rec where hist: "hist_ok sh st s" and status: "r_status (rs_run c) = s"
    and core: "core st = c\<lparr>rs_terminal := True, rs_cancellation_record := Some rec,
      rs_cancellation_sources := []\<rparr>" and rec: "project_run (own_entries sh st) = Inr rec"
    using assms unfolding ended_def closed_def by auto
  have "r_status (rs_run (core st)) = s" unfolding core using status by simp
  then have "r_status (rs_run st) = s" unfolding core_fields .
  with hist show "hist_ok sh st (r_status (rs_run st))" by simp
  have "rs_cancellation_record (core st) = Some rec" unfolding core by simp
  then have "rs_cancellation_record st = Some rec" unfolding core_fields .
  with rec show "\<exists>rec. rs_cancellation_record st = Some rec \<and> project_run (own_entries sh st) = Inr rec"
    by blast
qed

lemma live_history: "live (sh, st) \<Longrightarrow> hist_ok sh st (r_status (rs_run st))"
  by (auto simp: live_def wr_def)

lemma run_ok_history: "run_ok (sh, st) \<Longrightarrow> hist_ok sh st (r_status (rs_run st))"
  unfolding run_ok_def using live_history ended_facts(1) by blast

lemma run_ok_record:
  assumes "run_ok (sh, st)" and "rs_terminal st"
  shows "\<exists>rec. rs_cancellation_record st = Some rec \<and> project_run (own_entries sh st) = Inr rec"
  using assms live_open [of "(sh, st)"] ended_facts(2) unfolding run_ok_def by auto

lemma own_growth_other:
  assumes "own_growth (sh, st) (sh', st')" and "r_run_id (rs_run st2) \<noteq> r_run_id (rs_run st)"
  shows "own_entries sh' st2 = own_entries sh st2"
proof -
  obtain es where es: "contents (sh_log sh') = contents (sh_log sh) @ es"
    and ids: "\<forall>e \<in> set es. e_run_id e = r_run_id (rs_run st)"
    using assms(1) by (auto simp: own_growth_def)
  have "own (r_run_id (rs_run st2)) es = []" using ids assms(2) by (auto simp: own_Nil_iff)
  then show ?thesis by (simp add: own_entries_def es)
qed

lemma replayable_grown:
  assumes ok: "replayable es" and new: "\<forall>e \<in> set es'. e_entry_type e = Event \<and> e_run_id e = r"
    and valid: "valid_history (own r (es @ es')) s"
  shows "replayable (es @ es')"
proof -
  have "\<exists>s. valid_history (own r' (es @ es')) s" if "r' \<in> e_run_id ` set (es @ es')" for r'
  proof (cases "r' = r")
    case True
    with valid show ?thesis by blast
  next
    case False
    then have "own r' es' = []" using new by (auto simp: own_Nil_iff)
    moreover have "\<exists>s. valid_history (own r' es) s"
    proof -
      have "r' \<in> e_run_id ` set es" using that new False by auto
      with ok show ?thesis unfolding replayable_def by blast
    qed
    ultimately show ?thesis using ok unfolding replayable_def by simp
  qed
  moreover have "operations_unique (es @ es')"
  proof (rule operations_uniqueI)
    fix e e' assume in_es: "e \<in> set (es @ es')" "e' \<in> set (es @ es')"
      and ops: "e_entry_type e = Operation" "e_entry_type e' = Operation"
      and same: "e_operation_id e = e_operation_id e'"
    have "operations_unique es" using ok by (simp add: replayable_def)
    moreover have "e \<in> set es" "e' \<in> set es" using in_es ops new by auto
    ultimately show "e_run_id e = e_run_id e'" using operations_uniqueD same ops by blast
  qed
  ultimately show ?thesis by (simp add: replayable_def)
qed

lemma replayable_accepted:
  assumes ok: "replayable es" and op: "operation_ok e" and run: "e_run_id e \<notin> e_run_id ` set es"
    and fresh: "\<forall>e' \<in> set es. e_entry_type e' = Operation \<longrightarrow> e_operation_id e' \<noteq> e_operation_id e"
  shows "replayable (es @ [e])"
proof -
  have none: "own (e_run_id e) es = []" using run by (simp add: own_Nil_iff)
  have "\<exists>s. valid_history (own r (es @ [e])) s" if "r \<in> e_run_id ` set (es @ [e])" for r
  proof (cases "r = e_run_id e")
    case True
    then show ?thesis using none op valid_history_single by auto
  next
    case False
    then have "r \<in> e_run_id ` set es" using that by auto
    then have "\<exists>s. valid_history (own r es) s" using ok unfolding replayable_def by blast
    with False show ?thesis by simp
  qed
  moreover have "operations_unique (es @ [e])"
  proof (rule operations_uniqueI)
    fix e1 e2 assume in_es: "e1 \<in> set (es @ [e])" "e2 \<in> set (es @ [e])"
      and ops: "e_entry_type e1 = Operation" "e_entry_type e2 = Operation"
      and same: "e_operation_id e1 = e_operation_id e2"
    have "operations_unique es" using ok by (simp add: replayable_def)
    then have "e1 \<in> set es \<Longrightarrow> e2 \<in> set es \<Longrightarrow> e_run_id e1 = e_run_id e2"
      using operations_uniqueD ops same by blast
    then show "e_run_id e1 = e_run_id e2" using in_es fresh ops same by fastforce
  qed
  ultimately show ?thesis by (simp add: replayable_def)
qed

section \<open>The invariant\<close>

definition known_run :: "runtime \<Rightarrow> string \<Rightarrow> bool" where
  "known_run rt rid \<longleftrightarrow> find_run rt rid \<noteq> None"

definition known_operation :: "runtime \<Rightarrow> string \<Rightarrow> bool" where
  "known_operation rt oid \<longleftrightarrow>
     (\<exists>rid. map_of (rt_operation_runs rt) oid = Some rid \<and> map_of (rt_states rt) rid \<noteq> None) \<or>
     map_of (rt_operation_runs rt) oid = None \<and>
     (\<exists>rid. map_of (rt_historical_operation_runs rt) oid = Some rid \<and>
        map_of (rt_historical_runs rt) rid \<noteq> None)"

definition log_entries :: "runtime \<Rightarrow> event_entry list" where
  "log_entries rt = contents (sh_log (rt_shared rt))"

definition index_ok :: "runtime \<Rightarrow> bool" where
  "index_ok rt \<longleftrightarrow>
     (\<forall>e \<in> set (log_entries rt). known_run rt (e_run_id e) \<and>
        (e_entry_type e = Operation \<longrightarrow> known_operation rt (e_operation_id e)))"

definition runs_ok :: "runtime \<Rightarrow> bool" where
  "runs_ok rt \<longleftrightarrow> (\<forall>rid st. map_of (rt_states rt) rid = Some st \<longrightarrow>
     r_run_id (rs_run st) = rid \<and> run_ok (rt_shared rt, st))"

definition runtime_ok :: "runtime \<Rightarrow> bool" where
  "runtime_ok rt \<longleftrightarrow> no_faults (rt_shared rt) \<and> log_ok (sh_log (rt_shared rt)) \<and>
     replayable (log_entries rt) \<and> index_ok rt \<and> runs_ok rt \<and> \<not> sh_unavailable (rt_shared rt)"

lemma known_run_step:
  assumes "map_of (rt_states rt) rid = Some st"
    and "rt' = rt\<lparr>rt_shared := sh', rt_states := AList.update rid st' (rt_states rt)\<rparr>"
  shows "known_run rt' r \<longleftrightarrow> known_run rt r" and "known_operation rt' oid \<longleftrightarrow> known_operation rt oid"
  using assms by (auto simp: known_run_def find_run_def known_operation_def split: option.splits)

lemma running_ok:
  assumes ok: "runtime_ok rt" and st: "map_of (rt_states rt) rid = Some st"
    and step: "run_step (rt_shared rt, st) (sh', st')" and run': "run_ok (sh', st')"
  shows "runtime_ok (rt\<lparr>rt_shared := sh', rt_states := AList.update rid st' (rt_states rt)\<rparr>)"
    (is "runtime_ok ?rt")
proof -
  have run: "r_run_id (rs_run st) = rid" "run_ok (rt_shared rt, st)"
    using ok st by (auto simp: runtime_ok_def runs_ok_def)
  have frame: "own_growth (rt_shared rt, st) (sh', st')" by (rule run_step_frame [OF step])
  then obtain es where es: "contents (sh_log sh') = contents (sh_log (rt_shared rt)) @ es"
    and new: "\<forall>e \<in> set es. e_entry_type e = Event \<and> e_run_id e = rid"
    and same: "r_run_id (rs_run st') = rid" and faults: "no_faults sh'"
    and log: "log_ok (sh_log sh')" and available: "\<not> sh_unavailable sh'"
    using ok run(1) by (auto simp: own_growth_def same_run_def no_faults_def runtime_ok_def)
  have hist: "valid_history (own rid (log_entries rt @ es)) (r_status (rs_run st'))"
    using run_ok_history [OF run'] same es by (simp add: hist_ok_def own_entries_def log_entries_def Let_def)
  have entries: "log_entries ?rt = log_entries rt @ es" by (simp add: log_entries_def es)
  have "replayable (log_entries ?rt)"
    using replayable_grown [OF _ new hist] ok by (simp add: entries runtime_ok_def)
  moreover have "index_ok ?rt"
    unfolding index_ok_def entries known_run_step [OF st refl]
  proof
    fix e assume "e \<in> set (log_entries rt @ es)"
    moreover have "known_run rt rid" using st by (simp add: known_run_def find_run_def)
    ultimately show "known_run rt (e_run_id e) \<and>
        (e_entry_type e = Operation \<longrightarrow> known_operation rt (e_operation_id e))"
      using ok new by (auto simp: runtime_ok_def index_ok_def)
  qed
  moreover have "runs_ok ?rt"
    unfolding runs_ok_def
  proof (intro allI impI)
    fix r st2 assume st2: "map_of (rt_states ?rt) r = Some st2"
    show "r_run_id (rs_run st2) = r \<and> run_ok (rt_shared ?rt, st2)"
    proof (cases "r = rid")
      case True
      with st2 same run' show ?thesis by simp
    next
      case False
      then have "r_run_id (rs_run st2) = r \<and> run_ok (rt_shared rt, st2)"
        using st2 ok by (simp add: runtime_ok_def runs_ok_def)
      moreover have "own_entries sh' st2 = own_entries (rt_shared rt) st2"
        using own_growth_other [OF frame] calculation False run(1) by simp
      ultimately show ?thesis using run_ok_shared faults by auto
    qed
  qed
  ultimately show ?thesis using faults log available by (simp add: runtime_ok_def)
qed

section \<open>Accepting\<close>

lemma operation_entry_fields [simp]:
  "e_entry_type (operation_entry st now) = Operation"
  "e_run_id (operation_entry st now) = r_run_id (rs_run st)"
  "e_operation_id (operation_entry st now) = wo_operation_id (rs_operation st)"
  "e_sequence (operation_entry st now) = 0"
  by (simp_all add: operation_entry_def Let_def)

lemma operation_entry_ok:
  "wo_domain (rs_operation st) \<noteq> [] \<Longrightarrow> operation_ok (operation_entry st now)"
  by (simp add: operation_ok_def operation_entry_def Let_def)

lemma operation_entry_observed: "observed_operation (operation_entry st now)"
  by (simp add: observed_operation_def operation_entry_def Let_def)

lemma new_run_fields [simp]:
  "r_run_id (rs_run (new_run_state op spec rid cap rc)) = rid"
  "rs_operation (new_run_state op spec rid cap rc) = op"
  "r_status (rs_run (new_run_state op spec rid cap rc)) = Accepted"
  by (simp_all add: new_run_state_def)

lemma new_run_calm: "calm (core (new_run_state op spec rid cap rc))"
  by (simp add: calm_def new_run_state_def core_def)

lemma new_run_ok:
  assumes "no_faults sh" and "own rid (contents (sh_log sh)) = [operation_entry st now]"
    and "st = new_run_state op spec rid cap rc" and "wo_domain op \<noteq> []"
  shows "run_ok (sh, st)"
proof -
  have "own_entries sh st = [operation_entry st now]" using assms(2,3) by (simp add: own_entries_def)
  then have "hist_ok sh st Accepted"
    using operation_entry_ok [of st now] operation_entry_observed [of st now] assms(3,4)
    by (simp add: hist_ok_def valid_history_single operation_entry_def new_run_state_def Let_def)
  then have "wr Accepted (core st) (sh, st)" using assms(1,3) by (simp add: wr_def new_run_state_def)
  moreover have "r_status (rs_run (core st)) = Accepted" using assms(3) by simp
  ultimately show ?thesis
    using new_run_calm assms(3) by (auto simp: run_ok_def live_def intro!: exI [of _ "core st"])
qed

text \<open>A lookup only adds to the historical indexes.\<close>

lemma get_run_for_operation_state:
  assumes "get_run_for_operation rt oid = (r, rt')"
  shows "rt_shared rt' = rt_shared rt" and "rt_states rt' = rt_states rt"
    and "rt_operation_runs rt' = rt_operation_runs rt"
    and "known_run rt rid \<Longrightarrow> known_run rt' rid" and "known_operation rt o' \<Longrightarrow> known_operation rt' o'"
  using assms
  by (auto simp: get_run_for_operation_def known_run_def find_run_def known_operation_def
      split: option.splits sum.splits list.splits if_splits)

lemma get_run_for_operation_unknown:
  assumes "get_run_for_operation rt oid = (Inr None, rt')"
  shows "rt' = rt" and "\<not> known_operation rt oid"
  using assms
  by (auto simp: get_run_for_operation_def known_operation_def split: option.splits sum.splits list.splits)

lemma runtime_ok_lookup:
  "runtime_ok rt \<Longrightarrow> get_run_for_operation rt oid = (r, rt') \<Longrightarrow> runtime_ok rt'"
  using get_run_for_operation_state [of rt oid r rt']
  by (auto simp: runtime_ok_def index_ok_def runs_ok_def log_entries_def)

lemma append_operation_result:
  assumes "no_faults sh" and "append_operation (sh, st) = (r, (sh', st'))"
  shows "r = Inr () \<and> no_faults sh' \<and> sh_unavailable sh' = sh_unavailable sh \<and>
    contents (sh_log sh') = contents (sh_log sh) @ [operation_entry st (sh_clock sh)]"
proof -
  obtain r0 sh0 where ap: "append_entry (operation_entry st (sh_clock sh)) (sh\<lparr>sh_clock := sh_clock sh + 1\<rparr>) = (r0, sh0)"
    by fastforce
  with assms(2) have "r = r0" "sh' = sh0" by (auto simp: append_operation_def)
  with append_entry_ok [OF _ ap] append_entry_frame(4) [OF ap] assms(1) show ?thesis
    by (simp add: no_faults_def)
qed

lemma append_operation_log:
  "log_ok (sh_log sh) \<Longrightarrow> append_operation (sh, st) = (r, (sh', st')) \<Longrightarrow> log_ok (sh_log sh')"
  by (auto simp: append_operation_def dest: append_entry_frame(2) split: prod.splits)

text \<open>What \<open>accept\<close> can return.\<close>

lemma accept_cases:
  assumes "accept resolve fresh op spec rt0 = (r, rt')"
  obtains (refused) e rt x where "r = Inl e" "get_run_for_operation rt0 (wo_operation_id op) = (x, rt)"
      "rt' = rt"
  | (append_failed) e sh st st2 where "r = Inl e"
      "get_run_for_operation rt0 (wo_operation_id op) = (Inr None, rt0)"
      "append_operation (rt_shared rt0, st) = (Inl e, (sh, st2))" "rt' = rt0\<lparr>rt_shared := sh\<rparr>"
  | (accepted) st sh st2 rid cap rc where "r = Inr (rs_run st)"
      "get_run_for_operation rt0 (wo_operation_id op) = (Inr None, rt0)"
      "st = new_run_state op spec rid cap rc" "\<not> known_run rt0 rid"
      "append_operation (rt_shared rt0, st) = (Inr (), (sh, st2))"
      "rt' = rt0\<lparr>rt_shared := sh, rt_states := AList.update rid st (rt_states rt0),
         rt_operation_runs := AList.update (wo_operation_id op) rid (rt_operation_runs rt0)\<rparr>"
proof -
  obtain x rt where look: "get_run_for_operation rt0 (wo_operation_id op) = (x, rt)" by fastforce
  show thesis
  proof (cases "x = Inr None")
    case False
    then have "(\<exists>e. r = Inl e) \<and> rt' = rt"
      using assms look by (cases x) (auto simp: accept_def split: option.splits)
    with look show thesis by (auto intro: refused)
  next
    case True
    with look have rt: "rt = rt0" using get_run_for_operation_unknown(1) by blast
    obtain y where y: "rbind (validate_spec spec) (\<lambda>_. rbind (accept_contract rt0 spec) (\<lambda>rc.
        rbind (resolve op spec) (\<lambda>capable. Inr (rc, capable)))) = y" by blast
    show thesis
    proof (cases y)
      case (Inl e)
      with assms look True rt y show thesis by (intro refused) (auto simp: accept_def)
    next
      case (Inr rccap)
      obtain rc cap where rccap: "rccap = (rc, cap)" by fastforce
      define rid where "rid = chosen_run_id fresh spec"
      define st where "st = new_run_state op spec rid cap rc"
      show thesis
      proof (cases "find_run rt0 rid = None")
        case False
        with assms look True rt y Inr rccap rid_def show thesis
          by (intro refused) (auto simp: accept_def Let_def)
      next
        case fresh_run: True
        obtain z sh st2 where ap: "append_operation (rt_shared rt0, st) = (z, (sh, st2))"
          by (metis prod.exhaust)
        have acc: "accept resolve fresh op spec rt0 =
            (case (z, (sh, st2)) of
               (Inl err, (sh, _)) \<Rightarrow> (Inl err, rt0\<lparr>rt_shared := sh\<rparr>)
             | (Inr _, (sh, _)) \<Rightarrow>
                 (Inr (rs_run st), rt0\<lparr>rt_shared := sh,
                    rt_states := AList.update rid st (rt_states rt0),
                    rt_operation_runs :=
                      AList.update (wo_operation_id op) rid (rt_operation_runs rt0)\<rparr>))"
          unfolding ap [symmetric] st_def rid_def
          using look True rt y Inr rccap fresh_run [unfolded rid_def]
          by (simp add: accept_def Let_def)
        show thesis
        proof (cases z)
          case (Inl e)
          with acc ap look True rt assms show thesis by (intro append_failed [of e st sh st2]) auto
        next
          case (Inr u)
          with acc ap look True rt assms fresh_run st_def show thesis
            by (intro accepted [of st rid cap rc sh st2]) (auto simp: known_run_def)
        qed
      qed
    qed
  qed
qed

lemma accepting_ok:
  assumes ok: "runtime_ok rt" and named: "named (rt_shared rt')"
    and acc: "accept resolve fresh op spec rt = (r, rt')"
  shows "runtime_ok rt'"
  using acc
proof (cases rule: accept_cases)
  case (refused e rt1 x)
  then show ?thesis using ok runtime_ok_lookup by blast
next
  case (append_failed e sh st st2)
  then show ?thesis using append_operation_result ok by (fastforce simp: runtime_ok_def)
next
  case (accepted st sh st2 rid cap rc)
  let ?e = "operation_entry st (sh_clock (rt_shared rt))"
  have nf: "no_faults (rt_shared rt)" and log: "log_ok (sh_log (rt_shared rt))"
    and rep: "replayable (log_entries rt)" and index: "index_ok rt" and runs: "runs_ok rt"
    using ok by (auto simp: runtime_ok_def)
  have nf': "no_faults sh" and con: "contents (sh_log sh) = contents (sh_log (rt_shared rt)) @ [?e]"
    using append_operation_result [OF nf accepted(5)] by blast+
  have log': "log_ok (sh_log sh)" using append_operation_log log accepted(5) by blast
  have entries: "log_entries rt' = log_entries rt @ [?e]" using accepted(6) con by (simp add: log_entries_def)
  have eid: "e_run_id ?e = rid" "e_operation_id ?e = wo_operation_id op" using accepted(3) by simp_all
  have new_run: "rid \<notin> e_run_id ` set (log_entries rt)"
    using index accepted(4) by (auto simp: index_ok_def)
  have unknown: "\<not> known_operation rt (wo_operation_id op)"
    using get_run_for_operation_unknown(2) accepted(2) by blast
  then have new_op: "\<forall>e' \<in> set (log_entries rt). e_entry_type e' = Operation \<longrightarrow>
      e_operation_id e' \<noteq> e_operation_id ?e"
    using index eid by (auto simp: index_ok_def)
  have "entry_named ?e" using named accepted(6) con by simp
  then have domain: "wo_domain op \<noteq> []"
    using accepted(3) by (auto simp: entry_named_def operation_entry_def new_run_state_def Let_def)
  have "operation_ok ?e" using operation_entry_ok [of st] domain accepted(3) by simp
  then have "replayable (log_entries rt')"
    using replayable_accepted [OF rep] new_run new_op eid by (simp add: entries)
  moreover have known: "known_run rt r \<Longrightarrow> known_run rt' r" "known_run rt' rid" for r
    using accepted(6) by (auto simp: known_run_def find_run_def split: option.splits)
  have known_op: "known_operation rt o' \<Longrightarrow> known_operation rt' o'"
    "known_operation rt' (wo_operation_id op)" for o'
    using accepted(6) unknown by (auto simp: known_operation_def)
  have "index_ok rt'"
    unfolding index_ok_def entries using index known known_op eid by (auto simp: index_ok_def)
  moreover have "runs_ok rt'"
    unfolding runs_ok_def
  proof (intro allI impI)
    fix r st' assume st': "map_of (rt_states rt') r = Some st'"
    show "r_run_id (rs_run st') = r \<and> run_ok (rt_shared rt', st')"
    proof (cases "r = rid")
      case True
      then have "st' = st" using st' accepted(6) by simp
      have "own rid (contents (sh_log sh)) = [?e]"
        using new_run con eid by (simp add: log_entries_def own_Nil_iff)
      then have "run_ok (sh, st)" using new_run_ok [OF nf' _ accepted(3) domain] by blast
      with \<open>st' = st\<close> True accepted(3,6) show ?thesis by simp
    next
      case False
      then have old: "r_run_id (rs_run st') = r" "run_ok (rt_shared rt, st')"
        using runs st' accepted(6) by (auto simp: runs_ok_def)
      have "own_entries sh st' = own_entries (rt_shared rt) st'"
        using old(1) False con eid by (simp add: own_entries_def)
      with old nf' accepted(6) run_ok_shared show ?thesis by simp
    qed
  qed
  moreover have "\<not> sh_unavailable sh"
    using append_operation_result [OF nf accepted(5)] ok by (simp add: runtime_ok_def)
  ultimately show ?thesis using nf' log' accepted(6) by (simp add: runtime_ok_def)
qed

lemma runtime_step_ok: "runtime_step rt rt' \<Longrightarrow> runtime_ok rt \<Longrightarrow> named (rt_shared rt') \<Longrightarrow> runtime_ok rt'"
proof (induction rule: runtime_step.induct)
  case (accepting resolve fresh op spec rt r rt')
  then show ?case using accepting_ok by blast
next
  case (running rt rid st sh' st')
  then have "run_ok (rt_shared rt, st)" by (auto simp: runtime_ok_def runs_ok_def)
  then have "run_ok (sh', st')" using run_step_ok running(2,4) by simp
  then show ?case using running_ok running by blast
qed

text \<open>What can be replayed is named.\<close>

lemma valid_history_named: "valid_history es s \<Longrightarrow> e \<in> set es \<Longrightarrow> entry_named e"
proof -
  assume "valid_history es s" "e \<in> set es"
  then have "operation_ok e \<or> (\<exists>op. event_of op e)" by (auto simp: valid_history_def)
  then show "entry_named e"
    by (auto simp: operation_ok_def event_of_def entry_named_def entry_kind_def)
qed

lemma replayable_named: "replayable es \<Longrightarrow> list_all entry_named es"
proof -
  assume "replayable es"
  then have "\<exists>s. valid_history (own (e_run_id e) es) s" if "e \<in> set es" for e
    using that by (auto simp: replayable_def)
  then show ?thesis using valid_history_named own_mem unfolding list_all_iff by blast
qed

section \<open>Opening a runtime\<close>

lemma valid_history_operations:
  assumes "valid_history es s" and "e \<in> set es" and "e_entry_type e = Operation"
  shows "e = hd es"
  using assms by (auto simp: valid_history_def event_of_def)

lemma set_keys_update: "set (keys (AList.update k v d)) = insert k (set (keys d))"
  by (subst keys_update) auto

lemma foldl_update_keys:
  "set (keys (foldl (\<lambda>d x. AList.update (f x) (g x) d) d xs)) = set (keys d) \<union> f ` set xs"
proof (induction xs arbitrary: d)
  case (Cons x xs)
  show ?case unfolding foldl_Cons Cons.IH set_keys_update by auto
qed simp

lemma foldl_update_value:
  "map_of (foldl (\<lambda>d x. AList.update (f x) (g x) d) d xs) k = Some v \<Longrightarrow>
     map_of d k = Some v \<or> (\<exists>x \<in> set xs. f x = k \<and> g x = v)"
  by (induction xs arbitrary: d) (fastforce split: if_splits)+

lemma query_everything: "log_ok log \<Longrightarrow> query log any_entry None None = contents log"
  by (simp add: query_scan log_ok_def limited_def scan_def selected_def contents_def)

lemma open_runtime_parts:
  assumes "open_runtime cf log now faults = Inr rt" and "log_ok log"
  obtains runs where "project_work_runs (contents log) True = Inr runs"
    and "rt_states rt = []" and "rt_operation_runs rt = []"
    and "rt_historical_runs rt = foldl (\<lambda>d run. AList.update (r_run_id run) run d) [] runs"
    and "rt_historical_operation_runs rt =
      foldl (\<lambda>d run. AList.update (r_operation_id run) (r_run_id run) d) [] runs"
    and "sh_log (rt_shared rt) = log" and "sh_faults (rt_shared rt) = faults"
    and "\<not> sh_unavailable (rt_shared rt)"
proof -
  have step: "rbind (check_config cf) f = Inr rt \<Longrightarrow> f () = Inr rt" for f :: "unit \<Rightarrow> runtime_error + runtime"
    by (auto simp: rbind_Inr_iff)
  from step [OF assms(1) [unfolded open_runtime_def]] show thesis
    by (auto simp: query_everything [OF assms(2)] Let_def intro: that split: sum.splits if_splits)
qed

lemma run_ids_of_replay:
  assumes "project_work_runs es True = Inr runs"
  shows "map r_run_id runs = first_runs es"
    and "run \<in> set runs \<Longrightarrow> r_operation_id run = e_operation_id (hd (own (r_run_id run) es))"
proof -
  from assms obtain p where p: "rfold projector_step empty_projector es = Inr p"
    and runs: "runs = map (mark_orphaned \<circ> p_run \<circ> snd) (states p)"
    by (auto simp: project_work_runs_Inr)
  have tracks: "tracks es p" using p by (rule replay_tracks)
  have same: "r_run_id (mark_orphaned r) = r_run_id r" "r_operation_id (mark_orphaned r) = r_operation_id r" for r
    by (simp_all add: mark_orphaned_def)
  have "map r_run_id runs = map (r_run_id \<circ> p_run \<circ> snd) (states p)" by (simp add: runs same)
  then show "map r_run_id runs = first_runs es" using run_ids_of_states [OF tracks] by simp
  assume "run \<in> set runs"
  then show "r_operation_id run = e_operation_id (hd (own (r_run_id run) es))"
    using tracks_mem_states(1,2) [OF tracks] by (auto simp: runs same describes_def)
qed

lemma open_runtime_log:
  assumes opened: "open_runtime cf log now faults = Inr rt" and log: "log_ok log"
  shows "index_ok rt \<and> replayable (log_entries rt) \<and> rt_states rt = [] \<and>
    sh_log (rt_shared rt) = log \<and> sh_faults (rt_shared rt) = faults \<and>
    \<not> sh_unavailable (rt_shared rt)"
  using opened log
proof (rule open_runtime_parts)
  fix runs assume runs: "project_work_runs (contents log) True = Inr runs"
    and parts: "rt_states rt = []" "rt_operation_runs rt = []"
      "rt_historical_runs rt = foldl (\<lambda>d run. AList.update (r_run_id run) run d) [] runs"
      "rt_historical_operation_runs rt =
        foldl (\<lambda>d run. AList.update (r_operation_id run) (r_run_id run) d) [] runs"
      "sh_log (rt_shared rt) = log" "sh_faults (rt_shared rt) = faults"
      "\<not> sh_unavailable (rt_shared rt)"
  let ?es = "contents log"
  have entries: "log_entries rt = ?es" by (simp add: log_entries_def parts)
  have rep: "replayable ?es" using runs replay_iff [of ?es] by (auto simp: project_work_runs_Inr)
  have ids: "r_run_id ` set runs = e_run_id ` set ?es"
    using run_ids_of_replay(1) [OF runs] by (metis image_set set_first_runs)
  have hist: "map_of (rt_historical_runs rt) r \<noteq> None \<longleftrightarrow> r \<in> e_run_id ` set ?es" for r
    using foldl_update_keys [of r_run_id "\<lambda>run. run" "[]" runs] ids
    by (simp only: map_of_None_keys parts) simp
  have "index_ok rt"
    unfolding index_ok_def entries
  proof (intro ballI conjI impI)
    fix e assume e: "e \<in> set ?es"
    then show "known_run rt (e_run_id e)"
      using hist by (auto simp: known_run_def find_run_def parts)
    assume op: "e_entry_type e = Operation"
    obtain s where "valid_history (own (e_run_id e) ?es) s"
      using rep e unfolding replayable_def by blast
    then have first: "e = hd (own (e_run_id e) ?es)"
      using valid_history_operations e op own_mem by blast
    obtain run where run: "run \<in> set runs" "r_run_id run = e_run_id e"
      using ids e by (metis image_iff)
    then have oid: "r_operation_id run = e_operation_id e" using run_ids_of_replay(2) [OF runs] first by simp
    then have "e_operation_id e \<in> set (keys (rt_historical_operation_runs rt))"
      using run(1) foldl_update_keys [of r_operation_id r_run_id "[]" runs] by (simp add: parts rev_image_eqI)
    then obtain rid where rid: "map_of (rt_historical_operation_runs rt) (e_operation_id e) = Some rid"
      by (metis map_of_None_keys not_None_eq)
    then obtain run' where "run' \<in> set runs" "r_run_id run' = rid"
      using foldl_update_value [of r_operation_id r_run_id "[]" runs] by (auto simp: parts)
    then have "map_of (rt_historical_runs rt) rid \<noteq> None" using hist ids by blast
    with rid show "known_operation rt (e_operation_id e)" by (simp add: known_operation_def parts)
  qed
  with rep parts show ?thesis by (simp add: entries)
qed

lemma open_runtime_ok:
  assumes "open_runtime cf log now faults = Inr rt" and "log_ok log" and "True \<notin> set faults"
  shows "runtime_ok rt"
  using open_runtime_log [OF assms(1,2)] assms(2,3) by (simp add: runtime_ok_def no_faults_def runs_ok_def)

lemma append_operation_shape:
  assumes "append_operation (sh, st) = (r, (sh', st'))"
  shows "contents (sh_log sh') = contents (sh_log sh) @
    (if r = Inr () then [operation_entry st (sh_clock sh)] else [])"
  using assms
  by (auto simp: append_operation_def append_entry_def Let_def split: prod.splits if_splits)

text \<open>The log only grows, so a named log was named before.\<close>

lemma runtime_step_grows: "runtime_step rt rt' \<Longrightarrow> \<exists>es. log_entries rt' = log_entries rt @ es"
proof (induction rule: runtime_step.induct)
  case (accepting resolve fresh op spec rt r rt')
  then show ?case
  proof (cases rule: accept_cases)
    case refused
    then show ?thesis using get_run_for_operation_state(1) by (fastforce simp: log_entries_def)
  next
    case append_failed
    then show ?thesis using append_operation_shape by (simp add: log_entries_def)
  next
    case accepted
    then show ?thesis using append_operation_shape by (simp add: log_entries_def)
  qed
next
  case (running rt rid st sh' st')
  then show ?case using run_step_frame by (fastforce simp: own_growth_def log_entries_def)
qed

lemma reachable_ok: "reachable rt rt' \<Longrightarrow> runtime_ok rt \<Longrightarrow> named (rt_shared rt') \<Longrightarrow> runtime_ok rt'"
proof (induction rule: reachable.induct)
  case (at_start rt)
  then show ?case by blast
next
  case (stepped rt rt' rt'')
  obtain es where "log_entries rt'' = log_entries rt' @ es" using runtime_step_grows stepped(2) by blast
  then have "named (rt_shared rt')" using stepped.prems(2) by (simp add: log_entries_def)
  then show ?case using stepped runtime_step_ok by blast
qed

section \<open>With append failures\<close>

definition tidy :: "runtime \<Rightarrow> bool" where
  "tidy rt \<longleftrightarrow> index_ok rt \<and> (\<forall>rid st. map_of (rt_states rt) rid = Some st \<longrightarrow>
     r_run_id (rs_run st) = rid \<and> orderly (rt_shared rt, st))"

lemma orderly_shared: "own_entries sh' st = own_entries sh st \<Longrightarrow> orderly (sh', st) = orderly (sh, st)"
  by (simp add: orderly_def)

lemma running_tidy:
  assumes tidy: "tidy rt" and st: "map_of (rt_states rt) rid = Some st"
    and step: "run_step (rt_shared rt, st) (sh', st')"
  shows "tidy (rt\<lparr>rt_shared := sh', rt_states := AList.update rid st' (rt_states rt)\<rparr>)"
    (is "tidy ?rt")
proof -
  have run: "r_run_id (rs_run st) = rid" "orderly (rt_shared rt, st)"
    using tidy st by (auto simp: tidy_def)
  have frame: "own_growth (rt_shared rt, st) (sh', st')" by (rule run_step_frame [OF step])
  then obtain es where es: "contents (sh_log sh') = contents (sh_log (rt_shared rt)) @ es"
    and new: "\<forall>e \<in> set es. e_entry_type e = Event \<and> e_run_id e = rid"
    and same: "r_run_id (rs_run st') = rid" and ordered: "orderly (sh', st')"
    using run by (auto simp: own_growth_def same_run_def)
  have entries: "log_entries ?rt = log_entries rt @ es" by (simp add: log_entries_def es)
  have "known_run rt rid" using st by (simp add: known_run_def find_run_def)
  then have "index_ok ?rt"
    unfolding index_ok_def entries known_run_step [OF st refl]
    using tidy new by (auto simp: tidy_def index_ok_def)
  moreover have "r_run_id (rs_run st2) = r \<and> orderly (sh', st2)"
    if st2: "map_of (rt_states ?rt) r = Some st2" for r st2
  proof (cases "r = rid")
    case True
    with st2 same ordered show ?thesis by simp
  next
    case False
    then have old: "r_run_id (rs_run st2) = r \<and> orderly (rt_shared rt, st2)"
      using st2 tidy by (simp add: tidy_def)
    then have "own_entries sh' st2 = own_entries (rt_shared rt) st2"
      using own_growth_other [OF frame] False run(1) by simp
    with old show ?thesis using orderly_shared by blast
  qed
  ultimately show ?thesis by (simp add: tidy_def)
qed

lemma tidy_lookup: "tidy rt \<Longrightarrow> get_run_for_operation rt oid = (r, rt') \<Longrightarrow> tidy rt'"
  using get_run_for_operation_state [of rt oid r rt']
  by (auto simp: tidy_def index_ok_def log_entries_def)

lemma known_shared:
  "known_run (rt\<lparr>rt_shared := sh\<rparr>) r = known_run rt r"
  "known_operation (rt\<lparr>rt_shared := sh\<rparr>) oid = known_operation rt oid"
  by (auto simp: known_run_def find_run_def known_operation_def split: option.splits)

lemma accepting_tidy:
  assumes tidy: "tidy rt" and acc: "accept resolve fresh op spec rt = (r, rt')"
  shows "tidy rt'"
  using acc
proof (cases rule: accept_cases)
  case (refused e rt1 x)
  then show ?thesis using tidy tidy_lookup by blast
next
  case (append_failed e sh st st2)
  then have same: "contents (sh_log sh) = contents (sh_log (rt_shared rt))"
    using append_operation_shape [OF append_failed(3)] by simp
  then have own: "own_entries sh st' = own_entries (rt_shared rt) st'" for st'
    by (simp add: own_entries_def)
  show ?thesis
    using tidy append_failed(4) same orderly_shared [OF own]
    by (simp add: tidy_def index_ok_def log_entries_def known_shared)
next
  case (accepted st sh st2 rid cap rc)
  let ?e = "operation_entry st (sh_clock (rt_shared rt))"
  have con: "contents (sh_log sh) = contents (sh_log (rt_shared rt)) @ [?e]"
    using append_operation_shape [OF accepted(5)] by simp
  have eid: "e_run_id ?e = rid" "e_operation_id ?e = wo_operation_id op" using accepted(3) by simp_all
  have entries: "log_entries rt' = log_entries rt @ [?e]" using accepted(6) con by (simp add: log_entries_def)
  have unknown: "\<not> known_operation rt (wo_operation_id op)"
    using get_run_for_operation_unknown(2) accepted(2) by blast
  have known: "known_run rt r \<Longrightarrow> known_run rt' r" "known_run rt' rid" for r
    using accepted(6) by (auto simp: known_run_def find_run_def split: option.splits)
  have known_op: "known_operation rt o' \<Longrightarrow> known_operation rt' o'"
    "known_operation rt' (wo_operation_id op)" for o'
    using accepted(6) unknown by (auto simp: known_operation_def)
  have index: "index_ok rt" using tidy by (simp add: tidy_def)
  then have "index_ok rt'"
    unfolding index_ok_def entries using known known_op eid by auto
  moreover have "r_run_id (rs_run st') = r \<and> orderly (sh, st')"
    if st': "map_of (rt_states rt') r = Some st'" for r st'
  proof (cases "r = rid")
    case True
    then have "st' = st" using st' accepted(6) by simp
    have "rid \<notin> e_run_id ` set (log_entries rt)" using index accepted(4) by (auto simp: index_ok_def)
    then have "own_entries sh st = [?e]"
      using con eid accepted(3) by (simp add: own_entries_def log_entries_def own_Nil_iff)
    then have "orderly (sh, st)"
      using accepted(3) by (simp add: orderly_def terminal_event_def new_run_state_def)
    with \<open>st' = st\<close> True accepted(3) show ?thesis by simp
  next
    case False
    then have old: "r_run_id (rs_run st') = r" "orderly (rt_shared rt, st')"
      using tidy st' accepted(6) by (auto simp: tidy_def)
    moreover have "own_entries sh st' = own_entries (rt_shared rt) st'"
      using old(1) False con eid by (simp add: own_entries_def)
    ultimately show ?thesis using orderly_shared by blast
  qed
  ultimately show ?thesis using accepted(6) by (simp add: tidy_def)
qed

lemma reachable_tidy: "reachable rt rt' \<Longrightarrow> tidy rt \<Longrightarrow> tidy rt'"
proof (induction rule: reachable.induct)
  case (at_start rt)
  then show ?case .
next
  case (stepped rt rt' rt'')
  then have "tidy rt'" by blast
  with stepped(2) show ?case
    by (cases rule: runtime_step.cases) (auto intro: accepting_tidy running_tidy)
qed

end
