(* ===== verification/Run_Endings.thy ===== *)
theory Run_Endings
  imports Run_Sections
begin

text \<open>
  How an execution ends: the status, the task and the terminal flag a run is left with when its
  executor returns from the last step or raises, and what a domain fact may not do.
\<close>

lemma contract_total:
  "contract P m Q (\<lambda>_ _. False) \<Longrightarrow> P s \<Longrightarrow> \<exists>x s'. m s = (Inr x, s') \<and> Q x s'"
  by (cases "m s"; cases "fst (m s)") (fastforce simp: contract_def)+

definition ended_as :: "run_status \<Rightarrow> shared \<times> run_state \<Rightarrow> bool" where
  "ended_as s p \<longleftrightarrow> rs_terminal (snd p) \<and> run_status_of p = s \<and> rs_task (snd p) = Finished"

definition running :: "shared \<times> run_state \<Rightarrow> bool" where
  "running p \<longleftrightarrow> (\<exists>c. calm c \<and> r_status (rs_run c) = Running \<and> wr Running c p)"

lemma active_running: "active p \<Longrightarrow> run_status_of p = Running \<Longrightarrow> running p"
  using active_live by (elim live_calm [OF active_live]) (auto simp: running_def intro!: exI [of _ "core (snd p)"])

lemma running_status: "running p \<Longrightarrow> run_status_of p = Running"
proof -
  assume "running p"
  then obtain c where c: "r_status (rs_run c) = Running" "wr Running c p" by (auto simp: running_def)
  have "run_status_of p = r_status (rs_run (core (snd p)))" by simp
  with c wr_facts(1) [OF c(2)] show ?thesis by simp
qed

lemma contract_running:
  "(\<And>c. calm c \<Longrightarrow> r_status (rs_run c) = Running \<Longrightarrow> contract (wr Running c) m Q R) \<Longrightarrow>
   contract running m Q R"
  unfolding contract_iff running_def by metis

lemma closed_shown: "closed s c p \<Longrightarrow> rs_terminal (snd p) \<and> run_status_of p = s"
proof -
  assume "closed s c p"
  then obtain rec where c: "core (snd p) = c\<lparr>rs_terminal := True, rs_cancellation_record := Some rec,
      rs_cancellation_sources := []\<rparr>" and s: "r_status (rs_run c) = s"
    by (cases p) (auto simp: closed_def)
  have "rs_terminal (core (snd p))" "r_status (rs_run (core (snd p))) = s"
    unfolding c using s by simp_all
  then show ?thesis by simp
qed

lemma close_and_end:
  assumes "contract P m (\<lambda>_. closed s c) R"
  shows "contract P (block [m, on_run (\<lambda>st. st\<lparr>rs_task := Finished\<rparr>)]) (\<lambda>_. ended_as s) R"
proof -
  have "contract (closed s c) (on_run (\<lambda>st. st\<lparr>rs_task := Finished\<rparr>)) (\<lambda>_. ended_as s) R"
    by (rule contract_change) (auto simp: ended_as_def dest: closed_shown split: prod.splits)
  then show ?thesis
    by - (rule contract_block_Cons, rule assms, rule contract_block_Cons, assumption, rule contract_block_Nil)
qed

lemma finish_from_running:
  assumes "\<And>c. calm c \<Longrightarrow> r_status (rs_run c) = Running \<Longrightarrow>
    contract (wr Running c) m (\<lambda>_. closed s (set_status s c)) (\<lambda>_ _. False)"
  shows "contract running (reading (\<lambda>(sh, st).
     if rs_terminal st then on_run (\<lambda>st. st\<lparr>rs_task := Finished\<rparr>)
     else if r_status (rs_run st) = Cancelling then settle False
     else block [m, on_run (\<lambda>st. st\<lparr>rs_task := Finished\<rparr>)])) (\<lambda>_. ended_as s) (\<lambda>_ _. False)"
proof (rule contract_running)
  fix c assume c: "calm c" "r_status (rs_run c) = Running"
  show "contract (wr Running c) (reading (\<lambda>(sh, st).
     if rs_terminal st then on_run (\<lambda>st. st\<lparr>rs_task := Finished\<rparr>)
     else if r_status (rs_run st) = Cancelling then settle False
     else block [m, on_run (\<lambda>st. st\<lparr>rs_task := Finished\<rparr>)])) (\<lambda>_. ended_as s) (\<lambda>_ _. False)"
    using close_and_end [OF assms [OF c]] c
    by (intro contract_reading_keep) (auto simp: wr_def simp del: block.simps)
qed

lemma no_error_ends_task:
  "contract P m Q (\<lambda>_ _. False) \<Longrightarrow> contract P (ends_task m) Q (\<lambda>_ _. False)"
  unfolding ends_task_def by (rule contract_handle, assumption, rule contract_False)

lemma raised_ends_failed:
  assumes "e \<noteq> ExecutionCancelled"
  shows "contract running (execute_raised e) (\<lambda>_. ended_as Failed) (\<lambda>_ _. False)"
proof -
  have "contract running (handle_exception e) (\<lambda>_. ended_as Failed) (\<lambda>_ _. False)"
    unfolding handle_exception_def
    by (rule finish_from_running, rule finish_failed_closes) (auto intro: calm_running_fits)
  then show ?thesis
    using assms by (simp add: execute_raised_def handle_raised_def no_error_ends_task)
qed

lemma returned_completes: "contract running execution_returned (\<lambda>_. ended_as Completed) (\<lambda>_ _. False)"
  unfolding execution_returned_def
  by (rule finish_from_running, rule finish_completed_closes) (auto intro: calm_running_fits)

lemma complete_step_running: "contract running complete_step (\<lambda>_. running) (\<lambda>_ _. False)"
proof (rule contract_running)
  fix c assume "calm c" "r_status (rs_run c) = Running"
  then show "contract (wr Running c) complete_step (\<lambda>_. running) (\<lambda>_ _. False)"
    by (intro weaken_result [OF complete_step_keeps]) (auto simp: running_def)
qed

lemma last_step_completes:
  "contract (\<lambda>p. running p \<and> length (spec_steps (rs_spec (snd p))) \<le> Suc k) (execute_returned k)
     (\<lambda>_. ended_as Completed) (\<lambda>_ _. False)"
proof -
  have "contract running (try_else complete_step handle_raised (\<lambda>_. execution_returned))
      (\<lambda>_. ended_as Completed) (\<lambda>_ _. False)"
    by (rule contract_try_else, rule complete_step_running, rule contract_False, rule returned_completes)
  with returned_completes show ?thesis
    unfolding execute_returned_def Let_def
    by (intro no_error_ends_task) (auto simp: contract_def reading_def)
qed

text \<open>A run without steps begins: it is started and its executor is awaited.\<close>

lemma begin_without_steps:
  "contract (\<lambda>p. live p \<and> run_status_of p = Accepted \<and> spec_steps (rs_spec (snd p)) = []) execute_begin
     (\<lambda>_ p. running p \<and> rs_task (snd p) = Executing 0) (\<lambda>_ _. False)"
proof (rule contractI)
  fix p assume p: "live p \<and> run_status_of p = Accepted \<and> spec_steps (rs_spec (snd p)) = []"
  then obtain c where c: "calm c" "wr Accepted c p" "core (snd p) = c"
    by (metis live_calm)
  have accepted: "r_status (rs_run c) = Accepted" and steps: "spec_steps (rs_spec c) = []"
    using p c(3) by auto
  let ?c = "set_status Running c"
  have "spec_steps (rs_spec (snd q)) = []" if "wr Running ?c q" for q
  proof -
    have "rs_spec (core (snd q)) = rs_spec c" unfolding wr_facts(1) [OF that] by (simp add: set_status_def)
    with steps show ?thesis by simp
  qed
  moreover have "contract (wr Running ?c) (on_run (\<lambda>st. st\<lparr>rs_task := Executing 0\<rparr>))
      (\<lambda>_ p. running p \<and> rs_task (snd p) = Executing 0) (\<lambda>_ _. False)"
  proof (rule weaken_result [OF wr_changes(2)])
    fix q :: "shared \<times> run_state" assume w: "wr Running (?c\<lparr>rs_task := Executing 0\<rparr>) q"
    have "calm (?c\<lparr>rs_task := Executing 0\<rparr>)"
      by (rule calm_task [OF calm_running [OF c(1) accepted]]) simp_all
    then have "running q"
      unfolding running_def using w by (intro exI [of _ "?c\<lparr>rs_task := Executing 0\<rparr>"]) simp
    moreover have "rs_task (core (snd q)) = Executing 0" unfolding wr_facts(1) [OF w] by simp
    ultimately show "running q \<and> rs_task (snd q) = Executing 0" by simp
  qed
  ultimately have "contract (wr Running ?c) (reading (\<lambda>(sh, st).
      if spec_steps (rs_spec st) = [] then on_run (\<lambda>st. st\<lparr>rs_task := Executing 0\<rparr>)
      else enter_step 0)) (\<lambda>_ p. running p \<and> rs_task (snd p) = Executing 0) (\<lambda>_ _. False)"
    by (intro contract_reading_keep) (auto split: prod.splits)
  then have "contract (wr Accepted c) execute_begin
      (\<lambda>_ p. running p \<and> rs_task (snd p) = Executing 0) (\<lambda>_ _. False)"
    unfolding execute_begin_def
    by - (rule no_error_ends_task, rule contract_handle, rule contract_block_Cons,
        rule start_keeps [OF accepted], rule contract_block_Cons, assumption, rule contract_block_Nil,
        assumption, rule contract_False)
  from this [unfolded contract_def, rule_format, OF c(2)]
  show "case execute_begin p of (Inl e, s') \<Rightarrow> False
      | (Inr x, s') \<Rightarrow> running s' \<and> rs_task (snd s') = Executing 0" .
qed

end
