(* ===== verification/Runtime_Properties.thy ===== *)
theory Runtime_Properties
  imports Runtime_Correct Run_Endings
begin

text \<open>
  The properties of the Work runtime: its log can always be replayed to what the runtime shows,
  the cancellation record it hands out is the one in the journal, accepting is at most once, an
  execution that ends closes its run, and what remains true when appends fail.
\<close>

section \<open>Sample runtime\<close>

definition sample_config :: runtime_config where
  "sample_config = \<lparr>cf_has_executor = True, cf_has_resolver = False, cf_has_cancellation = False,
     cf_cancellation_timeout = None, cf_recording_version = None, cf_recording_policy = None,
     cf_retention = Some ''memory''\<rparr>"

definition sample_runtime :: "bool list \<Rightarrow> runtime" where
  "sample_runtime faults =
     \<lparr>rt_shared = \<lparr>sh_log = empty_log, sh_recording = None, sh_unavailable = False, sh_clock = 0,
        sh_faults = faults, sh_published = []\<rparr>,
      rt_states = [], rt_operation_runs = [], rt_historical_runs = [],
      rt_historical_operation_runs = [], rt_recording_policy = False,
      rt_retention = Some ''memory'', rt_replay_checkpoint = 0\<rparr>"

definition sample_work :: "string \<Rightarrow> work_operation" where
  "sample_work domain = \<lparr>wo_operation_id = ''o'', wo_kind = ''k'', wo_session_id = None,
     wo_domain = domain, wo_payload = [], wo_source = []\<rparr>"

definition plain_spec :: run_spec where
  "plain_spec = \<lparr>sp_run_id = Some ''r'', sp_method_id = None, sp_plan_id = None, sp_step_id = None,
     sp_run_event_payload = [], sp_scope_event_payload = [], sp_steps = [], sp_recording_policy = None\<rparr>"

lemma sample_runtime_opens: "open_runtime sample_config empty_log 0 faults = Inr (sample_runtime faults)"
proof -
  have "query empty_log any_entry None None = []" "checkpoint empty_log = 0"
    by (simp_all add: query_everything contents_def checkpoint_def, simp_all add: empty_log_def)
  moreover have "project_work_runs [] True = Inr []"
    by (simp add: project_work_runs_def empty_projector_def)
  ultimately show ?thesis
    by (simp add: open_runtime_def check_config_def sample_config_def sample_runtime_def Let_def)
qed

definition sample_run :: "string \<Rightarrow> run_state" where
  "sample_run domain = new_run_state (sample_work domain) plain_spec ''r'' False None"

lemma sample_accept:
  "accept (\<lambda>_ _. Inr False) [] (sample_work domain) plain_spec (sample_runtime []) =
     (Inr (rs_run (sample_run domain)), (sample_runtime [])
        \<lparr>rt_shared := (rt_shared (sample_runtime []))
           \<lparr>sh_clock := 1, sh_log := snd (append_stored empty_log (operation_entry (sample_run domain) 0))\<rparr>,
         rt_states := [(''r'', sample_run domain)], rt_operation_runs := [(''o'', ''r'')]\<rparr>)"
proof -
  have look: "query empty_log (by_operation ''o'') None None = []"
    by (simp add: query_def candidate_entries_def by_operation_def empty_log_def bucket_def Let_def)
  have "get_run_for_operation (sample_runtime []) ''o'' = (Inr None, sample_runtime [])"
    by (simp add: get_run_for_operation_def sample_runtime_def look project_work_runs_def empty_projector_def)
  moreover have "find_run (sample_runtime []) ''r'' = None"
    by (simp add: find_run_def sample_runtime_def)
  ultimately show ?thesis
    by (simp add: accept_def sample_work_def validate_spec_def plain_spec_def accept_contract_def
        sample_runtime_def chosen_run_id_def truthy_def append_operation_def append_entry_def
        sample_run_def Let_def)
qed

lemma sample_reachable:
  "reachable (sample_runtime []) (snd (accept (\<lambda>_ _. Inr False) [] (sample_work domain) plain_spec
    (sample_runtime [])))"
  by (rule reachable.stepped [OF reachable.at_start], rule runtime_step.accepting [OF surjective_pairing])

lemma sample_contents:
  "contents (sh_log (rt_shared (snd (accept (\<lambda>_ _. Inr False) [] (sample_work domain) plain_spec (sample_runtime []))))) =
     [operation_entry (sample_run domain) 0]"
  by (simp add: sample_accept) (simp add: contents_def empty_log_def)

lemma sample_entry_named: "entry_named (operation_entry (sample_run domain) 0) \<longleftrightarrow> domain \<noteq> []"
  by (simp add: entry_named_def operation_entry_def sample_run_def new_run_state_def sample_work_def Let_def)

lemma sample_accepted_ok:
  assumes "domain \<noteq> []"
  shows "runtime_ok (snd (accept (\<lambda>_ _. Inr False) [] (sample_work domain) plain_spec (sample_runtime [])))"
proof -
  have "runtime_ok (sample_runtime [])" by (rule open_runtime_ok [OF sample_runtime_opens log_ok_empty]) simp
  then show ?thesis by (rule reachable_ok [OF sample_reachable]) (simp add: sample_contents sample_entry_named assms)
qed

lemma sample_work_id: "wo_operation_id (sample_work d) = ''o''"
  by (simp add: sample_work_def)

text \<open>The sample run, begun: its executor is awaited.\<close>

lemma sample_executing:
  obtains rt st where "reachable (sample_runtime []) rt" and "runtime_ok rt" and "map_of (rt_states rt) ''r'' = Some st"
    and "rs_task st = Executing 0" and "r_status (rs_run st) = Running"
    and "rt_states rt = [(''r'', st)]"
proof -
  let ?rt = "snd (accept (\<lambda>_ _. Inr False) [] (sample_work ''d'') plain_spec (sample_runtime []))"
  let ?p = "(rt_shared ?rt, sample_run ''d'')"
  have r: "reachable (sample_runtime []) ?rt" by (rule sample_reachable)
  have state: "rt_states ?rt = [(''r'', sample_run ''d'')]" unfolding sample_accept by simp
  have ok: "runtime_ok ?rt" by (rule sample_accepted_ok) simp
  then have "run_ok ?p" using state by (auto simp: runtime_ok_def runs_ok_def)
  moreover have fresh: "rs_task (sample_run ''d'') = Created" "run_status_of ?p = Accepted"
      "spec_steps (rs_spec (sample_run ''d'')) = []"
    by (simp_all add: sample_run_def new_run_state_def plain_spec_def spec_steps_def)
  ultimately have "live ?p" using run_ok_task by simp
  with fresh contract_total [OF begin_without_steps, of ?p] obtain sh st where
    began: "execute_begin ?p = (Inr (), sh, st)" and st: "running (sh, st)" "rs_task st = Executing 0"
    by auto
  let ?rt' = "?rt\<lparr>rt_shared := sh, rt_states := AList.update ''r'' st (rt_states ?rt)\<rparr>"
  have step: "run_step ?p (sh, st)" by (rule run_step.step_begin [OF _ began]) (simp add: fresh)
  have "run_ok (sh, st)" using contract_result [OF execute_begin_ok _ began] \<open>live ?p\<close> by blast
  then have "runtime_ok ?rt'" by (intro running_ok [OF ok _ step]) (simp_all add: state)
  from step have "runtime_step ?rt ?rt'" by (intro runtime_step.running) (simp add: state)
  with r have "reachable (sample_runtime []) ?rt'" by (rule reachable.stepped)
  then show thesis
    using \<open>runtime_ok ?rt'\<close>
    by (rule that) (use st running_status [OF st(1)] in \<open>simp_all add: state\<close>)
qed

lemma sample_failed:
  obtains rt st where "reachable (sample_runtime []) rt" and "runtime_ok rt" and "map_of (rt_states rt) ''r'' = Some st"
    and "rs_terminal st"
proof -
  obtain rt st where rt: "reachable (sample_runtime []) rt" "map_of (rt_states rt) ''r'' = Some st"
      "rs_task st = Executing 0" "r_status (rs_run st) = Running" and ok: "runtime_ok rt"
    by (rule sample_executing)
  then have run: "run_ok (rt_shared rt, st)" using rt(2) by (auto simp: runtime_ok_def runs_ok_def)
  then have "running (rt_shared rt, st)" using executing_active active_running rt(3,4) by simp
  then obtain sh' st' where raised: "execute_raised StepNotEnded (rt_shared rt, st) = (Inr (), sh', st')"
      and st': "rs_terminal st'"
    using contract_total [OF raised_ends_failed, of StepNotEnded] by (fastforce simp: ended_as_def)
  then have step: "run_step (rt_shared rt, st) (sh', st')"
    using rt(3) by (intro run_step.step_raised [of _ 0]) simp_all
  have "active (rt_shared rt, st)" using executing_active [OF run] rt(3) by simp
  then have "run_ok (sh', st')" using contract_result [OF execute_raised_ok _ raised] by blast
  with ok rt(2) step have ok': "runtime_ok (rt\<lparr>rt_shared := sh', rt_states := AList.update ''r'' st' (rt_states rt)\<rparr>)"
    by (intro running_ok)
  from step have "runtime_step rt (rt\<lparr>rt_shared := sh', rt_states := AList.update ''r'' st' (rt_states rt)\<rparr>)"
    by (rule runtime_step.running [OF rt(2)])
  with rt(1) have "reachable (sample_runtime [])
      (rt\<lparr>rt_shared := sh', rt_states := AList.update ''r'' st' (rt_states rt)\<rparr>)"
    by (rule reachable.stepped)
  then show thesis by (rule that [OF _ ok' _ st']) (simp add: update_conv')
qed

section \<open>Properties\<close>

lemma runtime_ok_named: "runtime_ok rt \<Longrightarrow> named (rt_shared rt)"
  using replayable_named by (auto simp: runtime_ok_def log_entries_def)

lemma runtime_ok_replays:
  assumes ok: "runtime_ok rt"
  shows "\<exists>runs. project_work_runs (contents (sh_log (rt_shared rt))) False = Inr runs \<and>
    (\<forall>rid st. map_of (rt_states rt) rid = Some st \<longrightarrow>
       (\<exists>run \<in> set runs. r_run_id run = rid \<and> r_status run = r_status (rs_run st)))"
proof -
  let ?es = "contents (sh_log (rt_shared rt))"
  have "replayable ?es" using ok by (simp add: runtime_ok_def log_entries_def)
  then obtain p where p: "rfold projector_step empty_projector ?es = Inr p" using replay_succeeds by blast
  then have runs: "project_work_runs ?es False = Inr (map (p_run \<circ> snd) (states p))"
    by (simp add: project_work_runs_Inr)
  have tracks: "tracks ?es p" by (rule replay_tracks [OF p])
  have "\<exists>run \<in> set (map (p_run \<circ> snd) (states p)). r_run_id run = rid \<and> r_status run = r_status (rs_run st)"
    if st: "map_of (rt_states rt) rid = Some st" for rid st
  proof -
    have run: "r_run_id (rs_run st) = rid" "run_ok (rt_shared rt, st)"
      using ok st by (auto simp: runtime_ok_def runs_ok_def)
    then have valid: "valid_history (own rid ?es) (r_status (rs_run st))"
      using run_ok_history by (auto simp: hist_ok_def own_entries_def Let_def)
    then have "own rid ?es \<noteq> []" by (auto simp: valid_history_def)
    then have "map_of (states p) rid \<noteq> None"
      using tracks_known [OF tracks] by simp
    then obtain s where s: "map_of (states p) rid = Some s" by blast
    then have "describes (own rid ?es) s" and "(rid, s) \<in> set (states p)"
      using tracks_describes [OF tracks] by (auto dest: map_of_SomeD)
    then show ?thesis
      using tracks_mem_states(2) [OF tracks] valid valid_history_unique
      by (force simp: describes_def)
  qed
  with runs show ?thesis by blast
qed

text \<open>
  Property C7. As long as no append fails, however the sections of the running, cancelling and
  waiting tasks interleave, the log can be replayed exactly when every operation in it names a
  domain and every event a kind, neither of which the runtime checks; and then the replay gives
  every run of the runtime exactly the status the runtime shows for it.
\<close>

theorem log_replays_to_live_state:
  assumes "open_runtime cf log now faults = Inr rt" and "log_ok log" and "True \<notin> set faults"
    and "reachable rt rt'"
  shows "(succeeds (project_work_runs (contents (sh_log (rt_shared rt'))) False) \<longleftrightarrow>
      list_all entry_named (contents (sh_log (rt_shared rt')))) \<and>
    (\<forall>runs. project_work_runs (contents (sh_log (rt_shared rt'))) False = Inr runs \<longrightarrow>
       (\<forall>rid st. map_of (rt_states rt') rid = Some st \<longrightarrow>
          (\<exists>run \<in> set runs. r_run_id run = rid \<and> r_status run = r_status (rs_run st))))"
proof -
  let ?es = "contents (sh_log (rt_shared rt'))"
  have replays: "\<exists>runs. project_work_runs ?es False = Inr runs \<and>
      (\<forall>rid st. map_of (rt_states rt') rid = Some st \<longrightarrow>
         (\<exists>run \<in> set runs. r_run_id run = rid \<and> r_status run = r_status (rs_run st)))"
    if "named (rt_shared rt')"
    by (rule runtime_ok_replays [OF reachable_ok [OF assms(4) open_runtime_ok [OF assms(1-3)] that]])
  have "named (rt_shared rt')" if "project_work_runs ?es False = Inr runs" for runs
    using that replay_iff [of ?es] replayable_named by (auto simp: project_work_runs_Inr)
  with replays show ?thesis by (fastforce simp: succeeds_iff)
qed

theorem log_replays_to_live_state_witness:
  "succeeds (project_work_runs (contents (sh_log (rt_shared (snd (accept (\<lambda>_ _. Inr False) []
     (sample_work ''d'') plain_spec (sample_runtime [])))))) False) \<and>
   \<not> succeeds (project_work_runs (contents (sh_log (rt_shared (snd (accept (\<lambda>_ _. Inr False) []
     (sample_work []) plain_spec (sample_runtime [])))))) False)"
proof -
  have "True \<notin> set ([] :: bool list)" by simp
  from log_replays_to_live_state [OF sample_runtime_opens log_ok_empty this sample_reachable]
  have "succeeds (project_work_runs (contents (sh_log (rt_shared (snd (accept (\<lambda>_ _. Inr False) []
      (sample_work domain) plain_spec (sample_runtime [])))))) False) \<longleftrightarrow> domain \<noteq> []" for domain
    by (simp add: sample_contents sample_entry_named)
  then show ?thesis by simp
qed

text \<open>
  A restart never refuses its own log: whatever a runtime without append failures
  wrote, if its entries are named, any runtime with valid arguments opens it, with or without recording.
\<close>

theorem restart_opens:
  assumes "open_runtime cf log now faults = Inr rt" and "log_ok log" and "True \<notin> set faults"
    and "reachable rt rt'" and "named (rt_shared rt')" and "check_config cf' = Inr ()"
  shows "succeeds (open_runtime cf' (sh_log (rt_shared rt')) now' faults')"
proof -
  let ?log = "sh_log (rt_shared rt')"
  have ok: "runtime_ok rt'" by (rule reachable_ok [OF assms(4) open_runtime_ok [OF assms(1-3)] assms(5)])
  then have log: "log_ok ?log" and "replayable (contents ?log)"
    by (auto simp: runtime_ok_def log_entries_def)
  then obtain p where "rfold projector_step empty_projector (contents ?log) = Inr p"
    using replay_succeeds by blast
  then obtain runs where "project_work_runs (contents ?log) True = Inr runs"
    by (auto simp: project_work_runs_Inr)
  moreover obtain ob where "observe_loaded (contents ?log) = Inr ob"
    unfolding observe_loaded_def using observe_all_defined observer_ok_empty by blast
  ultimately show ?thesis
    using assms(6) by (simp add: open_runtime_def query_everything [OF log] Let_def)
qed

theorem restart_opens_witness:
  "succeeds (open_runtime sample_config (sh_log (rt_shared (snd (accept (\<lambda>_ _. Inr False) []
     (sample_work ''d'') plain_spec (sample_runtime []))))) 7 [True])"
proof -
  have "named (rt_shared (snd (accept (\<lambda>_ _. Inr False) [] (sample_work ''d'') plain_spec (sample_runtime []))))"
    by (simp add: sample_contents sample_entry_named)
  moreover have "True \<notin> set ([] :: bool list)" "check_config sample_config = Inr ()"
    by (simp_all add: check_config_def sample_config_def)
  ultimately show ?thesis using restart_opens [OF sample_runtime_opens log_ok_empty _ sample_reachable] by blast
qed

text \<open>
  The cancellation record of a finished run is confirmed by its journal: every
  finished run of a log with named entries has one, the runtime returns it, and it is exactly what the projection reads from
  the run's entries, so a restart reports the same outcome.
\<close>

theorem cancellation_record_is_journal:
  assumes "open_runtime cf log now faults = Inr rt" and "log_ok log" and "True \<notin> set faults"
    and "reachable rt rt'" and "named (rt_shared rt')" and "map_of (rt_states rt') rid = Some st" and "rs_terminal st"
  shows "\<exists>rec. get_cancellation rt' rid = Inr rec \<and>
    project_run (own rid (contents (sh_log (rt_shared rt')))) = Inr rec"
proof -
  have "runtime_ok rt'" by (rule reachable_ok [OF assms(4) open_runtime_ok [OF assms(1-3)] assms(5)])
  then have "r_run_id (rs_run st) = rid" "run_ok (rt_shared rt', st)" "\<not> sh_unavailable (rt_shared rt')"
    using assms(6) by (auto simp: runtime_ok_def runs_ok_def)
  with run_ok_record [OF _ assms(7)] assms(6) show ?thesis
    by (force simp: get_cancellation_def own_entries_def)
qed

theorem cancellation_record_is_journal_witness:
  "\<exists>rt st rec. reachable (sample_runtime []) rt \<and> map_of (rt_states rt) ''r'' = Some st \<and>
     rs_terminal st \<and> get_cancellation rt ''r'' = Inr rec"
proof -
  obtain rt st where rt: "reachable (sample_runtime []) rt" "map_of (rt_states rt) ''r'' = Some st"
      "rs_terminal st" and ok: "runtime_ok rt"
    by (rule sample_failed)
  have "True \<notin> set ([] :: bool list)" by simp
  from cancellation_record_is_journal [OF sample_runtime_opens log_ok_empty this rt(1) runtime_ok_named [OF ok] rt(2,3)]
    rt show ?thesis
    by blast
qed

text \<open>
  Property C8. Even when appends fail, a run's entries are in strictly increasing sequence, its
  operation entry comes first, and there is at most one terminal event, which is the last entry;
  the runtime holds the run terminal exactly when that event is stored.
\<close>

theorem one_terminal_even_with_faults:
  assumes "open_runtime cf log now faults = Inr rt" and "log_ok log"
    and "reachable rt rt'" and "map_of (rt_states rt') rid = Some st"
  shows "let es = own rid (contents (sh_log (rt_shared rt'))) in es \<noteq> [] \<and>
    sorted_wrt (<) (map e_sequence es) \<and> list_all (\<lambda>e. \<not> terminal_event e) (butlast es) \<and>
    (terminal_event (last es) \<longleftrightarrow> rs_terminal st)"
proof -
  have "tidy rt" using open_runtime_log [OF assms(1,2)] by (simp add: tidy_def)
  then have "tidy rt'" by (rule reachable_tidy [OF assms(3)])
  then have "r_run_id (rs_run st) = rid" "orderly (rt_shared rt', st)"
    using assms(4) by (auto simp: tidy_def)
  then show ?thesis by (auto simp: orderly_def own_entries_def Let_def)
qed

theorem one_terminal_even_with_faults_witness:
  "sorted_wrt (<) (map e_sequence (own ''r'' (contents (sh_log (rt_shared (snd (accept (\<lambda>_ _. Inr False) []
     (sample_work ''d'') plain_spec (sample_runtime []))))))))"
proof -
  have "map_of (rt_states (snd (accept (\<lambda>_ _. Inr False) [] (sample_work ''d'') plain_spec
      (sample_runtime [])))) ''r'' = Some (sample_run ''d'')"
    by (simp add: sample_accept)
  then show ?thesis
    using one_terminal_even_with_faults [OF sample_runtime_opens log_ok_empty sample_reachable]
    by (simp add: Let_def)
qed

text \<open>
  An operation is accepted at most once: accepting appends one operation entry and
  nothing else, and from then on the same operation is refused as a duplicate, the state unchanged,
  whatever specification comes with it.
\<close>

theorem accept_at_most_once:
  assumes "runtime_ok rt" and "accept resolve fresh op spec rt = (Inr run, rt')"
  shows "(\<exists>e. contents (sh_log (rt_shared rt')) = contents (sh_log (rt_shared rt)) @ [e] \<and>
      e_entry_type e = Operation \<and> e_operation_id e = wo_operation_id op) \<and>
    (\<forall>resolve' fresh' op' spec'. wo_operation_id op' = wo_operation_id op \<longrightarrow>
       accept resolve' fresh' op' spec' rt' = (Inl (DuplicateOperation (wo_operation_id op)), rt'))"
  using assms(2)
proof (cases rule: accept_cases)
  case (accepted st sh st2 rid cap rc)
  have "contents (sh_log sh) = contents (sh_log (rt_shared rt)) @ [operation_entry st (sh_clock (rt_shared rt))]"
    using append_operation_shape [OF accepted(5)] by simp
  moreover have "get_run_for_operation rt' (wo_operation_id op) = (Inr (Some (rs_run st)), rt')"
    using accepted(6) by (simp add: get_run_for_operation_def)
  ultimately show ?thesis using accepted(3,6) by (auto simp: accept_def)
qed auto

theorem accept_at_most_once_witness:
  "accept (\<lambda>_ _. Inr True) [] (sample_work ''e'') plain_spec
     (snd (accept (\<lambda>_ _. Inr False) [] (sample_work ''d'') plain_spec (sample_runtime []))) =
   (Inl (DuplicateOperation ''o''),
    snd (accept (\<lambda>_ _. Inr False) [] (sample_work ''d'') plain_spec (sample_runtime [])))"
proof -
  let ?rt = "snd (accept (\<lambda>_ _. Inr False) [] (sample_work ''d'') plain_spec (sample_runtime []))"
  have "runtime_ok (sample_runtime [])"
    by (rule open_runtime_ok [OF sample_runtime_opens log_ok_empty]) simp
  moreover have "accept (\<lambda>_ _. Inr False) [] (sample_work ''d'') plain_spec (sample_runtime []) =
      (Inr (rs_run (sample_run ''d'')), ?rt)"
    unfolding sample_accept by simp
  ultimately have "wo_operation_id (sample_work ''e'') = wo_operation_id (sample_work ''d'') \<longrightarrow>
      accept (\<lambda>_ _. Inr True) [] (sample_work ''e'') plain_spec ?rt =
        (Inl (DuplicateOperation (wo_operation_id (sample_work ''d''))), ?rt)"
    using accept_at_most_once by blast
  then show ?thesis unfolding sample_work_id by blast
qed

text \<open>
  Property C9. An execution closes its run: in a runtime without append failures and with named
  entries, when the executor of a run that is running, with no cancellation under way, raises any
  exception but the cancellation, the run fails, and when it returns from the last step, the run completes; in both
  cases the terminal event is stored, the task has ended, and nothing is raised.
\<close>

theorem execution_closes_run:
  assumes "open_runtime cf log now faults = Inr rt" and "log_ok log" and "True \<notin> set faults"
    and "reachable rt rt'" and "named (rt_shared rt')" and "map_of (rt_states rt') rid = Some st"
    and "rs_task st = Executing k" and "r_status (rs_run st) = Running"
  shows "(\<forall>e. e \<noteq> ExecutionCancelled \<longrightarrow>
      (\<exists>sh' st'. execute_raised e (rt_shared rt', st) = (Inr (), sh', st') \<and>
         r_status (rs_run st') = Failed \<and> rs_terminal st' \<and> rs_task st' = Finished)) \<and>
    (length (spec_steps (rs_spec st)) \<le> Suc k \<longrightarrow>
      (\<exists>sh' st'. execute_returned k (rt_shared rt', st) = (Inr (), sh', st') \<and>
         r_status (rs_run st') = Completed \<and> rs_terminal st' \<and> rs_task st' = Finished))"
proof -
  let ?p = "(rt_shared rt', st)"
  have "runtime_ok rt'" by (rule reachable_ok [OF assms(4) open_runtime_ok [OF assms(1-3)] assms(5)])
  then have "run_ok ?p" using assms(6) by (auto simp: runtime_ok_def runs_ok_def)
  then have "running ?p" using executing_active active_running assms(7,8) by simp
  then have "\<forall>e. e \<noteq> ExecutionCancelled \<longrightarrow>
      (\<exists>p'. execute_raised e ?p = (Inr (), p') \<and> ended_as Failed p')"
    and "length (spec_steps (rs_spec st)) \<le> Suc k \<longrightarrow>
      (\<exists>p'. execute_returned k ?p = (Inr (), p') \<and> ended_as Completed p')"
    using contract_total [OF raised_ends_failed, of _ ?p] contract_total [OF last_step_completes, of ?p k]
    by auto
  then show ?thesis by (auto simp: ended_as_def)
qed

theorem execution_closes_run_witness:
  "\<exists>rt st. reachable (sample_runtime []) rt \<and> map_of (rt_states rt) ''r'' = Some st \<and>
     rs_task st = Executing 0 \<and>
     (\<exists>sh' st'. execute_raised StepNotEnded (rt_shared rt, st) = (Inr (), sh', st') \<and>
        r_status (rs_run st') = Failed \<and> rs_terminal st')"
proof -
  obtain rt st where rt: "reachable (sample_runtime []) rt" "map_of (rt_states rt) ''r'' = Some st"
      "rs_task st = Executing 0" "r_status (rs_run st) = Running" and ok: "runtime_ok rt"
    by (rule sample_executing)
  have "True \<notin> set ([] :: bool list)" by simp
  from execution_closes_run [OF sample_runtime_opens log_ok_empty this rt(1) runtime_ok_named [OF ok] rt(2-4)]
  have "\<exists>sh' st'. execute_raised StepNotEnded (rt_shared rt, st) = (Inr (), sh', st') \<and>
      r_status (rs_run st') = Failed \<and> rs_terminal st'" by fastforce
  with rt show ?thesis by blast
qed

text \<open>
  The runtime does not check that an operation names a domain, and the replay does:
  an operation with an empty domain is accepted and journaled, and no runtime can be opened on that
  log any more.
\<close>

theorem empty_domain_blocks_restart:
  "\<exists>run rt err. accept (\<lambda>_ _. Inr False) [] (sample_work []) plain_spec (sample_runtime []) = (Inr run, rt) \<and>
     (\<forall>cf now faults. check_config cf = Inr () \<longrightarrow>
        open_runtime cf (sh_log (rt_shared rt)) now faults = Inl (ReplayRefused err))"
proof -
  let ?e = "operation_entry (sample_run []) 0"
  let ?log = "snd (append_stored empty_log ?e)"
  have "log_ok ?log" by (rule log_ok_append_stored [OF log_ok_empty])
  then have "query ?log any_entry None None = [?e]"
    by (simp add: query_everything) (simp add: contents_def empty_log_def)
  moreover have "e_entry_type ?e = Operation" "e_sequence ?e = 0" "e_run_id ?e = ''r''"
    "map_of (e_payload ?e) ''domain'' = Some (JStr [])"
    by (simp_all add: operation_entry_def sample_run_def new_run_state_def sample_work_def Let_def)
  then have "project_work_runs [?e] True = Inl (NoDomain ''r'')"
    by (simp add: project_work_runs_def projector_step_def projector_apply_def apply_first_def
        empty_projector_def run_from_operation_def Let_def)
  ultimately have "check_config cf = Inr () \<Longrightarrow> open_runtime cf ?log now faults = Inl (ReplayRefused (NoDomain ''r''))"
    for cf now faults by (simp add: open_runtime_def Let_def)
  then show ?thesis by (simp add: sample_accept)
qed

theorem empty_domain_blocks_restart_witness:
  "\<exists>run rt err. accept (\<lambda>_ _. Inr False) [] (sample_work []) plain_spec (sample_runtime []) = (Inr run, rt) \<and>
     open_runtime sample_config (sh_log (rt_shared rt)) 0 [] = Inl (ReplayRefused err)"
proof -
  have "check_config sample_config = Inr ()" by (simp add: check_config_def sample_config_def)
  with empty_domain_blocks_restart show ?thesis by blast
qed

end
