(* ===== verification/Json_Text.thy ===== *)
theory Json_Text
  imports Prelude "HOL-Library.List_Lexorder" "HOL-Library.Char_ord" "HOL-Library.Multiset"
begin

text \<open>
  JSON text as the program uses it: \<open>json.dumps\<close> with its \<open>ensure_ascii\<close>, \<open>sort_keys\<close> and
  \<open>separators\<close> arguments and \<open>json.loads\<close> with \<open>parse_constant\<close> refusing \<open>NaN\<close> and the infinities.

  A character is one of the 256 code points of the type \<open>char\<close>; an escape of another code point
  makes \<open>loads\<close> fail. A float literal is kept as its text, so \<open>loads\<close> is the program's on texts
  that spell floats the way Python prints them.
\<close>

section \<open>Printing\<close>

record json_format =
  jf_ascii :: bool
  jf_sort_keys :: bool
  jf_item_separator :: string
  jf_key_separator :: string

definition code :: "char \<Rightarrow> nat" where
  "code c = of_char c"

lemma code_less [simp]: "code c < 256"
  by (simp add: code_def)

lemma char_of_code [simp]: "char_of (code c) = c"
  by (simp add: code_def)

definition hex_digit :: "nat \<Rightarrow> char" where
  "hex_digit d = char_of (if d < 10 then 48 + d else 87 + d)"

definition short_escapes :: "(char \<times> char) list" where
  "short_escapes =
     [(CHR 0x22, CHR 0x22), (CHR 0x5C, CHR 0x5C), (CHR 0x0A, CHR ''n''), (CHR 0x0D, CHR ''r''),
      (CHR 0x09, CHR ''t''), (CHR 0x0C, CHR ''f''), (CHR 0x08, CHR ''b'')]"

definition escape_char :: "bool \<Rightarrow> char \<Rightarrow> string" where
  "escape_char ascii c =
     (case map_of short_escapes c of
        Some e \<Rightarrow> [CHR 0x5C, e]
      | None \<Rightarrow>
          if code c < 32 \<or> ascii \<and> 126 < code c
          then [CHR 0x5C, CHR ''u'', CHR ''0'', CHR ''0'', hex_digit (code c div 16), hex_digit (code c mod 16)]
          else [c])"

definition quote :: "bool \<Rightarrow> string \<Rightarrow> string" where
  "quote ascii s = CHR 0x22 # concat (map (escape_char ascii) s) @ [CHR 0x22]"

definition int_text :: "int \<Rightarrow> string" where
  "int_text i = (if i < 0 then CHR ''-'' # decimal (nat (- i)) else decimal (nat i))"

fun join :: "string \<Rightarrow> string list \<Rightarrow> string" where
  "join sep [] = []"
| "join sep [x] = x"
| "join sep (x # y # xs) = x @ sep @ join sep (y # xs)"

fun sorted_keys :: "json \<Rightarrow> json" where
  "sorted_keys (JList vs) = JList (map sorted_keys vs)"
| "sorted_keys (JObj kvs) = JObj (sort_key fst (map (\<lambda>(k, v). (k, sorted_keys v)) kvs))"
| "sorted_keys v = v"

fun print_json :: "json_format \<Rightarrow> json \<Rightarrow> string" where
  "print_json f JNull = ''null''"
| "print_json f (JBool b) = (if b then ''true'' else ''false'')"
| "print_json f (JInt i) = int_text i"
| "print_json f (JFloat t) = t"
| "print_json f (JStr s) = quote (jf_ascii f) s"
| "print_json f (JList vs) = CHR ''['' # join (jf_item_separator f) (map (print_json f) vs) @ [CHR '']'']"
| "print_json f (JObj kvs) =
     CHR ''{'' # join (jf_item_separator f)
       (map (\<lambda>(k, v). quote (jf_ascii f) k @ jf_key_separator f @ print_json f v) kvs) @ [CHR ''}'']"

definition dumps :: "json_format \<Rightarrow> json \<Rightarrow> string" where
  "dumps f v = print_json f (if jf_sort_keys f then sorted_keys v else v)"

section \<open>Parsing\<close>

definition is_space :: "char \<Rightarrow> bool" where
  "is_space c \<longleftrightarrow> code c = 32 \<or> code c = 9 \<or> code c = 10 \<or> code c = 13"

definition skip :: "string \<Rightarrow> string" where
  "skip = dropWhile is_space"

definition hex_value :: "char \<Rightarrow> nat option" where
  "hex_value c =
     (if is_digit c then Some (code c - 48)
      else if 97 \<le> code c \<and> code c \<le> 102 then Some (code c - 87)
      else if 65 \<le> code c \<and> code c \<le> 70 then Some (code c - 55)
      else None)"

definition unescapes :: "(char \<times> char) list" where
  "unescapes = (CHR ''/'', CHR ''/'') # map (\<lambda>(c, e). (e, c)) short_escapes"

definition hex_char :: "char \<Rightarrow> char \<Rightarrow> char \<Rightarrow> char \<Rightarrow> char option" where
  "hex_char a b c d =
     (case (hex_value a, hex_value b, hex_value c, hex_value d) of
        (Some a, Some b, Some c, Some d) \<Rightarrow>
          if a = 0 \<and> b = 0 then Some (char_of (16 * c + d)) else None
      | _ \<Rightarrow> None)"

definition with_char :: "char \<Rightarrow> (string \<times> string) option \<Rightarrow> (string \<times> string) option" where
  "with_char c = map_option (\<lambda>(t, r). (c # t, r))"

text \<open>The characters after an opening quote, up to the closing one.\<close>

fun scan_string :: "string \<Rightarrow> (string \<times> string) option" where
  "scan_string [] = None"
| "scan_string (c # s) =
     (if c = CHR 0x22 then Some ([], s)
      else if c = CHR 0x5C then
        (case s of
           [] \<Rightarrow> None
         | e # s' \<Rightarrow>
             if e = CHR ''u'' then
               (case s' of
                  h1 # h2 # h3 # h4 # s'' \<Rightarrow>
                    (case hex_char h1 h2 h3 h4 of
                       None \<Rightarrow> None | Some x \<Rightarrow> with_char x (scan_string s''))
                | _ \<Rightarrow> None)
             else
               (case map_of unescapes e of
                  None \<Rightarrow> None | Some x \<Rightarrow> with_char x (scan_string s')))
      else if code c < 32 then None
      else with_char c (scan_string s))"

definition scan_fraction :: "string \<Rightarrow> string \<times> string" where
  "scan_fraction s =
     (case s of
        c # r \<Rightarrow>
          if c = CHR ''.'' \<and> takeWhile is_digit r \<noteq> []
          then (c # takeWhile is_digit r, dropWhile is_digit r) else ([], s)
      | [] \<Rightarrow> ([], s))"

definition scan_sign :: "string \<Rightarrow> string \<times> string" where
  "scan_sign s =
     (case s of c # r \<Rightarrow> if c = CHR ''-'' \<or> c = CHR ''+'' then ([c], r) else ([], s) | [] \<Rightarrow> ([], s))"

definition scan_exponent :: "string \<Rightarrow> string \<times> string" where
  "scan_exponent s =
     (case s of
        c # r \<Rightarrow>
          (let (sign, r') = scan_sign r in
           if (c = CHR ''e'' \<or> c = CHR ''E'') \<and> takeWhile is_digit r' \<noteq> []
           then (c # sign @ takeWhile is_digit r', dropWhile is_digit r') else ([], s))
      | [] \<Rightarrow> ([], s))"

definition scan_unsigned :: "string \<Rightarrow> (string \<times> string \<times> string) option" where
  "scan_unsigned s =
     (let ds = takeWhile is_digit s in
      if ds = [] then None
      else
        (let (whole, s2) = (if hd ds = CHR ''0'' then ([hd ds], tl s) else (ds, dropWhile is_digit s));
             (fraction, s3) = scan_fraction s2;
             (exponent, s4) = scan_exponent s3
         in Some (whole, fraction @ exponent, s4)))"

definition scan_number :: "string \<Rightarrow> (json \<times> string) option" where
  "scan_number s =
     (let minus = (case s of c # _ \<Rightarrow> c = CHR ''-'' | [] \<Rightarrow> False) in
      case scan_unsigned (if minus then tl s else s) of
        None \<Rightarrow> None
      | Some (whole, tail, r) \<Rightarrow>
          Some (if tail = [] then JInt ((if minus then -1 else 1) * int (nat_of_digits whole))
                else JFloat ((if minus then [CHR ''-''] else []) @ whole @ tail), r))"

definition scan_word :: "string \<Rightarrow> json \<Rightarrow> string \<Rightarrow> (json \<times> string) option" where
  "scan_word w v s = (if take (length w) s = w then Some (v, drop (length w) s) else None)"

definition scan_atom :: "string \<Rightarrow> (json \<times> string) option" where
  "scan_atom s =
     (case s of
        [] \<Rightarrow> None
      | c # r \<Rightarrow>
          if c = CHR 0x22 then map_option (\<lambda>(t, r). (JStr t, r)) (scan_string r)
          else if c = CHR ''n'' then scan_word ''null'' JNull s
          else if c = CHR ''t'' then scan_word ''true'' (JBool True) s
          else if c = CHR ''f'' then scan_word ''false'' (JBool False) s
          else scan_number s)"

text \<open>The first character of the rest, and what follows it.\<close>

definition opens :: "char \<Rightarrow> string \<Rightarrow> bool" where
  "opens c s \<longleftrightarrow> s \<noteq> [] \<and> hd s = c"

fun parse_value :: "nat \<Rightarrow> string \<Rightarrow> (json \<times> string) option"
  and parse_items :: "nat \<Rightarrow> string \<Rightarrow> (json list \<times> string) option"
  and parse_members :: "nat \<Rightarrow> string \<Rightarrow> (payload \<times> string) option" where
  "parse_value 0 s = None"
| "parse_value (Suc n) s =
     (if opens (CHR ''['') s then
        (let r = skip (tl s) in
         if opens (CHR '']'') r then Some (JList [], tl r)
         else (case parse_items n r of None \<Rightarrow> None | Some (vs, r') \<Rightarrow> Some (JList vs, r')))
      else if opens (CHR ''{'') s then
        (let r = skip (tl s) in
         if opens (CHR ''}'') r then Some (JObj [], tl r)
         else (case parse_members n r of None \<Rightarrow> None | Some (kvs, r') \<Rightarrow> Some (JObj (dict_merge [] kvs), r')))
      else scan_atom s)"
| "parse_items 0 s = None"
| "parse_items (Suc n) s =
     (case parse_value n s of
        None \<Rightarrow> None
      | Some (v, r) \<Rightarrow>
          if opens (CHR '']'') (skip r) then Some ([v], tl (skip r))
          else if opens (CHR '','') (skip r) then
            (case parse_items n (skip (tl (skip r))) of
               None \<Rightarrow> None | Some (vs, r') \<Rightarrow> Some (v # vs, r'))
          else None)"
| "parse_members 0 s = None"
| "parse_members (Suc n) s =
     (if \<not> opens (CHR 0x22) s then None
      else
        (case scan_string (tl s) of
           None \<Rightarrow> None
         | Some (k, r) \<Rightarrow>
             if \<not> opens (CHR '':'') (skip r) then None
             else
               (case parse_value n (skip (tl (skip r))) of
                  None \<Rightarrow> None
                | Some (v, r') \<Rightarrow>
                    if opens (CHR ''}'') (skip r') then Some ([(k, v)], tl (skip r'))
                    else if opens (CHR '','') (skip r') then
                      (case parse_members n (skip (tl (skip r'))) of
                         None \<Rightarrow> None | Some (kvs, r'') \<Rightarrow> Some ((k, v) # kvs, r''))
                    else None)))"

definition loads :: "string \<Rightarrow> json option" where
  "loads s =
     (case parse_value (length s) (skip s) of
        None \<Rightarrow> None
      | Some (v, r) \<Rightarrow> if skip r = [] then Some v else None)"

section \<open>Strings\<close>

lemma hex_digit_value: "d < 16 \<Longrightarrow> hex_value (hex_digit d) = Some d"
  by (auto simp: hex_value_def hex_digit_def is_digit_def code_def)

lemma hex_char_code: "hex_char (CHR ''0'') (CHR ''0'') (hex_digit (code c div 16)) (hex_digit (code c mod 16)) = Some c"
proof -
  have "code c div 16 < 16" by (rule less_mult_imp_div_less) (use code_less [of c] in linarith)
  moreover have "hex_value (CHR ''0'') = Some 0" by (simp add: hex_value_def is_digit_def code_def)
  ultimately show ?thesis by (simp add: hex_char_def hex_digit_value)
qed

lemma short_escape_found:
  "map_of short_escapes c = Some e \<Longrightarrow> map_of unescapes e = Some c \<and> e \<noteq> CHR ''u''"
  by (auto simp: short_escapes_def unescapes_def split: if_splits)

lemma short_escape_missing: "map_of short_escapes c = None \<Longrightarrow> c \<noteq> CHR 0x22 \<and> c \<noteq> CHR 0x5C"
  by (auto simp: short_escapes_def split: if_splits)

lemma scan_escaped_char:
  "scan_string (escape_char ascii c @ s) = with_char c (scan_string s)"
proof (cases "map_of short_escapes c")
  case None
  then have "c \<noteq> CHR 0x22" "c \<noteq> CHR 0x5C" using short_escape_missing by blast+
  with None show ?thesis by (simp add: escape_char_def hex_char_code)
next
  case (Some e)
  with short_escape_found [OF Some] show ?thesis by (simp add: escape_char_def)
qed

lemma scan_escaped: "scan_string (concat (map (escape_char ascii) t) @ CHR 0x22 # s) = Some (t, s)"
  by (induction t) (simp_all add: scan_escaped_char with_char_def del: scan_string.simps(2), simp)

section \<open>Numbers\<close>

definition number_end :: "string \<Rightarrow> bool" where
  "number_end r \<longleftrightarrow> r = [] \<or> \<not> is_digit (hd r) \<and> hd r \<notin> {CHR ''.'', CHR ''e'', CHR ''E'', CHR ''+'', CHR ''-''}"

lemma digits_end:
  assumes "number_end r"
  shows "takeWhile is_digit (s @ r) = takeWhile is_digit s"
    and "dropWhile is_digit (s @ r) = dropWhile is_digit s @ r"
proof -
  have "takeWhile is_digit r = []" "dropWhile is_digit r = r"
    using assms by (cases r; simp add: number_end_def)+
  then show "takeWhile is_digit (s @ r) = takeWhile is_digit s"
    and "dropWhile is_digit (s @ r) = dropWhile is_digit s @ r"
    by (induction s) simp_all
qed

definition extend :: "string \<Rightarrow> string \<times> string \<Rightarrow> string \<times> string" where
  "extend r p = (fst p, snd p @ r)"

lemma scan_end:
  assumes "number_end r"
  shows "scan_fraction (s @ r) = extend r (scan_fraction s)"
    and "scan_sign (s @ r) = extend r (scan_sign s)"
    and "scan_exponent (s @ r) = extend r (scan_exponent s)"
proof -
  show "scan_fraction (s @ r) = extend r (scan_fraction s)"
    using digits_end [OF assms] assms
    by (cases s; cases r) (auto simp: scan_fraction_def extend_def number_end_def)
  show sign: "scan_sign (s @ r) = extend r (scan_sign s)" for s
    using assms by (cases s; cases r) (auto simp: scan_sign_def extend_def number_end_def)
  show "scan_exponent (s @ r) = extend r (scan_exponent s)"
  proof (cases s)
    case Nil
    then show ?thesis using assms
      by (cases r) (auto simp: scan_exponent_def extend_def number_end_def split: prod.split)
  next
    case (Cons c s')
    then show ?thesis
      using digits_end [OF assms] sign [of s']
      by (auto simp: scan_exponent_def extend_def split: prod.split)
  qed
qed

lemma scan_unsigned_end:
  assumes "number_end r"
  shows "scan_unsigned (s @ r) = map_option (\<lambda>(w, m, r'). (w, m, r' @ r)) (scan_unsigned s)"
proof (cases "takeWhile is_digit s = []")
  case True
  then show ?thesis using digits_end [OF assms] by (simp add: scan_unsigned_def)
next
  case False
  then obtain c s' where "s = c # s'" "is_digit c" by (cases s) (auto split: if_splits)
  then show ?thesis
    using digits_end [OF assms] scan_end [OF assms]
    by (auto simp: scan_unsigned_def extend_def Let_def split: prod.split)
qed

lemma scan_number_end:
  assumes "scan_number s = Some (v, [])" and "number_end r"
  shows "scan_number (s @ r) = Some (v, r)"
proof -
  have "s \<noteq> []" using assms(1) by (auto simp: scan_number_def scan_unsigned_def)
  then obtain c s' where "s = c # s'" by (cases s) auto
  with assms scan_unsigned_end [OF assms(2), of s] scan_unsigned_end [OF assms(2), of s']
  show ?thesis by (auto simp: scan_number_def Let_def split: option.splits if_splits)
qed

lemma scan_decimal: "scan_unsigned (decimal n) = Some (decimal n, [], [])"
proof -
  have all: "takeWhile is_digit (decimal n) = decimal n" "dropWhile is_digit (decimal n) = []"
    using decimal_digits [of n] by (simp_all add: list_all_iff takeWhile_eq_all_conv)
  show ?thesis
  proof (cases "n = 0")
    case True
    have "decimal 0 = ''0''" by code_simp
    with True show ?thesis
      using all by (simp add: scan_unsigned_def scan_fraction_def scan_exponent_def)
  next
    case False
    have "hd (decimal n) \<noteq> CHR ''0''" using hd_decimal [OF False] by (auto simp: digit_value_def)
    then show ?thesis
      unfolding scan_unsigned_def all Let_def by (simp add: scan_fraction_def scan_exponent_def)
  qed
qed

lemma decimal_Cons: "\<exists>c s. decimal n = c # s \<and> is_digit c"
  using decimal_digits [of n] decimal_not_Nil [of n] by (cases "decimal n") auto

lemma scan_int: "scan_number (int_text i) = Some (JInt i, [])"
proof (cases "i < 0")
  case True
  then show ?thesis
    by (simp add: int_text_def scan_number_def scan_decimal nat_of_decimal)
next
  case False
  obtain c s where "decimal (nat i) = c # s" "is_digit c" using decimal_Cons by blast
  moreover from this have "c \<noteq> CHR ''-''" by (auto simp: is_digit_def)
  ultimately show ?thesis
    using False scan_decimal [of "nat i"] nat_of_decimal [of "nat i"]
    by (simp add: int_text_def scan_number_def)
qed

section \<open>Values\<close>

definition float_text :: "string \<Rightarrow> bool" where
  "float_text t \<longleftrightarrow> scan_number t = Some (JFloat t, [])"

fun json_ok :: "json \<Rightarrow> bool" where
  "json_ok (JFloat t) = float_text t"
| "json_ok (JList vs) = list_all json_ok vs"
| "json_ok (JObj kvs) = (distinct (keys kvs) \<and> list_all (\<lambda>(k, v). json_ok v) kvs)"
| "json_ok v = True"

definition format_ok :: "json_format \<Rightarrow> bool" where
  "format_ok f \<longleftrightarrow> opens (CHR '','') (jf_item_separator f) \<and> skip (tl (jf_item_separator f)) = [] \<and>
     opens (CHR '':'') (jf_key_separator f) \<and> skip (tl (jf_key_separator f)) = []"

text \<open>How a printed value begins: it tells the parser which branch to take.\<close>

definition number_start :: "char \<Rightarrow> bool" where
  "number_start c \<longleftrightarrow> is_digit c \<or> c = CHR ''-''"

lemma scan_number_start:
  assumes "scan_number s = Some p"
  shows "\<exists>c r. s = c # r \<and> number_start c"
proof -
  have ds: "takeWhile is_digit (if s \<noteq> [] \<and> hd s = CHR ''-'' then tl s else s) \<noteq> []"
    using assms by (cases s) (auto simp: scan_number_def scan_unsigned_def Let_def split: if_splits)
  then show ?thesis by (cases s) (auto simp: number_start_def split: if_splits)
qed

lemma number_start_other:
  assumes "number_start c"
  shows "\<not> is_space c" and "c \<noteq> CHR ''['' \<and> c \<noteq> CHR ''{'' \<and> c \<noteq> CHR '']'' \<and> c \<noteq> CHR ''}'' \<and>
    c \<noteq> CHR 0x22 \<and> c \<noteq> CHR ''n'' \<and> c \<noteq> CHR ''t'' \<and> c \<noteq> CHR ''f''"
  using assms by (auto simp: number_start_def is_space_def is_digit_def code_def)

definition value_start :: "string \<Rightarrow> bool" where
  "value_start s \<longleftrightarrow> s \<noteq> [] \<and> \<not> is_space (hd s) \<and> hd s \<noteq> CHR '']'' \<and> hd s \<noteq> CHR ''}''"

lemma value_start_append [simp]: "value_start s \<Longrightarrow> value_start (s @ r)"
  by (auto simp: value_start_def hd_append)

lemma value_start_skip: "value_start s \<Longrightarrow> skip s = s"
  by (cases s) (auto simp: value_start_def skip_def)

lemma value_start_print: "json_ok v \<Longrightarrow> value_start (print_json f v)"
proof (cases v)
  case (JInt i)
  obtain c r where "int_text i = c # r" "number_start c" using scan_number_start [OF scan_int] by blast
  with JInt number_start_other [of c] show ?thesis by (simp add: value_start_def)
next
  case (JFloat t)
  moreover assume "json_ok v"
  ultimately obtain c r where "t = c # r" "number_start c"
    using scan_number_start by (fastforce simp: float_text_def)
  with JFloat number_start_other [of c] show ?thesis by (simp add: value_start_def)
qed (auto simp: value_start_def is_space_def code_def quote_def)

lemma skip_separator: "skip (tl s) = [] \<Longrightarrow> skip (tl s @ r) = skip r"
  by (simp add: skip_def dropWhile_append)

definition value_end :: "string \<Rightarrow> bool" where
  "value_end r \<longleftrightarrow> r = [] \<or> hd r \<in> {CHR '','', CHR '']'', CHR ''}''}"

lemma value_end_number: "value_end r \<Longrightarrow> number_end r"
  by (auto simp: value_end_def number_end_def is_digit_def)

lemma parse_atom_print:
  assumes "0 < n" and "value_end r"
  shows "parse_value n (''null'' @ r) = Some (JNull, r)"
    and "parse_value n ((if b then ''true'' else ''false'') @ r) = Some (JBool b, r)"
    and "parse_value n (quote a t @ r) = Some (JStr t, r)"
    and "scan_number s = Some (v, []) \<Longrightarrow> parse_value n (s @ r) = Some (v, r)"
proof -
  obtain m where n: "n = Suc m" using assms(1) by (cases n) auto
  show "parse_value n (''null'' @ r) = Some (JNull, r)"
    and "parse_value n ((if b then ''true'' else ''false'') @ r) = Some (JBool b, r)"
    by (simp_all add: n opens_def scan_atom_def scan_word_def)
  show "parse_value n (quote a t @ r) = Some (JStr t, r)"
    by (simp add: n opens_def scan_atom_def quote_def scan_escaped)
  assume s: "scan_number s = Some (v, [])"
  then obtain c s' where "s = c # s'" "number_start c" using scan_number_start by blast
  then show "parse_value n (s @ r) = Some (v, r)"
    using scan_number_end [OF s value_end_number [OF assms(2)]] number_start_other [of c]
    by (simp add: n opens_def scan_atom_def)
qed

section \<open>Round trip\<close>

text \<open>What is printed for a value is read back as that value, whatever follows it.\<close>

definition reads_back :: "json_format \<Rightarrow> json \<Rightarrow> bool" where
  "reads_back f v \<longleftrightarrow> (\<forall>n r. length (print_json f v) \<le> n \<longrightarrow> value_end r \<longrightarrow>
     parse_value n (print_json f v @ r) = Some (v, r))"

lemma separatorD:
  assumes "format_ok f"
  shows "\<exists>ws. jf_item_separator f = CHR '','' # ws \<and> (\<forall>r. skip (ws @ r) = skip r)"
    and "\<exists>ws. jf_key_separator f = CHR '':'' # ws \<and> (\<forall>r. skip (ws @ r) = skip r)"
proof -
  have "opens c s \<Longrightarrow> skip (tl s) = [] \<Longrightarrow> \<exists>ws. s = c # ws \<and> (\<forall>r. skip (ws @ r) = skip r)" for c s
    using skip_separator [of s] by (cases s) (auto simp: opens_def)
  with assms show "\<exists>ws. jf_item_separator f = CHR '','' # ws \<and> (\<forall>r. skip (ws @ r) = skip r)"
    and "\<exists>ws. jf_key_separator f = CHR '':'' # ws \<and> (\<forall>r. skip (ws @ r) = skip r)"
    by (auto simp: format_ok_def)
qed

lemma skip_mark [simp]: "skip (CHR '']'' # r) = CHR '']'' # r" "skip (CHR ''}'' # r) = CHR ''}'' # r"
  "skip (CHR '','' # r) = CHR '','' # r" "skip (CHR '':'' # r) = CHR '':'' # r"
  "skip (CHR 0x22 # r) = CHR 0x22 # r"
  by (simp_all add: skip_def is_space_def code_def)

lemma opens_Cons [simp]: "opens c (d # r) \<longleftrightarrow> d = c" "\<not> opens c []"
  by (simp_all add: opens_def)

lemma value_start_join:
  "vs \<noteq> [] \<Longrightarrow> value_start (hd vs) \<Longrightarrow> value_start (join sep vs)"
  by (cases vs; cases "tl vs") auto

lemma parse_items_print:
  assumes sep: "format_ok f" and "\<forall>v \<in> set vs. reads_back f v \<and> json_ok v" and "vs \<noteq> []"
    and "Suc (length (join (jf_item_separator f) (map (print_json f) vs))) \<le> n"
  shows "parse_items n (join (jf_item_separator f) (map (print_json f) vs) @ CHR '']'' # r) = Some (vs, r)"
  using assms(2-)
proof (induction vs arbitrary: n)
  case Nil
  then show ?case by simp
next
  case (Cons v vs)
  obtain ws where ws: "jf_item_separator f = CHR '','' # ws" "\<And>r. skip (ws @ r) = skip r"
    using separatorD(1) [OF sep] by blast
  obtain m where n: "n = Suc m" using Cons.prems(3) by (cases n) auto
  have v: "reads_back f v" "json_ok v" using Cons.prems(1) by simp_all
  show ?case
  proof (cases vs)
    case Nil
    have "parse_value m (print_json f v @ CHR '']'' # r) = Some (v, CHR '']'' # r)"
      using v(1) Cons.prems(3) n Nil by (simp add: reads_back_def value_end_def)
    with Nil n show ?thesis by simp
  next
    case (Cons v' vs')
    let ?rest = "join (jf_item_separator f) (map (print_json f) vs)"
    have body: "join (jf_item_separator f) (map (print_json f) (v # vs)) = print_json f v @ CHR '','' # ws @ ?rest"
      by (simp add: Cons ws(1))
    have start: "value_start ?rest"
      using value_start_print Cons.prems(1) Cons by (intro value_start_join) auto
    have bounds: "length (print_json f v) \<le> m" "Suc (length ?rest) \<le> m"
      using Cons.prems(3) n unfolding body
      using value_start_print [OF v(2), of f] by (auto simp: value_start_def Suc_le_eq)
    have "parse_value m (print_json f v @ CHR '','' # ws @ ?rest @ CHR '']'' # r) =
        Some (v, CHR '','' # ws @ ?rest @ CHR '']'' # r)"
      using v(1) bounds(1) by (simp add: reads_back_def value_end_def)
    moreover have "parse_items m (?rest @ CHR '']'' # r) = Some (vs, r)"
      using Cons.IH Cons.prems(1) bounds(2) Cons by simp
    ultimately show ?thesis
      unfolding body n using start by (simp add: ws(2) value_start_skip)
  qed
qed

definition print_member :: "json_format \<Rightarrow> string \<times> json \<Rightarrow> string" where
  "print_member f = (\<lambda>(k, v). quote (jf_ascii f) k @ jf_key_separator f @ print_json f v)"

lemma parse_members_print:
  assumes sep: "format_ok f" and "\<forall>(k, v) \<in> set kvs. reads_back f v \<and> json_ok v" and "kvs \<noteq> []"
    and "Suc (length (join (jf_item_separator f) (map (print_member f) kvs))) \<le> n"
  shows "parse_members n (join (jf_item_separator f) (map (print_member f) kvs) @ CHR ''}'' # r) = Some (kvs, r)"
  using assms(2-)
proof (induction kvs arbitrary: n)
  case Nil
  then show ?case by simp
next
  case (Cons kv kvs)
  obtain ws where ws: "jf_item_separator f = CHR '','' # ws" "\<And>r. skip (ws @ r) = skip r"
    using separatorD(1) [OF sep] by blast
  obtain ks where ks: "jf_key_separator f = CHR '':'' # ks" "\<And>r. skip (ks @ r) = skip r"
    using separatorD(2) [OF sep] by blast
  obtain k v where kv: "kv = (k, v)" by fastforce
  obtain m where n: "n = Suc m" using Cons.prems(3) by (cases n) auto
  have v: "reads_back f v" "json_ok v" using Cons.prems(1) kv by auto
  let ?key = "concat (map (escape_char (jf_ascii f)) k) @ [CHR 0x22]"
  have member: "print_member f (k, v) = CHR 0x22 # ?key @ CHR '':'' # ks @ print_json f v"
    by (simp add: print_member_def kv quote_def ks(1))
  have key: "scan_string (?key @ s) = Some (k, s)" for s by (simp add: scan_escaped)
  have start: "value_start (print_json f v)" by (rule value_start_print [OF v(2)])
  show ?case
  proof (cases kvs)
    case Nil
    have "parse_value m (print_json f v @ CHR ''}'' # r) = Some (v, CHR ''}'' # r)"
      using v(1) Cons.prems(3) n Nil by (simp add: reads_back_def value_end_def member kv)
    then show ?thesis
      unfolding n Nil kv using start by (simp add: member key [simplified] ks(2) value_start_skip)
  next
    case (Cons kv' kvs')
    let ?rest = "join (jf_item_separator f) (map (print_member f) kvs)"
    have body: "join (jf_item_separator f) (map (print_member f) (kv # kvs)) =
        print_member f (k, v) @ CHR '','' # ws @ ?rest"
      by (simp add: Cons ws(1) kv)
    have "value_start (print_member f kv')"
      by (simp add: print_member_def value_start_def quote_def is_space_def code_def split: prod.split)
    then have rest_start: "value_start ?rest" using Cons by (intro value_start_join) auto
    have bounds: "length (print_json f v) \<le> m" "Suc (length ?rest) \<le> m"
      using Cons.prems(3) n unfolding body member by simp_all
    have "parse_value m (print_json f v @ CHR '','' # ws @ ?rest @ CHR ''}'' # r) =
        Some (v, CHR '','' # ws @ ?rest @ CHR ''}'' # r)"
      using v(1) bounds(1) by (simp add: reads_back_def value_end_def)
    moreover have "parse_members m (?rest @ CHR ''}'' # r) = Some (kvs, r)"
      using Cons.IH Cons.prems(1) bounds(2) Cons by simp
    ultimately show ?thesis
      unfolding body n using start rest_start
      by (simp add: member key [simplified] ks(2) ws(2) value_start_skip kv)
  qed
qed

lemma reads_back_number: "scan_number (print_json f v) = Some (v, []) \<Longrightarrow> json_ok v \<Longrightarrow> reads_back f v"
  unfolding reads_back_def
proof (intro allI impI)
  fix n r assume num: "scan_number (print_json f v) = Some (v, [])" and ok: "json_ok v"
    and n: "length (print_json f v) \<le> n" and r: "value_end r"
  have "0 < n" using value_start_print [OF ok, of f] n by (cases n) (auto simp: value_start_def)
  from parse_atom_print(4) [OF this r num] show "parse_value n (print_json f v @ r) = Some (v, r)" .
qed

lemma reads_back_list:
  assumes f: "format_ok f" and ok: "\<forall>v \<in> set vs. reads_back f v \<and> json_ok v"
  shows "reads_back f (JList vs)"
  unfolding reads_back_def
proof (intro allI impI)
  fix n r assume n: "length (print_json f (JList vs)) \<le> n"
  then obtain m where m: "n = Suc m" by (cases n) auto
  let ?body = "join (jf_item_separator f) (map (print_json f) vs)"
  show "parse_value n (print_json f (JList vs) @ r) = Some (JList vs, r)"
  proof (cases "vs = []")
    case True
    then show ?thesis by (simp add: m)
  next
    case False
    have "value_start ?body"
      using ok False value_start_print by (intro value_start_join) (auto simp: hd_map)
    then have "skip (?body @ CHR '']'' # r) = ?body @ CHR '']'' # r" "\<not> opens (CHR '']'') (?body @ CHR '']'' # r)"
      using value_start_append [of ?body] by (auto simp: value_start_skip opens_def value_start_def)
    moreover have "parse_items m (?body @ CHR '']'' # r) = Some (vs, r)"
      using n m by (intro parse_items_print [OF f ok False]) simp
    ultimately show ?thesis by (simp add: m)
  qed
qed

lemma reads_back_object:
  assumes f: "format_ok f" and ok: "\<forall>(k, v) \<in> set kvs. reads_back f v \<and> json_ok v"
    and "distinct (keys kvs)"
  shows "reads_back f (JObj kvs)"
  unfolding reads_back_def
proof (intro allI impI)
  fix n r assume n: "length (print_json f (JObj kvs)) \<le> n"
  then obtain m where m: "n = Suc m" by (cases n) auto
  let ?body = "join (jf_item_separator f) (map (print_member f) kvs)"
  have print: "print_json f (JObj kvs) = CHR ''{'' # ?body @ [CHR ''}'']"
    by (simp add: print_member_def)
  show "parse_value n (print_json f (JObj kvs) @ r) = Some (JObj kvs, r)"
  proof (cases "kvs = []")
    case True
    then show ?thesis by (simp add: m)
  next
    case False
    have "value_start (print_member f kv)" for kv
      by (simp add: print_member_def value_start_def quote_def is_space_def code_def split: prod.split)
    then have "value_start ?body"
      using False by (intro value_start_join) (auto simp: hd_map)
    then have "skip (?body @ CHR ''}'' # r) = ?body @ CHR ''}'' # r" "\<not> opens (CHR ''}'') (?body @ CHR ''}'' # r)"
      using value_start_append [of ?body] by (auto simp: value_start_skip opens_def value_start_def)
    moreover have "parse_members m (?body @ CHR ''}'' # r) = Some (kvs, r)"
      using n m unfolding print by (intro parse_members_print [OF f ok False]) simp
    ultimately show ?thesis unfolding print m using assms(3) by (simp add: dict_of_distinct)
  qed
qed

lemma reads_back_all:
  assumes "format_ok f" and "json_ok v"
  shows "reads_back f v"
  using assms(2)
proof (induction v)
  case (JInt i)
  then show ?case by (intro reads_back_number) (simp_all add: scan_int)
next
  case (JFloat t)
  then show ?case by (intro reads_back_number) (simp_all add: float_text_def)
next
  case (JList vs)
  then show ?case by (intro reads_back_list [OF assms(1)]) (auto simp: list_all_iff)
next
  case (JObj kvs)
  then show ?case by (intro reads_back_object [OF assms(1)]) (force simp: list_all_iff)+
next
  case (JBool b)
  then show ?case
    unfolding reads_back_def print_json.simps
  proof (intro allI impI)
    fix n r
    assume n: "length (if b then ''true'' else ''false'') \<le> n" and r: "value_end r"
    have "0 < n" using n by (cases n; cases b) auto
    from parse_atom_print(2) [OF this r]
    show "parse_value n ((if b then ''true'' else ''false'') @ r) = Some (JBool b, r)" .
  qed
next
  case (JStr t)
  then show ?case
    unfolding reads_back_def print_json.simps
  proof (intro allI impI)
    fix n r
    assume n: "length (quote (jf_ascii f) t) \<le> n" and r: "value_end r"
    have "0 < n" using n by (cases n) (auto simp: quote_def)
    from parse_atom_print(3) [OF this r]
    show "parse_value n (quote (jf_ascii f) t @ r) = Some (JStr t, r)" .
  qed
next
  case JNull
  then show ?case
    unfolding reads_back_def print_json.simps by (auto intro!: parse_atom_print(1) [simplified])
qed

lemma json_ok_sorted: "json_ok v \<Longrightarrow> json_ok (sorted_keys v)"
proof (induction v)
  case (JObj kvs)
  let ?kvs = "map (\<lambda>(k, v). (k, sorted_keys v)) kvs"
  have keys: "keys ?kvs = keys kvs" by (simp add: case_prod_unfold)
  have "mset (keys (sort_key fst ?kvs)) = mset (keys ?kvs)" by (simp only: mset_map mset_sort)
  then have "distinct (keys (sort_key fst ?kvs))"
    using JObj.prems unfolding keys by (metis json_ok.simps(3) mset_eq_imp_distinct_iff)
  moreover have "json_ok (snd kv)" if "kv \<in> set ?kvs" for kv
    using that JObj by (force simp: list_all_iff)
  then have "list_all (\<lambda>(k, v). json_ok v) (sort_key fst ?kvs)"
    unfolding list_all_iff set_sort case_prod_unfold by blast
  ultimately show ?case unfolding sorted_keys.simps json_ok.simps by blast
qed (auto simp: list_all_iff)

theorem loads_dumps:
  assumes "format_ok f" and "json_ok v"
  shows "loads (dumps f v) = Some (if jf_sort_keys f then sorted_keys v else v)"
proof -
  let ?v = "if jf_sort_keys f then sorted_keys v else v"
  have ok: "json_ok ?v" using assms(2) json_ok_sorted by simp
  then have "skip (print_json f ?v) = print_json f ?v" by (intro value_start_skip value_start_print)
  moreover have "parse_value (length (print_json f ?v)) (print_json f ?v @ []) = Some (?v, [])"
    using reads_back_all [OF assms(1) ok] unfolding reads_back_def by (auto simp: value_end_def)
  ultimately show ?thesis by (simp add: loads_def dumps_def skip_def)
qed

section \<open>Enough fuel\<close>

text \<open>
  Each call of the parser consumes a character, so the length of the text is fuel enough: more fuel
  never changes what \<open>loads\<close> returns.
\<close>

lemma skip_length: "length (skip s) \<le> length s"
  by (simp add: skip_def length_dropWhile_le)

lemma opens_tl: "opens c s \<Longrightarrow> length (tl s) < length s"
  by (cases s) auto

lemma scan_string_length: "scan_string s = Some (t, r) \<Longrightarrow> length r < length s"
proof (induction s arbitrary: t r rule: scan_string.induct)
  case (2 c s)
  then show ?case
    by (fastforce simp: with_char_def split: if_splits list.splits option.splits)
qed simp

lemma scan_parts_length:
  "length (snd (scan_fraction s)) \<le> length s" "length (snd (scan_sign s)) \<le> length s"
  "length (snd (scan_exponent s)) \<le> length s"
proof -
  show "length (snd (scan_fraction s)) \<le> length s"
    using length_dropWhile_le [of is_digit] by (auto simp: scan_fraction_def le_SucI split: list.split)
  show sign: "length (snd (scan_sign s)) \<le> length s" for s
    by (auto simp: scan_sign_def split: list.split)
  show "length (snd (scan_exponent s)) \<le> length s"
  proof (cases s)
    case (Cons c r)
    have "length (dropWhile is_digit (snd (scan_sign r))) \<le> length r"
      using length_dropWhile_le [of is_digit "snd (scan_sign r)"] sign [of r] by linarith
    with Cons show ?thesis by (auto simp: scan_exponent_def split: prod.split)
  qed (simp add: scan_exponent_def)
qed

lemma scan_unsigned_length: "scan_unsigned s = Some (w, m, r) \<Longrightarrow> length r < length s"
proof -
  assume scan: "scan_unsigned s = Some (w, m, r)"
  then obtain c s' where s: "s = c # s'" "is_digit c"
    by (cases s) (auto simp: scan_unsigned_def split: if_splits)
  have later: "length (snd (scan_exponent (snd (scan_fraction x)))) \<le> length x" for x
    using scan_parts_length(3) [of "snd (scan_fraction x)"] scan_parts_length(1) [of x] by linarith
  have "length (dropWhile is_digit s') \<le> length s'" by (rule length_dropWhile_le)
  with later [of "dropWhile is_digit s'"] later [of s'] scan s show ?thesis
    by (auto simp: scan_unsigned_def Let_def split: if_splits prod.splits)
qed

lemma scan_number_length: "scan_number s = Some (v, r) \<Longrightarrow> length r < length s"
  by (cases s) (auto simp: scan_number_def Let_def dest!: scan_unsigned_length split: option.splits if_splits)

lemma scan_atom_length: "scan_atom s = Some (v, r) \<Longrightarrow> length r < length s"
  by (cases s) (auto simp: scan_atom_def scan_word_def dest: scan_string_length scan_number_length
      split: if_splits)

definition settled :: "(nat \<Rightarrow> string \<Rightarrow> ('a \<times> string) option) \<Rightarrow> string \<Rightarrow> 'a \<times> string \<Rightarrow> bool" where
  "settled parse s p \<longleftrightarrow> length (snd p) < length s \<and>
     (\<forall>m. length s \<le> m + length (snd p) \<longrightarrow> parse m s = Some p)"

lemma settledD:
  "settled parse s (v, r) \<Longrightarrow> length r < length s"
  "settled parse s (v, r) \<Longrightarrow> length s \<le> m + length r \<Longrightarrow> parse m s = Some (v, r)"
  by (auto simp: settled_def)

text \<open>A parser that consumes a part of \<open>s\<close>, shorter than it, and then makes something of it.\<close>

lemma settled_wrap:
  assumes "settled parse' s' (x, r)" and "length s' < length s"
    and "\<And>m. parse' m s' = Some (x, r) \<Longrightarrow> parse (Suc m) s = Some (y, r)"
  shows "settled parse s (y, r)"
proof -
  have short: "length r < length s'" using settledD(1) [OF assms(1)] .
  have "parse m s = Some (y, r)" if m: "length s \<le> m + length r" for m
  proof -
    obtain k where k: "m = Suc k" using m short assms(2) by (cases m) auto
    have "length s' \<le> k + length r" using m k assms(2) by simp
    then show ?thesis unfolding k using assms(3) settledD(2) [OF assms(1)] by blast
  qed
  with short assms(2) show ?thesis by (simp add: settled_def)
qed

lemma settled_step:
  assumes "length r < length s" and "\<And>m. parse (Suc m) s = Some (y, r)"
  shows "settled parse s (y, r)"
proof -
  have "parse m s = Some (y, r)" if "length s \<le> m + length r" for m
    using that assms by (cases m) auto
  with assms(1) show ?thesis by (simp add: settled_def)
qed

lemma settled_then:
  assumes "settled parse1 s1 (x, r1)" and "settled parse2 s2 (y, r2)"
    and "length s1 \<le> length s" and "length s2 < length r1"
    and "\<And>m. parse1 m s1 = Some (x, r1) \<Longrightarrow> parse2 m s2 = Some (y, r2) \<Longrightarrow> parse (Suc m) s = Some (z, r2)"
  shows "settled parse s (z, r2)"
proof -
  have short: "length r1 < length s1" "length r2 < length s2"
    using settledD(1) [OF assms(1)] settledD(1) [OF assms(2)] .
  have "parse m s = Some (z, r2)" if m: "length s \<le> m + length r2" for m
  proof -
    obtain k where k: "m = Suc k" using m short assms(3,4) by (cases m) auto
    have "length s1 \<le> k + length r1" "length s2 \<le> k + length r2" using m k short assms(3,4) by linarith+
    then show ?thesis
      unfolding k using assms(5) settledD(2) [OF assms(1)] settledD(2) [OF assms(2)] by blast
  qed
  with short assms(3,4) show ?thesis by (simp add: settled_def)
qed

lemma skip_tl_length: "opens c s \<Longrightarrow> length (skip (tl s)) < length s" "opens c (skip s) \<Longrightarrow> length (tl (skip s)) < length s"
  "opens c (skip s) \<Longrightarrow> length (skip (tl (skip s))) < length s"
  using opens_tl [of c s] opens_tl [of c "skip s"] skip_length [of "tl s"] skip_length [of s]
    skip_length [of "tl (skip s)"]
  by linarith+

lemma parse_value_settled:
  assumes items: "\<And>s q. parse_items n s = Some q \<Longrightarrow> settled parse_items s q"
    and members: "\<And>s u. parse_members n s = Some u \<Longrightarrow> settled parse_members s u"
    and parse: "parse_value (Suc n) s = Some p"
  shows "settled parse_value s p"
proof -
  obtain v r where p: "p = (v, r)" by fastforce
  let ?r = "skip (tl s)"
  consider (list) "opens (CHR ''['') s" | (obj) "opens (CHR ''{'') s" "\<not> opens (CHR ''['') s"
    | (atom) "\<not> opens (CHR ''['') s" "\<not> opens (CHR ''{'') s" by blast
  then show ?thesis
  proof cases
    case atom
    then have scan: "scan_atom s = Some (v, r)" using parse p by simp
    show ?thesis unfolding p by (rule settled_step) (use atom scan scan_atom_length in auto)
  next
    case list
    show ?thesis
    proof (cases "opens (CHR '']'') ?r")
      case True
      then have "p = (JList [], tl ?r)" using parse list by (simp add: Let_def)
      then show ?thesis
        using settled_step [of "tl ?r" s parse_value "JList []"] list True skip_tl_length(1) [OF list]
          opens_tl [OF True] by (simp add: Let_def)
    next
      case False
      then obtain vs where "parse_items n ?r = Some (vs, r)" "v = JList vs"
        using parse list p by (auto simp: Let_def split: option.splits)
      with list False show ?thesis
        unfolding p by (intro settled_wrap [OF items, of ?r vs r]) (simp_all add: Let_def skip_tl_length)
    qed
  next
    case obj
    show ?thesis
    proof (cases "opens (CHR ''}'') ?r")
      case True
      then have "p = (JObj [], tl ?r)" using parse obj by (simp add: Let_def)
      then show ?thesis
        using settled_step [of "tl ?r" s parse_value "JObj []"] obj True skip_tl_length(1) [OF obj(1)]
          opens_tl [OF True] by (simp add: Let_def)
    next
      case False
      then obtain kvs where "parse_members n ?r = Some (kvs, r)" "v = JObj (dict_merge [] kvs)"
        using parse obj p by (auto simp: Let_def split: option.splits)
      with obj False show ?thesis
        unfolding p by (intro settled_wrap [OF members, of ?r kvs r]) (simp_all add: Let_def skip_tl_length)
    qed
  qed
qed

lemma parse_items_settled:
  assumes "\<And>s p. parse_value n s = Some p \<Longrightarrow> settled parse_value s p"
    and "\<And>s q. parse_items n s = Some q \<Longrightarrow> settled parse_items s q"
    and parse: "parse_items (Suc n) s = Some q"
  shows "settled parse_items s q"
proof -
  obtain v r1 where v: "parse_value n s = Some (v, r1)" using parse by (auto split: option.splits)
  have first: "settled parse_value s (v, r1)" using assms(1) v by blast
  show ?thesis
  proof (cases "opens (CHR '']'') (skip r1)")
    case True
    then have q: "q = ([v], tl (skip r1))" using parse v by simp
    have short: "length (tl (skip r1)) < length r1" by (rule skip_tl_length [OF True])
    have "parse_items m s = Some q" if m: "length s \<le> m + length (tl (skip r1))" for m
    proof -
      obtain k where k: "m = Suc k" using m short settledD(1) [OF first] by (cases m) auto
      then have "length s \<le> k + length r1" using m short by simp
      then show ?thesis using settledD(2) [OF first] True k q by simp
    qed
    then show ?thesis using short settledD(1) [OF first] q by (simp add: settled_def)
  next
    case False
    then have comma: "opens (CHR '','') (skip r1)" using parse v by (auto split: if_splits)
    then obtain vs r where rest: "parse_items n (skip (tl (skip r1))) = Some (vs, r)" "q = (v # vs, r)"
      using parse v False by (auto split: option.splits)
    show ?thesis
      unfolding rest(2)
      by (rule settled_then [OF first assms(2) [OF rest(1)]])
        (use comma False skip_tl_length(3) [OF comma] in simp_all)
  qed
qed

lemma parse_members_settled:
  assumes "\<And>s p. parse_value n s = Some p \<Longrightarrow> settled parse_value s p"
    and "\<And>s u. parse_members n s = Some u \<Longrightarrow> settled parse_members s u"
    and parse: "parse_members (Suc n) s = Some u"
  shows "settled parse_members s u"
proof -
  have quote: "opens (CHR 0x22) s" using parse by (auto split: if_splits)
  obtain k r0 where k: "scan_string (tl s) = Some (k, r0)" using parse quote by (auto split: option.splits)
  have colon: "opens (CHR '':'') (skip r0)" using parse quote k by (auto split: if_splits)
  let ?s1 = "skip (tl (skip r0))"
  have s1: "length ?s1 < length s"
    using skip_tl_length(3) [OF colon] scan_string_length [OF k] opens_tl [OF quote] by linarith
  obtain v r1 where v: "parse_value n ?s1 = Some (v, r1)"
    using parse quote k colon by (auto split: option.splits)
  have first: "settled parse_value ?s1 (v, r1)" using assms(1) v by blast
  show ?thesis
  proof (cases "opens (CHR ''}'') (skip r1)")
    case True
    then have u: "u = ([(k, v)], tl (skip r1))" using parse quote k colon v by simp
    have short: "length (tl (skip r1)) < length r1" by (rule skip_tl_length [OF True])
    have "parse_members m s = Some u" if m: "length s \<le> m + length (tl (skip r1))" for m
    proof -
      obtain j where j: "m = Suc j" using m short s1 settledD(1) [OF first] by (cases m) auto
      then have "length ?s1 \<le> j + length r1" using m short s1 by simp
      then show ?thesis using settledD(2) [OF first] True j u quote k colon by simp
    qed
    then show ?thesis using short s1 settledD(1) [OF first] u by (simp add: settled_def)
  next
    case False
    then have comma: "opens (CHR '','') (skip r1)"
      using parse quote k colon v by (auto split: if_splits)
    then obtain kvs r where rest: "parse_members n (skip (tl (skip r1))) = Some (kvs, r)" "u = ((k, v) # kvs, r)"
      using parse quote k colon v False by (auto split: option.splits)
    show ?thesis
      unfolding rest(2)
      by (rule settled_then [OF first assms(2) [OF rest(1)]])
        (use comma False quote k colon s1 skip_tl_length(3) [OF comma] in simp_all)
  qed
qed

lemma parse_settled:
  "(\<forall>s p. parse_value n s = Some p \<longrightarrow> settled parse_value s p) \<and>
   (\<forall>s q. parse_items n s = Some q \<longrightarrow> settled parse_items s q) \<and>
   (\<forall>s u. parse_members n s = Some u \<longrightarrow> settled parse_members s u)"
proof (induction n)
  case 0
  show ?case by simp
next
  case (Suc n)
  then show ?case
    using parse_value_settled [of n] parse_items_settled [of n] parse_members_settled [of n] by blast
qed

theorem loads_enough_fuel:
  assumes "length s \<le> n"
  shows "parse_value n (skip s) = parse_value (length s) (skip s)"
proof -
  have fuel: "parse_value k (skip s) = Some p" if "parse_value m (skip s) = Some p" "length s \<le> k" for m k p
  proof -
    have "settled parse_value (skip s) p" using parse_settled [of m] that(1) by blast
    then show ?thesis using that(2) skip_length [of s] by (simp add: settled_def)
  qed
  show ?thesis
  proof (cases "parse_value n (skip s)")
    case None
    have "parse_value (length s) (skip s) = None"
    proof (rule ccontr)
      assume "parse_value (length s) (skip s) \<noteq> None"
      then obtain p where "parse_value (length s) (skip s) = Some p" by blast
      have "parse_value n (skip s) = Some p" by (rule fuel [OF \<open>_ = Some p\<close> assms])
      with None show False by (metis option.distinct(1))
    qed
    with None show ?thesis by (rule trans [OF _ sym])
  next
    case (Some p)
    then have "parse_value (length s) (skip s) = Some p" by (rule fuel) (rule order_refl)
    with Some show ?thesis by (rule trans [OF _ sym])
  qed
qed

section \<open>What a printed value is made of\<close>

text \<open>
  A line format puts nothing but spaces around its separators: then a printed value holds no
  control character, so no line ending, and with \<open>ensure_ascii\<close> nothing beyond ASCII.
\<close>

definition line_format :: "json_format \<Rightarrow> bool" where
  "line_format f \<longleftrightarrow> format_ok f \<and>
     list_all (\<lambda>c. c = CHR '' '') (tl (jf_item_separator f)) \<and>
     list_all (\<lambda>c. c = CHR '' '') (tl (jf_key_separator f))"

definition printable :: "bool \<Rightarrow> char \<Rightarrow> bool" where
  "printable ascii c \<longleftrightarrow> 32 \<le> code c \<and> (ascii \<longrightarrow> code c < 128)"

lemma printable_chars:
  "printable a (CHR 0x22)" "printable a (CHR 0x5C)" "printable a (CHR '','')" "printable a (CHR '':'')"
  "printable a (CHR ''['')" "printable a (CHR '']'')" "printable a (CHR ''{'')" "printable a (CHR ''}'')"
  "printable a (CHR '' '')" "printable a (CHR ''-'')" "printable a (CHR ''u'')" "printable a (CHR ''0'')"
  "printable a (CHR ''.'')" "printable a (CHR ''e'')" "printable a (CHR ''E'')" "printable a (CHR ''+'')"
  by (simp_all add: printable_def code_def)

lemma printable_digit: "is_digit c \<Longrightarrow> printable a c"
  by (simp add: printable_def is_digit_def code_def)

lemma printable_hex: "d < 16 \<Longrightarrow> printable a (hex_digit d)"
  by (simp add: printable_def hex_digit_def code_def)

lemma printable_escape: "list_all (printable a) (escape_char a c)"
proof (cases "map_of short_escapes c")
  case None
  have "code c div 16 < 16" by (rule less_mult_imp_div_less) (use code_less [of c] in linarith)
  with None show ?thesis
    by (auto simp: escape_char_def printable_chars printable_hex) (auto simp: printable_def)
next
  case (Some e)
  then have "(c, e) \<in> set short_escapes" by (rule map_of_SomeD)
  then have "printable a e" by (auto simp: short_escapes_def printable_def code_def)
  with Some show ?thesis by (simp add: escape_char_def printable_chars)
qed

lemma printable_quote: "list_all (printable a) (quote a s)"
  using printable_escape by (auto simp: quote_def printable_chars list_all_iff)

lemma printable_decimal: "list_all (printable a) (decimal n)"
  using decimal_digits [of n] printable_digit by (auto simp: list_all_iff)

lemma scan_parts_printable:
  "list_all (printable a) (fst (scan_fraction s))" "list_all (printable a) (fst (scan_sign s))"
  "list_all (printable a) (fst (scan_exponent s))"
proof -
  have digits: "list_all (printable a) (takeWhile is_digit s)" for s
    using printable_digit by (auto simp: list_all_iff dest: set_takeWhileD)
  show "list_all (printable a) (fst (scan_fraction s))"
    using digits by (auto simp: scan_fraction_def printable_chars split: list.split)
  show sign: "list_all (printable a) (fst (scan_sign s))" for s
    by (auto simp: scan_sign_def printable_chars split: list.split)
  show "list_all (printable a) (fst (scan_exponent s))"
  proof (cases s)
    case (Cons c r)
    with digits [of "snd (scan_sign r)"] sign [of r] show ?thesis
      by (auto simp: scan_exponent_def printable_chars split: prod.split)
  qed (simp add: scan_exponent_def)
qed

lemma float_text_printable: "float_text t \<Longrightarrow> list_all (printable a) t"
proof -
  assume "float_text t"
  then have num: "scan_number t = Some (JFloat t, [])" by (simp add: float_text_def)
  have minus: "(case t of c # _ \<Rightarrow> c = CHR ''-'' | [] \<Rightarrow> False) = (t \<noteq> [] \<and> hd t = CHR ''-'')"
    by (cases t) auto
  obtain w m where scan: "scan_unsigned (if t \<noteq> [] \<and> hd t = CHR ''-'' then tl t else t) = Some (w, m, [])"
      and t: "t = (if t \<noteq> [] \<and> hd t = CHR ''-'' then [CHR ''-''] else []) @ w @ m"
  proof -
    obtain w m r where scan: "scan_unsigned (if t \<noteq> [] \<and> hd t = CHR ''-'' then tl t else t) = Some (w, m, r)"
      using num unfolding scan_number_def Let_def minus by (auto split: option.splits)
    with num have "r = []" "t = (if t \<noteq> [] \<and> hd t = CHR ''-'' then [CHR ''-''] else []) @ w @ m"
      unfolding scan_number_def Let_def minus scan option.case prod.case by (auto split: if_splits)
    with scan show thesis using that by blast
  qed
  have digits: "list_all (printable a) (takeWhile is_digit s)" for s
    using printable_digit by (auto simp: list_all_iff dest: set_takeWhileD)
  let ?s = "if t \<noteq> [] \<and> hd t = CHR ''-'' then tl t else t"
  have "takeWhile is_digit ?s \<noteq> []" using scan by (auto simp: scan_unsigned_def split: if_splits)
  then have "list_all (printable a) [hd (takeWhile is_digit ?s)]"
    using digits [of ?s] by (auto simp: list_all_iff)
  then have "list_all (printable a) w" "list_all (printable a) m"
    using scan digits [of ?s] scan_parts_printable
    by (auto simp: scan_unsigned_def Let_def case_prod_unfold split: if_splits)
  then show ?thesis by (subst t) (auto simp: printable_chars)
qed

lemma printable_join: "list_all (printable a) sep \<Longrightarrow> \<forall>x \<in> set xs. list_all (printable a) x \<Longrightarrow>
    list_all (printable a) (join sep xs)"
  by (induction sep xs rule: join.induct) auto

lemma printable_separators:
  assumes "line_format f"
  shows "list_all (printable a) (jf_item_separator f)" and "list_all (printable a) (jf_key_separator f)"
proof -
  have "list_all (printable a) s" if s: "opens c s" "list_all (\<lambda>c. c = CHR '' '') (tl s)" "printable a c" for c s
  proof -
    have "s = c # tl s" using s(1) by (cases s) simp_all
    moreover have "list_all (printable a) (tl s)"
      using s(2) printable_chars(9) unfolding list_all_iff by metis
    ultimately show ?thesis using s(3) by (metis list.pred_inject(2))
  qed
  with assms printable_chars show "list_all (printable a) (jf_item_separator f)"
    and "list_all (printable a) (jf_key_separator f)"
    unfolding line_format_def format_ok_def by blast+
qed

lemma printable_print:
  assumes "line_format f"
  shows "json_ok v \<Longrightarrow> list_all (printable (jf_ascii f)) (print_json f v)"
proof (induction v)
  case (JList vs)
  then have "list_all (printable (jf_ascii f)) (join (jf_item_separator f) (map (print_json f) vs))"
    by (intro printable_join printable_separators [OF assms]) (auto simp: list_all_iff)
  then show ?case by (simp add: printable_chars)
next
  case (JObj kvs)
  have "list_all (printable (jf_ascii f)) (print_member f (k, v))" if "(k, v) \<in> set kvs" for k v
    using JObj that printable_quote printable_separators(2) [OF assms]
    by (fastforce simp: print_member_def list_all_iff)
  then have "list_all (printable (jf_ascii f)) (join (jf_item_separator f) (map (print_member f) kvs))"
    by (intro printable_join printable_separators [OF assms]) auto
  then show ?case by (simp add: printable_chars print_member_def)
qed (simp_all add: printable_quote float_text_printable int_text_def printable_decimal printable_chars,
    simp_all add: printable_def code_def)

section \<open>Canonical text\<close>

lemma sorted_keys_idem [simp]: "sorted_keys (sorted_keys v) = sorted_keys v"
proof (induction v)
  case (JObj kvs)
  let ?kvs = "sort_key fst (map (\<lambda>(k, v). (k, sorted_keys v)) kvs)"
  have "(k, v) \<in> set ?kvs \<Longrightarrow> sorted_keys v = v" for k v using JObj by fastforce
  then have "map (\<lambda>(k, v). (k, sorted_keys v)) ?kvs = ?kvs"
    by (intro map_idI) (simp only: split_paired_all prod.case)
  moreover have "sort_key fst ?kvs = ?kvs" by (rule sort_key_id_if_sorted) (rule sorted_sort_key)
  ultimately show ?case by (simp only: sorted_keys.simps)
qed auto

definition compact_ascii :: json_format where
  "compact_ascii = \<lparr>jf_ascii = True, jf_sort_keys = True, jf_item_separator = '','', jf_key_separator = '':''\<rparr>"

text \<open>\<open>json.dumps(value, ensure_ascii=True, sort_keys=True, separators=(",", ":"))\<close>.\<close>

definition canonical :: "json \<Rightarrow> string" where
  "canonical = dumps compact_ascii"

lemma compact_ascii_ok: "format_ok compact_ascii"
  by (simp add: format_ok_def compact_ascii_def skip_def)

lemma loads_canonical: "json_ok v \<Longrightarrow> loads (canonical v) = Some (sorted_keys v)"
  using loads_dumps [OF compact_ascii_ok] by (simp add: canonical_def compact_ascii_def)

lemma canonical_sorted [simp]: "canonical (sorted_keys v) = canonical v"
  by (simp add: canonical_def dumps_def compact_ascii_def)

lemma canonical_eq_iff: "json_ok v \<Longrightarrow> json_ok w \<Longrightarrow> canonical v = canonical w \<longleftrightarrow> sorted_keys v = sorted_keys w"
  by (metis canonical_sorted loads_canonical option.inject)

lemma map_of_sort_key: "distinct (keys d) \<Longrightarrow> map_of (sort_key fst d) k = map_of d k"
proof -
  assume d: "distinct (keys d)"
  have "mset (keys (sort_key fst d)) = mset (keys d)" by (simp only: mset_map mset_sort)
  then have "distinct (keys (sort_key fst d))" using d by (metis mset_eq_imp_distinct_iff)
  then have "map_of (sort_key fst d) k = Some v \<longleftrightarrow> map_of d k = Some v" for v
    using d by (simp only: map_of_eq_Some_iff set_sort)
  then show ?thesis by (metis not_Some_eq)
qed

end
