(* ===== verification/Jsonl_Journal.thy ===== *)
theory Jsonl_Journal
  imports Json_Text
begin

text \<open>
  The JSONL journal (\<open>harness/journal/jsonl.py\<close>, \<open>types.py\<close>, \<open>codec.py\<close>): one JSON object per
  line, appended, rewritten and loaded as text in UTF-8, with the policies for an invalid header,
  an invalid record and an unterminated last line.

  A file is its bytes, or absent; a byte is a \<open>char\<close>. The codec of a client is a pair of functions;
  the decoder returns the code of the error it raises. The locale \<open>record_codec\<close> is the contract
  of such a codec. Locks, \<open>fsync\<close> and the permissions of the file are not modelled.
\<close>

section \<open>Data\<close>

record journal_format =
  jp_json :: json_format
  jp_newline :: string

definition default_format :: journal_format where
  "default_format =
     \<lparr>jp_json = \<lparr>jf_ascii = True, jf_sort_keys = False, jf_item_separator = '', '', jf_key_separator = '': ''\<rparr>,
      jp_newline = [CHR 0x0A]\<rparr>"

definition sorted_unicode_format :: journal_format where
  "sorted_unicode_format =
     \<lparr>jp_json = \<lparr>jf_ascii = False, jf_sort_keys = True, jf_item_separator = '', '', jf_key_separator = '': ''\<rparr>,
      jp_newline = [CHR 0x0A]\<rparr>"

datatype partial_tail = Raise_Tail | Skip_Tail | Repair_Tail

record load_policy =
  lp_header_required :: bool
  lp_skip_invalid_header :: bool
  lp_skip_invalid_record :: bool
  lp_partial_tail :: partial_tail

definition default_policy :: load_policy where
  "default_policy = \<lparr>lp_header_required = False, lp_skip_invalid_header = False,
     lp_skip_invalid_record = False, lp_partial_tail = Raise_Tail\<rparr>"

record journal_diagnostic =
  jd_code :: string
  jd_message :: string
  jd_line_number :: nat

record ('h, 'r) journal_snapshot =
  js_header :: "'h option"
  js_records :: "'r list"
  js_diagnostics :: "journal_diagnostic list"

datatype journal_error =
    JournalFileError string "nat option"
  | InvalidEncoding
  | FileNotFound
  | HeaderCodecRequired
  | NoSuchLine nat

text \<open>What a decoder raises: \<open>JournalCodecError\<close> with its code, or another exception.\<close>

datatype codec_error = CodecError string | OtherError string

section \<open>Encoding\<close>

definition utf8_char :: "char \<Rightarrow> string" where
  "utf8_char c =
     (if code c < 128 then [c] else [char_of (192 + code c div 64), char_of (128 + code c mod 64)])"

definition utf8 :: "string \<Rightarrow> string" where
  "utf8 s = concat (map utf8_char s)"

text \<open>Strict decoding of the sequences for the code points below 256.\<close>

fun utf8_decode :: "string \<Rightarrow> string option" where
  "utf8_decode [] = Some []"
| "utf8_decode (b # bs) =
     (if code b < 128 then map_option ((#) b) (utf8_decode bs)
      else if code b = 194 \<or> code b = 195 then
        (case bs of
           [] \<Rightarrow> None
         | b' # bs' \<Rightarrow>
             if 128 \<le> code b' \<and> code b' < 192
             then map_option ((#) (char_of ((code b - 192) * 64 + (code b' - 128)))) (utf8_decode bs')
             else None)
      else None)"

text \<open>Reading a text file without a rooted handle: every line ending becomes a line feed.\<close>

definition cr :: char where "cr = CHR 0x0D"
definition lf :: char where "lf = CHR 0x0A"

fun universal_newlines :: "string \<Rightarrow> string" where
  "universal_newlines [] = []"
| "universal_newlines (c # s) =
     (if c = cr then lf # universal_newlines (if s \<noteq> [] \<and> hd s = lf then tl s else s)
      else c # universal_newlines s)"

definition read_text :: "bool \<Rightarrow> string \<Rightarrow> journal_error + string" where
  "read_text rooted bytes =
     (case utf8_decode bytes of
        None \<Rightarrow> Inl InvalidEncoding
      | Some t \<Rightarrow> Inr (if rooted then t else universal_newlines t))"

section \<open>Lines\<close>

text \<open>\<open>re.split("\\r\\n|\\r|\\n", raw)\<close>; without a carriage return it is \<open>raw.split("\\n")\<close>.\<close>

fun split_lines :: "string \<Rightarrow> string list" where
  "split_lines [] = [[]]"
| "split_lines (c # s) =
     (if c = cr then [] # split_lines (if s \<noteq> [] \<and> hd s = lf then tl s else s)
      else if c = lf then [] # split_lines s
      else (case split_lines s of [] \<Rightarrow> [[c]] | l # ls \<Rightarrow> (c # l) # ls))"

definition has_trailing_newline :: "string \<Rightarrow> bool" where
  "has_trailing_newline raw \<longleftrightarrow> raw \<noteq> [] \<and> (last raw = lf \<or> last raw = cr)"

definition physical_lines :: "string \<Rightarrow> string list" where
  "physical_lines raw =
     (if raw = [] then []
      else if has_trailing_newline raw then butlast (split_lines raw) else split_lines raw)"

text \<open>The offset after the first \<open>k\<close> line endings.\<close>

fun offset_after :: "nat \<Rightarrow> string \<Rightarrow> nat option" where
  "offset_after k [] = (if k = 0 then Some 0 else None)"
| "offset_after k (c # s) =
     (if k = 0 then Some 0
      else if c = cr then
        (if s \<noteq> [] \<and> hd s = lf then map_option (\<lambda>n. n + 2) (offset_after (k - 1) (tl s))
         else map_option Suc (offset_after (k - 1) s))
      else if c = lf then map_option Suc (offset_after (k - 1) s)
      else map_option Suc (offset_after k s))"

definition line_start_offset :: "string \<Rightarrow> nat \<Rightarrow> nat option" where
  "line_start_offset raw line =
     (if line < 1 then None
      else if line = 1 \<and> raw \<noteq> [] then Some 0
      else
        (case offset_after (line - 1) raw of
           Some n \<Rightarrow> if 1 < line \<and> n < length raw then Some n else None
         | None \<Rightarrow> None))"

text \<open>\<open>line.strip()\<close> is not empty.\<close>

definition py_space :: "char \<Rightarrow> bool" where
  "py_space c \<longleftrightarrow> code c \<in> {9, 10, 11, 12, 13, 28, 29, 30, 31, 32, 133, 160}"

definition not_blank :: "string \<Rightarrow> bool" where
  "not_blank s \<longleftrightarrow> \<not> list_all py_space s"

definition numbered_lines :: "string \<Rightarrow> (nat \<times> string) list" where
  "numbered_lines raw =
     filter (\<lambda>(n, l). not_blank l) (zip [1..<Suc (length (physical_lines raw))] (physical_lines raw))"

section \<open>Mappings\<close>

definition dump_mapping :: "journal_format \<Rightarrow> payload \<Rightarrow> string" where
  "dump_mapping fm d = dumps (jp_json fm) (JObj d)"

definition load_mapping :: "string \<Rightarrow> nat \<Rightarrow> string \<Rightarrow> journal_error + payload" where
  "load_mapping kind line s =
     (case loads s of
        None \<Rightarrow> Inl (JournalFileError (''invalid_'' @ kind @ ''_json'') (Some line))
      | Some (JObj d) \<Rightarrow> Inr d
      | Some _ \<Rightarrow> Inl (JournalFileError (''invalid_'' @ kind @ ''_shape'') (Some line)))"

section \<open>Loading\<close>

definition partial_tail_code :: string where
  "partial_tail_code = ''partial_journal_tail''"

definition diagnostic :: "string \<Rightarrow> string \<Rightarrow> nat \<Rightarrow> journal_diagnostic" where
  "diagnostic c m line = \<lparr>jd_code = c, jd_message = m, jd_line_number = line\<rparr>"

definition skipped_record :: string where
  "skipped_record = ''Journal record was skipped because it is incomplete or invalid.''"

definition decode_header_line ::
  "load_policy \<Rightarrow> (payload \<Rightarrow> codec_error + 'h) \<Rightarrow> nat \<Rightarrow> string \<Rightarrow>
     journal_error + 'h option \<times> journal_diagnostic list" where
  "decode_header_line policy decode line s =
     (case load_mapping ''header'' line s of
        Inl err \<Rightarrow>
          if lp_skip_invalid_header policy then
            Inr (None, [diagnostic ''invalid_journal_header''
              ''Journal header was skipped because it is invalid.'' line])
          else Inl err
      | Inr d \<Rightarrow>
          (case decode d of
             Inr h \<Rightarrow> Inr (Some h, [])
           | Inl err \<Rightarrow>
               let c = (case err of CodecError c \<Rightarrow> c | OtherError _ \<Rightarrow> ''invalid_header'') in
               if lp_skip_invalid_header policy then
                 Inr (None, [diagnostic c
                   ''Journal header was skipped because its value is invalid.'' line])
               else Inl (JournalFileError c (Some line))))"

text \<open>The body of the loop over the record lines.\<close>

definition decode_record_line ::
  "load_policy \<Rightarrow> (payload \<Rightarrow> codec_error + 'r) \<Rightarrow> nat option \<Rightarrow>
     'r list \<times> journal_diagnostic list \<Rightarrow> nat \<times> string \<Rightarrow> journal_error + 'r list \<times> journal_diagnostic list" where
  "decode_record_line policy decode tail_line = (\<lambda>(records, diags) (line, s).
     let partial = (Some line = tail_line) in
     if partial \<and> lp_partial_tail policy \<noteq> Raise_Tail then
       Inr (records, diags @ [diagnostic partial_tail_code skipped_record line])
     else
       (let value = rbind (load_mapping ''record'' line s) (\<lambda>d.
              case decode d of
                Inr r \<Rightarrow> if partial then Inl (JournalFileError partial_tail_code (Some line)) else Inr r
              | Inl (CodecError c) \<Rightarrow> Inl (JournalFileError c (Some line))
              | Inl (OtherError _) \<Rightarrow> Inl (JournalFileError ''invalid_record'' (Some line)))
        in case value of
             Inr r \<Rightarrow> Inr (records @ [r], diags)
           | Inl err \<Rightarrow>
               if \<not> partial \<and> lp_skip_invalid_record policy then
                 Inr (records, diags @ [diagnostic ''invalid_journal_record'' skipped_record line])
               else Inl err))"

definition decode_jsonl ::
  "(payload \<Rightarrow> codec_error + 'r) \<Rightarrow> (payload \<Rightarrow> codec_error + 'h) option \<Rightarrow> load_policy \<Rightarrow> string \<Rightarrow>
     journal_error + ('h, 'r) journal_snapshot" where
  "decode_jsonl decode header_decode policy raw =
     (let lines = physical_lines raw; numbered = numbered_lines raw in
      if lp_header_required policy \<and> numbered = [] then Inl (JournalFileError ''empty_journal'' None)
      else if lp_header_required policy \<and> header_decode = None then Inl HeaderCodecRequired
      else
        rbind (if lp_header_required policy
               then decode_header_line policy (the header_decode) (fst (hd numbered)) (snd (hd numbered))
               else Inr (None, [])) (\<lambda>(header, diags).
        let tail_line = (if raw \<noteq> [] \<and> \<not> has_trailing_newline raw then Some (length lines) else None) in
        rbind (rfold (decode_record_line policy decode tail_line) ([], diags)
                 (if lp_header_required policy then tl numbered else numbered)) (\<lambda>(records, diags').
        Inr \<lparr>js_header = header, js_records = records,
          js_diagnostics = diags' @
            (if tail_line \<noteq> None \<and> \<not> not_blank (last lines) \<and> lp_partial_tail policy \<noteq> Raise_Tail
             then [diagnostic partial_tail_code
                     ''Journal trailing whitespace was skipped because it is incomplete.'' (length lines)]
             else [])\<rparr>)))"

text \<open>
  \<open>load_jsonl\<close>: the snapshot and the file it leaves, repaired where the policy says so. The optional
  \<open>validate_snapshot\<close> may raise; \<open>no_validator\<close> stands for its default \<open>None\<close>.
\<close>

definition no_validator :: "('h, 'r) journal_snapshot \<Rightarrow> journal_error + unit" where
  "no_validator snapshot = Inr ()"

definition load_jsonl ::
  "bool \<Rightarrow> (payload \<Rightarrow> codec_error + 'r) \<Rightarrow> (payload \<Rightarrow> codec_error + 'h) option \<Rightarrow> load_policy \<Rightarrow>
     (('h, 'r) journal_snapshot \<Rightarrow> journal_error + unit) \<Rightarrow>
     string option \<Rightarrow> journal_error + ('h, 'r) journal_snapshot \<times> string" where
  "load_jsonl rooted decode header_decode policy validate file =
     (case file of
        None \<Rightarrow> Inl FileNotFound
      | Some bytes \<Rightarrow>
          rbind (read_text rooted bytes) (\<lambda>raw.
          rbind (decode_jsonl decode header_decode policy raw) (\<lambda>snapshot.
          rbind (validate snapshot) (\<lambda>_.
          case find (\<lambda>d. jd_code d = partial_tail_code) (js_diagnostics snapshot) of
            None \<Rightarrow> Inr (snapshot, bytes)
          | Some d \<Rightarrow>
              if lp_partial_tail policy \<noteq> Repair_Tail then Inr (snapshot, bytes)
              else
                (case line_start_offset raw (jd_line_number d) of
                   None \<Rightarrow> Inl (NoSuchLine (jd_line_number d))
                 | Some n \<Rightarrow> Inr (snapshot, utf8 (take n raw)))))))"

section \<open>Writing\<close>

definition append_jsonl_record ::
  "journal_format \<Rightarrow> ('r \<Rightarrow> payload) \<Rightarrow> 'r \<Rightarrow> string option \<Rightarrow> string" where
  "append_jsonl_record fm encode r file =
     (case file of None \<Rightarrow> [] | Some bytes \<Rightarrow> bytes) @ utf8 (dump_mapping fm (encode r) @ jp_newline fm)"

definition append_jsonl_records ::
  "journal_format \<Rightarrow> ('r \<Rightarrow> payload) \<Rightarrow> 'r list \<Rightarrow> string option \<Rightarrow> string option" where
  "append_jsonl_records fm encode rs file =
     (if rs = [] then file
      else Some ((case file of None \<Rightarrow> [] | Some bytes \<Rightarrow> bytes) @
        utf8 (join (jp_newline fm) (map (\<lambda>r. dump_mapping fm (encode r)) rs) @ jp_newline fm)))"

definition write_jsonl ::
  "journal_format \<Rightarrow> ('r \<Rightarrow> payload) \<Rightarrow> ('h \<Rightarrow> payload) option \<Rightarrow> 'h option \<Rightarrow> 'r list \<Rightarrow> journal_error + string" where
  "write_jsonl fm encode header_encode header rs =
     (case (header, header_encode) of
        (Some _, None) \<Rightarrow> Inl HeaderCodecRequired
      | _ \<Rightarrow>
          (let encoded = (case (header, header_encode) of
                 (Some h, Some enc) \<Rightarrow> [dump_mapping fm (enc h)] | _ \<Rightarrow> []) @
               map (\<lambda>r. dump_mapping fm (encode r)) rs
           in Inr (utf8 (join (jp_newline fm) encoded @ (if encoded = [] then [] else jp_newline fm)))))"

section \<open>Text and bytes\<close>

lemma utf8_append [simp]: "utf8 (s @ t) = utf8 s @ utf8 t"
  by (simp add: utf8_def)

lemma utf8_Nil [simp]: "utf8 [] = []"
  by (simp add: utf8_def)

lemma code_char_of: "n < 256 \<Longrightarrow> code (char_of n) = n"
  by (simp add: code_def)

lemma utf8_decode_char: "utf8_decode (utf8_char c @ bs) = map_option ((#) c) (utf8_decode bs)"
proof (cases "code c < 128")
  case True
  then show ?thesis by (simp add: utf8_char_def)
next
  case False
  have "code c < 256" by simp
  then have two: "code c div 64 = 2 \<or> code c div 64 = 3" using False by linarith
  have split: "char_of ((code c div 64) * 64 + code c mod 64) = c" by simp
  from two show ?thesis
  proof
    assume d: "code c div 64 = 2"
    then have "char_of (128 + code c mod 64) = c" using split by simp
    with d False show ?thesis by (auto simp: utf8_char_def code_char_of)
  next
    assume d: "code c div 64 = 3"
    then have "char_of (192 + code c mod 64) = c" using split by simp
    with d False show ?thesis by (auto simp: utf8_char_def code_char_of)
  qed
qed

theorem utf8_roundtrip: "utf8_decode (utf8 s) = Some s"
  by (induction s) (simp_all add: utf8_def utf8_decode_char)

lemma utf8_ascii: "list_all (\<lambda>c. code c < 128) s \<Longrightarrow> utf8 s = s"
  by (induction s) (simp_all add: utf8_def utf8_char_def)

text \<open>A cut inside a text leaves a text, or one byte of a character that needs two.\<close>

lemma take_utf8:
  "(\<exists>j. take k (utf8 s) = utf8 (take j s)) \<or>
   (\<exists>j b. take k (utf8 s) = utf8 (take j s) @ [b] \<and> code b \<in> {194, 195})"
proof (induction s arbitrary: k)
  case Nil
  then show ?case by simp
next
  case (Cons c s)
  have split: "utf8 (c # s) = utf8_char c @ utf8 s" by (simp add: utf8_def)
  show ?case
  proof (cases "length (utf8_char c) \<le> k")
    case True
    then have "take k (utf8 (c # s)) = utf8_char c @ take (k - length (utf8_char c)) (utf8 s)"
      by (simp add: split)
    moreover have "utf8_char c @ utf8 (take j s) = utf8 (take (Suc j) (c # s))" for j
      by (simp add: utf8_def)
    ultimately show ?thesis using Cons [of "k - length (utf8_char c)"] by (metis append.assoc)
  next
    case False
    then have "k = 0 \<or> k = 1 \<and> \<not> code c < 128" by (auto simp: utf8_char_def split: if_splits)
    then show ?thesis
    proof
      assume "k = 0"
      then show ?thesis by (intro disjI1 exI [of _ 0]) simp
    next
      assume k: "k = 1 \<and> \<not> code c < 128"
      have "code c < 256" by simp
      then have "code c div 64 = 2 \<or> code c div 64 = 3" using k by linarith
      then have "code (char_of (192 + code c div 64)) \<in> {194, 195}" by (auto simp: code_char_of)
      moreover have "take k (utf8 (c # s)) = [char_of (192 + code c div 64)]"
        using k by (simp add: split utf8_char_def)
      ultimately show ?thesis by (intro disjI2 exI [of _ 0] exI) auto
    qed
  qed
qed

lemma utf8_decode_cut: "code b \<in> {194, 195} \<Longrightarrow> utf8_decode (utf8 s @ [b]) = None"
  by (induction s) (auto simp: utf8_def utf8_decode_char)

definition clean :: "string \<Rightarrow> bool" where
  "clean s \<longleftrightarrow> list_all (\<lambda>c. c \<noteq> cr \<and> c \<noteq> lf) s"

lemma clean_simps [simp]: "clean []" "clean (c # s) \<longleftrightarrow> c \<noteq> cr \<and> c \<noteq> lf \<and> clean s"
  "clean (s @ t) \<longleftrightarrow> clean s \<and> clean t"
  by (simp_all add: clean_def)

lemma clean_take: "clean s \<Longrightarrow> clean (take k s)"
  by (auto simp: clean_def list_all_iff dest: in_set_takeD)

lemma printable_clean: "list_all (printable a) s \<Longrightarrow> clean s"
  by (auto simp: clean_def list_all_iff printable_def cr_def lf_def code_def)

lemma lf_not_cr [simp]: "lf \<noteq> cr" "cr \<noteq> lf"
  by (simp_all add: lf_def cr_def)

text \<open>The text of terminated lines.\<close>

definition text_of :: "string list \<Rightarrow> string" where
  "text_of ls = concat (map (\<lambda>l. l @ [lf]) ls)"

lemma text_of_simps [simp]: "text_of [] = []" "text_of (l # ls) = l @ lf # text_of ls"
  "text_of (ls @ ls') = text_of ls @ text_of ls'"
  by (simp_all add: text_of_def)

lemma universal_newlines_clean: "clean t \<Longrightarrow> universal_newlines (t @ s) = t @ universal_newlines s"
  by (induction t) auto

lemma universal_newlines_text:
  "list_all clean ls \<Longrightarrow> clean t \<Longrightarrow> universal_newlines (text_of ls @ t) = text_of ls @ t"
proof (induction ls)
  case Nil
  then show ?case using universal_newlines_clean [of t "[]"] by simp
next
  case (Cons l ls)
  then show ?case by (simp add: universal_newlines_clean)
qed

lemma split_lines_not_Nil [simp]: "split_lines s \<noteq> []"
  by (cases s) (auto split: list.split)

lemma split_lines_clean: "clean l \<Longrightarrow> split_lines (l @ lf # s) = l # split_lines s"
  by (induction l) simp_all

lemma split_lines_last: "clean l \<Longrightarrow> split_lines l = [l]"
  by (induction l) simp_all

lemma split_lines_text: "list_all clean ls \<Longrightarrow> clean t \<Longrightarrow> split_lines (text_of ls @ t) = ls @ [t]"
  by (induction ls) (simp_all add: split_lines_clean split_lines_last)

lemma trailing_newline_text:
  assumes "clean t" and "text_of ls @ t \<noteq> []"
  shows "has_trailing_newline (text_of ls @ t) \<longleftrightarrow> t = []"
proof (cases "t = []")
  case True
  with assms(2) have "ls \<noteq> []" by auto
  then obtain ls' l where "ls = ls' @ [l]" by (metis rev_exhaust)
  with True show ?thesis by (simp add: has_trailing_newline_def)
next
  case False
  then have "last t \<noteq> lf" "last t \<noteq> cr" using assms(1) last_in_set [OF False] by (auto simp: clean_def list_all_iff)
  with False show ?thesis by (simp add: has_trailing_newline_def)
qed

lemma physical_lines_text:
  assumes "list_all clean ls" and "clean t"
  shows "physical_lines (text_of ls @ t) = ls @ (if t = [] then [] else [t])"
proof (cases "text_of ls @ t = []")
  case True
  then show ?thesis by (cases ls) (auto simp: physical_lines_def)
next
  case False
  then show ?thesis
    using split_lines_text [OF assms] trailing_newline_text [OF assms(2) False]
    by (auto simp: physical_lines_def)
qed

lemma offset_after_clean: "clean l \<Longrightarrow> 0 < k \<Longrightarrow>
    offset_after k (l @ s) = map_option ((+) (length l)) (offset_after k s)"
proof (induction l)
  case Nil
  have "(+) (0 :: nat) = (\<lambda>n. n)" by auto
  then show ?case by (simp add: option.map_ident)
next
  case (Cons c l)
  then show ?case by (auto simp: option.map_comp o_def)
qed

lemma offset_after_text:
  assumes "list_all clean ls" and "clean t" and "t \<noteq> []"
  shows "offset_after (length ls) (text_of ls @ t) = Some (length (text_of ls))"
  using assms(1)
proof (induction ls)
  case Nil
  then show ?case using assms(3) by (cases t) auto
next
  case (Cons l ls)
  have "offset_after (Suc (length ls)) (lf # text_of ls @ t) = Some (Suc (length (text_of ls)))"
    using Cons by simp
  with Cons.prems show ?case by (simp add: offset_after_clean del: offset_after.simps)
qed

lemma line_start_text:
  assumes "list_all clean ls" and "clean t" and "t \<noteq> []"
  shows "line_start_offset (text_of ls @ t) (Suc (length ls)) = Some (length (text_of ls))"
proof (cases ls)
  case Nil
  then show ?thesis using assms(3) by (simp add: line_start_offset_def)
next
  case (Cons l ls')
  then show ?thesis using offset_after_text [OF assms] assms(3) by (simp add: line_start_offset_def)
qed

section \<open>Codecs\<close>

text \<open>The mapping that \<open>loads\<close> reads back from a dumped one.\<close>

definition stored_mapping :: "journal_format \<Rightarrow> payload \<Rightarrow> payload" where
  "stored_mapping fm d =
     (if jf_sort_keys (jp_json fm) then sort_key fst (map (\<lambda>(k, v). (k, sorted_keys v)) d) else d)"

definition journal_format_ok :: "journal_format \<Rightarrow> bool" where
  "journal_format_ok fm \<longleftrightarrow> line_format (jp_json fm) \<and> jp_newline fm = [lf]"

lemma journal_formats_ok: "journal_format_ok default_format" "journal_format_ok sorted_unicode_format"
  by (simp_all add: journal_format_ok_def line_format_def format_ok_def default_format_def
      sorted_unicode_format_def lf_def skip_def is_space_def code_def)

lemma load_dump_mapping:
  assumes "journal_format_ok fm" and "json_ok (JObj d)"
  shows "load_mapping kind n (dump_mapping fm d) = Inr (stored_mapping fm d)"
proof -
  have "format_ok (jp_json fm)" using assms(1) by (simp add: journal_format_ok_def line_format_def)
  from loads_dumps [OF this assms(2)] show ?thesis
    by (simp add: load_mapping_def dump_mapping_def stored_mapping_def)
qed

lemma dump_mapping_line:
  assumes "journal_format_ok fm" and "json_ok (JObj d)"
  shows "clean (dump_mapping fm d)" and "\<exists>s. dump_mapping fm d = CHR ''{'' # s"
    and "jf_ascii (jp_json fm) \<Longrightarrow> list_all (\<lambda>c. code c < 128) (dump_mapping fm d)"
proof -
  let ?v = "if jf_sort_keys (jp_json fm) then sorted_keys (JObj d) else JObj d"
  have "json_ok ?v" using assms(2) json_ok_sorted [of "JObj d"] by simp
  then have "list_all (printable (jf_ascii (jp_json fm))) (dump_mapping fm d)"
    using printable_print assms(1) by (simp add: dump_mapping_def dumps_def journal_format_ok_def)
  then show "clean (dump_mapping fm d)"
    and "jf_ascii (jp_json fm) \<Longrightarrow> list_all (\<lambda>c. code c < 128) (dump_mapping fm d)"
    using printable_clean by (auto simp: list_all_iff printable_def)
  show "\<exists>s. dump_mapping fm d = CHR ''{'' # s"
    by (cases "jf_sort_keys (jp_json fm)") (auto simp: dump_mapping_def dumps_def)
qed

lemma not_blank_brace [simp]: "not_blank (CHR ''{'' # s)"
  by (simp add: not_blank_def py_space_def code_def)

lemma not_blank_Nil [simp]: "\<not> not_blank []"
  by (simp add: not_blank_def)

text \<open>The lines before the records: none, or one that the policy's codec reads as a header.\<close>

definition header_reads ::
  "load_policy \<Rightarrow> (payload \<Rightarrow> codec_error + 'h) option \<Rightarrow> string list \<Rightarrow> 'h option \<Rightarrow> bool" where
  "header_reads policy hdec hs h \<longleftrightarrow>
     (if lp_header_required policy then
        (\<exists>l d. hs = [l] \<and> hdec = Some d \<and> clean l \<and> not_blank l \<and> decode_header_line policy d 1 l = Inr (h, []))
      else hs = [] \<and> h = None)"

lemma header_readsD: "header_reads policy hdec hs h \<Longrightarrow> list_all (\<lambda>l. clean l \<and> not_blank l) hs"
  by (auto simp: header_reads_def split: if_splits)

lemma numbered_lines_text:
  assumes "list_all (\<lambda>l. clean l \<and> not_blank l) ls" and "clean t" and "t = [] \<or> not_blank t"
  shows "numbered_lines (text_of ls @ t) =
    zip [1..<Suc (length ls)] ls @ (if t = [] then [] else [(Suc (length ls), t)])"
proof -
  let ?ls = "ls @ (if t = [] then [] else [t])"
  have lines: "physical_lines (text_of ls @ t) = ?ls"
    using assms by (intro physical_lines_text) (auto simp: list_all_iff)
  have "not_blank l" if "(n, l) \<in> set (zip ns ?ls)" for n l and ns :: "nat list"
    using set_zip_rightD [OF that] assms by (auto simp: list_all_iff split: if_splits)
  then have "numbered_lines (text_of ls @ t) = zip [1..<Suc (length ?ls)] ?ls"
    unfolding numbered_lines_def lines by (intro filter_True) blast
  moreover have "zip [1..<Suc (Suc (length ls))] (ls @ [t]) = zip [1..<Suc (length ls)] ls @ [(Suc (length ls), t)]"
    using upt_Suc_append [of 1 "Suc (length ls)"] by (simp del: upt_Suc)
  ultimately show ?thesis by (simp del: upt_Suc)
qed

locale record_codec =
  fixes fm :: journal_format
    and encode :: "'r \<Rightarrow> payload"
    and decode :: "payload \<Rightarrow> codec_error + 'r"
    and stored :: "'r \<Rightarrow> 'r"
    and valid :: "'r \<Rightarrow> bool"
  assumes format: "journal_format_ok fm"
    and encodes: "valid r \<Longrightarrow> json_ok (JObj (encode r))"
    and decodes: "valid r \<Longrightarrow> decode (stored_mapping fm (encode r)) = Inr (stored r)"
begin

lemma line_facts:
  assumes "valid r"
  shows "clean (dump_mapping fm (encode r))" and "not_blank (dump_mapping fm (encode r))"
    and "load_mapping kind n (dump_mapping fm (encode r)) = Inr (stored_mapping fm (encode r))"
  using dump_mapping_line [OF format encodes [OF assms]] load_dump_mapping [OF format encodes [OF assms]]
  by auto

lemma lines_read:
  assumes "list_all valid rs" and "tail_line \<notin> Some ` set ns" and "length ns = length rs"
  shows "rfold (decode_record_line policy decode tail_line) (recs, diags)
      (zip ns (map (\<lambda>r. dump_mapping fm (encode r)) rs)) = Inr (recs @ map stored rs, diags)"
  using assms
proof (induction rs arbitrary: ns recs)
  case Nil
  then show ?case by simp
next
  case (Cons r rs)
  then obtain n ns' where ns: "ns = n # ns'" by (cases ns) auto
  have "decode_record_line policy decode tail_line (recs, diags) (n, dump_mapping fm (encode r)) =
      Inr (recs @ [stored r], diags)"
    using Cons.prems ns line_facts(3) decodes
    by (auto simp: decode_record_line_def Let_def)
  with Cons ns show ?case by simp
qed

abbreviation record_lines :: "'r list \<Rightarrow> string list" where
  "record_lines rs \<equiv> map (\<lambda>r. dump_mapping fm (encode r)) rs"

text \<open>Terminated lines and then a last one \<open>t\<close> that is not: torn while it was being appended.\<close>

lemma torn_lines:
  assumes head: "header_reads policy hdec hs h" and valid: "list_all valid rs"
    and t: "clean t" "t = [] \<or> not_blank t"
  shows "decode_jsonl decode hdec policy (text_of (hs @ record_lines rs) @ t) =
    rbind (if t = [] then Inr (map stored rs, [])
           else decode_record_line policy decode (Some (Suc (length hs + length rs))) (map stored rs, [])
                  (Suc (length hs + length rs), t))
      (\<lambda>(records, diags). Inr \<lparr>js_header = h, js_records = records, js_diagnostics = diags\<rparr>)"
proof -
  let ?ls = "hs @ record_lines rs" 
  define raw where "raw = text_of ?ls @ t"
  define tl_line where "tl_line =
    (if raw \<noteq> [] \<and> \<not> has_trailing_newline raw then Some (length (physical_lines raw)) else None)"
  have all: "list_all (\<lambda>l. clean l \<and> not_blank l) ?ls"
    using header_readsD [OF head] valid line_facts by (auto simp: list_all_iff)
  have lines: "physical_lines raw = ?ls @ (if t = [] then [] else [t])"
    unfolding raw_def using all t(1) by (intro physical_lines_text) (auto simp: list_all_iff)
  have numbered: "numbered_lines raw =
      zip [1..<Suc (length ?ls)] ?ls @ (if t = [] then [] else [(Suc (length ?ls), t)])"
    unfolding raw_def by (rule numbered_lines_text [OF all t(1,2)])
  have tail: "tl_line = (if t = [] then None else Some (Suc (length ?ls)))"
  proof (cases "raw = []")
    case True
    then show ?thesis by (simp add: tl_line_def raw_def)
  next
    case False
    then show ?thesis
      using trailing_newline_text [OF t(1), of ?ls] unfolding tl_line_def lines by (simp add: raw_def)
  qed
  have "tl_line \<notin> Some ` set [Suc (length hs)..<Suc (length ?ls)]"
    unfolding tail by (auto simp del: upt_Suc)
  from lines_read [OF valid this, of policy "[]" "[]"]
  have records: "rfold (decode_record_line policy decode tl_line) ([], [])
      (zip [Suc (length hs)..<Suc (length ?ls)] (record_lines rs)) = Inr (map stored rs, [])"
    by (simp del: upt_Suc)
  let ?rest = "zip [Suc (length hs)..<Suc (length ?ls)] (record_lines rs) @
      (if t = [] then [] else [(Suc (length ?ls), t)])"
  define result where "result = (if t = [] then Inr (map stored rs, [])
      else decode_record_line policy decode (Some (Suc (length hs + length rs))) (map stored rs, [])
        (Suc (length hs + length rs), t))"
  have loop: "rfold (decode_record_line policy decode tl_line) ([], []) ?rest = result"
    using records unfolding tail result_def
    by (simp add: rfold_append rbind_Inr_right del: upt_Suc)
  have end_ok: "\<not> (tl_line \<noteq> None \<and> \<not> not_blank (last (physical_lines raw)))"
  proof (cases "t = []")
    case True
    then have "tl_line = None" using tail by simp
    then show ?thesis by (simp only: simp_thms)
  next
    case False
    then have "last (physical_lines raw) = t" unfolding lines by simp
    with t(2) False show ?thesis by simp
  qed
  note unfolded = decode_jsonl_def Let_def tl_line_def [symmetric] raw_def [symmetric] result_def [symmetric]
  have diags: "(if tl_line \<noteq> None \<and> \<not> not_blank (last (physical_lines raw)) \<and> P then d else []) = []" for P d
    using end_ok by auto
  show ?thesis
  proof (cases "lp_header_required policy")
    case False
    then have "hs = []" "h = None" using head by (simp_all add: header_reads_def)
    then have "numbered_lines raw = ?rest" using numbered by simp
    with False loop \<open>h = None\<close> \<open>hs = []\<close> show ?thesis
      unfolding unfolded diags by simp
  next
    case True
    then obtain l d where l: "hs = [l]" "hdec = Some d" "decode_header_line policy d 1 l = Inr (h, [])"
      using head by (auto simp: header_reads_def)
    have "numbered_lines raw = (1, l) # ?rest"
      unfolding numbered using l(1) by (simp add: upt_rec)
    with True l loop show ?thesis
      unfolding unfolded diags by simp
  qed
qed

lemma torn_decodes:
  assumes "header_reads policy hdec hs h" and "list_all valid rs"
    and "clean t" "t = [] \<or> not_blank t" and "t = [] \<or> lp_partial_tail policy \<noteq> Raise_Tail"
  shows "decode_jsonl decode hdec policy (text_of (hs @ record_lines rs) @ t) =
    Inr \<lparr>js_header = h, js_records = map stored rs,
      js_diagnostics = (if t = [] then []
        else [diagnostic partial_tail_code skipped_record (Suc (length hs + length rs))])\<rparr>"
  using assms(5) unfolding torn_lines [OF assms(1-4)]
  by (auto simp: decode_record_line_def)

lemma torn_raises:
  assumes "header_reads policy hdec hs h" and "list_all valid rs"
    and "clean t" "t \<noteq> []" "not_blank t" and "lp_partial_tail policy = Raise_Tail"
  shows "\<not> succeeds (decode_jsonl decode hdec policy (text_of (hs @ record_lines rs) @ t))"
proof -
  have "\<not> succeeds (decode_record_line policy decode (Some n) (recs, ds) (n, t))" for n recs ds
    using assms(6) by (auto simp: decode_record_line_def Let_def rbind_def split: sum.split codec_error.split)
  then show ?thesis
    using assms(4,5) unfolding torn_lines [OF assms(1-3) disjI2 [OF assms(5)]]
    by (auto simp: succeeds_iff rbind_Inr_iff)
qed

lemma lines_clean:
  assumes "header_reads policy hdec hs h" and "list_all valid rs"
  shows "list_all clean (hs @ record_lines rs)"
  using header_readsD [OF assms(1)] line_facts(1) assms(2) by (auto simp: list_all_iff)

lemma load_torn:
  assumes head: "header_reads policy hdec hs h" and valid: "list_all valid rs"
    and t: "clean t" "t = [] \<or> not_blank t" "t = [] \<or> lp_partial_tail policy \<noteq> Raise_Tail"
  shows "\<exists>diags. load_jsonl rooted decode hdec policy no_validator (Some (utf8 (text_of (hs @ record_lines rs) @ t))) =
    Inr (\<lparr>js_header = h, js_records = map stored rs, js_diagnostics = diags\<rparr>,
      utf8 (text_of (hs @ record_lines rs) @ (if lp_partial_tail policy = Repair_Tail then [] else t))) \<and>
    (t = [] \<longrightarrow> diags = [])"
proof -
  let ?ls = "hs @ record_lines rs"
  have clean: "list_all clean ?ls" by (rule lines_clean [OF head valid])
  have read: "read_text rooted (utf8 (text_of ?ls @ t)) = Inr (text_of ?ls @ t)"
    using universal_newlines_text [OF clean t(1)] by (simp only: read_text_def utf8_roundtrip) simp
  note decoded = torn_decodes [OF assms]
  show ?thesis
  proof (cases "t = []")
    case True
    with read decoded show ?thesis by (simp add: load_jsonl_def no_validator_def)
  next
    case False
    have offset: "line_start_offset (text_of ?ls @ t) (Suc (length hs + length rs)) = Some (length (text_of ?ls))"
      using line_start_text [OF clean t(1) False] by simp
    have "take (length (text_of ?ls)) (text_of ?ls @ t) = text_of ?ls" by simp
    with False read decoded offset show ?thesis
      unfolding load_jsonl_def no_validator_def by (simp add: diagnostic_def del: text_of_simps(3) utf8_append)
  qed
qed

lemma append_bytes:
  "append_jsonl_record fm encode r (Some (utf8 (text_of ls))) = utf8 (text_of (ls @ [dump_mapping fm (encode r)]))"
  using format by (simp add: append_jsonl_record_def journal_format_ok_def)

lemma appends_bytes:
  "foldl (\<lambda>file r. append_jsonl_record fm encode r (Some file)) (utf8 (text_of ls)) rs =
    utf8 (text_of (ls @ record_lines rs))"
proof (induction rs arbitrary: ls)
  case Nil
  then show ?case by simp
next
  case (Cons r rs)
  show ?case
    using Cons [of "ls @ [dump_mapping fm (encode r)]"] by (simp add: append_bytes del: text_of_simps(3))
qed

text \<open>With \<open>ensure_ascii\<close> a byte is a character, so an append is torn between characters.\<close>

lemma torn_bytes:
  assumes "jf_ascii (jp_json fm)" and "valid r" and "k \<le> length (dump_mapping fm (encode r))"
  shows "utf8 s @ take k (utf8 (dump_mapping fm (encode r) @ jp_newline fm)) =
    utf8 (s @ take k (dump_mapping fm (encode r)))"
proof -
  let ?l = "dump_mapping fm (encode r)"
  have ascii: "list_all (\<lambda>c. code c < 128) ?l"
    by (rule dump_mapping_line(3) [OF format encodes [OF assms(2)] assms(1)])
  then have "list_all (\<lambda>c. code c < 128) (take k ?l)" by (auto simp: list_all_iff dest: in_set_takeD)
  with ascii assms(3) show ?thesis by (simp add: utf8_ascii)
qed

lemma torn_line:
  assumes "valid r"
  shows "clean (take k (dump_mapping fm (encode r)))"
    and "take k (dump_mapping fm (encode r)) = [] \<or> not_blank (take k (dump_mapping fm (encode r)))"
proof -
  show "clean (take k (dump_mapping fm (encode r)))" by (rule clean_take [OF line_facts(1) [OF assms]])
  obtain s where "dump_mapping fm (encode r) = CHR ''{'' # s"
    using dump_mapping_line(2) [OF format encodes [OF assms]] by blast
  then show "take k (dump_mapping fm (encode r)) = [] \<or> not_blank (take k (dump_mapping fm (encode r)))"
    by (cases k) simp_all
qed

end

section \<open>Crash consistency\<close>

definition journal_bytes ::
  "journal_format \<Rightarrow> ('r \<Rightarrow> payload) \<Rightarrow> string list \<Rightarrow> 'r list \<Rightarrow> string" where
  "journal_bytes fm encode hs rs =
     foldl (\<lambda>file r. append_jsonl_record fm encode r (Some file)) (utf8 (text_of hs)) rs"

lemma journal_bytes_snoc:
  "journal_bytes fm encode hs (rs @ [r]) = append_jsonl_record fm encode r (Some (journal_bytes fm encode hs rs))"
  by (simp add: journal_bytes_def)

text \<open>A client that stores mappings as they are.\<close>

definition mapping_ok :: "payload \<Rightarrow> bool" where
  "mapping_ok d \<longleftrightarrow> json_ok (JObj d)"

lemma mapping_codec:
  "journal_format_ok fm \<Longrightarrow> record_codec fm (\<lambda>d. d) (\<lambda>d. Inr d) (stored_mapping fm) mapping_ok"
  by unfold_locales (simp_all add: mapping_ok_def del: json_ok.simps)

definition repair_policy :: load_policy where
  "repair_policy = default_policy\<lparr>lp_partial_tail := Repair_Tail\<rparr>"

lemma no_header_reads: "\<not> lp_header_required policy \<Longrightarrow> header_reads policy hdec [] None"
  by (simp add: header_reads_def)

text \<open>
  Property C10. Crash recovery: with an ASCII format, if a process dies while it appends a record,
  at whatever byte of the line, a loader that repairs gets exactly the records appended before and
  leaves exactly the bytes they had, so that the next append continues from there.
\<close>

theorem torn_append_recovered:
  assumes "record_codec fm encode decode stored valid" and "jf_ascii (jp_json fm)"
    and "header_reads policy hdec hs h" and "lp_partial_tail policy = Repair_Tail"
    and "list_all valid rs" and "valid r" and "k \<le> length (dump_mapping fm (encode r))"
  shows "\<exists>diags. load_jsonl rooted decode hdec policy no_validator
      (Some (journal_bytes fm encode hs rs @ take k (utf8 (dump_mapping fm (encode r) @ jp_newline fm)))) =
    Inr (\<lparr>js_header = h, js_records = map stored rs, js_diagnostics = diags\<rparr>, journal_bytes fm encode hs rs)"
proof -
  let ?ls = "hs @ map (\<lambda>r. dump_mapping fm (encode r)) rs"
  let ?t = "take k (dump_mapping fm (encode r))"
  have bytes: "journal_bytes fm encode hs rs = utf8 (text_of ?ls)"
    unfolding journal_bytes_def by (rule record_codec.appends_bytes [OF assms(1)])
  have torn: "journal_bytes fm encode hs rs @ take k (utf8 (dump_mapping fm (encode r) @ jp_newline fm)) =
      utf8 (text_of ?ls @ ?t)"
    unfolding bytes by (rule record_codec.torn_bytes [OF assms(1,2,6,7)])
  have "?t = [] \<or> lp_partial_tail policy \<noteq> Raise_Tail" using assms(4) by simp
  from record_codec.load_torn [OF assms(1,3,5) record_codec.torn_line [OF assms(1,6)] this, of rooted]
  show ?thesis unfolding torn unfolding bytes using assms(4) by auto
qed

theorem torn_append_recovered_witness:
  "\<exists>diags. load_jsonl False (\<lambda>d. Inr d) (None :: (payload \<Rightarrow> codec_error + payload) option) repair_policy no_validator
      (Some (journal_bytes default_format (\<lambda>d. d) [] [[(''a'', JInt 1)]] @
        take 1 (utf8 (dump_mapping default_format [(''b'', JNull)] @ jp_newline default_format)))) =
    Inr (\<lparr>js_header = None, js_records = [[(''a'', JInt 1)]], js_diagnostics = diags\<rparr>,
      journal_bytes default_format (\<lambda>d. d) [] [[(''a'', JInt 1)]])"
proof -
  have ok: "list_all mapping_ok [[(''a'', JInt 1)]]" "mapping_ok [(''b'', JNull)]"
    by (simp_all add: mapping_ok_def)
  have "lp_partial_tail repair_policy = Repair_Tail" "\<not> lp_header_required repair_policy"
    "jf_ascii (jp_json default_format)"
    by (simp_all add: repair_policy_def default_policy_def default_format_def)
  moreover obtain s where "dump_mapping default_format [(''b'', JNull)] = CHR ''{'' # s"
    using dump_mapping_line(2) [OF journal_formats_ok(1) ok(2) [unfolded mapping_ok_def]] by blast
  moreover have "stored_mapping default_format = (\<lambda>d. d)"
    by (simp add: fun_eq_iff stored_mapping_def default_format_def)
  ultimately show ?thesis
    using torn_append_recovered [OF mapping_codec [OF journal_formats_ok(1)] _ no_header_reads _ ok, of repair_policy 1]
    by simp
qed

text \<open>
  Property C11. What repair cannot repair: with a format that writes characters as they are, an
  append that dies between the two bytes of a character leaves a file that no policy can load; the
  decoding of the whole text fails before the loader looks at its tail.
\<close>

theorem torn_character_unreadable:
  assumes "take k (utf8 (dump_mapping fm (encode r))) = utf8 s @ [b]" and "code b \<in> {194, 195}"
    and "journal_bytes fm encode hs rs = utf8 committed"
  shows "load_jsonl rooted decode hdec policy validate
    (Some (journal_bytes fm encode hs rs @ take k (utf8 (dump_mapping fm (encode r))))) = Inl InvalidEncoding"
proof -
  have "journal_bytes fm encode hs rs @ take k (utf8 (dump_mapping fm (encode r))) = utf8 (committed @ s) @ [b]"
    by (simp add: assms(1,3))
  then show ?thesis using utf8_decode_cut [OF assms(2), of "committed @ s"] by (simp add: load_jsonl_def read_text_def)
qed

theorem torn_character_unreadable_witness:
  "load_jsonl False (\<lambda>d. Inr d) (None :: (payload \<Rightarrow> codec_error + payload) option) repair_policy no_validator
     (Some (journal_bytes sorted_unicode_format (\<lambda>d. d) [] [] @
       take 3 (utf8 (dump_mapping sorted_unicode_format [([CHR 0xE9], JNull)])))) = Inl InvalidEncoding"
proof (rule torn_character_unreadable)
  show "take 3 (utf8 (dump_mapping sorted_unicode_format [([CHR 0xE9], JNull)])) =
      utf8 (CHR ''{'' # CHR 0x22 # []) @ [char_of (195 :: nat)]"
    by (simp add: utf8_def utf8_char_def dump_mapping_def dumps_def sorted_unicode_format_def quote_def
        escape_char_def short_escapes_def code_def)
  show "code (char_of (195 :: nat)) \<in> {194, 195}" by (simp add: code_char_of)
  show "journal_bytes sorted_unicode_format (\<lambda>d. d) [] [] = utf8 []" by (simp add: journal_bytes_def)
qed

end
