(* ===== verification/Event_Log_Journal.thy ===== *)
theory Event_Log_Journal
  imports Jsonl_Journal Run_Projection
begin

text \<open>
  The event log on disk (\<open>JsonlEventLogBackend\<close> of \<open>harnesswork/event_log.py\<close>): the codec of its
  entries, opening a file and appending to it.

  Printing and parsing a time are the standard library's \<open>isoformat\<close> and \<open>fromisoformat\<close>: the
  arguments \<open>isoformat\<close> and \<open>fromisoformat\<close>, of which \<open>iso_ok\<close> says what the code relies on.
\<close>

section \<open>The entry codec\<close>

definition journal_entry_fields :: "string list" where
  "journal_entry_fields = [''entry_id'', ''entry_type'', ''operation_id'', ''event_id'', ''run_id'',
     ''session_id'', ''sequence'', ''payload'', ''created_at'']"

definition entry_to_json :: "(nat \<Rightarrow> string) \<Rightarrow> event_entry \<Rightarrow> payload" where
  "entry_to_json isoformat e =
     [(''entry_id'', JStr (e_entry_id e)),
      (''entry_type'', JStr (entry_type_text (e_entry_type e))),
      (''operation_id'', JStr (e_operation_id e)),
      (''event_id'', case e_event_id e of None \<Rightarrow> JNull | Some i \<Rightarrow> JStr i),
      (''run_id'', JStr (e_run_id e)),
      (''session_id'', JStr (e_session_id e)),
      (''sequence'', JInt (e_sequence e)),
      (''payload'', JObj (e_payload e)),
      (''created_at'', JStr (isoformat (e_created_at e)))]"

definition require_exact_fields :: "payload \<Rightarrow> codec_error + unit" where
  "require_exact_fields d =
     (let missing = sort (filter (\<lambda>f. f \<notin> set (keys d)) journal_entry_fields);
          unexpected = sort (filter (\<lambda>f. f \<notin> set journal_entry_fields) (keys d))
      in if missing \<noteq> [] then
           Inl (OtherError (''event log entry is missing fields: '' @ join '', '' missing))
         else if unexpected \<noteq> [] then
           Inl (OtherError (''event log entry has unexpected fields: '' @ join '', '' unexpected))
         else Inr ())"

text \<open>\<open>data[name]\<close>.\<close>

definition fetch :: "payload \<Rightarrow> string \<Rightarrow> codec_error + json" where
  "fetch d k = (case map_of d k of None \<Rightarrow> Inl (OtherError k) | Some v \<Rightarrow> Inr v)"

fun require_string :: "string \<Rightarrow> json \<Rightarrow> codec_error + string" where
  "require_string name (JStr s) = Inr s"
| "require_string name _ = Inl (OtherError (name @ '' must be a string''))"

definition require_optional_string :: "string \<Rightarrow> json \<Rightarrow> codec_error + string option" where
  "require_optional_string name v =
     (if v = JNull then Inr None else rbind (require_string name v) (\<lambda>s. Inr (Some s)))"

fun require_integer :: "string \<Rightarrow> json \<Rightarrow> codec_error + int" where
  "require_integer name (JInt i) = Inr i"
| "require_integer name _ = Inl (OtherError (name @ '' must be an integer''))"

definition require_entry_type :: "json \<Rightarrow> codec_error + entry_type" where
  "require_entry_type v =
     rbind (require_string ''entry_type'' v) (\<lambda>s.
       if s = ''operation'' then Inr Operation
       else if s = ''event'' then Inr Event
       else Inl (OtherError ''entry_type must be operation or event''))"

fun require_json_mapping :: "string \<Rightarrow> json \<Rightarrow> codec_error + payload" where
  "require_json_mapping name (JObj d) = Inr d"
| "require_json_mapping name _ = Inl (OtherError (name @ '' must be a JSON object''))"

definition datetime_from_json :: "(string \<Rightarrow> nat option) \<Rightarrow> json \<Rightarrow> codec_error + nat" where
  "datetime_from_json fromisoformat v =
     rbind (require_string ''created_at'' v) (\<lambda>s.
       if length s \<le> 10 \<or> s ! 10 \<notin> {CHR ''T'', CHR '' ''} then
         Inl (OtherError ''created_at must be an ISO 8601 datetime'')
       else
         (case fromisoformat s of
            None \<Rightarrow> Inl (OtherError ''created_at must be an ISO 8601 datetime'')
          | Some t \<Rightarrow> Inr t))"

definition entry_from_json :: "(string \<Rightarrow> nat option) \<Rightarrow> payload \<Rightarrow> codec_error + event_entry" where
  "entry_from_json fromisoformat d =
     rbind (require_exact_fields d) (\<lambda>_.
     rbind (rbind (fetch d ''entry_id'') (require_string ''entry_id'')) (\<lambda>entry_id.
     rbind (rbind (fetch d ''entry_type'') require_entry_type) (\<lambda>entry_type.
     rbind (rbind (fetch d ''operation_id'') (require_string ''operation_id'')) (\<lambda>operation_id.
     rbind (rbind (fetch d ''event_id'') (require_optional_string ''event_id'')) (\<lambda>event_id.
     rbind (rbind (fetch d ''run_id'') (require_string ''run_id'')) (\<lambda>run_id.
     rbind (rbind (fetch d ''session_id'') (require_string ''session_id'')) (\<lambda>session_id.
     rbind (rbind (fetch d ''sequence'') (require_integer ''sequence'')) (\<lambda>sequence.
     rbind (rbind (fetch d ''payload'') (require_json_mapping ''event_log_entry.payload'')) (\<lambda>payload.
     rbind (rbind (fetch d ''created_at'') (datetime_from_json fromisoformat)) (\<lambda>created_at.
     Inr \<lparr>e_entry_id = entry_id, e_entry_type = entry_type, e_operation_id = operation_id,
       e_event_id = event_id, e_run_id = run_id, e_session_id = session_id, e_sequence = sequence,
       e_payload = payload, e_created_at = created_at\<rparr>))))))))))"

section \<open>The backend\<close>

type_synonym jsonl_backend = "event_log \<times> string option"

definition open_backend :: "(string \<Rightarrow> nat option) \<Rightarrow> string option \<Rightarrow> journal_error + jsonl_backend" where
  "open_backend fromisoformat file =
     (if file = None then Inr (empty_log, None)
      else
        rbind (load_jsonl False (entry_from_json fromisoformat) (None :: (payload \<Rightarrow> codec_error + unit) option)
                 default_policy no_validator file) (\<lambda>(snapshot, bytes).
        Inr (load_log (js_records snapshot), Some bytes)))"

definition append_backend :: "(nat \<Rightarrow> string) \<Rightarrow> jsonl_backend \<Rightarrow> event_entry \<Rightarrow> nat \<times> jsonl_backend" where
  "append_backend isoformat = (\<lambda>(l, file) e.
     let file' = append_jsonl_record sorted_unicode_format (entry_to_json isoformat) e file;
         (position, l') = append_stored l e
     in (position, l', Some file'))"

interpretation jsonl: event_log_backend "append_backend isoformat" "\<lambda>b. checkpoint (fst b)"
    "\<lambda>b. query (fst b)" "\<lambda>b. contents (fst b)" "\<lambda>b. log_ok (fst b)" for isoformat
proof (unfold_locales, goal_cases)
  case (5 b sel after)
  then show ?case by (rule mem.ask_view)
next
  case (6 b sel after n)
  then show ?case by (rule mem.ask_limit)
qed (simp_all add: append_backend_def split_def Let_def mem.ok_put mem.view_put mem.position_put mem.check_view)

section \<open>What the codec keeps\<close>

definition iso_ok :: "(nat \<Rightarrow> string) \<Rightarrow> (string \<Rightarrow> nat option) \<Rightarrow> bool" where
  "iso_ok isoformat fromisoformat \<longleftrightarrow>
     (\<forall>t. 10 < length (isoformat t) \<and> isoformat t ! 10 = CHR ''T'' \<and> fromisoformat (isoformat t) = Some t)"

text \<open>An entry as it is read back: the keys of its payload are in order.\<close>

definition stored_entry :: "event_entry \<Rightarrow> event_entry" where
  "stored_entry e = e\<lparr>e_payload := stored_mapping sorted_unicode_format (e_payload e)\<rparr>"

definition entry_ok :: "event_entry \<Rightarrow> bool" where
  "entry_ok e \<longleftrightarrow> json_ok (JObj (e_payload e))"

lemma stored_sorted: "stored_mapping sorted_unicode_format d = sort_key fst (map (\<lambda>(k, v). (k, sorted_keys v)) d)"
  by (simp add: stored_mapping_def sorted_unicode_format_def)

lemma sorted_keys_obj: "sorted_keys (JObj d) = JObj (stored_mapping sorted_unicode_format d)"
  by (simp add: stored_sorted)

lemma keys_entry_to_json: "keys (entry_to_json isoformat e) = journal_entry_fields"
  by (simp add: entry_to_json_def journal_entry_fields_def)

lemma distinct_entry_fields: "distinct journal_entry_fields"
  by (simp add: journal_entry_fields_def)

lemma map_of_stored:
  assumes "distinct (keys d)"
  shows "map_of (stored_mapping sorted_unicode_format d) k = map_option sorted_keys (map_of d k)"
proof -
  have "keys (map (\<lambda>(k, v). (k, sorted_keys v)) d) = keys d" by (simp add: split_def o_def)
  then have "distinct (keys (map (\<lambda>(k, v). (k, sorted_keys v)) d))" using assms by (simp only:)
  from map_of_sort_key [OF this] show ?thesis unfolding stored_sorted by (simp add: map_of_map)
qed

lemma set_keys_stored: "set (keys (stored_mapping sorted_unicode_format d)) = set (keys d)"
  unfolding stored_sorted by (force simp: image_iff)

lemma datetime_roundtrip:
  assumes "iso_ok isoformat fromisoformat"
  shows "datetime_from_json fromisoformat (JStr (isoformat t)) = Inr t"
proof -
  have "10 < length (isoformat t)" "isoformat t ! 10 = CHR ''T''" "fromisoformat (isoformat t) = Some t"
    using assms by (simp_all add: iso_ok_def)
  then show ?thesis by (simp add: datetime_from_json_def)
qed

lemma entry_roundtrip:
  assumes "iso_ok isoformat fromisoformat"
  shows "entry_from_json fromisoformat (stored_mapping sorted_unicode_format (entry_to_json isoformat e)) =
    Inr (stored_entry e)"
proof -
  let ?d = "stored_mapping sorted_unicode_format (entry_to_json isoformat e)"
  have fields: "set (keys ?d) = set journal_entry_fields"
    unfolding set_keys_stored keys_entry_to_json ..
  then have "require_exact_fields ?d = Inr ()"
    by (simp add: require_exact_fields_def Let_def)
  moreover have "fetch ?d k = (case map_of (entry_to_json isoformat e) k of None \<Rightarrow> Inl (OtherError k)
      | Some v \<Rightarrow> Inr (sorted_keys v))" for k
    using map_of_stored keys_entry_to_json distinct_entry_fields
    by (simp add: fetch_def split: option.split)
  ultimately show ?thesis
    by (cases "e_event_id e"; cases "e_entry_type e")
      (simp_all add: entry_from_json_def entry_to_json_def require_entry_type_def
        require_optional_string_def datetime_roundtrip [OF assms] sorted_keys_obj stored_entry_def
        del: sorted_keys.simps(2))
qed

lemma entry_codec:
  assumes "iso_ok isoformat fromisoformat"
  shows "record_codec sorted_unicode_format (entry_to_json isoformat) (entry_from_json fromisoformat)
    stored_entry entry_ok"
proof
  show "journal_format_ok sorted_unicode_format" by (rule journal_formats_ok)
  fix e
  assume "entry_ok e"
  then show "json_ok (JObj (entry_to_json isoformat e))"
    by (simp add: entry_ok_def entry_to_json_def split: option.split)
qed (rule entry_roundtrip [OF assms])

section \<open>Appends and restarts\<close>

abbreviation entry_line :: "(nat \<Rightarrow> string) \<Rightarrow> event_entry \<Rightarrow> string" where
  "entry_line isoformat e \<equiv> dump_mapping sorted_unicode_format (entry_to_json isoformat e)"

lemma entry_line_stored [simp]: "entry_line isoformat (stored_entry e) = entry_line isoformat e"
proof -
  have "sorted_keys (JObj (entry_to_json isoformat (stored_entry e))) = sorted_keys (JObj (entry_to_json isoformat e))"
    using sorted_keys_idem [of "JObj (e_payload e)"]
    by (simp add: entry_to_json_def stored_entry_def sorted_keys_obj stored_sorted del: sorted_keys_idem)
  then show ?thesis by (simp add: dump_mapping_def dumps_def sorted_unicode_format_def)
qed

text \<open>The processes that own the file one after the other: they append, stop, and open it again.\<close>

inductive disk_reachable :: "(nat \<Rightarrow> string) \<Rightarrow> (string \<Rightarrow> nat option) \<Rightarrow> jsonl_backend \<Rightarrow> bool"
  for isoformat fromisoformat where
  fresh: "disk_reachable isoformat fromisoformat (empty_log, None)"
| append: "disk_reachable isoformat fromisoformat b \<Longrightarrow> entry_ok e \<Longrightarrow>
    disk_reachable isoformat fromisoformat (snd (append_backend isoformat b e))"
| restart: "disk_reachable isoformat fromisoformat b \<Longrightarrow> open_backend fromisoformat (snd b) = Inr b' \<Longrightarrow>
    disk_reachable isoformat fromisoformat b'"

definition on_disk :: "(nat \<Rightarrow> string) \<Rightarrow> jsonl_backend \<Rightarrow> bool" where
  "on_disk isoformat b \<longleftrightarrow> log_ok (fst b) \<and> list_all entry_ok (contents (fst b)) \<and>
     (case snd b of
        None \<Rightarrow> contents (fst b) = []
      | Some bytes \<Rightarrow> bytes = utf8 (text_of (map (entry_line isoformat) (contents (fst b)))))"

lemma entry_ok_stored:
  assumes "entry_ok e"
  shows "entry_ok (stored_entry e)"
  using json_ok_sorted [of "JObj (e_payload e)"] assms
  by (simp add: entry_ok_def stored_entry_def sorted_keys_obj del: sorted_keys.simps json_ok.simps)

lemma open_on_disk:
  assumes "iso_ok isoformat fromisoformat" and "on_disk isoformat b"
  shows "open_backend fromisoformat (snd b) = Inr (load_log (map stored_entry (contents (fst b))), snd b)"
proof (cases "snd b")
  case None
  then show ?thesis using assms(2) by (simp add: open_backend_def on_disk_def load_log_def)
next
  case (Some bytes)
  have head: "header_reads default_policy (None :: (payload \<Rightarrow> codec_error + unit) option) [] None"
    by (simp add: header_reads_def default_policy_def)
  have valid: "list_all entry_ok (contents (fst b))"
    and bytes: "bytes = utf8 (text_of ([] @ map (entry_line isoformat) (contents (fst b))) @ [])"
    using assms(2) Some by (simp_all add: on_disk_def)
  from record_codec.load_torn [OF entry_codec [OF assms(1)] head valid, of "[]" False]
  show ?thesis
    unfolding Some bytes by (auto simp: open_backend_def)
qed

lemma on_disk_append:
  assumes "on_disk isoformat b" and "entry_ok e"
  shows "on_disk isoformat (snd (append_backend isoformat b e))"
proof -
  obtain l f where b: "b = (l, f)" by (cases b)
  have "(case f of None \<Rightarrow> [] | Some bytes \<Rightarrow> bytes) = utf8 (text_of (map (entry_line isoformat) (contents l)))"
    using assms(1) by (auto simp: on_disk_def b split: option.splits)
  then show ?thesis
    using assms by (simp add: on_disk_def b append_backend_def split_def Let_def log_ok_append_stored
        append_jsonl_record_def) (simp add: sorted_unicode_format_def lf_def)
qed

lemma reachable_on_disk:
  assumes "disk_reachable isoformat fromisoformat b" and "iso_ok isoformat fromisoformat"
  shows "on_disk isoformat b"
  using assms(1)
proof (induction rule: disk_reachable.induct)
  case fresh
  then show ?case by (simp add: on_disk_def) (simp add: empty_log_def contents_def)
next
  case (append b e)
  then show ?case by (simp add: on_disk_append)
next
  case (restart b b')
  then have "b' = (load_log (map stored_entry (contents (fst b))), snd b)"
    using open_on_disk [OF assms(2)] by simp
  with restart.IH show ?case
    using load_log_ok [of "map stored_entry (contents (fst b))"] entry_ok_stored
    by (auto simp: on_disk_def o_def list_all_iff split: option.splits)
qed

section \<open>The replay reads the same entries\<close>

lemma optional_string_sorted [simp]: "optional_string (map_option sorted_keys v) = optional_string v"
  by (cases v rule: optional_string.cases) simp_all

lemma entry_value_stored: "entry_ok e \<Longrightarrow> map_of (e_payload (stored_entry e)) k = map_option sorted_keys (map_of (e_payload e) k)"
  by (simp add: stored_entry_def entry_ok_def map_of_stored)

lemma nested_stored:
  assumes "\<forall>w. v = Some w \<longrightarrow> json_ok w"
  shows "map_of (nested_mapping (map_option sorted_keys v)) k = map_option sorted_keys (map_of (nested_mapping v) k)"
proof (cases v rule: nested_mapping.cases)
  case (1 kvs)
  with assms have "distinct (keys kvs)" by simp
  with 1 show ?thesis by (simp add: sorted_keys_obj map_of_stored del: sorted_keys.simps(2))
qed simp_all

lemma payload_value_ok: "entry_ok e \<Longrightarrow> map_of (e_payload e) k = Some w \<Longrightarrow> json_ok w"
  by (auto simp: entry_ok_def list_all_iff dest: map_of_SomeD)

lemma stored_entry_fields [simp]:
  "e_entry_id (stored_entry e) = e_entry_id e" "e_entry_type (stored_entry e) = e_entry_type e"
  "e_operation_id (stored_entry e) = e_operation_id e" "e_event_id (stored_entry e) = e_event_id e"
  "e_run_id (stored_entry e) = e_run_id e" "e_session_id (stored_entry e) = e_session_id e"
  "e_sequence (stored_entry e) = e_sequence e" "e_created_at (stored_entry e) = e_created_at e"
  by (simp_all add: stored_entry_def)

lemma nested_string_stored:
  "entry_ok e \<Longrightarrow>
     optional_string (map_of (nested_mapping (map_option sorted_keys (map_of (e_payload e) p))) k) =
     optional_string (map_of (nested_mapping (map_of (e_payload e) p)) k)"
  using nested_stored [of "map_of (e_payload e) p" k] payload_value_ok [of e p] by simp

lemma next_status_stored [simp]: "next_status (stored_entry e) = next_status e"
  by (intro ext) (simp add: next_status_def require_status_def split: option.split)

lemma apply_event_stored: "entry_ok e \<Longrightarrow> apply_event s (stored_entry e) = apply_event s e"
  by (cases "map_of (e_payload e) ''kind''" rule: optional_string.cases)
    (simp_all add: apply_event_def entry_value_stored nested_string_stored Let_def)

lemma run_from_operation_stored: "entry_ok e \<Longrightarrow> run_from_operation (stored_entry e) = run_from_operation e"
  by (cases "map_of (e_payload e) ''domain''" rule: optional_string.cases)
    (simp_all add: run_from_operation_def entry_value_stored nested_string_stored Let_def)

lemma projector_step_stored: "entry_ok e \<Longrightarrow> projector_step p (stored_entry e) = projector_step p e"
  by (cases "map_of (states p) (e_run_id e)")
    (simp_all add: projector_step_def projector_apply_def apply_first_def apply_next_def
      apply_event_stored run_from_operation_stored Let_def)

lemma rfold_stored: "list_all entry_ok es \<Longrightarrow>
    rfold projector_step p (map stored_entry es) = rfold projector_step p es"
proof (induction es arbitrary: p)
  case (Cons e es)
  then show ?case by (cases "projector_step p e") (simp_all add: projector_step_stored)
qed simp

section \<open>A torn append\<close>

lemma torn_entry_refused:
  assumes iso: "iso_ok isoformat fromisoformat" and disk: "on_disk isoformat b" and e: "entry_ok e"
    and k: "0 < k" "k \<le> length (utf8 (entry_line isoformat e))"
  shows "\<not> succeeds (open_backend fromisoformat (Some
    ((case snd b of None \<Rightarrow> [] | Some bytes \<Rightarrow> bytes) @ take k (utf8 (entry_line isoformat e)))))"
proof -
  let ?l = "entry_line isoformat e"
  let ?lines = "map (entry_line isoformat) (contents (fst b))"
  note codec = entry_codec [OF iso]
  have bytes: "(case snd b of None \<Rightarrow> [] | Some bytes \<Rightarrow> bytes) = utf8 (text_of ?lines)"
    using disk by (auto simp: on_disk_def split: option.splits)
  have valid: "list_all entry_ok (contents (fst b))" using disk by (simp add: on_disk_def)
  have "take k (utf8 ?l) \<noteq> []" using k by (cases "utf8 ?l") auto
  from take_utf8 [of k ?l] show ?thesis
  proof
    assume "\<exists>j. take k (utf8 ?l) = utf8 (take j ?l)"
    then obtain j where j: "take k (utf8 ?l) = utf8 (take j ?l)" by blast
    define t where "t = take j ?l"
    have "t \<noteq> []" using \<open>take k (utf8 ?l) \<noteq> []\<close> j unfolding t_def [symmetric] by auto
    then have t: "t \<noteq> []" "clean t" "not_blank t"
      using record_codec.torn_line [OF codec e, of j] unfolding t_def by blast+
    have "list_all clean ?lines" using record_codec.line_facts(1) [OF codec] valid by (auto simp: list_all_iff)
    then have read: "read_text False (utf8 (text_of ?lines @ t)) = Inr (text_of ?lines @ t)"
      using universal_newlines_text t(2) by (simp only: read_text_def utf8_roundtrip) simp
    have head: "header_reads default_policy (None :: (payload \<Rightarrow> codec_error + unit) option) [] None"
      by (simp add: header_reads_def default_policy_def)
    have "lp_partial_tail default_policy = Raise_Tail" by (simp add: default_policy_def)
    from record_codec.torn_raises [OF codec head valid t(2,1,3) this] read show ?thesis
      unfolding bytes j t_def [symmetric] utf8_append [symmetric]
      by (auto simp: open_backend_def load_jsonl_def succeeds_iff rbind_Inr_iff)
  next
    assume "\<exists>j b. take k (utf8 ?l) = utf8 (take j ?l) @ [b] \<and> code b \<in> {194, 195}"
    then obtain j c where j: "take k (utf8 ?l) = utf8 (take j ?l) @ [c]" "code c \<in> {194, 195}" by blast
    from utf8_decode_cut [OF j(2), of "text_of ?lines @ take j ?l"] show ?thesis
      by (simp add: bytes j(1) open_backend_def load_jsonl_def read_text_def)
  qed
qed

section \<open>Properties\<close>

definition sample_isoformat :: "nat \<Rightarrow> string" where
  "sample_isoformat t = ''2026-01-01T00:00:00.'' @ decimal t"

definition sample_fromisoformat :: "string \<Rightarrow> nat option" where
  "sample_fromisoformat s = Some (nat_of_digits (drop 20 s))"

lemma sample_iso_ok: "iso_ok sample_isoformat sample_fromisoformat"
  by (simp add: iso_ok_def sample_isoformat_def sample_fromisoformat_def nat_of_decimal)

lemma sample_entry_ok: "entry_ok (sample_entry op run n)"
  by (simp add: entry_ok_def sample_entry_def)

definition sample_disk :: jsonl_backend where
  "sample_disk = snd (append_backend sample_isoformat (empty_log, None) (sample_entry ''o'' ''r'' 0))"

lemma sample_disk_reachable: "disk_reachable sample_isoformat sample_fromisoformat sample_disk"
  unfolding sample_disk_def by (rule disk_reachable.append [OF disk_reachable.fresh sample_entry_ok])

lemma sample_disk_contents: "contents (fst sample_disk) = [sample_entry ''o'' ''r'' 0]"
  by (simp add: sample_disk_def append_backend_def split_def Let_def) (simp add: contents_def empty_log_def)

text \<open>
  Property C12. The event log survives restarts: after any sequence of appends and restarts, opening
  its file again succeeds, leaves the file as it is, and gives every entry back in its order and at
  its position, the keys of its payload put in order; replayed, it gives the same runs.
\<close>

theorem event_log_survives_restart:
  assumes "iso_ok isoformat fromisoformat" and "disk_reachable isoformat fromisoformat b"
  shows "\<exists>l. open_backend fromisoformat (snd b) = Inr (l, snd b) \<and> log_ok l \<and>
    contents l = map stored_entry (contents (fst b)) \<and>
    project_work_runs (contents l) orphan = project_work_runs (contents (fst b)) orphan"
proof -
  have disk: "on_disk isoformat b" by (rule reachable_on_disk [OF assms(2,1)])
  then show ?thesis
    using open_on_disk [OF assms(1) disk] load_log_ok [of "map stored_entry (contents (fst b))"]
      rfold_stored [of "contents (fst b)"]
    by (simp add: on_disk_def project_work_runs_def)
qed

theorem event_log_survives_restart_witness:
  "\<exists>l. open_backend sample_fromisoformat (snd sample_disk) = Inr (l, snd sample_disk) \<and>
     contents l = [stored_entry (sample_entry ''o'' ''r'' 0)]"
  using event_log_survives_restart [OF sample_iso_ok sample_disk_reachable]
  by (auto simp: sample_disk_contents)

text \<open>
  A torn append is never read as an entry, and it is fatal: if the process dies after it
  wrote some bytes of the line of an entry but not its line feed, opening the file raises, wherever
  the cut falls, even where the line is complete and even inside a character.
\<close>

theorem torn_event_log_refused:
  assumes "iso_ok isoformat fromisoformat" and "disk_reachable isoformat fromisoformat b" and "entry_ok e"
    and "0 < k" and "k \<le> length (utf8 (entry_line isoformat e))"
  shows "\<not> succeeds (open_backend fromisoformat (Some
    ((case snd b of None \<Rightarrow> [] | Some bytes \<Rightarrow> bytes) @ take k (utf8 (entry_line isoformat e)))))"
  using torn_entry_refused [OF assms(1) reachable_on_disk [OF assms(2,1)] assms(3-5)] .

theorem torn_event_log_refused_witness:
  "\<not> succeeds (open_backend sample_fromisoformat (Some
     (the (snd sample_disk) @ take 1 (utf8 (entry_line sample_isoformat (sample_entry ''o'' ''r'' 1))))))"
proof -
  obtain s where "entry_line sample_isoformat (sample_entry ''o'' ''r'' 1) = CHR ''{'' # s"
    using dump_mapping_line(2) [OF journal_formats_ok(2)]
      record_codec.encodes [OF entry_codec [OF sample_iso_ok] sample_entry_ok] by blast
  then have "1 \<le> length (utf8 (entry_line sample_isoformat (sample_entry ''o'' ''r'' 1)))"
    by (simp add: utf8_def utf8_char_def code_def)
  moreover have "\<exists>bytes. snd sample_disk = Some bytes"
    by (simp add: sample_disk_def append_backend_def split_def Let_def)
  ultimately show ?thesis
    using torn_event_log_refused [OF sample_iso_ok sample_disk_reachable sample_entry_ok, of 1]
    by (auto simp: zero_less_one)
qed

end
