(* ===== verification/Goal_Records.thy ===== *)
theory Goal_Records
  imports Jsonl_Journal
begin

text \<open>
  The record component of Goal (\<open>harnesswork/goal/records.py\<close>): its immutable model, the codec of
  its header and records, and the reducer \<open>replay\<close> that validates a history of records.

  Frozen data are JSON values: a tuple and the list it is written as are both \<open>JList\<close>, so
  \<open>freeze\<close> and \<open>plain\<close> change nothing and need no definition. The dictionaries of the reducer are
  association lists in insertion order, its sets are lists. A float stands for its literal.
\<close>

section \<open>Errors and checked values\<close>

datatype goal_error =
    GoalError string
  | UnsupportedGoalVersion string
  | NotHashable
  | NotJson

text \<open>\<open>document\<close>, \<open>text\<close> and \<open>positive\<close> on what \<open>get\<close> returns; a missing key reads as \<open>None\<close>.\<close>

fun goal_document :: "json option \<Rightarrow> goal_error + payload" where
  "goal_document (Some (JObj d)) = Inr d"
| "goal_document _ = Inl (GoalError ''expected an object'')"

fun goal_text :: "json option \<Rightarrow> goal_error + string" where
  "goal_text (Some (JStr s)) = (if not_blank s then Inr s else Inl (GoalError ''expected a nonempty string''))"
| "goal_text _ = Inl (GoalError ''expected a nonempty string'')"

fun goal_positive :: "json option \<Rightarrow> goal_error + int" where
  "goal_positive (Some (JInt i)) = (if i < 1 then Inl (GoalError ''expected a positive integer'') else Inr i)"
| "goal_positive _ = Inl (GoalError ''expected a positive integer'')"

definition get_or :: "payload \<Rightarrow> string \<Rightarrow> json \<Rightarrow> json option" where
  "get_or d k v0 = (case map_of d k of None \<Rightarrow> Some v0 | Some v \<Rightarrow> Some v)"

text \<open>Whether a value can be the element of a set: a frozen one (tuples), or one as parsed (lists).\<close>

fun frozen_hashable :: "json \<Rightarrow> bool" where
  "frozen_hashable (JObj _) = False"
| "frozen_hashable (JList vs) = list_all frozen_hashable vs"
| "frozen_hashable _ = True"

fun parsed_hashable :: "json \<Rightarrow> bool" where
  "parsed_hashable (JObj _) = False"
| "parsed_hashable (JList _) = False"
| "parsed_hashable _ = True"

section \<open>Data\<close>

record goal_header =
  gh_scope_id :: string
  gh_session_id :: string
  gh_policy_id :: string
  gh_policy_version :: int
  gh_version :: int
  gh_extensions :: payload

definition make_header ::
  "string \<Rightarrow> string \<Rightarrow> string \<Rightarrow> int \<Rightarrow> int \<Rightarrow> payload \<Rightarrow> goal_error + goal_header" where
  "make_header scope session policy policy_version version extensions =
     rbind (goal_text (Some (JStr scope))) (\<lambda>_.
     rbind (goal_text (Some (JStr session))) (\<lambda>_.
     rbind (goal_text (Some (JStr policy))) (\<lambda>_.
     rbind (goal_positive (Some (JInt policy_version))) (\<lambda>_.
     rbind (require (version = 1) (UnsupportedGoalVersion ''unsupported Goal header version'')) (\<lambda>_.
     Inr \<lparr>gh_scope_id = scope, gh_session_id = session, gh_policy_id = policy,
       gh_policy_version = policy_version, gh_version = version, gh_extensions = extensions\<rparr>)))))"

text \<open>Equality of headers leaves out their extensions (\<open>compare=False\<close>).\<close>

definition same_header :: "goal_header \<Rightarrow> goal_header \<Rightarrow> bool" where
  "same_header a b \<longleftrightarrow> a\<lparr>gh_extensions := []\<rparr> = b\<lparr>gh_extensions := []\<rparr>"

record requirement =
  rq_id :: string
  rq_text :: string

fun goal_requirement :: "json \<Rightarrow> goal_error + requirement" where
  "goal_requirement v =
     rbind (goal_document (Some v)) (\<lambda>d.
     rbind (goal_text (map_of d ''id'')) (\<lambda>i.
     rbind (goal_text (map_of d ''text'')) (\<lambda>t. Inr \<lparr>rq_id = i, rq_text = t\<rparr>)))"

fun goal_requirements :: "json option \<Rightarrow> goal_error + requirement list" where
  "goal_requirements (Some (JList (v # vs))) =
     rbind (rmap goal_requirement (v # vs)) (\<lambda>rs.
     rbind (require (distinct (map rq_id rs)) (GoalError ''duplicate requirement id'')) (\<lambda>_. Inr rs))"
| "goal_requirements _ = Inl (GoalError ''requirements must be nonempty'')"

record goal_record =
  gr_sequence :: int
  gr_scope_id :: string
  gr_goal_id :: string
  gr_kind :: string
  gr_command_id :: string
  gr_data :: payload
  gr_version :: int
  gr_extensions :: payload

definition make_record ::
  "int \<Rightarrow> string \<Rightarrow> string \<Rightarrow> string \<Rightarrow> string \<Rightarrow> payload \<Rightarrow> int \<Rightarrow> payload \<Rightarrow> goal_error + goal_record" where
  "make_record sequence scope goal kind command data version extensions =
     rbind (goal_positive (Some (JInt sequence))) (\<lambda>_.
     rbind (goal_text (Some (JStr scope))) (\<lambda>_.
     rbind (goal_text (Some (JStr goal))) (\<lambda>_.
     rbind (goal_text (Some (JStr kind))) (\<lambda>_.
     rbind (goal_text (Some (JStr command))) (\<lambda>_.
     rbind (require (version = 1) (UnsupportedGoalVersion ''unsupported Goal record version'')) (\<lambda>_.
     Inr \<lparr>gr_sequence = sequence, gr_scope_id = scope, gr_goal_id = goal, gr_kind = kind,
       gr_command_id = command, gr_data = data, gr_version = version, gr_extensions = extensions\<rparr>))))))"

record goal_batch =
  gb_id :: string
  gb_goal_id :: string
  gb_operation_id :: string
  gb_revision :: int
  gb_epoch :: int
  gb_intent_sequence :: nat
  gb_command_id :: string
  gb_source :: payload
  gb_run_receipt :: "string option"
  gb_not_submitted :: bool

record goal_state =
  gs_id :: string
  gs_requirements :: "requirement list"
  gs_limit :: int
  gs_metadata :: payload
  gs_revision :: int
  gs_epoch :: int
  gs_status :: string
  gs_reason :: string
  gs_acceptance :: "payload option"

definition new_goal :: "string \<Rightarrow> requirement list \<Rightarrow> int \<Rightarrow> payload \<Rightarrow> goal_state" where
  "new_goal gid reqs limit metadata =
     \<lparr>gs_id = gid, gs_requirements = reqs, gs_limit = limit, gs_metadata = metadata, gs_revision = 1,
      gs_epoch = 1, gs_status = ''active'', gs_reason = ''created'', gs_acceptance = None\<rparr>"

record command_receipt =
  cr_id :: string
  cr_goal_id :: string
  cr_request :: string
  cr_outcome :: string
  cr_details :: payload

record goal_history =
  hi_header :: goal_header
  hi_records :: "goal_record list"
  hi_goals :: "(string \<times> goal_state) list"
  hi_batches :: "goal_batch list"
  hi_commands :: "(string \<times> command_receipt) list"

definition history_sequence :: "goal_history \<Rightarrow> nat" where
  "history_sequence h = length (hi_records h)"

definition history_goal :: "goal_history \<Rightarrow> string \<Rightarrow> goal_error + goal_state" where
  "history_goal h gid = (case map_of (hi_goals h) gid of None \<Rightarrow> Inl (GoalError ''unknown Goal'') | Some g \<Rightarrow> Inr g)"

definition goal_kinds :: "string list" where
  "goal_kinds = [''command_received'', ''command_finished'', ''created'', ''requirements_revised'',
     ''control_changed'', ''replaced'', ''batch_intent'', ''batch_associated'', ''batch_not_submitted'',
     ''acceptance_decided'']"

definition terminal_statuses :: "string list" where
  "terminal_statuses = [''completed'', ''abandoned'', ''failed'', ''superseded'']"

section \<open>The codec\<close>

definition header_fields :: "string list" where
  "header_fields = [''kind'', ''version'', ''scope_id'', ''session_id'', ''policy_id'', ''policy_version'']"

definition record_fields :: "string list" where
  "record_fields = [''version'', ''sequence'', ''scope_id'', ''goal_id'', ''kind'', ''command_id'', ''data'']"

definition encode_header :: "goal_header \<Rightarrow> payload" where
  "encode_header h = dict_merge (gh_extensions h)
     [(''kind'', JStr ''goal_header''), (''version'', JInt (gh_version h)), (''scope_id'', JStr (gh_scope_id h)),
      (''session_id'', JStr (gh_session_id h)), (''policy_id'', JStr (gh_policy_id h)),
      (''policy_version'', JInt (gh_policy_version h))]"

text \<open>\<open>not value.get("required_features", ())\<close>, once \<open>_features\<close> has checked the type.\<close>

definition no_features :: "payload \<Rightarrow> bool" where
  "no_features d \<longleftrightarrow> map_of d ''required_features'' \<in> {None, Some (JList [])}"

definition check_features :: "payload \<Rightarrow> goal_error + unit" where
  "check_features d =
     (case map_of d ''required_features'' of
        None \<Rightarrow> Inr ()
      | Some (JList fs) \<Rightarrow> require (fs = []) (UnsupportedGoalVersion ''unknown required Goal semantics'')
      | Some _ \<Rightarrow> Inl (GoalError ''required_features must be a list''))"

definition decode_header :: "payload \<Rightarrow> goal_error + goal_header" where
  "decode_header d =
     rbind (check_features d) (\<lambda>_.
     rbind (require (map_of d ''kind'' = Some (JStr ''goal_header'') \<and>
              no_features d)
              (UnsupportedGoalVersion ''unknown Goal header semantics'')) (\<lambda>_.
     rbind (goal_text (map_of d ''scope_id'')) (\<lambda>scope.
     rbind (goal_text (map_of d ''session_id'')) (\<lambda>session.
     rbind (goal_text (map_of d ''policy_id'')) (\<lambda>policy.
     rbind (goal_positive (map_of d ''policy_version'')) (\<lambda>policy_version.
     rbind (goal_positive (map_of d ''version'')) (\<lambda>version.
     make_header scope session policy policy_version version
       (filter (\<lambda>(k, v). k \<notin> set header_fields) d))))))))"

definition encode_record :: "goal_record \<Rightarrow> payload" where
  "encode_record r = dict_merge (gr_extensions r)
     [(''version'', JInt (gr_version r)), (''sequence'', JInt (gr_sequence r)), (''scope_id'', JStr (gr_scope_id r)),
      (''goal_id'', JStr (gr_goal_id r)), (''kind'', JStr (gr_kind r)), (''command_id'', JStr (gr_command_id r)),
      (''data'', JObj (gr_data r))]"

text \<open>\<open>value.get("kind") not in KINDS\<close>: a list or an object has no hash.\<close>

definition check_kind :: "payload \<Rightarrow> goal_error + unit" where
  "check_kind d =
     (case map_of d ''kind'' of
        Some (JStr k) \<Rightarrow> require (k \<in> set goal_kinds) (UnsupportedGoalVersion ''unsupported Goal record kind'')
      | Some v \<Rightarrow> Inl (if parsed_hashable v then UnsupportedGoalVersion ''unsupported Goal record kind'' else NotHashable)
      | None \<Rightarrow> Inl (UnsupportedGoalVersion ''unsupported Goal record kind''))"

definition decode_record :: "payload \<Rightarrow> goal_error + goal_record" where
  "decode_record d =
     rbind (check_features d) (\<lambda>_.
     rbind (require (no_features d)
              (UnsupportedGoalVersion ''unsupported Goal required feature'')) (\<lambda>_.
     rbind (check_kind d) (\<lambda>_.
     rbind (goal_positive (map_of d ''sequence'')) (\<lambda>sequence.
     rbind (goal_text (map_of d ''scope_id'')) (\<lambda>scope.
     rbind (goal_text (map_of d ''goal_id'')) (\<lambda>goal.
     rbind (goal_text (map_of d ''kind'')) (\<lambda>kind.
     rbind (goal_text (map_of d ''command_id'')) (\<lambda>command.
     rbind (goal_document (map_of d ''data'')) (\<lambda>data.
     rbind (goal_positive (map_of d ''version'')) (\<lambda>version.
     make_record sequence scope goal kind command data version
       (filter (\<lambda>(k, v). k \<notin> set record_fields) d)))))))))))"

definition basis_data :: "goal_header \<Rightarrow> goal_state \<Rightarrow> nat \<Rightarrow> payload" where
  "basis_data header g sequence =
     [(''scope_id'', JStr (gh_scope_id header)), (''session_id'', JStr (gh_session_id header)),
      (''goal_id'', JStr (gs_id g)), (''revision'', JInt (gs_revision g)), (''epoch'', JInt (gs_epoch g)),
      (''sequence'', JInt (int sequence)), (''policy_id'', JStr (gh_policy_id header)),
      (''policy_version'', JInt (gh_policy_version header))]"

section \<open>The reducer\<close>

record goal_replay =
  q_goals :: "(string \<times> goal_state) list"
  q_commands :: "(string \<times> command_receipt) list"
  q_batches :: "(string \<times> goal_batch) list"
  q_operations :: "string list"
  q_effects :: "(string \<times> string list) list"

definition empty_replay :: goal_replay where
  "empty_replay = \<lparr>q_goals = [], q_commands = [], q_batches = [], q_operations = [], q_effects = []\<rparr>"

definition goal_actions :: "string list" where
  "goal_actions = [''create'', ''advance'', ''revise'', ''pause'', ''resume'', ''abandon'', ''fail'', ''replace'']"

text \<open>The chain of \<open>or\<close>s of \<open>command_received\<close>, up to the member test that may raise.\<close>

definition check_request :: "string \<Rightarrow> string \<Rightarrow> payload \<Rightarrow> goal_error + unit" where
  "check_request gid request parsed =
     (let mismatch = GoalError ''command request identity mismatch'' in
      if map_of parsed ''goal_id'' \<noteq> Some (JStr gid)
         \<or> set (keys parsed) \<noteq> {''action'', ''goal_id'', ''revision'', ''epoch'', ''data''}
         \<or> canonical (JObj parsed) \<noteq> request then Inl mismatch
      else
        (case (map_of parsed ''revision'', map_of parsed ''epoch'', map_of parsed ''action'') of
           (Some (JInt _), Some (JInt _), Some (JStr a)) \<Rightarrow> require (a \<in> set goal_actions) mismatch
         | (Some (JInt _), Some (JInt _), Some v) \<Rightarrow> Inl (if parsed_hashable v then mismatch else NotHashable)
         | _ \<Rightarrow> Inl mismatch))"

definition admit_command :: "goal_record \<Rightarrow> string \<Rightarrow> payload \<Rightarrow> goal_replay \<Rightarrow> goal_error + goal_replay" where
  "admit_command r request parsed q =
     (let cid = gr_command_id r; gid = gr_goal_id r;
          version = (map_of parsed ''revision'', map_of parsed ''epoch'');
          creates = (map_of parsed ''action'' = Some (JStr ''create'')) in
      rbind (check_request gid request parsed) (\<lambda>_.
      rbind (case map_of (q_goals q) gid of
               Some g \<Rightarrow> require (version = (Some (JInt (gs_revision g)), Some (JInt (gs_epoch g))))
                 (GoalError ''command expected version mismatch'')
             | None \<Rightarrow> require creates (GoalError ''command precedes Goal'')) (\<lambda>_.
      rbind (require (creates \<longrightarrow> version = (Some (JInt 0), Some (JInt 0)))
               (GoalError ''create must name the initial Goal version'')) (\<lambda>_.
      Inr (q\<lparr>q_commands := AList.update cid
         \<lparr>cr_id = cid, cr_goal_id = gid, cr_request = request, cr_outcome = ''pending'', cr_details = []\<rparr>
         (q_commands q)\<rparr>)))))"

definition command_received :: "goal_record \<Rightarrow> goal_replay \<Rightarrow> goal_error + goal_replay" where
  "command_received r q =
     rbind (require (map_of (q_commands q) (gr_command_id r) = None)
              (GoalError ''duplicate command admission'')) (\<lambda>_.
     rbind (goal_text (map_of (gr_data r) ''request'')) (\<lambda>request.
     case loads request of
       None \<Rightarrow> Inl NotJson
     | Some (JObj parsed) \<Rightarrow> admit_command r request parsed q
     | Some _ \<Rightarrow> Inl (GoalError ''command request identity mismatch'')))"

text \<open>\<open>json.loads(command.request)[name]\<close>.\<close>

definition request_value :: "command_receipt \<Rightarrow> string \<Rightarrow> json option" where
  "request_value c name = (case loads (cr_request c) of Some (JObj parsed) \<Rightarrow> map_of parsed name | _ \<Rightarrow> None)"

definition allowed_actions :: "string \<Rightarrow> string list" where
  "allowed_actions kind =
     (if kind = ''created'' then [''create'']
      else if kind = ''requirements_revised'' then [''revise'']
      else if kind = ''replaced'' then [''replace'']
      else if kind = ''control_changed'' then [''pause'', ''resume'', ''abandon'', ''fail'', ''advance'']
      else if kind = ''command_finished'' then goal_actions
      else [''advance''])"

definition expected_statuses :: "(string \<times> string) list" where
  "expected_statuses = [(''pause'', ''paused''), (''resume'', ''active''), (''abandon'', ''abandoned''), (''fail'', ''failed'')]"

text \<open>The command that causes the record: pending, of the same Goal, and of a fitting action.\<close>

definition causing_command :: "goal_record \<Rightarrow> goal_replay \<Rightarrow> goal_error + command_receipt" where
  "causing_command r q =
     (let causation = GoalError ''missing, foreign or finished causation command'' in
      case map_of (q_commands q) (gr_command_id r) of
        None \<Rightarrow> Inl causation
      | Some c \<Rightarrow>
          rbind (require (cr_goal_id c = gr_goal_id r \<and> cr_outcome c = ''pending'') causation) (\<lambda>_.
          rbind (require (request_value c ''action'' \<in> Some ` JStr ` set (allowed_actions (gr_kind r)))
                   (GoalError ''record does not match causation command action'')) (\<lambda>_. Inr c)))"

definition note_effect :: "goal_record \<Rightarrow> command_receipt \<Rightarrow> goal_replay \<Rightarrow> goal_error + goal_replay" where
  "note_effect r c q =
     (let seen = (case map_of (q_effects q) (gr_command_id r) of None \<Rightarrow> [] | Some ks \<Rightarrow> ks);
          kind = gr_kind r; d = gr_data r;
          advances = (request_value c ''action'' = Some (JStr ''advance'')) in
      rbind (require (kind \<notin> set seen) (GoalError ''duplicate command effect'')) (\<lambda>_.
      rbind (require
               (\<not> ((kind \<in> {''created'', ''requirements_revised'', ''replaced''}
                    \<or> (kind = ''control_changed'' \<and> \<not> advances))
                   \<and> Some (canonical (JObj d)) \<noteq> map_option canonical (request_value c ''data'')))
               (GoalError ''effect differs from accepted command data'')) (\<lambda>_.
      rbind (if kind = ''control_changed'' then
               rbind (require (map_of d ''status'' = Some (JStr
                        (case request_value c ''action'' of
                           Some (JStr a) \<Rightarrow> (case map_of expected_statuses a of None \<Rightarrow> ''paused'' | Some s \<Rightarrow> s)
                         | _ \<Rightarrow> ''paused'')))
                        (GoalError ''control effect does not match action'')) (\<lambda>_.
               require (\<not> (advances \<and> set (keys d) \<noteq> {''status'', ''reason''}))
                 (GoalError ''advance cannot revise control policy''))
             else Inr ()) (\<lambda>_.
      Inr (q\<lparr>q_effects := AList.update (gr_command_id r) (kind # seen) (q_effects q)\<rparr>)))))"

definition command_finished :: "goal_record \<Rightarrow> command_receipt \<Rightarrow> goal_replay \<Rightarrow> goal_error + goal_replay" where
  "command_finished r c q =
     rbind (require (map_of (gr_data r) ''outcome'' \<noteq> Some (JStr ''pending''))
              (GoalError ''finished command cannot remain pending'')) (\<lambda>_.
     rbind (goal_text (map_of (gr_data r) ''outcome'')) (\<lambda>outcome.
     rbind (goal_document (get_or (gr_data r) ''details'' (JObj []))) (\<lambda>details.
     Inr (q\<lparr>q_commands := AList.update (gr_command_id r) (c\<lparr>cr_outcome := outcome, cr_details := details\<rparr>)
            (q_commands q)\<rparr>))))"

text \<open>\<open>GoalState(gid, requirements(...), positive(...), document(...))\<close> of \<open>created\<close> and \<open>replaced\<close>.\<close>

definition goal_of_data :: "string \<Rightarrow> payload \<Rightarrow> goal_error + goal_state" where
  "goal_of_data gid d =
     rbind (goal_requirements (map_of d ''requirements'')) (\<lambda>reqs.
     rbind (goal_positive (map_of d ''limit'')) (\<lambda>limit.
     rbind (goal_document (get_or d ''metadata'' (JObj []))) (\<lambda>metadata.
     Inr (new_goal gid reqs limit metadata))))"

definition put_goal :: "string \<Rightarrow> goal_state \<Rightarrow> goal_replay \<Rightarrow> goal_replay" where
  "put_goal gid g q = q\<lparr>q_goals := AList.update gid g (q_goals q)\<rparr>"

definition put_batch :: "string \<Rightarrow> goal_batch \<Rightarrow> goal_replay \<Rightarrow> goal_replay" where
  "put_batch bid b q = q\<lparr>q_batches := AList.update bid b (q_batches q)\<rparr>"

definition goal_created :: "goal_record \<Rightarrow> goal_replay \<Rightarrow> goal_error + goal_replay" where
  "goal_created r q =
     rbind (require (map_of (q_goals q) (gr_goal_id r) = None) (GoalError ''Goal already exists'')) (\<lambda>_.
     rbind (goal_of_data (gr_goal_id r) (gr_data r)) (\<lambda>g. Inr (put_goal (gr_goal_id r) g q)))"

definition requirements_revised :: "goal_record \<Rightarrow> goal_state \<Rightarrow> goal_replay \<Rightarrow> goal_error + goal_replay" where
  "requirements_revised r g q =
     rbind (require (gs_status g \<notin> {''abandoned'', ''failed'', ''superseded''})
              (GoalError ''cannot revise this terminal Goal'')) (\<lambda>_.
     rbind (goal_requirements (map_of (gr_data r) ''requirements'')) (\<lambda>reqs.
     rbind (goal_text (map_of (gr_data r) ''reason'')) (\<lambda>reason.
     Inr (put_goal (gr_goal_id r)
       (g\<lparr>gs_requirements := reqs, gs_revision := gs_revision g + 1, gs_epoch := gs_epoch g + 1,
          gs_status := (if gs_status g = ''paused'' then ''paused'' else ''active''),
          gs_reason := reason, gs_acceptance := None\<rparr>) q))))"

definition control_changed :: "goal_record \<Rightarrow> goal_state \<Rightarrow> goal_replay \<Rightarrow> goal_error + goal_replay" where
  "control_changed r g q =
     rbind (goal_text (map_of (gr_data r) ''status'')) (\<lambda>status.
     rbind (require
              (\<not> (status \<notin> {''active'', ''paused'', ''abandoned'', ''failed''}
                  \<or> gs_status g \<in> set terminal_statuses
                  \<or> (status = ''active'' \<and> gs_status g \<noteq> ''paused'')))
              (GoalError ''invalid Goal control transition'')) (\<lambda>_.
     rbind (goal_text (map_of (gr_data r) ''reason'')) (\<lambda>reason.
     rbind (goal_positive (get_or (gr_data r) ''limit'' (JInt (gs_limit g)))) (\<lambda>limit.
     Inr (put_goal (gr_goal_id r)
       (g\<lparr>gs_status := status, gs_reason := reason, gs_epoch := gs_epoch g + 1, gs_limit := limit\<rparr>) q)))))"

definition goal_replaced :: "goal_record \<Rightarrow> goal_state \<Rightarrow> goal_replay \<Rightarrow> goal_error + goal_replay" where
  "goal_replaced r g q =
     rbind (goal_text (map_of (gr_data r) ''new_goal_id'')) (\<lambda>new_id.
     rbind (require (\<not> (gs_status g \<in> set terminal_statuses \<or> map_of (q_goals q) new_id \<noteq> None))
              (GoalError ''invalid Goal replacement'')) (\<lambda>_.
     rbind (goal_text (map_of (gr_data r) ''reason'')) (\<lambda>reason.
     rbind (goal_of_data new_id (gr_data r)) (\<lambda>new.
     Inr (put_goal new_id new
       (put_goal (gr_goal_id r)
          (g\<lparr>gs_status := ''superseded'', gs_epoch := gs_epoch g + 1, gs_reason := reason\<rparr>) q))))))"

definition goal_batch_count :: "string \<Rightarrow> (string \<times> goal_batch) list \<Rightarrow> nat" where
  "goal_batch_count gid bs = length (filter (\<lambda>(_, b). gb_goal_id b = gid) bs)"

definition batch_intent :: "goal_header \<Rightarrow> nat \<Rightarrow> goal_record \<Rightarrow> goal_state \<Rightarrow> goal_replay \<Rightarrow> goal_error + goal_replay" where
  "batch_intent header sequence r g q =
     (let d = gr_data r; gid = gr_goal_id r; cid = gr_command_id r in
      rbind (goal_text (map_of d ''batch_id'')) (\<lambda>bid.
      rbind (goal_text (map_of d ''operation_id'')) (\<lambda>operation.
      rbind (goal_document (map_of d ''basis'')) (\<lambda>basis.
      rbind (require
               (\<not> (gs_status g \<noteq> ''active''
                   \<or> map_of (q_batches q) bid \<noteq> None
                   \<or> operation \<in> set (q_operations q)
                   \<or> int (goal_batch_count gid (q_batches q)) \<ge> gs_limit g
                   \<or> list_ex (\<lambda>(_, b). gb_command_id b = cid) (q_batches q)
                   \<or> canonical (JObj basis) \<noteq> canonical (JObj (basis_data header g (sequence - 1)))))
               (GoalError ''invalid batch intent or stale basis'')) (\<lambda>_.
      rbind (goal_document (map_of d ''source'')) (\<lambda>source.
      rbind (require (source \<noteq> []) (GoalError ''batch requires a frozen source snapshot'')) (\<lambda>_.
      Inr (put_batch bid
             \<lparr>gb_id = bid, gb_goal_id = gid, gb_operation_id = operation, gb_revision = gs_revision g,
              gb_epoch = gs_epoch g, gb_intent_sequence = sequence, gb_command_id = cid, gb_source = source,
              gb_run_receipt = None, gb_not_submitted = False\<rparr>
             (q\<lparr>q_operations := operation # q_operations q\<rparr>)))))))))"

definition close_batch :: "goal_record \<Rightarrow> string \<Rightarrow> goal_batch \<Rightarrow> goal_replay \<Rightarrow> goal_error + goal_replay" where
  "close_batch r bid b q =
     rbind (require
              (\<not> (gb_goal_id b \<noteq> gr_goal_id r \<or> gb_command_id b \<noteq> gr_command_id r
                  \<or> gb_run_receipt b \<noteq> None \<or> gb_not_submitted b
                  \<or> map_of (gr_data r) ''operation_id'' \<noteq> Some (JStr (gb_operation_id b))))
              (GoalError ''invalid or contradictory batch closure'')) (\<lambda>_.
     if gr_kind r = ''batch_associated'' then
       rbind (goal_text (map_of (gr_data r) ''run_id'')) (\<lambda>run_id.
       Inr (put_batch bid (b\<lparr>gb_run_receipt := Some run_id\<rparr>) q))
     else Inr (put_batch bid (b\<lparr>gb_not_submitted := True\<rparr>) q))"

definition batch_closed :: "goal_record \<Rightarrow> goal_replay \<Rightarrow> goal_error + goal_replay" where
  "batch_closed r q =
     rbind (goal_text (map_of (gr_data r) ''batch_id'')) (\<lambda>bid.
     case map_of (q_batches q) bid of
       None \<Rightarrow> Inl (GoalError ''invalid or contradictory batch closure'')
     | Some b \<Rightarrow> close_batch r bid b q)"

definition cites_batch :: "string \<Rightarrow> goal_state \<Rightarrow> json \<Rightarrow> goal_batch \<Rightarrow> bool" where
  "cites_batch gid g operation b \<longleftrightarrow> operation = JStr (gb_operation_id b) \<and> gb_goal_id b = gid
     \<and> gb_revision b = gs_revision g \<and> gb_epoch b = gs_epoch g \<and> gb_run_receipt b \<noteq> None"

text \<open>\<open>canonical(d.get("basis"))\<close>: a missing basis is printed as \<open>null\<close>.\<close>

definition get_none :: "payload \<Rightarrow> string \<Rightarrow> json" where
  "get_none d k = (case map_of d k of None \<Rightarrow> JNull | Some v \<Rightarrow> v)"

definition acceptance_decided ::
  "goal_header \<Rightarrow> nat \<Rightarrow> goal_record \<Rightarrow> goal_state \<Rightarrow> goal_replay \<Rightarrow> goal_error + goal_replay" where
  "acceptance_decided header sequence r g q =
     (let d = gr_data r; gid = gr_goal_id r; invalid = GoalError ''invalid completion basis or proof'' in
      if gs_status g \<noteq> ''active''
         \<or> canonical (get_none d ''basis'') \<noteq> canonical (JObj (basis_data header g (sequence - 1)))
      then Inl invalid
      else
        (case map_of d ''coverage'' of
           Some (JList coverage) \<Rightarrow>
             if \<not> list_all frozen_hashable coverage then Inl NotHashable
             else if set coverage \<noteq> JStr ` rq_id ` set (gs_requirements g)
                     \<or> length coverage \<noteq> length (gs_requirements g) then Inl invalid
             else
               rbind (goal_document (map_of d ''proof'')) (\<lambda>p.
               if p = [] then Inl invalid
               else
                 (case map_of d ''operations'' of
                    Some (JList required) \<Rightarrow>
                      if required = [] then Inl invalid
                      else
                        rbind (require (list_all (\<lambda>operation. list_ex (\<lambda>(_, b). cites_batch gid g operation b)
                                         (q_batches q)) required)
                                 (GoalError ''completion cites unknown or old operation'')) (\<lambda>_.
                        Inr (put_goal gid
                          (g\<lparr>gs_status := ''completed'', gs_reason := ''requirements_satisfied'',
                             gs_acceptance := Some d\<rparr>) q))
                  | _ \<Rightarrow> Inl invalid))
         | _ \<Rightarrow> Inl invalid))"

text \<open>The records that change an existing Goal.\<close>

definition goal_changed ::
  "goal_header \<Rightarrow> nat \<Rightarrow> goal_record \<Rightarrow> goal_replay \<Rightarrow> goal_error + goal_replay" where
  "goal_changed header sequence r q =
     (case map_of (q_goals q) (gr_goal_id r) of
        None \<Rightarrow> Inl (GoalError ''record precedes Goal'')
      | Some g \<Rightarrow>
          if gr_kind r = ''requirements_revised'' then requirements_revised r g q
          else if gr_kind r = ''control_changed'' then control_changed r g q
          else if gr_kind r = ''replaced'' then goal_replaced r g q
          else if gr_kind r = ''batch_intent'' then batch_intent header sequence r g q
          else if gr_kind r \<in> {''batch_associated'', ''batch_not_submitted''} then batch_closed r q
          else if gr_kind r = ''acceptance_decided'' then acceptance_decided header sequence r g q
          else Inl (UnsupportedGoalVersion ''unknown Goal semantics''))"

definition live_goals :: "(string \<times> goal_state) list \<Rightarrow> nat" where
  "live_goals gs = length (filter (\<lambda>(_, g). gs_status g \<notin> set terminal_statuses) gs)"

text \<open>The body of the loop, on a decoded record.\<close>

definition goal_apply :: "goal_header \<Rightarrow> nat \<Rightarrow> goal_record \<Rightarrow> goal_replay \<Rightarrow> goal_error + goal_replay" where
  "goal_apply header sequence r q =
     rbind (require (gr_sequence r = int sequence \<and> gr_scope_id r = gh_scope_id header)
              (GoalError ''record sequence or scope mismatch'')) (\<lambda>_.
     if gr_kind r = ''command_received'' then command_received r q
     else
       rbind (causing_command r q) (\<lambda>c.
       if gr_kind r = ''command_finished'' then command_finished r c q
       else
         rbind (note_effect r c q) (\<lambda>q.
         rbind (if gr_kind r = ''created'' then goal_created r q else goal_changed header sequence r q) (\<lambda>q.
         rbind (require (live_goals (q_goals q) \<le> 1) (GoalError ''scope already has an active Goal'')) (\<lambda>_.
         Inr q)))))"

definition goal_step :: "goal_header \<Rightarrow> nat \<times> goal_replay \<Rightarrow> goal_record \<Rightarrow> goal_error + nat \<times> goal_replay" where
  "goal_step header = (\<lambda>(sequence, q) raw.
     rbind (decode_record (encode_record raw)) (\<lambda>r.
     rbind (goal_apply header sequence r q) (\<lambda>q'. Inr (sequence + 1, q'))))"

definition replay_goal :: "goal_header \<Rightarrow> goal_record list \<Rightarrow> goal_error + goal_history" where
  "replay_goal header records =
     rbind (rfold (goal_step header) (1, empty_replay) records) (\<lambda>(_, q).
     Inr \<lparr>hi_header = header, hi_records = records, hi_goals = q_goals q,
       hi_batches = map snd (q_batches q), hi_commands = q_commands q\<rparr>)"

section \<open>Round trips\<close>

definition header_ok :: "goal_header \<Rightarrow> bool" where
  "header_ok h \<longleftrightarrow> not_blank (gh_scope_id h) \<and> not_blank (gh_session_id h) \<and> not_blank (gh_policy_id h)
     \<and> 0 < gh_policy_version h \<and> gh_version h = 1 \<and> json_ok (JObj (gh_extensions h))
     \<and> no_features (gh_extensions h)"

definition record_ok :: "goal_record \<Rightarrow> bool" where
  "record_ok r \<longleftrightarrow> 0 < gr_sequence r \<and> not_blank (gr_scope_id r) \<and> not_blank (gr_goal_id r)
     \<and> gr_kind r \<in> set goal_kinds \<and> not_blank (gr_command_id r) \<and> gr_version r = 1
     \<and> json_ok (JObj (gr_data r)) \<and> json_ok (JObj (gr_extensions r))
     \<and> no_features (gr_extensions r)"

text \<open>What is read back: the extensions lose the keys that the codec writes.\<close>

definition stored_record :: "goal_record \<Rightarrow> goal_record" where
  "stored_record r = r\<lparr>gr_extensions := filter (\<lambda>(k, v). k \<notin> set record_fields) (gr_extensions r)\<rparr>"

definition stored_header :: "goal_header \<Rightarrow> goal_header" where
  "stored_header h = h\<lparr>gh_extensions := filter (\<lambda>(k, v). k \<notin> set header_fields) (gh_extensions h)\<rparr>"

lemma make_record_Inr_iff: "make_record s sc g k c d v x = Inr r \<longleftrightarrow>
    0 < s \<and> not_blank sc \<and> not_blank g \<and> not_blank k \<and> not_blank c \<and> v = 1 \<and>
    r = \<lparr>gr_sequence = s, gr_scope_id = sc, gr_goal_id = g, gr_kind = k, gr_command_id = c, gr_data = d,
      gr_version = v, gr_extensions = x\<rparr>"
  by (auto simp: make_record_def rbind_Inr_iff)

lemma goal_kinds_not_blank: "k \<in> set goal_kinds \<Longrightarrow> not_blank k"
  by (auto simp: goal_kinds_def not_blank_def py_space_def code_def)

text \<open>Writing the fields over the extensions leaves the other keys where they are.\<close>

lemma filter_update: "k \<in> F \<Longrightarrow> filter (\<lambda>(k, v). k \<notin> F) (AList.update k v d) = filter (\<lambda>(k, v). k \<notin> F) d"
  by (induction d) auto

lemma filter_merge: "set (keys e) \<subseteq> F \<Longrightarrow> filter (\<lambda>(k, v). k \<notin> F) (dict_merge d e) = filter (\<lambda>(k, v). k \<notin> F) d"
  by (induction e arbitrary: d) (auto simp: dict_merge_def filter_update)

lemma map_of_filter_keys: "map_of (filter (\<lambda>(k, v). k \<notin> F) d) k = (if k \<in> F then None else map_of d k)"
  by (induction d) auto

lemma no_features_filter: "no_features d \<Longrightarrow> no_features (filter (\<lambda>(k, v). k \<notin> F) d)"
  by (simp add: no_features_def map_of_filter_keys)

lemma no_features_encode [simp]:
  "no_features (encode_record r) \<longleftrightarrow> no_features (gr_extensions r)"
  "no_features (encode_header h) \<longleftrightarrow> no_features (gh_extensions h)"
  by (simp_all add: no_features_def encode_record_def encode_header_def map_of_dict_merge map_add_def)

lemma encode_record_get:
  "map_of (encode_record r) ''version'' = Some (JInt (gr_version r))"
  "map_of (encode_record r) ''sequence'' = Some (JInt (gr_sequence r))"
  "map_of (encode_record r) ''scope_id'' = Some (JStr (gr_scope_id r))"
  "map_of (encode_record r) ''goal_id'' = Some (JStr (gr_goal_id r))"
  "map_of (encode_record r) ''kind'' = Some (JStr (gr_kind r))"
  "map_of (encode_record r) ''command_id'' = Some (JStr (gr_command_id r))"
  "map_of (encode_record r) ''data'' = Some (JObj (gr_data r))"
  by (simp_all add: encode_record_def map_of_dict_merge map_add_def)

lemma encode_filter:
  "filter (\<lambda>(k, v). k \<notin> set record_fields) (encode_record r) =
     filter (\<lambda>(k, v). k \<notin> set record_fields) (gr_extensions r)"
  "filter (\<lambda>(k, v). k \<notin> set header_fields) (encode_header h) =
     filter (\<lambda>(k, v). k \<notin> set header_fields) (gh_extensions h)"
  unfolding encode_record_def encode_header_def
  by (rule filter_merge; simp add: record_fields_def header_fields_def)+

lemma encode_header_get:
  "map_of (encode_header h) ''version'' = Some (JInt (gh_version h))"
  "map_of (encode_header h) ''kind'' = Some (JStr ''goal_header'')"
  "map_of (encode_header h) ''scope_id'' = Some (JStr (gh_scope_id h))"
  "map_of (encode_header h) ''session_id'' = Some (JStr (gh_session_id h))"
  "map_of (encode_header h) ''policy_id'' = Some (JStr (gh_policy_id h))"
  "map_of (encode_header h) ''policy_version'' = Some (JInt (gh_policy_version h))"
  by (simp_all add: encode_header_def map_of_dict_merge map_add_def)

lemma check_features_Inr: "check_features d = Inr u \<longleftrightarrow> no_features d"
  by (auto simp: check_features_def no_features_def split: option.splits json.splits)

lemma check_features_ok: "no_features d \<Longrightarrow> check_features d = Inr ()"
  by (simp add: check_features_Inr)

text \<open>Decoding an encoded record succeeds for well-formed records only, and gives the stored one.\<close>

lemma decode_encode_iff:
  "decode_record (encode_record raw) = Inr r \<longleftrightarrow>
     no_features (gr_extensions raw) \<and>
     gr_kind raw \<in> set goal_kinds \<and> 0 < gr_sequence raw \<and> not_blank (gr_scope_id raw) \<and>
     not_blank (gr_goal_id raw) \<and> not_blank (gr_command_id raw) \<and> gr_version raw = 1 \<and> r = stored_record raw"
proof -
  have stored: "stored_record raw = \<lparr>gr_sequence = gr_sequence raw, gr_scope_id = gr_scope_id raw,
      gr_goal_id = gr_goal_id raw, gr_kind = gr_kind raw, gr_command_id = gr_command_id raw,
      gr_data = gr_data raw, gr_version = gr_version raw,
      gr_extensions = filter (\<lambda>(k, v). k \<notin> set record_fields) (gr_extensions raw)\<rparr>"
    by (simp add: stored_record_def)
  show ?thesis
    unfolding stored
    by (auto simp: decode_record_def rbind_Inr_iff encode_record_get encode_filter check_features_Inr check_kind_def
        make_record_Inr_iff goal_kinds_not_blank)
qed

lemma record_roundtrip: "record_ok r \<Longrightarrow> decode_record (encode_record r) = Inr (stored_record r)"
  by (simp add: decode_encode_iff record_ok_def)

lemma stored_record_stored [simp]: "stored_record (stored_record r) = stored_record r"
  by (simp add: stored_record_def)

lemma json_ok_filter: "json_ok (JObj d) \<Longrightarrow> json_ok (JObj (filter (\<lambda>(k, v). k \<notin> F) d))"
  by (auto simp: list_all_iff intro: distinct_map_filterI)

lemma record_ok_stored: "record_ok r \<Longrightarrow> record_ok (stored_record r)"
  unfolding record_ok_def stored_record_def
  using json_ok_filter [of "gr_extensions r" "set record_fields"]
  by (simp add: no_features_filter del: json_ok.simps)

lemma json_ok_merge:
  assumes "json_ok (JObj d)" and "json_ok (JObj e)"
  shows "json_ok (JObj (dict_merge d e))"
proof -
  have dist: "distinct (keys (dict_merge d e))" using assms(1) by (simp add: distinct_keys_dict_merge)
  have "json_ok v" if "(k, v) \<in> set (dict_merge d e)" for k v
  proof -
    have "map_of (dict_merge d e) k = Some v" using that dist by (simp add: map_of_eq_Some_iff)
    then have "map_of (rev e) k = Some v \<or> map_of d k = Some v"
      by (auto simp: map_of_dict_merge map_add_Some_iff)
    then have "(k, v) \<in> set e \<or> (k, v) \<in> set d" by (auto dest: map_of_SomeD)
    then show ?thesis using assms by (auto simp: list_all_iff)
  qed
  with dist show ?thesis by (auto simp: list_all_iff)
qed

lemma json_ok_encode_record: "record_ok r \<Longrightarrow> json_ok (JObj (encode_record r))"
  unfolding encode_record_def by (rule json_ok_merge) (simp_all add: record_ok_def)

lemma json_ok_encode_header: "header_ok h \<Longrightarrow> json_ok (JObj (encode_header h))"
  unfolding encode_header_def by (rule json_ok_merge) (simp_all add: header_ok_def)

lemma header_roundtrip:
  assumes "header_ok h"
  shows "decode_header (encode_header h) = Inr (stored_header h)"
  using assms
  by (simp add: decode_header_def encode_header_get encode_filter check_features_ok header_ok_def make_header_def stored_header_def)

section \<open>The journal's codec\<close>

definition goal_codec_error :: "goal_error + 'a \<Rightarrow> codec_error + 'a" where
  "goal_codec_error m =
     (case m of
        Inr x \<Rightarrow> Inr x
      | Inl (GoalError s) \<Rightarrow> Inl (OtherError s)
      | Inl (UnsupportedGoalVersion s) \<Rightarrow> Inl (OtherError s)
      | Inl NotHashable \<Rightarrow> Inl (OtherError ''unhashable type'')
      | Inl NotJson \<Rightarrow> Inl (OtherError ''not JSON''))"

abbreviation goal_decoder :: "payload \<Rightarrow> codec_error + goal_record" where
  "goal_decoder d \<equiv> goal_codec_error (decode_record d)"

abbreviation goal_header_decoder :: "payload \<Rightarrow> codec_error + goal_header" where
  "goal_header_decoder d \<equiv> goal_codec_error (decode_header d)"

lemma stored_default [simp]: "stored_mapping default_format d = d"
  by (simp add: stored_mapping_def default_format_def)

interpretation goal: record_codec default_format encode_record goal_decoder stored_record record_ok
proof
  show "journal_format_ok default_format" by (rule journal_formats_ok)
qed (simp_all add: json_ok_encode_record record_roundtrip goal_codec_error_def del: json_ok.simps)

end
