(* ===== verification/Goal_History.thy ===== *)
theory Goal_History
  imports Goal_Records
begin

text \<open>
  What a replayed Goal history promises (\<open>replay\<close> of \<open>harnesswork/goal/records.py\<close>): the life of a
  Goal, of its batches and of its commands as three abstract transition relations, the reducer as a
  refinement of them, and the invariants of the replayed state.
\<close>

section \<open>The abstract life of a Goal\<close>

definition closed_statuses :: "string list" where
  "closed_statuses = [''abandoned'', ''failed'', ''superseded'']"

definition fresh_goal :: "string \<Rightarrow> goal_state \<Rightarrow> bool" where
  "fresh_goal gid g \<longleftrightarrow> (\<exists>reqs limit metadata. reqs \<noteq> [] \<and> distinct (map rq_id reqs) \<and> 1 \<le> limit \<and>
     g = new_goal gid reqs limit metadata)"

text \<open>The operation belongs to an associated batch of this revision and epoch of the Goal.\<close>

definition cited :: "(string \<times> goal_batch) list \<Rightarrow> string \<Rightarrow> goal_state \<Rightarrow> json \<Rightarrow> bool" where
  "cited bs gid g operation \<longleftrightarrow> (\<exists>x \<in> set bs. cites_batch gid g operation (snd x))"

inductive goal_moves :: "(string \<times> goal_batch) list \<Rightarrow> string \<Rightarrow> goal_state \<Rightarrow> goal_state \<Rightarrow> bool"
  for bs gid where
  revise: "gs_status g \<notin> set closed_statuses \<Longrightarrow> reqs \<noteq> [] \<Longrightarrow> distinct (map rq_id reqs) \<Longrightarrow>
    goal_moves bs gid g (g\<lparr>gs_requirements := reqs, gs_revision := gs_revision g + 1,
      gs_epoch := gs_epoch g + 1, gs_status := (if gs_status g = ''paused'' then ''paused'' else ''active''),
      gs_reason := reason, gs_acceptance := None\<rparr>)"
| control: "gs_status g \<notin> set terminal_statuses \<Longrightarrow>
    status \<in> {''active'', ''paused'', ''abandoned'', ''failed''} \<Longrightarrow>
    status = ''active'' \<longrightarrow> gs_status g = ''paused'' \<Longrightarrow> 1 \<le> limit \<Longrightarrow>
    goal_moves bs gid g (g\<lparr>gs_status := status, gs_reason := reason, gs_epoch := gs_epoch g + 1, gs_limit := limit\<rparr>)"
| supersede: "gs_status g \<notin> set terminal_statuses \<Longrightarrow>
    goal_moves bs gid g (g\<lparr>gs_status := ''superseded'', gs_epoch := gs_epoch g + 1, gs_reason := reason\<rparr>)"
| complete: "gs_status g = ''active'' \<Longrightarrow>
    map_of d ''coverage'' = Some (JList coverage) \<Longrightarrow>
    set coverage = JStr ` rq_id ` set (gs_requirements g) \<Longrightarrow>
    map_of d ''operations'' = Some (JList required) \<Longrightarrow> required \<noteq> [] \<Longrightarrow>
    \<forall>operation \<in> set required. cited bs gid g operation \<Longrightarrow>
    goal_moves bs gid g (g\<lparr>gs_status := ''completed'', gs_reason := ''requirements_satisfied'',
      gs_acceptance := Some d\<rparr>)"

inductive batch_moves :: "goal_batch \<Rightarrow> goal_batch \<Rightarrow> bool" where
  associate: "gb_run_receipt b = None \<Longrightarrow> \<not> gb_not_submitted b \<Longrightarrow>
    batch_moves b (b\<lparr>gb_run_receipt := Some run\<rparr>)"
| not_submitted: "gb_run_receipt b = None \<Longrightarrow> \<not> gb_not_submitted b \<Longrightarrow>
    batch_moves b (b\<lparr>gb_not_submitted := True\<rparr>)"

inductive command_moves :: "command_receipt \<Rightarrow> command_receipt \<Rightarrow> bool" where
  finish: "cr_outcome c = ''pending'' \<Longrightarrow> outcome \<noteq> ''pending'' \<Longrightarrow>
    command_moves c (c\<lparr>cr_outcome := outcome, cr_details := details\<rparr>)"

definition fresh_command :: "string \<Rightarrow> command_receipt \<Rightarrow> bool" where
  "fresh_command cid c \<longleftrightarrow> cr_id c = cid \<and> cr_outcome c = ''pending'' \<and> cr_details c = []"

text \<open>A new batch: of an active Goal below its limit, with an operation and a command of its own.\<close>

definition fresh_batch :: "goal_replay \<Rightarrow> string \<Rightarrow> goal_batch \<Rightarrow> bool" where
  "fresh_batch q bid b \<longleftrightarrow> gb_id b = bid \<and> gb_run_receipt b = None \<and> \<not> gb_not_submitted b \<and>
     gb_operation_id b \<notin> set (q_operations q) \<and> gb_source b \<noteq> [] \<and>
     (\<forall>bid' b'. map_of (q_batches q) bid' = Some b' \<longrightarrow> gb_command_id b' \<noteq> gb_command_id b) \<and>
     (\<exists>g. map_of (q_goals q) (gb_goal_id b) = Some g \<and> gs_status g = ''active'' \<and>
        gb_revision b = gs_revision g \<and> gb_epoch b = gs_epoch g \<and>
        int (goal_batch_count (gb_goal_id b) (q_batches q)) < gs_limit g)"

text \<open>One dictionary follows another: old values move as the relation says, new ones are fresh.\<close>

definition dict_follows :: "(string \<Rightarrow> 'v \<Rightarrow> 'v \<Rightarrow> bool) \<Rightarrow> (string \<Rightarrow> 'v \<Rightarrow> bool) \<Rightarrow>
    (string \<times> 'v) list \<Rightarrow> (string \<times> 'v) list \<Rightarrow> bool" where
  "dict_follows moves fresh d d' \<longleftrightarrow>
     (\<forall>k. case map_of d k of
        Some v \<Rightarrow> (\<exists>v'. map_of d' k = Some v' \<and> (v' = v \<or> moves k v v'))
      | None \<Rightarrow> (\<forall>v'. map_of d' k = Some v' \<longrightarrow> fresh k v'))"

text \<open>The dictionaries have one entry per key, and the operations of the batches are recorded.\<close>

definition replay_ok :: "goal_replay \<Rightarrow> bool" where
  "replay_ok q \<longleftrightarrow> distinct (keys (q_goals q)) \<and> distinct (keys (q_batches q)) \<and> distinct (keys (q_commands q)) \<and>
     (\<forall>bid b. map_of (q_batches q) bid = Some b \<longrightarrow> gb_operation_id b \<in> set (q_operations q))"

definition goal_transition :: "goal_replay \<Rightarrow> goal_replay \<Rightarrow> bool" where
  "goal_transition q q' \<longleftrightarrow>
     dict_follows (goal_moves (q_batches q)) fresh_goal (q_goals q) (q_goals q') \<and>
     dict_follows (\<lambda>_. batch_moves) (fresh_batch q) (q_batches q) (q_batches q') \<and>
     dict_follows (\<lambda>_. command_moves) fresh_command (q_commands q) (q_commands q') \<and>
     (replay_ok q \<longrightarrow> replay_ok q') \<and>
     (\<exists>bid. \<forall>k. k \<noteq> bid \<longrightarrow> map_of (q_batches q') k = map_of (q_batches q) k)"

lemma dict_follows_refl [simp]: "dict_follows moves fresh d d"
  by (simp add: dict_follows_def split: option.split)

lemma dict_follows_update:
  assumes "case map_of d k of Some w \<Rightarrow> moves k w v | None \<Rightarrow> fresh k v"
  shows "dict_follows moves fresh d (AList.update k v d)"
  using assms by (auto simp: dict_follows_def split: option.split)

lemma dict_followsD: "dict_follows moves fresh d d' \<Longrightarrow> map_of d k = Some v \<Longrightarrow>
    \<exists>v'. map_of d' k = Some v' \<and> (v' = v \<or> moves k v v')"
  by (auto simp: dict_follows_def split: option.splits dest: spec [of _ k])

lemma dict_follows_new: "dict_follows moves fresh d d' \<Longrightarrow> map_of d k = None \<Longrightarrow> map_of d' k = Some v' \<Longrightarrow> fresh k v'"
  unfolding dict_follows_def by (drule spec [of _ k]) simp

lemma dict_followsE:
  assumes "dict_follows moves fresh d d'" and "map_of d' k = Some v'"
  obtains (old) v where "map_of d k = Some v" and "v' = v \<or> moves k v v'"
  | (new) "map_of d k = None" and "fresh k v'"
proof (cases "map_of d k")
  case None
  from None dict_follows_new [OF assms(1) None assms(2)] show ?thesis by (rule new)
next
  case (Some v)
  with dict_followsD [OF assms(1) Some] assms(2) show ?thesis by (auto intro: old)
qed

section \<open>The cases of the reducer\<close>

lemma goal_requirements_Inr: "goal_requirements v = Inr reqs \<Longrightarrow> reqs \<noteq> [] \<and> distinct (map rq_id reqs)"
  by (cases v rule: goal_requirements.cases) (auto simp: rbind_Inr_iff simp del: goal_requirement.simps)

lemma goal_positive_Inr: "goal_positive v = Inr i \<Longrightarrow> 1 \<le> i"
  by (cases v rule: goal_positive.cases) (auto split: if_splits)

lemma goal_of_data_Inr: "goal_of_data gid d = Inr g \<Longrightarrow> fresh_goal gid g"
  using goal_requirements_Inr goal_positive_Inr
  by (fastforce simp: goal_of_data_def fresh_goal_def rbind_Inr_iff)

lemma note_effect_Inr: "note_effect r c q = Inr q' \<Longrightarrow> \<exists>eff. q' = q\<lparr>q_effects := eff\<rparr>"
  by (auto simp: note_effect_def Let_def rbind_Inr_iff)

lemma causing_command_Inr: "causing_command r q = Inr c \<Longrightarrow>
    map_of (q_commands q) (gr_command_id r) = Some c \<and> cr_outcome c = ''pending''"
  by (auto simp: causing_command_def Let_def rbind_Inr_iff split: option.splits)

lemma command_received_Inr:
  assumes "command_received r q = Inr q'"
  shows "\<exists>c. map_of (q_commands q) (gr_command_id r) = None \<and> fresh_command (gr_command_id r) c \<and>
    q' = q\<lparr>q_commands := AList.update (gr_command_id r) c (q_commands q)\<rparr>"
proof -
  obtain request where fresh: "map_of (q_commands q) (gr_command_id r) = None"
    and rest: "(case loads request of None \<Rightarrow> Inl NotJson | Some (JObj parsed) \<Rightarrow> admit_command r request parsed q
      | Some _ \<Rightarrow> Inl (GoalError ''command request identity mismatch'')) = Inr q'"
    using assms unfolding command_received_def rbind_Inr_iff require_simps by blast
  then obtain parsed where "admit_command r request parsed q = Inr q'"
    by (cases "loads request" rule: nested_mapping.cases) auto
  then have "q' = q\<lparr>q_commands := AList.update (gr_command_id r)
      \<lparr>cr_id = gr_command_id r, cr_goal_id = gr_goal_id r, cr_request = request,
       cr_outcome = ''pending'', cr_details = []\<rparr> (q_commands q)\<rparr>"
    by (simp add: admit_command_def Let_def rbind_Inr_iff)
  with fresh show ?thesis by (intro exI conjI) (assumption, simp_all add: fresh_command_def)
qed

lemma command_finished_Inr:
  assumes "command_finished r c q = Inr q'" and "cr_outcome c = ''pending''"
  shows "\<exists>c'. command_moves c c' \<and> q' = q\<lparr>q_commands := AList.update (gr_command_id r) c' (q_commands q)\<rparr>"
proof -
  obtain outcome details where "map_of (gr_data r) ''outcome'' \<noteq> Some (JStr ''pending'')"
    and "goal_text (map_of (gr_data r) ''outcome'') = Inr outcome"
    and q': "q' = q\<lparr>q_commands := AList.update (gr_command_id r)
      (c\<lparr>cr_outcome := outcome, cr_details := details\<rparr>) (q_commands q)\<rparr>"
    using assms(1) by (auto simp: command_finished_def rbind_Inr_iff)
  then have "outcome \<noteq> ''pending''"
    by (cases "map_of (gr_data r) ''outcome''" rule: goal_text.cases) (auto split: if_splits)
  then show ?thesis using q' command_moves.finish [OF assms(2)] by blast
qed

lemma requirements_revised_Inr:
  "requirements_revised r g q = Inr q' \<Longrightarrow> \<exists>g'. goal_moves bs gid g g' \<and> q' = put_goal (gr_goal_id r) g' q"
  using goal_requirements_Inr
  by (fastforce simp: requirements_revised_def rbind_Inr_iff closed_statuses_def intro: goal_moves.revise)

lemma control_changed_Inr:
  assumes "control_changed r g q = Inr q'"
  shows "\<exists>g'. goal_moves bs gid g g' \<and> q' = put_goal (gr_goal_id r) g' q"
proof -
  obtain status reason limit where "status \<in> {''active'', ''paused'', ''abandoned'', ''failed''}"
    and "gs_status g \<notin> set terminal_statuses" and "status = ''active'' \<longrightarrow> gs_status g = ''paused''"
    and limit: "goal_positive (get_or (gr_data r) ''limit'' (JInt (gs_limit g))) = Inr limit"
    and q': "q' = put_goal (gr_goal_id r)
      (g\<lparr>gs_status := status, gs_reason := reason, gs_epoch := gs_epoch g + 1, gs_limit := limit\<rparr>) q"
    using assms unfolding control_changed_def rbind_Inr_iff require_simps de_Morgan_disj not_not by blast
  from goal_moves.control [OF this(2,1,3) goal_positive_Inr [OF limit]] q' show ?thesis by blast
qed

lemma goal_replaced_Inr:
  "goal_replaced r g q = Inr q' \<Longrightarrow> \<exists>g' new_id new. goal_moves bs gid g g' \<and>
     map_of (q_goals q) new_id = None \<and> fresh_goal new_id new \<and>
     q' = put_goal new_id new (put_goal (gr_goal_id r) g' q)"
  using goal_of_data_Inr by (fastforce simp: goal_replaced_def rbind_Inr_iff intro: goal_moves.supersede)

lemma acceptance_decided_Inr:
  assumes "acceptance_decided header n r g q = Inr q'"
  shows "\<exists>g'. goal_moves (q_batches q) (gr_goal_id r) g g' \<and> q' = put_goal (gr_goal_id r) g' q"
proof -
  obtain coverage required where "gs_status g = ''active''"
    and "map_of (gr_data r) ''coverage'' = Some (JList coverage)"
    and "set coverage = JStr ` rq_id ` set (gs_requirements g)"
    and "map_of (gr_data r) ''operations'' = Some (JList required)" and "required \<noteq> []"
    and "list_all (\<lambda>operation. list_ex (\<lambda>(_, b). cites_batch (gr_goal_id r) g operation b) (q_batches q)) required"
    and "q' = put_goal (gr_goal_id r) (g\<lparr>gs_status := ''completed'', gs_reason := ''requirements_satisfied'',
      gs_acceptance := Some (gr_data r)\<rparr>) q"
    using assms by (auto simp: acceptance_decided_def Let_def rbind_Inr_iff split: if_splits option.splits json.splits)
  moreover from this have "\<forall>operation \<in> set required. cited (q_batches q) (gr_goal_id r) g operation"
    by (fastforce simp: list_all_iff list_ex_iff cited_def)
  ultimately show ?thesis by (blast intro: goal_moves.complete)
qed

lemma batch_closed_Inr:
  assumes "batch_closed r q = Inr q'"
  shows "\<exists>bid b b'. map_of (q_batches q) bid = Some b \<and> batch_moves b b' \<and> q' = put_batch bid b' q"
proof -
  obtain bid where bid: "(case map_of (q_batches q) bid of
      None \<Rightarrow> Inl (GoalError ''invalid or contradictory batch closure'')
    | Some b \<Rightarrow> close_batch r bid b q) = Inr q'"
    using assms unfolding batch_closed_def rbind_Inr_iff by blast
  then obtain b where b: "map_of (q_batches q) bid = Some b" and "close_batch r bid b q = Inr q'"
    by (cases "map_of (q_batches q) bid") auto
  then show ?thesis
    by (auto simp: close_batch_def rbind_Inr_iff split: if_splits intro: batch_moves.intros)
qed

lemma batch_intent_Inr:
  assumes "batch_intent header n r g q = Inr q'" and "map_of (q_goals q) (gr_goal_id r) = Some g"
  shows "\<exists>bid b. map_of (q_batches q) bid = None \<and> fresh_batch q bid b \<and>
    q' = put_batch bid b (q\<lparr>q_operations := gb_operation_id b # q_operations q\<rparr>)"
proof -
  obtain bid operation source where new: "map_of (q_batches q) bid = None"
    and active: "gs_status g = ''active''" and op: "operation \<notin> set (q_operations q)"
    and limit: "int (goal_batch_count (gr_goal_id r) (q_batches q)) < gs_limit g"
    and command: "\<not> list_ex (\<lambda>(_, b). gb_command_id b = gr_command_id r) (q_batches q)"
    and source: "source \<noteq> []"
    and q': "q' = put_batch bid
      \<lparr>gb_id = bid, gb_goal_id = gr_goal_id r, gb_operation_id = operation, gb_revision = gs_revision g,
       gb_epoch = gs_epoch g, gb_intent_sequence = n, gb_command_id = gr_command_id r, gb_source = source,
       gb_run_receipt = None, gb_not_submitted = False\<rparr> (q\<lparr>q_operations := operation # q_operations q\<rparr>)"
    using assms(1) unfolding batch_intent_def Let_def rbind_Inr_iff require_simps not_le de_Morgan_disj not_not
    by blast
  define b where "b = \<lparr>gb_id = bid, gb_goal_id = gr_goal_id r, gb_operation_id = operation,
    gb_revision = gs_revision g, gb_epoch = gs_epoch g, gb_intent_sequence = n, gb_command_id = gr_command_id r,
    gb_source = source, gb_run_receipt = None, gb_not_submitted = False\<rparr>"
  have "gb_command_id b' \<noteq> gr_command_id r" if "map_of (q_batches q) bid' = Some b'" for bid' b'
    using command map_of_SomeD [OF that] by (auto simp: list_ex_iff)
  then have "fresh_batch q bid b"
    using active op limit source assms(2) by (simp add: fresh_batch_def b_def)
  moreover have "gb_operation_id b = operation" by (simp add: b_def)
  ultimately show ?thesis using new unfolding q' b_def [symmetric] by blast
qed

text \<open>Every accepted record takes the state along the abstract transitions.\<close>

lemma put_goal_transition:
  assumes "case map_of (q_goals q) gid of Some g \<Rightarrow> goal_moves (q_batches q) gid g g' | None \<Rightarrow> fresh_goal gid g'"
  shows "goal_transition q (put_goal gid g' (q\<lparr>q_effects := eff\<rparr>))"
  using dict_follows_update [where d = "q_goals q" and k = gid and moves = "goal_moves (q_batches q)" and v = g' and fresh = fresh_goal] assms
  by (auto simp: goal_transition_def put_goal_def replay_ok_def distinct_keys_update)

lemma put_batch_transition:
  assumes "case map_of (q_batches q) bid of Some b \<Rightarrow> batch_moves b b' | None \<Rightarrow> fresh_batch q bid b'"
    and "q_goals q1 = q_goals q" "q_batches q1 = q_batches q" "q_commands q1 = q_commands q"
    and "set (q_operations q) \<subseteq> set (q_operations q1)"
    and "map_of (q_batches q) bid = None \<longrightarrow> gb_operation_id b' \<in> set (q_operations q1)"
  shows "goal_transition q (put_batch bid b' q1)"
proof -
  have "gb_operation_id b' \<in> set (q_operations q1)" if "replay_ok q"
  proof (cases "map_of (q_batches q) bid")
    case None
    then show ?thesis using assms(6) by simp
  next
    case (Some b)
    then have "gb_operation_id b' = gb_operation_id b" using assms(1) by (auto simp: batch_moves.simps)
    then show ?thesis using that Some assms(5) by (auto simp: replay_ok_def)
  qed
  then have "replay_ok q \<Longrightarrow> replay_ok (put_batch bid b' q1)"
    using assms(2-5) by (auto simp: replay_ok_def put_batch_def distinct_keys_update)
  moreover have "dict_follows (\<lambda>_. batch_moves) (fresh_batch q) (q_batches q) (q_batches (put_batch bid b' q1))"
    using dict_follows_update [where d = "q_batches q" and k = bid and moves = "\<lambda>_. batch_moves" and v = b'
        and fresh = "fresh_batch q"] assms(1,3)
    by (simp add: put_batch_def)
  moreover have "\<exists>bid'. \<forall>k. k \<noteq> bid' \<longrightarrow> map_of (q_batches (put_batch bid b' q1)) k = map_of (q_batches q) k"
    by (intro exI [of _ bid]) (simp add: put_batch_def assms(3))
  ultimately show ?thesis
    using assms(2,4) unfolding goal_transition_def by (simp add: put_batch_def)
qed

lemma command_transition:
  assumes "case map_of (q_commands q) cid of Some c \<Rightarrow> command_moves c c' | None \<Rightarrow> fresh_command cid c'"
  shows "goal_transition q (q\<lparr>q_commands := AList.update cid c' (q_commands q)\<rparr>)"
  using dict_follows_update [where d = "q_commands q" and k = cid and moves = "\<lambda>_. command_moves" and v = c' and fresh = fresh_command] assms
  by (auto simp: goal_transition_def replay_ok_def distinct_keys_update)

lemma goal_changed_transition:
  assumes "goal_changed header n r (q\<lparr>q_effects := eff\<rparr>) = Inr q'"
  shows "goal_transition q q'"
proof -
  let ?q = "q\<lparr>q_effects := eff\<rparr>" and ?gid = "gr_goal_id r"
  obtain g where g: "map_of (q_goals ?q) ?gid = Some g"
    using assms by (cases "map_of (q_goals ?q) ?gid") (auto simp: goal_changed_def)
  have put: "goal_transition q q'" if "goal_moves (q_batches q) ?gid g g'" "q' = put_goal ?gid g' ?q" for g'
    using put_goal_transition [where q = q and gid = ?gid and g' = g' and eff = eff] that g by simp
  consider "requirements_revised r g ?q = Inr q'" | "control_changed r g ?q = Inr q'"
    | "goal_replaced r g ?q = Inr q'" | "batch_intent header n r g ?q = Inr q'"
    | "batch_closed r ?q = Inr q'" | "acceptance_decided header n r g ?q = Inr q'"
    using assms g by (auto simp: goal_changed_def split: if_splits)
  then show ?thesis
  proof cases
    case 1
    then show ?thesis using requirements_revised_Inr [of r g ?q q' "q_batches q" ?gid] put by blast
  next
    case 2
    then show ?thesis using control_changed_Inr [of r g ?q q' "q_batches q" ?gid] put by blast
  next
    case 3
    then obtain g' new_id new where moves: "goal_moves (q_batches q) ?gid g g'"
      and new: "map_of (q_goals ?q) new_id = None" "fresh_goal new_id new"
      and q': "q' = put_goal new_id new (put_goal ?gid g' ?q)"
      using goal_replaced_Inr [of r g ?q q' "q_batches q" ?gid] by blast
    then have "new_id \<noteq> ?gid" using g by auto
    then have "dict_follows (goal_moves (q_batches q)) fresh_goal (q_goals q) (q_goals q')"
      using g new moves unfolding q' by (auto simp: dict_follows_def put_goal_def split: option.split)
    moreover have "replay_ok q \<Longrightarrow> replay_ok q'"
      by (auto simp: q' put_goal_def replay_ok_def distinct_keys_update)
    ultimately show ?thesis by (simp add: goal_transition_def) (simp add: q' put_goal_def)
  next
    case 4
    then obtain bid b where "map_of (q_batches q) bid = None" "fresh_batch ?q bid b"
      and "q' = put_batch bid b (q\<lparr>q_effects := eff, q_operations := gb_operation_id b # q_operations q\<rparr>)"
      using batch_intent_Inr [OF _ g] by fastforce
    then show ?thesis by (auto simp: fresh_batch_def intro!: put_batch_transition)
  next
    case 5
    then obtain bid b b' where "map_of (q_batches q) bid = Some b" "batch_moves b b'"
      and "q' = put_batch bid b' ?q"
      using batch_closed_Inr [of r ?q q'] by fastforce
    then show ?thesis by (auto intro!: put_batch_transition)
  next
    case 6
    then show ?thesis using acceptance_decided_Inr [of header n r g ?q q'] put by auto
  qed
qed

lemma goal_apply_transition:
  assumes "goal_apply header n r q = Inr q'"
  shows "goal_transition q q'"
proof -
  consider "command_received r q = Inr q'"
    | c where "causing_command r q = Inr c" "command_finished r c q = Inr q'"
    | c q1 where "note_effect r c q = Inr q1" "goal_created r q1 = Inr q'"
    | c q1 where "note_effect r c q = Inr q1" "goal_changed header n r q1 = Inr q'"
    using assms unfolding goal_apply_def by (auto simp: rbind_Inr_iff split: if_splits)
  then show ?thesis
  proof cases
    case 1
    then show ?thesis using command_received_Inr [OF 1] command_transition by fastforce
  next
    case 2
    note c = causing_command_Inr [OF 2(1)]
    with command_finished_Inr [OF 2(2)] show ?thesis using command_transition by fastforce
  next
    case 3
    obtain eff where eff: "q1 = q\<lparr>q_effects := eff\<rparr>" using note_effect_Inr [OF 3(1)] by blast
    obtain g where "map_of (q_goals q1) (gr_goal_id r) = None" "fresh_goal (gr_goal_id r) g"
      "q' = put_goal (gr_goal_id r) g q1"
      using 3(2) goal_of_data_Inr by (auto simp: goal_created_def rbind_Inr_iff)
    then show ?thesis
      using put_goal_transition [where q = q and gid = "gr_goal_id r" and g' = g and eff = eff] eff by simp
  next
    case 4
    then show ?thesis using note_effect_Inr [OF 4(1)] goal_changed_transition by blast
  qed
qed

section \<open>The invariant\<close>

definition goal_statuses :: "string list" where
  "goal_statuses = [''active'', ''paused''] @ terminal_statuses"

text \<open>A completed Goal shows what it was completed on.\<close>

definition supported :: "(string \<times> goal_batch) list \<Rightarrow> string \<Rightarrow> goal_state \<Rightarrow> bool" where
  "supported bs gid g \<longleftrightarrow>
     (\<exists>d coverage required. gs_acceptance g = Some d \<and> map_of d ''coverage'' = Some (JList coverage) \<and>
        set coverage = JStr ` rq_id ` set (gs_requirements g) \<and>
        map_of d ''operations'' = Some (JList required) \<and> required \<noteq> [] \<and>
        (\<forall>operation \<in> set required. cited bs gid g operation))"

definition goal_ok :: "(string \<times> goal_batch) list \<Rightarrow> string \<Rightarrow> goal_state \<Rightarrow> bool" where
  "goal_ok bs gid g \<longleftrightarrow> gs_id g = gid \<and> gs_requirements g \<noteq> [] \<and> distinct (map rq_id (gs_requirements g)) \<and>
     1 \<le> gs_limit g \<and> 1 \<le> gs_revision g \<and> gs_revision g \<le> gs_epoch g \<and> gs_status g \<in> set goal_statuses \<and>
     (gs_status g = ''completed'' \<longrightarrow> supported bs gid g)"

definition batch_ok :: "(string \<times> goal_state) list \<Rightarrow> string \<Rightarrow> goal_batch \<Rightarrow> bool" where
  "batch_ok gs bid b \<longleftrightarrow> gb_id b = bid \<and> gb_source b \<noteq> [] \<and>
     (gb_run_receipt b \<noteq> None \<longrightarrow> \<not> gb_not_submitted b) \<and>
     (\<exists>g. map_of gs (gb_goal_id b) = Some g \<and> gb_revision b \<le> gs_revision g \<and> gb_epoch b \<le> gs_epoch g)"

text \<open>No two batches share an operation or a command.\<close>

definition batches_apart :: "(string \<times> goal_batch) list \<Rightarrow> bool" where
  "batches_apart bs \<longleftrightarrow>
     (\<forall>bid b bid' b'. map_of bs bid = Some b \<longrightarrow> map_of bs bid' = Some b' \<longrightarrow>
        gb_operation_id b = gb_operation_id b' \<or> gb_command_id b = gb_command_id b' \<longrightarrow> bid = bid')"

definition goal_inv :: "goal_replay \<Rightarrow> bool" where
  "goal_inv q \<longleftrightarrow> replay_ok q \<and> live_goals (q_goals q) \<le> 1 \<and> batches_apart (q_batches q) \<and>
     (\<forall>gid g. map_of (q_goals q) gid = Some g \<longrightarrow> goal_ok (q_batches q) gid g) \<and>
     (\<forall>bid b. map_of (q_batches q) bid = Some b \<longrightarrow> batch_ok (q_goals q) bid b)"

lemma goal_inv_empty: "goal_inv empty_replay"
  by (simp add: goal_inv_def empty_replay_def replay_ok_def live_goals_def batches_apart_def)

lemma goal_apply_live:
  assumes "goal_apply header n r q = Inr q'" and "live_goals (q_goals q) \<le> 1"
  shows "live_goals (q_goals q') \<le> 1"
proof -
  consider "command_received r q = Inr q'"
    | c where "causing_command r q = Inr c" "command_finished r c q = Inr q'"
    | "live_goals (q_goals q') \<le> 1"
    using assms(1) unfolding goal_apply_def by (auto simp: rbind_Inr_iff split: if_splits)
  then show ?thesis
    by cases (use assms(2) command_received_Inr command_finished_Inr causing_command_Inr in fastforce)+
qed

section \<open>What never changes\<close>

text \<open>
  A later state of a Goal: revision and epoch only grow, the same epoch means the same contract, and
  a closed Goal stays as it is.
\<close>

definition goal_evolves :: "goal_state \<Rightarrow> goal_state \<Rightarrow> bool" where
  "goal_evolves g g' \<longleftrightarrow> gs_id g' = gs_id g \<and> gs_metadata g' = gs_metadata g \<and>
     gs_revision g \<le> gs_revision g' \<and> gs_epoch g \<le> gs_epoch g' \<and>
     (gs_revision g' = gs_revision g \<longrightarrow> gs_requirements g' = gs_requirements g) \<and>
     (gs_epoch g' = gs_epoch g \<longrightarrow> gs_revision g' = gs_revision g \<and> gs_limit g' = gs_limit g \<and>
        (g' = g \<or> gs_status g = ''active'' \<and> gs_status g' = ''completed'')) \<and>
     (gs_status g \<in> set closed_statuses \<longrightarrow> g' = g)"

lemma goal_evolves_refl [simp]: "goal_evolves g g"
  by (simp add: goal_evolves_def)

lemma goal_evolves_trans: "goal_evolves g g' \<Longrightarrow> goal_evolves g' g'' \<Longrightarrow> goal_evolves g g''"
  unfolding goal_evolves_def by (elim conjE, intro conjI) auto

lemma goal_moves_evolves: "goal_moves bs gid g g' \<Longrightarrow> goal_evolves g g'"
  by (induction rule: goal_moves.induct)
    (auto simp: goal_evolves_def closed_statuses_def terminal_statuses_def)

lemma batch_moves_once: "batch_moves b b' \<Longrightarrow> \<not> batch_moves b' b''"
  by (auto simp: batch_moves.simps)

lemma command_moves_once: "command_moves c c' \<Longrightarrow> \<not> command_moves c' c''"
  by (auto simp: command_moves.simps)

definition replay_before :: "goal_replay \<Rightarrow> goal_replay \<Rightarrow> bool" where
  "replay_before q q' \<longleftrightarrow>
     (\<forall>gid g. map_of (q_goals q) gid = Some g \<longrightarrow>
        (\<exists>g'. map_of (q_goals q') gid = Some g' \<and> goal_evolves g g')) \<and>
     (\<forall>bid b. map_of (q_batches q) bid = Some b \<longrightarrow>
        (\<exists>b'. map_of (q_batches q') bid = Some b' \<and> (b' = b \<or> batch_moves b b'))) \<and>
     (\<forall>cid c. map_of (q_commands q) cid = Some c \<longrightarrow>
        (\<exists>c'. map_of (q_commands q') cid = Some c' \<and> (c' = c \<or> command_moves c c')))"

lemma replay_beforeD:
  assumes "replay_before q q'"
  shows "map_of (q_goals q) gid = Some g \<Longrightarrow> \<exists>g'. map_of (q_goals q') gid = Some g' \<and> goal_evolves g g'"
    and "map_of (q_batches q) bid = Some b \<Longrightarrow> \<exists>b'. map_of (q_batches q') bid = Some b' \<and> (b' = b \<or> batch_moves b b')"
    and "map_of (q_commands q) cid = Some c \<Longrightarrow> \<exists>c'. map_of (q_commands q') cid = Some c' \<and> (c' = c \<or> command_moves c c')"
  using assms by (simp_all add: replay_before_def)

lemma replay_before_refl: "replay_before q q"
  by (simp add: replay_before_def)

lemma replay_before_trans:
  assumes "replay_before q q'" and "replay_before q' q''"
  shows "replay_before q q''"
proof -
  have "\<exists>g''. map_of (q_goals q'') gid = Some g'' \<and> goal_evolves g g''"
    if "map_of (q_goals q) gid = Some g" for gid g
    using replay_beforeD(1) [OF assms(1) that] replay_beforeD(1) [OF assms(2)] goal_evolves_trans by blast
  moreover have "\<exists>b''. map_of (q_batches q'') bid = Some b'' \<and> (b'' = b \<or> batch_moves b b'')"
    if "map_of (q_batches q) bid = Some b" for bid b
    using replay_beforeD(2) [OF assms(1) that] replay_beforeD(2) [OF assms(2)] batch_moves_once by blast
  moreover have "\<exists>c''. map_of (q_commands q'') cid = Some c'' \<and> (c'' = c \<or> command_moves c c'')"
    if "map_of (q_commands q) cid = Some c" for cid c
    using replay_beforeD(3) [OF assms(1) that] replay_beforeD(3) [OF assms(2)] command_moves_once by blast
  ultimately show ?thesis by (simp add: replay_before_def)
qed

lemma transition_before:
  assumes "goal_transition q q'"
  shows "replay_before q q'"
proof -
  have goals: "dict_follows (goal_moves (q_batches q)) fresh_goal (q_goals q) (q_goals q')"
    and batches: "dict_follows (\<lambda>_. batch_moves) (fresh_batch q) (q_batches q) (q_batches q')"
    and commands: "dict_follows (\<lambda>_. command_moves) fresh_command (q_commands q) (q_commands q')"
    using assms by (simp_all add: goal_transition_def)
  have "\<exists>g'. map_of (q_goals q') gid = Some g' \<and> goal_evolves g g'" if "map_of (q_goals q) gid = Some g" for gid g
    using dict_followsD [OF goals that] goal_moves_evolves by auto
  then show ?thesis
    using dict_followsD [OF batches] dict_followsD [OF commands] by (simp add: replay_before_def)
qed

section \<open>The invariant is kept\<close>

lemma cited_persists:
  assumes "dict_follows (\<lambda>_. batch_moves) fresh bs bs'" and "distinct (keys bs)" and "cited bs gid g operation"
  shows "cited bs' gid g operation"
proof -
  obtain bid b where b: "(bid, b) \<in> set bs" "cites_batch gid g operation b"
    using assms(3) by (auto simp: cited_def)
  have "map_of bs bid = Some b" using assms(2) b(1) by simp
  moreover have "\<not> batch_moves b b'" for b' using b(2) by (auto simp: cites_batch_def batch_moves.simps)
  ultimately have "map_of bs' bid = Some b" using dict_followsD [OF assms(1)] by blast
  then show ?thesis using map_of_SomeD b(2) by (force simp: cited_def)
qed

lemma supported_persists:
  assumes "supported bs gid g" and "dict_follows (\<lambda>_. batch_moves) fresh bs bs'" and "distinct (keys bs)"
  shows "supported bs' gid g"
proof -
  obtain d coverage required where "gs_acceptance g = Some d" "map_of d ''coverage'' = Some (JList coverage)"
    "set coverage = JStr ` rq_id ` set (gs_requirements g)" "map_of d ''operations'' = Some (JList required)"
    "required \<noteq> []" "\<forall>operation \<in> set required. cited bs gid g operation"
    using assms(1) unfolding supported_def by blast
  then show ?thesis
    unfolding supported_def
    by (intro exI [of _ d] exI [of _ coverage] exI [of _ required]) (simp add: cited_persists [OF assms(2,3)])
qed

lemma cited_complete:
  "cited bs gid (g\<lparr>gs_status := s, gs_reason := t, gs_acceptance := a\<rparr>) operation \<longleftrightarrow> cited bs gid g operation"
  by (simp add: cited_def cites_batch_def)

lemma goal_moves_ok: "goal_moves bs gid g g' \<Longrightarrow> goal_ok bs gid g \<Longrightarrow> goal_ok bs gid g'"
proof (induction rule: goal_moves.induct)
  case (revise g reqs reason)
  then show ?case by (simp add: goal_ok_def goal_statuses_def)
next
  case (control g status limit reason)
  from control(2) have "status \<in> set goal_statuses" "status \<noteq> ''completed''"
    by (auto simp: goal_statuses_def terminal_statuses_def)
  with control(4,5) show ?case by (simp add: goal_ok_def)
next
  case (supersede g reason)
  then show ?case by (simp add: goal_ok_def goal_statuses_def terminal_statuses_def)
next
  case (complete g d coverage required)
  then have "supported bs gid (g\<lparr>gs_status := ''completed'', gs_reason := ''requirements_satisfied'',
      gs_acceptance := Some d\<rparr>)"
    unfolding supported_def cited_complete by (intro exI [of _ d] exI [of _ coverage] exI [of _ required]) simp
  with complete show ?case by (simp add: goal_ok_def goal_statuses_def terminal_statuses_def)
qed

lemma fresh_goal_ok: "fresh_goal gid g \<Longrightarrow> goal_ok bs gid g"
  by (auto simp: fresh_goal_def new_goal_def goal_ok_def goal_statuses_def terminal_statuses_def)

lemma transition_apart:
  assumes "goal_inv q" and "goal_transition q q'"
  shows "batches_apart (q_batches q')"
proof -
  have batches: "dict_follows (\<lambda>_. batch_moves) (fresh_batch q) (q_batches q) (q_batches q')"
    using assms(2) by (simp add: goal_transition_def)
  obtain new where new: "\<And>k. k \<noteq> new \<Longrightarrow> map_of (q_batches q') k = map_of (q_batches q) k"
    using assms(2) by (auto simp: goal_transition_def)
  have apart: "batches_apart (q_batches q)" and ops: "replay_ok q" using assms(1) by (simp_all add: goal_inv_def)
  have one: "False" if b: "map_of (q_batches q') new = Some b" and b': "map_of (q_batches q) bid = Some b'"
    and diff: "bid \<noteq> new" and same: "gb_operation_id b = gb_operation_id b' \<or> gb_command_id b = gb_command_id b'"
    for b bid b'
    using batches b
  proof (cases rule: dict_followsE)
    case (old c)
    then have "gb_operation_id b = gb_operation_id c" "gb_command_id b = gb_command_id c"
      by (auto simp: batch_moves.simps)
    then show False using apart old(1) b' same diff unfolding batches_apart_def by metis
  next
    case new
    have "gb_operation_id b' \<in> set (q_operations q)" using ops b' by (simp add: replay_ok_def)
    moreover have "gb_operation_id b \<notin> set (q_operations q)" "gb_command_id b' \<noteq> gb_command_id b"
      using new(2) b' unfolding fresh_batch_def by blast+
    ultimately show False using same by auto
  qed
  show ?thesis
    unfolding batches_apart_def
  proof (intro allI impI)
    fix bid b bid' b'
    assume b: "map_of (q_batches q') bid = Some b" "map_of (q_batches q') bid' = Some b'"
      and same: "gb_operation_id b = gb_operation_id b' \<or> gb_command_id b = gb_command_id b'"
    show "bid = bid'"
    proof (rule ccontr)
      assume diff: "bid \<noteq> bid'"
      then consider "bid = new" "bid' \<noteq> new" | "bid' = new" "bid \<noteq> new" | "bid \<noteq> new" "bid' \<noteq> new" by blast
      then show False
      proof cases
        case 1
        then show False using one [of b bid' b'] b new [of bid'] same by simp
      next
        case 2
        then show False using one [of b' bid b] b new [of bid] same by auto
      next
        case 3
        then show False using b new [of bid] new [of bid'] apart same diff unfolding batches_apart_def by metis
      qed
    qed
  qed
qed

lemma transition_inv:
  assumes "goal_inv q" and "goal_transition q q'" and "live_goals (q_goals q') \<le> 1"
  shows "goal_inv q'"
proof -
  have goals: "dict_follows (goal_moves (q_batches q)) fresh_goal (q_goals q) (q_goals q')"
    and batches: "dict_follows (\<lambda>_. batch_moves) (fresh_batch q) (q_batches q) (q_batches q')"
    and dicts: "replay_ok q'" "distinct (keys (q_batches q))"
    using assms(1,2) by (auto simp: goal_transition_def goal_inv_def replay_ok_def)
  have "goal_ok (q_batches q') gid g'" if g': "map_of (q_goals q') gid = Some g'" for gid g'
  proof -
    have "goal_ok (q_batches q) gid g'"
      using goals g'
    proof (cases rule: dict_followsE)
      case (old g)
      then show ?thesis using assms(1) goal_moves_ok by (auto simp: goal_inv_def)
    next
      case new
      then show ?thesis by (simp add: fresh_goal_ok)
    qed
    then show ?thesis using supported_persists [OF _ batches dicts(2)] by (simp add: goal_ok_def)
  qed
  moreover have "batch_ok (q_goals q') bid b'" if b': "map_of (q_batches q') bid = Some b'" for bid b'
  proof -
    have "batch_ok (q_goals q) bid b'"
      using batches b'
    proof (cases rule: dict_followsE)
      case (old b)
      then have "batch_ok (q_goals q) bid b" using assms(1) by (simp add: goal_inv_def)
      with old(2) show ?thesis by (auto simp: batch_ok_def batch_moves.simps)
    next
      case new
      then show ?thesis by (auto simp: fresh_batch_def batch_ok_def)
    qed
    then obtain g where "map_of (q_goals q) (gb_goal_id b') = Some g" "gb_revision b' \<le> gs_revision g"
      "gb_epoch b' \<le> gs_epoch g" and ok: "batch_ok (q_goals q) bid b'"
      by (auto simp: batch_ok_def)
    moreover obtain g' where "map_of (q_goals q') (gb_goal_id b') = Some g'" "goal_evolves g g'"
      using replay_beforeD(1) [OF transition_before [OF assms(2)] calculation(1)] by blast
    ultimately show ?thesis by (auto simp: batch_ok_def goal_evolves_def)
  qed
  moreover have "batches_apart (q_batches q')" by (rule transition_apart [OF assms(1,2)])
  ultimately show ?thesis using dicts(1) assms(3) by (simp add: goal_inv_def)
qed

section \<open>Whole histories\<close>

lemma goal_step_Inr: "goal_step header (n, q) raw = Inr s' \<longleftrightarrow>
    (\<exists>r q'. decode_record (encode_record raw) = Inr r \<and> goal_apply header n r q = Inr q' \<and> s' = (n + 1, q'))"
  by (auto simp: goal_step_def rbind_Inr_iff)

lemma goal_step_cases:
  assumes "goal_step header s raw = Inr s'"
  shows "goal_transition (snd s) (snd s')"
    and "live_goals (q_goals (snd s)) \<le> 1 \<Longrightarrow> live_goals (q_goals (snd s')) \<le> 1"
proof -
  obtain n q where s: "s = (n, q)" by fastforce
  obtain r q' where "goal_apply header n r q = Inr q'" "s' = (n + 1, q')"
    using assms unfolding s goal_step_Inr by blast
  then show "goal_transition (snd s) (snd s')"
    and "live_goals (q_goals (snd s)) \<le> 1 \<Longrightarrow> live_goals (q_goals (snd s')) \<le> 1"
    using goal_apply_transition goal_apply_live by (simp_all add: s)
qed

interpretation history: forward_machine "goal_step header" "\<lambda>s. goal_inv (snd s)"
    "\<lambda>s s'. replay_before (snd s) (snd s')" for header
proof (unfold_locales, goal_cases)
  case (1 s x s')
  then have "live_goals (q_goals (snd s)) \<le> 1" by (simp add: goal_inv_def)
  with 1 show ?case using transition_inv goal_step_cases by blast
next
  case (2 s)
  then show ?case by (rule replay_before_refl)
next
  case (3 s t u)
  then show ?case by (rule replay_before_trans)
next
  case (4 s x s')
  then show ?case using transition_before goal_step_cases(1) by blast
qed

lemma replay_goal_Inr: "replay_goal header rs = Inr h \<longleftrightarrow>
    (\<exists>n q. rfold (goal_step header) (1, empty_replay) rs = Inr (n, q) \<and>
       h = \<lparr>hi_header = header, hi_records = rs, hi_goals = q_goals q, hi_batches = map snd (q_batches q),
            hi_commands = q_commands q\<rparr>)"
  by (auto simp: replay_goal_def rbind_Inr_iff)

lemma replay_goal_inv:
  assumes "rfold (goal_step header) (1, empty_replay) rs = Inr (n, q)"
  shows "goal_inv q"
  using history.run_inv [of "(1, empty_replay)" header rs "(n, q)"] assms goal_inv_empty by simp

lemma replay_goal_before:
  assumes "rfold (goal_step header) (1, empty_replay) rs = Inr (n, q)"
    and "rfold (goal_step header) (1, empty_replay) (rs @ rs') = Inr (n', q')"
  shows "replay_before q q'"
  using history.run_prefix_before(2) [of "(1, empty_replay)" header rs "(n, q)" rs' "(n', q')"] assms goal_inv_empty
  by simp

lemma replay_goal_count:
  "rfold (goal_step header) (n, q) rs = Inr (n', q') \<Longrightarrow> n' = n + length rs"
proof (induction rs arbitrary: n q)
  case Nil
  then show ?case by simp
next
  case (Cons r rs)
  then obtain q1 where "rfold (goal_step header) (n + 1, q1) rs = Inr (n', q')"
    by (auto simp: rbind_Inr_iff goal_step_Inr)
  from Cons.IH [OF this] show ?case by simp
qed

end
