(* ===== verification/Goal_Store.thy ===== *)
theory Goal_Store
  imports Goal_History
begin

text \<open>
  The Goal journal (\<open>GoalJournal\<close> of \<open>coding/adapters/_goal_store.py\<close>): the physical binding of Goal
  records to a JSONL file with a required header, and the contract of a record store that the Goal
  controller relies on (\<open>GoalRecordStore\<close> of \<open>harnesswork/goal/contracts.py\<close>).

  The writer lease is taken to be held while the journal is open; a lease that cannot be taken is an
  argument of \<open>open_goal_journal\<close>.
\<close>

section \<open>The journal\<close>

datatype store_error =
    StoreGoal goal_error
  | StoreJournal journal_error
  | LeaseUnavailable

record goal_journal =
  gj_header :: goal_header
  gj_read_only :: bool
  gj_open :: bool

definition goal_policy :: load_policy where
  "goal_policy = default_policy\<lparr>lp_header_required := True\<rparr>"

definition lift_error :: "('e \<Rightarrow> store_error) \<Rightarrow> 'e + 'a \<Rightarrow> store_error + 'a" where
  "lift_error f m = (case m of Inl e \<Rightarrow> Inl (f e) | Inr x \<Rightarrow> Inr x)"

text \<open>\<open>journal.load()\<close>: the policy repairs nothing, so the file stays.\<close>

definition load_goal_file :: "string option \<Rightarrow> store_error + (goal_header, goal_record) journal_snapshot" where
  "load_goal_file bytes = rbind
     (lift_error StoreJournal (load_jsonl True goal_decoder (Some goal_header_decoder) goal_policy no_validator bytes))
     (\<lambda>(snapshot, _). Inr snapshot)"

definition check_header :: "goal_journal \<Rightarrow> goal_header \<Rightarrow> goal_error + unit" where
  "check_header j actual =
     rbind (require ((gh_scope_id actual, gh_session_id actual) =
              (gh_scope_id (gj_header j), gh_session_id (gj_header j)))
              (GoalError ''Goal scope/Session mismatch'')) (\<lambda>_.
     require (gj_read_only j \<or> same_header actual (gj_header j)) (GoalError ''unsupported bound Goal policy''))"

definition loaded_header :: "goal_journal \<Rightarrow> (goal_header, goal_record) journal_snapshot \<Rightarrow> store_error + goal_header" where
  "loaded_header j snapshot =
     (case js_header snapshot of
        None \<Rightarrow> Inl (StoreGoal (GoalError ''missing Goal header''))
      | Some h \<Rightarrow> rbind (lift_error StoreGoal (check_header j h)) (\<lambda>_. Inr h))"

text \<open>\<open>open\<close>: the journal and the file it leaves. The header is written with \<open>rewrite(())\<close>.\<close>

definition open_goal_journal ::
  "bool \<Rightarrow> bool \<Rightarrow> goal_journal \<Rightarrow> string option \<Rightarrow> store_error + goal_journal \<times> string option" where
  "open_goal_journal lease create j bytes =
     (if (gj_read_only j \<or> \<not> create) \<and> bytes = None then
        Inl (StoreGoal (GoalError ''unknown Goal: Session has no Goal journal''))
      else
        rbind (require lease LeaseUnavailable) (\<lambda>_.
        rbind (if bytes \<noteq> None then Inr bytes
               else
                 rbind (lift_error StoreJournal (write_jsonl default_format encode_record (Some encode_header)
                          (Some (gj_header j)) [])) (\<lambda>b. Inr (Some b))) (\<lambda>bytes.
        rbind (load_goal_file bytes) (\<lambda>snapshot.
        rbind (loaded_header j snapshot) (\<lambda>_.
        Inr (j\<lparr>gj_open := True\<rparr>, bytes))))))"

definition load_goal_journal :: "goal_journal \<Rightarrow> string option \<Rightarrow> store_error + goal_header \<times> goal_record list" where
  "load_goal_journal j bytes =
     rbind (require (gj_open j) (StoreGoal (GoalError ''Goal store not open''))) (\<lambda>_.
     rbind (load_goal_file bytes) (\<lambda>snapshot.
     rbind (loaded_header j snapshot) (\<lambda>h. Inr (h, js_records snapshot))))"

definition append_goal_journal ::
  "goal_journal \<Rightarrow> nat \<Rightarrow> goal_record \<Rightarrow> string option \<Rightarrow> store_error + int \<times> string option" where
  "append_goal_journal j expected r bytes =
     rbind (require (\<not> gj_read_only j) (StoreGoal (GoalError ''Goal store is read only''))) (\<lambda>_.
     rbind (require (gj_open j) (StoreGoal (GoalError ''Goal store not open''))) (\<lambda>_.
     rbind (load_goal_file bytes) (\<lambda>current.
     rbind (require (\<not> ((case js_header current of None \<Rightarrow> True | Some h \<Rightarrow> \<not> same_header h (gj_header j))
                         \<or> expected \<noteq> length (js_records current)))
              (StoreGoal (GoalError ''Goal store sequence or binding changed''))) (\<lambda>_.
     rbind (require (\<not> (gr_sequence r \<noteq> int expected + 1 \<or> gr_scope_id r \<noteq> gh_scope_id (gj_header j)))
              (StoreGoal (GoalError ''Goal append sequence mismatch''))) (\<lambda>_.
     Inr (gr_sequence r, Some (append_jsonl_record default_format encode_record r bytes)))))))"

definition close_goal_journal :: "goal_journal \<Rightarrow> goal_journal" where
  "close_goal_journal j = j\<lparr>gj_open := False\<rparr>"

section \<open>What the file holds\<close>

definition goal_file :: "goal_header \<Rightarrow> goal_record list \<Rightarrow> string" where
  "goal_file h rs = utf8 (text_of (dump_mapping default_format (encode_header h) #
     map (\<lambda>r. dump_mapping default_format (encode_record r)) rs))"

lemma same_header_simps [simp]: "same_header h h" "same_header (stored_header h) h'  \<longleftrightarrow> same_header h h'"
  by (simp_all add: same_header_def stored_header_def)

lemma same_headerD: "same_header a b \<Longrightarrow> gh_scope_id a = gh_scope_id b \<and> gh_session_id a = gh_session_id b"
  by (cases a; cases b) (simp add: same_header_def)

lemma goal_header_reads:
  assumes "header_ok h"
  shows "header_reads goal_policy (Some goal_header_decoder)
    [dump_mapping default_format (encode_header h)] (Some (stored_header h))"
proof -
  let ?l = "dump_mapping default_format (encode_header h)"
  have ok: "json_ok (JObj (encode_header h))" by (rule json_ok_encode_header [OF assms])
  have "clean ?l" "not_blank ?l" using dump_mapping_line [OF journal_formats_ok(1) ok] by auto
  moreover have "decode_header_line goal_policy goal_header_decoder 1 ?l = Inr (Some (stored_header h), [])"
    using load_dump_mapping [OF journal_formats_ok(1) ok] header_roundtrip [OF assms]
    by (simp add: decode_header_line_def goal_codec_error_def)
  ultimately show ?thesis by (simp add: header_reads_def goal_policy_def)
qed

lemma load_goal_file_reads:
  assumes "header_ok h" and "list_all record_ok rs"
  shows "load_goal_file (Some (goal_file h rs)) =
    Inr \<lparr>js_header = Some (stored_header h), js_records = map stored_record rs, js_diagnostics = []\<rparr>"
  using goal.load_torn [OF goal_header_reads [OF assms(1)] assms(2), of "[]" True]
  by (auto simp: load_goal_file_def lift_error_def goal_file_def)

lemma append_goal_file:
  "append_jsonl_record default_format encode_record r (Some (goal_file h rs)) = goal_file h (rs @ [r])"
  using goal.append_bytes [of r "dump_mapping default_format (encode_header h) #
     map (\<lambda>r. dump_mapping default_format (encode_record r)) rs"]
  by (simp add: goal_file_def del: text_of_simps utf8_append)

lemma check_header_cong: "check_header j (stored_header h) = check_header j h"
  by (simp add: check_header_def) (simp add: stored_header_def)

lemma load_holds_journal:
  assumes "header_ok h" and "check_header j h = Inr ()" and "list_all record_ok rs" and "gj_open j"
  shows "load_goal_journal j (Some (goal_file h rs)) = Inr (stored_header h, map stored_record rs)"
  using assms by (simp add: load_goal_journal_def load_goal_file_reads loaded_header_def lift_error_def check_header_cong)

lemma open_holds_journal:
  assumes "header_ok h" and "check_header j h = Inr ()" and "list_all record_ok rs"
  shows "open_goal_journal True create j (Some (goal_file h rs)) = Inr (j\<lparr>gj_open := True\<rparr>, Some (goal_file h rs))"
  using assms by (simp add: open_goal_journal_def load_goal_file_reads loaded_header_def lift_error_def check_header_cong)

lemma check_own_header: "check_header j (gj_header j) = Inr ()"
  by (simp add: check_header_def)

lemma create_goal_journal:
  assumes "header_ok (gj_header j)" and "\<not> gj_read_only j"
  shows "open_goal_journal True True j None = Inr (j\<lparr>gj_open := True\<rparr>, Some (goal_file (gj_header j) []))"
proof -
  have "write_jsonl default_format encode_record (Some encode_header) (Some (gj_header j)) [] =
      Inr (goal_file (gj_header j) [])"
    by (simp add: write_jsonl_def goal_file_def) (simp add: default_format_def lf_def)
  then show ?thesis
    using assms load_goal_file_reads [OF assms(1), of "[]"] check_own_header [of j]
    by (simp add: open_goal_journal_def loaded_header_def lift_error_def check_header_cong)
qed

section \<open>The contract of a record store\<close>

text \<open>
  \<open>GoalRecordStore\<close>: what a reader loads is what was appended, as the codec reads it back, and an
  acknowledged append extends it by one record. Nothing is promised of an append that raises.
\<close>

locale goal_record_store =
  fixes load :: "'s \<Rightarrow> store_error + goal_header \<times> goal_record list"
    and put :: "nat \<Rightarrow> goal_record \<Rightarrow> 's \<Rightarrow> (store_error + int) \<times> 's"
    and header :: "'s \<Rightarrow> goal_header"
    and holds :: "'s \<Rightarrow> goal_record list \<Rightarrow> bool"
  assumes load_holds: "holds s rs \<Longrightarrow> \<exists>h. load s = Inr (h, map stored_record rs) \<and> same_header h (header s)"
    and put_holds: "holds s rs \<Longrightarrow> record_ok r \<Longrightarrow> put n r s = (Inr ack, s') \<Longrightarrow>
      n = length rs \<and> ack = gr_sequence r \<and> gr_sequence r = int n + 1 \<and> header s' = header s \<and> holds s' (rs @ [r])"
    and put_accepts: "holds s rs \<Longrightarrow> record_ok r \<Longrightarrow> gr_sequence r = int (length rs) + 1 \<Longrightarrow>
      gr_scope_id r = gh_scope_id (header s) \<Longrightarrow> \<exists>s'. put (length rs) r s = (Inr (gr_sequence r), s')"
begin

lemma put_load:
  assumes "holds s rs" and "record_ok r" and "put n r s = (Inr ack, s')"
  shows "\<exists>h. load s' = Inr (h, map stored_record (rs @ [r])) \<and> same_header h (header s)"
  using load_holds put_holds [OF assms] by metis

lemma put_stale:
  assumes "holds s rs" and "record_ok r" and "n \<noteq> length rs"
  shows "\<exists>e. fst (put n r s) = Inl e"
  using put_holds [OF assms(1,2), of n] assms(3)
  by (cases "put n r s"; cases "fst (put n r s)") fastforce+

end

definition journal_load :: "goal_journal \<times> string option \<Rightarrow> store_error + goal_header \<times> goal_record list" where
  "journal_load s = load_goal_journal (fst s) (snd s)"

definition journal_put ::
  "nat \<Rightarrow> goal_record \<Rightarrow> goal_journal \<times> string option \<Rightarrow> (store_error + int) \<times> goal_journal \<times> string option" where
  "journal_put n r s =
     (case append_goal_journal (fst s) n r (snd s) of
        Inl e \<Rightarrow> (Inl e, s)
      | Inr (ack, bytes) \<Rightarrow> (Inr ack, fst s, bytes))"

text \<open>An open, writable journal over a file with a matching header.\<close>

definition journal_holds :: "goal_journal \<times> string option \<Rightarrow> goal_record list \<Rightarrow> bool" where
  "journal_holds s rs \<longleftrightarrow> gj_open (fst s) \<and> \<not> gj_read_only (fst s) \<and> list_all record_ok rs \<and>
     (\<exists>h. header_ok h \<and> same_header h (gj_header (fst s)) \<and> snd s = Some (goal_file h rs))"

lemma same_header_check: "same_header h (gj_header j) \<Longrightarrow> check_header j h = Inr ()"
  by (auto simp: check_header_def dest: same_headerD)

lemma append_holds_journal:
  assumes "header_ok h" and "same_header h (gj_header j)" and "list_all record_ok rs"
    and "gj_open j" and "\<not> gj_read_only j"
  shows "append_goal_journal j n r (Some (goal_file h rs)) =
    (if n \<noteq> length rs then Inl (StoreGoal (GoalError ''Goal store sequence or binding changed''))
     else if gr_sequence r \<noteq> int n + 1 \<or> gr_scope_id r \<noteq> gh_scope_id (gj_header j)
     then Inl (StoreGoal (GoalError ''Goal append sequence mismatch''))
     else Inr (gr_sequence r, Some (goal_file h (rs @ [r]))))"
  using assms
  by (cases "gr_sequence r = int n + 1 \<and> gr_scope_id r = gh_scope_id (gj_header j)"; cases "n = length rs")
    (auto simp: append_goal_journal_def load_goal_file_reads append_goal_file)

interpretation store: goal_record_store journal_load journal_put "\<lambda>s. gj_header (fst s)" journal_holds
proof (unfold_locales, goal_cases)
  case (1 s rs)
  then show ?case
    using load_holds_journal same_header_check by (auto simp: journal_holds_def journal_load_def)
next
  case (2 s rs r n ack s')
  then obtain h where h: "header_ok h" "same_header h (gj_header (fst s))" "snd s = Some (goal_file h rs)"
    and j: "list_all record_ok rs" "gj_open (fst s)" "\<not> gj_read_only (fst s)"
    by (auto simp: journal_holds_def)
  show ?case
    using 2(2,3) h j append_holds_journal [OF h(1,2) j, of n r]
    by (auto simp: journal_put_def journal_holds_def split: if_splits)
next
  case (3 s rs r)
  then obtain h where h: "header_ok h" "same_header h (gj_header (fst s))" "snd s = Some (goal_file h rs)"
    and j: "list_all record_ok rs" "gj_open (fst s)" "\<not> gj_read_only (fst s)"
    by (auto simp: journal_holds_def)
  show ?case
    using 3(3,4) h(3) append_holds_journal [OF h(1,2) j, of "length rs" r] by (simp add: journal_put_def)
qed

section \<open>Replaying what was stored\<close>

lemma decode_encode_stored:
  "decode_record (encode_record raw) = Inr r \<Longrightarrow> decode_record (encode_record (stored_record raw)) = Inr r"
  unfolding decode_encode_iff by (simp add: stored_record_def no_features_filter)

lemma goal_run_stored: "rfold (goal_step header) s rs = Inr s' \<Longrightarrow>
    rfold (goal_step header) s (map stored_record rs) = Inr s'"
proof (induction rs arbitrary: s)
  case Nil
  then show ?case by simp
next
  case (Cons r rs)
  then obtain t where t: "goal_step header s r = Inr t" "rfold (goal_step header) t rs = Inr s'"
    by (auto simp: rbind_Inr_iff)
  then have "goal_step header s (stored_record r) = Inr t"
    using decode_encode_stored by (cases s; cases t) (auto simp: goal_step_Inr)
  with t Cons.IH show ?case by simp
qed

lemma replay_goal_stored:
  "replay_goal header rs = Inr h \<Longrightarrow>
     replay_goal header (map stored_record rs) = Inr (h\<lparr>hi_records := map stored_record rs\<rparr>)"
  using goal_run_stored unfolding replay_goal_Inr by fastforce

text \<open>The processes that own the journal one after the other.\<close>

inductive journal_run :: "goal_journal \<times> string option \<Rightarrow> goal_record list \<Rightarrow> bool" where
  created: "header_ok (gj_header j) \<Longrightarrow> \<not> gj_read_only j \<Longrightarrow> open_goal_journal True True j None = Inr s \<Longrightarrow>
    journal_run s []"
| appended: "journal_run s rs \<Longrightarrow> record_ok r \<Longrightarrow> journal_put n r s = (Inr ack, s') \<Longrightarrow> journal_run s' (rs @ [r])"
| reopened: "journal_run s rs \<Longrightarrow>
    open_goal_journal True create (close_goal_journal (fst s)) (snd s) = Inr s' \<Longrightarrow> journal_run s' rs"

lemma journal_run_holds:
  "journal_run s rs \<Longrightarrow> journal_holds s rs \<and> map gr_sequence rs = map int [1..<length rs + 1]"
proof (induction rule: journal_run.induct)
  case (created j s)
  then show ?case using create_goal_journal [of j] by (auto simp: journal_holds_def)
next
  case (appended s rs r n ack s')
  then have "n = length rs \<and> gr_sequence r = int n + 1 \<and> journal_holds s' (rs @ [r])"
    using store.put_holds by blast
  with appended.IH show ?case by simp
next
  case (reopened s rs create s')
  let ?j = "close_goal_journal (fst s)"
  obtain h where h: "header_ok h" "same_header h (gj_header ?j)" "snd s = Some (goal_file h rs)"
    and ok: "list_all record_ok rs" "\<not> gj_read_only (fst s)"
    using reopened.IH by (auto simp: journal_holds_def close_goal_journal_def)
  from open_holds_journal [OF h(1) same_header_check [OF h(2)] ok(1), of create] reopened.hyps(2) h(3)
  have "s' = (?j\<lparr>gj_open := True\<rparr>, Some (goal_file h rs))" by simp
  with h ok reopened.IH show ?case by (auto simp: journal_holds_def close_goal_journal_def)
qed

section \<open>Properties\<close>

text \<open>
  The Goal journal keeps its records: after any sequence of acknowledged appends and
  reopenings the records are numbered from one without gaps, loading returns all of them in order
  (with the header it was created with, up to its extensions), and a history that was accepted
  before it was stored replays to the same Goals, batches and commands.
\<close>

theorem goal_journal_keeps_records:
  assumes "journal_run s rs"
  shows "\<exists>h. journal_load s = Inr (h, map stored_record rs) \<and> same_header h (gj_header (fst s)) \<and>
    map gr_sequence rs = map int [1..<length rs + 1] \<and>
    (\<forall>header hist. replay_goal header rs = Inr hist \<longrightarrow>
       replay_goal header (map stored_record rs) = Inr (hist\<lparr>hi_records := map stored_record rs\<rparr>))"
  using store.load_holds journal_run_holds [OF assms] replay_goal_stored by blast

definition sample_journal :: "goal_journal \<times> string option" where
  "sample_journal = (\<lparr>gj_header = \<lparr>gh_scope_id = ''sc'', gh_session_id = ''s'', gh_policy_id = ''p'',
     gh_policy_version = 1, gh_version = 1, gh_extensions = []\<rparr>, gj_read_only = False, gj_open = True\<rparr>,
     Some (goal_file \<lparr>gh_scope_id = ''sc'', gh_session_id = ''s'', gh_policy_id = ''p'',
     gh_policy_version = 1, gh_version = 1, gh_extensions = []\<rparr> []))"

lemma sample_journal_run: "journal_run sample_journal []"
proof -
  let ?j = "(fst sample_journal)\<lparr>gj_open := False\<rparr>"
  have ok: "header_ok (gj_header ?j)" "\<not> gj_read_only ?j"
    by (simp_all add: sample_journal_def header_ok_def not_blank_def py_space_def code_def no_features_def)
  from journal_run.created [OF ok create_goal_journal [OF ok]] show ?thesis
    by (simp add: sample_journal_def)
qed

theorem goal_journal_keeps_records_witness:
  "\<exists>h. journal_load sample_journal = Inr (h, [])"
  using goal_journal_keeps_records [OF sample_journal_run] by auto

text \<open>
  Optimistic concurrency of the store: an append that expects another number of
  records than the journal has, or carries another sequence number or scope, is refused and leaves
  the file as it is; every other append of a valid record is acknowledged.
\<close>

theorem goal_append_is_checked:
  assumes "journal_run s rs" and "record_ok r"
  shows "if n = length rs \<and> gr_sequence r = int n + 1 \<and> gr_scope_id r = gh_scope_id (gj_header (fst s))
    then \<exists>s'. journal_put n r s = (Inr (gr_sequence r), s') \<and> journal_run s' (rs @ [r])
    else \<exists>e. journal_put n r s = (Inl e, s)"
proof -
  have holds: "journal_holds s rs" using journal_run_holds [OF assms(1)] by simp
  then obtain h where h: "header_ok h" "same_header h (gj_header (fst s))" "snd s = Some (goal_file h rs)"
    and j: "list_all record_ok rs" "gj_open (fst s)" "\<not> gj_read_only (fst s)"
    by (auto simp: journal_holds_def)
  note result = append_holds_journal [OF h(1,2) j, of n r]
  show ?thesis
  proof (cases "n = length rs \<and> gr_sequence r = int n + 1 \<and> gr_scope_id r = gh_scope_id (gj_header (fst s))")
    case True
    then have put: "journal_put n r s = (Inr (gr_sequence r), fst s, Some (goal_file h (rs @ [r])))"
      using result h(3) by (simp add: journal_put_def)
    from journal_run.appended [OF assms put] put True show ?thesis by auto
  next
    case False
    then show ?thesis using result h(3) by (auto simp: journal_put_def)
  qed
qed

theorem goal_append_is_checked_witness:
  "\<exists>e. journal_put 3 \<lparr>gr_sequence = 4, gr_scope_id = ''sc'', gr_goal_id = ''g'', gr_kind = ''created'',
     gr_command_id = ''c'', gr_data = [], gr_version = 1, gr_extensions = []\<rparr> sample_journal = (Inl e, sample_journal)"
proof -
  let ?r = "\<lparr>gr_sequence = 4, gr_scope_id = ''sc'', gr_goal_id = ''g'', gr_kind = ''created'',
     gr_command_id = ''c'', gr_data = [], gr_version = 1, gr_extensions = []\<rparr>"
  have "record_ok ?r"
    by (simp add: record_ok_def not_blank_def py_space_def code_def no_features_def goal_kinds_def)
  from goal_append_is_checked [OF sample_journal_run this, of 3] show ?thesis by simp
qed

end
