(* ===== verification/Goal_Controller.thy ===== *)
theory Goal_Controller
  imports Goal_Store Work_Runtime
begin

text \<open>
  The Goal controller (\<open>harnesswork/goal/controller.py\<close>, \<open>contracts.py\<close>): Goal commands over a record
  store and the Work runtime. A method without \<open>await\<close> is one action; \<open>advance\<close> and the other
  asynchronous methods are cut at their suspension points, and the frame they keep across a
  suspension is a value.

  The store's \<open>append\<close> is the argument \<open>append_to\<close>. What the two policies answer are arguments of the
  sections that use the answers; so are the identifiers that \<open>uuid4\<close> would give.
\<close>

section \<open>Data\<close>

datatype controller_error =
    GoalRaised goal_error
  | StoreRaised store_error
  | WorkRaised runtime_error
  | PolicyRaised string
  | TaskCancelled

record goal_basis =
  bs_header :: goal_header
  bs_goal :: goal_state
  bs_sequence :: nat

definition basis_identity :: "goal_basis \<Rightarrow> payload" where
  "basis_identity b = basis_data (bs_header b) (bs_goal b) (bs_sequence b)"

definition same_basis :: "goal_basis \<Rightarrow> goal_basis \<Rightarrow> bool" where
  "same_basis a b \<longleftrightarrow> same_header (bs_header a) (bs_header b) \<and> bs_goal a = bs_goal b
     \<and> bs_sequence a = bs_sequence b"

record goal_facts =
  gf_batches :: "goal_batch list"
  gf_runs :: "work_run list"
  gf_busy :: bool
  gf_unresolved :: bool

record work_candidate =
  wc_basis :: goal_basis
  wc_operation :: work_operation
  wc_spec :: run_spec
  wc_source :: payload

record goal_assessment =
  as_basis :: goal_basis
  as_status :: string
  as_reason :: string
  as_coverage :: "string list"
  as_operations :: "string list"
  as_proof :: payload

record 's controller =
  gc_header :: goal_header
  gc_store :: 's
  gc_work :: runtime
  gc_history :: goal_history
  gc_fenced :: bool
  gc_retired :: bool
  gc_quiescing :: bool
  gc_quiescence_error :: "controller_error option"
  gc_inflight :: "nat list"
  gc_advancing :: bool
  gc_last_error :: "controller_error option"

type_synonym ('s, 'a) control = "('s controller, controller_error, 'a) action"

type_synonym 's store_append = "nat \<Rightarrow> goal_record \<Rightarrow> 's \<Rightarrow> (store_error + int) \<times> 's"

section \<open>Small steps\<close>

definition fail_goal :: "string \<Rightarrow> ('s, 'a) control" where
  "fail_goal s = throw (GoalRaised (GoalError s))"

text \<open>A computation of the record component, whose errors the controller lets through.\<close>

definition lift_goal :: "goal_error + 'a \<Rightarrow> ('s, 'a) control" where
  "lift_goal m = (case m of Inl e \<Rightarrow> throw (GoalRaised e) | Inr x \<Rightarrow> give x)"

definition controller_fenced :: "'s controller \<Rightarrow> bool" where
  "controller_fenced c \<longleftrightarrow> gc_fenced c \<or> gc_retired c"

definition fence :: "('s, unit) control" where
  "fence = change (\<lambda>c. c\<lparr>gc_fenced := True\<rparr>)"

definition must_be_mutable :: "('s, unit) control" where
  "must_be_mutable = unless_raise (\<lambda>c. \<not> controller_fenced c)
     (GoalRaised (GoalError ''Goal controller fenced or retired''))"

definition query_goal :: "'s controller \<Rightarrow> string \<Rightarrow> goal_error + goal_state" where
  "query_goal c gid = history_goal (gc_history c) gid"

definition goal_batches :: "'s controller \<Rightarrow> string \<Rightarrow> nat" where
  "goal_batches c gid = length (filter (\<lambda>b. gb_goal_id b = gid) (hi_batches (gc_history c)))"

section \<open>Appending\<close>

text \<open>The record that \<open>append\<close> would write, and the history with it.\<close>

definition propose ::
  "'s controller \<Rightarrow> string \<Rightarrow> string \<Rightarrow> string \<Rightarrow> payload \<Rightarrow> goal_error + goal_record \<times> goal_history" where
  "propose c kind gid cid data =
     rbind (make_record (int (history_sequence (gc_history c)) + 1) (gh_scope_id (gc_header c)) gid kind cid data 1 [])
       (\<lambda>r. rbind (replay_goal (gc_header c) (hi_records (gc_history c) @ [r])) (\<lambda>h. Inr (r, h)))"

definition store_record :: "'s store_append \<Rightarrow> goal_record \<Rightarrow> goal_history \<Rightarrow> ('s, unit) control" where
  "store_record append_to r proposed c =
     (case append_to (history_sequence (gc_history c)) r (gc_store c) of
        (Inl e, s) \<Rightarrow> (Inl (StoreRaised e), c\<lparr>gc_store := s, gc_fenced := True\<rparr>)
      | (Inr ack, s) \<Rightarrow>
          if ack \<noteq> gr_sequence r then
            (Inl (GoalRaised (GoalError ''Goal append acknowledgement mismatch'')),
             c\<lparr>gc_store := s, gc_fenced := True\<rparr>)
          else (Inr (), c\<lparr>gc_store := s, gc_history := proposed\<rparr>))"

definition append_record :: "'s store_append \<Rightarrow> string \<Rightarrow> string \<Rightarrow> string \<Rightarrow> payload \<Rightarrow> ('s, unit) control" where
  "append_record append_to kind gid cid data =
     chain must_be_mutable (\<lambda>_. reading (\<lambda>c.
     chain (lift_goal (propose c kind gid cid data)) (\<lambda>(r, proposed). store_record append_to r proposed)))"

definition reload :: "('s \<Rightarrow> store_error + goal_header \<times> goal_record list) \<Rightarrow> ('s, unit) control" where
  "reload load = handle
     (reading (\<lambda>c.
        case load (gc_store c) of
          Inl e \<Rightarrow> throw (StoreRaised e)
        | Inr (header, records) \<Rightarrow>
            if \<not> same_header header (gc_header c) then fail_goal ''Goal store identity or policy changed''
            else chain (lift_goal (replay_goal header records)) (\<lambda>h. change (\<lambda>c. c\<lparr>gc_history := h\<rparr>))))
     (\<lambda>e. chain fence (\<lambda>_. throw e))"

section \<open>Commands\<close>

definition goal_request :: "string \<Rightarrow> string \<Rightarrow> int \<Rightarrow> int \<Rightarrow> payload \<Rightarrow> goal_error + string" where
  "goal_request act gid revision epoch data =
     rbind (goal_text (Some (JStr act))) (\<lambda>_.
     rbind (goal_text (Some (JStr gid))) (\<lambda>_.
     Inr (canonical (JObj [(''action'', JStr act), (''goal_id'', JStr gid), (''revision'', JInt revision),
       (''epoch'', JInt epoch), (''data'', JObj data)]))))"

definition cached_receipt ::
  "'s controller \<Rightarrow> string \<Rightarrow> string \<Rightarrow> string \<Rightarrow> int \<Rightarrow> int \<Rightarrow> payload \<Rightarrow> goal_error + command_receipt option" where
  "cached_receipt c act gid cid revision epoch data =
     rbind (goal_text (Some (JStr cid))) (\<lambda>_.
     rbind (goal_request act gid revision epoch data) (\<lambda>request.
     case map_of (hi_commands (gc_history c)) cid of
       None \<Rightarrow> Inr None
     | Some old \<Rightarrow>
         if cr_request old \<noteq> request then Inl (GoalError ''command id reused with different content'')
         else Inr (Some old)))"

definition command_effects :: "(string \<times> string) list" where
  "command_effects = [(''create'', ''created''), (''revise'', ''requirements_revised''), (''replace'', ''replaced''),
     (''pause'', ''control_changed''), (''resume'', ''control_changed''), (''abandon'', ''control_changed''),
     (''fail'', ''control_changed'')]"

text \<open>The synchronous effect is replayed after its command before either is written.\<close>

definition validate_effect ::
  "'s controller \<Rightarrow> string \<Rightarrow> string \<Rightarrow> string \<Rightarrow> string \<Rightarrow> payload \<Rightarrow> goal_error + unit" where
  "validate_effect c effect gid cid request data =
     (let sequence = int (history_sequence (gc_history c)); scope = gh_scope_id (gc_header c) in
      rbind (make_record (sequence + 1) scope gid ''command_received'' cid [(''request'', JStr request)] 1 []) (\<lambda>admission.
      rbind (make_record (sequence + 2) scope gid effect cid data 1 []) (\<lambda>primary.
      rbind (replay_goal (gc_header c) (hi_records (gc_history c) @ [admission, primary])) (\<lambda>_. Inr ()))))"

definition check_version :: "'s controller \<Rightarrow> string \<Rightarrow> string \<Rightarrow> int \<Rightarrow> int \<Rightarrow> goal_error + unit" where
  "check_version c act gid revision epoch =
     (if act = ''create'' then
        require (\<not> (map_of (hi_goals (gc_history c)) gid \<noteq> None \<or> live_goals (hi_goals (gc_history c)) \<noteq> 0))
          (GoalError ''Goal exists or scope already active'')
      else
        rbind (query_goal c gid) (\<lambda>g.
        require ((revision, epoch) = (gs_revision g, gs_epoch g)) (GoalError ''stale Goal command'')))"

definition begin_command ::
  "'s store_append \<Rightarrow> string \<Rightarrow> string \<Rightarrow> string \<Rightarrow> int \<Rightarrow> int \<Rightarrow> payload \<Rightarrow> ('s, command_receipt option) control" where
  "begin_command append_to act gid cid revision epoch data = reading (\<lambda>c.
     chain (lift_goal (cached_receipt c act gid cid revision epoch data)) (\<lambda>old.
     if old \<noteq> None then give old
     else
       chain must_be_mutable (\<lambda>_.
       chain (lift_goal (check_version c act gid revision epoch)) (\<lambda>_.
       chain (lift_goal (goal_request act gid revision epoch data)) (\<lambda>request.
       chain (case map_of command_effects act of
                None \<Rightarrow> give ()
              | Some effect \<Rightarrow> lift_goal (validate_effect c effect gid cid request data)) (\<lambda>_.
       chain (append_record append_to ''command_received'' gid cid [(''request'', JStr request)]) (\<lambda>_.
       give None)))))))"

definition finish_command ::
  "'s store_append \<Rightarrow> string \<Rightarrow> string \<Rightarrow> string \<Rightarrow> payload \<Rightarrow> ('s, command_receipt) control" where
  "finish_command append_to gid cid outcome details =
     chain (append_record append_to ''command_finished'' gid cid [(''outcome'', JStr outcome), (''details'', JObj details)]) (\<lambda>_.
     reading (\<lambda>c.
       case map_of (hi_commands (gc_history c)) cid of
         None \<Rightarrow> fail_goal ''unknown command''
       | Some receipt \<Rightarrow> give receipt))"

definition pause_command :: "'s store_append \<Rightarrow> string \<Rightarrow> string \<Rightarrow> string \<Rightarrow> ('s, command_receipt) control" where
  "pause_command append_to gid cid reason = reading (\<lambda>c.
     chain (lift_goal (query_goal c gid)) (\<lambda>g.
     chain (whenever (\<lambda>_. gs_status g = ''active'')
              (append_record append_to ''control_changed'' gid cid
                 [(''status'', JStr ''paused''), (''reason'', JStr reason)])) (\<lambda>_.
     finish_command append_to gid cid ''paused'' [(''reason'', JStr reason)])))"

text \<open>The three commands without a policy: a cached receipt, or the command with its effect.\<close>

definition run_command ::
  "'s store_append \<Rightarrow> string \<Rightarrow> string \<Rightarrow> string \<Rightarrow> int \<Rightarrow> int \<Rightarrow> payload \<Rightarrow> string \<Rightarrow> string \<Rightarrow> ('s, command_receipt) control" where
  "run_command append_to act gid cid revision epoch data effect outcome =
     chain (begin_command append_to act gid cid revision epoch data) (\<lambda>cached.
     case cached of
       Some receipt \<Rightarrow> give receipt
     | None \<Rightarrow>
         chain (append_record append_to effect gid cid data) (\<lambda>_.
         finish_command append_to gid cid outcome []))"

definition requirements_data :: "requirement list \<Rightarrow> json" where
  "requirements_data rs = JList (map (\<lambda>r. JObj [(''id'', JStr (rq_id r)), (''text'', JStr (rq_text r))]) rs)"

definition create_goal ::
  "'s store_append \<Rightarrow> string \<Rightarrow> requirement list \<Rightarrow> string \<Rightarrow> int \<Rightarrow> payload \<Rightarrow> ('s, command_receipt) control" where
  "create_goal append_to gid reqs cid limit metadata =
     chain (lift_goal (goal_positive (Some (JInt limit)))) (\<lambda>_.
     run_command append_to ''create'' gid cid 0 0
       [(''requirements'', requirements_data reqs), (''limit'', JInt limit), (''metadata'', JObj metadata)]
       ''created'' ''created'')"

definition revise_goal ::
  "'s store_append \<Rightarrow> string \<Rightarrow> requirement list \<Rightarrow> string \<Rightarrow> int \<Rightarrow> int \<Rightarrow> string \<Rightarrow> ('s, command_receipt) control" where
  "revise_goal append_to gid reqs cid revision epoch reason =
     chain (lift_goal (goal_text (Some (JStr reason)))) (\<lambda>_.
     run_command append_to ''revise'' gid cid revision epoch
       [(''requirements'', requirements_data reqs), (''reason'', JStr reason)]
       ''requirements_revised'' ''revised'')"

definition replace_goal ::
  "'s store_append \<Rightarrow> string \<Rightarrow> string \<Rightarrow> requirement list \<Rightarrow> string \<Rightarrow> int \<Rightarrow> int \<Rightarrow> string \<Rightarrow> int \<Rightarrow> payload \<Rightarrow>
     ('s, command_receipt) control" where
  "replace_goal append_to gid new_gid reqs cid revision epoch reason limit metadata =
     chain (lift_goal (goal_text (Some (JStr new_gid)))) (\<lambda>_.
     chain (lift_goal (goal_text (Some (JStr reason)))) (\<lambda>_.
     chain (lift_goal (goal_positive (Some (JInt limit)))) (\<lambda>_.
     run_command append_to ''replace'' gid cid revision epoch
       [(''new_goal_id'', JStr new_gid), (''requirements'', requirements_data reqs), (''reason'', JStr reason),
        (''limit'', JInt limit), (''metadata'', JObj metadata)]
       ''replaced'' ''replaced'')))"

section \<open>Facts of the Work runtime\<close>

definition run_for_operation :: "string \<Rightarrow> ('s, work_run option) control" where
  "run_for_operation operation c =
     (case get_run_for_operation (gc_work c) operation of
        (Inl e, rt) \<Rightarrow> (Inl (WorkRaised e), c\<lparr>gc_work := rt\<rparr>)
      | (Inr run, rt) \<Rightarrow> (Inr run, c\<lparr>gc_work := rt\<rparr>))"

text \<open>A part of the runtime's \<open>cancel\<close> on one of its runs; a \<open>CancelledError\<close> is one here, too.\<close>

definition on_work_run :: "string \<Rightarrow> 'a run_action \<Rightarrow> ('s, 'a) control" where
  "on_work_run run_id m c =
     (case map_of (rt_states (gc_work c)) run_id of
        None \<Rightarrow> (Inl (WorkRaised (UnknownRun run_id)), c)
      | Some st \<Rightarrow>
          (case m (rt_shared (gc_work c), st) of
             (r, (sh', st')) \<Rightarrow>
               ((case r of
                   Inl e \<Rightarrow> Inl (if e = ExecutionCancelled then TaskCancelled else WorkRaised e)
                 | Inr x \<Rightarrow> Inr x),
                c\<lparr>gc_work := (gc_work c)\<lparr>rt_shared := sh', rt_states := AList.update run_id st' (rt_states (gc_work c))\<rparr>\<rparr>)))"

text \<open>A finished run counts as unresolved unless its cancellation is known to be settled or absent.\<close>

definition run_unresolved :: "runtime \<Rightarrow> work_run \<Rightarrow> bool" where
  "run_unresolved rt run =
     (if r_status run = Orphaned then True
      else if r_status run \<in> {Completed, Failed, Cancelled} then
        (case get_cancellation rt (r_run_id run) of
           Inl _ \<Rightarrow> True
         | Inr record \<Rightarrow> k_status record \<notin> {''not_requested'', ''settled''})
      else False)"

definition batch_fact :: "goal_batch \<Rightarrow> work_run list \<times> bool \<Rightarrow> ('s, work_run list \<times> bool) control" where
  "batch_fact b = (\<lambda>(runs, unresolved).
     chain (run_for_operation (gb_operation_id b)) (\<lambda>found. reading (\<lambda>c.
     if gb_not_submitted b then
       (if found \<noteq> None then chain fence (\<lambda>_. fail_goal ''not_submitted contradicts original Work'')
        else give (runs, unresolved))
     else
       (case found of
          None \<Rightarrow> give (runs, True)
        | Some run \<Rightarrow>
            if r_session_id run \<noteq> gh_session_id (gc_header c)
               \<or> (gb_run_receipt b \<noteq> None \<and> gb_run_receipt b \<noteq> Some (r_run_id run)) then
              chain fence (\<lambda>_. fail_goal ''Work identity contradicts Goal association'')
            else give (runs @ [run], unresolved \<or> run_unresolved (gc_work c) run)))))"

primrec batch_facts :: "goal_batch list \<Rightarrow> work_run list \<times> bool \<Rightarrow> ('s, work_run list \<times> bool) control" where
  "batch_facts [] acc = give acc"
| "batch_facts (b # bs) acc = chain (batch_fact b acc) (batch_facts bs)"

definition work_facts :: "('s, goal_facts) control" where
  "work_facts =
     chain (unless_raise (\<lambda>c. \<not> gc_retired c) (GoalRaised (GoalError ''Goal controller retired''))) (\<lambda>_. reading (\<lambda>c0.
     chain (batch_facts (hi_batches (gc_history c0)) ([], False)) (\<lambda>(runs, unresolved). reading (\<lambda>c.
     give \<lparr>gf_batches = hi_batches (gc_history c), gf_runs = runs,
       gf_busy = (active_runs (gc_work c) (Some (gh_session_id (gc_header c))) \<noteq> []),
       gf_unresolved = unresolved\<rparr>))))"

definition must_be_idle :: "goal_facts \<Rightarrow> ('s, unit) control" where
  "must_be_idle facts =
     (if gf_unresolved facts \<or> gf_busy facts then
        fail_goal (if gf_unresolved facts then ''execution_unresolved'' else ''work_running'')
      else give ())"

text \<open>The constructor: the history is loaded and compared with the Work runtime.\<close>

definition open_controller ::
  "('s \<Rightarrow> store_error + goal_header \<times> goal_record list) \<Rightarrow> goal_header \<Rightarrow> 's \<Rightarrow> runtime \<Rightarrow>
     (controller_error + unit) \<times> 's controller" where
  "open_controller load header store work =
     chain (reload load) (\<lambda>_. discard work_facts)
       \<lparr>gc_header = header, gc_store = store, gc_work = work,
        gc_history = \<lparr>hi_header = header, hi_records = [], hi_goals = [], hi_batches = [], hi_commands = []\<rparr>,
        gc_fenced = False, gc_retired = False, gc_quiescing = False, gc_quiescence_error = None,
        gc_inflight = [], gc_advancing = False, gc_last_error = None\<rparr>"

section \<open>Basis\<close>

definition basis_of :: "'s controller \<Rightarrow> string \<Rightarrow> goal_error + goal_basis" where
  "basis_of c gid = rbind (query_goal c gid) (\<lambda>g.
     Inr \<lparr>bs_header = gc_header c, bs_goal = g, bs_sequence = history_sequence (gc_history c)\<rparr>)"

definition same_goal :: "'s controller \<Rightarrow> goal_basis \<Rightarrow> goal_error + bool" where
  "same_goal c b =
     (if controller_fenced c then Inr False
      else rbind (query_goal c (gs_id (bs_goal b))) (\<lambda>g. Inr (g = bs_goal b \<and> gs_status g = ''active'')))"

definition is_current :: "'s controller \<Rightarrow> goal_basis \<Rightarrow> goal_error + bool" where
  "is_current c b =
     (if controller_fenced c then Inr False
      else rbind (same_goal c b) (\<lambda>same. Inr (same \<and> history_sequence (gc_history c) = bs_sequence b)))"

section \<open>Control\<close>

definition control_statuses :: "(string \<times> string) list" where
  "control_statuses = [(''pause'', ''paused''), (''resume'', ''active''), (''abandon'', ''abandoned''), (''fail'', ''failed'')]"

text \<open>What \<open>confirm_resume\<close> answers: true, a \<open>PolicyStop\<close>, or anything else.\<close>

datatype confirmation = Confirmed | Stopped string | Unready

definition confirm_resume ::
  "confirmation \<Rightarrow> string \<Rightarrow> int option \<Rightarrow> ('s, unit) control" where
  "confirm_resume answer gid limit =
     chain work_facts (\<lambda>facts.
     chain (must_be_idle facts) (\<lambda>_. reading (\<lambda>c.
     chain (lift_goal (query_goal c gid)) (\<lambda>g.
     chain (if int (goal_batches c gid) \<ge> (case limit of None \<Rightarrow> gs_limit g | Some n \<Rightarrow> n)
            then fail_goal ''batch_limit'' else give ()) (\<lambda>_.
     chain (lift_goal (basis_of c gid)) (\<lambda>basis.
     chain (case answer of
              Confirmed \<Rightarrow> give ()
            | Stopped reason \<Rightarrow> fail_goal reason
            | Unready \<Rightarrow> fail_goal ''resume_not_ready'') (\<lambda>_. reading (\<lambda>c'.
     if controller_fenced c' then fail_goal ''resume basis changed during confirmation''
     else
       chain (lift_goal (query_goal c' gid)) (\<lambda>g'.
       if g' \<noteq> bs_goal basis \<or> history_sequence (gc_history c') \<noteq> bs_sequence basis
       then fail_goal ''resume basis changed during confirmation'' else give ())))))))))"

definition control_goal ::
  "'s store_append \<Rightarrow> confirmation \<Rightarrow> string \<Rightarrow> string \<Rightarrow> string \<Rightarrow> int \<Rightarrow> int \<Rightarrow> string \<Rightarrow> int option \<Rightarrow>
     ('s, command_receipt) control" where
  "control_goal append_to answer gid act cid revision epoch reason limit =
     (case map_of control_statuses act of
        None \<Rightarrow> fail_goal ''unknown Goal control''
      | Some status \<Rightarrow>
          chain (lift_goal (goal_text (Some (JStr reason)))) (\<lambda>_.
          chain (case limit of None \<Rightarrow> give () | Some n \<Rightarrow> discard (lift_goal (goal_positive (Some (JInt n))))) (\<lambda>_.
          let data = [(''status'', JStr status), (''reason'', JStr reason)] @
                (case limit of None \<Rightarrow> [] | Some n \<Rightarrow> [(''limit'', JInt n)]) in
          reading (\<lambda>c.
          chain (lift_goal (cached_receipt c act gid cid revision epoch data)) (\<lambda>old.
          case old of
            Some receipt \<Rightarrow> give receipt
          | None \<Rightarrow>
              chain must_be_mutable (\<lambda>_.
              chain (if act = ''resume'' then confirm_resume answer gid limit else give ()) (\<lambda>_.
              run_command append_to act gid cid revision epoch data ''control_changed'' act)))))))"

section \<open>Completion\<close>

definition assessment_statuses :: "string list" where
  "assessment_statuses = [''satisfied'', ''unmet'', ''more_evidence'', ''needs_user'']"

text \<open>What the completing record holds; the reducer checks it again.\<close>

definition decision_data :: "goal_assessment \<Rightarrow> payload" where
  "decision_data a =
     [(''basis'', JObj (basis_identity (as_basis a))), (''coverage'', JList (map JStr (as_coverage a))),
      (''operations'', JList (map JStr (as_operations a))), (''proof'', JObj (as_proof a))]"

definition own_batch :: "string \<Rightarrow> goal_state \<Rightarrow> string \<Rightarrow> goal_batch \<Rightarrow> bool" where
  "own_batch gid g operation b \<longleftrightarrow> gb_operation_id b = operation \<and> gb_goal_id b = gid
     \<and> gb_revision b = gs_revision g \<and> gb_epoch b = gs_epoch g \<and> gb_run_receipt b \<noteq> None \<and> \<not> gb_not_submitted b"

definition completed_run :: "string \<Rightarrow> work_run \<Rightarrow> bool" where
  "completed_run operation run \<longleftrightarrow> r_operation_id run = operation \<and> r_status run = Completed"

definition check_dependencies :: "string \<Rightarrow> goal_assessment \<Rightarrow> goal_facts \<Rightarrow> goal_error + unit" where
  "check_dependencies gid a facts =
     rbind (require (\<not> (gf_busy facts \<or> gf_unresolved facts)) (GoalError ''execution not settled'')) (\<lambda>_.
     rbind (require (list_all (\<lambda>operation. list_ex (own_batch gid (bs_goal (as_basis a)) operation) (gf_batches facts))
                       (as_operations a))
              (GoalError ''success dependency belongs to an old Goal basis'')) (\<lambda>_.
     require (list_all (\<lambda>operation. list_ex (completed_run operation) (gf_runs facts)) (as_operations a))
       (GoalError ''success dependency not completed in original Work'')))"

text \<open>\<open>confirmed\<close> is the answer of \<open>confirm_current\<close>.\<close>

definition complete_goal ::
  "'s store_append \<Rightarrow> bool \<Rightarrow> goal_assessment \<Rightarrow> string \<Rightarrow> string \<Rightarrow> ('s, command_receipt option) control" where
  "complete_goal append_to confirmed a gid cid = reading (\<lambda>c.
     chain (lift_goal (basis_of c gid)) (\<lambda>basis.
     if \<not> same_basis (as_basis a) basis then fail_goal ''assessment basis mismatch''
     else if as_status a \<notin> set assessment_statuses then fail_goal ''unknown assessment status''
     else if as_status a \<noteq> ''satisfied'' then give None
     else if as_proof a = [] \<or> as_operations a = []
        \<or> set (as_coverage a) \<noteq> rq_id ` set (gs_requirements (bs_goal (as_basis a)))
     then fail_goal ''incomplete acceptance proof''
     else
       chain work_facts (\<lambda>facts.
       chain (lift_goal (check_dependencies gid a facts)) (\<lambda>_. reading (\<lambda>c'.
       chain (if confirmed then lift_goal (is_current c' (as_basis a)) else give False) (\<lambda>current.
       if \<not> current then
         chain (pause_command append_to gid cid ''acceptance_outdated'') (\<lambda>receipt. give (Some receipt))
       else
         chain (append_record append_to ''acceptance_decided'' gid cid (decision_data a)) (\<lambda>_.
         chain (finish_command append_to gid cid ''completed'' []) (\<lambda>receipt. give (Some receipt)))))))))"

section \<open>Advance\<close>

text \<open>
  The frame of \<open>advance\<close> at each of its suspension points: the two calls of the acceptance policy,
  the preparation of a candidate, the wait for the run it submitted, and the cancellation of that run
  when the wait is cancelled.
\<close>

record advance_frame =
  af_task :: nat
  af_goal_id :: string
  af_command_id :: string
  af_goal :: goal_state
  af_basis :: goal_basis

datatype advance_state =
    Returns command_receipt
  | Assessing advance_frame goal_facts
  | Preparing advance_frame goal_facts
  | Waiting advance_frame string string
  | Stopping advance_frame string string cancel_wait
  | Reassessing advance_frame goal_basis string goal_facts

text \<open>The \<open>finally\<close> clause runs when the method returns or raises.\<close>

definition leave_advance :: "nat \<Rightarrow> 's controller \<Rightarrow> 's controller" where
  "leave_advance task c = c\<lparr>gc_inflight := filter (\<lambda>t. t \<noteq> task) (gc_inflight c), gc_advancing := False\<rparr>"

definition in_advance :: "nat \<Rightarrow> ('s, advance_state) control \<Rightarrow> ('s, advance_state) control" where
  "in_advance task m c =
     (case m c of
        (Inl e, c') \<Rightarrow> (Inl e, leave_advance task c')
      | (Inr (Returns receipt), c') \<Rightarrow> (Inr (Returns receipt), leave_advance task c')
      | (Inr suspended, c') \<Rightarrow> (Inr suspended, c'))"

definition returns :: "('s, command_receipt) control \<Rightarrow> ('s, advance_state) control" where
  "returns m = chain m (\<lambda>receipt. give (Returns receipt))"

text \<open>Until the first call of the acceptance policy. The current task is an argument.\<close>

definition advance_begin ::
  "'s store_append \<Rightarrow> nat \<Rightarrow> string \<Rightarrow> string \<Rightarrow> int \<Rightarrow> int \<Rightarrow> ('s, advance_state) control" where
  "advance_begin append_to task gid cid revision epoch = reading (\<lambda>c.
     chain (lift_goal (cached_receipt c ''advance'' gid cid revision epoch [])) (\<lambda>old.
     case old of
       Some receipt \<Rightarrow> give (Returns receipt)
     | None \<Rightarrow>
         chain must_be_mutable (\<lambda>_.
         if gc_advancing c then fail_goal ''Goal operation in progress''
         else
           chain (lift_goal (query_goal c gid)) (\<lambda>g.
           if gs_status g \<noteq> ''active'' then fail_goal ''Goal is not active''
           else
             chain work_facts (\<lambda>facts.
             chain (must_be_idle facts) (\<lambda>_.
             chain (begin_command append_to ''advance'' gid cid revision epoch []) (\<lambda>_.
             chain (change (\<lambda>c. c\<lparr>gc_inflight := List.insert task (gc_inflight c), gc_advancing := True\<rparr>)) (\<lambda>_.
             in_advance task (reading (\<lambda>c'.
               chain (lift_goal (basis_of c' gid)) (\<lambda>basis.
               give (Assessing \<lparr>af_task = task, af_goal_id = gid, af_command_id = cid, af_goal = g, af_basis = basis\<rparr>
                 facts))))))))))))"

text \<open>A policy or the task's cancellation raises at a suspension point.\<close>

definition advance_raised :: "advance_frame \<Rightarrow> controller_error \<Rightarrow> ('s, advance_state) control" where
  "advance_raised f e = in_advance (af_task f) (throw e)"

definition advance_assessed ::
  "'s store_append \<Rightarrow> advance_frame \<Rightarrow> goal_assessment \<Rightarrow> bool \<Rightarrow> ('s, advance_state) control" where
  "advance_assessed append_to f a confirmed = in_advance (af_task f) (reading (\<lambda>c.
     let gid = af_goal_id f; cid = af_command_id f in
     chain (lift_goal (is_current c (af_basis f))) (\<lambda>current.
     if \<not> current then returns (finish_command append_to gid cid ''stale'' [])
     else
       chain (complete_goal append_to confirmed a gid cid) (\<lambda>result.
       case result of
         Some receipt \<Rightarrow> give (Returns receipt)
       | None \<Rightarrow>
           if as_status a = ''needs_user'' then returns (pause_command append_to gid cid (as_reason a))
           else reading (\<lambda>c'.
             if int (goal_batches c' gid) \<ge> gs_limit (af_goal f)
             then returns (pause_command append_to gid cid ''batch_limit'')
             else chain work_facts (\<lambda>facts. give (Preparing f facts)))))))"

text \<open>What \<open>prepare\<close> answers.\<close>

datatype preparation = PolicyStop string | Prepared work_candidate

definition check_candidate :: "work_candidate \<Rightarrow> goal_basis \<Rightarrow> ('s, unit) control" where
  "check_candidate w basis = reading (\<lambda>c.
     if \<not> same_basis (wc_basis w) basis \<or> wo_session_id (wc_operation w) \<noteq> Some (gh_session_id (gc_header c))
     then fail_goal ''candidate basis or Session mismatch''
     else
       chain (run_for_operation (wo_operation_id (wc_operation w))) (\<lambda>found.
       if found \<noteq> None then fail_goal ''candidate operation already exists''
       else
         chain work_facts (\<lambda>facts.
         if gf_busy facts \<or> gf_unresolved facts then fail_goal ''original Work not idle/known'' else give ())))"

text \<open>\<open>WorkRuntime.accept\<close> on the borrowed runtime; it has no suspension before the admission.\<close>

definition accept_work ::
  "(work_operation \<Rightarrow> run_spec \<Rightarrow> runtime_error + bool) \<Rightarrow> string \<Rightarrow> work_operation \<Rightarrow> run_spec \<Rightarrow>
     ('s, work_run) control" where
  "accept_work resolve fresh op spec c =
     (case accept resolve fresh op spec (gc_work c) of
        (Inl e, rt) \<Rightarrow> (Inl (WorkRaised e), c\<lparr>gc_work := rt\<rparr>)
      | (Inr run, rt) \<Rightarrow> (Inr run, c\<lparr>gc_work := rt\<rparr>))"

definition intent_data :: "string \<Rightarrow> work_candidate \<Rightarrow> goal_basis \<Rightarrow> payload" where
  "intent_data bid w basis =
     [(''batch_id'', JStr bid), (''operation_id'', JStr (wo_operation_id (wc_operation w))),
      (''basis'', JObj (basis_identity basis)), (''source'', JObj (wc_source w))]"

text \<open>
  The test after the intent is written: the batch is this command's, nothing came between, the
  Goal is the one of the basis and the policy still wants the candidate. After an appended intent
  there is a last batch.
\<close>

definition intent_holds :: "'s controller \<Rightarrow> string \<Rightarrow> goal_basis \<Rightarrow> bool \<Rightarrow> goal_error + bool" where
  "intent_holds c cid basis confirmed =
     (let b = last (hi_batches (gc_history c)) in
      if gb_command_id b \<noteq> cid \<or> gb_intent_sequence b \<noteq> bs_sequence basis + 1
         \<or> history_sequence (gc_history c) \<noteq> gb_intent_sequence b then Inr False
      else rbind (same_goal c basis) (\<lambda>same. Inr (same \<and> confirmed)))"

definition retract_batch :: "'s store_append \<Rightarrow> advance_frame \<Rightarrow> string \<Rightarrow> string \<Rightarrow> ('s, command_receipt) control" where
  "retract_batch append_to f bid operation =
     chain (append_record append_to ''batch_not_submitted'' (af_goal_id f) (af_command_id f)
       [(''batch_id'', JStr bid), (''operation_id'', JStr operation)]) (\<lambda>_.
     finish_command append_to (af_goal_id f) (af_command_id f) ''not_submitted'' [])"

text \<open>The outer \<open>try\<close>: after the call of \<open>accept\<close> no exception proves that nothing was submitted.\<close>

definition dispatch ::
  "'s store_append \<Rightarrow> (work_operation \<Rightarrow> run_spec \<Rightarrow> runtime_error + bool) \<Rightarrow> string \<Rightarrow> advance_frame \<Rightarrow> string \<Rightarrow>
     work_candidate \<Rightarrow> ('s, advance_state) control" where
  "dispatch append_to resolve fresh f bid w =
     (let gid = af_goal_id f; cid = af_command_id f; operation = wo_operation_id (wc_operation w) in
      handle
        (chain (accept_work resolve fresh (wc_operation w) (wc_spec w)) (\<lambda>run.
         chain (append_record append_to ''batch_associated'' gid cid
           [(''batch_id'', JStr bid), (''operation_id'', JStr operation), (''run_id'', JStr (r_run_id run))]) (\<lambda>_.
         give (Waiting f (r_run_id run) operation))))
        (\<lambda>e.
         chain (change (\<lambda>c. c\<lparr>gc_last_error := Some e\<rparr>)) (\<lambda>_. reading (\<lambda>c.
         if gc_fenced c then throw e
         else returns (pause_command append_to gid cid ''acceptance_or_execution_unknown'')))))"

text \<open>
  \<open>confirm1\<close> and \<open>confirm2\<close> are the two answers of \<open>confirm_candidate\<close>; \<open>bid\<close> is the new batch id. The
  intent is written before the candidate is submitted.
\<close>

definition submit_batch ::
  "'s store_append \<Rightarrow> (work_operation \<Rightarrow> run_spec \<Rightarrow> runtime_error + bool) \<Rightarrow> string \<Rightarrow> string \<Rightarrow> advance_frame \<Rightarrow>
     work_candidate \<Rightarrow> bool \<Rightarrow> ('s, advance_state) control" where
  "submit_batch append_to resolve fresh bid f w confirm2 =
     chain (append_record append_to ''batch_intent'' (af_goal_id f) (af_command_id f) (intent_data bid w (af_basis f))) (\<lambda>_.
     reading (\<lambda>c.
     chain (lift_goal (intent_holds c (af_command_id f) (af_basis f) confirm2)) (\<lambda>holds.
     if \<not> holds then returns (retract_batch append_to f bid (wo_operation_id (wc_operation w)))
     else dispatch append_to resolve fresh f bid w)))"

definition submit_candidate ::
  "'s store_append \<Rightarrow> (work_operation \<Rightarrow> run_spec \<Rightarrow> runtime_error + bool) \<Rightarrow> string \<Rightarrow> string \<Rightarrow> advance_frame \<Rightarrow>
     work_candidate \<Rightarrow> bool \<Rightarrow> bool \<Rightarrow> ('s, advance_state) control" where
  "submit_candidate append_to resolve fresh bid f w confirm1 confirm2 =
     chain (check_candidate w (af_basis f)) (\<lambda>_. reading (\<lambda>c.
     chain (if confirm1 then lift_goal (is_current c (af_basis f)) else give False) (\<lambda>ready.
     if \<not> ready then returns (pause_command append_to (af_goal_id f) (af_command_id f) ''candidate_outdated'')
     else submit_batch append_to resolve fresh bid f w confirm2)))"

definition advance_prepared ::
  "'s store_append \<Rightarrow> (work_operation \<Rightarrow> run_spec \<Rightarrow> runtime_error + bool) \<Rightarrow> string \<Rightarrow> string \<Rightarrow> advance_frame \<Rightarrow>
     preparation \<Rightarrow> bool \<Rightarrow> bool \<Rightarrow> ('s, advance_state) control" where
  "advance_prepared append_to resolve fresh bid f answer confirm1 confirm2 = in_advance (af_task f) (reading (\<lambda>c.
     chain (lift_goal (is_current c (af_basis f))) (\<lambda>current.
     if \<not> current then returns (finish_command append_to (af_goal_id f) (af_command_id f) ''stale'' [])
     else
       (case answer of
          PolicyStop reason \<Rightarrow> returns (pause_command append_to (af_goal_id f) (af_command_id f) reason)
        | Prepared w \<Rightarrow> submit_candidate append_to resolve fresh bid f w confirm1 confirm2))))"

text \<open>The wait for the run has ended, with the exception it raised.\<close>

definition advance_worked ::
  "'s store_append \<Rightarrow> advance_frame \<Rightarrow> string \<Rightarrow> controller_error option \<Rightarrow> ('s, advance_state) control" where
  "advance_worked append_to f operation raised = in_advance (af_task f)
     (let gid = af_goal_id f; cid = af_command_id f in
      if raised = Some TaskCancelled then throw TaskCancelled
      else
        chain (case raised of None \<Rightarrow> give () | Some e \<Rightarrow> change (\<lambda>c. c\<lparr>gc_last_error := Some e\<rparr>)) (\<lambda>_.
        chain (unless_raise (\<lambda>c. \<not> gc_fenced c) (GoalRaised (GoalError ''controller fenced''))) (\<lambda>_. reading (\<lambda>c.
        chain (lift_goal (same_goal c (af_basis f))) (\<lambda>same.
        if \<not> same then returns (finish_command append_to gid cid ''stale'' [(''operation_id'', JStr operation)])
        else
          chain work_facts (\<lambda>facts.
          if gf_unresolved facts then returns (pause_command append_to gid cid ''execution_unresolved'')
          else reading (\<lambda>c1.
            chain (lift_goal (basis_of c1 gid)) (\<lambda>now. give (Reassessing f now operation facts)))))))))"

text \<open>
  The wait is cancelled: \<open>WorkRuntime.wait\<close> cancels the run before it raises. \<open>m\<close> is one part of that
  cancellation, in whose section \<open>advance\<close> goes on when it returns or raises.
\<close>

definition stop_waiting ::
  "'s store_append \<Rightarrow> advance_frame \<Rightarrow> string \<Rightarrow> string \<Rightarrow> cancel_wait run_action \<Rightarrow> ('s, advance_state) control" where
  "stop_waiting append_to f run_id operation m c =
     (case on_work_run run_id m c of
        (Inl e, c') \<Rightarrow> advance_worked append_to f operation (Some e) c'
      | (Inr w, c') \<Rightarrow>
          if w = Cancel_Returned then advance_worked append_to f operation (Some TaskCancelled) c'
          else (Inr (Stopping f run_id operation w), c'))"

definition advance_interrupted ::
  "'s store_append \<Rightarrow> advance_frame \<Rightarrow> string \<Rightarrow> string \<Rightarrow> ('s, advance_state) control" where
  "advance_interrupted append_to f run_id operation = stop_waiting append_to f run_id operation cancel_begin"

definition advance_stopped ::
  "'s store_append \<Rightarrow> advance_frame \<Rightarrow> string \<Rightarrow> string \<Rightarrow> cancel_wait \<Rightarrow> cancel_event \<Rightarrow> ('s, advance_state) control" where
  "advance_stopped append_to f run_id operation w event =
     stop_waiting append_to f run_id operation (cancel_resumed w event)"

definition advance_reassessed ::
  "'s store_append \<Rightarrow> advance_frame \<Rightarrow> goal_basis \<Rightarrow> string \<Rightarrow> goal_assessment \<Rightarrow> bool \<Rightarrow> ('s, advance_state) control" where
  "advance_reassessed append_to f now operation a confirmed = in_advance (af_task f) (reading (\<lambda>c.
     let gid = af_goal_id f; cid = af_command_id f; details = [(''operation_id'', JStr operation)] in
     chain (lift_goal (is_current c now)) (\<lambda>current.
     if \<not> current then returns (finish_command append_to gid cid ''stale'' details)
     else
       chain (complete_goal append_to confirmed a gid cid) (\<lambda>result.
       case result of
         Some receipt \<Rightarrow> give (Returns receipt)
       | None \<Rightarrow>
           returns (if as_status a = ''needs_user'' then pause_command append_to gid cid (as_reason a)
             else finish_command append_to gid cid ''work_finished'' details)))))"

section \<open>Cancelling and closing\<close>

text \<open>
  \<open>request_cancel\<close> calls the Work runtime's \<open>cancel\<close> for one run after the other: when that call
  suspends, the run, the batches still to look at, the results so far and the wait are its frame.
\<close>

datatype cancel_state =
    CancelReturns "cancellation_record list"
  | Cancelling_Run nat string string "goal_batch list" "cancellation_record list" cancel_wait

definition leave_cancel :: "nat \<Rightarrow> 's controller \<Rightarrow> 's controller" where
  "leave_cancel task c = c\<lparr>gc_inflight := filter (\<lambda>t. t \<noteq> task) (gc_inflight c)\<rparr>"

definition in_cancel :: "nat \<Rightarrow> ('s, cancel_state) control \<Rightarrow> ('s, cancel_state) control" where
  "in_cancel task m c =
     (case m c of
        (Inl e, c') \<Rightarrow> (Inl e, leave_cancel task c')
      | (Inr (CancelReturns results), c') \<Rightarrow> (Inr (CancelReturns results), leave_cancel task c')
      | (Inr suspended, c') \<Rightarrow> (Inr suspended, c'))"

text \<open>One call of \<open>cancel\<close>, or one part of it; \<open>next_batches\<close> goes on with the record of the cancelled run.\<close>

definition cancel_one ::
  "nat \<Rightarrow> string \<Rightarrow> string \<Rightarrow> goal_batch list \<Rightarrow> cancellation_record list \<Rightarrow> cancel_wait run_action \<Rightarrow>
     (cancellation_record list \<Rightarrow> ('s, cancel_state) control) \<Rightarrow> ('s, cancel_state) control" where
  "cancel_one task gid run_id bs results m next_batches =
     chain (on_work_run run_id m) (\<lambda>w.
     if w \<noteq> Cancel_Returned then give (Cancelling_Run task gid run_id bs results w)
     else reading (\<lambda>c.
       case get_cancellation (gc_work c) run_id of
         Inl e \<Rightarrow> throw (WorkRaised e)
       | Inr record \<Rightarrow> next_batches (results @ [record])))"

primrec cancel_batches ::
  "nat \<Rightarrow> string \<Rightarrow> goal_batch list \<Rightarrow> cancellation_record list \<Rightarrow> ('s, cancel_state) control" where
  "cancel_batches task gid [] = (\<lambda>results. give (CancelReturns results))"
| "cancel_batches task gid (b # bs) = (\<lambda>results.
     if gb_goal_id b \<noteq> gid \<or> gb_not_submitted b then cancel_batches task gid bs results
     else
       chain (run_for_operation (gb_operation_id b)) (\<lambda>found.
       case found of
         None \<Rightarrow> cancel_batches task gid bs results
       | Some run \<Rightarrow>
           if r_status run \<in> {Accepted, Running, Cancelling} then
             cancel_one task gid (r_run_id run) bs results cancel_begin (cancel_batches task gid bs)
           else cancel_batches task gid bs results))"

definition request_cancel_begin :: "nat \<Rightarrow> string \<Rightarrow> ('s, cancel_state) control" where
  "request_cancel_begin task gid =
     chain (unless_raise (\<lambda>c. \<not> (gc_retired c \<or> gc_quiescing c))
       (GoalRaised (GoalError ''Goal controller closing or retired''))) (\<lambda>_.
     chain (change (\<lambda>c. c\<lparr>gc_inflight := List.insert task (gc_inflight c)\<rparr>)) (\<lambda>_.
     in_cancel task (reading (\<lambda>c.
       chain (lift_goal (query_goal c gid)) (\<lambda>_.
       cancel_batches task gid (hi_batches (gc_history c)) [])))))"

definition request_cancel_resumed ::
  "nat \<Rightarrow> string \<Rightarrow> string \<Rightarrow> goal_batch list \<Rightarrow> cancellation_record list \<Rightarrow> cancel_wait \<Rightarrow> cancel_event \<Rightarrow>
     ('s, cancel_state) control" where
  "request_cancel_resumed task gid run_id bs results w event =
     in_cancel task (cancel_one task gid run_id bs results (cancel_resumed w event) (cancel_batches task gid bs))"

definition begin_close :: "('s, unit) control" where
  "begin_close = chain fence (\<lambda>_. change (\<lambda>c. c\<lparr>gc_quiescing := True\<rparr>))"

text \<open>The first section of \<open>quiesce\<close> returns the tasks that it cancels; with none it is done.\<close>

definition quiesce_begin :: "nat \<Rightarrow> ('s, nat list) control" where
  "quiesce_begin current =
     chain begin_close (\<lambda>_. reading (\<lambda>c.
     case gc_quiescence_error c of
       Some e \<Rightarrow> throw e
     | None \<Rightarrow> give (filter (\<lambda>t. t \<noteq> current) (gc_inflight c))))"

text \<open>What the gathered tasks raised; a cancelled task is not a failure.\<close>

definition quiesce_gathered :: "controller_error option list \<Rightarrow> ('s, unit) control" where
  "quiesce_gathered results =
     (case find (\<lambda>r. r \<noteq> None \<and> r \<noteq> Some TaskCancelled) results of
        Some (Some e) \<Rightarrow> chain (change (\<lambda>c. c\<lparr>gc_quiescence_error := Some e\<rparr>)) (\<lambda>_. throw e)
      | _ \<Rightarrow> give ())"

definition owns_operation :: "'s controller \<Rightarrow> string \<Rightarrow> bool" where
  "owns_operation c operation \<longleftrightarrow> list_ex (\<lambda>b. gb_operation_id b = operation) (hi_batches (gc_history c))"

text \<open>\<open>settle_work\<close> cancels the active runs it found, one after the other.\<close>

datatype settle_state = Settled | Settling_Run string cancel_wait "work_run list"

definition settle_one ::
  "string \<Rightarrow> work_run list \<Rightarrow> cancel_wait run_action \<Rightarrow> ('s, settle_state) control \<Rightarrow> ('s, settle_state) control" where
  "settle_one run_id runs m next_runs =
     chain (on_work_run run_id m) (\<lambda>w.
     if w \<noteq> Cancel_Returned then give (Settling_Run run_id w runs) else next_runs)"

primrec settle_runs :: "work_run list \<Rightarrow> ('s, settle_state) control" where
  "settle_runs [] = give Settled"
| "settle_runs (run # runs) = reading (\<lambda>c.
     if owns_operation c (r_operation_id run) then settle_one (r_run_id run) runs cancel_begin (settle_runs runs)
     else settle_runs runs)"

definition settle_begin :: "('s, settle_state) control" where
  "settle_begin =
     chain (unless_raise (\<lambda>c. \<not> gc_retired c) (GoalRaised (GoalError ''Goal controller retired''))) (\<lambda>_. reading (\<lambda>c.
     settle_runs (active_runs (gc_work c) (Some (gh_session_id (gc_header c))))))"

definition settle_resumed_work ::
  "string \<Rightarrow> work_run list \<Rightarrow> cancel_wait \<Rightarrow> cancel_event \<Rightarrow> ('s, settle_state) control" where
  "settle_resumed_work run_id runs w event = settle_one run_id runs (cancel_resumed w event) (settle_runs runs)"

definition retire :: "('s, unit) control" where
  "retire = reading (\<lambda>c.
     if gc_retired c then give ()
     else
       (case gc_quiescence_error c of
          Some e \<Rightarrow> throw e
        | None \<Rightarrow>
            if gc_inflight c \<noteq> []
               \<or> list_ex (\<lambda>run. owns_operation c (r_operation_id run))
                    (active_runs (gc_work c) (Some (gh_session_id (gc_header c))))
            then fail_goal ''borrowed capabilities still active''
            else change (\<lambda>c. c\<lparr>gc_retired := True, gc_fenced := True\<rparr>)))"

end
