(* ===== verification/Goal_Planning.thy ===== *)
theory Goal_Planning
  imports Goal_Controller
begin

text \<open>
  The task policy of a Goal (\<open>harnesswork/goal/tasks.py\<close>) over the selection of the next batch
  (\<open>batch_planning.py\<close>): what it reads of the batches and runs of a Goal, the candidate it prepares, its
  confirmation of a candidate, and its assessment. The methods of the domain and the readers of evidence
  that a subclass supplies are a record of functions, each what the port answers at that moment; the
  bindings of executors that they prepare, and \<open>trace\<close>, are left out.

  Exceptions are told apart as the code does: the rejection of a proposal and other \<open>GoalError\<close>s, then
  \<open>ValueError\<close>, \<open>OSError\<close> and \<open>KeyError\<close>, and anything else. Values are compared as Python compares
  them, whatever the order of the members of an object; a float is its literal. A reported rejection is text or nothing, as
  \<open>integrations/planning.py\<close> writes it.
\<close>

section \<open>Values\<close>

datatype planning_fault = Rejected string | GoalFault string | SourceFault string | OtherFault string

fun fault_text :: "planning_fault \<Rightarrow> string" where
  "fault_text (Rejected s) = s"
| "fault_text (GoalFault s) = s"
| "fault_text (SourceFault s) = s"
| "fault_text (OtherFault s) = s"

text \<open>\<open>True == 1\<close> in Python.\<close>

fun numeric :: "json \<Rightarrow> json" where
  "numeric (JBool b) = JInt (if b then 1 else 0)"
| "numeric (JList xs) = JList (map numeric xs)"
| "numeric (JObj d) = JObj (map (\<lambda>(k, v). (k, numeric v)) d)"
| "numeric v = v"

definition same_json :: "json \<Rightarrow> json \<Rightarrow> bool" where
  "same_json a b \<longleftrightarrow> sorted_keys (numeric a) = sorted_keys (numeric b)"

definition item_at :: "payload \<Rightarrow> string \<Rightarrow> planning_fault + json" where
  "item_at d k = (case map_of d k of None \<Rightarrow> Inl (SourceFault (CHR 0x27 # k @ [CHR 0x27])) | Some v \<Rightarrow> Inr v)"

section \<open>Tasks\<close>

record goal_task =
  gt_text :: string
  gt_checks :: "string list"
  gt_method :: "string option"
  gt_max_model_calls :: int

definition make_task :: "string \<Rightarrow> string list \<Rightarrow> string option \<Rightarrow> int \<Rightarrow> planning_fault + goal_task" where
  "make_task given checks method calls =
     rbind (require (not_blank given \<and> length (utf8 given) \<le> 16384)
       (GoalFault ''Goal text must contain 1-16384 UTF-8 bytes'')) (\<lambda>_.
     rbind (require (1 \<le> calls \<and> calls \<le> 32 \<and> length checks \<le> 8 \<and>
         list_all (\<lambda>c. not_blank c \<and> length (utf8 c) \<le> 4096) checks \<and>
         (case method of None \<Rightarrow> True | Some m \<Rightarrow> not_blank m))
       (GoalFault ''invalid Goal checks, method or call allowance'')) (\<lambda>_.
     Inr \<lparr>gt_text = given, gt_checks = checks, gt_method = method, gt_max_model_calls = calls\<rparr>))"

definition task_data :: "goal_task \<Rightarrow> payload" where
  "task_data t =
     [(''version'', JInt 1), (''checks'', JList (map JStr (gt_checks t))),
      (''method'', (case gt_method t of None \<Rightarrow> JNull | Some m \<Rightarrow> JStr m)),
      (''max_model_calls'', JInt (gt_max_model_calls t)), (''acceptance'', JStr ''human_required'')]"

definition task_policy_id :: string where
  "task_policy_id = ''interactive-task/v1''"

definition planning_intents_limit :: nat where "planning_intents_limit = 8"

definition invalid_proposals_limit :: nat where "invalid_proposals_limit = 3"

definition no_progress_limit :: nat where "no_progress_limit = 2"

definition task_contract :: "goal_basis \<Rightarrow> planning_fault + payload" where
  "task_contract b =
     rbind (item_at (gs_metadata (bs_goal b)) ''task_contract'') (\<lambda>v.
     case v of
       JObj agreed \<Rightarrow>
         rbind (require
           (same_json (get_none agreed ''version'') (JInt 1) \<and>
            map_of agreed ''acceptance'' = Some (JStr ''human_required'') \<and>
            gh_policy_id (bs_header b) = task_policy_id)
           (GoalFault ''unsupported interactive task contract'')) (\<lambda>_. Inr agreed)
     | _ \<Rightarrow> Inl (OtherFault ''task contract''))"

definition action_identity :: "goal_basis \<Rightarrow> json \<Rightarrow> planning_fault + string" where
  "action_identity b snapshot =
     rbind (task_contract b) (\<lambda>agreed.
     Inr (canonical (JObj
       [(''scope'', JStr (gh_scope_id (bs_header b))), (''session'', JStr (gh_session_id (bs_header b))),
        (''goal_id'', JStr (gs_id (bs_goal b))), (''revision'', JInt (gs_revision (bs_goal b))),
        (''epoch'', JInt (gs_epoch (bs_goal b))), (''contract'', JObj agreed), (''inventory'', snapshot)])))"

section \<open>Ports\<close>

record task_evidence =
  te_id :: string
  te_phase :: json
  te_status :: run_status
  te_revision :: int
  te_result :: payload

record ('p, 'c) task_ports =
  tp_session_id :: string
  tp_reports :: "string \<Rightarrow> string \<Rightarrow> (string \<times> json) list"
  tp_read :: "json \<Rightarrow> planning_fault + string"
  tp_decode :: "string \<Rightarrow> planning_fault + json"
  tp_digest :: "string \<Rightarrow> string"
  tp_verify :: "goal_batch \<Rightarrow> payload \<Rightarrow> string \<Rightarrow> string \<Rightarrow> planning_fault + unit"
  tp_parse :: "string \<Rightarrow> json list \<Rightarrow> planning_fault + 'p"
  tp_proposal_data :: "'p \<Rightarrow> json"
  tp_action_data :: "'p \<Rightarrow> json"
  tp_context :: "goal_basis \<Rightarrow> planning_fault + json \<times> 'c"
  tp_bind :: "goal_basis \<Rightarrow> 'p \<Rightarrow> json \<Rightarrow> 'c \<Rightarrow> task_evidence list \<Rightarrow> planning_fault + preparation"
  tp_plan :: "goal_basis \<Rightarrow> json \<Rightarrow> task_evidence list \<Rightarrow> (string \<times> json) list \<Rightarrow> (string \<times> string) list \<Rightarrow>
    planning_fault + preparation"
  tp_action_result :: "goal_batch \<Rightarrow> work_run \<Rightarrow> planning_fault + payload"
  tp_input_pending :: bool
  tp_pending_review :: bool
  tp_review :: "goal_basis \<Rightarrow> json \<Rightarrow> planning_fault + preparation"
  tp_review_dependencies :: "goal_basis \<Rightarrow> json \<Rightarrow> planning_fault + json"
  tp_confirm_domain :: "work_candidate \<Rightarrow> planning_fault + bool"

section \<open>Reading a batch\<close>

definition planned_run :: "('p, 'c) task_ports \<Rightarrow> goal_batch \<Rightarrow> goal_facts \<Rightarrow> planning_fault + work_run option" where
  "planned_run P b facts =
     (let found = filter (\<lambda>run. r_operation_id run = gb_operation_id b) (gf_runs facts) in
      if gb_not_submitted b then
        rbind (require (found = []) (GoalFault ''not_submitted contradicts Work'')) (\<lambda>_. Inr None)
      else
        rbind (require (length found = 1) (GoalFault ''planning Work association unknown'')) (\<lambda>_.
        let run = hd found in
        rbind (require (r_session_id run = tp_session_id P \<and>
            (gb_run_receipt b = None \<or> gb_run_receipt b = Some (r_run_id run)) \<and>
            r_status run \<in> {Completed, Failed, Cancelled})
          (GoalFault ''planning Work identity or outcome unresolved'')) (\<lambda>_.
        Inr (Some run))))"

definition planning_report :: "('p, 'c) task_ports \<Rightarrow> goal_batch \<Rightarrow> work_run \<Rightarrow> string \<Rightarrow> planning_fault + payload" where
  "planning_report P b run role =
     (case tp_reports P (gb_operation_id b) role of
        [(run_id, blob)] \<Rightarrow>
          rbind (require (run_id = r_run_id run) (GoalFault (role @ '': required original evidence missing or ambiguous''))) (\<lambda>_.
          rbind (tp_read P blob) (\<lambda>content.
          rbind (tp_decode P content) (\<lambda>v.
          case v of
            JObj d \<Rightarrow>
              rbind (require (map_of d ''version'' = Some (JInt 1) \<and>
                  map_of d ''operation_id'' = Some (JStr (gb_operation_id b)) \<and>
                  map_of d ''run_id'' = Some (JStr (r_run_id run)))
                (GoalFault ''planning report identity/version mismatch'')) (\<lambda>_. Inr d)
          | _ \<Rightarrow> Inl (GoalFault ''planning report identity/version mismatch''))))
      | _ \<Rightarrow> Inl (GoalFault (role @ '': required original evidence missing or ambiguous'')))"

text \<open>\<open>[item["id"] for item in inputs["evidence"]]\<close>.\<close>

definition known_evidence :: "json \<Rightarrow> planning_fault + json list" where
  "known_evidence inputs =
     (case inputs of
        JObj d \<Rightarrow>
          rbind (item_at d ''evidence'') (\<lambda>v.
          case v of
            JList items \<Rightarrow>
              rmap (\<lambda>item. case item of JObj e \<Rightarrow> item_at e ''id'' | _ \<Rightarrow> Inl (OtherFault ''evidence item'')) items
          | _ \<Rightarrow> Inl (OtherFault ''evidence''))
      | _ \<Rightarrow> Inl (OtherFault ''planning input''))"

text \<open>The \<open>except (ValueError, OSError, KeyError)\<close> around the reply.\<close>

definition as_inconsistent :: "planning_fault + 'a \<Rightarrow> planning_fault + 'a" where
  "as_inconsistent m =
     (case m of
        Inl (OtherFault s) \<Rightarrow> Inl (OtherFault s)
      | Inl _ \<Rightarrow> Inl (GoalFault ''original planning response evidence unavailable or inconsistent'')
      | Inr x \<Rightarrow> Inr x)"

definition read_proposal :: "('p, 'c) task_ports \<Rightarrow> goal_batch \<Rightarrow> work_run \<Rightarrow> planning_fault + 'p" where
  "read_proposal P b run =
     rbind (planning_report P b run ''goal_planning_report'') (\<lambda>report.
     rbind (require (map_of report ''session_id'' = Some (JStr (tp_session_id P)) \<and>
         same_json (get_none report ''input_ref'') (get_none (gb_source b) ''input_ref''))
       (GoalFault ''planning input identity mismatch'')) (\<lambda>_.
     case get_none report ''rejection'' of
       JNull \<Rightarrow>
         rbind (require (r_status run = Completed) (GoalFault ''noncompleted planning Work cannot supply a proposal'')) (\<lambda>_.
         rbind (item_at (gb_source b) ''input_ref'') (\<lambda>input_ref.
         rbind (tp_read P input_ref) (\<lambda>content.
         rbind (item_at (gb_source b) ''input_sha256'') (\<lambda>digest.
         rbind (require (digest = JStr (tp_digest P content)) (GoalFault ''planning input digest mismatch'')) (\<lambda>_.
         rbind (tp_decode P content) (\<lambda>inputs.
         rbind (item_at report ''response_ref'') (\<lambda>response_ref.
         rbind (tp_read P response_ref) (\<lambda>raw.
         rbind (as_inconsistent
           (rbind (tp_verify P b report content raw) (\<lambda>_.
            rbind (known_evidence inputs) (tp_parse P raw)))) (\<lambda>proposal.
         rbind (item_at report ''proposal'') (\<lambda>reported.
         rbind (require (same_json (tp_proposal_data P proposal) reported) (GoalFault ''planning parsed candidate mismatch'')) (\<lambda>_.
         Inr proposal)))))))))))
     | JStr reason \<Rightarrow> Inl (Rejected reason)
     | other \<Rightarrow> Inl (Rejected (canonical other))))"

section \<open>Observations\<close>

record task_observations =
  ob_evidence :: "task_evidence list"
  ob_routes :: "(string \<times> json) list"
  ob_rejections :: "(string \<times> string) list"
  ob_planning :: nat
  ob_invalid :: nat
  ob_stalled :: nat

definition no_observations :: task_observations where
  "no_observations = \<lparr>ob_evidence = [], ob_routes = [], ob_rejections = [], ob_planning = 0, ob_invalid = 0, ob_stalled = 0\<rparr>"

definition in_phase :: "string \<Rightarrow> goal_batch \<Rightarrow> bool" where
  "in_phase phase b \<longleftrightarrow> map_of (gb_source b) ''phase'' = Some (JStr phase)"

text \<open>The body of the loop of \<open>_observations\<close>.\<close>

definition observe_planning ::
  "('p, 'c) task_ports \<Rightarrow> goal_batch \<Rightarrow> work_run \<Rightarrow> task_observations \<Rightarrow> planning_fault + task_observations" where
  "observe_planning P b run ob =
     (case read_proposal P b run of
        Inl (Rejected reason) \<Rightarrow>
          Inr (ob\<lparr>ob_invalid := Suc (ob_invalid ob), ob_rejections := ob_rejections ob @ [(gb_operation_id b, reason)]\<rparr>)
      | Inl e \<Rightarrow> Inl e
      | Inr proposal \<Rightarrow> Inr (ob\<lparr>ob_routes := ob_routes ob @ [(gb_operation_id b, tp_proposal_data P proposal)]\<rparr>))"

definition observe_action ::
  "('p, 'c) task_ports \<Rightarrow> goal_batch \<Rightarrow> work_run \<Rightarrow> task_observations \<Rightarrow> planning_fault + task_observations" where
  "observe_action P b run ob =
     rbind (tp_action_result P b run) (\<lambda>result.
     rbind (item_at (gb_source b) ''phase'') (\<lambda>phase.
     let e = \<lparr>te_id = gb_operation_id b, te_phase = phase, te_status = r_status run, te_revision = gb_revision b,
           te_result = result\<rparr>;
         ob = ob\<lparr>ob_invalid := 0, ob_evidence := ob_evidence ob @ [e]\<rparr> in
     if phase \<noteq> JStr ''repair'' then Inr ob
     else
       rbind (item_at result ''inventory'') (\<lambda>reached.
       rbind (item_at (gb_source b) ''inventory'') (\<lambda>before.
       Inr (ob\<lparr>ob_stalled := (if same_json reached before then Suc (ob_stalled ob) else 0)\<rparr>)))))"

definition observe_batch ::
  "('p, 'c) task_ports \<Rightarrow> goal_basis \<Rightarrow> goal_facts \<Rightarrow> task_observations \<Rightarrow> goal_batch \<Rightarrow> planning_fault + task_observations" where
  "observe_batch P basis facts ob b =
     (if gb_goal_id b \<noteq> gs_id (bs_goal basis) then Inr ob
      else
        rbind (planned_run P b facts) (\<lambda>found.
        let ob = (if in_phase ''planning'' b then ob\<lparr>ob_planning := Suc (ob_planning ob)\<rparr> else ob) in
        case found of
          None \<Rightarrow> Inr ob
        | Some run \<Rightarrow>
            if r_status run = Cancelled then Inr ob
            else if in_phase ''planning'' b then observe_planning P b run ob
            else observe_action P b run ob))"

definition task_observe :: "('p, 'c) task_ports \<Rightarrow> goal_basis \<Rightarrow> goal_facts \<Rightarrow> planning_fault + task_observations" where
  "task_observe P basis facts = rfold (observe_batch P basis facts) no_observations (gf_batches facts)"

section \<open>Preparing a candidate\<close>

definition own_batches :: "goal_basis \<Rightarrow> goal_facts \<Rightarrow> goal_batch list" where
  "own_batches basis facts = filter (\<lambda>b. gb_goal_id b = gs_id (bs_goal basis)) (gf_batches facts)"

definition parent_proposal :: "goal_batch list \<Rightarrow> json" where
  "parent_proposal batches =
     (case find (\<lambda>b. ''proposal_id'' \<in> set (keys (gb_source b)) \<and> \<not> gb_not_submitted b) (rev batches) of
        None \<Rightarrow> JNull
      | Some b \<Rightarrow> get_none (gb_source b) ''proposal_id'')"

text \<open>The inner \<open>try\<close>: the candidate of the latest proposal.\<close>

definition bind_latest ::
  "('p, 'c) task_ports \<Rightarrow> goal_basis \<Rightarrow> json \<Rightarrow> 'c \<Rightarrow> task_evidence list \<Rightarrow> goal_batch list \<Rightarrow> goal_batch \<Rightarrow> work_run \<Rightarrow>
     planning_fault + preparation" where
  "bind_latest P basis snapshot context evidence batches latest run =
     rbind (read_proposal P latest run) (\<lambda>proposal.
     rbind (tp_bind P basis proposal snapshot context evidence) (\<lambda>answer.
     case answer of
       PolicyStop reason \<Rightarrow> Inr (PolicyStop reason)
     | Prepared w \<Rightarrow>
         rbind (item_at (gb_source latest) ''basis'') (\<lambda>planning_basis.
         Inr (Prepared (w\<lparr>wc_source := dict_merge (wc_source w)
           [(''proposal_id'', JStr (gb_operation_id latest)), (''planning_basis'', planning_basis),
            (''action'', tp_action_data P proposal), (''parent_proposal_id'', parent_proposal batches)]\<rparr>)))))"

definition usable_latest :: "goal_basis \<Rightarrow> goal_batch \<Rightarrow> bool" where
  "usable_latest basis b \<longleftrightarrow> in_phase ''planning'' b \<and> \<not> gb_not_submitted b \<and>
     gb_revision b = gs_revision (bs_goal basis) \<and> gb_epoch b = gs_epoch (bs_goal basis)"

definition choose_batch ::
  "('p, 'c) task_ports \<Rightarrow> goal_basis \<Rightarrow> goal_facts \<Rightarrow> planning_fault + preparation" where
  "choose_batch P basis facts =
     rbind (tp_context P basis) (\<lambda>(snapshot, context).
     rbind (task_observe P basis facts) (\<lambda>ob.
     if ob_invalid ob \<ge> invalid_proposals_limit then Inr (PolicyStop ''planning_invalid_limit'')
     else if ob_stalled ob \<ge> no_progress_limit then Inr (PolicyStop ''planning_no_progress_limit'')
     else
       let batches = own_batches basis facts;
           plan = (\<lambda>rejections.
             if ob_planning ob \<ge> planning_intents_limit then Inr (PolicyStop ''planning_intent_limit'')
             else tp_plan P basis snapshot (ob_evidence ob) (ob_routes ob) rejections) in
       if batches = [] \<or> \<not> usable_latest basis (last batches) then plan (ob_rejections ob)
       else
         rbind (item_at (gb_source (last batches)) ''inventory'') (\<lambda>before.
         if \<not> same_json before snapshot then plan (ob_rejections ob)
         else
           rbind (planned_run P (last batches) facts) (\<lambda>found.
           case found of
             None \<Rightarrow> Inl (OtherFault ''no run'')
           | Some run \<Rightarrow>
               if r_status run \<noteq> Completed then plan (ob_rejections ob)
               else
                 (case bind_latest P basis snapshot context (ob_evidence ob) batches (last batches) run of
                    Inr answer \<Rightarrow> Inr answer
                  | Inl (Rejected reason) \<Rightarrow>
                      if gb_operation_id (last batches) \<in> set (map fst (ob_rejections ob)) then plan (ob_rejections ob)
                      else if Suc (ob_invalid ob) \<ge> invalid_proposals_limit then Inr (PolicyStop ''planning_invalid_limit'')
                      else plan (ob_rejections ob @ [(gb_operation_id (last batches), reason)])
                  | Inl e \<Rightarrow> Inl e)))))"

definition batch_prepare :: "('p, 'c) task_ports \<Rightarrow> goal_basis \<Rightarrow> goal_facts \<Rightarrow> planning_fault + preparation" where
  "batch_prepare P basis facts =
     (if tp_input_pending P then Inr (PolicyStop ''pending_input'')
      else case choose_batch P basis facts of
        Inr answer \<Rightarrow> Inr answer
      | Inl (OtherFault s) \<Rightarrow> Inl (OtherFault s)
      | Inl e \<Rightarrow> Inr (PolicyStop (''planning_evidence_or_contract:'' @ fault_text e)))"

definition task_prepare :: "('p, 'c) task_ports \<Rightarrow> goal_basis \<Rightarrow> goal_facts \<Rightarrow> planning_fault + preparation" where
  "task_prepare P basis facts =
     rbind (tp_context P basis) (\<lambda>(snapshot, _).
     if tp_pending_review P then tp_review P basis snapshot
     else if int (length (own_batches basis facts)) \<ge> gs_limit (bs_goal basis) - 2 then Inr (PolicyStop ''closeout_capacity_reserved'')
     else batch_prepare P basis facts)"

definition task_confirm_resume :: "goal_facts \<Rightarrow> confirmation" where
  "task_confirm_resume facts = (if \<not> gf_busy facts \<and> \<not> gf_unresolved facts then Confirmed else Unready)"

section \<open>Confirming a candidate\<close>

definition names_proposal :: "json \<Rightarrow> goal_batch \<Rightarrow> bool" where
  "names_proposal proposal_id b \<longleftrightarrow> same_json (get_none (gb_source b) ''proposal_id'') proposal_id"

text \<open>The part about a proposal; \<open>replayed\<close> is what \<open>project_work_runs\<close> makes of the log.\<close>

definition confirm_proposal ::
  "('p, 'c) task_ports \<Rightarrow> planning_fault + work_run list \<Rightarrow> goal_history \<Rightarrow> work_candidate \<Rightarrow> json \<Rightarrow> planning_fault + bool" where
  "confirm_proposal P replayed h w proposal_id =
     (case filter (\<lambda>b. JStr (gb_operation_id b) = proposal_id) (hi_batches h) of
        [b] \<Rightarrow>
          if gb_not_submitted b \<or> gb_revision b \<noteq> gs_revision (bs_goal (wc_basis w)) \<or> gb_epoch b \<noteq> gs_epoch (bs_goal (wc_basis w))
          then Inr False
          else
            (case rbind replayed (\<lambda>runs.
               rbind (planned_run P b \<lparr>gf_batches = hi_batches h, gf_runs = runs, gf_busy = False, gf_unresolved = False\<rparr>) (\<lambda>found.
               case found of None \<Rightarrow> Inl (OtherFault ''no run'') | Some run \<Rightarrow> read_proposal P b run)) of
               Inl (OtherFault s) \<Rightarrow> Inl (OtherFault s)
             | Inl _ \<Rightarrow> Inr False
             | Inr proposal \<Rightarrow>
                 Inr (same_json (tp_action_data P proposal) (get_none (wc_source w) ''action'') \<and>
                   \<not> list_ex (\<lambda>b'. names_proposal proposal_id b' \<and> gb_operation_id b' \<noteq> wo_operation_id (wc_operation w)) (hi_batches h)))
      | _ \<Rightarrow> Inr False)"

definition confirm_place :: "goal_history \<Rightarrow> work_candidate \<Rightarrow> json \<Rightarrow> bool" where
  "confirm_place h w proposal_id =
     (let sequence = bs_sequence (wc_basis w) in
      if history_sequence h = sequence then
        proposal_id = JNull \<or> \<not> list_ex (names_proposal proposal_id) (hi_batches h)
      else if history_sequence h \<noteq> sequence + 1 \<or> hi_batches h = [] then False
      else
        let own = last (hi_batches h) in
        gb_operation_id own = wo_operation_id (wc_operation w) \<and> gb_intent_sequence own = history_sequence h \<and>
        same_json (JObj (gb_source own)) (JObj (wc_source w)) \<and>
        same_json (get_none (gr_data (last (hi_records h))) ''basis'') (JObj (basis_identity (wc_basis w))))"

definition batch_confirm ::
  "('p, 'c) task_ports \<Rightarrow> planning_fault + work_run list \<Rightarrow> goal_history \<Rightarrow> work_candidate \<Rightarrow> planning_fault + bool" where
  "batch_confirm P replayed h w =
     rbind (tp_confirm_domain P w) (\<lambda>domain.
     if \<not> domain then Inr False
     else case history_goal h (gs_id (bs_goal (wc_basis w))) of
       Inl _ \<Rightarrow> Inl (GoalFault ''unknown Goal'')
     | Inr g \<Rightarrow>
         if bs_goal (wc_basis w) \<noteq> g then Inr False
         else
           let proposal_id = get_none (wc_source w) ''proposal_id'' in
           rbind (if proposal_id = JNull then Inr True else confirm_proposal P replayed h w proposal_id) (\<lambda>known.
           Inr (known \<and> confirm_place h w proposal_id)))"

section \<open>Assessing\<close>

definition assessed :: "goal_basis \<Rightarrow> string \<Rightarrow> string \<Rightarrow> goal_assessment" where
  "assessed basis status reason =
     \<lparr>as_basis = basis, as_status = status, as_reason = reason, as_coverage = [], as_operations = [], as_proof = []\<rparr>"

definition review_of :: "goal_basis \<Rightarrow> goal_batch \<Rightarrow> bool" where
  "review_of basis b \<longleftrightarrow> gb_goal_id b = gs_id (bs_goal basis) \<and> gb_revision b = gs_revision (bs_goal basis) \<and>
     gb_epoch b = gs_epoch (bs_goal basis) \<and> in_phase ''review'' b"

text \<open>The loop over the reviews of the present revision and epoch, the latest first.\<close>

fun assess_reviews ::
  "('p, 'c) task_ports \<Rightarrow> goal_basis \<Rightarrow> goal_facts \<Rightarrow> json \<Rightarrow> goal_batch list \<Rightarrow> planning_fault + goal_assessment option" where
  "assess_reviews P basis facts snapshot [] = Inr None"
| "assess_reviews P basis facts snapshot (b # bs) =
     (if \<not> review_of basis b then assess_reviews P basis facts snapshot bs
      else
        rbind (planned_run P b facts) (\<lambda>found.
        case found of
          None \<Rightarrow> assess_reviews P basis facts snapshot bs
        | Some run \<Rightarrow>
            if r_status run \<noteq> Completed then assess_reviews P basis facts snapshot bs
            else
              rbind (tp_action_result P b run) (\<lambda>result.
              rbind (item_at result ''inventory'') (\<lambda>inventory.
              if \<not> same_json inventory snapshot then assess_reviews P basis facts snapshot bs
              else
                rbind (item_at result ''approved'') (\<lambda>approved.
                if approved \<noteq> JBool True then assess_reviews P basis facts snapshot bs
                else
                  (case tp_review_dependencies P basis snapshot of
                     Inl (Rejected s) \<Rightarrow> Inr (Some (assessed basis ''needs_user'' s))
                   | Inl (GoalFault s) \<Rightarrow> Inr (Some (assessed basis ''needs_user'' s))
                   | Inl e \<Rightarrow> Inl e
                   | Inr checks \<Rightarrow>
                       if same_json (get_none result ''checks'') checks then
                         Inr (Some \<lparr>as_basis = basis, as_status = ''satisfied'', as_reason = ''user_accepted_current_result'',
                           as_coverage = map rq_id (gs_requirements (bs_goal basis)), as_operations = [gb_operation_id b],
                           as_proof = result\<rparr>)
                       else assess_reviews P basis facts snapshot bs))))))"

definition task_assess :: "('p, 'c) task_ports \<Rightarrow> goal_basis \<Rightarrow> goal_facts \<Rightarrow> planning_fault + goal_assessment" where
  "task_assess P basis facts =
     (if gf_busy facts \<or> gf_unresolved facts then Inr (assessed basis ''needs_user'' ''execution_unresolved'')
      else
        rbind (tp_context P basis) (\<lambda>(snapshot, _).
        rbind (task_observe P basis facts) (\<lambda>ob.
        rbind (assess_reviews P basis facts snapshot (rev (gf_batches facts))) (\<lambda>found.
        case found of
          Some a \<Rightarrow> Inr a
        | None \<Rightarrow>
            if tp_pending_review P then Inr (assessed basis ''more_evidence'' ''record_user_review'')
            else if ob_invalid ob \<ge> invalid_proposals_limit \<or> ob_stalled ob \<ge> no_progress_limit
            then Inr (assessed basis ''needs_user'' ''planning_limit_or_no_progress'')
            else Inr (assessed basis ''more_evidence'' ''work_remaining'')))))"

text \<open>\<open>confirm_current\<close>; faults that it does not catch are \<open>OtherFault\<close>.\<close>

definition task_confirm_current ::
  "('p, 'c) task_ports \<Rightarrow> goal_history \<Rightarrow> goal_assessment \<Rightarrow> planning_fault + bool" where
  "task_confirm_current P h a =
     (case history_goal h (gs_id (bs_goal (as_basis a))) of
        Inl _ \<Rightarrow> Inr False
      | Inr g \<Rightarrow>
          if g \<noteq> bs_goal (as_basis a) then Inr False
          else
            (case tp_context P (as_basis a) of
               Inl (OtherFault s) \<Rightarrow> Inl (OtherFault s)
             | Inl _ \<Rightarrow> Inr False
             | Inr (snapshot, _) \<Rightarrow>
                 (case map_of (as_proof a) ''inventory'' of None \<Rightarrow> Inr False | Some v \<Rightarrow> Inr (same_json snapshot v))))"

end
