(* ===== verification/Goal_Properties.thy ===== *)
theory Goal_Properties
  imports Goal_History
begin

text \<open>
  The properties of replayed Goal histories, with a sample history in which one Goal is created,
  advanced by one batch and completed.
\<close>

section \<open>A sample history\<close>

definition sample_header :: goal_header where
  "sample_header = \<lparr>gh_scope_id = ''sc'', gh_session_id = ''s'', gh_policy_id = ''p'', gh_policy_version = 1,
     gh_version = 1, gh_extensions = []\<rparr>"

text \<open>One Goal \<open>g\<close> with one requirement and the limit one; its records are numbered from one.\<close>

definition sample_goal_record :: "nat \<Rightarrow> string \<Rightarrow> string \<Rightarrow> payload \<Rightarrow> goal_record" where
  "sample_goal_record n kind command data = \<lparr>gr_sequence = int n, gr_scope_id = ''sc'', gr_goal_id = ''g'',
     gr_kind = kind, gr_command_id = command, gr_data = data, gr_version = 1, gr_extensions = []\<rparr>"

definition sample_request :: "string \<Rightarrow> int \<Rightarrow> payload \<Rightarrow> payload" where
  "sample_request action version data = [(''action'', JStr action), (''data'', JObj data),
     (''epoch'', JInt version), (''goal_id'', JStr ''g''), (''revision'', JInt version)]"

definition sample_command :: "nat \<Rightarrow> string \<Rightarrow> string \<Rightarrow> int \<Rightarrow> payload \<Rightarrow> goal_record" where
  "sample_command n command action version data = sample_goal_record n ''command_received'' command
     [(''request'', JStr (canonical (JObj (sample_request action version data))))]"

definition sample_data :: payload where
  "sample_data = [(''requirements'', JList [JObj [(''id'', JStr ''q''), (''text'', JStr ''t'')]]),
     (''limit'', JInt 1), (''metadata'', JObj [])]"

definition sample_goal :: goal_state where
  "sample_goal = new_goal ''g'' [\<lparr>rq_id = ''q'', rq_text = ''t''\<rparr>] 1 []"

definition sample_created :: "goal_record list" where
  "sample_created = [sample_command 1 ''c'' ''create'' 0 sample_data,
     sample_goal_record 2 ''created'' ''c'' sample_data,
     sample_goal_record 3 ''command_finished'' ''c'' [(''outcome'', JStr ''created''), (''details'', JObj [])]]"

definition sample_basis :: "nat \<Rightarrow> payload" where
  "sample_basis n = basis_data sample_header sample_goal n"

lemma not_blank_letter [simp]: "\<not> py_space c \<Longrightarrow> not_blank (c # s)"
  by (simp add: not_blank_def)

lemma sample_not_blank:
  "not_blank ''sc''" "not_blank ''g''" "not_blank ''s''"
  by (simp_all add: py_space_def code_def)

lemma sample_decode:
  "k \<in> set goal_kinds \<Longrightarrow> not_blank c \<Longrightarrow> 0 < n \<Longrightarrow>
   decode_record (encode_record (sample_goal_record n k c d)) = Inr (sample_goal_record n k c d)"
  by (simp add: decode_encode_iff sample_goal_record_def stored_record_def no_features_def sample_not_blank)

lemma canonical_object: "\<exists>s. canonical (JObj d) = CHR ''{'' # s"
  by (simp add: canonical_def dumps_def compact_ascii_def)

lemma sample_keys_sorted: "sorted [''action'', ''data'', ''epoch'', ''goal_id'', ''revision'']"
  by code_simp

lemma sample_request_sorted:
  "sorted_keys (JObj (sample_request action version data)) =
    JObj [(''action'', JStr action), (''data'', sorted_keys (JObj data)),
       (''epoch'', JInt version), (''goal_id'', JStr ''g''), (''revision'', JInt version)]"
proof -
  let ?d = "[(''action'', JStr action), (''data'', sorted_keys (JObj data)),
       (''epoch'', JInt version), (''goal_id'', JStr ''g''), (''revision'', JInt version)]"
  have "sort_key fst ?d = ?d"
    using sample_keys_sorted by (intro sort_key_id_if_sorted) simp
  then show ?thesis by (simp add: sample_request_def)
qed

lemma sample_request_loads:
  "json_ok (JObj data) \<Longrightarrow> loads (canonical (JObj (sample_request action version data))) =
     Some (JObj [(''action'', JStr action), (''data'', sorted_keys (JObj data)),
       (''epoch'', JInt version), (''goal_id'', JStr ''g''), (''revision'', JInt version)])"
  unfolding sample_request_sorted [symmetric] by (rule loads_canonical) (simp add: sample_request_def)

definition sample_receipt :: "string \<Rightarrow> string \<Rightarrow> int \<Rightarrow> payload \<Rightarrow> command_receipt" where
  "sample_receipt command action version data =
     \<lparr>cr_id = command, cr_goal_id = ''g'',
      cr_request = canonical (JObj (sample_request action version data)),
      cr_outcome = ''pending'', cr_details = []\<rparr>"

lemma sample_step:
  "k \<in> set goal_kinds \<Longrightarrow> not_blank c \<Longrightarrow> 0 < n \<Longrightarrow>
   goal_step sample_header (n, q) (sample_goal_record n k c d) =
     rbind (goal_apply sample_header n (sample_goal_record n k c d) q) (\<lambda>q'. Inr (n + 1, q'))"
  by (simp add: goal_step_def sample_decode)

lemma sample_received:
  assumes "json_ok (JObj data)" and "action \<in> set goal_actions" and "not_blank c" and "0 < n"
    and "map_of (q_commands q) c = None"
    and "case map_of (q_goals q) ''g'' of Some g \<Rightarrow> gs_revision g = version \<and> gs_epoch g = version
      | None \<Rightarrow> action = ''create''"
    and "action = ''create'' \<longrightarrow> version = 0"
  shows "goal_step sample_header (n, q) (sample_command n c action version data) =
    Inr (n + 1, q\<lparr>q_commands := AList.update c (sample_receipt c action version data) (q_commands q)\<rparr>)"
proof -
  let ?request = "canonical (JObj (sample_request action version data))"
  let ?parsed = "[(''action'', JStr action), (''data'', sorted_keys (JObj data)),
       (''epoch'', JInt version), (''goal_id'', JStr ''g''), (''revision'', JInt version)]"
  let ?r = "sample_goal_record n ''command_received'' c [(''request'', JStr ?request)]"
  have loads: "loads ?request = Some (JObj ?parsed)" by (rule sample_request_loads [OF assms(1)])
  have "canonical (JObj ?parsed) = ?request"
    using canonical_sorted [of "JObj (sample_request action version data)"] unfolding sample_request_sorted .
  then have "check_request ''g'' ?request ?parsed = Inr ()"
    using assms(2) by (auto simp: check_request_def Let_def)
  moreover have "not_blank ?request" using canonical_object by (metis not_blank_brace)
  ultimately have "command_received ?r q =
      Inr (q\<lparr>q_commands := AList.update c (sample_receipt c action version data) (q_commands q)\<rparr>)"
    using assms(5-7) loads
    by (auto simp: command_received_def admit_command_def Let_def sample_goal_record_def sample_receipt_def
        split: option.splits)
  then show ?thesis
    using assms(3,4) unfolding sample_command_def
    by (simp add: sample_step goal_kinds_def goal_apply_def) (simp add: sample_goal_record_def sample_header_def)
qed

definition created_state :: goal_replay where
  "created_state = \<lparr>q_goals = [(''g'', sample_goal)],
     q_commands = [(''c'', (sample_receipt ''c'' ''create'' 0 sample_data)\<lparr>cr_outcome := ''created''\<rparr>)],
     q_batches = [], q_operations = [], q_effects = [(''c'', [''created''])]\<rparr>"

lemma sample_data_ok: "json_ok (JObj sample_data)"
  by (simp add: sample_data_def)

lemma request_value_sample:
  assumes "json_ok (JObj data)"
  shows "request_value (sample_receipt c action version data) ''action'' = Some (JStr action)"
    and "request_value (sample_receipt c action version data) ''data'' = Some (sorted_keys (JObj data))"
  using sample_request_loads [OF assms] by (simp_all add: request_value_def sample_receipt_def)

lemma sample_causing:
  assumes "json_ok (JObj data)" and "map_of (q_commands q) c = Some (sample_receipt c action version data)"
    and "action \<in> set (allowed_actions k)"
  shows "causing_command (sample_goal_record n k c d) q = Inr (sample_receipt c action version data)"
  using assms request_value_sample(1) [OF assms(1)]
  by (simp add: causing_command_def sample_goal_record_def) (simp add: sample_receipt_def)

lemma sample_effect:
  assumes "json_ok (JObj data)" and "map_of (q_commands q) c = Some (sample_receipt c action version data)"
    and "k \<in> set goal_kinds" "k \<noteq> ''command_received''" "k \<noteq> ''command_finished''"
    and "action \<in> set (allowed_actions k)" and "not_blank c" and "0 < n"
    and "note_effect (sample_goal_record n k c d) (sample_receipt c action version data) q = Inr q1"
    and "(if k = ''created'' then goal_created (sample_goal_record n k c d) q1
      else goal_changed sample_header n (sample_goal_record n k c d) q1) = Inr q2"
    and "live_goals (q_goals q2) \<le> 1"
  shows "goal_step sample_header (n, q) (sample_goal_record n k c d) = Inr (n + 1, q2)"
proof -
  have "gr_sequence (sample_goal_record n k c d) = int n" "gr_kind (sample_goal_record n k c d) = k"
    "gr_scope_id (sample_goal_record n k c d) = gh_scope_id sample_header"
    by (simp_all add: sample_goal_record_def sample_header_def)
  then show ?thesis
    using sample_causing [OF assms(1,2,6), of n d] assms(3-5,7-11)
    by (simp add: sample_step goal_apply_def)
qed

lemma sample_blank: "not_blank ''c''" "not_blank ''d''"
  by (simp_all add: py_space_def code_def)

lemma sample_created_run: "rfold (goal_step sample_header) (1, empty_replay) sample_created = Inr (4, created_state)"
proof -
  let ?c = "sample_receipt ''c'' ''create'' 0 sample_data"
  define q1 where "q1 = empty_replay\<lparr>q_commands := [(''c'', ?c)]\<rparr>"
  define q2 where "q2 = q1\<lparr>q_effects := [(''c'', [''created''])], q_goals := [(''g'', sample_goal)]\<rparr>"
  have c: "map_of (q_commands q1) ''c'' = Some ?c" "map_of (q_commands q2) ''c'' = Some ?c"
    by (simp_all add: q1_def q2_def)
  have one: "goal_step sample_header (1, empty_replay) (sample_command 1 ''c'' ''create'' 0 sample_data) = Inr (2, q1)"
    using sample_received [OF sample_data_ok _ sample_blank(1), of "''create''" 1 empty_replay 0]
    by (simp add: goal_actions_def empty_replay_def q1_def)
  have eff: "note_effect (sample_goal_record 2 ''created'' ''c'' sample_data) ?c q1 =
      Inr (q1\<lparr>q_effects := [(''c'', [''created''])]\<rparr>)"
    using request_value_sample [OF sample_data_ok]
    by (simp add: note_effect_def sample_goal_record_def q1_def empty_replay_def del: sorted_keys.simps)
  have create: "goal_created (sample_goal_record 2 ''created'' ''c'' sample_data)
      (q1\<lparr>q_effects := [(''c'', [''created''])]\<rparr>) = Inr q2"
    by (simp add: goal_created_def sample_goal_record_def q1_def q2_def empty_replay_def goal_of_data_def
        sample_data_def get_or_def sample_goal_def put_goal_def py_space_def code_def)
  have live: "live_goals (q_goals q2) \<le> 1"
    by (simp add: q2_def live_goals_def sample_goal_def new_goal_def terminal_statuses_def)
  have two: "goal_step sample_header (2, q1) (sample_goal_record 2 ''created'' ''c'' sample_data) = Inr (3, q2)"
    using sample_effect [OF sample_data_ok c(1) _ _ _ _ sample_blank(1) _ eff _ live] create
    by (simp add: goal_kinds_def allowed_actions_def)
  let ?r = "sample_goal_record 3 ''command_finished'' ''c'' [(''outcome'', JStr ''created''), (''details'', JObj [])]"
  have "command_finished ?r ?c q2 = Inr created_state"
    by (simp add: command_finished_def sample_goal_record_def get_or_def py_space_def code_def created_state_def
        q2_def q1_def empty_replay_def) (simp add: sample_receipt_def)
  then have "goal_apply sample_header 3 ?r q2 = Inr created_state"
    using sample_causing [OF sample_data_ok c(2), of "''command_finished''" 3 "[(''outcome'', JStr ''created''), (''details'', JObj [])]"]
    by (simp add: goal_apply_def allowed_actions_def goal_actions_def)
      (simp add: sample_goal_record_def sample_header_def)
  then have "goal_step sample_header (3, q2) ?r = Inr (4, created_state)"
    by (simp add: sample_step goal_kinds_def sample_blank)
  with one two show ?thesis by (simp add: sample_created_def)
qed

definition sample_batch :: "string option \<Rightarrow> goal_batch" where
  "sample_batch receipt = \<lparr>gb_id = ''b'', gb_goal_id = ''g'', gb_operation_id = ''o'', gb_revision = 1,
     gb_epoch = 1, gb_intent_sequence = 5, gb_command_id = ''d'', gb_source = [(''phase'', JStr ''review''), (''input_ref'', JStr ''i''), (''input_sha256'', JStr ''sum'')],
     gb_run_receipt = receipt, gb_not_submitted = False\<rparr>"

definition submitted_state :: goal_replay where
  "submitted_state = created_state\<lparr>
     q_commands := q_commands created_state @ [(''d'', sample_receipt ''d'' ''advance'' 1 [])],
     q_batches := [(''b'', sample_batch (Some ''r''))], q_operations := [''o''],
     q_effects := [(''c'', [''created'']), (''d'', [''batch_associated'', ''batch_intent''])]\<rparr>"

definition completed_data :: payload where
  "completed_data = [(''basis'', JObj (sample_basis 6)), (''coverage'', JList [JStr ''q'']),
     (''operations'', JList [JStr ''o'']), (''proof'', JObj [(''inventory'', JStr ''f''), (''approved'', JBool True), (''checks'', JList [])])]"

definition completed_state :: goal_replay where
  "completed_state = submitted_state\<lparr>
     q_goals := [(''g'', sample_goal\<lparr>gs_status := ''completed'', gs_reason := ''requirements_satisfied'',
       gs_acceptance := Some completed_data\<rparr>)],
     q_effects := [(''c'', [''created'']), (''d'', [''acceptance_decided'', ''batch_associated'', ''batch_intent''])]\<rparr>"

lemma sample_live:
  "live_goals [(''g'', sample_goal)] \<le> 1"
  "live_goals [(''g'', sample_goal\<lparr>gs_status := s, gs_reason := t, gs_acceptance := a\<rparr>)] \<le> 1"
  by (simp_all add: live_goals_def)

definition advanced_state :: goal_replay where
  "advanced_state = created_state\<lparr>
     q_commands := q_commands created_state @ [(''d'', sample_receipt ''d'' ''advance'' 1 [])]\<rparr>"

definition intended_state :: goal_replay where
  "intended_state = advanced_state\<lparr>q_batches := [(''b'', sample_batch None)], q_operations := [''o''],
     q_effects := [(''c'', [''created'']), (''d'', [''batch_intent''])]\<rparr>"

definition sample_advance :: goal_record where
  "sample_advance = sample_command 4 ''d'' ''advance'' 1 []"

definition sample_intent :: goal_record where
  "sample_intent = sample_goal_record 5 ''batch_intent'' ''d'' [(''batch_id'', JStr ''b''),
     (''operation_id'', JStr ''o''), (''basis'', JObj (sample_basis 4)), (''source'', JObj [(''phase'', JStr ''review''), (''input_ref'', JStr ''i''), (''input_sha256'', JStr ''sum'')])]"

definition sample_associated :: goal_record where
  "sample_associated = sample_goal_record 6 ''batch_associated'' ''d'' [(''batch_id'', JStr ''b''),
     (''operation_id'', JStr ''o''), (''run_id'', JStr ''r'')]"

definition sample_accepted :: goal_record where
  "sample_accepted = sample_goal_record 7 ''acceptance_decided'' ''d'' completed_data"

definition sample_submitted :: "goal_record list" where
  "sample_submitted = sample_created @ [sample_advance, sample_intent, sample_associated]"

definition sample_completed :: "goal_record list" where
  "sample_completed = sample_submitted @ [sample_accepted]"

lemma sample_advance_step: "goal_step sample_header (4, created_state) sample_advance = Inr (5, advanced_state)"
  using sample_received [of "[]" "''advance''" "''d''" 4 created_state 1] sample_blank
  by (simp add: sample_advance_def goal_actions_def created_state_def advanced_state_def sample_goal_def new_goal_def)

lemma sample_advance_receipt:
  "map_of (q_commands advanced_state) ''d'' = Some (sample_receipt ''d'' ''advance'' 1 [])"
  "map_of (q_commands intended_state) ''d'' = Some (sample_receipt ''d'' ''advance'' 1 [])"
  "map_of (q_commands submitted_state) ''d'' = Some (sample_receipt ''d'' ''advance'' 1 [])"
  by (simp_all add: advanced_state_def intended_state_def submitted_state_def created_state_def)

lemma sample_advance_effect:
  assumes "map_of (q_commands q) ''d'' = Some (sample_receipt ''d'' ''advance'' 1 [])"
    and "k \<in> {''batch_intent'', ''batch_associated'', ''acceptance_decided''}" and "0 < n"
    and "note_effect (sample_goal_record n k ''d'' d) (sample_receipt ''d'' ''advance'' 1 []) q = Inr q1"
    and "goal_changed sample_header n (sample_goal_record n k ''d'' d) q1 = Inr q2"
    and "live_goals (q_goals q2) \<le> 1"
  shows "goal_step sample_header (n, q) (sample_goal_record n k ''d'' d) = Inr (n + 1, q2)"
proof (rule sample_effect [OF _ assms(1) _ _ _ _ sample_blank(2) assms(3,4) _ assms(6)])
  show "(if k = ''created'' then goal_created (sample_goal_record n k ''d'' d) q1
      else goal_changed sample_header n (sample_goal_record n k ''d'' d) q1) = Inr q2"
    using assms(2,5) by auto
qed (use assms(2) in \<open>auto simp: goal_kinds_def allowed_actions_def\<close>)

lemma sample_intent_step: "goal_step sample_header (5, advanced_state) sample_intent = Inr (6, intended_state)"
proof -
  have eff: "note_effect sample_intent (sample_receipt ''d'' ''advance'' 1 []) advanced_state =
      Inr (advanced_state\<lparr>q_effects := [(''c'', [''created'']), (''d'', [''batch_intent''])]\<rparr>)"
    using request_value_sample [of "[]"]
    by (simp add: note_effect_def sample_intent_def sample_goal_record_def advanced_state_def created_state_def
        del: sorted_keys.simps)
  have changed: "goal_changed sample_header 5 sample_intent
      (advanced_state\<lparr>q_effects := [(''c'', [''created'']), (''d'', [''batch_intent''])]\<rparr>) = Inr intended_state"
    by (simp add: goal_changed_def sample_intent_def sample_goal_record_def advanced_state_def intended_state_def
        created_state_def batch_intent_def sample_goal_def new_goal_def goal_batch_count_def sample_basis_def
        put_batch_def sample_batch_def py_space_def code_def)
  have "live_goals (q_goals intended_state) \<le> 1"
    using sample_live(1) by (simp add: intended_state_def advanced_state_def created_state_def)
  from sample_advance_effect [OF sample_advance_receipt(1) _ _ eff [unfolded sample_intent_def]
      changed [unfolded sample_intent_def] this]
  show ?thesis by (simp add: sample_intent_def)
qed

lemma sample_associated_step:
  "goal_step sample_header (6, intended_state) sample_associated = Inr (7, submitted_state)"
proof -
  let ?eff = "[(''c'', [''created'']), (''d'', [''batch_associated'', ''batch_intent''])]"
  have eff: "note_effect sample_associated (sample_receipt ''d'' ''advance'' 1 []) intended_state =
      Inr (intended_state\<lparr>q_effects := ?eff\<rparr>)"
    using request_value_sample [of "[]"]
    by (simp add: note_effect_def sample_associated_def sample_goal_record_def intended_state_def advanced_state_def
        created_state_def del: sorted_keys.simps)
  have changed: "goal_changed sample_header 6 sample_associated (intended_state\<lparr>q_effects := ?eff\<rparr>) =
      Inr submitted_state"
    by (simp add: goal_changed_def sample_associated_def sample_goal_record_def intended_state_def
        advanced_state_def created_state_def submitted_state_def
        batch_closed_def close_batch_def put_batch_def sample_batch_def py_space_def code_def)
  have "live_goals (q_goals submitted_state) \<le> 1"
    using sample_live(1) by (simp add: submitted_state_def created_state_def)
  from sample_advance_effect [OF sample_advance_receipt(2) _ _ eff [unfolded sample_associated_def]
      changed [unfolded sample_associated_def] this]
  show ?thesis by (simp add: sample_associated_def)
qed

lemma sample_accepted_step:
  "goal_step sample_header (7, submitted_state) sample_accepted = Inr (8, completed_state)"
proof -
  let ?eff = "[(''c'', [''created'']), (''d'', [''acceptance_decided'', ''batch_associated'', ''batch_intent''])]"
  have eff: "note_effect sample_accepted (sample_receipt ''d'' ''advance'' 1 []) submitted_state =
      Inr (submitted_state\<lparr>q_effects := ?eff\<rparr>)"
    using request_value_sample [of "[]"]
    by (simp add: note_effect_def sample_accepted_def sample_goal_record_def submitted_state_def created_state_def
        del: sorted_keys.simps)
  have changed: "goal_changed sample_header 7 sample_accepted (submitted_state\<lparr>q_effects := ?eff\<rparr>) =
      Inr completed_state"
    by (simp add: goal_changed_def sample_accepted_def sample_goal_record_def submitted_state_def completed_state_def
        created_state_def acceptance_decided_def sample_goal_def new_goal_def completed_data_def sample_basis_def
        get_none_def put_goal_def cites_batch_def sample_batch_def Let_def)
  have "live_goals (q_goals completed_state) \<le> 1"
    using sample_live(2) by (simp add: completed_state_def)
  from sample_advance_effect [OF sample_advance_receipt(3) _ _ eff [unfolded sample_accepted_def]
      changed [unfolded sample_accepted_def] this]
  show ?thesis by (simp add: sample_accepted_def)
qed

lemma sample_runs:
  "rfold (goal_step sample_header) (1, empty_replay) (sample_created @ [sample_advance]) = Inr (5, advanced_state)"
  "rfold (goal_step sample_header) (1, empty_replay) ((sample_created @ [sample_advance]) @ [sample_intent]) =
     Inr (6, intended_state)"
  "rfold (goal_step sample_header) (1, empty_replay) sample_submitted = Inr (7, submitted_state)"
  "rfold (goal_step sample_header) (1, empty_replay) sample_completed = Inr (8, completed_state)"
  using sample_created_run sample_advance_step sample_intent_step sample_associated_step sample_accepted_step
  by (simp_all add: rfold_append sample_submitted_def sample_completed_def)

definition history_of :: "goal_record list \<Rightarrow> goal_replay \<Rightarrow> goal_history" where
  "history_of rs q = \<lparr>hi_header = sample_header, hi_records = rs, hi_goals = q_goals q,
     hi_batches = map snd (q_batches q), hi_commands = q_commands q\<rparr>"

lemma sample_replays:
  "replay_goal sample_header sample_created = Inr (history_of sample_created created_state)"
  "replay_goal sample_header sample_submitted = Inr (history_of sample_submitted submitted_state)"
  "replay_goal sample_header sample_completed = Inr (history_of sample_completed completed_state)"
  "replay_goal sample_header (sample_created @ [sample_advance]) =
     Inr (history_of (sample_created @ [sample_advance]) advanced_state)"
  "replay_goal sample_header ((sample_created @ [sample_advance]) @ [sample_intent]) =
     Inr (history_of ((sample_created @ [sample_advance]) @ [sample_intent]) intended_state)"
  using sample_created_run sample_runs by (simp_all add: replay_goal_def history_of_def)

section \<open>Properties\<close>

lemma distinct_values:
  assumes "distinct (keys d)" and "\<And>k v k' v'. map_of d k = Some v \<Longrightarrow> map_of d k' = Some v' \<Longrightarrow> f v = f v' \<Longrightarrow> k = k'"
  shows "distinct (map f (map snd d))"
proof -
  have "x = y" if "x \<in> set d" "y \<in> set d" "f (snd x) = f (snd y)" for x y
  proof -
    have "map_of d (fst x) = Some (snd x)" "map_of d (fst y) = Some (snd y)" using that assms(1) by simp_all
    then have "fst x = fst y" "snd x = snd y" using assms(2) that(3) by fastforce+
    then show ?thesis by (simp add: prod_eq_iff)
  qed
  then have "inj_on (f \<circ> snd) (set d)" by (auto intro: inj_onI)
  moreover have "distinct d" using assms(1) by (simp add: distinct_map)
  ultimately show ?thesis by (simp add: distinct_map o_def)
qed

lemma replay_goal_state:
  assumes "replay_goal header rs = Inr h"
  obtains n q where "rfold (goal_step header) (1, empty_replay) rs = Inr (n, q)" and "goal_inv q"
    and "h = \<lparr>hi_header = header, hi_records = rs, hi_goals = q_goals q, hi_batches = map snd (q_batches q),
      hi_commands = q_commands q\<rparr>"
  using assms replay_goal_inv unfolding replay_goal_Inr by blast

lemma batches_of_history_apart:
  assumes "replay_goal header rs = Inr h"
  shows "distinct (map gb_operation_id (hi_batches h))" and "distinct (map gb_command_id (hi_batches h))"
proof -
  obtain n q where q: "goal_inv q" and h: "h = \<lparr>hi_header = header, hi_records = rs, hi_goals = q_goals q,
      hi_batches = map snd (q_batches q), hi_commands = q_commands q\<rparr>"
    by (rule replay_goal_state [OF assms])
  have "distinct (keys (q_batches q))" "batches_apart (q_batches q)" using q by (simp_all add: goal_inv_def replay_ok_def)
  then have "distinct (map gb_operation_id (map snd (q_batches q)))" "distinct (map gb_command_id (map snd (q_batches q)))"
    unfolding batches_apart_def by (intro distinct_values; blast)+
  then show "distinct (map gb_operation_id (hi_batches h))" "distinct (map gb_command_id (hi_batches h))"
    by (simp_all add: h)
qed

text \<open>
  Property C13. Whatever records a Goal history accepts: at most one Goal of the scope is not in a
  terminal status, no two batches share an operation or a command, no batch is both associated with
  a run and declared not submitted, and every Goal is well formed.
\<close>

theorem goal_history_invariant:
  assumes "replay_goal header rs = Inr h"
  shows "live_goals (hi_goals h) \<le> 1 \<and>
    distinct (map gb_operation_id (hi_batches h)) \<and> distinct (map gb_command_id (hi_batches h)) \<and>
    list_all (\<lambda>b. gb_run_receipt b = None \<or> \<not> gb_not_submitted b) (hi_batches h) \<and>
    list_all (\<lambda>(gid, g). gs_id g = gid \<and> gs_requirements g \<noteq> [] \<and> distinct (map rq_id (gs_requirements g)) \<and>
      1 \<le> gs_limit g \<and> 1 \<le> gs_revision g \<and> gs_revision g \<le> gs_epoch g \<and>
      gs_status g \<in> set goal_statuses) (hi_goals h)"
proof -
  obtain n q where q: "goal_inv q" and h: "h = \<lparr>hi_header = header, hi_records = rs, hi_goals = q_goals q,
      hi_batches = map snd (q_batches q), hi_commands = q_commands q\<rparr>"
    by (rule replay_goal_state [OF assms])
  have keys: "distinct (keys (q_batches q))" "distinct (keys (q_goals q))" using q by (simp_all add: goal_inv_def replay_ok_def)
  have "distinct (map gb_operation_id (map snd (q_batches q)))" "distinct (map gb_command_id (map snd (q_batches q)))"
    using batches_of_history_apart [OF assms] by (simp_all add: h)
  moreover have "gb_run_receipt b = None \<or> \<not> gb_not_submitted b" if "(bid, b) \<in> set (q_batches q)" for bid b
    using q that keys(1) unfolding goal_inv_def batch_ok_def by (metis map_of_is_SomeI)
  moreover have "goal_ok (q_batches q) gid g" if "(gid, g) \<in> set (q_goals q)" for gid g
    using q that keys(2) unfolding goal_inv_def by (metis map_of_is_SomeI)
  moreover have "live_goals (q_goals q) \<le> 1" using q by (simp add: goal_inv_def)
  ultimately show ?thesis unfolding h goal_ok_def by (force simp: list_all_iff)
qed

theorem goal_history_invariant_witness:
  "live_goals (hi_goals (history_of sample_submitted submitted_state)) \<le> 1 \<and>
   hi_batches (history_of sample_submitted submitted_state) = [sample_batch (Some ''r'')]"
  using goal_history_invariant [OF sample_replays(2)]
  by (simp add: history_of_def submitted_state_def)

text \<open>
  A Goal is completed on evidence only: a completed Goal holds the decision that
  completed it, whose coverage is exactly the set of its requirements and whose operations, at least
  one, are all operations of its own batches of the very revision and epoch it has, each with the
  run it was associated with.
\<close>

theorem completion_is_evidenced:
  assumes "replay_goal header rs = Inr h" and "map_of (hi_goals h) gid = Some g"
    and "gs_status g = ''completed''"
  shows "\<exists>d coverage required. gs_acceptance g = Some d \<and>
    map_of d ''coverage'' = Some (JList coverage) \<and>
    set coverage = JStr ` rq_id ` set (gs_requirements g) \<and>
    map_of d ''operations'' = Some (JList required) \<and> required \<noteq> [] \<and>
    (\<forall>operation \<in> set required. \<exists>b \<in> set (hi_batches h).
       operation = JStr (gb_operation_id b) \<and> gb_goal_id b = gid \<and> gb_run_receipt b \<noteq> None \<and>
       gb_revision b = gs_revision g \<and> gb_epoch b = gs_epoch g)"
proof -
  obtain n q where q: "goal_inv q" and h: "h = \<lparr>hi_header = header, hi_records = rs, hi_goals = q_goals q,
      hi_batches = map snd (q_batches q), hi_commands = q_commands q\<rparr>"
    by (rule replay_goal_state [OF assms(1)])
  have "supported (q_batches q) gid g" using q assms(2,3) unfolding h by (simp add: goal_inv_def goal_ok_def)
  then obtain d coverage required where "gs_acceptance g = Some d" "map_of d ''coverage'' = Some (JList coverage)"
    "set coverage = JStr ` rq_id ` set (gs_requirements g)" "map_of d ''operations'' = Some (JList required)"
    "required \<noteq> []" and cited: "\<forall>operation \<in> set required. cited (q_batches q) gid g operation"
    unfolding supported_def by blast
  moreover have "\<exists>b \<in> set (hi_batches h). operation = JStr (gb_operation_id b) \<and> gb_goal_id b = gid \<and>
      gb_run_receipt b \<noteq> None \<and> gb_revision b = gs_revision g \<and> gb_epoch b = gs_epoch g"
    if op: "operation \<in> set required" for operation
  proof -
    obtain x where "x \<in> set (q_batches q)" "cites_batch gid g operation (snd x)"
      using cited op unfolding cited_def by blast
    then show ?thesis by (intro bexI [of _ "snd x"]) (simp_all add: h cites_batch_def)
  qed
  ultimately show ?thesis by (intro exI [of _ d] exI [of _ coverage] exI [of _ required]) simp
qed

theorem completion_is_evidenced_witness:
  "\<exists>d required. gs_acceptance (the (map_of (hi_goals (history_of sample_completed completed_state)) ''g'')) = Some d \<and>
     map_of d ''operations'' = Some (JList required) \<and> required \<noteq> []"
proof -
  define g where "g = sample_goal\<lparr>gs_status := ''completed'', gs_reason := ''requirements_satisfied'',
     gs_acceptance := Some completed_data\<rparr>"
  have g: "map_of (hi_goals (history_of sample_completed completed_state)) ''g'' = Some g"
    by (simp add: history_of_def completed_state_def g_def)
  have "gs_status g = ''completed''" by (simp add: g_def)
  from completion_is_evidenced [OF sample_replays(3) g this]
  obtain d required where "gs_acceptance g = Some d" "map_of d ''operations'' = Some (JList required)" "required \<noteq> []"
    by blast
  then show ?thesis unfolding g option.sel by (intro exI conjI)
qed

text \<open>
  Property C14. A history only grows: in any extension of it that is accepted, every Goal keeps its
  identity and metadata, its revision and epoch never go back, an unchanged epoch means the same
  requirements and limit, and an abandoned, failed or superseded Goal stays exactly as it is; every
  batch is either unchanged or has just been closed, once; every finished command keeps its outcome.
\<close>

theorem goal_history_only_grows:
  assumes "replay_goal header rs = Inr h" and "replay_goal header (rs @ rs') = Inr h'"
  shows "(\<forall>gid g. map_of (hi_goals h) gid = Some g \<longrightarrow>
      (\<exists>g'. map_of (hi_goals h') gid = Some g' \<and> goal_evolves g g')) \<and>
    (\<forall>b \<in> set (hi_batches h). b \<in> set (hi_batches h') \<or> (\<exists>b' \<in> set (hi_batches h'). batch_moves b b')) \<and>
    (\<forall>cid c. map_of (hi_commands h) cid = Some c \<longrightarrow>
      (\<exists>c'. map_of (hi_commands h') cid = Some c' \<and> (c' = c \<or> command_moves c c')))"
proof -
  obtain n q where run: "rfold (goal_step header) (1, empty_replay) rs = Inr (n, q)" and q: "goal_inv q"
    and h: "h = \<lparr>hi_header = header, hi_records = rs, hi_goals = q_goals q,
      hi_batches = map snd (q_batches q), hi_commands = q_commands q\<rparr>"
    by (rule replay_goal_state [OF assms(1)])
  obtain n' q' where run': "rfold (goal_step header) (1, empty_replay) (rs @ rs') = Inr (n', q')"
    and h': "h' = \<lparr>hi_header = header, hi_records = rs @ rs', hi_goals = q_goals q',
      hi_batches = map snd (q_batches q'), hi_commands = q_commands q'\<rparr>"
    by (rule replay_goal_state [OF assms(2)])
  have before: "replay_before q q'" by (rule replay_goal_before [OF run run'])
  have "b \<in> snd ` set (q_batches q') \<or> (\<exists>b' \<in> snd ` set (q_batches q'). batch_moves b b')"
    if "(bid, b) \<in> set (q_batches q)" for bid b
  proof -
    have "map_of (q_batches q) bid = Some b" using that q by (simp add: goal_inv_def replay_ok_def)
    from replay_beforeD(2) [OF before this] show ?thesis by (force dest: map_of_SomeD)
  qed
  then show ?thesis
    using replay_beforeD(1,3) [OF before] unfolding h h' by fastforce
qed

theorem goal_history_only_grows_witness:
  "\<exists>b' \<in> set (hi_batches (history_of sample_completed completed_state)).
     b' = sample_batch (Some ''r'') \<or> batch_moves (sample_batch (Some ''r'')) b'"
proof -
  have "sample_batch (Some ''r'') \<in> set (hi_batches (history_of sample_submitted submitted_state))"
    by (simp add: history_of_def submitted_state_def)
  then show ?thesis
    using goal_history_only_grows [OF sample_replays(2) sample_replays(3) [unfolded sample_completed_def]]
    unfolding sample_completed_def by blast
qed

text \<open>
  The batch limit and the basis of every submission: a record that adds a batch to an
  accepted history adds it to a Goal that was active in it, with that Goal's revision and epoch, when
  the Goal had fewer batches than its limit, and with an operation and a command of no earlier batch.
\<close>

theorem batch_within_limit:
  assumes "replay_goal header rs = Inr h" and "replay_goal header (rs @ [r]) = Inr h'"
    and "b \<in> set (hi_batches h')" and "gb_id b \<notin> gb_id ` set (hi_batches h)"
  shows "\<exists>g. map_of (hi_goals h) (gb_goal_id b) = Some g \<and> gs_status g = ''active'' \<and>
    gb_revision b = gs_revision g \<and> gb_epoch b = gs_epoch g \<and>
    int (length (filter (\<lambda>b'. gb_goal_id b' = gb_goal_id b) (hi_batches h))) < gs_limit g \<and>
    gb_operation_id b \<notin> gb_operation_id ` set (hi_batches h) \<and>
    gb_command_id b \<notin> gb_command_id ` set (hi_batches h)"
proof -
  obtain n q where run: "rfold (goal_step header) (1, empty_replay) rs = Inr (n, q)" and q: "goal_inv q"
    and h: "h = \<lparr>hi_header = header, hi_records = rs, hi_goals = q_goals q,
      hi_batches = map snd (q_batches q), hi_commands = q_commands q\<rparr>"
    by (rule replay_goal_state [OF assms(1)])
  obtain n' q' where run': "rfold (goal_step header) (1, empty_replay) (rs @ [r]) = Inr (n', q')" and q': "goal_inv q'"
    and h': "h' = \<lparr>hi_header = header, hi_records = rs @ [r], hi_goals = q_goals q',
      hi_batches = map snd (q_batches q'), hi_commands = q_commands q'\<rparr>"
    by (rule replay_goal_state [OF assms(2)])
  have "goal_step header (n, q) r = Inr (n', q')" using run run' by (simp add: rfold_snoc)
  then have "goal_transition q q'" using goal_step_cases(1) by fastforce
  then have dict_follows: "dict_follows (\<lambda>_. batch_moves) (fresh_batch q) (q_batches q) (q_batches q')"
    by (simp add: goal_transition_def)
  have dist: "distinct (keys (q_batches q))" "distinct (keys (q_batches q'))"
    using q q' by (simp_all add: goal_inv_def replay_ok_def)
  obtain bid where bid: "map_of (q_batches q') bid = Some b" using assms(3) dist(2) unfolding h' by auto
  then have "gb_id b = bid" using q' by (auto simp: goal_inv_def batch_ok_def)
  have old_id: "gb_id c = k" "c \<in> set (hi_batches h)" if "map_of (q_batches q) k = Some c" for k c
    using that q unfolding h by (force simp: goal_inv_def batch_ok_def dest: map_of_SomeD)+
  from dict_follows bid have "fresh_batch q bid b"
  proof (cases rule: dict_followsE)
    case (old c)
    then have "bid \<in> gb_id ` set (hi_batches h)" using old_id [OF old(1)] by blast
    then show ?thesis using assms(4) \<open>gb_id b = bid\<close> by simp
  qed
  then obtain g where g: "map_of (q_goals q) (gb_goal_id b) = Some g" "gs_status g = ''active''"
      "gb_revision b = gs_revision g" "gb_epoch b = gs_epoch g"
      "int (goal_batch_count (gb_goal_id b) (q_batches q)) < gs_limit g"
    and op: "gb_operation_id b \<notin> set (q_operations q)"
    and command: "map_of (q_batches q) k = Some c \<Longrightarrow> gb_command_id c \<noteq> gb_command_id b" for k c
    unfolding fresh_batch_def by blast
  have in_q: "\<exists>k. map_of (q_batches q) k = Some c" if "c \<in> set (hi_batches h)" for c
    using that dist(1) unfolding h by auto
  have "gb_operation_id b \<notin> gb_operation_id ` set (hi_batches h)"
    using op in_q q unfolding goal_inv_def replay_ok_def by force
  moreover have "gb_command_id b \<notin> gb_command_id ` set (hi_batches h)" using command in_q by force
  moreover have "length (filter (\<lambda>b'. gb_goal_id b' = gid) (hi_batches h)) = goal_batch_count gid (q_batches q)" for gid
    unfolding h by (simp add: goal_batch_count_def filter_map o_def split_def)
  ultimately show ?thesis using g by (simp add: h)
qed

theorem batch_within_limit_witness:
  "\<exists>g. map_of (hi_goals (history_of (sample_created @ [sample_advance]) advanced_state)) ''g'' = Some g \<and>
     gs_status g = ''active'' \<and> gs_epoch g = 1 \<and> 0 < gs_limit g"
proof -
  have "sample_batch None \<in> set (hi_batches (history_of ((sample_created @ [sample_advance]) @ [sample_intent]) intended_state))"
    and "gb_id (sample_batch None) \<notin> gb_id ` set (hi_batches (history_of (sample_created @ [sample_advance]) advanced_state))"
    by (simp_all add: history_of_def intended_state_def advanced_state_def created_state_def)
  from batch_within_limit [OF sample_replays(4,5) this] show ?thesis
    by (auto simp: sample_batch_def)
qed

text \<open>
  A command takes effect once: after its receipt is finished no record caused by it is
  accepted any more, whatever its kind, and a record of a command that was never received is refused
  too unless it receives it.
\<close>

theorem finished_command_is_over:
  assumes "replay_goal header rs = Inr h"
    and "case map_of (hi_commands h) (gr_command_id r) of
      Some c \<Rightarrow> cr_outcome c \<noteq> ''pending'' | None \<Rightarrow> gr_kind r \<noteq> ''command_received''"
  shows "\<not> succeeds (replay_goal header (rs @ [r]))"
proof -
  obtain n q where run: "rfold (goal_step header) (1, empty_replay) rs = Inr (n, q)"
    and h: "h = \<lparr>hi_header = header, hi_records = rs, hi_goals = q_goals q,
      hi_batches = map snd (q_batches q), hi_commands = q_commands q\<rparr>"
    by (rule replay_goal_state [OF assms(1)])
  have "\<not> succeeds (goal_apply header n r' q)" if "gr_command_id r' = gr_command_id r" "gr_kind r' = gr_kind r" for r'
  proof -
    have "command_received r' q \<noteq> Inr q'" if "gr_kind r' = ''command_received''" for q'
      using assms(2) command_received_Inr [of r' q q'] \<open>gr_command_id r' = _\<close> \<open>gr_kind r' = gr_kind r\<close> that
      by (auto simp: h split: option.splits)
    moreover have "causing_command r' q \<noteq> Inr c" for c
      using assms(2) causing_command_Inr [of r' q c] \<open>gr_command_id r' = _\<close> by (auto simp: h split: option.splits)
    ultimately show ?thesis by (auto simp: goal_apply_def succeeds_iff rbind_Inr_iff split: if_splits)
  qed
  then have "\<not> succeeds (goal_step header (n, q) r)"
    by (auto simp: succeeds_iff goal_step_Inr decode_encode_iff stored_record_def)
  then show ?thesis using run by (auto simp: succeeds_iff replay_goal_Inr rfold_snoc)
qed

theorem finished_command_is_over_witness:
  "\<not> succeeds (replay_goal sample_header (sample_created @
     [sample_goal_record 4 ''created'' ''c'' sample_data]))"
proof -
  have "case map_of (hi_commands (history_of sample_created created_state))
      (gr_command_id (sample_goal_record 4 ''created'' ''c'' sample_data)) of
      Some c \<Rightarrow> cr_outcome c \<noteq> ''pending''
    | None \<Rightarrow> gr_kind (sample_goal_record 4 ''created'' ''c'' sample_data) \<noteq> ''command_received''"
    by (simp add: history_of_def created_state_def sample_goal_record_def)
  from finished_command_is_over [OF sample_replays(1) this] show ?thesis .
qed

text \<open>
  Property C15. The reducer implements the abstract life of Goals, batches and commands: every record
  it accepts takes each of them along one step of the relations \<open>goal_moves\<close>, \<open>batch_moves\<close> and
  \<open>command_moves\<close>, or leaves it as it was, and adds only fresh ones.
\<close>

theorem reducer_refines_goal_life:
  assumes "goal_step header (n, q) r = Inr (n', q')"
  shows "dict_follows (goal_moves (q_batches q)) fresh_goal (q_goals q) (q_goals q') \<and>
    dict_follows (\<lambda>_. batch_moves) (fresh_batch q) (q_batches q) (q_batches q') \<and>
    dict_follows (\<lambda>_. command_moves) fresh_command (q_commands q) (q_commands q')"
  using goal_step_cases(1) [OF assms] by (simp add: goal_transition_def)

theorem reducer_refines_goal_life_witness:
  "dict_follows (\<lambda>_. batch_moves) (fresh_batch intended_state) [(''b'', sample_batch None)] [(''b'', sample_batch (Some ''r''))]"
  using reducer_refines_goal_life [OF sample_associated_step]
  by (simp add: intended_state_def submitted_state_def)

end
