(* ===== verification/Goal_Control.thy ===== *)
theory Goal_Control
  imports Goal_Controller Goal_Properties Runtime_Correct
begin

text \<open>
  What every section of the Goal controller keeps. The central relation \<open>controller_before\<close> says how
  a controller's state is related to an earlier one: the history has grown by records that the store
  has acknowledged in order, and after the fence nothing is written. \<open>undisturbed\<close> adds that the
  Work runtime has not been changed, up to its remembered lookups.
\<close>

section \<open>Acknowledged records\<close>

text \<open>The records were appended one by one, each at its expected sequence.\<close>

inductive acknowledged :: "'s store_append \<Rightarrow> nat \<Rightarrow> 's \<Rightarrow> goal_record list \<Rightarrow> 's \<Rightarrow> bool" where
  nothing: "acknowledged append_to n s [] s"
| another: "acknowledged append_to n s rs s' \<Longrightarrow> append_to (n + length rs) r s' = (Inr (gr_sequence r), s'') \<Longrightarrow>
    gr_sequence r = int (n + length rs) + 1 \<Longrightarrow> acknowledged append_to n s (rs @ [r]) s''"

lemma acknowledged_single:
  "append_to n r s = (Inr (gr_sequence r), s') \<Longrightarrow> gr_sequence r = int n + 1 \<Longrightarrow> acknowledged append_to n s [r] s'"
  using acknowledged.another [OF acknowledged.nothing, of append_to n r s s'] by simp

lemma acknowledged_append:
  "acknowledged append_to m t rs' u \<Longrightarrow> m = n + length rs \<Longrightarrow> acknowledged append_to n s rs t \<Longrightarrow>
     acknowledged append_to n s (rs @ rs') u"
proof (induction rule: acknowledged.induct)
  case (nothing append_to m t)
  then show ?case by simp
next
  case (another append_to m t rs' u r v)
  then have "acknowledged append_to n s (rs @ rs') u" by simp
  from acknowledged.another [OF this, of r v] another.hyps(2,3) another.prems(1) show ?case by (simp add: add.assoc)
qed

lemma acknowledged_sequences:
  "acknowledged append_to n s rs s' \<Longrightarrow> map gr_sequence rs = map int [n + 1..<n + 1 + length rs]"
  by (induction rule: acknowledged.induct) auto

text \<open>An append that was not acknowledged: it raised, or acknowledged another sequence.\<close>

definition refused_append :: "'s store_append \<Rightarrow> nat \<Rightarrow> 's \<Rightarrow> 's \<Rightarrow> bool" where
  "refused_append append_to n s s' \<longleftrightarrow>
     (\<exists>r e. append_to n r s = (Inl e, s')) \<or> (\<exists>r a. append_to n r s = (Inr a, s') \<and> a \<noteq> gr_sequence r)"

section \<open>Earlier and later controllers\<close>

text \<open>The history is the replay of its records, under the controller's own header.\<close>

definition history_valid :: "'s controller \<Rightarrow> bool" where
  "history_valid c \<longleftrightarrow> replay_goal (gc_header c) (hi_records (gc_history c)) =
     Inr ((gc_history c)\<lparr>hi_header := gc_header c\<rparr>)"

definition controller_before :: "'s store_append \<Rightarrow> 's controller \<Rightarrow> 's controller \<Rightarrow> bool" where
  "controller_before append_to c c' \<longleftrightarrow>
     gc_header c' = gc_header c \<and> (history_valid c \<longrightarrow> history_valid c') \<and>
     (controller_fenced c \<longrightarrow> controller_fenced c' \<and> gc_history c' = gc_history c \<and> gc_store c' = gc_store c) \<and>
     (\<exists>rs s. hi_records (gc_history c') = hi_records (gc_history c) @ rs \<and>
        (rs = [] \<longrightarrow> gc_history c' = gc_history c) \<and>
        acknowledged append_to (history_sequence (gc_history c)) (gc_store c) rs s \<and>
        (gc_store c' = s \<or> controller_fenced c' \<and>
           refused_append append_to (history_sequence (gc_history c')) s (gc_store c')))"

lemma controller_before_refl: "controller_before append_to c c"
  unfolding controller_before_def using acknowledged.nothing by fastforce

lemma controller_before_trans:
  assumes "controller_before append_to c c'" and "controller_before append_to c' c''"
  shows "controller_before append_to c c''"
proof -
  obtain rs s where one: "hi_records (gc_history c') = hi_records (gc_history c) @ rs"
      "rs = [] \<longrightarrow> gc_history c' = gc_history c"
      "acknowledged append_to (history_sequence (gc_history c)) (gc_store c) rs s"
      "gc_store c' = s \<or> controller_fenced c' \<and>
         refused_append append_to (history_sequence (gc_history c')) s (gc_store c')"
    using assms(1) by (auto simp: controller_before_def)
  obtain rs' s' where two: "hi_records (gc_history c'') = hi_records (gc_history c') @ rs'"
      "rs' = [] \<longrightarrow> gc_history c'' = gc_history c'"
      "acknowledged append_to (history_sequence (gc_history c')) (gc_store c') rs' s'"
      "gc_store c'' = s' \<or> controller_fenced c'' \<and>
         refused_append append_to (history_sequence (gc_history c'')) s' (gc_store c'')"
    using assms(2) by (auto simp: controller_before_def)
  have "\<exists>rs s. hi_records (gc_history c'') = hi_records (gc_history c) @ rs \<and>
        (rs = [] \<longrightarrow> gc_history c'' = gc_history c) \<and>
        acknowledged append_to (history_sequence (gc_history c)) (gc_store c) rs s \<and>
        (gc_store c'' = s \<or> controller_fenced c'' \<and>
           refused_append append_to (history_sequence (gc_history c'')) s (gc_store c''))"
  proof (cases "controller_fenced c'")
    case True
    then have "gc_history c'' = gc_history c'" "gc_store c'' = gc_store c'" "controller_fenced c''"
      using assms(2) by (auto simp: controller_before_def)
    with one show ?thesis by metis
  next
    case False
    then have "gc_store c' = s" using one(4) by blast
    then have "acknowledged append_to (history_sequence (gc_history c)) (gc_store c) (rs @ rs') s'"
      using acknowledged_append [OF two(3), of "history_sequence (gc_history c)" rs] one(1,3)
      by (simp add: history_sequence_def)
    with one(1,2) two(1,2,4) show ?thesis by (intro exI [of _ "rs @ rs'"] exI [of _ s']) simp
  qed
  with assms show ?thesis by (auto simp: controller_before_def)
qed

definition same_work :: "runtime \<Rightarrow> runtime \<Rightarrow> bool" where
  "same_work rt rt' \<longleftrightarrow> rt_shared rt' = rt_shared rt \<and> rt_states rt' = rt_states rt
     \<and> rt_operation_runs rt' = rt_operation_runs rt"

definition undisturbed :: "'s store_append \<Rightarrow> 's controller \<Rightarrow> 's controller \<Rightarrow> bool" where
  "undisturbed append_to c c' \<longleftrightarrow> controller_before append_to c c' \<and> same_work (gc_work c) (gc_work c')"

interpretation growing: state_preorder "controller_before append_to" for append_to
  by unfold_locales (rule controller_before_refl, rule controller_before_trans)

interpretation quiet: state_preorder "undisturbed append_to" for append_to
  by unfold_locales (auto simp: undisturbed_def same_work_def intro: controller_before_refl controller_before_trans)

section \<open>The operations\<close>

text \<open>Changes of the fields that the relations do not look at, and closing the fence.\<close>

lemma undisturbed_fields:
  assumes "gc_header c' = gc_header c" and "gc_history c' = gc_history c" and "gc_store c' = gc_store c"
    and "same_work (gc_work c) (gc_work c')" and "controller_fenced c \<Longrightarrow> controller_fenced c'"
  shows "undisturbed append_to c c'"
proof -
  have "acknowledged append_to (history_sequence (gc_history c)) (gc_store c) [] (gc_store c)"
    by (rule acknowledged.nothing)
  then show ?thesis using assms by (auto simp: undisturbed_def controller_before_def history_valid_def)
qed

lemma same_work_refl [simp]: "same_work rt rt"
  by (simp add: same_work_def)

lemma quiet_change:
  assumes "\<And>c. gc_header (f c) = gc_header c" "\<And>c. gc_history (f c) = gc_history c"
    "\<And>c. gc_store (f c) = gc_store c" "\<And>c. gc_work (f c) = gc_work c"
    "\<And>c. controller_fenced c \<Longrightarrow> controller_fenced (f c)"
  shows "obeys (undisturbed append_to) (change f)"
  by (rule quiet.obeys_change) (simp add: assms undisturbed_fields)

lemma quiet_fence: "obeys (undisturbed append_to) fence"
  unfolding fence_def by (rule quiet_change) (simp_all add: controller_fenced_def)

lemma quiet_fail_goal: "obeys (undisturbed append_to) (fail_goal s)"
  unfolding fail_goal_def by (rule quiet.obeys_throw)

lemma quiet_lift_goal: "obeys (undisturbed append_to) (lift_goal m)"
  unfolding lift_goal_def by (intro quiet.obeys_rules)

lemma quiet_must_be_mutable: "obeys (undisturbed append_to) must_be_mutable"
  unfolding must_be_mutable_def by (rule quiet.obeys_unless_raise)

lemma propose_Inr: "propose c kind gid cid data = Inr (r, h) \<Longrightarrow>
    gr_sequence r = int (history_sequence (gc_history c)) + 1 \<and> gr_kind r = kind \<and> gr_goal_id r = gid \<and>
    gr_command_id r = cid \<and> gr_data r = data \<and>
    replay_goal (gc_header c) (hi_records (gc_history c) @ [r]) = Inr h"
  by (auto simp: propose_def rbind_Inr_iff make_record_Inr_iff)

lemma replay_goal_fields: "replay_goal header rs = Inr h \<Longrightarrow> hi_records h = rs \<and> hi_header h = header"
  by (auto simp: replay_goal_Inr)

lemma append_record_cases:
  assumes "append_record append_to kind gid cid data c = (x, c')"
  obtains (failed) e where "x = Inl e" "c' = c"
  | (refused) e s where "x = Inl e" "\<not> controller_fenced c" "c' = c\<lparr>gc_store := s, gc_fenced := True\<rparr>"
      "refused_append append_to (history_sequence (gc_history c)) (gc_store c) s"
  | (stored) r h s where "x = Inr ()" "\<not> controller_fenced c" "propose c kind gid cid data = Inr (r, h)"
      "append_to (history_sequence (gc_history c)) r (gc_store c) = (Inr (gr_sequence r), s)"
      "c' = c\<lparr>gc_store := s, gc_history := h\<rparr>"
proof (cases "controller_fenced c")
  case True
  then have "c' = c \<and> (\<exists>e. x = Inl e)"
    using assms by (auto simp: append_record_def must_be_mutable_def chain_def unless_raise_def)
  then show thesis using failed by blast
next
  case False
  show thesis
  proof (cases "propose c kind gid cid data")
    case (Inl e)
    with assms False have "c' = c \<and> x = Inl (GoalRaised e)"
      by (simp add: append_record_def must_be_mutable_def chain_def unless_raise_def reading_def lift_goal_def throw_def)
    then show thesis using failed by blast
  next
    case (Inr p)
    obtain r h where p: "p = (r, h)" by fastforce
    obtain a s where put: "append_to (history_sequence (gc_history c)) r (gc_store c) = (a, s)" by fastforce
    have "append_record append_to kind gid cid data c = store_record append_to r h c"
      using False Inr p
      by (simp add: append_record_def must_be_mutable_def chain_def unless_raise_def reading_def lift_goal_def give_def)
    with assms have x: "store_record append_to r h c = (x, c')" by simp
    show thesis
    proof (cases "a = Inr (gr_sequence r)")
      case True
      with x put show thesis by (intro stored [OF _ False Inr [unfolded p]]) (auto simp: store_record_def)
    next
      case no: False
      then have "refused_append append_to (history_sequence (gc_history c)) (gc_store c) s"
        using put by (cases a) (auto simp: refused_append_def)
      moreover have "\<exists>e. x = Inl e" "c' = c\<lparr>gc_store := s, gc_fenced := True\<rparr>"
        using x put no by (cases a; auto simp: store_record_def)+
      ultimately show thesis using False refused by blast
    qed
  qed
qed

lemma quiet_append_record: "obeys (undisturbed append_to) (append_record append_to kind gid cid data)"
  unfolding obeys_def
proof
  fix c
  obtain x c' where step: "append_record append_to kind gid cid data c = (x, c')" by fastforce
  from step have "undisturbed append_to c c'"
  proof (cases rule: append_record_cases)
    case (failed e)
    then show ?thesis by (simp add: quiet.rel_refl)
  next
    case (refused e s)
    then show ?thesis
      by (auto simp: undisturbed_def controller_before_def history_valid_def controller_fenced_def
          intro!: exI [of _ "[]"] acknowledged.nothing)
  next
    case (stored r h s)
    then have r: "gr_sequence r = int (history_sequence (gc_history c)) + 1"
        "replay_goal (gc_header c) (hi_records (gc_history c) @ [r]) = Inr h"
      using propose_Inr by blast+
    then have h: "hi_records h = hi_records (gc_history c) @ [r]" "hi_header h = gc_header c"
      using replay_goal_fields by blast+
    with r(2) have "history_valid c'" by (simp add: history_valid_def stored(5))
    moreover have "acknowledged append_to (history_sequence (gc_history c)) (gc_store c) [r] s"
      by (rule acknowledged_single [where append_to = append_to, OF stored(4) r(1)])
    ultimately show ?thesis
      using stored h by (auto simp: undisturbed_def controller_before_def)
  qed
  then show "undisturbed append_to c (snd (append_record append_to kind gid cid data c))" by (simp add: step)
qed

lemma quiet_run_for_operation: "obeys (undisturbed append_to) (run_for_operation operation)"
  unfolding obeys_def
proof
  fix c :: "'a controller"
  obtain r rt where look: "get_run_for_operation (gc_work c) operation = (r, rt)" by fastforce
  then have "same_work (gc_work c) rt" using get_run_for_operation_state [OF look] by (simp add: same_work_def)
  then show "undisturbed append_to c (snd (run_for_operation operation c))"
    by (auto simp: run_for_operation_def look controller_fenced_def intro!: undisturbed_fields split: sum.split)
qed

lemmas quiet_rules = quiet_append_record quiet_run_for_operation quiet_fence quiet_fail_goal quiet_lift_goal
  quiet_must_be_mutable

lemma quiet_finish_command: "obeys (undisturbed append_to) (finish_command append_to gid cid outcome details)"
  unfolding finish_command_def by (intro quiet.obeys_rules quiet_rules)

lemma quiet_pause_command: "obeys (undisturbed append_to) (pause_command append_to gid cid reason)"
  unfolding pause_command_def by (intro quiet.obeys_rules quiet_rules quiet_finish_command)

lemma quiet_begin_command: "obeys (undisturbed append_to) (begin_command append_to act gid cid revision epoch data)"
  unfolding begin_command_def by (intro quiet.obeys_rules quiet_rules)

lemma quiet_run_command: "obeys (undisturbed append_to) (run_command append_to act gid cid revision epoch data effect outcome)"
  unfolding run_command_def by (intro quiet.obeys_rules quiet_rules quiet_begin_command quiet_finish_command)

lemma quiet_batch_fact: "obeys (undisturbed append_to) (batch_fact b acc)"
  unfolding batch_fact_def by (intro quiet.obeys_rules quiet_rules)

lemma quiet_batch_facts: "obeys (undisturbed append_to) (batch_facts bs acc)"
  by (induction bs arbitrary: acc) (auto intro!: quiet.obeys_rules quiet_batch_fact)

lemma quiet_work_facts: "obeys (undisturbed append_to) work_facts"
  unfolding work_facts_def by (intro quiet.obeys_rules quiet_rules quiet_batch_facts)

lemma quiet_must_be_idle: "obeys (undisturbed append_to) (must_be_idle facts)"
  unfolding must_be_idle_def by (intro quiet.obeys_rules quiet_rules)

lemma quiet_confirm_resume: "obeys (undisturbed append_to) (confirm_resume answer gid limit)"
  unfolding confirm_resume_def
  by (intro quiet.obeys_rules quiet_rules quiet_work_facts quiet_must_be_idle) (cases answer; simp add: quiet_rules quiet.obeys_rules)


lemma quiet_control_goal: "obeys (undisturbed append_to) (control_goal append_to answer gid act cid revision epoch reason limit)"
  unfolding control_goal_def Let_def
  by (intro quiet.obeys_rules quiet_rules quiet_confirm_resume quiet_run_command)

lemma quiet_commands:
  "obeys (undisturbed append_to) (create_goal append_to gid reqs cid n metadata)"
  "obeys (undisturbed append_to) (revise_goal append_to gid reqs cid revision epoch reason)"
  "obeys (undisturbed append_to) (replace_goal append_to gid new_gid reqs cid revision epoch reason n metadata)"
  unfolding create_goal_def revise_goal_def replace_goal_def
  by (intro quiet.obeys_rules quiet_rules quiet_run_command)+

lemma quiet_complete_goal: "obeys (undisturbed append_to) (complete_goal append_to confirmed a gid cid)"
  unfolding complete_goal_def
  by (intro quiet.obeys_rules quiet_rules quiet_work_facts quiet_pause_command quiet_finish_command)

lemma leave_advance_undisturbed: "undisturbed append_to c (leave_advance task c)"
  by (rule undisturbed_fields) (simp_all add: leave_advance_def controller_fenced_def)

lemma in_advance_state: "snd (in_advance task m c) \<in> {snd (m c), leave_advance task (snd (m c))}"
  by (auto simp: in_advance_def split: prod.split sum.split advance_state.split)

lemma obeys_in_advance:
  assumes "obeys rel m" and "\<And>c. rel c (leave_advance task c)" and "\<And>s t u. rel s t \<Longrightarrow> rel t u \<Longrightarrow> rel s u"
  shows "obeys rel (in_advance task m)"
  unfolding obeys_def
proof
  fix c
  have "rel c (snd (m c))" using assms(1) by (simp add: obeys_def)
  then show "rel c (snd (in_advance task m c))"
    using in_advance_state [of task m c] assms(2,3) by auto
qed

lemma quiet_in_advance: "obeys (undisturbed append_to) m \<Longrightarrow> obeys (undisturbed append_to) (in_advance task m)"
  by (erule obeys_in_advance [where rel = "undisturbed append_to", OF _ leave_advance_undisturbed])
    (rule quiet.rel_trans)

lemma quiet_returns: "obeys (undisturbed append_to) m \<Longrightarrow> obeys (undisturbed append_to) (returns m)"
  unfolding returns_def by (intro quiet.obeys_rules)

lemmas quiet_advance_rules = quiet_in_advance quiet_returns quiet_work_facts quiet_must_be_idle quiet_begin_command
  quiet_finish_command quiet_pause_command quiet_complete_goal

lemma quiet_advance_begin: "obeys (undisturbed append_to) (advance_begin append_to task gid cid revision epoch)"
  unfolding advance_begin_def
  by (intro quiet.obeys_rules quiet_rules quiet_advance_rules quiet_change) (simp_all add: controller_fenced_def)

lemma quiet_advance_raised: "obeys (undisturbed append_to) (advance_raised f e)"
  unfolding advance_raised_def by (intro quiet.obeys_rules quiet_in_advance)

lemma quiet_advance_assessed: "obeys (undisturbed append_to) (advance_assessed append_to f a confirmed)"
  unfolding advance_assessed_def Let_def by (intro quiet.obeys_rules quiet_rules quiet_advance_rules)

lemma quiet_check_candidate: "obeys (undisturbed append_to) (check_candidate w b)"
  unfolding check_candidate_def by (intro quiet.obeys_rules quiet_rules quiet_advance_rules)

lemma quiet_retract_batch: "obeys (undisturbed append_to) (retract_batch append_to f bid operation)"
  unfolding retract_batch_def by (intro quiet.obeys_rules quiet_rules quiet_advance_rules)

lemma quiet_advance_worked: "obeys (undisturbed append_to) (advance_worked append_to f operation raised)"
  unfolding advance_worked_def Let_def
  by (intro quiet.obeys_rules quiet_rules quiet_advance_rules quiet_change) (simp_all add: controller_fenced_def)

lemma quiet_advance_reassessed: "obeys (undisturbed append_to) (advance_reassessed append_to f now operation a confirmed)"
  unfolding advance_reassessed_def Let_def by (intro quiet.obeys_rules quiet_rules quiet_advance_rules)

lemma quiet_begin_close: "obeys (undisturbed append_to) begin_close"
  unfolding begin_close_def
  by (intro quiet.obeys_rules quiet_rules quiet_change) (simp_all add: controller_fenced_def)

lemma quiet_closing:
  "obeys (undisturbed append_to) (quiesce_begin task)"
  "obeys (undisturbed append_to) (quiesce_gathered results)"
  "obeys (undisturbed append_to) retire"
  unfolding quiesce_begin_def quiesce_gathered_def retire_def
  by (intro quiet.obeys_rules quiet_rules quiet_begin_close quiet_change; simp add: controller_fenced_def)+


lemma controller_before_fields:
  assumes "gc_header c' = gc_header c" and "gc_history c' = gc_history c" and "gc_store c' = gc_store c"
    and "controller_fenced c \<Longrightarrow> controller_fenced c'"
  shows "controller_before append_to c c'"
  using undisturbed_fields [of "c'\<lparr>gc_work := gc_work c\<rparr>" c append_to] assms
  by (simp add: undisturbed_def controller_before_def history_valid_def controller_fenced_def)

section \<open>Cancelling runs\<close>

text \<open>
  A section that cancels runs may write to the Work log: events of runs that the runtime has, and no
  operation.
\<close>

definition live_runs :: "runtime \<Rightarrow> string set" where
  "live_runs rt = {r_run_id (rs_run st) | rid st. map_of (rt_states rt) rid = Some st}"

definition events_only :: "runtime \<Rightarrow> runtime \<Rightarrow> bool" where
  "events_only rt rt' \<longleftrightarrow> live_runs rt' = live_runs rt \<and>
     (\<exists>es. log_entries rt' = log_entries rt @ es \<and> (\<forall>e \<in> set es. e_entry_type e = Event \<and> e_run_id e \<in> live_runs rt))"

definition stopping :: "'s store_append \<Rightarrow> 's controller \<Rightarrow> 's controller \<Rightarrow> bool" where
  "stopping append_to c c' \<longleftrightarrow> controller_before append_to c c' \<and> events_only (gc_work c) (gc_work c')"

lemma events_only_refl: "events_only rt rt"
  by (simp add: events_only_def)

lemma events_only_trans:
  assumes "events_only rt rt'" and "events_only rt' rt''"
  shows "events_only rt rt''"
proof -
  obtain es es' where "log_entries rt' = log_entries rt @ es" "\<forall>e \<in> set es. e_entry_type e = Event \<and> e_run_id e \<in> live_runs rt"
      "log_entries rt'' = log_entries rt' @ es'" "\<forall>e \<in> set es'. e_entry_type e = Event \<and> e_run_id e \<in> live_runs rt'"
      "live_runs rt' = live_runs rt" "live_runs rt'' = live_runs rt'"
    using assms by (auto simp: events_only_def)
  then show ?thesis unfolding events_only_def by (intro conjI exI [of _ "es @ es'"]) auto
qed

interpretation halting: state_preorder "stopping append_to" for append_to
  by unfold_locales
    (auto simp: stopping_def intro: controller_before_refl controller_before_trans events_only_refl events_only_trans)

lemma undisturbed_stopping: "undisturbed append_to c c' \<Longrightarrow> stopping append_to c c'"
  by (auto simp: undisturbed_def stopping_def same_work_def events_only_def live_runs_def log_entries_def)

lemma halting_quiet: "obeys (undisturbed append_to) m \<Longrightarrow> obeys (stopping append_to) m"
  by (erule obeys_mono) (rule undisturbed_stopping)

lemma frame_cancel_parts:
  "obeys own_growth (cancel_finish oc)" "obeys own_growth (await_execution oc)" "obeys own_growth await_outcome"
  "obeys own_growth cancel_begin" "obeys own_growth (execution_ended oc raised)"
proof -
  show finish: "obeys own_growth (cancel_finish oc)" for oc
    unfolding cancel_finish_def by (intro frame.obeys_rules frame_outcome)
  show await: "obeys own_growth (await_execution oc)" for oc
    unfolding await_execution_def by (auto intro!: frame.obeys_rules finish)
  show outcome: "obeys own_growth await_outcome"
    unfolding await_outcome_def
    by (auto intro!: frame.obeys_rules await simp: frame_local split: option.split)
  show "obeys own_growth cancel_begin"
    unfolding cancel_begin_def by (auto intro!: frame.obeys_rules outcome frame_cancel)
  show "obeys own_growth (execution_ended oc raised)"
    unfolding execution_ended_def by (auto intro!: frame.obeys_rules finish split: option.split)
qed

lemma frame_cancel_resumed: "obeys own_growth (cancel_resumed w event)"
  by (cases "(w, event)" rule: cancel_resumed.cases)
    (auto intro!: frame.obeys_rules frame_cancel_parts simp: frame_local)

lemma events_on_run:
  assumes "own_growth (rt_shared rt, st) (sh', st')" and "map_of (rt_states rt) rid = Some st"
  shows "events_only rt (rt\<lparr>rt_shared := sh', rt_states := AList.update rid st' (rt_states rt)\<rparr>)"
proof -
  obtain es where es: "contents (sh_log sh') = contents (sh_log (rt_shared rt)) @ es"
      "\<forall>e \<in> set es. e_entry_type e = Event \<and> e_run_id e = r_run_id (rs_run st)"
    and same: "r_run_id (rs_run st') = r_run_id (rs_run st)"
    using assms(1) by (auto simp: own_growth_def same_run_def)
  have known: "r_run_id (rs_run st) \<in> live_runs rt" using assms(2) by (auto simp: live_runs_def)
  have "live_runs (rt\<lparr>rt_shared := sh', rt_states := AList.update rid st' (rt_states rt)\<rparr>) = live_runs rt"
  proof (intro set_eqI iffI)
    fix x assume "x \<in> live_runs (rt\<lparr>rt_shared := sh', rt_states := AList.update rid st' (rt_states rt)\<rparr>)"
    then show "x \<in> live_runs rt" using known same by (auto simp: live_runs_def split: if_splits)
  next
    fix x assume "x \<in> live_runs rt"
    then obtain r s where r: "map_of (rt_states rt) r = Some s" "x = r_run_id (rs_run s)" by (auto simp: live_runs_def)
    show "x \<in> live_runs (rt\<lparr>rt_shared := sh', rt_states := AList.update rid st' (rt_states rt)\<rparr>)"
    proof (cases "r = rid")
      case True
      then show ?thesis
        using r assms(2) same by (auto simp: live_runs_def intro!: exI [of _ rid])
    next
      case False
      then show ?thesis
        using r by (auto simp: live_runs_def intro!: exI [of _ r])
    qed
  qed
  then show ?thesis using es known by (auto simp: events_only_def log_entries_def)
qed

lemma halting_on_work_run: "obeys own_growth m \<Longrightarrow> obeys (stopping append_to) (on_work_run rid m)"
  unfolding obeys_def
proof
  fix c :: "'b controller"
  assume m: "\<forall>s. own_growth s (snd (m s))"
  show "stopping append_to c (snd (on_work_run rid m c))"
  proof (cases "map_of (rt_states (gc_work c)) rid")
    case None
    then show ?thesis by (simp add: on_work_run_def halting.rel_refl)
  next
    case (Some st)
    obtain r sh' st' where result: "m (rt_shared (gc_work c), st) = (r, (sh', st'))" by (metis prod.exhaust)
    then have "own_growth (rt_shared (gc_work c), st) (sh', st')" using m by (metis snd_conv)
    from events_on_run [OF this Some] show ?thesis
      by (simp add: on_work_run_def Some result stopping_def)
        (rule controller_before_fields, simp_all add: controller_fenced_def)
  qed
qed

lemma halting_in_cancel:
  assumes "obeys (stopping append_to) m"
  shows "obeys (stopping append_to) (in_cancel task m)"
  unfolding obeys_def
proof
  fix c
  have "stopping append_to c (snd (m c))" using assms by (simp add: obeys_def)
  moreover have "stopping append_to d (leave_cancel task d)" for d :: "'a controller"
    by (rule undisturbed_stopping, rule undisturbed_fields) (simp_all add: leave_cancel_def controller_fenced_def)
  moreover have "snd (in_cancel task m c) \<in> {snd (m c), leave_cancel task (snd (m c))}"
    by (auto simp: in_cancel_def split: prod.split sum.split cancel_state.split)
  ultimately show "stopping append_to c (snd (in_cancel task m c))"
    using halting.rel_trans [where append_to = append_to] by fastforce
qed

lemma halting_cancel_one:
  "obeys own_growth m \<Longrightarrow> (\<And>results. obeys (stopping append_to) (next_batches results)) \<Longrightarrow>
     obeys (stopping append_to) (cancel_one task gid rid bs results m next_batches)"
  unfolding cancel_one_def by (intro halting.obeys_rules halting_on_work_run)

lemma halting_cancel_batches: "obeys (stopping append_to) (cancel_batches task gid bs results)"
  by (induction bs arbitrary: results)
    (auto intro!: halting.obeys_rules halting_quiet [OF quiet_run_for_operation] halting_cancel_one frame_cancel_parts)

lemma halting_cancelling:
  "obeys (stopping append_to) (request_cancel_begin task gid)"
  "obeys (stopping append_to) (request_cancel_resumed task gid rid bs results w event)"
proof -
  have "obeys (undisturbed append_to) (change (\<lambda>c. c\<lparr>gc_inflight := List.insert task (gc_inflight c)\<rparr>))"
    by (rule quiet_change) (simp_all add: controller_fenced_def)
  then show "obeys (stopping append_to) (request_cancel_begin task gid)"
    unfolding request_cancel_begin_def
    by (intro halting.obeys_rules halting_in_cancel halting_quiet [OF quiet_lift_goal] halting_cancel_batches halting_quiet)
  show "obeys (stopping append_to) (request_cancel_resumed task gid rid bs results w event)"
    unfolding request_cancel_resumed_def
    by (intro halting_in_cancel halting_cancel_one halting_cancel_batches frame_cancel_resumed)
qed

lemma halting_settle_one:
  "obeys own_growth m \<Longrightarrow> obeys (stopping append_to) next_runs \<Longrightarrow> obeys (stopping append_to) (settle_one rid runs m next_runs)"
  unfolding settle_one_def by (intro halting.obeys_rules halting_on_work_run)

lemma halting_settle_runs: "obeys (stopping append_to) (settle_runs runs)"
  by (induction runs) (auto intro!: halting.obeys_rules halting_settle_one frame_cancel_parts)

lemma halting_settling:
  "obeys (stopping append_to) settle_begin"
  "obeys (stopping append_to) (settle_resumed_work rid runs w event)"
  unfolding settle_begin_def settle_resumed_work_def
  by (intro halting.obeys_rules halting_settle_runs halting_settle_one frame_cancel_resumed)+

lemma halting_stop_waiting:
  assumes "obeys own_growth m"
  shows "obeys (stopping append_to) (stop_waiting append_to f rid operation m)"
  unfolding obeys_def
proof
  fix c :: "'a controller"
  obtain x d where run: "on_work_run rid m c = (x, d)" by fastforce
  then have "stopping append_to c d" using obeysD [OF halting_on_work_run [OF assms]] by blast
  moreover have "stopping append_to d (snd (advance_worked append_to f operation e d))" for e
    using obeysD [OF halting_quiet [OF quiet_advance_worked] surjective_pairing] .
  ultimately show "stopping append_to c (snd (stop_waiting append_to f rid operation m c))"
    using halting.rel_trans [where append_to = append_to] by (auto simp: stop_waiting_def run split: sum.split)
qed

lemma halting_advance:
  "obeys (stopping append_to) (advance_interrupted append_to f rid operation)"
  "obeys (stopping append_to) (advance_stopped append_to f rid operation w event)"
  unfolding advance_interrupted_def advance_stopped_def
  by (intro halting_stop_waiting frame_cancel_parts frame_cancel_resumed)+

section \<open>Dispatching\<close>

text \<open>The only section that writes an operation: it accepts the candidate of a written intent.\<close>

lemma growing_quiet: "obeys (undisturbed append_to) m \<Longrightarrow> obeys (controller_before append_to) m"
  by (erule obeys_mono) (simp add: undisturbed_def)

lemma growing_accept_work: "obeys (controller_before append_to) (accept_work resolve fresh op spec)"
  unfolding obeys_def
  by (auto simp: accept_work_def controller_fenced_def intro!: controller_before_fields split: prod.split sum.split)

lemma growing_dispatch: "obeys (controller_before append_to) (dispatch append_to resolve fresh f bid w)"
proof -
  have "obeys (undisturbed append_to) (change (\<lambda>c. c\<lparr>gc_last_error := Some e\<rparr>))" for e
    by (rule quiet_change) (simp_all add: controller_fenced_def)
  then show ?thesis
    unfolding dispatch_def Let_def
    by (intro growing.obeys_rules growing_accept_work growing_quiet [OF quiet_append_record] growing_quiet
        quiet_returns quiet_pause_command)
qed

lemma growing_in_advance:
  "obeys (controller_before append_to) m \<Longrightarrow> obeys (controller_before append_to) (in_advance task m)"
  by (erule obeys_in_advance [where rel = "controller_before append_to"])
    (use leave_advance_undisturbed undisturbed_def in blast, rule growing.rel_trans)

lemma obeys_preparation:
  "(\<And>x. obeys rel (g x)) \<Longrightarrow> (\<And>w. obeys rel (h w)) \<Longrightarrow> obeys rel (case_preparation g h answer)"
  by (cases answer) simp_all

lemma growing_advance_prepared:
  "obeys (controller_before append_to) (advance_prepared append_to resolve fresh bid f answer confirm1 confirm2)"
  unfolding advance_prepared_def submit_candidate_def submit_batch_def
  by (intro growing.obeys_rules obeys_preparation growing_in_advance growing_dispatch
      growing_quiet [OF quiet_returns] growing_quiet [OF quiet_lift_goal] growing_quiet [OF quiet_check_candidate]
      growing_quiet [OF quiet_append_record] quiet_finish_command quiet_pause_command quiet_retract_batch)

section \<open>What an accepted record means\<close>

text \<open>The replay behind a valid history, and the step of a record appended to it.\<close>

lemma history_state:
  assumes "history_valid c"
  obtains q where "rfold (goal_step (gc_header c)) (1, empty_replay) (hi_records (gc_history c)) =
      Inr (history_sequence (gc_history c) + 1, q)" and "goal_inv q"
    and "hi_goals (gc_history c) = q_goals q" "hi_batches (gc_history c) = map snd (q_batches q)"
      "hi_commands (gc_history c) = q_commands q"
proof -
  obtain n q where run: "rfold (goal_step (gc_header c)) (1, empty_replay) (hi_records (gc_history c)) = Inr (n, q)"
    and inv: "goal_inv q"
    and h: "(gc_history c)\<lparr>hi_header := gc_header c\<rparr> = \<lparr>hi_header = gc_header c, hi_records = hi_records (gc_history c),
      hi_goals = q_goals q, hi_batches = map snd (q_batches q), hi_commands = q_commands q\<rparr>"
    by (rule replay_goal_state [OF assms [unfolded history_valid_def]])
  have "n = history_sequence (gc_history c) + 1"
    using replay_goal_count [OF run] by (simp add: history_sequence_def)
  moreover have "hi_goals (gc_history c) = q_goals q" "hi_batches (gc_history c) = map snd (q_batches q)"
      "hi_commands (gc_history c) = q_commands q"
    using arg_cong [OF h, of hi_goals] arg_cong [OF h, of hi_batches] arg_cong [OF h, of hi_commands] by simp_all
  ultimately show thesis using run inv by (intro that) simp_all
qed

lemma propose_step:
  assumes "history_valid c" and "propose c kind gid cid data = Inr (r, h)"
  obtains q q' where "goal_inv q" "goal_inv q'"
      "goal_apply (gc_header c) (history_sequence (gc_history c) + 1) (stored_record r) q = Inr q'"
      "hi_goals (gc_history c) = q_goals q" "hi_batches (gc_history c) = map snd (q_batches q)"
      "hi_commands (gc_history c) = q_commands q"
      "hi_goals h = q_goals q'" "hi_batches h = map snd (q_batches q')" "hi_commands h = q_commands q'"
proof -
  let ?n = "history_sequence (gc_history c) + 1"
  obtain q where run: "rfold (goal_step (gc_header c)) (1, empty_replay) (hi_records (gc_history c)) = Inr (?n, q)"
    and q: "goal_inv q" "hi_goals (gc_history c) = q_goals q" "hi_batches (gc_history c) = map snd (q_batches q)"
      "hi_commands (gc_history c) = q_commands q"
    by (rule history_state [OF assms(1)])
  have "replay_goal (gc_header c) (hi_records (gc_history c) @ [r]) = Inr h"
    using propose_Inr [OF assms(2)] by blast
  then obtain n' q' where run': "rfold (goal_step (gc_header c)) (1, empty_replay) (hi_records (gc_history c) @ [r]) = Inr (n', q')"
    and q': "goal_inv q'" and h: "h = \<lparr>hi_header = gc_header c, hi_records = hi_records (gc_history c) @ [r],
      hi_goals = q_goals q', hi_batches = map snd (q_batches q'), hi_commands = q_commands q'\<rparr>"
    by (rule replay_goal_state)
  have "goal_step (gc_header c) (?n, q) r = Inr (n', q')" using run run' by (simp add: rfold_snoc)
  then have "goal_apply (gc_header c) ?n (stored_record r) q = Inr q'"
    unfolding goal_step_Inr decode_encode_iff by auto
  then show thesis by (rule that [OF q(1) q' _ q(2-4)]) (simp_all add: h)
qed

lemma stored_fields [simp]:
  "gr_kind (stored_record r) = gr_kind r" "gr_goal_id (stored_record r) = gr_goal_id r"
  "gr_command_id (stored_record r) = gr_command_id r" "gr_data (stored_record r) = gr_data r"
  "gr_sequence (stored_record r) = gr_sequence r" "gr_scope_id (stored_record r) = gr_scope_id r"
  by (simp_all add: stored_record_def)

text \<open>An intent adds the batch it describes, of an active Goal below its limit.\<close>

definition intended_batch :: "'s controller \<Rightarrow> string \<Rightarrow> string \<Rightarrow> string \<Rightarrow> goal_state \<Rightarrow> goal_batch \<Rightarrow> bool" where
  "intended_batch c gid cid operation g b \<longleftrightarrow> gb_goal_id b = gid \<and> gb_command_id b = cid \<and> gb_operation_id b = operation \<and>
     gb_intent_sequence b = history_sequence (gc_history c) + 1 \<and> gb_run_receipt b = None \<and> \<not> gb_not_submitted b \<and>
     map_of (hi_goals (gc_history c)) gid = Some g \<and> gs_status g = ''active'' \<and>
     gb_revision b = gs_revision g \<and> gb_epoch b = gs_epoch g \<and> int (goal_batches c gid) < gs_limit g"

lemma intent_appended:
  assumes "history_valid c" and "propose c ''batch_intent'' gid cid (intent_data bid w basis) = Inr (r, h)"
  obtains g b where "hi_batches h = hi_batches (gc_history c) @ [b]" "hi_goals h = hi_goals (gc_history c)"
    "intended_batch c gid cid (wo_operation_id (wc_operation w)) g b"
proof -
  obtain q q' where ap: "goal_apply (gc_header c) (history_sequence (gc_history c) + 1) (stored_record r) q = Inr q'"
    and q: "hi_goals (gc_history c) = q_goals q" "hi_batches (gc_history c) = map snd (q_batches q)"
    and h: "hi_goals h = q_goals q'" "hi_batches h = map snd (q_batches q')"
    by (rule propose_step [OF assms])
  have r: "gr_kind r = ''batch_intent''" "gr_goal_id r = gid" "gr_command_id r = cid"
      "gr_data r = intent_data bid w basis"
    using propose_Inr [OF assms(2)] by simp_all
  obtain x q1 where eff: "note_effect (stored_record r) x q = Inr q1"
    and changed: "goal_changed (gc_header c) (history_sequence (gc_history c) + 1) (stored_record r) q1 = Inr q'"
    using ap r(1) by (auto simp: goal_apply_def rbind_Inr_iff)
  obtain eff where q1: "q1 = q\<lparr>q_effects := eff\<rparr>" using note_effect_Inr [OF eff] by blast
  obtain g where g: "map_of (q_goals q) gid = Some g"
    and int: "batch_intent (gc_header c) (history_sequence (gc_history c) + 1) (stored_record r) g q1 = Inr q'"
    using changed r(1,2) q1 by (auto simp: goal_changed_def split: option.splits)
  have fields: "map_of (intent_data bid w basis) ''batch_id'' = Some (JStr bid)"
      "map_of (intent_data bid w basis) ''operation_id'' = Some (JStr (wo_operation_id (wc_operation w)))"
    by (simp_all add: intent_data_def)
  obtain source where guards: "gs_status g = ''active''" "map_of (q_batches q1) bid = None"
      "int (goal_batch_count gid (q_batches q1)) < gs_limit g"
    and q': "q' = put_batch bid
        \<lparr>gb_id = bid, gb_goal_id = gid, gb_operation_id = wo_operation_id (wc_operation w), gb_revision = gs_revision g,
         gb_epoch = gs_epoch g, gb_intent_sequence = history_sequence (gc_history c) + 1, gb_command_id = cid,
         gb_source = source, gb_run_receipt = None, gb_not_submitted = False\<rparr>
        (q1\<lparr>q_operations := wo_operation_id (wc_operation w) # q_operations q1\<rparr>)"
    using int unfolding batch_intent_def Let_def rbind_Inr_iff require_simps not_le de_Morgan_disj not_not stored_fields r fields
    by (auto split: if_splits)
  have "AList.update k v d = d @ [(k, v)]" if "map_of d k = None" for k and v :: goal_batch and d
    using that by (induction d) (auto split: if_splits)
  with guards(2) q' q1 have batches: "q_batches q' = q_batches q @ [(bid,
        \<lparr>gb_id = bid, gb_goal_id = gid, gb_operation_id = wo_operation_id (wc_operation w), gb_revision = gs_revision g,
         gb_epoch = gs_epoch g, gb_intent_sequence = history_sequence (gc_history c) + 1, gb_command_id = cid,
         gb_source = source, gb_run_receipt = None, gb_not_submitted = False\<rparr>)]"
    and goals: "q_goals q' = q_goals q"
    by (simp_all add: put_batch_def)
  have count: "goal_batches c gid = goal_batch_count gid (q_batches q)"
    by (simp add: goal_batches_def q goal_batch_count_def filter_map o_def split_def)
  show thesis
    by (rule that [of "snd (last (q_batches q'))" g])
      (use guards g q1 count in \<open>simp_all add: h q batches goals intended_batch_def\<close>)
qed


section \<open>What changes the Work runtime\<close>

lemma quiet_work: "obeys (undisturbed append_to) m \<Longrightarrow> same_work (gc_work c) (gc_work (snd (m c)))"
  by (simp add: obeys_def undisturbed_def)

lemma same_work_trans: "same_work a b \<Longrightarrow> same_work b c \<Longrightarrow> same_work a c"
  by (simp add: same_work_def)

lemma chain_disturbs:
  assumes "obeys (undisturbed append_to) m" and "\<not> same_work (gc_work c) (gc_work (snd (chain m f c)))"
  obtains x d where "m c = (Inr x, d)" "undisturbed append_to c d" "\<not> same_work (gc_work d) (gc_work (snd (f x d)))"
proof -
  obtain r d where m: "m c = (r, d)" by fastforce
  have before: "undisturbed append_to c d" by (rule obeysD [OF assms(1) m])
  then have same: "same_work (gc_work c) (gc_work d)" by (simp add: undisturbed_def)
  show thesis
  proof (cases r)
    case (Inl e)
    with assms(2) m same show thesis by (simp add: chain_def)
  next
    case (Inr x)
    with assms(2) m have "\<not> same_work (gc_work c) (gc_work (snd (f x d)))" by (simp add: chain_def)
    then show thesis using that [OF m [unfolded Inr] before] same same_work_trans by blast
  qed
qed

lemma leave_advance_work [simp]: "gc_work (leave_advance task c) = gc_work c"
  by (simp add: leave_advance_def)

lemma in_advance_work: "gc_work (snd (in_advance task m c)) = gc_work (snd (m c))"
  by (auto simp: in_advance_def split: prod.split sum.split advance_state.split)

lemma lift_goal_Inr: "lift_goal m c = (Inr x, d) \<Longrightarrow> m = Inr x \<and> d = c"
  by (auto simp: lift_goal_def throw_def give_def split: sum.splits)

lemma intent_holds_Inr: "intent_holds c cid basis confirmed = Inr True \<Longrightarrow>
    confirmed \<and> history_sequence (gc_history c) = bs_sequence basis + 1 \<and> \<not> controller_fenced c \<and>
    query_goal c (gs_id (bs_goal basis)) = Inr (bs_goal basis) \<and> gs_status (bs_goal basis) = ''active''"
  by (auto simp: intent_holds_def Let_def rbind_Inr_iff same_goal_def split: if_splits)

lemma submit_batch_disturbs:
  assumes valid: "history_valid c"
    and work: "\<not> same_work (gc_work c) (gc_work (snd (submit_batch append_to resolve fresh bid f w confirm2 c)))"
  obtains d g b where "undisturbed append_to c d" "confirm2" "\<not> controller_fenced d"
    "hi_batches (gc_history d) = hi_batches (gc_history c) @ [b]"
    "intended_batch c (af_goal_id f) (af_command_id f) (wo_operation_id (wc_operation w)) g b"
    "snd (submit_batch append_to resolve fresh bid f w confirm2 c) = snd (dispatch append_to resolve fresh f bid w d)"
proof -
  let ?data = "intent_data bid w (af_basis f)"
  obtain x d where written: "append_record append_to ''batch_intent'' (af_goal_id f) (af_command_id f) ?data c = (Inr x, d)"
    and before: "undisturbed append_to c d"
    using chain_disturbs [OF quiet_append_record work [unfolded submit_batch_def]] by blast
  have rest: "snd (submit_batch append_to resolve fresh bid f w confirm2 c) =
      snd (chain (lift_goal (intent_holds d (af_command_id f) (af_basis f) confirm2)) (\<lambda>holds.
        if \<not> holds then returns (retract_batch append_to f bid (wo_operation_id (wc_operation w)))
        else dispatch append_to resolve fresh f bid w) d)"
    unfolding submit_batch_def chain_def [of "append_record _ _ _ _ _"] written by (simp add: reading_def)
  have "\<not> same_work (gc_work d) (gc_work (snd (submit_batch append_to resolve fresh bid f w confirm2 c)))"
    using work before same_work_trans unfolding undisturbed_def by blast
  then obtain holds d' where lifted: "lift_goal (intent_holds d (af_command_id f) (af_basis f) confirm2) d = (Inr holds, d')"
    and disturbs: "\<not> same_work (gc_work d') (gc_work (snd ((if \<not> holds then returns (retract_batch append_to f bid (wo_operation_id (wc_operation w)))
        else dispatch append_to resolve fresh f bid w) d')))"
    unfolding rest by (rule chain_disturbs [OF quiet_lift_goal])
  have d': "d' = d" and holds: "intent_holds d (af_command_id f) (af_basis f) confirm2 = Inr holds"
    using lift_goal_Inr [OF lifted] by simp_all
  have "holds" using disturbs by (rule contrapos_np) (simp add: quiet_work [OF quiet_returns [OF quiet_retract_batch]])
  with holds have ok: "confirm2" "\<not> controller_fenced d"
    using intent_holds_Inr [of d "af_command_id f" "af_basis f" confirm2] by simp_all
  have "snd (submit_batch append_to resolve fresh bid f w confirm2 c) = snd (dispatch append_to resolve fresh f bid w d)"
    using rest lifted \<open>holds\<close> d' by (simp add: chain_def)
  moreover from written obtain r h where "propose c ''batch_intent'' (af_goal_id f) (af_command_id f) ?data = Inr (r, h)"
    and "gc_history d = h"
    by (cases rule: append_record_cases) auto
  ultimately show thesis using intent_appended [OF valid] before ok that by metis
qed

lemma submit_candidate_disturbs:
  assumes "\<not> same_work (gc_work c) (gc_work (snd (submit_candidate append_to resolve fresh bid f w confirm1 confirm2 c)))"
  obtains d where "undisturbed append_to c d" "confirm1" "is_current d (af_basis f) = Inr True"
    "snd (submit_candidate append_to resolve fresh bid f w confirm1 confirm2 c) =
       snd (submit_batch append_to resolve fresh bid f w confirm2 d)"
    "\<not> same_work (gc_work d) (gc_work (snd (submit_batch append_to resolve fresh bid f w confirm2 d)))"
proof -
  let ?c' = "snd (submit_candidate append_to resolve fresh bid f w confirm1 confirm2 c)"
  obtain x d where checked: "check_candidate w (af_basis f) c = (Inr x, d)" and before: "undisturbed append_to c d"
    using chain_disturbs [OF quiet_check_candidate assms [unfolded submit_candidate_def]] by blast
  let ?ready = "if confirm1 then lift_goal (is_current d (af_basis f)) else give False"
  have rest: "?c' = snd (chain ?ready (\<lambda>ready.
      if \<not> ready then returns (pause_command append_to (af_goal_id f) (af_command_id f) ''candidate_outdated'')
      else submit_batch append_to resolve fresh bid f w confirm2) d)"
    unfolding submit_candidate_def chain_def [of "check_candidate _ _"] checked by (simp add: reading_def)
  have quiet: "obeys (undisturbed append_to) ?ready" by (intro quiet.obeys_rules quiet_lift_goal)
  have "\<not> same_work (gc_work d) (gc_work ?c')"
    using assms before same_work_trans unfolding undisturbed_def by blast
  then obtain ready d' where r: "?ready d = (Inr ready, d')"
    and disturbs: "\<not> same_work (gc_work d') (gc_work (snd ((if \<not> ready
      then returns (pause_command append_to (af_goal_id f) (af_command_id f) ''candidate_outdated'')
      else submit_batch append_to resolve fresh bid f w confirm2) d')))"
    unfolding rest by (rule chain_disturbs [OF quiet])
  have "ready" using disturbs by (rule contrapos_np) (simp add: quiet_work [OF quiet_returns [OF quiet_pause_command]])
  with r have d': "d' = d" and "confirm1" "is_current d (af_basis f) = Inr True"
    using lift_goal_Inr by (fastforce simp: give_def split: if_splits)+
  moreover have "?c' = snd (submit_batch append_to resolve fresh bid f w confirm2 d)"
    using rest r \<open>ready\<close> d' by (simp add: chain_def)
  ultimately show thesis using before disturbs \<open>ready\<close> that by simp
qed

text \<open>A section of \<open>advance\<close> that changes the runtime has written the intent of what it dispatches.\<close>

lemma advance_prepared_disturbs:
  assumes "\<not> same_work (gc_work c) (gc_work (snd (advance_prepared append_to resolve fresh bid f answer confirm1 confirm2 c)))"
  obtains w where "answer = Prepared w"
    "gc_work (snd (advance_prepared append_to resolve fresh bid f answer confirm1 confirm2 c)) =
       gc_work (snd (submit_candidate append_to resolve fresh bid f w confirm1 confirm2 c))"
    "controller_before append_to (snd (submit_candidate append_to resolve fresh bid f w confirm1 confirm2 c))
       (snd (advance_prepared append_to resolve fresh bid f answer confirm1 confirm2 c))"
proof -
  let ?rest = "\<lambda>current. if \<not> current then returns (finish_command append_to (af_goal_id f) (af_command_id f) ''stale'' [])
     else (case answer of
          PolicyStop reason \<Rightarrow> returns (pause_command append_to (af_goal_id f) (af_command_id f) reason)
        | Prepared w \<Rightarrow> submit_candidate append_to resolve fresh bid f w confirm1 confirm2)"
  have eq: "gc_work (snd (advance_prepared append_to resolve fresh bid f answer confirm1 confirm2 c)) =
      gc_work (snd (chain (lift_goal (is_current c (af_basis f))) ?rest c))"
    unfolding advance_prepared_def in_advance_work reading_def ..
  obtain current d where lifted: "lift_goal (is_current c (af_basis f)) c = (Inr current, d)"
    and disturbs: "\<not> same_work (gc_work d) (gc_work (snd (?rest current d)))"
    by (rule chain_disturbs [OF quiet_lift_goal assms [unfolded eq]])
  have d: "d = c" using lift_goal_Inr [OF lifted] by simp
  have current: "current"
    using disturbs by (rule contrapos_np) (simp add: quiet_work [OF quiet_returns [OF quiet_finish_command]])
  show thesis
  proof (cases answer)
    case (PolicyStop reason)
    then show thesis using disturbs current by (simp add: quiet_work [OF quiet_returns [OF quiet_pause_command]])
  next
    case (Prepared w)
    have same: "chain (lift_goal (is_current c (af_basis f))) ?rest c =
        submit_candidate append_to resolve fresh bid f w confirm1 confirm2 c"
      using lifted d current Prepared by (simp add: chain_def)
    have "snd (advance_prepared append_to resolve fresh bid f answer confirm1 confirm2 c) \<in>
        {snd (chain (lift_goal (is_current c (af_basis f))) ?rest c),
         leave_advance (af_task f) (snd (chain (lift_goal (is_current c (af_basis f))) ?rest c))}"
      unfolding advance_prepared_def reading_def by (rule in_advance_state)
    then have "controller_before append_to (snd (submit_candidate append_to resolve fresh bid f w confirm1 confirm2 c))
        (snd (advance_prepared append_to resolve fresh bid f answer confirm1 confirm2 c))"
      unfolding same using leave_advance_undisturbed controller_before_refl by (auto simp: undisturbed_def)
    then show thesis using that [OF Prepared] eq same by simp
  qed
qed

end
