(* ===== verification/Goal_Steps.thy ===== *)
theory Goal_Steps
  imports Goal_Control
begin

text \<open>
  The steps of the Goal controller beside a running Work runtime, and what its operations return:
  commands with their receipts, and the facts of the Work runtime that completion rests on.
\<close>

section \<open>Steps\<close>

text \<open>
  One section of one method. The frames of suspended methods are arbitrary, so a step may also resume
  a method that was never begun.
\<close>

inductive control_step :: "'s store_append \<Rightarrow> 's controller \<Rightarrow> 's controller \<Rightarrow> bool"
  for append_to :: "'s store_append" where
  creating: "create_goal append_to gid reqs cid n metadata c = (x, c') \<Longrightarrow> control_step append_to c c'"
| revising: "revise_goal append_to gid reqs cid revision epoch reason c = (x, c') \<Longrightarrow> control_step append_to c c'"
| replacing: "replace_goal append_to gid new_gid reqs cid revision epoch reason n metadata c = (x, c') \<Longrightarrow>
    control_step append_to c c'"
| controlling: "control_goal append_to answer gid act cid revision epoch reason new_limit c = (x, c') \<Longrightarrow>
    control_step append_to c c'"
| looking: "work_facts c = (facts, c') \<Longrightarrow> control_step append_to c c'"
| advancing: "advance_begin append_to task gid cid revision epoch c = (y, c') \<Longrightarrow> control_step append_to c c'"
| raising: "advance_raised f e c = (y, c') \<Longrightarrow> control_step append_to c c'"
| assessing: "advance_assessed append_to f a confirmed c = (y, c') \<Longrightarrow> control_step append_to c c'"
| preparing: "advance_prepared append_to resolve fresh bid f prepared confirm1 confirm2 c = (y, c') \<Longrightarrow>
    control_step append_to c c'"
| interrupting: "advance_interrupted append_to f rid operation c = (y, c') \<Longrightarrow> control_step append_to c c'"
| stopping: "advance_stopped append_to f rid operation w event c = (y, c') \<Longrightarrow> control_step append_to c c'"
| working: "advance_worked append_to f operation raised c = (y, c') \<Longrightarrow> control_step append_to c c'"
| reassessing: "advance_reassessed append_to f now operation a confirmed c = (y, c') \<Longrightarrow> control_step append_to c c'"
| cancelling: "request_cancel_begin task gid c = (z, c') \<Longrightarrow> control_step append_to c c'"
| cancelled: "request_cancel_resumed task gid rid bs results w event c = (z, c') \<Longrightarrow> control_step append_to c c'"
| fencing: "fence c = (u, c') \<Longrightarrow> control_step append_to c c'"
| closing: "begin_close c = (u, c') \<Longrightarrow> control_step append_to c c'"
| quiescing: "quiesce_begin task c = (tasks, c') \<Longrightarrow> control_step append_to c c'"
| gathering: "quiesce_gathered gathered c = (u, c') \<Longrightarrow> control_step append_to c c'"
| settling: "settle_begin c = (s, c') \<Longrightarrow> control_step append_to c c'"
| settled: "settle_resumed_work rid runs w event c = (s, c') \<Longrightarrow> control_step append_to c c'"
| retiring: "retire c = (u, c') \<Longrightarrow> control_step append_to c c'"

text \<open>Steps of the controller, and of the Work runtime it shares with others.\<close>

inductive control_run :: "'s store_append \<Rightarrow> 's controller \<Rightarrow> 's controller \<Rightarrow> bool"
  for append_to :: "'s store_append" and c where
  at_first: "control_run append_to c c"
| own_step: "control_run append_to c c' \<Longrightarrow> control_step append_to c' c'' \<Longrightarrow> control_run append_to c c''"
| work_step: "control_run append_to c c' \<Longrightarrow> runtime_step (gc_work c') rt \<Longrightarrow> control_run append_to c (c'\<lparr>gc_work := rt\<rparr>)"

lemmas quiet_sections = quiet_commands quiet_control_goal quiet_work_facts quiet_advance_begin quiet_advance_raised
  quiet_advance_assessed quiet_advance_worked quiet_advance_reassessed quiet_fence
  quiet_begin_close quiet_closing

lemmas halting_sections = halting_cancelling halting_settling halting_advance

text \<open>Every section but one writes at most events of live runs to the Work log.\<close>

lemma control_step_cases:
  assumes "control_step append_to c c'"
  obtains (stopping) "stopping append_to c c'"
  | (preparing) resolve fresh bid f prepared confirm1 confirm2 y where
      "advance_prepared append_to resolve fresh bid f prepared confirm1 confirm2 c = (y, c')"
  using assms
proof (cases rule: control_step.cases)
  case (preparing resolve fresh bid f prepared confirm1 confirm2 y)
  then show thesis using that(2) by blast
qed (rule that(1), ((rule undisturbed_stopping, erule obeysD [rotated], rule quiet_sections) |
    (erule obeysD [rotated], rule halting_sections)))+

lemma control_step_before:
  assumes "control_step append_to c c'"
  shows "controller_before append_to c c'"
  using assms
proof (cases rule: control_step_cases)
  case stopping
  then show ?thesis by (simp add: stopping_def)
next
  case (preparing resolve fresh bid f prepared confirm1 confirm2 y)
  show ?thesis by (rule obeysD [OF growing_advance_prepared preparing])
qed

lemma control_run_before: "control_run append_to c c' \<Longrightarrow> controller_before append_to c c'"
proof (induction rule: control_run.induct)
  case at_first
  show ?case by (rule controller_before_refl)
next
  case (own_step c' c'')
  then show ?case using control_step_before controller_before_trans by blast
next
  case (work_step c' rt)
  have "controller_before append_to c' (c'\<lparr>gc_work := rt\<rparr>)"
    by (rule controller_before_fields) (simp_all add: controller_fenced_def)
  with work_step.IH show ?case by (rule controller_before_trans)
qed

section \<open>Histories move along the life of Goals\<close>

lemma history_before:
  assumes "history_valid c" and "controller_before append_to c c'"
  obtains q q' where "goal_inv q" "goal_inv q'" "replay_before q q'"
    "hi_goals (gc_history c) = q_goals q" "hi_batches (gc_history c) = map snd (q_batches q)"
    "hi_commands (gc_history c) = q_commands q"
    "hi_goals (gc_history c') = q_goals q'" "hi_batches (gc_history c') = map snd (q_batches q')"
    "hi_commands (gc_history c') = q_commands q'"
proof -
  have valid': "history_valid c'" and header: "gc_header c' = gc_header c"
    using assms by (simp_all add: controller_before_def)
  obtain rs where rs: "hi_records (gc_history c') = hi_records (gc_history c) @ rs"
    using assms(2) by (auto simp: controller_before_def)
  obtain q where q: "rfold (goal_step (gc_header c)) (1, empty_replay) (hi_records (gc_history c)) =
      Inr (history_sequence (gc_history c) + 1, q)" "goal_inv q"
      "hi_goals (gc_history c) = q_goals q" "hi_batches (gc_history c) = map snd (q_batches q)"
      "hi_commands (gc_history c) = q_commands q"
    by (rule history_state [OF assms(1)])
  obtain q' where q': "rfold (goal_step (gc_header c')) (1, empty_replay) (hi_records (gc_history c')) =
      Inr (history_sequence (gc_history c') + 1, q')" "goal_inv q'"
      "hi_goals (gc_history c') = q_goals q'" "hi_batches (gc_history c') = map snd (q_batches q')"
      "hi_commands (gc_history c') = q_commands q'"
    by (rule history_state [OF valid'])
  show thesis
    by (rule that [OF q(2) q'(2) replay_goal_before [OF q(1) q'(1) [unfolded header rs]] q(3-5) q'(3-5)])
qed

text \<open>A receipt keeps its request, and once finished stays as it is.\<close>

lemma receipt_persists:
  assumes "history_valid c" and "controller_before append_to c c'"
    and "map_of (hi_commands (gc_history c)) cid = Some receipt"
  obtains receipt' where "map_of (hi_commands (gc_history c')) cid = Some receipt'"
    and "cr_request receipt' = cr_request receipt" and "cr_outcome receipt \<noteq> ''pending'' \<Longrightarrow> receipt' = receipt"
proof -
  obtain q q' where "replay_before q q'" "hi_commands (gc_history c) = q_commands q"
      "hi_commands (gc_history c') = q_commands q'"
    by (rule history_before [OF assms(1,2)])
  then obtain receipt' where "map_of (hi_commands (gc_history c')) cid = Some receipt'"
    and "receipt' = receipt \<or> command_moves receipt receipt'"
    using replay_beforeD(3) [of q q' cid receipt] assms(3) by auto
  moreover have "cr_request receipt' = cr_request receipt" "cr_outcome receipt \<noteq> ''pending'' \<longrightarrow> receipt' = receipt"
    using calculation(2) by (auto simp: command_moves.simps)
  ultimately show thesis using that by blast
qed

lemma admission_appended:
  assumes "history_valid c" and "propose c ''command_received'' gid cid [(''request'', JStr request)] = Inr (r, h)"
  obtains receipt where "map_of (hi_commands h) cid = Some receipt" and "cr_request receipt = request"
    and "map_of (hi_commands (gc_history c)) cid = None"
proof -
  obtain q q' where ap: "goal_apply (gc_header c) (history_sequence (gc_history c) + 1) (stored_record r) q = Inr q'"
    and q: "hi_commands (gc_history c) = q_commands q" and h: "hi_commands h = q_commands q'"
    by (rule propose_step [OF assms])
  have r: "gr_kind r = ''command_received''" "gr_command_id r = cid" "gr_data r = [(''request'', JStr request)]"
    using propose_Inr [OF assms(2)] by simp_all
  have rec: "command_received (stored_record r) q = Inr q'"
    using ap r(1) by (auto simp: goal_apply_def rbind_Inr_iff)
  have none: "map_of (q_commands q) cid = None"
    and loaded: "(case loads request of None \<Rightarrow> Inl NotJson
      | Some (JObj parsed) \<Rightarrow> admit_command (stored_record r) request parsed q
      | Some _ \<Rightarrow> Inl (GoalError ''command request identity mismatch'')) = Inr q'"
    using rec r by (auto simp: command_received_def rbind_Inr_iff split: if_splits)
  obtain parsed where "admit_command (stored_record r) request parsed q = Inr q'"
    using loaded by (cases "loads request"; cases "the (loads request)") simp_all
  then have "\<exists>receipt. map_of (q_commands q') cid = Some receipt \<and> cr_request receipt = request"
    using r by (auto simp: admit_command_def Let_def rbind_Inr_iff)
  then show thesis using that q none by (auto simp: h)
qed


section \<open>Commands\<close>

lemma cached_receipt_Inr:
  "cached_receipt c act gid cid revision epoch data = Inr found \<longleftrightarrow>
     not_blank cid \<and> (\<exists>request. goal_request act gid revision epoch data = Inr request \<and>
       found = map_of (hi_commands (gc_history c)) cid \<and>
       (\<forall>old. found = Some old \<longrightarrow> cr_request old = request))"
  by (cases "map_of (hi_commands (gc_history c)) cid"; cases "goal_request act gid revision epoch data"; cases "not_blank cid")
    (auto simp: cached_receipt_def)

lemma run_command_cached:
  assumes "cached_receipt c act gid cid revision epoch data = Inr (Some receipt)"
  shows "run_command append_to act gid cid revision epoch data effect outcome c = (Inr receipt, c)"
  using assms by (simp add: run_command_def begin_command_def chain_def reading_def lift_goal_def give_def)

lemma run_command_reused:
  assumes "map_of (hi_commands (gc_history c)) cid = Some receipt"
    and "goal_request act gid revision epoch data \<noteq> Inr (cr_request receipt)"
  shows "\<exists>e. run_command append_to act gid cid revision epoch data effect outcome c = (Inl (GoalRaised e), c)"
proof -
  have "\<nexists>found. cached_receipt c act gid cid revision epoch data = Inr found"
    using assms by (auto simp: cached_receipt_Inr)
  then obtain e where "cached_receipt c act gid cid revision epoch data = Inl e" by (metis sum.exhaust)
  then show ?thesis
    by (simp add: run_command_def begin_command_def chain_def reading_def lift_goal_def throw_def)
qed

text \<open>What a command that returns has done: found its receipt, or written its three records.\<close>

lemma begin_command_None:
  assumes "begin_command append_to act gid cid revision epoch data c = (Inr None, c')"
  obtains request r h s where "goal_request act gid revision epoch data = Inr request"
    "cached_receipt c act gid cid revision epoch data = Inr None" "check_version c act gid revision epoch = Inr ()"
    "propose c ''command_received'' gid cid [(''request'', JStr request)] = Inr (r, h)"
    "c' = c\<lparr>gc_store := s, gc_history := h\<rparr>" "not_blank cid"
proof -
  obtain found where cached: "cached_receipt c act gid cid revision epoch data = Inr found"
    using assms by (cases "cached_receipt c act gid cid revision epoch data")
      (simp_all add: begin_command_def reading_def chain_def lift_goal_def throw_def)
  then have none: "found = None"
    using assms by (cases found) (simp_all add: begin_command_def reading_def chain_def lift_goal_def give_def)
  obtain request where request: "goal_request act gid revision epoch data = Inr request" and cid: "not_blank cid"
    using cached by (auto simp: cached_receipt_Inr)
  have step: "check_version c act gid revision epoch = Inr () \<and>
      append_record append_to ''command_received'' gid cid [(''request'', JStr request)] c = (Inr (), c')"
    using assms cached none request
    by (auto simp: begin_command_def reading_def chain_def lift_goal_def throw_def give_def must_be_mutable_def
        unless_raise_def split: if_splits sum.splits prod.splits option.splits)
  then show thesis
    using cached none request cid that by (auto elim!: append_record_cases)
qed

lemma finish_command_Inr:
  assumes "finish_command append_to gid cid outcome details c = (Inr receipt, c')"
  obtains r h s where
    "propose c ''command_finished'' gid cid [(''outcome'', JStr outcome), (''details'', JObj details)] = Inr (r, h)"
    "c' = c\<lparr>gc_store := s, gc_history := h\<rparr>" "map_of (hi_commands h) cid = Some receipt"
proof -
  let ?data = "[(''outcome'', JStr outcome), (''details'', JObj details)]"
  obtain x d where ap: "append_record append_to ''command_finished'' gid cid ?data c = (x, d)" by fastforce
  have x: "x = Inr ()" and d: "map_of (hi_commands (gc_history d)) cid = Some receipt" and c': "c' = d"
    using assms ap
    by (auto simp: finish_command_def chain_def reading_def fail_goal_def throw_def give_def split: sum.splits option.splits)
  from ap x d c' that show thesis by (auto elim!: append_record_cases)
qed

lemma run_command_cases:
  assumes "run_command append_to act gid cid revision epoch data effect outcome c = (Inr receipt, c')"
  obtains (cached) "cached_receipt c act gid cid revision epoch data = Inr (Some receipt)" "c' = c"
  | (executed) c1 c2 where "begin_command append_to act gid cid revision epoch data c = (Inr None, c1)"
      "append_record append_to effect gid cid data c1 = (Inr (), c2)"
      "finish_command append_to gid cid outcome [] c2 = (Inr receipt, c')"
proof -
  obtain x c1 where begun: "begin_command append_to act gid cid revision epoch data c = (x, c1)" by fastforce
  show thesis
  proof (cases x)
    case (Inl e)
    then show thesis using assms begun by (simp add: run_command_def chain_def)
  next
    case (Inr found)
    show thesis
    proof (cases found)
      case None
      then show thesis using assms begun Inr executed
        by (auto simp: run_command_def chain_def split: sum.splits prod.splits)
    next
      case (Some old)
      obtain y where y: "cached_receipt c act gid cid revision epoch data = y" by blast
      have "y = Inr (Some receipt) \<and> c' = c"
        using assms begun Inr Some y
        by (auto simp: run_command_def begin_command_def chain_def reading_def lift_goal_def throw_def give_def
            split: sum.splits prod.splits if_splits)
      then show thesis using cached y by blast
    qed
  qed
qed


section \<open>Facts of the Work runtime\<close>

text \<open>Looking only: history and store stay, the runtime but for its remembered lookups too.\<close>

definition only_looked :: "'s controller \<Rightarrow> 's controller \<Rightarrow> bool" where
  "only_looked c c' \<longleftrightarrow> gc_header c' = gc_header c \<and> gc_history c' = gc_history c \<and> gc_store c' = gc_store c \<and>
     same_work (gc_work c) (gc_work c') \<and> gc_retired c' = gc_retired c"

interpretation looking: state_preorder only_looked
  by unfold_locales (auto simp: only_looked_def intro: same_work_trans)

lemma looking_run_for_operation: "obeys only_looked (run_for_operation operation)"
  unfolding obeys_def
proof
  fix c :: "'a controller"
  obtain r rt where look: "get_run_for_operation (gc_work c) operation = (r, rt)" by fastforce
  then have "same_work (gc_work c) rt" using get_run_for_operation_state [OF look] by (simp add: same_work_def)
  then show "only_looked c (snd (run_for_operation operation c))"
    by (auto simp: run_for_operation_def look only_looked_def split: sum.split)
qed

lemma looking_fence: "obeys only_looked fence"
  unfolding fence_def by (rule looking.obeys_change) (simp add: only_looked_def)

lemma looking_batch_fact: "obeys only_looked (batch_fact b acc)"
  unfolding batch_fact_def fail_goal_def by (intro looking.obeys_rules looking_run_for_operation looking_fence)

lemma looking_batch_facts: "obeys only_looked (batch_facts bs acc)"
  by (induction bs arbitrary: acc) (auto intro!: looking.obeys_rules looking_batch_fact)

lemma looking_work_facts: "obeys only_looked work_facts"
  unfolding work_facts_def by (intro looking.obeys_rules looking_batch_facts)

text \<open>
  A lookup of an operation in the borrowed runtime; earlier lookups of the same section may have
  been remembered by it.
\<close>

definition looked_up :: "'s controller \<Rightarrow> string \<Rightarrow> work_run option \<Rightarrow> bool" where
  "looked_up c operation found \<longleftrightarrow>
     (\<exists>rt rt'. same_work (gc_work c) rt \<and> get_run_for_operation rt operation = (Inr found, rt'))"

definition run_of_batch :: "'s controller \<Rightarrow> goal_batch \<Rightarrow> work_run \<Rightarrow> bool" where
  "run_of_batch c b run \<longleftrightarrow> \<not> gb_not_submitted b \<and> looked_up c (gb_operation_id b) (Some run) \<and>
     r_session_id run = gh_session_id (gc_header c) \<and>
     (gb_run_receipt b = None \<or> gb_run_receipt b = Some (r_run_id run))"

text \<open>A live run is found whatever was remembered.\<close>

lemma looked_up_live:
  assumes "looked_up c operation found" and "map_of (rt_operation_runs (gc_work c)) operation = Some rid"
  shows "found = map_option rs_run (map_of (rt_states (gc_work c)) rid)"
  using assms by (auto simp: looked_up_def same_work_def get_run_for_operation_def)

lemma looked_up_before: "looked_up d operation found \<Longrightarrow> only_looked c d \<Longrightarrow> looked_up c operation found"
  unfolding looked_up_def only_looked_def using same_work_trans by blast

lemma run_of_batch_before: "run_of_batch d b run \<Longrightarrow> only_looked c d \<Longrightarrow> run_of_batch c b run"
  using looked_up_before [of d _ _ c] by (auto simp: run_of_batch_def only_looked_def)

lemma run_for_operation_result:
  assumes "run_for_operation operation c = (r, c')"
  shows "r = Inr found \<Longrightarrow> looked_up c operation found" and "r \<noteq> Inl (GoalRaised e)"
  using assms same_work_refl by (force simp: run_for_operation_def looked_up_def split: prod.splits sum.splits)+

lemma batch_fact_cases:
  assumes "batch_fact b (runs, u) c = (r, c')"
  obtains (no_run) "gb_not_submitted b" "r = Inr (runs, u)" "looked_up c (gb_operation_id b) None"
  | (missing) "\<not> gb_not_submitted b" "r = Inr (runs, True)"
  | (found) run rt where "r = Inr (runs @ [run], u \<or> run_unresolved rt run)" "run_of_batch c b run"
  | (contradiction) e where "r = Inl (GoalRaised e)" "gc_fenced c'"
  | (unreadable) e where "r = Inl (WorkRaised e)"
proof -
  obtain x d where look: "run_for_operation (gb_operation_id b) c = (x, d)" by fastforce
  have header: "gc_header d = gc_header c"
    using obeysD [OF looking_run_for_operation look] by (simp add: only_looked_def)
  show thesis
  proof (cases x)
    case (Inl e)
    then obtain e' where "x = Inl (WorkRaised e')"
      using look by (auto simp: run_for_operation_def split: prod.splits sum.splits)
    then show thesis using assms look by (intro unreadable [of e']) (simp add: batch_fact_def chain_def)
  next
    case (Inr run)
    have looked: "looked_up c (gb_operation_id b) run" using run_for_operation_result(1) [OF look Inr] .
    show thesis
    proof (cases run)
      case None
      then show thesis
        using assms look Inr looked no_run missing
        by (cases "gb_not_submitted b") (auto simp: batch_fact_def chain_def reading_def give_def)
    next
      case (Some w)
      show thesis
      proof (cases "run_of_batch c b w")
        case True
        then have "r = Inr (runs @ [w], u \<or> run_unresolved (gc_work d) w)"
          using assms look Inr Some header
          by (auto simp: batch_fact_def chain_def reading_def give_def run_of_batch_def)
        with True show thesis by (rule found [rotated])
      next
        case False
        then have "\<exists>e. r = Inl (GoalRaised e) \<and> gc_fenced c'"
          using assms look Inr Some header looked
          by (auto simp: batch_fact_def chain_def reading_def run_of_batch_def fence_def change_def fail_goal_def throw_def
              split: if_splits)
        then show thesis using contradiction by blast
      qed
    qed
  qed
qed

lemma batch_facts_Inr:
  assumes "batch_facts bs (runs, u) c = (Inr (runs', u'), c')"
  shows "(u \<longrightarrow> u') \<and> (\<exists>new. runs' = runs @ new \<and> (\<forall>run \<in> set new. \<exists>b \<in> set bs. run_of_batch c b run)) \<and>
    (\<forall>b \<in> set bs. if gb_not_submitted b then looked_up c (gb_operation_id b) None
       else u' \<or> (\<exists>run \<in> set runs'. run_of_batch c b run))"
  using assms
proof (induction bs arbitrary: runs u c)
  case Nil
  then show ?case by (simp add: give_def)
next
  case (Cons b bs)
  obtain r d where first: "batch_fact b (runs, u) c = (r, d)" by fastforce
  obtain runs1 u1 where r: "r = Inr (runs1, u1)" and rest: "batch_facts bs (runs1, u1) d = (Inr (runs', u'), c')"
    using Cons.prems first by (auto simp: chain_def split: sum.splits)
  have before: "only_looked c d" by (rule obeysD [OF looking_batch_fact first])
  from Cons.IH [OF rest] obtain new where u: "u1 \<longrightarrow> u'" and new: "runs' = runs1 @ new"
      "\<forall>run \<in> set new. \<exists>b \<in> set bs. run_of_batch d b run"
    and all: "\<forall>b \<in> set bs. if gb_not_submitted b then looked_up d (gb_operation_id b) None
       else u' \<or> (\<exists>run \<in> set runs'. run_of_batch d b run)"
    by blast
  have new_c: "\<forall>run \<in> set new. \<exists>b \<in> set bs. run_of_batch c b run"
    using new(2) run_of_batch_before [OF _ before] by blast
  have all_c: "\<forall>b \<in> set bs. if gb_not_submitted b then looked_up c (gb_operation_id b) None
       else u' \<or> (\<exists>run \<in> set runs'. run_of_batch c b run)"
    using all looked_up_before [OF _ before] run_of_batch_before [OF _ before] by (metis (full_types))
  from first show ?case
  proof (cases rule: batch_fact_cases)
    case no_run
    then show ?thesis using r u new(1) new_c all_c by auto
  next
    case missing
    then show ?thesis using r u new(1) new_c all_c by auto
  next
    case (found run rt)
    then have one: "runs1 = runs @ [run]" "u \<longrightarrow> u1" "\<not> gb_not_submitted b" using r by (auto simp: run_of_batch_def)
    then have "runs' = runs @ (run # new)" using new(1) by simp
    moreover have "\<exists>run \<in> set runs'. run_of_batch c b run" using found(2) one(1) new(1) by auto
    ultimately show ?thesis using one u new_c all_c found(2) by auto
  qed (use r in simp_all)
qed

lemma batch_facts_contradiction:
  assumes "batch_facts bs acc c = (Inl (GoalRaised e), c')"
  shows "gc_fenced c'"
  using assms
proof (induction bs arbitrary: acc c)
  case Nil
  then show ?case by (simp add: give_def)
next
  case (Cons b bs)
  obtain runs u where acc: "acc = (runs, u)" by fastforce
  obtain r d where first: "batch_fact b (runs, u) c = (r, d)" by fastforce
  show ?case
  proof (cases r)
    case (Inl e')
    with Cons.prems first acc have "r = Inl (GoalRaised e)" "c' = d" by (simp_all add: chain_def)
    then show ?thesis using first by (auto elim!: batch_fact_cases)
  next
    case (Inr acc')
    with Cons.prems first acc have "batch_facts bs acc' d = (Inl (GoalRaised e), c')" by (simp add: chain_def)
    then show ?thesis by (rule Cons.IH)
  qed
qed

lemma work_facts_result:
  assumes "work_facts c = (r, c')"
  shows "r = Inr facts \<Longrightarrow> gf_batches facts = hi_batches (gc_history c) \<and> gc_history c' = gc_history c \<and>
      gf_busy facts = (active_runs (gc_work c) (Some (gh_session_id (gc_header c))) \<noteq> []) \<and>
      (\<forall>run \<in> set (gf_runs facts). \<exists>b \<in> set (gf_batches facts). run_of_batch c b run) \<and>
      (\<forall>b \<in> set (gf_batches facts). if gb_not_submitted b then looked_up c (gb_operation_id b) None
         else gf_unresolved facts \<or> (\<exists>run \<in> set (gf_runs facts). run_of_batch c b run))"
    and "r = Inl (GoalRaised e) \<Longrightarrow> gc_retired c \<or> gc_fenced c'"
proof -
  obtain x d where facts: "batch_facts (hi_batches (gc_history c)) ([], False) c = (x, d)" by fastforce
  have same: "gc_header d = gc_header c" "same_work (gc_work c) (gc_work d)" and kept: "gc_history d = gc_history c"
    using obeysD [OF looking_batch_facts facts] by (simp_all add: only_looked_def)
  show "r = Inl (GoalRaised e) \<Longrightarrow> gc_retired c \<or> gc_fenced c'"
    using assms facts batch_facts_contradiction [of "hi_batches (gc_history c)" "([], False)" c e]
    by (auto simp: work_facts_def chain_def unless_raise_def reading_def give_def split: if_splits sum.splits)
  assume r: "r = Inr facts"
  then obtain runs u where x: "x = Inr (runs, u)" and out: "c' = d" "facts = \<lparr>gf_batches = hi_batches (gc_history d), gf_runs = runs,
      gf_busy = (active_runs (gc_work d) (Some (gh_session_id (gc_header d))) \<noteq> []), gf_unresolved = u\<rparr>"
    using assms facts
    by (auto simp: work_facts_def chain_def unless_raise_def reading_def give_def split: if_splits sum.splits)
  show "gf_batches facts = hi_batches (gc_history c) \<and> gc_history c' = gc_history c \<and>
      gf_busy facts = (active_runs (gc_work c) (Some (gh_session_id (gc_header c))) \<noteq> []) \<and>
      (\<forall>run \<in> set (gf_runs facts). \<exists>b \<in> set (gf_batches facts). run_of_batch c b run) \<and>
      (\<forall>b \<in> set (gf_batches facts). if gb_not_submitted b then looked_up c (gb_operation_id b) None
         else gf_unresolved facts \<or> (\<exists>run \<in> set (gf_runs facts). run_of_batch c b run))"
    using batch_facts_Inr [OF facts [unfolded x]] out kept same by (simp add: active_runs_def same_work_def)
qed

end
