(* ===== verification/Goal_Outcomes.thy ===== *)
theory Goal_Outcomes
  imports Goal_Steps
begin

text \<open>
  What the operations of the Goal controller have done when they return: the records of a command, the
  evidence of a completion, and the history that a restart reads back from the journal.
\<close>

section \<open>What is written\<close>

lemma finish_appended:
  assumes "history_valid c"
    and "propose c ''command_finished'' gid cid [(''outcome'', JStr outcome), (''details'', JObj details)] = Inr (r, h)"
    and "map_of (hi_commands h) cid = Some receipt"
  shows "cr_outcome receipt = outcome" and "hi_goals h = hi_goals (gc_history c)"
proof -
  obtain q q' where ap: "goal_apply (gc_header c) (history_sequence (gc_history c) + 1) (stored_record r) q = Inr q'"
    and q: "hi_goals (gc_history c) = q_goals q" and h: "hi_goals h = q_goals q'" "hi_commands h = q_commands q'"
    by (rule propose_step [OF assms(1,2)])
  have r: "gr_kind r = ''command_finished''" "gr_command_id r = cid"
      "gr_data r = [(''outcome'', JStr outcome), (''details'', JObj details)]"
    using propose_Inr [OF assms(2)] by simp_all
  obtain x where "command_finished (stored_record r) x q = Inr q'"
    using ap r(1) by (auto simp: goal_apply_def rbind_Inr_iff)
  then have "cr_outcome receipt = outcome \<and> q_goals q' = q_goals q"
    using assms(3) r h by (auto simp: command_finished_def rbind_Inr_iff split: if_splits)
  then show "cr_outcome receipt = outcome" "hi_goals h = hi_goals (gc_history c)" by (simp_all add: q h)
qed

lemma decision_appended:
  assumes "history_valid c" and "propose c ''acceptance_decided'' gid cid data = Inr (r, h)"
  shows "\<exists>g. map_of (hi_goals h) gid = Some g \<and> gs_status g = ''completed'' \<and> gs_acceptance g = Some data"
proof -
  obtain q q' where ap: "goal_apply (gc_header c) (history_sequence (gc_history c) + 1) (stored_record r) q = Inr q'"
    and h: "hi_goals h = q_goals q'"
    by (rule propose_step [OF assms])
  have r: "gr_kind r = ''acceptance_decided''" "gr_goal_id r = gid" "gr_data r = data"
    using propose_Inr [OF assms(2)] by simp_all
  obtain q1 where changed: "goal_changed (gc_header c) (history_sequence (gc_history c) + 1) (stored_record r) q1 = Inr q'"
    using ap r(1) by (auto simp: goal_apply_def rbind_Inr_iff)
  then obtain g where "acceptance_decided (gc_header c) (history_sequence (gc_history c) + 1) (stored_record r) g q1 = Inr q'"
    using r(1) by (auto simp: goal_changed_def split: option.splits)
  then show ?thesis
    using r(2,3)
    by (auto simp: acceptance_decided_def Let_def rbind_Inr_iff put_goal_def h
        split: if_splits option.splits json.splits)
qed

lemma append_record_Inr:
  assumes "history_valid c" and "append_record append_to kind gid cid data c = (Inr u, c')"
  obtains r h s where "propose c kind gid cid data = Inr (r, h)" and "c' = c\<lparr>gc_store := s, gc_history := h\<rparr>"
    and "hi_records h = hi_records (gc_history c) @ [r]" and "gr_kind r = kind" "gr_command_id r = cid"
      "gr_data r = data" "gr_goal_id r = gid" and "history_valid c'"
proof -
  have valid: "history_valid c'"
    using obeysD [OF quiet_append_record assms(2)] assms(1) by (simp add: undisturbed_def controller_before_def)
  from assms(2) obtain r h s where "propose c kind gid cid data = Inr (r, h)" "c' = c\<lparr>gc_store := s, gc_history := h\<rparr>"
    by (cases rule: append_record_cases) auto
  with propose_Inr [OF this(1)] replay_goal_fields valid show thesis by (intro that [of r h s]) auto
qed

lemma finish_command_appends:
  assumes "history_valid c" and "finish_command append_to gid cid outcome details c = (Inr receipt, c')"
  obtains r where "hi_records (gc_history c') = hi_records (gc_history c) @ [r]" "gr_kind r = ''command_finished''"
    "gr_command_id r = cid" "cr_outcome receipt = outcome" "map_of (hi_commands (gc_history c')) cid = Some receipt"
    "hi_goals (gc_history c') = hi_goals (gc_history c)"
proof -
  obtain r h s where r: "propose c ''command_finished'' gid cid [(''outcome'', JStr outcome), (''details'', JObj details)] = Inr (r, h)"
    and c': "c' = c\<lparr>gc_store := s, gc_history := h\<rparr>" and receipt: "map_of (hi_commands h) cid = Some receipt"
    by (rule finish_command_Inr [OF assms(2)])
  show thesis
    by (rule that [of r])
      (use propose_Inr [OF r] replay_goal_fields finish_appended [OF assms(1) r receipt] receipt in \<open>auto simp: c'\<close>)
qed

lemma pause_command_outcome:
  assumes "pause_command append_to gid cid reason c = (Inr receipt, c')" and "history_valid c"
  shows "cr_outcome receipt = ''paused''"
proof -
  obtain g where "query_goal c gid = Inr g"
    using assms(1) by (cases "query_goal c gid") (simp_all add: pause_command_def reading_def chain_def lift_goal_def throw_def)
  let ?m = "whenever (\<lambda>_. gs_status g = ''active'') (append_record append_to ''control_changed'' gid cid
      [(''status'', JStr ''paused''), (''reason'', JStr reason)])"
  obtain u d where m: "?m c = (Inr u, d)" and finished: "finish_command append_to gid cid ''paused'' [(''reason'', JStr reason)] d = (Inr receipt, c')"
    using assms(1) \<open>query_goal c gid = Inr g\<close>
    by (auto simp: pause_command_def reading_def chain_cases lift_goal_def give_def)
  have "obeys (undisturbed append_to) ?m" by (intro quiet.obeys_rules quiet_append_record)
  from obeysD [where m = ?m and s = c, OF this m] have "history_valid d"
    using assms(2) by (simp add: undisturbed_def controller_before_def)
  then show ?thesis by (rule finish_command_appends [OF _ finished])
qed

text \<open>The records of a command that was not cached.\<close>

lemma run_command_writes:
  assumes "history_valid c"
    and "begin_command append_to act gid cid revision epoch data c = (Inr None, c1)"
    and "append_record append_to effect gid cid data c1 = (Inr (), c2)"
    and "finish_command append_to gid cid outcome [] c2 = (Inr receipt, c')"
  obtains r1 r2 r3 where "hi_records (gc_history c') = hi_records (gc_history c) @ [r1, r2, r3]"
    "map gr_kind [r1, r2, r3] = [''command_received'', effect, ''command_finished'']"
    "\<forall>r \<in> {r1, r2, r3}. gr_command_id r = cid" "gr_data r2 = data"
    "cr_outcome receipt = outcome" "Inr (cr_request receipt) = goal_request act gid revision epoch data"
    "map_of (hi_commands (gc_history c')) cid = Some receipt"
proof -
  obtain request r1 h s where request: "goal_request act gid revision epoch data = Inr request"
    and r1: "propose c ''command_received'' gid cid [(''request'', JStr request)] = Inr (r1, h)"
    and c1: "c1 = c\<lparr>gc_store := s, gc_history := h\<rparr>"
    by (rule begin_command_None [OF assms(2)])
  have before1: "controller_before append_to c c1" using obeysD [OF quiet_begin_command assms(2)] by (simp add: undisturbed_def)
  then have valid1: "history_valid c1" using assms(1) by (simp add: controller_before_def)
  obtain r2 h2 s2 where r2: "hi_records (gc_history c2) = hi_records (gc_history c1) @ [r2]" "gr_kind r2 = effect"
      "gr_command_id r2 = cid" "gr_data r2 = data" and valid2: "history_valid c2"
    by (rule append_record_Inr [OF valid1 assms(3)]) simp
  obtain r3 where r3: "hi_records (gc_history c') = hi_records (gc_history c2) @ [r3]" "gr_kind r3 = ''command_finished''"
      "gr_command_id r3 = cid" "cr_outcome receipt = outcome" "map_of (hi_commands (gc_history c')) cid = Some receipt"
    by (rule finish_command_appends [OF valid2 assms(4)])
  obtain first where first: "map_of (hi_commands h) cid = Some first" "cr_request first = request"
    by (rule admission_appended [OF assms(1) r1])
  have "controller_before append_to c1 c'"
    using obeysD [OF quiet_append_record assms(3)] obeysD [OF quiet_finish_command assms(4)] controller_before_trans
    by (auto simp: undisturbed_def)
  then obtain receipt' where "map_of (hi_commands (gc_history c')) cid = Some receipt'" "cr_request receipt' = cr_request first"
    using receipt_persists [OF valid1, of append_to c' cid first] first(1) by (auto simp: c1)
  with r3(5) first(2) have "cr_request receipt = request" by simp
  moreover have "hi_records (gc_history c1) = hi_records (gc_history c) @ [r1]"
    using propose_Inr [OF r1] replay_goal_fields by (auto simp: c1)
  ultimately show thesis
    using that [of r1 r2 r3] r2 r3 request propose_Inr [OF r1] by simp
qed


section \<open>What completion needs\<close>

lemma complete_goal_cases:
  assumes "complete_goal append_to confirmed a gid cid c = (Inr (Some receipt), c')"
  obtains basis facts d current where "basis_of c gid = Inr basis" "same_basis (as_basis a) basis"
    "set (as_coverage a) = rq_id ` set (gs_requirements (bs_goal (as_basis a)))" "as_proof a \<noteq> []" "as_operations a \<noteq> []"
    "work_facts c = (Inr facts, d)" "check_dependencies gid a facts = Inr ()"
    "current \<longrightarrow> confirmed \<and> is_current d (as_basis a) = Inr True"
    "(if current then chain (append_record append_to ''acceptance_decided'' gid cid (decision_data a))
        (\<lambda>_. finish_command append_to gid cid ''completed'' [])
      else pause_command append_to gid cid ''acceptance_outdated'') d = (Inr receipt, c')"
proof -
  obtain basis where basis: "basis_of c gid = Inr basis"
    using assms by (cases "basis_of c gid") (simp_all add: complete_goal_def reading_def chain_def lift_goal_def throw_def)
  have same: "same_basis (as_basis a) basis" and status: "as_status a \<in> set assessment_statuses" "as_status a = ''satisfied''"
    and evidence: "as_proof a \<noteq> []" "as_operations a \<noteq> []"
      "set (as_coverage a) = rq_id ` set (gs_requirements (bs_goal (as_basis a)))"
    using assms basis
    by (auto simp: complete_goal_def reading_def chain_cases lift_goal_def give_def fail_goal_def throw_def split: if_splits)
  obtain facts d where facts: "work_facts c = (Inr facts, d)" and deps: "check_dependencies gid a facts = Inr ()"
    and rest: "chain (if confirmed then lift_goal (is_current d (as_basis a)) else give False) (\<lambda>current.
       if \<not> current then
         chain (pause_command append_to gid cid ''acceptance_outdated'') (\<lambda>receipt. give (Some receipt))
       else
         chain (append_record append_to ''acceptance_decided'' gid cid (decision_data a)) (\<lambda>_.
         chain (finish_command append_to gid cid ''completed'' []) (\<lambda>receipt. give (Some receipt)))) d = (Inr (Some receipt), c')"
    using assms basis same status evidence
    by (auto simp: complete_goal_def reading_def chain_cases dest!: lift_goal_Inr)
  show thesis
  proof (cases "confirmed \<and> is_current d (as_basis a) = Inr True")
    case True
    then have "chain (append_record append_to ''acceptance_decided'' gid cid (decision_data a))
        (\<lambda>_. finish_command append_to gid cid ''completed'' []) d = (Inr receipt, c')"
      using rest by (auto simp: chain_cases lift_goal_def give_def)
    then show thesis using that [OF basis same evidence(3,1,2) facts deps, of True] True by simp
  next
    case False
    then have "pause_command append_to gid cid ''acceptance_outdated'' d = (Inr receipt, c')"
      using rest by (auto simp: chain_cases give_def dest!: lift_goal_Inr split: if_splits)
    then show thesis using that [OF basis same evidence(3,1,2) facts deps, of False] by simp
  qed
qed

lemma check_dependencies_Inr:
  "check_dependencies gid a facts = Inr () \<longleftrightarrow> \<not> gf_busy facts \<and> \<not> gf_unresolved facts \<and>
     (\<forall>operation \<in> set (as_operations a).
        (\<exists>b \<in> set (gf_batches facts). own_batch gid (bs_goal (as_basis a)) operation b) \<and>
        (\<exists>run \<in> set (gf_runs facts). completed_run operation run))"
  by (auto simp: check_dependencies_def rbind_Inr_iff list_all_iff list_ex_iff)

section \<open>Restarting\<close>

text \<open>The replay looks only at the fields of the header that the comparison of headers compares.\<close>

lemma goal_step_same_header: "same_header h h' \<Longrightarrow> goal_step h = goal_step h'"
proof -
  assume same: "same_header h h'"
  then have fields: "gh_scope_id h = gh_scope_id h'" "gh_session_id h = gh_session_id h'" "gh_policy_id h = gh_policy_id h'"
      "gh_policy_version h = gh_policy_version h'"
    unfolding same_header_def by (metis goal_header.ext_inject goal_header.surjective goal_header.update_convs(6))+
  then have "basis_data h = basis_data h'" by (simp add: basis_data_def fun_eq_iff)
  then have "batch_intent h = batch_intent h'" "acceptance_decided h = acceptance_decided h'"
    by (simp_all add: batch_intent_def acceptance_decided_def Let_def fun_eq_iff)
  then have "goal_changed h n r q = goal_changed h' n r q" for n r q
    unfolding goal_changed_def by (simp only:)
  then have "goal_apply h n r q = goal_apply h' n r q" for n r q
    unfolding goal_apply_def fields by (simp only:)
  then show ?thesis by (simp add: goal_step_def fun_eq_iff)
qed

lemma replay_goal_same_header:
  assumes "same_header h h'" and "replay_goal h' rs = Inr hist"
  shows "replay_goal h rs = Inr (hist\<lparr>hi_header := h\<rparr>)"
  using assms(2) goal_step_same_header [OF assms(1)] by (auto simp: replay_goal_Inr)

lemma same_header_sym: "same_header h h' \<Longrightarrow> same_header h' h"
  by (simp add: same_header_def)

lemma same_header_trans: "same_header a b \<Longrightarrow> same_header b c \<Longrightarrow> same_header a c"
  by (simp add: same_header_def)

lemma reload_Inr:
  assumes "load (gc_store c) = Inr (h, rs)" and "same_header h (gc_header c)" and "replay_goal h rs = Inr hist"
  shows "reload load c = (Inr (), c\<lparr>gc_history := hist\<rparr>)"
  using assms by (simp add: reload_def handle_def reading_def chain_def lift_goal_def give_def change_def)

lemma reload_cases:
  assumes "reload load c = (Inr u, c')"
  obtains h rs hist where "load (gc_store c) = Inr (h, rs)" "same_header h (gc_header c)" "replay_goal h rs = Inr hist"
    "c' = c\<lparr>gc_history := hist\<rparr>"
proof -
  obtain p where p: "load (gc_store c) = Inr p"
    using assms by (cases "load (gc_store c)") (simp_all add: reload_def handle_def reading_def throw_def chain_def fence_def change_def)
  obtain h rs where hrs: "p = (h, rs)" by fastforce
  have same: "same_header h (gc_header c)"
    using assms p hrs
    by (auto simp: reload_def handle_def reading_def throw_def chain_def fence_def change_def fail_goal_def split: if_splits)
  obtain hist where hist: "replay_goal h rs = Inr hist"
    using assms p hrs same by (cases "replay_goal h rs")
      (simp_all add: reload_def handle_def reading_def throw_def chain_def fence_def change_def lift_goal_def)
  show thesis
    using that [OF p [unfolded hrs] same hist] assms reload_Inr [where load = load and c = c, OF p [unfolded hrs] same hist] by simp
qed

lemma open_controller_cases:
  assumes "open_controller load header store work = (Inr u, c)"
  obtains h rs where "load store = Inr (h, rs)" "same_header h header" "gc_store c = store" "gc_header c = header"
    "history_valid c" "hi_records (gc_history c) = rs"
proof -
  define c0 where "c0 = \<lparr>gc_header = header, gc_store = store, gc_work = work,
        gc_history = \<lparr>hi_header = header, hi_records = [], hi_goals = [], hi_batches = [], hi_commands = []\<rparr>,
        gc_fenced = False, gc_retired = False, gc_quiescing = False, gc_quiescence_error = None,
        gc_inflight = [], gc_advancing = False, gc_last_error = None\<rparr>"
  have c0: "gc_store c0 = store" "gc_header c0 = header" by (simp_all add: c0_def)
  obtain v d where d: "reload load c0 = (Inr v, d)" and looked: "discard work_facts d = (Inr u, c)"
    using assms unfolding open_controller_def c0_def [symmetric] by (auto simp: chain_cases)
  from d obtain h rs hist where loaded: "load store = Inr (h, rs)" "same_header h header" "replay_goal h rs = Inr hist"
      "d = c0\<lparr>gc_history := hist\<rparr>"
    by (cases rule: reload_cases) (simp add: c0)
  have "only_looked d c" using obeysD [OF looking.obeys_discard [OF looking_work_facts] looked] .
  then have c: "gc_store c = store" "gc_header c = header" "gc_history c = hist"
    using loaded(4) c0 by (simp_all add: only_looked_def)
  have "hi_records hist = rs" using replay_goal_fields [OF loaded(3)] by simp
  moreover have "replay_goal header rs = Inr (hist\<lparr>hi_header := header\<rparr>)"
    by (rule replay_goal_same_header [OF same_header_sym [OF loaded(2)] loaded(3)])
  ultimately show thesis using that [OF loaded(1,2)] c by (simp add: history_valid_def)
qed

text \<open>What the journal holds after acknowledged appends.\<close>

lemma acknowledged_holds:
  assumes "acknowledged journal_put n s rs s'" and "journal_holds s rs0" and "n = length rs0" and "list_all record_ok rs"
  shows "journal_holds s' (rs0 @ rs) \<and> gj_header (fst s') = gj_header (fst s)"
proof -
  have "append_to = journal_put \<Longrightarrow> journal_holds s rs0 \<Longrightarrow> list_all record_ok rs \<Longrightarrow>
      journal_holds s' (rs0 @ rs) \<and> gj_header (fst s') = gj_header (fst s)"
    if "acknowledged append_to n s rs s'" for append_to
    using that
  proof (induction rule: acknowledged.induct)
    case (nothing append_to n s)
    then show ?case by simp
  next
    case (another append_to n s rs s' r s'')
    then have "journal_holds s' (rs0 @ rs)" "record_ok r" by simp_all
    with another store.put_holds [of s' "rs0 @ rs" r "n + length rs" "gr_sequence r" s''] show ?case by simp
  qed
  with assms show ?thesis by blast
qed

lemma journal_refusal:
  assumes "refused_append journal_put n s s'" and "journal_holds s rs"
  shows "s' = s"
proof -
  obtain h where h: "header_ok h" "same_header h (gj_header (fst s))" "snd s = Some (goal_file h rs)"
    and j: "list_all record_ok rs" "gj_open (fst s)" "\<not> gj_read_only (fst s)"
    using assms(2) by (auto simp: journal_holds_def)
  show ?thesis
    using assms(1) h(3) append_holds_journal [OF h(1,2) j]
    by (auto simp: refused_append_def journal_put_def split: if_splits)
qed


section \<open>What is submitted\<close>

lemma dispatch_work:
  "same_work (snd (accept resolve fresh (wc_operation w) (wc_spec w) (gc_work d)))
     (gc_work (snd (dispatch append_to resolve fresh f bid w d)))"
proof -
  obtain x d' where accepted: "accept_work resolve fresh (wc_operation w) (wc_spec w) d = (x, d')" by fastforce
  then have work: "gc_work d' = snd (accept resolve fresh (wc_operation w) (wc_spec w) (gc_work d))"
    by (auto simp: accept_work_def split: prod.splits sum.splits)
  define h where "h = (\<lambda>e. chain (change (\<lambda>c. c\<lparr>gc_last_error := Some e\<rparr>)) (\<lambda>_. reading (\<lambda>c.
         if gc_fenced c then throw e
         else returns (pause_command append_to (af_goal_id f) (af_command_id f) ''acceptance_or_execution_unknown''))))"
  define m where "m = (\<lambda>run :: work_run. chain (append_record append_to ''batch_associated'' (af_goal_id f) (af_command_id f)
           [(''batch_id'', JStr bid), (''operation_id'', JStr (wo_operation_id (wc_operation w))), (''run_id'', JStr (r_run_id run))]) (\<lambda>_.
         give (Waiting f (r_run_id run) (wo_operation_id (wc_operation w)))))"
  have "obeys (undisturbed append_to) (change (\<lambda>c. c\<lparr>gc_last_error := Some e\<rparr>))" for e
    by (rule quiet_change) (simp_all add: controller_fenced_def)
  then have h: "obeys (undisturbed append_to) (h e)" for e
    unfolding h_def by (intro quiet.obeys_rules quiet_returns quiet_pause_command)
  have m: "obeys (undisturbed append_to) (m run)" for run
    unfolding m_def by (intro quiet.obeys_rules quiet_append_record)
  have "dispatch append_to resolve fresh f bid w d = handle (chain (accept_work resolve fresh (wc_operation w) (wc_spec w)) m) h d"
    by (simp add: dispatch_def Let_def h_def m_def)
  also have "\<dots> = (case x of Inl e \<Rightarrow> h e d' | Inr run \<Rightarrow> handle (m run) h d')"
    by (simp add: handle_def chain_def accepted split: sum.split)
  finally have "undisturbed append_to d' (snd (dispatch append_to resolve fresh f bid w d))"
    using h quiet.obeys_handle [OF m h] by (simp add: obeys_def split: sum.splits)
  then show ?thesis unfolding undisturbed_def work by blast
qed

text \<open>Accepting writes at most one entry, the operation's.\<close>

lemma accept_entries:
  assumes "accept resolve fresh op spec rt = (r, rt')"
  obtains "log_entries rt' = log_entries rt"
  | e where "log_entries rt' = log_entries rt @ [e]" "e_entry_type e = Operation" "e_operation_id e = wo_operation_id op"
  using assms
proof (cases rule: accept_cases)
  case (refused e rt1 x)
  then show thesis using get_run_for_operation_state(1) [OF refused(2)] that(1) by (simp add: log_entries_def)
next
  case (append_failed e sh st st2)
  then show thesis using append_operation_shape [OF append_failed(3)] that(1) by (simp add: log_entries_def)
next
  case (accepted st sh st2 rid cap rc)
  then show thesis using append_operation_shape [OF accepted(5)] that(2) by (simp add: log_entries_def)
qed

lemma same_work_entries: "same_work rt rt' \<Longrightarrow> log_entries rt' = log_entries rt"
  by (simp add: same_work_def log_entries_def)

end
