(* ===== verification/Goal_Control_Sample.thy ===== *)
theory Goal_Control_Sample
  imports Goal_Outcomes Runtime_Properties
begin

text \<open>
  A sample controller over a list of records as its store, with the sample history of
  \<open>Goal_Properties\<close>: it creates the Goal, advances it by one batch and completes it.
\<close>

section \<open>The sample controller\<close>

definition list_append :: "goal_record list store_append" where
  "list_append n r s = (if n = length s then (Inr (gr_sequence r), s @ [r])
     else (Inl (StoreGoal (GoalError ''stale'')), s))"

definition sample_controller :: "goal_record list \<Rightarrow> goal_replay \<Rightarrow> runtime \<Rightarrow> goal_record list controller" where
  "sample_controller rs q rt = \<lparr>gc_header = sample_header, gc_store = rs, gc_work = rt, gc_history = history_of rs q,
     gc_fenced = False, gc_retired = False, gc_quiescing = False, gc_quiescence_error = None,
     gc_inflight = [], gc_advancing = False, gc_last_error = None\<rparr>"

lemma sample_controller_fields [simp]:
  "gc_header (sample_controller rs q rt) = sample_header" "gc_store (sample_controller rs q rt) = rs"
  "gc_work (sample_controller rs q rt) = rt" "gc_history (sample_controller rs q rt) = history_of rs q"
  "gc_retired (sample_controller rs q rt) = False" "controller_fenced (sample_controller rs q rt) = False"
  "gc_fenced (sample_controller rs q rt) = False"
  by (simp_all add: sample_controller_def controller_fenced_def)

lemma history_of_fields [simp]:
  "hi_records (history_of rs q) = rs" "hi_goals (history_of rs q) = q_goals q"
  "hi_batches (history_of rs q) = map snd (q_batches q)" "hi_commands (history_of rs q) = q_commands q"
  "history_sequence (history_of rs q) = length rs"
  by (simp_all add: history_of_def history_sequence_def)

definition sample_replays_to :: "goal_record list \<Rightarrow> goal_replay \<Rightarrow> bool" where
  "sample_replays_to rs q \<longleftrightarrow> rfold (goal_step sample_header) (1, empty_replay) rs = Inr (length rs + 1, q)"

lemma sample_valid: "sample_replays_to rs q \<Longrightarrow> history_valid (sample_controller rs q rt)"
  by (simp add: sample_replays_to_def history_valid_def replay_goal_def history_of_def)

lemma sample_snoc:
  "sample_replays_to rs q \<Longrightarrow> goal_step sample_header (length rs + 1, q) r = Inr (length rs + 2, q') \<Longrightarrow>
     sample_replays_to (rs @ [r]) q'"
  by (simp add: sample_replays_to_def rfold_snoc)

lemma sample_propose:
  assumes "sample_replays_to rs q" and "k \<in> set goal_kinds" and "not_blank cid"
    and "goal_step sample_header (length rs + 1, q) (sample_goal_record (length rs + 1) k cid d) = Inr (length rs + 2, q')"
  shows "propose (sample_controller rs q rt) k ''g'' cid d =
    Inr (sample_goal_record (length rs + 1) k cid d, history_of (rs @ [sample_goal_record (length rs + 1) k cid d]) q')"
proof -
  let ?r = "sample_goal_record (length rs + 1) k cid d"
  have "make_record (int (length rs) + 1) ''sc'' ''g'' k cid d 1 [] = Inr ?r"
    using assms(2,3) goal_kinds_not_blank sample_not_blank by (simp add: make_record_Inr_iff sample_goal_record_def)
  moreover have "replay_goal sample_header (rs @ [?r]) = Inr (history_of (rs @ [?r]) q')"
    using sample_snoc [OF assms(1,4)] by (simp add: sample_replays_to_def replay_goal_def history_of_def)
  ultimately show ?thesis by (simp add: propose_def sample_header_def)
qed

lemma sample_append:
  assumes "sample_replays_to rs q" and "k \<in> set goal_kinds" and "not_blank cid"
    and "goal_step sample_header (length rs + 1, q) (sample_goal_record (length rs + 1) k cid d) = Inr (length rs + 2, q')"
    and "c = (sample_controller rs q rt)\<lparr>gc_inflight := tasks, gc_advancing := adv\<rparr>"
  shows "append_record list_append k ''g'' cid d c =
    (Inr (), (sample_controller (rs @ [sample_goal_record (length rs + 1) k cid d]) q' rt)
       \<lparr>gc_inflight := tasks, gc_advancing := adv\<rparr>)"
proof -
  have "propose c k ''g'' cid d = propose (sample_controller rs q rt) k ''g'' cid d"
    by (simp add: propose_def assms(5))
  then show ?thesis
    using sample_propose [OF assms(1-4)]
    by (simp add: append_record_def must_be_mutable_def chain_def unless_raise_def reading_def lift_goal_def give_def
        store_record_def list_append_def assms(5) controller_fenced_def)
      (simp add: sample_goal_record_def sample_controller_def)
qed

lemma sample_append_idle:
  assumes "sample_replays_to rs q" and "goal_step sample_header (n, q) (sample_goal_record n k cid d) = Inr (m, q')"
    and "k \<in> set goal_kinds" and "not_blank cid" and "n = length rs + 1" and "m = n + 1"
  shows "append_record list_append k ''g'' cid d (sample_controller rs q rt) =
    (Inr (), sample_controller (rs @ [sample_goal_record n k cid d]) q' rt)"
proof -
  have step: "goal_step sample_header (length rs + 1, q) (sample_goal_record (length rs + 1) k cid d) = Inr (length rs + 2, q')"
    using assms(2,5,6) by simp
  have "sample_controller rs q rt = (sample_controller rs q rt)\<lparr>gc_inflight := [], gc_advancing := False\<rparr>"
    by (simp add: sample_controller_def)
  from sample_append [OF assms(1,3,4) step this] show ?thesis
    by (simp add: assms(5)) (simp add: sample_controller_def)
qed

section \<open>Creating the Goal\<close>

lemma sample_request_text:
  "canonical (JObj [(''action'', JStr action), (''goal_id'', JStr ''g''), (''revision'', JInt v), (''epoch'', JInt v),
     (''data'', JObj data)]) = canonical (JObj (sample_request action v data))"
proof -
  let ?d = "[(''action'', JStr action), (''goal_id'', JStr ''g''), (''revision'', JInt v), (''epoch'', JInt v),
     (''data'', sorted_keys (JObj data))]"
  let ?e = "[(''action'', JStr action), (''data'', sorted_keys (JObj data)), (''epoch'', JInt v), (''goal_id'', JStr ''g''),
     (''revision'', JInt v)]"
  have "sort_key fst ?d = ?e"
    by (rule properties_for_sort_key) (use sample_keys_sorted in \<open>auto simp: add_mset_commute\<close>)
  then have "sorted_keys (JObj [(''action'', JStr action), (''goal_id'', JStr ''g''), (''revision'', JInt v),
      (''epoch'', JInt v), (''data'', JObj data)]) = sorted_keys (JObj (sample_request action v data))"
    unfolding sample_request_sorted by simp
  then show ?thesis by (metis canonical_sorted)
qed

lemma sample_goal_request:
  "action \<in> set goal_actions \<Longrightarrow> goal_request action ''g'' v v data = Inr (canonical (JObj (sample_request action v data)))"
  using sample_not_blank(2)
  by (auto simp: goal_request_def sample_request_text goal_actions_def py_space_def code_def)


lemma sample_empty: "sample_replays_to [] empty_replay"
  by (simp add: sample_replays_to_def)

lemma sample_histories:
  "sample_replays_to sample_created created_state"
  "sample_replays_to (sample_created @ [sample_advance]) advanced_state"
  "sample_replays_to ((sample_created @ [sample_advance]) @ [sample_intent]) intended_state"
  "sample_replays_to sample_submitted submitted_state"
  "sample_replays_to sample_completed completed_state"
  using sample_created_run sample_runs
  by (simp_all add: sample_replays_to_def sample_submitted_def sample_completed_def sample_created_def)

lemma sample_created_steps:
  obtains q1 q2 where
    "goal_step sample_header (1, empty_replay) (sample_command 1 ''c'' ''create'' 0 sample_data) = Inr (2, q1)"
    "goal_step sample_header (2, q1) (sample_goal_record 2 ''created'' ''c'' sample_data) = Inr (3, q2)"
    "goal_step sample_header (3, q2) (sample_goal_record 3 ''command_finished'' ''c''
       [(''outcome'', JStr ''created''), (''details'', JObj [])]) = Inr (4, created_state)"
proof -
  obtain n1 q1 n2 q2 where steps:
    "goal_step sample_header (1, empty_replay) (sample_command 1 ''c'' ''create'' 0 sample_data) = Inr (n1, q1)"
    "goal_step sample_header (n1, q1) (sample_goal_record 2 ''created'' ''c'' sample_data) = Inr (n2, q2)"
    "goal_step sample_header (n2, q2) (sample_goal_record 3 ''command_finished'' ''c''
       [(''outcome'', JStr ''created''), (''details'', JObj [])]) = Inr (4, created_state)"
    using sample_created_run by (auto simp: sample_created_def rbind_Inr_iff)
  then have "n1 = 2" "n2 = 3" by (auto simp: goal_step_Inr)
  with steps show thesis using that by simp
qed

definition sample_first_receipt :: command_receipt where
  "sample_first_receipt = (sample_receipt ''c'' ''create'' 0 sample_data)\<lparr>cr_outcome := ''created''\<rparr>"

lemma sample_create:
  "run_command list_append ''create'' ''g'' ''c'' 0 0 sample_data ''created'' ''created'' (sample_controller [] empty_replay rt) =
     (Inr sample_first_receipt, sample_controller sample_created created_state rt)"
proof -
  obtain q1 q2 where steps:
    "goal_step sample_header (1, empty_replay) (sample_command 1 ''c'' ''create'' 0 sample_data) = Inr (2, q1)"
    "goal_step sample_header (2, q1) (sample_goal_record 2 ''created'' ''c'' sample_data) = Inr (3, q2)"
    "goal_step sample_header (3, q2) (sample_goal_record 3 ''command_finished'' ''c''
       [(''outcome'', JStr ''created''), (''details'', JObj [])]) = Inr (4, created_state)"
    by (rule sample_created_steps)
  let ?c = "sample_controller [] empty_replay rt" and ?request = "canonical (JObj (sample_request ''create'' 0 sample_data))"
  let ?r1 = "sample_command 1 ''c'' ''create'' 0 sample_data" and ?r2 = "sample_goal_record 2 ''created'' ''c'' sample_data"
  have request: "goal_request ''create'' ''g'' 0 0 sample_data = Inr ?request"
    by (rule sample_goal_request) (simp add: goal_actions_def)
  have cached: "cached_receipt ?c ''create'' ''g'' ''c'' 0 0 sample_data = Inr None"
    using request sample_blank by (simp add: cached_receipt_Inr empty_replay_def)
  have version: "check_version ?c ''create'' ''g'' 0 0 = Inr ()"
    by (simp add: check_version_def empty_replay_def live_goals_def)
  have one: "sample_replays_to [?r1] q1" and two: "sample_replays_to [?r1, ?r2] q2"
    using steps by (simp_all add: sample_replays_to_def)
  have r1: "?r1 = sample_goal_record (length [] + 1) ''command_received'' ''c'' [(''request'', JStr ?request)]"
    by (simp add: sample_command_def)
  have "make_record 1 ''sc'' ''g'' ''command_received'' ''c'' [(''request'', JStr ?request)] 1 [] = Inr ?r1"
    "make_record 2 ''sc'' ''g'' ''created'' ''c'' sample_data 1 [] = Inr ?r2"
    using sample_not_blank sample_blank
    by (simp_all add: make_record_Inr_iff sample_goal_record_def sample_command_def py_space_def code_def)
  moreover have "replay_goal sample_header [?r1, ?r2] = Inr (history_of [?r1, ?r2] q2)"
    using two by (simp add: sample_replays_to_def replay_goal_def history_of_def)
  ultimately have effect: "validate_effect ?c ''created'' ''g'' ''c'' ?request sample_data = Inr ()"
    by (simp add: validate_effect_def) (simp add: sample_header_def)
  have a1: "append_record list_append ''command_received'' ''g'' ''c'' [(''request'', JStr ?request)] ?c =
      (Inr (), sample_controller [?r1] q1 rt)"
    using sample_append_idle [OF sample_empty steps(1) [unfolded sample_command_def] _ sample_blank(1)]
    by (simp add: goal_kinds_def sample_command_def)
  have a2: "append_record list_append ''created'' ''g'' ''c'' sample_data (sample_controller [?r1] q1 rt) =
      (Inr (), sample_controller [?r1, ?r2] q2 rt)"
    using sample_append_idle [OF one steps(2) _ sample_blank(1)] by (simp add: goal_kinds_def)
  have a3: "append_record list_append ''command_finished'' ''g'' ''c'' [(''outcome'', JStr ''created''), (''details'', JObj [])]
      (sample_controller [?r1, ?r2] q2 rt) = (Inr (), sample_controller sample_created created_state rt)"
    using sample_append_idle [OF two steps(3) _ sample_blank(1)]
    by (simp add: goal_kinds_def sample_created_def)
  have "begin_command list_append ''create'' ''g'' ''c'' 0 0 sample_data ?c = (Inr None, sample_controller [?r1] q1 rt)"
    using cached version request effect a1
    by (simp add: begin_command_def reading_def chain_def lift_goal_def give_def must_be_mutable_def unless_raise_def
        command_effects_def)
  moreover have "finish_command list_append ''g'' ''c'' ''created'' [] (sample_controller [?r1, ?r2] q2 rt) =
      (Inr sample_first_receipt, sample_controller sample_created created_state rt)"
    using a3 by (simp add: finish_command_def chain_def reading_def created_state_def give_def sample_first_receipt_def)
  ultimately show ?thesis using a2 by (simp add: run_command_def chain_def)
qed


section \<open>Submitting the batch\<close>

definition sample_goal_basis :: "nat \<Rightarrow> goal_basis" where
  "sample_goal_basis n = \<lparr>bs_header = sample_header, bs_goal = sample_goal, bs_sequence = n\<rparr>"

definition sample_frame :: advance_frame where
  "sample_frame = \<lparr>af_task = 0, af_goal_id = ''g'', af_command_id = ''d'', af_goal = sample_goal,
     af_basis = sample_goal_basis 4\<rparr>"

definition sample_candidate :: work_candidate where
  "sample_candidate = \<lparr>wc_basis = sample_goal_basis 4, wc_operation = (sample_work ''d'')\<lparr>wo_session_id := Some ''s''\<rparr>,
     wc_spec = plain_spec, wc_source = [(''phase'', JStr ''review''), (''input_ref'', JStr ''i''), (''input_sha256'', JStr ''sum'')]\<rparr>"

definition sample_advancing :: "goal_record list controller" where
  "sample_advancing = sample_controller (sample_created @ [sample_advance]) advanced_state (sample_runtime [])"

lemma sample_length: "length sample_created = 3"
  by (simp add: sample_created_def)

lemma sample_same_basis: "same_basis b b"
  by (simp add: same_basis_def)

lemma sample_lookup: "get_run_for_operation (sample_runtime []) ''o'' = (Inr None, sample_runtime [])"
proof -
  have "query empty_log (by_operation ''o'') None None = []"
    by (simp add: query_def candidate_entries_def by_operation_def empty_log_def bucket_def Let_def)
  then show ?thesis
    by (simp add: get_run_for_operation_def sample_runtime_def project_work_runs_def empty_projector_def)
qed

lemma sample_goal_fields: "gs_id sample_goal = ''g''" "gs_status sample_goal = ''active''" "gs_limit sample_goal = 1"
    "gs_revision sample_goal = 1" "gs_epoch sample_goal = 1"
    "gs_requirements sample_goal = [\<lparr>rq_id = ''q'', rq_text = ''t''\<rparr>]"
  by (simp_all add: sample_goal_def new_goal_def)

lemma sample_current: "is_current sample_advancing (sample_goal_basis 4) = Inr True"
  by (simp add: is_current_def same_goal_def sample_advancing_def query_goal_def history_goal_def sample_goal_basis_def
      sample_goal_fields advanced_state_def created_state_def sample_length)

lemma sample_checked: "check_candidate sample_candidate (sample_goal_basis 4) sample_advancing = (Inr (), sample_advancing)"
proof -
  have fields: "wc_basis sample_candidate = sample_goal_basis 4" "wo_session_id (wc_operation sample_candidate) = Some ''s''"
      "wo_operation_id (wc_operation sample_candidate) = ''o''" "gh_session_id sample_header = ''s''"
    by (simp_all add: sample_candidate_def sample_work_def sample_header_def)
  have look: "run_for_operation ''o'' sample_advancing = (Inr None, sample_advancing)"
    by (simp add: run_for_operation_def sample_advancing_def sample_lookup sample_controller_def)
  have "work_facts sample_advancing = (Inr \<lparr>gf_batches = [], gf_runs = [], gf_busy = False, gf_unresolved = False\<rparr>, sample_advancing)"
    by (simp add: work_facts_def chain_def unless_raise_def reading_def give_def sample_advancing_def advanced_state_def
        created_state_def active_runs_def) (simp add: sample_runtime_def)
  then show ?thesis
    using look fields
    by (simp add: check_candidate_def reading_def chain_def sample_same_basis give_def) (simp add: sample_advancing_def fields)
qed

definition sample_intended :: "goal_record list controller" where
  "sample_intended = sample_controller ((sample_created @ [sample_advance]) @ [sample_intent]) intended_state (sample_runtime [])"

lemma sample_intent_written:
  "append_record list_append ''batch_intent'' ''g'' ''d'' (intent_data ''b'' sample_candidate (sample_goal_basis 4)) sample_advancing =
     (Inr (), sample_intended)"
proof -
  have data: "intent_data ''b'' sample_candidate (sample_goal_basis 4) = [(''batch_id'', JStr ''b''),
     (''operation_id'', JStr ''o''), (''basis'', JObj (sample_basis 4)), (''source'', JObj [(''phase'', JStr ''review''), (''input_ref'', JStr ''i''), (''input_sha256'', JStr ''sum'')])]"
    by (simp add: intent_data_def sample_candidate_def sample_work_def sample_basis_def basis_identity_def sample_goal_basis_def)
  show ?thesis
    unfolding data sample_advancing_def sample_intended_def sample_intent_def
    by (rule sample_append_idle [OF sample_histories(2) sample_intent_step [unfolded sample_intent_def] _ sample_blank(2)])
      (simp_all add: goal_kinds_def sample_length)
qed

lemma sample_intent_holds: "intent_holds sample_intended ''d'' (sample_goal_basis 4) True = Inr True"
  by (simp add: intent_holds_def sample_intended_def intended_state_def sample_batch_def sample_goal_basis_def same_goal_def
      query_goal_def history_goal_def sample_goal_fields advanced_state_def created_state_def sample_length)

lemma sample_submit:
  "gc_work (snd (advance_prepared list_append (\<lambda>_ _. Inr False) [] ''b'' sample_frame (Prepared sample_candidate) True True
     sample_advancing)) = gc_work (snd (dispatch list_append (\<lambda>_ _. Inr False) [] sample_frame ''b'' sample_candidate sample_intended))"
proof -
  have f: "af_basis sample_frame = sample_goal_basis 4" "af_goal_id sample_frame = ''g''" "af_command_id sample_frame = ''d''"
    by (simp_all add: sample_frame_def)
  have "snd (submit_batch list_append (\<lambda>_ _. Inr False) [] ''b'' sample_frame sample_candidate True sample_advancing) =
      snd (dispatch list_append (\<lambda>_ _. Inr False) [] sample_frame ''b'' sample_candidate sample_intended)"
    by (simp add: submit_batch_def f chain_def sample_intent_written reading_def sample_intent_holds lift_goal_def give_def)
  then show ?thesis
    by (simp add: advance_prepared_def in_advance_work reading_def f chain_def sample_current lift_goal_def give_def
        submit_candidate_def sample_checked)
qed

lemma sample_accepted_entry:
  "log_entries (snd (accept (\<lambda>_ _. Inr False) [] (wc_operation sample_candidate) (wc_spec sample_candidate) (sample_runtime [])))
     \<noteq> log_entries (sample_runtime [])"
proof -
  have spec: "wc_spec sample_candidate = plain_spec" and id: "wo_operation_id (wc_operation sample_candidate) = ''o''"
    by (simp_all add: sample_candidate_def sample_work_def)
  have "find_run (sample_runtime []) ''r'' = None" by (simp add: find_run_def sample_runtime_def)
  moreover have "accept_contract (sample_runtime []) plain_spec = Inr None" "validate_spec plain_spec = Inr ()"
      "chosen_run_id [] plain_spec = ''r''"
    by (simp_all add: accept_contract_def sample_runtime_def plain_spec_def validate_spec_def chosen_run_id_def truthy_def)
  moreover obtain sh st where "append_operation (rt_shared (sample_runtime []),
      new_run_state (wc_operation sample_candidate) plain_spec ''r'' False None) = (Inr (), (sh, st))"
    by (simp add: append_operation_def append_entry_def sample_runtime_def Let_def)
  ultimately show ?thesis
    using append_operation_shape
    by (simp add: accept_def spec id sample_lookup Let_def log_entries_def)
qed


section \<open>Completing the Goal\<close>

definition sample_finished_run :: run_state where
  "sample_finished_run = (sample_run ''d'')\<lparr>rs_run := (rs_run (sample_run ''d''))\<lparr>r_session_id := ''s'', r_status := Completed\<rparr>,
     rs_terminal := True\<rparr>"

definition sample_finished_runtime :: runtime where
  "sample_finished_runtime = (sample_runtime [])\<lparr>rt_states := [(''r'', sample_finished_run)], rt_operation_runs := [(''o'', ''r'')]\<rparr>"

definition sample_assessment :: goal_assessment where
  "sample_assessment = \<lparr>as_basis = sample_goal_basis 6, as_status = ''satisfied'', as_reason = ''user_accepted_current_result'', as_coverage = [''q''],
     as_operations = [''o''], as_proof = [(''inventory'', JStr ''f''), (''approved'', JBool True), (''checks'', JList [])]\<rparr>"

definition sample_assessed :: "goal_record list controller" where
  "sample_assessed = sample_controller sample_submitted submitted_state sample_finished_runtime"

definition finished_state :: goal_replay where
  "finished_state = completed_state\<lparr>q_commands := AList.update ''d''
     ((sample_receipt ''d'' ''advance'' 1 [])\<lparr>cr_outcome := ''completed''\<rparr>) (q_commands completed_state)\<rparr>"

lemma sample_finish_step:
  "goal_step sample_header (8, completed_state) (sample_goal_record 8 ''command_finished'' ''d''
     [(''outcome'', JStr ''completed''), (''details'', JObj [])]) = Inr (9, finished_state)"
proof -
  let ?r = "sample_goal_record 8 ''command_finished'' ''d'' [(''outcome'', JStr ''completed''), (''details'', JObj [])]"
  have receipt: "map_of (q_commands completed_state) ''d'' = Some (sample_receipt ''d'' ''advance'' 1 [])"
    by (simp add: completed_state_def submitted_state_def created_state_def)
  have "command_finished ?r (sample_receipt ''d'' ''advance'' 1 []) completed_state = Inr finished_state"
    by (simp add: command_finished_def sample_goal_record_def get_or_def py_space_def code_def finished_state_def)
      (simp add: sample_receipt_def)
  then have "goal_apply sample_header 8 ?r completed_state = Inr finished_state"
    using sample_causing [OF _ receipt, of "''command_finished''" 8 "[(''outcome'', JStr ''completed''), (''details'', JObj [])]"]
    by (simp add: goal_apply_def allowed_actions_def goal_actions_def)
      (simp add: sample_goal_record_def sample_header_def)
  then show ?thesis by (simp add: sample_step goal_kinds_def sample_blank)
qed

lemma sample_finished_fields:
  "rs_terminal sample_finished_run" "r_status (rs_run sample_finished_run) = Completed"
  "r_session_id (rs_run sample_finished_run) = ''s''" "r_run_id (rs_run sample_finished_run) = ''r''"
  "r_operation_id (rs_run sample_finished_run) = ''o''" "rs_cancellation_record sample_finished_run = None"
  "\<not> rs_cancellation_requested sample_finished_run"
  by (simp_all add: sample_finished_run_def sample_run_def new_run_state_def sample_work_def)

lemma sample_facts:
  "work_facts sample_assessed = (Inr \<lparr>gf_batches = [sample_batch (Some ''r'')], gf_runs = [rs_run sample_finished_run],
     gf_busy = False, gf_unresolved = False\<rparr>, sample_assessed)"
proof -
  have work: "gc_work sample_assessed = sample_finished_runtime" "gc_header sample_assessed = sample_header"
      "hi_batches (gc_history sample_assessed) = [sample_batch (Some ''r'')]" "\<not> gc_retired sample_assessed"
    by (simp_all add: sample_assessed_def submitted_state_def)
  have "get_run_for_operation sample_finished_runtime ''o'' = (Inr (Some (rs_run sample_finished_run)), sample_finished_runtime)"
    by (simp add: get_run_for_operation_def sample_finished_runtime_def)
  then have look: "run_for_operation ''o'' sample_assessed = (Inr (Some (rs_run sample_finished_run)), sample_assessed)"
    by (simp add: run_for_operation_def work sample_assessed_def sample_controller_def)
  have "\<not> run_unresolved sample_finished_runtime (rs_run sample_finished_run)"
    by (simp add: run_unresolved_def sample_finished_fields get_cancellation_def live_cancellation_def
        sample_finished_runtime_def sample_runtime_def)
  then have "batch_fact (sample_batch (Some ''r'')) ([], False) sample_assessed =
      (Inr ([rs_run sample_finished_run], False), sample_assessed)"
    using look
    by (simp add: batch_fact_def chain_def reading_def sample_batch_def give_def work sample_finished_fields)
      (simp add: sample_header_def)
  moreover have "active_runs sample_finished_runtime (Some session) = []" for session
    by (simp add: active_runs_def sample_finished_runtime_def sample_finished_fields)
  ultimately show ?thesis
    by (simp add: work_facts_def chain_def unless_raise_def reading_def give_def work)
qed

lemma sample_complete:
  "complete_goal list_append True sample_assessment ''g'' ''d'' sample_assessed =
     (Inr (Some ((sample_receipt ''d'' ''advance'' 1 [])\<lparr>cr_outcome := ''completed''\<rparr>)),
      sample_controller (sample_completed @ [sample_goal_record 8 ''command_finished'' ''d''
        [(''outcome'', JStr ''completed''), (''details'', JObj [])]]) finished_state sample_finished_runtime)"
proof -
  have length: "length sample_submitted = 6" by (simp add: sample_submitted_def sample_length)
  have basis: "basis_of sample_assessed ''g'' = Inr (sample_goal_basis 6)"
    by (simp add: basis_of_def query_goal_def history_goal_def sample_assessed_def submitted_state_def created_state_def
        sample_goal_basis_def length)
  have current: "is_current sample_assessed (sample_goal_basis 6) = Inr True"
    by (simp add: is_current_def same_goal_def query_goal_def history_goal_def sample_assessed_def submitted_state_def
        created_state_def sample_goal_basis_def length sample_goal_fields)
  have deps: "check_dependencies ''g'' sample_assessment \<lparr>gf_batches = [sample_batch (Some ''r'')],
      gf_runs = [rs_run sample_finished_run], gf_busy = False, gf_unresolved = False\<rparr> = Inr ()"
    by (simp add: check_dependencies_def sample_assessment_def own_batch_def sample_batch_def completed_run_def
        sample_finished_fields sample_goal_basis_def sample_goal_fields)
  have data: "decision_data sample_assessment = completed_data"
    by (simp add: decision_data_def completed_data_def sample_assessment_def basis_identity_def sample_goal_basis_def sample_basis_def)
  have decided: "append_record list_append ''acceptance_decided'' ''g'' ''d'' completed_data sample_assessed =
      (Inr (), sample_controller sample_completed completed_state sample_finished_runtime)"
    unfolding sample_assessed_def sample_completed_def sample_accepted_def
    by (rule sample_append_idle [OF sample_histories(4) sample_accepted_step [unfolded sample_accepted_def] _ sample_blank(2)])
      (simp_all add: goal_kinds_def length)
  have "append_record list_append ''command_finished'' ''g'' ''d'' [(''outcome'', JStr ''completed''), (''details'', JObj [])]
      (sample_controller sample_completed completed_state sample_finished_runtime) =
      (Inr (), sample_controller (sample_completed @ [sample_goal_record 8 ''command_finished'' ''d''
        [(''outcome'', JStr ''completed''), (''details'', JObj [])]]) finished_state sample_finished_runtime)"
    by (rule sample_append_idle [OF sample_histories(5) sample_finish_step _ sample_blank(2)])
      (simp_all add: goal_kinds_def sample_completed_def length)
  then have finished: "finish_command list_append ''g'' ''d'' ''completed'' [] (sample_controller sample_completed completed_state sample_finished_runtime) =
      (Inr ((sample_receipt ''d'' ''advance'' 1 [])\<lparr>cr_outcome := ''completed''\<rparr>),
       sample_controller (sample_completed @ [sample_goal_record 8 ''command_finished'' ''d''
        [(''outcome'', JStr ''completed''), (''details'', JObj [])]]) finished_state sample_finished_runtime)"
    by (simp add: finish_command_def chain_def reading_def give_def finished_state_def)
  have "as_basis sample_assessment = sample_goal_basis 6" "as_status sample_assessment = ''satisfied''"
      "as_proof sample_assessment \<noteq> []" "as_operations sample_assessment \<noteq> []"
      "set (as_coverage sample_assessment) = rq_id ` set (gs_requirements (bs_goal (sample_goal_basis 6)))"
    by (simp_all add: sample_assessment_def sample_goal_basis_def sample_goal_fields)
  then show ?thesis
    using basis current deps data decided finished
    by (simp add: complete_goal_def reading_def chain_def lift_goal_def give_def sample_same_basis sample_facts
        assessment_statuses_def)
qed

end
