(* ===== verification/Goal_Control_Properties.thy ===== *)
theory Goal_Control_Properties
  imports Goal_Control_Sample
begin

text \<open>
  The properties of the Goal controller: what it writes and when it stops writing, what it submits to
  the Work runtime, what its commands return, and what a completed Goal rests on.
\<close>

section \<open>Writing\<close>

text \<open>
  Property C16. The controller believes only what its store has acknowledged: whatever commands and
  sections of \<open>advance\<close>, cancellation and closing run, interleaved with the Work runtime, the history is
  the replay of its records, it has only grown, the new records were acknowledged by the store one by
  one at their own sequence numbers, and the store has at most one further append, refused, after which
  the controller is fenced. A fenced controller never writes again.
\<close>

theorem controller_writes_through:
  assumes "control_run append_to c c'" and "history_valid c"
  shows "history_valid c' \<and>
    (\<exists>rs s. hi_records (gc_history c') = hi_records (gc_history c) @ rs \<and>
       acknowledged append_to (history_sequence (gc_history c)) (gc_store c) rs s \<and>
       (gc_store c' = s \<or> controller_fenced c' \<and>
          refused_append append_to (history_sequence (gc_history c')) s (gc_store c'))) \<and>
    (controller_fenced c \<longrightarrow> controller_fenced c' \<and> gc_history c' = gc_history c \<and> gc_store c' = gc_store c)"
  using control_run_before [OF assms(1)] assms(2) unfolding controller_before_def by blast

lemma sample_creating:
  "control_step list_append (sample_controller [] empty_replay rt) (sample_controller sample_created created_state rt)"
proof -
  have "create_goal list_append ''g'' [\<lparr>rq_id = ''q'', rq_text = ''t''\<rparr>] ''c'' 1 [] (sample_controller [] empty_replay rt) =
      (Inr sample_first_receipt, sample_controller sample_created created_state rt)"
    using sample_create [of rt]
    by (simp add: create_goal_def requirements_data_def sample_data_def lift_goal_def give_def chain_def)
  then show ?thesis by (rule control_step.creating)
qed

theorem controller_writes_through_witness:
  "\<exists>rs s. hi_records (gc_history (sample_controller sample_created created_state (sample_runtime []))) = rs \<and> length rs = 3 \<and>
     acknowledged list_append 0 [] rs s"
proof -
  have "control_run list_append (sample_controller [] empty_replay (sample_runtime [])) (sample_controller sample_created created_state (sample_runtime []))"
    by (rule control_run.own_step [OF control_run.at_first sample_creating])
  from controller_writes_through [OF this sample_valid [OF sample_empty]] show ?thesis
    by (auto simp: sample_length)
qed

lemma prepared_work_intended:
  assumes "advance_prepared append_to resolve fresh bid f prepared confirm1 confirm2 c = (y, c')"
    and "history_valid c" and "log_entries (gc_work c') \<noteq> log_entries (gc_work c)"
  shows "\<exists>c1 d b g gid cid e. undisturbed append_to c c1 \<and> undisturbed append_to c1 d \<and> controller_before append_to d c' \<and>
    \<not> controller_fenced d \<and> hi_batches (gc_history d) = hi_batches (gc_history c1) @ [b] \<and>
    intended_batch c1 gid cid (e_operation_id e) g b \<and> e_entry_type e = Operation \<and>
    log_entries (gc_work c') = log_entries (gc_work c) @ [e]"
proof -
  let ?c' = "snd (advance_prepared append_to resolve fresh bid f prepared confirm1 confirm2 c)"
  have c': "c' = ?c'" by (simp add: assms(1))
  have "\<not> same_work (gc_work c) (gc_work ?c')" using assms(3) same_work_entries c' by auto
  then obtain w where work: "gc_work ?c' = gc_work (snd (submit_candidate append_to resolve fresh bid f w confirm1 confirm2 c))"
    and after: "controller_before append_to (snd (submit_candidate append_to resolve fresh bid f w confirm1 confirm2 c)) ?c'"
    by (rule advance_prepared_disturbs)
  then have "\<not> same_work (gc_work c) (gc_work (snd (submit_candidate append_to resolve fresh bid f w confirm1 confirm2 c)))"
    using \<open>\<not> same_work (gc_work c) (gc_work ?c')\<close> by simp
  then obtain c1 where c1: "undisturbed append_to c c1"
      "snd (submit_candidate append_to resolve fresh bid f w confirm1 confirm2 c) = snd (submit_batch append_to resolve fresh bid f w confirm2 c1)"
      "\<not> same_work (gc_work c1) (gc_work (snd (submit_batch append_to resolve fresh bid f w confirm2 c1)))"
    by (rule submit_candidate_disturbs)
  have "history_valid c1" using c1(1) assms(2) by (simp add: undisturbed_def controller_before_def)
  then obtain d g b where d: "undisturbed append_to c1 d" "\<not> controller_fenced d"
      "hi_batches (gc_history d) = hi_batches (gc_history c1) @ [b]"
      "intended_batch c1 (af_goal_id f) (af_command_id f) (wo_operation_id (wc_operation w)) g b"
      "snd (submit_batch append_to resolve fresh bid f w confirm2 c1) = snd (dispatch append_to resolve fresh f bid w d)"
    using c1(3) by (rule submit_batch_disturbs)
  have "log_entries (gc_work c') = log_entries (snd (accept resolve fresh (wc_operation w) (wc_spec w) (gc_work d)))"
    using same_work_entries [OF dispatch_work] c' work c1(2) d(5) by simp
  moreover have before: "log_entries (gc_work d) = log_entries (gc_work c)"
    using c1(1) d(1) same_work_entries by (auto simp: undisturbed_def)
  moreover obtain r rt where accepted: "accept resolve fresh (wc_operation w) (wc_spec w) (gc_work d) = (r, rt)" by fastforce
  ultimately obtain e where e: "log_entries (gc_work c') = log_entries (gc_work c) @ [e]" "e_entry_type e = Operation"
      "e_operation_id e = wo_operation_id (wc_operation w)"
    using assms(3) by (auto elim: accept_entries)
  have "controller_before append_to d c'"
    using growing_dispatch [where append_to = append_to] after c1(2) d(5) controller_before_trans
    unfolding obeys_def c' by metis
  with c1(1) d e show ?thesis by metis
qed

text \<open>
  Property C17. Write-ahead: what a section of the controller writes to the Work event log is either
  events, no operation, of runs that the runtime already had (what its calls of \<open>cancel\<close> write up to
  their first suspension and after each), or one operation entry; and then, in a state of that section before it, unfenced, the stored history already
  held the intent of a batch for this operation: open, of a Goal that was active and below its batch limit,
  with that Goal's revision and epoch.
\<close>

theorem work_follows_intent:
  assumes "control_step append_to c c'" and "history_valid c"
  shows "(\<exists>es. log_entries (gc_work c') = log_entries (gc_work c) @ es \<and>
      (\<forall>e \<in> set es. e_entry_type e = Event \<and>
         (\<exists>rid st. map_of (rt_states (gc_work c)) rid = Some st \<and> r_run_id (rs_run st) = e_run_id e))) \<or>
    (\<exists>c1 d b g gid cid e. undisturbed append_to c c1 \<and> undisturbed append_to c1 d \<and> controller_before append_to d c' \<and>
      \<not> controller_fenced d \<and> hi_batches (gc_history d) = hi_batches (gc_history c1) @ [b] \<and>
      intended_batch c1 gid cid (e_operation_id e) g b \<and> e_entry_type e = Operation \<and>
      log_entries (gc_work c') = log_entries (gc_work c) @ [e])"
  using assms(1)
proof (cases rule: control_step_cases)
  case stopping
  then obtain es where "log_entries (gc_work c') = log_entries (gc_work c) @ es"
      "\<forall>e \<in> set es. e_entry_type e = Event \<and> e_run_id e \<in> live_runs (gc_work c)"
    by (auto simp: stopping_def events_only_def)
  then show ?thesis by (intro disjI1 exI [of _ es]) (fastforce simp: live_runs_def)
next
  case (preparing resolve fresh bid f prepared confirm1 confirm2 y)
  show ?thesis
  proof (cases "log_entries (gc_work c') = log_entries (gc_work c)")
    case True
    then show ?thesis by (intro disjI1 exI [of _ "[]"]) simp
  next
    case False
    from prepared_work_intended [OF preparing assms(2) False] show ?thesis by (rule disjI2)
  qed
qed

theorem work_follows_intent_witness:
  "\<exists>c' c1 b g gid cid e. control_step list_append sample_advancing c' \<and> undisturbed list_append sample_advancing c1 \<and>
     intended_batch c1 gid cid (e_operation_id e) g b \<and> log_entries (gc_work c') = [e]"
proof -
  obtain y c' where step: "advance_prepared list_append (\<lambda>_ _. Inr False) [] ''b'' sample_frame (Prepared sample_candidate)
      True True sample_advancing = (y, c')"
    by fastforce
  have valid: "history_valid sample_advancing"
    unfolding sample_advancing_def by (rule sample_valid [OF sample_histories(2)])
  have work: "gc_work sample_intended = sample_runtime []" "gc_work sample_advancing = sample_runtime []"
    by (simp_all add: sample_intended_def sample_advancing_def)
  then have "log_entries (gc_work c') \<noteq> log_entries (gc_work sample_advancing)"
    using sample_submit sample_accepted_entry step
      same_work_entries [OF dispatch_work [of "\<lambda>_ _. Inr False" "[]" sample_candidate sample_intended list_append sample_frame "''b''"]]
    by simp
  moreover have "log_entries (gc_work sample_advancing) = []" and none: "rt_states (gc_work sample_advancing) = []"
    by (simp_all add: work log_entries_def sample_runtime_def contents_def empty_log_def)
  moreover have "es = []"
    if "\<forall>e \<in> set es. \<exists>rid st. map_of (rt_states (gc_work sample_advancing)) rid = Some st \<and> r_run_id (rs_run st) = e_run_id e"
    for es using that by (cases es) (auto simp: none)
  ultimately show ?thesis
    using work_follows_intent [OF control_step.preparing [OF step] valid] control_step.preparing [OF step] by fastforce
qed

text \<open>
  Property C18. Commands are idempotent: once a command has returned a finished receipt, the same
  command returns the same receipt and changes nothing, whatever has happened since, fenced or not;
  and its identifier with any other content is refused.
\<close>

theorem command_is_idempotent:
  assumes "run_command append_to act gid cid revision epoch data effect outcome c = (Inr receipt, c1)"
    and "history_valid c" and "cr_outcome receipt \<noteq> ''pending''" and "control_run append_to c1 c2"
  shows "run_command append_to act gid cid revision epoch data effect outcome c2 = (Inr receipt, c2) \<and>
    (\<forall>act' gid' revision' epoch' data' effect' outcome'.
       goal_request act' gid' revision' epoch' data' \<noteq> goal_request act gid revision epoch data \<longrightarrow>
       (\<exists>e. run_command append_to act' gid' cid revision' epoch' data' effect' outcome' c2 = (Inl (GoalRaised e), c2)))"
proof -
  have valid1: "history_valid c1"
    using obeysD [OF quiet_run_command assms(1)] assms(2) by (simp add: undisturbed_def controller_before_def)
  have receipt: "map_of (hi_commands (gc_history c1)) cid = Some receipt"
      "goal_request act gid revision epoch data = Inr (cr_request receipt)" "not_blank cid"
    using assms(1)
  proof (atomize (full), cases rule: run_command_cases)
    case cached
    then show "map_of (hi_commands (gc_history c1)) cid = Some receipt \<and>
        goal_request act gid revision epoch data = Inr (cr_request receipt) \<and> not_blank cid"
      by (auto simp: cached_receipt_Inr)
  next
    case (executed d1 d2)
    then show "map_of (hi_commands (gc_history c1)) cid = Some receipt \<and>
        goal_request act gid revision epoch data = Inr (cr_request receipt) \<and> not_blank cid"
      by (metis run_command_writes [OF assms(2)] begin_command_None)
  qed
  have "map_of (hi_commands (gc_history c2)) cid = Some receipt"
    using receipt_persists [OF valid1 control_run_before [OF assms(4)] receipt(1)] assms(3) by metis
  then have "cached_receipt c2 act gid cid revision epoch data = Inr (Some receipt)"
    and "goal_request act' gid' revision' epoch' data' \<noteq> goal_request act gid revision epoch data \<Longrightarrow>
      \<exists>e. run_command append_to act' gid' cid revision' epoch' data' effect' outcome' c2 = (Inl (GoalRaised e), c2)"
      for act' gid' revision' epoch' data' effect' outcome'
    using receipt(2,3) run_command_reused by (simp_all add: cached_receipt_Inr)
  then show ?thesis using run_command_cached by blast
qed


theorem command_is_idempotent_witness:
  "run_command list_append ''create'' ''g'' ''c'' 0 0 sample_data ''created'' ''created''
     (snd (fence (sample_controller sample_created created_state (sample_runtime [])))) =
   (Inr sample_first_receipt, snd (fence (sample_controller sample_created created_state (sample_runtime []))))"
proof -
  let ?c = "sample_controller sample_created created_state (sample_runtime [])"
  have "control_run list_append ?c (snd (fence ?c))"
    by (rule control_run.own_step [OF control_run.at_first control_step.fencing [OF surjective_pairing]])
  moreover have "cr_outcome sample_first_receipt \<noteq> ''pending''" by (simp add: sample_first_receipt_def)
  ultimately show ?thesis
    using command_is_idempotent [OF sample_create sample_valid [OF sample_empty]] by blast
qed

lemma completed_goal:
  assumes "complete_goal append_to confirmed a gid cid c = (Inr (Some receipt), c')"
    and "history_valid c" and "cr_outcome receipt = ''completed''"
  shows "confirmed \<and> set (as_coverage a) = rq_id ` set (gs_requirements (bs_goal (as_basis a))) \<and> as_operations a \<noteq> [] \<and>
    query_goal c gid = Inr (bs_goal (as_basis a)) \<and>
    active_runs (gc_work c) (Some (gh_session_id (gc_header c))) = [] \<and>
    (\<forall>operation \<in> set (as_operations a).
       (\<exists>b \<in> set (hi_batches (gc_history c)). own_batch gid (bs_goal (as_basis a)) operation b) \<and>
       (\<exists>b \<in> set (hi_batches (gc_history c)). \<exists>run. run_of_batch c b run \<and> completed_run operation run)) \<and>
    (\<exists>g. map_of (hi_goals (gc_history c')) gid = Some g \<and> gs_status g = ''completed'' \<and>
       gs_acceptance g = Some (decision_data a))"
proof -
  obtain basis facts d current where basis: "basis_of c gid = Inr basis" "same_basis (as_basis a) basis"
    and evidence: "set (as_coverage a) = rq_id ` set (gs_requirements (bs_goal (as_basis a)))" "as_operations a \<noteq> []"
    and facts: "work_facts c = (Inr facts, d)" "check_dependencies gid a facts = Inr ()"
    and current: "current \<longrightarrow> confirmed"
    and rest: "(if current then chain (append_record append_to ''acceptance_decided'' gid cid (decision_data a))
        (\<lambda>_. finish_command append_to gid cid ''completed'' [])
      else pause_command append_to gid cid ''acceptance_outdated'') d = (Inr receipt, c')"
    by (rule complete_goal_cases [OF assms(1)]) blast
  have "only_looked c d" by (rule obeysD [OF looking_work_facts facts(1)])
  then have valid: "history_valid d" using assms(2) by (simp add: only_looked_def history_valid_def)
  have "current"
  proof (rule ccontr)
    assume "\<not> current"
    then have "cr_outcome receipt = ''paused''" using rest valid pause_command_outcome by simp
    with assms(3) show False by simp
  qed
  then obtain d1 where decided: "append_record append_to ''acceptance_decided'' gid cid (decision_data a) d = (Inr (), d1)"
    and finished: "finish_command append_to gid cid ''completed'' [] d1 = (Inr receipt, c')"
    using rest by (auto simp: chain_cases)
  obtain r h s where r: "propose d ''acceptance_decided'' gid cid (decision_data a) = Inr (r, h)"
    and d1: "d1 = d\<lparr>gc_store := s, gc_history := h\<rparr>" and valid1: "history_valid d1"
    by (rule append_record_Inr [OF valid decided])
  have goals: "hi_goals (gc_history c') = hi_goals h"
    by (rule finish_command_appends [OF valid1 finished]) (simp add: d1)
  have "query_goal c gid = Inr (bs_goal (as_basis a))"
    using basis by (auto simp: basis_of_def rbind_Inr_iff same_basis_def)
  moreover have "\<exists>b \<in> set (hi_batches (gc_history c)). \<exists>run. run_of_batch c b run \<and> completed_run operation run"
    and "\<exists>b \<in> set (hi_batches (gc_history c)). own_batch gid (bs_goal (as_basis a)) operation b"
    if "operation \<in> set (as_operations a)" for operation
    using that work_facts_result(1) [OF facts(1) refl] facts(2) unfolding check_dependencies_Inr by metis+
  moreover have "active_runs (gc_work c) (Some (gh_session_id (gc_header c))) = []"
    using work_facts_result(1) [OF facts(1) refl] facts(2) unfolding check_dependencies_Inr by simp
  ultimately show ?thesis
    using evidence current \<open>current\<close> decision_appended [OF valid r] goals by simp
qed

text \<open>
  Property C19. What a completed Goal rests on: when a section of the controller completes a Goal, the
  Goal is stored as completed with its evidence, the coverage is exactly the Goal's requirements, the
  policy has confirmed the assessment, no Work of the session is active, and every cited operation has a
  submitted batch of the Goal's present revision and epoch and a completed run of this session in the
  Work runtime.
\<close>

theorem completion_rests_on_work:
  assumes "complete_goal append_to confirmed a gid cid c = (Inr (Some receipt), c')"
    and "history_valid c" and "cr_outcome receipt = ''completed''"
  shows "confirmed \<and> set (as_coverage a) = rq_id ` set (gs_requirements (bs_goal (as_basis a))) \<and> as_operations a \<noteq> [] \<and>
    query_goal c gid = Inr (bs_goal (as_basis a)) \<and>
    active_runs (gc_work c) (Some (gh_session_id (gc_header c))) = [] \<and>
    (\<forall>operation \<in> set (as_operations a).
       (\<exists>b \<in> set (hi_batches (gc_history c)). own_batch gid (bs_goal (as_basis a)) operation b) \<and>
       (\<exists>b \<in> set (hi_batches (gc_history c)). \<exists>run. run_of_batch c b run \<and> completed_run operation run)) \<and>
    (\<exists>g. map_of (hi_goals (gc_history c')) gid = Some g \<and> gs_status g = ''completed'' \<and>
       gs_acceptance g = Some (decision_data a))"
  by (rule completed_goal [OF assms])

theorem completion_rests_on_work_witness:
  "\<exists>b run. b \<in> set (hi_batches (gc_history sample_assessed)) \<and> run_of_batch sample_assessed b run \<and> completed_run ''o'' run"
proof -
  have "history_valid sample_assessed" unfolding sample_assessed_def by (rule sample_valid [OF sample_histories(4)])
  from completion_rests_on_work [OF sample_complete this] show ?thesis
    by (auto simp: sample_assessment_def)
qed


section \<open>Errors and restarts\<close>

text \<open>
  A batch that the history declares not submitted must have no run: when the Work runtime
  has one, the facts of the Work runtime are not reported, the controller is fenced if it is a
  contradiction that stopped them, and no \<open>advance\<close> gets as far as writing a record.
\<close>

theorem contradiction_fences:
  assumes "b \<in> set (hi_batches (gc_history c))" and "gb_not_submitted b" and "\<not> gc_retired c"
    and "map_of (rt_operation_runs (gc_work c)) (gb_operation_id b) = Some rid"
    and "map_of (rt_states (gc_work c)) rid = Some st"
  shows "(\<exists>e c'. work_facts c = (Inl e, c') \<and> only_looked c c' \<and> ((\<exists>x. e = GoalRaised x) \<longrightarrow> gc_fenced c')) \<and>
    ((\<forall>receipt. cached_receipt c ''advance'' gid cid revision epoch [] \<noteq> Inr (Some receipt)) \<longrightarrow>
      (\<exists>e c'. advance_begin append_to task gid cid revision epoch c = (Inl e, c') \<and> only_looked c c'))"
proof -
  obtain r c' where facts: "work_facts c = (r, c')" by fastforce
  have looked: "only_looked c c'" by (rule obeysD [OF looking_work_facts facts])
  have "r \<noteq> Inr fs" for fs
  proof
    assume "r = Inr fs"
    then have "looked_up c (gb_operation_id b) None"
      using work_facts_result(1) [OF facts, of fs] assms(1,2) by metis
    from looked_up_live [OF this assms(4)] assms(5) show False by simp
  qed
  then obtain e where r: "r = Inl e" by (cases r) auto
  have "\<exists>e c'. advance_begin append_to task gid cid revision epoch c = (Inl e, c') \<and> only_looked c c'"
    if "\<forall>receipt. cached_receipt c ''advance'' gid cid revision epoch [] \<noteq> Inr (Some receipt)"
  proof (cases "cached_receipt c ''advance'' gid cid revision epoch []")
    case (Inl e1)
    then show ?thesis
      by (simp add: advance_begin_def reading_def chain_def lift_goal_def throw_def looking.rel_refl)
  next
    case (Inr found)
    with that have none: "found = None" by (cases found) auto
    show ?thesis
    proof (cases "controller_fenced c \<or> gc_advancing c \<or> (\<forall>g. query_goal c gid = Inr g \<longrightarrow> gs_status g \<noteq> ''active'')")
      case True
      then show ?thesis
        using Inr none
        by (cases "query_goal c gid")
          (auto simp: advance_begin_def reading_def chain_def lift_goal_def throw_def give_def must_be_mutable_def
            unless_raise_def fail_goal_def looking.rel_refl)
    next
      case False
      then obtain g where "query_goal c gid = Inr g" "gs_status g = ''active''" by auto
      then have "advance_begin append_to task gid cid revision epoch c = (Inl e, c')"
        using False Inr none facts r
        by (simp add: advance_begin_def reading_def chain_def lift_goal_def throw_def give_def must_be_mutable_def
            unless_raise_def)
      then show ?thesis using looked by blast
    qed
  qed
  then show ?thesis using facts r looked work_facts_result(2) [OF facts] assms(3) by blast
qed

definition sample_contradicted :: "goal_record list controller" where
  "sample_contradicted = sample_assessed\<lparr>gc_history := (gc_history sample_assessed)
     \<lparr>hi_batches := [(sample_batch None)\<lparr>gb_not_submitted := True\<rparr>]\<rparr>\<rparr>"

theorem contradiction_fences_witness: "\<exists>e c'. work_facts sample_contradicted = (Inl e, c')"
proof -
  let ?b = "(sample_batch None)\<lparr>gb_not_submitted := True\<rparr>"
  have "?b \<in> set (hi_batches (gc_history sample_contradicted))" "gb_not_submitted ?b" "\<not> gc_retired sample_contradicted"
    by (simp_all add: sample_contradicted_def sample_assessed_def)
  moreover have "map_of (rt_operation_runs (gc_work sample_contradicted)) (gb_operation_id ?b) = Some ''r''"
      "map_of (rt_states (gc_work sample_contradicted)) ''r'' = Some sample_finished_run"
    by (simp_all add: sample_contradicted_def sample_assessed_def sample_finished_runtime_def sample_batch_def)
  ultimately show ?thesis using contradiction_fences [of ?b sample_contradicted] by blast
qed

text \<open>
  Property C20. A Goal history survives the process: a controller is opened on a Goal journal and run
  in any way, with appends refused and the fence closed or not; a controller of a later process that
  loads the journal holds the same Goals, batches and commands.
\<close>

theorem controller_survives_restart:
  assumes "journal_run s rs0" and "open_controller journal_load header s work = (Inr u, c)"
    and "control_run journal_put c c'" and "list_all record_ok (hi_records (gc_history c'))"
    and "gc_store d = gc_store c'" and "gc_header d = gc_header c'"
  shows "\<exists>h. reload journal_load d = (Inr (), d\<lparr>gc_history := (gc_history c')
    \<lparr>hi_header := h, hi_records := map stored_record (hi_records (gc_history c'))\<rparr>\<rparr>)"
proof -
  have holds: "journal_holds s rs0" using journal_run_holds [OF assms(1)] by blast
  obtain h0 where h0: "journal_load s = Inr (h0, map stored_record rs0)" "same_header h0 (gj_header (fst s))"
    using store.load_holds [OF holds] by blast
  have opened: "same_header h0 header" "gc_store c = s" "gc_header c = header" "history_valid c"
      "hi_records (gc_history c) = map stored_record rs0"
    by (rule open_controller_cases [OF assms(2)], use h0(1) in simp)+
  have before: "controller_before journal_put c c'" by (rule control_run_before [OF assms(3)])
  obtain rs s1 where rs: "hi_records (gc_history c') = map stored_record rs0 @ rs"
    and ack: "acknowledged journal_put (length rs0) s rs s1"
    and store: "gc_store c' = s1 \<or> refused_append journal_put (history_sequence (gc_history c')) s1 (gc_store c')"
    using before opened by (auto simp: controller_before_def history_sequence_def)
  have s1: "journal_holds s1 (rs0 @ rs)" "gj_header (fst s1) = gj_header (fst s)"
    using acknowledged_holds [OF ack holds refl] assms(4) by (simp_all add: rs)
  then have kept: "gc_store c' = s1" using store journal_refusal by blast
  obtain h1 where h1: "journal_load s1 = Inr (h1, map stored_record (rs0 @ rs))" "same_header h1 (gj_header (fst s))"
    using store.load_holds [OF s1(1)] s1(2) by auto
  have header: "gc_header c' = header" using before opened(3) by (simp add: controller_before_def)
  have same: "same_header h1 header"
    using same_header_trans [OF same_header_trans [OF h1(2) same_header_sym [OF h0(2)]] opened(1)] .
  have "history_valid c'" using before opened(4) by (simp add: controller_before_def)
  then have "replay_goal header (map stored_record (hi_records (gc_history c'))) =
      Inr ((gc_history c')\<lparr>hi_header := header, hi_records := map stored_record (hi_records (gc_history c'))\<rparr>)"
    using replay_goal_stored by (fastforce simp: history_valid_def header)
  moreover have "map stored_record (hi_records (gc_history c')) = map stored_record (rs0 @ rs)" by (simp add: rs)
  ultimately have "replay_goal h1 (map stored_record (rs0 @ rs)) =
      Inr ((gc_history c')\<lparr>hi_header := h1, hi_records := map stored_record (hi_records (gc_history c'))\<rparr>)"
    using replay_goal_same_header [OF same] by fastforce
  from reload_Inr [where load = journal_load and c = d, OF _ _ this] h1(1) same show ?thesis
    by (auto simp: assms(5,6) kept header)
qed

theorem controller_survives_restart_witness:
  "\<exists>c h. open_controller journal_load sample_header sample_journal (sample_runtime []) = (Inr (), c) \<and>
     fst (reload journal_load (snd (fence c))) = Inr () \<and> hi_goals (gc_history c) = [] \<and> h = gc_header c"
proof -
  obtain h where h: "journal_load sample_journal = Inr (h, [])" "same_header h (gj_header (fst sample_journal))"
    using store.load_holds [OF conjunct1 [OF journal_run_holds [OF sample_journal_run]]] by auto
  have same: "same_header h sample_header" using h(2) by (simp add: sample_journal_def sample_header_def)
  define c0 where "c0 = \<lparr>gc_header = sample_header, gc_store = sample_journal, gc_work = sample_runtime [],
        gc_history = \<lparr>hi_header = sample_header, hi_records = [], hi_goals = [], hi_batches = [], hi_commands = []\<rparr>,
        gc_fenced = False, gc_retired = False, gc_quiescing = False, gc_quiescence_error = None,
        gc_inflight = [], gc_advancing = False, gc_last_error = None\<rparr>"
  define hist where "hist = \<lparr>hi_header = h, hi_records = [], hi_goals = [], hi_batches = [], hi_commands = []\<rparr>"
  have replay: "replay_goal h [] = Inr hist" by (simp add: replay_goal_def hist_def empty_replay_def)
  have loaded: "reload journal_load c0 = (Inr (), c0\<lparr>gc_history := hist\<rparr>)"
    by (rule reload_Inr [OF _ _ replay]) (simp_all add: c0_def h(1) same)
  have opened: "open_controller journal_load sample_header sample_journal (sample_runtime []) = (Inr (), c0\<lparr>gc_history := hist\<rparr>)"
    unfolding open_controller_def c0_def [symmetric] chain_def loaded
    by (simp add: discard_def work_facts_def chain_def unless_raise_def reading_def give_def pass_def c0_def hist_def)
  let ?c = "c0\<lparr>gc_history := hist\<rparr>" and ?d = "snd (fence (c0\<lparr>gc_history := hist\<rparr>))"
  have run: "control_run journal_put ?c ?d"
    by (rule control_run.own_step [OF control_run.at_first control_step.fencing [OF surjective_pairing]])
  have d: "hi_records (gc_history ?d) = []" by (simp add: fence_def change_def hist_def)
  from controller_survives_restart [OF sample_journal_run opened run _ refl refl] d
  have "fst (reload journal_load ?d) = Inr ()" by fastforce
  then show ?thesis using opened by (auto simp: hist_def)
qed

text \<open>
  A command that returns either finds its receipt and leaves everything as it is, or has
  written exactly three records of its own, its admission, its effect with the data of the command and
  its end; the receipt has the outcome of the command and is the stored one.
\<close>

theorem command_writes_three_records:
  assumes "run_command append_to act gid cid revision epoch data effect outcome c = (Inr receipt, c')"
    and "history_valid c"
  shows "map_of (hi_commands (gc_history c')) cid = Some receipt \<and>
    goal_request act gid revision epoch data = Inr (cr_request receipt) \<and>
    (if map_of (hi_commands (gc_history c)) cid \<noteq> None then c' = c
     else cr_outcome receipt = outcome \<and>
       (\<exists>r1 r2 r3. hi_records (gc_history c') = hi_records (gc_history c) @ [r1, r2, r3] \<and>
          map gr_kind [r1, r2, r3] = [''command_received'', effect, ''command_finished''] \<and>
          (\<forall>r \<in> {r1, r2, r3}. gr_command_id r = cid) \<and> gr_data r2 = data))"
  using assms(1)
proof (cases rule: run_command_cases)
  case cached
  then have "map_of (hi_commands (gc_history c)) cid = Some receipt"
    and "goal_request act gid revision epoch data = Inr (cr_request receipt)"
    by (auto simp: cached_receipt_Inr)
  with cached(2) show ?thesis by simp
next
  case (executed c1 c2)
  have "cached_receipt c act gid cid revision epoch data = Inr None"
    by (rule begin_command_None [OF executed(1)])
  then have "map_of (hi_commands (gc_history c)) cid = None"
    by (cases "map_of (hi_commands (gc_history c)) cid") (auto simp: cached_receipt_Inr)
  moreover obtain r1 r2 r3 where "hi_records (gc_history c') = hi_records (gc_history c) @ [r1, r2, r3]"
    "map gr_kind [r1, r2, r3] = [''command_received'', effect, ''command_finished'']"
    "\<forall>r \<in> {r1, r2, r3}. gr_command_id r = cid" "gr_data r2 = data"
    "cr_outcome receipt = outcome" "Inr (cr_request receipt) = goal_request act gid revision epoch data"
    "map_of (hi_commands (gc_history c')) cid = Some receipt"
    by (rule run_command_writes [OF assms(2) executed])
  ultimately show ?thesis by (intro conjI) auto
qed

theorem command_writes_three_records_witness:
  "\<exists>r1 r2 r3. sample_created = [r1, r2, r3] \<and> map gr_kind [r1, r2, r3] = [''command_received'', ''created'', ''command_finished'']"
  using command_writes_three_records [OF sample_create sample_valid [OF sample_empty]]
  by (simp add: empty_replay_def) blast

end
