(* ===== verification/Goal_Planning_Properties.thy ===== *)
theory Goal_Planning_Properties
  imports Goal_Planning Goal_Control_Properties
begin

text \<open>
  The properties of the task policy of a Goal: what a completed Goal rests on when this policy assessed
  it, the bounds on the batches it prepares, and that a proposal is consumed by one batch.
\<close>

section \<open>Comparing values\<close>

lemma map_of_stable: "map_of (sort_key fst d) k = map_of d k"
proof -
  have found: "map_of e k = map_of (filter (\<lambda>x. fst x = k) e) k" for e :: "('b \<times> 'c) list"
    by (induction e) auto
  show ?thesis using found [of "sort_key fst d"] found [of d] by (simp add: sort_key_stable)
qed

lemma same_json_refl [simp]: "same_json a a"
  by (simp add: same_json_def)

lemma sorted_numeric_string: "sorted_keys (numeric v) = JStr s \<longleftrightarrow> v = JStr s"
  by (cases v) simp_all

lemma same_json_string [simp]: "same_json v (JStr s) \<longleftrightarrow> v = JStr s"
  by (simp add: same_json_def sorted_numeric_string)

lemma same_json_member: "same_json (JObj a) (JObj b) \<Longrightarrow> same_json (get_none a k) (get_none b k)"
proof -
  assume same: "same_json (JObj a) (JObj b)"
  have member: "map_option (sorted_keys \<circ> numeric) (map_of d k) =
      map_of (sort_key fst (map (\<lambda>(k, v). (k, sorted_keys v)) (map (\<lambda>(k, v). (k, numeric v)) d))) k" for d
    by (simp add: map_of_stable map_of_map option.map_comp del: map_map)
  have "map_option (sorted_keys \<circ> numeric) (map_of a k) = map_option (sorted_keys \<circ> numeric) (map_of b k)"
    using same unfolding member same_json_def by simp
  then show ?thesis by (cases "map_of a k"; cases "map_of b k") (simp_all add: get_none_def same_json_def)
qed

section \<open>Assessing\<close>

definition accepted_review ::
  "('p, 'c) task_ports \<Rightarrow> goal_basis \<Rightarrow> goal_facts \<Rightarrow> json \<Rightarrow> goal_batch \<Rightarrow> payload \<Rightarrow> bool" where
  "accepted_review P basis facts snapshot b result \<longleftrightarrow>
     review_of basis b \<and>
     (\<exists>run. planned_run P b facts = Inr (Some run) \<and> r_status run = Completed \<and> tp_action_result P b run = Inr result) \<and>
     (\<exists>seen. map_of result ''inventory'' = Some seen \<and> same_json seen snapshot) \<and>
     map_of result ''approved'' = Some (JBool True) \<and>
     (\<exists>checks. tp_review_dependencies P basis snapshot = Inr checks \<and> same_json (get_none result ''checks'') checks)"

lemma item_at_Inr [simp]: "item_at d k = Inr v \<longleftrightarrow> map_of d k = Some v"
  by (simp add: item_at_def split: option.split)

lemma assess_reviews_accepted:
  assumes "assess_reviews P basis facts snapshot bs = Inr (Some a)" and "as_operations a \<noteq> []"
  shows "\<exists>b \<in> set bs. accepted_review P basis facts snapshot b (as_proof a) \<and> as_basis a = basis \<and>
    as_operations a = [gb_operation_id b] \<and> as_status a = ''satisfied''"
  using assms
proof (induction bs)
  case Nil
  then show ?case by simp
next
  case (Cons b bs)
  show ?case
  proof (cases "assess_reviews P basis facts snapshot bs = Inr (Some a)")
    case True
    then show ?thesis using Cons by auto
  next
    case False
    then have review: "review_of basis b" using Cons.prems(1) by (auto split: if_splits)
    then obtain run where run: "planned_run P b facts = Inr (Some run)" "r_status run = Completed"
      using Cons.prems(1) False by (auto simp: rbind_Inr_iff split: if_splits option.splits)
    then obtain result seen where result: "tp_action_result P b run = Inr result" "map_of result ''inventory'' = Some seen"
        "same_json seen snapshot" "map_of result ''approved'' = Some (JBool True)"
      using Cons.prems(1) False review by (auto simp: rbind_Inr_iff split: if_splits)
    show ?thesis
    proof (cases "tp_review_dependencies P basis snapshot")
      case (Inl e)
      then show ?thesis
        using Cons.prems review run result by (cases e) (auto simp: assessed_def item_at_def)
    next
      case (Inr checks)
      then show ?thesis
        using Cons.prems(1) False review run result
        by (auto simp: accepted_review_def item_at_def split: if_splits)
    qed
  qed
qed

lemma task_assess_accepted:
  assumes "task_assess P basis facts = Inr a" and "as_operations a \<noteq> []"
  obtains snapshot material b where "tp_context P basis = Inr (snapshot, material)" "b \<in> set (gf_batches facts)"
    "accepted_review P basis facts snapshot b (as_proof a)" "as_basis a = basis" "as_operations a = [gb_operation_id b]"
proof -
  obtain snapshot material found where *: "tp_context P basis = Inr (snapshot, material)"
      "assess_reviews P basis facts snapshot (rev (gf_batches facts)) = Inr found" "found = Some a"
    using assms by (auto simp: task_assess_def assessed_def rbind_Inr_iff split: if_splits option.splits)
  then show thesis using assess_reviews_accepted [of P basis facts snapshot "rev (gf_batches facts)" a] assms(2) that by auto
qed

lemma task_confirm_current_Inr:
  assumes "task_confirm_current P h a = Inr True"
  obtains snapshot material seen where "tp_context P (as_basis a) = Inr (snapshot, material)"
    "map_of (as_proof a) ''inventory'' = Some seen" "same_json snapshot seen"
    "history_goal h (gs_id (bs_goal (as_basis a))) = Inr (bs_goal (as_basis a))"
  using assms by (auto simp: task_confirm_current_def split: sum.splits option.splits if_splits planning_fault.splits)

text \<open>
  Property C21. Only the user completes a task: when the controller completes a Goal on an assessment of
  the task policy, made of the batches of the same history, one of them is a submitted review of the Goal's
  present revision and epoch with a completed run, whose result is approved and names the checks
  that a review depends on; the decision stored with the Goal rests on that batch alone, and the
  inventory that the user approved is the one found at the assessment and again at its confirmation.
\<close>

theorem completion_needs_user_review:
  assumes "task_assess P basis facts = Inr a" and "gf_batches facts = hi_batches (gc_history c)"
    and "task_confirm_current P' (gc_history c) a = Inr confirmed"
    and "complete_goal append_to confirmed a gid cid c = (Inr (Some receipt), c')"
    and "history_valid c" and "cr_outcome receipt = ''completed''"
  shows "\<exists>b found material now material' approved.
    b \<in> set (hi_batches (gc_history c)) \<and> own_batch gid (bs_goal basis) (gb_operation_id b) b \<and>
    tp_context P basis = Inr (found, material) \<and> accepted_review P basis facts found b (as_proof a) \<and>
    map_of (as_proof a) ''inventory'' = Some approved \<and> same_json approved found \<and>
    tp_context P' basis = Inr (now, material') \<and> same_json now approved \<and>
    query_goal c gid = Inr (bs_goal basis) \<and>
    (\<exists>g. map_of (hi_goals (gc_history c')) gid = Some g \<and> gs_status g = ''completed'' \<and>
       gs_acceptance g = Some (decision_data a) \<and> as_operations a = [gb_operation_id b])"
proof -
  note finished = completed_goal [OF assms(4-6)]
  then have confirmed: "confirmed" and cited: "as_operations a \<noteq> []" by simp_all
  obtain found material b where assessed: "tp_context P basis = Inr (found, material)" "b \<in> set (hi_batches (gc_history c))"
      "accepted_review P basis facts found b (as_proof a)" "as_basis a = basis" "as_operations a = [gb_operation_id b]"
    by (rule task_assess_accepted [OF assms(1) cited]) (simp add: assms(2))
  have "task_confirm_current P' (gc_history c) a = Inr True" using assms(3) confirmed by simp
  then obtain now material' seen where now: "tp_context P' basis = Inr (now, material')"
      "map_of (as_proof a) ''inventory'' = Some seen" "same_json now seen"
    unfolding assessed(4) [symmetric] by (rule task_confirm_current_Inr)
  have "same_json seen found" using assessed(3) now(2) by (simp add: accepted_review_def)
  obtain b' where b': "b' \<in> set (hi_batches (gc_history c))" "own_batch gid (bs_goal basis) (gb_operation_id b) b'"
    using finished assessed(4,5) by auto
  have "distinct (map gb_operation_id (hi_batches (gc_history c)))"
    using batches_of_history_apart(1) [OF assms(5) [unfolded history_valid_def]] by simp
  then have "b' = b" using assessed(2) b' by (auto simp: own_batch_def distinct_map dest: inj_onD)
  then show ?thesis
    using assessed b' now \<open>same_json seen found\<close> finished by (metis (no_types, lifting))
qed

section \<open>Samples\<close>

definition sample_report :: payload where
  "sample_report = [(''version'', JInt 1), (''operation_id'', JStr ''o''), (''run_id'', JStr ''r''), (''session_id'', JStr ''s''),
     (''input_ref'', JStr ''i''), (''response_ref'', JStr ''x''), (''proposal'', JStr ''p''), (''evidence'', JList [])]"

definition sample_ports :: "(json, unit) task_ports" where
  "sample_ports = \<lparr>tp_session_id = ''s'', tp_reports = (\<lambda>_ _. [(''r'', JStr ''report'')]), tp_read = (\<lambda>_. Inr ''''),
     tp_decode = (\<lambda>_. Inr (JObj sample_report)), tp_digest = (\<lambda>_. ''sum''), tp_verify = (\<lambda>_ _ _ _. Inr ()),
     tp_parse = (\<lambda>_ _. Inr (JStr ''p'')), tp_proposal_data = (\<lambda>p. p), tp_action_data = (\<lambda>p. p),
     tp_context = (\<lambda>_. Inr (JStr ''f'', ())), tp_bind = (\<lambda>_ _ _ _ _. Inr (Prepared sample_candidate)),
     tp_plan = (\<lambda>_ _ _ _ _. Inr (Prepared sample_candidate)),
     tp_action_result = (\<lambda>_ _. Inr (as_proof sample_assessment)), tp_input_pending = False, tp_pending_review = False,
     tp_review = (\<lambda>_ _. Inr (PolicyStop ''none'')), tp_review_dependencies = (\<lambda>_ _. Inr (JList [])),
     tp_confirm_domain = (\<lambda>_. Inr True)\<rparr>"

definition sample_goal_facts :: goal_facts where
  "sample_goal_facts = \<lparr>gf_batches = [sample_batch (Some ''r'')], gf_runs = [rs_run sample_finished_run],
     gf_busy = False, gf_unresolved = False\<rparr>"

lemma sample_planned: "planned_run sample_ports (sample_batch (Some ''r'')) sample_goal_facts = Inr (Some (rs_run sample_finished_run))"
  by (simp add: planned_run_def sample_ports_def sample_batch_def sample_goal_facts_def sample_finished_fields)

lemma sample_observed:
  "task_observe sample_ports (sample_goal_basis 6) sample_goal_facts = Inr (no_observations\<lparr>ob_evidence :=
     [\<lparr>te_id = ''o'', te_phase = JStr ''review'', te_status = Completed, te_revision = 1,
       te_result = as_proof sample_assessment\<rparr>]\<rparr>)"
proof -
  have "gf_batches sample_goal_facts = [sample_batch (Some ''r'')]" "tp_action_result sample_ports = (\<lambda>_ _. Inr (as_proof sample_assessment))"
    by (simp_all add: sample_goal_facts_def sample_ports_def)
  moreover have "gb_goal_id (sample_batch (Some ''r'')) = gs_id (bs_goal (sample_goal_basis 6))"
      "\<not> in_phase ''planning'' (sample_batch (Some ''r''))"
    by (simp_all add: sample_batch_def sample_goal_basis_def sample_goal_fields in_phase_def)
  ultimately show ?thesis
    by (simp add: task_observe_def observe_batch_def sample_planned sample_finished_fields observe_action_def)
      (simp add: sample_batch_def item_at_def no_observations_def)
qed

lemma sample_task_assess: "task_assess sample_ports (sample_goal_basis 6) sample_goal_facts = Inr sample_assessment"
proof -
  let ?b = "sample_batch (Some ''r'')"
  have review: "review_of (sample_goal_basis 6) ?b"
    by (simp add: review_of_def sample_batch_def sample_goal_basis_def sample_goal_fields in_phase_def)
  have ports: "tp_action_result sample_ports ?b (rs_run sample_finished_run) = Inr (as_proof sample_assessment)"
      "tp_review_dependencies sample_ports (sample_goal_basis 6) (JStr ''f'') = Inr (JList [])"
      "tp_context sample_ports (sample_goal_basis 6) = Inr (JStr ''f'', ())"
    by (simp_all add: sample_ports_def)
  have proof_fields: "map_of (as_proof sample_assessment) ''inventory'' = Some (JStr ''f'')"
      "map_of (as_proof sample_assessment) ''approved'' = Some (JBool True)"
      "get_none (as_proof sample_assessment) ''checks'' = JList []"
    by (simp_all add: sample_assessment_def get_none_def)
  have "assess_reviews sample_ports (sample_goal_basis 6) sample_goal_facts (JStr ''f'') [?b] = Inr (Some sample_assessment)"
    by (simp add: review sample_planned sample_finished_fields ports item_at_def proof_fields)
      (simp add: sample_assessment_def sample_goal_basis_def sample_goal_fields sample_batch_def)
  moreover have "gf_batches sample_goal_facts = [?b]" "\<not> gf_busy sample_goal_facts" "\<not> gf_unresolved sample_goal_facts"
    by (simp_all add: sample_goal_facts_def)
  ultimately show ?thesis
    using sample_observed ports(3) by (simp add: task_assess_def del: assess_reviews.simps)
qed

lemma sample_confirmed: "task_confirm_current sample_ports (gc_history sample_assessed) sample_assessment = Inr True"
proof -
  have "tp_context sample_ports (as_basis sample_assessment) = Inr (JStr ''f'', ())" by (simp add: sample_ports_def)
  then show ?thesis
    by (simp add: task_confirm_current_def sample_assessment_def sample_goal_basis_def sample_goal_fields history_goal_def
        sample_assessed_def submitted_state_def created_state_def)
qed

theorem completion_needs_user_review_witness:
  "\<exists>b \<in> set (hi_batches (gc_history sample_assessed)).
     accepted_review sample_ports (sample_goal_basis 6) sample_goal_facts (JStr ''f'') b (as_proof sample_assessment)"
proof -
  have valid: "history_valid sample_assessed" unfolding sample_assessed_def by (rule sample_valid [OF sample_histories(4)])
  have facts: "gf_batches sample_goal_facts = hi_batches (gc_history sample_assessed)"
    by (simp add: sample_goal_facts_def sample_assessed_def submitted_state_def)
  have "tp_context sample_ports (sample_goal_basis 6) = Inr (JStr ''f'', ())" by (simp add: sample_ports_def)
  then show ?thesis
    using completion_needs_user_review [OF sample_task_assess facts sample_confirmed sample_complete valid] by auto
qed

section \<open>Preparing\<close>

lemma observe_planning_counts: "observe_planning P b run ob = Inr ob' \<Longrightarrow> ob_planning ob' = ob_planning ob"
  by (auto simp: observe_planning_def split: sum.splits planning_fault.splits)

lemma observe_action_counts: "observe_action P b run ob = Inr ob' \<Longrightarrow> ob_planning ob' = ob_planning ob"
  by (auto simp: observe_action_def rbind_Inr_iff Let_def split: if_splits)

lemma observe_batch_planning:
  assumes "observe_batch P basis facts ob b = Inr ob'"
  shows "ob_planning ob' = ob_planning ob + (if gb_goal_id b = gs_id (bs_goal basis) \<and> in_phase ''planning'' b then 1 else 0)"
proof (cases "gb_goal_id b = gs_id (bs_goal basis)")
  case True
  then obtain found where "planned_run P b facts = Inr found" using assms by (auto simp: observe_batch_def rbind_Inr_iff)
  then show ?thesis
    using assms True
    by (cases found) (auto simp: observe_batch_def Let_def dest!: observe_planning_counts observe_action_counts split: if_splits)
next
  case False
  then show ?thesis using assms by (simp add: observe_batch_def)
qed

text \<open>The planning batches that \<open>_observations\<close> counts.\<close>

lemma observed_planning:
  assumes "rfold (observe_batch P basis facts) ob bs = Inr ob'"
  shows "ob_planning ob' = ob_planning ob +
    length (filter (\<lambda>b. gb_goal_id b = gs_id (bs_goal basis) \<and> in_phase ''planning'' b) bs)"
  using assms
proof (induction bs arbitrary: ob)
  case Nil
  then show ?case by simp
next
  case (Cons b bs)
  then obtain ob1 where "observe_batch P basis facts ob b = Inr ob1" "rfold (observe_batch P basis facts) ob1 bs = Inr ob'"
    by (auto simp: rbind_Inr_iff)
  with Cons.IH observe_batch_planning [of P basis facts ob b ob1] show ?case by auto
qed

lemma task_observe_planning:
  "task_observe P basis facts = Inr ob \<Longrightarrow> ob_planning ob = length (filter (in_phase ''planning'') (own_batches basis facts))"
  unfolding task_observe_def
  by (drule observed_planning) (simp add: no_observations_def own_batches_def conj_commute)

text \<open>The candidate of the latest proposal, once its planning batch is usable.\<close>

definition bound_candidate ::
  "('p, 'c) task_ports \<Rightarrow> goal_basis \<Rightarrow> goal_facts \<Rightarrow> json \<Rightarrow> 'c \<Rightarrow> task_evidence list \<Rightarrow> goal_batch \<Rightarrow> work_candidate \<Rightarrow> bool" where
  "bound_candidate P basis facts snapshot material evidence b w \<longleftrightarrow>
     usable_latest basis b \<and> (\<exists>seen. map_of (gb_source b) ''inventory'' = Some seen \<and> same_json seen snapshot) \<and>
     (\<exists>run proposal w'. planned_run P b facts = Inr (Some run) \<and> r_status run = Completed \<and>
       read_proposal P b run = Inr proposal \<and> tp_bind P basis proposal snapshot material evidence = Inr (Prepared w') \<and>
       map_of (wc_source w) ''proposal_id'' = Some (JStr (gb_operation_id b)) \<and>
       map_of (wc_source w) ''action'' = Some (tp_action_data P proposal) \<and>
       w = w'\<lparr>wc_source := wc_source w\<rparr>)"

lemma bind_latest_Prepared:
  assumes "bind_latest P basis snapshot material evidence batches b run = Inr (Prepared w)"
  obtains proposal w' where "read_proposal P b run = Inr proposal"
    "tp_bind P basis proposal snapshot material evidence = Inr (Prepared w')"
    "map_of (wc_source w) ''proposal_id'' = Some (JStr (gb_operation_id b))"
    "map_of (wc_source w) ''action'' = Some (tp_action_data P proposal)" "w = w'\<lparr>wc_source := wc_source w\<rparr>"
proof -
  obtain proposal answer where answer: "read_proposal P b run = Inr proposal"
      "tp_bind P basis proposal snapshot material evidence = Inr answer"
    using assms by (auto simp: bind_latest_def rbind_Inr_iff)
  then obtain w' where w': "answer = Prepared w'" using assms by (cases answer) (auto simp: bind_latest_def)
  with answer assms obtain planning_basis where w:
      "w = w'\<lparr>wc_source := dict_merge (wc_source w') [(''proposal_id'', JStr (gb_operation_id b)),
         (''planning_basis'', planning_basis), (''action'', tp_action_data P proposal),
         (''parent_proposal_id'', parent_proposal batches)]\<rparr>"
    by (auto simp: bind_latest_def rbind_Inr_iff)
  show thesis by (rule that [OF answer [unfolded w']]) (simp_all add: w map_of_dict_merge)
qed

lemma choose_batch_Prepared:
  assumes "choose_batch P basis facts = Inr (Prepared w)"
  obtains snapshot material ob where "tp_context P basis = Inr (snapshot, material)" "task_observe P basis facts = Inr ob"
    "ob_invalid ob < invalid_proposals_limit" "ob_stalled ob < no_progress_limit"
    "ob_planning ob < planning_intents_limit \<and>
       (\<exists>rejections. tp_plan P basis snapshot (ob_evidence ob) (ob_routes ob) rejections = Inr (Prepared w)) \<or>
     own_batches basis facts \<noteq> [] \<and>
       bound_candidate P basis facts snapshot material (ob_evidence ob) (last (own_batches basis facts)) w"
proof -
  obtain snapshot material ob where start: "tp_context P basis = Inr (snapshot, material)" "task_observe P basis facts = Inr ob"
    using assms by (auto simp: choose_batch_def rbind_Inr_iff)
  then have limits: "ob_invalid ob < invalid_proposals_limit" "ob_stalled ob < no_progress_limit"
    using assms by (auto simp: choose_batch_def split: if_splits)
  define plan where "plan = (\<lambda>rejections.
    if ob_planning ob \<ge> planning_intents_limit then Inr (PolicyStop ''planning_intent_limit'')
    else tp_plan P basis snapshot (ob_evidence ob) (ob_routes ob) rejections)"
  let ?b = "last (own_batches basis facts)"
  have planned: "ob_planning ob < planning_intents_limit \<and>
       (\<exists>rejections. tp_plan P basis snapshot (ob_evidence ob) (ob_routes ob) rejections = Inr (Prepared w))"
    if "plan rejections = Inr (Prepared w)" for rejections
    using that by (auto simp: plan_def split: if_splits)
  have choice: "(if own_batches basis facts = [] \<or> \<not> usable_latest basis ?b then plan (ob_rejections ob)
     else rbind (item_at (gb_source ?b) ''inventory'') (\<lambda>before.
       if \<not> same_json before snapshot then plan (ob_rejections ob)
       else rbind (planned_run P ?b facts) (\<lambda>found.
         case found of None \<Rightarrow> Inl (OtherFault ''no run'')
         | Some run \<Rightarrow>
             if r_status run \<noteq> Completed then plan (ob_rejections ob)
             else (case bind_latest P basis snapshot material (ob_evidence ob) (own_batches basis facts) ?b run of
                 Inr answer \<Rightarrow> Inr answer
               | Inl (Rejected reason) \<Rightarrow>
                   if gb_operation_id ?b \<in> set (map fst (ob_rejections ob)) then plan (ob_rejections ob)
                   else if Suc (ob_invalid ob) \<ge> invalid_proposals_limit then Inr (PolicyStop ''planning_invalid_limit'')
                   else plan (ob_rejections ob @ [(gb_operation_id ?b, reason)])
               | Inl e \<Rightarrow> Inl e)))) = Inr (Prepared w)"
    using assms limits start unfolding plan_def by (simp add: choose_batch_def Let_def cong: if_cong)
  show thesis
  proof (cases "\<exists>rejections. plan rejections = Inr (Prepared w)")
    case True
    then show thesis using that [OF start limits] planned by blast
  next
    case False
    then have usable: "own_batches basis facts \<noteq> []" "usable_latest basis ?b" using choice by (auto split: if_splits)
    then obtain seen run where run: "map_of (gb_source ?b) ''inventory'' = Some seen" "same_json seen snapshot"
        "planned_run P ?b facts = Inr (Some run)" "r_status run = Completed"
      using choice False by (auto simp: rbind_Inr_iff split: if_splits option.splits)
    then have "bind_latest P basis snapshot material (ob_evidence ob) (own_batches basis facts) ?b run = Inr (Prepared w)"
      using choice False usable by (auto simp: item_at_def split: sum.splits planning_fault.splits if_splits)
    then show thesis
      using that [OF start limits] usable run by (auto simp: bound_candidate_def elim!: bind_latest_Prepared)
  qed
qed

text \<open>
  Property C23. What the task policy prepares is bounded: a candidate is the review that waits, or the
  Goal has more than two batches left, fewer than three proposals in a row were rejected, fewer than two
  repairs in a row have made no progress, no input waits, and the candidate either is a planning one, with
  fewer than eight planning batches of the Goal before it, or is the action of the proposal of the latest
  batch, a completed planning batch of the present revision and epoch on the present inventory,
  and carries the proposal's identity and action in its source.
\<close>

theorem preparation_is_bounded:
  assumes "task_prepare P basis facts = Inr (Prepared w)"
  shows "\<exists>snapshot material. tp_context P basis = Inr (snapshot, material) \<and>
    (if tp_pending_review P then tp_review P basis snapshot = Inr (Prepared w)
     else int (length (own_batches basis facts)) + 2 < gs_limit (bs_goal basis) \<and> \<not> tp_input_pending P \<and>
       (\<exists>ob. task_observe P basis facts = Inr ob \<and> ob_invalid ob < 3 \<and> ob_stalled ob < 2 \<and>
         (length (filter (in_phase ''planning'') (own_batches basis facts)) < 8 \<and>
            (\<exists>rejections. tp_plan P basis snapshot (ob_evidence ob) (ob_routes ob) rejections = Inr (Prepared w)) \<or>
          own_batches basis facts \<noteq> [] \<and>
            bound_candidate P basis facts snapshot material (ob_evidence ob) (last (own_batches basis facts)) w)))"
proof (cases "tp_pending_review P")
  case True
  then show ?thesis using assms by (auto simp: task_prepare_def rbind_Inr_iff)
next
  case False
  then have room: "int (length (own_batches basis facts)) + 2 < gs_limit (bs_goal basis)"
    and prepared: "batch_prepare P basis facts = Inr (Prepared w)"
    using assms by (auto simp: task_prepare_def rbind_Inr_iff split: if_splits)
  from prepared have input: "\<not> tp_input_pending P" and "choose_batch P basis facts = Inr (Prepared w)"
    by (auto simp: batch_prepare_def split: if_splits sum.splits planning_fault.splits)
  from this(2) show ?thesis
  proof (rule choose_batch_Prepared)
    fix snapshot material ob
    assume "tp_context P basis = Inr (snapshot, material)" and observed: "task_observe P basis facts = Inr ob"
    moreover assume "ob_invalid ob < invalid_proposals_limit" "ob_stalled ob < no_progress_limit"
      "ob_planning ob < planning_intents_limit \<and>
         (\<exists>rejections. tp_plan P basis snapshot (ob_evidence ob) (ob_routes ob) rejections = Inr (Prepared w)) \<or>
       own_batches basis facts \<noteq> [] \<and>
         bound_candidate P basis facts snapshot material (ob_evidence ob) (last (own_batches basis facts)) w"
    ultimately show ?thesis
      using False room input task_observe_planning [OF observed]
      by (simp add: invalid_proposals_limit_def no_progress_limit_def planning_intents_limit_def)
  qed
qed

definition sample_planning_batch :: goal_batch where
  "sample_planning_batch = (sample_batch (Some ''r''))\<lparr>gb_source := [(''phase'', JStr ''planning''), (''inventory'', JStr ''f''),
     (''basis'', JStr ''b''), (''input_ref'', JStr ''i''), (''input_sha256'', JStr ''sum'')]\<rparr>"

definition sample_planning_facts :: goal_facts where
  "sample_planning_facts = \<lparr>gf_batches = [sample_planning_batch], gf_runs = [rs_run sample_finished_run],
     gf_busy = False, gf_unresolved = False\<rparr>"

definition sample_planning_basis :: goal_basis where
  "sample_planning_basis = (sample_goal_basis 6)\<lparr>bs_goal := sample_goal\<lparr>gs_limit := 5\<rparr>\<rparr>"

lemma sample_reads:
  assumes "gb_operation_id b = ''o''" and "map_of (gb_source b) ''input_ref'' = Some (JStr ''i'')"
    and "map_of (gb_source b) ''input_sha256'' = Some (JStr ''sum'')"
  shows "read_proposal sample_ports b (rs_run sample_finished_run) = Inr (JStr ''p'')"
proof -
  have "planning_report sample_ports b (rs_run sample_finished_run) ''goal_planning_report'' = Inr sample_report"
    by (simp add: planning_report_def sample_ports_def assms(1) sample_finished_fields) (simp add: sample_report_def)
  moreover have "known_evidence (JObj sample_report) = Inr []" by (simp add: known_evidence_def item_at_def sample_report_def)
  moreover have "tp_session_id sample_ports = ''s''" "tp_read sample_ports = (\<lambda>_. Inr [])"
      "tp_decode sample_ports = (\<lambda>_. Inr (JObj sample_report))" "tp_digest sample_ports = (\<lambda>_. ''sum'')"
      "tp_verify sample_ports = (\<lambda>_ _ _ _. Inr ())" "tp_parse sample_ports = (\<lambda>_ _. Inr (JStr ''p''))"
      "tp_proposal_data sample_ports = (\<lambda>p. p)"
    by (simp_all add: sample_ports_def)
  moreover have "map_of sample_report ''session_id'' = Some (JStr ''s'')" "map_of sample_report ''input_ref'' = Some (JStr ''i'')"
      "map_of sample_report ''rejection'' = None" "map_of sample_report ''response_ref'' = Some (JStr ''x'')"
      "map_of sample_report ''proposal'' = Some (JStr ''p'')"
    by (simp_all add: sample_report_def)
  ultimately show ?thesis
    by (simp add: read_proposal_def assms(2,3) get_none_def item_at_def sample_finished_fields as_inconsistent_def)
qed

lemma sample_prepares:
  "\<exists>w. task_prepare sample_ports sample_planning_basis sample_planning_facts = Inr (Prepared w) \<and>
     map_of (wc_source w) ''proposal_id'' = Some (JStr ''o'')"
proof -
  let ?b = sample_planning_batch and ?run = "rs_run sample_finished_run"
  have b: "gb_operation_id ?b = ''o''" "gb_goal_id ?b = ''g''" "in_phase ''planning'' ?b" "\<not> gb_not_submitted ?b"
      "map_of (gb_source ?b) ''inventory'' = Some (JStr ''f'')" "map_of (gb_source ?b) ''basis'' = Some (JStr ''b'')"
      "gb_revision ?b = 1" "gb_epoch ?b = 1" "gb_run_receipt ?b = Some ''r''"
    by (simp_all add: sample_planning_batch_def sample_batch_def in_phase_def)
  have basis: "gs_id (bs_goal sample_planning_basis) = ''g''" "gs_limit (bs_goal sample_planning_basis) = 5"
      "gs_revision (bs_goal sample_planning_basis) = 1" "gs_epoch (bs_goal sample_planning_basis) = 1"
    by (simp_all add: sample_planning_basis_def sample_goal_basis_def sample_goal_fields)
  have facts: "gf_batches sample_planning_facts = [?b]" "gf_runs sample_planning_facts = [?run]"
    by (simp_all add: sample_planning_facts_def)
  have ports: "tp_context sample_ports = (\<lambda>_. Inr (JStr ''f'', ()))" "tp_session_id sample_ports = ''s''"
      "tp_proposal_data sample_ports = (\<lambda>p. p)" "tp_bind sample_ports = (\<lambda>_ _ _ _ _. Inr (Prepared sample_candidate))"
      "\<not> tp_input_pending sample_ports" "\<not> tp_pending_review sample_ports"
    by (simp_all add: sample_ports_def)
  have planned: "planned_run sample_ports ?b sample_planning_facts = Inr (Some ?run)"
    by (simp add: planned_run_def facts b ports sample_finished_fields)
  have "read_proposal sample_ports ?b ?run = Inr (JStr ''p'')"
    by (rule sample_reads [OF b(1)]) (simp_all add: sample_planning_batch_def)
  note given = b basis facts ports planned this sample_finished_fields
  have observed: "task_observe sample_ports sample_planning_basis sample_planning_facts =
      Inr (no_observations\<lparr>ob_planning := 1, ob_routes := [(''o'', JStr ''p'')]\<rparr>)"
    by (simp add: task_observe_def observe_batch_def observe_planning_def given) (simp add: no_observations_def)
  have own: "own_batches sample_planning_basis sample_planning_facts = [?b]" by (simp add: own_batches_def given)
  have "usable_latest sample_planning_basis ?b" by (simp add: usable_latest_def given)
  moreover obtain w where "bind_latest sample_ports sample_planning_basis (JStr ''f'') () [] [?b] ?b ?run = Inr (Prepared w)"
      "map_of (wc_source w) ''proposal_id'' = Some (JStr ''o'')"
    by (simp add: bind_latest_def given item_at_def map_of_dict_merge)
  ultimately have "choose_batch sample_ports sample_planning_basis sample_planning_facts = Inr (Prepared w)"
    by (simp add: choose_batch_def given observed own item_at_def no_observations_def invalid_proposals_limit_def
        no_progress_limit_def)
  then show ?thesis
    using \<open>map_of (wc_source w) ''proposal_id'' = Some (JStr ''o'')\<close>
    by (simp add: task_prepare_def batch_prepare_def own given)
qed

theorem preparation_is_bounded_witness:
  "int (length (own_batches sample_planning_basis sample_planning_facts)) + 2 < gs_limit (bs_goal sample_planning_basis)"
proof -
  obtain w where "task_prepare sample_ports sample_planning_basis sample_planning_facts = Inr (Prepared w)"
    using sample_prepares by blast
  moreover have "\<not> tp_pending_review sample_ports" by (simp add: sample_ports_def)
  ultimately show ?thesis using preparation_is_bounded by fastforce
qed

section \<open>Confirming\<close>

lemma confirm_proposal_True:
  assumes "confirm_proposal P replayed h w (JStr pid) = Inr True"
  obtains b runs run proposal where "b \<in> set (hi_batches h)" "gb_operation_id b = pid" "\<not> gb_not_submitted b"
    "gb_revision b = gs_revision (bs_goal (wc_basis w))" "gb_epoch b = gs_epoch (bs_goal (wc_basis w))"
    "replayed = Inr runs"
    "planned_run P b \<lparr>gf_batches = hi_batches h, gf_runs = runs, gf_busy = False, gf_unresolved = False\<rparr> = Inr (Some run)"
    "read_proposal P b run = Inr proposal" "same_json (tp_action_data P proposal) (get_none (wc_source w) ''action'')"
    "\<forall>b' \<in> set (hi_batches h). names_proposal (JStr pid) b' \<longrightarrow> gb_operation_id b' = wo_operation_id (wc_operation w)"
proof -
  obtain b where found: "filter (\<lambda>b. JStr (gb_operation_id b) = JStr pid) (hi_batches h) = [b]"
    using assms by (auto simp: confirm_proposal_def split: list.splits)
  then have b: "b \<in> set (hi_batches h)" "gb_operation_id b = pid" by (auto dest!: arg_cong [where f = set])
  define reading where "reading = rbind replayed (\<lambda>runs.
    rbind (planned_run P b \<lparr>gf_batches = hi_batches h, gf_runs = runs, gf_busy = False, gf_unresolved = False\<rparr>) (\<lambda>found.
    case found of None \<Rightarrow> Inl (OtherFault ''no run'') | Some run \<Rightarrow> read_proposal P b run))"
  have current: "\<not> gb_not_submitted b" "gb_revision b = gs_revision (bs_goal (wc_basis w))"
      "gb_epoch b = gs_epoch (bs_goal (wc_basis w))"
    and read: "(case reading of Inl (OtherFault s) \<Rightarrow> Inl (OtherFault s) | Inl _ \<Rightarrow> Inr False
      | Inr proposal \<Rightarrow> Inr (same_json (tp_action_data P proposal) (get_none (wc_source w) ''action'') \<and>
          \<not> list_ex (\<lambda>b'. names_proposal (JStr pid) b' \<and> gb_operation_id b' \<noteq> wo_operation_id (wc_operation w)) (hi_batches h))) =
      Inr True"
    using assms unfolding confirm_proposal_def found reading_def by (auto split: if_splits)
  then obtain proposal where proposal: "reading = Inr proposal"
      "same_json (tp_action_data P proposal) (get_none (wc_source w) ''action'')"
      "\<forall>b' \<in> set (hi_batches h). names_proposal (JStr pid) b' \<longrightarrow> gb_operation_id b' = wo_operation_id (wc_operation w)"
    by (auto simp: list_ex_iff split: sum.splits planning_fault.splits)
  from proposal(1) obtain runs found where "replayed = Inr runs"
      "planned_run P b \<lparr>gf_batches = hi_batches h, gf_runs = runs, gf_busy = False, gf_unresolved = False\<rparr> = Inr found"
      "(case found of None \<Rightarrow> Inl (OtherFault ''no run'') | Some run \<Rightarrow> read_proposal P b run) = Inr proposal"
    by (auto simp: reading_def rbind_Inr_iff)
  then show thesis
    using that [OF b current] proposal(2,3) by (cases found) simp_all
qed

lemma only_element:
  assumes "distinct (map f xs)" and "x \<in> set xs" and "p x" and "\<forall>y \<in> set xs. p y \<longrightarrow> f y = f x"
  shows "filter p xs = [x]"
proof -
  have found: "set (filter p xs) = {x}" using assms by (auto simp: distinct_map dest: inj_onD)
  have "distinct (filter p xs)" using assms(1) by (simp add: distinct_map)
  from distinct_card [OF this] have "length (filter p xs) = 1" unfolding found by simp
  then obtain y where "filter p xs = [y]" by (auto simp: length_Suc_conv)
  with found show ?thesis by simp
qed

text \<open>
  Property C22. A proposal is consumed by one batch: when the task policy confirms a candidate that cites a
  proposal, in a history that its records replay to, the proposal is what a submitted planning batch
  of the present revision and epoch still answers, its action is the candidate's action, and no batch of the
  history cites it, as long as the history stands at the candidate's basis, and afterwards
  exactly the last one, the candidate's own, recorded next with the candidate's source.
\<close>

theorem proposal_is_consumed_once:
  assumes "batch_confirm P replayed h w = Inr True" and "replay_goal header rs = Inr h"
    and "map_of (wc_source w) ''proposal_id'' = Some (JStr pid)"
  shows "history_goal h (gs_id (bs_goal (wc_basis w))) = Inr (bs_goal (wc_basis w)) \<and>
    (\<exists>b runs run proposal. b \<in> set (hi_batches h) \<and> gb_operation_id b = pid \<and> \<not> gb_not_submitted b \<and>
       gb_revision b = gs_revision (bs_goal (wc_basis w)) \<and> gb_epoch b = gs_epoch (bs_goal (wc_basis w)) \<and>
       planned_run P b \<lparr>gf_batches = hi_batches h, gf_runs = runs, gf_busy = False, gf_unresolved = False\<rparr> = Inr (Some run) \<and>
       read_proposal P b run = Inr proposal \<and> same_json (tp_action_data P proposal) (get_none (wc_source w) ''action'')) \<and>
    (if history_sequence h = bs_sequence (wc_basis w) then filter (names_proposal (JStr pid)) (hi_batches h) = []
     else history_sequence h = bs_sequence (wc_basis w) + 1 \<and>
       filter (names_proposal (JStr pid)) (hi_batches h) = [last (hi_batches h)] \<and>
       gb_operation_id (last (hi_batches h)) = wo_operation_id (wc_operation w) \<and>
       gb_intent_sequence (last (hi_batches h)) = history_sequence h)"
proof -
  have pid: "get_none (wc_source w) ''proposal_id'' = JStr pid" by (simp add: get_none_def assms(3))
  have goal: "history_goal h (gs_id (bs_goal (wc_basis w))) = Inr (bs_goal (wc_basis w))"
    and known: "confirm_proposal P replayed h w (JStr pid) = Inr True" and place: "confirm_place h w (JStr pid)"
    using assms(1) by (auto simp: batch_confirm_def pid rbind_Inr_iff Let_def split: if_splits sum.splits)
  obtain b runs run proposal where b: "b \<in> set (hi_batches h)" "gb_operation_id b = pid" "\<not> gb_not_submitted b"
      "gb_revision b = gs_revision (bs_goal (wc_basis w))" "gb_epoch b = gs_epoch (bs_goal (wc_basis w))"
      "planned_run P b \<lparr>gf_batches = hi_batches h, gf_runs = runs, gf_busy = False, gf_unresolved = False\<rparr> = Inr (Some run)"
      "read_proposal P b run = Inr proposal" "same_json (tp_action_data P proposal) (get_none (wc_source w) ''action'')"
    and sole: "\<forall>b' \<in> set (hi_batches h). names_proposal (JStr pid) b' \<longrightarrow> gb_operation_id b' = wo_operation_id (wc_operation w)"
    by (rule confirm_proposal_True [OF known])
  have "if history_sequence h = bs_sequence (wc_basis w) then filter (names_proposal (JStr pid)) (hi_batches h) = []
     else history_sequence h = bs_sequence (wc_basis w) + 1 \<and>
       filter (names_proposal (JStr pid)) (hi_batches h) = [last (hi_batches h)] \<and>
       gb_operation_id (last (hi_batches h)) = wo_operation_id (wc_operation w) \<and>
       gb_intent_sequence (last (hi_batches h)) = history_sequence h"
  proof (cases "history_sequence h = bs_sequence (wc_basis w)")
    case True
    then show ?thesis using place by (simp add: confirm_place_def list_ex_iff filter_empty_conv)
  next
    case False
    let ?own = "last (hi_batches h)"
    have own: "history_sequence h = bs_sequence (wc_basis w) + 1" "?own \<in> set (hi_batches h)"
        "gb_operation_id ?own = wo_operation_id (wc_operation w)" "gb_intent_sequence ?own = history_sequence h"
        "same_json (JObj (gb_source ?own)) (JObj (wc_source w))"
      using place False by (auto simp: confirm_place_def Let_def split: if_splits)
    have "names_proposal (JStr pid) ?own"
      using same_json_member [OF own(5), of "''proposal_id''"] by (simp add: names_proposal_def pid)
    then have "filter (names_proposal (JStr pid)) (hi_batches h) = [?own]"
      using sole own by (intro only_element [OF batches_of_history_apart(1) [OF assms(2)]]) simp_all
    then show ?thesis using False own by simp
  qed
  then show ?thesis using goal b by blast
qed

definition sample_proposed :: work_candidate where
  "sample_proposed = sample_candidate\<lparr>wc_basis := sample_goal_basis 6,
     wc_source := [(''proposal_id'', JStr ''o''), (''action'', JStr ''p'')]\<rparr>"

lemma sample_batch_confirm:
  "batch_confirm sample_ports (Inr [rs_run sample_finished_run]) (history_of sample_submitted submitted_state) sample_proposed =
     Inr True"
proof -
  let ?h = "history_of sample_submitted submitted_state" and ?b = "sample_batch (Some ''r'')"
  have h: "q_batches submitted_state = [(''b'', ?b)]" "length sample_submitted = 6" "history_goal ?h ''g'' = Inr sample_goal"
    by (simp_all add: submitted_state_def created_state_def history_goal_def sample_submitted_def sample_length)
  have w: "wc_basis sample_proposed = sample_goal_basis 6" "get_none (wc_source sample_proposed) ''proposal_id'' = JStr ''o''"
      "get_none (wc_source sample_proposed) ''action'' = JStr ''p''"
    by (simp_all add: sample_proposed_def get_none_def)
  have basis: "bs_goal (sample_goal_basis 6) = sample_goal" "bs_sequence (sample_goal_basis 6) = 6"
    by (simp_all add: sample_goal_basis_def)
  have b: "gb_operation_id ?b = ''o''" "\<not> gb_not_submitted ?b" "gb_revision ?b = 1" "gb_epoch ?b = 1"
      "\<not> names_proposal (JStr ''o'') ?b"
    by (simp_all add: sample_batch_def names_proposal_def get_none_def)
  have ports: "tp_confirm_domain sample_ports sample_proposed = Inr True" "tp_action_data sample_ports = (\<lambda>p. p)"
    by (simp_all add: sample_ports_def)
  have planned: "planned_run sample_ports ?b
      \<lparr>gf_batches = [?b], gf_runs = [rs_run sample_finished_run], gf_busy = False, gf_unresolved = False\<rparr> =
      Inr (Some (rs_run sample_finished_run))"
    using sample_planned by (simp add: sample_goal_facts_def)
  have "read_proposal sample_ports ?b (rs_run sample_finished_run) = Inr (JStr ''p'')"
    by (rule sample_reads) (simp_all add: sample_batch_def)
  then have "confirm_proposal sample_ports (Inr [rs_run sample_finished_run]) ?h sample_proposed (JStr ''o'') = Inr True"
    by (simp add: confirm_proposal_def h b w basis sample_goal_fields planned ports)
  then show ?thesis
    by (simp add: batch_confirm_def ports w basis sample_goal_fields h confirm_place_def b)
qed

theorem proposal_is_consumed_once_witness:
  "filter (names_proposal (JStr ''o'')) (hi_batches (history_of sample_submitted submitted_state)) = [] \<and>
   read_proposal sample_ports (sample_batch (Some ''r'')) (rs_run sample_finished_run) = Inr (JStr ''p'')"
proof -
  have "map_of (wc_source sample_proposed) ''proposal_id'' = Some (JStr ''o'')"
      "bs_sequence (wc_basis sample_proposed) = history_sequence (history_of sample_submitted submitted_state)"
    by (simp_all add: sample_proposed_def sample_goal_basis_def sample_submitted_def sample_length)
  moreover have "read_proposal sample_ports (sample_batch (Some ''r'')) (rs_run sample_finished_run) = Inr (JStr ''p'')"
    by (rule sample_reads) (simp_all add: sample_batch_def)
  ultimately show ?thesis
    using proposal_is_consumed_once [OF sample_batch_confirm sample_replays(2)] by simp
qed

end
