(* ===== verification/Branch_Graph.thy ===== *)
theory Branch_Graph
  imports Prelude
begin

text \<open>
  The tree of a conversation (\<open>harness/conversation/branch.py\<close>, class \<open>BranchGraph\<close>): records linked to
  parents, validated strictly or repaired, extended incrementally, and the paths, forks and common
  ancestors read from it.

  The two functions that read a record's identity and parent are arguments. Messages of diagnostics
  are left out: a problem is its code and the record it names. Object identity and the copying of
  lists that two graphs would otherwise share have no counterpart in values.
\<close>

section \<open>Data\<close>

datatype branch_error =
    BranchGraphError string string
  | BranchRecordNotFound string
  | RequiresStrictGraph
  | AppendSourceChanged

record 'r branch_graph =
  bg_records :: "'r list"
  bg_strict :: bool
  bg_diagnostics :: "(string \<times> string) list"
  bg_by_id :: "(string \<times> 'r) list"
  bg_source_order :: "string list"
  bg_parents :: "(string \<times> string option) list"
  bg_children :: "(string \<times> string list) list"
  bg_path_cache :: "(string \<times> 'r list) option"

record 'r prepared_append =
  pa_source_count :: nat
  pa_records :: "'r list"
  pa_added :: "(string \<times> 'r) list"
  pa_parents :: "(string \<times> string option) list"

record 'r fork_plan =
  fp_selected_id :: string
  fp_records :: "'r list"

text \<open>\<open>_problem\<close>: a strict graph raises, a compatible one remembers.\<close>

definition branch_problem ::
  "bool \<Rightarrow> string \<Rightarrow> string \<Rightarrow> (string \<times> string) list \<Rightarrow> branch_error + (string \<times> string) list" where
  "branch_problem strict problem_code k diagnostics =
     (if strict then Inl (BranchGraphError problem_code k) else Inr (diagnostics @ [(problem_code, k)]))"

section \<open>Cycles\<close>

text \<open>\<open>parents[k]\<close>, read only for ids that are keys.\<close>

definition parent_of :: "(string \<times> string option) list \<Rightarrow> string \<Rightarrow> string option" where
  "parent_of parents k = (case map_of parents k of None \<Rightarrow> None | Some p \<Rightarrow> p)"

lemma parent_of_Some: "parent_of parents k = Some p \<longleftrightarrow> map_of parents k = Some (Some p)"
  by (simp add: parent_of_def split: option.split)

lemma parent_of_key: "parent_of parents k = Some p \<Longrightarrow> k \<in> set (keys parents)"
  by (auto simp: parent_of_Some dest: map_of_Some_keys)

lemma fewer_unseen:
  assumes "parent_of parents k = Some p" and "k \<notin> set path"
  shows "card (set (keys parents) - set (path @ [k])) < card (set (keys parents) - set path)"
proof (rule psubset_card_mono)
  show "set (keys parents) - set (path @ [k]) \<subset> set (keys parents) - set path"
    using parent_of_key [OF assms(1)] assms(2) by auto
qed simp

text \<open>The inner loop: the cycle found, and the path walked.\<close>

function walk_up ::
  "(string \<times> string option) list \<Rightarrow> string list \<Rightarrow> string list \<Rightarrow> string option \<Rightarrow> string list option \<times> string list" where
  "walk_up parents visited path None = (None, path)"
| "walk_up parents visited path (Some k) =
     (if k \<in> set visited then (None, path)
      else if k \<in> set path then (Some (dropWhile (\<lambda>x. x \<noteq> k) path), path)
      else walk_up parents visited (path @ [k]) (parent_of parents k))"
  by pat_completeness auto

termination
proof (relation "measure (\<lambda>(parents, visited, path, current).
    2 * card (set (keys parents) - set path) + (case current of None \<Rightarrow> 0 | Some _ \<Rightarrow> 1))")
  fix parents :: "(string \<times> string option) list" and visited path :: "string list" and k :: string
  assume "k \<notin> set path"
  have "set (keys parents) - set (path @ [k]) \<subseteq> set (keys parents) - set path" by auto
  then have "card (set (keys parents) - set (path @ [k])) \<le> card (set (keys parents) - set path)"
    by (rule card_mono [rotated]) simp
  then show "((parents, visited, path @ [k], parent_of parents k), parents, visited, path, Some k) \<in>
      measure (\<lambda>(parents, visited, path, current).
        2 * card (set (keys parents) - set path) + (case current of None \<Rightarrow> 0 | Some _ \<Rightarrow> 1))"
    using fewer_unseen [OF _ \<open>k \<notin> set path\<close>, of parents] by (cases "parent_of parents k") fastforce+
qed simp

primrec find_cycle :: "(string \<times> string option) list \<Rightarrow> string list \<Rightarrow> string list \<Rightarrow> string list option" where
  "find_cycle parents visited [] = None"
| "find_cycle parents visited (k # ks) =
     (if k \<in> set visited then find_cycle parents visited ks
      else
        (case walk_up parents visited [] (Some k) of
           (Some cycle, _) \<Rightarrow> Some cycle
         | (None, path) \<Rightarrow> find_cycle parents (path @ visited) ks))"

section \<open>Building\<close>

text \<open>\<open>_build_lookup\<close>: the diagnostics, the records by id, and the last position of each id.\<close>

type_synonym 'r lookup = "(string \<times> string) list \<times> (string \<times> 'r) list \<times> (string \<times> nat) list"

definition lookup_step :: "bool \<Rightarrow> ('r \<Rightarrow> string) \<Rightarrow> 'r lookup \<Rightarrow> nat \<times> 'r \<Rightarrow> branch_error + 'r lookup" where
  "lookup_step strict record_id = (\<lambda>(diagnostics, by_id, positions) (position, r).
     let k = record_id r in
     if k = [] then
       rbind (branch_problem strict ''invalid_branch_record_id'' k diagnostics) (\<lambda>diagnostics.
       Inr (diagnostics, by_id, positions))
     else
       rbind (if k \<in> set (keys by_id) then branch_problem strict ''duplicate_branch_record_id'' k diagnostics
              else Inr diagnostics) (\<lambda>diagnostics.
       Inr (diagnostics, AList.update k r by_id, AList.update k position positions)))"

definition build_lookup :: "bool \<Rightarrow> ('r \<Rightarrow> string) \<Rightarrow> 'r list \<Rightarrow> branch_error + 'r lookup" where
  "build_lookup strict record_id records = rfold (lookup_step strict record_id) ([], [], []) (enumerate 0 records)"

text \<open>\<open>_normalize_parents\<close>: links to nowhere and to oneself are cut, then cycles.\<close>

type_synonym normalized = "(string \<times> string) list \<times> (string \<times> string option) list"

definition parent_step ::
  "bool \<Rightarrow> ('r \<Rightarrow> string option) \<Rightarrow> (string \<times> 'r) list \<Rightarrow> normalized \<Rightarrow> string \<Rightarrow> branch_error + normalized" where
  "parent_step strict parent_id by_id = (\<lambda>(diagnostics, parents) k.
     case Option.bind (map_of by_id k) parent_id of
       None \<Rightarrow> Inr (diagnostics, AList.update k None parents)
     | Some p \<Rightarrow>
         if p = k then
           rbind (branch_problem strict ''self_parent_branch_record'' k diagnostics) (\<lambda>diagnostics.
           Inr (diagnostics, AList.update k None parents))
         else if p \<notin> set (keys by_id) then
           rbind (branch_problem strict ''dangling_branch_parent'' k diagnostics) (\<lambda>diagnostics.
           Inr (diagnostics, AList.update k None parents))
         else Inr (diagnostics, AList.update k (Some p) parents))"

text \<open>The number of links that are left bounds the loop that cuts cycles.\<close>

definition link_count :: "(string \<times> string option) list \<Rightarrow> nat" where
  "link_count parents = card {k. parent_of parents k \<noteq> None}"

lemma link_count_finite: "finite {k. parent_of parents k \<noteq> None}"
  by (rule finite_subset [of _ "set (keys parents)"]) (auto dest: parent_of_key)

lemma walk_up_cycle:
  assumes "walk_up parents visited path current = (Some cycle, path')"
    and "\<forall>k \<in> set path. parent_of parents k \<noteq> None"
  shows "cycle \<noteq> [] \<and> (\<forall>k \<in> set cycle. parent_of parents k \<noteq> None)"
  using assms
proof (induction parents visited path current rule: walk_up.induct)
  case (1 parents visited path)
  then show ?case by simp
next
  case (2 parents visited path k)
  show ?case
  proof (cases "k \<in> set visited \<or> k \<in> set path")
    case True
    then have cycle: "cycle = dropWhile (\<lambda>x. x \<noteq> k) path" and k: "k \<in> set path"
      using "2.prems"(1) by (auto split: if_splits)
    have "set cycle \<subseteq> set path" unfolding cycle by (auto dest: set_dropWhileD)
    moreover have "cycle \<noteq> []" unfolding cycle using k by (simp add: dropWhile_eq_Nil_conv)
    ultimately show ?thesis using "2.prems"(2) by blast
  next
    case False
    then have rest: "walk_up parents visited (path @ [k]) (parent_of parents k) = (Some cycle, path')"
      using "2.prems"(1) by simp
    then have "parent_of parents k \<noteq> None" by (metis option.distinct(1) prod.inject walk_up.simps(1))
    then have "\<forall>k \<in> set (path @ [k]). parent_of parents k \<noteq> None" using "2.prems"(2) by auto
    then show ?thesis using "2.IH" [OF _ _ rest] False by blast
  qed
qed

lemma find_cycle_links: "find_cycle parents visited ks = Some cycle \<Longrightarrow>
    cycle \<noteq> [] \<and> (\<forall>k \<in> set cycle. parent_of parents k \<noteq> None)"
proof (induction ks arbitrary: visited)
  case Nil
  then show ?case by simp
next
  case (Cons k ks)
  obtain found path where walk: "walk_up parents visited [] (Some k) = (found, path)" by fastforce
  show ?case
  proof (cases "k \<in> set visited")
    case True
    then show ?thesis using Cons by simp
  next
    case False
    then show ?thesis
      using Cons.prems Cons.IH walk walk_up_cycle [of parents visited "[]" "Some k"] by (cases found) (simp_all del: walk_up.simps)
  qed
qed

lemma parent_of_update: "parent_of (AList.update k v parents) = (parent_of parents)(k := v)"
  by (simp add: parent_of_def fun_eq_iff)

lemma link_count_cut:
  assumes "parent_of parents k \<noteq> None"
  shows "link_count (AList.update k None parents) < link_count parents"
  unfolding link_count_def parent_of_update
  by (rule psubset_card_mono [OF link_count_finite]) (use assms in auto)

function cut_cycles :: "bool \<Rightarrow> string list \<Rightarrow> (string \<times> string) list \<Rightarrow> (string \<times> string option) list \<Rightarrow> branch_error + normalized" where
  "cut_cycles strict order diagnostics parents =
     (case find_cycle parents [] order of
        None \<Rightarrow> Inr (diagnostics, parents)
      | Some cycle \<Rightarrow>
          rbind (branch_problem strict ''branch_parent_cycle'' (hd cycle) diagnostics) (\<lambda>diagnostics.
          cut_cycles strict order diagnostics (AList.update (hd cycle) None parents)))"
  by pat_completeness auto

termination
proof (relation "measure (\<lambda>(strict, order, diagnostics, parents). link_count parents)")
  fix strict order diagnostics parents cycle x
  assume "find_cycle parents [] order = Some cycle"
  then have "parent_of parents (hd cycle) \<noteq> None" using find_cycle_links by fastforce
  then show "((strict, order, x, AList.update (hd cycle) None parents), strict, order, diagnostics, parents) \<in>
      measure (\<lambda>(strict, order, diagnostics, parents). link_count parents)"
    using link_count_cut by simp
qed simp

declare cut_cycles.simps [simp del]

definition normalize_parents ::
  "bool \<Rightarrow> ('r \<Rightarrow> string option) \<Rightarrow> (string \<times> 'r) list \<Rightarrow> string list \<Rightarrow> (string \<times> string) list \<Rightarrow> branch_error + normalized" where
  "normalize_parents strict parent_id by_id order diagnostics =
     rbind (rfold (parent_step strict parent_id by_id) (diagnostics, []) order) (\<lambda>(diagnostics, parents).
     cut_cycles strict order diagnostics parents)"

text \<open>\<open>children[parent].append(child)\<close> for every link.\<close>

definition add_child ::
  "string \<times> string option \<Rightarrow> (string \<times> string list) list \<Rightarrow> (string \<times> string list) list" where
  "add_child = (\<lambda>(child, parent) children.
     case parent of
       None \<Rightarrow> children
     | Some p \<Rightarrow> (case map_of children p of
         None \<Rightarrow> children
       | Some cs \<Rightarrow> AList.update p (cs @ [child]) children))"

definition build_children :: "string list \<Rightarrow> (string \<times> string option) list \<Rightarrow> (string \<times> string list) list" where
  "build_children order parents =
     fold (\<lambda>k. add_child (k, parent_of parents k)) order (map (\<lambda>k. (k, [])) order)"

definition branch_graph ::
  "('r \<Rightarrow> string) \<Rightarrow> ('r \<Rightarrow> string option) \<Rightarrow> bool \<Rightarrow> 'r list \<Rightarrow> branch_error + 'r branch_graph" where
  "branch_graph record_id parent_id strict records =
     rbind (build_lookup strict record_id records) (\<lambda>(diagnostics, by_id, positions).
     let order = map fst (sort_key snd positions) in
     rbind (normalize_parents strict parent_id by_id order diagnostics) (\<lambda>(diagnostics, parents).
     Inr \<lparr>bg_records = records, bg_strict = strict, bg_diagnostics = diagnostics, bg_by_id = by_id,
       bg_source_order = order, bg_parents = parents, bg_children = build_children order parents,
       bg_path_cache = None\<rparr>))"

section \<open>Appending\<close>

definition admit_ids :: "('r \<Rightarrow> string) \<Rightarrow> 'r branch_graph \<Rightarrow> (string \<times> 'r) list \<Rightarrow> 'r \<Rightarrow> branch_error + (string \<times> 'r) list" where
  "admit_ids record_id g added r =
     (let k = record_id r in
      rbind (require (k \<noteq> []) (BranchGraphError ''invalid_branch_record_id'' k)) (\<lambda>_.
      rbind (require (k \<notin> set (keys (bg_by_id g)) \<and> k \<notin> set (keys added))
               (BranchGraphError ''duplicate_branch_record_id'' k)) (\<lambda>_.
      Inr (AList.update k r added))))"

definition admit_parent ::
  "('r \<Rightarrow> string option) \<Rightarrow> 'r branch_graph \<Rightarrow> (string \<times> 'r) list \<Rightarrow> (string \<times> string option) list \<Rightarrow> string \<times> 'r \<Rightarrow>
     branch_error + (string \<times> string option) list" where
  "admit_parent parent_id g added parents = (\<lambda>(k, r).
     rbind (require (parent_id r \<noteq> Some k) (BranchGraphError ''self_parent_branch_record'' k)) (\<lambda>_.
     rbind (require (case parent_id r of None \<Rightarrow> True | Some p \<Rightarrow> p \<in> set (keys (bg_by_id g)) \<or> p \<in> set (keys added))
              (BranchGraphError ''dangling_branch_parent'' k)) (\<lambda>_.
     Inr (AList.update k (parent_id r) parents))))"

text \<open>\<open>parent if parent in added else None\<close>.\<close>

definition inner_links :: "(string \<times> 'r) list \<Rightarrow> (string \<times> string option) list \<Rightarrow> (string \<times> string option) list" where
  "inner_links added parents =
     map (\<lambda>(k, p). (k, case p of None \<Rightarrow> None | Some q \<Rightarrow> if q \<in> set (keys added) then Some q else None)) parents"

definition prepare_strict_append ::
  "('r \<Rightarrow> string) \<Rightarrow> ('r \<Rightarrow> string option) \<Rightarrow> 'r branch_graph \<Rightarrow> 'r list \<Rightarrow> branch_error + 'r prepared_append" where
  "prepare_strict_append record_id parent_id g appended =
     rbind (require (bg_strict g) RequiresStrictGraph) (\<lambda>_.
     rbind (rfold (admit_ids record_id g) [] appended) (\<lambda>added.
     rbind (rfold (admit_parent parent_id g added) [] added) (\<lambda>parents.
     case find_cycle (inner_links added parents) [] (keys added) of
       Some cycle \<Rightarrow> Inl (BranchGraphError ''branch_parent_cycle'' (hd cycle))
     | None \<Rightarrow> Inr \<lparr>pa_source_count = length (bg_records g), pa_records = appended, pa_added = added,
         pa_parents = parents\<rparr>)))"

text \<open>The fields after the append, as \<open>with_appended_records\<close> and \<open>publish_strict_append\<close> set them.\<close>

definition extended_graph :: "'r branch_graph \<Rightarrow> 'r prepared_append \<Rightarrow> 'r branch_graph" where
  "extended_graph g plan =
     g\<lparr>bg_records := bg_records g @ pa_records plan,
       bg_source_order := bg_source_order g @ keys (pa_added plan),
       bg_by_id := dict_merge (bg_by_id g) (pa_added plan),
       bg_parents := dict_merge (bg_parents g) (pa_parents plan),
       bg_children := fold add_child (pa_parents plan)
         (dict_merge (bg_children g) (map (\<lambda>k. (k, [])) (keys (pa_added plan))))\<rparr>"

definition with_appended_records ::
  "('r \<Rightarrow> string) \<Rightarrow> ('r \<Rightarrow> string option) \<Rightarrow> 'r branch_graph \<Rightarrow> 'r list \<Rightarrow> branch_error + 'r branch_graph" where
  "with_appended_records record_id parent_id g appended =
     (if \<not> bg_strict g then branch_graph record_id parent_id False (bg_records g @ appended)
      else rbind (prepare_strict_append record_id parent_id g appended) (\<lambda>plan. Inr (extended_graph g plan)))"

definition publish_strict_append :: "'r branch_graph \<Rightarrow> 'r prepared_append \<Rightarrow> bool \<Rightarrow> branch_error + 'r branch_graph" where
  "publish_strict_append g plan own_plan =
     (if \<not> own_plan \<or> length (bg_records g) \<noteq> pa_source_count plan then Inl AppendSourceChanged
      else Inr (extended_graph g plan))"

section \<open>Reading\<close>

definition graph_records :: "'r branch_graph \<Rightarrow> 'r list" where
  "graph_records g = map (\<lambda>k. the (map_of (bg_by_id g) k)) (bg_source_order g)"

definition graph_roots :: "'r branch_graph \<Rightarrow> 'r list" where
  "graph_roots g = map (\<lambda>k. the (map_of (bg_by_id g) k)) (filter (\<lambda>k. parent_of (bg_parents g) k = None) (bg_source_order g))"

definition graph_leaves :: "'r branch_graph \<Rightarrow> 'r list" where
  "graph_leaves g = map (\<lambda>k. the (map_of (bg_by_id g) k)) (filter (\<lambda>k. map_of (bg_children g) k = Some []) (bg_source_order g))"

definition require_record :: "'r branch_graph \<Rightarrow> string \<Rightarrow> branch_error + unit" where
  "require_record g k = require (k \<in> set (keys (bg_by_id g))) (BranchRecordNotFound k)"

definition graph_children :: "'r branch_graph \<Rightarrow> string \<Rightarrow> branch_error + 'r list" where
  "graph_children g k = rbind (require_record g k) (\<lambda>_.
     Inr (map (\<lambda>c. the (map_of (bg_by_id g) c)) (the (map_of (bg_children g) k))))"

text \<open>The loop of \<open>path\<close>: the ids from the record up, to a root or to the cached record.\<close>

function climb :: "(string \<times> string option) list \<Rightarrow> string option \<Rightarrow> string list \<Rightarrow> string option \<Rightarrow> string list \<times> bool" where
  "climb parents cached ids None = (ids, False)"
| "climb parents cached ids (Some k) =
     (if k \<in> set ids then (ids, False)
      else if cached = Some k then (ids, True)
      else climb parents cached (ids @ [k]) (parent_of parents k))"
  by pat_completeness auto

termination
proof (relation "measure (\<lambda>(parents, cached, ids, current).
    2 * card (set (keys parents) - set ids) + (case current of None \<Rightarrow> 0 | Some _ \<Rightarrow> 1))")
  fix parents :: "(string \<times> string option) list" and cached and ids :: "string list" and k :: string
  assume "k \<notin> set ids"
  have "set (keys parents) - set (ids @ [k]) \<subseteq> set (keys parents) - set ids" by auto
  then have "card (set (keys parents) - set (ids @ [k])) \<le> card (set (keys parents) - set ids)"
    by (rule card_mono [rotated]) simp
  then show "((parents, cached, ids @ [k], parent_of parents k), parents, cached, ids, Some k) \<in>
      measure (\<lambda>(parents, cached, ids, current).
        2 * card (set (keys parents) - set ids) + (case current of None \<Rightarrow> 0 | Some _ \<Rightarrow> 1))"
    using fewer_unseen [OF _ \<open>k \<notin> set ids\<close>, of parents] by (cases "parent_of parents k") fastforce+
qed simp

definition graph_path :: "'r branch_graph \<Rightarrow> string \<Rightarrow> branch_error + 'r list \<times> 'r branch_graph" where
  "graph_path g k = rbind (require_record g k) (\<lambda>_.
     if map_option fst (bg_path_cache g) = Some k then Inr (snd (the (bg_path_cache g)), g)
     else
       (let (ids, hit) = climb (bg_parents g) (map_option fst (bg_path_cache g)) [] (Some k);
            prefix = (if hit then snd (the (bg_path_cache g)) else []);
            result = prefix @ map (\<lambda>i. the (map_of (bg_by_id g) i)) (rev ids)
        in Inr (result, g\<lparr>bg_path_cache := Some (k, result)\<rparr>)))"

definition graph_ancestors :: "'r branch_graph \<Rightarrow> string \<Rightarrow> branch_error + 'r list \<times> 'r branch_graph" where
  "graph_ancestors g k = rbind (graph_path g k) (\<lambda>(path, g'). Inr (butlast path, g'))"

text \<open>The last pair of equal ids of \<open>zip\<close>, before the first that differ.\<close>

fun last_common :: "string option \<Rightarrow> string list \<Rightarrow> string list \<Rightarrow> string option" where
  "last_common common (l # ls) (r # rs) = (if l \<noteq> r then common else last_common (Some l) ls rs)"
| "last_common common _ _ = common"

definition lowest_common_ancestor ::
  "('r \<Rightarrow> string) \<Rightarrow> 'r branch_graph \<Rightarrow> string \<Rightarrow> string \<Rightarrow> branch_error + 'r option \<times> 'r branch_graph" where
  "lowest_common_ancestor record_id g left right =
     rbind (graph_path g left) (\<lambda>(left_path, g1).
     rbind (graph_path g1 right) (\<lambda>(right_path, g2).
     Inr (Option.bind (last_common None (map record_id left_path) (map record_id right_path)) (map_of (bg_by_id g2)), g2)))"

definition make_fork_plan :: "'r branch_graph \<Rightarrow> string \<Rightarrow> branch_error + 'r fork_plan \<times> 'r branch_graph" where
  "make_fork_plan g selected = rbind (graph_path g selected) (\<lambda>(path, g').
     Inr (\<lparr>fp_selected_id = selected, fp_records = path\<rparr>, g'))"

end
