(* ===== verification/Branch_Links.thy ===== *)
theory Branch_Links
  imports Branch_Graph
begin

text \<open>
  Parent links and the walk that looks for their cycles. A record is \<open>rooted\<close> when following its
  parents ends; the search of \<open>harness/conversation/branch.py\<close> finds no cycle exactly when every
  record is rooted, and the record it names is on a cycle.
\<close>

section \<open>Rooted records\<close>

inductive rooted :: "(string \<times> string option) list \<Rightarrow> string \<Rightarrow> bool" for parents where
  root: "parent_of parents k = None \<Longrightarrow> rooted parents k"
| link: "parent_of parents k = Some p \<Longrightarrow> rooted parents p \<Longrightarrow> rooted parents k"

inductive_simps rooted_iff: "rooted parents k"

abbreviation links :: "(string \<times> string option) list \<Rightarrow> (string \<times> string) set" where
  "links parents \<equiv> {(k, p). parent_of parents k = Some p}"

lemma rooted_parent: "parent_of parents k = Some p \<Longrightarrow> rooted parents k \<longleftrightarrow> rooted parents p"
  by (subst rooted_iff) simp

lemma rooted_acyclic: "rooted parents k \<Longrightarrow> (k, k) \<notin> (links parents)\<^sup>+"
proof (induction rule: rooted.induct)
  case (root k)
  then show ?case by (auto dest: tranclD)
next
  case (link k p)
  show ?case
  proof
    assume "(k, k) \<in> (links parents)\<^sup>+"
    then obtain q where q: "(k, q) \<in> links parents" "(q, k) \<in> (links parents)\<^sup>*" by (auto dest: tranclD)
    have "(k, p) \<in> links parents" using link.hyps(1) by simp
    moreover have "q = p" using link.hyps(1) q(1) by auto
    ultimately have "(p, p) \<in> (links parents)\<^sup>+" using q(2) by (metis rtrancl_into_trancl1)
    then show False using link.IH by simp
  qed
qed

section \<open>The search for cycles\<close>

lemma walk_up_Some:
  assumes "walk_up parents visited path current = (Some cycle, path')"
    and "\<forall>x \<in> set path. \<forall>c. current = Some c \<longrightarrow> (x, c) \<in> (links parents)\<^sup>+"
  shows "(hd cycle, hd cycle) \<in> (links parents)\<^sup>+"
  using assms
proof (induction parents visited path current rule: walk_up.induct)
  case (1 parents visited path)
  then show ?case by simp
next
  case (2 parents visited path k)
  show ?case
  proof (cases "k \<in> set visited \<or> k \<in> set path")
    case True
    then have cycle: "cycle = dropWhile (\<lambda>x. x \<noteq> k) path" and k: "k \<in> set path"
      using "2.prems"(1) by (auto split: if_splits)
    then have "hd cycle = k" using hd_dropWhile [of "\<lambda>x. x \<noteq> k" path] by auto
    then show ?thesis using "2.prems"(2) k by simp
  next
    case False
    then have rest: "walk_up parents visited (path @ [k]) (parent_of parents k) = (Some cycle, path')"
      using "2.prems"(1) by simp
    moreover have "\<forall>x \<in> set (path @ [k]). \<forall>c. parent_of parents k = Some c \<longrightarrow> (x, c) \<in> (links parents)\<^sup>+"
      using "2.prems"(2) by (auto intro: trancl_into_trancl)
    ultimately show ?thesis using "2.IH" False by blast
  qed
qed

lemma walk_up_None:
  assumes "walk_up parents visited path current = (None, path')"
    and "\<forall>x \<in> set visited. rooted parents x"
    and "\<forall>x \<in> set path. (\<forall>c. current = Some c \<longrightarrow> rooted parents c) \<longrightarrow> rooted parents x"
  shows "\<forall>x \<in> set path'. rooted parents x"
  using assms
proof (induction parents visited path current rule: walk_up.induct)
  case (1 parents visited path)
  then show ?case by simp
next
  case (2 parents visited path k)
  show ?case
  proof (cases "k \<in> set visited \<or> k \<in> set path")
    case True
    then show ?thesis using "2.prems" by (auto split: if_splits)
  next
    case False
    then have rest: "walk_up parents visited (path @ [k]) (parent_of parents k) = (None, path')"
      using "2.prems"(1) by simp
    moreover have "\<forall>x \<in> set (path @ [k]). (\<forall>c. parent_of parents k = Some c \<longrightarrow> rooted parents c) \<longrightarrow> rooted parents x"
      using "2.prems"(3) by (cases "parent_of parents k") (auto simp: root rooted_parent)
    ultimately show ?thesis using "2.IH" False "2.prems"(2) by blast
  qed
qed

lemma walk_up_path: "walk_up parents visited path current = (found, path') \<Longrightarrow> set path \<subseteq> set path'"
proof (induction parents visited path current rule: walk_up.induct)
  case (1 parents visited path)
  then show ?case by simp
next
  case (2 parents visited path k)
  then show ?case by (cases "k \<in> set visited"; cases "k \<in> set path") (auto split: if_splits)
qed

lemma walk_up_start:
  assumes "walk_up parents visited [] (Some k) = (found, path')" and "k \<notin> set visited"
  shows "k \<in> set path'"
  using assms walk_up_path [of parents visited "[k]"] by auto

lemma walk_up_rooted:
  assumes "\<forall>c. current = Some c \<longrightarrow> rooted parents c"
    and "\<forall>x \<in> set path. \<forall>c. current = Some c \<longrightarrow> (x, c) \<in> (links parents)\<^sup>+"
  shows "fst (walk_up parents visited path current) = None"
  using assms
proof (induction parents visited path current rule: walk_up.induct)
  case (1 parents visited path)
  then show ?case by simp
next
  case (2 parents visited path k)
  show ?case
  proof (cases "k \<in> set visited \<or> k \<in> set path")
    case True
    then show ?thesis using "2.prems" by (auto dest: rooted_acyclic)
  next
    case False
    have "\<forall>x \<in> set (path @ [k]). \<forall>c. parent_of parents k = Some c \<longrightarrow> (x, c) \<in> (links parents)\<^sup>+"
      using "2.prems"(2) by (auto intro: trancl_into_trancl)
    moreover have "\<forall>c. parent_of parents k = Some c \<longrightarrow> rooted parents c"
      using "2.prems"(1) by (auto simp: rooted_parent)
    ultimately show ?thesis using "2.IH" False by simp
  qed
qed

lemma find_cycle_Some: "find_cycle parents visited ks = Some cycle \<Longrightarrow> \<not> rooted parents (hd cycle)"
proof (induction ks arbitrary: visited)
  case Nil
  then show ?case by simp
next
  case (Cons k ks)
  obtain found path where walk: "walk_up parents visited [] (Some k) = (found, path)" by fastforce
  show ?case
  proof (cases "k \<in> set visited")
    case True
    then show ?thesis using Cons by simp
  next
    case False
    show ?thesis
    proof (cases found)
      case None
      then show ?thesis using Cons.prems Cons.IH False walk by (simp del: walk_up.simps)
    next
      case (Some c)
      then have "c = cycle" using Cons.prems False walk by (simp del: walk_up.simps)
      then have "(hd cycle, hd cycle) \<in> (links parents)\<^sup>+" using walk walk_up_Some [of parents visited "[]" "Some k" cycle path] Some by simp
      then show ?thesis using rooted_acyclic by blast
    qed
  qed
qed

lemma find_cycle_None:
  assumes "find_cycle parents visited ks = None" and "\<forall>x \<in> set visited. rooted parents x"
  shows "\<forall>k \<in> set ks. rooted parents k"
  using assms
proof (induction ks arbitrary: visited)
  case Nil
  then show ?case by simp
next
  case (Cons k ks)
  obtain found path where walk: "walk_up parents visited [] (Some k) = (found, path)" by fastforce
  show ?case
  proof (cases "k \<in> set visited")
    case True
    then show ?thesis using Cons by simp
  next
    case False
    then have none: "found = None" and rest: "find_cycle parents (path @ visited) ks = None"
      using Cons.prems(1) walk by (auto simp del: walk_up.simps split: option.splits)
    have path: "\<forall>x \<in> set path. rooted parents x"
      using walk_up_None [of parents visited "[]" "Some k" path] walk none Cons.prems(2) by simp
    then have "\<forall>k \<in> set ks. rooted parents k" using Cons.IH [OF rest] Cons.prems(2) by auto
    then show ?thesis using path walk_up_start [OF walk False] by simp
  qed
qed

lemma find_cycle_iff:
  assumes "set (keys parents) \<subseteq> set order"
  shows "find_cycle parents [] order = None \<longleftrightarrow> (\<forall>k. rooted parents k)"
proof
  assume "find_cycle parents [] order = None"
  then have "\<forall>k \<in> set order. rooted parents k" by (rule find_cycle_None) simp
  moreover have "rooted parents k" if "k \<notin> set order" for k
    using that assms parent_of_key by (metis not_Some_eq root subsetD)
  ultimately show "\<forall>k. rooted parents k" by blast
next
  assume "\<forall>k. rooted parents k"
  then show "find_cycle parents [] order = None" using find_cycle_Some
    by (cases "find_cycle parents [] order") blast+
qed

end
