(* ===== verification/Branch_Building.thy ===== *)
theory Branch_Building
  imports Branch_Links
begin

text \<open>
  What the construction of \<open>BranchGraph\<close> yields (\<open>harness/conversation/branch.py\<close>): the closed form of a
  strict graph, the agreement of the strict and the compatible mode, and the repair that the latter
  makes.
\<close>

section \<open>Children\<close>

lemma update_map_keys:
  "distinct ks \<Longrightarrow> k \<in> set ks \<Longrightarrow> AList.update k v (map (\<lambda>x. (x, f x)) ks) = map (\<lambda>x. (x, (f(k := v)) x)) ks"
  by (induction ks) auto

lemma map_of_map_keys: "map_of (map (\<lambda>x. (x, f x)) ks) k = (if k \<in> set ks then Some (f k) else None)"
  by (induction ks) auto

lemma add_child_map:
  assumes "distinct ks"
  shows "add_child (c, p) (map (\<lambda>k. (k, f k)) ks) = map (\<lambda>k. (k, f k @ (if p = Some k then [c] else []))) ks"
proof (cases p)
  case None
  then show ?thesis by (simp add: add_child_def)
next
  case (Some q)
  then show ?thesis
    using assms by (cases "q \<in> set ks") (auto simp: add_child_def map_of_map_keys update_map_keys)
qed

lemma add_children_map:
  assumes "distinct ks"
  shows "fold add_child ls (map (\<lambda>k. (k, f k)) ks) =
    map (\<lambda>k. (k, f k @ map fst (filter (\<lambda>(c, p). p = Some k) ls))) ks"
proof (induction ls arbitrary: f)
  case Nil
  then show ?case by simp
next
  case (Cons l ls)
  obtain c p where l: "l = (c, p)" by fastforce
  show ?case unfolding l by (simp add: add_child_map [OF assms] Cons.IH)
qed

lemma build_children_map:
  assumes "distinct order"
  shows "build_children order parents = map (\<lambda>k. (k, filter (\<lambda>c. parent_of parents c = Some k) order)) order"
proof -
  have "build_children order parents =
      fold add_child (map (\<lambda>k. (k, parent_of parents k)) order) (map (\<lambda>k. (k, [])) order)"
    by (simp add: build_children_def fold_map comp_def)
  also have "\<dots> = map (\<lambda>k. (k, filter (\<lambda>c. parent_of parents c = Some k) order)) order"
    by (simp add: add_children_map [OF assms] filter_map comp_def)
  finally show ?thesis .
qed

section \<open>The strict graph\<close>

text \<open>The dictionary of the records by id, and the graph that strict validation builds.\<close>

abbreviation by_key :: "('r \<Rightarrow> string) \<Rightarrow> 'r list \<Rightarrow> (string \<times> 'r) list" where
  "by_key rid rs \<equiv> map (\<lambda>r. (rid r, r)) rs"

abbreviation by_parent :: "('r \<Rightarrow> string) \<Rightarrow> ('r \<Rightarrow> string option) \<Rightarrow> 'r list \<Rightarrow> (string \<times> string option) list" where
  "by_parent rid pid rs \<equiv> map (\<lambda>r. (rid r, pid r)) rs"

lemma map_of_by: "distinct (map rid rs) \<Longrightarrow> r \<in> set rs \<Longrightarrow> map_of (map (\<lambda>r. (rid r, f r)) rs) (rid r) = Some (f r)"
  by (rule map_of_is_SomeI) (auto simp: comp_def)

lemma parent_of_by_parent:
  "distinct (map rid rs) \<Longrightarrow> r \<in> set rs \<Longrightarrow> parent_of (by_parent rid pid rs) (rid r) = pid r"
  by (simp add: parent_of_def map_of_by)

text \<open>What strict validation asks of the ids and of the parents, in the order it asks it.\<close>

definition ids_ok :: "('r \<Rightarrow> string) \<Rightarrow> 'r list \<Rightarrow> bool" where
  "ids_ok rid rs \<longleftrightarrow> (\<forall>r \<in> set rs. rid r \<noteq> []) \<and> distinct (map rid rs)"

definition parents_ok :: "('r \<Rightarrow> string) \<Rightarrow> ('r \<Rightarrow> string option) \<Rightarrow> string set \<Rightarrow> 'r list \<Rightarrow> bool" where
  "parents_ok rid pid ids rs \<longleftrightarrow> (\<forall>r \<in> set rs. \<forall>p. pid r = Some p \<longrightarrow> p \<noteq> rid r \<and> p \<in> ids)"

lemma update_fresh: "k \<notin> set (keys d) \<Longrightarrow> AList.update k v d = d @ [(k, v)]"
  by (induction d) auto

lemma lookup_step_strict:
  assumes "ids_ok rid rs"
  shows "lookup_step True rid ([], by_key rid rs, zip (map rid rs) [0..<length rs]) (length rs, r) =
    (if rid r = [] then Inl (BranchGraphError ''invalid_branch_record_id'' (rid r))
     else if rid r \<in> rid ` set rs then Inl (BranchGraphError ''duplicate_branch_record_id'' (rid r))
     else Inr ([], by_key rid (rs @ [r]), zip (map rid (rs @ [r])) [0..<length (rs @ [r])]))"
  by (auto simp: lookup_step_def Let_def branch_problem_def update_fresh comp_def)

lemma build_lookup_snoc:
  "build_lookup strict rid (rs @ [r]) = rbind (build_lookup strict rid rs) (\<lambda>s. lookup_step strict rid s (length rs, r))"
  by (simp add: build_lookup_def enumerate_append_eq rfold_append enumerate_eq_zip rbind_Inr_right)

lemma build_lookup_strict:
  "build_lookup True rid rs = Inr l \<longleftrightarrow>
     ids_ok rid rs \<and> l = ([], by_key rid rs, zip (map rid rs) [0..<length rs])"
proof (induction rs arbitrary: l rule: rev_induct)
  case Nil
  then show ?case by (auto simp: build_lookup_def ids_ok_def)
next
  case (snoc r rs)
  have "ids_ok rid (rs @ [r]) \<longleftrightarrow> ids_ok rid rs \<and> rid r \<noteq> [] \<and> rid r \<notin> rid ` set rs"
    by (auto simp: ids_ok_def)
  then show ?case
    by (auto simp: build_lookup_snoc rbind_Inr_iff snoc.IH lookup_step_strict split: if_splits)
qed

lemma order_of_zip: "distinct ks \<Longrightarrow> map fst (sort_key snd (zip ks [0..<length ks])) = ks"
  by (simp add: sort_key_id_if_sorted)

lemma parent_step_strict:
  assumes "ids_ok rid rs" and "r \<in> set rs" and "rid r \<notin> set (keys parents)"
  shows "parent_step True pid (by_key rid rs) (d, parents) (rid r) =
    (case pid r of
       None \<Rightarrow> Inr (d, parents @ [(rid r, None)])
     | Some p \<Rightarrow>
         if p = rid r then Inl (BranchGraphError ''self_parent_branch_record'' (rid r))
         else if p \<notin> rid ` set rs then Inl (BranchGraphError ''dangling_branch_parent'' (rid r))
         else Inr (d, parents @ [(rid r, Some p)]))"
proof -
  have "map_of (by_key rid rs) (rid r) = Some r"
    using assms(1,2) map_of_by [of rid rs r "\<lambda>r. r"] by (simp add: ids_ok_def)
  then show ?thesis
    using assms(3) by (simp add: parent_step_def branch_problem_def update_fresh comp_def split: option.split)
qed

text \<open>The strict loops succeed exactly on what they ask for.\<close>

lemma parent_steps_strict:
  assumes "ids_ok rid rs" and "set ns \<subseteq> set rs" and "distinct (map rid (os @ ns))"
  shows "rfold (parent_step True pid (by_key rid rs)) (d, by_parent rid pid os) (map rid ns) = Inr s \<longleftrightarrow>
    parents_ok rid pid (rid ` set rs) ns \<and> s = (d, by_parent rid pid (os @ ns))"
  using assms(2,3)
proof (induction ns arbitrary: s rule: rev_induct)
  case Nil
  then show ?case by (auto simp: parents_ok_def)
next
  case (snoc n ns)
  have IH: "rfold (parent_step True pid (by_key rid rs)) (d, by_parent rid pid os) (map rid ns) = Inr s \<longleftrightarrow>
      parents_ok rid pid (rid ` set rs) ns \<and> s = (d, by_parent rid pid (os @ ns))" for s
    using snoc.prems by (intro snoc.IH) auto
  have n: "n \<in> set rs" "rid n \<notin> set (keys (by_parent rid pid (os @ ns)))"
    using snoc.prems by (auto simp: comp_def)
  show ?case
    using parent_step_strict [OF assms(1) n, of pid d]
    by (auto simp: rfold_snoc rbind_Inr_iff IH parents_ok_def split: option.splits if_splits)
qed

lemma cut_cycles_strict:
  "cut_cycles True order d parents =
     (case find_cycle parents [] order of
        None \<Rightarrow> Inr (d, parents)
      | Some cycle \<Rightarrow> Inl (BranchGraphError ''branch_parent_cycle'' (hd cycle)))"
  by (simp add: cut_cycles.simps [of True] branch_problem_def split: option.split)

text \<open>A forest: ids that are not empty and not repeated, parents that exist, and no cycle.\<close>

definition is_forest :: "('r \<Rightarrow> string) \<Rightarrow> ('r \<Rightarrow> string option) \<Rightarrow> 'r list \<Rightarrow> bool" where
  "is_forest rid pid rs \<longleftrightarrow>
     (\<forall>r \<in> set rs. rid r \<noteq> []) \<and> distinct (map rid rs) \<and>
     (\<forall>r \<in> set rs. \<forall>p. pid r = Some p \<longrightarrow> p \<in> rid ` set rs) \<and>
     (\<forall>k. rooted (by_parent rid pid rs) k)"

definition strict_graph :: "('r \<Rightarrow> string) \<Rightarrow> ('r \<Rightarrow> string option) \<Rightarrow> 'r list \<Rightarrow> 'r branch_graph" where
  "strict_graph rid pid rs =
     \<lparr>bg_records = rs, bg_strict = True, bg_diagnostics = [], bg_by_id = by_key rid rs,
      bg_source_order = map rid rs, bg_parents = by_parent rid pid rs,
      bg_children = map (\<lambda>r. (rid r, map rid (filter (\<lambda>c. pid c = Some (rid r)) rs))) rs, bg_path_cache = None\<rparr>"

lemma forest_parents_ok: "is_forest rid pid rs \<Longrightarrow> parents_ok rid pid (rid ` set rs) rs"
  unfolding is_forest_def parents_ok_def
proof (intro ballI allI impI conjI; elim conjE)
  fix r p
  assume r: "r \<in> set rs" "pid r = Some p" "distinct (map rid rs)" and "\<forall>k. rooted (by_parent rid pid rs) k"
  then have "(rid r, p) \<in> links (by_parent rid pid rs)" "(rid r, rid r) \<notin> (links (by_parent rid pid rs))\<^sup>+"
    by (auto simp: parent_of_by_parent dest: rooted_acyclic)
  then show "p \<noteq> rid r" by auto
qed auto

lemma branch_graph_strict:
  "branch_graph rid pid True rs = Inr g \<longleftrightarrow> is_forest rid pid rs \<and> g = strict_graph rid pid rs"
proof (cases "ids_ok rid rs")
  case False
  then show ?thesis
    using build_lookup_strict [of rid rs] by (auto simp: branch_graph_def rbind_Inr_iff ids_ok_def is_forest_def)
next
  case True
  then have lookup: "build_lookup True rid rs = Inr ([], by_key rid rs, zip (map rid rs) [0..<length rs])"
    and ids: "distinct (map rid rs)" by (simp_all add: build_lookup_strict ids_ok_def)
  have order: "map fst (sort_key snd (zip (map rid rs) [0..<length rs])) = map rid rs"
    using order_of_zip [OF ids] by simp
  have steps: "rfold (parent_step True pid (by_key rid rs)) ([], []) (map rid rs) = Inr s \<longleftrightarrow>
      parents_ok rid pid (rid ` set rs) rs \<and> s = ([], by_parent rid pid rs)" for s
    using parent_steps_strict [OF True, of rs "[]"] ids by simp
  have cycles: "find_cycle (by_parent rid pid rs) [] (map rid rs) = None \<longleftrightarrow> (\<forall>k. rooted (by_parent rid pid rs) k)"
    by (rule find_cycle_iff) (simp add: comp_def)
  have children: "build_children (map rid rs) (by_parent rid pid rs) =
      map (\<lambda>r. (rid r, map rid (filter (\<lambda>c. pid c = Some (rid r)) rs))) rs"
    using ids by (auto simp: build_children_map filter_map comp_def parent_of_by_parent
      intro!: map_cong arg_cong [where f = "map rid"] filter_cong)
  have forest: "is_forest rid pid rs \<longleftrightarrow>
      parents_ok rid pid (rid ` set rs) rs \<and> (\<forall>k. rooted (by_parent rid pid rs) k)"
  proof (rule iffI)
    assume forest: "is_forest rid pid rs"
    then show "parents_ok rid pid (rid ` set rs) rs \<and> (\<forall>k. rooted (by_parent rid pid rs) k)"
      using forest_parents_ok [OF forest] by (simp add: is_forest_def)
  next
    assume "parents_ok rid pid (rid ` set rs) rs \<and> (\<forall>k. rooted (by_parent rid pid rs) k)"
    then show "is_forest rid pid rs" using True by (simp add: is_forest_def ids_ok_def parents_ok_def)
  qed
  have "normalize_parents True pid (by_key rid rs) (map rid rs) [] = Inr s \<longleftrightarrow>
      is_forest rid pid rs \<and> s = ([], by_parent rid pid rs)" for s
  proof -
    have "normalize_parents True pid (by_key rid rs) (map rid rs) [] = Inr s \<longleftrightarrow>
        parents_ok rid pid (rid ` set rs) rs \<and>
        cut_cycles True (map rid rs) [] (by_parent rid pid rs) = Inr s"
      by (auto simp: normalize_parents_def rbind_Inr_iff steps)
    also have "\<dots> \<longleftrightarrow> parents_ok rid pid (rid ` set rs) rs \<and> find_cycle (by_parent rid pid rs) [] (map rid rs) = None \<and>
        s = ([], by_parent rid pid rs)"
      by (auto simp: cut_cycles_strict split: option.splits)
    finally show ?thesis unfolding cycles forest by simp
  qed
  then show ?thesis
    by (auto simp: branch_graph_def lookup order rbind_Inr_iff children strict_graph_def Let_def)
qed

end
