(* ===== verification/Branch_Modes.thy ===== *)
theory Branch_Modes
  imports Branch_Building
begin

text \<open>
  Strict and compatible construction of one list of records (\<open>harness/conversation/branch.py\<close>): what
  they have in common, and what holds of the graph that either yields.
\<close>

section \<open>The two modes\<close>

text \<open>
  A strict computation and a compatible one from the diagnostics \<open>d\<close> on: the compatible one yields a
  value and the problems \<open>n\<close>, the strict one raises the first of them or yields the same value.
\<close>

definition first_problem :: "(string \<times> string) list \<Rightarrow> 'a \<Rightarrow> branch_error + 'a" where
  "first_problem n v = (case n of [] \<Rightarrow> Inr v | (c, k) # _ \<Rightarrow> Inl (BranchGraphError c k))"

definition modes_agree ::
  "(string \<times> string) list \<Rightarrow> branch_error + (string \<times> string) list \<times> 'a \<Rightarrow> branch_error + (string \<times> string) list \<times> 'a \<Rightarrow> bool" where
  "modes_agree d strict compatible \<longleftrightarrow>
     (\<exists>n v. compatible = Inr (d @ n, v) \<and> strict = first_problem n (d @ n, v))"

lemma modes_agree_value: "modes_agree d (Inr (d, v)) (Inr (d, v))"
  by (auto simp: modes_agree_def first_problem_def intro!: exI [of _ "[]"])

lemma modes_agree_problem:
  "modes_agree d (rbind (branch_problem True c k d) (\<lambda>d. Inr (d, v))) (rbind (branch_problem False c k d) (\<lambda>d. Inr (d, v)))"
  by (auto simp: modes_agree_def first_problem_def branch_problem_def intro!: exI [of _ "[(c, k)]"])

lemma modes_agree_bind:
  assumes "modes_agree d ms mc" and "\<And>n v. modes_agree (d @ n) (fs (d @ n, v)) (fc (d @ n, v))"
  shows "modes_agree d (rbind ms fs) (rbind mc fc)"
proof -
  obtain n v where m: "mc = Inr (d @ n, v)" "ms = first_problem n (d @ n, v)"
    using assms(1) by (auto simp: modes_agree_def)
  obtain n' v' where f: "fc (d @ n, v) = Inr ((d @ n) @ n', v')" "fs (d @ n, v) = first_problem n' ((d @ n) @ n', v')"
    using assms(2) [of n v] by (auto simp: modes_agree_def)
  have "rbind mc fc = Inr (d @ n @ n', v')" using m(1) f(1) by simp
  moreover have "rbind ms fs = first_problem (n @ n') (d @ n @ n', v')"
    using m(2) f(2) by (cases n) (auto simp: first_problem_def)
  ultimately show ?thesis unfolding modes_agree_def by blast
qed

lemma modes_agree_rfold:
  assumes "\<And>d v x. modes_agree d (fs (d, v) x) (fc (d, v) x)"
  shows "modes_agree d (rfold fs (d, v) xs) (rfold fc (d, v) xs)"
proof (induction xs arbitrary: d v)
  case Nil
  then show ?case by (simp add: modes_agree_value)
next
  case (Cons x xs)
  show ?case unfolding rfold.simps by (rule modes_agree_bind [OF assms Cons.IH])
qed

lemma lookup_step_modes: "modes_agree d (lookup_step True rid (d, v) x) (lookup_step False rid (d, v) x)"
proof -
  obtain by_id positions position r where v: "v = (by_id, positions)" "x = (position, r)" by (cases v; cases x) blast
  show ?thesis
  proof (cases "rid r = []")
    case True
    then show ?thesis unfolding v by (simp add: lookup_step_def modes_agree_problem)
  next
    case False
    then show ?thesis unfolding v
      by (cases "rid r \<in> set (keys by_id)") (simp_all add: lookup_step_def Let_def modes_agree_problem modes_agree_value)
  qed
qed

lemma parent_step_modes:
  "modes_agree d (parent_step True pid by_id (d, v) k) (parent_step False pid by_id (d, v) k)"
  by (simp add: parent_step_def modes_agree_problem modes_agree_value split: option.split)

lemma cut_cycles_modes: "modes_agree d (cut_cycles True order d parents) (cut_cycles False order d parents)"
proof (induction False order d parents rule: cut_cycles.induct)
  case (1 order d parents)
  show ?case
  proof (cases "find_cycle parents [] order")
    case None
    then show ?thesis by (simp add: cut_cycles.simps modes_agree_value)
  next
    case (Some cycle)
    let ?problem = "(''branch_parent_cycle'', hd cycle)"
    have "modes_agree (d @ [?problem]) (cut_cycles True order (d @ [?problem]) (AList.update (hd cycle) None parents))
        (cut_cycles False order (d @ [?problem]) (AList.update (hd cycle) None parents))"
      using "1.hyps" [OF Some, of "d @ [?problem]"] by (simp add: branch_problem_def)
    then show ?thesis
      using Some by (auto simp: modes_agree_def cut_cycles.simps [of _ order d] branch_problem_def first_problem_def)
  qed
qed

lemma branch_graph_modes:
  "\<exists>g. branch_graph rid pid False rs = Inr g \<and> bg_strict g = False \<and> bg_records g = rs \<and> bg_path_cache g = None \<and>
     branch_graph rid pid True rs = first_problem (bg_diagnostics g) (g\<lparr>bg_strict := True\<rparr>)"
proof -
  let ?fields = "\<lambda>strict. rbind (build_lookup strict rid rs) (\<lambda>(d, by_id, positions).
     let order = map fst (sort_key snd positions) in
     rbind (normalize_parents strict pid by_id order d) (\<lambda>(d, parents).
     Inr (d, by_id, order, parents)))"
  have norm: "modes_agree d (normalize_parents True pid by_id order d) (normalize_parents False pid by_id order d)" for d by_id order
    unfolding normalize_parents_def
    by (rule modes_agree_bind) (simp_all add: modes_agree_rfold parent_step_modes cut_cycles_modes)
  have "modes_agree [] (?fields True) (?fields False)"
    unfolding build_lookup_def
    by (rule modes_agree_bind)
      (auto simp: Let_def split_beta intro!: modes_agree_rfold lookup_step_modes modes_agree_bind [OF norm] modes_agree_value)
  then obtain n v where v: "?fields False = Inr (n, v)" "?fields True = first_problem n (n, v)"
    by (auto simp: modes_agree_def)
  obtain by_id order parents where v_eq: "v = (by_id, order, parents)" by (cases v)
  let ?g = "\<lambda>strict. \<lparr>bg_records = rs, bg_strict = strict, bg_diagnostics = n, bg_by_id = by_id,
     bg_source_order = order, bg_parents = parents, bg_children = build_children order parents, bg_path_cache = None\<rparr>"
  have graph: "branch_graph rid pid strict rs = rbind (?fields strict) (\<lambda>(d, by_id, order, parents).
     Inr \<lparr>bg_records = rs, bg_strict = strict, bg_diagnostics = d, bg_by_id = by_id,
       bg_source_order = order, bg_parents = parents, bg_children = build_children order parents, bg_path_cache = None\<rparr>)" for strict
    by (auto simp: branch_graph_def rbind_def Let_def split: sum.split)
  have "branch_graph rid pid False rs = Inr (?g False)"
    unfolding graph v(1) v_eq by simp
  moreover have "branch_graph rid pid True rs = first_problem n (?g True)"
    unfolding graph v(2) v_eq by (cases n) (auto simp: first_problem_def)
  ultimately show ?thesis by (auto intro!: exI [of _ "?g False"])
qed


section \<open>Sound graphs\<close>

text \<open>
  What every constructed graph satisfies: ids are distinct and name their records, every link joins two
  of them, no link is on a cycle, and the lists of children mirror the links.
\<close>

definition graph_sound :: "('r \<Rightarrow> string) \<Rightarrow> 'r branch_graph \<Rightarrow> bool" where
  "graph_sound rid g \<longleftrightarrow>
     distinct (bg_source_order g) \<and>
     set (keys (bg_by_id g)) = set (bg_source_order g) \<and>
     set (keys (bg_parents g)) = set (bg_source_order g) \<and>
     (\<forall>k r. map_of (bg_by_id g) k = Some r \<longrightarrow> rid r = k \<and> r \<in> set (bg_records g)) \<and>
     (\<forall>k p. parent_of (bg_parents g) k = Some p \<longrightarrow> p \<in> set (bg_source_order g)) \<and>
     (\<forall>k. rooted (bg_parents g) k) \<and>
     bg_children g =
       map (\<lambda>k. (k, filter (\<lambda>c. parent_of (bg_parents g) c = Some k) (bg_source_order g))) (bg_source_order g)"

lemma build_lookup_compatible:
  "build_lookup False rid rs = Inr (d, by_id, positions) \<Longrightarrow>
     distinct (keys positions) \<and> set (keys positions) = set (keys by_id) \<and>
     map_of by_id = map_of (rev (by_key rid (filter (\<lambda>r. rid r \<noteq> []) rs)))"
proof (induction rs arbitrary: d by_id positions rule: rev_induct)
  case Nil
  then show ?case by (simp add: build_lookup_def)
next
  case (snoc r rs)
  obtain d' by_id' positions' where before: "build_lookup False rid rs = Inr (d', by_id', positions')"
    and step: "lookup_step False rid (d', by_id', positions') (length rs, r) = Inr (d, by_id, positions)"
    using snoc.prems by (auto simp: build_lookup_snoc rbind_Inr_iff)
  note IH = snoc.IH [OF before]
  show ?case
  proof (cases "rid r = []")
    case True
    then have "by_id = by_id' \<and> positions = positions'"
      using step by (simp add: lookup_step_def Let_def branch_problem_def)
    then show ?thesis using IH True by simp
  next
    case False
    then have "by_id = AList.update (rid r) r by_id' \<and> positions = AList.update (rid r) (length rs) positions'"
      using step by (auto simp: lookup_step_def Let_def branch_problem_def rbind_Inr_iff split: if_splits)
    then show ?thesis using IH False by (auto simp: keys_update fun_eq_iff)
  qed
qed

lemma parent_steps_compatible:
  "rfold (parent_step False pid by_id) (d, []) order = Inr (d', parents) \<Longrightarrow>
     set (keys parents) = set order \<and>
     (\<forall>k p. parent_of parents k = Some p \<longrightarrow>
        k \<in> set order \<and> p \<in> set (keys by_id) \<and> (\<exists>r. map_of by_id k = Some r \<and> pid r = Some p))"
proof (induction order arbitrary: d' parents rule: rev_induct)
  case Nil
  then show ?case by (simp add: parent_of_def)
next
  case (snoc k order)
  obtain d1 parents1 where before: "rfold (parent_step False pid by_id) (d, []) order = Inr (d1, parents1)"
    and step: "parent_step False pid by_id (d1, parents1) k = Inr (d', parents)"
    using snoc.prems by (auto simp: rfold_snoc rbind_Inr_iff)
  obtain v where parents: "parents = AList.update k v parents1"
    and v: "\<forall>p. v = Some p \<longrightarrow> p \<in> set (keys by_id) \<and> (\<exists>r. map_of by_id k = Some r \<and> pid r = Some p)"
    using step by (auto simp: parent_step_def branch_problem_def bind_eq_Some_conv split: option.splits if_splits)
  show ?case using snoc.IH [OF before] v by (auto simp: parents keys_update parent_of_update)
qed

lemma cut_cycles_compatible:
  assumes "cut_cycles strict order d parents = Inr (d', parents')" and "set (keys parents) \<subseteq> set order"
  shows "(\<forall>k. rooted parents' k) \<and> set (keys parents') = set (keys parents) \<and>
    (\<forall>k p. parent_of parents' k = Some p \<longrightarrow> parent_of parents k = Some p)"
  using assms
proof (induction strict order d parents rule: cut_cycles.induct)
  case (1 strict order d parents)
  show ?case
  proof (cases "find_cycle parents [] order")
    case None
    then show ?thesis using "1.prems" find_cycle_iff by (simp add: cut_cycles.simps)
  next
    case (Some cycle)
    let ?cut = "AList.update (hd cycle) None parents"
    obtain d1 where rest: "cut_cycles strict order d1 ?cut = Inr (d', parents')"
      using "1.prems"(1) Some by (auto simp: cut_cycles.simps [of strict order d parents] rbind_Inr_iff)
    have "hd cycle \<in> set (keys parents)"
      using find_cycle_links [OF Some] parent_of_key by (cases cycle) force+
    then have keys: "keys ?cut = keys parents" by (simp add: keys_update)
    have IH: "(\<forall>k. rooted parents' k) \<and> set (keys parents') = set (keys ?cut) \<and>
        (\<forall>k p. parent_of parents' k = Some p \<longrightarrow> parent_of ?cut k = Some p)"
      using "1.IH" [OF Some rest] "1.prems"(2) unfolding keys by blast
    moreover have "parent_of parents k = Some p" if "parent_of ?cut k = Some p" for k p
      using that by (simp add: parent_of_update split: if_splits)
    ultimately show ?thesis unfolding keys by blast
  qed
qed

lemma branch_graph_compatible:
  assumes "branch_graph rid pid False rs = Inr g"
  shows "graph_sound rid g"
    and "map_of (bg_by_id g) = map_of (rev (by_key rid (filter (\<lambda>r. rid r \<noteq> []) rs)))"
    and "parent_of (bg_parents g) k = Some p \<Longrightarrow> \<exists>r. map_of (bg_by_id g) k = Some r \<and> pid r = Some p"
proof -
  obtain d by_id positions where lookup: "build_lookup False rid rs = Inr (d, by_id, positions)"
    using assms by (auto simp: branch_graph_def rbind_Inr_iff)
  let ?order = "map fst (sort_key snd positions)"
  obtain d1 parents1 where steps: "rfold (parent_step False pid by_id) (d, []) ?order = Inr (d1, parents1)"
    using assms lookup by (auto simp: branch_graph_def rbind_Inr_iff normalize_parents_def Let_def)
  then obtain d2 parents where cut: "cut_cycles False ?order d1 parents1 = Inr (d2, parents)"
    and g: "g = \<lparr>bg_records = rs, bg_strict = False, bg_diagnostics = d2, bg_by_id = by_id, bg_source_order = ?order,
      bg_parents = parents, bg_children = build_children ?order parents, bg_path_cache = None\<rparr>"
    using assms lookup by (auto simp: branch_graph_def rbind_Inr_iff normalize_parents_def Let_def)
  note l = build_lookup_compatible [OF lookup]
  note s = parent_steps_compatible [OF steps]
  have c: "\<forall>k. rooted parents k" "set (keys parents) = set (keys parents1)"
    "\<And>k p. parent_of parents k = Some p \<Longrightarrow> parent_of parents1 k = Some p"
    using cut_cycles_compatible [OF cut] s by blast+
  have order: "distinct ?order" "set ?order = set (keys by_id)"
    using l by (auto simp: distinct_map)
  have named: "rid r = k \<and> r \<in> set rs" if "map_of by_id k = Some r" for k r
    using that l by (auto dest!: map_of_SomeD)
  show "graph_sound rid g"
    unfolding graph_sound_def g branch_graph.select_convs
  proof (intro conjI)
    show "\<forall>k p. parent_of parents k = Some p \<longrightarrow> p \<in> set ?order" using s c(3) order(2) by blast
    show "\<forall>k r. map_of by_id k = Some r \<longrightarrow> rid r = k \<and> r \<in> set rs" using named by blast
    show "set (keys parents) = set ?order" using c(2) s by simp
    show "\<forall>k. rooted parents k" by (rule c(1))
  qed (simp_all only: order c(1) build_children_map [OF order(1)] simp_thms)
  show "map_of (bg_by_id g) = map_of (rev (by_key rid (filter (\<lambda>r. rid r \<noteq> []) rs)))"
    using l g by simp
  show "parent_of (bg_parents g) k = Some p \<Longrightarrow> \<exists>r. map_of (bg_by_id g) k = Some r \<and> pid r = Some p"
    using s c g by auto
qed

lemma graph_sound_strict: "graph_sound rid (g\<lparr>bg_strict := b\<rparr>) \<longleftrightarrow> graph_sound rid g"
  "graph_sound rid (g\<lparr>bg_path_cache := c\<rparr>) \<longleftrightarrow> graph_sound rid g"
  by (simp_all add: graph_sound_def)

lemma branch_graph_sound:
  assumes "branch_graph rid pid strict rs = Inr g"
  shows "graph_sound rid g \<and> bg_strict g = strict \<and> bg_records g = rs \<and> bg_path_cache g = None"
proof -
  obtain h where h: "branch_graph rid pid False rs = Inr h" "bg_strict h = False" "bg_records h = rs"
    "bg_path_cache h = None" "branch_graph rid pid True rs = first_problem (bg_diagnostics h) (h\<lparr>bg_strict := True\<rparr>)"
    using branch_graph_modes [of rid pid rs] by auto
  note sound = branch_graph_compatible(1) [OF h(1)]
  show ?thesis
  proof (cases strict)
    case True
    then have "g = h\<lparr>bg_strict := True\<rparr>"
      using assms h(5) by (cases "bg_diagnostics h") (auto simp: first_problem_def)
    then show ?thesis using sound h True by (simp add: graph_sound_strict)
  next
    case False
    then have "g = h" using assms h(1) by simp
    then show ?thesis using sound h False by simp
  qed
qed

end
