(* ===== verification/Branch_Paths.thy ===== *)
theory Branch_Paths
  imports Branch_Modes "HOL-Library.Sublist"
begin

text \<open>
  The paths of a branch graph (\<open>harness/conversation/branch.py\<close>, \<open>BranchGraph.path\<close> and the methods
  that read it): the lineage of a record is its specification, and the cached path never shows.
\<close>

section \<open>Lineages\<close>

text \<open>The ids from a record up to its root.\<close>

fun lineage :: "(string \<times> string option) list \<Rightarrow> string list \<Rightarrow> bool" where
  "lineage parents [] \<longleftrightarrow> False"
| "lineage parents [k] \<longleftrightarrow> parent_of parents k = None"
| "lineage parents (k # p # ks) \<longleftrightarrow> parent_of parents k = Some p \<and> lineage parents (p # ks)"

lemma lineage_Cons:
  "lineage parents (k # ks) \<longleftrightarrow>
     (case ks of [] \<Rightarrow> parent_of parents k = None | p # _ \<Rightarrow> parent_of parents k = Some p \<and> lineage parents ks)"
  by (cases ks) simp_all

lemma lineage_exists: "rooted parents k \<Longrightarrow> \<exists>ks. lineage parents (k # ks)"
proof (induction rule: rooted.induct)
  case (root k)
  then show ?case by (intro exI [of _ "[]"]) simp
next
  case (link k p)
  then obtain ks where "lineage parents (p # ks)" by blast
  then show ?case using link.hyps by (intro exI [of _ "p # ks"]) simp
qed

lemma lineage_unique: "lineage parents (k # ks) \<Longrightarrow> lineage parents (k # ks') \<Longrightarrow> ks = ks'"
proof (induction ks arbitrary: k ks')
  case Nil
  then show ?case by (cases ks') auto
next
  case (Cons p ks)
  then show ?case by (cases ks') auto
qed

lemma lineage_suffix: "lineage parents (xs @ k # ks) \<Longrightarrow> lineage parents (k # ks)"
proof (induction xs)
  case Nil
  then show ?case by simp
next
  case (Cons x xs)
  then show ?case by (cases xs) auto
qed

lemma lineage_reaches: "lineage parents (k # ks) \<Longrightarrow> x \<in> set (k # ks) \<longleftrightarrow> (k, x) \<in> (links parents)\<^sup>*"
proof (induction ks arbitrary: k)
  case Nil
  have "y = k" if "(k, y) \<in> (links parents)\<^sup>*" for y
    using that by (cases rule: converse_rtranclE) (use Nil in auto)
  then show ?case by auto
next
  case (Cons p ks)
  then have p: "parent_of parents k = Some p" and rest: "x \<in> set (p # ks) \<longleftrightarrow> (p, x) \<in> (links parents)\<^sup>*" by auto
  have "(k, x) \<in> (links parents)\<^sup>* \<longleftrightarrow> x = k \<or> (p, x) \<in> (links parents)\<^sup>*"
  proof
    assume "(k, x) \<in> (links parents)\<^sup>*"
    then show "x = k \<or> (p, x) \<in> (links parents)\<^sup>*"
      by (cases rule: converse_rtranclE) (use p in auto)
  next
    assume "x = k \<or> (p, x) \<in> (links parents)\<^sup>*"
    then show "(k, x) \<in> (links parents)\<^sup>*" using p by (auto intro: converse_rtrancl_into_rtrancl)
  qed
  then show ?case using rest by auto
qed

lemma lineage_distinct: "lineage parents (k # ks) \<Longrightarrow> rooted parents k \<Longrightarrow> distinct (k # ks)"
proof (induction ks arbitrary: k)
  case Nil
  then show ?case by simp
next
  case (Cons p ks)
  then have p: "parent_of parents k = Some p" "lineage parents (p # ks)" by auto
  then have "distinct (p # ks)" using Cons by (simp add: rooted_parent)
  moreover have "k \<notin> set (p # ks)"
  proof
    assume "k \<in> set (p # ks)"
    then have "(p, k) \<in> (links parents)\<^sup>*" using lineage_reaches [OF p(2)] by blast
    moreover have "(k, p) \<in> links parents" using p by simp
    ultimately have "(k, k) \<in> (links parents)\<^sup>+" by (metis rtrancl_into_trancl2)
    then show False using rooted_acyclic [OF Cons.prems(2)] by blast
  qed
  ultimately show ?case by simp
qed

lemma climb_lineage:
  "lineage parents (k # ks) \<Longrightarrow> distinct (ids @ k # ks) \<Longrightarrow> (\<forall>c. cached = Some c \<longrightarrow> c \<notin> set (k # ks)) \<Longrightarrow>
     climb parents cached ids (Some k) = (ids @ k # ks, False)"
proof (induction ks arbitrary: k ids)
  case Nil
  then show ?case by auto
next
  case (Cons p ks)
  then have "climb parents cached (ids @ [k]) (Some p) = ((ids @ [k]) @ p # ks, False)"
    by (intro Cons.IH) auto
  moreover have "parent_of parents k = Some p" using Cons.prems by simp
  ultimately show ?case using Cons.prems by auto
qed

lemma climb_cached:
  "lineage parents (xs @ c # ks) \<Longrightarrow> distinct (ids @ xs @ c # ks) \<Longrightarrow>
     climb parents (Some c) ids (Some (hd (xs @ c # ks))) = (ids @ xs, True)"
proof (induction xs arbitrary: ids)
  case Nil
  then show ?case by simp
next
  case (Cons x xs)
  have "climb parents (Some c) (ids @ [x]) (Some (hd (xs @ c # ks))) = ((ids @ [x]) @ xs, True)"
    using Cons.prems by (intro Cons.IH) (cases xs, auto)+
  moreover have "parent_of parents x = Some (hd (xs @ c # ks))" using Cons.prems by (cases xs) auto
  ultimately show ?case using Cons.prems by auto
qed

text \<open>The root-to-record path, by its specification.\<close>

definition path_spec :: "'r branch_graph \<Rightarrow> string \<Rightarrow> 'r list \<Rightarrow> bool" where
  "path_spec g k rs \<longleftrightarrow>
     (\<exists>ks. lineage (bg_parents g) (k # ks) \<and> rs = map (\<lambda>i. the (map_of (bg_by_id g) i)) (rev (k # ks)))"

definition cache_ok :: "'r branch_graph \<Rightarrow> bool" where
  "cache_ok g \<longleftrightarrow> (\<forall>c rs. bg_path_cache g = Some (c, rs) \<longrightarrow> c \<in> set (bg_source_order g) \<and> path_spec g c rs)"

lemma path_spec_unique: "path_spec g k rs \<Longrightarrow> path_spec g k rs' \<Longrightarrow> rs = rs'"
  unfolding path_spec_def using lineage_unique by blast

lemma graph_path_correct:
  assumes "graph_sound rid g" and "cache_ok g" and "k \<in> set (bg_source_order g)"
  shows "\<exists>rs. path_spec g k rs \<and> graph_path g k = Inr (rs, g\<lparr>bg_path_cache := Some (k, rs)\<rparr>)"
proof -
  let ?ps = "bg_parents g" and ?rec = "\<lambda>i. the (map_of (bg_by_id g) i)"
  have rooted: "rooted ?ps k" and here: "k \<in> set (keys (bg_by_id g))"
    using assms(1,3) by (auto simp: graph_sound_def)
  obtain ks where ks: "lineage ?ps (k # ks)" using lineage_exists [OF rooted] by blast
  note distinct = lineage_distinct [OF ks rooted]
  let ?rs = "map ?rec (rev (k # ks))"
  have spec: "path_spec g k ?rs" using ks by (auto simp: path_spec_def)
  have "graph_path g k = Inr (?rs, g\<lparr>bg_path_cache := Some (k, ?rs)\<rparr>)"
  proof (cases "bg_path_cache g")
    case None
    then show ?thesis
      using climb_lineage [OF ks, of "[]" None] distinct here by (simp add: graph_path_def require_record_def Let_def)
  next
    case (Some entry)
    obtain c cs where c: "bg_path_cache g = Some (c, cs)" using Some by (cases entry) auto
    then have cached: "path_spec g c cs" using assms(2) by (simp add: cache_ok_def)
    show ?thesis
    proof (cases "c = k")
      case True
      then have "cs = ?rs" using path_spec_unique [OF cached] spec by simp
      then have "g\<lparr>bg_path_cache := Some (k, ?rs)\<rparr> = g" using c True by simp
      then show ?thesis using c True \<open>cs = ?rs\<close> here by (simp add: graph_path_def require_record_def Let_def)
    next
      case other: False
      show ?thesis
      proof (cases "c \<in> set (k # ks)")
        case True
        then obtain xs ys where split: "k # ks = xs @ c # ys" by (metis split_list)
        have "path_spec g c (map ?rec (rev (c # ys)))"
          using ks lineage_suffix [of ?ps xs c ys] by (auto simp: path_spec_def split)
        then have cs: "cs = map ?rec (rev (c # ys))" using path_spec_unique [OF cached] by blast
        have "climb ?ps (Some c) [] (Some k) = (xs, True)"
          using climb_cached [of ?ps xs c ys "[]"] ks distinct unfolding split [symmetric] by simp
        then show ?thesis using c other here cs unfolding split by (simp add: graph_path_def require_record_def Let_def)
      next
        case False
        then have "climb ?ps (Some c) [] (Some k) = (k # ks, False)"
          using climb_lineage [OF ks, of "[]" "Some c"] distinct by auto
        then show ?thesis using c other here by (simp add: graph_path_def require_record_def Let_def)
      qed
    qed
  qed
  then show ?thesis using spec by blast
qed

section \<open>Reading operations\<close>

lemma path_spec_cache [simp]: "path_spec (g\<lparr>bg_path_cache := c\<rparr>) k rs \<longleftrightarrow> path_spec g k rs"
  by (simp add: path_spec_def)

lemma cache_ok_update: "k \<in> set (bg_source_order g) \<Longrightarrow> path_spec g k rs \<Longrightarrow> cache_ok (g\<lparr>bg_path_cache := Some (k, rs)\<rparr>)"
  by (simp add: cache_ok_def)

lemma graph_path_missing: "graph_sound rid g \<Longrightarrow> k \<notin> set (bg_source_order g) \<Longrightarrow> graph_path g k = Inl (BranchRecordNotFound k)"
  by (simp add: graph_path_def require_record_def graph_sound_def)

lemma graph_path_Inr:
  assumes "graph_sound rid g" and "cache_ok g" and "graph_path g k = Inr (rs, g')"
  shows "k \<in> set (bg_source_order g)" and "path_spec g k rs" and "g' = g\<lparr>bg_path_cache := Some (k, rs)\<rparr>"
    and "graph_sound rid g'" and "cache_ok g'"
proof -
  show k: "k \<in> set (bg_source_order g)"
    using graph_path_missing [OF assms(1)] assms(3) by force
  show spec: "path_spec g k rs" and g': "g' = g\<lparr>bg_path_cache := Some (k, rs)\<rparr>"
    using graph_path_correct [OF assms(1,2) k] assms(3) by auto
  show "graph_sound rid g'" using assms(1) unfolding g' by (simp add: graph_sound_strict)
  show "cache_ok g'" unfolding g' by (rule cache_ok_update [OF k spec])
qed

text \<open>The ids of a path, for a sound graph.\<close>

lemma lineage_in_order:
  assumes "graph_sound rid g" and "lineage (bg_parents g) (k # ks)" and "k \<in> set (bg_source_order g)"
  shows "set (k # ks) \<subseteq> set (bg_source_order g)"
  using assms(2,3)
proof (induction ks arbitrary: k)
  case Nil
  then show ?case by simp
next
  case (Cons p ks)
  have "p \<in> set (bg_source_order g)" using assms(1) Cons.prems(1) unfolding graph_sound_def by auto
  then have "set (p # ks) \<subseteq> set (bg_source_order g)" using Cons.IH [of p] Cons.prems(1) by simp
  then show ?case using Cons.prems(2) by simp
qed

lemma sound_record:
  assumes "graph_sound rid g" and "k \<in> set (bg_source_order g)"
  shows "map_of (bg_by_id g) k = Some (the (map_of (bg_by_id g) k))" and "rid (the (map_of (bg_by_id g) k)) = k"
proof -
  have "k \<in> set (keys (bg_by_id g))" using assms by (simp add: graph_sound_def)
  then obtain r where r: "map_of (bg_by_id g) k = Some r" by (metis map_of_None_keys not_Some_eq)
  then show "map_of (bg_by_id g) k = Some (the (map_of (bg_by_id g) k))" by simp
  show "rid (the (map_of (bg_by_id g) k)) = k" using assms(1) r by (simp add: graph_sound_def)
qed

lemma path_ids:
  assumes "graph_sound rid g" and "path_spec g k rs" and "k \<in> set (bg_source_order g)"
  obtains ks where "lineage (bg_parents g) (k # ks)" and "map rid rs = rev (k # ks)"
proof -
  obtain ks where ks: "lineage (bg_parents g) (k # ks)" "rs = map (\<lambda>i. the (map_of (bg_by_id g) i)) (rev (k # ks))"
    using assms(2) by (auto simp: path_spec_def)
  have "\<forall>x \<in> set (k # ks). rid (the (map_of (bg_by_id g) x)) = x"
    using lineage_in_order [OF assms(1) ks(1) assms(3)] sound_record(2) [OF assms(1)] by blast
  then have "map rid rs = rev (k # ks)" unfolding ks(2) map_map by (intro map_idI) auto
  then show ?thesis using that ks(1) by blast
qed

section \<open>Common ancestors\<close>

lemma last_common_prefix:
  "last_common c ls rs = (let p = longest_common_prefix ls rs in if p = [] then c else Some (last p))"
  by (induction c ls rs rule: last_common.induct) (auto simp: Let_def)

text \<open>Two lineages agree from a common member on.\<close>

lemma lineages_join:
  assumes "lineage parents (k # ks)" and "lineage parents (l # ls)" and "a \<in> set (k # ks)" and "a \<in> set (l # ls)"
  shows "a \<in> set (longest_common_prefix (rev (k # ks)) (rev (l # ls)))"
proof -
  obtain xs ys where k: "k # ks = xs @ a # ys" using assms(3) by (metis split_list)
  obtain xs' ys' where l: "l # ls = xs' @ a # ys'" using assms(4) by (metis split_list)
  have "lineage parents (a # ys)" "lineage parents (a # ys')"
    using assms(1,2) lineage_suffix unfolding k l by blast+
  then have same: "ys = ys'" by (rule lineage_unique)
  have "prefix (rev ys @ [a]) (rev (k # ks))" "prefix (rev ys @ [a]) (rev (l # ls))"
    unfolding k l same by simp_all
  then have "prefix (rev ys @ [a]) (longest_common_prefix (rev (k # ks)) (rev (l # ls)))"
    by (rule longest_common_prefix_max_prefix)
  then show ?thesis by (auto simp: prefix_def)
qed

text \<open>The last member of the common prefix is the common ancestor that every other one is above.\<close>

lemma last_common_lineages:
  assumes "lineage parents (k # ks)" and "lineage parents (l # ls)"
  shows "(case last_common None (rev (k # ks)) (rev (l # ls)) of
      None \<Rightarrow> set (k # ks) \<inter> set (l # ls) = {}
    | Some c \<Rightarrow> c \<in> set (k # ks) \<and> c \<in> set (l # ls) \<and>
        (\<forall>a \<in> set (k # ks) \<inter> set (l # ls). (c, a) \<in> (links parents)\<^sup>*))"
proof -
  let ?p = "longest_common_prefix (rev (k # ks)) (rev (l # ls))"
  have join: "set (k # ks) \<inter> set (l # ls) \<subseteq> set ?p" using lineages_join [OF assms] by blast
  have prefixes: "prefix ?p (rev (k # ks))" "prefix ?p (rev (l # ls))"
    by (rule longest_common_prefix_prefix1, rule longest_common_prefix_prefix2)
  show ?thesis
  proof (cases "?p = []")
    case True
    then show ?thesis using join by (simp add: last_common_prefix)
  next
    case False
    let ?c = "last ?p"
    have members: "?c \<in> set (k # ks)" "?c \<in> set (l # ls)"
      using set_mono_prefix [OF prefixes(1)] set_mono_prefix [OF prefixes(2)] last_in_set [OF False] by auto
    obtain zs where "rev (k # ks) = ?p @ zs" using prefixes(1) by (auto simp: prefix_def)
    then have zs: "rev (k # ks) = (butlast ?p @ [?c]) @ zs" unfolding append_butlast_last_id [OF False] .
    then have "k # ks = rev zs @ ?c # rev (butlast ?p)" by (metis append_Cons append_Nil append_assoc rev_append rev_rev_ident rev_singleton_conv)
    then have "lineage parents (?c # rev (butlast ?p))" using assms(1) lineage_suffix by metis
    then have "(?c, a) \<in> (links parents)\<^sup>*" if "a \<in> set ?p" for a
      using lineage_reaches [of parents ?c "rev (butlast ?p)" a] that False
      by (metis append_butlast_last_id rev.simps(2) rev_rev_ident set_rev)
    then show ?thesis using False members join by (auto simp: last_common_prefix)
  qed
qed

end
