(* ===== verification/Branch_Appending.thy ===== *)
theory Branch_Appending
  imports Branch_Paths
begin

text \<open>
  The incremental extension of a strict graph (\<open>BranchGraph.with_appended_records\<close>,
  \<open>prepare_strict_append\<close> and \<open>publish_strict_append\<close> of \<open>harness/conversation/branch.py\<close>) against the
  construction from all the records.
\<close>

section \<open>Ids and parents\<close>

lemma admit_ids_lookup:
  assumes "ids_ok rid os" and "keys (bg_by_id g) = map rid os"
  shows "build_lookup True rid (os @ ns) =
      rbind (rfold (admit_ids rid g) [] ns) (\<lambda>_. Inr ([], by_key rid (os @ ns), zip (map rid (os @ ns)) [0..<length (os @ ns)]))"
    and "rfold (admit_ids rid g) [] ns = Inr added \<Longrightarrow> added = by_key rid ns \<and> ids_ok rid (os @ ns)"
proof (induction ns arbitrary: added rule: rev_induct)
  case Nil
  case 1
  then show ?case using assms(1) build_lookup_strict [of rid os] by simp
next
  case Nil
  case 2
  then show ?case using assms(1) by simp
next
  case (snoc n ns)
  have step: "admit_ids rid g (by_key rid ns) n =
      (if rid n = [] then Inl (BranchGraphError ''invalid_branch_record_id'' (rid n))
       else if rid n \<in> rid ` set (os @ ns) then Inl (BranchGraphError ''duplicate_branch_record_id'' (rid n))
       else Inr (by_key rid (ns @ [n])))"
    using assms(2) by (auto simp: admit_ids_def update_fresh comp_def image_Un)
  {
    case 1
    show ?case
    proof (cases "rfold (admit_ids rid g) [] ns")
      case (Inl e)
      then show ?thesis using snoc.IH(1) by (simp add: rfold_snoc build_lookup_snoc append_assoc [symmetric] del: append_assoc)
    next
      case (Inr added)
      then have ns: "added = by_key rid ns" "ids_ok rid (os @ ns)" using snoc.IH(2) by blast+
      show ?thesis
        using snoc.IH(1) Inr step lookup_step_strict [OF ns(2), of n]
        unfolding ns(1) append_assoc [symmetric] build_lookup_snoc rfold_snoc by simp
    qed
  next
    case 2
    then obtain before where before: "rfold (admit_ids rid g) [] ns = Inr before"
      and last: "admit_ids rid g before n = Inr added"
      by (auto simp: rfold_snoc rbind_Inr_iff)
    have ns: "before = by_key rid ns" "ids_ok rid (os @ ns)" using snoc.IH(2) [OF before] by blast+
    then show ?case using last step by (auto simp: ids_ok_def split: if_splits)
  }
qed

lemma admit_parents_normalize:
  assumes "ids_ok rid rs" and "set (os @ ns) \<subseteq> set rs" and "distinct (map rid (os @ ns))"
    and "set (keys (bg_by_id g)) \<union> set (keys added) = rid ` set rs"
  shows "rfold (parent_step True pid (by_key rid rs)) (d, by_parent rid pid os) (map rid ns) =
      rbind (rfold (admit_parent pid g added) [] (by_key rid ns)) (\<lambda>_. Inr (d, by_parent rid pid (os @ ns)))"
    and "rfold (admit_parent pid g added) [] (by_key rid ns) = Inr ps \<Longrightarrow> ps = by_parent rid pid ns"
  using assms(2,3)
proof (induction ns arbitrary: ps rule: rev_induct)
  case Nil
  case 1
  then show ?case by simp
next
  case Nil
  case 2
  then show ?case by simp
next
  case (snoc n ns)
  have here: "set (os @ ns) \<subseteq> set rs" "distinct (map rid (os @ ns))" if "set (os @ ns @ [n]) \<subseteq> set rs" "distinct (map rid (os @ ns @ [n]))"
    using that by auto
  have ids: "p \<in> set (keys (bg_by_id g)) \<or> p \<in> set (keys added) \<longleftrightarrow> p \<in> rid ` set rs" for p
    using assms(4) by blast
  have step: "admit_parent pid g added (by_parent rid pid ns) (rid n, n) =
      (case pid n of
         None \<Rightarrow> Inr (by_parent rid pid (ns @ [n]))
       | Some p \<Rightarrow>
           if p = rid n then Inl (BranchGraphError ''self_parent_branch_record'' (rid n))
           else if p \<notin> rid ` set rs then Inl (BranchGraphError ''dangling_branch_parent'' (rid n))
           else Inr (by_parent rid pid (ns @ [n])))"
    if "distinct (map rid (os @ ns @ [n]))"
    unfolding admit_parent_def ids using that by (auto simp: update_fresh comp_def split: option.split)
  {
    case 1
    have n: "n \<in> set rs" "rid n \<notin> set (keys (by_parent rid pid (os @ ns)))"
      using 1 by (auto simp: comp_def)
    show ?case
    proof (cases "rfold (admit_parent pid g added) [] (by_key rid ns)")
      case (Inl e)
      then show ?thesis using snoc.IH(1) here 1 by (simp add: rfold_snoc)
    next
      case (Inr ps)
      then have "ps = by_parent rid pid ns" using snoc.IH(2) here 1 by blast
      then show ?thesis
        using snoc.IH(1) [OF here] 1 Inr step parent_step_strict [OF assms(1) n, of pid d]
        by (auto simp: rfold_snoc split: option.split)
    qed
  next
    case 2
    then obtain before where before: "rfold (admit_parent pid g added) [] (by_key rid ns) = Inr before"
      and last: "admit_parent pid g added before (rid n, n) = Inr ps"
      by (auto simp: rfold_snoc rbind_Inr_iff)
    have "before = by_parent rid pid ns" using snoc.IH(2) [OF before] here 2(2,3) by blast
    then show ?case using last step 2(3) by (auto split: option.splits if_splits)
  }
qed

section \<open>Cycles\<close>

declare walk_up.simps(2) [simp del]

text \<open>The walk through new records only sees the links among them: an old record is visited already.\<close>

lemma walk_up_inner:
  assumes "\<forall>k. k \<notin> old \<longrightarrow> parent_of inner k = (case parent_of parents k of None \<Rightarrow> None | Some p \<Rightarrow> if p \<in> old then None else Some p)"
    and "set path \<inter> old = {}" and "set visited = set visited' \<union> old"
  shows "walk_up parents visited path current =
    walk_up inner visited' path (case current of None \<Rightarrow> None | Some k \<Rightarrow> if k \<in> old then None else Some k)"
  using assms
proof (induction parents visited path current rule: walk_up.induct)
  case (1 parents visited path)
  then show ?case by simp
next
  case (2 parents visited path k)
  have inner: "k \<notin> old \<Longrightarrow> parent_of inner k = (case parent_of parents k of None \<Rightarrow> None | Some p \<Rightarrow> if p \<in> old then None else Some p)"
    by (rule spec [OF "2.prems"(1), THEN mp])
  note step = walk_up.simps(2) [of parents visited path k] and step' = walk_up.simps(2) [of inner visited' path k]
  show ?case
  proof (cases "k \<in> old")
    case True
    then show ?thesis using "2.prems"(3) step by simp
  next
    case new: False
    then have seen: "k \<in> set visited \<longleftrightarrow> k \<in> set visited'" using "2.prems"(3) by simp
    show ?thesis
    proof (cases "k \<in> set visited \<or> k \<in> set path")
      case True
      then show ?thesis using new seen step step' by (cases "k \<in> set visited'") simp_all
    next
      case False
      then have "walk_up parents visited (path @ [k]) (parent_of parents k) =
          walk_up inner visited' (path @ [k]) (parent_of inner k)"
        using "2.IH" "2.prems" new unfolding inner [OF new] by simp
      then show ?thesis using new False seen step step' by simp
    qed
  qed
qed

lemma find_cycle_inner:
  assumes "\<forall>k. k \<notin> old \<longrightarrow> parent_of inner k = (case parent_of parents k of None \<Rightarrow> None | Some p \<Rightarrow> if p \<in> old then None else Some p)"
    and "set visited = set visited' \<union> old" and "set ks \<inter> old = {}"
  shows "find_cycle parents visited ks = find_cycle inner visited' ks"
  using assms(2,3)
proof (induction ks arbitrary: visited visited')
  case Nil
  then show ?case by simp
next
  case (Cons k ks)
  have k: "k \<notin> old" "k \<in> set visited \<longleftrightarrow> k \<in> set visited'" using Cons.prems by auto
  obtain found path where walk: "walk_up parents visited [] (Some k) = (found, path)" by fastforce
  have same: "walk_up inner visited' [] (Some k) = (found, path)"
    using walk_up_inner [OF assms(1), of "[]" visited visited' "Some k"] Cons.prems(1) k(1) walk by (simp)
  show ?case
  proof (cases "k \<in> set visited")
    case True
    then show ?thesis using Cons k by simp
  next
    case False
    have "find_cycle parents (path @ visited) ks = find_cycle inner (path @ visited') ks"
      using Cons.prems by (intro Cons.IH) auto
    then show ?thesis using False k(2) walk same by (simp split: option.split)
  qed
qed

text \<open>A search that starts with rooted records whose parents are among them goes on after them.\<close>

lemma walk_up_closed:
  assumes "walk_up parents visited path current = (found, path')"
    and "\<forall>k. current = Some k \<longrightarrow> k \<in> old" and "\<forall>k \<in> old. \<forall>p. parent_of parents k = Some p \<longrightarrow> p \<in> old"
    and "set path \<subseteq> old"
  shows "set path' \<subseteq> old"
  using assms
proof (induction parents visited path current rule: walk_up.induct)
  case (1 parents visited path)
  then show ?case by simp
next
  case (2 parents visited path k)
  note step = walk_up.simps(2) [of parents visited path k]
  show ?case
  proof (cases "k \<in> set visited \<or> k \<in> set path")
    case True
    then show ?thesis using "2.prems" step by (auto split: if_splits)
  next
    case False
    then show ?thesis using "2.IH" "2.prems" step by auto
  qed
qed

lemma find_cycle_closed:
  assumes "\<forall>k \<in> old. rooted parents k" and "\<forall>k \<in> old. \<forall>p. parent_of parents k = Some p \<longrightarrow> p \<in> old"
    and "set ks \<subseteq> old" and "set visited \<subseteq> old"
  shows "\<exists>visited'. set visited \<union> set ks \<subseteq> set visited' \<and> set visited' \<subseteq> old \<and>
    find_cycle parents visited (ks @ ms) = find_cycle parents visited' ms"
  using assms(3,4)
proof (induction ks arbitrary: visited)
  case Nil
  then show ?case by (intro exI [of _ visited]) simp
next
  case (Cons k ks)
  obtain found path where walk: "walk_up parents visited [] (Some k) = (found, path)" by fastforce
  have "rooted parents k" using assms(1) Cons.prems(1) by simp
  then have found: "found = None" using walk_up_rooted [of "Some k" parents "[]" visited] walk by (simp)
  show ?case
  proof (cases "k \<in> set visited")
    case True
    then show ?thesis using Cons by (simp add: insert_absorb)
  next
    case False
    have path: "set path \<subseteq> old" "k \<in> set path"
      using walk_up_closed [OF walk _ assms(2)] walk_up_start [OF walk False] Cons.prems(1) by auto
    obtain visited' where v: "set (path @ visited) \<union> set ks \<subseteq> set visited'" "set visited' \<subseteq> old"
      "find_cycle parents (path @ visited) (ks @ ms) = find_cycle parents visited' ms"
      using Cons.IH [of "path @ visited"] Cons.prems path(1) by auto
    then show ?thesis using path(2) False walk found by (intro exI [of _ visited']) (simp, blast)
  qed
qed

section \<open>Appending is building\<close>

lemma forest_ids_ok: "is_forest rid pid rs \<Longrightarrow> ids_ok rid rs"
  by (simp add: is_forest_def ids_ok_def)

lemma strict_graph_fields [simp]:
  "bg_records (strict_graph rid pid rs) = rs" "bg_strict (strict_graph rid pid rs)"
  "bg_by_id (strict_graph rid pid rs) = by_key rid rs" "bg_parents (strict_graph rid pid rs) = by_parent rid pid rs"
  "bg_source_order (strict_graph rid pid rs) = map rid rs"
  by (simp_all add: strict_graph_def)

text \<open>The search among the new records alone finds what the search in the whole graph finds.\<close>

lemma find_cycle_appended:
  assumes forest: "is_forest rid pid os" and ids: "ids_ok rid (os @ ns)"
    and parents: "parents_ok rid pid (rid ` set (os @ ns)) ns"
  shows "find_cycle (by_parent rid pid (os @ ns)) [] (map rid (os @ ns)) =
    find_cycle (inner_links (by_key rid ns) (by_parent rid pid ns)) [] (map rid ns)"
proof -
  let ?all = "by_parent rid pid (os @ ns)" and ?old = "rid ` set os"
  let ?inner = "inner_links (by_key rid ns) (by_parent rid pid ns)"
  have distinct: "distinct (map rid (os @ ns))" "distinct (map rid os)" "?old \<inter> rid ` set ns = {}"
    using ids by (auto simp: ids_ok_def)
  have old_parent: "parent_of ?all k = parent_of (by_parent rid pid os) k" if "k \<in> ?old" for k
    using that distinct(1,2) by (auto simp: parent_of_by_parent simp del: map_append)
  have closed: "\<forall>k \<in> ?old. \<forall>p. parent_of ?all k = Some p \<longrightarrow> p \<in> ?old"
    using forest distinct(1) by (auto simp: is_forest_def parent_of_by_parent simp del: map_append)
  have rooted_all: "k \<in> ?old \<longrightarrow> rooted ?all k" if "rooted (by_parent rid pid os) k" for k
    using that
  proof (induction rule: rooted.induct)
    case (root k)
    then show ?case using old_parent [of k] rooted.root [of ?all k] by auto
  next
    case (link k p)
    then show ?case using old_parent [of k] closed rooted.link [of ?all k p] by auto
  qed
  have rooted: "\<forall>k \<in> ?old. rooted ?all k" using forest rooted_all by (auto simp: is_forest_def)
  obtain visited where v: "set visited = ?old"
    and search: "find_cycle ?all [] (map rid os @ map rid ns) = find_cycle ?all visited (map rid ns)"
    using find_cycle_closed [OF rooted closed, of "map rid os" "[]" "map rid ns"] by auto
  have "find_cycle ?all visited (map rid ns) = find_cycle ?inner [] (map rid ns)"
  proof (rule find_cycle_inner [of ?old])
    show "set visited = set [] \<union> ?old" using v by simp
    show "set (map rid ns) \<inter> ?old = {}" using distinct(3) by auto
    show "\<forall>k. k \<notin> ?old \<longrightarrow> parent_of ?inner k =
        (case parent_of ?all k of None \<Rightarrow> None | Some p \<Rightarrow> if p \<in> ?old then None else Some p)"
    proof (intro allI impI)
      fix k
      assume k: "k \<notin> ?old"
      have inner: "?inner = map (\<lambda>r. (rid r, case pid r of None \<Rightarrow> None | Some q \<Rightarrow> if q \<in> rid ` set ns then Some q else None)) ns"
      proof -
        have "keys (by_key rid ns) = map rid ns" by simp
        then show ?thesis unfolding inner_links_def by (simp only: map_map comp_def split_beta fst_conv snd_conv set_map)
      qed
      show "parent_of ?inner k = (case parent_of ?all k of None \<Rightarrow> None | Some p \<Rightarrow> if p \<in> ?old then None else Some p)"
      proof (cases "k \<in> rid ` set ns")
        case False
        then have "parent_of ?all k = None" "parent_of ?inner k = None"
          using k by (auto simp: inner parent_of_def map_of_eq_None_iff split: option.split dest!: map_of_SomeD)
        then show ?thesis by simp
      next
        case True
        then obtain n where n: "n \<in> set ns" "k = rid n" by blast
        have "parent_of ?all k = pid n"
          using n distinct(1) by (auto simp: parent_of_by_parent simp del: map_append)
        moreover have "map_of ?inner k = Some (case pid n of None \<Rightarrow> None | Some q \<Rightarrow> if q \<in> rid ` set ns then Some q else None)"
          unfolding inner n(2) using distinct(1) by (intro map_of_by n(1)) simp
        moreover have "p \<in> ?old \<longleftrightarrow> p \<notin> rid ` set ns" if "pid n = Some p" for p
        proof -
          have "p \<in> ?old \<union> rid ` set ns" using parents n(1) that unfolding parents_ok_def by force
          then show ?thesis using distinct(3) by blast
        qed
        ultimately show ?thesis by (auto simp: parent_of_def split: option.split)
      qed
    qed
  qed
  then show ?thesis using search by simp
qed

definition with_cache :: "(string \<times> 'r list) option \<Rightarrow> 'r branch_graph \<Rightarrow> 'r branch_graph" where
  "with_cache c g = g\<lparr>bg_path_cache := c\<rparr>"

lemma with_cache_fields [simp]:
  "bg_records (with_cache c g) = bg_records g" "bg_strict (with_cache c g) = bg_strict g"
  "bg_by_id (with_cache c g) = bg_by_id g" "bg_parents (with_cache c g) = bg_parents g"
  "bg_source_order (with_cache c g) = bg_source_order g" "bg_children (with_cache c g) = bg_children g"
  "bg_path_cache (with_cache c g) = c" "bg_diagnostics (with_cache c g) = bg_diagnostics g"
  by (simp_all add: with_cache_def)

lemma extended_strict_graph:
  assumes "is_forest rid pid os" and "is_forest rid pid (os @ ns)"
  shows "extended_graph (with_cache c (strict_graph rid pid os))
      \<lparr>pa_source_count = n, pa_records = ns, pa_added = by_key rid ns, pa_parents = by_parent rid pid ns\<rparr> =
    with_cache c (strict_graph rid pid (os @ ns))"
proof -
  let ?kids = "\<lambda>rs r. map rid (filter (\<lambda>c. pid c = Some (rid r)) rs)"
  have ids: "distinct (map rid (os @ ns))" "rid ` set os \<inter> rid ` set ns = {}"
    using assms(2) by (auto simp: is_forest_def)
  have none: "?kids os n = []" if "n \<in> set ns" for n
  proof -
    have "pid o' \<noteq> Some (rid n)" if "o' \<in> set os" for o'
      using that assms(1) ids(2) \<open>n \<in> set ns\<close> unfolding is_forest_def by blast
    then show ?thesis by (simp add: filter_empty_conv)
  qed
  have "dict_merge (map (\<lambda>r. (rid r, ?kids os r)) os) (map (\<lambda>k. (k, [])) (keys (by_key rid ns))) =
      map (\<lambda>r. (rid r, ?kids os r)) os @ map (\<lambda>r. (rid r, [])) ns"
    using ids by (subst dict_merge_fresh) (auto simp: comp_def)
  also have "\<dots> = map (\<lambda>k. (k, map rid (filter (\<lambda>c. pid c = Some k) os))) (map rid (os @ ns))"
    using none by (simp add: comp_def)
  finally have kids: "dict_merge (map (\<lambda>r. (rid r, ?kids os r)) os) (map (\<lambda>k. (k, [])) (keys (by_key rid ns))) =
      map (\<lambda>k. (k, map rid (filter (\<lambda>c. pid c = Some k) os))) (map rid (os @ ns))" .
  have children: "fold add_child (by_parent rid pid ns)
        (map (\<lambda>k. (k, map rid (filter (\<lambda>c. pid c = Some k) os))) (map rid (os @ ns))) =
      map (\<lambda>r. (rid r, ?kids (os @ ns) r)) (os @ ns)"
    unfolding add_children_map [OF ids(1)] by (simp add: filter_map comp_def)
  have merges: "dict_merge (by_key rid os) (by_key rid ns) = by_key rid (os @ ns)"
      "dict_merge (by_parent rid pid os) (by_parent rid pid ns) = by_parent rid pid (os @ ns)"
    using ids by (subst dict_merge_fresh; force simp: comp_def)+
  show ?thesis
    using kids children merges by (simp add: extended_graph_def strict_graph_def with_cache_def comp_def)
qed

lemma appending_is_building:
  assumes "is_forest rid pid os"
  shows "with_appended_records rid pid (with_cache c (strict_graph rid pid os)) ns =
    rbind (branch_graph rid pid True (os @ ns)) (\<lambda>g. Inr (with_cache c g))"
proof -
  let ?g = "with_cache c (strict_graph rid pid os)"
  have keys: "keys (bg_by_id ?g) = map rid os" by simp
  note ids = admit_ids_lookup [OF forest_ids_ok [OF assms] keys, of ns]
  show ?thesis
  proof (cases "rfold (admit_ids rid ?g) [] ns")
    case (Inl e)
    then show ?thesis using ids(1)
      by (simp add: with_appended_records_def prepare_strict_append_def branch_graph_def)
  next
    case (Inr added)
    then have added: "added = by_key rid ns" and all_ids: "ids_ok rid (os @ ns)" using ids(2) by blast+
    let ?rs = "os @ ns"
    have lookup: "build_lookup True rid ?rs = Inr ([], by_key rid ?rs, zip (map rid ?rs) [0..<length ?rs])"
      using ids(1) Inr by simp
    have distinct: "distinct (map rid ?rs)" using all_ids by (simp add: ids_ok_def)
    have order: "map fst (sort_key snd (zip (map rid ?rs) [0..<length ?rs])) = map rid ?rs"
      using order_of_zip [OF distinct] by simp
    have graph: "branch_graph rid pid True ?rs =
        rbind (normalize_parents True pid (by_key rid ?rs) (map rid ?rs) []) (\<lambda>(d, parents).
        Inr \<lparr>bg_records = ?rs, bg_strict = True, bg_diagnostics = d, bg_by_id = by_key rid ?rs,
          bg_source_order = map rid ?rs, bg_parents = parents, bg_children = build_children (map rid ?rs) parents,
          bg_path_cache = None\<rparr>)"
      by (simp only: branch_graph_def lookup rbind_simps prod.case order Let_def)
    have olds: "parents_ok rid pid (rid ` set ?rs) os"
      using forest_parents_ok [OF assms] unfolding parents_ok_def by auto
    have "rfold (parent_step True pid (by_key rid ?rs)) ([], by_parent rid pid []) (map rid os) = Inr ([], by_parent rid pid os)"
      using parent_steps_strict [OF all_ids, of os "[]" pid "[]"] distinct olds by simp
    then have old_steps: "rfold (parent_step True pid (by_key rid ?rs)) ([], []) (map rid os) = Inr ([], by_parent rid pid os)"
      by simp
    have covers: "set (keys (bg_by_id ?g)) \<union> set (keys added) = rid ` set ?rs" unfolding added by (auto simp: comp_def)
    have within: "set ?rs \<subseteq> set ?rs" by (rule subset_refl)
    note news = admit_parents_normalize(1) [OF all_ids within distinct covers, of pid "[]"]
      admit_parents_normalize(2) [OF all_ids within distinct covers]
    have steps: "rfold (parent_step True pid (by_key rid ?rs)) ([], []) (map rid ?rs) =
        rbind (rfold (admit_parent pid ?g added) [] (by_key rid ns)) (\<lambda>_. Inr ([], by_parent rid pid ?rs))"
    proof -
      have "map rid ?rs = map rid os @ map rid ns" by (rule map_append)
      then show ?thesis by (simp only: rfold_append old_steps rbind_simps news(1))
    qed
    show ?thesis
    proof (cases "rfold (admit_parent pid ?g added) [] (by_key rid ns)")
      case (Inl e)
      then have "normalize_parents True pid (by_key rid ?rs) (map rid ?rs) [] = Inl e"
        unfolding normalize_parents_def steps by simp
      then show ?thesis using Inl \<open>rfold (admit_ids rid ?g) [] ns = Inr added\<close>
        by (simp add: with_appended_records_def prepare_strict_append_def graph added)
    next
      case (Inr ps)
      have ps: "ps = by_parent rid pid ns" by (rule news(2) [OF Inr])
      have normalize: "normalize_parents True pid (by_key rid ?rs) (map rid ?rs) [] =
          cut_cycles True (map rid ?rs) [] (by_parent rid pid ?rs)"
        unfolding normalize_parents_def steps Inr by simp
      have "rfold (parent_step True pid (by_key rid ?rs)) ([], by_parent rid pid os) (map rid ns) =
          Inr ([], by_parent rid pid ?rs)"
        unfolding news(1) Inr by simp
      then have parents: "parents_ok rid pid (rid ` set ?rs) ns"
        using parent_steps_strict [OF all_ids _ distinct, of pid "[]"] by auto
      have cycles: "find_cycle (inner_links added ps) [] (keys added) = find_cycle (by_parent rid pid ?rs) [] (map rid ?rs)"
        using find_cycle_appended [OF assms all_ids parents] unfolding added ps by (simp add: comp_def)
      have prepared: "prepare_strict_append rid pid ?g ns =
          (case find_cycle (by_parent rid pid ?rs) [] (map rid ?rs) of
            Some cycle \<Rightarrow> Inl (BranchGraphError ''branch_parent_cycle'' (hd cycle))
          | None \<Rightarrow> Inr \<lparr>pa_source_count = length os, pa_records = ns, pa_added = by_key rid ns, pa_parents = by_parent rid pid ns\<rparr>)"
        using \<open>rfold (admit_ids rid ?g) [] ns = Inr added\<close> Inr cycles
        unfolding prepare_strict_append_def added ps by (simp cong: option.case_cong)
      show ?thesis
      proof (cases "find_cycle (by_parent rid pid ?rs) [] (map rid ?rs)")
        case (Some cycle)
        then have "branch_graph rid pid True ?rs = Inl (BranchGraphError ''branch_parent_cycle'' (hd cycle))"
          unfolding graph normalize by (simp add: cut_cycles_strict)
        then show ?thesis using prepared Some by (simp add: with_appended_records_def)
      next
        case None
        moreover have "set (keys (by_parent rid pid ?rs)) \<subseteq> set (map rid ?rs)" by (auto simp: comp_def)
        ultimately have "\<forall>k. rooted (by_parent rid pid ?rs) k" using find_cycle_iff by blast
        then have forest: "is_forest rid pid ?rs"
          using all_ids parents olds by (auto simp: is_forest_def ids_ok_def parents_ok_def)
        then have "branch_graph rid pid True ?rs = Inr (strict_graph rid pid ?rs)" by (simp add: branch_graph_strict)
        then show ?thesis
          using prepared None extended_strict_graph [OF assms forest] by (simp add: with_appended_records_def)
      qed
    qed
  qed
qed

end
