(* ===== verification/Branch_Properties.thy ===== *)
theory Branch_Properties
  imports Branch_Appending
begin

text \<open>
  The properties of the branch graph (\<open>harness/conversation/branch.py\<close>). A graph is \<open>graph_ok\<close> when it
  is the one its records build, in its mode, up to a cached path that is right.
\<close>

section \<open>Graphs in use\<close>

definition graph_ok :: "('r \<Rightarrow> string) \<Rightarrow> ('r \<Rightarrow> string option) \<Rightarrow> 'r branch_graph \<Rightarrow> bool" where
  "graph_ok rid pid g \<longleftrightarrow>
     branch_graph rid pid (bg_strict g) (bg_records g) = Inr (with_cache None g) \<and> cache_ok g"

lemma with_cache_twice [simp]: "with_cache c (with_cache d g) = with_cache c g"
  by (simp add: with_cache_def)

lemma with_cache_same [simp]: "with_cache (bg_path_cache g) g = g"
  by (simp add: with_cache_def)

lemma with_cache_update: "with_cache c g = g\<lparr>bg_path_cache := c\<rparr>"
  by (simp add: with_cache_def)

lemma built_ok: "branch_graph rid pid strict rs = Inr g \<Longrightarrow> graph_ok rid pid g"
  using branch_graph_sound [of rid pid strict rs g] by (auto simp: graph_ok_def cache_ok_def with_cache_def)

lemma graph_ok_sound: "graph_ok rid pid g \<Longrightarrow> graph_sound rid g"
  using branch_graph_sound [of rid pid "bg_strict g" "bg_records g" "with_cache None g"]
  by (simp add: graph_ok_def with_cache_update graph_sound_strict)

lemma graph_ok_cached: "graph_ok rid pid g \<Longrightarrow> cache_ok (with_cache c g) \<Longrightarrow> graph_ok rid pid (with_cache c g)"
  by (simp add: graph_ok_def)

lemma graph_ok_strict:
  assumes "graph_ok rid pid g" and "bg_strict g"
  shows "is_forest rid pid (bg_records g)" and "g = with_cache (bg_path_cache g) (strict_graph rid pid (bg_records g))"
proof -
  have built: "is_forest rid pid (bg_records g) \<and> with_cache None g = strict_graph rid pid (bg_records g)"
    using assms by (simp add: graph_ok_def branch_graph_strict)
  then show "is_forest rid pid (bg_records g)" by blast
  have "with_cache (bg_path_cache g) (with_cache None g) = with_cache (bg_path_cache g) (strict_graph rid pid (bg_records g))"
    using built by simp
  then show "g = with_cache (bg_path_cache g) (strict_graph rid pid (bg_records g))" by simp
qed

text \<open>A path of a strict graph is a path of its extension.\<close>

lemma path_extends:
  assumes "is_forest rid pid os" and "is_forest rid pid (os @ ns)" and "k \<in> rid ` set os"
    and "path_spec (strict_graph rid pid os) k rs"
  shows "path_spec (strict_graph rid pid (os @ ns)) k rs"
proof -
  let ?old = "strict_graph rid pid os" and ?new = "strict_graph rid pid (os @ ns)"
  have sound: "graph_sound rid ?old"
    using branch_graph_sound [of rid pid True os ?old] assms(1) by (simp add: branch_graph_strict)
  have distinct: "distinct (map rid (os @ ns))" "distinct (map rid os)" using assms(2) by (auto simp: is_forest_def)
  have parent: "parent_of (bg_parents ?new) x = parent_of (bg_parents ?old) x"
    and entry: "map_of (bg_by_id ?new) x = map_of (bg_by_id ?old) x" if "x \<in> rid ` set os" for x
  proof -
    obtain r where r: "r \<in> set os" "r \<in> set (os @ ns)" "x = rid r" using \<open>x \<in> rid ` set os\<close> by auto
    show "parent_of (bg_parents ?new) x = parent_of (bg_parents ?old) x"
      unfolding r(3) strict_graph_fields parent_of_by_parent [OF distinct(1) r(2)] parent_of_by_parent [OF distinct(2) r(1)] ..
    show "map_of (bg_by_id ?new) x = map_of (bg_by_id ?old) x"
      unfolding r(3) strict_graph_fields map_of_by [OF distinct(1) r(2)] map_of_by [OF distinct(2) r(1)] ..
  qed
  obtain ks where ks: "lineage (bg_parents ?old) (k # ks)" "rs = map (\<lambda>i. the (map_of (bg_by_id ?old) i)) (rev (k # ks))"
    using assms(4) by (auto simp: path_spec_def)
  have members: "set (k # ks) \<subseteq> rid ` set os"
    using lineage_in_order [OF sound ks(1)] assms(3) by simp
  have "lineage (bg_parents ?new) (x # xs)" if "lineage (bg_parents ?old) (x # xs)" "set (x # xs) \<subseteq> rid ` set os" for x xs
    using that
  proof (induction xs arbitrary: x)
    case Nil
    then show ?case using parent [of x] by simp
  next
    case (Cons y xs)
    then show ?case using parent [of x] by simp
  qed
  then have "lineage (bg_parents ?new) (k # ks)" using ks(1) members by blast
  moreover have "rs = map (\<lambda>i. the (map_of (bg_by_id ?new) i)) (rev (k # ks))"
    unfolding ks(2) using members entry by (intro map_cong) auto
  ultimately show ?thesis unfolding path_spec_def by blast
qed

lemma append_ok:
  assumes ok: "graph_ok rid pid g"
  shows "with_appended_records rid pid g ns =
      rbind (branch_graph rid pid (bg_strict g) (bg_records g @ ns)) (\<lambda>h.
      Inr (if bg_strict g then with_cache (bg_path_cache g) h else h))"
    and "with_appended_records rid pid g ns = Inr g' \<Longrightarrow> graph_ok rid pid g'"
proof -
  show eq: "with_appended_records rid pid g ns =
      rbind (branch_graph rid pid (bg_strict g) (bg_records g @ ns)) (\<lambda>h.
      Inr (if bg_strict g then with_cache (bg_path_cache g) h else h))"
  proof (cases "bg_strict g")
    case True
    note g = graph_ok_strict [OF ok True]
    show ?thesis
      using appending_is_building [OF g(1), of "bg_path_cache g" ns] True unfolding g(2) [symmetric] by simp
  next
    case False
    then show ?thesis by (simp add: with_appended_records_def rbind_Inr_right)
  qed
  assume appended: "with_appended_records rid pid g ns = Inr g'"
  then obtain h where h: "branch_graph rid pid (bg_strict g) (bg_records g @ ns) = Inr h"
    and g': "g' = (if bg_strict g then with_cache (bg_path_cache g) h else h)"
    using eq by (auto simp: rbind_Inr_iff)
  show "graph_ok rid pid g'"
  proof (cases "bg_strict g")
    case False
    then show ?thesis using built_ok [OF h] g' by simp
  next
    case True
    note g = graph_ok_strict [OF ok True]
    have new: "is_forest rid pid (bg_records g @ ns)" "h = strict_graph rid pid (bg_records g @ ns)"
      using h True by (simp_all add: branch_graph_strict)
    have "path_spec h c rs" if "bg_path_cache g = Some (c, rs)" for c rs
    proof -
      have "cache_ok g" using ok by (simp add: graph_ok_def)
      then have old: "path_spec g c rs" "c \<in> set (bg_source_order g)" using that unfolding cache_ok_def by blast+
      then have path: "path_spec (strict_graph rid pid (bg_records g)) c rs"
        using g(2) by (metis path_spec_cache with_cache_update)
      moreover have "c \<in> rid ` set (bg_records g)"
        using old(2) g(2) by (metis list.set_map strict_graph_fields(5) with_cache_fields(5))
      ultimately show ?thesis using path_extends [OF g(1) new(1)] new(2) by simp
    qed
    moreover have "set (bg_source_order g) \<subseteq> set (bg_source_order h)"
      using g(2) new(2) by (metis list.set_map set_append strict_graph_fields(5) sup_ge1 image_Un with_cache_fields(5))
    ultimately have "cache_ok (with_cache (bg_path_cache g) h)"
      using ok by (auto simp: graph_ok_def cache_ok_def with_cache_update)
    then show ?thesis using graph_ok_cached [OF built_ok [OF h]] True g' by simp
  qed
qed

text \<open>What a read does to the graph: at most the cached path changes.\<close>

lemma path_ok:
  assumes "graph_ok rid pid g" and "graph_path g k = Inr (rs, g')"
  shows "graph_ok rid pid g'" and "path_spec g k rs" and "k \<in> set (bg_source_order g)" and "g' = with_cache (Some (k, rs)) g"
proof -
  have cached: "cache_ok g" using assms(1) by (simp add: graph_ok_def)
  note path = graph_path_Inr [OF graph_ok_sound [OF assms(1)] cached assms(2)]
  show "path_spec g k rs" "k \<in> set (bg_source_order g)" by (rule path)+
  show g': "g' = with_cache (Some (k, rs)) g" using path(3) by (simp add: with_cache_update)
  show "graph_ok rid pid g'" using graph_ok_cached [OF assms(1)] path(5) g' by simp
qed

lemma path_total:
  assumes "graph_ok rid pid g" and "k \<in> set (bg_source_order g)"
  obtains rs where "path_spec g k rs" and "graph_path g k = Inr (rs, with_cache (Some (k, rs)) g)"
  using graph_path_correct [OF graph_ok_sound [OF assms(1)] _ assms(2)] assms(1)
  by (auto simp: graph_ok_def with_cache_update)

lemma ancestors_ok: "graph_ok rid pid g \<Longrightarrow> graph_ancestors g k = Inr (rs, g') \<Longrightarrow> graph_ok rid pid g'"
  by (auto simp: graph_ancestors_def rbind_Inr_iff dest: path_ok(1))

lemma fork_ok: "graph_ok rid pid g \<Longrightarrow> make_fork_plan g k = Inr (plan, g') \<Longrightarrow> graph_ok rid pid g'"
  by (auto simp: make_fork_plan_def rbind_Inr_iff dest: path_ok(1))

lemma common_ancestor_ok:
  "graph_ok rid pid g \<Longrightarrow> lowest_common_ancestor rid g l r = Inr (a, g') \<Longrightarrow> graph_ok rid pid g'"
  by (auto simp: lowest_common_ancestor_def rbind_Inr_iff dest: path_ok(1))

lemma publish_appends:
  assumes "graph_ok rid pid g" and "prepare_strict_append rid pid g ns = Inr plan"
  shows "publish_strict_append g plan True = with_appended_records rid pid g ns"
  using assms(2)
  by (auto simp: prepare_strict_append_def publish_strict_append_def with_appended_records_def rbind_Inr_iff split: option.splits)

text \<open>Every graph a client can hold: built, appended to, published to, or read.\<close>

inductive graph_reachable :: "('r \<Rightarrow> string) \<Rightarrow> ('r \<Rightarrow> string option) \<Rightarrow> 'r branch_graph \<Rightarrow> bool" for rid pid where
  built: "branch_graph rid pid strict rs = Inr g \<Longrightarrow> graph_reachable rid pid g"
| appended: "graph_reachable rid pid g \<Longrightarrow> with_appended_records rid pid g ns = Inr g' \<Longrightarrow> graph_reachable rid pid g'"
| published: "graph_reachable rid pid g \<Longrightarrow> prepare_strict_append rid pid g ns = Inr plan \<Longrightarrow>
    publish_strict_append g plan True = Inr g' \<Longrightarrow> graph_reachable rid pid g'"
| path: "graph_reachable rid pid g \<Longrightarrow> graph_path g k = Inr (rs, g') \<Longrightarrow> graph_reachable rid pid g'"
| ancestors: "graph_reachable rid pid g \<Longrightarrow> graph_ancestors g k = Inr (rs, g') \<Longrightarrow> graph_reachable rid pid g'"
| fork: "graph_reachable rid pid g \<Longrightarrow> make_fork_plan g k = Inr (plan, g') \<Longrightarrow> graph_reachable rid pid g'"
| common: "graph_reachable rid pid g \<Longrightarrow> lowest_common_ancestor rid g l r = Inr (a, g') \<Longrightarrow> graph_reachable rid pid g'"

lemma graph_reachable_ok: "graph_reachable rid pid g \<Longrightarrow> graph_ok rid pid g"
proof (induction rule: graph_reachable.induct)
  case (published g ns plan g')
  then show ?case using publish_appends [of rid pid g ns plan] append_ok(2) [of rid pid g ns g'] by simp
qed (blast intro: built_ok append_ok(2) path_ok(1) ancestors_ok fork_ok common_ancestor_ok)+

text \<open>The record of a path, by position.\<close>

lemma path_records:
  assumes "graph_ok rid pid g" and "path_spec g k rs" and "k \<in> set (bg_source_order g)"
  shows "set rs \<subseteq> set (bg_records g)"
    and "\<exists>ks. map rid rs = rev (k # ks) \<and> lineage (bg_parents g) (k # ks) \<and> distinct (k # ks)"
proof -
  note sound = graph_ok_sound [OF assms(1)]
  obtain ks where ks: "lineage (bg_parents g) (k # ks)" "rs = map (\<lambda>i. the (map_of (bg_by_id g) i)) (rev (k # ks))"
    using assms(2) by (auto simp: path_spec_def)
  have "the (map_of (bg_by_id g) i) \<in> set (bg_records g)" if "i \<in> set (k # ks)" for i
  proof -
    have "i \<in> set (bg_source_order g)" using lineage_in_order [OF sound ks(1) assms(3)] that by blast
    then show ?thesis using sound_record(1) [OF sound, of i] sound unfolding graph_sound_def by blast
  qed
  then show "set rs \<subseteq> set (bg_records g)" unfolding ks(2) by auto
  have "rooted (bg_parents g) k" using sound by (simp add: graph_sound_def)
  then have "distinct (k # ks)" by (rule lineage_distinct [OF ks(1)])
  moreover obtain ks' where "lineage (bg_parents g) (k # ks')" "map rid rs = rev (k # ks')"
    using path_ids [OF sound assms(2,3)] by blast
  ultimately show "\<exists>ks. map rid rs = rev (k # ks) \<and> lineage (bg_parents g) (k # ks) \<and> distinct (k # ks)"
    using lineage_unique [OF ks(1)] ks(1) by blast
qed

lemma common_ancestor_correct:
  assumes ok: "graph_ok rid pid g" and l: "l \<in> set (bg_source_order g)" and r: "r \<in> set (bg_source_order g)"
  shows "\<exists>a g'. lowest_common_ancestor rid g l r = Inr (a, g') \<and>
    (case a of
       None \<Rightarrow> \<not> (\<exists>x. (l, x) \<in> (links (bg_parents g))\<^sup>* \<and> (r, x) \<in> (links (bg_parents g))\<^sup>*)
     | Some c \<Rightarrow> c \<in> set (bg_records g) \<and>
         (l, rid c) \<in> (links (bg_parents g))\<^sup>* \<and> (r, rid c) \<in> (links (bg_parents g))\<^sup>* \<and>
         (\<forall>x. (l, x) \<in> (links (bg_parents g))\<^sup>* \<longrightarrow> (r, x) \<in> (links (bg_parents g))\<^sup>* \<longrightarrow>
           (rid c, x) \<in> (links (bg_parents g))\<^sup>*))"
proof -
  note sound = graph_ok_sound [OF ok]
  obtain ls where ls: "path_spec g l ls" "graph_path g l = Inr (ls, with_cache (Some (l, ls)) g)"
    using path_total [OF ok l] .
  have ok1: "graph_ok rid pid (with_cache (Some (l, ls)) g)" by (rule path_ok(1) [OF ok ls(2)])
  obtain rs where rs: "path_spec (with_cache (Some (l, ls)) g) r rs"
    "graph_path (with_cache (Some (l, ls)) g) r = Inr (rs, with_cache (Some (r, rs)) g)"
    using path_total [OF ok1, of r] r by auto
  have spec: "path_spec g r rs" using rs(1) by (simp add: with_cache_update)
  obtain ks where ks: "lineage (bg_parents g) (l # ks)" "map rid ls = rev (l # ks)"
    using path_ids [OF sound ls(1) l] .
  obtain js where js: "lineage (bg_parents g) (r # js)" "map rid rs = rev (r # js)"
    using path_ids [OF sound spec r] .
  note reach = lineage_reaches [OF ks(1)] lineage_reaches [OF js(1)]
  let ?c = "last_common None (rev (l # ks)) (rev (r # js))"
  have lca: "lowest_common_ancestor rid g l r = Inr (Option.bind ?c (map_of (bg_by_id g)), with_cache (Some (r, rs)) g)"
    by (simp add: lowest_common_ancestor_def ls(2) rs(2) ks(2) js(2) del: rev.simps)
  show ?thesis
  proof (cases ?c)
    case None
    then have "set (l # ks) \<inter> set (r # js) = {}" using last_common_lineages [OF ks(1) js(1)] by simp
    then have "\<not> (\<exists>x. (l, x) \<in> (links (bg_parents g))\<^sup>* \<and> (r, x) \<in> (links (bg_parents g))\<^sup>*)"
      using reach by blast
    then show ?thesis unfolding lca None bind.simps
      by (intro exI [of _ None] exI [of _ "with_cache (Some (r, rs)) g"]) (simp del: not_ex)
  next
    case (Some c)
    then have c: "c \<in> set (l # ks)" "c \<in> set (r # js)"
      "\<forall>a \<in> set (l # ks) \<inter> set (r # js). (c, a) \<in> (links (bg_parents g))\<^sup>*"
      using last_common_lineages [OF ks(1) js(1)] by simp_all
    have order: "c \<in> set (bg_source_order g)" using lineage_in_order [OF sound ks(1) l] c(1) by blast
    obtain e where e: "map_of (bg_by_id g) c = Some e" "rid e = c"
      using sound_record [OF sound order] by metis
    have member: "e \<in> set (bg_records g)" using sound e(1) by (simp add: graph_sound_def)
    have "\<forall>x. (l, x) \<in> (links (bg_parents g))\<^sup>* \<longrightarrow> (r, x) \<in> (links (bg_parents g))\<^sup>* \<longrightarrow> (c, x) \<in> (links (bg_parents g))\<^sup>*"
      using c(3) reach by blast
    then show ?thesis unfolding lca Some bind.simps e(1)
      using c(1,2) reach e(2) member
      by (intro exI [of _ "Some e"] exI [of _ "with_cache (Some (r, rs)) g"]) simp
  qed
qed

section \<open>Sample\<close>

text \<open>A conversation of five records: a root, two branches and a record below the second.\<close>

abbreviation sample_rows :: "(string \<times> string option) list" where
  "sample_rows \<equiv> [(''a'', None), (''b'', Some ''a''), (''c'', Some ''a''), (''d'', Some ''c'')]"

definition sample_tree :: "(string \<times> string option) branch_graph" where
  "sample_tree = strict_graph fst snd sample_rows"

lemma sample_built: "branch_graph fst snd True sample_rows = Inr sample_tree"
  by code_simp

lemma sample_ok: "graph_ok fst snd sample_tree"
  by (rule built_ok [OF sample_built])

lemma sample_tree_reachable: "graph_reachable fst snd sample_tree"
  by (rule graph_reachable.built [OF sample_built])

section \<open>Properties\<close>

text \<open>
  Property C24. The strict construction raises unless the records form a forest (ids that are not empty
  and not repeated, parents that exist, no cycle), and on a forest it yields the graph whose
  dictionaries list the records in their order, with each record's children in that order.
\<close>

theorem strict_construction_is_validation:
  "branch_graph rid pid True rs = Inr g \<longleftrightarrow> is_forest rid pid rs \<and> g = strict_graph rid pid rs"
  by (rule branch_graph_strict)

text \<open>
  The compatible construction never raises and never loops: on any records it yields a
  graph whose links join its records without a cycle, with the last record of each id and no parent
  that the record does not name. The strict construction of the same records raises the first problem
  that the compatible one remembers, or yields the same graph when it remembers none.
\<close>

theorem compatible_construction_repairs:
  "\<exists>g. branch_graph rid pid False rs = Inr g \<and> graph_sound rid g \<and>
     map_of (bg_by_id g) = map_of (rev (map (\<lambda>r. (rid r, r)) (filter (\<lambda>r. rid r \<noteq> []) rs))) \<and>
     (\<forall>k p. parent_of (bg_parents g) k = Some p \<longrightarrow> (\<exists>r. map_of (bg_by_id g) k = Some r \<and> pid r = Some p)) \<and>
     branch_graph rid pid True rs = first_problem (bg_diagnostics g) (g\<lparr>bg_strict := True\<rparr>)"
proof -
  obtain g where g: "branch_graph rid pid False rs = Inr g"
    "branch_graph rid pid True rs = first_problem (bg_diagnostics g) (g\<lparr>bg_strict := True\<rparr>)"
    using branch_graph_modes [of rid pid rs] by blast
  show ?thesis using g branch_graph_compatible [OF g(1)] by blast
qed

text \<open>Two records that are each other's parent, one of them repeated, and one without a parent it names.\<close>

abbreviation broken_rows :: "(string \<times> string option) list" where
  "broken_rows \<equiv> [(''a'', None), (''b'', Some ''a''), (''a'', Some ''b''), (''c'', Some ''x'')]"

theorem compatible_construction_repairs_witness:
  "\<exists>g. branch_graph fst snd False broken_rows = Inr g \<and> graph_sound fst g \<and>
     bg_diagnostics g = [(''duplicate_branch_record_id'', ''a''), (''dangling_branch_parent'', ''c''),
       (''branch_parent_cycle'', ''b'')] \<and>
     branch_graph fst snd True broken_rows = Inl (BranchGraphError ''duplicate_branch_record_id'' ''a'')"
proof -
  obtain g where g: "branch_graph fst snd False broken_rows = Inr g" "graph_sound fst g"
    "branch_graph fst snd True broken_rows = first_problem (bg_diagnostics g) (g\<lparr>bg_strict := True\<rparr>)"
    using compatible_construction_repairs [of fst snd broken_rows] by blast
  have "(case branch_graph fst snd False broken_rows of Inl _ \<Rightarrow> [] | Inr g \<Rightarrow> bg_diagnostics g) =
      [(''duplicate_branch_record_id'', ''a''), (''dangling_branch_parent'', ''c''), (''branch_parent_cycle'', ''b'')]"
    by code_simp
  then show ?thesis using g by (simp add: first_problem_def)
qed

text \<open>
  Property C25. Extending a graph by records yields the graph, or the error, of the construction from all
  the records: the validation of the new links alone misses nothing, and the graph it extends keeps
  its cached path. Publishing a prepared append is the same extension.
\<close>

theorem appending_equals_rebuilding:
  assumes "graph_reachable rid pid g"
  shows "with_appended_records rid pid g ns =
      rbind (branch_graph rid pid (bg_strict g) (bg_records g @ ns)) (\<lambda>h.
      Inr (if bg_strict g then h\<lparr>bg_path_cache := bg_path_cache g\<rparr> else h)) \<and>
    (\<forall>plan. prepare_strict_append rid pid g ns = Inr plan \<longrightarrow>
      publish_strict_append g plan True = with_appended_records rid pid g ns)"
proof -
  note ok = graph_reachable_ok [OF assms]
  show ?thesis
    unfolding with_cache_update [symmetric] using append_ok(1) [OF ok, of ns] publish_appends [OF ok] by blast
qed

theorem appending_equals_rebuilding_witness:
  "with_appended_records fst snd sample_tree [(''e'', Some ''f''), (''f'', Some ''e'')] =
     Inl (BranchGraphError ''branch_parent_cycle'' ''e'') \<and>
   with_appended_records fst snd sample_tree [(''e'', Some ''d'')] = Inr (strict_graph fst snd (sample_rows @ [(''e'', Some ''d'')]))"
proof -
  have fields: "bg_strict sample_tree" "bg_records sample_tree = sample_rows" "bg_path_cache sample_tree = None"
    by (simp_all add: sample_tree_def strict_graph_def)
  note rebuilt = appending_equals_rebuilding [OF sample_tree_reachable, unfolded fields, simplified, THEN conjunct1]
  have "branch_graph fst snd True (sample_rows @ [(''e'', Some ''f''), (''f'', Some ''e'')]) =
      Inl (BranchGraphError ''branch_parent_cycle'' ''e'')" by code_simp
  moreover have "branch_graph fst snd True (sample_rows @ [(''e'', Some ''d'')]) =
      Inr (strict_graph fst snd (sample_rows @ [(''e'', Some ''d'')]))" by code_simp
  ultimately show ?thesis using rebuilt fields(1) by (simp add: strict_graph_def)
qed

text \<open>
  Property C26. However a graph was built, appended to, published to and read, its ids are distinct and
  name their records, its links are acyclic and stay within it, its child lists mirror its links, it
  is the graph its own records build, and its cached path is the path of the cached record.
\<close>

theorem graph_invariant:
  assumes "graph_reachable rid pid g"
  shows "graph_sound rid g \<and>
    branch_graph rid pid (bg_strict g) (bg_records g) = Inr (g\<lparr>bg_path_cache := None\<rparr>) \<and>
    (case bg_path_cache g of None \<Rightarrow> True | Some (k, rs) \<Rightarrow>
       \<exists>ks. lineage (bg_parents g) (k # ks) \<and> map rid rs = rev (k # ks))"
proof -
  note ok = graph_reachable_ok [OF assms]
  have "\<exists>ks. lineage (bg_parents g) (k # ks) \<and> map rid rs = rev (k # ks)" if "bg_path_cache g = Some (k, rs)" for k rs
    using ok that path_records(2) [OF ok, of k rs] unfolding graph_ok_def cache_ok_def by blast
  then show ?thesis using graph_ok_sound [OF ok] ok
    by (auto simp: graph_ok_def with_cache_update split: option.split)
qed

theorem graph_invariant_witness:
  "\<exists>g. graph_path sample_tree ''d'' = Inr ([(''a'', None), (''c'', Some ''a''), (''d'', Some ''c'')], g) \<and> graph_sound fst g \<and>
     bg_path_cache g = Some (''d'', [(''a'', None), (''c'', Some ''a''), (''d'', Some ''c'')])"
proof -
  let ?g = "sample_tree\<lparr>bg_path_cache := Some (''d'', [(''a'', None), (''c'', Some ''a''), (''d'', Some ''c'')])\<rparr>"
  have path: "graph_path sample_tree ''d'' = Inr ([(''a'', None), (''c'', Some ''a''), (''d'', Some ''c'')], ?g)"
    unfolding sample_tree_def by code_simp
  have "graph_sound fst ?g"
    using graph_invariant [OF graph_reachable.path [OF sample_tree_reachable path]] by blast
  then show ?thesis using path by (intro exI [of _ ?g]) simp
qed

text \<open>
  Reading the path of an id that the graph has yields the records from a root to it, each the
  parent of the next, without repetition, whatever path is cached; only the cache changes. Its
  ancestors are that path without its last record, a fork plan is that path, and an id that the graph
  has not is refused by each.
\<close>

theorem path_is_lineage:
  assumes "graph_reachable rid pid g"
  shows "if k \<in> set (keys (bg_by_id g)) then
      \<exists>rs ks. graph_path g k = Inr (rs, g\<lparr>bg_path_cache := Some (k, rs)\<rparr>) \<and>
        graph_ancestors g k = Inr (butlast rs, g\<lparr>bg_path_cache := Some (k, rs)\<rparr>) \<and>
        make_fork_plan g k = Inr (\<lparr>fp_selected_id = k, fp_records = rs\<rparr>, g\<lparr>bg_path_cache := Some (k, rs)\<rparr>) \<and>
        set rs \<subseteq> set (bg_records g) \<and> map rid rs = rev (k # ks) \<and> lineage (bg_parents g) (k # ks) \<and> distinct (k # ks)
    else graph_path g k = Inl (BranchRecordNotFound k) \<and> graph_ancestors g k = Inl (BranchRecordNotFound k) \<and>
      make_fork_plan g k = Inl (BranchRecordNotFound k)"
proof (cases "k \<in> set (keys (bg_by_id g))")
  case False
  then show ?thesis by (simp add: graph_path_def graph_ancestors_def make_fork_plan_def require_record_def)
next
  case True
  note ok = graph_reachable_ok [OF assms]
  have k: "k \<in> set (bg_source_order g)" using graph_ok_sound [OF ok] True unfolding graph_sound_def by blast
  obtain rs where rs: "path_spec g k rs" "graph_path g k = Inr (rs, with_cache (Some (k, rs)) g)"
    using path_total [OF ok k] .
  obtain ks where "map rid rs = rev (k # ks)" "lineage (bg_parents g) (k # ks)" "distinct (k # ks)"
    using path_records(2) [OF ok rs(1) k] by blast
  then show ?thesis
    using True rs(2) path_records(1) [OF ok rs(1) k]
    unfolding graph_ancestors_def make_fork_plan_def with_cache_update
    by (simp only: if_True rbind_simps prod.case) blast
qed

theorem path_is_lineage_witness:
  "(\<exists>rs ks. graph_path sample_tree ''d'' = Inr (rs, sample_tree\<lparr>bg_path_cache := Some (''d'', rs)\<rparr>) \<and>
      map fst rs = rev (''d'' # ks) \<and> lineage (bg_parents sample_tree) (''d'' # ks)) \<and>
    graph_path sample_tree ''z'' = Inl (BranchRecordNotFound ''z'')"
proof -
  have "''d'' \<in> set (keys (bg_by_id sample_tree))" "''z'' \<notin> set (keys (bg_by_id sample_tree))"
    by (simp_all add: sample_tree_def strict_graph_def)
  then show ?thesis
    using path_is_lineage [OF sample_tree_reachable, of "''d''"] path_is_lineage [OF sample_tree_reachable, of "''z''"] by auto
qed

text \<open>
  The lowest common ancestor of two records of the graph is a record that both descend from
  (or are) and that descends from every other such record; there is none exactly when they share no
  ancestor.
\<close>

theorem common_ancestor_is_lowest:
  assumes "graph_reachable rid pid g" and "l \<in> set (keys (bg_by_id g))" and "r \<in> set (keys (bg_by_id g))"
  shows "\<exists>a g'. lowest_common_ancestor rid g l r = Inr (a, g') \<and>
    (case a of
       None \<Rightarrow> \<not> (\<exists>x. (l, x) \<in> (links (bg_parents g))\<^sup>* \<and> (r, x) \<in> (links (bg_parents g))\<^sup>*)
     | Some c \<Rightarrow> c \<in> set (bg_records g) \<and>
         (l, rid c) \<in> (links (bg_parents g))\<^sup>* \<and> (r, rid c) \<in> (links (bg_parents g))\<^sup>* \<and>
         (\<forall>x. (l, x) \<in> (links (bg_parents g))\<^sup>* \<longrightarrow> (r, x) \<in> (links (bg_parents g))\<^sup>* \<longrightarrow>
           (rid c, x) \<in> (links (bg_parents g))\<^sup>*))"
proof -
  note ok = graph_reachable_ok [OF assms(1)]
  have "set (keys (bg_by_id g)) = set (bg_source_order g)"
    using graph_ok_sound [OF ok] unfolding graph_sound_def by blast
  then show ?thesis using common_ancestor_correct [OF ok] assms(2,3) by simp
qed

theorem common_ancestor_is_lowest_witness:
  "\<exists>a g'. lowest_common_ancestor fst sample_tree ''b'' ''d'' = Inr (a, g') \<and> a = Some (''a'', None) \<and>
     (\<forall>x. (''b'', x) \<in> (links (bg_parents sample_tree))\<^sup>* \<longrightarrow> (''d'', x) \<in> (links (bg_parents sample_tree))\<^sup>* \<longrightarrow>
       (''a'', x) \<in> (links (bg_parents sample_tree))\<^sup>*)"
proof -
  have members: "''b'' \<in> set (keys (bg_by_id sample_tree))" "''d'' \<in> set (keys (bg_by_id sample_tree))"
    by (simp_all add: sample_tree_def strict_graph_def)
  have "(case lowest_common_ancestor fst sample_tree ''b'' ''d'' of Inl _ \<Rightarrow> None | Inr (a, _) \<Rightarrow> a) = Some (''a'', None)"
    unfolding sample_tree_def by code_simp
  then show ?thesis using common_ancestor_is_lowest [OF sample_tree_reachable members] by auto
qed

end
