(* ===== verification/Conversation_Repository.thy ===== *)
theory Conversation_Repository
  imports Branch_Properties Jsonl_Journal
begin

text \<open>
  The state of one conversation (\<open>harness/conversation/repository.py\<close>): a header, the records, their
  branch graph and the selected leaf; appending, selecting, forking, comparing branches, and the tree
  of all records.

  The functions that read a record's identity and parent are arguments. A plan carries the identity of
  the object that made it; publishing takes the answers to the two identity tests.
\<close>

section \<open>Data\<close>

datatype repository_error =
    GraphError branch_error
  | ConversationRecordNotFound string
  | InvalidRecordId
  | SelectionChanged
  | BlankText
  | StopIteration
  | NodeKeyError string

record ('h, 'r) repository =
  rp_header :: 'h
  rp_records :: "'r list"
  rp_strict :: bool
  rp_graph :: "'r branch_graph"
  rp_leaf_id :: "string option"

record 'r prepared_repository_append =
  pr_graph :: "'r prepared_append"
  pr_selected_leaf_id :: "string option"
  pr_last_record_id :: "string option"

record 'r branch_delta =
  bd_from_id :: string
  bd_target_id :: string
  bd_common_ancestor_id :: "string option"
  bd_divergent_records :: "'r list"

datatype 'r tree_node = Tree_Node (node_record: 'r) (node_children: "'r tree_node list")

definition lift_graph :: "branch_error + 'a \<Rightarrow> repository_error + 'a" where
  "lift_graph m = (case m of Inl e \<Rightarrow> Inl (GraphError e) | Inr x \<Rightarrow> Inr x)"

lemma lift_graph_simps [simp]:
  "lift_graph (Inl e) = Inl (GraphError e)" "lift_graph (Inr x) = Inr x"
  "lift_graph m = Inr y \<longleftrightarrow> m = Inr y"
  by (cases m; simp add: lift_graph_def)+

section \<open>Opening\<close>

definition graph_get :: "'r branch_graph \<Rightarrow> string \<Rightarrow> 'r option" where
  "graph_get g k = map_of (bg_by_id g) k"

definition resolve_initial_leaf ::
  "('r \<Rightarrow> string) \<Rightarrow> 'r list \<Rightarrow> 'r branch_graph \<Rightarrow> string option \<Rightarrow> repository_error + string option" where
  "resolve_initial_leaf rid records g leaf_id =
     (case leaf_id of
        Some k \<Rightarrow> if graph_get g k = None then Inl (ConversationRecordNotFound k) else Inr (Some k)
      | None \<Rightarrow>
          if records = [] then Inr None
          else let candidate = rid (last records) in
            Inr (if graph_get g candidate = None then None else Some candidate))"

definition create_repository ::
  "('r \<Rightarrow> string) \<Rightarrow> ('r \<Rightarrow> string option) \<Rightarrow> 'h \<Rightarrow> 'r list \<Rightarrow> bool \<Rightarrow> string option \<Rightarrow>
     repository_error + ('h, 'r) repository" where
  "create_repository rid pid header records strict leaf_id =
     rbind (lift_graph (branch_graph rid pid strict records)) (\<lambda>g.
     rbind (resolve_initial_leaf rid records g leaf_id) (\<lambda>leaf.
     Inr \<lparr>rp_header = header, rp_records = records, rp_strict = strict, rp_graph = g, rp_leaf_id = leaf\<rparr>))"

section \<open>Appending\<close>

definition repository_append ::
  "('r \<Rightarrow> string) \<Rightarrow> ('r \<Rightarrow> string option) \<Rightarrow> 'r \<Rightarrow> ('h, 'r) repository \<Rightarrow> repository_error + ('h, 'r) repository" where
  "repository_append rid pid r c =
     (let records = rp_records c @ [r] in
      rbind (lift_graph (branch_graph rid pid (rp_strict c) records)) (\<lambda>g.
      rbind (require (rid r \<noteq> []) InvalidRecordId) (\<lambda>_.
      Inr (c\<lparr>rp_records := records, rp_graph := g, rp_leaf_id := Some (rid r)\<rparr>))))"

text \<open>\<open>self._record_id(records[-1]) if records else self._leaf_id\<close>.\<close>

definition last_id :: "('r \<Rightarrow> string) \<Rightarrow> 'r list \<Rightarrow> string option \<Rightarrow> string option" where
  "last_id rid rs leaf = (if rs = [] then leaf else Some (rid (last rs)))"

definition repository_with_appended_records ::
  "('r \<Rightarrow> string) \<Rightarrow> ('r \<Rightarrow> string option) \<Rightarrow> 'r list \<Rightarrow> ('h, 'r) repository \<Rightarrow> repository_error + ('h, 'r) repository" where
  "repository_with_appended_records rid pid rs c =
     rbind (lift_graph (with_appended_records rid pid (rp_graph c) rs)) (\<lambda>g.
     rbind (require (rs = [] \<or> rid (last rs) \<noteq> []) InvalidRecordId) (\<lambda>_.
     Inr (c\<lparr>rp_records := rp_records c @ rs, rp_graph := g, rp_leaf_id := last_id rid rs (rp_leaf_id c)\<rparr>)))"

definition prepare_incremental_append ::
  "('r \<Rightarrow> string) \<Rightarrow> ('r \<Rightarrow> string option) \<Rightarrow> 'r list \<Rightarrow> ('h, 'r) repository \<Rightarrow>
     repository_error + 'r prepared_repository_append option" where
  "prepare_incremental_append rid pid rs c =
     (if \<not> rp_strict c then Inr None
      else
        rbind (lift_graph (prepare_strict_append rid pid (rp_graph c) rs)) (\<lambda>plan.
        rbind (require (pa_records plan = [] \<or> rid (last (pa_records plan)) \<noteq> []) InvalidRecordId) (\<lambda>_.
        Inr (Some \<lparr>pr_graph = plan, pr_selected_leaf_id = rp_leaf_id c,
          pr_last_record_id = last_id rid (pa_records plan) (rp_leaf_id c)\<rparr>))))"

definition publish_incremental_append ::
  "'r prepared_repository_append \<Rightarrow> bool \<Rightarrow> bool \<Rightarrow> ('h, 'r) repository \<Rightarrow> repository_error + ('h, 'r) repository" where
  "publish_incremental_append plan own_plan own_graph c =
     rbind (require (own_plan \<and> rp_leaf_id c = pr_selected_leaf_id plan) SelectionChanged) (\<lambda>_.
     rbind (lift_graph (publish_strict_append (rp_graph c) (pr_graph plan) own_graph)) (\<lambda>g.
     Inr (c\<lparr>rp_graph := g, rp_records := rp_records c @ pa_records (pr_graph plan),
       rp_leaf_id := pr_last_record_id plan\<rparr>)))"

section \<open>Selecting and reading\<close>

definition set_header :: "'h \<Rightarrow> ('h, 'r) repository \<Rightarrow> ('h, 'r) repository" where
  "set_header h c = c\<lparr>rp_header := h\<rparr>"

definition repository_get :: "('h, 'r) repository \<Rightarrow> string \<Rightarrow> 'r option" where
  "repository_get c k = graph_get (rp_graph c) k"

definition repository_leaf :: "('h, 'r) repository \<Rightarrow> 'r option" where
  "repository_leaf c = (case rp_leaf_id c of None \<Rightarrow> None | Some k \<Rightarrow> repository_get c k)"

definition repository_children :: "('h, 'r) repository \<Rightarrow> string \<Rightarrow> repository_error + 'r list" where
  "repository_children c k =
     (if graph_get (rp_graph c) k = None then Inr [] else lift_graph (graph_children (rp_graph c) k))"

definition select_branch :: "string \<Rightarrow> ('h, 'r) repository \<Rightarrow> repository_error + ('h, 'r) repository" where
  "select_branch k c =
     (if graph_get (rp_graph c) k = None then Inl (ConversationRecordNotFound k)
      else Inr (c\<lparr>rp_leaf_id := Some k\<rparr>))"

definition reset_branch :: "('h, 'r) repository \<Rightarrow> ('h, 'r) repository" where
  "reset_branch c = c\<lparr>rp_leaf_id := None\<rparr>"

text \<open>\<open>_path_to\<close>; the graph it leaves has the path cached.\<close>

definition path_to :: "string option \<Rightarrow> ('h, 'r) repository \<Rightarrow> repository_error + 'r list \<times> ('h, 'r) repository" where
  "path_to record_id c =
     (case (case record_id of None \<Rightarrow> rp_leaf_id c | Some k \<Rightarrow> Some k) of
        None \<Rightarrow> Inr ([], c)
      | Some k \<Rightarrow> rbind (lift_graph (graph_path (rp_graph c) k)) (\<lambda>(path, g). Inr (path, c\<lparr>rp_graph := g\<rparr>)))"

definition active_records :: "('h, 'r) repository \<Rightarrow> repository_error + 'r list \<times> ('h, 'r) repository" where
  "active_records c = path_to None c"

definition records_to :: "string \<Rightarrow> ('h, 'r) repository \<Rightarrow> repository_error + 'r list \<times> ('h, 'r) repository" where
  "records_to k c = path_to (Some k) c"

definition fold_records :: "('s \<Rightarrow> 'r \<Rightarrow> 's) \<Rightarrow> 's \<Rightarrow> 'r list \<Rightarrow> 's" where
  "fold_records apply_to initial rs = foldl apply_to initial rs"

definition compute_branch_delta ::
  "('r \<Rightarrow> string) \<Rightarrow> string \<Rightarrow> string \<Rightarrow> ('h, 'r) repository \<Rightarrow> repository_error + 'r branch_delta \<times> ('h, 'r) repository" where
  "compute_branch_delta rid from_id target_id c =
     rbind (lift_graph (lowest_common_ancestor rid (rp_graph c) from_id target_id)) (\<lambda>(ancestor, g).
     rbind (records_to from_id (c\<lparr>rp_graph := g\<rparr>)) (\<lambda>(path, c').
     rbind (case ancestor of
              None \<Rightarrow> Inr path
            | Some a \<Rightarrow>
                rbind (require (list_ex (\<lambda>r. rid r = rid a) path) StopIteration) (\<lambda>_.
                Inr (drop (Suc (length (takeWhile (\<lambda>r. rid r \<noteq> rid a) path))) path))) (\<lambda>divergent.
     rbind (require (not_blank from_id \<and> not_blank target_id \<and>
              (case ancestor of None \<Rightarrow> True | Some a \<Rightarrow> not_blank (rid a))) BlankText) (\<lambda>_.
     Inr (\<lparr>bd_from_id = from_id, bd_target_id = target_id, bd_common_ancestor_id = map_option rid ancestor,
       bd_divergent_records = divergent\<rparr>, c')))))"

definition fork_repository ::
  "('r \<Rightarrow> string) \<Rightarrow> ('r \<Rightarrow> string option) \<Rightarrow> 'h \<Rightarrow> string option \<Rightarrow> ('h, 'r) repository \<Rightarrow>
     repository_error + ('h, 'r) repository \<times> ('h, 'r) repository" where
  "fork_repository rid pid header leaf_id c =
     rbind (path_to leaf_id c) (\<lambda>(records, c').
     rbind (create_repository rid pid header records (rp_strict c) None) (\<lambda>fork.
     Inr (fork, c')))"

section \<open>The tree\<close>

text \<open>
  The loop over an explicit stack of records and of marks that their children are done. It need not
  end on every state of a graph; \<open>None\<close> is a loop that does not.
\<close>

type_synonym 'r tree_nodes = "(string \<times> 'r tree_node) list"

definition node_at :: "'r tree_nodes \<Rightarrow> string \<Rightarrow> repository_error + 'r tree_node" where
  "node_at nodes k = (case map_of nodes k of None \<Rightarrow> Inl (NodeKeyError k) | Some node \<Rightarrow> Inr node)"

partial_function (option) tree_loop ::
  "('r \<Rightarrow> string) \<Rightarrow> ('h, 'r) repository \<Rightarrow> ('r \<times> bool) list \<Rightarrow> 'r tree_nodes \<Rightarrow>
     (repository_error + 'r tree_nodes) option" where
  "tree_loop rid c stack nodes =
     (case stack of
        [] \<Rightarrow> Some (Inr nodes)
      | (r, expanded) # stack \<Rightarrow>
          (case repository_children c (rid r) of
             Inl e \<Rightarrow> Some (Inl e)
           | Inr children \<Rightarrow>
               if expanded then
                 (case rmap (\<lambda>child. node_at nodes (rid child)) children of
                    Inl e \<Rightarrow> Some (Inl e)
                  | Inr below \<Rightarrow> tree_loop rid c stack (AList.update (rid r) (Tree_Node r below) nodes))
               else tree_loop rid c (map (\<lambda>child. (child, False)) children @ (r, True) # stack) nodes))"

definition repository_tree ::
  "('r \<Rightarrow> string) \<Rightarrow> ('h, 'r) repository \<Rightarrow> (repository_error + 'r tree_node list) option" where
  "repository_tree rid c =
     (let roots = graph_roots (rp_graph c) in
      map_option (\<lambda>result. rbind result (\<lambda>nodes. rmap (\<lambda>root. node_at nodes (rid root)) roots))
        (tree_loop rid c (map (\<lambda>root. (root, False)) roots) []))"

end
