(* ===== verification/Repository_Invariant.thy ===== *)
theory Repository_Invariant
  imports Conversation_Repository
begin

text \<open>
  What holds of a conversation (\<open>harness/conversation/repository.py\<close>) however it was created, appended to,
  selected and read: its graph is the graph of its records and its leaf is one of them.
\<close>

section \<open>Members\<close>

lemma order_members:
  assumes "graph_ok rid pid g"
  shows "set (bg_source_order g) = rid ` {r \<in> set (bg_records g). rid r \<noteq> []}"
proof -
  have built: "branch_graph rid pid (bg_strict g) (bg_records g) = Inr (with_cache None g)"
    using assms by (simp add: graph_ok_def)
  obtain h where h: "branch_graph rid pid False (bg_records g) = Inr h"
    "branch_graph rid pid True (bg_records g) = first_problem (bg_diagnostics h) (h\<lparr>bg_strict := True\<rparr>)"
    using branch_graph_modes [of rid pid "bg_records g"] by blast
  have same: "bg_source_order g = bg_source_order h"
  proof (cases "bg_strict g")
    case True
    then have "with_cache None g = h\<lparr>bg_strict := True\<rparr>"
      using built h(2) by (cases "bg_diagnostics h") (auto simp: first_problem_def)
    then show ?thesis by (metis branch_graph.select_convs(5) branch_graph.surjective branch_graph.update_convs(2) with_cache_fields(5))
  next
    case False
    then have "with_cache None g = h" using built h(1) by simp
    then show ?thesis by auto
  qed
  have "set (keys (bg_by_id h)) = set (bg_source_order h)"
    using branch_graph_compatible(1) [OF h(1)] unfolding graph_sound_def by blast
  moreover have "dom (map_of (bg_by_id h)) = rid ` {r \<in> set (bg_records g). rid r \<noteq> []}"
    unfolding branch_graph_compatible(2) [OF h(1)] dom_map_of_conv_image_fst by force
  ultimately show ?thesis unfolding same by (simp add: dom_map_of_conv_image_fst)
qed

lemma graph_get_members:
  assumes "graph_ok rid pid g"
  shows "graph_get g k \<noteq> None \<longleftrightarrow> k \<in> set (bg_source_order g)"
  using graph_ok_sound [OF assms] unfolding graph_sound_def graph_get_def by (metis map_of_None_keys)

section \<open>The invariant\<close>

definition repository_ok :: "('r \<Rightarrow> string) \<Rightarrow> ('r \<Rightarrow> string option) \<Rightarrow> ('h, 'r) repository \<Rightarrow> bool" where
  "repository_ok rid pid c \<longleftrightarrow>
     graph_ok rid pid (rp_graph c) \<and> bg_records (rp_graph c) = rp_records c \<and> bg_strict (rp_graph c) = rp_strict c \<and>
     (\<forall>k. rp_leaf_id c = Some k \<longrightarrow> k \<in> set (bg_source_order (rp_graph c)))"

lemma create_ok: "create_repository rid pid h rs strict leaf = Inr c \<Longrightarrow> repository_ok rid pid c"
proof -
  assume created: "create_repository rid pid h rs strict leaf = Inr c"
  then obtain g l where g: "branch_graph rid pid strict rs = Inr g"
    and l: "resolve_initial_leaf rid rs g leaf = Inr l"
    and c: "c = \<lparr>rp_header = h, rp_records = rs, rp_strict = strict, rp_graph = g, rp_leaf_id = l\<rparr>"
    by (auto simp: create_repository_def rbind_Inr_iff)
  note ok = built_ok [OF g]
  have "k \<in> set (bg_source_order g)" if "l = Some k" for k
    using l that graph_get_members [OF ok] by (auto simp: resolve_initial_leaf_def Let_def split: option.splits if_splits)
  then show "repository_ok rid pid c"
    using ok branch_graph_sound [OF g] c by (simp add: repository_ok_def)
qed

lemma append_record_ok:
  assumes "repository_append rid pid r c = Inr c'"
  shows "repository_ok rid pid c'"
proof -
  obtain g where g: "branch_graph rid pid (rp_strict c) (rp_records c @ [r]) = Inr g" and id: "rid r \<noteq> []"
    and c': "c' = c\<lparr>rp_records := rp_records c @ [r], rp_graph := g, rp_leaf_id := Some (rid r)\<rparr>"
    using assms by (auto simp: repository_append_def Let_def rbind_Inr_iff)
  show ?thesis
    using built_ok [OF g] branch_graph_sound [OF g] order_members [OF built_ok [OF g]] id c'
    by (simp add: repository_ok_def)
qed

lemma appended_members:
  assumes "graph_ok rid pid g" and "with_appended_records rid pid g rs = Inr g'"
  shows "bg_records g' = bg_records g @ rs" and "bg_strict g' = bg_strict g"
proof -
  obtain h where h: "branch_graph rid pid (bg_strict g) (bg_records g @ rs) = Inr h"
    and g': "g' = (if bg_strict g then with_cache (bg_path_cache g) h else h)"
    using assms(2) unfolding append_ok(1) [OF assms(1)] by (auto simp: rbind_Inr_iff)
  show "bg_records g' = bg_records g @ rs" "bg_strict g' = bg_strict g"
    using branch_graph_sound [OF h] g' by simp_all
qed

lemma extended_ok:
  assumes ok: "repository_ok rid pid c" and g: "with_appended_records rid pid (rp_graph c) rs = Inr g"
    and id: "rs = [] \<or> rid (last rs) \<noteq> []" and leaf: "leaf = last_id rid rs (rp_leaf_id c)"
  shows "repository_ok rid pid (c\<lparr>rp_records := rp_records c @ rs, rp_graph := g, rp_leaf_id := leaf\<rparr>)"
proof -
  have graph: "graph_ok rid pid (rp_graph c)" and records: "bg_records (rp_graph c) = rp_records c"
    and leaf_in: "\<forall>k. rp_leaf_id c = Some k \<longrightarrow> k \<in> set (bg_source_order (rp_graph c))"
    using ok by (simp_all add: repository_ok_def)
  note new = append_ok(2) [OF graph g] appended_members [OF graph g]
  have order: "set (bg_source_order g) = rid ` {r \<in> set (rp_records c @ rs). rid r \<noteq> []}"
    using order_members [OF new(1)] new(2) records by simp
  have old: "set (bg_source_order (rp_graph c)) \<subseteq> set (bg_source_order g)"
    unfolding order order_members [OF graph] records by auto
  have "k \<in> set (bg_source_order g)" if "leaf = Some k" for k
  proof (cases "rs = []")
    case True
    then show ?thesis using that leaf leaf_in old by (auto simp: last_id_def)
  next
    case False
    then show ?thesis using that leaf id order by (auto simp: last_id_def)
  qed
  then show ?thesis using new ok records by (simp add: repository_ok_def)
qed

lemma with_appended_ok:
  "repository_ok rid pid c \<Longrightarrow> repository_with_appended_records rid pid rs c = Inr c' \<Longrightarrow> repository_ok rid pid c'"
  using extended_ok [of rid pid c rs] by (auto simp: repository_with_appended_records_def rbind_Inr_iff)

text \<open>Between preparing and publishing, reads and selections may come.\<close>

lemma prepare_any_cache:
  "prepare_strict_append rid pid (with_cache d g) ns = prepare_strict_append rid pid g ns"
proof -
  have "admit_ids rid (with_cache d g) = admit_ids rid g" unfolding admit_ids_def with_cache_fields ..
  moreover have "admit_parent pid (with_cache d g) = admit_parent pid g" unfolding admit_parent_def with_cache_fields ..
  ultimately show ?thesis by (simp add: prepare_strict_append_def cong: option.case_cong)
qed

lemma same_records_same_graph:
  assumes "graph_ok rid pid g" and "graph_ok rid pid h" and "bg_records g = bg_records h" and "bg_strict g = bg_strict h"
  shows "h = with_cache (bg_path_cache h) g"
proof -
  have "with_cache None g = with_cache None h" using assms by (simp add: graph_ok_def)
  then have "with_cache (bg_path_cache h) (with_cache None g) = with_cache (bg_path_cache h) (with_cache None h)" by simp
  then show ?thesis by simp
qed

lemma published_ok:
  assumes ok: "repository_ok rid pid c" "repository_ok rid pid c0"
    and same: "rp_records c0 = rp_records c" "rp_strict c0 = rp_strict c"
    and plan: "prepare_incremental_append rid pid rs c0 = Inr (Some plan)"
    and published: "publish_incremental_append plan True own c = Inr c'"
  shows "repository_with_appended_records rid pid rs c = Inr c'" and "repository_ok rid pid c'"
proof -
  obtain p where p: "prepare_strict_append rid pid (rp_graph c0) rs = Inr p"
    and id: "pa_records p = [] \<or> rid (last (pa_records p)) \<noteq> []"
    and plan_eq: "plan = \<lparr>pr_graph = p, pr_selected_leaf_id = rp_leaf_id c0,
      pr_last_record_id = last_id rid (pa_records p) (rp_leaf_id c0)\<rparr>"
    using plan by (auto simp: prepare_incremental_append_def rbind_Inr_iff split: if_splits)
  have records: "pa_records p = rs"
    using p by (auto simp: prepare_strict_append_def rbind_Inr_iff split: option.splits)
  have "rp_graph c = with_cache (bg_path_cache (rp_graph c)) (rp_graph c0)"
    using ok same same_records_same_graph [of rid pid "rp_graph c0" "rp_graph c"] by (simp add: repository_ok_def)
  then have p': "prepare_strict_append rid pid (rp_graph c) rs = Inr p"
    using p prepare_any_cache by metis
  obtain g where g: "publish_strict_append (rp_graph c) p own = Inr g" and leaf: "rp_leaf_id c = rp_leaf_id c0"
    and c': "c' = c\<lparr>rp_graph := g, rp_records := rp_records c @ rs, rp_leaf_id := last_id rid rs (rp_leaf_id c0)\<rparr>"
    using published plan_eq records by (auto simp: publish_incremental_append_def rbind_Inr_iff)
  have own using g by (auto simp: publish_strict_append_def split: if_splits)
  then have "with_appended_records rid pid (rp_graph c) rs = Inr g"
    using g publish_appends [OF _ p'] ok(1) by (simp add: repository_ok_def)
  then show appended: "repository_with_appended_records rid pid rs c = Inr c'"
    using id records leaf c' by (simp add: repository_with_appended_records_def)
  show "repository_ok rid pid c'" by (rule with_appended_ok [OF ok(1) appended])
qed

lemma select_ok: "repository_ok rid pid c \<Longrightarrow> select_branch k c = Inr c' \<Longrightarrow> repository_ok rid pid c'"
  using graph_get_members [of rid pid "rp_graph c" k] by (auto simp: select_branch_def repository_ok_def split: if_splits)

lemma reset_ok: "repository_ok rid pid c \<Longrightarrow> repository_ok rid pid (reset_branch c)"
  by (simp add: reset_branch_def repository_ok_def)

lemma header_ok: "repository_ok rid pid c \<Longrightarrow> repository_ok rid pid (set_header h c)"
  by (simp add: set_header_def repository_ok_def)

text \<open>A read leaves everything but the cached path of the graph.\<close>

lemma graph_cached_ok:
  assumes "repository_ok rid pid c" and "graph_ok rid pid g" and "g = with_cache d (rp_graph c)"
  shows "repository_ok rid pid (c\<lparr>rp_graph := g\<rparr>)"
  using assms by (simp add: repository_ok_def)

lemma path_to_ok:
  assumes "repository_ok rid pid c" and "path_to k c = Inr (rs, c')"
  shows "repository_ok rid pid c'"
proof -
  have graph: "graph_ok rid pid (rp_graph c)" using assms(1) by (simp add: repository_ok_def)
  show ?thesis
    using assms graph_cached_ok [OF assms(1)] path_ok(1,4) [OF graph]
    by (fastforce simp: path_to_def rbind_Inr_iff split: option.splits)
qed

end
