(* ===== verification/Repository_Paths.thy ===== *)
theory Repository_Paths
  imports Repository_Invariant
begin

text \<open>
  Paths of a conversation (\<open>harness/conversation/repository.py\<close>): what appending adds to the active one,
  what a fork keeps, and how two branches part.
\<close>

section \<open>Strict graphs\<close>

lemma strict_members:
  assumes "graph_ok rid pid g" and "bg_strict g" and "r \<in> set (bg_records g)"
  shows "map_of (bg_by_id g) (rid r) = Some r" and "parent_of (bg_parents g) (rid r) = pid r"
    and "rid r \<in> set (bg_source_order g)" and "rid r \<noteq> []"
proof -
  note g = graph_ok_strict [OF assms(1,2)]
  have distinct: "distinct (map rid (bg_records g))" and id: "rid r \<noteq> []"
    using g(1) assms(3) by (auto simp: is_forest_def)
  have fields: "bg_by_id g = by_key rid (bg_records g)" "bg_parents g = by_parent rid pid (bg_records g)"
    "bg_source_order g = map rid (bg_records g)"
    by (subst g(2), simp)+
  show "map_of (bg_by_id g) (rid r) = Some r" unfolding fields by (rule map_of_by [OF distinct assms(3)])
  show "parent_of (bg_parents g) (rid r) = pid r" unfolding fields by (rule parent_of_by_parent [OF distinct assms(3)])
  show "rid r \<in> set (bg_source_order g)" unfolding fields using assms(3) by simp
  show "rid r \<noteq> []" by (rule id)
qed

section \<open>Growing\<close>

lemma path_grows:
  assumes ok: "graph_ok rid pid g" and strict: "bg_strict g" and new: "with_appended_records rid pid g [r] = Inr g'"
  shows "pid r = Some k \<Longrightarrow> path_spec g k p \<Longrightarrow> k \<in> set (bg_source_order g) \<Longrightarrow> path_spec g' (rid r) (p @ [r])"
    and "pid r = None \<Longrightarrow> path_spec g' (rid r) [r]"
proof -
  note ok' = append_ok(2) [OF ok new] and members = appended_members [OF ok new]
  have strict': "bg_strict g'" using members(2) strict by simp
  have r: "map_of (bg_by_id g') (rid r) = Some r" "parent_of (bg_parents g') (rid r) = pid r"
    using strict_members [OF ok' strict', of r] members(1) by simp_all
  note old = graph_ok_strict [OF ok strict] and new' = graph_ok_strict [OF ok' strict']
  show "path_spec g' (rid r) (p @ [r])" if "pid r = Some k" "path_spec g k p" "k \<in> set (bg_source_order g)"
  proof -
    have "k \<in> rid ` set (bg_records g)" using that(3) order_members [OF ok] by auto
    moreover have "path_spec (strict_graph rid pid (bg_records g)) k p"
      using that(2) old(2) by (metis path_spec_cache with_cache_update)
    ultimately have "path_spec (strict_graph rid pid (bg_records g @ [r])) k p"
      using path_extends [OF old(1), of "[r]" k p] new'(1) members(1) by simp
    then have "path_spec g' k p" using new'(2) members(1) by (metis path_spec_cache with_cache_update)
    then obtain ks where ks: "lineage (bg_parents g') (k # ks)" "p = map (\<lambda>i. the (map_of (bg_by_id g') i)) (rev (k # ks))"
      by (auto simp: path_spec_def)
    have "lineage (bg_parents g') (rid r # k # ks)" using ks(1) r(2) that(1) by simp
    then show ?thesis using ks(2) r(1) unfolding path_spec_def by (intro exI [of _ "k # ks"]) simp
  qed
  show "path_spec g' (rid r) [r]" if "pid r = None"
    using r that unfolding path_spec_def by (intro exI [of _ "[]"]) simp
qed

lemma active_path:
  assumes ok: "repository_ok rid pid c" and leaf: "rp_leaf_id c = Some k" and path: "path_spec (rp_graph c) k p"
  shows "\<exists>c'. active_records c = Inr (p, c')"
proof -
  have graph: "graph_ok rid pid (rp_graph c)" and k: "k \<in> set (bg_source_order (rp_graph c))"
    using ok leaf by (simp_all add: repository_ok_def)
  obtain q where q: "path_spec (rp_graph c) k q" "graph_path (rp_graph c) k = Inr (q, with_cache (Some (k, q)) (rp_graph c))"
    using path_total [OF graph k] .
  have "q = p" by (rule path_spec_unique [OF q(1) path])
  then show ?thesis using q(2) leaf by (simp add: active_records_def path_to_def)
qed

lemma active_of:
  assumes ok: "repository_ok rid pid c"
  obtains p where "case rp_leaf_id c of None \<Rightarrow> p = [] | Some k \<Rightarrow> path_spec (rp_graph c) k p"
    and "\<exists>c'. active_records c = Inr (p, c')"
proof (cases "rp_leaf_id c")
  case None
  then show ?thesis using that [of "[]"] by (simp add: active_records_def path_to_def)
next
  case (Some k)
  have graph: "graph_ok rid pid (rp_graph c)" and k: "k \<in> set (bg_source_order (rp_graph c))"
    using ok Some by (simp_all add: repository_ok_def)
  obtain p where "path_spec (rp_graph c) k p" using path_total [OF graph k] .
  then show ?thesis using that [of p] active_path [OF ok Some] Some by simp
qed

lemma active_grows:
  assumes ok: "repository_ok rid pid c" and strict: "rp_strict c" and r: "pid r = rp_leaf_id c"
    and appended: "with_appended_records rid pid (rp_graph c) [r] = Inr g"
    and c': "repository_ok rid pid c'" "rp_graph c' = with_cache d g" "rp_leaf_id c' = Some (rid r)"
  shows "\<exists>p c1 c2. active_records c = Inr (p, c1) \<and> active_records c' = Inr (p @ [r], c2)"
proof -
  have graph: "graph_ok rid pid (rp_graph c)" "bg_strict (rp_graph c)" using ok strict by (simp_all add: repository_ok_def)
  obtain p where p: "case rp_leaf_id c of None \<Rightarrow> p = [] | Some k \<Rightarrow> path_spec (rp_graph c) k p"
    and active: "\<exists>c'. active_records c = Inr (p, c')" using active_of [OF ok] .
  have "path_spec g (rid r) (p @ [r])"
  proof (cases "rp_leaf_id c")
    case None
    then show ?thesis using p r path_grows(2) [OF graph appended] by simp
  next
    case (Some k)
    then have "k \<in> set (bg_source_order (rp_graph c))" using ok by (simp add: repository_ok_def)
    then show ?thesis using p r Some path_grows(1) [OF graph appended, of k p] by simp
  qed
  then have "path_spec (rp_graph c') (rid r) (p @ [r])" unfolding c'(2) by (simp add: with_cache_update)
  then show ?thesis using active active_path [OF c'(1,3)] by blast
qed

section \<open>Forks\<close>

text \<open>The records of a path form a forest of their own, and their path is the same.\<close>

lemma path_is_forest:
  assumes ok: "graph_ok rid pid g" and strict: "bg_strict g" and path: "path_spec g k rs" and k: "k \<in> set (bg_source_order g)"
  shows "is_forest rid pid rs" and "path_spec (strict_graph rid pid rs) k rs" and "rs \<noteq> []" and "rid (last rs) = k"
proof -
  obtain ks where ids: "map rid rs = rev (k # ks)" and lin: "lineage (bg_parents g) (k # ks)" and distinct: "distinct (k # ks)"
    using path_records(2) [OF ok path k] by blast
  have members: "set rs \<subseteq> set (bg_records g)" by (rule path_records(1) [OF ok path k])
  have ids_distinct: "distinct (map rid rs)" unfolding ids using distinct by simp
  have set_ids: "rid ` set rs = set (k # ks)" using arg_cong [OF ids, of set] by simp
  have parent: "parent_of (by_parent rid pid rs) x = parent_of (bg_parents g) x" if "x \<in> set (k # ks)" for x
  proof -
    have "x \<in> rid ` set rs" unfolding set_ids by (rule that)
    then obtain r where r: "r \<in> set rs" "x = rid r" by (elim imageE)
    have "r \<in> set (bg_records g)" using members r(1) by blast
    then show ?thesis
      unfolding r(2) parent_of_by_parent [OF ids_distinct r(1)] by (simp add: strict_members(2) [OF ok strict])
  qed
  have closed: "p \<in> set (k # ks)" if "x \<in> set (k # ks)" "parent_of (bg_parents g) x = Some p" for x p
  proof -
    have "(k, x) \<in> (links (bg_parents g))\<^sup>*" using that(1) unfolding lineage_reaches [OF lin] .
    moreover have "(x, p) \<in> links (bg_parents g)" using that(2) by simp
    ultimately have "(k, p) \<in> (links (bg_parents g))\<^sup>*" by (rule rtrancl_into_rtrancl)
    then show ?thesis unfolding lineage_reaches [OF lin] .
  qed
  have lin': "lineage (by_parent rid pid rs) (k # ks)"
  proof -
    have "lineage (by_parent rid pid rs) (x # xs)" if "lineage (bg_parents g) (x # xs)" "set (x # xs) \<subseteq> set (k # ks)" for x xs
      using that
    proof (induction xs arbitrary: x)
      case Nil
      then show ?case using parent [of x] by simp
    next
      case (Cons y xs)
      then show ?case using parent [of x] by simp
    qed
    then show ?thesis using lin by blast
  qed
  have rooted_in: "x \<in> set (k # ks) \<longrightarrow> rooted (by_parent rid pid rs) x" if "rooted (bg_parents g) x" for x
    using that
  proof (induction rule: rooted.induct)
    case (root x)
    then show ?case using parent [of x] rooted.root [of "by_parent rid pid rs" x] by auto
  next
    case (link x p)
    then show ?case using parent [of x] closed [of x p] rooted.link [of "by_parent rid pid rs" x p] by auto
  qed
  have rooted: "rooted (by_parent rid pid rs) x" for x
  proof (cases "x \<in> set (k # ks)")
    case True
    moreover have "rooted (bg_parents g) x" using graph_ok_sound [OF ok] by (simp add: graph_sound_def)
    ultimately show ?thesis using rooted_in by blast
  next
    case False
    then have "x \<notin> set (keys (by_parent rid pid rs))" using set_ids by (auto simp: comp_def)
    then show ?thesis using parent_of_key by (metis not_Some_eq rooted.root)
  qed
  show forest: "is_forest rid pid rs"
    unfolding is_forest_def
  proof (intro conjI ballI allI impI)
    fix r p
    assume r: "r \<in> set rs"
    show "rid r \<noteq> []" using strict_members(4) [OF ok strict, of r] members r by blast
    assume "pid r = Some p"
    then have "parent_of (bg_parents g) (rid r) = Some p" using strict_members(2) [OF ok strict, of r] members r by auto
    then show "p \<in> rid ` set rs" using closed [of "rid r" p] unfolding set_ids [symmetric] using r by blast
  qed (use ids_distinct rooted in blast)+
  have "map (\<lambda>i. the (map_of (by_key rid rs) i)) (rev (k # ks)) = rs"
    unfolding ids [symmetric] map_map by (rule map_idI) (simp add: map_of_by [OF ids_distinct])
  then show "path_spec (strict_graph rid pid rs) k rs"
    unfolding path_spec_def using lin' by (intro exI [of _ ks]) simp
  show "rs \<noteq> []" using ids by auto
  then show "rid (last rs) = k" using ids by (metis last_map last_rev list.sel(1) list.distinct(1))
qed

lemma fork_of_path:
  assumes ok: "repository_ok rid pid c" and strict: "rp_strict c" and path: "path_spec (rp_graph c) k rs"
    and k: "k \<in> set (bg_source_order (rp_graph c))"
  shows "\<exists>f f'. create_repository rid pid h rs True None = Inr f \<and> rp_header f = h \<and> rp_records f = rs \<and> rp_strict f \<and>
    rp_leaf_id f = Some k \<and> repository_ok rid pid f \<and> active_records f = Inr (rs, f')"
proof -
  have graph: "graph_ok rid pid (rp_graph c)" "bg_strict (rp_graph c)" using ok strict by (simp_all add: repository_ok_def)
  note forest = path_is_forest [OF graph path k]
  have built: "branch_graph rid pid True rs = Inr (strict_graph rid pid rs)"
    using forest(1) by (simp add: branch_graph_strict)
  have "last rs \<in> set rs" using forest(3) by simp
  then have "graph_get (strict_graph rid pid rs) k \<noteq> None"
    using map_of_by [of rid rs "last rs" "\<lambda>r. r"] forest(1,4) by (simp add: graph_get_def is_forest_def)
  then have created: "create_repository rid pid h rs True None =
      Inr \<lparr>rp_header = h, rp_records = rs, rp_strict = True, rp_graph = strict_graph rid pid rs, rp_leaf_id = Some k\<rparr>"
    using built forest(3,4) by (simp add: create_repository_def resolve_initial_leaf_def)
  define f where "f = \<lparr>rp_header = h, rp_records = rs, rp_strict = True, rp_graph = strict_graph rid pid rs, rp_leaf_id = Some k\<rparr>"
  have f: "create_repository rid pid h rs True None = Inr f" "rp_header f = h" "rp_records f = rs"
    "rp_strict f" "rp_leaf_id f = Some k" "rp_graph f = strict_graph rid pid rs" using created by (simp_all add: f_def)
  note fok = create_ok [OF f(1)]
  have "path_spec (rp_graph f) k rs" unfolding f(6) by (rule forest(2))
  then show ?thesis using f fok active_path [OF fok f(5)] by blast
qed

end
