(* ===== verification/Repository_Tree.thy ===== *)
theory Repository_Tree
  imports Repository_Paths
begin

text \<open>
  The tree of a conversation (\<open>ConversationRepository.tree\<close> of \<open>harness/conversation/repository.py\<close>): the loop
  over an explicit stack ends, and its result mirrors the graph with every record in one place.
\<close>

section \<open>The tree below a record\<close>

primrec mirrors :: "('r \<Rightarrow> string) \<Rightarrow> 'r branch_graph \<Rightarrow> 'r tree_node \<Rightarrow> bool" where
  "mirrors rid g (Tree_Node r ts) \<longleftrightarrow>
     graph_children g (rid r) = Inr (map node_record ts) \<and> list_all (mirrors rid g) ts"

primrec preorder :: "'r tree_node \<Rightarrow> 'r list" where
  "preorder (Tree_Node r ts) = r # concat (map preorder ts)"

text \<open>The ids that descend from a record, itself among them.\<close>

definition below :: "'r branch_graph \<Rightarrow> string \<Rightarrow> string set" where
  "below g k = {x \<in> set (bg_source_order g). (x, k) \<in> (links (bg_parents g))\<^sup>*}"

definition child_ids :: "'r branch_graph \<Rightarrow> string \<Rightarrow> string list" where
  "child_ids g k = filter (\<lambda>c. parent_of (bg_parents g) c = Some k) (bg_source_order g)"

abbreviation entry :: "'r branch_graph \<Rightarrow> string \<Rightarrow> 'r" where
  "entry g k \<equiv> the (map_of (bg_by_id g) k)"

lemma links_unique: "(x, y) \<in> links parents \<Longrightarrow> (x, z) \<in> links parents \<Longrightarrow> y = z"
  by auto

text \<open>Ancestors are in a line.\<close>

lemma ancestors_linear:
  assumes "(x, a) \<in> (links parents)\<^sup>*" and "(x, b) \<in> (links parents)\<^sup>*"
  shows "(a, b) \<in> (links parents)\<^sup>* \<or> (b, a) \<in> (links parents)\<^sup>*"
  using assms
proof (induction rule: converse_rtrancl_induct)
  case base
  then show ?case by blast
next
  case (step x y)
  from step.prems show ?case
  proof (cases rule: converse_rtranclE)
    case base
    then show ?thesis using converse_rtrancl_into_rtrancl [OF step.hyps] by blast
  next
    case (step z)
    then have "z = y" using links_unique \<open>(x, y) \<in> links parents\<close> by blast
    then show ?thesis using step(2) step.IH by blast
  qed
qed

lemma rooted_reach_antisym:
  assumes "rooted parents k" and "(k, c) \<in> (links parents)\<^sup>*" and "(c, k) \<in> links parents"
  shows False
proof -
  have "(k, k) \<in> (links parents)\<^sup>+" using assms(2,3) by (rule rtrancl_into_trancl1)
  then show False using rooted_acyclic [OF assms(1)] by blast
qed

lemma sound_parent: "graph_sound rid g \<Longrightarrow> parent_of (bg_parents g) k = Some p \<Longrightarrow> p \<in> set (bg_source_order g)"
  unfolding graph_sound_def by auto

lemma sound_rooted: "graph_sound rid g \<Longrightarrow> rooted (bg_parents g) k"
  by (simp add: graph_sound_def)

lemma child_ids_iff: "c \<in> set (child_ids g k) \<longleftrightarrow> c \<in> set (bg_source_order g) \<and> (c, k) \<in> links (bg_parents g)"
  by (simp add: child_ids_def)

lemma below_self: "k \<in> set (bg_source_order g) \<Longrightarrow> k \<in> below g k"
  by (simp add: below_def)

lemma below_children:
  assumes "graph_sound rid g" and "k \<in> set (bg_source_order g)"
  shows "below g k = insert k (\<Union>c \<in> set (child_ids g k). below g c)"
proof (intro set_eqI iffI)
  fix x
  assume "x \<in> below g k"
  then have x: "x \<in> set (bg_source_order g)" "(x, k) \<in> (links (bg_parents g))\<^sup>*" by (simp_all add: below_def)
  from x(2) show "x \<in> insert k (\<Union>c \<in> set (child_ids g k). below g c)"
  proof (cases rule: rtranclE)
    case base
    then show ?thesis by simp
  next
    case (step c)
    have "c \<in> set (keys (bg_parents g))" using step(2) parent_of_key by fastforce
    then have "c \<in> set (bg_source_order g)" using assms(1) unfolding graph_sound_def by blast
    then have "c \<in> set (child_ids g k)" using step(2) by (simp add: child_ids_iff)
    then show ?thesis using x(1) step(1) by (auto simp: below_def)
  qed
next
  fix x
  assume "x \<in> insert k (\<Union>c \<in> set (child_ids g k). below g c)"
  then show "x \<in> below g k"
    using assms(2) by (auto simp: below_def child_ids_iff intro: rtrancl_into_rtrancl)
qed

lemma below_smaller:
  assumes "graph_sound rid g" and "k \<in> set (bg_source_order g)" and "c \<in> set (child_ids g k)"
  shows "card (below g c) < card (below g k)"
proof (rule psubset_card_mono)
  show "finite (below g k)" by (simp add: below_def)
  have "k \<notin> below g c"
    using rooted_reach_antisym [OF sound_rooted [OF assms(1)], of k c] assms(3) by (auto simp: below_def child_ids_iff)
  moreover have "below g c \<subseteq> below g k" using below_children [OF assms(1,2)] assms(3) by blast
  moreover have "k \<in> below g k" by (rule below_self [OF assms(2)])
  ultimately show "below g c \<subset> below g k" by blast
qed

text \<open>Siblings have nothing below them in common.\<close>

lemma siblings_apart:
  assumes sound: "graph_sound rid g" and c: "c \<in> set (child_ids g k)" "d \<in> set (child_ids g k)" "c \<noteq> d"
  shows "below g c \<inter> below g d = {}" and "(c, d) \<notin> (links (bg_parents g))\<^sup>*"
proof -
  have up: "(c, k) \<in> links (bg_parents g)" "(d, k) \<in> links (bg_parents g)" using c by (simp_all add: child_ids_iff)
  have apart: "(x, y) \<notin> (links (bg_parents g))\<^sup>*"
    if xy: "x \<noteq> y" "(x, k) \<in> links (bg_parents g)" "(y, k) \<in> links (bg_parents g)" for x y
  proof
    assume "(x, y) \<in> (links (bg_parents g))\<^sup>*"
    then show False
    proof (cases rule: converse_rtranclE)
      case base
      then show ?thesis using xy(1) by simp
    next
      case (step z)
      then have "z = k" using links_unique xy(2) by blast
      then show ?thesis using rooted_reach_antisym [OF sound_rooted [OF sound]] step(2) xy(3) by blast
    qed
  qed
  show "(c, d) \<notin> (links (bg_parents g))\<^sup>*" by (rule apart [OF c(3) up])
  have "(d, c) \<notin> (links (bg_parents g))\<^sup>*" using apart [of d c] c(3) up by blast
  then show "below g c \<inter> below g d = {}"
    using ancestors_linear [of _ c "bg_parents g" d] apart [OF c(3) up] unfolding below_def by blast
qed

lemma children_of:
  assumes "graph_sound rid g" and "k \<in> set (bg_source_order g)"
  shows "graph_children g k = Inr (map (entry g) (child_ids g k))"
proof -
  have "k \<in> set (keys (bg_by_id g))" using assms unfolding graph_sound_def by blast
  moreover have "map_of (bg_children g) k = Some (child_ids g k)"
    using assms unfolding graph_sound_def child_ids_def by (simp add: map_of_map_keys)
  ultimately show ?thesis by (simp add: graph_children_def require_record_def)
qed

lemma sound_entry_id: "graph_sound rid g \<Longrightarrow> k \<in> set (bg_source_order g) \<Longrightarrow> rid (entry g k) = k"
  by (rule sound_record(2))

lemma repository_children_of:
  assumes "graph_sound rid (rp_graph c)" and "k \<in> set (bg_source_order (rp_graph c))"
  shows "repository_children c k = Inr (map (entry (rp_graph c)) (child_ids (rp_graph c) k))"
proof -
  have "graph_get (rp_graph c) k = Some (entry (rp_graph c) k)"
    unfolding graph_get_def by (rule sound_record(1) [OF assms])
  then show ?thesis using children_of [OF assms] by (simp add: repository_children_def)
qed

lemma nodes_at:
  assumes "\<forall>k \<in> set ks. map_of nodes k = Some (t k) \<and> rid (f k) = k"
  shows "rmap (\<lambda>r. node_at nodes (rid r)) (map f ks) = Inr (map t ks)"
  using assms by (induction ks) (simp_all add: node_at_def)

section \<open>The loop\<close>

text \<open>What the loop does to a record on top of its stack.\<close>

definition visits ::
  "('r \<Rightarrow> string) \<Rightarrow> ('h, 'r) repository \<Rightarrow> string \<Rightarrow> 'r tree_node \<Rightarrow> bool" where
  "visits rid c k t \<longleftrightarrow>
     (\<forall>stack nodes. \<exists>nodes'.
        tree_loop rid c ((entry (rp_graph c) k, False) # stack) nodes = tree_loop rid c stack nodes' \<and>
        map_of nodes' k = Some t \<and> (\<forall>x. x \<notin> below (rp_graph c) k \<longrightarrow> map_of nodes' x = map_of nodes x))"

lemma visit_all:
  assumes "\<forall>k \<in> set ks. visits rid c k (t k)" and "distinct ks"
    and "\<forall>k \<in> set ks. \<forall>l \<in> set ks. k \<noteq> l \<longrightarrow> k \<notin> below (rp_graph c) l"
  shows "\<exists>nodes'. tree_loop rid c (map (\<lambda>k. (entry (rp_graph c) k, False)) ks @ stack) nodes = tree_loop rid c stack nodes' \<and>
    (\<forall>k \<in> set ks. map_of nodes' k = Some (t k)) \<and>
    (\<forall>x. x \<notin> (\<Union>k \<in> set ks. below (rp_graph c) k) \<longrightarrow> map_of nodes' x = map_of nodes x)"
  using assms
proof (induction ks arbitrary: nodes)
  case Nil
  then show ?case by (intro exI [of _ nodes]) simp
next
  case (Cons k ks)
  have here: "visits rid c k (t k)" using Cons.prems(1) by simp
  obtain nodes1 where first: "tree_loop rid c ((entry (rp_graph c) k, False) # map (\<lambda>k. (entry (rp_graph c) k, False)) ks @ stack) nodes =
      tree_loop rid c (map (\<lambda>k. (entry (rp_graph c) k, False)) ks @ stack) nodes1"
    "map_of nodes1 k = Some (t k)" "\<forall>x. x \<notin> below (rp_graph c) k \<longrightarrow> map_of nodes1 x = map_of nodes x"
    using here [unfolded visits_def, rule_format, of "map (\<lambda>k. (entry (rp_graph c) k, False)) ks @ stack" nodes] by blast
  obtain nodes2 where rest: "tree_loop rid c (map (\<lambda>k. (entry (rp_graph c) k, False)) ks @ stack) nodes1 = tree_loop rid c stack nodes2"
    "\<forall>k \<in> set ks. map_of nodes2 k = Some (t k)"
    "\<forall>x. x \<notin> (\<Union>k \<in> set ks. below (rp_graph c) k) \<longrightarrow> map_of nodes2 x = map_of nodes1 x"
    using Cons.IH [of nodes1] Cons.prems by auto
  have "k \<notin> (\<Union>l \<in> set ks. below (rp_graph c) l)" using Cons.prems(2,3) by auto
  then have "map_of nodes2 k = Some (t k)" using rest(3) first(2) by simp
  then show ?case using first(1,3) rest by (intro exI [of _ nodes2]) auto
qed

lemma tree_loop_visits:
  assumes sound: "graph_sound rid (rp_graph c)"
  shows "k \<in> set (bg_source_order (rp_graph c)) \<Longrightarrow>
    \<exists>t. visits rid c k t \<and> mirrors rid (rp_graph c) t \<and> node_record t = entry (rp_graph c) k"
proof (induction "card (below (rp_graph c) k)" arbitrary: k rule: less_induct)
  case less
  let ?g = "rp_graph c" and ?ks = "child_ids (rp_graph c) k"
  have child: "x \<in> set (bg_source_order ?g)" if "x \<in> set ?ks" for x using that by (simp add: child_ids_iff)
  have "\<forall>x \<in> set ?ks. \<exists>t. visits rid c x t \<and> mirrors rid ?g t \<and> node_record t = entry ?g x"
    using less.hyps below_smaller [OF sound less.prems] child by blast
  then obtain t where t: "\<forall>x \<in> set ?ks. visits rid c x (t x) \<and> mirrors rid ?g (t x) \<and> node_record (t x) = entry ?g x"
    by metis
  let ?t = "Tree_Node (entry ?g k) (map t ?ks)"
  have id: "rid (entry ?g k) = k" by (rule sound_entry_id [OF sound less.prems])
  note kids = repository_children_of [OF sound less.prems]
  have distinct: "distinct ?ks" using sound by (simp add: child_ids_def graph_sound_def)
  have apart: "\<forall>x \<in> set ?ks. \<forall>y \<in> set ?ks. x \<noteq> y \<longrightarrow> x \<notin> below ?g y"
    using siblings_apart(2) [OF sound] unfolding below_def by blast
  have "visits rid c k ?t"
    unfolding visits_def
  proof (intro allI)
    fix stack nodes
    have open_step: "tree_loop rid c ((entry ?g k, False) # stack) nodes =
        tree_loop rid c (map (\<lambda>x. (entry ?g x, False)) ?ks @ (entry ?g k, True) # stack) nodes"
      by (subst tree_loop.simps) (simp add: id kids comp_def)
    obtain nodes1 where inner: "tree_loop rid c (map (\<lambda>x. (entry ?g x, False)) ?ks @ (entry ?g k, True) # stack) nodes =
        tree_loop rid c ((entry ?g k, True) # stack) nodes1"
      "\<forall>x \<in> set ?ks. map_of nodes1 x = Some (t x)"
      "\<forall>x. x \<notin> (\<Union>x \<in> set ?ks. below ?g x) \<longrightarrow> map_of nodes1 x = map_of nodes x"
      using visit_all [OF _ distinct apart, of rid t "(entry ?g k, True) # stack" nodes] t by blast
    have vals: "rmap (\<lambda>child. node_at nodes1 (rid child)) (map (entry ?g) ?ks) = Inr (map t ?ks)"
      by (rule nodes_at) (use inner(2) child sound_entry_id [OF sound] in blast)
    have close_step: "tree_loop rid c ((entry ?g k, True) # stack) nodes1 = tree_loop rid c stack (AList.update k ?t nodes1)"
      by (subst tree_loop.simps) (simp only: list.case prod.case id kids sum.case if_True vals)
    have "map_of (AList.update k ?t nodes1) x = map_of nodes x" if "x \<notin> below ?g k" for x
      using that inner(3) below_children [OF sound less.prems] by simp
    then show "\<exists>nodes'. tree_loop rid c ((entry ?g k, False) # stack) nodes = tree_loop rid c stack nodes' \<and>
        map_of nodes' k = Some ?t \<and> (\<forall>x. x \<notin> below ?g k \<longrightarrow> map_of nodes' x = map_of nodes x)"
      using open_step inner(1) close_step by (intro exI [of _ "AList.update k ?t nodes1"]) simp
  qed
  moreover have "mirrors rid ?g ?t"
    using t children_of [OF sound less.prems] by (simp add: id list_all_iff)
  ultimately show ?case by (intro exI [of _ ?t]) simp
qed

section \<open>The listing\<close>

definition lists_below :: "('r \<Rightarrow> string) \<Rightarrow> 'r branch_graph \<Rightarrow> 'r list \<Rightarrow> string set \<Rightarrow> bool" where
  "lists_below rid g rs ids \<longleftrightarrow> distinct (map rid rs) \<and> rid ` set rs = ids \<and> set rs \<subseteq> entry g ` ids"

text \<open>Trees side by side, as children of one record or as roots.\<close>

lemma lists_side_by_side:
  assumes "list_all2 (\<lambda>t k. lists_below rid g (preorder t) (below g k)) ts ks" and "distinct ks"
    and "\<forall>x \<in> set ks. \<forall>y \<in> set ks. x \<noteq> y \<longrightarrow> below g x \<inter> below g y = {}"
  shows "lists_below rid g (concat (map preorder ts)) (\<Union>k \<in> set ks. below g k)"
  using assms
proof (induction ts ks rule: list_all2_induct)
  case Nil
  then show ?case by (simp add: lists_below_def)
next
  case (Cons t ts k ks)
  have rest: "lists_below rid g (concat (map preorder ts)) (\<Union>k \<in> set ks. below g k)"
    using Cons.IH Cons.prems by simp
  have "below g k \<inter> (\<Union>k \<in> set ks. below g k) = {}" using Cons.prems by fastforce
  then show ?case using Cons.hyps(1) rest unfolding lists_below_def by (auto simp: image_Un)
qed

lemma preorder_below:
  assumes sound: "graph_sound rid g"
  shows "mirrors rid g t \<Longrightarrow> node_record t = entry g k \<Longrightarrow> k \<in> set (bg_source_order g) \<Longrightarrow>
    lists_below rid g (preorder t) (below g k)"
proof (induction t arbitrary: k)
  case (Tree_Node r ts)
  let ?ks = "child_ids g k"
  have r: "r = entry g k" "rid r = k" using Tree_Node.prems sound_entry_id [OF sound] by simp_all
  have kids: "map node_record ts = map (entry g) ?ks" and all: "list_all (mirrors rid g) ts"
    using Tree_Node.prems(1) children_of [OF sound Tree_Node.prems(3)] unfolding r(2) [symmetric] by simp_all
  have "list_all2 (\<lambda>t k. node_record t = entry g k) ts ?ks"
    using kids by (simp add: list_all2_conv_all_nth map_equality_iff)
  moreover have "lists_below rid g (preorder t) (below g x)"
    if "t \<in> set ts" "x \<in> set ?ks" "node_record t = entry g x" for t x
    using Tree_Node.IH [OF that(1), of x] all that by (simp add: list_all_iff child_ids_iff)
  ultimately have "list_all2 (\<lambda>t k. lists_below rid g (preorder t) (below g k)) ts ?ks"
    by (rule list.rel_mono_strong)
  moreover have "distinct ?ks" using sound by (simp add: child_ids_def graph_sound_def)
  moreover have "\<forall>x \<in> set ?ks. \<forall>y \<in> set ?ks. x \<noteq> y \<longrightarrow> below g x \<inter> below g y = {}"
    using siblings_apart(1) [OF sound] by blast
  ultimately have rest: "lists_below rid g (concat (map preorder ts)) (\<Union>c \<in> set ?ks. below g c)"
    by (rule lists_side_by_side)
  have "k \<notin> (\<Union>c \<in> set ?ks. below g c)"
  proof
    assume "k \<in> (\<Union>c \<in> set ?ks. below g c)"
    then obtain c where c: "(k, c) \<in> (links (bg_parents g))\<^sup>*" "(c, k) \<in> links (bg_parents g)"
      by (auto simp: below_def child_ids_iff)
    then show False by (rule rooted_reach_antisym [OF sound_rooted [OF sound]])
  qed
  then show ?case
    using rest below_children [OF sound Tree_Node.prems(3)] r below_self [OF Tree_Node.prems(3)]
    unfolding lists_below_def by auto
qed

section \<open>The whole tree\<close>

definition root_ids :: "'r branch_graph \<Rightarrow> string list" where
  "root_ids g = filter (\<lambda>k. parent_of (bg_parents g) k = None) (bg_source_order g)"

lemma below_roots:
  assumes "graph_sound rid g"
  shows "(\<Union>k \<in> set (root_ids g). below g k) = set (bg_source_order g)"
proof (intro set_eqI iffI)
  fix x
  assume x: "x \<in> set (bg_source_order g)"
  have "\<exists>k. (x, k) \<in> (links (bg_parents g))\<^sup>* \<and> k \<in> set (root_ids g)"
    using sound_rooted [OF assms, of x] x
  proof (induction rule: rooted.induct)
    case (root k)
    then show ?case by (intro exI [of _ k]) (simp add: root_ids_def)
  next
    case (link k p)
    have "p \<in> set (bg_source_order g)" by (rule sound_parent [OF assms link.hyps(1)])
    then obtain q where q: "(p, q) \<in> (links (bg_parents g))\<^sup>*" "q \<in> set (root_ids g)" using link.IH by blast
    have "(k, p) \<in> links (bg_parents g)" using link.hyps(1) by simp
    then have "(k, q) \<in> (links (bg_parents g))\<^sup>*" using q(1) by (rule converse_rtrancl_into_rtrancl)
    then show ?case using q(2) by blast
  qed
  then show "x \<in> (\<Union>k \<in> set (root_ids g). below g k)" using x by (auto simp: below_def)
qed (auto simp: below_def)

lemma roots_apart:
  assumes "x \<in> set (root_ids g)" and "y \<in> set (root_ids g)" and "x \<noteq> y"
  shows "below g x \<inter> below g y = {}" and "x \<notin> below g y"
proof -
  have stuck: "(a, b) \<notin> (links (bg_parents g))\<^sup>*" if "a \<in> set (root_ids g)" "a \<noteq> b" for a b
  proof
    assume "(a, b) \<in> (links (bg_parents g))\<^sup>*"
    then show False by (cases rule: converse_rtranclE) (use that in \<open>auto simp: root_ids_def\<close>)
  qed
  show "x \<notin> below g y" using stuck [OF assms(1,3)] by (simp add: below_def)
  have "(x, y) \<notin> (links (bg_parents g))\<^sup>*" "(y, x) \<notin> (links (bg_parents g))\<^sup>*"
    using stuck [OF assms(1,3)] stuck [OF assms(2)] assms(3) by simp_all
  then have "\<not> ((z, x) \<in> (links (bg_parents g))\<^sup>* \<and> (z, y) \<in> (links (bg_parents g))\<^sup>*)" for z
    using ancestors_linear [of z x "bg_parents g" y] by blast
  then show "below g x \<inter> below g y = {}" unfolding below_def by blast
qed

lemma repository_tree_correct:
  assumes sound: "graph_sound rid (rp_graph c)"
  shows "\<exists>ts. repository_tree rid c = Some (Inr ts) \<and> map node_record ts = graph_roots (rp_graph c) \<and>
    list_all (mirrors rid (rp_graph c)) ts \<and> distinct (map rid (concat (map preorder ts))) \<and>
    set (concat (map preorder ts)) = set (graph_records (rp_graph c))"
proof -
  let ?g = "rp_graph c" and ?ks = "root_ids (rp_graph c)"
  have order: "k \<in> set (bg_source_order ?g)" if "k \<in> set ?ks" for k using that by (simp add: root_ids_def)
  have "\<forall>k \<in> set ?ks. \<exists>t. visits rid c k t \<and> mirrors rid ?g t \<and> node_record t = entry ?g k"
    using tree_loop_visits [OF sound] order by blast
  then obtain t where t: "\<forall>k \<in> set ?ks. visits rid c k (t k) \<and> mirrors rid ?g (t k) \<and> node_record (t k) = entry ?g k"
    by metis
  have distinct: "distinct ?ks" using sound by (simp add: root_ids_def graph_sound_def)
  have roots: "graph_roots ?g = map (entry ?g) ?ks" by (simp add: graph_roots_def root_ids_def)
  have stack: "map (\<lambda>root. (root, False)) (graph_roots ?g) = map (\<lambda>k. (entry ?g k, False)) ?ks @ []"
    by (simp add: roots comp_def)
  obtain nodes where loop: "tree_loop rid c (map (\<lambda>root. (root, False)) (graph_roots ?g)) [] = tree_loop rid c [] nodes"
    "\<forall>k \<in> set ?ks. map_of nodes k = Some (t k)"
    using visit_all [OF _ distinct, of rid c t "[]" "[]"] t roots_apart(2) unfolding stack by blast
  have done_loop: "tree_loop rid c [] nodes = Some (Inr nodes)" by (subst tree_loop.simps) simp
  have "rmap (\<lambda>root. node_at nodes (rid root)) (graph_roots ?g) = Inr (map t ?ks)"
    unfolding roots by (rule nodes_at) (use loop(2) sound_entry_id [OF sound] order in blast)
  then have tree: "repository_tree rid c = Some (Inr (map t ?ks))"
    by (simp add: repository_tree_def Let_def loop(1) done_loop)
  have records: "map node_record (map t ?ks) = graph_roots ?g" unfolding roots using t by simp
  have "list_all2 (\<lambda>t k. lists_below rid ?g (preorder t) (below ?g k)) (map t ?ks) ?ks"
    using t preorder_below [OF sound] order by (simp add: list_all2_conv_all_nth)
  moreover have "\<forall>x \<in> set ?ks. \<forall>y \<in> set ?ks. x \<noteq> y \<longrightarrow> below ?g x \<inter> below ?g y = {}"
    using roots_apart(1) by blast
  ultimately have lists: "lists_below rid ?g (concat (map preorder (map t ?ks))) (set (bg_source_order ?g))"
    using lists_side_by_side [OF _ distinct] below_roots [OF sound] by metis
  have "set (concat (map preorder (map t ?ks))) = entry ?g ` set (bg_source_order ?g)"
  proof (rule subset_antisym)
    show "set (concat (map preorder (map t ?ks))) \<subseteq> entry ?g ` set (bg_source_order ?g)"
      using lists unfolding lists_below_def by blast
    show "entry ?g ` set (bg_source_order ?g) \<subseteq> set (concat (map preorder (map t ?ks)))"
    proof
      fix e
      assume "e \<in> entry ?g ` set (bg_source_order ?g)"
      then obtain k where k: "k \<in> set (bg_source_order ?g)" "e = entry ?g k" by blast
      then have "k \<in> rid ` set (concat (map preorder (map t ?ks)))" using lists unfolding lists_below_def by blast
      then obtain r where r: "r \<in> set (concat (map preorder (map t ?ks)))" "k = rid r" by (elim imageE)
      obtain l where l: "l \<in> set (bg_source_order ?g)" "r = entry ?g l" using lists r(1) unfolding lists_below_def by blast
      have "l = k" using sound_entry_id [OF sound l(1)] l(2) r(2) by simp
      then show "e \<in> set (concat (map preorder (map t ?ks)))" using r(1) l(2) k(2) by simp
    qed
  qed
  then have all: "set (concat (map preorder (map t ?ks))) = set (graph_records ?g)" by (simp add: graph_records_def)
  have "list_all (mirrors rid ?g) (map t ?ks)" using t by (simp add: list_all_iff)
  then show ?thesis using tree records lists all unfolding lists_below_def by blast
qed

end
