(* ===== verification/Repository_Properties.thy ===== *)
theory Repository_Properties
  imports Repository_Tree
begin

text \<open>
  The properties of conversations (\<open>harness/conversation/repository.py\<close>), of every state that creation,
  appending, publishing, selection and reading can lead to.
\<close>

section \<open>Reachable conversations\<close>

lemma delta_ok:
  assumes ok: "repository_ok rid pid c" and delta: "compute_branch_delta rid a b c = Inr (d, c')"
  shows "repository_ok rid pid c'"
proof -
  obtain anc g p c1 where anc: "lowest_common_ancestor rid (rp_graph c) a b = Inr (anc, g)"
    and path: "records_to a (c\<lparr>rp_graph := g\<rparr>) = Inr (p, c1)" and c': "c' = c1"
    using delta by (auto simp: compute_branch_delta_def rbind_Inr_iff)
  have graph: "graph_ok rid pid (rp_graph c)" using ok by (simp add: repository_ok_def)
  obtain d where "g = with_cache d (rp_graph c)"
    using anc path_ok [OF graph] path_ok(4) by (fastforce simp: lowest_common_ancestor_def rbind_Inr_iff)
  then have "repository_ok rid pid (c\<lparr>rp_graph := g\<rparr>)"
    using graph_cached_ok [OF ok common_ancestor_ok [OF graph anc]] by blast
  then show ?thesis using path_to_ok path c' unfolding records_to_def by blast
qed

lemma fork_source_ok:
  "repository_ok rid pid c \<Longrightarrow> fork_repository rid pid h leaf c = Inr (f, c') \<Longrightarrow> repository_ok rid pid c'"
  by (auto simp: fork_repository_def rbind_Inr_iff dest: path_to_ok)

lemma fork_result_ok: "fork_repository rid pid h leaf c = Inr (f, c') \<Longrightarrow> repository_ok rid pid f"
  by (auto simp: fork_repository_def rbind_Inr_iff dest: create_ok)

inductive repository_reachable ::
  "('r \<Rightarrow> string) \<Rightarrow> ('r \<Rightarrow> string option) \<Rightarrow> ('h, 'r) repository \<Rightarrow> bool" for rid pid where
  created: "create_repository rid pid h rs strict leaf = Inr c \<Longrightarrow> repository_reachable rid pid c"
| appended: "repository_reachable rid pid c \<Longrightarrow> repository_append rid pid r c = Inr c' \<Longrightarrow> repository_reachable rid pid c'"
| extended: "repository_reachable rid pid c \<Longrightarrow> repository_with_appended_records rid pid rs c = Inr c' \<Longrightarrow>
    repository_reachable rid pid c'"
| published: "repository_reachable rid pid c \<Longrightarrow> repository_reachable rid pid c0 \<Longrightarrow>
    rp_records c0 = rp_records c \<Longrightarrow> rp_strict c0 = rp_strict c \<Longrightarrow>
    prepare_incremental_append rid pid rs c0 = Inr (Some plan) \<Longrightarrow>
    publish_incremental_append plan True own c = Inr c' \<Longrightarrow> repository_reachable rid pid c'"
| selected: "repository_reachable rid pid c \<Longrightarrow> select_branch k c = Inr c' \<Longrightarrow> repository_reachable rid pid c'"
| unselected: "repository_reachable rid pid c \<Longrightarrow> repository_reachable rid pid (reset_branch c)"
| renamed: "repository_reachable rid pid c \<Longrightarrow> repository_reachable rid pid (set_header h c)"
| path: "repository_reachable rid pid c \<Longrightarrow> path_to k c = Inr (rs, c') \<Longrightarrow> repository_reachable rid pid c'"
| compared: "repository_reachable rid pid c \<Longrightarrow> compute_branch_delta rid a b c = Inr (d, c') \<Longrightarrow> repository_reachable rid pid c'"
| forked_from: "repository_reachable rid pid c \<Longrightarrow> fork_repository rid pid h leaf c = Inr (f, c') \<Longrightarrow> repository_reachable rid pid c'"
| forked: "repository_reachable rid pid c \<Longrightarrow> fork_repository rid pid h leaf c = Inr (f, c') \<Longrightarrow> repository_reachable rid pid f"

lemma repository_reachable_ok: "repository_reachable rid pid c \<Longrightarrow> repository_ok rid pid c"
proof (induction rule: repository_reachable.induct)
  case (published c c0 rs plan own c')
  then show ?case using published_ok(2) [of rid pid c c0] by blast
qed (blast intro: create_ok append_record_ok with_appended_ok select_ok reset_ok header_ok path_to_ok
    delta_ok fork_source_ok fork_result_ok)+

section \<open>Comparing branches\<close>

lemma path_through:
  assumes ok: "graph_ok rid pid g" and path: "path_spec g k p" and k: "k \<in> set (bg_source_order g)"
    and e: "e \<in> set p"
  obtains xs ys where "p = xs @ e # ys" and "path_spec g (rid e) (xs @ [e])" and "rid e \<in> set (bg_source_order g)"
    and "takeWhile (\<lambda>r. rid r \<noteq> rid e) p = xs" and "rid ` set ys \<inter> rid ` set (xs @ [e]) = {}"
proof -
  obtain ks where ids: "map rid p = rev (k # ks)" and lin: "lineage (bg_parents g) (k # ks)" and distinct: "distinct (k # ks)"
    using path_records(2) [OF ok path k] by blast
  obtain js where js: "lineage (bg_parents g) (k # js)" "p = map (\<lambda>i. the (map_of (bg_by_id g) i)) (rev (k # js))"
    using path by (auto simp: path_spec_def)
  obtain xs ys where split: "p = xs @ e # ys" using e by (metis split_list)
  have ids_distinct: "distinct (map rid p)" unfolding ids using distinct by simp
  then have fresh: "rid e \<notin> rid ` set xs" "rid ` set ys \<inter> rid ` set (xs @ [e]) = {}" unfolding split by auto
  have "rid x \<noteq> rid e" if "x \<in> set xs" for x using fresh(1) that by (metis imageI)
  then have tw: "takeWhile (\<lambda>r. rid r \<noteq> rid e) p = xs" unfolding split by (subst takeWhile_append2) simp_all
  have "ks = js" by (rule lineage_unique [OF lin js(1)])
  have parts: "k # ks = rev (map rid ys) @ rid e # rev (map rid xs)"
    using arg_cong [OF ids, of rev] unfolding split by simp
  then have lin_e: "lineage (bg_parents g) (rid e # rev (map rid xs))" using lin lineage_suffix by metis
  have "map (\<lambda>i. the (map_of (bg_by_id g) i)) (map rid p) = map (\<lambda>i. the (map_of (bg_by_id g) i)) (rev (k # js))"
    unfolding ids \<open>ks = js\<close> ..
  then have entries: "map (\<lambda>i. the (map_of (bg_by_id g) i)) (map rid p) = p"
    unfolding js(2) [symmetric] .
  then have "map (\<lambda>i. the (map_of (bg_by_id g) i)) (map rid (xs @ [e])) = xs @ [e]"
    unfolding split by simp
  then have "path_spec g (rid e) (xs @ [e])"
    unfolding path_spec_def using lin_e by (intro exI [of _ "rev (map rid xs)"]) simp
  moreover have "rid e \<in> set (bg_source_order g)"
    using lineage_in_order [OF graph_ok_sound [OF ok] lin k] unfolding parts by auto
  ultimately show ?thesis using that split tw fresh(2) by blast
qed

lemma path_members:
  assumes "graph_ok rid pid g" and "path_spec g k p" and "k \<in> set (bg_source_order g)"
  shows "x \<in> rid ` set p \<longleftrightarrow> (k, x) \<in> (links (bg_parents g))\<^sup>*"
proof -
  obtain ks where ids: "map rid p = rev (k # ks)" and lin: "lineage (bg_parents g) (k # ks)"
    using path_records(2) [OF assms] by blast
  have "rid ` set p = set (k # ks)" using arg_cong [OF ids, of set] by simp
  then show ?thesis using lineage_reaches [OF lin, of x] by blast
qed

lemma delta_correct:
  assumes ok: "repository_ok rid pid c" and a: "a \<in> set (bg_source_order (rp_graph c))"
    and b: "b \<in> set (bg_source_order (rp_graph c))" and text_ids: "\<forall>r \<in> set (rp_records c). not_blank (rid r)"
  shows "\<exists>d c' common c1.
    compute_branch_delta rid a b c = Inr (d, c') \<and> records_to a c = Inr (common @ bd_divergent_records d, c1) \<and>
    (case bd_common_ancestor_id d of
       None \<Rightarrow> common = []
     | Some x \<Rightarrow> common \<noteq> [] \<and> rid (last common) = x \<and> (b, x) \<in> (links (bg_parents (rp_graph c)))\<^sup>*) \<and>
    (\<forall>r \<in> set (bd_divergent_records d). (b, rid r) \<notin> (links (bg_parents (rp_graph c)))\<^sup>*)"
proof -
  let ?g = "rp_graph c" and ?up = "(links (bg_parents (rp_graph c)))\<^sup>*"
  have graph: "graph_ok rid pid ?g" and records: "bg_records ?g = rp_records c" using ok by (simp_all add: repository_ok_def)
  have blank: "not_blank x" if "x \<in> set (bg_source_order ?g)" for x
    using that text_ids order_members [OF graph] records by auto
  obtain p where p: "path_spec ?g a p" "graph_path ?g a = Inr (p, with_cache (Some (a, p)) ?g)"
    using path_total [OF graph a] .
  have read: "records_to a c = Inr (p, c\<lparr>rp_graph := with_cache (Some (a, p)) ?g\<rparr>)"
    using p(2) by (simp add: records_to_def path_to_def)
  obtain anc g1 where anc: "lowest_common_ancestor rid ?g a b = Inr (anc, g1)"
    and lowest: "case anc of
       None \<Rightarrow> \<not> (\<exists>x. (a, x) \<in> ?up \<and> (b, x) \<in> ?up)
     | Some e \<Rightarrow> e \<in> set (bg_records ?g) \<and> (a, rid e) \<in> ?up \<and> (b, rid e) \<in> ?up \<and>
         (\<forall>x. (a, x) \<in> ?up \<longrightarrow> (b, x) \<in> ?up \<longrightarrow> (rid e, x) \<in> ?up)"
    using common_ancestor_correct [OF graph a b] by blast
  have g1: "graph_ok rid pid g1" by (rule common_ancestor_ok [OF graph anc])
  obtain cache where cache: "g1 = with_cache cache ?g"
    using anc path_ok [OF graph] path_ok(4) by (fastforce simp: lowest_common_ancestor_def rbind_Inr_iff)
  have "a \<in> set (bg_source_order g1)" using a cache by simp
  then obtain q where "path_spec g1 a q" "graph_path g1 a = Inr (q, with_cache (Some (a, q)) g1)" using path_total [OF g1] by blast
  moreover from this have "q = p" using path_spec_unique [OF _ p(1)] cache by (simp add: with_cache_update)
  ultimately have reread: "records_to a (c\<lparr>rp_graph := g1\<rparr>) = Inr (p, c\<lparr>rp_graph := with_cache (Some (a, p)) g1\<rparr>)"
    by (simp add: records_to_def path_to_def)
  note members = path_members [OF graph p(1) a]
  show ?thesis
  proof (cases anc)
    case None
    let ?d = "\<lparr>bd_from_id = a, bd_target_id = b, bd_common_ancestor_id = None, bd_divergent_records = p\<rparr>"
    have "compute_branch_delta rid a b c = Inr (?d, c\<lparr>rp_graph := with_cache (Some (a, p)) g1\<rparr>)"
      using anc reread None blank [OF a] blank [OF b] by (simp add: compute_branch_delta_def)
    moreover have "\<forall>r \<in> set p. (b, rid r) \<notin> ?up" using lowest None members by auto
    ultimately show ?thesis using read by (intro exI [of _ ?d] exI [of _ "[]"] exI) auto
  next
    case (Some e)
    then have e: "(a, rid e) \<in> ?up" "(b, rid e) \<in> ?up" "\<forall>x. (a, x) \<in> ?up \<longrightarrow> (b, x) \<in> ?up \<longrightarrow> (rid e, x) \<in> ?up"
      using lowest by simp_all
    have "rid e \<in> rid ` set p" using members e(1) by blast
    then obtain f where f: "f \<in> set p" "rid f = rid e" by force
    obtain xs ys where split: "p = xs @ f # ys" and upper: "path_spec ?g (rid f) (xs @ [f])"
      and here: "rid f \<in> set (bg_source_order ?g)" and tw: "takeWhile (\<lambda>r. rid r \<noteq> rid f) p = xs"
      and apart: "rid ` set ys \<inter> rid ` set (xs @ [f]) = {}"
      using path_through [OF graph p(1) a f(1)] .
    let ?d = "\<lparr>bd_from_id = a, bd_target_id = b, bd_common_ancestor_id = Some (rid e), bd_divergent_records = ys\<rparr>"
    have found: "list_ex (\<lambda>r. rid r = rid e) p" using f by (auto simp: list_ex_iff)
    have rest: "drop (Suc (length (takeWhile (\<lambda>r. rid r \<noteq> rid e) p))) p = ys"
      using tw unfolding f(2) by (simp add: split)
    have "not_blank (rid e)" using blank [OF here] f(2) by simp
    then have delta: "compute_branch_delta rid a b c = Inr (?d, c\<lparr>rp_graph := with_cache (Some (a, p)) g1\<rparr>)"
      using anc reread Some blank [OF a] blank [OF b] found rest by (simp add: compute_branch_delta_def)
    have "(b, rid r) \<notin> ?up" if r: "r \<in> set ys" for r
    proof
      assume "(b, rid r) \<in> ?up"
      moreover have "(a, rid r) \<in> ?up" using members r split by auto
      ultimately have "(rid f, rid r) \<in> ?up" using e(3) f(2) by simp
      then have "rid r \<in> rid ` set (xs @ [f])" using path_members [OF graph upper here] by blast
      then show False using apart r by blast
    qed
    then show ?thesis
      using delta read e(2) f(2) split by (intro exI [of _ ?d] exI [of _ "xs @ [f]"] exI) auto
  qed
qed

section \<open>Sample\<close>

definition sample_conversation :: "(string, string \<times> string option) repository" where
  "sample_conversation =
     \<lparr>rp_header = ''h'', rp_records = sample_rows, rp_strict = True, rp_graph = sample_tree, rp_leaf_id = Some ''d''\<rparr>"

lemma sample_created: "create_repository fst snd ''h'' sample_rows True None = Inr sample_conversation"
  unfolding sample_conversation_def sample_tree_def by code_simp

lemma sample_conversation_reachable: "repository_reachable fst snd sample_conversation"
  by (rule repository_reachable.created [OF sample_created])

section \<open>Properties\<close>

text \<open>
  Property C27. In a strict conversation, however it came about, a record that names the selected leaf as
  its parent extends the active records by itself: whether it is appended, added to a detached copy,
  or prepared and published, and whatever paths were read in between.
\<close>

theorem append_extends_active_records:
  assumes "repository_reachable rid pid c" and "rp_strict c" and "pid r = rp_leaf_id c"
    and "repository_append rid pid r c = Inr c' \<or> repository_with_appended_records rid pid [r] c = Inr c' \<or>
      (\<exists>plan own. prepare_incremental_append rid pid [r] c = Inr (Some plan) \<and> publish_incremental_append plan True own c = Inr c')"
  shows "rp_leaf_id c' = Some (rid r) \<and>
    (\<exists>p c1 c2. active_records c = Inr (p, c1) \<and> active_records c' = Inr (p @ [r], c2))"
proof -
  note ok = repository_reachable_ok [OF assms(1)]
  have graph: "graph_ok rid pid (rp_graph c)" "bg_records (rp_graph c) = rp_records c" "bg_strict (rp_graph c)"
    using ok assms(2) by (simp_all add: repository_ok_def)
  consider "repository_append rid pid r c = Inr c'" | "repository_with_appended_records rid pid [r] c = Inr c'"
    using assms(4) published_ok(1) [OF ok ok refl refl] by blast
  then show ?thesis
  proof cases
    case 1
    then obtain h where h: "branch_graph rid pid True (rp_records c @ [r]) = Inr h"
      and c': "rp_graph c' = h" "rp_leaf_id c' = Some (rid r)"
      using assms(2) by (auto simp: repository_append_def Let_def rbind_Inr_iff)
    have appended: "with_appended_records rid pid (rp_graph c) [r] = Inr (with_cache (bg_path_cache (rp_graph c)) h)"
      using append_ok(1) [OF graph(1), of "[r]"] h graph(2,3) by simp
    have "h = with_cache (bg_path_cache h) (with_cache (bg_path_cache (rp_graph c)) h)" by simp
    then show ?thesis
      using active_grows [OF ok assms(2,3) appended append_record_ok [OF 1]] c' by metis
  next
    case 2
    then obtain g where appended: "with_appended_records rid pid (rp_graph c) [r] = Inr g"
      and c': "rp_graph c' = g" "rp_leaf_id c' = Some (rid r)"
      by (auto simp: repository_with_appended_records_def rbind_Inr_iff last_id_def)
    have "g = with_cache (bg_path_cache g) g" by simp
    then show ?thesis
      using active_grows [OF ok assms(2,3) appended with_appended_ok [OF ok 2]] c' by metis
  qed
qed

theorem append_extends_active_records_witness:
  "\<exists>c' p c1 c2. repository_append fst snd (''e'', Some ''d'') sample_conversation = Inr c' \<and>
     active_records sample_conversation = Inr (p, c1) \<and> active_records c' = Inr (p @ [(''e'', Some ''d'')], c2)"
proof -
  let ?g = "strict_graph fst snd (sample_rows @ [(''e'', Some ''d'')])"
  let ?c = "sample_conversation\<lparr>rp_records := sample_rows @ [(''e'', Some ''d'')], rp_graph := ?g, rp_leaf_id := Some ''e''\<rparr>"
  have "repository_append fst snd (''e'', Some ''d'') sample_conversation = Inr ?c"
    unfolding sample_conversation_def sample_tree_def by code_simp
  moreover have "rp_strict sample_conversation" "rp_leaf_id sample_conversation = Some ''d''"
    by (simp_all add: sample_conversation_def)
  ultimately show ?thesis
    using append_extends_active_records [OF sample_conversation_reachable, of "(''e'', Some ''d'')" ?c] by fastforce
qed

text \<open>
  Forking a strict conversation at a record that it has succeeds: the fork has the given
  header, exactly the records of the path to that record, that record as its leaf and the same active
  records; the conversation itself keeps its records and its selection.
\<close>

theorem fork_keeps_path:
  assumes "repository_reachable rid pid c" and "rp_strict c" and "repository_get c k \<noteq> None"
  shows "\<exists>f c' rs c1 f'. fork_repository rid pid h (Some k) c = Inr (f, c') \<and> records_to k c = Inr (rs, c1) \<and>
    rp_header f = h \<and> rp_records f = rs \<and> rp_leaf_id f = Some k \<and> active_records f = Inr (rs, f') \<and>
    rp_records c' = rp_records c \<and> rp_leaf_id c' = rp_leaf_id c"
proof -
  note ok = repository_reachable_ok [OF assms(1)]
  have graph: "graph_ok rid pid (rp_graph c)" using ok by (simp add: repository_ok_def)
  have k: "k \<in> set (bg_source_order (rp_graph c))"
    using assms(3) graph_get_members [OF graph] by (simp add: repository_get_def)
  obtain rs where rs: "path_spec (rp_graph c) k rs" "graph_path (rp_graph c) k = Inr (rs, with_cache (Some (k, rs)) (rp_graph c))"
    using path_total [OF graph k] .
  let ?c = "c\<lparr>rp_graph := with_cache (Some (k, rs)) (rp_graph c)\<rparr>"
  have read: "path_to (Some k) c = Inr (rs, ?c)" using rs(2) by (simp add: path_to_def)
  obtain f f' where "create_repository rid pid h rs True None = Inr f \<and> rp_header f = h \<and> rp_records f = rs \<and>
      rp_strict f \<and> rp_leaf_id f = Some k \<and> repository_ok rid pid f \<and> active_records f = Inr (rs, f')"
    using fork_of_path [OF ok assms(2) rs(1) k, of h] by (elim exE)
  then have f: "create_repository rid pid h rs True None = Inr f" "rp_header f = h" "rp_records f = rs"
    "rp_leaf_id f = Some k" "active_records f = Inr (rs, f')" by simp_all
  have "fork_repository rid pid h (Some k) c = Inr (f, ?c)"
    using read f(1) assms(2) by (simp add: fork_repository_def)
  moreover have "records_to k c = Inr (rs, ?c)" using read by (simp add: records_to_def)
  ultimately show ?thesis using f(2-5) by (intro exI [of _ f] exI [of _ ?c] exI [of _ rs] exI [of _ f'] conjI) simp_all
qed

theorem fork_keeps_path_witness:
  "\<exists>f c'. fork_repository fst snd ''g'' (Some ''b'') sample_conversation = Inr (f, c') \<and>
     rp_records f = [(''a'', None), (''b'', Some ''a'')] \<and> rp_leaf_id f = Some ''b'' \<and> rp_leaf_id c' = Some ''d''"
proof -
  have found: "repository_get sample_conversation ''b'' \<noteq> None"
    by (simp add: repository_get_def graph_get_def sample_conversation_def sample_tree_def strict_graph_def)
  have fields: "rp_strict sample_conversation" "rp_leaf_id sample_conversation = Some ''d''"
    by (simp_all add: sample_conversation_def)
  have "(case records_to ''b'' sample_conversation of Inl _ \<Rightarrow> [] | Inr (rs, _) \<Rightarrow> rs) = [(''a'', None), (''b'', Some ''a'')]"
    unfolding sample_conversation_def sample_tree_def by code_simp
  then show ?thesis
    using fork_keeps_path [OF sample_conversation_reachable fields(1) found, of "''g''"] fields(2) by force
qed

text \<open>
  The delta from one record to another splits the path to the first: up to the common
  ancestor, which the path to the second shares, and the divergent records, none of which is on the
  path to the second.
\<close>

theorem branch_delta_splits_path:
  assumes "repository_reachable rid pid c" and "repository_get c a \<noteq> None" and "repository_get c b \<noteq> None"
    and "\<forall>r \<in> set (rp_records c). not_blank (rid r)"
  shows "\<exists>d c' common c1.
    compute_branch_delta rid a b c = Inr (d, c') \<and> records_to a c = Inr (common @ bd_divergent_records d, c1) \<and>
    (case bd_common_ancestor_id d of
       None \<Rightarrow> common = []
     | Some x \<Rightarrow> common \<noteq> [] \<and> rid (last common) = x \<and> (b, x) \<in> (links (bg_parents (rp_graph c)))\<^sup>*) \<and>
    (\<forall>r \<in> set (bd_divergent_records d). (b, rid r) \<notin> (links (bg_parents (rp_graph c)))\<^sup>*)"
proof -
  note ok = repository_reachable_ok [OF assms(1)]
  have "graph_ok rid pid (rp_graph c)" using ok by (simp add: repository_ok_def)
  note members = graph_get_members [OF this]
  show ?thesis
    using delta_correct [OF ok _ _ assms(4), of a b] assms(2,3) members [of a] members [of b] by (simp only: repository_get_def)
qed

theorem branch_delta_splits_path_witness:
  "\<exists>d c' common c1. compute_branch_delta fst ''d'' ''b'' sample_conversation = Inr (d, c') \<and>
     records_to ''d'' sample_conversation = Inr (common @ bd_divergent_records d, c1) \<and>
     bd_common_ancestor_id d = Some ''a'' \<and> bd_divergent_records d = [(''c'', Some ''a''), (''d'', Some ''c'')]"
proof -
  have found: "repository_get sample_conversation ''d'' \<noteq> None" "repository_get sample_conversation ''b'' \<noteq> None"
    by (simp_all add: repository_get_def graph_get_def sample_conversation_def sample_tree_def strict_graph_def)
  have text_ids: "\<forall>r \<in> set (rp_records sample_conversation). not_blank (fst r)"
    by (simp add: sample_conversation_def not_blank_def py_space_def code_def)
  have "(case compute_branch_delta fst ''d'' ''b'' sample_conversation of
      Inl _ \<Rightarrow> (None, []) | Inr (d, _) \<Rightarrow> (bd_common_ancestor_id d, bd_divergent_records d)) =
    (Some ''a'', [(''c'', Some ''a''), (''d'', Some ''c'')])"
    unfolding sample_conversation_def sample_tree_def by code_simp
  then show ?thesis
    using branch_delta_splits_path [OF sample_conversation_reachable found text_ids] by force
qed

text \<open>
  Property C28. The loop that builds the tree ends without an error in every conversation, repaired ones
  among them: its roots are the records without a parent, each node has the children of its record in
  their order, and the nodes list every record of the graph, none twice.
\<close>

theorem tree_holds_every_record_once:
  assumes "repository_reachable rid pid c"
  shows "\<exists>ts. repository_tree rid c = Some (Inr ts) \<and> map node_record ts = graph_roots (rp_graph c) \<and>
    list_all (mirrors rid (rp_graph c)) ts \<and> distinct (map rid (concat (map preorder ts))) \<and>
    set (concat (map preorder ts)) = set (graph_records (rp_graph c))"
proof -
  have "graph_ok rid pid (rp_graph c)" using repository_reachable_ok [OF assms] by (simp add: repository_ok_def)
  then show ?thesis by (rule repository_tree_correct [OF graph_ok_sound])
qed

theorem tree_holds_every_record_once_witness:
  "\<exists>ts. repository_tree fst sample_conversation = Some (Inr ts) \<and> map node_record ts = [(''a'', None)] \<and>
     set (concat (map preorder ts)) = set sample_rows"
proof -
  have "graph_roots (rp_graph sample_conversation) = [(''a'', None)]" "graph_records (rp_graph sample_conversation) = sample_rows"
    unfolding sample_conversation_def sample_tree_def by code_simp+
  then show ?thesis using tree_holds_every_record_once [OF sample_conversation_reachable] by metis
qed

end
