(* ===== verification/Conversation_Store.thy ===== *)
theory Conversation_Store
  imports Jsonl_Journal
begin

text \<open>
  The in-memory conversation store (\<open>harness/conversation/stores/memory.py\<close>) and the values of its protocol
  (\<open>harness/conversation/store.py\<close>): conversations by key with an expected revision on every write, the
  operation ids that make writes repeatable, and tombstones of deleted keys.

  The function that reads a record's id is an argument (the store may have none), and so are the
  readings of the clock within one operation, each an aware time. With such a clock an operation that
  raises leaves the store as it was, so a failed operation yields its error alone. (A clock that raises
  between two records of a batch would leave the operations registered before it; that is not modelled.)
\<close>

section \<open>Data\<close>

datatype conversation_store_error =
    BlankStoreText
  | NegativeRevision
  | StoreAlreadyExists
  | StoreNotFound
  | StoreConflict
  | StoreOperationConflict
  | InvalidBatch
  | InvalidPage

record conversation_key =
  ck_namespace :: string
  ck_conversation_id :: string

record ('h, 'r) conversation_snapshot =
  cs_header :: 'h
  cs_records :: "'r list"
  cs_revision :: int

record 't commit_receipt =
  rc_revision :: int
  rc_committed_at :: 't
  rc_record_id :: "string option"

record 't deletion_receipt =
  dr_revision :: int
  dr_deleted_at :: 't
  dr_operation_id :: string

record 't conversation_head =
  ch_key :: conversation_key
  ch_revision :: int
  ch_updated_at :: 't

record ('h, 'r, 't) memory_store =
  ms_snapshots :: "(conversation_key \<times> ('h, 'r) conversation_snapshot) list"
  ms_create_operations :: "(string \<times> conversation_key \<times> ('h, 'r) conversation_snapshot) list"
  ms_append_operations :: "(string \<times> conversation_key \<times> 'r \<times> 't commit_receipt) list"
  ms_delete_operations :: "(string \<times> conversation_key \<times> 't deletion_receipt) list"
  ms_tombstones :: "conversation_key set"

definition empty_store :: "('h, 'r, 't) memory_store" where
  "empty_store = \<lparr>ms_snapshots = [], ms_create_operations = [], ms_append_operations = [],
     ms_delete_operations = [], ms_tombstones = {}\<rparr>"

definition require_operation_id :: "string \<Rightarrow> conversation_store_error + string" where
  "require_operation_id operation = (if not_blank operation then Inr operation else Inl BlankStoreText)"

definition require_revision :: "int \<Rightarrow> conversation_store_error + int" where
  "require_revision revision = (if revision < 0 then Inl NegativeRevision else Inr revision)"

text \<open>\<open>CommitReceipt\<close>; its revision is positive wherever the store makes one.\<close>

definition make_receipt :: "int \<Rightarrow> 't \<Rightarrow> string option \<Rightarrow> conversation_store_error + 't commit_receipt" where
  "make_receipt revision at record_id =
     (case record_id of
        Some k \<Rightarrow> if not_blank k then Inr \<lparr>rc_revision = revision, rc_committed_at = at, rc_record_id = Some k\<rparr>
          else Inl BlankStoreText
      | None \<Rightarrow> Inr \<lparr>rc_revision = revision, rc_committed_at = at, rc_record_id = None\<rparr>)"

section \<open>Operations\<close>

definition create_conversation ::
  "conversation_key \<Rightarrow> 'h \<Rightarrow> 'r list \<Rightarrow> string \<Rightarrow> ('h, 'r, 't) memory_store \<Rightarrow>
     conversation_store_error + ('h, 'r) conversation_snapshot \<times> ('h, 'r, 't) memory_store" where
  "create_conversation key header records operation_id s =
     rbind (require_operation_id operation_id) (\<lambda>operation.
     let requested = \<lparr>cs_header = header, cs_records = records, cs_revision = int (length records)\<rparr> in
     case map_of (ms_create_operations s) operation of
       Some (previous_key, previous_snapshot) \<Rightarrow>
         if previous_key = key \<and> previous_snapshot = requested then Inr (previous_snapshot, s)
         else Inl StoreOperationConflict
     | None \<Rightarrow>
         if map_of (ms_snapshots s) key \<noteq> None \<or> key \<in> ms_tombstones s then Inl StoreAlreadyExists
         else Inr (requested,
           s\<lparr>ms_snapshots := AList.update key requested (ms_snapshots s),
             ms_create_operations := AList.update operation (key, requested) (ms_create_operations s)\<rparr>))"

definition load_conversation ::
  "conversation_key \<Rightarrow> ('h, 'r, 't) memory_store \<Rightarrow> conversation_store_error + ('h, 'r) conversation_snapshot" where
  "load_conversation key s =
     (case map_of (ms_snapshots s) key of None \<Rightarrow> Inl StoreNotFound | Some snapshot \<Rightarrow> Inr snapshot)"

definition append_conversation ::
  "('r \<Rightarrow> string option) option \<Rightarrow> 't \<Rightarrow> conversation_key \<Rightarrow> 'r \<Rightarrow> int \<Rightarrow> string \<Rightarrow> ('h, 'r, 't) memory_store \<Rightarrow>
     conversation_store_error + 't commit_receipt \<times> ('h, 'r, 't) memory_store" where
  "append_conversation record_id now key r expected_revision operation_id s =
     rbind (require_operation_id operation_id) (\<lambda>operation.
     case map_of (ms_append_operations s) operation of
       Some (previous_key, previous_record, previous_result) \<Rightarrow>
         if previous_key = key \<and> previous_record = r then Inr (previous_result, s) else Inl StoreOperationConflict
     | None \<Rightarrow>
         rbind (require_revision expected_revision) (\<lambda>expected.
         rbind (load_conversation key s) (\<lambda>snapshot.
         rbind (require (cs_revision snapshot = expected) StoreConflict) (\<lambda>_.
         let revision = cs_revision snapshot + 1 in
         rbind (make_receipt revision now (case record_id of None \<Rightarrow> None | Some f \<Rightarrow> f r)) (\<lambda>receipt.
         Inr (receipt,
           s\<lparr>ms_snapshots := AList.update key
                \<lparr>cs_header = cs_header snapshot, cs_records = cs_records snapshot @ [r], cs_revision = revision\<rparr>
                (ms_snapshots s),
             ms_append_operations := AList.update operation (key, r, receipt) (ms_append_operations s)\<rparr>))))))"

text \<open>The first loop of \<open>append_batch\<close>: what is known of the \<open>index\<close>-th append of the batch.\<close>

definition previous_append ::
  "('h, 'r, 't) memory_store \<Rightarrow> conversation_key \<Rightarrow> int \<Rightarrow> nat \<times> 'r \<times> string \<Rightarrow>
     conversation_store_error + 't commit_receipt option" where
  "previous_append s key expected = (\<lambda>(index, r, operation).
     case map_of (ms_append_operations s) operation of
       None \<Rightarrow> Inr None
     | Some (previous_key, previous_record, previous_result) \<Rightarrow>
         if previous_key \<noteq> key \<or> previous_record \<noteq> r then Inl StoreOperationConflict
         else if rc_revision previous_result \<noteq> expected + int index + 1 then Inl StoreOperationConflict
         else Inr (Some previous_result))"

text \<open>The second loop: the records of the batch that the conversation already has.\<close>

fun match_stored ::
  "(nat \<Rightarrow> 't) \<Rightarrow> ('h, 'r) conversation_snapshot \<Rightarrow> int \<Rightarrow> nat \<Rightarrow> ('r \<times> string \<times> 't commit_receipt option) list \<Rightarrow>
     't commit_receipt list \<Rightarrow> conversation_store_error + 't commit_receipt list" where
  "match_stored clock snapshot expected index [] receipts = Inr receipts"
| "match_stored clock snapshot expected index ((r, operation, previous) # rest) receipts =
     (let position = expected + int index in
      if cs_revision snapshot \<le> position then Inr receipts
      else if cs_records snapshot ! nat position \<noteq> r then Inl StoreConflict
      else match_stored clock snapshot expected (Suc index) rest
        (receipts @
          [case previous of
             Some receipt \<Rightarrow> receipt
           | None \<Rightarrow> \<lparr>rc_revision = position + 1, rc_committed_at = clock index, rc_record_id = Some operation\<rparr>]))"

text \<open>The third loop: receipts of the records that are new, by their place in the batch.\<close>

definition new_receipts :: "(nat \<Rightarrow> 't) \<Rightarrow> int \<Rightarrow> nat \<Rightarrow> string list \<Rightarrow> 't commit_receipt list" where
  "new_receipts clock expected matched operations =
     map (\<lambda>(offset, operation).
       \<lparr>rc_revision = expected + int offset + 1, rc_committed_at = clock offset, rc_record_id = Some operation\<rparr>)
     (enumerate matched operations)"

text \<open>The writes of \<open>append_batch\<close>: what follows the receipts of the records that were matched.\<close>

definition commit_batch ::
  "(nat \<Rightarrow> 't) \<Rightarrow> conversation_key \<Rightarrow> 'r list \<Rightarrow> int \<Rightarrow> string list \<Rightarrow> ('h, 'r) conversation_snapshot \<Rightarrow>
     't commit_receipt list \<Rightarrow> ('h, 'r, 't) memory_store \<Rightarrow> 't commit_receipt list \<times> ('h, 'r, 't) memory_store" where
  "commit_batch clock key records expected operations snapshot receipts s =
     (let matched = length receipts;
          appended = drop matched records;
          made = new_receipts clock expected matched (drop matched operations) in
      (receipts @ made,
       s\<lparr>ms_append_operations := fold (\<lambda>(operation, r, receipt). AList.update operation (key, r, receipt))
            (zip (drop matched operations) (zip appended made)) (ms_append_operations s),
         ms_snapshots := (if appended = [] then ms_snapshots s
           else AList.update key
             \<lparr>cs_header = cs_header snapshot, cs_records = cs_records snapshot @ appended,
              cs_revision = cs_revision snapshot + int (length appended)\<rparr> (ms_snapshots s))\<rparr>))"

definition append_batch ::
  "('r \<Rightarrow> string option) option \<Rightarrow> (nat \<Rightarrow> 't) \<Rightarrow> conversation_key \<Rightarrow> 'r list \<Rightarrow> int \<Rightarrow> string list \<Rightarrow>
     ('h, 'r, 't) memory_store \<Rightarrow> conversation_store_error + 't commit_receipt list \<times> ('h, 'r, 't) memory_store" where
  "append_batch record_id clock key records expected_revision operation_ids s =
     rbind (rmap require_operation_id operation_ids) (\<lambda>operations.
     rbind (require (records \<noteq> []) InvalidBatch) (\<lambda>_.
     rbind (require (length records = length operations) InvalidBatch) (\<lambda>_.
     rbind (require (distinct operations) StoreOperationConflict) (\<lambda>_.
     case record_id of
       None \<Rightarrow> Inl InvalidBatch
     | Some f \<Rightarrow>
         rbind (require (map f records = map Some operations) StoreOperationConflict) (\<lambda>_.
         rbind (require_revision expected_revision) (\<lambda>expected.
         rbind (load_conversation key s) (\<lambda>snapshot.
         rbind (require (expected \<le> cs_revision snapshot) StoreConflict) (\<lambda>_.
         rbind (rmap (previous_append s key expected) (enumerate 0 (zip records operations))) (\<lambda>previous_results.
         rbind (match_stored clock snapshot expected 0 (zip records (zip operations previous_results)) []) (\<lambda>receipts.
         rbind (require (length records \<le> length receipts \<or> cs_revision snapshot = expected + int (length receipts))
                  StoreConflict) (\<lambda>_.
         Inr (commit_batch clock key records expected operations snapshot receipts s))))))))))))"

definition delete_conversation ::
  "'t \<Rightarrow> conversation_key \<Rightarrow> int \<Rightarrow> string \<Rightarrow> ('h, 'r, 't) memory_store \<Rightarrow>
     conversation_store_error + 't deletion_receipt \<times> ('h, 'r, 't) memory_store" where
  "delete_conversation now key expected_revision operation_id s =
     rbind (require_operation_id operation_id) (\<lambda>operation.
     case map_of (ms_delete_operations s) operation of
       Some (previous_key, previous_receipt) \<Rightarrow>
         if previous_key = key then Inr (previous_receipt, s) else Inl StoreOperationConflict
     | None \<Rightarrow>
         rbind (load_conversation key s) (\<lambda>snapshot.
         rbind (require_revision expected_revision) (\<lambda>expected.
         rbind (require (cs_revision snapshot = expected) StoreConflict) (\<lambda>_.
         let receipt = \<lparr>dr_revision = cs_revision snapshot, dr_deleted_at = now, dr_operation_id = operation\<rparr> in
         Inr (receipt,
           s\<lparr>ms_snapshots := AList.delete key (ms_snapshots s),
             ms_tombstones := insert key (ms_tombstones s),
             ms_delete_operations := AList.update operation (key, receipt) (ms_delete_operations s)\<rparr>)))))"

section \<open>Listing\<close>

text \<open>Keys of one namespace, in the order of their ids.\<close>

definition scan_store :: "string \<Rightarrow> ('h, 'r, 't) memory_store \<Rightarrow> conversation_store_error + conversation_key list" where
  "scan_store namespace s =
     (if not_blank namespace
      then Inr (sort_key ck_conversation_id (filter (\<lambda>key. ck_namespace key = namespace) (keys (ms_snapshots s))))
      else Inl BlankStoreText)"

definition page_offset :: "string option \<Rightarrow> conversation_store_error + nat" where
  "page_offset cursor =
     (case cursor of
        None \<Rightarrow> Inr 0
      | Some text_cursor \<Rightarrow>
          if text_cursor \<noteq> [] \<and> list_all is_digit text_cursor then Inr (nat_of_digits text_cursor) else Inl InvalidPage)"

definition require_page_limit :: "int \<Rightarrow> conversation_store_error + nat" where
  "require_page_limit limit = (if limit < 1 then Inl InvalidPage else Inr (nat limit))"

definition scan_page ::
  "('h \<Rightarrow> 'r list \<Rightarrow> 't) \<Rightarrow> string \<Rightarrow> string option \<Rightarrow> int \<Rightarrow> ('h, 'r, 't) memory_store \<Rightarrow>
     conversation_store_error + 't conversation_head list \<times> string option" where
  "scan_page content_updated_at namespace cursor limit s =
     rbind (scan_store namespace s) (\<lambda>ids.
     rbind (page_offset cursor) (\<lambda>offset.
     rbind (require_page_limit limit) (\<lambda>page_limit.
     let selected = take page_limit (drop offset ids);
         next_offset = offset + length selected in
     Inr (map (\<lambda>key. let snapshot = the (map_of (ms_snapshots s) key) in
            \<lparr>ch_key = key, ch_revision = cs_revision snapshot,
             ch_updated_at = content_updated_at (cs_header snapshot) (cs_records snapshot)\<rparr>) selected,
          if next_offset < length ids then Some (decimal next_offset) else None))))"

end
