(* ===== verification/Store_Properties.thy ===== *)
theory Store_Properties
  imports Conversation_Store "HOL-Library.Sublist"
begin

text \<open>
  Properties of the in-memory conversation store (\<open>harness/conversation/stores/memory.py\<close>): what any
  sequence of operations keeps, and what repeating an operation does.
\<close>

section \<open>Runs\<close>

text \<open>A step is an operation that returned; one that raised changes nothing.\<close>

inductive store_step :: "('h, 'r, 't) memory_store \<Rightarrow> ('h, 'r, 't) memory_store \<Rightarrow> bool" where
  created: "create_conversation key h rs op s = Inr (snap, s') \<Longrightarrow> store_step s s'"
| appended: "append_conversation record_id now key r e op s = Inr (receipt, s') \<Longrightarrow> store_step s s'"
| batch: "append_batch record_id clock key rs e ops s = Inr (receipts, s') \<Longrightarrow> store_step s s'"
| deleted: "delete_conversation now key e op s = Inr (del, s') \<Longrightarrow> store_step s s'"

inductive store_run :: "('h, 'r, 't) memory_store \<Rightarrow> ('h, 'r, 't) memory_store \<Rightarrow> bool" where
  here: "store_run s s"
| further: "store_run s s' \<Longrightarrow> store_step s' s'' \<Longrightarrow> store_run s s''"

section \<open>What one operation does\<close>

lemma load_Inr: "load_conversation key s = Inr snap \<longleftrightarrow> map_of (ms_snapshots s) key = Some snap"
  by (simp add: load_conversation_def split: option.split)

lemma create_cases:
  assumes "create_conversation key h rs op s = Inr (snap, s')"
  obtains (known) "s' = s" and "map_of (ms_create_operations s) op = Some (key, snap)"
  | (fresh) "map_of (ms_snapshots s) key = None" and "key \<notin> ms_tombstones s" and "map_of (ms_create_operations s) op = None"
    and "snap = \<lparr>cs_header = h, cs_records = rs, cs_revision = int (length rs)\<rparr>"
    and "s' = s\<lparr>ms_snapshots := AList.update key snap (ms_snapshots s),
      ms_create_operations := AList.update op (key, snap) (ms_create_operations s)\<rparr>"
proof (cases "map_of (ms_create_operations s) op")
  case (Some known_create)
  then show ?thesis
    using assms known by (cases known_create) (auto simp: create_conversation_def require_operation_id_def rbind_Inr_iff Let_def split: if_splits)
next
  case None
  then show ?thesis
    using assms fresh by (auto simp: create_conversation_def require_operation_id_def rbind_Inr_iff Let_def split: if_splits)
qed

lemma append_cases:
  assumes "append_conversation record_id now key r e op s = Inr (receipt, s')"
  obtains (known) "s' = s" and "map_of (ms_append_operations s) op = Some (key, r, receipt)"
  | (fresh) snap where "map_of (ms_snapshots s) key = Some snap" and "map_of (ms_append_operations s) op = None"
    and "cs_revision snap = e" and "rc_revision receipt = cs_revision snap + 1"
    and "s' = s\<lparr>ms_snapshots := AList.update key
        \<lparr>cs_header = cs_header snap, cs_records = cs_records snap @ [r], cs_revision = cs_revision snap + 1\<rparr> (ms_snapshots s),
      ms_append_operations := AList.update op (key, r, receipt) (ms_append_operations s)\<rparr>"
proof (cases "map_of (ms_append_operations s) op")
  case (Some known_append)
  then show ?thesis
    using assms known by (cases known_append) (auto simp: append_conversation_def require_operation_id_def rbind_Inr_iff split: if_splits)
next
  case None
  obtain snap where load: "map_of (ms_snapshots s) key = Some snap" and expected: "cs_revision snap = e"
    and receipt: "make_receipt (cs_revision snap + 1) now (case record_id of None \<Rightarrow> None | Some f \<Rightarrow> f r) = Inr receipt"
    and s': "s' = s\<lparr>ms_snapshots := AList.update key
        \<lparr>cs_header = cs_header snap, cs_records = cs_records snap @ [r], cs_revision = cs_revision snap + 1\<rparr> (ms_snapshots s),
      ms_append_operations := AList.update op (key, r, receipt) (ms_append_operations s)\<rparr>"
    using assms None by (auto simp: append_conversation_def require_operation_id_def require_revision_def rbind_Inr_iff load_Inr Let_def split: if_splits)
  have "rc_revision receipt = cs_revision snap + 1"
    using receipt by (auto simp: make_receipt_def split: option.splits if_splits)
  then show ?thesis using fresh load None expected s' by blast
qed

lemma delete_cases:
  assumes "delete_conversation now key e op s = Inr (del, s')"
  obtains (known) "s' = s" and "map_of (ms_delete_operations s) op = Some (key, del)"
  | (fresh) snap where "map_of (ms_snapshots s) key = Some snap" and "map_of (ms_delete_operations s) op = None"
    and "s' = s\<lparr>ms_snapshots := AList.delete key (ms_snapshots s), ms_tombstones := insert key (ms_tombstones s),
      ms_delete_operations := AList.update op (key, del) (ms_delete_operations s)\<rparr>"
proof (cases "map_of (ms_delete_operations s) op")
  case (Some known_delete)
  then show ?thesis
    using assms known by (cases known_delete) (auto simp: delete_conversation_def require_operation_id_def rbind_Inr_iff split: if_splits)
next
  case None
  obtain snap where "map_of (ms_snapshots s) key = Some snap"
    and "s' = s\<lparr>ms_snapshots := AList.delete key (ms_snapshots s), ms_tombstones := insert key (ms_tombstones s),
      ms_delete_operations := AList.update op (key, del) (ms_delete_operations s)\<rparr>"
    using assms None by (auto simp: delete_conversation_def require_operation_id_def require_revision_def rbind_Inr_iff load_Inr Let_def split: if_splits)
  then show ?thesis using fresh None by blast
qed

section \<open>Batches\<close>

text \<open>What \<open>match_stored\<close> adds to the receipts it is given, for the records \<open>xs\<close> from place \<open>i\<close> of the batch on.\<close>

definition matched_receipts ::
  "('h, 'r) conversation_snapshot \<Rightarrow> int \<Rightarrow> nat \<Rightarrow> ('r \<times> string \<times> 't commit_receipt option) list \<Rightarrow>
     't commit_receipt list \<Rightarrow> bool" where
  "matched_receipts snap e i xs new \<longleftrightarrow>
     length new \<le> length xs \<and> (length new = length xs \<or> cs_revision snap \<le> e + int (i + length new)) \<and>
     (\<forall>j < length new. e + int (i + j) < cs_revision snap \<and> cs_records snap ! nat (e + int (i + j)) = fst (xs ! j) \<and>
        rc_revision (new ! j) = e + int (i + j) + 1)"

lemma matched_receipts_Cons:
  assumes "matched_receipts snap e (Suc i) xs new" and "e + int i < cs_revision snap"
    and "cs_records snap ! nat (e + int i) = fst x" and "rc_revision rc = e + int i + 1"
  shows "matched_receipts snap e i (x # xs) (rc # new)"
  unfolding matched_receipts_def
proof (intro conjI allI impI)
  fix j
  assume "j < length (rc # new)"
  then show "e + int (i + j) < cs_revision snap" "cs_records snap ! nat (e + int (i + j)) = fst ((x # xs) ! j)"
    "rc_revision ((rc # new) ! j) = e + int (i + j) + 1"
    using assms by (cases j; simp add: matched_receipts_def)+
qed (use assms(1) in \<open>auto simp: matched_receipts_def\<close>)

definition previous_fit :: "int \<Rightarrow> nat \<Rightarrow> ('r \<times> string \<times> 't commit_receipt option) list \<Rightarrow> bool" where
  "previous_fit e i xs \<longleftrightarrow>
     (\<forall>j < length xs. \<forall>rc. snd (snd (xs ! j)) = Some rc \<longrightarrow> rc_revision rc = e + int (i + j) + 1)"

lemma previous_fit_Cons: "previous_fit e i (x # xs) \<Longrightarrow>
    previous_fit e (Suc i) xs \<and> (\<forall>rc. snd (snd x) = Some rc \<longrightarrow> rc_revision rc = e + int i + 1)"
proof -
  assume fit: "previous_fit e i (x # xs)"
  have "previous_fit e (Suc i) xs"
    unfolding previous_fit_def
  proof (intro allI impI)
    fix j rc
    assume "j < length xs" "snd (snd (xs ! j)) = Some rc"
    then have "rc_revision rc = e + int (i + Suc j) + 1"
      using fit [unfolded previous_fit_def, rule_format, of "Suc j" rc] by simp
    then show "rc_revision rc = e + int (Suc i + j) + 1" by simp
  qed
  then show ?thesis using fit [unfolded previous_fit_def, rule_format, of 0] by simp
qed

lemma match_stored_matches:
  assumes "match_stored clock snap e i xs acc = Inr receipts" and "previous_fit e i xs"
  shows "\<exists>new. receipts = acc @ new \<and> matched_receipts snap e i xs new"
  using assms
proof (induction clock snap e i xs acc rule: match_stored.induct)
  case (1 clock snap e i receipts)
  then show ?case by (simp add: matched_receipts_def)
next
  case (2 clock snap e i r op previous rest acc)
  show ?case
  proof (cases "cs_revision snap \<le> e + int i")
    case True
    then show ?thesis using "2.prems"(1) by (auto simp: Let_def matched_receipts_def)
  next
    case False
    let ?rc = "case previous of Some receipt \<Rightarrow> receipt
      | None \<Rightarrow> \<lparr>rc_revision = e + int i + 1, rc_committed_at = clock i, rc_record_id = Some op\<rparr>"
    have same: "cs_records snap ! nat (e + int i) = r"
      and rest: "match_stored clock snap e (Suc i) rest (acc @ [?rc]) = Inr receipts"
      using "2.prems"(1) False by (auto simp: Let_def split: if_splits)
    note fit = previous_fit_Cons [OF "2.prems"(2)]
    have rev: "rc_revision ?rc = e + int i + 1" using fit by (auto split: option.split)
    obtain new where new: "receipts = (acc @ [?rc]) @ new" "matched_receipts snap e (Suc i) rest new"
      using "2.IH" [OF refl False] same rest fit by auto
    have "matched_receipts snap e i ((r, op, previous) # rest) (?rc # new)"
      using matched_receipts_Cons [OF new(2), of "(r, op, previous)" ?rc] False same rev by simp
    then show ?thesis using new(1) by (intro exI [of _ "?rc # new"]) simp
  qed
qed

text \<open>Conversely a batch that the conversation holds at its place matches to the end.\<close>

lemma match_stored_all:
  assumes "\<forall>j < length xs. e + int (i + j) < cs_revision snap \<and> cs_records snap ! nat (e + int (i + j)) = fst (xs ! j)"
  shows "\<exists>receipts. match_stored clock snap e i xs acc = Inr receipts \<and> length receipts = length acc + length xs"
  using assms
proof (induction xs arbitrary: i acc)
  case Nil
  then show ?case by simp
next
  case (Cons x xs)
  obtain r op previous where x: "x = (r, op, previous)" by (cases x)
  have first: "e + int i < cs_revision snap" "cs_records snap ! nat (e + int i) = r"
    using Cons.prems [rule_format, of 0] x by simp_all
  have "\<forall>j < length xs. e + int (Suc i + j) < cs_revision snap \<and> cs_records snap ! nat (e + int (Suc i + j)) = fst (xs ! j)"
  proof (intro allI impI)
    fix j
    assume "j < length xs"
    then show "e + int (Suc i + j) < cs_revision snap \<and> cs_records snap ! nat (e + int (Suc i + j)) = fst (xs ! j)"
      using Cons.prems [rule_format, of "Suc j"] by simp
  qed
  then have "\<exists>receipts. match_stored clock snap e (Suc i) xs acc' = Inr receipts \<and> length receipts = length acc' + length xs" for acc'
    by (rule Cons.IH)
  then show ?case using first unfolding x by (simp add: Let_def) (metis add_Suc length_append_singleton)
qed

lemma rmap_operation_ids: "rmap require_operation_id ops = Inr ops' \<longleftrightarrow> list_all not_blank ops \<and> ops' = ops"
  by (induction ops arbitrary: ops') (auto simp: rbind_Inr_iff require_operation_id_def)

text \<open>A batch that returned, by its parts.\<close>

definition batch_request :: "('r \<Rightarrow> string option) option \<Rightarrow> 'r list \<Rightarrow> int \<Rightarrow> string list \<Rightarrow> bool" where
  "batch_request record_id rs e ops \<longleftrightarrow>
     (\<exists>f. record_id = Some f \<and> map f rs = map Some ops) \<and>
     list_all not_blank ops \<and> distinct ops \<and> length rs = length ops \<and> rs \<noteq> [] \<and> 0 \<le> e"

lemma batch_Inr:
  "append_batch record_id clock key rs e ops s = Inr (receipts, s') \<longleftrightarrow>
   batch_request record_id rs e ops \<and>
   (\<exists>snap prev stored.
      map_of (ms_snapshots s) key = Some snap \<and> e \<le> cs_revision snap \<and>
      rmap (previous_append s key e) (enumerate 0 (zip rs ops)) = Inr prev \<and>
      match_stored clock snap e 0 (zip rs (zip ops prev)) [] = Inr stored \<and>
      (length rs \<le> length stored \<or> cs_revision snap = e + int (length stored)) \<and>
      commit_batch clock key rs e ops snap stored s = (receipts, s'))"
proof (cases record_id)
  case None
  then show ?thesis by (auto simp: append_batch_def batch_request_def rbind_Inr_iff)
next
  case (Some f)
  show ?thesis
    unfolding append_batch_def batch_request_def Some option.case rbind_Inr_iff rmap_operation_ids require_revision_def load_Inr Let_def
    by (auto split: if_splits)
qed

section \<open>The invariant\<close>

definition receipt_holds :: "('h, 'r, 't) memory_store \<Rightarrow> conversation_key \<Rightarrow> 'r \<Rightarrow> int \<Rightarrow> bool" where
  "receipt_holds s key r revision \<longleftrightarrow>
     (\<exists>snap. map_of (ms_snapshots s) key = Some snap \<and> 1 \<le> revision \<and> revision \<le> cs_revision snap \<and>
        cs_records snap ! nat (revision - 1) = r)"

definition store_ok :: "('h, 'r, 't) memory_store \<Rightarrow> bool" where
  "store_ok s \<longleftrightarrow>
     (\<forall>key snap. map_of (ms_snapshots s) key = Some snap \<longrightarrow>
        cs_revision snap = int (length (cs_records snap)) \<and> key \<notin> ms_tombstones s) \<and>
     (\<forall>op key r rc. map_of (ms_append_operations s) op = Some (key, r, rc) \<longrightarrow>
        key \<in> ms_tombstones s \<or> receipt_holds s key r (rc_revision rc))"

text \<open>Later: nothing acknowledged is forgotten, conversations only grow, deleted ones do not return.\<close>

definition store_before :: "('h, 'r, 't) memory_store \<Rightarrow> ('h, 'r, 't) memory_store \<Rightarrow> bool" where
  "store_before s s' \<longleftrightarrow>
     map_of (ms_create_operations s) \<subseteq>\<^sub>m map_of (ms_create_operations s') \<and>
     map_of (ms_append_operations s) \<subseteq>\<^sub>m map_of (ms_append_operations s') \<and>
     map_of (ms_delete_operations s) \<subseteq>\<^sub>m map_of (ms_delete_operations s') \<and>
     ms_tombstones s \<subseteq> ms_tombstones s' \<and>
     (\<forall>key snap. map_of (ms_snapshots s) key = Some snap \<longrightarrow> key \<in> ms_tombstones s' \<or>
        (\<exists>snap'. map_of (ms_snapshots s') key = Some snap' \<and> cs_header snap' = cs_header snap \<and>
           prefix (cs_records snap) (cs_records snap')))"

lemma store_before_refl: "store_before s s"
  by (auto simp: store_before_def)

lemma store_before_trans: "store_before s t \<Longrightarrow> store_before t u \<Longrightarrow> store_before s u"
  unfolding store_before_def
proof (intro conjI allI impI; elim conjE)
  fix key snap
  assume st: "\<forall>key snap. map_of (ms_snapshots s) key = Some snap \<longrightarrow> key \<in> ms_tombstones t \<or>
      (\<exists>snap'. map_of (ms_snapshots t) key = Some snap' \<and> cs_header snap' = cs_header snap \<and> prefix (cs_records snap) (cs_records snap'))"
    and tu: "\<forall>key snap. map_of (ms_snapshots t) key = Some snap \<longrightarrow> key \<in> ms_tombstones u \<or>
      (\<exists>snap'. map_of (ms_snapshots u) key = Some snap' \<and> cs_header snap' = cs_header snap \<and> prefix (cs_records snap) (cs_records snap'))"
    and tombs: "ms_tombstones t \<subseteq> ms_tombstones u" and here: "map_of (ms_snapshots s) key = Some snap"
  from st here consider "key \<in> ms_tombstones t" | snap' where "map_of (ms_snapshots t) key = Some snap'"
    "cs_header snap' = cs_header snap" "prefix (cs_records snap) (cs_records snap')" by blast
  then show "key \<in> ms_tombstones u \<or> (\<exists>snap'. map_of (ms_snapshots u) key = Some snap' \<and>
      cs_header snap' = cs_header snap \<and> prefix (cs_records snap) (cs_records snap'))"
  proof cases
    case 1
    then show ?thesis using tombs by blast
  next
    case 2
    then show ?thesis using tu prefix_order.trans by metis
  qed
qed (blast intro: map_le_trans)+

text \<open>An operation that lengthens one conversation and registers appends for the new places.\<close>

lemma growth_ok:
  assumes ok: "store_ok s" and here: "map_of (ms_snapshots s) key = Some snap"
    and snaps: "map_of (ms_snapshots s') = (map_of (ms_snapshots s))
      (key \<mapsto> \<lparr>cs_header = cs_header snap, cs_records = cs_records snap @ new, cs_revision = cs_revision snap + int (length new)\<rparr>)"
    and tombs: "ms_tombstones s' = ms_tombstones s"
    and others: "map_of (ms_create_operations s') = map_of (ms_create_operations s)"
      "map_of (ms_delete_operations s') = map_of (ms_delete_operations s)"
    and kept: "map_of (ms_append_operations s) \<subseteq>\<^sub>m map_of (ms_append_operations s')"
    and added: "\<And>op k r rc. map_of (ms_append_operations s') op = Some (k, r, rc) \<Longrightarrow>
      map_of (ms_append_operations s) op = Some (k, r, rc) \<or>
      k = key \<and> (\<exists>i < length new. rc_revision rc = cs_revision snap + int i + 1 \<and> new ! i = r)"
  shows "store_ok s' \<and> store_before s s'"
proof
  let ?snap = "\<lparr>cs_header = cs_header snap, cs_records = cs_records snap @ new, cs_revision = cs_revision snap + int (length new)\<rparr>"
  have rev: "cs_revision snap = int (length (cs_records snap))" and alive: "key \<notin> ms_tombstones s"
    using ok here by (auto simp: store_ok_def)
  have old: "receipt_holds s' k r v" if "receipt_holds s k r v" for k r v
  proof (cases "k = key")
    case False
    then show ?thesis using that snaps by (simp add: receipt_holds_def)
  next
    case True
    then have v: "1 \<le> v" "v \<le> int (length (cs_records snap))" "cs_records snap ! nat (v - 1) = r"
      using that here rev by (simp_all add: receipt_holds_def)
    then have "nat (v - 1) < length (cs_records snap)" by linarith
    then show ?thesis using v True snaps rev by (simp add: receipt_holds_def nth_append)
  qed
  have fresh: "receipt_holds s' key r (cs_revision snap + int i + 1)" if "i < length new" "new ! i = r" for i r
    using that snaps rev by (simp add: receipt_holds_def nth_append nat_add_distrib)
  show "store_ok s'"
    unfolding store_ok_def
  proof (intro conjI allI impI)
    fix k sn
    assume "map_of (ms_snapshots s') k = Some sn"
    then show "cs_revision sn = int (length (cs_records sn))" "k \<notin> ms_tombstones s'"
      using ok snaps tombs rev alive by (auto simp: store_ok_def split: if_splits)
  next
    fix op k r rc
    assume "map_of (ms_append_operations s') op = Some (k, r, rc)"
    then consider "map_of (ms_append_operations s) op = Some (k, r, rc)"
      | i where "k = key" "i < length new" "rc_revision rc = cs_revision snap + int i + 1" "new ! i = r"
      using added by blast
    then show "k \<in> ms_tombstones s' \<or> receipt_holds s' k r (rc_revision rc)"
    proof cases
      case 1
      then have "k \<in> ms_tombstones s \<or> receipt_holds s k r (rc_revision rc)" using ok unfolding store_ok_def by blast
      then show ?thesis using old tombs by blast
    next
      case 2
      then show ?thesis using fresh by simp
    qed
  qed
  show "store_before s s'"
    unfolding store_before_def using kept others tombs snaps here by auto
qed

lemma store_ok_kept:
  assumes "store_ok s" and "ms_append_operations s' = ms_append_operations s" and "ms_tombstones s \<subseteq> ms_tombstones s'"
    and "\<And>k r v. k \<notin> ms_tombstones s' \<Longrightarrow> receipt_holds s k r v \<Longrightarrow> receipt_holds s' k r v"
    and "\<And>k sn. map_of (ms_snapshots s') k = Some sn \<Longrightarrow> cs_revision sn = int (length (cs_records sn)) \<and> k \<notin> ms_tombstones s'"
  shows "store_ok s'"
  unfolding store_ok_def
proof (intro conjI allI impI)
  fix op k r rc
  assume "map_of (ms_append_operations s') op = Some (k, r, rc)"
  then have "k \<in> ms_tombstones s \<or> receipt_holds s k r (rc_revision rc)"
    using assms(1,2) unfolding store_ok_def by metis
  then show "k \<in> ms_tombstones s' \<or> receipt_holds s' k r (rc_revision rc)" using assms(3,4) by blast
qed (use assms(5) in blast)+

lemma store_ok_empty: "store_ok empty_store"
  by (simp add: store_ok_def empty_store_def)

lemma create_ok_before:
  assumes "store_ok s" and "create_conversation key h rs op s = Inr (snap, s')"
  shows "store_ok s' \<and> store_before s s' \<and> map_of (ms_create_operations s') op = Some (key, snap)"
  using assms(2)
proof (cases rule: create_cases)
  case known
  then show ?thesis using assms(1) store_before_refl by blast
next
  case fresh
  have fields: "map_of (ms_snapshots s') = (map_of (ms_snapshots s))(key \<mapsto> snap)"
    "ms_append_operations s' = ms_append_operations s" "ms_tombstones s' = ms_tombstones s" using fresh(5) by simp_all
  have "store_ok s'"
  proof (rule store_ok_kept [OF assms(1) fields(2)])
    show "receipt_holds s' k r v" if "receipt_holds s k r v" for k r v
      using that fresh(1) fields(1) by (auto simp: receipt_holds_def)
    show "cs_revision sn = int (length (cs_records sn)) \<and> k \<notin> ms_tombstones s'" if "map_of (ms_snapshots s') k = Some sn" for k sn
      using that assms(1) fresh(2,4) fields(1,3) unfolding store_ok_def by (auto split: if_splits)
  qed (simp add: fields(3))
  moreover have "store_before s s'" using fresh by (auto simp: store_before_def map_le_def)
  ultimately show ?thesis using fresh(5) by simp
qed

lemma append_ok_before:
  assumes ok: "store_ok s" and "append_conversation record_id now key r e op s = Inr (receipt, s')"
  shows "store_ok s' \<and> store_before s s' \<and> map_of (ms_append_operations s') op = Some (key, r, receipt)"
  using assms(2)
proof (cases rule: append_cases)
  case known
  then show ?thesis using ok store_before_refl by blast
next
  case (fresh snap)
  have "store_ok s' \<and> store_before s s'"
    by (rule growth_ok [OF ok fresh(1), of s' "[r]"]) (use fresh in \<open>auto simp: map_le_def split: if_splits\<close>)
  then show ?thesis using fresh(5) by simp
qed

lemma delete_ok_before:
  assumes ok: "store_ok s" and "delete_conversation now key e op s = Inr (del, s')"
  shows "store_ok s' \<and> store_before s s' \<and> map_of (ms_delete_operations s') op = Some (key, del)"
  using assms(2)
proof (cases rule: delete_cases)
  case known
  then show ?thesis using ok store_before_refl by blast
next
  case (fresh snap)
  have snaps: "map_of (ms_snapshots s') = (map_of (ms_snapshots s))(key := None)"
    using fresh(3) by (simp add: delete_conv')
  have fields: "ms_append_operations s' = ms_append_operations s" "ms_tombstones s' = insert key (ms_tombstones s)"
    using fresh(3) by simp_all
  have "store_ok s'"
  proof (rule store_ok_kept [OF ok fields(1)])
    show "receipt_holds s' k r v" if "k \<notin> ms_tombstones s'" "receipt_holds s k r v" for k r v
      using that snaps fields(2) by (simp add: receipt_holds_def)
    show "cs_revision sn = int (length (cs_records sn)) \<and> k \<notin> ms_tombstones s'" if "map_of (ms_snapshots s') k = Some sn" for k sn
      using that ok snaps fields(2) unfolding store_ok_def by (auto split: if_splits)
  qed (simp add: fields(2) subset_insertI)
  moreover have "store_before s s'" using fresh snaps by (auto simp: store_before_def map_le_def)
  ultimately show ?thesis using fresh(3) by simp
qed

section \<open>What a batch does\<close>

lemma map_of_register:
  "distinct (map fst xs) \<Longrightarrow>
     map_of (fold (\<lambda>(op, r, rc). AList.update op (key, r, rc)) xs d) op =
       (case map_of xs op of Some (r, rc) \<Rightarrow> Some (key, r, rc) | None \<Rightarrow> map_of d op)"
proof (induction xs arbitrary: d)
  case Nil
  then show ?case by simp
next
  case (Cons x xs)
  obtain o' r rc where x: "x = (o', r, rc)" by (cases x)
  have "o' \<notin> set (map fst xs)" using Cons.prems x by simp
  then have "map_of xs o' = None" by (simp add: map_of_eq_None_iff)
  then show ?case using Cons x by (auto split: option.split)
qed

lemma new_receipts_nth:
  "i < length ops \<Longrightarrow> new_receipts clock e m ops ! i =
     \<lparr>rc_revision = e + int (m + i) + 1, rc_committed_at = clock (m + i), rc_record_id = Some (ops ! i)\<rparr>"
  by (simp add: new_receipts_def nth_enumerate_eq)

lemma length_new_receipts [simp]: "length (new_receipts clock e m ops) = length ops"
  by (simp add: new_receipts_def)

text \<open>What the first loop found about the appends of the batch.\<close>

lemma previous_appends:
  assumes "rmap (previous_append s key e) (enumerate 0 (zip rs ops)) = Inr prev" and "length rs = length ops"
  shows "length prev = length rs"
    and "j < length rs \<Longrightarrow> (case prev ! j of
       None \<Rightarrow> map_of (ms_append_operations s) (ops ! j) = None
     | Some rc \<Rightarrow> map_of (ms_append_operations s) (ops ! j) = Some (key, rs ! j, rc) \<and> rc_revision rc = e + int j + 1)"
proof -
  have all: "list_all2 (\<lambda>x y. previous_append s key e x = Inr y) (enumerate 0 (zip rs ops)) prev"
    using assms(1) by (simp add: rmap_Inr_iff)
  then show "length prev = length rs" using assms(2) by (auto dest: list_all2_lengthD)
  show "case prev ! j of
       None \<Rightarrow> map_of (ms_append_operations s) (ops ! j) = None
     | Some rc \<Rightarrow> map_of (ms_append_operations s) (ops ! j) = Some (key, rs ! j, rc) \<and> rc_revision rc = e + int j + 1"
    if "j < length rs"
  proof -
    have "previous_append s key e (j, rs ! j, ops ! j) = Inr (prev ! j)"
      using list_all2_nthD [OF all, of j] that assms(2) by (simp add: nth_enumerate_eq)
    then show ?thesis
      by (cases "prev ! j"; cases "map_of (ms_append_operations s) (ops ! j)")
        (auto simp: previous_append_def split: prod.splits if_splits)
  qed
qed

lemma batch_effect:
  assumes ok: "store_ok s" and batch: "append_batch record_id clock key rs e ops s = Inr (receipts, s')"
  obtains snap m where "map_of (ms_snapshots s) key = Some snap" and "m \<le> length rs" and "0 \<le> e" and "e \<le> cs_revision snap"
    and "m = length rs \<or> cs_revision snap = e + int m"
    and "\<forall>j < m. e + int j < cs_revision snap \<and> cs_records snap ! nat (e + int j) = rs ! j"
    and "map_of (ms_snapshots s') = (map_of (ms_snapshots s)) (key \<mapsto> \<lparr>cs_header = cs_header snap,
      cs_records = cs_records snap @ drop m rs, cs_revision = cs_revision snap + int (length (drop m rs))\<rparr>)"
    and "ms_tombstones s' = ms_tombstones s" and "ms_create_operations s' = ms_create_operations s"
    and "ms_delete_operations s' = ms_delete_operations s"
    and "\<forall>op. map_of (ms_append_operations s') op =
      (case map_of (zip (drop m ops) (zip (drop m rs) (new_receipts clock e m (drop m ops)))) op of
         Some (r, rc) \<Rightarrow> Some (key, r, rc) | None \<Rightarrow> map_of (ms_append_operations s) op)"
    and "length receipts = length rs" and "\<forall>j < length rs. rc_revision (receipts ! j) = e + int j + 1"
    and "length rs = length ops" and "distinct ops"
    and "\<forall>j < length rs. \<forall>k r rc. map_of (ms_append_operations s) (ops ! j) = Some (k, r, rc) \<longrightarrow>
      k = key \<and> r = rs ! j \<and> rc_revision rc = e + int j + 1"
proof -
  obtain snap prev stored where request: "batch_request record_id rs e ops"
    and snap: "map_of (ms_snapshots s) key = Some snap" "e \<le> cs_revision snap"
    and prev: "rmap (previous_append s key e) (enumerate 0 (zip rs ops)) = Inr prev"
    and stored: "match_stored clock snap e 0 (zip rs (zip ops prev)) [] = Inr stored"
    and last: "length rs \<le> length stored \<or> cs_revision snap = e + int (length stored)"
    and commit: "commit_batch clock key rs e ops snap stored s = (receipts, s')"
    using batch unfolding batch_Inr by blast
  have len: "length rs = length ops" "distinct ops" "0 \<le> e" using request by (auto simp: batch_request_def)
  note known = previous_appends [OF prev len(1)]
  have fit: "previous_fit e 0 (zip rs (zip ops prev))"
    unfolding previous_fit_def
  proof (intro allI impI)
    fix j rc
    assume "j < length (zip rs (zip ops prev))" "snd (snd (zip rs (zip ops prev) ! j)) = Some rc"
    then show "rc_revision rc = e + int (0 + j) + 1" using known len(1) by fastforce
  qed
  let ?m = "length stored"
  have matched: "matched_receipts snap e 0 (zip rs (zip ops prev)) stored"
    using match_stored_matches [OF stored fit] by simp
  have m: "?m \<le> length rs" using matched known(1) len(1) by (simp add: matched_receipts_def)
  have held: "\<forall>j < ?m. e + int j < cs_revision snap \<and> cs_records snap ! nat (e + int j) = rs ! j \<and> rc_revision (stored ! j) = e + int j + 1"
    using matched known(1) len(1) m by (simp add: matched_receipts_def)
  have receipts: "receipts = stored @ new_receipts clock e ?m (drop ?m ops)"
    and s': "s' = s\<lparr>ms_append_operations := fold (\<lambda>(op, r, rc). AList.update op (key, r, rc))
         (zip (drop ?m ops) (zip (drop ?m rs) (new_receipts clock e ?m (drop ?m ops)))) (ms_append_operations s),
       ms_snapshots := (if drop ?m rs = [] then ms_snapshots s
         else AList.update key \<lparr>cs_header = cs_header snap, cs_records = cs_records snap @ drop ?m rs,
           cs_revision = cs_revision snap + int (length (drop ?m rs))\<rparr> (ms_snapshots s))\<rparr>"
    using commit by (auto simp: commit_batch_def Let_def)
  have "map fst (zip (drop ?m ops) (zip (drop ?m rs) (new_receipts clock e ?m (drop ?m ops)))) = drop ?m ops"
    using len(1) by simp
  then have register: "map_of (ms_append_operations s') op =
      (case map_of (zip (drop ?m ops) (zip (drop ?m rs) (new_receipts clock e ?m (drop ?m ops)))) op of
         Some (r, rc) \<Rightarrow> Some (key, r, rc) | None \<Rightarrow> map_of (ms_append_operations s) op)" for op
    unfolding s' using map_of_register [of "zip (drop ?m ops) (zip (drop ?m rs) (new_receipts clock e ?m (drop ?m ops)))" key] len(2)
    by simp
  have snaps: "map_of (ms_snapshots s') = (map_of (ms_snapshots s)) (key \<mapsto> \<lparr>cs_header = cs_header snap,
      cs_records = cs_records snap @ drop ?m rs, cs_revision = cs_revision snap + int (length (drop ?m rs))\<rparr>)"
    using snap(1) unfolding s' by (auto simp: fun_eq_iff)
  have revs: "rc_revision (receipts ! j) = e + int j + 1" if "j < length rs" for j
  proof (cases "j < ?m")
    case True
    then show ?thesis using held by (simp add: receipts nth_append)
  next
    case False
    then show ?thesis using that len(1) by (simp add: receipts nth_append new_receipts_nth)
  qed
  have fields: "ms_tombstones s' = ms_tombstones s" "ms_create_operations s' = ms_create_operations s"
    "ms_delete_operations s' = ms_delete_operations s" unfolding s' by simp_all
  have known_fit: "\<forall>j < length rs. \<forall>k r rc. map_of (ms_append_operations s) (ops ! j) = Some (k, r, rc) \<longrightarrow>
      k = key \<and> r = rs ! j \<and> rc_revision rc = e + int j + 1"
  proof (intro allI impI)
    fix j k r rc
    assume "j < length rs" "map_of (ms_append_operations s) (ops ! j) = Some (k, r, rc)"
    then show "k = key \<and> r = rs ! j \<and> rc_revision rc = e + int j + 1"
      using known(2) [of j] by (cases "prev ! j") auto
  qed
  have size: "length receipts = length rs" using m len(1) by (simp add: receipts)
  show ?thesis
  proof (rule that [OF snap(1) m len(3) snap(2) _ _ snaps fields _ size _ len(1,2) known_fit])
    show "?m = length rs \<or> cs_revision snap = e + int ?m" using last m by auto
  qed (use held register revs in blast)+
qed

lemma batch_tombstones:
  assumes "store_ok s" and "append_batch record_id clock key rs e ops s = Inr (receipts, s')"
  shows "ms_tombstones s' = ms_tombstones s"
  using assms(2) by (rule batch_effect [OF assms(1)])

lemma batch_ok_before:
  assumes ok: "store_ok s" and batch: "append_batch record_id clock key rs e ops s = Inr (receipts, s')"
  shows "store_ok s' \<and> store_before s s'"
  using batch
proof (rule batch_effect [OF ok])
  fix snap m
  assume snap: "map_of (ms_snapshots s) key = Some snap" and m: "m \<le> length rs" "m = length rs \<or> cs_revision snap = e + int m"
    and snaps: "map_of (ms_snapshots s') = (map_of (ms_snapshots s)) (key \<mapsto> \<lparr>cs_header = cs_header snap,
      cs_records = cs_records snap @ drop m rs, cs_revision = cs_revision snap + int (length (drop m rs))\<rparr>)"
    and tombs: "ms_tombstones s' = ms_tombstones s" and others: "ms_create_operations s' = ms_create_operations s"
      "ms_delete_operations s' = ms_delete_operations s"
    and register: "\<forall>op. map_of (ms_append_operations s') op =
      (case map_of (zip (drop m ops) (zip (drop m rs) (new_receipts clock e m (drop m ops)))) op of
         Some (r, rc) \<Rightarrow> Some (key, r, rc) | None \<Rightarrow> map_of (ms_append_operations s) op)"
    and len: "length rs = length ops" "distinct ops"
    and known: "\<forall>j < length rs. \<forall>k r rc. map_of (ms_append_operations s) (ops ! j) = Some (k, r, rc) \<longrightarrow>
      k = key \<and> r = rs ! j \<and> rc_revision rc = e + int j + 1"
  let ?new = "zip (drop m ops) (zip (drop m rs) (new_receipts clock e m (drop m ops)))"
  have place: "\<exists>i < length (drop m rs). op = ops ! (m + i) \<and> r = drop m rs ! i \<and> rc_revision rc = e + int (m + i) + 1"
    if "map_of ?new op = Some (r, rc)" for op r rc
  proof -
    have "(op, r, rc) \<in> set ?new" using that by (rule map_of_SomeD)
    then obtain i where i: "i < length ?new" "?new ! i = (op, r, rc)" by (metis in_set_conv_nth)
    then show ?thesis using len(1) by (intro exI [of _ i]) (auto simp: new_receipts_nth)
  qed
  have alive: "key \<notin> ms_tombstones s" using ok snap unfolding store_ok_def by blast
  have unknown: "map_of (ms_append_operations s) (ops ! (m + i)) = None" if i: "i < length (drop m rs)" for i
  proof (rule ccontr)
    assume "map_of (ms_append_operations s) (ops ! (m + i)) \<noteq> None"
    then obtain k r rc where entry: "map_of (ms_append_operations s) (ops ! (m + i)) = Some (k, r, rc)" by (metis not_Some_eq prod_cases3)
    have "m + i < length rs" using i by simp
    then have fit: "k = key" "rc_revision rc = e + int (m + i) + 1" using known entry by blast+
    have "key \<in> ms_tombstones s \<or> receipt_holds s key r (rc_revision rc)"
      using ok entry fit(1) unfolding store_ok_def by blast
    then have "receipt_holds s key r (rc_revision rc)" using alive by blast
    then have "rc_revision rc \<le> cs_revision snap" using snap by (simp add: receipt_holds_def)
    moreover have "cs_revision snap = e + int m" using m i by auto
    ultimately show False using fit(2) by simp
  qed
  show "store_ok s' \<and> store_before s s'"
  proof (rule growth_ok [OF ok snap snaps tombs])
    show "map_of (ms_append_operations s) \<subseteq>\<^sub>m map_of (ms_append_operations s')"
      unfolding map_le_def
    proof
      fix op
      assume "op \<in> dom (map_of (ms_append_operations s))"
      then obtain x where x: "map_of (ms_append_operations s) op = Some x" by blast
      have "map_of ?new op = None"
      proof (rule ccontr)
        assume "map_of ?new op \<noteq> None"
        then obtain r rc where "map_of ?new op = Some (r, rc)" by fast
        then show False using place unknown x by fastforce
      qed
      then show "map_of (ms_append_operations s) op = map_of (ms_append_operations s') op" using register by simp
    qed
    show "map_of (ms_append_operations s) op = Some (k, r, rc) \<or>
        k = key \<and> (\<exists>i < length (drop m rs). rc_revision rc = cs_revision snap + int i + 1 \<and> drop m rs ! i = r)"
      if "map_of (ms_append_operations s') op = Some (k, r, rc)" for op k r rc
    proof (cases "map_of ?new op")
      case None
      then show ?thesis using that register by simp
    next
      case (Some x)
      then have "k = key" "x = (r, rc)" using that register by (cases x; simp)+
      moreover from this obtain i where i: "i < length (drop m rs)" "r = drop m rs ! i" "rc_revision rc = e + int (m + i) + 1"
        using place Some by blast
      moreover have "cs_revision snap = e + int m" using m i(1) by auto
      ultimately show ?thesis by auto
    qed
  qed (simp_all add: others)
qed

section \<open>Every run\<close>

lemma step_ok_before: "store_step s s' \<Longrightarrow> store_ok s \<Longrightarrow> store_ok s' \<and> store_before s s'"
  by (induction rule: store_step.induct)
    (blast dest: create_ok_before append_ok_before batch_ok_before delete_ok_before)+

lemma run_ok_before: "store_run s s' \<Longrightarrow> store_ok s \<Longrightarrow> store_ok s' \<and> store_before s s'"
proof (induction rule: store_run.induct)
  case (here s)
  then show ?case using store_before_refl by blast
next
  case (further s s' s'')
  then show ?case using step_ok_before [of s' s''] store_before_trans [of s s' s''] by blast
qed

lemma reachable_store_ok: "store_run empty_store s \<Longrightarrow> store_ok s"
  using run_ok_before store_ok_empty by blast

section \<open>Repeating a batch\<close>

lemma rmap_succeeds: "\<forall>x \<in> set xs. \<exists>y. f x = Inr y \<Longrightarrow> \<exists>ys. rmap f xs = Inr ys"
  by (induction xs) auto

lemma batch_known_after:
  assumes ok: "store_ok s" and batch: "append_batch record_id clock key rs e ops s = Inr (receipts, s')"
    and j: "j < length rs" and entry: "map_of (ms_append_operations s') (ops ! j) = Some (k, r, rc)"
  shows "k = key \<and> r = rs ! j \<and> rc_revision rc = e + int j + 1"
  using batch
proof (rule batch_effect [OF ok])
  fix snap m
  assume register: "\<forall>op. map_of (ms_append_operations s') op =
      (case map_of (zip (drop m ops) (zip (drop m rs) (new_receipts clock e m (drop m ops)))) op of
         Some (r, rc) \<Rightarrow> Some (key, r, rc) | None \<Rightarrow> map_of (ms_append_operations s) op)"
    and len: "length rs = length ops" "distinct ops"
    and known: "\<forall>j < length rs. \<forall>k r rc. map_of (ms_append_operations s) (ops ! j) = Some (k, r, rc) \<longrightarrow>
      k = key \<and> r = rs ! j \<and> rc_revision rc = e + int j + 1"
  let ?new = "zip (drop m ops) (zip (drop m rs) (new_receipts clock e m (drop m ops)))"
  show "k = key \<and> r = rs ! j \<and> rc_revision rc = e + int j + 1"
  proof (cases "map_of ?new (ops ! j)")
    case None
    then have "map_of (ms_append_operations s) (ops ! j) = Some (k, r, rc)" using register entry by simp
    then show ?thesis using known j by blast
  next
    case (Some x)
    then have x: "k = key" "x = (r, rc)" using register entry by (cases x; simp)+
    then have "(ops ! j, r, rc) \<in> set ?new" using Some map_of_SomeD by fastforce
    then obtain i where i: "i < length ?new" "?new ! i = (ops ! j, r, rc)" by (metis in_set_conv_nth)
    then have "ops ! (m + i) = ops ! j" "m + i < length ops" using len(1) by auto
    then have "m + i = j" using len j nth_eq_iff_index_eq by fastforce
    then show ?thesis using i len(1) x(1) by (auto simp: new_receipts_nth)
  qed
qed

lemma batch_again:
  assumes ok: "store_ok s" and request: "batch_request record_id rs e ops"
    and snap: "map_of (ms_snapshots s) key = Some snap"
    and held: "\<forall>j < length rs. e + int j < cs_revision snap \<and> cs_records snap ! nat (e + int j) = rs ! j"
    and known: "\<forall>j < length rs. \<forall>k r rc. map_of (ms_append_operations s) (ops ! j) = Some (k, r, rc) \<longrightarrow>
      k = key \<and> r = rs ! j \<and> rc_revision rc = e + int j + 1"
  shows "\<exists>receipts. append_batch record_id clock key rs e ops s = Inr (receipts, s) \<and>
    map rc_revision receipts = map (\<lambda>j. e + int j + 1) [0..<length rs]"
proof -
  have len: "length rs = length ops" "rs \<noteq> []" using request by (auto simp: batch_request_def)
  have each: "\<exists>y. previous_append s key e x = Inr y" if "x \<in> set (enumerate 0 (zip rs ops))" for x
  proof -
    have "\<exists>j. j < length (enumerate 0 (zip rs ops)) \<and> enumerate 0 (zip rs ops) ! j = x"
      using that by (simp only: in_set_conv_nth)
    then obtain j where in_range: "j < length (enumerate 0 (zip rs ops))" and at: "enumerate 0 (zip rs ops) ! j = x"
      by (elim exE conjE)
    have j: "j < length rs" "j < length (zip rs ops)" using in_range len(1) by simp_all
    have "enumerate 0 (zip rs ops) ! j = (j, rs ! j, ops ! j)"
      using nth_enumerate_eq [OF j(2), of 0] nth_zip [of j rs ops] j(1) len(1) by simp
    then have x: "x = (j, rs ! j, ops ! j)" by (rule trans [OF at [symmetric]])
    have mine: "map_of (ms_append_operations s) (ops ! j) = Some (k, r, rc) \<Longrightarrow>
        k = key \<and> r = rs ! j \<and> rc_revision rc = e + int j + 1" for k r rc
      using known j(1) by blast
    show ?thesis
    proof (cases "map_of (ms_append_operations s) (ops ! j)")
      case None
      then show ?thesis unfolding x previous_append_def by simp
    next
      case (Some y)
      then show ?thesis using mine unfolding x previous_append_def by (cases y) auto
    qed
  qed
  have "\<exists>prev. rmap (previous_append s key e) (enumerate 0 (zip rs ops)) = Inr prev"
    by (rule rmap_succeeds, rule ballI, erule each)
  then obtain prev where prev: "rmap (previous_append s key e) (enumerate 0 (zip rs ops)) = Inr prev" ..
  have size: "length prev = length rs" using previous_appends(1) [OF prev len(1)] .
  have "\<forall>j < length (zip rs (zip ops prev)). e + int (0 + j) < cs_revision snap \<and>
      cs_records snap ! nat (e + int (0 + j)) = fst (zip rs (zip ops prev) ! j)"
    using held len(1) size by simp
  then obtain stored where stored: "match_stored clock snap e 0 (zip rs (zip ops prev)) [] = Inr stored"
    "length stored = length rs"
    using match_stored_all [of "zip rs (zip ops prev)" e 0 snap clock "[]"] len(1) size by auto
  have "commit_batch clock key rs e ops snap stored s = (stored, s)"
    using stored(2) len(1) by (simp add: commit_batch_def Let_def new_receipts_def)
  moreover have "e \<le> cs_revision snap" using held [rule_format, of 0] len(2) by simp
  ultimately have batch: "append_batch record_id clock key rs e ops s = Inr (stored, s)"
    unfolding batch_Inr using request snap prev stored by auto
  have "\<forall>j < length rs. rc_revision (stored ! j) = e + int j + 1"
    using batch by (rule batch_effect [OF ok])
  then have "map rc_revision stored = map (\<lambda>j. e + int j + 1) [0..<length rs]"
    using stored(2) by (simp add: map_equality_iff)
  then show ?thesis using batch by blast
qed

text \<open>A batch stands in a conversation from the place that it expected.\<close>

definition stands :: "int \<Rightarrow> 'r list \<Rightarrow> 'r list \<Rightarrow> bool" where
  "stands e rs xs \<longleftrightarrow> (\<forall>j < length rs. nat (e + int j) < length xs \<and> xs ! nat (e + int j) = rs ! j)"

lemma stands_prefix: "stands e rs xs \<Longrightarrow> prefix xs ys \<Longrightarrow> stands e rs ys"
  by (auto simp: stands_def prefix_def nth_append)

lemma stands_slice:
  assumes "stands e rs xs" and "0 \<le> e" and "nat e \<le> length xs"
  shows "take (length rs) (drop (nat e) xs) = rs"
proof (rule nth_equalityI)
  have at: "nat e + j < length xs" "xs ! (nat e + j) = rs ! j" if "j < length rs" for j
    using assms(1,2) that unfolding stands_def by (auto simp: nat_add_distrib)
  have bound: "nat e + length rs \<le> length xs"
  proof (cases "length rs")
    case (Suc n)
    then show ?thesis using at(1) [of n] by linarith
  qed (use assms(3) in simp)
  then show "length (take (length rs) (drop (nat e) xs)) = length rs" by simp
  fix j
  assume "j < length (take (length rs) (drop (nat e) xs))"
  then have "j < length rs" by (simp only: length_take min_less_iff_conj)
  then show "take (length rs) (drop (nat e) xs) ! j = rs ! j" using at(2) bound by simp
qed

lemma stands_completed:
  assumes "m \<le> length rs" and "0 \<le> e" and whole: "m = length rs \<or> int (length xs) = e + int m"
    and held: "\<forall>j < m. e + int j < int (length xs) \<and> xs ! nat (e + int j) = rs ! j"
  shows "stands e rs (xs @ drop m rs)"
  unfolding stands_def
proof (intro allI impI)
  fix j
  assume j: "j < length rs"
  show "nat (e + int j) < length (xs @ drop m rs) \<and> (xs @ drop m rs) ! nat (e + int j) = rs ! j"
  proof (cases "j < m")
    case True
    then have "nat (e + int j) < length xs" "xs ! nat (e + int j) = rs ! j" using held assms(2) by (auto simp: nat_less_iff)
    then show ?thesis by (simp add: nth_append)
  next
    case False
    then have "length xs = nat (e + int m)" using whole j by simp
    then have "nat (e + int j) = length xs + (j - m)" using False assms(2) by linarith
    moreover have "j - m < length (drop m rs)" "drop m rs ! (j - m) = rs ! j" using j False assms(1) by simp_all
    ultimately show ?thesis by (simp only: nth_append_length_plus length_append add_less_cancel_left)
  qed
qed

lemma batch_lands:
  assumes ok: "store_ok s" and batch: "append_batch record_id clock key rs e ops s = Inr (receipts, s')"
  obtains snap snap' m where "map_of (ms_snapshots s) key = Some snap" and "map_of (ms_snapshots s') key = Some snap'"
    and "cs_header snap' = cs_header snap" and "m \<le> length rs" and "cs_records snap' = cs_records snap @ drop m rs"
    and "0 \<le> e" and "nat e \<le> length (cs_records snap')" and "stands e rs (cs_records snap')"
    and "map rc_revision receipts = map (\<lambda>j. e + int j + 1) [0..<length rs]"
proof (rule batch_effect [OF ok batch])
  fix snap m
  assume snap: "map_of (ms_snapshots s) key = Some snap" and m: "m \<le> length rs" and e: "0 \<le> e" "e \<le> cs_revision snap"
    and whole: "m = length rs \<or> cs_revision snap = e + int m"
    and held: "\<forall>j < m. e + int j < cs_revision snap \<and> cs_records snap ! nat (e + int j) = rs ! j"
    and snaps: "map_of (ms_snapshots s') = (map_of (ms_snapshots s)) (key \<mapsto> \<lparr>cs_header = cs_header snap,
      cs_records = cs_records snap @ drop m rs, cs_revision = cs_revision snap + int (length (drop m rs))\<rparr>)"
    and size: "length receipts = length rs" and revs: "\<forall>j < length rs. rc_revision (receipts ! j) = e + int j + 1"
  have rev: "cs_revision snap = int (length (cs_records snap))" using ok snap unfolding store_ok_def by blast
  have "map rc_revision receipts = map (\<lambda>j. e + int j + 1) [0..<length rs]"
    using size revs by (simp add: map_equality_iff)
  moreover have "stands e rs (cs_records snap @ drop m rs)"
    using stands_completed [OF m e(1)] whole held unfolding rev by blast
  moreover have "nat e \<le> length (cs_records snap @ drop m rs)" using e rev by simp
  moreover have "map_of (ms_snapshots s') key = Some \<lparr>cs_header = cs_header snap,
      cs_records = cs_records snap @ drop m rs, cs_revision = cs_revision snap + int (length (drop m rs))\<rparr>"
    using snaps by simp
  ultimately show thesis using that [OF snap] m e(1) by simp
qed

section \<open>Sample\<close>

abbreviation sample_key :: conversation_key where
  "sample_key \<equiv> \<lparr>ck_namespace = ''n'', ck_conversation_id = ''c''\<rparr>"

definition sample_store :: "(string, string, nat) memory_store" where
  "sample_store = \<lparr>ms_snapshots = [(sample_key, \<lparr>cs_header = ''h'', cs_records = [''a''], cs_revision = 1\<rparr>)],
     ms_create_operations = [(''new'', sample_key, \<lparr>cs_header = ''h'', cs_records = [''a''], cs_revision = 1\<rparr>)],
     ms_append_operations = [], ms_delete_operations = [], ms_tombstones = {}\<rparr>"

lemma sample_store_run: "store_run empty_store sample_store"
proof -
  have "create_conversation sample_key ''h'' [''a''] ''new'' (empty_store :: (string, string, nat) memory_store) =
      Inr (\<lparr>cs_header = ''h'', cs_records = [''a''], cs_revision = 1\<rparr>, sample_store)"
    by (simp add: create_conversation_def require_operation_id_def not_blank_def py_space_def code_def empty_store_def sample_store_def Let_def)
  then show ?thesis by (rule store_run.further [OF store_run.here store_step.created])
qed

section \<open>Properties\<close>

text \<open>
  Property C29. An acknowledged append stays: after whatever else the store does, the same append returns
  the same receipt and changes nothing, its operation id with other content is refused, and its record
  is at the acknowledged revision of a conversation that has only grown, unless that conversation was
  deleted, and then it is gone for good.
\<close>

theorem acknowledged_append_stays:
  assumes "store_run empty_store s" and "append_conversation record_id now key r e op s = Inr (receipt, s1)" and "store_run s1 s2"
  shows "append_conversation record_id now' key r e' op s2 = Inr (receipt, s2) \<and>
    ((key', r') \<noteq> (key, r) \<longrightarrow> append_conversation record_id now' key' r' e' op s2 = Inl StoreOperationConflict) \<and>
    (if key \<in> ms_tombstones s2 then
       load_conversation key s2 = Inl StoreNotFound \<and>
       (\<forall>h rs op'. not_blank op' \<longrightarrow> map_of (ms_create_operations s2) op' = None \<longrightarrow>
          create_conversation key h rs op' s2 = Inl StoreAlreadyExists)
     else \<exists>snap. load_conversation key s2 = Inr snap \<and> cs_revision snap = int (length (cs_records snap)) \<and>
       1 \<le> rc_revision receipt \<and> rc_revision receipt \<le> cs_revision snap \<and>
       cs_records snap ! nat (rc_revision receipt - 1) = r \<and>
       (\<forall>snap0. load_conversation key s = Inr snap0 \<longrightarrow>
          cs_header snap = cs_header snap0 \<and> prefix (cs_records snap0) (cs_records snap)))"
proof -
  have ok: "store_ok s" by (rule reachable_store_ok [OF assms(1)])
  note one = append_ok_before [OF ok assms(2)]
  then have two: "store_ok s2" "store_before s1 s2" using run_ok_before [OF assms(3)] by blast+
  have before: "store_before s s2" using one two(2) store_before_trans by blast
  have text_op: "not_blank op"
    using assms(2) by (auto simp: append_conversation_def require_operation_id_def rbind_Inr_iff split: if_splits)
  have entry: "map_of (ms_append_operations s2) op = Some (key, r, receipt)"
    using one two(2) unfolding store_before_def map_le_def by (metis domI)
  have again: "append_conversation record_id now' key r e' op s2 = Inr (receipt, s2)"
    "(key', r') \<noteq> (key, r) \<longrightarrow> append_conversation record_id now' key' r' e' op s2 = Inl StoreOperationConflict"
    using entry text_op by (auto simp: append_conversation_def require_operation_id_def)
  show ?thesis
  proof (cases "key \<in> ms_tombstones s2")
    case True
    then have "map_of (ms_snapshots s2) key = None"
      using two(1) unfolding store_ok_def by (metis not_Some_eq)
    then have "load_conversation key s2 = Inl StoreNotFound" by (simp add: load_conversation_def)
    moreover have "create_conversation key h rs op' s2 = Inl StoreAlreadyExists"
      if "not_blank op'" "map_of (ms_create_operations s2) op' = None" for h rs op'
      using that True by (simp add: create_conversation_def require_operation_id_def Let_def)
    ultimately show ?thesis using again True by simp
  next
    case False
    then have "receipt_holds s2 key r (rc_revision receipt)" using two(1) entry unfolding store_ok_def by blast
    then obtain snap where snap: "map_of (ms_snapshots s2) key = Some snap" "1 \<le> rc_revision receipt"
      "rc_revision receipt \<le> cs_revision snap" "cs_records snap ! nat (rc_revision receipt - 1) = r"
      by (auto simp: receipt_holds_def)
    have "cs_revision snap = int (length (cs_records snap))" using two(1) snap(1) unfolding store_ok_def by blast
    moreover have "cs_header snap = cs_header snap0 \<and> prefix (cs_records snap0) (cs_records snap)"
      if "load_conversation key s = Inr snap0" for snap0
      using that before False snap(1) unfolding store_before_def load_Inr by fastforce
    ultimately show ?thesis using again False snap unfolding load_Inr by simp
  qed
qed

theorem acknowledged_append_stays_witness:
  "append_conversation None 7 sample_key ''b'' 0 ''op'' (snd (projr (append_conversation None (3::nat) sample_key ''b'' 1 ''op'' sample_store))) =
     Inr (\<lparr>rc_revision = 2, rc_committed_at = 3, rc_record_id = None\<rparr>,
       snd (projr (append_conversation None 3 sample_key ''b'' 1 ''op'' sample_store)))"
proof -
  let ?s = "snd (projr (append_conversation None (3::nat) sample_key ''b'' 1 ''op'' sample_store))"
  have "append_conversation None 3 sample_key ''b'' 1 ''op'' sample_store =
      Inr (\<lparr>rc_revision = 2, rc_committed_at = 3, rc_record_id = None\<rparr>, ?s)"
    by (simp add: append_conversation_def require_operation_id_def require_revision_def make_receipt_def load_conversation_def
        not_blank_def py_space_def code_def sample_store_def Let_def)
  then show ?thesis using acknowledged_append_stays [OF sample_store_run _ store_run.here] by blast
qed

text \<open>
  Property C30. A batch is appended whole, at the revision it expects: the conversation afterwards is the
  old one followed by the part of the batch that it did not hold yet, the batch stands at its place,
  and its receipts count up from the expected revision. Repeated later, as long as no other append took
  one of its operation ids and the conversation exists, it succeeds, changes nothing and returns the
  same revisions.
\<close>

theorem batch_is_whole_and_repeatable:
  assumes "store_run empty_store s" and "append_batch record_id clock key rs e ops s = Inr (receipts, s1)"
  shows "(\<exists>snap snap1. load_conversation key s = Inr snap \<and> load_conversation key s1 = Inr snap1 \<and>
      cs_header snap1 = cs_header snap \<and> (\<exists>m \<le> length rs. cs_records snap1 = cs_records snap @ drop m rs) \<and>
      take (length rs) (drop (nat e) (cs_records snap1)) = rs) \<and>
    map rc_revision receipts = map (\<lambda>j. e + int j + 1) [0..<length rs] \<and>
    (\<forall>s2 clock'. store_run s1 s2 \<longrightarrow> key \<notin> ms_tombstones s2 \<longrightarrow>
      (\<forall>op \<in> set ops. map_of (ms_append_operations s2) op = map_of (ms_append_operations s1) op) \<longrightarrow>
      (\<exists>receipts'. append_batch record_id clock' key rs e ops s2 = Inr (receipts', s2) \<and>
         map rc_revision receipts' = map rc_revision receipts))"
proof -
  have ok: "store_ok s" by (rule reachable_store_ok [OF assms(1)])
  note ok1 = batch_ok_before [OF ok assms(2)]
  have request: "batch_request record_id rs e ops" using assms(2) unfolding batch_Inr by blast
  then have len: "length rs = length ops" by (simp add: batch_request_def)
  obtain snap snap1 m where snap: "map_of (ms_snapshots s) key = Some snap" "map_of (ms_snapshots s1) key = Some snap1"
    "cs_header snap1 = cs_header snap" "m \<le> length rs" "cs_records snap1 = cs_records snap @ drop m rs"
    and e: "0 \<le> e" "nat e \<le> length (cs_records snap1)" and place: "stands e rs (cs_records snap1)"
    and numbers: "map rc_revision receipts = map (\<lambda>j. e + int j + 1) [0..<length rs]"
    by (rule batch_lands [OF ok assms(2)])
  have "\<exists>receipts'. append_batch record_id clock' key rs e ops s2 = Inr (receipts', s2) \<and>
      map rc_revision receipts' = map rc_revision receipts"
    if run: "store_run s1 s2" and alive: "key \<notin> ms_tombstones s2"
      and same: "\<forall>op \<in> set ops. map_of (ms_append_operations s2) op = map_of (ms_append_operations s1) op" for s2 clock'
  proof -
    have ok2: "store_ok s2" "store_before s1 s2" using run_ok_before [OF run] ok1 by blast+
    obtain snap2 where snap2: "map_of (ms_snapshots s2) key = Some snap2" "prefix (cs_records snap1) (cs_records snap2)"
      using ok2(2) snap(2) alive unfolding store_before_def by blast
    have "cs_revision snap2 = int (length (cs_records snap2))" using ok2(1) snap2(1) unfolding store_ok_def by blast
    then have "\<forall>j < length rs. e + int j < cs_revision snap2 \<and> cs_records snap2 ! nat (e + int j) = rs ! j"
      using stands_prefix [OF place snap2(2)] e(1) unfolding stands_def by (simp add: nat_less_iff)
    moreover have "\<forall>j < length rs. \<forall>k r rc. map_of (ms_append_operations s2) (ops ! j) = Some (k, r, rc) \<longrightarrow>
        k = key \<and> r = rs ! j \<and> rc_revision rc = e + int j + 1"
      using batch_known_after [OF ok assms(2)] same len by (metis nth_mem)
    ultimately show ?thesis using batch_again [OF ok2(1) request snap2(1)] numbers by metis
  qed
  then show ?thesis using snap stands_slice [OF place e] numbers unfolding load_Inr by auto
qed

theorem batch_is_whole_and_repeatable_witness:
  "\<exists>receipts s1 receipts'. append_batch (Some Some) (\<lambda>i. i) sample_key [''a'', ''b''] 0 [''a'', ''b''] sample_store = Inr (receipts, s1) \<and>
     append_batch (Some Some) (\<lambda>i. i + 9) sample_key [''a'', ''b''] 0 [''a'', ''b''] s1 = Inr (receipts', s1) \<and>
     map rc_revision receipts' = [1, 2]"
proof -
  let ?r = "append_batch (Some Some) (\<lambda>i. i) sample_key [''a'', ''b''] 0 [''a'', ''b''] sample_store"
  have "succeeds ?r" unfolding sample_store_def by code_simp
  then obtain receipts s1 where batch: "?r = Inr (receipts, s1)" by (auto simp: succeeds_iff)
  have alive: "sample_key \<notin> ms_tombstones s1"
    using batch_tombstones [OF reachable_store_ok [OF sample_store_run] batch] by (simp add: sample_store_def)
  note whole = batch_is_whole_and_repeatable [OF sample_store_run batch]
  have same: "\<forall>op \<in> set [''a'', ''b'']. map_of (ms_append_operations s1) op = map_of (ms_append_operations s1) op" by simp
  obtain receipts' where "append_batch (Some Some) (\<lambda>i. i + 9) sample_key [''a'', ''b''] 0 [''a'', ''b''] s1 = Inr (receipts', s1) \<and>
      map rc_revision receipts' = map rc_revision receipts"
    using whole [THEN conjunct2, THEN conjunct2, THEN spec, of s1, THEN spec, of "\<lambda>i. i + 9", THEN mp, OF store_run.here,
      THEN mp, OF alive, THEN mp, OF same] by (elim exE)
  moreover have "map rc_revision receipts = [1, 2]"
    using whole [THEN conjunct2, THEN conjunct1] by (simp add: upt_rec)
  ultimately show ?thesis using batch by (intro exI [of _ receipts] exI [of _ s1] exI [of _ receipts']) simp
qed

end
