(* ===== verification/Policy_Rules.thy ===== *)
theory Policy_Rules
  imports Jsonl_Journal
begin

text \<open>
  The rule engine of the tool policy (\<open>harness/policy\<close>: \<open>decisions.py\<close>, \<open>evaluators.py\<close>, \<open>matchers.py\<close>,
  \<open>engine.py\<close>, and the subjects of \<open>subjects.py\<close>): a subject is matched against the configured rules in
  their order, the first match decides, and a subject that no rule matches is left to the detected
  effects. An evaluator chain combines the answers of several evaluators.

  The arguments of a tool call and its declared effects are not read by the rules and are left out of
  the subject; the effects that the heuristics of \<open>effects_detection.py\<close> find are an argument of
  \<open>evaluate_policy_engine\<close>.
\<close>

section \<open>Subjects and decisions\<close>

datatype policy_disposition = PolicyAllow | PolicyDeny | PolicyAsk

record policy_decision =
  pd_disposition :: policy_disposition
  pd_reason :: "string option"
  pd_code :: "string option"

definition policy_allow :: policy_decision where
  "policy_allow = \<lparr>pd_disposition = PolicyAllow, pd_reason = None, pd_code = None\<rparr>"

definition policy_deny :: "string \<Rightarrow> string \<Rightarrow> policy_decision" where
  "policy_deny reason why = \<lparr>pd_disposition = PolicyDeny, pd_reason = Some reason, pd_code = Some why\<rparr>"

definition policy_ask :: "string \<Rightarrow> string \<Rightarrow> policy_decision" where
  "policy_ask reason why = \<lparr>pd_disposition = PolicyAsk, pd_reason = Some reason, pd_code = Some why\<rparr>"

datatype command_dialect = Direct | Posix | Powershell | Cmd

record command_subject =
  cp_command :: "string list"
  cp_cwd :: "string option"
  cp_direct_tokens :: "string list"
  cp_shell_payload :: "string option"
  cp_normalization_complete :: bool
  cp_dialect :: command_dialect
  cp_shell_flavor :: "string option"

record path_subject =
  pp_raw_path :: string
  pp_resolved_path :: "string option"

record tool_subject =
  tp_tool_name :: string
  tp_cwd :: "string option"
  tp_command :: "command_subject option"
  tp_paths :: "path_subject list"
  tp_capability_id :: "string option"

datatype policy_subject =
    Command_Subject command_subject
  | Path_Subject path_subject
  | Tool_Subject tool_subject
  | Custom_Subject string

section \<open>Matchers\<close>

text \<open>\<open>part in whole\<close> on strings, and \<open>text.split()\<close>.\<close>

fun occurs_in :: "'a list \<Rightarrow> 'a list \<Rightarrow> bool" where
  "occurs_in part [] \<longleftrightarrow> part = []"
| "occurs_in part (x # xs) \<longleftrightarrow> take (length part) (x # xs) = part \<or> occurs_in part xs"

fun split_words :: "string \<Rightarrow> string \<Rightarrow> string list" where
  "split_words word [] = (if word = [] then [] else [word])"
| "split_words word (c # cs) =
     (if py_space c then (if word = [] then split_words [] cs else word # split_words [] cs)
      else split_words (word @ [c]) cs)"

definition subject_command :: "policy_subject \<Rightarrow> command_subject option" where
  "subject_command s = (case s of Command_Subject c \<Rightarrow> Some c | Tool_Subject t \<Rightarrow> tp_command t | _ \<Rightarrow> None)"

definition contains_token_sequence :: "string list \<Rightarrow> string list \<Rightarrow> bool" where
  "contains_token_sequence given expected =
     (if length expected = 1 then hd expected \<in> set given
      else list_ex (\<lambda>index. take (length expected) (drop index given) = expected)
        [0..<Suc (length given) - length expected])"

datatype policy_matcher =
    Exact_Tool_Name string
  | Capability_Id string
  | Command_Token_Sequence "string list"
  | Shell_Payload_Substring string
  | Command_Substring string
  | Incomplete_Command
  | Path_Substring string

definition subject_paths :: "policy_subject \<Rightarrow> path_subject list" where
  "subject_paths s = (case s of Tool_Subject t \<Rightarrow> tp_paths t | Path_Subject p \<Rightarrow> [p] | _ \<Rightarrow> [])"

text \<open>\<open>CommandSubstringMatcher.matches\<close> on a command.\<close>

definition command_has_substring :: "string \<Rightarrow> command_subject \<Rightarrow> bool" where
  "command_has_substring substring c =
     (if \<not> cp_normalization_complete c \<and> occurs_in substring (join '' '' (cp_command c)) then True
      else case cp_shell_payload c of
        Some script \<Rightarrow> occurs_in substring script
      | None \<Rightarrow>
          let tokens = split_words [] substring in
          tokens \<noteq> [] \<and> contains_token_sequence (cp_direct_tokens c) tokens)"

fun policy_matches :: "policy_matcher \<Rightarrow> policy_subject \<Rightarrow> bool" where
  "policy_matches (Exact_Tool_Name name) s =
     (case s of Tool_Subject t \<Rightarrow> tp_tool_name t = name | _ \<Rightarrow> False)"
| "policy_matches (Capability_Id capability) s =
     (case s of Tool_Subject t \<Rightarrow> tp_capability_id t = Some capability | _ \<Rightarrow> False)"
| "policy_matches (Command_Token_Sequence tokens) s =
     (case subject_command s of
        None \<Rightarrow> False
      | Some c \<Rightarrow> cp_shell_payload c = None \<and> tokens \<noteq> [] \<and> contains_token_sequence (cp_direct_tokens c) tokens)"
| "policy_matches (Shell_Payload_Substring substring) s =
     (case subject_command s of
        None \<Rightarrow> False
      | Some c \<Rightarrow> (case cp_shell_payload c of None \<Rightarrow> False | Some script \<Rightarrow> occurs_in substring script))"
| "policy_matches (Command_Substring substring) s =
     (case subject_command s of None \<Rightarrow> False | Some c \<Rightarrow> command_has_substring substring c)"
| "policy_matches Incomplete_Command s =
     (case subject_command s of None \<Rightarrow> False | Some c \<Rightarrow> \<not> cp_normalization_complete c)"
| "policy_matches (Path_Substring substring) s =
     list_ex (\<lambda>p. occurs_in substring (pp_raw_path p) \<or>
       (case pp_resolved_path p of None \<Rightarrow> False | Some resolved \<Rightarrow> occurs_in substring resolved)) (subject_paths s)"

section \<open>Rules\<close>

datatype policy_error = BlankRuleId | DuplicateRuleIds | EmptyPrefix | EvaluationFailed

record policy_rule =
  po_id :: string
  po_matcher :: policy_matcher
  po_decision :: policy_decision

definition make_rule :: "string \<Rightarrow> policy_matcher \<Rightarrow> policy_decision \<Rightarrow> policy_error + policy_rule" where
  "make_rule rule_id matcher decision =
     rbind (require (rule_id \<noteq> []) BlankRuleId) (\<lambda>_.
     Inr \<lparr>po_id = rule_id, po_matcher = matcher, po_decision = decision\<rparr>)"

definition rule_evaluator :: "policy_rule list \<Rightarrow> policy_error + policy_rule list" where
  "rule_evaluator rules = rbind (require (distinct (map po_id rules)) DuplicateRuleIds) (\<lambda>_. Inr rules)"

fun evaluate_rules :: "policy_rule list \<Rightarrow> policy_subject \<Rightarrow> policy_decision option" where
  "evaluate_rules [] s = None"
| "evaluate_rules (r # rs) s = (if policy_matches (po_matcher r) s then Some (po_decision r) else evaluate_rules rs s)"

section \<open>The engine\<close>

record policy_config =
  pc_rule_id_prefix :: string
  pc_blocked_substrings :: "string list"
  pc_ask_substrings :: "string list"
  pc_blocked_tools :: "string list"
  pc_ask_tools :: "string list"
  pc_blocked_path_substrings :: "string list"
  pc_ask_path_substrings :: "string list"
  pc_blocked_capabilities :: "string list"
  pc_ask_capabilities :: "string list"

definition normalize_strings :: "string list \<Rightarrow> string list" where
  "normalize_strings given =
     foldl (\<lambda>normalized x. if x \<noteq> [] \<and> x \<notin> set normalized then normalized @ [x] else normalized) [] given"

text \<open>One generator of \<open>_rules\<close>: a rule for each value, numbered in its kind.\<close>

definition rules_of_kind ::
  "string \<Rightarrow> string \<Rightarrow> (string \<Rightarrow> policy_matcher) \<Rightarrow> (string \<Rightarrow> policy_decision) \<Rightarrow> string list \<Rightarrow>
     policy_error + policy_rule list" where
  "rules_of_kind prefix kind matcher decision given =
     rmap (\<lambda>(index, x). make_rule (prefix @ kind @ decimal index) (matcher x) (decision x)) (enumerate 0 given)"

definition engine_rules :: "policy_config \<Rightarrow> policy_error + policy_rule list" where
  "engine_rules c =
     (let kind = rules_of_kind (pc_rule_id_prefix c) in
      rbind (kind ''.capability.block.'' Capability_Id
        (\<lambda>x. policy_deny (''Capability '' @ x @ '' is blocked by policy'') ''capability_blocked'') (pc_blocked_capabilities c)) (\<lambda>r1.
      rbind (kind ''.tool.block.'' Exact_Tool_Name
        (\<lambda>x. policy_deny (''Tool '' @ x @ '' is blocked by policy'') ''tool_blocked'') (pc_blocked_tools c)) (\<lambda>r2.
      rbind (kind ''.tool.ask.'' Exact_Tool_Name
        (\<lambda>x. policy_ask (''Tool '' @ x @ '' requires approval'') ''tool_requires_approval'') (pc_ask_tools c)) (\<lambda>r3.
      rbind (kind ''.command.block.'' Command_Substring
        (\<lambda>x. policy_deny (''Blocked destructive command substring: '' @ x) ''command_blocked'') (pc_blocked_substrings c)) (\<lambda>r4.
      rbind (kind ''.command.ask.'' Command_Substring
        (\<lambda>x. policy_ask (''Approval recommended for command substring: '' @ x) ''command_requires_approval'') (pc_ask_substrings c)) (\<lambda>r5.
      rbind (kind ''.path.block.'' Path_Substring
        (\<lambda>x. policy_deny (''Path is blocked by policy substring: '' @ x) ''path_blocked'') (pc_blocked_path_substrings c)) (\<lambda>r6.
      rbind (kind ''.path.ask.'' Path_Substring
        (\<lambda>x. policy_ask (''Approval recommended for path substring: '' @ x) ''path_requires_approval'') (pc_ask_path_substrings c)) (\<lambda>r7.
      rbind (kind ''.capability.ask.'' Capability_Id
        (\<lambda>x. policy_ask (''Capability '' @ x @ '' requires approval'') ''capability_requires_approval'') (pc_ask_capabilities c)) (\<lambda>r8.
      Inr (r1 @ r2 @ r3 @ r4 @ r5 @ r6 @ r7 @ r8))))))))))"

text \<open>\<open>PolicyEngine.__post_init__\<close>: the configuration is normalised and its rules are built.\<close>

definition policy_engine :: "policy_config \<Rightarrow> policy_error + policy_rule list" where
  "policy_engine c =
     rbind (require (pc_rule_id_prefix c \<noteq> []) EmptyPrefix) (\<lambda>_.
     rbind (engine_rules
       (c\<lparr>pc_blocked_substrings := normalize_strings (pc_blocked_substrings c),
          pc_ask_substrings := normalize_strings (pc_ask_substrings c),
          pc_blocked_tools := normalize_strings (pc_blocked_tools c),
          pc_ask_tools := normalize_strings (pc_ask_tools c),
          pc_blocked_path_substrings := normalize_strings (pc_blocked_path_substrings c),
          pc_ask_path_substrings := normalize_strings (pc_ask_path_substrings c),
          pc_blocked_capabilities := normalize_strings (pc_blocked_capabilities c),
          pc_ask_capabilities := normalize_strings (pc_ask_capabilities c)\<rparr>))
     rule_evaluator)"

text \<open>\<open>PolicyEngine.evaluate\<close>; a detected effect is its code and its summary.\<close>

definition evaluate_policy_engine ::
  "policy_rule list \<Rightarrow> (policy_subject \<Rightarrow> (string \<times> string) list) \<Rightarrow> policy_subject \<Rightarrow> policy_decision" where
  "evaluate_policy_engine rules detect s =
     (case evaluate_rules rules s of
        Some configured \<Rightarrow> configured
      | None \<Rightarrow> (case detect s of [] \<Rightarrow> policy_allow | (why, summary) # _ \<Rightarrow> policy_ask summary why))"

section \<open>Chains\<close>

datatype chain_strategy = First_Non_Allow | Most_Restrictive | First_Decision

fun first_decision :: "('s \<Rightarrow> policy_error + policy_decision option) list \<Rightarrow> 's \<Rightarrow> policy_error + policy_decision option" where
  "first_decision [] s = Inr None"
| "first_decision (e # es) s =
     rbind (e s) (\<lambda>d. case d of Some decision \<Rightarrow> Inr (Some decision) | None \<Rightarrow> first_decision es s)"

fun chain_loop ::
  "chain_strategy \<Rightarrow> ('s \<Rightarrow> policy_error + policy_decision option) list \<Rightarrow> 's \<Rightarrow>
     policy_decision option \<Rightarrow> policy_decision option \<Rightarrow> policy_decision option \<Rightarrow> policy_error + policy_decision option" where
  "chain_loop strategy [] s allow ask deny =
     Inr (if strategy = First_Non_Allow then allow else or_else deny (or_else ask allow))"
| "chain_loop strategy (e # es) s allow ask deny =
     rbind (e s) (\<lambda>result.
       case result of
         None \<Rightarrow> chain_loop strategy es s allow ask deny
       | Some d \<Rightarrow>
           if strategy = First_Non_Allow then
             (if pd_disposition d \<noteq> PolicyAllow then Inr (Some d)
              else chain_loop strategy es s (or_else allow (Some d)) ask deny)
           else if pd_disposition d = PolicyDeny \<and> deny = None then chain_loop strategy es s allow ask (Some d)
           else if pd_disposition d = PolicyAsk \<and> ask = None then chain_loop strategy es s allow (Some d) deny
           else if pd_disposition d = PolicyAllow \<and> allow = None then chain_loop strategy es s (Some d) ask deny
           else chain_loop strategy es s allow ask deny)"

definition evaluate_chain ::
  "chain_strategy \<Rightarrow> ('s \<Rightarrow> policy_error + policy_decision option) list \<Rightarrow> 's \<Rightarrow> policy_error + policy_decision option" where
  "evaluate_chain strategy es s =
     (if strategy = First_Decision then first_decision es s else chain_loop strategy es s None None None)"

end
