(* ===== verification/Policy_Properties.thy ===== *)
theory Policy_Properties
  imports Policy_Rules
begin

text \<open>
  What the rule engine decides (\<open>harness/policy/engine.py\<close>) and what a chain of evaluators may allow
  (\<open>harness/policy/evaluators.py\<close>).
\<close>

section \<open>Rules of one kind\<close>

definition any_matches :: "(string \<Rightarrow> policy_matcher) \<Rightarrow> string list \<Rightarrow> policy_subject \<Rightarrow> bool" where
  "any_matches matcher given s \<longleftrightarrow> (\<exists>x \<in> set given. x \<noteq> [] \<and> policy_matches (matcher x) s)"

lemma normalize_strings_foldl:
  "set (foldl (\<lambda>normalized x. if x \<noteq> [] \<and> x \<notin> set normalized then normalized @ [x] else normalized) start given) =
     set start \<union> (set given - {[]})"
  by (induction given arbitrary: start) auto

lemma set_normalize_strings: "set (normalize_strings given) = set given - {[]}"
  by (simp add: normalize_strings_def normalize_strings_foldl)

lemma any_matches_normalized:
  "(\<exists>x \<in> set (normalize_strings given). policy_matches (matcher x) s) \<longleftrightarrow> any_matches matcher given s"
  by (auto simp: any_matches_def set_normalize_strings)

definition kind_rules ::
  "string \<Rightarrow> string \<Rightarrow> (string \<Rightarrow> policy_matcher) \<Rightarrow> (string \<Rightarrow> policy_decision) \<Rightarrow> string list \<Rightarrow> policy_rule list" where
  "kind_rules prefix kind matcher decision given =
     map (\<lambda>(index, x). \<lparr>po_id = prefix @ kind @ decimal index, po_matcher = matcher x, po_decision = decision x\<rparr>)
       (enumerate 0 given)"

lemma rmap_total: "(\<And>x. x \<in> set xs \<Longrightarrow> f x = Inr (g x)) \<Longrightarrow> rmap f xs = Inr (map g xs)"
  by (induction xs) simp_all

lemma rules_of_kind_total:
  assumes "prefix \<noteq> []"
  shows "rules_of_kind prefix kind matcher decision given = Inr (kind_rules prefix kind matcher decision given)"
  unfolding rules_of_kind_def kind_rules_def
  by (rule rmap_total) (use assms in \<open>auto simp: make_rule_def\<close>)

lemma kind_rules_ids: "map po_id (kind_rules prefix kind matcher decision given) = map (\<lambda>i. prefix @ kind @ decimal i) [0..<length given]"
proof -
  have "map po_id (kind_rules prefix kind matcher decision given) = map ((\<lambda>i. prefix @ kind @ decimal i) \<circ> fst) (enumerate 0 given)"
    by (simp add: kind_rules_def case_prod_unfold comp_def)
  also have "\<dots> = map (\<lambda>i. prefix @ kind @ decimal i) (map fst (enumerate 0 given))" by (rule map_map [symmetric])
  finally show ?thesis by (simp only: map_fst_enumerate add_0)
qed

lemma kind_ids_distinct: "distinct (map (\<lambda>i. prefix @ kind @ decimal i) [0..<n])"
  by (simp add: distinct_map inj_on_def decimal_inject)

lemma evaluate_rules_append:
  "evaluate_rules (rs @ rs') s = or_else (evaluate_rules rs s) (evaluate_rules rs' s)"
  by (induction rs) simp_all

lemma evaluate_enumerated:
  assumes "\<And>x. pd_disposition (decision x) = d"
  shows "map_option pd_disposition (evaluate_rules
      (map (\<lambda>(index, x). \<lparr>po_id = prefix @ kind @ decimal index, po_matcher = matcher x, po_decision = decision x\<rparr>)
        (enumerate n given)) s) =
    (if \<exists>x \<in> set given. policy_matches (matcher x) s then Some d else None)"
proof (induction given arbitrary: n)
  case Nil
  then show ?case by simp
next
  case (Cons a given)
  then show ?case by (cases "policy_matches (matcher a) s") (simp_all add: assms del: map_option_eq_Some)
qed

lemma evaluate_kind:
  assumes "\<And>x. pd_disposition (decision x) = d"
  shows "map_option pd_disposition (evaluate_rules (kind_rules prefix kind matcher decision (normalize_strings given)) s) =
    (if any_matches matcher given s then Some d else None)"
  unfolding kind_rules_def evaluate_enumerated [of decision d, OF assms] any_matches_normalized ..

section \<open>The rules of the engine\<close>

definition configured_rules :: "policy_config \<Rightarrow> policy_rule list" where
  "configured_rules c =
     (let kind = kind_rules (pc_rule_id_prefix c) in
      kind ''.capability.block.'' Capability_Id
        (\<lambda>x. policy_deny (''Capability '' @ x @ '' is blocked by policy'') ''capability_blocked'') (normalize_strings (pc_blocked_capabilities c)) @
      kind ''.tool.block.'' Exact_Tool_Name
        (\<lambda>x. policy_deny (''Tool '' @ x @ '' is blocked by policy'') ''tool_blocked'') (normalize_strings (pc_blocked_tools c)) @
      kind ''.tool.ask.'' Exact_Tool_Name
        (\<lambda>x. policy_ask (''Tool '' @ x @ '' requires approval'') ''tool_requires_approval'') (normalize_strings (pc_ask_tools c)) @
      kind ''.command.block.'' Command_Substring
        (\<lambda>x. policy_deny (''Blocked destructive command substring: '' @ x) ''command_blocked'') (normalize_strings (pc_blocked_substrings c)) @
      kind ''.command.ask.'' Command_Substring
        (\<lambda>x. policy_ask (''Approval recommended for command substring: '' @ x) ''command_requires_approval'') (normalize_strings (pc_ask_substrings c)) @
      kind ''.path.block.'' Path_Substring
        (\<lambda>x. policy_deny (''Path is blocked by policy substring: '' @ x) ''path_blocked'') (normalize_strings (pc_blocked_path_substrings c)) @
      kind ''.path.ask.'' Path_Substring
        (\<lambda>x. policy_ask (''Approval recommended for path substring: '' @ x) ''path_requires_approval'') (normalize_strings (pc_ask_path_substrings c)) @
      kind ''.capability.ask.'' Capability_Id
        (\<lambda>x. policy_ask (''Capability '' @ x @ '' requires approval'') ''capability_requires_approval'') (normalize_strings (pc_ask_capabilities c)))"

lemma configured_rules_distinct: "distinct (map po_id (configured_rules c))"
  unfolding configured_rules_def Let_def map_append kind_rules_ids distinct_append
  by (intro conjI kind_ids_distinct; auto)

lemma policy_engine_total:
  "policy_engine c = (if pc_rule_id_prefix c = [] then Inl EmptyPrefix else Inr (configured_rules c))"
proof (cases "pc_rule_id_prefix c = []")
  case True
  then show ?thesis by (simp add: policy_engine_def)
next
  case False
  note rules = rules_of_kind_total [OF False]
  have "policy_engine c = rule_evaluator (configured_rules c)"
    using False unfolding policy_engine_def engine_rules_def configured_rules_def
    by (simp add: Let_def rules)
  also have "\<dots> = Inr (configured_rules c)" using configured_rules_distinct by (simp add: rule_evaluator_def)
  finally show ?thesis using False by simp
qed

lemma decision_dispositions [simp]:
  "pd_disposition policy_allow = PolicyAllow" "pd_disposition (policy_deny r w) = PolicyDeny"
  "pd_disposition (policy_ask r w) = PolicyAsk"
  by (simp_all add: policy_allow_def policy_deny_def policy_ask_def)

lemma map_option_or_else: "map_option f (or_else a b) = or_else (map_option f a) (map_option f b)"
  by (cases a) simp_all

lemma configured_evaluation:
  "map_option pd_disposition (evaluate_rules (configured_rules c) s) =
     or_else (if any_matches Capability_Id (pc_blocked_capabilities c) s then Some PolicyDeny else None)
    (or_else (if any_matches Exact_Tool_Name (pc_blocked_tools c) s then Some PolicyDeny else None)
    (or_else (if any_matches Exact_Tool_Name (pc_ask_tools c) s then Some PolicyAsk else None)
    (or_else (if any_matches Command_Substring (pc_blocked_substrings c) s then Some PolicyDeny else None)
    (or_else (if any_matches Command_Substring (pc_ask_substrings c) s then Some PolicyAsk else None)
    (or_else (if any_matches Path_Substring (pc_blocked_path_substrings c) s then Some PolicyDeny else None)
    (or_else (if any_matches Path_Substring (pc_ask_path_substrings c) s then Some PolicyAsk else None)
    (if any_matches Capability_Id (pc_ask_capabilities c) s then Some PolicyAsk else None)))))))"
  unfolding configured_rules_def Let_def evaluate_rules_append map_option_or_else
  by (simp only: evaluate_kind decision_dispositions)

lemma engine_disposition:
  "pd_disposition (evaluate_policy_engine rules detect s) =
     (case map_option pd_disposition (evaluate_rules rules s) of
        Some d \<Rightarrow> d | None \<Rightarrow> if detect s = [] then PolicyAllow else PolicyAsk)"
  by (auto simp: evaluate_policy_engine_def split: option.split list.split)

text \<open>
  Property C39. A configuration makes an engine exactly when its prefix is not empty, and the engine
  decides by a fixed order of the kinds of rules: blocked capabilities and tools deny; a tool to ask
  about asks, whatever its command and paths are; then blocked and asked commands, blocked and asked
  paths and asked capabilities decide; otherwise any detected effect asks, and the rest is allowed.
\<close>

theorem policy_engine_decides:
  "(succeeds (policy_engine c) \<longleftrightarrow> pc_rule_id_prefix c \<noteq> []) \<and>
   (\<forall>rules. policy_engine c = Inr rules \<longrightarrow>
     pd_disposition (evaluate_policy_engine rules detect s) =
      (if any_matches Capability_Id (pc_blocked_capabilities c) s \<or> any_matches Exact_Tool_Name (pc_blocked_tools c) s then PolicyDeny
       else if any_matches Exact_Tool_Name (pc_ask_tools c) s then PolicyAsk
       else if any_matches Command_Substring (pc_blocked_substrings c) s then PolicyDeny
       else if any_matches Command_Substring (pc_ask_substrings c) s then PolicyAsk
       else if any_matches Path_Substring (pc_blocked_path_substrings c) s then PolicyDeny
       else if any_matches Path_Substring (pc_ask_path_substrings c) s \<or> any_matches Capability_Id (pc_ask_capabilities c) s
         \<or> detect s \<noteq> [] then PolicyAsk
       else PolicyAllow))"
proof -
  have "pd_disposition (evaluate_policy_engine (configured_rules c) detect s) =
      (if any_matches Capability_Id (pc_blocked_capabilities c) s \<or> any_matches Exact_Tool_Name (pc_blocked_tools c) s then PolicyDeny
       else if any_matches Exact_Tool_Name (pc_ask_tools c) s then PolicyAsk
       else if any_matches Command_Substring (pc_blocked_substrings c) s then PolicyDeny
       else if any_matches Command_Substring (pc_ask_substrings c) s then PolicyAsk
       else if any_matches Path_Substring (pc_blocked_path_substrings c) s then PolicyDeny
       else if any_matches Path_Substring (pc_ask_path_substrings c) s \<or> any_matches Capability_Id (pc_ask_capabilities c) s
         \<or> detect s \<noteq> [] then PolicyAsk
       else PolicyAllow)"
    unfolding engine_disposition configured_evaluation by simp
  then show ?thesis by (simp add: policy_engine_total)
qed

theorem policy_engine_decides_witness:
  "\<exists>rules. policy_engine \<lparr>pc_rule_id_prefix = ''w'', pc_blocked_substrings = [''rm -rf''], pc_ask_substrings = [],
       pc_blocked_tools = [], pc_ask_tools = [''write''], pc_blocked_path_substrings = [], pc_ask_path_substrings = [],
       pc_blocked_capabilities = [], pc_ask_capabilities = []\<rparr> = Inr rules \<and>
     pd_disposition (evaluate_policy_engine rules (\<lambda>_. []) (Custom_Subject ''x'')) = PolicyAllow"
  using policy_engine_decides [of "\<lparr>pc_rule_id_prefix = ''w'', pc_blocked_substrings = [''rm -rf''], pc_ask_substrings = [],
       pc_blocked_tools = [], pc_ask_tools = [''write''], pc_blocked_path_substrings = [], pc_ask_path_substrings = [],
       pc_blocked_capabilities = [], pc_ask_capabilities = []\<rparr>" "\<lambda>_. []" "Custom_Subject ''x''"]
  by (auto simp: any_matches_def subject_command_def succeeds_iff)

text \<open>The consequence for a tool that is asked about: its blocked commands are not denied any more.\<close>

theorem asked_tool_hides_blocked_command:
  assumes "policy_engine c = Inr rules" and "tp_tool_name t \<in> set (pc_ask_tools c)" and "tp_tool_name t \<noteq> []"
    and "tp_tool_name t \<notin> set (pc_blocked_tools c)" and "\<forall>k. tp_capability_id t = Some k \<longrightarrow> k \<notin> set (pc_blocked_capabilities c)"
  shows "pd_disposition (evaluate_policy_engine rules detect (Tool_Subject t)) = PolicyAsk"
proof -
  have "\<not> any_matches Capability_Id (pc_blocked_capabilities c) (Tool_Subject t)"
    "\<not> any_matches Exact_Tool_Name (pc_blocked_tools c) (Tool_Subject t)"
    "any_matches Exact_Tool_Name (pc_ask_tools c) (Tool_Subject t)"
    using assms(2-5) by (auto simp: any_matches_def)
  moreover have "rules = configured_rules c" using assms(1) by (simp add: policy_engine_total split: if_splits)
  ultimately show ?thesis by (simp add: engine_disposition configured_evaluation)
qed

section \<open>Chains\<close>

definition answers :: "('s \<Rightarrow> policy_error + policy_decision option) list \<Rightarrow> 's \<Rightarrow> policy_decision option list" where
  "answers es s = map (\<lambda>e. case e s of Inr r \<Rightarrow> r | Inl _ \<Rightarrow> None) es"

text \<open>The first answer with a disposition.\<close>

definition first_answer :: "policy_disposition \<Rightarrow> policy_decision option list \<Rightarrow> policy_decision option" where
  "first_answer kind ds = find (\<lambda>d. pd_disposition d = kind) (List.map_filter id ds)"

lemma first_answer_simps [simp]:
  "first_answer k [] = None" "first_answer k (None # ds) = first_answer k ds"
  "first_answer k (Some d # ds) = (if pd_disposition d = k then Some d else first_answer k ds)"
  by (simp_all add: first_answer_def List.map_filter_def)

lemma most_restrictive_loop:
  "chain_loop Most_Restrictive es s allow ask deny =
     (if \<exists>e \<in> set es. \<not> succeeds (e s) then chain_loop Most_Restrictive es s allow ask deny
      else Inr (or_else (or_else deny (first_answer PolicyDeny (answers es s)))
        (or_else (or_else ask (first_answer PolicyAsk (answers es s)))
          (or_else allow (first_answer PolicyAllow (answers es s))))))"
proof (induction es arbitrary: allow ask deny)
  case Nil
  then show ?case by (simp add: answers_def)
next
  case (Cons e es)
  show ?case
  proof (cases "\<exists>e' \<in> set (e # es). \<not> succeeds (e' s)")
    case False
    then obtain r where r: "e s = Inr r" and rest: "\<not> (\<exists>e' \<in> set es. \<not> succeeds (e' s))" by (auto simp: succeeds_iff)
    have IH: "chain_loop Most_Restrictive es s allow ask deny =
        Inr (or_else (or_else deny (first_answer PolicyDeny (answers es s)))
          (or_else (or_else ask (first_answer PolicyAsk (answers es s)))
            (or_else allow (first_answer PolicyAllow (answers es s)))))" for allow ask deny
      using Cons.IH [of allow ask deny] rest by (simp only: if_False)
    have unfold: "answers (e # es) s = r # answers es s" by (simp add: answers_def r)
    show ?thesis
    proof (cases r)
      case None
      then show ?thesis using False IH by (simp add: unfold r)
    next
      case (Some d)
      then show ?thesis
        using False IH by (cases "pd_disposition d"; cases deny; cases ask; cases allow; simp add: unfold r)
    qed
  qed (simp only: if_True)
qed

lemma most_restrictive_raises:
  "\<exists>e \<in> set es. \<not> succeeds (e s) \<Longrightarrow> \<exists>x. chain_loop Most_Restrictive es s allow ask deny = Inl x"
proof (induction es arbitrary: allow ask deny)
  case Nil
  then show ?case by simp
next
  case (Cons e es)
  show ?case
  proof (cases "e s")
    case (Inl x)
    then show ?thesis by simp
  next
    case (Inr r)
    then have "\<exists>e \<in> set es. \<not> succeeds (e s)" using Cons.prems by auto
    then show ?thesis using Cons.IH Inr by (cases r) simp_all
  qed
qed

lemma non_allow_allows:
  "chain_loop First_Non_Allow es s allow ask deny = Inr (Some d) \<Longrightarrow> pd_disposition d = PolicyAllow \<Longrightarrow>
   e \<in> set es \<Longrightarrow> \<exists>r. e s = Inr r \<and> (\<forall>d'. r = Some d' \<longrightarrow> pd_disposition d' = PolicyAllow)"
proof (induction es arbitrary: allow ask deny)
  case Nil
  then show ?case by simp
next
  case (Cons e0 es)
  from Cons.prems(1) obtain r where r: "e0 s = Inr r" by (auto simp: rbind_Inr_iff)
  have first: "\<forall>d'. r = Some d' \<longrightarrow> pd_disposition d' = PolicyAllow"
    using Cons.prems(1,2) r by (auto split: if_splits)
  have rest: "\<exists>allow' . chain_loop First_Non_Allow es s allow' ask deny = Inr (Some d)"
    using Cons.prems(1,2) r by (auto split: option.splits if_splits)
  show ?case using Cons.prems(3) r first rest Cons.IH Cons.prems(2) by auto
qed

lemma first_answer_member: "first_answer k ds = Some d \<Longrightarrow> Some d \<in> set ds \<and> pd_disposition d = k"
proof (induction ds)
  case Nil
  then show ?case by simp
next
  case (Cons x ds)
  then show ?case by (cases x) (auto split: if_splits)
qed

lemma first_answer_None: "first_answer k ds = None \<longleftrightarrow> (\<forall>d. Some d \<in> set ds \<longrightarrow> pd_disposition d \<noteq> k)"
proof (induction ds)
  case Nil
  then show ?case by simp
next
  case (Cons x ds)
  then show ?case by (cases x) auto
qed

text \<open>
  Property C40. A chain fails closed. In the most restrictive strategy an evaluator that fails makes the
  chain fail, and otherwise the first denial, else the first request to ask, else the first allowance is
  the answer. With it, and with the strategy of the first answer that does not allow, the chain allows
  only if no evaluator failed and none denied or asked.
\<close>

theorem chain_fails_closed:
  "((\<exists>e \<in> set es. \<not> succeeds (e s)) \<longleftrightarrow> \<not> succeeds (evaluate_chain Most_Restrictive es s)) \<and>
   ((\<forall>e \<in> set es. succeeds (e s)) \<longrightarrow> evaluate_chain Most_Restrictive es s =
      Inr (or_else (first_answer PolicyDeny (answers es s))
        (or_else (first_answer PolicyAsk (answers es s)) (first_answer PolicyAllow (answers es s))))) \<and>
   (\<forall>strategy d. strategy \<noteq> First_Decision \<longrightarrow> evaluate_chain strategy es s = Inr (Some d) \<longrightarrow> pd_disposition d = PolicyAllow \<longrightarrow>
      (\<forall>e \<in> set es. \<exists>r. e s = Inr r \<and> (\<forall>d'. r = Some d' \<longrightarrow> pd_disposition d' = PolicyAllow)))"
proof (intro conjI allI impI ballI)
  have total: "evaluate_chain Most_Restrictive es s =
      Inr (or_else (first_answer PolicyDeny (answers es s))
        (or_else (first_answer PolicyAsk (answers es s)) (first_answer PolicyAllow (answers es s))))"
    if "\<not> (\<exists>e \<in> set es. \<not> succeeds (e s))"
    using most_restrictive_loop [of es s None None None] that by (simp add: evaluate_chain_def)
  show "(\<exists>e \<in> set es. \<not> succeeds (e s)) \<longleftrightarrow> \<not> succeeds (evaluate_chain Most_Restrictive es s)"
  proof (cases "\<exists>e \<in> set es. \<not> succeeds (e s)")
    case True
    then obtain x where "evaluate_chain Most_Restrictive es s = Inl x"
      using most_restrictive_raises [of es s None None None] by (auto simp: evaluate_chain_def)
    then show ?thesis using True by simp
  next
    case False
    then show ?thesis using total [OF False] by simp
  qed
  show "evaluate_chain Most_Restrictive es s =
      Inr (or_else (first_answer PolicyDeny (answers es s))
        (or_else (first_answer PolicyAsk (answers es s)) (first_answer PolicyAllow (answers es s))))"
    if "\<forall>e \<in> set es. succeeds (e s)"
    using total that by blast
  fix strategy d e
  assume allowed: "strategy \<noteq> First_Decision" "evaluate_chain strategy es s = Inr (Some d)" "pd_disposition d = PolicyAllow"
    and e: "e \<in> set es"
  show "\<exists>r. e s = Inr r \<and> (\<forall>d'. r = Some d' \<longrightarrow> pd_disposition d' = PolicyAllow)"
  proof (cases strategy)
    case First_Non_Allow
    then show ?thesis using allowed e non_allow_allows by (simp add: evaluate_chain_def)
  next
    case Most_Restrictive
    have calm: "\<not> (\<exists>e \<in> set es. \<not> succeeds (e s))"
      using most_restrictive_raises [of es s None None None] allowed(2) Most_Restrictive by (auto simp: evaluate_chain_def)
    then obtain r where r: "e s = Inr r" using e by (auto simp: succeeds_iff)
    then have member: "r \<in> set (answers es s)" using e by (auto simp: answers_def image_iff intro!: bexI [of _ e])
    have "or_else (first_answer PolicyDeny (answers es s))
        (or_else (first_answer PolicyAsk (answers es s)) (first_answer PolicyAllow (answers es s))) = Some d"
      using total [OF calm] allowed(2) Most_Restrictive by simp
    then have "first_answer PolicyDeny (answers es s) = None" "first_answer PolicyAsk (answers es s) = None"
      using allowed(3) first_answer_member [of _ "answers es s" d] by (auto simp: or_else_def split: option.splits)
    then show ?thesis using r member policy_disposition.exhaust unfolding first_answer_None by metis
  qed (use allowed in simp)
qed

theorem chain_fails_closed_witness:
  "evaluate_chain Most_Restrictive [\<lambda>_. Inr (Some policy_allow), \<lambda>_. Inr (Some (policy_deny ''r'' ''w''))] () =
     Inr (Some (policy_deny ''r'' ''w''))"
  using chain_fails_closed [of "[\<lambda>_. Inr (Some policy_allow), \<lambda>_. Inr (Some (policy_deny ''r'' ''w''))]" "()"]
  by (simp add: answers_def)

end
