(* ===== verification/Approval_Requests.thy ===== *)
theory Approval_Requests
  imports Jsonl_Journal "HOL-Library.Product_Lexorder"
begin

text \<open>
  The values of the approval lifecycle (\<open>harness/approval\<close>): proposals, amendments, requests and
  decisions (\<open>requests.py\<close>), the grants of a session (\<open>grants.py\<close>) and the retained rules of a project or
  a user (\<open>rules.py\<close>) with the document they are persisted as.

  A proposal compares without its summary, so the dictionaries keyed by proposals are keyed here by
  \<open>grant_key\<close>. The fields of a request that the lifecycle only passes on are its details, of any type.
  The identifiers drawn from \<open>uuid4\<close> are arguments.
\<close>

section \<open>Proposals and requests\<close>

datatype approval_error =
    InvalidProposal
  | InvalidRequest
  | InvalidDecision
  | NoSafeGrant
  | NoActionId
  | WrongScope
  | InvalidPayload
  | RequestCollision string
  | BrokerDisposed
  | ApprovalsPending
  | ConfirmationCapacity
  | NoLongerCurrent
  | FallbackRaised

record grant_proposal =
  gp_capability :: string
  gp_constraints :: "(string \<times> string) list"
  gp_summary :: string

text \<open>\<open>ApprovalGrantProposal.__post_init__\<close>.\<close>

definition make_proposal :: "string \<Rightarrow> (string \<times> string) list \<Rightarrow> string \<Rightarrow> approval_error + grant_proposal" where
  "make_proposal capability constraints summary =
     rbind (require (capability \<noteq> [] \<and> summary \<noteq> []) InvalidProposal) (\<lambda>_.
     rbind (require (list_all (\<lambda>(k, v). k \<noteq> [] \<and> v \<noteq> []) constraints) InvalidProposal) (\<lambda>_.
     rbind (require (distinct (keys constraints)) InvalidProposal) (\<lambda>_.
     Inr \<lparr>gp_capability = capability, gp_constraints = sort constraints, gp_summary = summary\<rparr>)))"

type_synonym grant_key = "string \<times> (string \<times> string) list"

definition grant_key :: "grant_proposal \<Rightarrow> grant_key" where
  "grant_key p = (gp_capability p, gp_constraints p)"

datatype amendment_scope = Project_Scope | User_Scope

record policy_amendment =
  am_scope :: amendment_scope
  am_grant :: grant_proposal

record 'd approval_request =
  aq_tool_name :: string
  aq_reason :: "string option"
  aq_action_id :: "string option"
  aq_actor_id :: string
  aq_session_grant :: "grant_proposal option"
  aq_policy_amendments :: "policy_amendment list"
  aq_details :: 'd

text \<open>\<open>ApprovalRequest.__post_init__\<close>.\<close>

definition check_request :: "'d approval_request \<Rightarrow> approval_error + 'd approval_request" where
  "check_request q =
     rbind (require (aq_tool_name q \<noteq> [] \<and> aq_action_id q \<noteq> Some [] \<and> aq_actor_id q \<noteq> []) InvalidRequest) (\<lambda>_.
     rbind (require (distinct (map am_scope (aq_policy_amendments q))) InvalidRequest) (\<lambda>_.
     Inr q))"

text \<open>What equality of requests compares: everything but the summaries of proposals.\<close>

definition forget_summary :: "grant_proposal \<Rightarrow> grant_proposal" where
  "forget_summary p = p\<lparr>gp_summary := []\<rparr>"

definition request_content :: "'d approval_request \<Rightarrow> 'd approval_request" where
  "request_content q =
     q\<lparr>aq_session_grant := map_option forget_summary (aq_session_grant q),
       aq_policy_amendments := map (\<lambda>a. a\<lparr>am_grant := forget_summary (am_grant a)\<rparr>) (aq_policy_amendments q)\<rparr>"

definition same_request :: "'d approval_request \<Rightarrow> 'd approval_request \<Rightarrow> bool" where
  "same_request q q' \<longleftrightarrow> request_content q = request_content q'"

definition request_amendment :: "'d approval_request \<Rightarrow> amendment_scope \<Rightarrow> policy_amendment option" where
  "request_amendment q scope = find (\<lambda>a. am_scope a = scope) (aq_policy_amendments q)"

text \<open>\<open>ensure_approval_action_id\<close>, with the fresh id it would draw.\<close>

definition ensure_action_id :: "string \<Rightarrow> 'd approval_request \<Rightarrow> 'd approval_request" where
  "ensure_action_id fresh q = (if aq_action_id q \<noteq> None \<and> aq_action_id q \<noteq> Some [] then q else q\<lparr>aq_action_id := Some fresh\<rparr>)"

section \<open>Decisions\<close>

datatype approval_disposition = Approved | Denied | Aborted

datatype approval_scope = Once | Whole_Session

record approval_decision =
  ad_disposition :: approval_disposition
  ad_reason :: "string option"
  ad_scope :: approval_scope
  ad_grant_id :: "string option"
  ad_policy_rule_id :: "string option"
  ad_policy_scope :: "amendment_scope option"

text \<open>\<open>ApprovalDecision.__post_init__\<close>.\<close>

definition valid_decision :: "approval_decision \<Rightarrow> bool" where
  "valid_decision d \<longleftrightarrow>
     ad_grant_id d \<noteq> Some [] \<and>
     \<not> (ad_disposition d \<in> {Denied, Aborted} \<and>
        (ad_scope d \<noteq> Once \<or> ad_grant_id d \<noteq> None \<or> ad_policy_rule_id d \<noteq> None \<or> ad_policy_scope d \<noteq> None)) \<and>
     (if ad_policy_rule_id d \<noteq> None
      then ad_disposition d = Approved \<and> ad_policy_scope d \<noteq> None \<and> ad_scope d = Once \<and> ad_grant_id d = None
      else ad_policy_scope d = None) \<and>
     \<not> (ad_scope d = Whole_Session \<and> ad_grant_id d = None) \<and>
     \<not> (ad_scope d = Once \<and> ad_grant_id d \<noteq> None)"

definition allow_once :: approval_decision where
  "allow_once = \<lparr>ad_disposition = Approved, ad_reason = None, ad_scope = Once, ad_grant_id = None,
     ad_policy_rule_id = None, ad_policy_scope = None\<rparr>"

definition allow_session :: "string \<Rightarrow> approval_decision" where
  "allow_session grant_id = allow_once\<lparr>ad_scope := Whole_Session, ad_grant_id := Some grant_id\<rparr>"

definition allow_by_policy :: "string \<Rightarrow> amendment_scope \<Rightarrow> approval_decision" where
  "allow_by_policy rule_id scope = allow_once\<lparr>ad_policy_rule_id := Some rule_id, ad_policy_scope := Some scope\<rparr>"

definition deny_decision :: "string option \<Rightarrow> approval_decision" where
  "deny_decision reason = allow_once\<lparr>ad_disposition := Denied, ad_reason := reason\<rparr>"

definition abort_decision :: "string option \<Rightarrow> approval_decision" where
  "abort_decision reason = allow_once\<lparr>ad_disposition := Aborted, ad_reason := reason\<rparr>"

datatype approval_outcome = Allow_Once | Allow_Session | Allow_Project | Allow_User | Deny_Action | Abort_Action

record approval_option =
  ao_outcome :: approval_outcome
  ao_label :: string
  ao_shortcut :: string
  ao_tone :: string

definition approval_options :: "'d approval_request \<Rightarrow> approval_option list" where
  "approval_options q =
     [\<lparr>ao_outcome = Allow_Once, ao_label = ''Allow this action once'', ao_shortcut = ''y'', ao_tone = ''allow''\<rparr>] @
     (case aq_session_grant q of
        None \<Rightarrow> []
      | Some p \<Rightarrow> [\<lparr>ao_outcome = Allow_Session, ao_label = gp_summary p, ao_shortcut = ''s'', ao_tone = ''session''\<rparr>]) @
     map (\<lambda>a. if am_scope a = Project_Scope
       then \<lparr>ao_outcome = Allow_Project, ao_label = ''Always allow for this project: '' @ gp_summary (am_grant a),
         ao_shortcut = ''p'', ao_tone = ''persistent''\<rparr>
       else \<lparr>ao_outcome = Allow_User, ao_label = ''Always allow for this user: '' @ gp_summary (am_grant a),
         ao_shortcut = ''u'', ao_tone = ''persistent''\<rparr>) (aq_policy_amendments q) @
     [\<lparr>ao_outcome = Deny_Action, ao_label = ''Deny and let the agent continue'', ao_shortcut = ''n'', ao_tone = ''deny''\<rparr>]"

section \<open>Session grants\<close>

record approval_grant =
  ag_grant_id :: string
  ag_actor_id :: string
  ag_proposal :: grant_proposal
  ag_source_action_id :: string

type_synonym grant_store = "((string \<times> grant_key) \<times> approval_grant) list"

definition find_grant :: "'d approval_request \<Rightarrow> grant_store \<Rightarrow> approval_grant option" where
  "find_grant q s =
     (case aq_session_grant q of None \<Rightarrow> None | Some p \<Rightarrow> map_of s (aq_actor_id q, grant_key p))"

definition issue_grant :: "string \<Rightarrow> 'd approval_request \<Rightarrow> grant_store \<Rightarrow> approval_error + approval_grant \<times> grant_store" where
  "issue_grant fresh q s =
     (case aq_session_grant q of
        None \<Rightarrow> Inl NoSafeGrant
      | Some p \<Rightarrow>
          (case aq_action_id q of
             None \<Rightarrow> Inl NoActionId
           | Some a \<Rightarrow>
               let grant = \<lparr>ag_grant_id = fresh, ag_actor_id = aq_actor_id q, ag_proposal = p, ag_source_action_id = a\<rparr> in
               Inr (grant, AList.update (aq_actor_id q, grant_key p) grant s)))"

text \<open>The loop of \<open>revoke\<close> over the items, in either store: the first value with the id is removed.\<close>

fun revoke_first :: "('v \<Rightarrow> bool) \<Rightarrow> ('k \<times> 'v) list \<Rightarrow> bool \<times> ('k \<times> 'v) list" where
  "revoke_first P [] = (False, [])"
| "revoke_first P ((k, v) # s) =
     (if P v then (True, s) else case revoke_first P s of (found, s') \<Rightarrow> (found, (k, v) # s'))"

definition revoke_grant :: "string \<Rightarrow> grant_store \<Rightarrow> bool \<times> grant_store" where
  "revoke_grant grant_id s = revoke_first (\<lambda>g. ag_grant_id g = grant_id) s"

definition revoke_actor :: "string \<Rightarrow> grant_store \<Rightarrow> nat \<times> grant_store" where
  "revoke_actor actor s =
     (length (filter (\<lambda>(k, g). fst k = actor) s), filter (\<lambda>(k, g). fst k \<noteq> actor) s)"

definition clear_grants :: "grant_store \<Rightarrow> nat \<times> grant_store" where
  "clear_grants s = (length s, [])"

section \<open>Retained rules\<close>

record approval_rule =
  ar_rule_id :: string
  ar_scope :: amendment_scope
  ar_proposal :: grant_proposal
  ar_source_action_id :: string

record rule_store =
  rs_scope :: amendment_scope
  rs_rules :: "(grant_key \<times> approval_rule) list"

definition find_rule :: "'d approval_request \<Rightarrow> rule_store \<Rightarrow> approval_rule option" where
  "find_rule q s =
     (case request_amendment q (rs_scope s) of None \<Rightarrow> None | Some a \<Rightarrow> map_of (rs_rules s) (grant_key (am_grant a)))"

definition issue_rule ::
  "string \<Rightarrow> 'd approval_request \<Rightarrow> policy_amendment \<Rightarrow> rule_store \<Rightarrow> approval_error + approval_rule \<times> rule_store" where
  "issue_rule fresh q a s =
     (if am_scope a \<noteq> rs_scope s then Inl WrongScope
      else case aq_action_id q of
        None \<Rightarrow> Inl NoActionId
      | Some action \<Rightarrow>
          (case map_of (rs_rules s) (grant_key (am_grant a)) of
             Some existing \<Rightarrow> Inr (existing, s)
           | None \<Rightarrow>
               let rule = \<lparr>ar_rule_id = fresh, ar_scope = rs_scope s, ar_proposal = am_grant a, ar_source_action_id = action\<rparr> in
               Inr (rule, s\<lparr>rs_rules := AList.update (grant_key (am_grant a)) rule (rs_rules s)\<rparr>)))"

definition revoke_rule :: "string \<Rightarrow> rule_store \<Rightarrow> bool \<times> rule_store" where
  "revoke_rule rule_id s =
     (case revoke_first (\<lambda>r. ar_rule_id r = rule_id) (rs_rules s) of (found, rules) \<Rightarrow> (found, s\<lparr>rs_rules := rules\<rparr>))"

definition stored_rules :: "rule_store \<Rightarrow> approval_rule list" where
  "stored_rules s = map snd (rs_rules s)"

section \<open>The persisted document\<close>

definition scope_text :: "amendment_scope \<Rightarrow> string" where
  "scope_text scope = (case scope of Project_Scope \<Rightarrow> ''project'' | User_Scope \<Rightarrow> ''user'')"

definition rule_document :: "approval_rule \<Rightarrow> json" where
  "rule_document r = JObj
     [(''rule_id'', JStr (ar_rule_id r)), (''scope'', JStr (scope_text (ar_scope r))),
      (''capability'', JStr (gp_capability (ar_proposal r))),
      (''constraints'', JObj (map (\<lambda>(k, v). (k, JStr v)) (dict_merge [] (gp_constraints (ar_proposal r))))),
      (''summary'', JStr (gp_summary (ar_proposal r))), (''source_action_id'', JStr (ar_source_action_id r))]"

definition rules_document :: "rule_store \<Rightarrow> json" where
  "rules_document s = JObj [(''version'', JInt 1), (''rules'', JList (map rule_document (stored_rules s)))]"

fun required_string :: "json option \<Rightarrow> approval_error + string" where
  "required_string (Some (JStr s)) = (if s = [] then Inl InvalidPayload else Inr s)"
| "required_string _ = Inl InvalidPayload"

text \<open>The body of the loop of \<open>_load\<close>: one raw rule, read into the dictionary.\<close>

definition load_rule ::
  "amendment_scope \<Rightarrow> (grant_key \<times> approval_rule) list \<Rightarrow> json \<Rightarrow> approval_error + (grant_key \<times> approval_rule) list" where
  "load_rule scope rules raw =
     (case raw of
        JObj members \<Rightarrow>
          if map_of members ''scope'' \<noteq> Some (JStr (scope_text scope)) then Inr rules
          else
            (case map_of members ''constraints'' of
               Some (JObj constraints) \<Rightarrow>
                 rbind (required_string (map_of members ''capability'')) (\<lambda>capability.
                 rbind (rmap (\<lambda>(k, v). rbind (required_string (Some (JStr k))) (\<lambda>k.
                   rbind (required_string (Some v)) (\<lambda>v. Inr (k, v)))) constraints) (\<lambda>pairs.
                 rbind (required_string (map_of members ''summary'')) (\<lambda>summary.
                 rbind (make_proposal capability pairs summary) (\<lambda>proposal.
                 rbind (required_string (map_of members ''rule_id'')) (\<lambda>rule_id.
                 rbind (required_string (map_of members ''source_action_id'')) (\<lambda>source.
                 Inr (AList.update (grant_key proposal)
                   \<lparr>ar_rule_id = rule_id, ar_scope = scope, ar_proposal = proposal, ar_source_action_id = source\<rparr> rules)))))))
             | _ \<Rightarrow> Inl InvalidPayload)
      | _ \<Rightarrow> Inl InvalidPayload)"

text \<open>\<open>JsonApprovalPolicyRuleStore._load\<close> on the document of the file, none if there is no file.\<close>

definition load_rules :: "amendment_scope \<Rightarrow> json option \<Rightarrow> approval_error + rule_store" where
  "load_rules scope document =
     (case document of
        None \<Rightarrow> Inr \<lparr>rs_scope = scope, rs_rules = []\<rparr>
      | Some (JObj payload) \<Rightarrow>
          (case (case map_of payload ''rules'' of None \<Rightarrow> JList [] | Some raw \<Rightarrow> raw) of
             JList raws \<Rightarrow>
               rbind (rfold (load_rule scope) [] raws) (\<lambda>rules. Inr \<lparr>rs_scope = scope, rs_rules = rules\<rparr>)
           | _ \<Rightarrow> Inl InvalidPayload)
      | Some _ \<Rightarrow> Inl InvalidPayload)"

end
