(* ===== verification/Publication_Grants.thy ===== *)
theory Publication_Grants
  imports Approval_Requests Policy_Rules
begin

text \<open>
  Which actions may be granted for a whole session (\<open>harness/approval/proposals.py\<close>): the words of a
  command, split as \<open>shlex.split\<close> or by the lexical helper for PowerShell
  (\<open>harness/policy/_powershell.py\<close>), are read as a \<open>git push\<close>, and only a form whose scope is understood
  yields a proposal.

  Where a repository is depends on the file system: \<open>repository_ref\<close>, from the working directory and
  the directories given with \<open>-C\<close>, is an argument. Letters are compared as ASCII; no other character of
  the model folds to a letter of the program's name.
\<close>

section \<open>Words of a command\<close>

text \<open>
  The reader of \<open>shlex\<close> in POSIX mode with \<open>whitespace_split\<close>: between words, in a word, in quotes, or
  after a backslash in a word or in double quotes. \<open>None\<close> is the \<open>ValueError\<close> of an open quotation or
  escape.
\<close>

datatype lex_state = Between | In_Word | In_Quotes char | Escaped_Word | Escaped_Quotes char

definition lex_space :: "char \<Rightarrow> bool" where
  "lex_space c \<longleftrightarrow> code c \<in> {9, 10, 13, 32}"

definition lex_backslash :: char where
  "lex_backslash = CHR 0x5C"

definition lex_double_quote :: char where
  "lex_double_quote = CHR 0x22"

definition lex_single_quote :: char where
  "lex_single_quote = CHR 0x27"

definition lex_quote :: "char \<Rightarrow> bool" where
  "lex_quote c \<longleftrightarrow> c = lex_double_quote \<or> c = lex_single_quote"

fun shell_words :: "lex_state \<Rightarrow> bool \<Rightarrow> string \<Rightarrow> string \<Rightarrow> string list option" where
  "shell_words state quoted word [] =
     (case state of
        Between \<Rightarrow> Some []
      | In_Word \<Rightarrow> Some (if word \<noteq> [] \<or> quoted then [word] else [])
      | _ \<Rightarrow> None)"
| "shell_words state quoted word (c # cs) =
     (case state of
        Between \<Rightarrow>
          if lex_space c then shell_words Between False [] cs
          else if c = lex_backslash then shell_words Escaped_Word False [] cs
          else if lex_quote c then shell_words (In_Quotes c) True [] cs
          else shell_words In_Word False [c] cs
      | In_Word \<Rightarrow>
          if lex_space c then
            (if word \<noteq> [] \<or> quoted then map_option ((#) word) (shell_words Between False [] cs)
             else shell_words Between False [] cs)
          else if lex_quote c then shell_words (In_Quotes c) True word cs
          else if c = lex_backslash then shell_words Escaped_Word quoted word cs
          else shell_words In_Word quoted (word @ [c]) cs
      | In_Quotes q \<Rightarrow>
          if c = q then shell_words In_Word True word cs
          else if c = lex_backslash \<and> q = lex_double_quote then shell_words (Escaped_Quotes q) True word cs
          else shell_words (In_Quotes q) True (word @ [c]) cs
      | Escaped_Word \<Rightarrow> shell_words In_Word quoted (word @ [c]) cs
      | Escaped_Quotes q \<Rightarrow>
          shell_words (In_Quotes q) True
            (word @ (if c \<noteq> lex_backslash \<and> c \<noteq> q then [lex_backslash, c] else [c])) cs)"

definition shlex_split :: "string \<Rightarrow> string list option" where
  "shlex_split s = shell_words Between False [] s"

text \<open>\<open>parse_simple_powershell_command\<close> without a quoted command; the quote that is open, and the words so far.\<close>

definition powershell_control :: "char \<Rightarrow> bool" where
  "powershell_control c \<longleftrightarrow> c \<in> set ''`$@;&|<>(){}[],#''"

fun powershell_words ::
  "char option \<Rightarrow> bool \<Rightarrow> bool \<Rightarrow> string \<Rightarrow> string list \<Rightarrow> string \<Rightarrow> string list option" where
  "powershell_words open_quote started command_quoted current tokens [] =
     (if open_quote \<noteq> None then None
      else let tokens = (if started then tokens @ [current] else tokens) in
        if tokens = [] \<or> hd tokens = [] \<or> command_quoted then None else Some tokens)"
| "powershell_words open_quote started command_quoted current tokens (c # cs) =
     (case open_quote of
        Some q \<Rightarrow>
          if q = lex_double_quote \<and> c \<in> set ''`$'' then None
          else if c = q then
            (case cs of
               c' # cs' \<Rightarrow>
                 if q = lex_single_quote \<and> c' = lex_single_quote
                 then powershell_words open_quote started command_quoted (current @ [lex_single_quote]) tokens cs'
                 else powershell_words None started command_quoted current tokens cs
             | [] \<Rightarrow> powershell_words None started command_quoted current tokens cs)
          else powershell_words open_quote started command_quoted (current @ [c]) tokens cs
      | None \<Rightarrow>
          if code c \<in> {10, 13} then None
          else if py_space c then
            (if started then powershell_words None False command_quoted [] (tokens @ [current]) cs
             else powershell_words None False command_quoted current tokens cs)
          else if lex_quote c then powershell_words (Some c) True (command_quoted \<or> tokens = []) current tokens cs
          else if powershell_control c then None
          else powershell_words None True command_quoted (current @ [c]) tokens cs)"

definition parse_simple_powershell :: "string \<Rightarrow> string list option" where
  "parse_simple_powershell script =
     (if not_blank script then powershell_words None False False [] [] script else None)"

definition shell_control :: "string list" where
  "shell_control = ['';'', ''&&'', ''||'', ''|'', ''&'', ''('', '')'']"

definition simple_command_tokens :: "command_subject \<Rightarrow> string list" where
  "simple_command_tokens c =
     (case cp_shell_payload c of
        None \<Rightarrow> cp_direct_tokens c
      | Some script \<Rightarrow>
          if cp_dialect c = Powershell then
            (case parse_simple_powershell script of None \<Rightarrow> [] | Some tokens \<Rightarrow> tokens)
          else if cp_dialect c \<noteq> Posix then []
          else
            (case shlex_split script of
               None \<Rightarrow> []
             | Some tokens \<Rightarrow> if list_ex (\<lambda>t. t \<in> set shell_control) tokens then [] else tokens))"

section \<open>Reading a push\<close>

definition ascii_lower :: "string \<Rightarrow> string" where
  "ascii_lower s = map (\<lambda>c. if 65 \<le> code c \<and> code c \<le> 90 then char_of (code c + 32) else c) s"

text \<open>\<open>os.path.basename\<close>.\<close>

definition base_name :: "string \<Rightarrow> string" where
  "base_name s = rev (takeWhile (\<lambda>c. c \<noteq> CHR ''/'') (rev s))"

text \<open>The first and the last component of \<open>value.partition(separator)\<close> for one character.\<close>

definition before_char :: "char \<Rightarrow> string \<Rightarrow> string" where
  "before_char c s = takeWhile (\<lambda>x. x \<noteq> c) s"

definition after_char :: "char \<Rightarrow> string \<Rightarrow> string" where
  "after_char c s = drop 1 (dropWhile (\<lambda>x. x \<noteq> c) s)"

definition git_global_value_options :: "string list" where
  "git_global_value_options = [''-C'', ''-c'', ''--exec-path'', ''--git-dir'', ''--namespace'', ''--work-tree'']"

definition push_value_options :: "string list" where
  "push_value_options = [''--exec'', ''--push-option'', ''--receive-pack'', ''--repo'']"

definition push_ignored_options :: "string list" where
  "push_ignored_options = [''-q'', ''-u'', ''-v'', ''--atomic'', ''--ipv4'', ''--ipv6'', ''--porcelain'',
     ''--progress'', ''--quiet'', ''--set-upstream'', ''--verbose'']"

definition push_dry_run_options :: "string list" where
  "push_dry_run_options = [''-n'', ''--dry-run'']"

definition push_unsafe_options :: "string list" where
  "push_unsafe_options = [''-d'', ''-f'', ''--all'', ''--delete'', ''--force'', ''--force-if-includes'',
     ''--force-with-lease'', ''--follow-tags'', ''--mirror'', ''--no-verify'', ''--prune'', ''--signed'', ''--tags'']"

definition starts_with :: "string \<Rightarrow> string \<Rightarrow> bool" where
  "starts_with s p \<longleftrightarrow> take (length p) s = p"

definition unsafe_push_option :: "string \<Rightarrow> bool" where
  "unsafe_push_option v \<longleftrightarrow>
     before_char CHR ''='' v \<in> set push_unsafe_options \<or>
     (starts_with v ''-'' \<and> \<not> starts_with v ''--'' \<and> (CHR ''d'' \<in> set (tl v) \<or> CHR ''f'' \<in> set (tl v)))"

definition unsafe_refspec :: "string \<Rightarrow> bool" where
  "unsafe_refspec r \<longleftrightarrow> starts_with r ''+'' \<or> starts_with r '':''"

text \<open>The first loop: the wrappers before the program.\<close>

definition skip_wrappers :: "string list \<Rightarrow> string list" where
  "skip_wrappers tokens = dropWhile (\<lambda>t. base_name t \<in> {''command'', ''exec'', ''nohup''}) tokens"

text \<open>The second loop: the options before \<open>push\<close>, with the directories of \<open>-C\<close>, and what follows \<open>push\<close>.\<close>

fun git_globals :: "string list \<Rightarrow> string list \<Rightarrow> (string list \<times> string list) option" where
  "git_globals dirs [] = None"
| "git_globals dirs (v # vs) =
     (let option_name = before_char CHR ''='' v in
      if option_name \<in> set git_global_value_options then
        (if after_char CHR ''='' v \<noteq> [] then
           (if option_name \<noteq> ''-C'' then None else git_globals (dirs @ [after_char CHR ''='' v]) vs)
         else
           (case vs of
              [] \<Rightarrow> None
            | operand # vs' \<Rightarrow> if option_name \<noteq> ''-C'' then None else git_globals (dirs @ [operand]) vs'))
      else if starts_with v ''-'' then
        (if v \<in> {''--bare'', ''--literal-pathspecs'', ''--no-optional-locks'', ''--no-pager''} then git_globals dirs vs else None)
      else if v \<noteq> ''push'' then None
      else Some (dirs, vs))"

text \<open>The third loop: the options and operands of the push; the flag is \<open>unsafe\<close>.\<close>

fun push_operands :: "bool \<Rightarrow> string list \<Rightarrow> (bool \<times> string list) option" where
  "push_operands unsafe [] = Some (unsafe, [])"
| "push_operands unsafe (v # vs) =
     (let option_name = before_char CHR ''='' v; unsafe = (unsafe \<or> unsafe_push_option v) in
      if option_name \<in> set push_dry_run_options then None
      else if option_name \<in> set push_value_options then None
      else if v = ''--'' then Some (unsafe, vs)
      else if starts_with v ''-'' then
        (if option_name \<notin> set push_ignored_options then None else push_operands unsafe vs)
      else map_option (\<lambda>(unsafe, operands). (unsafe, v # operands)) (push_operands unsafe vs))"

text \<open>\<open>"://" in remote and "@" in remote.partition("://")[2].partition("/")[0]\<close>.\<close>

fun after_scheme :: "string \<Rightarrow> string option" where
  "after_scheme [] = None"
| "after_scheme (c # cs) = (if starts_with (c # cs) ''://'' then Some (drop 2 cs) else after_scheme cs)"

definition names_credentials :: "string \<Rightarrow> bool" where
  "names_credentials remote =
     (case after_scheme remote of None \<Rightarrow> False | Some rest \<Rightarrow> CHR ''@'' \<in> set (before_char CHR ''/'' rest))"

definition git_push_proposal ::
  "(string option \<Rightarrow> string list \<Rightarrow> string) \<Rightarrow> string list \<Rightarrow> string option \<Rightarrow> approval_error + grant_proposal option" where
  "git_push_proposal repository_ref tokens cwd =
     (case skip_wrappers tokens of
        [] \<Rightarrow> Inr None
      | program # arguments \<Rightarrow>
          if ascii_lower (base_name program) \<notin> {''git'', ''git.exe''} then Inr None
          else
            (case git_globals [] arguments of
               None \<Rightarrow> Inr None
             | Some (dirs, rest) \<Rightarrow>
                 (case push_operands False rest of
                    None \<Rightarrow> Inr None
                  | Some (unsafe, operands) \<Rightarrow>
                      if unsafe \<or> length operands < 2 then Inr None
                      else let remote = hd operands; refspecs = tl operands in
                        if remote = [] \<or> list_ex (\<lambda>r. r = []) refspecs then Inr None
                        else if list_ex unsafe_refspec refspecs then Inr None
                        else if names_credentials remote then Inr None
                        else rbind (make_proposal ''git.publish_refs''
                          [(''repository'', repository_ref cwd dirs), (''remote'', remote), (''force'', ''false'')]
                          (''Publish non-force refs to '' @ remote @ '' from this repository'')) (\<lambda>p. Inr (Some p)))))"

section \<open>Proposals\<close>

definition propose_session_grant ::
  "(string option \<Rightarrow> string list \<Rightarrow> string) \<Rightarrow> tool_subject \<Rightarrow> string option \<Rightarrow> approval_error + grant_proposal option" where
  "propose_session_grant repository_ref t policy_code =
     (if policy_code \<noteq> Some ''external_publication'' then Inr None
      else if tp_capability_id t \<noteq> Some ''workspace.command'' \<and>
        \<not> (tp_capability_id t = None \<and> tp_tool_name t = ''bash'') then Inr None
      else
        (case tp_command t of
           None \<Rightarrow> Inr None
         | Some c \<Rightarrow>
             if \<not> cp_normalization_complete c then Inr None
             else let tokens = simple_command_tokens c in
               if tokens = [] then Inr None else git_push_proposal repository_ref tokens (tp_cwd t)))"

definition propose_policy_amendments ::
  "(string option \<Rightarrow> string list \<Rightarrow> string) \<Rightarrow> tool_subject \<Rightarrow> string option \<Rightarrow> approval_error + policy_amendment list" where
  "propose_policy_amendments repository_ref t policy_code =
     rbind (propose_session_grant repository_ref t policy_code) (\<lambda>grant.
     Inr (case grant of None \<Rightarrow> [] | Some p \<Rightarrow> [\<lparr>am_scope = Project_Scope, am_grant = p\<rparr>]))"

end
