(* ===== verification/Approval_Resolver.thy ===== *)
theory Approval_Resolver
  imports Approval_Requests
begin

text \<open>
  The lifecycle of interactive approvals (\<open>harness/approval/broker.py\<close>, \<open>resolvers.py\<close>): the broker that
  presents a request and completes it once, and the resolver that reuses grants and rules, coalesces
  requests for one capability, records answers and issues confirmations.

  Asynchronous methods are cut at their suspension points. A future is what it holds. Presenting and
  dismissing are output: whether a presenter is set is all that is kept of it, and a presenter that
  raises is \<open>broker_abandon\<close>. The checks that one event loop is used have no counterpart. A store of
  rules is the in-memory one; what the JSON store writes after a change is \<open>rules_document\<close> of it, and
  a write that fails after the rule was kept in memory is not modelled.
\<close>

section \<open>The broker\<close>

datatype approval_future = Waiting | Decided approval_decision

record 'd pending_approval =
  pa_request :: "'d approval_request"
  pa_future :: approval_future
  pa_accepting :: bool

record 'd approval_broker =
  ab_presenter :: bool
  ab_pending :: "(string \<times> 'd pending_approval) list"
  ab_presented :: "string list"
  ab_disposed :: bool

definition new_broker :: "'d approval_broker" where
  "new_broker = \<lparr>ab_presenter = False, ab_pending = [], ab_presented = [], ab_disposed = False\<rparr>"

definition broker_set_presenter :: "bool \<Rightarrow> 'd approval_broker \<Rightarrow> approval_error + 'd approval_broker" where
  "broker_set_presenter presenter b =
     (if ab_disposed b \<and> presenter then Inl BrokerDisposed else Inr (b\<lparr>ab_presenter := presenter\<rparr>))"

definition pending_requests :: "'d approval_broker \<Rightarrow> 'd approval_request list" where
  "pending_requests b = map (\<lambda>(_, p). pa_request p) (ab_pending b)"

definition pending_request :: "string \<Rightarrow> 'd approval_broker \<Rightarrow> 'd approval_request option" where
  "pending_request a b = map_option pa_request (map_of (ab_pending b) a)"

text \<open>\<open>resolve\<close> of a request with an action id, up to its first suspension.\<close>

datatype broker_begin = To_Fallback | Presented

definition broker_resolve_begin ::
  "string \<Rightarrow> 'd approval_request \<Rightarrow> 'd approval_broker \<Rightarrow> approval_error + broker_begin \<times> 'd approval_broker" where
  "broker_resolve_begin a q b =
     (if a \<in> set (keys (ab_pending b)) then Inl (RequestCollision a)
      else if ab_disposed b \<or> \<not> ab_presenter b then Inr (To_Fallback, b)
      else if a \<in> set (ab_presented b) then Inl (RequestCollision a)
      else Inr (Presented, b\<lparr>ab_presented := a # ab_presented b,
        ab_pending := AList.update a \<lparr>pa_request = q, pa_future = Waiting, pa_accepting = True\<rparr> (ab_pending b)\<rparr>))"

text \<open>The \<open>finally\<close> of \<open>resolve\<close>: the entry is taken away.\<close>

definition broker_release :: "string \<Rightarrow> 'd approval_broker \<Rightarrow> 'd approval_broker" where
  "broker_release a b = b\<lparr>ab_pending := AList.delete a (ab_pending b)\<rparr>"

text \<open>The waiter resumes with the result of the future.\<close>

definition broker_finish :: "string \<Rightarrow> 'd approval_broker \<Rightarrow> (approval_decision \<times> 'd approval_broker) option" where
  "broker_finish a b =
     (case map_of (ab_pending b) a of
        None \<Rightarrow> None
      | Some p \<Rightarrow> (case pa_future p of Waiting \<Rightarrow> None | Decided d \<Rightarrow> Some (d, broker_release a b)))"

definition broker_timeout :: "string \<Rightarrow> 'd approval_broker \<Rightarrow> 'd approval_broker" where
  "broker_timeout a b =
     (case map_of (ab_pending b) a of
        None \<Rightarrow> b
      | Some p \<Rightarrow> b\<lparr>ab_pending := AList.update a (p\<lparr>pa_accepting := False\<rparr>) (ab_pending b)\<rparr>)"

text \<open>After the timeout the fallback returned: a decision made meanwhile takes precedence.\<close>

definition broker_fallback_returned ::
  "string \<Rightarrow> approval_decision \<Rightarrow> 'd approval_broker \<Rightarrow> (approval_decision \<times> 'd approval_broker) option" where
  "broker_fallback_returned a fallback b =
     (case map_of (ab_pending b) a of
        None \<Rightarrow> None
      | Some p \<Rightarrow>
          if pa_accepting p then None
          else Some (case pa_future p of Waiting \<Rightarrow> fallback | Decided d \<Rightarrow> d, broker_release a b))"

text \<open>The presenter or the fallback raised, or the caller was cancelled.\<close>

definition broker_abandon :: "string \<Rightarrow> 'd approval_broker \<Rightarrow> 'd approval_broker" where
  "broker_abandon a b = broker_release a b"

definition set_decision :: "approval_decision \<Rightarrow> 'd pending_approval \<Rightarrow> 'd pending_approval" where
  "set_decision d p = (if pa_future p = Waiting then p\<lparr>pa_future := Decided d\<rparr> else p)"

definition resolve_request ::
  "string \<Rightarrow> approval_decision \<Rightarrow> 'd approval_broker \<Rightarrow> approval_error + bool \<times> 'd approval_broker" where
  "resolve_request a d b =
     rbind (require (valid_decision d) InvalidDecision) (\<lambda>_.
     Inr (case map_of (ab_pending b) a of
       None \<Rightarrow> (False, b)
     | Some p \<Rightarrow>
         if \<not> pa_accepting p \<or> pa_future p \<noteq> Waiting then (False, b)
         else (True, b\<lparr>ab_pending := AList.update a (set_decision d p) (ab_pending b)\<rparr>)))"

definition cancel_request ::
  "string \<Rightarrow> approval_decision \<Rightarrow> 'd approval_broker \<Rightarrow> approval_error + bool \<times> 'd approval_broker" where
  "cancel_request a d b =
     rbind (require (valid_decision d) InvalidDecision) (\<lambda>_.
     Inr (case map_of (ab_pending b) a of
       None \<Rightarrow> (False, b)
     | Some p \<Rightarrow>
         if pa_future p \<noteq> Waiting then (False, b)
         else (True, b\<lparr>ab_pending := AList.update a (set_decision d p) (ab_pending b)\<rparr>)))"

text \<open>The loop of \<open>cancel_all\<close> and \<open>cancel_actor\<close>, with the number of requests it completes.\<close>

definition cancel_where ::
  "('d approval_request \<Rightarrow> bool) \<Rightarrow> approval_decision \<Rightarrow> 'd approval_broker \<Rightarrow> nat \<times> 'd approval_broker" where
  "cancel_where P d b =
     (length (filter (\<lambda>(_, p). P (pa_request p) \<and> pa_future p = Waiting) (ab_pending b)),
      b\<lparr>ab_pending := map (\<lambda>(a, p). (a, if P (pa_request p) then set_decision d p else p)) (ab_pending b)\<rparr>)"

definition cancel_all :: "approval_decision \<Rightarrow> 'd approval_broker \<Rightarrow> approval_error + nat \<times> 'd approval_broker" where
  "cancel_all d b = rbind (require (valid_decision d) InvalidDecision) (\<lambda>_. Inr (cancel_where (\<lambda>_. True) d b))"

definition broker_cancel_actor ::
  "string \<Rightarrow> approval_decision \<Rightarrow> 'd approval_broker \<Rightarrow> approval_error + nat \<times> 'd approval_broker" where
  "broker_cancel_actor actor d b =
     rbind (require (valid_decision d) InvalidDecision) (\<lambda>_. Inr (cancel_where (\<lambda>q. aq_actor_id q = actor) d b))"

definition broker_dispose :: "approval_decision \<Rightarrow> 'd approval_broker \<Rightarrow> approval_error + nat \<times> 'd approval_broker" where
  "broker_dispose d b =
     rbind (require (valid_decision d) InvalidDecision) (\<lambda>_.
     if ab_disposed b then Inr (0, b)
     else rbind (cancel_all d (b\<lparr>ab_disposed := True, ab_presenter := False\<rparr>)) (\<lambda>(completed, b').
       Inr (completed, b'\<lparr>ab_presented := []\<rparr>)))"

section \<open>The resolver\<close>

text \<open>A confirmation is an object: it has an identity of its own.\<close>

record 'd approval_confirmation =
  ac_identity :: nat
  ac_request :: "'d approval_request"
  ac_decision :: approval_decision

record 'd approval_resolver =
  ir_broker :: "'d approval_broker"
  ir_grants :: grant_store
  ir_stores :: "(amendment_scope \<times> rule_store) list"
  ir_session_open :: bool
  ir_close_reason :: string
  ir_coalesced :: "((string \<times> grant_key) \<times> nat) list"
  ir_confirmation_requests :: "(string \<times> 'd approval_request option) list"
  ir_confirmations :: "(string \<times> 'd approval_confirmation) list"
  ir_objects :: nat

definition stores_match :: "(amendment_scope \<times> rule_store) list \<Rightarrow> bool" where
  "stores_match stores \<longleftrightarrow> list_all (\<lambda>(scope, s). rs_scope s = scope) stores"

definition new_resolver :: "(amendment_scope \<times> rule_store) list \<Rightarrow> approval_error + 'd approval_resolver" where
  "new_resolver stores =
     rbind (require (stores_match stores) WrongScope) (\<lambda>_.
     Inr \<lparr>ir_broker = new_broker, ir_grants = [], ir_stores = stores, ir_session_open = True,
       ir_close_reason = ''Session closed before approval was resolved'', ir_coalesced = [],
       ir_confirmation_requests = [], ir_confirmations = [], ir_objects = 0\<rparr>)"

definition preauthorize :: "'d approval_request \<Rightarrow> 'd approval_resolver \<Rightarrow> approval_decision option" where
  "preauthorize q r =
     (case find_grant q (ir_grants r) of
        Some g \<Rightarrow> Some (allow_session (ag_grant_id g))
      | None \<Rightarrow>
          let by_rule = (\<lambda>scope. case map_of (ir_stores r) scope of
             None \<Rightarrow> None
           | Some s \<Rightarrow> map_option (\<lambda>rule. allow_by_policy (ar_rule_id rule) (ar_scope rule)) (find_rule q s)) in
          or_else (by_rule Project_Scope) (by_rule User_Scope))"

text \<open>\<open>resolve\<close> up to its first suspension; the new task, if one is made, has the number \<open>ir_objects\<close>.\<close>

datatype resolve_begin = Answered_Now approval_decision | Await_Broker broker_begin | Await_Task nat

definition offered_request :: "'d approval_request \<Rightarrow> 'd approval_resolver \<Rightarrow> 'd approval_request" where
  "offered_request q r =
     q\<lparr>aq_policy_amendments := filter (\<lambda>a. am_scope a \<in> set (keys (ir_stores r))) (aq_policy_amendments q)\<rparr>"

definition offered_proposal :: "'d approval_request \<Rightarrow> grant_proposal option" where
  "offered_proposal q =
     or_else (aq_session_grant q) (case aq_policy_amendments q of [] \<Rightarrow> None | a # _ \<Rightarrow> Some (am_grant a))"

definition resolver_resolve_begin ::
  "string \<Rightarrow> 'd approval_request \<Rightarrow> 'd approval_resolver \<Rightarrow> approval_error + resolve_begin \<times> 'd approval_resolver" where
  "resolver_resolve_begin fresh q r =
     (if \<not> ir_session_open r then Inr (Answered_Now (deny_decision (Some (ir_close_reason r))), r)
      else
        let q = offered_request q r in
        case preauthorize q r of
          Some granted \<Rightarrow> Inr (Answered_Now granted, r)
        | None \<Rightarrow>
            (case offered_proposal q of
               None \<Rightarrow>
                 let q = ensure_action_id (''approval-'' @ fresh) q in
                 rbind (broker_resolve_begin (the (aq_action_id q)) q (ir_broker r)) (\<lambda>(begun, b).
                 Inr (Await_Broker begun, r\<lparr>ir_broker := b\<rparr>))
             | Some p \<Rightarrow>
                 let key = (aq_actor_id q, grant_key p) in
                 (case map_of (ir_coalesced r) key of
                    Some task \<Rightarrow> Inr (Await_Task task, r)
                  | None \<Rightarrow> Inr (Await_Task (ir_objects r),
                      r\<lparr>ir_coalesced := AList.update key (ir_objects r) (ir_coalesced r), ir_objects := Suc (ir_objects r)\<rparr>))))"

text \<open>The first section of a coalescing task, and its callback when it is done.\<close>

definition task_begin ::
  "string \<Rightarrow> 'd approval_request \<Rightarrow> 'd approval_resolver \<Rightarrow> approval_error + broker_begin \<times> 'd approval_resolver" where
  "task_begin fresh q r =
     (let q = ensure_action_id (''approval-'' @ fresh) q in
      rbind (broker_resolve_begin (the (aq_action_id q)) q (ir_broker r)) (\<lambda>(begun, b).
      Inr (begun, r\<lparr>ir_broker := b\<rparr>)))"

definition task_done :: "string \<times> grant_key \<Rightarrow> nat \<Rightarrow> 'd approval_resolver \<Rightarrow> 'd approval_resolver" where
  "task_done key task r =
     (if map_of (ir_coalesced r) key = Some task then r\<lparr>ir_coalesced := AList.delete key (ir_coalesced r)\<rparr> else r)"

section \<open>Answers\<close>

text \<open>The outcome that the older parameters of \<open>handle_result\<close> mean.\<close>

definition chosen_outcome :: "approval_outcome option \<Rightarrow> bool \<Rightarrow> approval_scope \<Rightarrow> approval_outcome" where
  "chosen_outcome outcome approved scope =
     (case outcome of
        Some chosen \<Rightarrow> chosen
      | None \<Rightarrow> if approved then (if scope = Whole_Session then Allow_Session else Allow_Once) else Deny_Action)"

text \<open>
  The decision of an outcome, with the grant or the rule issued for it; nothing if the request does
  not offer the outcome.
\<close>

definition answer_decision ::
  "string \<Rightarrow> approval_outcome \<Rightarrow> string option \<Rightarrow> 'd approval_request \<Rightarrow> 'd approval_resolver \<Rightarrow>
     approval_error + (approval_decision \<times> approval_grant option \<times> approval_rule option \<times> 'd approval_resolver) option" where
  "answer_decision fresh outcome reason q r =
     (let by_scope = (\<lambda>scope.
        case (request_amendment q scope, map_of (ir_stores r) scope) of
          (Some a, Some s) \<Rightarrow>
            rbind (issue_rule (''policy-'' @ fresh) q a s) (\<lambda>(rule, s').
            Inr (Some (allow_by_policy (ar_rule_id rule) (ar_scope rule), None, Some rule,
              r\<lparr>ir_stores := AList.update scope s' (ir_stores r)\<rparr>)))
        | _ \<Rightarrow> Inr None) in
      case outcome of
        Allow_Session \<Rightarrow>
          if aq_session_grant q = None then Inr None
          else rbind (issue_grant (''grant-'' @ fresh) q (ir_grants r)) (\<lambda>(grant, s).
            Inr (Some (allow_session (ag_grant_id grant), Some grant, None, r\<lparr>ir_grants := s\<rparr>)))
      | Allow_Project \<Rightarrow> by_scope Project_Scope
      | Allow_User \<Rightarrow> by_scope User_Scope
      | Allow_Once \<Rightarrow> Inr (Some (allow_once, None, None, r))
      | Abort_Action \<Rightarrow> Inr (Some (abort_decision reason, None, None, r))
      | Deny_Action \<Rightarrow> Inr (Some (deny_decision reason, None, None, r)))"

text \<open>An answer that came too late: what was issued for it is revoked.\<close>

definition withdraw_answer ::
  "approval_grant option \<Rightarrow> approval_rule option \<Rightarrow> 'd approval_resolver \<Rightarrow> 'd approval_resolver" where
  "withdraw_answer grant rule r =
     (let r = (case grant of None \<Rightarrow> r | Some g \<Rightarrow> r\<lparr>ir_grants := snd (revoke_grant (ag_grant_id g) (ir_grants r))\<rparr>) in
      case rule of
        None \<Rightarrow> r
      | Some rule \<Rightarrow>
          (case map_of (ir_stores r) (ar_scope rule) of
             None \<Rightarrow> r
           | Some s \<Rightarrow> r\<lparr>ir_stores := AList.update (ar_scope rule) (snd (revoke_rule (ar_rule_id rule) s)) (ir_stores r)\<rparr>))"

definition record_confirmation ::
  "string \<Rightarrow> 'd approval_request \<Rightarrow> approval_decision \<Rightarrow> 'd approval_resolver \<Rightarrow> 'd approval_resolver" where
  "record_confirmation a q d r =
     (case map_of (ir_confirmation_requests r) a of
        Some (Some cq) \<Rightarrow>
          if ad_disposition d = Approved \<and> same_request (cq\<lparr>aq_policy_amendments := aq_policy_amendments q\<rparr>) q
          then r\<lparr>ir_confirmations := AList.update a
              \<lparr>ac_identity = ir_objects r, ac_request = cq, ac_decision = d\<rparr> (ir_confirmations r),
            ir_objects := Suc (ir_objects r)\<rparr>
          else r
      | _ \<Rightarrow> r)"

definition handle_result ::
  "string \<Rightarrow> string \<Rightarrow> approval_outcome \<Rightarrow> string option \<Rightarrow> 'd approval_resolver \<Rightarrow> approval_error + bool \<times> 'd approval_resolver" where
  "handle_result fresh a outcome reason r =
     (case pending_request a (ir_broker r) of
        None \<Rightarrow> Inr (False, r)
      | Some q \<Rightarrow>
          rbind (answer_decision fresh outcome reason q r) (\<lambda>answer.
          case answer of
            None \<Rightarrow> Inr (False, r)
          | Some (d, grant, rule, r1) \<Rightarrow>
              rbind (resolve_request a d (ir_broker r1)) (\<lambda>(accepted, b).
              if accepted then Inr (True, record_confirmation a q d (r1\<lparr>ir_broker := b\<rparr>))
              else Inr (False, withdraw_answer grant rule (r1\<lparr>ir_broker := b\<rparr>)))))"

section \<open>Confirmations\<close>

definition outstanding :: "'d approval_resolver \<Rightarrow> nat" where
  "outstanding r = card (set (keys (ir_confirmation_requests r)) \<union> set (keys (ir_confirmations r)))"

text \<open>\<open>confirm\<close> until it calls \<open>resolve\<close>; \<open>None\<close> if the session is closed.\<close>

definition confirm_begin ::
  "string \<Rightarrow> 'd approval_request \<Rightarrow> 'd approval_resolver \<Rightarrow> approval_error + 'd approval_request option \<times> 'd approval_resolver" where
  "confirm_begin fresh q r =
     (if \<not> ir_session_open r then Inr (None, r)
      else
        let q = ensure_action_id (''approval-'' @ fresh) q; a = the (aq_action_id q) in
        if a \<in> set (keys (ir_confirmation_requests r)) \<or> a \<in> set (keys (ir_confirmations r)) then Inl (RequestCollision a)
        else if outstanding r \<ge> 64 then Inl ConfirmationCapacity
        else Inr (Some q, r\<lparr>ir_confirmation_requests := AList.update a (Some q) (ir_confirmation_requests r)\<rparr>))"

definition require_current ::
  "'d approval_confirmation \<Rightarrow> 'd approval_request \<Rightarrow> 'd approval_resolver \<Rightarrow> approval_error + unit" where
  "require_current c q r =
     rbind (require (ir_session_open r \<and>
       map_of (ir_confirmations r) (case aq_action_id q of None \<Rightarrow> [] | Some a \<Rightarrow> a) = Some c \<and>
       same_request (ac_request c) q) NoLongerCurrent) (\<lambda>_.
     require ((ad_grant_id (ac_decision c) = None \<and> ad_policy_rule_id (ac_decision c) = None) \<or>
       preauthorize q r = Some (ac_decision c)) NoLongerCurrent)"

text \<open>The section of \<open>confirm\<close> after \<open>resolve\<close> returned a decision, with its \<open>except\<close> and \<open>finally\<close>.\<close>

definition drop_confirmation :: "string \<Rightarrow> 'd approval_resolver \<Rightarrow> 'd approval_resolver" where
  "drop_confirmation a r = r\<lparr>ir_confirmations := AList.delete a (ir_confirmations r)\<rparr>"

definition release_reservation :: "string \<Rightarrow> 'd approval_resolver \<Rightarrow> 'd approval_resolver" where
  "release_reservation a r = r\<lparr>ir_confirmation_requests := AList.delete a (ir_confirmation_requests r)\<rparr>"

definition confirm_returned ::
  "'d approval_request \<Rightarrow> approval_decision \<Rightarrow> 'd approval_resolver \<Rightarrow>
     (approval_error + 'd approval_confirmation option) \<times> 'd approval_resolver" where
  "confirm_returned q d r =
     (let a = the (aq_action_id q) in
      if \<not> ir_session_open r \<or> ad_disposition d \<noteq> Approved \<or> map_of (ir_confirmation_requests r) a \<noteq> Some (Some q)
      then (Inr None, release_reservation a (drop_confirmation a r))
      else
        case map_of (ir_confirmations r) a of
          None \<Rightarrow>
            if preauthorize q r \<noteq> Some d then (Inr None, release_reservation a r)
            else
              let c = \<lparr>ac_identity = ir_objects r, ac_request = q, ac_decision = d\<rparr>;
                  r = r\<lparr>ir_confirmations := AList.update a c (ir_confirmations r), ir_objects := Suc (ir_objects r)\<rparr> in
              (case require_current c q r of
                 Inl e \<Rightarrow> (Inl e, release_reservation a (drop_confirmation a r))
               | Inr _ \<Rightarrow> (Inr (Some c), release_reservation a r))
        | Some c \<Rightarrow>
            (case require_current c q r of
               Inl e \<Rightarrow> (Inl e, release_reservation a (drop_confirmation a r))
             | Inr _ \<Rightarrow> (Inr (Some c), release_reservation a r)))"

definition confirm_raised :: "'d approval_request \<Rightarrow> 'd approval_resolver \<Rightarrow> 'd approval_resolver" where
  "confirm_raised q r =
     (let a = the (aq_action_id q) in release_reservation a (drop_confirmation a r))"

definition release_confirmation :: "'d approval_confirmation \<Rightarrow> 'd approval_resolver \<Rightarrow> bool \<times> 'd approval_resolver" where
  "release_confirmation c r =
     (let a = (case aq_action_id (ac_request c) of None \<Rightarrow> [] | Some a \<Rightarrow> a) in
      if map_of (ir_confirmations r) a = Some c then (True, drop_confirmation a r) else (False, r))"

section \<open>Sessions, actors and revocation\<close>

definition set_policy_stores ::
  "(amendment_scope \<times> rule_store) list \<Rightarrow> 'd approval_resolver \<Rightarrow> approval_error + 'd approval_resolver" where
  "set_policy_stores stores r =
     rbind (require (pending_requests (ir_broker r) = []) ApprovalsPending) (\<lambda>_.
     rbind (require (stores_match stores) WrongScope) (\<lambda>_.
     Inr (r\<lparr>ir_stores := stores\<rparr>)))"

definition set_request_presenter :: "bool \<Rightarrow> 'd approval_resolver \<Rightarrow> approval_error + 'd approval_resolver" where
  "set_request_presenter presenter r =
     rbind (broker_set_presenter presenter (ir_broker r)) (\<lambda>b. Inr (r\<lparr>ir_broker := b\<rparr>))"

definition open_session :: "'d approval_resolver \<Rightarrow> 'd approval_resolver" where
  "open_session r = r\<lparr>ir_session_open := True\<rparr>"

text \<open>What closing and disposing share: every confirmation and every reservation is invalid.\<close>

definition invalidate :: "string \<Rightarrow> 'd approval_resolver \<Rightarrow> 'd approval_resolver" where
  "invalidate reason r =
     r\<lparr>ir_session_open := False, ir_close_reason := reason, ir_confirmations := [],
       ir_confirmation_requests := map (\<lambda>(a, _). (a, None)) (ir_confirmation_requests r)\<rparr>"

definition close_session :: "string \<Rightarrow> 'd approval_resolver \<Rightarrow> approval_error + nat \<times> 'd approval_resolver" where
  "close_session reason r =
     (let r = invalidate reason r in
      rbind (cancel_all (deny_decision (Some reason)) (ir_broker r)) (\<lambda>(completed, b).
      Inr (completed, r\<lparr>ir_broker := b\<rparr>)))"

definition end_session :: "string \<Rightarrow> 'd approval_resolver \<Rightarrow> approval_error + nat \<times> 'd approval_resolver" where
  "end_session reason r =
     rbind (close_session reason r) (\<lambda>(completed, r).
     Inr (completed, r\<lparr>ir_grants := snd (clear_grants (ir_grants r))\<rparr>))"

definition resolver_dispose :: "string \<Rightarrow> 'd approval_resolver \<Rightarrow> approval_error + nat \<times> 'd approval_resolver" where
  "resolver_dispose reason r =
     (let r = invalidate reason r in
      rbind (broker_set_presenter False (ir_broker r)) (\<lambda>b.
      rbind (broker_dispose (deny_decision (Some reason)) b) (\<lambda>(completed, b).
      Inr (completed, r\<lparr>ir_broker := b, ir_grants := snd (clear_grants (ir_grants r))\<rparr>))))"

definition drop_actor_confirmations :: "string \<Rightarrow> 'd approval_resolver \<Rightarrow> 'd approval_resolver" where
  "drop_actor_confirmations actor r =
     r\<lparr>ir_confirmations := filter (\<lambda>(_, c). aq_actor_id (ac_request c) \<noteq> actor) (ir_confirmations r)\<rparr>"

definition cancel_actor ::
  "string \<Rightarrow> string \<Rightarrow> 'd approval_resolver \<Rightarrow> approval_error + nat \<times> 'd approval_resolver" where
  "cancel_actor actor reason r =
     (let r = drop_actor_confirmations actor r;
          r = r\<lparr>ir_confirmation_requests := map (\<lambda>(a, q).
            (a, case q of None \<Rightarrow> None | Some q \<Rightarrow> if aq_actor_id q = actor then None else Some q)) (ir_confirmation_requests r)\<rparr> in
      rbind (broker_cancel_actor actor (deny_decision (Some reason)) (ir_broker r)) (\<lambda>(completed, b).
      Inr (completed, r\<lparr>ir_broker := b\<rparr>)))"

definition revoke_actor_grants :: "string \<Rightarrow> 'd approval_resolver \<Rightarrow> nat \<times> 'd approval_resolver" where
  "revoke_actor_grants actor r =
     (let r = drop_actor_confirmations actor r in
      case revoke_actor actor (ir_grants r) of (revoked, s) \<Rightarrow> (revoked, r\<lparr>ir_grants := s\<rparr>))"

definition resolver_revoke_grant :: "string \<Rightarrow> 'd approval_resolver \<Rightarrow> bool \<times> 'd approval_resolver" where
  "resolver_revoke_grant grant_id r =
     (case revoke_grant grant_id (ir_grants r) of (found, s) \<Rightarrow> (found, r\<lparr>ir_grants := s\<rparr>))"

text \<open>\<open>any(store.revoke(rule_id) for store in stores)\<close> stops at the first store that has the rule.\<close>

fun revoke_in_stores :: "string \<Rightarrow> (amendment_scope \<times> rule_store) list \<Rightarrow> bool \<times> (amendment_scope \<times> rule_store) list" where
  "revoke_in_stores rule_id [] = (False, [])"
| "revoke_in_stores rule_id ((scope, s) # stores) =
     (case revoke_rule rule_id s of
        (True, s') \<Rightarrow> (True, (scope, s') # stores)
      | (False, s') \<Rightarrow> (case revoke_in_stores rule_id stores of (found, stores') \<Rightarrow> (found, (scope, s') # stores')))"

definition revoke_policy_rule :: "string \<Rightarrow> 'd approval_resolver \<Rightarrow> bool \<times> 'd approval_resolver" where
  "revoke_policy_rule rule_id r =
     (case revoke_in_stores rule_id (ir_stores r) of (found, stores) \<Rightarrow> (found, r\<lparr>ir_stores := stores\<rparr>))"

section \<open>Other resolvers\<close>

text \<open>\<open>DenyApprovalResolver\<close>, \<open>HeadlessApprovalResolver\<close> and \<open>find_approval_grant\<close>.\<close>

definition deny_resolve :: "'d approval_request \<Rightarrow> approval_decision" where
  "deny_resolve q =
     deny_decision (Some (case aq_reason q of
       Some reason \<Rightarrow> if reason = [] then ''Tool '' @ aq_tool_name q @ '' requires approval'' else reason
     | None \<Rightarrow> ''Tool '' @ aq_tool_name q @ '' requires approval''))"

definition headless_resolve :: "bool \<Rightarrow> string option \<Rightarrow> 'd approval_request \<Rightarrow> approval_decision" where
  "headless_resolve allowing reason q =
     (if allowing then allow_once
      else case reason of Some why \<Rightarrow> if why = [] then deny_resolve q else deny_decision (Some why) | None \<Rightarrow> deny_resolve q)"

definition find_approval_grant ::
  "('d approval_request \<Rightarrow> approval_decision option) \<Rightarrow> 'd approval_request \<Rightarrow> approval_error + approval_decision option" where
  "find_approval_grant preauthorized q =
     (case preauthorized q of
        None \<Rightarrow> Inr None
      | Some d \<Rightarrow>
          rbind (require (valid_decision d) InvalidDecision) (\<lambda>_.
          rbind (require (ad_disposition d = Approved \<and>
            (ad_scope d = Whole_Session \<and> ad_grant_id d \<noteq> None \<or> ad_policy_rule_id d \<noteq> None \<and> ad_policy_scope d \<noteq> None))
            InvalidDecision) (\<lambda>_. Inr (Some d))))"

section \<open>Actors\<close>

text \<open>\<open>ActorBoundApprovalResolver\<close>: a binding of one child to the resolver it shares.\<close>

record actor_binding =
  bn_actor_id :: string
  bn_session_open :: bool
  bn_close_reason :: string

definition bind_actor :: "string \<Rightarrow> approval_error + actor_binding" where
  "bind_actor actor =
     rbind (require (actor \<noteq> []) InvalidRequest) (\<lambda>_.
     Inr \<lparr>bn_actor_id = actor, bn_session_open = True,
       bn_close_reason = ''Child agent closed before approval was resolved''\<rparr>)"

definition actor_preauthorize ::
  "actor_binding \<Rightarrow> 'd approval_request \<Rightarrow> 'd approval_resolver \<Rightarrow> approval_decision option" where
  "actor_preauthorize n q r = (if \<not> bn_session_open n then None else preauthorize (q\<lparr>aq_actor_id := bn_actor_id n\<rparr>) r)"

definition actor_resolve_begin ::
  "string \<Rightarrow> actor_binding \<Rightarrow> 'd approval_request \<Rightarrow> 'd approval_resolver \<Rightarrow>
     approval_error + resolve_begin \<times> 'd approval_resolver" where
  "actor_resolve_begin fresh n q r =
     (if \<not> bn_session_open n then Inr (Answered_Now (deny_decision (Some (bn_close_reason n))), r)
      else resolver_resolve_begin fresh (q\<lparr>aq_actor_id := bn_actor_id n\<rparr>) r)"

definition actor_close_session ::
  "string \<Rightarrow> actor_binding \<Rightarrow> 'd approval_resolver \<Rightarrow> approval_error + nat \<times> actor_binding \<times> 'd approval_resolver" where
  "actor_close_session reason n r =
     rbind (cancel_actor (bn_actor_id n) reason r) (\<lambda>(completed, r).
     Inr (completed, n\<lparr>bn_session_open := False, bn_close_reason := reason\<rparr>, r))"

definition actor_end_session ::
  "string \<Rightarrow> actor_binding \<Rightarrow> 'd approval_resolver \<Rightarrow> approval_error + nat \<times> actor_binding \<times> 'd approval_resolver" where
  "actor_end_session reason n r =
     rbind (actor_close_session reason n r) (\<lambda>(completed, n, r).
     Inr (completed, n, snd (revoke_actor_grants (bn_actor_id n) r)))"

section \<open>The permissions page\<close>

record approval_permission =
  pm_kind :: string
  pm_permission_id :: string
  pm_actor_id :: string
  pm_capability :: string
  pm_summary :: string

definition pending_permissions :: "'d approval_resolver \<Rightarrow> approval_permission list" where
  "pending_permissions r =
     map (\<lambda>q. \<lparr>pm_kind = ''pending'', pm_permission_id = the (aq_action_id q), pm_actor_id = aq_actor_id q,
         pm_capability = (case aq_session_grant q of Some p \<Rightarrow> gp_capability p | None \<Rightarrow> aq_tool_name q),
         pm_summary = (case aq_session_grant q of
             Some p \<Rightarrow> gp_summary p
           | None \<Rightarrow> (case aq_reason q of
               Some reason \<Rightarrow> if reason = [] then aq_tool_name q @ '' requires approval'' else reason
             | None \<Rightarrow> aq_tool_name q @ '' requires approval''))\<rparr>)
       (filter (\<lambda>q. aq_action_id q \<noteq> None) (pending_requests (ir_broker r)))"

definition grant_permissions :: "'d approval_resolver \<Rightarrow> approval_permission list" where
  "grant_permissions r =
     map (\<lambda>(_, g). \<lparr>pm_kind = ''session'', pm_permission_id = ag_grant_id g, pm_actor_id = ag_actor_id g,
       pm_capability = gp_capability (ag_proposal g), pm_summary = gp_summary (ag_proposal g)\<rparr>) (ir_grants r)"

definition rule_permissions :: "amendment_scope \<Rightarrow> 'd approval_resolver \<Rightarrow> approval_permission list" where
  "rule_permissions scope r =
     (case map_of (ir_stores r) scope of
        None \<Rightarrow> []
      | Some s \<Rightarrow>
          map (\<lambda>rule. \<lparr>pm_kind = scope_text scope, pm_permission_id = ar_rule_id rule, pm_actor_id = ''policy'',
            pm_capability = gp_capability (ar_proposal rule), pm_summary = gp_summary (ar_proposal rule)\<rparr>) (stored_rules s))"

end
