(* ===== verification/Approval_Runs.thy ===== *)
theory Approval_Runs
  imports Approval_Resolver
begin

text \<open>
  The runs of an approval resolver: any interleaving of its sections, with the events that matter
  outside (a request was presented, an answer was accepted, a request was settled). Each section moves
  the broker in one of a few ways, and along these moves every request takes one course.
\<close>

section \<open>Steps\<close>

datatype 'd approval_event =
    Asked string "'d approval_request"
  | Answered string approval_outcome
  | Returned string approval_decision
  | Fell_Back string approval_decision
  | Unasked string
  | Loaded "(amendment_scope \<times> rule_store) list"
  | Quiet

definition asked_event :: "string \<Rightarrow> 'd approval_request \<Rightarrow> 'd approval_event" where
  "asked_event fresh q =
     (let q = ensure_action_id (''approval-'' @ fresh) q in Asked (the (aq_action_id q)) q)"

text \<open>
  What the first section of the broker's \<open>resolve\<close> shows: the request was presented, or nobody could be
  asked and it is handed to the fallback, whose decision is then the caller's.
\<close>

definition begun_event :: "string \<Rightarrow> 'd approval_request \<Rightarrow> broker_begin \<Rightarrow> 'd approval_event" where
  "begun_event fresh q begun =
     (case begun of
        Presented \<Rightarrow> asked_event fresh q
      | To_Fallback \<Rightarrow> Unasked (the (aq_action_id (ensure_action_id (''approval-'' @ fresh) q))))"

text \<open>\<open>uuid4\<close> does not repeat: what it draws is not the id of a grant or rule that exists.\<close>

definition fresh_for :: "string \<Rightarrow> 'd approval_resolver \<Rightarrow> bool" where
  "fresh_for fresh r \<longleftrightarrow>
     (\<forall>(_, g) \<in> set (ir_grants r). ag_grant_id g \<noteq> ''grant-'' @ fresh) \<and>
     (\<forall>(_, s) \<in> set (ir_stores r). \<forall>rule \<in> set (stored_rules s). ar_rule_id rule \<noteq> ''policy-'' @ fresh)"

inductive approval_step :: "'d approval_resolver \<Rightarrow> 'd approval_event \<Rightarrow> 'd approval_resolver \<Rightarrow> bool" where
  resolve: "resolver_resolve_begin fresh q r = Inr (begun, r') \<Longrightarrow>
    approval_step r (case begun of Await_Broker first \<Rightarrow> begun_event fresh (offered_request q r) first | _ \<Rightarrow> Quiet) r'"
| run_task: "task_begin fresh q r = Inr (begun, r') \<Longrightarrow>
    approval_step r (begun_event fresh q begun) r'"
| task_over: "approval_step r Quiet (task_done key task r)"
| answer: "fresh_for fresh r \<Longrightarrow> handle_result fresh a outcome reason r = Inr (accepted, r') \<Longrightarrow>
    approval_step r (if accepted then Answered a outcome else Quiet) r'"
| finish: "broker_finish a (ir_broker r) = Some (d, b) \<Longrightarrow> approval_step r (Returned a d) (r\<lparr>ir_broker := b\<rparr>)"
| timeout: "approval_step r Quiet (r\<lparr>ir_broker := broker_timeout a (ir_broker r)\<rparr>)"
| fallback: "broker_fallback_returned a f (ir_broker r) = Some (d, b) \<Longrightarrow>
    approval_step r (if map_option pa_future (map_of (ab_pending (ir_broker r)) a) = Some Waiting then Fell_Back a d else Returned a d)
      (r\<lparr>ir_broker := b\<rparr>)"
| abandon: "approval_step r Quiet (r\<lparr>ir_broker := broker_abandon a (ir_broker r)\<rparr>)"
| confirm: "confirm_begin fresh q r = Inr (begun_with, r') \<Longrightarrow> approval_step r Quiet r'"
| confirmed: "aq_action_id q \<noteq> None \<Longrightarrow> approval_step r Quiet (snd (confirm_returned q d r))"
| unconfirmed: "approval_step r Quiet (confirm_raised q r)"
| released: "approval_step r Quiet (snd (release_confirmation c r))"
| stores: "set_policy_stores given r = Inr r' \<Longrightarrow> approval_step r (Loaded given) r'"
| presenter: "set_request_presenter shown r = Inr r' \<Longrightarrow> approval_step r Quiet r'"
| opened: "approval_step r Quiet (open_session r)"
| closed: "close_session why r = Inr (n, r') \<Longrightarrow> approval_step r Quiet r'"
| ended: "end_session why r = Inr (n, r') \<Longrightarrow> approval_step r Quiet r'"
| disposed: "resolver_dispose why r = Inr (n, r') \<Longrightarrow> approval_step r Quiet r'"
| actor_cancelled: "cancel_actor actor why r = Inr (n, r') \<Longrightarrow> approval_step r Quiet r'"
| actor_revoked: "approval_step r Quiet (snd (revoke_actor_grants actor r))"
| grant_revoked: "approval_step r Quiet (snd (resolver_revoke_grant grant_id r))"
| rule_revoked: "approval_step r Quiet (snd (revoke_policy_rule rule_id r))"

inductive approval_run :: "'d approval_resolver \<Rightarrow> 'd approval_event list \<Rightarrow> 'd approval_resolver \<Rightarrow> bool" where
  run_here: "approval_run r [] r"
| run_on: "approval_run r evs r' \<Longrightarrow> approval_step r' e r'' \<Longrightarrow> approval_run r (evs @ [e]) r''"

section \<open>Moves of the broker\<close>

text \<open>The decisions an outcome may turn into.\<close>

fun answer_gives :: "approval_outcome \<Rightarrow> approval_decision \<Rightarrow> bool" where
  "answer_gives Allow_Once d \<longleftrightarrow> d = allow_once"
| "answer_gives Allow_Session d \<longleftrightarrow> (\<exists>grant_id. d = allow_session grant_id)"
| "answer_gives Allow_Project d \<longleftrightarrow> (\<exists>rule_id scope. d = allow_by_policy rule_id scope)"
| "answer_gives Allow_User d \<longleftrightarrow> (\<exists>rule_id scope. d = allow_by_policy rule_id scope)"
| "answer_gives Deny_Action d \<longleftrightarrow> (\<exists>reason. d = deny_decision reason)"
| "answer_gives Abort_Action d \<longleftrightarrow> (\<exists>reason. d = abort_decision reason)"

inductive broker_move :: "'d approval_broker \<Rightarrow> 'd approval_event \<Rightarrow> 'd approval_broker \<Rightarrow> bool" where
  move_rest: "ab_pending b' = ab_pending b \<Longrightarrow> ab_presented b' = ab_presented b \<Longrightarrow> ab_disposed b' = ab_disposed b \<Longrightarrow>
    e \<in> {Quiet} \<union> range Loaded \<union> range Unasked \<Longrightarrow> broker_move b e b'"
| move_ask: "broker_resolve_begin a q b = Inr (Presented, b') \<Longrightarrow> aq_action_id q = Some a \<Longrightarrow> broker_move b (Asked a q) b'"
| move_answer: "resolve_request a d b = Inr (True, b') \<Longrightarrow> answer_gives outcome d \<Longrightarrow> broker_move b (Answered a outcome) b'"
| move_cancel: "ad_disposition d = Denied \<Longrightarrow> b' = snd (cancel_where P d b) \<Longrightarrow> broker_move b Quiet b'"
| move_dispose: "ad_disposition d = Denied \<Longrightarrow> b' = (snd (cancel_where (\<lambda>_. True) d b))\<lparr>ab_disposed := True, ab_presenter := False,
    ab_presented := []\<rparr> \<Longrightarrow> broker_move b Quiet b'"
| move_finish: "broker_finish a b = Some (d, b') \<Longrightarrow> broker_move b (Returned a d) b'"
| move_fallback: "map_of (ab_pending b) a = Some p \<Longrightarrow> pa_future p = Waiting \<Longrightarrow> b' = broker_release a b \<Longrightarrow> broker_move b (Fell_Back a d) b'"
| move_timeout: "b' = broker_timeout a b \<Longrightarrow> broker_move b Quiet b'"
| move_abandon: "b' = broker_release a b \<Longrightarrow> broker_move b Quiet b'"

lemma decision_fields [simp]:
  "ad_disposition allow_once = Approved" "ad_disposition (allow_session g) = Approved"
  "ad_disposition (allow_by_policy i s) = Approved" "ad_disposition (deny_decision w) = Denied"
  "ad_disposition (abort_decision w) = Aborted"
  by (simp_all add: allow_once_def allow_session_def allow_by_policy_def deny_decision_def abort_decision_def)

lemma decisions_valid [simp]:
  "valid_decision allow_once" "valid_decision (allow_session g) \<longleftrightarrow> g \<noteq> []" "valid_decision (allow_by_policy i s)"
  "valid_decision (deny_decision w)" "valid_decision (abort_decision w)"
  by (simp_all add: valid_decision_def allow_once_def allow_session_def allow_by_policy_def deny_decision_def abort_decision_def)

lemma rest_of_broker: "ir_broker r' = ir_broker r \<Longrightarrow> e \<in> {Quiet} \<union> range Loaded \<union> range Unasked \<Longrightarrow> broker_move (ir_broker r) e (ir_broker r')"
  by (rule move_rest) simp_all

lemma begin_moves:
  assumes "broker_resolve_begin a q b = Inr (begun, b')" and "aq_action_id q = Some a"
  shows "if begun = Presented then broker_move b (Asked a q) b' else b' = b"
  using assms by (cases begun) (auto intro: move_ask simp: broker_resolve_begin_def split: if_splits)

lemma ensured_id: "aq_action_id (ensure_action_id fresh q) = Some (the (aq_action_id (ensure_action_id fresh q)))"
  by (auto simp: ensure_action_id_def)

lemma begun_moves:
  assumes "broker_resolve_begin (the (aq_action_id (ensure_action_id (''approval-'' @ fresh) q)))
    (ensure_action_id (''approval-'' @ fresh) q) b = Inr (begun, b')"
  shows "broker_move b (begun_event fresh q begun) b'"
  using begin_moves [OF assms ensured_id]
  by (cases begun) (auto simp: begun_event_def asked_event_def Let_def intro: move_rest)

lemma resolve_moves:
  assumes "resolver_resolve_begin fresh q r = Inr (begun, r')"
  shows "broker_move (ir_broker r) (case begun of Await_Broker first \<Rightarrow> begun_event fresh (offered_request q r) first | _ \<Rightarrow> Quiet) (ir_broker r')"
proof -
  consider "ir_broker r' = ir_broker r" "\<And>first. begun \<noteq> Await_Broker first"
    | first b where "begun = Await_Broker first" "r' = r\<lparr>ir_broker := b\<rparr>"
      "broker_resolve_begin (the (aq_action_id (ensure_action_id (''approval-'' @ fresh) (offered_request q r))))
        (ensure_action_id (''approval-'' @ fresh) (offered_request q r)) (ir_broker r) = Inr (first, b)"
    using assms by (auto simp: resolver_resolve_begin_def Let_def rbind_Inr_iff split: if_splits option.splits)
  then show ?thesis
  proof cases
    case 1
    then show ?thesis by (simp add: rest_of_broker split: resolve_begin.split)
  next
    case (2 first b)
    show ?thesis using begun_moves [OF 2(3)] 2(1,2) by simp
  qed
qed

lemma task_moves:
  assumes "task_begin fresh q r = Inr (begun, r')"
  shows "broker_move (ir_broker r) (begun_event fresh q begun) (ir_broker r')"
proof -
  obtain b where b: "r' = r\<lparr>ir_broker := b\<rparr>"
    "broker_resolve_begin (the (aq_action_id (ensure_action_id (''approval-'' @ fresh) q))) (ensure_action_id (''approval-'' @ fresh) q)
      (ir_broker r) = Inr (begun, b)"
    using assms by (auto simp: task_begin_def Let_def rbind_Inr_iff)
  show ?thesis using begun_moves [OF b(2)] b(1) by simp
qed

section \<open>Answers\<close>

lemma answer_decision_cases:
  assumes "answer_decision fresh outcome reason q r = Inr (Some (d, grant, rule, r1))"
  shows "answer_gives outcome d \<and> valid_decision d \<and> ir_broker r1 = ir_broker r \<and>
    ir_confirmations r1 = ir_confirmations r \<and> ir_confirmation_requests r1 = ir_confirmation_requests r \<and>
    ir_objects r1 = ir_objects r \<and> ir_session_open r1 = ir_session_open r \<and> ir_coalesced r1 = ir_coalesced r \<and>
    (case outcome of
       Allow_Session \<Rightarrow> ir_stores r1 = ir_stores r \<and> rule = None \<and> (\<exists>g. grant = Some g \<and> d = allow_session (ag_grant_id g) \<and>
         ag_grant_id g = ''grant-'' @ fresh \<and> issue_grant (''grant-'' @ fresh) q (ir_grants r) = Inr (g, ir_grants r1))
     | Allow_Project \<Rightarrow> ir_grants r1 = ir_grants r \<and> grant = None \<and> (\<exists>am s s' ru. request_amendment q Project_Scope = Some am \<and>
         map_of (ir_stores r) Project_Scope = Some s \<and> issue_rule (''policy-'' @ fresh) q am s = Inr (ru, s') \<and> rule = Some ru \<and>
         d = allow_by_policy (ar_rule_id ru) (ar_scope ru) \<and> ir_stores r1 = AList.update Project_Scope s' (ir_stores r))
     | Allow_User \<Rightarrow> ir_grants r1 = ir_grants r \<and> grant = None \<and> (\<exists>am s s' ru. request_amendment q User_Scope = Some am \<and>
         map_of (ir_stores r) User_Scope = Some s \<and> issue_rule (''policy-'' @ fresh) q am s = Inr (ru, s') \<and> rule = Some ru \<and>
         d = allow_by_policy (ar_rule_id ru) (ar_scope ru) \<and> ir_stores r1 = AList.update User_Scope s' (ir_stores r))
     | _ \<Rightarrow> r1 = r \<and> grant = None \<and> rule = None)"
proof (cases outcome)
  case Allow_Session
  then show ?thesis using assms
    by (auto simp: answer_decision_def Let_def rbind_Inr_iff issue_grant_def split: if_splits option.splits)
next
  case Allow_Project
  then show ?thesis using assms
    by (auto simp: answer_decision_def Let_def rbind_Inr_iff split: if_splits option.splits)
next
  case Allow_User
  then show ?thesis using assms
    by (auto simp: answer_decision_def Let_def rbind_Inr_iff split: if_splits option.splits)
qed (use assms in \<open>auto simp: answer_decision_def Let_def\<close>)

lemma record_confirmation_frame [simp]:
  "ir_broker (record_confirmation a q d r) = ir_broker r" "ir_grants (record_confirmation a q d r) = ir_grants r"
  "ir_stores (record_confirmation a q d r) = ir_stores r"
  "ir_confirmation_requests (record_confirmation a q d r) = ir_confirmation_requests r"
  "ir_session_open (record_confirmation a q d r) = ir_session_open r"
  by (auto simp: record_confirmation_def split: option.split)

lemma withdraw_answer_frame [simp]:
  "ir_broker (withdraw_answer grant rule r) = ir_broker r" "ir_confirmations (withdraw_answer grant rule r) = ir_confirmations r"
  "ir_confirmation_requests (withdraw_answer grant rule r) = ir_confirmation_requests r"
  "ir_objects (withdraw_answer grant rule r) = ir_objects r" "ir_session_open (withdraw_answer grant rule r) = ir_session_open r"
  by (auto simp: withdraw_answer_def Let_def split: option.split)

lemma resolve_returns: "valid_decision d \<Longrightarrow> \<exists>ok b'. resolve_request a d b = Inr (ok, b')"
  by (auto simp: resolve_request_def split: option.split)

text \<open>What \<open>handle_result\<close> does, by whether the answer was accepted.\<close>

lemma handle_result_cases:
  assumes "handle_result fresh a outcome reason r = Inr (accepted, r')"
  obtains (ignored) "\<not> accepted" and "r' = r"
  | (late) q d grant rule r1 where "\<not> accepted" and "pending_request a (ir_broker r) = Some q"
      and "answer_decision fresh outcome reason q r = Inr (Some (d, grant, rule, r1))" and "r' = withdraw_answer grant rule r1"
  | (taken) q d grant rule r1 b where "accepted" and "pending_request a (ir_broker r) = Some q"
      and "answer_decision fresh outcome reason q r = Inr (Some (d, grant, rule, r1))"
      and "resolve_request a d (ir_broker r) = Inr (True, b)" and "r' = record_confirmation a q d (r1\<lparr>ir_broker := b\<rparr>)"
proof (cases "pending_request a (ir_broker r)")
  case None
  then have "\<not> accepted \<and> r' = r" using assms by (auto simp: handle_result_def)
  then show ?thesis using ignored by blast
next
  case (Some q)
  then obtain found where found: "answer_decision fresh outcome reason q r = Inr found"
    using assms by (auto simp: handle_result_def rbind_Inr_iff)
  show ?thesis
  proof (cases found)
    case None
    then have "\<not> accepted \<and> r' = r" using assms Some found by (auto simp: handle_result_def)
    then show ?thesis using ignored by blast
  next
    case (Some parts)
    obtain d grant rule r1 where parts: "parts = (d, grant, rule, r1)" by (cases parts)
    note dec = found [unfolded Some parts]
    note cases = answer_decision_cases [OF dec]
    then have broker: "ir_broker r1 = ir_broker r" by simp
    obtain ok b where resolved: "resolve_request a d (ir_broker r) = Inr (ok, b)"
      using cases resolve_returns by blast
    have stay: "b = ir_broker r" if "\<not> ok"
      using resolved that by (auto simp: resolve_request_def rbind_Inr_iff split: option.splits if_splits)
    show ?thesis
    proof (cases ok)
      case True
      then show ?thesis using assms \<open>pending_request a (ir_broker r) = Some q\<close> dec resolved broker taken [of q d grant rule r1 b]
        by (simp add: handle_result_def)
    next
      case False
      moreover have "r1\<lparr>ir_broker := b\<rparr> = r1" using stay [OF False] broker by simp
      ultimately show ?thesis using assms \<open>pending_request a (ir_broker r) = Some q\<close> dec resolved broker late [of q d grant rule r1]
        by (simp add: handle_result_def)
    qed
  qed
qed

lemma answer_moves:
  assumes "handle_result fresh a outcome reason r = Inr (accepted, r')"
  shows "broker_move (ir_broker r) (if accepted then Answered a outcome else Quiet) (ir_broker r')"
  using assms
proof (cases rule: handle_result_cases)
  case ignored
  then show ?thesis by (simp add: rest_of_broker)
next
  case (late q d grant rule r1)
  then show ?thesis using answer_decision_cases [OF late(3)] by (simp add: rest_of_broker)
next
  case (taken q d grant rule r1 b)
  then show ?thesis using answer_decision_cases [OF taken(3)] by (auto intro: move_answer)
qed

section \<open>Every step is a move\<close>

lemma confirm_returned_frame:
  "ir_broker (snd (confirm_returned q d r)) = ir_broker r" "ir_grants (snd (confirm_returned q d r)) = ir_grants r"
  "ir_stores (snd (confirm_returned q d r)) = ir_stores r" "ir_session_open (snd (confirm_returned q d r)) = ir_session_open r"
  by (auto simp: confirm_returned_def Let_def drop_confirmation_def release_reservation_def split: option.split sum.split)

lemma cancel_moves: "cancel_where P (deny_decision why) b = (n, b') \<Longrightarrow> broker_move b Quiet b'"
  by (rule move_cancel [of "deny_decision why" _ P]) simp_all

lemma closing_moves:
  "close_session why r = Inr (n, r') \<Longrightarrow> broker_move (ir_broker r) Quiet (ir_broker r')"
  "end_session why r = Inr (n, r') \<Longrightarrow> broker_move (ir_broker r) Quiet (ir_broker r')"
  "cancel_actor actor why r = Inr (n, r') \<Longrightarrow> broker_move (ir_broker r) Quiet (ir_broker r')"
  by (auto simp: close_session_def end_session_def cancel_actor_def invalidate_def drop_actor_confirmations_def cancel_all_def
      broker_cancel_actor_def Let_def rbind_Inr_iff intro: cancel_moves split: prod.splits)

lemma dispose_moves:
  assumes "resolver_dispose why r = Inr (n, r')"
  shows "broker_move (ir_broker r) Quiet (ir_broker r')"
proof (cases "ab_disposed (ir_broker r)")
  case True
  then show ?thesis using assms
    by (intro move_rest) (auto simp: resolver_dispose_def broker_dispose_def broker_set_presenter_def invalidate_def Let_def rbind_Inr_iff)
next
  case False
  then have "ir_broker r' = (snd (cancel_where (\<lambda>_. True) (deny_decision (Some why)) (ir_broker r)))
      \<lparr>ab_disposed := True, ab_presenter := False, ab_presented := []\<rparr>"
    using assms by (auto simp: resolver_dispose_def broker_dispose_def broker_set_presenter_def invalidate_def cancel_all_def
        cancel_where_def Let_def rbind_Inr_iff)
  then show ?thesis by (intro move_dispose [of "deny_decision (Some why)"]) simp_all
qed

theorem step_moves: "approval_step r e r' \<Longrightarrow> broker_move (ir_broker r) e (ir_broker r')"
proof (induction rule: approval_step.induct)
  case (resolve fresh q r begun r')
  then show ?case by (rule resolve_moves)
next
  case (run_task fresh q r begun r')
  then show ?case by (rule task_moves)
next
  case (answer fresh r a outcome reason accepted r')
  then show ?case by (intro answer_moves)
next
  case (fallback a f r d b)
  then obtain p where p: "map_of (ab_pending (ir_broker r)) a = Some p" "b = broker_release a (ir_broker r)"
    "d = (case pa_future p of Waiting \<Rightarrow> f | Decided d \<Rightarrow> d)"
    by (auto simp: broker_fallback_returned_def split: option.splits if_splits)
  then show ?case
    by (cases "pa_future p") (auto intro: move_fallback move_finish simp: broker_finish_def)
next
  case (finish a r d b)
  then show ?case by (auto intro: move_finish)
next
  case (timeout r a)
  then show ?case by (auto intro: move_timeout)
next
  case (abandon r a)
  then show ?case by (auto intro: move_abandon simp: broker_abandon_def)
next
  case (presenter shown r r')
  then show ?case by (intro move_rest) (auto simp: set_request_presenter_def broker_set_presenter_def split: if_splits)
next
  case (disposed why r n r')
  then show ?case by (rule dispose_moves)
qed (auto simp: rest_of_broker task_done_def confirm_begin_def confirm_returned_frame confirm_raised_def release_confirmation_def
    release_reservation_def drop_confirmation_def set_policy_stores_def open_session_def revoke_actor_grants_def
    drop_actor_confirmations_def resolver_revoke_grant_def revoke_policy_rule_def Let_def rbind_Inr_iff closing_moves
    split: if_splits option.splits prod.splits)

end
