(* ===== verification/Approval_Courses.thy ===== *)
theory Approval_Courses
  imports Approval_Runs
begin

text \<open>
  The course of one request through a run of the resolver, and the invariant that every move of the
  broker keeps for it: what is pending under an id and what has happened to it agree.
\<close>

fun event_action :: "'d approval_event \<Rightarrow> string option" where
  "event_action (Asked a q) = Some a"
| "event_action (Answered a outcome) = Some a"
| "event_action (Returned a d) = Some a"
| "event_action (Fell_Back a d) = Some a"
| "event_action _ = None"

definition course :: "string \<Rightarrow> 'd approval_event list \<Rightarrow> 'd approval_event list" where
  "course a evs = filter (\<lambda>e. event_action e = Some a) evs"

lemma course_simps [simp]:
  "course a [] = []" "course a (evs @ evs') = course a evs @ course a evs'"
  "course a [e] = (if event_action e = Some a then [e] else [])"
  by (simp_all add: course_def)

lemma course_snoc: "course a (evs @ [e]) = (if event_action e = Some a then course a evs @ [e] else course a evs)"
  by simp

text \<open>The courses a request may have taken when nothing is pending for it.\<close>

fun course_over :: "'d approval_event list \<Rightarrow> bool" where
  "course_over [] \<longleftrightarrow> True"
| "course_over [Asked a q] \<longleftrightarrow> True"
| "course_over [Asked a q, Answered b outcome] \<longleftrightarrow> True"
| "course_over [Asked a q, Returned b d] \<longleftrightarrow> ad_disposition d = Denied"
| "course_over [Asked a q, Fell_Back b d] \<longleftrightarrow> True"
| "course_over [Asked a q, Answered b outcome, Returned c d] \<longleftrightarrow> answer_gives outcome d"
| "course_over _ \<longleftrightarrow> False"

text \<open>The courses of a request that is pending, by what its future holds.\<close>

definition course_pending :: "string \<Rightarrow> 'd approval_event list \<Rightarrow> 'd pending_approval \<Rightarrow> bool" where
  "course_pending a evs p \<longleftrightarrow> aq_action_id (pa_request p) = Some a \<and>
     (case pa_future p of
        Waiting \<Rightarrow> evs = [Asked a (pa_request p)]
      | Decided d \<Rightarrow>
          evs = [Asked a (pa_request p)] \<and> ad_disposition d = Denied \<or>
          (\<exists>outcome. evs = [Asked a (pa_request p), Answered a outcome] \<and> answer_gives outcome d))"

definition course_fits :: "string \<Rightarrow> 'd approval_event list \<Rightarrow> 'd approval_broker \<Rightarrow> bool" where
  "course_fits a evs b \<longleftrightarrow>
     (case map_of (ab_pending b) a of None \<Rightarrow> course_over evs | Some p \<Rightarrow> course_pending a evs p) \<and>
     (\<not> ab_disposed b \<and> a \<notin> set (ab_presented b) \<longrightarrow> evs = [])"

lemma course_pending_over: "course_pending a evs p \<Longrightarrow> course_over evs"
  by (auto simp: course_pending_def split: approval_future.splits)

lemma map_of_mapped: "map_of (map (\<lambda>(k, v). (k, f v)) xs) k = map_option f (map_of xs k)"
  by (induction xs) auto

lemma set_decision_frame [simp]: "pa_request (set_decision d p) = pa_request p" "pa_accepting (set_decision d p) = pa_accepting p"
  by (simp_all add: set_decision_def)

lemma set_decision_future: "pa_future (set_decision d p) = (if pa_future p = Waiting then Decided d else pa_future p)"
  by (simp add: set_decision_def)

lemma course_pending_denied:
  "course_pending a evs p \<Longrightarrow> ad_disposition d = Denied \<Longrightarrow> course_pending a evs (set_decision d p)"
  by (auto simp: course_pending_def set_decision_future split: approval_future.splits)

lemma course_pending_accepting [simp]: "course_pending a evs (p\<lparr>pa_accepting := x\<rparr>) \<longleftrightarrow> course_pending a evs p"
  by (cases "pa_future p") (simp_all add: course_pending_def)

lemma course_fits_cancel:
  assumes "course_fits a evs b" and "ad_disposition d = Denied"
  shows "course_fits a evs (snd (cancel_where P d b))"
  using assms course_pending_denied [of a evs _ d]
  by (auto simp: course_fits_def cancel_where_def map_of_mapped split: option.splits)

lemma course_fits_release: "course_fits a evs b \<Longrightarrow> course_fits a evs (broker_release k b)"
  by (auto simp: course_fits_def broker_release_def delete_conv' dest: course_pending_over split: option.splits)

lemma course_finish:
  assumes "course_fits a (course a evs) b" and "broker_finish k b = Some (d, b')"
  shows "course_fits a (course a (evs @ [Returned k d])) b'"
proof (cases "k = a")
  case True
  then obtain p where p: "map_of (ab_pending b) a = Some p" "pa_future p = Decided d" "b' = broker_release a b"
    using assms(2) by (auto simp: broker_finish_def split: option.splits approval_future.splits)
  then have "course_over (course a evs @ [Returned a d])" "\<not> (\<not> ab_disposed b \<and> a \<notin> set (ab_presented b))"
    using assms(1) by (auto simp: course_fits_def course_pending_def)
  then show ?thesis using p(3) True by (auto simp: course_fits_def broker_release_def delete_conv')
next
  case False
  then show ?thesis using assms course_fits_release [OF assms(1), of k]
    by (auto simp: broker_finish_def split: option.splits approval_future.splits)
qed

lemma course_answer:
  assumes "course_fits a (course a evs) b" and "resolve_request k d b = Inr (True, b')" and "answer_gives outcome d"
  shows "course_fits a (course a (evs @ [Answered k outcome])) b'"
proof -
  obtain p where p: "map_of (ab_pending b) k = Some p" "pa_future p = Waiting"
    "b' = b\<lparr>ab_pending := AList.update k (set_decision d p) (ab_pending b)\<rparr>"
    using assms(2) by (auto simp: resolve_request_def rbind_Inr_iff split: option.splits if_splits)
  show ?thesis
  proof (cases "k = a")
    case True
    then show ?thesis using p assms(1,3) by (auto simp: course_fits_def course_pending_def set_decision_future)
  next
    case False
    then show ?thesis using p assms(1) by (auto simp: course_fits_def)
  qed
qed

lemma course_move:
  assumes "broker_move b e b'" and "course_fits a (course a evs) b"
  shows "course_fits a (course a (evs @ [e])) b'"
  using assms
proof (induction rule: broker_move.induct)
  case (move_rest b' b e)
  then show ?case by (auto simp: course_fits_def course_snoc simp del: course_simps)
next
  case (move_ask k q b b')
  then show ?case by (auto simp: broker_resolve_begin_def course_fits_def course_pending_def split: if_splits option.splits)
next
  case (move_answer k d b b' outcome)
  then show ?case by (intro course_answer)
next
  case (move_cancel d b' P b)
  then show ?case by (simp add: course_fits_cancel)
next
  case (move_dispose d b' b)
  then show ?case using course_fits_cancel [of a "course a evs" b d "\<lambda>_. True"] by (auto simp: course_fits_def)
next
  case (move_finish k b d b')
  then show ?case by (intro course_finish)
next
  case (move_fallback b k p b' d)
  then show ?case
    by (auto simp: course_fits_def broker_release_def delete_conv' course_pending_def split: option.splits)
next
  case (move_timeout b' k b)
  then show ?case by (auto simp: broker_timeout_def course_fits_def course_snoc simp del: course_simps split: option.splits)
next
  case (move_abandon b' k b)
  then show ?case by (simp add: course_fits_release)
qed

lemma new_resolver_shape:
  assumes "new_resolver stores = Inr r"
  shows "ir_broker r = new_broker" "ir_grants r = []" "ir_stores r = stores" "ir_confirmations r = []"
    "ir_confirmation_requests r = []" "ir_session_open r"
  using assms by (auto simp: new_resolver_def rbind_Inr_iff)

theorem run_courses:
  assumes "approval_run r evs r'" and "\<And>a. course_fits a [] (ir_broker r)"
  shows "course_fits a (course a evs) (ir_broker r')"
  using assms
proof (induction rule: approval_run.induct)
  case (run_on r evs r' e r'')
  then show ?case using course_move [OF step_moves] by blast
qed simp

lemma fresh_courses: "course_fits a [] new_broker"
  by (simp add: course_fits_def new_broker_def)

end
