(* ===== verification/Retained_Stores.thy ===== *)
theory Retained_Stores
  imports Approval_Requests
begin

text \<open>
  The contract that the two stores of the approvals share, the grants of a session and the retained
  rules of a scope: a dictionary that is written under a key and from which the first value with an id
  is revoked. The lemmas about what a withdrawn answer leaves are proved once for both.
\<close>

section \<open>Revoking the first\<close>

lemma in_revoke_first: "x \<in> set (snd (revoke_first P s)) \<Longrightarrow> x \<in> set s"
  by (induction P s rule: revoke_first.induct) (auto split: if_splits prod.splits)

lemma revoke_first_found: "fst (revoke_first P s) \<longleftrightarrow> (\<exists>x \<in> set s. P (snd x))"
  by (induction P s rule: revoke_first.induct) (fastforce split: prod.splits)+

lemma revoke_first_updated:
  assumes "P v" and "\<forall>(_, v') \<in> set s. \<not> P v'" and "x \<in> set (snd (revoke_first P (AList.update k v s)))"
  shows "x \<in> set s"
  using assms by (induction s) (auto split: if_splits prod.splits)

lemma revoke_first_here:
  assumes "distinct (keys s)" and "P v" and "\<forall>(_, v') \<in> set s. \<not> P v'"
  shows "map_of (snd (revoke_first P (AList.update k v s))) k = None"
  using assms by (induction s) (auto split: prod.splits simp: map_of_None_keys)

lemma revoke_first_keys:
  "distinct (keys s) \<Longrightarrow> distinct (keys (snd (revoke_first P s))) \<and> set (snd (revoke_first P s)) \<subseteq> set s"
proof (induction P s rule: revoke_first.induct)
  case (2 P k v s)
  obtain hit rest where rest: "revoke_first P s = (hit, rest)" by (cases "revoke_first P s")
  show ?case
  proof (cases "P v")
    case False
    then have kept: "distinct (keys rest)" "set rest \<subseteq> set s" using 2 rest by auto
    then have "k \<notin> set (keys rest)" using "2.prems" image_mono [OF kept(2), of fst] by auto
    then show ?thesis using False kept rest by auto
  qed (use "2.prems" in auto)
qed simp

section \<open>The contract\<close>

locale retained_store =
  fixes entries :: "'s \<Rightarrow> ('k \<times> 'v) list"
    and put :: "'k \<Rightarrow> 'v \<Rightarrow> 's \<Rightarrow> 's"
    and revoke :: "string \<Rightarrow> 's \<Rightarrow> bool \<times> 's"
    and ident :: "'v \<Rightarrow> string"
  assumes entries_put: "entries (put k v s) = AList.update k v (entries s)"
    and revoke_first_entry: "map_prod id entries (revoke i s) = revoke_first (\<lambda>v. ident v = i) (entries s)"
begin

lemma entries_revoke: "entries (snd (revoke i s)) = snd (revoke_first (\<lambda>v. ident v = i) (entries s))"
  using arg_cong [OF revoke_first_entry, of snd] by simp

lemma revoke_found: "fst (revoke i s) \<longleftrightarrow> (\<exists>x \<in> set (entries s). ident (snd x) = i)"
  using arg_cong [OF revoke_first_entry, of fst] revoke_first_found by simp

lemma in_put: "x \<in> set (entries (put k v s)) \<Longrightarrow> x = (k, v) \<or> x \<in> set (entries s)"
  using set_update_subset [of k v "entries s"] by (auto simp: entries_put)

lemma in_revoke: "x \<in> set (entries (snd (revoke i s))) \<Longrightarrow> x \<in> set (entries s)"
  unfolding entries_revoke by (rule in_revoke_first)

lemma revoke_missing:
  assumes "\<not> fst (revoke i s)"
  shows "entries (snd (revoke i s)) = entries s"
proof -
  have "snd (revoke_first P d) = d" if "\<not> fst (revoke_first P d)" for P :: "'v \<Rightarrow> bool" and d :: "('k \<times> 'v) list"
    using that by (induction P d rule: revoke_first.induct) (auto split: prod.splits if_splits)
  then show ?thesis using assms revoke_first_entry [of i s] by (metis entries_revoke fst_map_prod id_apply)
qed

text \<open>A value put with a new id and revoked leaves nothing but what was there before.\<close>

lemma withdrawn:
  assumes "\<forall>(_, v') \<in> set (entries s). ident v' \<noteq> ident v"
  shows "set (entries (snd (revoke (ident v) (put k v s)))) \<subseteq> set (entries s)"
  using revoke_first_updated [where P = "\<lambda>v'. ident v' = ident v" and v = v and s = "entries s" and k = k] assms
  unfolding entries_revoke entries_put by (metis (no_types, lifting) subsetI)

text \<open>It leaves even less: what was under the key is gone as well.\<close>

lemma withdrawn_key:
  assumes "distinct (keys (entries s))" and "\<forall>(_, v') \<in> set (entries s). ident v' \<noteq> ident v"
  shows "map_of (entries (snd (revoke (ident v) (put k v s)))) k = None"
  using revoke_first_here [where P = "\<lambda>v'. ident v' = ident v" and v = v and s = "entries s" and k = k] assms
  unfolding entries_revoke entries_put by simp

lemma distinct_revoke: "distinct (keys (entries s)) \<Longrightarrow> distinct (keys (entries (snd (revoke i s))))"
  unfolding entries_revoke using revoke_first_keys by blast

end

section \<open>The two stores\<close>

interpretation session_grants: retained_store "\<lambda>s. s" "AList.update" revoke_grant ag_grant_id
  by unfold_locales (auto simp: revoke_grant_def map_prod_def)

interpretation retained_rules: retained_store rs_rules "\<lambda>k v s. s\<lparr>rs_rules := AList.update k v (rs_rules s)\<rparr>"
  revoke_rule ar_rule_id
  by unfold_locales (auto simp: revoke_rule_def split: prod.splits)

text \<open>What the two ways of issuing put.\<close>

lemma issued_grant:
  "issue_grant fresh q s = Inr (g, s') \<Longrightarrow>
     \<exists>p. aq_session_grant q = Some p \<and> s' = AList.update (aq_actor_id q, grant_key p) g s \<and> ag_grant_id g = fresh"
  by (auto simp: issue_grant_def Let_def split: option.splits)

lemma issued_rule_cases:
  assumes "issue_rule fresh q am s = Inr (ru, s')"
  obtains (existing) "s' = s"
  | (issued) "s' = s\<lparr>rs_rules := AList.update (grant_key (am_grant am)) ru (rs_rules s)\<rparr>" and "ar_rule_id ru = fresh"
      and "ar_scope ru = am_scope am"
  using assms by (auto simp: issue_rule_def Let_def split: if_splits option.splits)

lemma issued_rule:
  assumes "issue_rule fresh q am s = Inr (ru, s')" and "(k, ru') \<in> set (rs_rules s')"
  shows "(k, ru') \<in> set (rs_rules s) \<or> k = grant_key (am_grant am)"
  using assms(1)
proof (cases rule: issued_rule_cases)
  case existing
  then show ?thesis using assms(2) by simp
next
  case issued
  then show ?thesis using assms(2) retained_rules.in_put [of "(k, ru')" "grant_key (am_grant am)" ru s] by auto
qed

end
