(* ===== verification/Approval_Provenance.thy ===== *)
theory Approval_Provenance
  imports Approval_Courses Retained_Stores
begin

text \<open>
  Where the grants, the rules and the confirmations of a resolver come from: what one step can add to
  each of them, and the invariants of a run that follow.
\<close>

section \<open>Dictionaries and what is taken out of them\<close>

lemma in_set_update: "x \<in> set (AList.update k v d) \<Longrightarrow> x = (k, v) \<or> x \<in> set d"
  using set_update_subset by fast

lemma in_set_delete: "x \<in> set (AList.delete k d) \<Longrightarrow> x \<in> set d"
  by (simp add: AList.delete_eq)

text \<open>One dictionary of stores holds no rule that another does not.\<close>

definition rules_within ::
  "(amendment_scope \<times> rule_store) list \<Rightarrow> (amendment_scope \<times> rule_store) list \<Rightarrow> bool" where
  "rules_within stores stores' \<longleftrightarrow>
     (\<forall>scope s x. map_of stores scope = Some s \<longrightarrow> x \<in> set (rs_rules s) \<longrightarrow>
       (\<exists>s'. map_of stores' scope = Some s' \<and> x \<in> set (rs_rules s')))"

lemma rules_within_refl [simp]: "rules_within stores stores"
  by (simp add: rules_within_def)

lemma rules_within_trans: "rules_within s s' \<Longrightarrow> rules_within s' s'' \<Longrightarrow> rules_within s s''"
  unfolding rules_within_def by meson

lemma rules_within_revoke: "rules_within (snd (revoke_in_stores i stores)) stores"
proof (induction i stores rule: revoke_in_stores.induct)
  case (2 i scope s stores)
  obtain hit s' where r: "revoke_rule i s = (hit, s')" by (cases "revoke_rule i s")
  have "x \<in> set (rs_rules s)" if "x \<in> set (rs_rules s')" for x
    using retained_rules.in_revoke [of x i s] that by (simp add: r)
  then show ?case using 2 r by (cases hit) (auto simp: rules_within_def split: prod.splits)
qed simp

lemma rules_within_update:
  "map_of stores scope = Some s \<Longrightarrow> set (rs_rules s') \<subseteq> set (rs_rules s) \<Longrightarrow>
     rules_within (AList.update scope s' stores) stores"
  by (auto simp: rules_within_def)

section \<open>A late answer leaves nothing behind\<close>

lemma late_grants:
  assumes "fresh_for fresh r" and "answer_decision fresh outcome reason q r = Inr (Some (d, grant, rule, r1))"
    and "x \<in> set (ir_grants (withdraw_answer grant rule r1))"
  shows "x \<in> set (ir_grants r)"
proof -
  note shape = answer_decision_cases [OF assms(2)]
  have grants: "ir_grants (withdraw_answer grant rule r1) =
      (case grant of None \<Rightarrow> ir_grants r1 | Some g \<Rightarrow> snd (revoke_grant (ag_grant_id g) (ir_grants r1)))"
    by (auto simp: withdraw_answer_def Let_def split: option.split)
  show ?thesis
  proof (cases "outcome = Allow_Session")
    case True
    then obtain g where g: "grant = Some g" "ag_grant_id g = ''grant-'' @ fresh"
      "issue_grant (''grant-'' @ fresh) q (ir_grants r) = Inr (g, ir_grants r1)"
      using shape by auto
    then obtain k where "ir_grants r1 = AList.update k g (ir_grants r)"
      using issued_grant [OF g(3)] by blast
    then show ?thesis using assms(1,3) g(1,2) grants session_grants.withdrawn [of "ir_grants r" g k]
      by (auto simp: fresh_for_def)
  next
    case False
    then show ?thesis using assms(3) grants shape by (cases outcome) auto
  qed
qed

lemma late_rules:
  assumes "fresh_for fresh r" and "answer_decision fresh outcome reason q r = Inr (Some (d, grant, rule, r1))"
  shows "rules_within (ir_stores (withdraw_answer grant rule r1)) (ir_stores r)"
proof -
  note shape = answer_decision_cases [OF assms(2)]
  have stores: "ir_stores (withdraw_answer grant rule r1) = (case rule of None \<Rightarrow> ir_stores r1
      | Some ru \<Rightarrow> (case map_of (ir_stores r1) (ar_scope ru) of None \<Rightarrow> ir_stores r1
        | Some s \<Rightarrow> AList.update (ar_scope ru) (snd (revoke_rule (ar_rule_id ru) s)) (ir_stores r1)))"
    by (auto simp: withdraw_answer_def Let_def split: option.split)
  have by_scope: ?thesis if am: "request_amendment q scope = Some am" and s: "map_of (ir_stores r) scope = Some s"
      and ru: "issue_rule (''policy-'' @ fresh) q am s = Inr (ru, s')" "rule = Some ru"
      and r1: "ir_stores r1 = AList.update scope s' (ir_stores r)" for scope am s s' ru
    using ru(1)
  proof (cases rule: issued_rule_cases)
    case existing
    have "rules_within (ir_stores r1) (ir_stores r)" using s r1 existing by (simp add: rules_within_update)
    moreover have "rules_within (ir_stores (withdraw_answer grant rule r1)) (ir_stores r1)"
      unfolding stores by (auto simp: ru(2) retained_rules.in_revoke intro!: rules_within_update split: option.split)
    ultimately show ?thesis by (rule rules_within_trans [rotated])
  next
    case issued
    have "am_scope am = scope" using am by (auto simp: request_amendment_def find_Some_iff)
    then have "ir_stores (withdraw_answer grant rule r1) =
        AList.update scope (snd (revoke_rule (ar_rule_id ru) s')) (AList.update scope s' (ir_stores r))"
      unfolding stores using issued ru(2) r1 by simp
    moreover have "\<forall>(_, ru') \<in> set (rs_rules s). ar_rule_id ru' \<noteq> ar_rule_id ru"
      using assms(1) map_of_SomeD [OF s] issued(2) by (fastforce simp: fresh_for_def stored_rules_def)
    then have "set (rs_rules (snd (revoke_rule (ar_rule_id ru) s'))) \<subseteq> set (rs_rules s)"
      using issued(1) retained_rules.withdrawn [of s ru "grant_key (am_grant am)"] by simp
    ultimately show ?thesis using s by (auto simp: rules_within_def)
  qed
  show ?thesis
  proof (cases outcome)
    case Allow_Project
    then obtain am s s' ru where "request_amendment q Project_Scope = Some am" "map_of (ir_stores r) Project_Scope = Some s"
      "issue_rule (''policy-'' @ fresh) q am s = Inr (ru, s')" "rule = Some ru" "ir_stores r1 = AList.update Project_Scope s' (ir_stores r)"
      using shape by auto
    then show ?thesis by (rule by_scope)
  next
    case Allow_User
    then obtain am s s' ru where "request_amendment q User_Scope = Some am" "map_of (ir_stores r) User_Scope = Some s"
      "issue_rule (''policy-'' @ fresh) q am s = Inr (ru, s')" "rule = Some ru" "ir_stores r1 = AList.update User_Scope s' (ir_stores r)"
      using shape by auto
    then show ?thesis by (rule by_scope)
  qed (unfold stores, use shape in auto)
qed

section \<open>What one step can add\<close>

text \<open>A request that still waits under its id.\<close>

definition waiting :: "string \<Rightarrow> 'd approval_request \<Rightarrow> 'd approval_broker \<Rightarrow> bool" where
  "waiting a q b \<longleftrightarrow> (\<exists>p. map_of (ab_pending b) a = Some p \<and> pa_request p = q \<and> pa_future p = Waiting)"

lemma resolved_waiting: "resolve_request a d b = Inr (True, b') \<Longrightarrow> pending_request a b = Some q \<Longrightarrow> waiting a q b"
  by (auto simp: resolve_request_def waiting_def pending_request_def rbind_Inr_iff split: option.splits if_splits)

lemma answered_grants:
  assumes "handle_result fresh a outcome reason r = Inr (accepted, r')" and "fresh_for fresh r" and "(k, g) \<in> set (ir_grants r')"
  shows "(k, g) \<in> set (ir_grants r) \<or>
    (accepted \<and> outcome = Allow_Session \<and>
      (\<exists>q p. waiting a q (ir_broker r) \<and> aq_session_grant q = Some p \<and> k = (aq_actor_id q, grant_key p)))"
  using assms(1)
proof (cases rule: handle_result_cases)
  case ignored
  then show ?thesis using assms(3) by simp
next
  case (late q d grant rule r1)
  then show ?thesis using late_grants [OF assms(2) late(3)] assms(3) by blast
next
  case (taken q d grant rule r1 b)
  note shape = answer_decision_cases [OF taken(3)]
  have wait: "waiting a q (ir_broker r)" using taken(2,4) shape by (auto intro: resolved_waiting)
  show ?thesis
  proof (cases "outcome = Allow_Session")
    case True
    then obtain g' where "issue_grant (''grant-'' @ fresh) q (ir_grants r) = Inr (g', ir_grants r1)"
      using shape by auto
    then obtain p where p: "aq_session_grant q = Some p" "ir_grants r1 = AList.update (aq_actor_id q, grant_key p) g' (ir_grants r)"
      using issued_grant by blast
    then show ?thesis using True wait taken(1,5) assms(3) in_set_update [of "(k, g)" "(aq_actor_id q, grant_key p)" g' "ir_grants r"]
      by auto
  next
    case False
    then show ?thesis using shape taken(5) assms(3) by (cases outcome) auto
  qed
qed

lemma step_grants:
  assumes "approval_step r e r'" and "(k, g) \<in> set (ir_grants r')"
  shows "(k, g) \<in> set (ir_grants r) \<or>
    (\<exists>a q p. e = Answered a Allow_Session \<and> waiting a q (ir_broker r) \<and> aq_session_grant q = Some p \<and>
      k = (aq_actor_id q, grant_key p))"
  using assms
proof (cases rule: approval_step.cases)
  case (answer fresh a outcome reason accepted)
  then show ?thesis using answered_grants [OF answer(3,2) assms(2)] by auto
next
  case (grant_revoked grant_id)
  then show ?thesis using assms(2) session_grants.in_revoke [of "(k, g)" grant_id "ir_grants r"]
    by (auto simp: resolver_revoke_grant_def split: prod.splits)
qed (auto simp: resolver_resolve_begin_def task_begin_def task_done_def confirm_begin_def confirm_returned_frame confirm_raised_def
    release_confirmation_def release_reservation_def drop_confirmation_def set_policy_stores_def set_request_presenter_def
    open_session_def close_session_def end_session_def resolver_dispose_def invalidate_def cancel_actor_def
    revoke_actor_grants_def revoke_actor_def clear_grants_def drop_actor_confirmations_def revoke_policy_rule_def Let_def
    rbind_Inr_iff split: if_splits option.splits prod.splits)

section \<open>Rules\<close>

fun outcome_scope :: "approval_outcome \<Rightarrow> amendment_scope option" where
  "outcome_scope Allow_Project = Some Project_Scope"
| "outcome_scope Allow_User = Some User_Scope"
| "outcome_scope _ = None"

text \<open>The rules of a resolver after an answer, beside the ones it had.\<close>

definition rule_answered ::
  "'d approval_event \<Rightarrow> 'd approval_broker \<Rightarrow> amendment_scope \<Rightarrow> grant_key \<Rightarrow> bool" where
  "rule_answered e b scope k \<longleftrightarrow>
     (\<exists>a q am outcome. e = Answered a outcome \<and> outcome_scope outcome = Some scope \<and> waiting a q b \<and>
       request_amendment q scope = Some am \<and> k = grant_key (am_grant am))"

lemma answered_rules:
  assumes "handle_result fresh a outcome reason r = Inr (accepted, r')" and "fresh_for fresh r"
    and "map_of (ir_stores r') scope = Some s'" and "(k, ru') \<in> set (rs_rules s')"
  shows "(\<exists>s. map_of (ir_stores r) scope = Some s \<and> (k, ru') \<in> set (rs_rules s)) \<or>
    (accepted \<and> rule_answered (Answered a outcome) (ir_broker r) scope k)"
  using assms(1)
proof (cases rule: handle_result_cases)
  case ignored
  then show ?thesis using assms(3,4) by auto
next
  case (late q d grant rule r1)
  then show ?thesis using late_rules [OF assms(2) late(3)] assms(3,4) unfolding rules_within_def by blast
next
  case (taken q d grant rule r1 b)
  note shape = answer_decision_cases [OF taken(3)]
  have wait: "waiting a q (ir_broker r)" using taken(2,4) shape by (auto intro: resolved_waiting)
  have here: "map_of (ir_stores r1) scope = Some s'" using assms(3) taken(5) by simp
  show ?thesis
  proof (cases "outcome_scope outcome")
    case None
    then show ?thesis using shape here assms(4) by (cases outcome) auto
  next
    case (Some at)
    then obtain am s s1 ru where am: "request_amendment q at = Some am" "map_of (ir_stores r) at = Some s"
      "issue_rule (''policy-'' @ fresh) q am s = Inr (ru, s1)" "ir_stores r1 = AList.update at s1 (ir_stores r)"
      using shape by (cases outcome) auto
    show ?thesis
    proof (cases "at = scope")
      case True
      then have "s' = s1" using am(4) here by simp
      then show ?thesis using issued_rule [OF am(3)] assms(4) am(1,2) Some wait taken(1) True unfolding rule_answered_def by blast
    next
      case False
      then show ?thesis using am(4) here assms(4) by auto
    qed
  qed
qed

lemma step_rules:
  assumes "approval_step r e r'" and "map_of (ir_stores r') scope = Some s'" and "(k, ru) \<in> set (rs_rules s')"
  shows "(\<exists>s. map_of (ir_stores r) scope = Some s \<and> (k, ru) \<in> set (rs_rules s)) \<or>
    rule_answered e (ir_broker r) scope k \<or>
    (\<exists>given s. e = Loaded given \<and> map_of given scope = Some s \<and> (k, ru) \<in> set (rs_rules s))"
  using assms
proof (cases rule: approval_step.cases)
  case (answer fresh a outcome reason accepted)
  then show ?thesis using answered_rules [OF answer(3,2) assms(2,3)] by auto
next
  case (rule_revoked rule_id)
  have "ir_stores (snd (revoke_policy_rule rule_id r)) = snd (revoke_in_stores rule_id (ir_stores r))"
    by (simp add: revoke_policy_rule_def split: prod.split)
  then show ?thesis using rule_revoked rules_within_revoke [of rule_id "ir_stores r"] assms(2,3)
    unfolding rules_within_def by metis
qed (auto simp: resolver_resolve_begin_def task_begin_def task_done_def confirm_begin_def confirm_returned_frame confirm_raised_def
    release_confirmation_def release_reservation_def drop_confirmation_def set_policy_stores_def set_request_presenter_def
    open_session_def close_session_def end_session_def resolver_dispose_def invalidate_def cancel_actor_def
    revoke_actor_grants_def resolver_revoke_grant_def drop_actor_confirmations_def Let_def
    rbind_Inr_iff split: if_splits option.splits prod.splits)

section \<open>Reservations and confirmations\<close>

lemma answered_reservations:
  assumes "handle_result fresh a outcome reason r = Inr (accepted, r')"
  shows "ir_confirmation_requests r' = ir_confirmation_requests r"
  using assms
proof (cases rule: handle_result_cases)
  case (late q d grant rule r1)
  then show ?thesis using answer_decision_cases [OF late(3)] by simp
next
  case (taken q d grant rule r1 b)
  then show ?thesis using answer_decision_cases [OF taken(3)] by simp
qed simp

lemma confirm_returned_reservations:
  "ir_confirmation_requests (snd (confirm_returned q d r)) = AList.delete (the (aq_action_id q)) (ir_confirmation_requests r)"
  by (auto simp: confirm_returned_def Let_def drop_confirmation_def release_reservation_def split: option.split sum.split)

lemma step_reservations:
  assumes "approval_step r e r'" and "(a, Some q) \<in> set (ir_confirmation_requests r')"
  shows "(a, Some q) \<in> set (ir_confirmation_requests r) \<or> aq_action_id q = Some a"
  using assms
proof (cases rule: approval_step.cases)
  case (answer fresh a outcome reason accepted)
  then show ?thesis using assms(2) by (simp add: answered_reservations)
next
  case (confirm fresh q' begun)
  then show ?thesis using assms(2) ensured_id [of "''approval-'' @ fresh" q']
    by (auto simp: confirm_begin_def Let_def split: if_splits dest!: in_set_update)
qed (auto simp: resolver_resolve_begin_def task_begin_def task_done_def confirm_returned_reservations confirm_raised_def
    release_confirmation_def release_reservation_def drop_confirmation_def set_policy_stores_def set_request_presenter_def
    open_session_def close_session_def end_session_def resolver_dispose_def invalidate_def cancel_actor_def
    revoke_actor_grants_def resolver_revoke_grant_def revoke_policy_rule_def drop_actor_confirmations_def Let_def
    rbind_Inr_iff dest: in_set_delete split: if_splits option.splits prod.splits)

end
