(* ===== verification/Approval_Confirmations.thy ===== *)
theory Approval_Confirmations
  imports Approval_Provenance
begin

text \<open>
  The confirmations of a resolver through a run: what a step can add to them, the count of objects that
  tells them apart, the capacity, and the invariants of a run from a new resolver or from the end of a
  session.
\<close>

section \<open>Steps\<close>

definition confirmed_now ::
  "'d approval_event \<Rightarrow> 'd approval_resolver \<Rightarrow> string \<Rightarrow> 'd approval_confirmation \<Rightarrow> bool" where
  "confirmed_now e r a c \<longleftrightarrow>
     ac_identity c = ir_objects r \<and> (a, Some (ac_request c)) \<in> set (ir_confirmation_requests r) \<and>
     ad_disposition (ac_decision c) = Approved \<and>
     ((\<exists>outcome. e = Answered a outcome \<and> answer_gives outcome (ac_decision c)) \<or>
      preauthorize (ac_request c) r = Some (ac_decision c))"

lemma withdraw_answer_objects [simp]: "ir_objects (withdraw_answer grant rule r) = ir_objects r"
  by (auto simp: withdraw_answer_def Let_def split: option.split)

lemma record_confirmation_adds:
  assumes "(k, c) \<in> set (ir_confirmations (record_confirmation a q d r))"
  shows "(k, c) \<in> set (ir_confirmations r) \<or>
    k = a \<and> ac_identity c = ir_objects r \<and> ac_decision c = d \<and> ad_disposition d = Approved \<and>
    (a, Some (ac_request c)) \<in> set (ir_confirmation_requests r) \<and>
    ir_objects (record_confirmation a q d r) = Suc (ir_objects r)"
  using assms by (auto simp: record_confirmation_def split: option.splits if_splits dest!: in_set_update map_of_SomeD)

lemma answered_confirmations:
  assumes "handle_result fresh a outcome reason r = Inr (accepted, r')"
    and "(k, c) \<in> set (ir_confirmations r')"
  shows "(k, c) \<in> set (ir_confirmations r) \<or>
    accepted \<and> confirmed_now (Answered a outcome) r k c \<and> ir_objects r' = Suc (ir_objects r)"
  using assms(1)
proof (cases rule: handle_result_cases)
  case ignored
  then show ?thesis using assms(2) by simp
next
  case (late q d grant rule r1)
  then show ?thesis using answer_decision_cases [OF late(3)] assms(2) by simp
next
  case (taken q d grant rule r1 b)
  note shape = answer_decision_cases [OF taken(3)]
  show ?thesis using record_confirmation_adds [of k c a q d "r1\<lparr>ir_broker := b\<rparr>"] assms(2) taken(1,5) shape
    by (auto simp: confirmed_now_def)
qed

lemma returned_confirmations:
  assumes "(k, c) \<in> set (ir_confirmations (snd (confirm_returned q d r)))"
  shows "(k, c) \<in> set (ir_confirmations r) \<or>
    confirmed_now Quiet r k c \<and> ir_objects (snd (confirm_returned q d r)) = Suc (ir_objects r)"
  using assms
  by (auto simp: confirm_returned_def Let_def confirmed_now_def drop_confirmation_def release_reservation_def
      split: if_splits option.splits sum.splits dest!: in_set_update in_set_delete map_of_SomeD)

lemma step_confirmations:
  assumes "approval_step r e r'" and "(a, c) \<in> set (ir_confirmations r')"
  shows "(a, c) \<in> set (ir_confirmations r) \<or> confirmed_now e r a c \<and> ir_objects r' = Suc (ir_objects r)"
  using assms
proof (cases rule: approval_step.cases)
  case (answer fresh k outcome reason accepted)
  then show ?thesis using answered_confirmations [OF answer(3) assms(2)] by auto
next
  case (confirmed q d)
  then show ?thesis using returned_confirmations assms(2) by blast
qed (auto simp: resolver_resolve_begin_def task_begin_def task_done_def confirm_begin_def confirm_raised_def
    release_confirmation_def release_reservation_def drop_confirmation_def set_policy_stores_def set_request_presenter_def
    open_session_def close_session_def end_session_def resolver_dispose_def invalidate_def cancel_actor_def
    revoke_actor_grants_def resolver_revoke_grant_def revoke_policy_rule_def drop_actor_confirmations_def Let_def
    rbind_Inr_iff dest: in_set_delete split: if_splits option.splits prod.splits)

lemma answered_objects:
  assumes "handle_result fresh a outcome reason r = Inr (accepted, r')"
  shows "ir_objects r \<le> ir_objects r'"
  using assms
proof (cases rule: handle_result_cases)
  case (late q d grant rule r1)
  then show ?thesis using answer_decision_cases [OF late(3)] by simp
next
  case (taken q d grant rule r1 b)
  then show ?thesis using answer_decision_cases [OF taken(3)] by (auto simp: record_confirmation_def split: option.split)
qed simp

lemma step_objects: "approval_step r e r' \<Longrightarrow> ir_objects r \<le> ir_objects r'"
proof (induction rule: approval_step.induct)
  case (answer fresh r a outcome reason accepted r')
  then show ?case by (intro answered_objects)
qed (auto simp: resolver_resolve_begin_def task_begin_def task_done_def confirm_begin_def confirm_raised_def confirm_returned_def
    release_confirmation_def release_reservation_def drop_confirmation_def set_policy_stores_def set_request_presenter_def
    open_session_def close_session_def end_session_def resolver_dispose_def invalidate_def cancel_actor_def
    revoke_actor_grants_def resolver_revoke_grant_def revoke_policy_rule_def drop_actor_confirmations_def Let_def
    rbind_Inr_iff split: if_splits option.splits prod.splits sum.splits)

section \<open>Runs\<close>

lemma run_objects: "approval_run r evs r' \<Longrightarrow> ir_objects r \<le> ir_objects r'"
  by (induction rule: approval_run.induct) (auto dest: step_objects)

text \<open>What was asked is what still waits.\<close>

definition waiting_asked :: "'d approval_event list \<Rightarrow> 'd approval_broker \<Rightarrow> bool" where
  "waiting_asked evs b \<longleftrightarrow> (\<forall>a q. waiting a q b \<longrightarrow> Asked a q \<in> set evs)"

lemma move_waiting: "broker_move b e b' \<Longrightarrow> waiting a q b' \<Longrightarrow> waiting a q b \<or> e = Asked a q"
  by (induction rule: broker_move.induct)
    (auto simp: waiting_def broker_resolve_begin_def resolve_request_def cancel_where_def map_of_mapped set_decision_future
      broker_finish_def broker_release_def delete_conv' broker_timeout_def rbind_Inr_iff
      split: if_splits option.splits approval_future.splits)

lemma run_waiting:
  assumes "approval_run r evs r'" and "waiting_asked [] (ir_broker r)"
  shows "waiting_asked evs (ir_broker r')"
  using assms
proof (induction rule: approval_run.induct)
  case (run_on r evs r' e r'')
  then show ?case using move_waiting [OF step_moves] unfolding waiting_asked_def by fastforce
qed simp

text \<open>An answer in the run that allows the session to an actor, for one capability.\<close>

definition session_answered :: "'d approval_event list \<Rightarrow> string \<Rightarrow> grant_key \<Rightarrow> bool" where
  "session_answered evs actor k \<longleftrightarrow>
     (\<exists>a q p. Asked a q \<in> set evs \<and> Answered a Allow_Session \<in> set evs \<and> aq_session_grant q = Some p \<and>
       aq_actor_id q = actor \<and> grant_key p = k)"

lemma session_answered_later: "session_answered evs actor k \<Longrightarrow> session_answered (evs @ evs') actor k"
  by (auto simp: session_answered_def)

lemma run_grants:
  assumes "approval_run r evs r'" and "waiting_asked [] (ir_broker r)" and "ir_grants r = []"
    and "((actor, k), g) \<in> set (ir_grants r')"
  shows "session_answered evs actor k"
  using assms
proof (induction rule: approval_run.induct)
  case (run_on r evs r' e r'')
  have asked: "waiting_asked evs (ir_broker r')" by (rule run_waiting [OF run_on(1) run_on.prems(1)])
  from step_grants [OF run_on(2) run_on.prems(3)] show ?case
  proof
    assume "((actor, k), g) \<in> set (ir_grants r')"
    then show ?thesis using run_on by (blast intro: session_answered_later)
  next
    assume "\<exists>a q p. e = Answered a Allow_Session \<and> waiting a q (ir_broker r') \<and> aq_session_grant q = Some p \<and>
      (actor, k) = (aq_actor_id q, grant_key p)"
    then show ?thesis using asked unfolding session_answered_def waiting_asked_def by fastforce
  qed
qed simp

text \<open>An answer in the run that keeps a rule for one capability in the store of a scope.\<close>

definition retained_answered :: "'d approval_event list \<Rightarrow> amendment_scope \<Rightarrow> grant_key \<Rightarrow> bool" where
  "retained_answered evs scope k \<longleftrightarrow>
     (\<exists>a q am outcome. Asked a q \<in> set evs \<and> Answered a outcome \<in> set evs \<and> outcome_scope outcome = Some scope \<and>
       request_amendment q scope = Some am \<and> grant_key (am_grant am) = k)"

definition loaded_rule ::
  "(amendment_scope \<times> rule_store) list \<Rightarrow> amendment_scope \<Rightarrow> grant_key \<times> approval_rule \<Rightarrow> bool" where
  "loaded_rule stores scope x \<longleftrightarrow> (\<exists>s. map_of stores scope = Some s \<and> x \<in> set (rs_rules s))"

lemma retained_answered_later: "retained_answered evs scope k \<Longrightarrow> retained_answered (evs @ evs') scope k"
  by (auto simp: retained_answered_def)

lemma run_rules:
  assumes "approval_run r evs r'" and "waiting_asked [] (ir_broker r)" and "map_of (ir_stores r') scope = Some s"
    and "(k, ru) \<in> set (rs_rules s)"
  shows "retained_answered evs scope k \<or> loaded_rule (ir_stores r) scope (k, ru) \<or>
    (\<exists>given. Loaded given \<in> set evs \<and> loaded_rule given scope (k, ru))"
  using assms
proof (induction arbitrary: s rule: approval_run.induct)
  case run_here
  then show ?case by (auto simp: loaded_rule_def)
next
  case (run_on r evs r' e r'')
  have asked: "waiting_asked evs (ir_broker r')" by (rule run_waiting [OF run_on(1) run_on.prems(1)])
  from step_rules [OF run_on(2) run_on.prems(2,3)] show ?case
  proof (elim disjE)
    assume "\<exists>s. map_of (ir_stores r') scope = Some s \<and> (k, ru) \<in> set (rs_rules s)"
    then show ?thesis using run_on by (auto intro: retained_answered_later)
  next
    assume "rule_answered e (ir_broker r') scope k"
    then show ?thesis using asked unfolding rule_answered_def retained_answered_def waiting_asked_def by fastforce
  next
    assume "\<exists>given s. e = Loaded given \<and> map_of given scope = Some s \<and> (k, ru) \<in> set (rs_rules s)"
    then show ?thesis unfolding loaded_rule_def by auto
  qed
qed

section \<open>The invariant of confirmations\<close>

lemma preauthorize_cases:
  assumes "preauthorize q r = Some d"
  obtains (grant) p g where "aq_session_grant q = Some p" and "((aq_actor_id q, grant_key p), g) \<in> set (ir_grants r)"
      and "d = allow_session (ag_grant_id g)"
  | (rule) scope s am ru where "map_of (ir_stores r) scope = Some s" and "request_amendment q (rs_scope s) = Some am"
      and "(grant_key (am_grant am), ru) \<in> set (rs_rules s)" and "d = allow_by_policy (ar_rule_id ru) (ar_scope ru)"
proof (cases "find_grant q (ir_grants r)")
  case None
  then obtain scope s ru where "map_of (ir_stores r) scope = Some s" "find_rule q s = Some ru"
    "d = allow_by_policy (ar_rule_id ru) (ar_scope ru)"
    using assms by (auto simp: preauthorize_def Let_def or_else_def split: option.splits)
  then show ?thesis using rule by (auto simp: find_rule_def split: option.splits dest: map_of_SomeD)
next
  case (Some g)
  then show ?thesis using assms grant
    by (auto simp: preauthorize_def find_grant_def split: option.splits dest: map_of_SomeD)
qed

definition standing :: "approval_decision \<Rightarrow> bool" where
  "standing d \<longleftrightarrow> ad_grant_id d \<noteq> None \<or> ad_policy_rule_id d \<noteq> None"

lemma standing_simps [simp]:
  "\<not> standing allow_once" "standing (allow_session g)" "standing (allow_by_policy i scope)"
  by (simp_all add: standing_def allow_once_def allow_session_def allow_by_policy_def)

lemma preauthorize_standing: "preauthorize q r = Some d \<Longrightarrow> standing d \<and> ad_disposition d = Approved"
  by (erule preauthorize_cases) auto

definition confirmations_fit :: "'d approval_event list \<Rightarrow> 'd approval_resolver \<Rightarrow> bool" where
  "confirmations_fit evs r \<longleftrightarrow>
     (\<forall>a q. (a, Some q) \<in> set (ir_confirmation_requests r) \<longrightarrow> aq_action_id q = Some a) \<and>
     (\<forall>a c. (a, c) \<in> set (ir_confirmations r) \<longrightarrow>
        aq_action_id (ac_request c) = Some a \<and> ac_identity c < ir_objects r \<and> ad_disposition (ac_decision c) = Approved \<and>
        (standing (ac_decision c) \<or> (\<exists>outcome. Answered a outcome \<in> set evs \<and> answer_gives outcome (ac_decision c))))"

lemma confirmed_now_fits:
  assumes "confirmed_now e r a c" and "confirmations_fit evs r"
  shows "aq_action_id (ac_request c) = Some a" and "ac_identity c = ir_objects r" and "ad_disposition (ac_decision c) = Approved"
    and "standing (ac_decision c) \<or> (\<exists>outcome. Answered a outcome \<in> set (evs @ [e]) \<and> answer_gives outcome (ac_decision c))"
  using assms preauthorize_standing by (auto simp: confirmed_now_def confirmations_fit_def)

lemma run_confirmations:
  assumes "approval_run r evs r'" and "confirmations_fit [] r"
  shows "confirmations_fit evs r'"
  using assms
proof (induction rule: approval_run.induct)
  case (run_on r evs r' e r'')
  have fits: "confirmations_fit evs r'" using run_on by blast
  have "aq_action_id (ac_request c) = Some a \<and> ac_identity c < ir_objects r'' \<and> ad_disposition (ac_decision c) = Approved \<and>
      (standing (ac_decision c) \<or> (\<exists>outcome. Answered a outcome \<in> set (evs @ [e]) \<and> answer_gives outcome (ac_decision c)))"
    if "(a, c) \<in> set (ir_confirmations r'')" for a c
    using step_confirmations [OF run_on(2) that]
  proof
    assume "(a, c) \<in> set (ir_confirmations r')"
    then show ?thesis using fits step_objects [OF run_on(2)] unfolding confirmations_fit_def by fastforce
  next
    assume now: "confirmed_now e r' a c \<and> ir_objects r'' = Suc (ir_objects r')"
    then show ?thesis using confirmed_now_fits [OF conjunct1 [OF now] fits] by simp
  qed
  then show ?case using step_reservations [OF run_on(2)] fits unfolding confirmations_fit_def by blast
qed simp

text \<open>What is confirmed later is another object than what was confirmed before.\<close>

lemma run_later_confirmations:
  assumes "approval_run r evs r'" and "(a, c) \<in> set (ir_confirmations r')"
  shows "(a, c) \<in> set (ir_confirmations r) \<or> ir_objects r \<le> ac_identity c"
  using assms
proof (induction rule: approval_run.induct)
  case (run_on r evs r' e r'')
  then show ?case using step_confirmations [OF run_on(2) run_on.prems] run_objects [OF run_on(1)]
    by (auto simp: confirmed_now_def)
qed simp

section \<open>The capacity\<close>

abbreviation tracked :: "'d approval_resolver \<Rightarrow> string set" where
  "tracked r \<equiv> set (keys (ir_confirmation_requests r)) \<union> set (keys (ir_confirmations r))"

lemma image_update: "fst ` set (AList.update k v d) = insert k (fst ` set d)"
  by (induction d) auto

lemma step_reserves:
  assumes "approval_step r e r'" and "(a, x) \<in> set (ir_confirmation_requests r')"
  shows "(\<exists>y. (a, y) \<in> set (ir_confirmation_requests r)) \<or> outstanding r < 64 \<and> tracked r' = insert a (tracked r)"
  using assms
proof (cases rule: approval_step.cases)
  case (answer fresh k outcome reason accepted)
  then show ?thesis using assms(2) by (auto simp: answered_reservations)
next
  case (confirm fresh q begun)
  then obtain k v where "r' = r \<or> (r' = r\<lparr>ir_confirmation_requests := AList.update k v (ir_confirmation_requests r)\<rparr> \<and> outstanding r < 64)"
    by (auto simp: confirm_begin_def Let_def split: if_splits)
  moreover have "tracked (r\<lparr>ir_confirmation_requests := AList.update k v (ir_confirmation_requests r)\<rparr>) = insert k (tracked r)"
    using image_update [of k v "ir_confirmation_requests r"] by simp
  ultimately show ?thesis using assms(2) in_set_update [of "(a, x)" k v "ir_confirmation_requests r"]
    by (metis (no_types, lifting) approval_resolver.select_convs(7) approval_resolver.update_convs(7) prod.inject
        approval_resolver.surjective)
qed (auto simp: resolver_resolve_begin_def task_begin_def task_done_def confirm_returned_reservations confirm_raised_def
    release_confirmation_def release_reservation_def drop_confirmation_def set_policy_stores_def set_request_presenter_def
    open_session_def close_session_def end_session_def resolver_dispose_def invalidate_def cancel_actor_def
    revoke_actor_grants_def resolver_revoke_grant_def revoke_policy_rule_def drop_actor_confirmations_def Let_def
    rbind_Inr_iff dest: in_set_delete split: if_splits option.splits prod.splits)

lemma tracked_iff:
  "a \<in> tracked r \<longleftrightarrow> (\<exists>x. (a, x) \<in> set (ir_confirmation_requests r)) \<or> (\<exists>c. (a, c) \<in> set (ir_confirmations r))"
  by force

lemma step_tracked:
  assumes "approval_step r e r'"
  shows "tracked r' \<subseteq> tracked r \<or> (\<exists>a. tracked r' = insert a (tracked r) \<and> outstanding r < 64)"
proof (cases "\<exists>a. tracked r' = insert a (tracked r) \<and> outstanding r < 64")
  case False
  have "a \<in> tracked r" if "a \<in> tracked r'" for a
    using that step_confirmations [OF assms] step_reserves [OF assms] False
    unfolding tracked_iff confirmed_now_def by blast
  then show ?thesis by blast
qed blast

lemma step_capacity:
  assumes "approval_step r e r'" and "outstanding r \<le> 64"
  shows "outstanding r' \<le> 64"
  using step_tracked [OF assms(1)]
proof
  assume "tracked r' \<subseteq> tracked r"
  then have "outstanding r' \<le> outstanding r" by (simp add: outstanding_def card_mono)
  then show ?thesis using assms(2) by simp
next
  assume "\<exists>a. tracked r' = insert a (tracked r) \<and> outstanding r < 64"
  then show ?thesis by (auto simp: outstanding_def card_insert_if)
qed

lemma run_capacity: "approval_run r evs r' \<Longrightarrow> outstanding r \<le> 64 \<Longrightarrow> outstanding r' \<le> 64"
  by (induction rule: approval_run.induct) (auto intro: step_capacity)

end
