(* ===== verification/Approval_Sample.thy ===== *)
theory Approval_Sample
  imports Approval_Confirmations
begin

text \<open>A run of the resolver on concrete values: one request confirmed under a session grant.\<close>

definition sample_proposal :: grant_proposal where
  "sample_proposal = \<lparr>gp_capability = ''deploy'', gp_constraints = [(''stage'', ''dev'')], gp_summary = ''deploy to dev''\<rparr>"

definition sample_approval :: "unit approval_request" where
  "sample_approval = \<lparr>aq_tool_name = ''bash'', aq_reason = None, aq_action_id = Some ''a'', aq_actor_id = ''root'',
     aq_session_grant = Some sample_proposal, aq_policy_amendments = [\<lparr>am_scope = Project_Scope, am_grant = sample_proposal\<rparr>],
     aq_details = ()\<rparr>"

definition sample_stores :: "(amendment_scope \<times> rule_store) list" where
  "sample_stores = [(Project_Scope, \<lparr>rs_scope = Project_Scope, rs_rules = []\<rparr>)]"

definition sample_start :: "unit approval_resolver" where
  "sample_start = projr (new_resolver sample_stores)"

definition sample_waiting :: "unit approval_resolver" where
  "sample_waiting =
     snd (projr (task_begin ''1'' sample_approval
       (snd (projr (resolver_resolve_begin ''1'' sample_approval
         (snd (projr (confirm_begin ''1'' sample_approval (projr (set_request_presenter True sample_start))))))))))"

definition sample_answered :: "unit approval_resolver" where
  "sample_answered = snd (projr (handle_result ''1'' ''a'' Allow_Session None sample_waiting))"

definition sample_confirmed :: "unit approval_resolver" where
  "sample_confirmed =
     (let returned = the (broker_finish ''a'' (ir_broker sample_answered)) in
      snd (confirm_returned sample_approval (fst returned)
        (task_done (''root'', grant_key sample_proposal) 0 (sample_answered\<lparr>ir_broker := snd returned\<rparr>))))"

definition sample_confirmation :: "unit approval_confirmation" where
  "sample_confirmation = \<lparr>ac_identity = 1, ac_request = sample_approval, ac_decision = allow_session ''grant-1''\<rparr>"

definition sample_asked :: "unit approval_event list" where
  "sample_asked = [Quiet, Quiet, Quiet, Asked ''a'' sample_approval]"

definition sample_events :: "unit approval_event list" where
  "sample_events = sample_asked @ [Answered ''a'' Allow_Session] @ [Returned ''a'' (allow_session ''grant-1'')] @ [Quiet] @ [Quiet]"

text \<open>The states between the sections, written out.\<close>

lemma sample_start_new: "new_resolver sample_stores = Inr sample_start"
  by (simp add: sample_start_def new_resolver_def sample_stores_def stores_match_def)

lemma run_one: "approval_step r e r' \<Longrightarrow> approval_run r [e] r'"
  using run_on [OF run_here] by fastforce

lemma run_trans: "approval_run r evs r' \<Longrightarrow> approval_run r' evs' r'' \<Longrightarrow> approval_run r (evs @ evs') r''"
proof (rotate_tac 1, induction rule: approval_run.induct)
  case (run_on r' evs' s e s')
  then show ?case using approval_run.run_on [of r "evs @ evs'" s e s'] by simp
qed simp

definition sample_presenting :: "unit approval_resolver" where
  "sample_presenting = projr (set_request_presenter True sample_start)"

definition sample_reserved :: "unit approval_resolver" where
  "sample_reserved = snd (projr (confirm_begin ''1'' sample_approval sample_presenting))"

definition sample_resolving :: "unit approval_resolver" where
  "sample_resolving = snd (projr (resolver_resolve_begin ''1'' sample_approval sample_reserved))"

definition sample_settled :: "unit approval_resolver" where
  "sample_settled = sample_answered\<lparr>ir_broker := snd (the (broker_finish ''a'' (ir_broker sample_answered)))\<rparr>"

lemma sample_opening:
  "set_request_presenter True sample_start = Inr sample_presenting"
  "confirm_begin ''1'' sample_approval sample_presenting = Inr (Some sample_approval, sample_reserved)"
  "resolver_resolve_begin ''1'' sample_approval sample_reserved = Inr (Await_Task 0, sample_resolving)"
  "task_begin ''1'' sample_approval sample_resolving = Inr (Presented, sample_waiting)"
  by code_simp+

lemma sample_answering:
  "fresh_for ''1'' sample_waiting"
  "handle_result ''1'' ''a'' Allow_Session None sample_waiting = Inr (True, sample_answered)"
  "broker_finish ''a'' (ir_broker sample_answered) = Some (allow_session ''grant-1'', ir_broker sample_settled)"
  "sample_answered\<lparr>ir_broker := ir_broker sample_settled\<rparr> = sample_settled"
  "sample_confirmed = snd (confirm_returned sample_approval (allow_session ''grant-1'')
     (task_done (''root'', grant_key sample_proposal) 0 sample_settled))"
  "begun_event ''1'' sample_approval Presented = Asked ''a'' sample_approval"
  by code_simp+

lemma sample_asking: "approval_run sample_start sample_asked sample_waiting"
proof -
  note steps = run_one [OF approval_step.presenter [OF sample_opening(1)]] run_one [OF approval_step.confirm [OF sample_opening(2)]]
    run_one [OF approval_step.resolve [OF sample_opening(3)]] run_one [OF approval_step.run_task [OF sample_opening(4)]]
  show ?thesis using run_trans [OF steps(1) run_trans [OF steps(2) run_trans [OF steps(3,4)]]]
    by (simp add: sample_asked_def sample_answering)
qed

lemma sample_session_run: "approval_run sample_start sample_events sample_confirmed"
proof -
  have answered: "approval_step sample_waiting (Answered ''a'' Allow_Session) sample_answered"
    using approval_step.answer [OF sample_answering(1,2)] by simp
  have settled: "approval_step sample_answered (Returned ''a'' (allow_session ''grant-1'')) sample_settled"
    using approval_step.finish [OF sample_answering(3)] by (simp add: sample_answering)
  have confirmed: "approval_step (task_done (''root'', grant_key sample_proposal) 0 sample_settled) Quiet sample_confirmed"
    unfolding sample_answering(5) by (rule approval_step.confirmed) (simp add: sample_approval_def)
  show ?thesis unfolding sample_events_def
    by (rule run_trans [OF sample_asking run_trans [OF run_one [OF answered] run_trans [OF run_one [OF settled]
      run_trans [OF run_one [OF approval_step.task_over] run_one [OF confirmed]]]]])
qed

lemma sample_confirmed_facts:
  "require_current sample_confirmation sample_approval sample_confirmed = Inr ()"
  "preauthorize sample_approval sample_confirmed = Some (allow_session ''grant-1'')"
  "(''a'', sample_confirmation) \<in> set (ir_confirmations sample_confirmed)"
  by code_simp+

end
