(* ===== verification/Approval_Properties.thy ===== *)
theory Approval_Properties
  imports Approval_Sample
begin

text \<open>What the approval lifecycle promises: the properties of the runs of a resolver.\<close>

lemma course_mem: "e \<in> set evs \<Longrightarrow> event_action e = Some a \<Longrightarrow> e \<in> set (course a evs)"
  by (simp add: course_def)

lemma course_approved:
  assumes "course_over c" and "Returned a d \<in> set c" and "ad_disposition d \<noteq> Denied" and "\<forall>e \<in> set c. event_action e = Some a"
  shows "\<exists>q outcome. c = [Asked a q, Answered a outcome, Returned a d] \<and> answer_gives outcome d"
  using assms by (induction c rule: course_over.induct) auto

lemma course_fallen:
  assumes "course_over c" and "Fell_Back a d \<in> set c" and "\<forall>e \<in> set c. event_action e = Some a"
  shows "\<exists>q. c = [Asked a q, Fell_Back a d]"
  using assms by (induction c rule: course_over.induct) auto

lemma run_split:
  assumes "approval_run r0 evs r" and "evs = pre @ e # post"
  shows "\<exists>s t. approval_run r0 pre s \<and> approval_step s e t"
  using assms
proof (induction arbitrary: post)
  case (run_on r evs r' e' r'')
  then show ?case by (cases post rule: rev_cases) auto
qed simp

text \<open>The fallback decides for a presented request only when its timeout has closed it to answers.\<close>

lemma fallen_step:
  assumes "approval_step r (Fell_Back a d) r'"
  shows "\<exists>p. map_of (ab_pending (ir_broker r)) a = Some p \<and> \<not> pa_accepting p \<and> pa_future p = Waiting"
  using assms
  by (cases rule: approval_step.cases)
    (auto simp: broker_fallback_returned_def begun_event_def asked_event_def Let_def
      split: if_splits option.splits broker_begin.splits resolve_begin.splits)

text \<open>A request is handed to the fallback at once only when nobody can be asked.\<close>

lemma unasked_step:
  assumes "approval_step r (Unasked a) r'"
  shows "a \<notin> set (keys (ab_pending (ir_broker r))) \<and> (ab_disposed (ir_broker r) \<or> \<not> ab_presenter (ir_broker r))"
  using assms
  by (cases rule: approval_step.cases)
    (auto simp: resolver_resolve_begin_def task_begin_def begun_event_def asked_event_def broker_resolve_begin_def Let_def
      rbind_Inr_iff split: if_splits option.splits broker_begin.splits resolve_begin.splits)

text \<open>
  Property C31.
  A request is decided at most once: in every run of a resolver, what happens under one action id is
  nothing, or the request is presented once and then takes one course (it waits, is answered once, is
  denied by a cancellation, or falls back after its timeout). The broker hands a decision to its caller in
  three ways. The result of the future of a presented request is a denial or what the one accepted answer
  means. The fallback's decision, which may allow, comes for a request that was presented and that nobody
  answered, before or after, when its timeout has closed it to answers and its future is still open; or it comes at once, and then no request was pending under the
  id and there was no presenter or the broker was disposed.
\<close>
theorem request_decided_once:
  assumes "new_resolver stores = Inr r0" and "approval_run r0 evs r"
  shows "course_over (course a evs) \<and>
    (\<forall>d. Returned a d \<in> set evs \<longrightarrow> ad_disposition d \<noteq> Denied \<longrightarrow>
      (\<exists>q outcome. course a evs = [Asked a q, Answered a outcome, Returned a d] \<and> answer_gives outcome d)) \<and>
    (\<forall>pre d post. evs = pre @ Fell_Back a d # post \<longrightarrow> (\<exists>q s p. course a evs = [Asked a q, Fell_Back a d] \<and>
      approval_run r0 pre s \<and> map_of (ab_pending (ir_broker s)) a = Some p \<and> \<not> pa_accepting p \<and> pa_future p = Waiting)) \<and>
    (\<forall>pre post. evs = pre @ Unasked a # post \<longrightarrow> (\<exists>s. approval_run r0 pre s \<and>
      a \<notin> set (keys (ab_pending (ir_broker s))) \<and> (ab_disposed (ir_broker s) \<or> \<not> ab_presenter (ir_broker s))))"
proof -
  have "course_fits a (course a evs) (ir_broker r)"
    using assms run_courses new_resolver_shape fresh_courses by metis
  then have over: "course_over (course a evs)" by (auto simp: course_fits_def dest: course_pending_over split: option.splits)
  have own: "\<forall>e \<in> set (course a evs). event_action e = Some a" by (simp add: course_def)
  have "\<exists>q s p. course a evs = [Asked a q, Fell_Back a d] \<and> approval_run r0 pre s \<and>
      map_of (ab_pending (ir_broker s)) a = Some p \<and> \<not> pa_accepting p \<and> pa_future p = Waiting"
    if "evs = pre @ Fell_Back a d # post" for pre d post
    using run_split [OF assms(2) that] fallen_step course_fallen [OF over course_mem own] that by fastforce
  moreover have "\<exists>s. approval_run r0 pre s \<and> a \<notin> set (keys (ab_pending (ir_broker s))) \<and>
      (ab_disposed (ir_broker s) \<or> \<not> ab_presenter (ir_broker s))" if "evs = pre @ Unasked a # post" for pre post
    using run_split [OF assms(2) that] unasked_step by blast
  ultimately show ?thesis using over own course_approved course_mem [of "Returned a _" evs a] by force
qed

lemma request_decided_once_witness:
  "course_over (course ''a'' sample_events) \<and>
   (\<exists>q outcome. course ''a'' sample_events = [Asked ''a'' q, Answered ''a'' outcome, Returned ''a'' (allow_session ''grant-1'')])"
  using request_decided_once [OF sample_start_new sample_session_run, of "''a''"] by (auto simp: sample_events_def sample_asked_def)

lemma new_waiting: "new_resolver stores = Inr r0 \<Longrightarrow> waiting_asked [] (ir_broker r0)"
  by (simp add: new_resolver_shape waiting_asked_def waiting_def new_broker_def)

lemma grant_origin:
  assumes "approval_run r0 evs r" and "waiting_asked [] (ir_broker r0)" and "ir_grants r0 = []"
    and "preauthorize q r = Some d" and "ad_grant_id d \<noteq> None"
  shows "\<exists>p. aq_session_grant q = Some p \<and> session_answered evs (aq_actor_id q) (grant_key p)"
  using assms(4)
proof (cases rule: preauthorize_cases)
  case (grant p g)
  then show ?thesis using run_grants [OF assms(1-3)] by blast
next
  case (rule scope s am ru)
  then show ?thesis using assms(5) by (simp add: allow_by_policy_def allow_once_def)
qed

text \<open>
  Property C32.
  Nothing is granted without an answer: with in-memory stores of rules, when a resolver answers a request from what it retains, then
  either the run has an accepted answer that allowed the session to the same actor for the same
  capability and constraints, or the rule it names was loaded with the policy stores, or was kept after
  an accepted answer that always allows that capability in that scope.
\<close>
theorem grants_come_from_answers:
  assumes "new_resolver stores = Inr r0" and "approval_run r0 evs r" and "preauthorize q r = Some d"
  shows "(\<exists>p. aq_session_grant q = Some p \<and> ad_grant_id d \<noteq> None \<and> session_answered evs (aq_actor_id q) (grant_key p)) \<or>
    (\<exists>scope am ru. ad_policy_rule_id d = Some (ar_rule_id ru) \<and> am \<in> set (aq_policy_amendments q) \<and>
      (retained_answered evs scope (grant_key (am_grant am)) \<or> loaded_rule stores scope (grant_key (am_grant am), ru) \<or>
        (\<exists>given. Loaded given \<in> set evs \<and> loaded_rule given scope (grant_key (am_grant am), ru))))"
  using assms(3)
proof (cases rule: preauthorize_cases)
  case (grant p g)
  then show ?thesis
    using run_grants [OF assms(2) new_waiting [OF assms(1)] new_resolver_shape(2) [OF assms(1)] grant(2)]
    by (auto simp: allow_session_def allow_once_def)
next
  case (rule scope s am ru)
  have "am \<in> set (aq_policy_amendments q)" using rule(2) by (auto simp: request_amendment_def find_Some_iff)
  moreover have "ad_policy_rule_id d = Some (ar_rule_id ru)" using rule(4) by (simp add: allow_by_policy_def)
  ultimately show ?thesis
    using run_rules [OF assms(2) new_waiting [OF assms(1)] rule(1,3)] new_resolver_shape(3) [OF assms(1)] by metis
qed

lemma grants_come_from_answers_witness:
  "session_answered sample_events ''root'' (grant_key sample_proposal)"
  using grants_come_from_answers [OF sample_start_new sample_session_run sample_confirmed_facts(2)]
  by (auto simp: sample_approval_def allow_session_def allow_once_def)

text \<open>
  Property C33.
  A confirmation that passes the check is current and for exactly this action: the session is open, the
  request is the one confirmed, and either the confirmation rests on an accepted answer that allows just
  this action id once, or what it rests on is retained at this moment.
\<close>
theorem confirmation_is_current:
  assumes "new_resolver stores = Inr r0" and "approval_run r0 evs r" and "require_current c q r = Inr ()"
  shows "ir_session_open r \<and> same_request (ac_request c) q \<and>
    (\<exists>a. aq_action_id q = Some a \<and>
      (ac_decision c = allow_once \<and> Answered a Allow_Once \<in> set evs \<or> preauthorize q r = Some (ac_decision c)))"
proof -
  have fits: "confirmations_fit evs r"
    using run_confirmations [OF assms(2)] new_resolver_shape [OF assms(1)] by (auto simp: confirmations_fit_def)
  obtain a where a: "(a, c) \<in> set (ir_confirmations r)" "ir_session_open r" "same_request (ac_request c) q"
    "\<not> standing (ac_decision c) \<or> preauthorize q r = Some (ac_decision c)"
    using assms(3) by (auto simp: require_current_def rbind_Inr_iff standing_def dest: map_of_SomeD)
  have "aq_action_id (request_content (ac_request c)) = aq_action_id (request_content q)"
    using a(3) by (simp add: same_request_def)
  then have "aq_action_id q = Some a" using fits a(1) by (auto simp: confirmations_fit_def request_content_def)
  moreover have "ac_decision c = allow_once \<and> Answered a Allow_Once \<in> set evs" if plain: "\<not> standing (ac_decision c)"
  proof -
    obtain outcome where o: "Answered a outcome \<in> set evs" "answer_gives outcome (ac_decision c)"
      "ad_disposition (ac_decision c) = Approved"
      using fits a(1) plain unfolding confirmations_fit_def by blast
    then show ?thesis using plain by (cases outcome) auto
  qed
  ultimately show ?thesis using a by blast
qed

lemma confirmation_is_current_witness:
  "same_request sample_approval sample_approval \<and> preauthorize sample_approval sample_confirmed = Some (allow_session ''grant-1'')"
  using confirmation_is_current [OF sample_start_new sample_session_run sample_confirmed_facts(1)]
  by (auto simp: sample_confirmation_def allow_session_def allow_once_def)

lemma ended_shape:
  assumes "end_session why r = Inr (n, r')"
  shows "ir_grants r' = []" and "ir_confirmations r' = []" and "ir_objects r' = ir_objects r"
    and "\<not> ir_session_open r'" and "\<not> waiting a q (ir_broker r')"
  using assms
  by (auto simp: end_session_def close_session_def invalidate_def clear_grants_def cancel_all_def cancel_where_def waiting_def
      map_of_mapped set_decision_future Let_def rbind_Inr_iff split: if_splits)

text \<open>
  Property C34.
  The end of a session takes back what it granted: afterwards, whatever else happens and even if the
  session is opened again, no confirmation made before passes the check, and no request is answered from
  a session grant unless an answer accepted after the end allowed the session.
\<close>
theorem session_end_revokes:
  assumes "new_resolver stores = Inr r0" and "approval_run r0 evs r" and "(a, c) \<in> set (ir_confirmations r)"
    and "approval_run r evs' r1" and "end_session why r1 = Inr (n, r2)" and "approval_run r2 later r3"
  shows "require_current c q r3 \<noteq> Inr () \<and>
    (\<forall>q' d. preauthorize q' r3 = Some d \<longrightarrow> ad_grant_id d \<noteq> None \<longrightarrow>
      (\<exists>p. aq_session_grant q' = Some p \<and> session_answered later (aq_actor_id q') (grant_key p)))"
proof
  have "confirmations_fit evs r"
    using run_confirmations [OF assms(2)] new_resolver_shape [OF assms(1)] by (auto simp: confirmations_fit_def)
  then have "ac_identity c < ir_objects r" using assms(3) unfolding confirmations_fit_def by blast
  then have old: "ac_identity c < ir_objects r2" using run_objects [OF assms(4)] ended_shape(3) [OF assms(5)] by simp
  show "require_current c q r3 \<noteq> Inr ()"
  proof
    assume "require_current c q r3 = Inr ()"
    then obtain k where "(k, c) \<in> set (ir_confirmations r3)"
      by (auto simp: require_current_def rbind_Inr_iff dest: map_of_SomeD)
    then show False using run_later_confirmations [OF assms(6)] ended_shape(2) [OF assms(5)] old by fastforce
  qed
next
  have "waiting_asked [] (ir_broker r2)" using ended_shape(5) [OF assms(5)] by (simp add: waiting_asked_def)
  then show "\<forall>q' d. preauthorize q' r3 = Some d \<longrightarrow> ad_grant_id d \<noteq> None \<longrightarrow>
      (\<exists>p. aq_session_grant q' = Some p \<and> session_answered later (aq_actor_id q') (grant_key p))"
    using grant_origin [OF assms(6)] ended_shape(1) [OF assms(5)] by blast
qed

definition sample_ended :: "unit approval_resolver" where
  "sample_ended = snd (projr (end_session ''over'' sample_confirmed))"

lemma sample_end: "end_session ''over'' sample_confirmed = Inr (0, sample_ended)"
  by code_simp

lemma session_end_revokes_witness:
  "require_current sample_confirmation sample_approval (open_session sample_ended) \<noteq> Inr ()"
  using session_end_revokes [OF sample_start_new sample_session_run sample_confirmed_facts(3) run_here sample_end
      run_one [OF approval_step.opened], of sample_approval]
  by blast

text \<open>
  The confirmations are bounded: in every run at most 64 action ids have a reservation or a
  confirmation.
\<close>
theorem confirmations_bounded:
  assumes "new_resolver stores = Inr r0" and "approval_run r0 evs r"
  shows "outstanding r \<le> 64"
  using run_capacity [OF assms(2)] new_resolver_shape [OF assms(1)] by (simp add: outstanding_def)

lemma confirmations_bounded_witness: "outstanding sample_confirmed \<le> 64 \<and> outstanding sample_confirmed = 1"
  using confirmations_bounded [OF sample_start_new sample_session_run] by (auto, code_simp)

end
