(* ===== verification/Approval_Retention.thy ===== *)
theory Approval_Retention
  imports Approval_Sample
begin

text \<open>
  What a resolver retains, at its edges: a second answer before the waiter resumes, a task that starts
  after its session has ended, and the document a store of rules is persisted as.
\<close>

section \<open>A second answer\<close>

lemma resolve_again:
  assumes "resolve_request a d b = Inr (True, b')" and "valid_decision d'"
  shows "resolve_request a d' b' = Inr (False, b')"
  using assms by (auto simp: resolve_request_def rbind_Inr_iff set_decision_future split: option.splits if_splits)

lemma pending_after_resolve:
  "resolve_request a d b = Inr (True, b') \<Longrightarrow> pending_request a b' = pending_request a b"
  by (auto simp: resolve_request_def pending_request_def rbind_Inr_iff split: option.splits if_splits)

lemma answer_session:
  assumes "aq_session_grant q = Some p" and "aq_action_id q = Some a"
  shows "\<exists>g. ag_grant_id g = ''grant-'' @ fresh \<and> answer_decision fresh Allow_Session reason q r =
    Inr (Some (allow_session (''grant-'' @ fresh), Some g, None, r\<lparr>ir_grants := AList.update (aq_actor_id q, grant_key p) g (ir_grants r)\<rparr>))"
  using assms by (auto simp: answer_decision_def issue_grant_def Let_def)

text \<open>
  Property C35.
  A second answer that allows the session, sent before the waiter of the first has resumed, is not
  accepted, and still takes the grant of the first away: no grant for the capability is left, though the
  waiter is handed the session decision that names it.
\<close>
theorem second_answer_revokes_grant:
  assumes "pending_request a (ir_broker r) = Some q" and "aq_session_grant q = Some p" and "aq_action_id q = Some a"
    and "distinct (keys (ir_grants r))"
    and "handle_result f1 a Allow_Session why r = Inr (True, r1)" and "fresh_for f2 r1"
  shows "\<exists>r2. handle_result f2 a Allow_Session why' r1 = Inr (False, r2) \<and> find_grant q (ir_grants r2) = None \<and>
    broker_finish a (ir_broker r2) = Some (allow_session (''grant-'' @ f1), broker_release a (ir_broker r2))"
proof -
  let ?k = "(aq_actor_id q, grant_key p)"
  obtain g1 where d1: "answer_decision f1 Allow_Session why q r =
      Inr (Some (allow_session (''grant-'' @ f1), Some g1, None, r\<lparr>ir_grants := AList.update ?k g1 (ir_grants r)\<rparr>))"
    using answer_session [OF assms(2,3)] by blast
  then obtain b where b: "resolve_request a (allow_session (''grant-'' @ f1)) (ir_broker r) = Inr (True, b)"
    and r1: "r1 = record_confirmation a q (allow_session (''grant-'' @ f1)) (r\<lparr>ir_grants := AList.update ?k g1 (ir_grants r), ir_broker := b\<rparr>)"
    using assms(1,5) by (auto simp: handle_result_def rbind_Inr_iff split: if_splits)
  obtain g2 where g2: "ag_grant_id g2 = ''grant-'' @ f2" and d2: "answer_decision f2 Allow_Session why' q r1 =
      Inr (Some (allow_session (''grant-'' @ f2), Some g2, None, r1\<lparr>ir_grants := AList.update ?k g2 (ir_grants r1)\<rparr>))"
    using answer_session [OF assms(2,3)] by blast
  define r2 where "r2 = withdraw_answer (Some g2) None (r1\<lparr>ir_grants := AList.update ?k g2 (ir_grants r1)\<rparr>)"
  have again: "resolve_request a (allow_session (''grant-'' @ f2)) (ir_broker r1) = Inr (False, ir_broker r1)"
    using resolve_again [OF b] r1 by simp
  have "pending_request a (ir_broker r1) = Some q" using pending_after_resolve [OF b] assms(1) r1 by simp
  then have "handle_result f2 a Allow_Session why' r1 = Inr (False, r2)"
    using d2 again by (simp add: handle_result_def r2_def)
  moreover have "find_grant q (ir_grants r2) = None"
    using session_grants.withdrawn_key [of "ir_grants r1" g2 ?k] assms(2,4,6) g2 r1
    by (simp add: find_grant_def r2_def withdraw_answer_def fresh_for_def distinct_keys_update)
  moreover have "broker_finish a (ir_broker r2) = Some (allow_session (''grant-'' @ f1), broker_release a (ir_broker r2))"
    using b r1 by (auto simp: r2_def broker_finish_def resolve_request_def rbind_Inr_iff set_decision_future split: option.splits if_splits)
  ultimately show ?thesis by blast
qed

lemma second_answer_revokes_grant_witness:
  "\<exists>r2. handle_result ''2'' ''a'' Allow_Session None sample_answered = Inr (False, r2) \<and>
     find_grant sample_approval (ir_grants r2) = None \<and> find_grant sample_approval (ir_grants sample_answered) \<noteq> None"
proof -
  have "pending_request ''a'' (ir_broker sample_waiting) = Some sample_approval" "aq_session_grant sample_approval = Some sample_proposal"
    "aq_action_id sample_approval = Some ''a''" "distinct (keys (ir_grants sample_waiting))" "fresh_for ''2'' sample_answered"
    "find_grant sample_approval (ir_grants sample_answered) \<noteq> None"
    by code_simp+
  then show ?thesis using second_answer_revokes_grant [where a = "''a''" and r = sample_waiting and q = sample_approval
      and p = sample_proposal and why' = None, OF _ _ _ _ sample_answering(2)]
    by blast
qed

section \<open>A task that starts after its session\<close>

lemma cancel_where_keys: "keys (ab_pending (snd (cancel_where P d b))) = keys (ab_pending b)"
  by (simp add: cancel_where_def case_prod_beta comp_def)

text \<open>
  A request that was waiting for its task when the session ended is still presented in the ended
  session, and an answer that allows the session leaves a grant there.
\<close>
theorem ended_session_still_presents:
  assumes "resolver_resolve_begin f q r = Inr (Await_Task (ir_objects r), r1)" and "end_session why r1 = Inr (n, r2)"
    and "aq_action_id q = Some a" and "a \<noteq> []" and "aq_session_grant q = Some p"
    and "ab_presenter (ir_broker r)" and "\<not> ab_disposed (ir_broker r)" and "a \<notin> set (ab_presented (ir_broker r))"
    and "a \<notin> set (keys (ab_pending (ir_broker r)))"
  shows "\<exists>r3 r4. task_begin f q r2 = Inr (Presented, r3) \<and> \<not> ir_session_open r3 \<and>
    handle_result f' a Allow_Session None r3 = Inr (True, r4) \<and> \<not> ir_session_open r4 \<and> find_grant q (ir_grants r4) \<noteq> None"
proof -
  have same: "ir_broker r1 = ir_broker r"
    using assms(1) by (auto simp: resolver_resolve_begin_def Let_def rbind_Inr_iff split: if_splits option.splits)
  have ended: "\<not> ir_session_open r2" "ir_broker r2 = snd (cancel_where (\<lambda>_. True) (deny_decision (Some why)) (ir_broker r))"
    using assms(2) same by (auto simp: end_session_def close_session_def invalidate_def cancel_all_def Let_def rbind_Inr_iff split: prod.splits)
  then have r2: "\<not> ir_session_open r2" "ab_presenter (ir_broker r2)" "\<not> ab_disposed (ir_broker r2)"
    "a \<notin> set (ab_presented (ir_broker r2))" "a \<notin> set (keys (ab_pending (ir_broker r2)))"
    using assms(6-9) cancel_where_keys [of "\<lambda>_. True" "deny_decision (Some why)" "ir_broker r"] by (simp_all add: cancel_where_def)
  define b where "b = (ir_broker r2)\<lparr>ab_presented := a # ab_presented (ir_broker r2),
    ab_pending := AList.update a \<lparr>pa_request = q, pa_future = Waiting, pa_accepting = True\<rparr> (ab_pending (ir_broker r2))\<rparr>"
  define r3 where "r3 = r2\<lparr>ir_broker := b\<rparr>"
  have presented: "task_begin f q r2 = Inr (Presented, r3)"
    using r2 assms(3,4) by (simp add: task_begin_def ensure_action_id_def broker_resolve_begin_def r3_def b_def)
  obtain g where dec: "answer_decision f' Allow_Session None q r3 = Inr (Some (allow_session (''grant-'' @ f'), Some g, None,
      r3\<lparr>ir_grants := AList.update (aq_actor_id q, grant_key p) g (ir_grants r3)\<rparr>))"
    using answer_session [OF assms(5,3)] by blast
  obtain b' where b': "resolve_request a (allow_session (''grant-'' @ f')) (ir_broker r3) = Inr (True, b')"
    by (simp add: resolve_request_def r3_def b_def)
  have "pending_request a (ir_broker r3) = Some q" by (simp add: pending_request_def r3_def b_def)
  then have "handle_result f' a Allow_Session None r3 = Inr (True, record_confirmation a q (allow_session (''grant-'' @ f'))
      (r3\<lparr>ir_grants := AList.update (aq_actor_id q, grant_key p) g (ir_grants r3), ir_broker := b'\<rparr>))"
    using dec b' by (simp add: handle_result_def)
  then show ?thesis using presented r2(1) assms(5) by (auto simp: r3_def find_grant_def)
qed

lemma ended_session_still_presents_witness:
  "\<exists>r3 r4. task_begin ''1'' sample_approval (snd (projr (end_session [] sample_resolving))) = Inr (Presented, r3) \<and>
     \<not> ir_session_open r3 \<and> handle_result ''2'' ''a'' Allow_Session None r3 = Inr (True, r4) \<and> ir_grants r4 \<noteq> []"
proof -
  have ended: "end_session [] sample_resolving = Inr (0, snd (projr (end_session [] sample_resolving)))"
    and begun: "resolver_resolve_begin ''1'' sample_approval sample_reserved = Inr (Await_Task (ir_objects sample_reserved), sample_resolving)"
    and facts: "aq_action_id sample_approval = Some ''a''" "''a'' \<noteq> ([] :: string)" "aq_session_grant sample_approval = Some sample_proposal"
      "ab_presenter (ir_broker sample_reserved)" "\<not> ab_disposed (ir_broker sample_reserved)"
      "''a'' \<notin> set (ab_presented (ir_broker sample_reserved))" "''a'' \<notin> set (keys (ab_pending (ir_broker sample_reserved)))"
    by code_simp+
  have "find_grant sample_approval [] = None" by (simp add: find_grant_def sample_approval_def)
  then show ?thesis using ended_session_still_presents [OF begun ended facts, of "''2''"] by fastforce
qed

end
