(* ===== verification/Rule_Stores.thy ===== *)
theory Rule_Stores
  imports Retained_Stores
begin

text \<open>
  The stores of retained rules: the invariant that issuing and revoking keep, and the document a store
  is persisted as, read back.
\<close>

section \<open>Proposals\<close>

definition kept_proposal :: "grant_proposal \<Rightarrow> bool" where
  "kept_proposal p \<longleftrightarrow> gp_capability p \<noteq> [] \<and> gp_summary p \<noteq> [] \<and> (\<forall>(k, v) \<in> set (gp_constraints p). k \<noteq> [] \<and> v \<noteq> []) \<and>
     distinct (keys (gp_constraints p)) \<and> sorted (gp_constraints p)"

lemma distinct_keys_sort: "distinct (keys (sort d)) \<longleftrightarrow> distinct (keys (d :: (string \<times> string) list))"
  by (rule mset_eq_imp_distinct_iff) (metis mset_map mset_sort)

lemma make_proposal_kept: "make_proposal capability constraints summary = Inr p \<Longrightarrow> kept_proposal p"
  by (auto simp: make_proposal_def kept_proposal_def list_all_iff rbind_Inr_iff distinct_keys_sort)

lemma kept_proposal_again:
  "kept_proposal p \<Longrightarrow> make_proposal (gp_capability p) (gp_constraints p) (gp_summary p) = Inr p"
  by (auto simp: make_proposal_def kept_proposal_def list_all_iff sorted_sort_id)

section \<open>The invariant of a store\<close>

definition kept_rule :: "amendment_scope \<Rightarrow> grant_key \<times> approval_rule \<Rightarrow> bool" where
  "kept_rule scope = (\<lambda>(k, ru). k = grant_key (ar_proposal ru) \<and> ar_scope ru = scope \<and> ar_rule_id ru \<noteq> [] \<and>
     ar_source_action_id ru \<noteq> [] \<and> kept_proposal (ar_proposal ru))"

definition kept_rules :: "rule_store \<Rightarrow> bool" where
  "kept_rules s \<longleftrightarrow> distinct (keys (rs_rules s)) \<and> (\<forall>x \<in> set (rs_rules s). kept_rule (rs_scope s) x)"

inductive used_store :: "rule_store \<Rightarrow> bool" where
  empty: "used_store \<lparr>rs_scope = scope, rs_rules = []\<rparr>"
| issue: "used_store s \<Longrightarrow> make_proposal capability constraints summary = Inr (am_grant am) \<Longrightarrow> check_request (q :: unit approval_request) = Inr q \<Longrightarrow>
    fresh \<noteq> [] \<Longrightarrow> issue_rule fresh q am s = Inr (ru, s') \<Longrightarrow> used_store s'"
| revoke: "used_store s \<Longrightarrow> used_store (snd (revoke_rule rule_id s))"

lemma update_new: "k \<notin> set (keys d) \<Longrightarrow> AList.update k v d = d @ [(k, v)]"
  by (induction d) auto

theorem used_store_kept: "used_store s \<Longrightarrow> kept_rules s"
proof (induction rule: used_store.induct)
  case (empty scope)
  then show ?case by (simp add: kept_rules_def)
next
  case (issue s capability constraints summary am q fresh ru s')
  have proposal: "kept_proposal (am_grant am)" by (rule make_proposal_kept [OF issue(2)])
  show ?case using issue(3-6) proposal
    by (auto simp: issue_rule_def check_request_def kept_rules_def kept_rule_def Let_def rbind_Inr_iff update_new map_of_None_keys
        split: if_splits option.splits)
next
  case (revoke s rule_id)
  have "rs_scope (snd (revoke_rule rule_id s)) = rs_scope s" by (simp add: revoke_rule_def split: prod.split)
  then show ?case using revoke retained_rules.distinct_revoke [of s rule_id] retained_rules.in_revoke [of _ rule_id s]
    by (simp add: kept_rules_def)
qed

section \<open>Reading a document back\<close>

lemma required_strings:
  assumes "\<forall>(k, v) \<in> set d. k \<noteq> [] \<and> v \<noteq> []"
  shows "rmap (\<lambda>(k, v). rbind (required_string (Some (JStr k))) (\<lambda>k. rbind (required_string (Some v)) (\<lambda>v. Inr (k, v))))
    (map (\<lambda>(k, v). (k, JStr v)) d) = Inr d"
  using assms by (induction d) auto

lemma load_rule_back:
  assumes "kept_rule scope (k, ru)"
  shows "load_rule scope rules (rule_document ru) = Inr (AList.update k ru rules)"
  using assms required_strings [of "gp_constraints (ar_proposal ru)"] kept_proposal_again [of "ar_proposal ru"]
  by (cases ru) (auto simp: kept_rule_def load_rule_def rule_document_def kept_proposal_def dict_of_distinct)

lemma load_rules_back:
  assumes "\<forall>x \<in> set xs. kept_rule scope x" and "distinct (keys (rules @ xs))"
  shows "rfold (load_rule scope) rules (map rule_document (map snd xs)) = Inr (rules @ xs)"
  using assms
proof (induction xs arbitrary: rules)
  case (Cons x xs)
  obtain k ru where x: "x = (k, ru)" by (cases x)
  have "load_rule scope rules (rule_document ru) = Inr (rules @ [x])"
    using Cons.prems load_rule_back [of scope k ru rules] by (auto simp: x update_new)
  then show ?case using Cons.IH [of "rules @ [x]"] Cons.prems by (auto simp: x)
qed simp

lemma load_other_scope:
  assumes "\<forall>x \<in> set xs. kept_rule scope' x" and "scope \<noteq> scope'"
  shows "rfold (load_rule scope) rules (map rule_document (map snd xs)) = Inr rules"
  using assms
proof (induction xs)
  case (Cons x xs)
  then show ?case
    by (cases x) (auto simp: kept_rule_def load_rule_def rule_document_def scope_text_def split: amendment_scope.splits)
qed simp

text \<open>
  Property C36.
  A store of rules survives its document: whatever was issued and revoked, what is persisted is read back
  as the same store. A store of the other scope reads an empty store from it, so what it persists next to
  the same file holds none of these rules.
\<close>
theorem rules_read_back:
  assumes "used_store s"
  shows "load_rules scope (Some (rules_document s)) =
    Inr (if scope = rs_scope s then s else \<lparr>rs_scope = scope, rs_rules = []\<rparr>)"
proof -
  have kept: "distinct (keys (rs_rules s))" "\<forall>x \<in> set (rs_rules s). kept_rule (rs_scope s) x"
    using used_store_kept [OF assms] by (simp_all add: kept_rules_def)
  show ?thesis
  proof (cases "scope = rs_scope s")
    case True
    then show ?thesis using load_rules_back [OF kept(2), of "[]"] kept(1)
      by (simp add: load_rules_def rules_document_def stored_rules_def)
  next
    case False
    then show ?thesis using load_other_scope [OF kept(2), of scope "[]"]
      by (simp add: load_rules_def rules_document_def stored_rules_def)
  qed
qed

definition sample_rule_proposal :: grant_proposal where
  "sample_rule_proposal = projr (make_proposal ''deploy'' [(''stage'', ''dev'')] ''deploy to dev'')"

definition sample_asking_rule :: "unit approval_request" where
  "sample_asking_rule = \<lparr>aq_tool_name = ''bash'', aq_reason = None, aq_action_id = Some ''a'', aq_actor_id = ''root'',
     aq_session_grant = None, aq_policy_amendments = [\<lparr>am_scope = User_Scope, am_grant = sample_rule_proposal\<rparr>], aq_details = ()\<rparr>"

definition sample_rule_store :: rule_store where
  "sample_rule_store = snd (projr (issue_rule ''policy-1'' sample_asking_rule \<lparr>am_scope = User_Scope, am_grant = sample_rule_proposal\<rparr>
     \<lparr>rs_scope = User_Scope, rs_rules = []\<rparr>))"

lemma sample_rule_store_used: "used_store sample_rule_store"
  by (rule used_store.issue [OF used_store.empty [of User_Scope], of "''deploy''" "[(''stage'', ''dev'')]" "''deploy to dev''"
      "\<lparr>am_scope = User_Scope, am_grant = sample_rule_proposal\<rparr>" sample_asking_rule "''policy-1''"
      "fst (projr (issue_rule ''policy-1'' sample_asking_rule \<lparr>am_scope = User_Scope, am_grant = sample_rule_proposal\<rparr>
        \<lparr>rs_scope = User_Scope, rs_rules = []\<rparr>))"]) code_simp+

lemma rules_read_back_witness:
  "load_rules User_Scope (Some (rules_document sample_rule_store)) = Inr sample_rule_store \<and>
   load_rules Project_Scope (Some (rules_document sample_rule_store)) = Inr \<lparr>rs_scope = Project_Scope, rs_rules = []\<rparr> \<and>
   length (stored_rules sample_rule_store) = 1"
proof -
  have "rs_scope sample_rule_store = User_Scope" "length (stored_rules sample_rule_store) = 1" by code_simp+
  then show ?thesis using rules_read_back [OF sample_rule_store_used] by simp
qed

end
