(* ===== verification/Spec2Isabelle.thy ===== *)
theory Spec2Isabelle
  imports Runtime_Properties Event_Log_Journal Goal_Planning_Properties Repository_Properties Store_Properties
    Policy_Properties Publication_Properties Approval_Properties Approval_Retention Rule_Stores
begin

text \<open>
  Verification library of the durable core of loushang: the Work recording core, the Goal component
  that commits to Work, the journal both are stored in, the conversation (its branch graph, its repository
  and its store), and the decisions about a tool call: the policy rules and the approvals. Paths are relative to \<open>src/loushang\<close>.

  \<^bold>\<open>The program's part.\<close> A Work runtime accepts operations, runs their steps through executors of
  other subsystems and records everything it decides in an append-only event log; what a run, its
  recording contract, its cancellation and its plan are after a restart is computed from that log
  alone. A Goal is a long-lived commitment over Work: its records are kept in a journal of their own,
  and a reducer validates every history before it is believed. Both logs are files of one JSON object
  per line. Independent of these, the records of a conversation form a tree whose branches are read,
  extended and forked; a repository keeps them with a selected leaf, and a store keeps conversations by
  key, with a revision that every write must expect. A tool call is decided by the policy first; what it
  asks about is approved by a resolver, which reuses session grants and retained rules, presents the
  request otherwise, and issues confirmations for exact actions.

  \<^bold>\<open>Theories and the code they model.\<close>
  \<^item> \<open>Prelude\<close>: JSON values (\<open>foundation/json.py\<close>), results of code that may raise, dictionaries,
    decimal numerals, and the locales \<open>checked_machine\<close> and \<open>forward_machine\<close> of replay loops.
  \<^item> \<open>Json_Text\<close>: \<open>json.dumps\<close> and \<open>json.loads\<close> as the program calls them, and their round trip.
  \<^item> \<open>Jsonl_Journal\<close> (\<open>harness/journal/jsonl.py\<close>, \<open>types.py\<close>, \<open>codec.py\<close>): formats, load policies,
    \<open>append_jsonl_record\<close>, \<open>append_jsonl_records\<close>, \<open>write_jsonl\<close>, \<open>decode_jsonl\<close>, \<open>load_jsonl\<close> with
    its repair of a torn tail; the locale \<open>record_codec\<close> is the contract of a client's codec.
  \<^item> \<open>Event_Log\<close> (\<open>harnesswork/event_log.py\<close>): the log, its indexes, queries and subscriptions; the
    locale \<open>event_log_backend\<close> is the protocol \<open>EventLogBackend\<close>. \<open>Event_Log_Journal\<close>: the codec of
    the entries and the backend on a file.
  \<^item> \<open>Run_Projection\<close> (\<open>harnesswork/run_projection.py\<close>), \<open>Recording\<close> (\<open>recording.py\<close>),
    \<open>Cancellation_Projection\<close> (\<open>cancellation_projection.py\<close>), \<open>Plan_Projection\<close> (\<open>plan_projection.py\<close>): what is
    computed from the entries.
  \<^item> \<open>Actions\<close>, \<open>Work_Run\<close>, \<open>Work_Runtime\<close> (\<open>harnesswork/runtime.py\<close>, \<open>types.py\<close>): the runtime, each
    asynchronous method cut at its suspension points into sections on explicit state.
    \<open>Run_Invariant\<close>, \<open>Run_Frame\<close>, \<open>Run_Sections\<close>, \<open>Run_Endings\<close>, \<open>Runtime_Correct\<close> and
    \<open>Runtime_Properties\<close>: the invariant that ties a live run to its entries in the log, kept by every
    section in any interleaving, and its consequences.
  \<^item> \<open>Goal_Records\<close> (\<open>harnesswork/goal/records.py\<close>): model, codec and reducer; \<open>Goal_History\<close>: the
    abstract life of Goals, batches and commands, and the reducer as a refinement of it;
    \<open>Goal_Properties\<close>: the properties of histories.
  \<^item> \<open>Goal_Store\<close> (\<open>coding/adapters/_goal_store.py\<close>): the journal of one Goal scope; the locale
    \<open>goal_record_store\<close> is the protocol \<open>GoalRecordStore\<close>.
  \<^item> \<open>Goal_Controller\<close> (\<open>harnesswork/goal/controller.py\<close>, \<open>contracts.py\<close>): Goal commands over a record
    store and the Work runtime, \<open>advance\<close> and cancellation cut at their suspension points; a section
    that calls \<open>WorkRuntime.cancel\<close> contains what that call does up to its own first suspension
    (\<open>cancel_begin\<close>), and one in which it resumes, \<open>cancel_resumed\<close>.
    \<open>Goal_Control\<close>: what every section keeps; \<open>Goal_Steps\<close>: the step relation of controller and
    runtime, receipts and facts; \<open>Goal_Outcomes\<close>: what operations have done when they return;
    \<open>Goal_Control_Sample\<close> and \<open>Goal_Control_Properties\<close>: a sample controller and the properties.
  \<^item> \<open>Goal_Planning\<close> (\<open>harnesswork/goal/tasks.py\<close>, \<open>batch_planning.py\<close>): the task policy that a controller
    asks: what it observes of batches and runs, the candidate it prepares, its confirmations and its
    assessment, over a record of the domain's methods. \<open>Goal_Planning_Properties\<close>: what the completion of a task rests on, its
    bounds, and proposals that are consumed once.
  \<^item> \<open>Branch_Graph\<close> (\<open>harness/conversation/branch.py\<close>): construction in both modes, strict appending,
    paths, ancestors, forks. \<open>Branch_Links\<close>: the search for cycles against rooted records;
    \<open>Branch_Building\<close>: the strict graph in closed form; \<open>Branch_Modes\<close>: strict and compatible
    construction agree, and what the repair keeps; \<open>Branch_Paths\<close>: lineages and the cached path;
    \<open>Branch_Appending\<close>: appending is building; \<open>Branch_Properties\<close>: reachable graphs, the properties.
  \<^item> \<open>Conversation_Repository\<close> (\<open>harness/conversation/repository.py\<close>): header, records, graph and selected
    leaf. \<open>Repository_Invariant\<close>: what every operation keeps; \<open>Repository_Paths\<close>: the active path, forks
    and deltas; \<open>Repository_Tree\<close>: the loop of \<open>tree\<close>; \<open>Repository_Properties\<close>: the properties.
  \<^item> \<open>Conversation_Store\<close> (\<open>harness/conversation/store.py\<close>, \<open>stores/memory.py\<close>): the in-memory provider of
    the store protocol. \<open>Store_Properties\<close>: its runs, its invariant, acknowledged appends and batches.
  \<^item> \<open>Policy_Rules\<close> (\<open>harness/policy/decisions.py\<close>, \<open>matchers.py\<close>, \<open>evaluators.py\<close>, \<open>engine.py\<close>, the
    subjects of \<open>subjects.py\<close>): matchers, rules, the engine and evaluator chains. \<open>Policy_Properties\<close>: the
    order in which the engine decides, and chains that fail closed.
  \<^item> \<open>Approval_Requests\<close> (\<open>harness/approval/requests.py\<close>, \<open>grants.py\<close>, \<open>rules.py\<close>): requests, decisions,
    session grants and retained rules. \<open>Retained_Stores\<close>: the locale \<open>retained_store\<close> is the contract that
    the store of grants and the store of rules share. \<open>Rule_Stores\<close>: the invariant of a store of rules and the round
    trip of its document.
  \<^item> \<open>Publication_Grants\<close> (\<open>harness/approval/proposals.py\<close>, \<open>harness/policy/_powershell.py\<close>): which
    commands may be granted for a session. \<open>Publication_Properties\<close>: the grammar they obey.
  \<^item> \<open>Approval_Resolver\<close> (\<open>harness/approval/broker.py\<close>, \<open>resolvers.py\<close>): the broker and the interactive
    resolver, cut at their suspension points, and the other resolvers. \<open>Approval_Runs\<close>: the step relation
    with its events, and the moves of the broker it makes; \<open>Approval_Courses\<close>: the course of one request;
    \<open>Approval_Provenance\<close>, \<open>Approval_Confirmations\<close>: where grants, rules and confirmations come from, and
    their bound; \<open>Approval_Sample\<close>, \<open>Approval_Properties\<close>, \<open>Approval_Retention\<close>: a sample run, the
    properties, and the two edges where an answer takes or leaves more than it should.

  \<^bold>\<open>Conventions.\<close> A function that may raise returns a sum, \<open>Inl\<close> the exception. Python dictionaries are
  association lists in insertion order. Text is made of the characters below 256, so that a byte and
  a character are both a \<open>char\<close>. A float is its literal. A file is its bytes, or absent. Times and the
  functions \<open>isoformat\<close> and \<open>fromisoformat\<close> are arguments, as are executors, cancellation drivers,
  recording facts, the answers of the Goal policies and every other collaborator outside the modelled
  files. Identifiers drawn from \<open>uuid4\<close> are arguments; where it matters that they do not repeat, an answer
  of a run draws one that no grant or rule has (\<open>fresh_for\<close>). The Goal policies answer and do nothing else: they do not call the controller back.

  \<^bold>\<open>Bounds.\<close> The parser of \<open>Json_Text\<close> recurs on fuel; \<open>loads\<close> gives it the length of the text, and
  \<open>loads_enough_fuel\<close> shows that no larger amount changes its answer. The loops of
  \<open>Branch_Graph\<close> end because a walk visits an id at most once and every cut removes a link. The stack
  loop of \<open>Conversation_Repository\<close> is a partial function; \<open>tree_holds_every_record_once\<close> shows that it
  ends on every conversation. Every other recursion is structural.

  \<^bold>\<open>What is not checked by the code.\<close> The runtime accepts an operation with an empty domain and publishes a fact
  with an empty kind, and the replay refuses both: what rests on replay is stated for a log whose
  entries are named (\<open>entry_named\<close>), and the steps of the model do not exclude the others.

  \<^bold>\<open>Not modelled.\<close> Among the interleaved sections of the runtime (\<open>run_step\<close>), the cancellation of a
  caller of \<open>cancel\<close> while it waits for the execution task (the controller's own calls have it); a clock
  that raises in the middle of an appended batch of the conversation store; a write of the file of rules
  that fails after the rule was kept in memory. Further, locks, \<open>fsync\<close>, permissions, descriptors and Windows paths of the journal; the
  asyncio scheduler (any interleaving of sections is allowed instead); of the task policy the read-only
  \<open>trace\<close>, the material of prompts and the prepared bindings of executors; the integrations of Work with
  Agent sessions; how a command line is normalised into a policy subject and the heuristics that detect
  effects (arguments of the model); what presenters and the permissions page show; the file a store of
  rules is written to (its document is modelled); the plugin approval services; and the subsystems of the repository outside \<open>harnesswork\<close>, the journal, the
  branch graph, the repository, the memory store, the policy and the approvals, which the manifest lists (of the conversations the
  file store, the indexes, the catalog and the JSONL codec).
\<close>

end
